(* ===== verification/Prelude.thy ===== *)
theory Prelude
  imports Main "HOL-Library.Word" "HOL-Library.Multiset"
begin

unbundle bit_operations_syntax

text \<open>
  Shared vocabulary of the libnghttp2 development: the fixed-width integer types of C, the
  return codes of \<open>include/nghttp2/nghttp2.h\<close> and \<open>nghttp2_int.h\<close>, the allocator parameter,
  and the generic facts about lists, bytes and power-of-two masks that several components use.

  Conventions.  The data model is LP64: \<open>size_t\<close> and pointers have 64 bits, \<open>int\<close> has 32.
  A length of an object that is in memory is a \<open>nat\<close>; an integer whose wrap-around the code
  relies on is a word of its width.  An \<open>int\<close> return code is an \<open>int\<close> with 0 for success.  A
  function that can fail an \<open>assert\<close> returns an option, with \<open>None\<close> for the abort.
\<close>

type_synonym u8 = "8 word"
type_synonym u16 = "16 word"
type_synonym u32 = "32 word"
type_synonym u64 = "64 word"

type_synonym bytes = "u8 list"

named_theorems ng_defs \<open>constants and small definitions that proofs unfold\<close>
named_theorems ng_word \<open>facts moving between words and natural numbers\<close>

subsection \<open>Return codes\<close>

type_synonym rc = int

definition NGHTTP2_ERR_INVALID_ARGUMENT :: rc where "NGHTTP2_ERR_INVALID_ARGUMENT = -501"
definition NGHTTP2_ERR_BUFFER_ERROR :: rc where "NGHTTP2_ERR_BUFFER_ERROR = -502"
definition NGHTTP2_ERR_INVALID_STATE :: rc where "NGHTTP2_ERR_INVALID_STATE = -519"
definition NGHTTP2_ERR_FRAME_SIZE_ERROR :: rc where "NGHTTP2_ERR_FRAME_SIZE_ERROR = -522"
definition NGHTTP2_ERR_HEADER_COMP :: rc where "NGHTTP2_ERR_HEADER_COMP = -523"
definition NGHTTP2_ERR_FLOW_CONTROL :: rc where "NGHTTP2_ERR_FLOW_CONTROL = -524"
definition NGHTTP2_ERR_INSUFF_BUFSIZE :: rc where "NGHTTP2_ERR_INSUFF_BUFSIZE = -525"
definition NGHTTP2_ERR_HTTP_HEADER :: rc where "NGHTTP2_ERR_HTTP_HEADER = -531"
definition NGHTTP2_ERR_NOMEM :: rc where "NGHTTP2_ERR_NOMEM = -901"
definition NGHTTP2_ERR_IGN_HTTP_HEADER :: rc where "NGHTTP2_ERR_IGN_HTTP_HEADER = -105"
definition NGHTTP2_ERR_REMOVE_HTTP_HEADER :: rc where "NGHTTP2_ERR_REMOVE_HTTP_HEADER = -106"

lemmas rc_defs [ng_defs] =
  NGHTTP2_ERR_INVALID_ARGUMENT_def NGHTTP2_ERR_BUFFER_ERROR_def NGHTTP2_ERR_INVALID_STATE_def
  NGHTTP2_ERR_FRAME_SIZE_ERROR_def NGHTTP2_ERR_HEADER_COMP_def NGHTTP2_ERR_FLOW_CONTROL_def
  NGHTTP2_ERR_INSUFF_BUFSIZE_def NGHTTP2_ERR_HTTP_HEADER_def NGHTTP2_ERR_NOMEM_def
  NGHTTP2_ERR_IGN_HTTP_HEADER_def NGHTTP2_ERR_REMOVE_HTTP_HEADER_def

subsection \<open>The allocator\<close>

text \<open>
  \<open>nghttp2_mem\<close> is a table of allocation functions the application supplies
  (\<open>nghttp2_mem.c\<close>).  It is a parameter of every operation that allocates: \<open>m n\<close> says whether
  the request of \<open>n\<close> bytes made by this call returns memory.  A later call may be given another
  \<open>m\<close>, so an allocation may fail at one time and succeed at another.
\<close>

type_synonym mem = "nat \<Rightarrow> bool"

subsection \<open>Lists\<close>

lemma nth_append_right [simp]: "n = length xs \<Longrightarrow> (xs @ y # ys) ! n = y"
  by simp

lemma list_update_append_right [simp]:
  "n = length xs \<Longrightarrow> (xs @ y # ys)[n := z] = xs @ z # ys"
  by simp

lemma take_Suc_drop: "i < length xs \<Longrightarrow> drop i xs = xs ! i # drop (Suc i) xs"
  by (simp add: Cons_nth_drop_Suc)

lemma swap_mset:
  assumes "i < length xs" and "j < length xs"
  shows "mset (xs[i := xs ! j, j := xs ! i]) = mset xs"
  using assms by (simp add: mset_swap)

subsection \<open>Words as natural numbers\<close>

lemma unat_less_exp: "unat (x::'a::len word) < 2 ^ LENGTH('a)"
  by (rule unsigned_less)

lemma unat_eqD: "unat (x::'a::len word) = unat y \<Longrightarrow> x = y"
  by (simp add: word_unat_eq_iff)

subsection \<open>Masks of power-of-two tables\<close>

text \<open>The code computes \<open>x mod 2^k\<close> as \<open>x & (2^k - 1)\<close>.\<close>

lemma and_mask_take_bit:
  fixes x :: "'a::len word"
  shows "x AND (2 ^ k - 1) = take_bit k x"
  by (simp add: take_bit_eq_mask mask_eq_decr_exp)

lemma unat_and_mask [ng_word]:
  fixes x :: "'a::len word"
  shows "unat (x AND (2 ^ k - 1)) = unat x mod 2 ^ k"
  by (simp only: and_mask_take_bit unsigned_take_bit_eq) (rule take_bit_eq_mod)

subsection \<open>Shifts and disjoint bits\<close>

lemma or_disjoint_nat:
  fixes x :: nat
  assumes "x < 2 ^ m"
  shows "v * 2 ^ m OR x = v * 2 ^ m + x"
proof -
  have x: "x = take_bit m x" using assms by (simp add: take_bit_nat_eq_self)
  have "push_bit m v AND x = 0"
    by (subst x, rule bit_eqI) (auto simp: bit_simps)
  then show ?thesis by (simp add: push_bit_eq_mult disjunctive_add_eq_or)
qed

lemma unat_drop_bit: "unat (drop_bit n w) = unat (w :: 'a::len word) div 2 ^ n"
proof -
  have "unat (drop_bit n w) = drop_bit n (take_bit LENGTH('a) (unat w))" by (rule unsigned_drop_bit_eq)
  then show ?thesis using unat_less_exp [of w] by (simp add: drop_bit_eq_div take_bit_nat_eq_self)
qed

lemma unat_push_bit: "unat (push_bit n w) = unat (w :: 'a::len word) * 2 ^ n mod 2 ^ LENGTH('a)"
proof -
  have "unat (push_bit n w) = take_bit LENGTH('a) (push_bit n (unat w))" by (rule unsigned_push_bit_eq)
  then show ?thesis by (simp only: push_bit_eq_mult [where 'a = nat] take_bit_eq_mod)
qed

subsection \<open>Strings of the source\<close>

text \<open>A string literal as the bytes it denotes.\<close>

definition ascii :: "string \<Rightarrow> bytes" where
  "ascii s = map of_char s"

lemma ascii_simps [simp]: "ascii [] = []" "ascii (c # s) = of_char c # ascii s" "ascii (s @ t) = ascii s @ ascii t"
  by (simp_all add: ascii_def)

lemma length_ascii [simp]: "length (ascii s) = length s"
  by (simp add: ascii_def)

end
