(* ===== verification/Ratelim.thy ===== *)
theory Ratelim
  imports Prelude
begin

text \<open>
  The rate limiter of \<open>nghttp2_ratelim.c\<close>, which the session drains for every stream reset it
  receives: a token bucket on 64-bit counters.  The theorems say that the bucket never holds
  more than its burst and that the overflow guards make the 64-bit code equal to the bucket on
  unbounded numbers.
\<close>

record nghttp2_ratelim =
  rl_val :: u64
  rl_burst :: u64
  rl_rate :: u64
  rl_tstamp :: u64

definition nghttp2_ratelim_init :: "u64 \<Rightarrow> u64 \<Rightarrow> nghttp2_ratelim" where
  "nghttp2_ratelim_init burst rate =
     \<lparr>rl_val = burst, rl_burst = burst, rl_rate = rate, rl_tstamp = 0\<rparr>"

definition UINT64_MAX :: u64 where
  "UINT64_MAX = -1"

definition nghttp2_ratelim_update :: "nghttp2_ratelim \<Rightarrow> u64 \<Rightarrow> nghttp2_ratelim" where
  "nghttp2_ratelim_update rl tstamp =
     (if tstamp = rl_tstamp rl then rl
      else
        let d = (if tstamp > rl_tstamp rl then tstamp - rl_tstamp rl else 1);
            rl = rl\<lparr>rl_tstamp := tstamp\<rparr>
        in if UINT64_MAX div d < rl_rate rl then rl\<lparr>rl_val := rl_burst rl\<rparr>
           else
             let gain = rl_rate rl * d
             in if UINT64_MAX - gain < rl_val rl then rl\<lparr>rl_val := rl_burst rl\<rparr>
                else
                  let rl = rl\<lparr>rl_val := rl_val rl + gain\<rparr>
                  in rl\<lparr>rl_val := min (rl_val rl) (rl_burst rl)\<rparr>)"

definition nghttp2_ratelim_drain :: "nghttp2_ratelim \<Rightarrow> u64 \<Rightarrow> rc \<times> nghttp2_ratelim" where
  "nghttp2_ratelim_drain rl n =
     (if rl_val rl < n then (-1, rl) else (0, rl\<lparr>rl_val := rl_val rl - n\<rparr>))"

definition ratelim_inv :: "nghttp2_ratelim \<Rightarrow> bool" where
  "ratelim_inv rl \<longleftrightarrow> rl_val rl \<le> rl_burst rl"

subsection \<open>The bucket on unbounded numbers\<close>

text \<open>
  What the limiter promises: when time advances by \<open>d\<close> (or moves backwards, which counts as one
  unit), the bucket gains \<open>rate * d\<close> tokens and is cut off at its burst.
\<close>

definition elapsed :: "nat \<Rightarrow> nat \<Rightarrow> nat" where
  "elapsed old new = (if new = old then 0 else if new > old then new - old else 1)"

definition refill :: "nat \<Rightarrow> nat \<Rightarrow> nat \<Rightarrow> nat \<Rightarrow> nat" where
  "refill v burst rate d = min burst (v + rate * d)"

lemma UINT64_MAX_unat [simp]: "unat UINT64_MAX = 2 ^ 64 - 1"
  by (simp add: UINT64_MAX_def unsigned_minus_1_eq_mask mask_eq_exp_minus_1)

lemma mult_guard:
  assumes d: "(0::u64) < d"
  shows "UINT64_MAX div d < r \<longleftrightarrow> 2 ^ 64 \<le> unat r * unat d"
proof -
  have pos: "0 < unat d" using d by (simp add: word_less_nat_alt)
  have "UINT64_MAX div d < r \<longleftrightarrow> (2 ^ 64 - 1) div unat d < unat r"
    by (simp add: word_less_nat_alt unat_div)
  also have "\<dots> \<longleftrightarrow> 2 ^ 64 - 1 < unat r * unat d"
    using pos by (simp add: div_less_iff_less_mult)
  finally show ?thesis by auto
qed

lemma add_guard: "UINT64_MAX - g < (v::u64) \<longleftrightarrow> 2 ^ 64 \<le> unat v + unat g"
proof -
  have "unat (UINT64_MAX - g) = 2 ^ 64 - 1 - unat g"
    by (subst unat_sub) (simp_all add: UINT64_MAX_def unsigned_minus_1_eq_mask mask_eq_exp_minus_1)
  moreover have "unat g < 2 ^ 64" using unat_less_exp [of g] by simp
  ultimately show ?thesis by (simp add: word_less_nat_alt, arith)
qed

lemma unat_mult_nowrap: "unat (r::u64) * unat d < 2 ^ 64 \<Longrightarrow> unat (r * d) = unat r * unat d"
  by (simp add: unat_word_ariths)

lemma unat_add_nowrap: "unat (v::u64) + unat g < 2 ^ 64 \<Longrightarrow> unat (v + g) = unat v + unat g"
  by (simp add: unat_word_ariths)

lemma update_elapsed_word:
  assumes "t \<noteq> rl_tstamp rl"
  shows "unat (if t > rl_tstamp rl then t - rl_tstamp rl else 1) =
           elapsed (unat (rl_tstamp rl)) (unat t)"
  using assms by (auto simp: elapsed_def word_less_nat_alt unat_sub word_le_nat_alt dest: unat_eqD)

lemma update_fields [simp]:
  "rl_burst (nghttp2_ratelim_update rl t) = rl_burst rl"
  "rl_rate (nghttp2_ratelim_update rl t) = rl_rate rl"
  "rl_tstamp (nghttp2_ratelim_update rl t) = t"
  by (simp_all add: nghttp2_ratelim_update_def Let_def)

lemma update_unbounded:
  assumes inv: "ratelim_inv rl"
  shows "unat (rl_val (nghttp2_ratelim_update rl t)) =
           refill (unat (rl_val rl)) (unat (rl_burst rl)) (unat (rl_rate rl))
             (elapsed (unat (rl_tstamp rl)) (unat t))"
proof (cases "t = rl_tstamp rl")
  case True
  with inv show ?thesis
    by (simp add: nghttp2_ratelim_update_def refill_def elapsed_def ratelim_inv_def
        word_le_nat_alt)
next
  case False
  define d where "d = (if t > rl_tstamp rl then t - rl_tstamp rl else 1)"
  have ud: "unat d = elapsed (unat (rl_tstamp rl)) (unat t)"
    unfolding d_def by (rule update_elapsed_word [OF False])
  have d0: "0 < d" unfolding d_def by (auto simp: word_gt_0)
  have b: "unat (rl_burst rl) < 2 ^ 64" using unat_less_exp [of "rl_burst rl"] by simp
  show ?thesis
    unfolding nghttp2_ratelim_update_def Let_def d_def [symmetric] ud [symmetric]
    using False b unat_mult_nowrap [of "rl_rate rl" d]
      unat_add_nowrap [of "rl_val rl" "rl_rate rl * d"]
    by (auto simp: mult_guard [OF d0] add_guard refill_def min_def word_le_nat_alt not_le)
qed

text \<open>
  C40.  For every bucket within its burst and every time stamp, \<open>nghttp2_ratelim_update\<close> on
  64-bit counters leaves exactly the tokens of the bucket on unbounded numbers: the division
  and subtraction guards catch every case in which the product or the sum would wrap.
\<close>

theorem ratelim_update_exact:
  assumes "rl_val rl \<le> rl_burst rl"
  shows "unat (rl_val (nghttp2_ratelim_update rl t)) =
           refill (unat (rl_val rl)) (unat (rl_burst rl)) (unat (rl_rate rl))
             (elapsed (unat (rl_tstamp rl)) (unat t))"
  using assms by (intro update_unbounded) (simp add: ratelim_inv_def)

theorem ratelim_update_exact_witness:
  "unat (rl_val (nghttp2_ratelim_update
      \<lparr>rl_val = 3, rl_burst = 1000, rl_rate = 33, rl_tstamp = 5\<rparr> 9)) = 135"
  using ratelim_update_exact
    [of "\<lparr>rl_val = 3, rl_burst = 1000, rl_rate = 33, rl_tstamp = 5\<rparr>" 9]
  by (simp add: refill_def elapsed_def)

end
