(* ===== verification/Header_Chars.thy ===== *)
theory Header_Chars
  imports Prelude
begin

text \<open>
  The character tables of \<open>nghttp2_helper.c\<close> and the checks built on them: \<open>nghttp2_downcase\<close>
  and the validation of header names, header values, methods, paths and authorities.  Each
  table is the array of the source; the theorems say which language each check accepts.
\<close>

subsection \<open>The tables\<close>

definition DOWNCASE_TBL :: "u8 list" where
  "DOWNCASE_TBL = [
      0, 1, 2, 3, 4, 5, 6, 7, 8, 9, 10, 11, 12, 13, 14, 15,
      16, 17, 18, 19, 20, 21, 22, 23, 24, 25, 26, 27, 28, 29, 30, 31,
      32, 33, 34, 35, 36, 37, 38, 39, 40, 41, 42, 43, 44, 45, 46, 47,
      48, 49, 50, 51, 52, 53, 54, 55, 56, 57, 58, 59, 60, 61, 62, 63,
      64, 97, 98, 99, 100, 101, 102, 103, 104, 105, 106, 107, 108, 109, 110, 111,
      112, 113, 114, 115, 116, 117, 118, 119, 120, 121, 122, 91, 92, 93, 94, 95,
      96, 97, 98, 99, 100, 101, 102, 103, 104, 105, 106, 107, 108, 109, 110, 111,
      112, 113, 114, 115, 116, 117, 118, 119, 120, 121, 122, 123, 124, 125, 126, 127,
      128, 129, 130, 131, 132, 133, 134, 135, 136, 137, 138, 139, 140, 141, 142, 143,
      144, 145, 146, 147, 148, 149, 150, 151, 152, 153, 154, 155, 156, 157, 158, 159,
      160, 161, 162, 163, 164, 165, 166, 167, 168, 169, 170, 171, 172, 173, 174, 175,
      176, 177, 178, 179, 180, 181, 182, 183, 184, 185, 186, 187, 188, 189, 190, 191,
      192, 193, 194, 195, 196, 197, 198, 199, 200, 201, 202, 203, 204, 205, 206, 207,
      208, 209, 210, 211, 212, 213, 214, 215, 216, 217, 218, 219, 220, 221, 222, 223,
      224, 225, 226, 227, 228, 229, 230, 231, 232, 233, 234, 235, 236, 237, 238, 239,
      240, 241, 242, 243, 244, 245, 246, 247, 248, 249, 250, 251, 252, 253, 254, 255]"

definition VALID_HD_NAME_CHARS :: "nat list" where
  "VALID_HD_NAME_CHARS = [
      0, 0, 0, 0, 0, 0, 0, 0, 0, 0, 0, 0, 0, 0, 0, 0,
      0, 0, 0, 0, 0, 0, 0, 0, 0, 0, 0, 0, 0, 0, 0, 0,
      0, 1, 0, 1, 1, 1, 1, 1, 0, 0, 1, 1, 0, 1, 1, 0,
      1, 1, 1, 1, 1, 1, 1, 1, 1, 1, 0, 0, 0, 0, 0, 0,
      0, 0, 0, 0, 0, 0, 0, 0, 0, 0, 0, 0, 0, 0, 0, 0,
      0, 0, 0, 0, 0, 0, 0, 0, 0, 0, 0, 0, 0, 0, 1, 1,
      1, 1, 1, 1, 1, 1, 1, 1, 1, 1, 1, 1, 1, 1, 1, 1,
      1, 1, 1, 1, 1, 1, 1, 1, 1, 1, 1, 0, 1, 0, 1, 0,
      0, 0, 0, 0, 0, 0, 0, 0, 0, 0, 0, 0, 0, 0, 0, 0,
      0, 0, 0, 0, 0, 0, 0, 0, 0, 0, 0, 0, 0, 0, 0, 0,
      0, 0, 0, 0, 0, 0, 0, 0, 0, 0, 0, 0, 0, 0, 0, 0,
      0, 0, 0, 0, 0, 0, 0, 0, 0, 0, 0, 0, 0, 0, 0, 0,
      0, 0, 0, 0, 0, 0, 0, 0, 0, 0, 0, 0, 0, 0, 0, 0,
      0, 0, 0, 0, 0, 0, 0, 0, 0, 0, 0, 0, 0, 0, 0, 0,
      0, 0, 0, 0, 0, 0, 0, 0, 0, 0, 0, 0, 0, 0, 0, 0,
      0, 0, 0, 0, 0, 0, 0, 0, 0, 0, 0, 0, 0, 0, 0, 0]"

definition VALID_HD_VALUE_CHARS :: "nat list" where
  "VALID_HD_VALUE_CHARS = [
      0, 0, 0, 0, 0, 0, 0, 0, 0, 1, 0, 0, 0, 0, 0, 0,
      0, 0, 0, 0, 0, 0, 0, 0, 0, 0, 0, 0, 0, 0, 0, 0,
      1, 1, 1, 1, 1, 1, 1, 1, 1, 1, 1, 1, 1, 1, 1, 1,
      1, 1, 1, 1, 1, 1, 1, 1, 1, 1, 1, 1, 1, 1, 1, 1,
      1, 1, 1, 1, 1, 1, 1, 1, 1, 1, 1, 1, 1, 1, 1, 1,
      1, 1, 1, 1, 1, 1, 1, 1, 1, 1, 1, 1, 1, 1, 1, 1,
      1, 1, 1, 1, 1, 1, 1, 1, 1, 1, 1, 1, 1, 1, 1, 1,
      1, 1, 1, 1, 1, 1, 1, 1, 1, 1, 1, 1, 1, 1, 1, 0,
      1, 1, 1, 1, 1, 1, 1, 1, 1, 1, 1, 1, 1, 1, 1, 1,
      1, 1, 1, 1, 1, 1, 1, 1, 1, 1, 1, 1, 1, 1, 1, 1,
      1, 1, 1, 1, 1, 1, 1, 1, 1, 1, 1, 1, 1, 1, 1, 1,
      1, 1, 1, 1, 1, 1, 1, 1, 1, 1, 1, 1, 1, 1, 1, 1,
      1, 1, 1, 1, 1, 1, 1, 1, 1, 1, 1, 1, 1, 1, 1, 1,
      1, 1, 1, 1, 1, 1, 1, 1, 1, 1, 1, 1, 1, 1, 1, 1,
      1, 1, 1, 1, 1, 1, 1, 1, 1, 1, 1, 1, 1, 1, 1, 1,
      1, 1, 1, 1, 1, 1, 1, 1, 1, 1, 1, 1, 1, 1, 1, 1]"

definition VALID_METHOD_CHARS :: "nat list" where
  "VALID_METHOD_CHARS = [
      0, 0, 0, 0, 0, 0, 0, 0, 0, 0, 0, 0, 0, 0, 0, 0,
      0, 0, 0, 0, 0, 0, 0, 0, 0, 0, 0, 0, 0, 0, 0, 0,
      0, 1, 0, 1, 1, 1, 1, 1, 0, 0, 1, 1, 0, 1, 1, 0,
      1, 1, 1, 1, 1, 1, 1, 1, 1, 1, 0, 0, 0, 0, 0, 0,
      0, 1, 1, 1, 1, 1, 1, 1, 1, 1, 1, 1, 1, 1, 1, 1,
      1, 1, 1, 1, 1, 1, 1, 1, 1, 1, 1, 0, 0, 0, 1, 1,
      1, 1, 1, 1, 1, 1, 1, 1, 1, 1, 1, 1, 1, 1, 1, 1,
      1, 1, 1, 1, 1, 1, 1, 1, 1, 1, 1, 0, 1, 0, 1, 0,
      0, 0, 0, 0, 0, 0, 0, 0, 0, 0, 0, 0, 0, 0, 0, 0,
      0, 0, 0, 0, 0, 0, 0, 0, 0, 0, 0, 0, 0, 0, 0, 0,
      0, 0, 0, 0, 0, 0, 0, 0, 0, 0, 0, 0, 0, 0, 0, 0,
      0, 0, 0, 0, 0, 0, 0, 0, 0, 0, 0, 0, 0, 0, 0, 0,
      0, 0, 0, 0, 0, 0, 0, 0, 0, 0, 0, 0, 0, 0, 0, 0,
      0, 0, 0, 0, 0, 0, 0, 0, 0, 0, 0, 0, 0, 0, 0, 0,
      0, 0, 0, 0, 0, 0, 0, 0, 0, 0, 0, 0, 0, 0, 0, 0,
      0, 0, 0, 0, 0, 0, 0, 0, 0, 0, 0, 0, 0, 0, 0, 0]"

definition VALID_PATH_CHARS :: "nat list" where
  "VALID_PATH_CHARS = [
      0, 0, 0, 0, 0, 0, 0, 0, 0, 0, 0, 0, 0, 0, 0, 0,
      0, 0, 0, 0, 0, 0, 0, 0, 0, 0, 0, 0, 0, 0, 0, 0,
      0, 1, 1, 1, 1, 1, 1, 1, 1, 1, 1, 1, 1, 1, 1, 1,
      1, 1, 1, 1, 1, 1, 1, 1, 1, 1, 1, 1, 1, 1, 1, 1,
      1, 1, 1, 1, 1, 1, 1, 1, 1, 1, 1, 1, 1, 1, 1, 1,
      1, 1, 1, 1, 1, 1, 1, 1, 1, 1, 1, 1, 1, 1, 1, 1,
      1, 1, 1, 1, 1, 1, 1, 1, 1, 1, 1, 1, 1, 1, 1, 1,
      1, 1, 1, 1, 1, 1, 1, 1, 1, 1, 1, 1, 1, 1, 1, 0,
      1, 1, 1, 1, 1, 1, 1, 1, 1, 1, 1, 1, 1, 1, 1, 1,
      1, 1, 1, 1, 1, 1, 1, 1, 1, 1, 1, 1, 1, 1, 1, 1,
      1, 1, 1, 1, 1, 1, 1, 1, 1, 1, 1, 1, 1, 1, 1, 1,
      1, 1, 1, 1, 1, 1, 1, 1, 1, 1, 1, 1, 1, 1, 1, 1,
      1, 1, 1, 1, 1, 1, 1, 1, 1, 1, 1, 1, 1, 1, 1, 1,
      1, 1, 1, 1, 1, 1, 1, 1, 1, 1, 1, 1, 1, 1, 1, 1,
      1, 1, 1, 1, 1, 1, 1, 1, 1, 1, 1, 1, 1, 1, 1, 1,
      1, 1, 1, 1, 1, 1, 1, 1, 1, 1, 1, 1, 1, 1, 1, 1]"

definition VALID_AUTHORITY_CHARS :: "nat list" where
  "VALID_AUTHORITY_CHARS = [
      0, 0, 0, 0, 0, 0, 0, 0, 0, 0, 0, 0, 0, 0, 0, 0,
      0, 0, 0, 0, 0, 0, 0, 0, 0, 0, 0, 0, 0, 0, 0, 0,
      0, 1, 0, 0, 1, 1, 1, 1, 1, 1, 1, 1, 1, 1, 1, 0,
      1, 1, 1, 1, 1, 1, 1, 1, 1, 1, 1, 1, 0, 1, 0, 0,
      1, 1, 1, 1, 1, 1, 1, 1, 1, 1, 1, 1, 1, 1, 1, 1,
      1, 1, 1, 1, 1, 1, 1, 1, 1, 1, 1, 1, 0, 1, 0, 1,
      0, 1, 1, 1, 1, 1, 1, 1, 1, 1, 1, 1, 1, 1, 1, 1,
      1, 1, 1, 1, 1, 1, 1, 1, 1, 1, 1, 0, 0, 0, 1, 0,
      0, 0, 0, 0, 0, 0, 0, 0, 0, 0, 0, 0, 0, 0, 0, 0,
      0, 0, 0, 0, 0, 0, 0, 0, 0, 0, 0, 0, 0, 0, 0, 0,
      0, 0, 0, 0, 0, 0, 0, 0, 0, 0, 0, 0, 0, 0, 0, 0,
      0, 0, 0, 0, 0, 0, 0, 0, 0, 0, 0, 0, 0, 0, 0, 0,
      0, 0, 0, 0, 0, 0, 0, 0, 0, 0, 0, 0, 0, 0, 0, 0,
      0, 0, 0, 0, 0, 0, 0, 0, 0, 0, 0, 0, 0, 0, 0, 0,
      0, 0, 0, 0, 0, 0, 0, 0, 0, 0, 0, 0, 0, 0, 0, 0,
      0, 0, 0, 0, 0, 0, 0, 0, 0, 0, 0, 0, 0, 0, 0, 0]"

lemmas table_defs =
  VALID_HD_NAME_CHARS_def VALID_HD_VALUE_CHARS_def VALID_METHOD_CHARS_def VALID_PATH_CHARS_def
  VALID_AUTHORITY_CHARS_def

subsection \<open>Operations\<close>

definition nghttp2_downcase :: "bytes \<Rightarrow> bytes" where
  "nghttp2_downcase s = map (\<lambda>c. DOWNCASE_TBL ! unat c) s"

text \<open>The loops \<open>for (last = p + len; p != last; ++p) if (!TBL[*p]) return 0;\<close>.\<close>

fun all_in_table :: "nat list \<Rightarrow> bytes \<Rightarrow> bool" where
  "all_in_table tbl [] = True"
| "all_in_table tbl (c # cs) = (if tbl ! unat c = 0 then False else all_in_table tbl cs)"

definition nghttp2_check_header_name :: "bytes \<Rightarrow> bool" where
  "nghttp2_check_header_name name =
     (case name of
        [] \<Rightarrow> False
      | c # rest \<Rightarrow>
          if c = 0x3a then
            (if rest = [] then False else all_in_table VALID_HD_NAME_CHARS rest)
          else all_in_table VALID_HD_NAME_CHARS name)"

definition nghttp2_check_header_value :: "bytes \<Rightarrow> bool" where
  "nghttp2_check_header_value value = all_in_table VALID_HD_VALUE_CHARS value"

definition nghttp2_check_header_value_rfc9113 :: "bytes \<Rightarrow> bool" where
  "nghttp2_check_header_value_rfc9113 value =
     (if length value = 0 then True
      else if value ! 0 = 0x20 \<or> value ! 0 = 0x09 \<or> value ! (length value - 1) = 0x20 \<or>
              value ! (length value - 1) = 0x09 then False
      else nghttp2_check_header_value value)"

definition nghttp2_check_method :: "bytes \<Rightarrow> bool" where
  "nghttp2_check_method value =
     (if length value = 0 then False else all_in_table VALID_METHOD_CHARS value)"

definition nghttp2_check_path :: "bytes \<Rightarrow> bool" where
  "nghttp2_check_path value = all_in_table VALID_PATH_CHARS value"

definition nghttp2_check_authority :: "bytes \<Rightarrow> bool" where
  "nghttp2_check_authority value = all_in_table VALID_AUTHORITY_CHARS value"

subsection \<open>Deciding a property of all bytes\<close>

primrec table_ok :: "(nat \<Rightarrow> 'a \<Rightarrow> bool) \<Rightarrow> nat \<Rightarrow> 'a list \<Rightarrow> bool" where
  "table_ok P n [] \<longleftrightarrow> n = 256"
| "table_ok P n (v # vs) \<longleftrightarrow> P n v \<and> table_ok P (Suc n) vs"

lemma table_ok_nth: "table_ok P n tbl \<Longrightarrow> i + n < 256 \<Longrightarrow> P (i + n) (tbl ! i)"
proof (induction tbl arbitrary: n i)
  case Nil
  then show ?case by simp
next
  case (Cons v vs)
  show ?case
  proof (cases i)
    case 0
    with Cons.prems show ?thesis by simp
  next
    case (Suc k)
    with Cons.prems Cons.IH [of "Suc n" k] show ?thesis by simp
  qed
qed

lemma nth_u8:
  assumes "table_ok P 0 tbl"
  shows "P (unat (c::u8)) (tbl ! unat c)"
  using table_ok_nth [OF assms, of "unat c"] unat_less_exp [of c] by simp

lemma all_in_table_list_all:
  assumes "\<And>c. tbl ! unat (c::u8) = 0 \<longleftrightarrow> \<not> p c"
  shows "all_in_table tbl cs \<longleftrightarrow> list_all p cs"
  by (induction cs) (auto simp: assms)

subsection \<open>The languages of RFC 9110 and RFC 9113\<close>

definition is_upper :: "u8 \<Rightarrow> bool" where
  "is_upper c \<longleftrightarrow> 0x41 \<le> unat c \<and> unat c \<le> 0x5a"

definition is_lower :: "u8 \<Rightarrow> bool" where
  "is_lower c \<longleftrightarrow> 0x61 \<le> unat c \<and> unat c \<le> 0x7a"

definition is_digit :: "u8 \<Rightarrow> bool" where
  "is_digit c \<longleftrightarrow> 0x30 \<le> unat c \<and> unat c \<le> 0x39"

text \<open>\<open>tchar\<close>: the digits, the letters and \<open>!#$%&'*+-.^_`|~\<close>.\<close>

definition tchar :: "u8 \<Rightarrow> bool" where
  "tchar c \<longleftrightarrow> is_digit c \<or> is_upper c \<or> is_lower c \<or>
     unat c \<in> {0x21, 0x23, 0x24, 0x25, 0x26, 0x27, 0x2a, 0x2b, 0x2d, 0x2e, 0x5e, 0x5f, 0x60, 0x7c, 0x7e}"

text \<open>Field values: tab, space, the visible characters and the bytes above 127.\<close>

definition field_char :: "u8 \<Rightarrow> bool" where
  "field_char c \<longleftrightarrow> unat c = 0x09 \<or> 0x20 \<le> unat c \<and> unat c \<noteq> 0x7f"

definition path_char :: "u8 \<Rightarrow> bool" where
  "path_char c \<longleftrightarrow> 0x20 < unat c \<and> unat c \<noteq> 0x7f"

definition to_lower :: "u8 \<Rightarrow> u8" where
  "to_lower c = (if is_upper c then c + 0x20 else c)"

lemmas char_class_defs =
  is_upper_def is_lower_def is_digit_def tchar_def field_char_def path_char_def

lemma name_table: "VALID_HD_NAME_CHARS ! unat c = 0 \<longleftrightarrow> \<not> (tchar c \<and> \<not> is_upper c)"
  unfolding char_class_defs
  by (rule nth_u8 [where P = "\<lambda>n v. v = 0 \<longleftrightarrow> \<not> _ n"]) (simp add: table_defs)

lemma value_table: "VALID_HD_VALUE_CHARS ! unat c = 0 \<longleftrightarrow> \<not> field_char c"
  unfolding char_class_defs
  by (rule nth_u8 [where P = "\<lambda>n v. v = 0 \<longleftrightarrow> \<not> _ n"]) (simp add: table_defs)

lemma method_table: "VALID_METHOD_CHARS ! unat c = 0 \<longleftrightarrow> \<not> tchar c"
  unfolding char_class_defs
  by (rule nth_u8 [where P = "\<lambda>n v. v = 0 \<longleftrightarrow> \<not> _ n"]) (simp add: table_defs)

lemma path_table: "VALID_PATH_CHARS ! unat c = 0 \<longleftrightarrow> \<not> path_char c"
  unfolding char_class_defs
  by (rule nth_u8 [where P = "\<lambda>n v. v = 0 \<longleftrightarrow> \<not> _ n"]) (simp add: table_defs)

lemma authority_table: "VALID_AUTHORITY_CHARS ! unat c = 0 \<or> path_char c"
  unfolding char_class_defs
  by (rule nth_u8 [where P = "\<lambda>n v. v = 0 \<or> _ n"]) (simp add: table_defs)

definition downcase_nat :: "nat list" where
  "downcase_nat = [0..<65] @ [97..<123] @ [91..<256]"

lemma DOWNCASE_TBL_upt: "DOWNCASE_TBL = map word_of_nat downcase_nat"
  by (simp add: DOWNCASE_TBL_def downcase_nat_def upt_rec)

lemma length_downcase_nat: "length downcase_nat = 256"
  by (simp add: downcase_nat_def)

lemma downcase_nat_nth:
  "downcase_nat ! unat c = (if is_upper c then unat c + 0x20 else unat c)"
  unfolding char_class_defs
  by (rule nth_u8 [where P = "\<lambda>n v. v = (if _ n then n + 0x20 else n)"])
    (simp add: downcase_nat_def upt_rec)

lemma downcase_unat:
  "unat (DOWNCASE_TBL ! unat c) = (if is_upper c then unat c + 0x20 else unat c)"
  using unat_less_exp [of c]
  by (auto simp: DOWNCASE_TBL_upt length_downcase_nat downcase_nat_nth is_upper_def
      take_bit_eq_mod unsigned_of_nat)

lemma unat_to_lower: "unat (to_lower c) = (if is_upper c then unat c + 0x20 else unat c)"
  by (auto simp: to_lower_def is_upper_def unat_word_ariths)

lemma downcase_table: "DOWNCASE_TBL ! unat c = to_lower c"
  by (rule unat_eqD) (simp only: downcase_unat unat_to_lower)

lemma to_lower_not_upper: "\<not> is_upper (to_lower c)"
  by (auto simp: is_upper_def [of "to_lower c"] unat_to_lower) (auto simp: is_upper_def)

lemma to_lower_tchar: "tchar (to_lower c) \<longleftrightarrow> tchar c"
  by (auto simp: tchar_def is_upper_def is_lower_def is_digit_def unat_to_lower)

lemma to_lower_colon: "to_lower c = 0x3a \<longleftrightarrow> c = 0x3a"
proof -
  have "to_lower c = 0x3a \<longleftrightarrow> unat (to_lower c) = 0x3a" by (simp add: word_unat_eq_iff)
  also have "\<dots> \<longleftrightarrow> unat c = 0x3a" by (auto simp: unat_to_lower is_upper_def)
  finally show ?thesis by (simp add: word_unat_eq_iff)
qed

lemma downcase_map: "nghttp2_downcase s = map to_lower s"
  by (simp add: nghttp2_downcase_def downcase_table)

text \<open>A header name as the code checks it: an optional colon, then a non-empty run of \<open>p\<close>.\<close>

definition prefixed_name :: "(u8 \<Rightarrow> bool) \<Rightarrow> bytes \<Rightarrow> bool" where
  "prefixed_name p s \<longleftrightarrow>
     (let body = (if s \<noteq> [] \<and> hd s = 0x3a then tl s else s) in body \<noteq> [] \<and> list_all p body)"

lemma check_header_name_language:
  "nghttp2_check_header_name s \<longleftrightarrow> prefixed_name (\<lambda>c. tchar c \<and> \<not> is_upper c) s"
  by (cases s)
    (auto simp: nghttp2_check_header_name_def prefixed_name_def 
      all_in_table_list_all [of _ "\<lambda>c. tchar c \<and> \<not> is_upper c", OF name_table] Let_def
      simp del: all_in_table.simps(2))

subsection \<open>Properties\<close>

text \<open>
  After \<open>nghttp2_downcase\<close>, \<open>nghttp2_check_header_name\<close> accepts a name exactly when the
  original is a non-empty RFC 9110 token in either case, with an optional leading colon: the
  downcase table and the name table fit together, and no other byte is let through.
\<close>

theorem check_name_after_downcase:
  "nghttp2_check_header_name (nghttp2_downcase s) \<longleftrightarrow> prefixed_name tchar s"
  by (cases s)
    (auto simp: check_header_name_language downcase_map prefixed_name_def Let_def list_all_iff
      to_lower_tchar to_lower_not_upper to_lower_colon)

text \<open>
  \<open>nghttp2_check_header_value_rfc9113\<close> accepts exactly the values of RFC 9113 8.2.1: only
  field characters (so no NUL, CR or LF), and neither the first nor the last is a space or a tab.
\<close>

theorem check_value_rfc9113_language:
  "nghttp2_check_header_value_rfc9113 s \<longleftrightarrow>
     list_all field_char s \<and>
     (s = [] \<or> hd s \<notin> {0x20, 0x09} \<and> last s \<notin> {0x20, 0x09})"
  by (auto simp: nghttp2_check_header_value_rfc9113_def nghttp2_check_header_value_def
      all_in_table_list_all [OF value_table] hd_conv_nth last_conv_nth)

end
