(* ===== verification/Helper.thy ===== *)
theory Helper
  imports Prelude "HOL-Library.Monad_Syntax"
begin

unbundle bit_operations_syntax

text \<open>
  \<open>nghttp2_helper.c\<close>: big-endian integers in byte buffers, and the two functions that move a
  flow-control window when the application changes it.
\<close>

subsection \<open>Byte buffers\<close>

text \<open>\<open>memcpy (buf + off, bs, length bs)\<close>.\<close>

definition write_at :: "nat \<Rightarrow> bytes \<Rightarrow> bytes \<Rightarrow> bytes" where
  "write_at off bs buf = take off buf @ bs @ drop (off + length bs) buf"

text \<open>
  \<open>htons\<close> and \<open>htonl\<close> followed by a \<open>memcpy\<close> leave the most significant byte first, whatever the
  byte order of the host.
\<close>

definition uint16be_bytes :: "u16 \<Rightarrow> bytes" where
  "uint16be_bytes n = [ucast (drop_bit 8 n), ucast n]"

definition uint32be_bytes :: "u32 \<Rightarrow> bytes" where
  "uint32be_bytes n = [ucast (drop_bit 24 n), ucast (drop_bit 16 n), ucast (drop_bit 8 n), ucast n]"

definition nghttp2_put_uint16be :: "nat \<Rightarrow> u16 \<Rightarrow> bytes \<Rightarrow> bytes" where
  "nghttp2_put_uint16be off n buf = write_at off (uint16be_bytes n) buf"

definition nghttp2_put_uint32be :: "nat \<Rightarrow> u32 \<Rightarrow> bytes \<Rightarrow> bytes" where
  "nghttp2_put_uint32be off n buf = write_at off (uint32be_bytes n) buf"

definition nghttp2_get_uint16 :: "bytes \<Rightarrow> u16" where
  "nghttp2_get_uint16 data = push_bit 8 (ucast (data ! 0)) OR ucast (data ! 1)"

definition nghttp2_get_uint32 :: "bytes \<Rightarrow> u32" where
  "nghttp2_get_uint32 data =
     push_bit 24 (ucast (data ! 0)) OR push_bit 16 (ucast (data ! 1)) OR
     push_bit 8 (ucast (data ! 2)) OR ucast (data ! 3)"

lemma length_write_at [simp]: "off + length bs \<le> length buf \<Longrightarrow> length (write_at off bs buf) = length buf"
  by (simp add: write_at_def)

lemma length_uint_bytes [simp]:
  "length (uint16be_bytes n) = 2" "length (uint32be_bytes m) = 4"
  by (simp_all add: uint16be_bytes_def uint32be_bytes_def)

lemma drop_write_at: "off \<le> length buf \<Longrightarrow> drop off (write_at off bs buf) = bs @ drop (off + length bs) buf"
  by (simp add: write_at_def)

lemma take_write_at: "off \<le> length buf \<Longrightarrow> take off (write_at off bs buf) = take off buf"
  by (simp add: write_at_def)

lemma get_uint16_bytes [simp]: "nghttp2_get_uint16 (uint16be_bytes n @ rest) = n"
  unfolding nghttp2_get_uint16_def uint16be_bytes_def
  by (rule bit_word_eqI) (auto simp: bit_simps)

lemma get_uint32_bytes [simp]: "nghttp2_get_uint32 (uint32be_bytes n @ rest) = n"
  unfolding nghttp2_get_uint32_def uint32be_bytes_def
proof (rule bit_word_eqI, goal_cases)
  case (1 k)
  then have k: "k < 32" by simp
  show ?case
  proof (cases "k < 16")
    case True
    then show ?thesis by (cases "k < 8") (auto simp: bit_simps)
  next
    case False
    with k show ?thesis by (cases "k < 24") (auto simp: bit_simps)
  qed
qed

lemma take_2_nth: "2 \<le> length bs \<Longrightarrow> take 2 bs = [bs ! 0, bs ! 1 :: u8]"
  by (cases bs; cases "tl bs") auto

lemma take_4_nth: "4 \<le> length bs \<Longrightarrow> take 4 bs = [bs ! 0, bs ! 1, bs ! 2, bs ! 3 :: u8]"
  by (cases bs; cases "tl bs"; cases "tl (tl bs)"; cases "tl (tl (tl bs))") auto

lemma u8_bit_eqI: "(\<And>k. k < 8 \<Longrightarrow> bit (a::u8) k = bit b k) \<Longrightarrow> a = b"
  by (rule bit_word_eqI) simp

lemma u8_bit_high [simp]: "8 \<le> k \<Longrightarrow> bit (a::u8) k = False"
  by (auto dest: bit_imp_le_length)

lemma uint16_bytes_get: "2 \<le> length bs \<Longrightarrow> uint16be_bytes (nghttp2_get_uint16 bs) = take 2 bs"
  by (auto simp: nghttp2_get_uint16_def uint16be_bytes_def take_2_nth bit_simps intro!: u8_bit_eqI)

lemma uint32_bytes_get: "4 \<le> length bs \<Longrightarrow> uint32be_bytes (nghttp2_get_uint32 bs) = take 4 bs"
  by (auto simp: nghttp2_get_uint32_def uint32be_bytes_def take_4_nth bit_simps intro!: u8_bit_eqI)

subsection \<open>Signed 32-bit arithmetic\<close>

text \<open>
  \<open>int32_t\<close> values are integers, and every sum and difference the source computes on them is
  written through \<open>i32\<close>, which is \<open>None\<close> when the mathematical result does not fit: signed
  overflow is undefined behaviour in C.
\<close>

definition INT32_MIN :: int where "INT32_MIN = - (2 ^ 31)"
definition INT32_MAX :: int where "INT32_MAX = 2 ^ 31 - 1"
definition NGHTTP2_MAX_WINDOW_SIZE :: int where "NGHTTP2_MAX_WINDOW_SIZE = 2 ^ 31 - 1"

lemmas i32_defs [ng_defs] = INT32_MIN_def INT32_MAX_def NGHTTP2_MAX_WINDOW_SIZE_def

definition is_i32 :: "int \<Rightarrow> bool" where
  "is_i32 x \<longleftrightarrow> INT32_MIN \<le> x \<and> x \<le> INT32_MAX"

definition i32 :: "int \<Rightarrow> int option" where
  "i32 x = (if is_i32 x then Some x else None)"

text \<open>C's \<open>/\<close> rounds towards zero.\<close>

definition c_div :: "int \<Rightarrow> int \<Rightarrow> int" where
  "c_div a b = sgn a * sgn b * (\<bar>a\<bar> div \<bar>b\<bar>)"

subsection \<open>Flow-control windows\<close>

text \<open>
  The three integers a stream or the connection keeps for its receive window, and the
  \<open>delta\<close> the functions take and return by reference.
\<close>

record window =
  local_window_size :: int
  recv_window_size :: int
  recv_reduction :: int
  delta :: int

definition nghttp2_adjust_local_window_size :: "window \<Rightarrow> (rc \<times> window) option" where
  "nghttp2_adjust_local_window_size w =
     (if delta w > 0 then do {
        new_recv_window_size \<leftarrow> i32 (max 0 (recv_window_size w) - delta w);
        if new_recv_window_size \<ge> 0 then
          Some (0, w\<lparr>recv_window_size := new_recv_window_size\<rparr>)
        else do {
          d \<leftarrow> i32 (- new_recv_window_size);
          limit \<leftarrow> i32 (NGHTTP2_MAX_WINDOW_SIZE - d);
          if local_window_size w > limit then Some (NGHTTP2_ERR_FLOW_CONTROL, w)
          else do {
            l \<leftarrow> i32 (local_window_size w + d);
            let recv_reduction_delta = min (recv_reduction w) d;
            rr \<leftarrow> i32 (recv_reduction w - recv_reduction_delta);
            r \<leftarrow> (if recv_window_size w < 0
                   then i32 (recv_window_size w + recv_reduction_delta)
                   else Some recv_reduction_delta);
            d' \<leftarrow> i32 (delta w - recv_reduction_delta);
            Some (0, \<lparr>local_window_size = l, recv_window_size = r, recv_reduction = rr, delta = d'\<rparr>)
          }
        }
      }
      else do {
        s \<leftarrow> i32 (local_window_size w + delta w);
        lo \<leftarrow> i32 (INT32_MIN - delta w);
        hi \<leftarrow> i32 (INT32_MAX + delta w);
        if s < 0 \<or> recv_window_size w < lo \<or> recv_reduction w > hi
        then Some (NGHTTP2_ERR_FLOW_CONTROL, w)
        else do {
          l \<leftarrow> i32 (local_window_size w + delta w);
          r \<leftarrow> i32 (recv_window_size w + delta w);
          rr \<leftarrow> i32 (recv_reduction w - delta w);
          Some (0, \<lparr>local_window_size = l, recv_window_size = r, recv_reduction = rr, delta = 0\<rparr>)
        }
      })"

definition nghttp2_increase_local_window_size :: "window \<Rightarrow> (rc \<times> window) option" where
  "nghttp2_increase_local_window_size w =
     (if \<not> delta w \<ge> 0 then None
      else do {
        limit \<leftarrow> i32 (NGHTTP2_MAX_WINDOW_SIZE - delta w);
        if local_window_size w > limit then Some (NGHTTP2_ERR_FLOW_CONTROL, w)
        else do {
          l \<leftarrow> i32 (local_window_size w + delta w);
          let recv_reduction_delta = min (recv_reduction w) (delta w);
          rr \<leftarrow> i32 (recv_reduction w - recv_reduction_delta);
          r \<leftarrow> i32 (recv_window_size w + recv_reduction_delta);
          d' \<leftarrow> i32 (delta w - recv_reduction_delta);
          Some (0, \<lparr>local_window_size = l, recv_window_size = r, recv_reduction = rr, delta = d'\<rparr>)
        }
      })"

definition nghttp2_should_send_window_update :: "int \<Rightarrow> int \<Rightarrow> bool" where
  "nghttp2_should_send_window_update local recv \<longleftrightarrow> recv > 0 \<and> recv \<ge> c_div local 2"

text \<open>The fields of a window are 32-bit integers, and a reduction is never negative.\<close>

definition window_ok :: "window \<Rightarrow> bool" where
  "window_ok w \<longleftrightarrow> is_i32 (local_window_size w) \<and> is_i32 (recv_window_size w) \<and>
     is_i32 (recv_reduction w) \<and> 0 \<le> recv_reduction w \<and> is_i32 (delta w)"

text \<open>
  What the peer may still send: the window this endpoint has granted minus the bytes it has
  received and not given back.
\<close>

definition peer_credit :: "window \<Rightarrow> int" where
  "peer_credit w = local_window_size w - recv_window_size w"

lemmas window_simps =
  nghttp2_adjust_local_window_size_def nghttp2_increase_local_window_size_def Let_def
  i32_def is_i32_def window_ok_def i32_defs

text \<open>
  Moving the window keeps the two endpoints in step.  When
  \<open>nghttp2_adjust_local_window_size\<close> succeeds, the peer's credit grows by exactly the \<open>delta\<close>
  it returns, which is the increment of the WINDOW_UPDATE the caller sends (none is sent for a
  decrease, where it is 0).  The window stays within its limits.  No signed overflow occurs
  when the requested window is at least \<open>INT32_MIN\<close>.
\<close>

theorem adjust_window_keeps_credit:
  assumes "window_ok w" and "INT32_MIN \<le> local_window_size w + delta w"
  shows "\<exists>rv w'. nghttp2_adjust_local_window_size w = Some (rv, w') \<and> window_ok w' \<and>
           (rv = 0 \<and> peer_credit w' = peer_credit w + delta w' \<and>
              (delta w \<le> 0 \<longrightarrow> delta w' = 0 \<and> local_window_size w' = local_window_size w + delta w) \<or>
            rv = NGHTTP2_ERR_FLOW_CONTROL \<and> w' = w)"
  using assms
  by (cases "delta w > 0"; cases "recv_window_size w < 0")
    (auto simp: window_simps peer_credit_def min_def max_def split: if_splits)

theorem adjust_window_keeps_credit_witness:
  "nghttp2_adjust_local_window_size
      \<lparr>local_window_size = 100, recv_window_size = 30, recv_reduction = 20, delta = 70\<rparr> =
    Some (0, \<lparr>local_window_size = 140, recv_window_size = 20, recv_reduction = 0, delta = 50\<rparr>) \<and>
   peer_credit \<lparr>local_window_size = 140, recv_window_size = 20, recv_reduction = 0, delta = 50\<rparr> =
   peer_credit \<lparr>local_window_size = 100, recv_window_size = 30, recv_reduction = 20, delta = 70\<rparr> + 50"
  using adjust_window_keeps_credit
    [of "\<lparr>local_window_size = 100, recv_window_size = 30, recv_reduction = 20, delta = 70\<rparr>"]
  by (auto simp: window_simps peer_credit_def)

text \<open>
  \<open>nghttp2_increase_local_window_size\<close> never overflows on a window whose unacknowledged
  bytes are within the granted window: it either refuses with FLOW_CONTROL and changes nothing,
  or enlarges the window by \<open>delta\<close>, keeps the bytes within it, and returns as \<open>delta\<close> exactly
  what the peer's credit gained.
\<close>

theorem increase_window_safe:
  assumes "window_ok w" and "0 \<le> delta w" and "recv_window_size w \<le> local_window_size w"
  shows "\<exists>rv w'. nghttp2_increase_local_window_size w = Some (rv, w') \<and> window_ok w' \<and>
           recv_window_size w' \<le> local_window_size w' \<and>
           (rv = 0 \<and> local_window_size w' = local_window_size w + delta w \<and>
              peer_credit w' = peer_credit w + delta w' \<or>
            rv = NGHTTP2_ERR_FLOW_CONTROL \<and> w' = w)"
  using assms
  by (auto simp: window_simps peer_credit_def min_def split: if_splits)

theorem increase_window_safe_witness:
  "\<exists>w'. nghttp2_increase_local_window_size
      \<lparr>local_window_size = 65535, recv_window_size = 0, recv_reduction = 10, delta = 100\<rparr> = Some (0, w') \<and>
    local_window_size w' = 65635 \<and> peer_credit w' = 65535 + 90"
  using increase_window_safe
    [of "\<lparr>local_window_size = 65535, recv_window_size = 0, recv_reduction = 10, delta = 100\<rparr>"]
  by (auto simp: window_simps peer_credit_def)

end
