(* ===== verification/Queue.thy ===== *)
theory Queue
  imports Prelude
begin

text \<open>
  \<open>nghttp2_queue.c\<close>: a FIFO as a singly linked list of heap cells with pointers to the front and
  the back.  The heap is explicit, because pushing writes through the pointer to the last cell;
  the abstraction is the list of the cells' data on the path from the front.
\<close>

subsection \<open>The interface\<close>

text \<open>What the clients of a queue rely on.\<close>

locale fifo =
  fixes content :: "'q \<Rightarrow> 'a list \<Rightarrow> bool"
    and qinit :: 'q
    and qpush :: "'q \<Rightarrow> 'addr \<Rightarrow> 'a \<Rightarrow> 'q"
    and qpop :: "'q \<Rightarrow> 'q option"
    and qfront :: "'q \<Rightarrow> 'a option"
    and qback :: "'q \<Rightarrow> 'a option"
    and is_empty :: "'q \<Rightarrow> bool"
    and fresh :: "'q \<Rightarrow> 'addr \<Rightarrow> bool"
  assumes content_init: "content qinit []"
    and content_push: "content q xs \<Longrightarrow> fresh q a \<Longrightarrow> content (qpush q a x) (xs @ [x])"
    and content_pop: "content q (x # xs) \<Longrightarrow> \<exists>q'. qpop q = Some q' \<and> content q' xs"
    and content_front: "content q (x # xs) \<Longrightarrow> qfront q = Some x"
    and content_back: "content q (xs @ [x]) \<Longrightarrow> qback q = Some x"
    and content_empty: "content q xs \<Longrightarrow> is_empty q \<longleftrightarrow> xs = []"
begin

text \<open>A client that empties the queue takes the elements in the order they were pushed.\<close>

fun drain :: "nat \<Rightarrow> 'q \<Rightarrow> 'a list option" where
  "drain 0 q = (if is_empty q then Some [] else None)"
| "drain (Suc n) q =
     (if is_empty q then Some []
      else case qfront q of
             None \<Rightarrow> None
           | Some x \<Rightarrow> (case qpop q of None \<Rightarrow> None | Some q' \<Rightarrow> map_option (Cons x) (drain n q')))"

lemma drain_content: "content q xs \<Longrightarrow> length xs \<le> n \<Longrightarrow> drain n q = Some xs"
proof (induction n arbitrary: q xs)
  case 0
  then show ?case by (simp add: content_empty)
next
  case (Suc n)
  show ?case
  proof (cases xs)
    case Nil
    with Suc.prems show ?thesis by (simp add: content_empty)
  next
    case (Cons x ys)
    with Suc.prems obtain q' where q': "qpop q = Some q'" "content q' ys"
      using content_pop [of q x ys] by blast
    have "drain n q' = Some ys"
      using q'(2) Suc.prems(2) Cons by (intro Suc.IH) simp_all
    with Suc.prems Cons q' show ?thesis
      by (simp add: content_empty [of q "x # ys"] content_front [of q x ys])
  qed
qed

end

subsection \<open>The model\<close>

record 'a nghttp2_queue_cell =
  qc_data :: 'a
  qc_next :: "nat option"

record 'a nghttp2_queue =
  q_heap :: "nat \<rightharpoonup> 'a nghttp2_queue_cell"
  q_front :: "nat option"
  q_back :: "nat option"

definition nghttp2_queue_init :: "'a nghttp2_queue" where
  "nghttp2_queue_init = \<lparr>q_heap = Map.empty, q_front = None, q_back = None\<rparr>"

text \<open>
  The address argument is what \<open>malloc\<close> returned, \<open>None\<close> for \<open>NULL\<close>.  \<open>queue->back->next =
  new_cell\<close> writes through the back pointer into the heap.
\<close>

definition nghttp2_queue_push ::
  "'a nghttp2_queue \<Rightarrow> nat option \<Rightarrow> 'a \<Rightarrow> rc \<times> 'a nghttp2_queue" where
  "nghttp2_queue_push q new_cell data =
     (case new_cell of
        None \<Rightarrow> (NGHTTP2_ERR_NOMEM, q)
      | Some a \<Rightarrow>
          let h = (q_heap q)(a \<mapsto> \<lparr>qc_data = data, qc_next = None\<rparr>)
          in case q_back q of
               Some b \<Rightarrow>
                 (0, q\<lparr>q_heap := (case h b of
                                   None \<Rightarrow> h
                                 | Some c \<Rightarrow> h(b \<mapsto> c\<lparr>qc_next := Some a\<rparr>)),
                       q_back := Some a\<rparr>)
             | None \<Rightarrow> (0, q\<lparr>q_heap := h, q_front := Some a, q_back := Some a\<rparr>))"

definition nghttp2_queue_pop :: "'a nghttp2_queue \<Rightarrow> 'a nghttp2_queue option" where
  "nghttp2_queue_pop q =
     (case q_front q of
        None \<Rightarrow> None
      | Some f \<Rightarrow>
          (case q_heap q f of
             None \<Rightarrow> None
           | Some c \<Rightarrow>
               Some (q\<lparr>q_front := qc_next c,
                       q_back := (if Some f = q_back q then None else q_back q),
                       q_heap := (q_heap q)(f := None)\<rparr>)))"

definition nghttp2_queue_front :: "'a nghttp2_queue \<Rightarrow> 'a option" where
  "nghttp2_queue_front q =
     (case q_front q of None \<Rightarrow> None | Some f \<Rightarrow> map_option qc_data (q_heap q f))"

definition nghttp2_queue_back :: "'a nghttp2_queue \<Rightarrow> 'a option" where
  "nghttp2_queue_back q =
     (case q_back q of None \<Rightarrow> None | Some b \<Rightarrow> map_option qc_data (q_heap q b))"

definition nghttp2_queue_empty :: "'a nghttp2_queue \<Rightarrow> bool" where
  "nghttp2_queue_empty q \<longleftrightarrow> q_front q = None"

text \<open>
  \<open>nghttp2_queue_free\<close> walks the list and frees every cell.  The walk follows \<open>next\<close>, so it is
  given a bound; \<open>None\<close> is a walk that needs more steps or reads a freed cell.
\<close>

fun queue_free_loop ::
  "nat \<Rightarrow> (nat \<rightharpoonup> 'a nghttp2_queue_cell) \<Rightarrow> nat option \<Rightarrow> (nat \<rightharpoonup> 'a nghttp2_queue_cell) option" where
  "queue_free_loop n h None = Some h"
| "queue_free_loop 0 h (Some p) = None"
| "queue_free_loop (Suc n) h (Some p) =
     (case h p of None \<Rightarrow> None | Some c \<Rightarrow> queue_free_loop n (h(p := None)) (qc_next c))"

definition nghttp2_queue_free ::
  "nat \<Rightarrow> 'a nghttp2_queue \<Rightarrow> (nat \<rightharpoonup> 'a nghttp2_queue_cell) option" where
  "nghttp2_queue_free n q = queue_free_loop n (q_heap q) (q_front q)"

subsection \<open>The cells on the path from the front\<close>

fun queue_path ::
  "(nat \<rightharpoonup> 'a nghttp2_queue_cell) \<Rightarrow> nat option \<Rightarrow> nat list \<Rightarrow> bool" where
  "queue_path h p [] \<longleftrightarrow> p = None"
| "queue_path h p (a # as) \<longleftrightarrow> p = Some a \<and> (\<exists>c. h a = Some c \<and> queue_path h (qc_next c) as)"

definition queue_cells :: "'a nghttp2_queue \<Rightarrow> nat list \<Rightarrow> bool" where
  "queue_cells q as \<longleftrightarrow>
     queue_path (q_heap q) (q_front q) as \<and> distinct as \<and> dom (q_heap q) = set as \<and>
     q_back q = (if as = [] then None else Some (last as))"

definition queue_content :: "'a nghttp2_queue \<Rightarrow> 'a list \<Rightarrow> bool" where
  "queue_content q xs \<longleftrightarrow>
     (\<exists>as. queue_cells q as \<and> xs = map (\<lambda>a. qc_data (the (q_heap q a))) as)"

lemma queue_path_upd: "a \<notin> set as \<Longrightarrow> queue_path (h(a := c)) p as \<longleftrightarrow> queue_path h p as"
  by (induction as arbitrary: p) auto

lemma queue_path_snoc:
  "queue_path h p (as @ [b]) \<Longrightarrow> distinct (as @ [b]) \<Longrightarrow> h b = Some c \<Longrightarrow> a \<notin> set (as @ [b]) \<Longrightarrow>
   queue_path (h(a \<mapsto> \<lparr>qc_data = x, qc_next = None\<rparr>, b \<mapsto> c\<lparr>qc_next := Some a\<rparr>)) p (as @ [b, a])"
  by (induction as arbitrary: p) (auto simp: fun_upd_def)

lemma queue_path_last_next:
  "queue_path h p (as @ [b]) \<Longrightarrow> \<exists>c. h b = Some c \<and> qc_next c = None"
  by (induction as arbitrary: p) auto

lemma queue_cells_push:
  assumes "queue_cells q as" and "q_heap q a = None"
  shows "\<exists>q'. nghttp2_queue_push q (Some a) x = (0, q') \<and> queue_cells q' (as @ [a]) \<and>
           q_heap q' a = Some \<lparr>qc_data = x, qc_next = None\<rparr> \<and>
           (\<forall>b \<in> set as. qc_data (the (q_heap q' b)) = qc_data (the (q_heap q b)))"
proof (cases as rule: rev_cases)
  case Nil
  with assms show ?thesis
    by (auto simp: queue_cells_def nghttp2_queue_push_def Let_def)
next
  case (snoc bs b)
  from assms snoc obtain c where c: "q_heap q b = Some c"
    by (auto simp: queue_cells_def dest: queue_path_last_next)
  have a: "a \<notin> set as" using assms by (auto simp: queue_cells_def)
  have "queue_path ((q_heap q)(a \<mapsto> \<lparr>qc_data = x, qc_next = None\<rparr>, b \<mapsto> c\<lparr>qc_next := Some a\<rparr>))
          (q_front q) (bs @ [b, a])"
    using assms snoc a c by (intro queue_path_snoc) (auto simp: queue_cells_def)
  with assms snoc a c show ?thesis
    by (auto simp: queue_cells_def nghttp2_queue_push_def Let_def)
qed

lemma dom_singleton_upd: "dom h = {a} \<Longrightarrow> h(a := None) = Map.empty"
  by (auto simp: fun_eq_iff dom_def)

lemma queue_cells_pop:
  assumes "queue_cells q (a # as)"
  shows "\<exists>q'. nghttp2_queue_pop q = Some q' \<and> queue_cells q' as \<and>
           (\<forall>b \<in> set as. q_heap q' b = q_heap q b)"
  using assms
  by (cases as)
    (auto simp: queue_cells_def nghttp2_queue_pop_def queue_path_upd dom_singleton_upd)

lemma queue_content_push:
  assumes "queue_content q xs" and "q_heap q a = None"
  shows "queue_content (snd (nghttp2_queue_push q (Some a) x)) (xs @ [x])"
proof -
  from assms(1) obtain as where as: "queue_cells q as" "xs = map (\<lambda>a. qc_data (the (q_heap q a))) as"
    by (auto simp: queue_content_def)
  from queue_cells_push [OF as(1) assms(2), of x] obtain q' where
    q': "nghttp2_queue_push q (Some a) x = (0, q')" "queue_cells q' (as @ [a])"
      "q_heap q' a = Some \<lparr>qc_data = x, qc_next = None\<rparr>"
      "\<forall>b \<in> set as. qc_data (the (q_heap q' b)) = qc_data (the (q_heap q b))" by blast
  then show ?thesis
    using as(2) by (auto simp: queue_content_def intro!: exI [of _ "as @ [a]"])
qed

lemma queue_content_pop:
  assumes "queue_content q (x # xs)"
  shows "\<exists>q'. nghttp2_queue_pop q = Some q' \<and> queue_content q' xs"
proof -
  from assms obtain a as where as: "queue_cells q (a # as)"
    "xs = map (\<lambda>a. qc_data (the (q_heap q a))) as"
    by (auto simp: queue_content_def Cons_eq_map_conv)
  from queue_cells_pop [OF as(1)] obtain q' where
    q': "nghttp2_queue_pop q = Some q'" "queue_cells q' as" "\<forall>b \<in> set as. q_heap q' b = q_heap q b"
    by blast
  then show ?thesis using as(2) by (auto simp: queue_content_def intro!: exI [of _ as])
qed

lemma queue_content_front: "queue_content q (x # xs) \<Longrightarrow> nghttp2_queue_front q = Some x"
  by (auto simp: queue_content_def queue_cells_def nghttp2_queue_front_def Cons_eq_map_conv)

lemma queue_content_back: "queue_content q (xs @ [x]) \<Longrightarrow> nghttp2_queue_back q = Some x"
proof -
  assume "queue_content q (xs @ [x])"
  then obtain as b where "queue_cells q (as @ [b])" "x = qc_data (the (q_heap q b))"
    by (auto simp: queue_content_def map_eq_append_conv append_eq_map_conv)
  then show ?thesis
    by (auto simp: queue_cells_def nghttp2_queue_back_def dest: queue_path_last_next)
qed

lemma queue_content_empty: "queue_content q xs \<Longrightarrow> nghttp2_queue_empty q \<longleftrightarrow> xs = []"
  by (auto simp: queue_content_def queue_cells_def nghttp2_queue_empty_def elim: queue_path.elims)

lemma queue_content_init: "queue_content nghttp2_queue_init []"
  by (simp add: queue_content_def queue_cells_def nghttp2_queue_init_def)

interpretation ngq: fifo
  queue_content nghttp2_queue_init "\<lambda>q a x. snd (nghttp2_queue_push q (Some a) x)"
  nghttp2_queue_pop nghttp2_queue_front nghttp2_queue_back nghttp2_queue_empty
  "\<lambda>q a. q_heap q a = None"
  by unfold_locales
    (fact queue_content_init queue_content_push queue_content_pop queue_content_front
      queue_content_back queue_content_empty)+

lemma queue_free_path:
  "queue_path h p as \<Longrightarrow> distinct as \<Longrightarrow> dom h = set as \<Longrightarrow>
   queue_free_loop (length as) h p = Some Map.empty"
proof (induction as arbitrary: h p)
  case Nil
  then show ?case by simp
next
  case (Cons a as)
  then obtain c where c: "p = Some a" "h a = Some c" "queue_path h (qc_next c) as"
    by auto
  moreover have "queue_free_loop (length as) (h(a := None)) (qc_next c) = Some Map.empty"
  proof (rule Cons.IH)
    show "queue_path (h(a := None)) (qc_next c) as"
      using Cons.prems(2) c(3) queue_path_upd [of a as h None] by simp
    show "distinct as" and "dom (h(a := None)) = set as"
      using Cons.prems(2,3) by (auto simp: dom_fun_upd)
  qed
  ultimately show ?case by simp
qed

lemma queue_push_content:
  assumes "queue_content q xs" and "q_heap q a = None"
  shows "\<exists>q'. nghttp2_queue_push q (Some a) x = (0, q') \<and> queue_content q' (xs @ [x])"
  using queue_content_push [OF assms, of x]
  by (cases "q_back q") (auto simp: nghttp2_queue_push_def Let_def)

subsection \<open>Properties\<close>

text \<open>
  The linked cells implement a FIFO list.  On a queue whose cells hold \<open>xs\<close>, a push with a
  fresh cell appends, a push whose \<open>malloc\<close> failed reports NOMEM and changes nothing, front and
  pop take the oldest element, and pop on an empty queue aborts.
\<close>

theorem queue_refines_list:
  assumes "queue_content q xs"
  shows "(\<forall>a. q_heap q a = None \<longrightarrow>
            (\<exists>q'. nghttp2_queue_push q (Some a) x = (0, q') \<and> queue_content q' (xs @ [x]))) \<and>
         nghttp2_queue_push q None x = (NGHTTP2_ERR_NOMEM, q) \<and>
         (case xs of
            [] \<Rightarrow> nghttp2_queue_pop q = None
          | y # ys \<Rightarrow> nghttp2_queue_front q = Some y \<and>
                      (\<exists>q'. nghttp2_queue_pop q = Some q' \<and> queue_content q' ys))"
proof -
  have "nghttp2_queue_push q None x = (NGHTTP2_ERR_NOMEM, q)"
    by (simp add: nghttp2_queue_push_def)
  moreover have "xs = [] \<Longrightarrow> nghttp2_queue_pop q = None"
    using ngq.content_empty [OF assms] by (simp add: nghttp2_queue_empty_def nghttp2_queue_pop_def)
  ultimately show ?thesis
    using assms queue_push_content [OF assms] by (auto split: list.split
        intro: ngq.content_front ngq.content_pop)
qed

theorem queue_refines_list_witness:
  "\<exists>q1 q2. nghttp2_queue_push nghttp2_queue_init (Some 7) (10::nat) = (0, q1) \<and>
     nghttp2_queue_push q1 (Some 3) 11 = (0, q2) \<and> queue_content q2 [10, 11] \<and>
     nghttp2_queue_front q2 = Some 10"
proof -
  obtain q1 where q1: "nghttp2_queue_push nghttp2_queue_init (Some 7) (10::nat) = (0, q1)"
    "queue_content q1 [10]"
    using queue_refines_list [OF queue_content_init, of "10::nat"]
    by (auto simp: nghttp2_queue_init_def)
  then have "q_heap q1 3 = None"
    by (auto simp: nghttp2_queue_push_def nghttp2_queue_init_def Let_def)
  with queue_refines_list [OF q1(2), of 11] obtain q2 where
    q2: "nghttp2_queue_push q1 (Some 3) 11 = (0, q2)" "queue_content q2 [10, 11]" by auto
  then show ?thesis
    using q1 queue_refines_list [OF q2(2), of 0] by auto
qed

text \<open>
  \<open>nghttp2_queue_free\<close> releases every cell of the queue exactly once and stops: with one
  step per cell the walk ends with an empty heap and never touches a freed cell.
\<close>

theorem queue_free_releases_all:
  assumes "queue_cells q as"
  shows "nghttp2_queue_free (length as) q = Some Map.empty"
  using assms by (auto simp: nghttp2_queue_free_def queue_cells_def intro: queue_free_path)

theorem queue_free_releases_all_witness:
  "nghttp2_queue_free 2
     (snd (nghttp2_queue_push (snd (nghttp2_queue_push nghttp2_queue_init (Some 7) (10::nat))) (Some 3) 11))
   = Some Map.empty"
  using queue_free_releases_all [of
      "snd (nghttp2_queue_push (snd (nghttp2_queue_push nghttp2_queue_init (Some 7) (10::nat))) (Some 3) 11)"
      "[7, 3]"]
  by (simp add: queue_cells_def nghttp2_queue_push_def nghttp2_queue_init_def Let_def
      numeral_2_eq_2 insert_commute)

end
