(* ===== verification/Pq.thy ===== *)
theory Pq
  imports Prelude
begin

text \<open>
  \<open>nghttp2_pq.c\<close>: a binary heap of pointers to entries, each of which records its own position so
  that it can be removed from the middle.  An entry is its address; \<open>pq_q\<close> is the array up to
  \<open>pq->length\<close> and \<open>pq_index\<close> the \<open>index\<close> field of the entries.  The order \<open>lt\<close> is the
  function pointer the queue was initialised with.
\<close>

record nghttp2_pq =
  pq_q :: "nat list"
  pq_index :: "nat \<Rightarrow> nat"
  pq_capacity :: nat

type_synonym pq_less = "nat \<Rightarrow> nat \<Rightarrow> bool"

definition nghttp2_pq_init :: "(nat \<Rightarrow> nat) \<Rightarrow> nghttp2_pq" where
  "nghttp2_pq_init idx = \<lparr>pq_q = [], pq_index = idx, pq_capacity = 0\<rparr>"

definition pq_swap :: "nghttp2_pq \<Rightarrow> nat \<Rightarrow> nat \<Rightarrow> nghttp2_pq" where
  "pq_swap pq i j =
     (let a = pq_q pq ! i; b = pq_q pq ! j
      in pq\<lparr>pq_q := (pq_q pq)[i := b, j := a], pq_index := (pq_index pq)(b := i, a := j)\<rparr>)"

function bubble_up :: "pq_less \<Rightarrow> nghttp2_pq \<Rightarrow> nat \<Rightarrow> nghttp2_pq" where
  "bubble_up lt pq index =
     (if index = 0 then pq
      else
        let parent = (index - 1) div 2
        in if \<not> lt (pq_q pq ! index) (pq_q pq ! parent) then pq
           else bubble_up lt (pq_swap pq parent index) parent)"
  by pat_completeness auto
termination
  by (relation "measure (\<lambda>(lt, pq, index). index)") auto

text \<open>\<open>realloc\<close> of \<open>ncapacity\<close> pointers of 8 bytes.\<close>

definition nghttp2_pq_push :: "mem \<Rightarrow> pq_less \<Rightarrow> nghttp2_pq \<Rightarrow> nat \<Rightarrow> rc \<times> nghttp2_pq" where
  "nghttp2_pq_push m lt pq item =
     (let ncapacity = max 4 (pq_capacity pq * 2)
      in if pq_capacity pq \<le> length (pq_q pq) \<and> \<not> m (ncapacity * 8) then (NGHTTP2_ERR_NOMEM, pq)
         else
           let cap = (if pq_capacity pq \<le> length (pq_q pq) then ncapacity else pq_capacity pq);
               n = length (pq_q pq);
               pq = pq\<lparr>pq_capacity := cap, pq_q := pq_q pq @ [item],
                       pq_index := (pq_index pq)(item := n)\<rparr>
           in (0, bubble_up lt pq n))"

definition nghttp2_pq_top :: "nghttp2_pq \<Rightarrow> nat option" where
  "nghttp2_pq_top pq = (if length (pq_q pq) = 0 then None else Some (pq_q pq ! 0))"

text \<open>The inner loop over the two children: \<open>n\<close> iterations are left, \<open>j\<close> is the next child.\<close>

fun min_child_loop :: "pq_less \<Rightarrow> nat list \<Rightarrow> nat \<Rightarrow> nat \<Rightarrow> nat \<Rightarrow> nat" where
  "min_child_loop lt q 0 j minindex = minindex"
| "min_child_loop lt q (Suc n) j minindex =
     (if j \<ge> length q then minindex
      else min_child_loop lt q n (j + 1) (if lt (q ! j) (q ! minindex) then j else minindex))"

lemma min_child_cases:
  "min_child_loop lt q n j k = k \<or>
   (j \<le> min_child_loop lt q n j k \<and> min_child_loop lt q n j k < j + n \<and>
    min_child_loop lt q n j k < length q)"
proof (induction n arbitrary: j k)
  case 0
  then show ?case by simp
next
  case (Suc n)
  show ?case
    using Suc.IH [of "j + 1" "if lt (q ! j) (q ! k) then j else k"] by auto
qed

function bubble_down :: "pq_less \<Rightarrow> nghttp2_pq \<Rightarrow> nat \<Rightarrow> nghttp2_pq" where
  "bubble_down lt pq index =
     (let minindex = min_child_loop lt (pq_q pq) 2 (index * 2 + 1) index
      in if minindex = index then pq
         else bubble_down lt (pq_swap pq index minindex) minindex)"
  by pat_completeness auto
termination
proof (relation "measure (\<lambda>(lt, pq, index). length (pq_q pq) - index)")
  fix lt :: pq_less and pq :: nghttp2_pq and index x :: nat
  assume "x = min_child_loop lt (pq_q pq) 2 (index * 2 + 1) index" "x \<noteq> index"
  with min_child_cases [of lt "pq_q pq" 2 "index * 2 + 1" index]
  have "index < x" "x < length (pq_q pq)" by auto
  then show "((lt, pq_swap pq index x, x), lt, pq, index)
      \<in> measure (\<lambda>(lt, pq, index). length (pq_q pq) - index)"
    by (simp add: pq_swap_def Let_def)
qed simp

declare bubble_up.simps [simp del] bubble_down.simps [simp del]

definition nghttp2_pq_pop :: "pq_less \<Rightarrow> nghttp2_pq \<Rightarrow> nghttp2_pq" where
  "nghttp2_pq_pop lt pq =
     (if length (pq_q pq) > 0 then
        let l = pq_q pq ! (length (pq_q pq) - 1);
            pq = pq\<lparr>pq_q := butlast ((pq_q pq)[0 := l]), pq_index := (pq_index pq)(l := 0)\<rparr>
        in bubble_down lt pq 0
      else pq)"

definition nghttp2_pq_remove :: "pq_less \<Rightarrow> nghttp2_pq \<Rightarrow> nat \<Rightarrow> nghttp2_pq option" where
  "nghttp2_pq_remove lt pq item =
     (let index = pq_index pq item; n = length (pq_q pq)
      in if \<not> (index < n \<and> pq_q pq ! index = item) then None
         else if index = 0 then Some (nghttp2_pq_pop lt pq)
         else if index = n - 1 then Some (pq\<lparr>pq_q := butlast (pq_q pq)\<rparr>)
         else
           let l = pq_q pq ! (n - 1);
               pq = pq\<lparr>pq_q := butlast ((pq_q pq)[index := l]), pq_index := (pq_index pq)(l := index)\<rparr>
           in if lt item (pq_q pq ! index) then Some (bubble_down lt pq index)
              else Some (bubble_up lt pq index))"

definition nghttp2_pq_empty :: "nghttp2_pq \<Rightarrow> bool" where
  "nghttp2_pq_empty pq \<longleftrightarrow> length (pq_q pq) = 0"

definition nghttp2_pq_size :: "nghttp2_pq \<Rightarrow> nat" where
  "nghttp2_pq_size pq = length (pq_q pq)"

text \<open>
  \<open>nghttp2_pq_update\<close> lets a callback change the entries and then restores the heap from the
  last position up to the root.  \<open>changed e\<close> is what the callback returned for entry \<open>e\<close>, and
  \<open>lt\<close> is the order after the changes.
\<close>

fun heapify_loop :: "pq_less \<Rightarrow> nghttp2_pq \<Rightarrow> nat \<Rightarrow> nghttp2_pq" where
  "heapify_loop lt pq 0 = pq"
| "heapify_loop lt pq (Suc i) = heapify_loop lt (bubble_down lt pq i) i"

definition nghttp2_pq_update :: "pq_less \<Rightarrow> (nat \<Rightarrow> bool) \<Rightarrow> nghttp2_pq \<Rightarrow> nghttp2_pq" where
  "nghttp2_pq_update lt changed pq =
     (if length (pq_q pq) = 0 then pq
      else if list_ex changed (pq_q pq) then heapify_loop lt pq (length (pq_q pq))
      else pq)"

definition nghttp2_pq_each :: "(nat \<Rightarrow> bool) \<Rightarrow> nghttp2_pq \<Rightarrow> bool" where
  "nghttp2_pq_each f pq = (if length (pq_q pq) = 0 then False else list_ex f (pq_q pq))"

subsection \<open>The interface\<close>

text \<open>
  What the scheduler relies on: the queue holds a set of entries, and its top is an entry that
  no other entry precedes.
\<close>

locale prio_queue =
  fixes lt :: "'e \<Rightarrow> 'e \<Rightarrow> bool"
    and S :: "'e set"
    and invar :: "'q \<Rightarrow> bool"
    and elems :: "'q \<Rightarrow> 'e set"
    and top :: "'q \<Rightarrow> 'e option"
    and qpush :: "'q \<Rightarrow> 'e \<Rightarrow> 'q"
    and qpop :: "'q \<Rightarrow> 'q"
    and remove :: "'q \<Rightarrow> 'e \<Rightarrow> 'q option"
  assumes finite_elems: "invar q \<Longrightarrow> finite (elems q)"
    and top_empty: "invar q \<Longrightarrow> top q = None \<longleftrightarrow> elems q = {}"
    and top_min: "invar q \<Longrightarrow> top q = Some x \<Longrightarrow> x \<in> elems q \<and> (\<forall>y \<in> elems q. \<not> lt y x)"
    and push_spec: "invar q \<Longrightarrow> x \<in> S \<Longrightarrow> x \<notin> elems q \<Longrightarrow>
          invar (qpush q x) \<and> elems (qpush q x) = insert x (elems q)"
    and pop_spec: "invar q \<Longrightarrow> top q = Some x \<Longrightarrow> invar (qpop q) \<and> elems (qpop q) = elems q - {x}"
    and remove_spec: "invar q \<Longrightarrow> x \<in> elems q \<Longrightarrow>
          \<exists>q'. remove q x = Some q' \<and> invar q' \<and> elems q' = elems q - {x}"
begin

text \<open>A client that keeps popping serves the entries in order.\<close>

fun serve :: "nat \<Rightarrow> 'q \<Rightarrow> 'e list" where
  "serve 0 q = []"
| "serve (Suc n) q = (case top q of None \<Rightarrow> [] | Some x \<Rightarrow> x # serve n (qpop q))"

lemma serve_sorted:
  "invar q \<Longrightarrow> card (elems q) = n \<Longrightarrow>
   set (serve n q) = elems q \<and> distinct (serve n q) \<and> sorted_wrt (\<lambda>x y. \<not> lt y x) (serve n q)"
proof (induction n arbitrary: q)
  case 0
  then show ?case using finite_elems by auto
next
  case (Suc n)
  then obtain x where x: "top q = Some x"
    using top_empty [of q] by (cases "top q") auto
  have mem: "x \<in> elems q" and least: "\<forall>y \<in> elems q. \<not> lt y x"
    using top_min [OF Suc.prems(1) x] by auto
  have pop: "invar (qpop q)" "elems (qpop q) = elems q - {x}"
    using pop_spec [OF Suc.prems(1) x] by auto
  then have "card (elems (qpop q)) = n"
    using Suc.prems mem finite_elems by simp
  from Suc.IH [OF pop(1) this] x mem least pop(2) show ?case by auto
qed

end

subsection \<open>Heaps over a strict weak order\<close>

locale swo_on =
  fixes lt :: pq_less and S :: "nat set"
  assumes asym: "a \<in> S \<Longrightarrow> b \<in> S \<Longrightarrow> lt a b \<Longrightarrow> \<not> lt b a"
    and neg_trans: "a \<in> S \<Longrightarrow> b \<in> S \<Longrightarrow> c \<in> S \<Longrightarrow> \<not> lt a b \<Longrightarrow> \<not> lt b c \<Longrightarrow> \<not> lt a c"

definition parent :: "nat \<Rightarrow> nat" where
  "parent i = (i - 1) div 2"

text \<open>Position \<open>i\<close> does not precede its parent.\<close>

definition heap_at :: "pq_less \<Rightarrow> nat list \<Rightarrow> nat \<Rightarrow> bool" where
  "heap_at lt q i \<longleftrightarrow> \<not> lt (q ! i) (q ! parent i)"

definition is_heap :: "pq_less \<Rightarrow> nat list \<Rightarrow> bool" where
  "is_heap lt q \<longleftrightarrow> (\<forall>i < length q. 0 < i \<longrightarrow> heap_at lt q i)"

text \<open>The heap order holds except at \<open>k\<close>, and the children of \<open>k\<close> are in order with its parent.\<close>

definition heap_except :: "pq_less \<Rightarrow> nat list \<Rightarrow> nat \<Rightarrow> bool" where
  "heap_except lt q k \<longleftrightarrow>
     (\<forall>i < length q. 0 < i \<and> i \<noteq> k \<longrightarrow> heap_at lt q i) \<and>
     (\<forall>i < length q. 0 < i \<and> parent i = k \<and> 0 < k \<longrightarrow> \<not> lt (q ! i) (q ! parent k))"

text \<open>The heap order holds below \<open>lo\<close> except between \<open>k\<close> and its children.\<close>

definition heap_below :: "pq_less \<Rightarrow> nat list \<Rightarrow> nat \<Rightarrow> nat \<Rightarrow> bool" where
  "heap_below lt q lo k \<longleftrightarrow>
     (\<forall>i < length q. 0 < i \<and> lo \<le> parent i \<and> parent i \<noteq> k \<longrightarrow> heap_at lt q i) \<and>
     (\<forall>i < length q. 0 < i \<and> parent i = k \<and> 0 < k \<and> lo \<le> parent k \<longrightarrow> \<not> lt (q ! i) (q ! parent k))"

lemma parent_less: "0 < i \<Longrightarrow> parent i < i"
  by (simp add: parent_def)

lemma parent_eq_iff: "0 < i \<Longrightarrow> parent i = k \<longleftrightarrow> i = k * 2 + 1 \<or> i = k * 2 + 2"
  by (auto simp: parent_def)

lemma set_nth_swap [simp]:
  "i < length q \<Longrightarrow> j < length q \<Longrightarrow> set (q[i := q ! j, j := q ! i]) = set q"
  by (metis swap_mset set_mset_mset)

context swo_on
begin

lemma swap_up_heap_except:
  assumes q: "set q \<subseteq> S" and k: "k < length q" "0 < k"
    and h: "heap_except lt q k" and l: "lt (q ! k) (q ! parent k)"
  shows "heap_except lt (q[parent k := q ! k, k := q ! parent k]) (parent k)"
proof -
  let ?p = "parent k" and ?q = "q[parent k := q ! k, k := q ! parent k]"
  have pk: "?p < k" using k parent_less by blast
  have inS: "q ! i \<in> S" if "i < length q" for i using q that by auto
  have nl: "\<not> lt (q ! ?p) (q ! k)" by (rule asym) (use l inS k pk in simp_all)
  have ok: "\<not> lt (q ! i) (q ! parent i)" if "i < length q" "0 < i" "i \<noteq> k" for i
    using h that by (auto simp: heap_except_def heap_at_def)
  have gp: "\<not> lt (q ! i) (q ! ?p)" if "i < length q" "0 < i" "parent i = k" for i
    using h that k by (auto simp: heap_except_def)
  have "heap_at lt ?q i" if i: "i < length q" "0 < i" "i \<noteq> ?p" for i
  proof -
    have pi: "parent i < i" using i parent_less by blast
    consider "i = k" | "i \<noteq> k" "parent i = k" | "i \<noteq> k" "parent i = ?p" "parent i \<noteq> k"
      | "i \<noteq> k" "parent i \<noteq> k" "parent i \<noteq> ?p" by blast
    then show ?thesis
    proof cases
      case 1
      with nl k pk show ?thesis by (simp add: heap_at_def)
    next
      case 2
      with gp [of i] i k pk pi show ?thesis by (simp add: heap_at_def)
    next
      case 3
      have "\<not> lt (q ! i) (q ! k)"
        using neg_trans [of "q ! i" "q ! ?p" "q ! k"] ok [of i] nl 3 i k pk inS by simp
      with 3 i k pk show ?thesis by (simp add: heap_at_def)
    next
      case 4
      with ok [of i] i show ?thesis by (simp add: heap_at_def)
    qed
  qed
  moreover have "\<not> lt (?q ! i) (?q ! parent ?p)"
    if i: "i < length q" "0 < i" "parent i = ?p" and p0: "0 < ?p" for i
  proof -
    have pp: "parent ?p < ?p" using p0 parent_less by blast
    have okp: "\<not> lt (q ! ?p) (q ! parent ?p)" using ok [of ?p] p0 pk k by simp
    show ?thesis
    proof (cases "i = k")
      case True
      with okp pp pk k show ?thesis by simp
    next
      case False
      have "\<not> lt (q ! i) (q ! parent ?p)"
        using neg_trans [of "q ! i" "q ! ?p" "q ! parent ?p"] ok [of i] False i okp pp pk k inS
        by simp
      moreover have "i \<noteq> ?p" using i parent_less [of i] by auto
      ultimately show ?thesis using False pp pk by simp
    qed
  qed
  ultimately show ?thesis by (simp add: heap_except_def)
qed

lemma min_child_min:
  assumes q: "set q \<subseteq> S" and k: "k < length q"
  shows "(\<forall>i. j \<le> i \<and> i < j + n \<and> i < length q \<longrightarrow> \<not> lt (q ! i) (q ! min_child_loop lt q n j k)) \<and>
         \<not> lt (q ! k) (q ! min_child_loop lt q n j k)"
  using k
proof (induction n arbitrary: j k)
  case 0
  then have "q ! k \<in> S" using q by auto
  then show ?case using asym by auto
next
  case (Suc n)
  show ?case
  proof (cases "j < length q")
    case False
    have "q ! k \<in> S" using q Suc.prems by auto
    with False show ?thesis using asym by auto
  next
    case True
    let ?k = "if lt (q ! j) (q ! k) then j else k"
    let ?r = "min_child_loop lt q n (j + 1) ?k"
    have IH: "\<forall>i. j + 1 \<le> i \<and> i < j + 1 + n \<and> i < length q \<longrightarrow> \<not> lt (q ! i) (q ! ?r)"
      "\<not> lt (q ! ?k) (q ! ?r)"
      using Suc.IH [of ?k "j + 1"] True Suc.prems by auto
    have r: "?r < length q"
      using min_child_cases [of lt q n "j + 1" ?k] True Suc.prems by auto
    have inS: "q ! j \<in> S" "q ! k \<in> S" "q ! ?r \<in> S" using q True Suc.prems r by auto
    have jk: "\<not> lt (q ! j) (q ! ?r) \<and> \<not> lt (q ! k) (q ! ?r)"
      using IH(2) inS asym [of "q ! j" "q ! k"] neg_trans [of "q ! j" "q ! k" "q ! ?r"]
        neg_trans [of "q ! k" "q ! j" "q ! ?r"] by (auto split: if_splits)
    have "\<not> lt (q ! i) (q ! ?r)" if "j \<le> i" "i < j + Suc n" "i < length q" for i
      using that IH(1) jk by (cases "i = j") auto
    with jk True show ?thesis by simp
  qed
qed

lemma swap_down_heap_below:
  assumes q: "set q \<subseteq> S" and m: "m < length q" "0 < m" "parent m = k" and lo: "lo \<le> k"
    and h: "heap_below lt q lo k" and least: "\<And>i. i < length q \<Longrightarrow> 0 < i \<Longrightarrow> parent i = k \<Longrightarrow> \<not> lt (q ! i) (q ! m)"
    and l: "\<not> lt (q ! k) (q ! m)"
  shows "heap_below lt (q[k := q ! m, m := q ! k]) lo m"
proof -
  let ?q = "q[k := q ! m, m := q ! k]"
  have km: "k < m" using m parent_less by blast
  have ok: "\<not> lt (q ! i) (q ! parent i)"
    if "i < length q" "0 < i" "lo \<le> parent i" "parent i \<noteq> k" for i
    using h that by (auto simp: heap_below_def heap_at_def)
  have "heap_at lt ?q i"
    if i: "i < length q" "0 < i" "lo \<le> parent i" "parent i \<noteq> m" for i
  proof -
    have pi: "parent i < i" using i parent_less by blast
    consider "parent i = k" "i = m" | "parent i = k" "i \<noteq> m" | "parent i \<noteq> k" "i = k"
      | "parent i \<noteq> k" "i \<noteq> k" "i \<noteq> m" using m(3) by blast
    then show ?thesis
    proof cases
      case 1
      with l m km show ?thesis by (simp add: heap_at_def)
    next
      case 2
      with least [of i] i m km pi show ?thesis by (simp add: heap_at_def)
    next
      case 3
      have "\<not> lt (q ! m) (q ! parent k)"
        using h m 3 i by (auto simp: heap_below_def)
      with 3 i m km pi show ?thesis by (simp add: heap_at_def)
    next
      case 4
      with ok [of i] i show ?thesis by (simp add: heap_at_def)
    qed
  qed
  moreover have "\<not> lt (?q ! i) (?q ! parent m)"
    if i: "i < length q" "0 < i" "parent i = m" for i
  proof -
    have "m < i" using i parent_less by blast
    moreover have "\<not> lt (q ! i) (q ! m)" using ok [of i] i lo km by simp
    ultimately show ?thesis using m km by simp
  qed
  ultimately show ?thesis by (simp add: heap_below_def)
qed

end

lemma pq_swap_simps [simp]:
  "pq_q (pq_swap pq i j) = (pq_q pq)[i := pq_q pq ! j, j := pq_q pq ! i]"
  "pq_capacity (pq_swap pq i j) = pq_capacity pq"
  by (simp_all add: pq_swap_def Let_def)

text \<open>Every entry knows its position.\<close>

definition pq_wf :: "nghttp2_pq \<Rightarrow> bool" where
  "pq_wf pq \<longleftrightarrow> distinct (pq_q pq) \<and> (\<forall>i < length (pq_q pq). pq_index pq (pq_q pq ! i) = i)"

lemma pq_wfI_index: "(\<And>i. i < length (pq_q pq) \<Longrightarrow> pq_index pq (pq_q pq ! i) = i) \<Longrightarrow> pq_wf pq"
  unfolding pq_wf_def distinct_conv_nth by metis

lemma pq_wf_nth_eq:
  "pq_wf pq \<Longrightarrow> i < length (pq_q pq) \<Longrightarrow> j < length (pq_q pq) \<Longrightarrow> pq_q pq ! i = pq_q pq ! j \<longleftrightarrow> i = j"
  by (auto simp: pq_wf_def nth_eq_iff_index_eq)

lemma pq_swap_wf:
  assumes "pq_wf pq" "i < length (pq_q pq)" "j < length (pq_q pq)"
  shows "pq_wf (pq_swap pq i j)"
proof (rule pq_wfI_index)
  fix k assume "k < length (pq_q (pq_swap pq i j))"
  then have k: "k < length (pq_q pq)" by simp
  have "pq_index pq (pq_q pq ! k) = k" using assms(1) k by (simp add: pq_wf_def)
  then show "pq_index (pq_swap pq i j) (pq_q (pq_swap pq i j) ! k) = k"
    using assms k by (auto simp: pq_swap_def Let_def nth_list_update pq_wf_nth_eq)
qed

lemma bubble_up_frame:
  assumes "pq_wf pq" "k < length (pq_q pq)"
  shows "pq_wf (bubble_up lt pq k) \<and> mset (pq_q (bubble_up lt pq k)) = mset (pq_q pq) \<and>
         pq_capacity (bubble_up lt pq k) = pq_capacity pq"
  using assms
proof (induction lt pq k rule: bubble_up.induct)
  case (1 lt pq index)
  show ?case
  proof (cases "index = 0 \<or> \<not> lt (pq_q pq ! index) (pq_q pq ! ((index - 1) div 2))")
    case True
    with 1 show ?thesis by (auto simp: bubble_up.simps [of lt pq index] Let_def)
  next
    case False
    let ?p = "(index - 1) div 2"
    have p: "?p < length (pq_q pq)" using False 1 by linarith
    then have "pq_wf (pq_swap pq ?p index)" using pq_swap_wf 1 by blast
    with 1 False p show ?thesis
      by (auto simp: bubble_up.simps [of lt pq index] Let_def swap_mset)
  qed
qed

lemma bubble_down_frame:
  assumes "pq_wf pq" "k < length (pq_q pq) \<or> pq_q pq = []"
  shows "pq_wf (bubble_down lt pq k) \<and> mset (pq_q (bubble_down lt pq k)) = mset (pq_q pq) \<and>
         pq_capacity (bubble_down lt pq k) = pq_capacity pq"
  using assms
proof (induction lt pq k rule: bubble_down.induct)
  case (1 lt pq index)
  let ?m = "min_child_loop lt (pq_q pq) 2 (index * 2 + 1) index"
  show ?case
  proof (cases "?m = index")
    case True
    with 1 show ?thesis by (simp add: bubble_down.simps [of lt pq index] Let_def)
  next
    case False
    then have m: "index < ?m" "?m < length (pq_q pq)"
      using min_child_cases [of lt "pq_q pq" 2 "index * 2 + 1" index] by auto
    then have "pq_wf (pq_swap pq index ?m)" using pq_swap_wf 1 by auto
    with 1 False m show ?thesis
      by (auto simp: bubble_down.simps [of lt pq index] Let_def swap_mset)
  qed
qed

lemma set_mset_eq: "mset xs = mset ys \<Longrightarrow> set xs = set ys"
  by (metis set_mset_mset)

context swo_on
begin

lemma bubble_up_heap:
  assumes "set (pq_q pq) \<subseteq> S" "k < length (pq_q pq)" "heap_except lt (pq_q pq) k"
  shows "is_heap lt (pq_q (bubble_up lt pq k))"
  using assms
proof (induction k arbitrary: pq rule: less_induct)
  case (less k)
  show ?case
  proof (cases "k = 0 \<or> \<not> lt (pq_q pq ! k) (pq_q pq ! parent k)")
    case True
    with less.prems have "is_heap lt (pq_q pq)"
      by (auto simp: is_heap_def heap_except_def heap_at_def)
    with True show ?thesis by (auto simp: bubble_up.simps [of lt pq k] parent_def Let_def)
  next
    case False
    have "is_heap lt (pq_q (bubble_up lt (pq_swap pq (parent k) k) (parent k)))"
    proof (rule less.IH)
      show p: "parent k < k" using False parent_less by blast
      show "heap_except lt (pq_q (pq_swap pq (parent k) k)) (parent k)"
        using swap_up_heap_except [of "pq_q pq" k] less.prems False by simp
    qed (use less.prems False parent_less [of k] in auto)
    with False show ?thesis by (simp add: bubble_up.simps [of lt pq k] parent_def Let_def)
  qed
qed

lemma bubble_down_heap:
  assumes "set (pq_q pq) \<subseteq> S" "k < length (pq_q pq)" "lo \<le> k" "heap_below lt (pq_q pq) lo k"
  shows "\<forall>i < length (pq_q pq). 0 < i \<and> lo \<le> parent i \<longrightarrow> heap_at lt (pq_q (bubble_down lt pq k)) i"
  using assms
proof (induction "length (pq_q pq) - k" arbitrary: pq k rule: less_induct)
  case less
  let ?m = "min_child_loop lt (pq_q pq) 2 (k * 2 + 1) k"
  have least: "\<not> lt (pq_q pq ! i) (pq_q pq ! ?m)" if "i < length (pq_q pq)" "0 < i" "parent i = k" for i
    using min_child_min [of "pq_q pq" k "k * 2 + 1" 2] less.prems that by (auto simp: parent_eq_iff)
  have l: "\<not> lt (pq_q pq ! k) (pq_q pq ! ?m)"
    using min_child_min [of "pq_q pq" k "k * 2 + 1" 2] less.prems by auto
  show ?case
  proof (cases "?m = k")
    case True
    have "heap_at lt (pq_q pq) i" if "i < length (pq_q pq)" "0 < i" "lo \<le> parent i" for i
      using least [of i] True that less.prems(4) by (auto simp: heap_below_def heap_at_def)
    with True show ?thesis by (simp add: bubble_down.simps [of lt pq k] Let_def)
  next
    case False
    then have m: "k < ?m" "?m < length (pq_q pq)" "parent ?m = k"
      using min_child_cases [of lt "pq_q pq" 2 "k * 2 + 1" k] by (auto simp: parent_def)
    have "heap_below lt (pq_q (pq_swap pq k ?m)) lo ?m"
      using swap_down_heap_below [of "pq_q pq" ?m k lo] less.prems m least l by simp
    then have "\<forall>i < length (pq_q (pq_swap pq k ?m)). 0 < i \<and> lo \<le> parent i \<longrightarrow>
                 heap_at lt (pq_q (bubble_down lt (pq_swap pq k ?m) ?m)) i"
      using less.prems m by (intro less.hyps) auto
    with False show ?thesis by (simp add: bubble_down.simps [of lt pq k] Let_def)
  qed
qed

lemma heap_top:
  assumes "is_heap lt q" "set q \<subseteq> S" "i < length q"
  shows "\<not> lt (q ! i) (q ! 0)"
  using assms(3)
proof (induction i rule: less_induct)
  case (less i)
  show ?case
  proof (cases "i = 0")
    case True
    then have "q ! 0 \<in> S" using less.prems assms(2) nth_mem [of 0 q] by blast
    with True show ?thesis using asym [of "q ! 0" "q ! 0"] by blast
  next
    case False
    then have p: "parent i < i" using parent_less by blast
    have "\<not> lt (q ! parent i) (q ! 0)" using less p by auto
    moreover have "\<not> lt (q ! i) (q ! parent i)"
      using assms(1) less.prems False by (auto simp: is_heap_def heap_at_def)
    moreover have "q ! j \<in> S" if "j < length q" for j
      using assms(2) that by auto
    then have "q ! i \<in> S" "q ! parent i \<in> S" "q ! 0 \<in> S"
      using less.prems p by (simp, simp, force)
    ultimately show ?thesis using neg_trans by blast
  qed
qed

end

subsection \<open>Removing a position\<close>

text \<open>The last element takes the place of position \<open>k\<close>.\<close>

definition drop_at :: "nat list \<Rightarrow> nat \<Rightarrow> nat list" where
  "drop_at q k = butlast (q[k := q ! (length q - 1)])"

lemma length_drop_at [simp]: "length (drop_at q k) = length q - 1"
  by (simp add: drop_at_def)

lemma nth_drop_at:
  "i < length q - 1 \<Longrightarrow> drop_at q k ! i = (if i = k then q ! (length q - 1) else q ! i)"
  by (auto simp: drop_at_def nth_butlast)

lemma set_drop_at:
  assumes "distinct q" "k < length q"
  shows "set (drop_at q k) = set q - {q ! k}"
proof (cases q rule: rev_cases)
  case Nil
  with assms show ?thesis by simp
next
  case (snoc xs l)
  then show ?thesis
    using assms by (cases "k = length xs")
      (auto simp: drop_at_def list_update_append nth_append set_update_distinct)
qed

lemma pq_wf_drop_at:
  assumes wf: "pq_wf pq" and k: "k < length (pq_q pq)"
  shows "pq_wf (pq\<lparr>pq_q := drop_at (pq_q pq) k,
                    pq_index := (pq_index pq)(pq_q pq ! (length (pq_q pq) - 1) := k)\<rparr>)"
proof (rule pq_wfI_index, simp)
  fix i assume i: "i < length (pq_q pq) - Suc 0"
  have "pq_index pq (pq_q pq ! i) = i" using wf i by (simp add: pq_wf_def)
  then show "(drop_at (pq_q pq) k ! i = pq_q pq ! (length (pq_q pq) - Suc 0) \<longrightarrow> k = i) \<and>
      (drop_at (pq_q pq) k ! i \<noteq> pq_q pq ! (length (pq_q pq) - Suc 0) \<longrightarrow>
       pq_index pq (drop_at (pq_q pq) k ! i) = i)"
    using i pq_wf_nth_eq [OF wf, of i "length (pq_q pq) - 1"] by (auto simp: nth_drop_at)
qed

context swo_on
begin

lemma drop_root_heap_below:
  assumes h: "is_heap lt q"
  shows "heap_below lt (drop_at q 0) 0 0"
proof -
  have "heap_at lt (drop_at q 0) i"
    if i: "i < length q - 1" "0 < i" "parent i \<noteq> 0" for i
  proof -
    have "parent i < i" using i parent_less by blast
    moreover have "\<not> lt (q ! i) (q ! parent i)"
      using h i by (simp add: is_heap_def heap_at_def)
    ultimately show ?thesis using i by (simp add: heap_at_def nth_drop_at)
  qed
  then show ?thesis by (simp add: heap_below_def)
qed

lemma drop_at_order:
  assumes h: "is_heap lt q" and q: "set q \<subseteq> S" and k: "0 < k" "k < length q - 1"
  shows "i < length q - 1 \<Longrightarrow> 0 < i \<Longrightarrow> i \<noteq> k \<Longrightarrow> parent i \<noteq> k \<Longrightarrow> heap_at lt (drop_at q k) i"
    and "i < length q - 1 \<Longrightarrow> 0 < i \<Longrightarrow> parent i = k \<Longrightarrow>
         \<not> lt (drop_at q k ! i) (drop_at q k ! parent k)"
    and "lt (q ! k) (q ! (length q - 1)) \<Longrightarrow> heap_at lt (drop_at q k) k"
    and "i < length q - 1 \<Longrightarrow> 0 < i \<Longrightarrow> parent i = k \<Longrightarrow> \<not> lt (q ! k) (q ! (length q - 1)) \<Longrightarrow>
         heap_at lt (drop_at q k) i"
proof -
  have pk: "parent k < k" using k parent_less by blast
  have inS: "q ! j \<in> S" if "j < length q" for j using q that by auto
  have ok: "\<not> lt (q ! j) (q ! parent j)" if "j < length q" "0 < j" for j
    using h that by (simp add: is_heap_def heap_at_def)
  have last: "length q - 1 < length q" using k by simp
  {
    assume i: "i < length q - 1" "0 < i" "i \<noteq> k" "parent i \<noteq> k"
    have "parent i < i" using i parent_less by blast
    with i ok [of i] show "heap_at lt (drop_at q k) i" by (simp add: heap_at_def nth_drop_at)
  }
  {
    assume i: "i < length q - 1" "0 < i" "parent i = k"
    have "k < i" using i parent_less by blast
    have "\<not> lt (q ! i) (q ! parent k)"
      by (rule neg_trans [of _ "q ! k"]) (use ok [of i] ok [of k] inS i k pk in simp_all)
    with \<open>k < i\<close> i k pk show "\<not> lt (drop_at q k ! i) (drop_at q k ! parent k)"
      by (simp add: nth_drop_at)
  }
  {
    assume l: "lt (q ! k) (q ! (length q - 1))"
    have nl: "\<not> lt (q ! (length q - 1)) (q ! k)" by (rule asym) (use l inS k in simp_all)
    have "\<not> lt (q ! (length q - 1)) (q ! parent k)"
      by (rule neg_trans [of _ "q ! k"]) (use nl ok [of k] inS k pk in simp_all)
    with k pk show "heap_at lt (drop_at q k) k" by (simp add: heap_at_def nth_drop_at)
  }
  {
    assume i: "i < length q - 1" "0 < i" "parent i = k" and nl: "\<not> lt (q ! k) (q ! (length q - 1))"
    have "k < i" using i parent_less by blast
    have "\<not> lt (q ! i) (q ! (length q - 1))"
      by (rule neg_trans [of _ "q ! k"]) (use nl ok [of i] inS i k in simp_all)
    with \<open>k < i\<close> i k show "heap_at lt (drop_at q k) i" by (simp add: heap_at_def nth_drop_at)
  }
qed

lemma drop_at_heap_below:
  assumes "is_heap lt q" "set q \<subseteq> S" "0 < k" "k < length q - 1" "lt (q ! k) (q ! (length q - 1))"
  shows "heap_below lt (drop_at q k) 0 k"
  using drop_at_order [OF assms(1-4)] assms(5) by (auto simp: heap_below_def)

lemma drop_at_heap_except:
  assumes "is_heap lt q" "set q \<subseteq> S" "0 < k" "k < length q - 1" "\<not> lt (q ! k) (q ! (length q - 1))"
  shows "heap_except lt (drop_at q k) k"
  using drop_at_order [OF assms(1-4)] assms(5) by (auto simp: heap_except_def)

end

subsection \<open>The operations\<close>

text \<open>The invariant: positions are recorded, all entries are from \<open>S\<close>, and the array is a heap.\<close>

definition pq_inv :: "pq_less \<Rightarrow> nat set \<Rightarrow> nghttp2_pq \<Rightarrow> bool" where
  "pq_inv lt S pq \<longleftrightarrow> pq_wf pq \<and> set (pq_q pq) \<subseteq> S \<and> is_heap lt (pq_q pq)"

definition pq_elems :: "nghttp2_pq \<Rightarrow> nat set" where
  "pq_elems pq = set (pq_q pq)"

lemma pop_drop_at:
  "pq_q pq \<noteq> [] \<Longrightarrow> nghttp2_pq_pop lt pq =
     bubble_down lt (pq\<lparr>pq_q := drop_at (pq_q pq) 0,
       pq_index := (pq_index pq)(pq_q pq ! (length (pq_q pq) - 1) := 0)\<rparr>) 0"
  by (simp add: nghttp2_pq_pop_def drop_at_def Let_def)

lemma is_heap_butlast: "is_heap lt q \<Longrightarrow> is_heap lt (butlast q)"
  unfolding is_heap_def heap_at_def
proof (intro allI impI)
  fix i assume h: "\<forall>i<length q. 0 < i \<longrightarrow> \<not> lt (q ! i) (q ! parent i)"
    and i: "i < length (butlast q)" "0 < i"
  have "parent i < i" using i parent_less by blast
  with h i show "\<not> lt (butlast q ! i) (butlast q ! parent i)" by (simp add: nth_butlast)
qed

context swo_on
begin

lemma push_inv:
  assumes inv: "pq_inv lt S pq" and x: "x \<in> S" "x \<notin> pq_elems pq" and ok: "m (max 4 (pq_capacity pq * 2) * 8)"
  shows "\<exists>pq'. nghttp2_pq_push m lt pq x = (0, pq') \<and> pq_inv lt S pq' \<and>
           pq_elems pq' = insert x (pq_elems pq)"
proof -
  define n where "n = length (pq_q pq)"
  define p where "p = pq\<lparr>pq_capacity := (if pq_capacity pq \<le> n then max 4 (pq_capacity pq * 2) else pq_capacity pq),
     pq_q := pq_q pq @ [x], pq_index := (pq_index pq)(x := n)\<rparr>"
  have res: "nghttp2_pq_push m lt pq x = (0, bubble_up lt p n)"
    using ok by (simp add: nghttp2_pq_push_def p_def n_def Let_def)
  have wf: "pq_wf p"
    using inv x by (intro pq_wfI_index)
      (auto simp: p_def n_def pq_inv_def pq_wf_def pq_elems_def nth_append less_Suc_eq dest: nth_mem)
  have "heap_at lt (pq_q p) i" if "i < n" "0 < i" for i
    using inv that parent_less [of i]
    by (auto simp: p_def n_def pq_inv_def is_heap_def heap_at_def nth_append)
  moreover have "\<not> (i < Suc n \<and> 0 < i \<and> parent i = n)" for i
    using parent_less [of i] by auto
  ultimately have "heap_except lt (pq_q p) n"
    by (auto simp: heap_except_def p_def n_def less_Suc_eq)
  then have heap: "is_heap lt (pq_q (bubble_up lt p n))"
    using inv x by (intro bubble_up_heap) (auto simp: p_def n_def pq_inv_def)
  have frame: "pq_wf (bubble_up lt p n)" "mset (pq_q (bubble_up lt p n)) = mset (pq_q p)"
    using bubble_up_frame [OF wf, of n lt] by (auto simp: p_def n_def)
  have "set (pq_q (bubble_up lt p n)) = insert x (set (pq_q pq))"
    using set_mset_eq [OF frame(2)] by (simp add: p_def)
  with frame(1) heap res inv x show ?thesis by (auto simp: pq_inv_def pq_elems_def)
qed

lemma pop_inv:
  assumes inv: "pq_inv lt S pq" and top: "nghttp2_pq_top pq = Some x"
  shows "pq_inv lt S (nghttp2_pq_pop lt pq) \<and> pq_elems (nghttp2_pq_pop lt pq) = pq_elems pq - {x}"
proof -
  have ne: "pq_q pq \<noteq> []" and x: "x = pq_q pq ! 0"
    using top by (auto simp: nghttp2_pq_top_def split: if_splits)
  define p where "p = pq\<lparr>pq_q := drop_at (pq_q pq) 0,
    pq_index := (pq_index pq)(pq_q pq ! (length (pq_q pq) - 1) := 0)\<rparr>"
  have pop: "nghttp2_pq_pop lt pq = bubble_down lt p 0"
    using ne by (simp add: pop_drop_at p_def)
  have wf: "pq_wf p"
    unfolding p_def using pq_wf_drop_at [of pq 0] inv ne by (simp add: pq_inv_def)
  have sp: "set (pq_q p) = set (pq_q pq) - {x}"
    using set_drop_at [of "pq_q pq" 0] inv ne x by (simp add: p_def pq_inv_def pq_wf_def)
  have below: "heap_below lt (pq_q p) 0 0"
    using drop_root_heap_below inv by (simp add: p_def pq_inv_def)
  have frame: "pq_wf (bubble_down lt p 0)" "mset (pq_q (bubble_down lt p 0)) = mset (pq_q p)"
    using bubble_down_frame [OF wf, of 0 lt] by auto
  have "is_heap lt (pq_q (bubble_down lt p 0))"
  proof (cases "pq_q p = []")
    case True
    with frame(2) show ?thesis by (simp add: is_heap_def)
  next
    case False
    then show ?thesis
      using bubble_down_heap [of p 0 0] below sp inv mset_eq_length [OF frame(2)]
      by (auto simp: is_heap_def pq_inv_def)
  qed
  with frame(1) pop sp inv set_mset_eq [OF frame(2)] show ?thesis
    by (auto simp: pq_inv_def pq_elems_def)
qed

lemma bubble_at:
  assumes wf: "pq_wf p" and S: "set (pq_q p) \<subseteq> S" and k: "k < length (pq_q p)"
  shows "heap_below lt (pq_q p) 0 k \<Longrightarrow>
           pq_inv lt S (bubble_down lt p k) \<and> pq_elems (bubble_down lt p k) = pq_elems p"
    and "heap_except lt (pq_q p) k \<Longrightarrow>
           pq_inv lt S (bubble_up lt p k) \<and> pq_elems (bubble_up lt p k) = pq_elems p"
proof -
  have d: "pq_wf (bubble_down lt p k)" "mset (pq_q (bubble_down lt p k)) = mset (pq_q p)"
    using bubble_down_frame [OF wf] k by auto
  have u: "pq_wf (bubble_up lt p k)" "mset (pq_q (bubble_up lt p k)) = mset (pq_q p)"
    using bubble_up_frame [OF wf] k by auto
  {
    assume "heap_below lt (pq_q p) 0 k"
    then have "is_heap lt (pq_q (bubble_down lt p k))"
      using bubble_down_heap [of p k 0] S k mset_eq_length [OF d(2)] by (auto simp: is_heap_def)
    then show "pq_inv lt S (bubble_down lt p k) \<and> pq_elems (bubble_down lt p k) = pq_elems p"
      using d(1) S set_mset_eq [OF d(2)] by (simp add: pq_inv_def pq_elems_def)
  }
  {
    assume "heap_except lt (pq_q p) k"
    then have "is_heap lt (pq_q (bubble_up lt p k))"
      using bubble_up_heap [of p k] S k by auto
    then show "pq_inv lt S (bubble_up lt p k) \<and> pq_elems (bubble_up lt p k) = pq_elems p"
      using u(1) S set_mset_eq [OF u(2)] by (simp add: pq_inv_def pq_elems_def)
  }
qed

lemma remove_inv:
  assumes inv: "pq_inv lt S pq" and x: "x \<in> pq_elems pq"
  shows "\<exists>pq'. nghttp2_pq_remove lt pq x = Some pq' \<and> pq_inv lt S pq' \<and>
           pq_elems pq' = pq_elems pq - {x}"
proof -
  define k n where "k = pq_index pq x" and "n = length (pq_q pq)"
  have q: "set (pq_q pq) \<subseteq> S" "is_heap lt (pq_q pq)" and wf: "pq_wf pq" and d: "distinct (pq_q pq)"
    using inv by (auto simp: pq_inv_def pq_wf_def)
  have k: "k < n" "pq_q pq ! k = x"
    using x wf by (auto simp: k_def n_def pq_elems_def pq_wf_def in_set_conv_nth)
  note def = nghttp2_pq_remove_def Let_def k_def [symmetric] n_def [symmetric]
  consider "k = 0" | "0 < k" "k = n - 1" | "0 < k" "k < n - 1" using k by linarith
  then show ?thesis
  proof cases
    case 1
    have "nghttp2_pq_top pq = Some x" using k 1 by (auto simp: nghttp2_pq_top_def n_def)
    from pop_inv [OF inv this] k 1 show ?thesis by (simp add: def)
  next
    case 2
    have *: "butlast (pq_q pq) = drop_at (pq_q pq) k"
      using 2 k by (simp add: drop_at_def n_def butlast_list_update)
    have "set (butlast (pq_q pq)) = set (pq_q pq) - {x}"
      using set_drop_at [OF d, of k] k * by (simp add: n_def)
    moreover have "pq_wf (pq\<lparr>pq_q := butlast (pq_q pq)\<rparr>)"
      using wf by (auto simp: pq_wf_def distinct_butlast nth_butlast)
    ultimately show ?thesis
      using 2 k q is_heap_butlast [OF q(2)] by (auto simp: def pq_inv_def pq_elems_def)
  next
    case 3
    define p where "p = pq\<lparr>pq_q := drop_at (pq_q pq) k,
      pq_index := (pq_index pq)(pq_q pq ! (n - 1) := k)\<rparr>"
    have wfp: "pq_wf p" unfolding p_def n_def using pq_wf_drop_at [OF wf] k by (simp add: n_def)
    have sp: "set (pq_q p) = set (pq_q pq) - {x}"
      using set_drop_at [OF d, of k] k by (simp add: p_def n_def)
    have kp: "k < length (pq_q p)" using 3 by (simp add: p_def n_def)
    have l: "pq_q p ! k = pq_q pq ! (n - 1)" using 3 by (simp add: p_def n_def nth_drop_at)
    have rem: "nghttp2_pq_remove lt pq x =
        Some (if lt x (pq_q p ! k) then bubble_down lt p k else bubble_up lt p k)"
      using 3 k by (simp add: def p_def drop_at_def n_def [symmetric])
    have "lt x (pq_q p ! k) \<Longrightarrow> heap_below lt (pq_q p) 0 k"
      and "\<not> lt x (pq_q p ! k) \<Longrightarrow> heap_except lt (pq_q p) k"
      using drop_at_heap_below [OF q(2,1), of k] drop_at_heap_except [OF q(2,1), of k] 3 k l
      by (auto simp: p_def n_def)
    with bubble_at [OF wfp _ kp] sp q(1) rem show ?thesis
      by (auto simp: pq_elems_def)
  qed
qed

lemma heapify_inv:
  assumes wf: "pq_wf pq" and S: "set (pq_q pq) \<subseteq> S" and n: "n \<le> length (pq_q pq)"
    and h: "\<forall>i < length (pq_q pq). 0 < i \<and> n \<le> parent i \<longrightarrow> heap_at lt (pq_q pq) i"
  shows "pq_inv lt S (heapify_loop lt pq n) \<and> pq_elems (heapify_loop lt pq n) = pq_elems pq"
  using assms
proof (induction n arbitrary: pq)
  case 0
  then show ?case by (simp add: pq_inv_def is_heap_def)
next
  case (Suc n)
  let ?p = "bubble_down lt pq n"
  have n: "n < length (pq_q pq)" using Suc.prems by simp
  have f: "pq_wf ?p" "mset (pq_q ?p) = mset (pq_q pq)"
    using bubble_down_frame [OF Suc.prems(1)] n by auto
  have "heap_below lt (pq_q pq) n n"
    using Suc.prems(4) parent_less [of n] by (auto simp: heap_below_def)
  then have "\<forall>i < length (pq_q pq). 0 < i \<and> n \<le> parent i \<longrightarrow> heap_at lt (pq_q ?p) i"
    using bubble_down_heap [of pq n n] Suc.prems(2) n by blast
  with f Suc.prems n have "pq_inv lt S (heapify_loop lt ?p n) \<and> pq_elems (heapify_loop lt ?p n) = pq_elems ?p"
    using mset_eq_length [OF f(2)] set_mset_eq [OF f(2)] by (intro Suc.IH) auto
  then show ?case using set_mset_eq [OF f(2)] by (simp add: pq_elems_def)
qed

lemma top_empty:
  "pq_inv lt S pq \<Longrightarrow> nghttp2_pq_top pq = None \<longleftrightarrow> pq_elems pq = {}"
  by (simp add: nghttp2_pq_top_def pq_elems_def)

lemma top_min:
  assumes inv: "pq_inv lt S pq" and top: "nghttp2_pq_top pq = Some x"
  shows "x \<in> pq_elems pq \<and> (\<forall>y \<in> pq_elems pq. \<not> lt y x)"
proof -
  have q: "set (pq_q pq) \<subseteq> S" "is_heap lt (pq_q pq)" using inv by (simp_all add: pq_inv_def)
  have n: "0 < length (pq_q pq)" and x: "x = pq_q pq ! 0"
    using top by (simp_all add: nghttp2_pq_top_def split: if_splits)
  have "\<not> lt y x" if y: "y \<in> set (pq_q pq)" for y
  proof -
    from y obtain i where "i < length (pq_q pq)" "pq_q pq ! i = y" by (auto simp: in_set_conv_nth)
    then show ?thesis using heap_top [of "pq_q pq" i] q x by blast
  qed
  moreover have "x \<in> set (pq_q pq)" using n x by simp
  ultimately show ?thesis by (simp add: pq_elems_def)
qed

lemma push_snd:
  assumes "pq_inv lt S q" "x \<in> S" "x \<notin> pq_elems q"
  shows "pq_inv lt S (snd (nghttp2_pq_push (\<lambda>_. True) lt q x)) \<and>
      pq_elems (snd (nghttp2_pq_push (\<lambda>_. True) lt q x)) = insert x (pq_elems q)"
proof -
  obtain q' where "nghttp2_pq_push (\<lambda>_. True) lt q x = (0, q')" "pq_inv lt S q'"
    "pq_elems q' = insert x (pq_elems q)"
    using push_inv [OF assms, of "\<lambda>_. True"] by blast
  then show ?thesis by simp
qed

sublocale pqueue: prio_queue lt S "pq_inv lt S" pq_elems nghttp2_pq_top
  "\<lambda>pq x. snd (nghttp2_pq_push (\<lambda>_. True) lt pq x)" "nghttp2_pq_pop lt" "nghttp2_pq_remove lt"
  by unfold_locales
    (simp add: pq_elems_def, fact top_empty, fact top_min, fact push_snd, fact pop_inv, fact remove_inv)

end

end
