(* ===== verification/Stream.thy ===== *)
theory Stream
  imports Pq Helper
begin

text \<open>
  \<open>nghttp2_stream.c\<close> and \<open>nghttp2_extpri.c\<close>: the stream object with all its fields, its
  life-cycle flags, the window update on a SETTINGS change and the cycle arithmetic of the
  weighted scheduler of RFC 7540.  Streams live in a heap from addresses to stream objects, since
  the queues of a stream hold pointers to other streams.
\<close>

datatype nghttp2_stream_state =
    NGHTTP2_STREAM_INITIAL
  | NGHTTP2_STREAM_OPENING
  | NGHTTP2_STREAM_OPENED
  | NGHTTP2_STREAM_CLOSING
  | NGHTTP2_STREAM_RESERVED
  | NGHTTP2_STREAM_IDLE

datatype nghttp2_stream_proto_state =
    NGHTTP2_STREAM_STATE_IDLE
  | NGHTTP2_STREAM_STATE_OPEN
  | NGHTTP2_STREAM_STATE_RESERVED_LOCAL
  | NGHTTP2_STREAM_STATE_RESERVED_REMOTE
  | NGHTTP2_STREAM_STATE_HALF_CLOSED_LOCAL
  | NGHTTP2_STREAM_STATE_HALF_CLOSED_REMOTE
  | NGHTTP2_STREAM_STATE_CLOSED

record nghttp2_stream =
  obq :: nghttp2_pq
  content_length :: int
  recv_content_length :: int
  descendant_last_cycle :: u64
  cycle :: u64
  descendant_next_seq :: u64
  seq :: u64
  dep_prev :: "nat option"
  dep_next :: "nat option"
  sib_prev :: "nat option"
  sib_next :: "nat option"
  closed_prev :: "nat option"
  closed_next :: "nat option"
  stream_user_data :: nat
  item :: "nat option"
  last_writelen :: nat
  stream_id :: int
  remote_window_size :: int
  recv_window_size :: int
  consumed_size :: int
  recv_reduction :: int
  local_window_size :: int
  weight :: int
  pending_penalty :: u32
  sum_dep_weight :: int
  state :: nghttp2_stream_state
  status_code :: int
  http_flags :: u32
  flags :: u8
  shut_flags :: u8
  queued :: bool
  window_update_queued :: bool
  extpri :: u8
  http_extpri :: u8

type_synonym stream_heap = "nat \<Rightarrow> nghttp2_stream"

definition NGHTTP2_SHUT_RD :: u8 where "NGHTTP2_SHUT_RD = 1"
definition NGHTTP2_SHUT_WR :: u8 where "NGHTTP2_SHUT_WR = 2"
definition NGHTTP2_SHUT_RDWR :: u8 where "NGHTTP2_SHUT_RDWR = NGHTTP2_SHUT_RD OR NGHTTP2_SHUT_WR"

definition NGHTTP2_STREAM_FLAG_PUSH :: u8 where "NGHTTP2_STREAM_FLAG_PUSH = 0x01"
definition NGHTTP2_STREAM_FLAG_CLOSED :: u8 where "NGHTTP2_STREAM_FLAG_CLOSED = 0x02"
definition NGHTTP2_STREAM_FLAG_DEFERRED_FLOW_CONTROL :: u8 where
  "NGHTTP2_STREAM_FLAG_DEFERRED_FLOW_CONTROL = 0x04"
definition NGHTTP2_STREAM_FLAG_DEFERRED_USER :: u8 where "NGHTTP2_STREAM_FLAG_DEFERRED_USER = 0x08"
definition NGHTTP2_STREAM_FLAG_DEFERRED_ALL :: u8 where "NGHTTP2_STREAM_FLAG_DEFERRED_ALL = 0x0c"
definition NGHTTP2_STREAM_FLAG_NO_RFC7540_PRIORITIES :: u8 where
  "NGHTTP2_STREAM_FLAG_NO_RFC7540_PRIORITIES = 0x10"
definition NGHTTP2_STREAM_FLAG_IGNORE_CLIENT_PRIORITIES :: u8 where
  "NGHTTP2_STREAM_FLAG_IGNORE_CLIENT_PRIORITIES = 0x20"

definition NGHTTP2_MAX_WEIGHT :: nat where "NGHTTP2_MAX_WEIGHT = 256"
definition NGHTTP2_MAX_FRAME_SIZE_MAX :: nat where "NGHTTP2_MAX_FRAME_SIZE_MAX = 2 ^ 24 - 1"
definition NGHTTP2_MAX_CYCLE_DISTANCE :: u64 where
  "NGHTTP2_MAX_CYCLE_DISTANCE = word_of_nat NGHTTP2_MAX_FRAME_SIZE_MAX * 256 + 255"

lemmas stream_flag_defs [ng_defs] =
  NGHTTP2_SHUT_RD_def NGHTTP2_SHUT_WR_def NGHTTP2_SHUT_RDWR_def
  NGHTTP2_STREAM_FLAG_PUSH_def NGHTTP2_STREAM_FLAG_CLOSED_def
  NGHTTP2_STREAM_FLAG_DEFERRED_FLOW_CONTROL_def NGHTTP2_STREAM_FLAG_DEFERRED_USER_def
  NGHTTP2_STREAM_FLAG_DEFERRED_ALL_def NGHTTP2_STREAM_FLAG_NO_RFC7540_PRIORITIES_def
  NGHTTP2_STREAM_FLAG_IGNORE_CLIENT_PRIORITIES_def

subsection \<open>Extensible priorities (\<open>nghttp2_extpri.c\<close>)\<close>

record nghttp2_extpri =
  urgency :: u32
  inc :: int

definition NGHTTP2_EXTPRI_DEFAULT_URGENCY :: u8 where "NGHTTP2_EXTPRI_DEFAULT_URGENCY = 3"
definition NGHTTP2_EXTPRI_URGENCY_LEVELS :: nat where "NGHTTP2_EXTPRI_URGENCY_LEVELS = 8"
definition NGHTTP2_EXTPRI_INC_MASK :: u8 where "NGHTTP2_EXTPRI_INC_MASK = push_bit 7 1"

definition nghttp2_extpri_uint8_urgency :: "u8 \<Rightarrow> u32" where
  "nghttp2_extpri_uint8_urgency pri = ucast (pri AND NOT NGHTTP2_EXTPRI_INC_MASK)"

definition nghttp2_extpri_uint8_inc :: "u8 \<Rightarrow> bool" where
  "nghttp2_extpri_uint8_inc pri \<longleftrightarrow> pri AND NGHTTP2_EXTPRI_INC_MASK \<noteq> 0"

definition nghttp2_extpri_to_uint8 :: "nghttp2_extpri \<Rightarrow> u8" where
  "nghttp2_extpri_to_uint8 e = ucast (push_bit 7 (word_of_int (inc e)) OR urgency e)"

definition nghttp2_extpri_from_uint8 :: "u8 \<Rightarrow> nghttp2_extpri" where
  "nghttp2_extpri_from_uint8 p =
     \<lparr>urgency = nghttp2_extpri_uint8_urgency p, inc = (if nghttp2_extpri_uint8_inc p then 1 else 0)\<rparr>"

subsection \<open>Creation and flags\<close>

definition nghttp2_stream_init ::
  "(nat \<Rightarrow> nat) \<Rightarrow> int \<Rightarrow> u8 \<Rightarrow> nghttp2_stream_state \<Rightarrow> int \<Rightarrow> int \<Rightarrow> int \<Rightarrow> nat \<Rightarrow> nghttp2_stream" where
  "nghttp2_stream_init idx sid fl initial_state w remote_initial_window_size
     local_initial_window_size user_data =
     \<lparr>obq = nghttp2_pq_init idx, content_length = -1, recv_content_length = 0,
      descendant_last_cycle = 0, cycle = 0, descendant_next_seq = 0, seq = 0,
      dep_prev = None, dep_next = None, sib_prev = None, sib_next = None,
      closed_prev = None, closed_next = None, stream_user_data = user_data, item = None,
      last_writelen = 0, stream_id = sid, remote_window_size = remote_initial_window_size,
      recv_window_size = 0, consumed_size = 0, recv_reduction = 0,
      local_window_size = local_initial_window_size, weight = w, pending_penalty = 0,
      sum_dep_weight = 0, state = initial_state, status_code = -1, http_flags = 0, flags = fl,
      shut_flags = 0, queued = False, window_update_queued = False,
      extpri = NGHTTP2_EXTPRI_DEFAULT_URGENCY, http_extpri = NGHTTP2_EXTPRI_DEFAULT_URGENCY\<rparr>"

definition nghttp2_stream_shutdown :: "nghttp2_stream \<Rightarrow> u8 \<Rightarrow> nghttp2_stream" where
  "nghttp2_stream_shutdown s flag = s\<lparr>shut_flags := shut_flags s OR flag\<rparr>"

definition stream_active :: "nghttp2_stream \<Rightarrow> bool" where
  "stream_active s \<longleftrightarrow> item s \<noteq> None \<and> flags s AND NGHTTP2_STREAM_FLAG_DEFERRED_ALL = 0"

definition stream_subtree_active :: "nghttp2_stream \<Rightarrow> bool" where
  "stream_subtree_active s \<longleftrightarrow> stream_active s \<or> \<not> nghttp2_pq_empty (obq s)"

definition nghttp2_stream_check_deferred_item :: "nghttp2_stream \<Rightarrow> bool" where
  "nghttp2_stream_check_deferred_item s \<longleftrightarrow>
     item s \<noteq> None \<and> flags s AND NGHTTP2_STREAM_FLAG_DEFERRED_ALL \<noteq> 0"

definition nghttp2_stream_check_deferred_by_flow_control :: "nghttp2_stream \<Rightarrow> bool" where
  "nghttp2_stream_check_deferred_by_flow_control s \<longleftrightarrow>
     item s \<noteq> None \<and> flags s AND NGHTTP2_STREAM_FLAG_DEFERRED_FLOW_CONTROL \<noteq> 0"

definition nghttp2_stream_promise_fulfilled :: "nghttp2_stream \<Rightarrow> nghttp2_stream" where
  "nghttp2_stream_promise_fulfilled s =
     s\<lparr>state := NGHTTP2_STREAM_OPENED, flags := flags s AND NOT NGHTTP2_STREAM_FLAG_PUSH\<rparr>"

definition nghttp2_stream_get_state :: "nghttp2_stream \<Rightarrow> nghttp2_stream_proto_state" where
  "nghttp2_stream_get_state s =
     (if flags s AND NGHTTP2_STREAM_FLAG_CLOSED \<noteq> 0 then NGHTTP2_STREAM_STATE_CLOSED
      else if flags s AND NGHTTP2_STREAM_FLAG_PUSH \<noteq> 0 \<and> shut_flags s AND NGHTTP2_SHUT_RD \<noteq> 0
      then NGHTTP2_STREAM_STATE_RESERVED_LOCAL
      else if flags s AND NGHTTP2_STREAM_FLAG_PUSH \<noteq> 0 \<and> shut_flags s AND NGHTTP2_SHUT_WR \<noteq> 0
      then NGHTTP2_STREAM_STATE_RESERVED_REMOTE
      else if shut_flags s AND NGHTTP2_SHUT_RD \<noteq> 0 then NGHTTP2_STREAM_STATE_HALF_CLOSED_REMOTE
      else if shut_flags s AND NGHTTP2_SHUT_WR \<noteq> 0 then NGHTTP2_STREAM_STATE_HALF_CLOSED_LOCAL
      else if state s = NGHTTP2_STREAM_IDLE then NGHTTP2_STREAM_STATE_IDLE
      else NGHTTP2_STREAM_STATE_OPEN)"

subsection \<open>Windows on a change of SETTINGS_INITIAL_WINDOW_SIZE\<close>

text \<open>The sum is computed in 64 bits: three 32-bit operands cannot overflow it.\<close>

definition NGHTTP2_MAX_WINDOW_SIZE :: int where "NGHTTP2_MAX_WINDOW_SIZE = 2 ^ 31 - 1"

definition update_initial_window_size :: "int \<Rightarrow> int \<Rightarrow> int \<Rightarrow> int \<times> int" where
  "update_initial_window_size window_size new_initial old_initial =
     (let new_window_size = window_size + new_initial - old_initial
      in if - (2 ^ 31) > new_window_size \<or> new_window_size > NGHTTP2_MAX_WINDOW_SIZE
         then (-1, window_size)
         else (0, new_window_size))"

definition nghttp2_stream_update_remote_initial_window_size ::
  "nghttp2_stream \<Rightarrow> int \<Rightarrow> int \<Rightarrow> int \<times> nghttp2_stream" where
  "nghttp2_stream_update_remote_initial_window_size s new_initial old_initial =
     (let (rv, w) = update_initial_window_size (remote_window_size s) new_initial old_initial
      in (rv, s\<lparr>remote_window_size := w\<rparr>))"

definition nghttp2_stream_update_local_initial_window_size ::
  "nghttp2_stream \<Rightarrow> int \<Rightarrow> int \<Rightarrow> int \<times> nghttp2_stream" where
  "nghttp2_stream_update_local_initial_window_size s new_initial old_initial =
     (let (rv, w) = update_initial_window_size (local_window_size s) new_initial old_initial
      in (rv, s\<lparr>local_window_size := w\<rparr>))"

subsection \<open>The order of the queues and the cycle of a stream\<close>

text \<open>
  \<open>nghttp2_stream.c\<close> and \<open>nghttp2_session.c\<close> each have a \<open>stream_less\<close>; they differ in the
  constant they compare the distance with, which is the first argument.
\<close>

definition stream_less :: "u64 \<Rightarrow> stream_heap \<Rightarrow> nat \<Rightarrow> nat \<Rightarrow> bool" where
  "stream_less gap h lhs rhs =
     (if cycle (h lhs) = cycle (h rhs) then seq (h lhs) < seq (h rhs)
      else cycle (h rhs) - cycle (h lhs) \<le> gap)"

definition stream_next_cycle :: "nghttp2_stream \<Rightarrow> u64 \<Rightarrow> nghttp2_stream" where
  "stream_next_cycle s last_cycle =
     (let penalty = word_of_nat (last_writelen s) * word_of_nat NGHTTP2_MAX_WEIGHT + ucast (pending_penalty s);
          w = ucast (word_of_int (weight s) :: u32) :: u64
      in s\<lparr>cycle := last_cycle + penalty div w, pending_penalty := ucast (penalty mod w)\<rparr>)"

text \<open>
  The loops follow \<open>dep_prev\<close>; that the chain ends is an invariant of the dependency tree, so
  they are partial functions here.
\<close>

partial_function (option) stream_obq_push ::
  "mem \<Rightarrow> stream_heap \<Rightarrow> nat option \<Rightarrow> nat \<Rightarrow> (rc \<times> stream_heap) option" where
  "stream_obq_push m h dep s =
     (case dep of
        None \<Rightarrow> Some (0, h)
      | Some d \<Rightarrow>
          if queued (h s) then Some (0, h)
          else
            let h = h(s := stream_next_cycle (h s) (descendant_last_cycle (h d)));
                sq = descendant_next_seq (h d);
                h = h(d := (h d)\<lparr>descendant_next_seq := sq + 1\<rparr>);
                h = h(s := (h s)\<lparr>seq := sq\<rparr>);
                (rv, q) = nghttp2_pq_push m (stream_less NGHTTP2_MAX_CYCLE_DISTANCE h) (obq (h d)) s;
                h = h(d := (h d)\<lparr>obq := q\<rparr>)
            in if rv \<noteq> 0 then Some (rv, h)
               else
                 let h = h(s := (h s)\<lparr>queued := True\<rparr>)
                 in stream_obq_push m h (dep_prev (h d)) d)"

partial_function (option) obq_remove_loop ::
  "stream_heap \<Rightarrow> nat option \<Rightarrow> nat \<Rightarrow> stream_heap option" where
  "obq_remove_loop h dep s =
     (case dep of
        None \<Rightarrow> Some h
      | Some d \<Rightarrow>
          (case nghttp2_pq_remove (stream_less NGHTTP2_MAX_CYCLE_DISTANCE h) (obq (h d)) s of
             None \<Rightarrow> None
           | Some q \<Rightarrow>
               let h = h(d := (h d)\<lparr>obq := q\<rparr>)
               in if \<not> queued (h s) then None
                  else
                    let h = h(s := (h s)\<lparr>queued := False, cycle := 0, pending_penalty := 0,
                                         descendant_last_cycle := 0, last_writelen := 0\<rparr>)
                    in if stream_subtree_active (h d) then Some h
                       else obq_remove_loop h (dep_prev (h d)) d))"

definition stream_obq_remove :: "stream_heap \<Rightarrow> nat \<Rightarrow> stream_heap option" where
  "stream_obq_remove h s =
     (if \<not> queued (h s) then Some h else obq_remove_loop h (dep_prev (h s)) s)"

definition stream_obq_move ::
  "mem \<Rightarrow> stream_heap \<Rightarrow> nat \<Rightarrow> nat \<Rightarrow> nat \<Rightarrow> (rc \<times> stream_heap) option" where
  "stream_obq_move m h dest src s =
     (if \<not> queued (h s) then Some (0, h)
      else
        case nghttp2_pq_remove (stream_less NGHTTP2_MAX_CYCLE_DISTANCE h) (obq (h src)) s of
          None \<Rightarrow> None
        | Some q \<Rightarrow>
            let h = h(src := (h src)\<lparr>obq := q\<rparr>);
                h = h(s := (h s)\<lparr>queued := False\<rparr>)
            in stream_obq_push m h (Some dest) s)"

partial_function (option) reschedule_loop ::
  "mem \<Rightarrow> stream_heap \<Rightarrow> nat option \<Rightarrow> nat \<Rightarrow> stream_heap option" where
  "reschedule_loop m h dep s =
     (case dep of
        None \<Rightarrow> Some h
      | Some d \<Rightarrow>
          (case nghttp2_pq_remove (stream_less NGHTTP2_MAX_CYCLE_DISTANCE h) (obq (h d)) s of
             None \<Rightarrow> None
           | Some q \<Rightarrow>
               let h = h(d := (h d)\<lparr>obq := q\<rparr>);
                   h = h(s := stream_next_cycle (h s) (descendant_last_cycle (h d)));
                   sq = descendant_next_seq (h d);
                   h = h(d := (h d)\<lparr>descendant_next_seq := sq + 1\<rparr>);
                   h = h(s := (h s)\<lparr>seq := sq\<rparr>);
                   q = snd (nghttp2_pq_push m (stream_less NGHTTP2_MAX_CYCLE_DISTANCE h) (obq (h d)) s);
                   h = h(d := (h d)\<lparr>obq := q\<rparr>);
                   h = h(d := (h d)\<lparr>last_writelen := last_writelen (h s)\<rparr>)
               in reschedule_loop m h (dep_prev (h d)) d))"

definition nghttp2_stream_reschedule :: "mem \<Rightarrow> stream_heap \<Rightarrow> nat \<Rightarrow> stream_heap option" where
  "nghttp2_stream_reschedule m h s =
     (if \<not> queued (h s) then None else reschedule_loop m h (dep_prev (h s)) s)"

text \<open>
  \<open>recompute_penalty\<close> is the part of \<open>nghttp2_stream_change_weight\<close> that works back from the
  stored remainder to the penalty and the cycle the stream had before the last
  \<open>stream_next_cycle\<close> with the old weight.
\<close>

definition recompute_penalty :: "nghttp2_stream \<Rightarrow> int \<Rightarrow> u32 \<times> u64" where
  "recompute_penalty s old_weight =
     (let w = ucast (word_of_int old_weight :: u32) :: u64;
          wlen_penalty = word_of_nat (last_writelen s) * word_of_nat NGHTTP2_MAX_WEIGHT :: u64;
          p = ucast ((ucast (pending_penalty s + word_of_int old_weight) - wlen_penalty mod w) mod w) :: u32;
          last_cycle = cycle s - (wlen_penalty + ucast p) div w
      in (p, last_cycle))"

definition nghttp2_stream_change_weight ::
  "mem \<Rightarrow> stream_heap \<Rightarrow> nat \<Rightarrow> int \<Rightarrow> stream_heap option" where
  "nghttp2_stream_change_weight m h s w =
     (if weight (h s) = w then Some h
      else
        let old_weight = weight (h s);
            h = h(s := (h s)\<lparr>weight := w\<rparr>)
        in case dep_prev (h s) of
             None \<Rightarrow> Some h
           | Some d \<Rightarrow>
               let h = h(d := (h d)\<lparr>sum_dep_weight := sum_dep_weight (h d) + (w - old_weight)\<rparr>)
               in if \<not> queued (h s) then Some h
                  else
                    case nghttp2_pq_remove (stream_less NGHTTP2_MAX_CYCLE_DISTANCE h) (obq (h d)) s of
                      None \<Rightarrow> None
                    | Some q \<Rightarrow>
                        let h = h(d := (h d)\<lparr>obq := q\<rparr>);
                            (p, last_cycle) = recompute_penalty (h s) old_weight;
                            h = h(s := (h s)\<lparr>pending_penalty := p\<rparr>);
                            h = h(s := stream_next_cycle (h s) last_cycle);
                            h = (if descendant_last_cycle (h d) - cycle (h s) \<le> NGHTTP2_MAX_CYCLE_DISTANCE
                                 then h(s := (h s)\<lparr>cycle := descendant_last_cycle (h d)\<rparr>) else h);
                            q = snd (nghttp2_pq_push m (stream_less NGHTTP2_MAX_CYCLE_DISTANCE h) (obq (h d)) s)
                        in Some (h(d := (h d)\<lparr>obq := q\<rparr>)))"

definition nghttp2_stream_dep_distributed_weight :: "nghttp2_stream \<Rightarrow> int \<Rightarrow> int" where
  "nghttp2_stream_dep_distributed_weight s w = max 1 (c_div (weight s * w) (sum_dep_weight s))"

subsection \<open>Items\<close>

definition stream_update_dep_on_attach_item ::
  "mem \<Rightarrow> stream_heap \<Rightarrow> nat \<Rightarrow> (rc \<times> stream_heap) option" where
  "stream_update_dep_on_attach_item m h s = stream_obq_push m h (dep_prev (h s)) s"

definition stream_update_dep_on_detach_item :: "stream_heap \<Rightarrow> nat \<Rightarrow> stream_heap option" where
  "stream_update_dep_on_detach_item h s =
     (if nghttp2_pq_empty (obq (h s)) then stream_obq_remove h s else Some h)"

definition nghttp2_stream_attach_item ::
  "mem \<Rightarrow> stream_heap \<Rightarrow> nat \<Rightarrow> nat \<Rightarrow> (rc \<times> stream_heap) option" where
  "nghttp2_stream_attach_item m h s it =
     (if flags (h s) AND NGHTTP2_STREAM_FLAG_DEFERRED_ALL \<noteq> 0 \<or> item (h s) \<noteq> None then None
      else
        let h = h(s := (h s)\<lparr>item := Some it\<rparr>)
        in if flags (h s) AND NGHTTP2_STREAM_FLAG_NO_RFC7540_PRIORITIES \<noteq> 0 then Some (0, h)
           else
             case stream_update_dep_on_attach_item m h s of
               None \<Rightarrow> None
             | Some (rv, h) \<Rightarrow> if rv \<noteq> 0 then Some (rv, h(s := (h s)\<lparr>item := None\<rparr>)) else Some (0, h))"

definition nghttp2_stream_detach_item :: "stream_heap \<Rightarrow> nat \<Rightarrow> stream_heap option" where
  "nghttp2_stream_detach_item h s =
     (let h = h(s := (h s)\<lparr>item := None, flags := flags (h s) AND NOT NGHTTP2_STREAM_FLAG_DEFERRED_ALL\<rparr>)
      in if flags (h s) AND NGHTTP2_STREAM_FLAG_NO_RFC7540_PRIORITIES \<noteq> 0 then Some h
         else stream_update_dep_on_detach_item h s)"

definition nghttp2_stream_defer_item :: "stream_heap \<Rightarrow> nat \<Rightarrow> u8 \<Rightarrow> stream_heap option" where
  "nghttp2_stream_defer_item h s fl =
     (if item (h s) = None then None
      else
        let h = h(s := (h s)\<lparr>flags := flags (h s) OR fl\<rparr>)
        in if flags (h s) AND NGHTTP2_STREAM_FLAG_NO_RFC7540_PRIORITIES \<noteq> 0 then Some h
           else stream_update_dep_on_detach_item h s)"

definition nghttp2_stream_resume_deferred_item ::
  "mem \<Rightarrow> stream_heap \<Rightarrow> nat \<Rightarrow> u8 \<Rightarrow> (rc \<times> stream_heap) option" where
  "nghttp2_stream_resume_deferred_item m h s fl =
     (if item (h s) = None then None
      else
        let h = h(s := (h s)\<lparr>flags := flags (h s) AND NOT fl\<rparr>)
        in if flags (h s) AND NGHTTP2_STREAM_FLAG_DEFERRED_ALL \<noteq> 0 then Some (0, h)
           else if flags (h s) AND NGHTTP2_STREAM_FLAG_NO_RFC7540_PRIORITIES \<noteq> 0 then Some (0, h)
           else stream_update_dep_on_attach_item m h s)"

subsection \<open>The order is a strict weak order inside a window of cycles\<close>

definition cycle_off :: "stream_heap \<Rightarrow> u64 \<Rightarrow> nat \<Rightarrow> nat" where
  "cycle_off h b e = unat (cycle (h e) - b)"

definition in_window :: "u64 \<Rightarrow> stream_heap \<Rightarrow> u64 \<Rightarrow> nat set" where
  "in_window gap h b = {e. cycle_off h b e \<le> unat gap}"

lemma word_diff_le_iff:
  fixes x y gap :: u64
  assumes "unat x \<le> unat gap" "unat y \<le> unat gap" "unat gap < 2 ^ 63"
  shows "y - x \<le> gap \<longleftrightarrow> unat x \<le> unat y"
proof -
  have "unat x < 2 ^ 64" "unat y < 2 ^ 64"
    using unat_less_exp [of x] unat_less_exp [of y] by simp_all
  then show ?thesis
    using assms by (auto simp: word_le_nat_alt unat_sub_if')
qed

lemma stream_less_lex:
  assumes "a \<in> in_window gap h b" "c \<in> in_window gap h b" "unat gap < 2 ^ 63"
  shows "stream_less gap h a c \<longleftrightarrow>
    cycle_off h b a < cycle_off h b c \<or>
    cycle_off h b a = cycle_off h b c \<and> seq (h a) < seq (h c)"
proof -
  have eq: "cycle (h a) = cycle (h c) \<longleftrightarrow> cycle_off h b a = cycle_off h b c"
    unfolding cycle_off_def by (metis diff_add_cancel unat_eqD)
  have "cycle (h c) - cycle (h a) \<le> gap \<longleftrightarrow> (cycle (h c) - b) - (cycle (h a) - b) \<le> gap" by simp
  also have "\<dots> \<longleftrightarrow> cycle_off h b a \<le> cycle_off h b c"
    unfolding cycle_off_def
    by (rule word_diff_le_iff) (use assms in \<open>simp_all add: in_window_def cycle_off_def\<close>)
  finally have "cycle (h c) - cycle (h a) \<le> gap \<longleftrightarrow> cycle_off h b a \<le> cycle_off h b c" .
  with eq show ?thesis by (auto simp: stream_less_def)
qed

lemma stream_less_swo:
  assumes "unat gap < 2 ^ 63"
  shows "swo_on (stream_less gap h) (in_window gap h b)"
proof
  fix x y assume "x \<in> in_window gap h b" "y \<in> in_window gap h b" "stream_less gap h x y"
  then show "\<not> stream_less gap h y x"
    using stream_less_lex [of x gap h b y] stream_less_lex [of y gap h b x] assms by auto
next
  fix x y z
  assume *: "x \<in> in_window gap h b" "y \<in> in_window gap h b" "z \<in> in_window gap h b"
  assume "\<not> stream_less gap h x y" "\<not> stream_less gap h y z"
  then show "\<not> stream_less gap h x z"
    using stream_less_lex [OF *(1,2) assms] stream_less_lex [OF *(2,3) assms]
      stream_less_lex [OF *(1,3) assms] by auto
qed

lemma max_cycle_distance_small: "unat NGHTTP2_MAX_CYCLE_DISTANCE < 2 ^ 63"
  by (simp add: NGHTTP2_MAX_CYCLE_DISTANCE_def NGHTTP2_MAX_FRAME_SIZE_MAX_def)

interpretation obq_order: swo_on "stream_less NGHTTP2_MAX_CYCLE_DISTANCE h"
  "in_window NGHTTP2_MAX_CYCLE_DISTANCE h b" for h b
  by (rule stream_less_swo [OF max_cycle_distance_small])

subsection \<open>The cycle arithmetic\<close>

definition penalty_of :: "nghttp2_stream \<Rightarrow> nat" where
  "penalty_of s = last_writelen s * NGHTTP2_MAX_WEIGHT + unat (pending_penalty s)"

lemma ucast_weight:
  "1 \<le> w \<Longrightarrow> w \<le> 256 \<Longrightarrow> (ucast (word_of_int w :: u32) :: u64) = word_of_nat (nat w)"
proof -
  assume w: "1 \<le> w" "w \<le> 256"
  have "unat (ucast (word_of_int w :: u32) :: u64) = unat (word_of_nat (nat w) :: u64)"
    using w by (simp add: unsigned_ucast_eq unsigned_of_int unsigned_of_nat take_bit_eq_mod nat_mod_distrib)
  then show ?thesis by (rule unat_eqD)
qed

lemma penalty_word:
  assumes "last_writelen s < 2 ^ 32"
  shows "(word_of_nat (last_writelen s) * word_of_nat NGHTTP2_MAX_WEIGHT + ucast (pending_penalty s) :: u64)
     = word_of_nat (penalty_of s)"
  by (simp add: penalty_of_def unsigned_ucast_eq)

lemma penalty_bound:
  assumes "last_writelen s < 2 ^ 32"
  shows "penalty_of s < 2 ^ 64"
proof -
  have "unat (pending_penalty s) < 2 ^ 32" using unat_less_exp [of "pending_penalty s"] by simp
  then show ?thesis using assms by (simp add: penalty_of_def NGHTTP2_MAX_WEIGHT_def)
qed

lemma unat_word_of_nat_small: "n < 2 ^ 64 \<Longrightarrow> unat (word_of_nat n :: u64) = n"
  by (simp add: unsigned_of_nat take_bit_eq_mod)

lemma word_div_mod_nat:
  assumes "a < 2 ^ 64" "b < 2 ^ 64"
  shows "(word_of_nat a :: u64) div word_of_nat b = word_of_nat (a div b)"
    and "unat ((word_of_nat a :: u64) mod word_of_nat b) = a mod b"
  using assms unat_word_of_nat_small [of "a div b"] le_less_trans [OF div_le_dividend assms(1)]
  by (auto intro!: unat_eqD simp: unat_div unat_mod unat_word_of_nat_small)

lemma next_cycle_nat:
  assumes w: "1 \<le> weight s" "weight s \<le> 256" and lw: "last_writelen s < 2 ^ 32"
  shows "cycle (stream_next_cycle s c) = c + word_of_nat (penalty_of s div nat (weight s))"
    and "unat (pending_penalty (stream_next_cycle s c)) = penalty_of s mod nat (weight s)"
proof -
  define W where "W = nat (weight s)"
  have W: "0 < W" "W \<le> 256" using w by (auto simp: W_def)
  have P: "penalty_of s < 2 ^ 64" using penalty_bound [OF lw] .
  have dm: "(word_of_nat (penalty_of s) :: u64) div word_of_nat W = word_of_nat (penalty_of s div W)"
    "unat ((word_of_nat (penalty_of s) :: u64) mod word_of_nat W) = penalty_of s mod W"
    using word_div_mod_nat [OF P, of W] W by simp_all
  have uw: "(ucast (word_of_int (weight s) :: u32) :: u64) = word_of_nat W"
    unfolding W_def by (rule ucast_weight [OF w])
  show "cycle (stream_next_cycle s c) = c + word_of_nat (penalty_of s div nat (weight s))"
    by (simp add: stream_next_cycle_def Let_def uw penalty_word [OF lw] dm flip: W_def)
  have "penalty_of s mod W < 2 ^ 32"
    using W mod_less_divisor [OF W(1), of "penalty_of s"] by simp
  then show "unat (pending_penalty (stream_next_cycle s c)) = penalty_of s mod nat (weight s)"
    by (simp add: stream_next_cycle_def Let_def uw penalty_word [OF lw]
        unsigned_ucast_eq dm take_bit_eq_mod flip: W_def)
qed

lemma mod_cancel: "p < W \<Longrightarrow> ((L + p) mod W + W - L mod W) mod W = (p :: nat)"
proof -
  assume p: "p < W"
  then have "L mod W < W" by simp
  then have "((L + p) mod W + W - L mod W) mod W = (((L + p) mod W) + (W - L mod W)) mod W"
    by simp
  also have "\<dots> = (L + p + (W - L mod W)) mod W" by (simp add: mod_simps)
  also have "\<dots> = (L mod W + p + (W - L mod W)) mod W"
    by (metis mod_add_left_eq)
  also have "\<dots> = p" using p \<open>L mod W < W\<close> by simp
  finally show ?thesis .
qed

lemma recompute_penalty_inverse:
  assumes w: "1 \<le> weight s" "weight s \<le> 256" and lw: "last_writelen s < 2 ^ 32"
    and p: "unat (pending_penalty s) < nat (weight s)"
  shows "recompute_penalty (stream_next_cycle s c) (weight s) = (pending_penalty s, c)"
proof -
  define W L where "W = nat (weight s)" and "L = last_writelen s * 256"
  define t where "t = stream_next_cycle s c"
  have Wb: "1 \<le> W" "W \<le> 256" using w by (auto simp: W_def)
  have lw_t: "last_writelen t = last_writelen s" by (simp add: t_def stream_next_cycle_def Let_def)
  have P: "penalty_of s = L + unat (pending_penalty s)"
    by (simp add: penalty_of_def L_def NGHTTP2_MAX_WEIGHT_def)
  have L: "L < 2 ^ 40" using lw by (simp add: L_def)
  have pt: "unat (pending_penalty t) = (L + unat (pending_penalty s)) mod W"
    using next_cycle_nat(2) [OF w lw, of c] by (simp add: t_def P W_def)
  have wl: "(word_of_nat (last_writelen s) * word_of_nat NGHTTP2_MAX_WEIGHT :: u64) = word_of_nat L"
    by (simp add: L_def NGHTTP2_MAX_WEIGHT_def)
  have Lm: "unat ((word_of_nat L :: u64) mod word_of_nat W) = L mod W"
    using L Wb by (simp add: unat_mod unat_word_of_nat_small)
  have mW: "(L + unat (pending_penalty s)) mod W + W < 2 ^ 32"
  proof -
    have "(L + unat (pending_penalty s)) mod W < W" using Wb by simp
    then have "(L + unat (pending_penalty s)) mod W + W < 512" using Wb by linarith
    also have "\<dots> < (2 :: nat) ^ 32" by simp
    finally show ?thesis .
  qed
  have sum: "unat (pending_penalty t + word_of_int (weight s)) = (L + unat (pending_penalty s)) mod W + W"
  proof -
    have "word_of_int (weight s) = (word_of_nat W :: u32)" using w by (simp add: W_def)
    then show ?thesis using Wb mW
      by (simp add: unat_word_ariths unsigned_of_nat take_bit_eq_mod pt)
  qed
  have "unat ((ucast (pending_penalty t + word_of_int (weight s)) - (word_of_nat L :: u64) mod word_of_nat W) mod word_of_nat W)
      = ((L + unat (pending_penalty s)) mod W + W - L mod W) mod W"
  proof -
    have "L mod W < W" using Wb by simp
    then have "L mod W \<le> (L + unat (pending_penalty s)) mod W + W" by linarith
    moreover have "L < 2 ^ 64" using L by simp
    ultimately show ?thesis using Wb mW
      by (simp add: unat_mod unat_sub_if' Lm unsigned_ucast_eq sum unat_word_of_nat_small take_bit_eq_mod)
  qed
  also have "\<dots> = unat (pending_penalty s)"
    by (rule mod_cancel) (use Wb p in \<open>simp_all add: W_def\<close>)
  finally have p': "unat ((ucast (pending_penalty t + word_of_int (weight s)) - (word_of_nat L :: u64) mod word_of_nat W) mod word_of_nat W)
      = unat (pending_penalty s)" .
  have uw: "(ucast (word_of_int (weight s) :: u32) :: u64) = word_of_nat W"
    unfolding W_def by (rule ucast_weight [OF w])
  have pp: "(ucast ((ucast (pending_penalty t + word_of_int (weight s)) - (word_of_nat L :: u64) mod word_of_nat W) mod word_of_nat W) :: u32)
      = pending_penalty s"
    using unat_less_exp [of "pending_penalty s"]
    by (intro unat_eqD) (simp add: unsigned_ucast_eq p' take_bit_eq_mod)
  have "(word_of_nat L + ucast (pending_penalty s) :: u64) = word_of_nat (penalty_of s)"
    using penalty_word [OF lw] by (simp only: wl)
  then have "(word_of_nat L + ucast (pending_penalty s) :: u64) div word_of_nat W
      = word_of_nat (penalty_of s div W)"
    using word_div_mod_nat(1) [OF penalty_bound [OF lw], of W] Wb by simp
  moreover have "cycle t = c + word_of_nat (penalty_of s div W)"
    using next_cycle_nat(1) [OF w lw, of c] by (simp add: t_def W_def)
  ultimately show ?thesis
    unfolding t_def [symmetric] recompute_penalty_def Let_def lw_t uw wl pp by simp
qed

subsection \<open>Properties\<close>

abbreviation obq_inv :: "stream_heap \<Rightarrow> u64 \<Rightarrow> nghttp2_pq \<Rightarrow> bool" where
  "obq_inv h b pq \<equiv>
     pq_inv (stream_less NGHTTP2_MAX_CYCLE_DISTANCE h) (in_window NGHTTP2_MAX_CYCLE_DISTANCE h b) pq"

lemma obq_push_ok:
  assumes inv: "obq_inv h b pq" and x: "x \<in> in_window NGHTTP2_MAX_CYCLE_DISTANCE h b" "x \<notin> pq_elems pq"
    and p: "nghttp2_pq_push m (stream_less NGHTTP2_MAX_CYCLE_DISTANCE h) pq x = (0, pq')"
  shows "obq_inv h b pq' \<and> pq_elems pq' = insert x (pq_elems pq)"
proof -
  have "snd (nghttp2_pq_push (\<lambda>_. True) (stream_less NGHTTP2_MAX_CYCLE_DISTANCE h) pq x) = pq'"
    using p by (auto simp: nghttp2_pq_push_def Let_def ng_defs split: if_splits)
  then show ?thesis using obq_order.push_snd [OF inv x] by simp
qed

lemma obq_update_ok:
  assumes inv: "obq_inv h b pq" and w: "pq_elems pq \<subseteq> in_window NGHTTP2_MAX_CYCLE_DISTANCE h' b'"
    and ch: "\<And>e. e \<in> pq_elems pq \<Longrightarrow> \<not> changed e \<Longrightarrow> cycle (h' e) = cycle (h e) \<and> seq (h' e) = seq (h e)"
  shows "obq_inv h' b' (nghttp2_pq_update (stream_less NGHTTP2_MAX_CYCLE_DISTANCE h') changed pq) \<and>
    pq_elems (nghttp2_pq_update (stream_less NGHTTP2_MAX_CYCLE_DISTANCE h') changed pq) = pq_elems pq"
proof (cases "list_ex changed (pq_q pq)")
  case True
  then have ne: "pq_q pq \<noteq> []" by auto
  have "obq_inv h' b' (heapify_loop (stream_less NGHTTP2_MAX_CYCLE_DISTANCE h') pq (length (pq_q pq))) \<and>
      pq_elems (heapify_loop (stream_less NGHTTP2_MAX_CYCLE_DISTANCE h') pq (length (pq_q pq))) = pq_elems pq"
  proof (rule obq_order.heapify_inv)
    show "\<forall>i < length (pq_q pq). 0 < i \<and> length (pq_q pq) \<le> parent i \<longrightarrow>
        heap_at (stream_less NGHTTP2_MAX_CYCLE_DISTANCE h') (pq_q pq) i"
    proof (intro allI impI)
      fix i assume "i < length (pq_q pq)" "0 < i \<and> length (pq_q pq) \<le> parent i"
      then show "heap_at (stream_less NGHTTP2_MAX_CYCLE_DISTANCE h') (pq_q pq) i"
        using parent_less [of i] by linarith
    qed
  qed (use inv w in \<open>simp_all add: pq_inv_def pq_elems_def\<close>)
  with True ne show ?thesis by (simp add: nghttp2_pq_update_def)
next
  case False
  have same: "cycle (h' e) = cycle (h e) \<and> seq (h' e) = seq (h e)" if "e \<in> set (pq_q pq)" for e
    using that ch False by (auto simp: pq_elems_def list_ex_iff)
  have "heap_at (stream_less NGHTTP2_MAX_CYCLE_DISTANCE h') (pq_q pq) i"
    if i: "i < length (pq_q pq)" "0 < i" for i
  proof -
    have "parent i < length (pq_q pq)" using i parent_less [of i] by simp
    then have "stream_less NGHTTP2_MAX_CYCLE_DISTANCE h' (pq_q pq ! i) (pq_q pq ! parent i)
        = stream_less NGHTTP2_MAX_CYCLE_DISTANCE h (pq_q pq ! i) (pq_q pq ! parent i)"
      using i same [of "pq_q pq ! i"] same [of "pq_q pq ! parent i"] by (simp add: stream_less_def)
    then show ?thesis using inv i by (simp add: pq_inv_def is_heap_def heap_at_def)
  qed
  then have "obq_inv h' b' pq" using inv w by (simp add: pq_inv_def is_heap_def pq_elems_def)
  with False show ?thesis by (simp add: nghttp2_pq_update_def)
qed

text \<open>
  C33.  The binary heap with position tracking is an ordered set of streams as long as their cycles
  lie within the maximal distance of a base, where the comparison that survives wrap-around is a
  strict weak order.  The top is an entry none precedes; pushing, popping, removing an entry from
  the middle and restoring the heap after a callback changed entries keep the heap and change
  its set of entries as they should.
\<close>

theorem obq_refines_ordered_set:
  assumes "obq_inv h b pq"
  shows "(nghttp2_pq_top pq = None \<longleftrightarrow> pq_elems pq = {}) \<and>
    (\<forall>x. nghttp2_pq_top pq = Some x \<longrightarrow>
       x \<in> pq_elems pq \<and> (\<forall>y \<in> pq_elems pq. \<not> stream_less NGHTTP2_MAX_CYCLE_DISTANCE h y x) \<and>
       obq_inv h b (nghttp2_pq_pop (stream_less NGHTTP2_MAX_CYCLE_DISTANCE h) pq) \<and>
       pq_elems (nghttp2_pq_pop (stream_less NGHTTP2_MAX_CYCLE_DISTANCE h) pq) = pq_elems pq - {x}) \<and>
    (\<forall>x \<in> pq_elems pq. \<exists>pq'. nghttp2_pq_remove (stream_less NGHTTP2_MAX_CYCLE_DISTANCE h) pq x = Some pq' \<and>
       obq_inv h b pq' \<and> pq_elems pq' = pq_elems pq - {x}) \<and>
    (\<forall>m x pq'. x \<in> in_window NGHTTP2_MAX_CYCLE_DISTANCE h b \<and> x \<notin> pq_elems pq \<and>
       nghttp2_pq_push m (stream_less NGHTTP2_MAX_CYCLE_DISTANCE h) pq x = (0, pq') \<longrightarrow>
       obq_inv h b pq' \<and> pq_elems pq' = insert x (pq_elems pq)) \<and>
    (\<forall>h' b' changed. pq_elems pq \<subseteq> in_window NGHTTP2_MAX_CYCLE_DISTANCE h' b' \<and>
       (\<forall>e \<in> pq_elems pq. \<not> changed e \<longrightarrow> cycle (h' e) = cycle (h e) \<and> seq (h' e) = seq (h e)) \<longrightarrow>
       obq_inv h' b' (nghttp2_pq_update (stream_less NGHTTP2_MAX_CYCLE_DISTANCE h') changed pq) \<and>
       pq_elems (nghttp2_pq_update (stream_less NGHTTP2_MAX_CYCLE_DISTANCE h') changed pq) = pq_elems pq)"
proof (intro conjI allI ballI impI; (elim conjE)?)
  show "nghttp2_pq_top pq = None \<longleftrightarrow> pq_elems pq = {}" by (rule obq_order.top_empty [OF assms])
next
  fix x assume t: "nghttp2_pq_top pq = Some x"
  show "x \<in> pq_elems pq" using obq_order.top_min [OF assms t] by simp
  show "obq_inv h b (nghttp2_pq_pop (stream_less NGHTTP2_MAX_CYCLE_DISTANCE h) pq)"
    "pq_elems (nghttp2_pq_pop (stream_less NGHTTP2_MAX_CYCLE_DISTANCE h) pq) = pq_elems pq - {x}"
    using obq_order.pop_inv [OF assms t] by simp_all
  fix y assume "y \<in> pq_elems pq"
  then show "\<not> stream_less NGHTTP2_MAX_CYCLE_DISTANCE h y x" using obq_order.top_min [OF assms t] by simp
next
  fix x assume "x \<in> pq_elems pq"
  then show "\<exists>pq'. nghttp2_pq_remove (stream_less NGHTTP2_MAX_CYCLE_DISTANCE h) pq x = Some pq' \<and>
      obq_inv h b pq' \<and> pq_elems pq' = pq_elems pq - {x}" by (rule obq_order.remove_inv [OF assms])
next
  fix m x pq'
  assume "x \<in> in_window NGHTTP2_MAX_CYCLE_DISTANCE h b" "x \<notin> pq_elems pq"
    "nghttp2_pq_push m (stream_less NGHTTP2_MAX_CYCLE_DISTANCE h) pq x = (0, pq')"
  from obq_push_ok [OF assms this]
  show "obq_inv h b pq'" "pq_elems pq' = insert x (pq_elems pq)" by simp_all
next
  fix h' b' changed
  assume w: "pq_elems pq \<subseteq> in_window NGHTTP2_MAX_CYCLE_DISTANCE h' b'"
    and c: "\<forall>e \<in> pq_elems pq. \<not> changed e \<longrightarrow> cycle (h' e) = cycle (h e) \<and> seq (h' e) = seq (h e)"
  have "\<And>e. e \<in> pq_elems pq \<Longrightarrow> \<not> changed e \<Longrightarrow> cycle (h' e) = cycle (h e) \<and> seq (h' e) = seq (h e)"
    using c by blast
  from obq_update_ok [OF assms w this]
  show "obq_inv h' b' (nghttp2_pq_update (stream_less NGHTTP2_MAX_CYCLE_DISTANCE h') changed pq)"
    "pq_elems (nghttp2_pq_update (stream_less NGHTTP2_MAX_CYCLE_DISTANCE h') changed pq) = pq_elems pq"
    by simp_all
qed

theorem obq_refines_ordered_set_witness:
  "nghttp2_pq_top (nghttp2_pq_init id) = None \<and> pq_elems (nghttp2_pq_init id) = {}"
proof -
  have i: "obq_inv (\<lambda>_. nghttp2_stream_init id 1 0 NGHTTP2_STREAM_OPENED 7 65535 65535 0) 0 (nghttp2_pq_init id)"
    by (simp add: pq_inv_def pq_wf_def is_heap_def nghttp2_pq_init_def)
  have "nghttp2_pq_top (nghttp2_pq_init id) = None" by (simp add: nghttp2_pq_top_def nghttp2_pq_init_def)
  with conjunct1 [OF obq_refines_ordered_set [OF i]] show ?thesis by simp
qed

text \<open>
  C39.  The weighted scheduler charges exactly what was written: a stream that wrote
  \<open>last_writelen\<close> bytes advances its cycle by the quotient of its penalty and carries the
  remainder, and \<open>nghttp2_stream_change_weight\<close> recovers from the stored remainder both the
  penalty and the cycle the stream had before that charge, so that the charge can be repeated
  with the new weight.
\<close>

theorem change_weight_recovers_charge:
  assumes "1 \<le> weight s" "weight s \<le> 256" "last_writelen s < 2 ^ 32"
    and "unat (pending_penalty s) < nat (weight s)"
  shows "\<exists>k. cycle (stream_next_cycle s c) = c + word_of_nat k \<and>
           k * nat (weight s) + unat (pending_penalty (stream_next_cycle s c))
             = last_writelen s * NGHTTP2_MAX_WEIGHT + unat (pending_penalty s) \<and>
           unat (pending_penalty (stream_next_cycle s c)) < nat (weight s) \<and>
           recompute_penalty (stream_next_cycle s c) (weight s) = (pending_penalty s, c)"
  using next_cycle_nat [OF assms(1-3), of c] recompute_penalty_inverse [OF assms, of c] assms(1)
  by (intro exI [of _ "penalty_of s div nat (weight s)"]) (simp add: flip: penalty_of_def)

theorem change_weight_recovers_charge_witness:
  "recompute_penalty (stream_next_cycle (nghttp2_stream_init id 1 0 NGHTTP2_STREAM_OPENED 7 65535 65535 0
       \<lparr>last_writelen := 1000, pending_penalty := 3\<rparr>) 9) 7 = (3, 9)"
  using change_weight_recovers_charge [of "nghttp2_stream_init id 1 0 NGHTTP2_STREAM_OPENED 7 65535 65535 0
       \<lparr>last_writelen := 1000, pending_penalty := 3\<rparr>" 9]
  by (auto simp: nghttp2_stream_init_def)

lemma small_bits: "(u :: u32) < 128 \<Longrightarrow> bit u n \<Longrightarrow> n < 7"
proof -
  assume "u < 128" "bit u n"
  have "take_bit 7 u = u" using \<open>u < 128\<close> by (simp add: take_bit_eq_mod mod_word_less)
  then show "n < 7" using \<open>bit u n\<close> by (metis bit_take_bit_iff)
qed

lemma bit_128: "bit (128 :: int) n \<longleftrightarrow> n = 7"
proof -
  have "(128 :: int) = 2 ^ 7" by simp
  then show ?thesis by (simp only: bit_exp_iff) auto
qed

lemma pack_low: "(u :: u32) < 128 \<Longrightarrow>
    ucast (ucast (push_bit 7 (c :: u32) OR u) AND NOT (push_bit 7 1 :: u8)) = u"
  by (rule bit_word_eqI) (auto simp: bit_simps bit_128 dest: small_bits)

lemma pack_high_clear: "(u :: u32) < 128 \<Longrightarrow> ucast u AND (push_bit 7 1 :: u8) = 0"
  by (rule bit_word_eqI) (auto simp: bit_simps bit_128 dest: small_bits)

lemma pack_high_set: "ucast (push_bit 7 (1 :: u32) OR u) AND (push_bit 7 1 :: u8) \<noteq> 0"
proof -
  have "bit (ucast (push_bit 7 (1 :: u32) OR u) AND (push_bit 7 1 :: u8)) 7"
    by (simp add: bit_simps bit_128)
  then show ?thesis by force
qed

text \<open>
  The byte that stores an RFC 9218 priority loses nothing: unpacking a packed priority gives
  it back, for every urgency below 128 and both values of the incremental flag.
\<close>

theorem extpri_roundtrip:
  assumes "urgency e < 128" "inc e = 0 \<or> inc e = 1"
  shows "nghttp2_extpri_from_uint8 (nghttp2_extpri_to_uint8 e) = e"
  using assms pack_low [of "urgency e" "word_of_int (inc e)"] pack_high_clear [of "urgency e"]
    pack_high_set [of "urgency e"]
  by (auto simp: nghttp2_extpri_from_uint8_def nghttp2_extpri_to_uint8_def
      nghttp2_extpri_uint8_urgency_def nghttp2_extpri_uint8_inc_def NGHTTP2_EXTPRI_INC_MASK_def)

theorem extpri_roundtrip_witness:
  "nghttp2_extpri_from_uint8 (nghttp2_extpri_to_uint8 \<lparr>urgency = 5, inc = 1\<rparr>) = \<lparr>urgency = 5, inc = 1\<rparr>"
  by (rule extpri_roundtrip) simp_all

end
