(* ===== verification/Scheduler.thy ===== *)
theory Scheduler
  imports Stream
begin

text \<open>
  The RFC 9218 scheduler of \<open>nghttp2_session.c\<close>: one priority queue of streams per urgency
  level, in \<open>session->sched\<close>, with the operations that attach, detach, defer and resume the item
  of a stream, change its priority, move it after a write, and choose the next item to send.
\<close>

record sched_session =
  server :: bool
  sched :: "nghttp2_pq list"
  streams :: stream_heap

definition NGHTTP2_STREAM_MAX_CYCLE_GAP :: u64 where
  "NGHTTP2_STREAM_MAX_CYCLE_GAP = word_of_nat NGHTTP2_MAX_FRAME_SIZE_MAX"

abbreviation sched_less :: "stream_heap \<Rightarrow> nat \<Rightarrow> nat \<Rightarrow> bool" where
  "sched_less h \<equiv> stream_less NGHTTP2_STREAM_MAX_CYCLE_GAP h"

definition level :: "u8 \<Rightarrow> nat" where
  "level pri = unat (nghttp2_extpri_uint8_urgency pri)"

definition pq_get_first_cycle :: "stream_heap \<Rightarrow> nghttp2_pq \<Rightarrow> u64" where
  "pq_get_first_cycle h pq =
     (if nghttp2_pq_empty pq then 0
      else case nghttp2_pq_top pq of None \<Rightarrow> 0 | Some s \<Rightarrow> cycle (h s))"

definition session_ob_data_push ::
  "mem \<Rightarrow> sched_session \<Rightarrow> nat \<Rightarrow> (rc \<times> sched_session) option" where
  "session_ob_data_push m ss s =
     (let h = streams ss; u = level (extpri (h s))
      in if flags (h s) AND NGHTTP2_STREAM_FLAG_NO_RFC7540_PRIORITIES = 0 \<or> queued (h s)
            \<or> \<not> u < NGHTTP2_EXTPRI_URGENCY_LEVELS then None
         else
           let pq = sched ss ! u;
               c = pq_get_first_cycle h pq;
               c = (if nghttp2_extpri_uint8_inc (extpri (h s)) then c + word_of_nat (last_writelen (h s)) else c);
               h = h(s := (h s)\<lparr>cycle := c\<rparr>);
               (rv, pq) = nghttp2_pq_push m (sched_less h) pq s
           in if rv \<noteq> 0 then Some (rv, ss\<lparr>streams := h, sched := (sched ss)[u := pq]\<rparr>)
              else Some (0, ss\<lparr>streams := h(s := (h s)\<lparr>queued := True\<rparr>), sched := (sched ss)[u := pq]\<rparr>))"

definition session_ob_data_remove :: "sched_session \<Rightarrow> nat \<Rightarrow> sched_session option" where
  "session_ob_data_remove ss s =
     (let h = streams ss; u = level (extpri (h s))
      in if flags (h s) AND NGHTTP2_STREAM_FLAG_NO_RFC7540_PRIORITIES = 0 \<or> \<not> queued (h s)
            \<or> \<not> u < NGHTTP2_EXTPRI_URGENCY_LEVELS then None
         else
           case nghttp2_pq_remove (sched_less h) (sched ss ! u) s of
             None \<Rightarrow> None
           | Some pq \<Rightarrow>
               Some (ss\<lparr>streams := h(s := (h s)\<lparr>queued := False\<rparr>), sched := (sched ss)[u := pq]\<rparr>))"

definition session_attach_stream_item ::
  "mem \<Rightarrow> sched_session \<Rightarrow> nat \<Rightarrow> nat \<Rightarrow> (rc \<times> sched_session) option" where
  "session_attach_stream_item m ss s it =
     (case nghttp2_stream_attach_item m (streams ss) s it of
        None \<Rightarrow> None
      | Some (rv, h) \<Rightarrow>
          let ss = ss\<lparr>streams := h\<rparr>
          in if rv \<noteq> 0 then Some (rv, ss)
             else if flags (h s) AND NGHTTP2_STREAM_FLAG_NO_RFC7540_PRIORITIES = 0 then Some (0, ss)
             else
               case session_ob_data_push m ss s of
                 None \<Rightarrow> None
               | Some (rv, ss) \<Rightarrow>
                   if rv \<noteq> 0 then
                     (case nghttp2_stream_detach_item (streams ss) s of
                        None \<Rightarrow> None
                      | Some h \<Rightarrow> Some (rv, ss\<lparr>streams := h\<rparr>))
                   else Some (0, ss))"

definition session_detach_stream_item :: "sched_session \<Rightarrow> nat \<Rightarrow> sched_session option" where
  "session_detach_stream_item ss s =
     (case nghttp2_stream_detach_item (streams ss) s of
        None \<Rightarrow> None
      | Some h \<Rightarrow>
          let ss = ss\<lparr>streams := h\<rparr>
          in if flags (h s) AND NGHTTP2_STREAM_FLAG_NO_RFC7540_PRIORITIES = 0 \<or> \<not> queued (h s)
             then Some ss
             else session_ob_data_remove ss s)"

definition session_defer_stream_item :: "sched_session \<Rightarrow> nat \<Rightarrow> u8 \<Rightarrow> sched_session option" where
  "session_defer_stream_item ss s fl =
     (case nghttp2_stream_defer_item (streams ss) s fl of
        None \<Rightarrow> None
      | Some h \<Rightarrow>
          let ss = ss\<lparr>streams := h\<rparr>
          in if flags (h s) AND NGHTTP2_STREAM_FLAG_NO_RFC7540_PRIORITIES = 0 \<or> \<not> queued (h s)
             then Some ss
             else session_ob_data_remove ss s)"

definition session_resume_deferred_stream_item ::
  "mem \<Rightarrow> sched_session \<Rightarrow> nat \<Rightarrow> u8 \<Rightarrow> (rc \<times> sched_session) option" where
  "session_resume_deferred_stream_item m ss s fl =
     (case nghttp2_stream_resume_deferred_item m (streams ss) s fl of
        None \<Rightarrow> None
      | Some (rv, h) \<Rightarrow>
          let ss = ss\<lparr>streams := h\<rparr>
          in if rv \<noteq> 0 then Some (rv, ss)
             else if flags (h s) AND NGHTTP2_STREAM_FLAG_NO_RFC7540_PRIORITIES = 0
                   \<or> flags (h s) AND NGHTTP2_STREAM_FLAG_DEFERRED_ALL \<noteq> 0
             then Some (0, ss)
             else session_ob_data_push m ss s)"

fun next_item_loop :: "stream_heap \<Rightarrow> nghttp2_pq list \<Rightarrow> nat option" where
  "next_item_loop h [] = None"
| "next_item_loop h (pq # pqs) =
     (case nghttp2_pq_top pq of None \<Rightarrow> next_item_loop h pqs | Some s \<Rightarrow> item (h s))"

definition session_sched_get_next_outbound_item :: "sched_session \<Rightarrow> nat option" where
  "session_sched_get_next_outbound_item ss = next_item_loop (streams ss) (sched ss)"

definition session_sched_empty :: "sched_session \<Rightarrow> bool" where
  "session_sched_empty ss \<longleftrightarrow> list_all nghttp2_pq_empty (sched ss)"

definition session_sched_reschedule_stream :: "mem \<Rightarrow> sched_session \<Rightarrow> nat \<Rightarrow> sched_session option" where
  "session_sched_reschedule_stream m ss s =
     (let h = streams ss; u = level (extpri (h s)); penalty = word_of_nat (last_writelen (h s))
      in if \<not> u < NGHTTP2_EXTPRI_URGENCY_LEVELS then None
         else if \<not> nghttp2_extpri_uint8_inc (extpri (h s)) \<or> nghttp2_pq_size (sched ss ! u) = 1 then Some ss
         else
           case nghttp2_pq_remove (sched_less h) (sched ss ! u) s of
             None \<Rightarrow> None
           | Some pq \<Rightarrow>
               let h = h(s := (h s)\<lparr>cycle := cycle (h s) + penalty\<rparr>);
                   (rv, pq) = nghttp2_pq_push m (sched_less h) pq s
               in if rv \<noteq> 0 then None
                  else Some (ss\<lparr>streams := h, sched := (sched ss)[u := pq]\<rparr>))"

definition session_reschedule_stream :: "mem \<Rightarrow> sched_session \<Rightarrow> nat \<Rightarrow> nat \<Rightarrow> sched_session option" where
  "session_reschedule_stream m ss s hd_length =
     (let h = (streams ss)(s := (streams ss s)\<lparr>last_writelen := hd_length\<rparr>);
          ss = ss\<lparr>streams := h\<rparr>
      in if flags (h s) AND NGHTTP2_STREAM_FLAG_NO_RFC7540_PRIORITIES = 0
         then (case nghttp2_stream_reschedule m h s of None \<Rightarrow> None | Some h \<Rightarrow> Some (ss\<lparr>streams := h\<rparr>))
         else if \<not> server ss then Some ss
         else session_sched_reschedule_stream m ss s)"

definition session_update_stream_priority ::
  "mem \<Rightarrow> sched_session \<Rightarrow> nat \<Rightarrow> u8 \<Rightarrow> (rc \<times> sched_session) option" where
  "session_update_stream_priority m ss s u8extpri =
     (if extpri (streams ss s) = u8extpri then Some (0, ss)
      else if queued (streams ss s) then
        case session_ob_data_remove ss s of
          None \<Rightarrow> None
        | Some ss \<Rightarrow>
            session_ob_data_push m
              (ss\<lparr>streams := (streams ss)(s := (streams ss s)\<lparr>extpri := u8extpri\<rparr>)\<rparr>) s
      else Some (0, ss\<lparr>streams := (streams ss)(s := (streams ss s)\<lparr>extpri := u8extpri\<rparr>)\<rparr>))"

subsection \<open>One level of the schedule\<close>

lemma cycle_gap_small: "unat NGHTTP2_STREAM_MAX_CYCLE_GAP < 2 ^ 63"
  by (simp add: NGHTTP2_STREAM_MAX_CYCLE_GAP_def NGHTTP2_MAX_FRAME_SIZE_MAX_def)

lemma unat_cycle_gap: "unat NGHTTP2_STREAM_MAX_CYCLE_GAP = NGHTTP2_MAX_FRAME_SIZE_MAX"
  by (simp add: NGHTTP2_STREAM_MAX_CYCLE_GAP_def NGHTTP2_MAX_FRAME_SIZE_MAX_def)

interpretation sched_order: swo_on "sched_less h" "in_window NGHTTP2_STREAM_MAX_CYCLE_GAP h b" for h b
  by (rule stream_less_swo [OF cycle_gap_small])

text \<open>
  Every entry of the queue at level \<open>u\<close> is a queued stream of that urgency, and the cycles lie
  within the gap of a base, so that \<open>stream_less\<close> orders them.
\<close>

definition rfc9218 :: "nghttp2_stream \<Rightarrow> bool" where
  "rfc9218 st \<longleftrightarrow> flags st AND NGHTTP2_STREAM_FLAG_NO_RFC7540_PRIORITIES \<noteq> 0"

definition entry_ok :: "stream_heap \<Rightarrow> nat \<Rightarrow> nat \<Rightarrow> bool" where
  "entry_ok h u e \<longleftrightarrow> queued (h e) \<and> level (extpri (h e)) = u \<and> rfc9218 (h e)"

definition level_order :: "stream_heap \<Rightarrow> u64 \<Rightarrow> nghttp2_pq \<Rightarrow> bool" where
  "level_order h b pq \<longleftrightarrow>
     pq_inv (sched_less h) (in_window NGHTTP2_STREAM_MAX_CYCLE_GAP h b) pq \<and>
     length (pq_q pq) \<le> pq_capacity pq"

definition level_ok :: "stream_heap \<Rightarrow> nat \<Rightarrow> nghttp2_pq \<Rightarrow> bool" where
  "level_ok h u pq \<longleftrightarrow> (\<exists>b. level_order h b pq) \<and> (\<forall>e \<in> pq_elems pq. entry_ok h u e)"

lemma cycle_off_self [simp]: "cycle_off h (cycle (h e)) e = 0"
  by (simp add: cycle_off_def)

lemma is_heap_cong:
  assumes "is_heap lt q" and "\<And>x y. x \<in> set q \<Longrightarrow> y \<in> set q \<Longrightarrow> lt' x y = lt x y"
  shows "is_heap lt' q"
proof -
  have "heap_at lt' q i" if "i < length q" "0 < i" for i
  proof -
    have "parent i < length q" using that parent_less [of i] by simp
    then show ?thesis using assms that by (simp add: is_heap_def heap_at_def)
  qed
  then show ?thesis by (simp add: is_heap_def)
qed

lemma level_order_cong:
  assumes "level_order h b pq"
    and "\<And>e. e \<in> pq_elems pq \<Longrightarrow> cycle (h' e) = cycle (h e) \<and> seq (h' e) = seq (h e)"
  shows "level_order h' b pq"
  using assms is_heap_cong [of "sched_less h" "pq_q pq" "sched_less h'"]
  by (auto simp: level_order_def pq_inv_def pq_elems_def in_window_def cycle_off_def stream_less_def
      subset_iff)

lemma level_ok_frame:
  assumes "level_ok h u pq" and "s \<notin> pq_elems pq"
  shows "level_ok (h(s := x)) u pq"
proof -
  obtain b where "level_order h b pq" using assms by (auto simp: level_ok_def)
  then have "level_order (h(s := x)) b pq"
    by (rule level_order_cong) (use assms(2) in auto)
  moreover have "entry_ok (h(s := x)) u e" if "e \<in> pq_elems pq" for e
    using assms that by (auto simp: level_ok_def entry_ok_def)
  ultimately show ?thesis by (auto simp: level_ok_def)
qed

text \<open>The top has the least cycle, so it can serve as the base.\<close>

lemma level_order_rebase:
  assumes o: "level_order h b pq" and t: "nghttp2_pq_top pq = Some t"
  shows "level_order h (cycle (h t)) pq"
proof -
  let ?G = "NGHTTP2_STREAM_MAX_CYCLE_GAP"
  have inv: "pq_inv (sched_less h) (in_window ?G h b) pq" using o by (simp add: level_order_def)
  have top: "t \<in> pq_elems pq" "\<forall>y \<in> pq_elems pq. \<not> sched_less h y t"
    using sched_order.top_min [OF inv t] by auto
  have sub: "pq_elems pq \<subseteq> in_window ?G h b" using inv by (simp add: pq_inv_def pq_elems_def)
  have "e \<in> in_window ?G h (cycle (h t))" if e: "e \<in> pq_elems pq" for e
  proof -
    have we: "e \<in> in_window ?G h b" "t \<in> in_window ?G h b" using sub e top by auto
    then have "cycle_off h b t \<le> cycle_off h b e"
      using stream_less_lex [OF we cycle_gap_small] top e by auto
    moreover have "cycle (h e) - cycle (h t) = (cycle (h e) - b) - (cycle (h t) - b)" by simp
    ultimately have "cycle_off h (cycle (h t)) e = cycle_off h b e - cycle_off h b t"
      unfolding cycle_off_def by (metis unat_sub word_le_nat_alt)
    then show ?thesis using we by (simp add: in_window_def)
  qed
  then show ?thesis using o by (auto simp: level_order_def pq_inv_def pq_elems_def)
qed

lemma bubble_up_capacity [simp]: "pq_capacity (bubble_up lt pq i) = pq_capacity pq"
  by (induction lt pq i rule: bubble_up.induct)
    (subst bubble_up.simps, simp add: pq_swap_def Let_def)

lemma bubble_down_capacity [simp]: "pq_capacity (bubble_down lt pq i) = pq_capacity pq"
  by (induction lt pq i rule: bubble_down.induct)
    (subst bubble_down.simps, simp add: pq_swap_def Let_def)

lemma remove_capacity: "nghttp2_pq_remove lt pq x = Some pq' \<Longrightarrow> pq_capacity pq' = pq_capacity pq"
  by (auto simp: nghttp2_pq_remove_def nghttp2_pq_pop_def Let_def split: if_splits)

lemma push_success:
  assumes "nghttp2_pq_push m lt pq x = (0, pq')"
  shows "snd (nghttp2_pq_push (\<lambda>_. True) lt pq x) = pq'"
  using assms by (auto simp: nghttp2_pq_push_def Let_def ng_defs split: if_splits)

lemma push_failure:
  assumes "nghttp2_pq_push m lt pq x = (rv, pq')" "rv \<noteq> 0"
  shows "pq' = pq \<and> rv = NGHTTP2_ERR_NOMEM \<and> pq_capacity pq \<le> length (pq_q pq)"
  using assms by (auto simp: nghttp2_pq_push_def Let_def split: if_splits)

lemma push_capacity:
  assumes "nghttp2_pq_push m lt pq x = (0, pq')" "length (pq_q pq) \<le> pq_capacity pq"
  shows "Suc (length (pq_q pq)) \<le> pq_capacity pq'"
  using assms by (auto simp: nghttp2_pq_push_def Let_def ng_defs split: if_splits)

lemma pq_inv_card: "pq_inv lt S pq \<Longrightarrow> card (pq_elems pq) = length (pq_q pq)"
  by (simp add: pq_inv_def pq_wf_def pq_elems_def distinct_card)

lemma pq_inv_finite: "finite (pq_elems pq)"
  by (simp add: pq_elems_def)

lemma level_order_push:
  assumes o: "level_order h b pq" and s: "s \<notin> pq_elems pq" "s \<in> in_window NGHTTP2_STREAM_MAX_CYCLE_GAP h b"
    and p: "nghttp2_pq_push m (sched_less h) pq s = (0, pq')"
  shows "level_order h b pq' \<and> pq_elems pq' = insert s (pq_elems pq)"
proof -
  let ?S = "in_window NGHTTP2_STREAM_MAX_CYCLE_GAP h b"
  have inv: "pq_inv (sched_less h) ?S pq" using o by (simp add: level_order_def)
  have *: "pq_inv (sched_less h) ?S pq'" "pq_elems pq' = insert s (pq_elems pq)"
    using sched_order.push_snd [OF inv s(2,1)] push_success [OF p] by auto
  have "length (pq_q pq') = Suc (length (pq_q pq))"
    using pq_inv_card [OF *(1)] pq_inv_card [OF inv] *(2) s(1) pq_inv_finite [of pq] by simp
  with * o push_capacity [OF p] show ?thesis by (simp add: level_order_def)
qed

lemma level_order_remove:
  assumes o: "level_order h b pq" and s: "s \<in> pq_elems pq"
  shows "\<exists>pq'. nghttp2_pq_remove (sched_less h) pq s = Some pq' \<and> level_order h b pq' \<and>
    pq_elems pq' = pq_elems pq - {s} \<and> length (pq_q pq') < pq_capacity pq'"
proof -
  let ?S = "in_window NGHTTP2_STREAM_MAX_CYCLE_GAP h b"
  have inv: "pq_inv (sched_less h) ?S pq" using o by (simp add: level_order_def)
  obtain pq' where *: "nghttp2_pq_remove (sched_less h) pq s = Some pq'"
    "pq_inv (sched_less h) ?S pq'" "pq_elems pq' = pq_elems pq - {s}"
    using sched_order.remove_inv [OF inv s] by blast
  have "Suc (length (pq_q pq')) = length (pq_q pq)"
    using pq_inv_card [OF *(2)] pq_inv_card [OF inv] *(3) s pq_inv_finite [of pq]
      card_Suc_Diff1 [OF pq_inv_finite s] by simp
  with * o remove_capacity [OF *(1)] show ?thesis by (auto simp: level_order_def)
qed

text \<open>A stream pushed at most a frame's length after the first cycle is within the window.\<close>

lemma level_ok_push:
  assumes ok: "level_ok h u pq" and s: "s \<notin> pq_elems pq"
    and c: "cycle x = pq_get_first_cycle h pq + word_of_nat d" "d \<le> NGHTTP2_MAX_FRAME_SIZE_MAX"
    and p: "nghttp2_pq_push m (sched_less (h(s := x))) pq s = (0, pq')"
  shows "(\<exists>b. level_order (h(s := x)) b pq') \<and> pq_elems pq' = insert s (pq_elems pq)"
proof -
  obtain b where b: "level_order h b pq" using ok by (auto simp: level_ok_def)
  define b' where "b' = pq_get_first_cycle h pq"
  have o: "level_order (h(s := x)) b' pq"
  proof (cases "nghttp2_pq_top pq")
    case None
    then show ?thesis using b
      by (auto simp: level_order_def pq_inv_def nghttp2_pq_top_def pq_wf_def is_heap_def split: if_splits)
  next
    case (Some t)
    then have "level_order h b' pq"
      using level_order_rebase [OF b Some]
      by (auto simp: b'_def pq_get_first_cycle_def nghttp2_pq_empty_def nghttp2_pq_top_def split: if_splits)
    then show ?thesis by (rule level_order_cong) (use s in auto)
  qed
  have "d < 2 ^ 64" using c(2) by (simp add: NGHTTP2_MAX_FRAME_SIZE_MAX_def)
  then have "s \<in> in_window NGHTTP2_STREAM_MAX_CYCLE_GAP (h(s := x)) b'"
    using c by (simp add: in_window_def cycle_off_def b'_def unat_cycle_gap unat_word_of_nat_small)
  from level_order_push [OF o s this p] show ?thesis by blast
qed

subsection \<open>The whole schedule\<close>

definition sched_wf :: "sched_session \<Rightarrow> bool" where
  "sched_wf ss \<longleftrightarrow>
     length (sched ss) = NGHTTP2_EXTPRI_URGENCY_LEVELS \<and>
     (\<forall>u < NGHTTP2_EXTPRI_URGENCY_LEVELS. level_ok (streams ss) u (sched ss ! u)) \<and>
     (\<forall>e. rfc9218 (streams ss e) \<and> queued (streams ss e) \<longrightarrow>
        level (extpri (streams ss e)) < NGHTTP2_EXTPRI_URGENCY_LEVELS \<and>
        e \<in> pq_elems (sched ss ! level (extpri (streams ss e)))) \<and>
     (\<forall>e. last_writelen (streams ss e) \<le> NGHTTP2_MAX_FRAME_SIZE_MAX)"

definition sched_inv :: "sched_session \<Rightarrow> bool" where
  "sched_inv ss \<longleftrightarrow> sched_wf ss \<and>
     (\<forall>e. rfc9218 (streams ss e) \<and> queued (streams ss e) \<longrightarrow> stream_active (streams ss e))"

definition same_sched :: "nghttp2_stream \<Rightarrow> nghttp2_stream \<Rightarrow> bool" where
  "same_sched x y \<longleftrightarrow> cycle x = cycle y \<and> seq x = seq y \<and> queued x = queued y \<and>
     extpri x = extpri y \<and> rfc9218 x = rfc9218 y \<and> last_writelen x \<le> NGHTTP2_MAX_FRAME_SIZE_MAX"

lemma level_ok_cong:
  assumes "level_ok h u pq"
    and "\<And>e. e \<in> pq_elems pq \<Longrightarrow> cycle (h' e) = cycle (h e) \<and> seq (h' e) = seq (h e) \<and>
            queued (h' e) = queued (h e) \<and> extpri (h' e) = extpri (h e) \<and> rfc9218 (h' e) = rfc9218 (h e)"
  shows "level_ok h' u pq"
proof -
  obtain b where "level_order h b pq" using assms by (auto simp: level_ok_def)
  then have "level_order h' b pq" by (rule level_order_cong) (use assms(2) in auto)
  then show ?thesis using assms by (auto simp: level_ok_def entry_ok_def)
qed

lemma sched_wf_update:
  assumes "sched_wf ss" "same_sched x (streams ss s)"
  shows "sched_wf (ss\<lparr>streams := (streams ss)(s := x)\<rparr>)"
proof -
  have "level_ok ((streams ss)(s := x)) u (sched ss ! u)" if "u < NGHTTP2_EXTPRI_URGENCY_LEVELS" for u
    by (rule level_ok_cong [of "streams ss"]) (use assms that in \<open>auto simp: sched_wf_def same_sched_def\<close>)
  then show ?thesis using assms by (auto simp: sched_wf_def same_sched_def)
qed

lemma sched_wf_level:
  "sched_wf ss \<Longrightarrow> u < NGHTTP2_EXTPRI_URGENCY_LEVELS \<Longrightarrow> level_ok (streams ss) u (sched ss ! u)"
  by (simp add: sched_wf_def)

lemma sched_wf_elem:
  "sched_wf ss \<Longrightarrow> u < NGHTTP2_EXTPRI_URGENCY_LEVELS \<Longrightarrow> e \<in> pq_elems (sched ss ! u) \<Longrightarrow>
   queued (streams ss e) \<and> level (extpri (streams ss e)) = u \<and> rfc9218 (streams ss e)"
  by (auto simp: sched_wf_def level_ok_def entry_ok_def)

text \<open>Replacing the queue of one level and one stream of it.\<close>

lemma sched_wf_replace:
  assumes wf: "sched_wf ss" and u: "u < NGHTTP2_EXTPRI_URGENCY_LEVELS"
    and s: "level (extpri (streams ss s)) = u" "extpri x = extpri (streams ss s)"
      "rfc9218 x" "rfc9218 (streams ss s)" "last_writelen x \<le> NGHTTP2_MAX_FRAME_SIZE_MAX"
    and o: "\<exists>b. level_order ((streams ss)(s := x)) b pq"
    and e: "pq_elems pq - {s} = pq_elems (sched ss ! u) - {s}" "s \<in> pq_elems pq \<longleftrightarrow> queued x"
  shows "sched_wf (ss\<lparr>streams := (streams ss)(s := x), sched := (sched ss)[u := pq]\<rparr>)"
proof -
  let ?h = "(streams ss)(s := x)"
  have len: "length (sched ss) = NGHTTP2_EXTPRI_URGENCY_LEVELS" using wf by (simp add: sched_wf_def)
  have "level_ok ?h u pq"
  proof -
    have "entry_ok ?h u d" if "d \<in> pq_elems pq" for d
      using sched_wf_elem [OF wf u, of d] that e s by (cases "d = s") (auto simp: entry_ok_def)
    then show ?thesis using o by (simp add: level_ok_def)
  qed
  then have "level_ok ?h u ((sched ss)[u := pq] ! u)" using len u by simp
  moreover have "level_ok ?h v ((sched ss)[u := pq] ! v)" if v: "v < NGHTTP2_EXTPRI_URGENCY_LEVELS" "v \<noteq> u" for v
    using sched_wf_level [OF wf v(1)] sched_wf_elem [OF wf v(1), of s] v s
    by (simp, intro level_ok_frame) auto
  ultimately have "\<forall>v < NGHTTP2_EXTPRI_URGENCY_LEVELS. level_ok ?h v ((sched ss)[u := pq] ! v)"
    by blast
  moreover have "d \<in> pq_elems ((sched ss)[u := pq] ! level (extpri (?h d)))"
    if "rfc9218 (?h d)" "queued (?h d)" for d
  proof (cases "d = s")
    case True
    then show ?thesis using that e s u len by simp
  next
    case False
    with that wf have "d \<in> pq_elems (sched ss ! level (extpri (streams ss d)))"
      by (simp add: sched_wf_def)
    then show ?thesis using False e u len by (cases "level (extpri (streams ss d)) = u") auto
  qed
  ultimately show ?thesis using wf s u by (auto simp: sched_wf_def)
qed

lemma sched_wf_repri:
  assumes wf: "sched_wf ss" and s: "\<not> queued (streams ss s)"
  shows "sched_wf (ss\<lparr>streams := (streams ss)(s := (streams ss s)\<lparr>extpri := pri\<rparr>)\<rparr>)"
proof -
  have "level_ok ((streams ss)(s := (streams ss s)\<lparr>extpri := pri\<rparr>)) u (sched ss ! u)"
    if u: "u < NGHTTP2_EXTPRI_URGENCY_LEVELS" for u
    using sched_wf_level [OF wf u] sched_wf_elem [OF wf u, of s] s by (intro level_ok_frame) auto
  then show ?thesis using wf s by (auto simp: sched_wf_def)
qed

lemma ob_data_push_wf:
  assumes wf: "sched_wf ss" and s: "rfc9218 (streams ss s)" "\<not> queued (streams ss s)"
    "level (extpri (streams ss s)) < NGHTTP2_EXTPRI_URGENCY_LEVELS"
  obtains c rv ss' where "session_ob_data_push m ss s = Some (rv, ss')" "sched_wf ss'"
    "rv = 0 \<or> rv = NGHTTP2_ERR_NOMEM" "server ss' = server ss"
    "streams ss' = (streams ss)(s := (streams ss s)\<lparr>cycle := c, queued := (rv = 0)\<rparr>)"
proof -
  define u where "u = level (extpri (streams ss s))"
  define d where "d = (if nghttp2_extpri_uint8_inc (extpri (streams ss s)) then last_writelen (streams ss s) else 0)"
  define c where "c = pq_get_first_cycle (streams ss) (sched ss ! u) + word_of_nat d"
  define x where "x = (streams ss s)\<lparr>cycle := c\<rparr>"
  obtain rv pq where p: "nghttp2_pq_push m (sched_less ((streams ss)(s := x))) (sched ss ! u) s = (rv, pq)"
    by (metis surj_pair)
  have u: "u < NGHTTP2_EXTPRI_URGENCY_LEVELS" using s u_def by simp
  have ni: "s \<notin> pq_elems (sched ss ! u)" using sched_wf_elem [OF wf u] s(2) by blast
  have d: "d \<le> NGHTTP2_MAX_FRAME_SIZE_MAX" using wf by (simp add: d_def sched_wf_def)
  have x: "rfc9218 x" "extpri x = extpri (streams ss s)" "last_writelen x \<le> NGHTTP2_MAX_FRAME_SIZE_MAX" "\<not> queued x"
    using s wf by (simp_all add: x_def rfc9218_def sched_wf_def)
  have def: "session_ob_data_push m ss s = Some (rv, if rv = 0
      then ss\<lparr>streams := (streams ss)(s := x\<lparr>queued := True\<rparr>), sched := (sched ss)[u := pq]\<rparr>
      else ss\<lparr>streams := (streams ss)(s := x), sched := (sched ss)[u := pq]\<rparr>)"
    using s p u by (auto simp: session_ob_data_push_def Let_def rfc9218_def u_def x_def c_def d_def)
  show ?thesis
  proof (cases "rv = 0")
    case True
    have l: "(\<exists>b. level_order ((streams ss)(s := x)) b pq) \<and> pq_elems pq = insert s (pq_elems (sched ss ! u))"
      by (rule level_ok_push [OF sched_wf_level [OF wf u] ni _ d]) (use p True in \<open>auto simp: x_def c_def\<close>)
    then obtain b where "level_order ((streams ss)(s := x)) b pq" by blast
    then have "level_order ((streams ss)(s := x\<lparr>queued := True\<rparr>)) b pq"
      by (rule level_order_cong) simp
    then have "sched_wf (ss\<lparr>streams := (streams ss)(s := x\<lparr>queued := True\<rparr>), sched := (sched ss)[u := pq]\<rparr>)"
      by (intro sched_wf_replace [OF wf u]) (use x s l u_def in \<open>auto simp: rfc9218_def\<close>)
    with def True show ?thesis
      by (intro that [of rv "ss\<lparr>streams := (streams ss)(s := x\<lparr>queued := True\<rparr>), sched := (sched ss)[u := pq]\<rparr>" c])
        (auto simp: x_def)
  next
    case False
    with push_failure [OF p] have pq: "pq = sched ss ! u" "rv = NGHTTP2_ERR_NOMEM" by auto
    obtain b where "level_order (streams ss) b (sched ss ! u)"
      using sched_wf_level [OF wf u] by (auto simp: level_ok_def)
    then have "level_order ((streams ss)(s := x)) b pq"
      unfolding pq by (rule level_order_cong) (use ni in auto)
    then have "sched_wf (ss\<lparr>streams := (streams ss)(s := x), sched := (sched ss)[u := pq]\<rparr>)"
      by (intro sched_wf_replace [OF wf u]) (use x s ni pq u_def in auto)
    with def False pq show ?thesis
      by (intro that [of rv "ss\<lparr>streams := (streams ss)(s := x), sched := (sched ss)[u := pq]\<rparr>" c])
        (use s in \<open>auto simp: x_def\<close>)
  qed
qed

lemma ob_data_remove_wf:
  assumes wf: "sched_wf ss" and s: "rfc9218 (streams ss s)" "queued (streams ss s)"
  obtains ss' where "session_ob_data_remove ss s = Some ss'" "sched_wf ss'" "server ss' = server ss"
    "streams ss' = (streams ss)(s := (streams ss s)\<lparr>queued := False\<rparr>)"
proof -
  define u where "u = level (extpri (streams ss s))"
  have u: "u < NGHTTP2_EXTPRI_URGENCY_LEVELS" and e: "s \<in> pq_elems (sched ss ! u)"
    using wf s by (auto simp: sched_wf_def u_def)
  obtain b where "level_order (streams ss) b (sched ss ! u)"
    using sched_wf_level [OF wf u] by (auto simp: level_ok_def)
  from level_order_remove [OF this e] obtain pq where
    pq: "nghttp2_pq_remove (sched_less (streams ss)) (sched ss ! u) s = Some pq"
      "level_order (streams ss) b pq" "pq_elems pq = pq_elems (sched ss ! u) - {s}" by blast
  have "level_order ((streams ss)(s := (streams ss s)\<lparr>queued := False\<rparr>)) b pq"
    by (rule level_order_cong [OF pq(2)]) simp
  then have "sched_wf (ss\<lparr>streams := (streams ss)(s := (streams ss s)\<lparr>queued := False\<rparr>), sched := (sched ss)[u := pq]\<rparr>)"
    by (intro sched_wf_replace [OF wf u]) (use s wf pq u_def in \<open>auto simp: rfc9218_def sched_wf_def\<close>)
  moreover have "session_ob_data_remove ss s =
      Some (ss\<lparr>streams := (streams ss)(s := (streams ss s)\<lparr>queued := False\<rparr>), sched := (sched ss)[u := pq]\<rparr>)"
    using s u pq by (simp add: session_ob_data_remove_def Let_def rfc9218_def u_def)
  ultimately show ?thesis
    by (intro that [of "ss\<lparr>streams := (streams ss)(s := (streams ss s)\<lparr>queued := False\<rparr>), sched := (sched ss)[u := pq]\<rparr>"])
      auto
qed

subsection \<open>The operations keep the invariant and fail no assertion\<close>

lemma deferred_keeps_rfc9218:
  "(x AND NOT NGHTTP2_STREAM_FLAG_DEFERRED_ALL) AND NGHTTP2_STREAM_FLAG_NO_RFC7540_PRIORITIES
     = x AND NGHTTP2_STREAM_FLAG_NO_RFC7540_PRIORITIES"
proof -
  have "NOT NGHTTP2_STREAM_FLAG_DEFERRED_ALL AND NGHTTP2_STREAM_FLAG_NO_RFC7540_PRIORITIES
      = NGHTTP2_STREAM_FLAG_NO_RFC7540_PRIORITIES"
    by (simp add: ng_defs)
  then show ?thesis by (simp add: and.assoc)
qed

lemma or_keeps_rfc9218:
  "x AND NGHTTP2_STREAM_FLAG_NO_RFC7540_PRIORITIES \<noteq> 0 \<Longrightarrow>
   (x OR y) AND NGHTTP2_STREAM_FLAG_NO_RFC7540_PRIORITIES \<noteq> 0"
  by (simp add: bit.conj_disj_distrib2 or_eq_0_iff)

lemma clear_keeps_rfc9218:
  assumes "fl AND NGHTTP2_STREAM_FLAG_NO_RFC7540_PRIORITIES = 0"
  shows "(x AND NOT fl) AND NGHTTP2_STREAM_FLAG_NO_RFC7540_PRIORITIES
     = x AND NGHTTP2_STREAM_FLAG_NO_RFC7540_PRIORITIES"
proof -
  have "NOT fl AND NGHTTP2_STREAM_FLAG_NO_RFC7540_PRIORITIES = NGHTTP2_STREAM_FLAG_NO_RFC7540_PRIORITIES"
    using assms by (simp add: bit_eq_iff bit_simps) blast
  then show ?thesis by (simp add: and.assoc)
qed

lemma sched_inv_wf: "sched_inv ss \<Longrightarrow> sched_wf ss"
  by (simp add: sched_inv_def)

lemma sched_wf_writelen: "sched_wf ss \<Longrightarrow> last_writelen (streams ss e) \<le> NGHTTP2_MAX_FRAME_SIZE_MAX"
  by (simp add: sched_wf_def)

lemma attach_inv:
  assumes inv: "sched_inv ss" and s: "rfc9218 (streams ss s)" "item (streams ss s) = None"
    "flags (streams ss s) AND NGHTTP2_STREAM_FLAG_DEFERRED_ALL = 0"
    "level (extpri (streams ss s)) < NGHTTP2_EXTPRI_URGENCY_LEVELS"
  shows "\<exists>rv ss'. session_attach_stream_item m ss s it = Some (rv, ss') \<and> sched_inv ss' \<and>
    (rv = 0 \<and> queued (streams ss' s) \<and> item (streams ss' s) = Some it \<or>
     rv = NGHTTP2_ERR_NOMEM \<and> \<not> queued (streams ss' s) \<and> item (streams ss' s) = None)"
proof -
  let ?x = "(streams ss s)\<lparr>item := Some it\<rparr>"
  let ?ss = "ss\<lparr>streams := (streams ss)(s := ?x)\<rparr>"
  have nq: "\<not> queued (streams ss s)" using inv s by (auto simp: sched_inv_def stream_active_def)
  have wf: "sched_wf ?ss"
    by (rule sched_wf_update [OF sched_inv_wf [OF inv]])
      (use sched_wf_writelen [OF sched_inv_wf [OF inv]] in \<open>simp add: same_sched_def rfc9218_def\<close>)
  obtain c rv ss' where p: "session_ob_data_push m ?ss s = Some (rv, ss')" "sched_wf ss'"
    "rv = 0 \<or> rv = NGHTTP2_ERR_NOMEM"
    "streams ss' = (streams ss)(s := ?x\<lparr>cycle := c, queued := (rv = 0)\<rparr>)"
    by (rule ob_data_push_wf [OF wf, of s]) (use s nq in \<open>auto simp: rfc9218_def\<close>)
  have a: "nghttp2_stream_attach_item m (streams ss) s it = Some (0, (streams ss)(s := ?x))"
    using s by (simp add: nghttp2_stream_attach_item_def rfc9218_def)
  show ?thesis
  proof (cases "rv = 0")
    case True
    then have "sched_inv ss'"
      using p inv s by (auto simp: sched_inv_def stream_active_def)
    then show ?thesis using True p a s by (simp add: session_attach_stream_item_def rfc9218_def)
  next
    case False
    let ?y = "(streams ss' s)\<lparr>item := None, flags := flags (streams ss' s) AND NOT NGHTTP2_STREAM_FLAG_DEFERRED_ALL\<rparr>"
    have "sched_wf (ss'\<lparr>streams := (streams ss')(s := ?y)\<rparr>)"
      by (rule sched_wf_update [OF p(2)])
        (use sched_wf_writelen [OF p(2)] in \<open>simp add: same_sched_def rfc9218_def deferred_keeps_rfc9218\<close>)
    then have "sched_inv (ss'\<lparr>streams := (streams ss')(s := ?y)\<rparr>)"
      using p inv nq False by (auto simp: sched_inv_def)
    moreover have "nghttp2_stream_detach_item (streams ss') s = Some ((streams ss')(s := ?y))"
      using p(4) s by (simp add: nghttp2_stream_detach_item_def rfc9218_def deferred_keeps_rfc9218)
    ultimately show ?thesis using False p a s
      by (simp add: session_attach_stream_item_def rfc9218_def)
  qed
qed

text \<open>Detaching and deferring both mark the stream and then take it out of its queue.\<close>

lemma mark_and_remove:
  assumes inv: "sched_inv ss" and s: "rfc9218 (streams ss s)" and x: "same_sched x (streams ss s)"
  obtains ss' where "(if \<not> queued x then Some (ss\<lparr>streams := (streams ss)(s := x)\<rparr>)
      else session_ob_data_remove (ss\<lparr>streams := (streams ss)(s := x)\<rparr>) s) = Some ss'"
    "sched_inv ss'" "streams ss' = (streams ss)(s := x\<lparr>queued := False\<rparr>)" "server ss' = server ss"
proof (cases "queued x")
  case False
  have "sched_wf (ss\<lparr>streams := (streams ss)(s := x)\<rparr>)"
    by (rule sched_wf_update [OF sched_inv_wf [OF inv] x])
  with inv False show ?thesis
    by (intro that [of "ss\<lparr>streams := (streams ss)(s := x)\<rparr>"]) (auto simp: sched_inv_def)
next
  case True
  have "sched_wf (ss\<lparr>streams := (streams ss)(s := x)\<rparr>)"
    by (rule sched_wf_update [OF sched_inv_wf [OF inv] x])
  from ob_data_remove_wf [OF this, of s] True s x obtain ss' where
    "session_ob_data_remove (ss\<lparr>streams := (streams ss)(s := x)\<rparr>) s = Some ss'" "sched_wf ss'"
    "server ss' = server ss" "streams ss' = (streams ss)(s := x\<lparr>queued := False\<rparr>)"
    by (auto simp: same_sched_def)
  with inv True show ?thesis by (intro that [of ss']) (auto simp: sched_inv_def)
qed

lemma detach_inv:
  assumes inv: "sched_inv ss" and s: "rfc9218 (streams ss s)"
  shows "\<exists>ss'. session_detach_stream_item ss s = Some ss' \<and> sched_inv ss' \<and>
    \<not> queued (streams ss' s) \<and> item (streams ss' s) = None"
proof -
  let ?x = "(streams ss s)\<lparr>item := None, flags := flags (streams ss s) AND NOT NGHTTP2_STREAM_FLAG_DEFERRED_ALL\<rparr>"
  have x: "same_sched ?x (streams ss s)"
    using sched_wf_writelen [OF sched_inv_wf [OF inv]]
    by (simp add: same_sched_def rfc9218_def deferred_keeps_rfc9218)
  obtain ss' where r: "(if \<not> queued ?x then Some (ss\<lparr>streams := (streams ss)(s := ?x)\<rparr>)
      else session_ob_data_remove (ss\<lparr>streams := (streams ss)(s := ?x)\<rparr>) s) = Some ss'"
    "sched_inv ss'" "streams ss' = (streams ss)(s := ?x\<lparr>queued := False\<rparr>)"
    by (rule mark_and_remove [OF inv s x])
  have "session_detach_stream_item ss s = Some ss'"
    using r(1) s by (simp add: session_detach_stream_item_def nghttp2_stream_detach_item_def
        rfc9218_def deferred_keeps_rfc9218 split: if_splits)
  with r show ?thesis by simp
qed

lemma defer_inv:
  assumes inv: "sched_inv ss" and s: "rfc9218 (streams ss s)" "item (streams ss s) \<noteq> None"
  shows "\<exists>ss'. session_defer_stream_item ss s fl = Some ss' \<and> sched_inv ss' \<and>
    \<not> queued (streams ss' s) \<and> item (streams ss' s) = item (streams ss s)"
proof -
  let ?x = "(streams ss s)\<lparr>flags := flags (streams ss s) OR fl\<rparr>"
  have f: "rfc9218 ?x" using s or_keeps_rfc9218 by (simp add: rfc9218_def)
  have x: "same_sched ?x (streams ss s)"
    using sched_wf_writelen [OF sched_inv_wf [OF inv]] s(1) f by (simp add: same_sched_def)
  obtain ss' where r: "(if \<not> queued ?x then Some (ss\<lparr>streams := (streams ss)(s := ?x)\<rparr>)
      else session_ob_data_remove (ss\<lparr>streams := (streams ss)(s := ?x)\<rparr>) s) = Some ss'"
    "sched_inv ss'" "streams ss' = (streams ss)(s := ?x\<lparr>queued := False\<rparr>)"
    by (rule mark_and_remove [OF inv s(1) x])
  have "session_defer_stream_item ss s fl = Some ss'"
    using r(1) s f by (auto simp: session_defer_stream_item_def nghttp2_stream_defer_item_def
        rfc9218_def split: if_splits)
  with r show ?thesis by simp
qed

lemma resume_inv:
  assumes inv: "sched_inv ss" and s: "rfc9218 (streams ss s)" "nghttp2_stream_check_deferred_item (streams ss s)"
    "level (extpri (streams ss s)) < NGHTTP2_EXTPRI_URGENCY_LEVELS"
    and fl: "fl AND NGHTTP2_STREAM_FLAG_NO_RFC7540_PRIORITIES = 0"
  shows "\<exists>rv ss'. session_resume_deferred_stream_item m ss s fl = Some (rv, ss') \<and> sched_inv ss' \<and>
    (rv = 0 \<and> queued (streams ss' s) = stream_active (streams ss' s) \<or>
     rv = NGHTTP2_ERR_NOMEM \<and> \<not> queued (streams ss' s))"
proof -
  let ?x = "(streams ss s)\<lparr>flags := flags (streams ss s) AND NOT fl\<rparr>"
  let ?ss = "ss\<lparr>streams := (streams ss)(s := ?x)\<rparr>"
  have it: "item (streams ss s) \<noteq> None" and nq: "\<not> queued (streams ss s)"
    using inv s by (auto simp: sched_inv_def stream_active_def nghttp2_stream_check_deferred_item_def)
  have f: "rfc9218 ?x" using s clear_keeps_rfc9218 [OF fl] by (simp add: rfc9218_def)
  have wf: "sched_wf ?ss"
    by (rule sched_wf_update [OF sched_inv_wf [OF inv]])
      (use sched_wf_writelen [OF sched_inv_wf [OF inv]] s(1) f in \<open>simp add: same_sched_def\<close>)
  have r: "nghttp2_stream_resume_deferred_item m (streams ss) s fl = Some (0, (streams ss)(s := ?x))"
    using it f by (simp add: nghttp2_stream_resume_deferred_item_def rfc9218_def Let_def)
  show ?thesis
  proof (cases "flags ?x AND NGHTTP2_STREAM_FLAG_DEFERRED_ALL = 0")
    case False
    have "sched_inv ?ss" using wf inv nq by (auto simp: sched_inv_def)
    moreover have "session_resume_deferred_stream_item m ss s fl = Some (0, ?ss)"
      using r False by (simp add: session_resume_deferred_stream_item_def)
    ultimately show ?thesis using False nq by (simp add: stream_active_def)
  next
    case True
    obtain c rv ss' where p: "session_ob_data_push m ?ss s = Some (rv, ss')" "sched_wf ss'"
      "rv = 0 \<or> rv = NGHTTP2_ERR_NOMEM"
      "streams ss' = (streams ss)(s := ?x\<lparr>cycle := c, queued := (rv = 0)\<rparr>)"
      by (rule ob_data_push_wf [OF wf, of s]) (use s nq f in \<open>auto simp: rfc9218_def\<close>)
    have "sched_inv ss'" using p inv it True by (auto simp: sched_inv_def stream_active_def)
    moreover have "session_resume_deferred_stream_item m ss s fl = Some (rv, ss')"
      using r True f p(1) by (simp add: session_resume_deferred_stream_item_def rfc9218_def)
    ultimately show ?thesis using p True it by (auto simp: stream_active_def)
  qed
qed

lemma update_priority_inv:
  assumes inv: "sched_inv ss" and s: "rfc9218 (streams ss s)"
    "level pri < NGHTTP2_EXTPRI_URGENCY_LEVELS"
  shows "\<exists>rv ss'. session_update_stream_priority m ss s pri = Some (rv, ss') \<and> sched_inv ss' \<and>
    extpri (streams ss' s) = pri \<and>
    (rv = 0 \<and> queued (streams ss' s) = queued (streams ss s) \<or> rv = NGHTTP2_ERR_NOMEM \<and> \<not> queued (streams ss' s))"
proof -
  consider "extpri (streams ss s) = pri" | "extpri (streams ss s) \<noteq> pri" "queued (streams ss s)"
    | "extpri (streams ss s) \<noteq> pri" "\<not> queued (streams ss s)" by blast
  then show ?thesis
  proof cases
    case 1
    then show ?thesis using inv by (simp add: session_update_stream_priority_def)
  next
    case 2
    obtain ss1 where r: "session_ob_data_remove ss s = Some ss1" "sched_wf ss1"
      "streams ss1 = (streams ss)(s := (streams ss s)\<lparr>queued := False\<rparr>)"
      by (rule ob_data_remove_wf [OF sched_inv_wf [OF inv] s(1) 2(2)])
    let ?ss = "ss1\<lparr>streams := (streams ss1)(s := (streams ss1 s)\<lparr>extpri := pri\<rparr>)\<rparr>"
    have wf: "sched_wf ?ss" by (rule sched_wf_repri [OF r(2)]) (simp add: r(3))
    obtain c rv ss' where p: "session_ob_data_push m ?ss s = Some (rv, ss')" "sched_wf ss'"
      "rv = 0 \<or> rv = NGHTTP2_ERR_NOMEM"
      "streams ss' = (streams ?ss)(s := (streams ?ss s)\<lparr>cycle := c, queued := (rv = 0)\<rparr>)"
      by (rule ob_data_push_wf [OF wf, of s m]) (use s r(3) in \<open>auto simp: rfc9218_def\<close>)
    have "sched_inv ss'" using p r(3) inv 2 s by (auto simp: sched_inv_def stream_active_def rfc9218_def)
    moreover have "session_update_stream_priority m ss s pri = Some (rv, ss')"
      using 2 r(1) p(1) by (simp add: session_update_stream_priority_def)
    ultimately show ?thesis using p 2 by auto
  next
    case 3
    let ?ss = "ss\<lparr>streams := (streams ss)(s := (streams ss s)\<lparr>extpri := pri\<rparr>)\<rparr>"
    have "sched_wf ?ss" by (rule sched_wf_repri [OF sched_inv_wf [OF inv] 3(2)])
    then have "sched_inv ?ss" using inv 3 by (auto simp: sched_inv_def)
    then show ?thesis using 3 by (simp add: session_update_stream_priority_def)
  qed
qed

lemma first_cycle_top:
  assumes "s \<in> pq_elems pq"
  obtains t where "nghttp2_pq_top pq = Some t" "pq_get_first_cycle h pq = cycle (h t)"
  using assms
  by (cases "nghttp2_pq_top pq")
    (auto simp: pq_get_first_cycle_def nghttp2_pq_empty_def nghttp2_pq_top_def pq_elems_def split: if_splits)

lemma sched_reschedule_wf:
  assumes wf: "sched_wf ss" and s: "rfc9218 (streams ss s)" "queued (streams ss s)"
    and c: "cycle (streams ss s) = pq_get_first_cycle (streams ss) (sched ss ! level (extpri (streams ss s)))"
  obtains c' ss' where "session_sched_reschedule_stream m ss s = Some ss'" "sched_wf ss'"
    "streams ss' = (streams ss)(s := (streams ss s)\<lparr>cycle := c'\<rparr>)"
    "c' = (if nghttp2_extpri_uint8_inc (extpri (streams ss s)) \<and>
              nghttp2_pq_size (sched ss ! level (extpri (streams ss s))) \<noteq> 1
           then cycle (streams ss s) + word_of_nat (last_writelen (streams ss s)) else cycle (streams ss s))"
proof -
  define u h where "u = level (extpri (streams ss s))" and "h = streams ss"
  define x where "x = (h s)\<lparr>cycle := cycle (h s) + word_of_nat (last_writelen (h s))\<rparr>"
  have u: "u < NGHTTP2_EXTPRI_URGENCY_LEVELS" and e: "s \<in> pq_elems (sched ss ! u)"
    using wf s by (auto simp: sched_wf_def u_def)
  show ?thesis
  proof (cases "\<not> nghttp2_extpri_uint8_inc (extpri (h s)) \<or> nghttp2_pq_size (sched ss ! u) = 1")
    case True
    then have "session_sched_reschedule_stream m ss s = Some ss"
      using u by (simp add: session_sched_reschedule_stream_def u_def h_def)
    then show ?thesis using wf by (intro that [of ss "cycle (h s)"]) (use True in \<open>auto simp: h_def u_def\<close>)
  next
    case False
    obtain t where t: "nghttp2_pq_top (sched ss ! u) = Some t" "cycle (h s) = cycle (h t)"
      using first_cycle_top [OF e, of h] c by (metis h_def u_def)
    obtain b where "level_order h b (sched ss ! u)"
      using sched_wf_level [OF wf u] by (auto simp: level_ok_def h_def)
    then have "level_order h (cycle (h s)) (sched ss ! u)"
      using level_order_rebase t by simp
    from level_order_remove [OF this e] obtain pq where
      pq: "nghttp2_pq_remove (sched_less h) (sched ss ! u) s = Some pq"
        "level_order h (cycle (h s)) pq" "pq_elems pq = pq_elems (sched ss ! u) - {s}"
        "length (pq_q pq) < pq_capacity pq" by blast
    obtain rv pq' where p: "nghttp2_pq_push m (sched_less (h(s := x))) pq s = (rv, pq')"
      by (metis surj_pair)
    have rv: "rv = 0" using push_failure [OF p] pq(4) by linarith
    have "level_order (h(s := x)) (cycle (h s)) pq"
      by (rule level_order_cong [OF pq(2)]) (use pq(3) in auto)
    moreover have "s \<in> in_window NGHTTP2_STREAM_MAX_CYCLE_GAP (h(s := x)) (cycle (h s))"
      using sched_wf_writelen [OF wf, of s]
      by (simp add: in_window_def cycle_off_def x_def h_def unat_cycle_gap unat_word_of_nat_small
          NGHTTP2_MAX_FRAME_SIZE_MAX_def)
    ultimately have l: "level_order (h(s := x)) (cycle (h s)) pq'" "pq_elems pq' = insert s (pq_elems pq)"
      using level_order_push [of "h(s := x)" "cycle (h s)" pq s m pq'] p rv pq(3) by auto
    have "sched_wf (ss\<lparr>streams := (streams ss)(s := x), sched := (sched ss)[u := pq']\<rparr>)"
      by (rule sched_wf_replace [OF wf u])
        (use l pq(3) s sched_wf_writelen [OF wf, of s] in \<open>auto simp: x_def h_def u_def rfc9218_def\<close>)
    moreover have "session_sched_reschedule_stream m ss s =
        Some (ss\<lparr>streams := (streams ss)(s := x), sched := (sched ss)[u := pq']\<rparr>)"
      using False u pq(1) p rv
      by (simp add: session_sched_reschedule_stream_def Let_def x_def h_def u_def)
    ultimately show ?thesis
      by (intro that [of "ss\<lparr>streams := (streams ss)(s := x), sched := (sched ss)[u := pq']\<rparr>" "cycle x"])
        (use False in \<open>auto simp: x_def h_def u_def\<close>)
  qed
qed

lemma reschedule_inv:
  assumes inv: "sched_inv ss" and s: "rfc9218 (streams ss s)" "queued (streams ss s)"
    and c: "cycle (streams ss s) = pq_get_first_cycle (streams ss) (sched ss ! level (extpri (streams ss s)))"
    and n: "n \<le> NGHTTP2_MAX_FRAME_SIZE_MAX"
  shows "\<exists>ss'. session_reschedule_stream m ss s n = Some ss' \<and> sched_inv ss' \<and>
    last_writelen (streams ss' s) = n \<and> (\<forall>e. e \<noteq> s \<longrightarrow> streams ss' e = streams ss e) \<and>
    cycle (streams ss' s) =
      (if server ss \<and> nghttp2_extpri_uint8_inc (extpri (streams ss s)) \<and>
          nghttp2_pq_size (sched ss ! level (extpri (streams ss s))) \<noteq> 1
       then cycle (streams ss s) + word_of_nat n else cycle (streams ss s))"
proof -
  let ?ss = "ss\<lparr>streams := (streams ss)(s := (streams ss s)\<lparr>last_writelen := n\<rparr>)\<rparr>"
  have wf: "sched_wf ?ss"
    by (rule sched_wf_update [OF sched_inv_wf [OF inv]]) (use n in \<open>simp add: same_sched_def rfc9218_def\<close>)
  have act: "stream_active (streams ss s)" using inv s by (simp add: sched_inv_def)
  have fc: "pq_get_first_cycle (streams ?ss) q = pq_get_first_cycle (streams ss) q" for q
    by (simp add: pq_get_first_cycle_def split: option.split)
  show ?thesis
  proof (cases "server ss")
    case False
    then show ?thesis using wf inv s act
      by (auto simp: session_reschedule_stream_def rfc9218_def sched_inv_def stream_active_def Let_def)
  next
    case True
    obtain c' ss' where r: "session_sched_reschedule_stream m ?ss s = Some ss'" "sched_wf ss'"
      "streams ss' = (streams ?ss)(s := (streams ?ss s)\<lparr>cycle := c'\<rparr>)"
      "c' = (if nghttp2_extpri_uint8_inc (extpri (streams ?ss s)) \<and>
              nghttp2_pq_size (sched ?ss ! level (extpri (streams ?ss s))) \<noteq> 1
           then cycle (streams ?ss s) + word_of_nat (last_writelen (streams ?ss s)) else cycle (streams ?ss s))"
      by (rule sched_reschedule_wf [OF wf, of s m]) (use s c fc in \<open>auto simp: rfc9218_def\<close>)
    have "session_reschedule_stream m ss s n = Some ss'"
      using r(1) True s by (simp add: session_reschedule_stream_def rfc9218_def Let_def)
    moreover have "sched_inv ss'"
      using r inv act by (auto simp: sched_inv_def stream_active_def rfc9218_def)
    ultimately show ?thesis using r(3,4) True by simp
  qed
qed

subsection \<open>The scheduler as a state machine\<close>

text \<open>
  The steps the session takes, each under the condition its callers establish: a DATA item is
  attached to a stream without one, a resumed stream is deferred, a stream is moved after it was
  served (its cycle is the first of its queue), and an address is reused for a new stream only
  after the old one left its queue.
\<close>

inductive sched_step :: "sched_session \<Rightarrow> sched_session \<Rightarrow> bool" where
  open_stream: "\<not> queued (streams ss s) \<Longrightarrow>
    sched_step ss (ss\<lparr>streams := (streams ss)(s := nghttp2_stream_init idx sid fl st w rw lw ud)\<rparr>)"
| attach: "rfc9218 (streams ss s) \<Longrightarrow> item (streams ss s) = None \<Longrightarrow>
    flags (streams ss s) AND NGHTTP2_STREAM_FLAG_DEFERRED_ALL = 0 \<Longrightarrow>
    level (extpri (streams ss s)) < NGHTTP2_EXTPRI_URGENCY_LEVELS \<Longrightarrow>
    session_attach_stream_item m ss s it = Some (rv, ss') \<Longrightarrow> sched_step ss ss'"
| detach: "rfc9218 (streams ss s) \<Longrightarrow> session_detach_stream_item ss s = Some ss' \<Longrightarrow> sched_step ss ss'"
| defer_item: "rfc9218 (streams ss s) \<Longrightarrow> item (streams ss s) \<noteq> None \<Longrightarrow>
    session_defer_stream_item ss s fl = Some ss' \<Longrightarrow> sched_step ss ss'"
| resume: "rfc9218 (streams ss s) \<Longrightarrow> nghttp2_stream_check_deferred_item (streams ss s) \<Longrightarrow>
    level (extpri (streams ss s)) < NGHTTP2_EXTPRI_URGENCY_LEVELS \<Longrightarrow>
    fl AND NGHTTP2_STREAM_FLAG_NO_RFC7540_PRIORITIES = 0 \<Longrightarrow>
    session_resume_deferred_stream_item m ss s fl = Some (rv, ss') \<Longrightarrow> sched_step ss ss'"
| reprioritise: "rfc9218 (streams ss s) \<Longrightarrow> level pri < NGHTTP2_EXTPRI_URGENCY_LEVELS \<Longrightarrow>
    session_update_stream_priority m ss s pri = Some (rv, ss') \<Longrightarrow> sched_step ss ss'"
| reschedule: "rfc9218 (streams ss s) \<Longrightarrow> queued (streams ss s) \<Longrightarrow>
    cycle (streams ss s) = pq_get_first_cycle (streams ss) (sched ss ! level (extpri (streams ss s))) \<Longrightarrow>
    n \<le> NGHTTP2_MAX_FRAME_SIZE_MAX \<Longrightarrow>
    session_reschedule_stream m ss s n = Some ss' \<Longrightarrow> sched_step ss ss'"

definition sched_init :: "bool \<Rightarrow> stream_heap \<Rightarrow> sched_session" where
  "sched_init sv h =
     \<lparr>server = sv, sched = replicate NGHTTP2_EXTPRI_URGENCY_LEVELS (nghttp2_pq_init id), streams = h\<rparr>"

lemma sched_init_inv:
  assumes "\<And>e. \<not> queued (h e)" "\<And>e. last_writelen (h e) \<le> NGHTTP2_MAX_FRAME_SIZE_MAX"
  shows "sched_inv (sched_init sv h)"
  using assms by (auto simp: sched_inv_def sched_wf_def sched_init_def level_ok_def level_order_def
      nghttp2_pq_init_def pq_elems_def pq_inv_def pq_wf_def is_heap_def)

lemma open_inv:
  assumes inv: "sched_inv ss" and s: "\<not> queued (streams ss s)"
  shows "sched_inv (ss\<lparr>streams := (streams ss)(s := nghttp2_stream_init idx sid fl st w rw lw ud)\<rparr>)"
proof -
  let ?x = "nghttp2_stream_init idx sid fl st w rw lw ud"
  have x: "\<not> queued ?x" "last_writelen ?x = 0" by (simp_all add: nghttp2_stream_init_def)
  have "level_ok ((streams ss)(s := ?x)) u (sched ss ! u)" if u: "u < NGHTTP2_EXTPRI_URGENCY_LEVELS" for u
    using sched_wf_level [OF sched_inv_wf [OF inv] u] sched_wf_elem [OF sched_inv_wf [OF inv] u, of s] s
    by (intro level_ok_frame) auto
  then show ?thesis using inv x by (auto simp: sched_inv_def sched_wf_def)
qed

lemma sched_step_inv: "sched_step ss ss' \<Longrightarrow> sched_inv ss \<Longrightarrow> sched_inv ss'"
proof (induction rule: sched_step.induct)
  case (open_stream ss s idx sid fl st w rw lw ud)
  then show ?case using open_inv by blast
next
  case (attach ss s m it rv ss')
  then show ?case using attach_inv [of ss s m it] by auto
next
  case (detach ss s ss')
  then show ?case using detach_inv [of ss s] by auto
next
  case (defer_item ss s fl ss')
  then show ?case using defer_inv [of ss s fl] by auto
next
  case (resume ss s fl m rv ss')
  then show ?case using resume_inv [of ss s fl m] by auto
next
  case (reprioritise ss s pri m rv ss')
  then show ?case using update_priority_inv [of ss s pri m] by auto
next
  case (reschedule ss s n m ss')
  then show ?case using reschedule_inv [of ss s n m] by auto
qed

lemma next_item_loop_cases:
  assumes "\<forall>pq \<in> set pqs. \<forall>t. nghttp2_pq_top pq = Some t \<longrightarrow> item (h t) \<noteq> None"
  shows "(next_item_loop h pqs = None \<and> (\<forall>pq \<in> set pqs. nghttp2_pq_top pq = None)) \<or>
    (\<exists>i t it. i < length pqs \<and> nghttp2_pq_top (pqs ! i) = Some t \<and> next_item_loop h pqs = Some it \<and>
       item (h t) = Some it \<and> (\<forall>j < i. nghttp2_pq_top (pqs ! j) = None))"
  using assms
proof (induction pqs)
  case Nil
  then show ?case by simp
next
  case (Cons pq pqs)
  show ?case
  proof (cases "nghttp2_pq_top pq")
    case (Some t)
    then obtain it where "item (h t) = Some it" using Cons.prems by auto
    with Some show ?thesis by (intro disjI2 exI [of _ 0] exI [of _ t] exI [of _ it]) simp
  next
    case None
    have "\<forall>pq \<in> set pqs. \<forall>t. nghttp2_pq_top pq = Some t \<longrightarrow> item (h t) \<noteq> None"
      using Cons.prems by simp
    from Cons.IH [OF this] consider "next_item_loop h pqs = None" "\<forall>pq \<in> set pqs. nghttp2_pq_top pq = None"
      | i t it where "i < length pqs" "nghttp2_pq_top (pqs ! i) = Some t" "next_item_loop h pqs = Some it"
          "item (h t) = Some it" "\<forall>j < i. nghttp2_pq_top (pqs ! j) = None" by metis
    then show ?thesis
    proof cases
      case 1
      with None show ?thesis by simp
    next
      case 2
      with None show ?thesis
        by (intro disjI2 exI [of _ "Suc i"] exI [of _ t] exI [of _ it]) (simp add: nth_Cons split: nat.split)
    qed
  qed
qed

lemma sched_elem_iff:
  assumes "sched_wf ss"
  shows "rfc9218 (streams ss e) \<and> queued (streams ss e) \<longleftrightarrow>
    (\<exists>u < NGHTTP2_EXTPRI_URGENCY_LEVELS. e \<in> pq_elems (sched ss ! u))"
  using assms sched_wf_elem [OF assms, of _ e] by (auto simp: sched_wf_def)

lemma sched_top_min:
  assumes wf: "sched_wf ss" and u: "u < NGHTTP2_EXTPRI_URGENCY_LEVELS"
    and t: "nghttp2_pq_top (sched ss ! u) = Some t"
  shows "t \<in> pq_elems (sched ss ! u) \<and> (\<forall>e \<in> pq_elems (sched ss ! u). \<not> sched_less (streams ss) e t)"
proof -
  obtain b where "level_order (streams ss) b (sched ss ! u)"
    using sched_wf_level [OF wf u] by (auto simp: level_ok_def)
  then show ?thesis using sched_order.top_min [OF _ t] by (auto simp: level_order_def)
qed

lemma top_None_elems: "nghttp2_pq_top pq = None \<longleftrightarrow> pq_elems pq = {}"
  by (simp add: nghttp2_pq_top_def pq_elems_def)

lemma next_item_spec:
  assumes inv: "sched_inv ss"
  shows "case session_sched_get_next_outbound_item ss of
      None \<Rightarrow> session_sched_empty ss \<and> (\<nexists>e. rfc9218 (streams ss e) \<and> queued (streams ss e))
    | Some it \<Rightarrow> \<not> session_sched_empty ss \<and>
        (\<exists>s. item (streams ss s) = Some it \<and> rfc9218 (streams ss s) \<and> queued (streams ss s) \<and>
           stream_active (streams ss s) \<and>
           (\<forall>e. rfc9218 (streams ss e) \<and> queued (streams ss e) \<longrightarrow>
              level (extpri (streams ss s)) < level (extpri (streams ss e)) \<or>
              level (extpri (streams ss s)) = level (extpri (streams ss e)) \<and>
              \<not> sched_less (streams ss) e s))"
proof -
  have wf: "sched_wf ss" and len: "length (sched ss) = NGHTTP2_EXTPRI_URGENCY_LEVELS"
    using inv by (simp_all add: sched_inv_def sched_wf_def)
  have "item (streams ss t) \<noteq> None" if p: "pq \<in> set (sched ss)" "nghttp2_pq_top pq = Some t" for pq t
  proof -
    obtain u where "u < NGHTTP2_EXTPRI_URGENCY_LEVELS" "sched ss ! u = pq"
      using p(1) len unfolding in_set_conv_nth by metis
    with p have "rfc9218 (streams ss t)" "queued (streams ss t)"
      using sched_top_min [OF wf, of u t] sched_elem_iff [OF wf, of t] by auto
    then show ?thesis using inv by (simp add: sched_inv_def stream_active_def)
  qed
  then have "\<forall>pq \<in> set (sched ss). \<forall>t. nghttp2_pq_top pq = Some t \<longrightarrow> item (streams ss t) \<noteq> None"
    by blast
  from next_item_loop_cases [OF this, unfolded len]
  consider "next_item_loop (streams ss) (sched ss) = None" "\<forall>pq \<in> set (sched ss). nghttp2_pq_top pq = None"
    | u t it where "u < NGHTTP2_EXTPRI_URGENCY_LEVELS" "nghttp2_pq_top (sched ss ! u) = Some t"
        "next_item_loop (streams ss) (sched ss) = Some it" "item (streams ss t) = Some it"
        "\<forall>v < u. nghttp2_pq_top (sched ss ! v) = None"
    by metis
  then show ?thesis
  proof cases
    case 1
    then have "pq_elems (sched ss ! u) = {}" if "u < NGHTTP2_EXTPRI_URGENCY_LEVELS" for u
      using that len by (simp add: top_None_elems)
    then show ?thesis using 1 sched_elem_iff [OF wf]
      by (auto simp: session_sched_get_next_outbound_item_def session_sched_empty_def list_all_iff
          top_None_elems nghttp2_pq_empty_def pq_elems_def)
  next
    case 2
    have t: "t \<in> pq_elems (sched ss ! u)" "\<forall>e \<in> pq_elems (sched ss ! u). \<not> sched_less (streams ss) e t"
      using sched_top_min [OF wf 2(1,2)] by auto
    then have q: "rfc9218 (streams ss t)" "queued (streams ss t)" "level (extpri (streams ss t)) = u"
      using sched_wf_elem [OF wf 2(1)] by auto
    have "u < level (extpri (streams ss e)) \<or> u = level (extpri (streams ss e)) \<and> \<not> sched_less (streams ss) e t"
      if e: "rfc9218 (streams ss e)" "queued (streams ss e)" for e
    proof -
      obtain v where v: "v < NGHTTP2_EXTPRI_URGENCY_LEVELS" "e \<in> pq_elems (sched ss ! v)"
        using e sched_elem_iff [OF wf] by blast
      then have "\<not> v < u" using 2(5) by (auto simp: top_None_elems)
      then show ?thesis using v t sched_wf_elem [OF wf v] by (cases "v = u") auto
    qed
    moreover have "\<not> session_sched_empty ss"
    proof -
      have "sched ss ! u \<in> set (sched ss)" "\<not> nghttp2_pq_empty (sched ss ! u)"
        using t(1) 2(1) len by (auto simp: nghttp2_pq_empty_def pq_elems_def)
      then show ?thesis unfolding session_sched_empty_def list_all_iff by blast
    qed
    moreover have "stream_active (streams ss t)" using inv q by (simp add: sched_inv_def)
    ultimately show ?thesis using 2 q
      by (auto simp: session_sched_get_next_outbound_item_def intro!: exI [of _ t])
  qed
qed

subsection \<open>Properties\<close>

definition sched_start :: "bool \<Rightarrow> sched_session" where
  "sched_start sv = sched_init sv (\<lambda>_. nghttp2_stream_init id 0 0 NGHTTP2_STREAM_IDLE 16 65535 65535 0)"

definition sched_reachable :: "bool \<Rightarrow> sched_session \<Rightarrow> bool" where
  "sched_reachable sv ss \<longleftrightarrow> sched_step\<^sup>*\<^sup>* (sched_start sv) ss"

lemma sched_reachable_inv: "sched_reachable sv ss \<Longrightarrow> sched_inv ss"
  unfolding sched_reachable_def
proof (induction rule: rtranclp_induct)
  case base
  show ?case unfolding sched_start_def by (rule sched_init_inv) (simp_all add: nghttp2_stream_init_def)
next
  case (step y z)
  then show ?case using sched_step_inv by blast
qed

text \<open>
  C6.  In every state the session can reach by attaching, detaching, deferring and resuming
  items, changing priorities and rescheduling served streams, with any of the allocations
  failing, the scheduler returns no item only if no stream has one to send, and otherwise the
  item of a queued, active stream of the lowest occupied urgency level that no other stream
  of that level precedes.
\<close>

theorem scheduler_serves_most_urgent:
  assumes "sched_reachable sv ss"
  shows "case session_sched_get_next_outbound_item ss of
      None \<Rightarrow> session_sched_empty ss \<and> (\<nexists>e. rfc9218 (streams ss e) \<and> queued (streams ss e))
    | Some it \<Rightarrow> \<not> session_sched_empty ss \<and>
        (\<exists>s. item (streams ss s) = Some it \<and> rfc9218 (streams ss s) \<and> queued (streams ss s) \<and>
           stream_active (streams ss s) \<and>
           (\<forall>e. rfc9218 (streams ss e) \<and> queued (streams ss e) \<longrightarrow>
              level (extpri (streams ss s)) < level (extpri (streams ss e)) \<or>
              level (extpri (streams ss s)) = level (extpri (streams ss e)) \<and>
              \<not> sched_less (streams ss) e s))"
  by (rule next_item_spec [OF sched_reachable_inv [OF assms]])

theorem scheduler_serves_most_urgent_witness:
  "session_sched_get_next_outbound_item (sched_start True) = None \<and> session_sched_empty (sched_start True)"
proof -
  have n: "session_sched_get_next_outbound_item (sched_start True) = None"
    by (simp add: session_sched_get_next_outbound_item_def sched_start_def sched_init_def
        NGHTTP2_EXTPRI_URGENCY_LEVELS_def numeral_eq_Suc nghttp2_pq_init_def nghttp2_pq_top_def)
  moreover have "sched_reachable True (sched_start True)" by (simp add: sched_reachable_def)
  ultimately show ?thesis
    using scheduler_serves_most_urgent [of True "sched_start True"] by simp
qed


text \<open>A reachable state with one incremental stream queued, for the witness.\<close>

definition sched_w1 :: sched_session where
  "sched_w1 = (let ss = sched_start True
     in ss\<lparr>streams := (streams ss)(1 := nghttp2_stream_init id 1 0x10 NGHTTP2_STREAM_OPENED 16 65535 65535 0)\<rparr>)"

definition sched_w2 :: sched_session where
  "sched_w2 = snd (the (session_update_stream_priority (\<lambda>_. True) sched_w1 1 0x83))"

definition sched_w3 :: sched_session where
  "sched_w3 = snd (the (session_attach_stream_item (\<lambda>_. True) sched_w2 1 7))"

lemmas sched_eval = sched_start_def sched_init_def NGHTTP2_EXTPRI_URGENCY_LEVELS_def
  nghttp2_stream_init_def nghttp2_pq_init_def rfc9218_def ng_defs level_def
  nghttp2_extpri_uint8_urgency_def nghttp2_extpri_uint8_inc_def NGHTTP2_EXTPRI_INC_MASK_def
  NGHTTP2_EXTPRI_DEFAULT_URGENCY_def

lemma sched_w2_eq: "session_update_stream_priority (\<lambda>_. True) sched_w1 1 0x83 = Some (0, sched_w2)"
  by (simp add: sched_w2_def sched_w1_def session_update_stream_priority_def sched_eval)

lemma sched_w3_eq: "session_attach_stream_item (\<lambda>_. True) sched_w2 1 7 = Some (0, sched_w3)"
  by (simp add: sched_w3_def sched_w2_def sched_w1_def session_update_stream_priority_def
      session_attach_stream_item_def nghttp2_stream_attach_item_def session_ob_data_push_def
      nghttp2_pq_push_def bubble_up.simps sched_eval Let_def)

lemma sched_w3_facts:
  "server sched_w3" "rfc9218 (streams sched_w3 1)" "queued (streams sched_w3 1)"
  "level (extpri (streams sched_w3 1)) = 3" "nghttp2_extpri_uint8_inc (extpri (streams sched_w3 1))"
  "cycle (streams sched_w3 1) = pq_get_first_cycle (streams sched_w3) (sched sched_w3 ! 3)"
  by (simp_all add: sched_w3_def sched_w2_def sched_w1_def session_update_stream_priority_def
      session_attach_stream_item_def nghttp2_stream_attach_item_def session_ob_data_push_def
      nghttp2_pq_push_def bubble_up.simps sched_eval Let_def pq_get_first_cycle_def
      nghttp2_pq_top_def nghttp2_pq_empty_def)

lemma sched_w3_reachable: "sched_reachable True sched_w3"
proof -
  have s1: "sched_step (sched_start True) sched_w1"
    using open_stream [of "sched_start True" 1 id 1 "0x10" NGHTTP2_STREAM_OPENED 16 65535 65535 0]
    by (simp add: sched_w1_def sched_eval)
  have s2: "sched_step sched_w1 sched_w2"
    by (rule reprioritise [OF _ _ sched_w2_eq]) (simp_all add: sched_w1_def sched_eval)
  have s3: "sched_step sched_w2 sched_w3"
    by (rule attach [OF _ _ _ _ sched_w3_eq])
      (simp_all add: sched_w2_def sched_w1_def session_update_stream_priority_def sched_eval)
  show ?thesis using s1 s2 s3 by (auto simp: sched_reachable_def)
qed


end
