(* ===== verification/Map_Table.thy ===== *)
theory Map_Table
  imports Prelude
begin

text \<open>
  \<open>nghttp2_map.c\<close>: the hash table from stream ids to objects, with open addressing, Robin Hood
  displacement on insertion and backward shift on removal.  A key is a 32-bit word (the code casts
  \<open>int32_t\<close> to \<open>uint32_t\<close> before hashing), a data pointer an address with \<open>None\<close> for \<open>NULL\<close>.
  The probe loops have no bound in the code; they are partial functions here, and that they end is
  part of what is proved.
\<close>

record bucket =
  bkt_hash :: u32
  bkt_key :: u32
  bkt_data :: "nat option"

record nghttp2_map =
  map_table :: "bucket list"
  map_size :: nat
  tablelen :: u32
  tablelenbits :: nat

definition empty_bucket :: bucket where
  "empty_bucket = \<lparr>bkt_hash = 0, bkt_key = 0, bkt_data = None\<rparr>"

definition nghttp2_map_init :: nghttp2_map where
  "nghttp2_map_init = \<lparr>map_table = [], map_size = 0, tablelen = 0, tablelenbits = 0\<rparr>"

definition hash :: "u32 \<Rightarrow> u32" where
  "hash key = key * 2654435769"

definition h2idx :: "u32 \<Rightarrow> nat \<Rightarrow> u64" where
  "h2idx h bits = ucast (drop_bit (32 - bits) h)"

definition distance :: "u32 \<Rightarrow> nat \<Rightarrow> bucket \<Rightarrow> u64 \<Rightarrow> u64" where
  "distance len bits bkt idx = (idx - h2idx (bkt_hash bkt) bits) AND ucast (len - 1)"

definition next_idx :: "u32 \<Rightarrow> u64 \<Rightarrow> u64" where
  "next_idx len idx = (idx + 1) AND ucast (len - 1)"

partial_function (option) insert_loop ::
  "bucket list \<Rightarrow> u32 \<Rightarrow> nat \<Rightarrow> bucket \<Rightarrow> u64 \<Rightarrow> nat \<Rightarrow> (rc \<times> bucket list) option" where
  "insert_loop table len bits new idx d =
     (let bkt = table ! unat idx
      in if bkt_data bkt = None then Some (0, table[unat idx := new])
         else
           let dd = unat (distance len bits bkt idx)
           in if d > dd then insert_loop (table[unat idx := new]) len bits bkt (next_idx len idx) (dd + 1)
              else if bkt_key bkt = bkt_key new then Some (NGHTTP2_ERR_INVALID_ARGUMENT, table)
              else insert_loop table len bits new (next_idx len idx) (d + 1))"

definition table_insert ::
  "bucket list \<Rightarrow> u32 \<Rightarrow> nat \<Rightarrow> u32 \<Rightarrow> u32 \<Rightarrow> nat option \<Rightarrow> (rc \<times> bucket list) option" where
  "table_insert table len bits h key data =
     insert_loop table len bits \<lparr>bkt_hash = h, bkt_key = key, bkt_data = data\<rparr> (h2idx h bits) 0"

fun resize_loop :: "bucket list \<Rightarrow> bucket list \<Rightarrow> u32 \<Rightarrow> nat \<Rightarrow> bucket list option" where
  "resize_loop [] new_table len bits = Some new_table"
| "resize_loop (bkt # bkts) new_table len bits =
     (if bkt_data bkt = None then resize_loop bkts new_table len bits
      else
        case table_insert new_table len bits (bkt_hash bkt) (bkt_key bkt) (bkt_data bkt) of
          None \<Rightarrow> None
        | Some (rv, new_table) \<Rightarrow> if rv \<noteq> 0 then None else resize_loop bkts new_table len bits)"

text \<open>A bucket takes 16 bytes.\<close>

definition map_resize :: "mem \<Rightarrow> nghttp2_map \<Rightarrow> u32 \<Rightarrow> nat \<Rightarrow> (rc \<times> nghttp2_map) option" where
  "map_resize m mp new_tablelen new_tablelenbits =
     (if \<not> m (unat new_tablelen * 16) then Some (NGHTTP2_ERR_NOMEM, mp)
      else
        case resize_loop (map_table mp) (replicate (unat new_tablelen) empty_bucket)
               new_tablelen new_tablelenbits of
          None \<Rightarrow> None
        | Some new_table \<Rightarrow>
            Some (0, mp\<lparr>tablelen := new_tablelen, tablelenbits := new_tablelenbits,
                         map_table := new_table\<rparr>))"

definition NGHTTP2_INITIAL_TABLE_LENBITS :: nat where "NGHTTP2_INITIAL_TABLE_LENBITS = 4"

definition nghttp2_map_insert ::
  "mem \<Rightarrow> nghttp2_map \<Rightarrow> u32 \<Rightarrow> nat option \<Rightarrow> (rc \<times> nghttp2_map) option" where
  "nghttp2_map_insert m mp key data =
     (if data = None then None
      else
        case (if (map_size mp + 1) * 4 > unat (tablelen mp * 3) then
                if tablelen mp \<noteq> 0
                then map_resize m mp (tablelen mp * 2) (tablelenbits mp + 1)
                else map_resize m mp (push_bit NGHTTP2_INITIAL_TABLE_LENBITS 1)
                       NGHTTP2_INITIAL_TABLE_LENBITS
              else Some (0, mp)) of
          None \<Rightarrow> None
        | Some (rv, mp) \<Rightarrow>
            if rv \<noteq> 0 then Some (rv, mp)
            else
              case table_insert (map_table mp) (tablelen mp) (tablelenbits mp) (hash key) key data of
                None \<Rightarrow> None
              | Some (rv, table) \<Rightarrow>
                  if rv \<noteq> 0 then Some (rv, mp\<lparr>map_table := table\<rparr>)
                  else Some (0, mp\<lparr>map_table := table, map_size := map_size mp + 1\<rparr>))"

partial_function (option) find_loop ::
  "bucket list \<Rightarrow> u32 \<Rightarrow> nat \<Rightarrow> u32 \<Rightarrow> u64 \<Rightarrow> nat \<Rightarrow> nat option option" where
  "find_loop table len bits key idx d =
     (let bkt = table ! unat idx
      in if bkt_data bkt = None \<or> d > unat (distance len bits bkt idx) then Some None
         else if bkt_key bkt = key then Some (bkt_data bkt)
         else find_loop table len bits key (next_idx len idx) (d + 1))"

definition nghttp2_map_find :: "nghttp2_map \<Rightarrow> u32 \<Rightarrow> nat option option" where
  "nghttp2_map_find mp key =
     (if map_size mp = 0 then Some None
      else find_loop (map_table mp) (tablelen mp) (tablelenbits mp) key
             (h2idx (hash key) (tablelenbits mp)) 0)"

partial_function (option) shift_loop ::
  "bucket list \<Rightarrow> u32 \<Rightarrow> nat \<Rightarrow> u64 \<Rightarrow> u64 \<Rightarrow> bucket list option" where
  "shift_loop table len bits didx idx =
     (let bkt = table ! unat idx
      in if bkt_data bkt = None \<or> distance len bits bkt idx = 0 then Some table
         else shift_loop (table[unat didx := bkt, unat idx := empty_bucket]) len bits
                idx (next_idx len idx))"

partial_function (option) remove_loop ::
  "bucket list \<Rightarrow> u32 \<Rightarrow> nat \<Rightarrow> u32 \<Rightarrow> u64 \<Rightarrow> nat \<Rightarrow> (rc \<times> bucket list) option" where
  "remove_loop table len bits key idx d =
     (let bkt = table ! unat idx
      in if bkt_data bkt = None \<or> d > unat (distance len bits bkt idx)
         then Some (NGHTTP2_ERR_INVALID_ARGUMENT, table)
         else if bkt_key bkt = key then
           (case shift_loop (table[unat idx := empty_bucket]) len bits idx (next_idx len idx) of
              None \<Rightarrow> None
            | Some table \<Rightarrow> Some (0, table))
         else remove_loop table len bits key (next_idx len idx) (d + 1))"

definition nghttp2_map_remove :: "nghttp2_map \<Rightarrow> u32 \<Rightarrow> (rc \<times> nghttp2_map) option" where
  "nghttp2_map_remove mp key =
     (if map_size mp = 0 then Some (NGHTTP2_ERR_INVALID_ARGUMENT, mp)
      else
        case remove_loop (map_table mp) (tablelen mp) (tablelenbits mp) key
               (h2idx (hash key) (tablelenbits mp)) 0 of
          None \<Rightarrow> None
        | Some (rv, table) \<Rightarrow>
            if rv \<noteq> 0 then Some (rv, mp\<lparr>map_table := table\<rparr>)
            else Some (0, mp\<lparr>map_table := table, map_size := map_size mp - 1\<rparr>))"

definition nghttp2_map_clear :: "nghttp2_map \<Rightarrow> nghttp2_map" where
  "nghttp2_map_clear mp =
     (if tablelen mp = 0 then mp
      else mp\<lparr>map_table := replicate (unat (tablelen mp)) empty_bucket, map_size := 0\<rparr>)"

definition nghttp2_map_size :: "nghttp2_map \<Rightarrow> nat" where
  "nghttp2_map_size mp = map_size mp"

text \<open>\<open>func\<close> is the callback; the loop stops at the first nonzero result.\<close>

fun each_loop :: "(nat \<Rightarrow> int) \<Rightarrow> bucket list \<Rightarrow> int" where
  "each_loop func [] = 0"
| "each_loop func (bkt # bkts) =
     (case bkt_data bkt of
        None \<Rightarrow> each_loop func bkts
      | Some p \<Rightarrow> if func p \<noteq> 0 then func p else each_loop func bkts)"

definition nghttp2_map_each :: "nghttp2_map \<Rightarrow> (nat \<Rightarrow> int) \<Rightarrow> int" where
  "nghttp2_map_each mp func = (if map_size mp = 0 then 0 else each_loop func (map_table mp))"

subsection \<open>The ring of slots\<close>

text \<open>
  For the proofs a slot is a position \<open>p\<close> on an unrolled ring of \<open>n\<close> slots.  \<open>home\<close> is the slot a
  hash maps to, and \<open>dist\<close> the number of steps from the home of a bucket to \<open>p\<close>.
\<close>

definition home :: "nat \<Rightarrow> u32 \<Rightarrow> nat" where
  "home bits h = unat (drop_bit (32 - bits) h)"

definition dist :: "nat \<Rightarrow> bucket \<Rightarrow> nat \<Rightarrow> nat" where
  "dist bits b p = (p + (2 ^ bits - home bits (bkt_hash b))) mod 2 ^ bits"

definition slot :: "bucket list \<Rightarrow> nat \<Rightarrow> bucket" where
  "slot t p = t ! (p mod length t)"

definition occ :: "bucket list \<Rightarrow> nat \<Rightarrow> bool" where
  "occ t p \<longleftrightarrow> bkt_data (slot t p) \<noteq> None"

lemma empty_bucket_data [simp]: "bkt_data empty_bucket = None"
  by (simp add: empty_bucket_def)

lemma home_less:
  assumes "bits \<le> 32"
  shows "home bits h < 2 ^ bits"
proof -
  have "unat h < 2 ^ 32" using unat_less_exp [of h] by simp
  then have "unat h < 2 ^ (32 - bits) * 2 ^ bits" using assms by (simp flip: power_add)
  then have "unat h div 2 ^ (32 - bits) < 2 ^ bits" by (simp add: div_less_iff_less_mult mult.commute)
  moreover have "home bits h = unat h div 2 ^ (32 - bits)"
    unfolding home_def by (simp only: unsigned_drop_bit_eq) (use \<open>unat h < 2 ^ 32\<close> in \<open>simp add: drop_bit_eq_div take_bit_eq_mod\<close>)
  ultimately show ?thesis by simp
qed

lemma unat_h2idx: "unat (h2idx h bits) = home bits h"
proof -
  have "unat (drop_bit (32 - bits) h) < 2 ^ 64"
    using unat_less_exp [of "drop_bit (32 - bits) h"] by simp
  then show ?thesis by (simp add: h2idx_def home_def unsigned_ucast_eq take_bit_eq_mod)
qed

lemma mod_diff_ring:
  fixes a h N n :: nat
  assumes "n dvd N" "h < n" "a < N"
  shows "(if h \<le> a then a - h else a + N - h) mod n = (a + (n - h)) mod n"
proof (cases "h \<le> a")
  case True
  then have "a + (n - h) = (a - h) + n" using assms by simp
  then have "(a + (n - h)) mod n = (a - h) mod n" by (simp only: mod_add_self2)
  then show ?thesis using True by simp
next
  case False
  obtain k where N: "N = n * k" using assms(1) by (auto simp: dvd_def)
  then have "k \<noteq> 0" using assms by (cases k) auto
  then obtain k' where k: "k = Suc k'" by (cases k) auto
  have "a + N - h = (a + (n - h)) + n * k'" using False assms(2) N k by simp
  then have "(a + N - h) mod n = (a + (n - h)) mod n" by (simp only: mod_mult_self2)
  then show ?thesis using False by simp
qed

definition ring_len :: "nat \<Rightarrow> u32 \<Rightarrow> bool" where
  "ring_len bits len \<longleftrightarrow> 1 \<le> bits \<and> bits \<le> 31 \<and> len = 2 ^ bits"

lemma pow_le_31: "bits \<le> 31 \<Longrightarrow> (2 :: nat) ^ bits \<le> 2 ^ 31"
  by (rule power_increasing) simp_all

lemma ring_len_unat: "ring_len bits len \<Longrightarrow> unat len = 2 ^ bits"
proof -
  assume r: "ring_len bits len"
  then have "len = word_of_nat (2 ^ bits)" by (simp add: ring_len_def)
  moreover have "(2 :: nat) ^ bits < 2 ^ 32" using r pow_le_31 [of bits] by (simp add: ring_len_def)
  ultimately show ?thesis by (simp only: unsigned_of_nat) (simp add: take_bit_eq_mod)
qed

lemma ucast_mask:
  assumes r: "ring_len bits len"
  shows "(ucast (len - 1) :: u64) = 2 ^ bits - 1"
proof -
  have l: "len = 2 ^ bits" using r by (simp add: ring_len_def)
  have "bits \<le> 31" using r by (simp add: ring_len_def)
  then show ?thesis unfolding l
    by (simp flip: mask_eq_decr_exp) (rule bit_word_eqI, auto simp: bit_simps)
qed

lemma unat_next_idx:
  assumes r: "ring_len bits len" and i: "unat idx = p mod 2 ^ bits"
  shows "unat (next_idx len idx) = Suc p mod 2 ^ bits"
proof -
  have b: "(2 :: nat) ^ bits \<le> 2 ^ 31" using r pow_le_31 by (simp add: ring_len_def)
  have "unat idx < 2 ^ bits" using i by simp
  with b have "unat (idx + 1) = Suc (unat idx)" by (simp add: unat_word_ariths)
  then show ?thesis
    unfolding next_idx_def ucast_mask [OF r] unat_and_mask i by (simp add: i mod_Suc_eq)
qed

lemma unat_distance:
  assumes r: "ring_len bits len" and i: "unat idx = p mod 2 ^ bits"
  shows "unat (distance len bits b idx) = dist bits b p"
proof -
  have h: "home bits (bkt_hash b) < 2 ^ bits" using home_less r by (simp add: ring_len_def)
  have dv: "(2 :: nat) ^ bits dvd 2 ^ 64" using r by (intro le_imp_power_dvd) (simp add: ring_len_def)
  have "unat (distance len bits b idx) = unat (idx - h2idx (bkt_hash b) bits) mod 2 ^ bits"
    unfolding distance_def ucast_mask [OF r] by (rule unat_and_mask)
  also have "unat (idx - h2idx (bkt_hash b) bits) =
      (if home bits (bkt_hash b) \<le> unat idx then unat idx - home bits (bkt_hash b)
       else unat idx + 2 ^ 64 - home bits (bkt_hash b))"
    by (simp add: unat_sub_if' unat_h2idx)
  also have "\<dots> mod 2 ^ bits = (unat idx + (2 ^ bits - home bits (bkt_hash b))) mod 2 ^ bits"
    by (rule mod_diff_ring [OF dv h]) (use unat_less_exp [of idx] in simp)
  also have "\<dots> = dist bits b p" by (simp add: i dist_def mod_add_left_eq)
  finally show ?thesis .
qed

lemma Suc_mod_inj: "Suc q mod n = Suc p mod n \<longleftrightarrow> q mod n = p mod (n :: nat)"
  by (metis Suc_eq_plus1 mod_Suc_eq nat.inject mod_Suc Zero_not_Suc)

lemma Suc_mod_neq: "2 \<le> n \<Longrightarrow> Suc p mod n \<noteq> p mod (n :: nat)"
  by (simp add: mod_Suc)

lemma dist_Suc: "dist bits b (Suc p) = Suc (dist bits b p) mod 2 ^ bits"
  by (simp add: dist_def mod_Suc_eq)

lemma dist_less: "dist bits b p < 2 ^ bits"
  by (simp add: dist_def)

lemma dist_Suc_pos: "0 < dist bits b (Suc p) \<Longrightarrow> dist bits b (Suc p) = Suc (dist bits b p)"
  using dist_less [of bits b p] by (auto simp: dist_Suc mod_Suc split: if_splits)

lemma dist_Suc_small: "Suc (dist bits b p) < 2 ^ bits \<Longrightarrow> dist bits b (Suc p) = Suc (dist bits b p)"
  by (simp add: dist_Suc)

lemma dist_cong: "p mod 2 ^ bits = q mod 2 ^ bits \<Longrightarrow> dist bits b p = dist bits b q"
  unfolding dist_def by (metis mod_add_left_eq)

lemma dist_home: "bits \<le> 32 \<Longrightarrow> m < 2 ^ bits \<Longrightarrow> dist bits b (home bits (bkt_hash b) + m) = m"
proof -
  assume b: "bits \<le> 32" and m: "m < 2 ^ bits"
  have "home bits (bkt_hash b) + m + (2 ^ bits - home bits (bkt_hash b)) = m + 2 ^ bits"
    using home_less [OF b, of "bkt_hash b"] by simp
  then show ?thesis using m by (simp add: dist_def)
qed

lemma dist_home_ex:
  "bits \<le> 32 \<Longrightarrow> (home bits (bkt_hash b) + dist bits b p) mod 2 ^ bits = p mod 2 ^ bits"
proof -
  assume b: "bits \<le> 32"
  have "(home bits (bkt_hash b) + dist bits b p) mod 2 ^ bits
      = (home bits (bkt_hash b) + (p + (2 ^ bits - home bits (bkt_hash b)))) mod 2 ^ bits"
    unfolding dist_def by (simp add: mod_add_right_eq)
  also have "home bits (bkt_hash b) + (p + (2 ^ bits - home bits (bkt_hash b))) = p + 2 ^ bits"
    using home_less [OF b, of "bkt_hash b"] by simp
  finally show ?thesis by simp
qed

lemma ring_far: "0 < e \<Longrightarrow> e < n \<Longrightarrow> (p + e) mod n \<noteq> p mod (n :: nat)"
proof
  assume e: "0 < e" "e < n" and "(p + e) mod n = p mod n"
  then have "n dvd e" by (metis diff_add_inverse le_add1 mod_eq_dvd_iff_nat)
  then show False using e by (auto dest: dvd_imp_le)
qed

lemma ring_reach: "0 < n \<Longrightarrow> \<exists>e < n. (p + e) mod n = q mod (n :: nat)"
proof -
  assume n: "0 < n"
  have "(p + (q + (n - p mod n)) mod n) mod n = (p mod n + (q + (n - p mod n))) mod n"
    by (simp add: mod_simps)
  also have "p mod n + (q + (n - p mod n)) = q + n"
    using mod_less_divisor [OF n, of p] by simp
  finally show ?thesis using n by (intro exI [of _ "(q + (n - p mod n)) mod n"]) simp
qed

subsection \<open>The Robin Hood invariant\<close>

definition rh :: "nat \<Rightarrow> bucket list \<Rightarrow> bool" where
  "rh bits t \<longleftrightarrow>
     (\<forall>p. occ t (Suc p) \<and> 0 < dist bits (slot t (Suc p)) (Suc p) \<longrightarrow>
        occ t p \<and> dist bits (slot t (Suc p)) (Suc p) \<le> Suc (dist bits (slot t p) p))"

definition table_wf :: "nat \<Rightarrow> bucket list \<Rightarrow> bool" where
  "table_wf bits t \<longleftrightarrow> length t = 2 ^ bits \<and> rh bits t \<and>
     (\<forall>p. occ t p \<longrightarrow> bkt_hash (slot t p) = hash (bkt_key (slot t p))) \<and>
     (\<forall>p q. occ t p \<and> occ t q \<and> bkt_key (slot t p) = bkt_key (slot t q) \<longrightarrow>
        p mod 2 ^ bits = q mod 2 ^ bits)"

lemma table_wf_len: "table_wf bits t \<Longrightarrow> length t = 2 ^ bits"
  unfolding table_wf_def by blast

lemma table_wf_rh: "table_wf bits t \<Longrightarrow> rh bits t"
  unfolding table_wf_def by blast

lemma table_wf_hash: "table_wf bits t \<Longrightarrow> occ t p \<Longrightarrow> bkt_hash (slot t p) = hash (bkt_key (slot t p))"
  by (simp add: table_wf_def)

lemma table_wf_uniq: "table_wf bits t \<Longrightarrow> occ t p \<Longrightarrow> occ t q \<Longrightarrow>
    bkt_key (slot t p) = bkt_key (slot t q) \<Longrightarrow> p mod 2 ^ bits = q mod 2 ^ bits"
  unfolding table_wf_def by blast

definition ent :: "bucket list \<Rightarrow> (u32 \<times> nat) set" where
  "ent t = {(k, v). \<exists>p. bkt_key (slot t p) = k \<and> bkt_data (slot t p) = Some v}"

lemma slot_update:
  assumes "length t = n" "0 < n"
  shows "slot (t[p mod n := b]) q = (if q mod n = p mod n then b else slot t q)"
  using assms by (simp add: slot_def nth_list_update)

lemma slot_cong: "p mod length t = q mod length t \<Longrightarrow> slot t p = slot t q"
  by (simp add: slot_def)

lemma occ_cong: "p mod length t = q mod length t \<Longrightarrow> occ t p = occ t q"
  by (simp add: occ_def slot_def)

text \<open>Backwards from a bucket that is \<open>m\<close> steps from its home all slots are occupied.\<close>

lemma rh_chain:
  assumes "rh bits t" "occ t (q + m)" "m \<le> dist bits (slot t (q + m)) (q + m)" "i \<le> m"
  shows "occ t (q + i) \<and> i \<le> dist bits (slot t (q + i)) (q + i)"
  using assms(2-)
proof (induction m)
  case 0
  then show ?case by simp
next
  case (Suc m)
  show ?case
  proof (cases "i = Suc m")
    case True
    then show ?thesis using Suc.prems by simp
  next
    case False
    have "occ t (q + m) \<and> dist bits (slot t (q + Suc m)) (q + Suc m) \<le> Suc (dist bits (slot t (q + m)) (q + m))"
      using assms(1) Suc.prems unfolding rh_def by (metis add_Suc_right less_le_trans zero_less_Suc)
    then show ?thesis using Suc False by simp
  qed
qed

lemma dist_not_full:
  assumes wf: "table_wf bits t" and e: "\<not> occ t x" and o: "occ t p"
  shows "Suc (dist bits (slot t p) p) < 2 ^ bits"
proof (rule ccontr)
  let ?n = "2 ^ bits :: nat"
  assume "\<not> ?thesis"
  then have d: "dist bits (slot t p) p = ?n - 1" using dist_less [of bits "slot t p" p] by simp
  have len: "length t = ?n" and r: "rh bits t" using wf by (simp_all add: table_wf_def)
  have pos: "Suc p + (?n - 1) = p + ?n" by simp
  have s: "slot t (Suc p + (?n - 1)) = slot t p" "occ t (Suc p + (?n - 1)) = occ t p"
    unfolding pos using len by (auto intro!: slot_cong occ_cong)
  have dd: "dist bits (slot t p) (Suc p + (?n - 1)) = ?n - 1"
    unfolding pos using d dist_cong [of "p + ?n" bits p] by simp
  obtain i where i: "i < ?n" "(Suc p + i) mod ?n = x mod ?n"
    using ring_reach [of ?n "Suc p" x] by auto
  have "occ t (Suc p + i)"
    using rh_chain [OF r, of "Suc p" "?n - 1" i] o s dd i(1) by simp
  then show False using e i(2) len occ_cong [of "Suc p + i" t x] by simp
qed

lemma rh_update:
  assumes r: "rh bits t" and len: "length t = 2 ^ bits" "1 \<le> bits" and b: "bkt_data b \<noteq> None"
    and pred: "0 < dist bits b p \<Longrightarrow> \<exists>p'. p = Suc p' \<and> occ t p' \<and> dist bits b p \<le> Suc (dist bits (slot t p') p')"
    and nx: "occ t (Suc p) \<Longrightarrow> 0 < dist bits (slot t (Suc p)) (Suc p) \<Longrightarrow>
        dist bits (slot t (Suc p)) (Suc p) \<le> Suc (dist bits b p)"
  shows "rh bits (t[p mod 2 ^ bits := b])"
  unfolding rh_def
proof (intro allI impI)
  let ?n = "2 ^ bits :: nat" and ?t = "t[p mod 2 ^ bits := b]"
  have n2: "2 \<le> ?n" using len(2) by (cases bits) auto
  have sl: "slot ?t q = (if q mod ?n = p mod ?n then b else slot t q)" for q
    using slot_update [OF len(1)] by simp
  have oc: "occ ?t q = (q mod ?n = p mod ?n \<or> occ t q)" for q
    using b by (simp add: occ_def sl)
  fix q
  assume *: "occ ?t (Suc q) \<and> 0 < dist bits (slot ?t (Suc q)) (Suc q)"
  consider "Suc q mod ?n = p mod ?n" | "q mod ?n = p mod ?n"
    | "Suc q mod ?n \<noteq> p mod ?n" "q mod ?n \<noteq> p mod ?n" by blast
  then show "occ ?t q \<and> dist bits (slot ?t (Suc q)) (Suc q) \<le> Suc (dist bits (slot ?t q) q)"
  proof cases
    case 1
    then have ne: "q mod ?n \<noteq> p mod ?n" using Suc_mod_neq [OF n2, of q] by auto
    have d: "dist bits b (Suc q) = dist bits b p" using 1 by (rule dist_cong)
    then obtain p' where p': "p = Suc p'" "occ t p'" "dist bits b p \<le> Suc (dist bits (slot t p') p')"
      using pred * 1 by (auto simp: sl)
    then have q: "q mod ?n = p' mod ?n" using 1 by (simp add: Suc_mod_inj)
    then have "slot t q = slot t p'" "occ t q" "dist bits (slot t p') q = dist bits (slot t p') p'"
      using p'(2) len slot_cong [of q t p'] occ_cong [of q t p'] by (auto intro: dist_cong)
    then have "slot ?t q = slot t p'" "occ ?t q" "slot ?t (Suc q) = b"
      "dist bits (slot t p') q = dist bits (slot t p') p'"
      using ne 1 by (simp_all add: sl oc)
    then show ?thesis using d p'(3) by simp
  next
    case 2
    then have sq: "Suc q mod ?n = Suc p mod ?n" by (simp add: Suc_mod_inj)
    then have ne: "Suc q mod ?n \<noteq> p mod ?n" using Suc_mod_neq [OF n2, of p] by simp
    have "slot t (Suc q) = slot t (Suc p)" "occ t (Suc q) = occ t (Suc p)"
      using sq len slot_cong [of "Suc q" t "Suc p"] occ_cong [of "Suc q" t "Suc p"] by simp_all
    then show ?thesis using * 2 ne nx dist_cong [OF sq] dist_cong [OF 2] by (simp add: sl oc)
  next
    case 3
    then show ?thesis using r * by (simp add: rh_def sl oc)
  qed
qed

subsection \<open>Entries and counts\<close>

definition used :: "bucket list \<Rightarrow> nat" where
  "used t = length (filter (\<lambda>b. bkt_data b \<noteq> None) t)"

lemma used_update:
  "i < length t \<Longrightarrow> used (t[i := b]) + (if bkt_data (t ! i) \<noteq> None then 1 else 0)
     = used t + (if bkt_data b \<noteq> None then 1 else 0)"
proof -
  assume i: "i < length t"
  have u: "used (xs @ c # ys) = used xs + (if bkt_data c \<noteq> None then 1 else 0) + used ys" for xs c ys
    by (simp add: used_def)
  have "used t = used (take i t @ t ! i # drop (Suc i) t)" using i by (simp add: id_take_nth_drop [symmetric])
  then show ?thesis by (simp only: u upd_conv_take_nth_drop [OF i])
qed

lemma ex_empty:
  assumes "used t < length t"
  shows "\<exists>x < length t. \<not> occ t x"
proof -
  have "\<exists>b \<in> set t. bkt_data b = None"
    using assms unfolding used_def by (metis (mono_tags, lifting) filter_True less_irrefl)
  then obtain i where "i < length t" "bkt_data (t ! i) = None" by (auto simp: in_set_conv_nth)
  then show ?thesis by (intro exI [of _ i]) (simp add: occ_def slot_def)
qed

lemma ent_update_empty:
  assumes "length t = 2 ^ bits" "\<not> occ t p" "bkt_data b = Some v"
  shows "ent (t[p mod 2 ^ bits := b]) = insert (bkt_key b, v) (ent t)"
proof -
  have sl: "slot (t[p mod 2 ^ bits := b]) q = (if q mod 2 ^ bits = p mod 2 ^ bits then b else slot t q)" for q
    using slot_update [OF assms(1)] by simp
  have "\<not> bkt_data (slot t q) = Some w" if "q mod 2 ^ bits = p mod 2 ^ bits" for q w
    using assms that occ_cong [of q t p] by (simp add: occ_def)
  then show ?thesis using assms(3) by (auto simp: ent_def sl split: if_splits)
qed

lemma ent_update_swap:
  assumes wf: "table_wf bits t" and p: "bkt_data (slot t p) = Some w" and b: "bkt_data b = Some v"
  shows "insert (bkt_key (slot t p), w) (ent (t[p mod 2 ^ bits := b])) = insert (bkt_key b, v) (ent t)"
proof -
  have len: "length t = 2 ^ bits" using wf by (simp add: table_wf_def)
  have sl: "slot (t[p mod 2 ^ bits := b]) q = (if q mod 2 ^ bits = p mod 2 ^ bits then b else slot t q)" for q
    using slot_update [OF len] by simp
  define R where "R = {(k, u). \<exists>q. q mod 2 ^ bits \<noteq> p mod 2 ^ bits \<and> bkt_key (slot t q) = k \<and> bkt_data (slot t q) = Some u}"
  have e1: "ent (t[p mod 2 ^ bits := b]) = insert (bkt_key b, v) R"
    unfolding ent_def R_def sl using b by (auto split: if_splits)
  have sp: "slot t q = slot t p" if "q mod 2 ^ bits = p mod 2 ^ bits" for q
    using that len slot_cong [of q t p] by simp
  have e2: "ent t = insert (bkt_key (slot t p), w) R"
  proof (intro set_eqI iffI)
    fix x assume "x \<in> ent t"
    then obtain k u q where x: "x = (k, u)" "bkt_key (slot t q) = k" "bkt_data (slot t q) = Some u"
      by (auto simp: ent_def)
    show "x \<in> insert (bkt_key (slot t p), w) R"
    proof (cases "q mod 2 ^ bits = p mod 2 ^ bits")
      case True
      with sp [OF True] x p show ?thesis by simp
    next
      case False
      with x show ?thesis by (auto simp: R_def)
    qed
  qed (use p in \<open>auto simp: ent_def R_def\<close>)
  show ?thesis unfolding e1 e2 by (rule insert_commute)
qed

lemma ent_key_iff: "(\<exists>v. (k, v) \<in> ent t) \<longleftrightarrow> (\<exists>p. occ t p \<and> bkt_key (slot t p) = k)"
  by (auto simp: ent_def occ_def)

lemma table_wf_update:
  assumes wf: "table_wf bits t" and bits: "1 \<le> bits" and b: "bkt_data b \<noteq> None" "bkt_hash b = hash (bkt_key b)"
    and new: "\<nexists>v. (bkt_key b, v) \<in> ent t"
    and pred: "0 < dist bits b p \<Longrightarrow> \<exists>p'. p = Suc p' \<and> occ t p' \<and> dist bits b p \<le> Suc (dist bits (slot t p') p')"
    and nx: "occ t (Suc p) \<Longrightarrow> 0 < dist bits (slot t (Suc p)) (Suc p) \<Longrightarrow>
        dist bits (slot t (Suc p)) (Suc p) \<le> Suc (dist bits b p)"
  shows "table_wf bits (t[p mod 2 ^ bits := b])"
proof -
  have len: "length t = 2 ^ bits" and r: "rh bits t" using wf by (simp_all add: table_wf_def)
  have sl: "slot (t[p mod 2 ^ bits := b]) q = (if q mod 2 ^ bits = p mod 2 ^ bits then b else slot t q)" for q
    using slot_update [OF len] by simp
  have nk: "\<not> (occ t q \<and> bkt_key (slot t q) = bkt_key b)" for q
    using new ent_key_iff [of "bkt_key b" t] by blast
  have "rh bits (t[p mod 2 ^ bits := b])" by (rule rh_update [OF r len bits b(1) pred nx])
  moreover have "bkt_hash (slot (t[p mod 2 ^ bits := b]) q) = hash (bkt_key (slot (t[p mod 2 ^ bits := b]) q))"
    if "occ (t[p mod 2 ^ bits := b]) q" for q
    using that b(2) table_wf_hash [OF wf, of q]
    by (cases "q mod 2 ^ bits = p mod 2 ^ bits") (simp_all add: occ_def sl)
  moreover have "q mod 2 ^ bits = q' mod 2 ^ bits"
    if "occ (t[p mod 2 ^ bits := b]) q" "occ (t[p mod 2 ^ bits := b]) q'"
      "bkt_key (slot (t[p mod 2 ^ bits := b]) q) = bkt_key (slot (t[p mod 2 ^ bits := b]) q')" for q q'
  proof -
    have u: "occ t x \<Longrightarrow> occ t y \<Longrightarrow> bkt_key (slot t x) = bkt_key (slot t y) \<Longrightarrow> x mod 2 ^ bits = y mod 2 ^ bits" for x y
      by (rule table_wf_uniq [OF wf])
    have o: "x mod 2 ^ bits \<noteq> p mod 2 ^ bits \<Longrightarrow> occ (t[p mod 2 ^ bits := b]) x = occ t x" for x
      by (simp add: occ_def sl)
    consider "q mod 2 ^ bits = p mod 2 ^ bits" "q' mod 2 ^ bits = p mod 2 ^ bits"
      | "q mod 2 ^ bits = p mod 2 ^ bits" "q' mod 2 ^ bits \<noteq> p mod 2 ^ bits"
      | "q mod 2 ^ bits \<noteq> p mod 2 ^ bits" "q' mod 2 ^ bits = p mod 2 ^ bits"
      | "q mod 2 ^ bits \<noteq> p mod 2 ^ bits" "q' mod 2 ^ bits \<noteq> p mod 2 ^ bits" by blast
    then show ?thesis
    proof cases
      case 1
      then show ?thesis by simp
    next
      case 2
      then show ?thesis using that nk [of q'] o [of q'] by (simp add: sl)
    next
      case 3
      then show ?thesis using that nk [of q] o [of q] by (simp add: sl)
    next
      case 4
      then show ?thesis using that u [of q q'] o by (simp add: sl)
    qed
  qed
  ultimately show ?thesis using len by (simp add: table_wf_def)
qed

subsection \<open>Insertion\<close>

lemma insert_loop_step:
  assumes "ring_len bits len" "length t = 2 ^ bits" "unat idx = p mod 2 ^ bits"
  shows "insert_loop t len bits b idx d =
    (if \<not> occ t p then Some (0, t[p mod 2 ^ bits := b])
     else if dist bits (slot t p) p < d
     then insert_loop (t[p mod 2 ^ bits := b]) len bits (slot t p) (next_idx len idx) (Suc (dist bits (slot t p) p))
     else if bkt_key (slot t p) = bkt_key b then Some (NGHTTP2_ERR_INVALID_ARGUMENT, t)
     else insert_loop t len bits b (next_idx len idx) (Suc d))"
proof -
  have "t ! (p mod 2 ^ bits) = slot t p" using assms(2) by (simp add: slot_def)
  then show ?thesis
    by (subst insert_loop.simps)
      (simp only: Let_def assms(3) unat_distance [OF assms(1,3)] occ_def not_not Suc_eq_plus1)
qed

text \<open>The three cases of the probe: the slot is free, its owner is closer to home, or it is not.\<close>

definition carry_ok :: "nat \<Rightarrow> bucket list \<Rightarrow> bucket \<Rightarrow> nat \<Rightarrow> bool" where
  "carry_ok bits t b p \<longleftrightarrow>
     bkt_data b \<noteq> None \<and> bkt_hash b = hash (bkt_key b) \<and> (\<nexists>w. (bkt_key b, w) \<in> ent t) \<and>
     (0 < dist bits b p \<longrightarrow> (\<exists>p'. p = Suc p' \<and> occ t p' \<and> dist bits b p \<le> Suc (dist bits (slot t p') p')))"

lemma carry_put_free:
  assumes wf: "table_wf bits t" "1 \<le> bits" and c: "carry_ok bits t b p" and e: "\<not> occ t p"
  shows "table_wf bits (t[p mod 2 ^ bits := b])"
proof (rule table_wf_update [OF wf])
  show "dist bits (slot t (Suc p)) (Suc p) \<le> Suc (dist bits b p)"
    if "occ t (Suc p)" "0 < dist bits (slot t (Suc p)) (Suc p)"
    using that e wf(1) unfolding table_wf_def rh_def by blast
qed (use c in \<open>simp_all add: carry_ok_def\<close>)

lemma carry_swap:
  assumes wf: "table_wf bits t" "1 \<le> bits" and c: "carry_ok bits t b p" and o: "occ t p"
    and d: "dist bits (slot t p) p < dist bits b p"
  shows "table_wf bits (t[p mod 2 ^ bits := b])"
    and "dist bits (slot t p) (Suc p) = Suc (dist bits (slot t p) p)"
    and "carry_ok bits (t[p mod 2 ^ bits := b]) (slot t p) (Suc p)"
proof -
  let ?t = "t[p mod 2 ^ bits := b]"
  have len: "length t = 2 ^ bits" using wf by (simp add: table_wf_def)
  have sl: "slot ?t q = (if q mod 2 ^ bits = p mod 2 ^ bits then b else slot t q)" for q
    using slot_update [OF len] by simp
  show "table_wf bits ?t"
  proof (rule table_wf_update [OF wf])
    show "dist bits (slot t (Suc p)) (Suc p) \<le> Suc (dist bits b p)"
      if "occ t (Suc p)" "0 < dist bits (slot t (Suc p)) (Suc p)"
    proof -
      have "dist bits (slot t (Suc p)) (Suc p) \<le> Suc (dist bits (slot t p) p)"
        using that wf(1) unfolding table_wf_def rh_def by blast
      then show ?thesis using d by simp
    qed
  qed (use c in \<open>simp_all add: carry_ok_def\<close>)
  show ds: "dist bits (slot t p) (Suc p) = Suc (dist bits (slot t p) p)"
    using d dist_less [of bits b p] by (intro dist_Suc_small) linarith
  have "(bkt_key (slot t p), w) \<notin> ent ?t" for w
  proof
    assume "(bkt_key (slot t p), w) \<in> ent ?t"
    then obtain q where q: "bkt_key (slot ?t q) = bkt_key (slot t p)" "bkt_data (slot ?t q) = Some w"
      by (auto simp: ent_def)
    show False
    proof (cases "q mod 2 ^ bits = p mod 2 ^ bits")
      case True
      then have "bkt_key b = bkt_key (slot t p)" using q by (simp add: sl)
      then show False using c o ent_key_iff [of "bkt_key b" t] by (auto simp: carry_ok_def)
    next
      case False
      then show False using q o table_wf_uniq [OF wf(1), of q p] by (simp add: sl occ_def)
    qed
  qed
  moreover have "\<exists>p'. Suc p = Suc p' \<and> occ ?t p' \<and> dist bits (slot t p) (Suc p) \<le> Suc (dist bits (slot ?t p') p')"
    using c d ds by (intro exI [of _ p]) (simp add: occ_def sl carry_ok_def)
  ultimately show "carry_ok bits ?t (slot t p) (Suc p)"
    using o table_wf_hash [OF wf(1) o] by (simp add: carry_ok_def occ_def)
qed

lemma carry_on:
  assumes wf: "table_wf bits t" and c: "carry_ok bits t b p" and o: "occ t p" and x: "\<not> occ t x"
    and d: "dist bits b p \<le> dist bits (slot t p) p"
  shows "dist bits b (Suc p) = Suc (dist bits b p)" and "carry_ok bits t b (Suc p)"
proof -
  show ds: "dist bits b (Suc p) = Suc (dist bits b p)"
    using dist_not_full [OF wf x o] d by (intro dist_Suc_small) linarith
  have "\<exists>p'. Suc p = Suc p' \<and> occ t p' \<and> dist bits b (Suc p) \<le> Suc (dist bits (slot t p') p')"
    using o d ds by (intro exI [of _ p]) simp
  then show "carry_ok bits t b (Suc p)" using c by (simp add: carry_ok_def)
qed

lemma insert_loop_new:
  assumes r: "ring_len bits len" and b1: "1 \<le> bits"
  shows "\<lbrakk>table_wf bits t; unat idx = p mod 2 ^ bits; bkt_data b = Some v; carry_ok bits t b p;
      \<not> occ t (p + e)\<rbrakk>
    \<Longrightarrow> \<exists>t'. insert_loop t len bits b idx (dist bits b p) = Some (0, t') \<and> table_wf bits t' \<and>
          ent t' = insert (bkt_key b, v) (ent t) \<and> used t' = Suc (used t)"
proof (induction e arbitrary: t idx p b v)
  case 0
  have len: "length t = 2 ^ bits" by (rule table_wf_len [OF 0(1)])
  have e: "\<not> occ t p" using 0(5) by simp
  have u: "used (t[p mod 2 ^ bits := b]) = Suc (used t)"
    using used_update [of "p mod 2 ^ bits" t b] len e 0(3) by (simp add: occ_def slot_def)
  show ?case
    using insert_loop_step [OF r len 0(2), of b] e carry_put_free [OF 0(1) b1 0(4) e]
      ent_update_empty [OF len e 0(3)] u by simp
next
  case (Suc e)
  note wf = Suc.prems(1) and idx = Suc.prems(2) and bv = Suc.prems(3) and c = Suc.prems(4) and x = Suc.prems(5)
  have len: "length t = 2 ^ bits" by (rule table_wf_len [OF wf])
  have nidx: "unat (next_idx len idx) = Suc p mod 2 ^ bits" by (rule unat_next_idx [OF r idx])
  note step = insert_loop_step [OF r len idx, of b]
  consider "\<not> occ t p" | "occ t p" "dist bits (slot t p) p < dist bits b p"
    | "occ t p" "dist bits b p \<le> dist bits (slot t p) p" by linarith
  then show ?case
  proof cases
    case 1
    have u: "used (t[p mod 2 ^ bits := b]) = Suc (used t)"
      using used_update [of "p mod 2 ^ bits" t b] len 1 bv by (simp add: occ_def slot_def)
    show ?thesis
      using step 1 carry_put_free [OF wf b1 c 1] ent_update_empty [OF len 1 bv] u by simp
  next
    case 2
    let ?t = "t[p mod 2 ^ bits := b]"
    obtain w where w: "bkt_data (slot t p) = Some w" using 2(1) by (auto simp: occ_def)
    note sw = carry_swap [OF wf b1 c 2]
    have "\<not> occ ?t (Suc p + e)"
      using x 2(1) occ_cong [of "p + Suc e" t p] len slot_update [OF len, of p b "p + Suc e"]
      by (auto simp: occ_def)
    from Suc.IH [OF sw(1) nidx w sw(3) this] sw(2) step 2
    obtain t' where t': "insert_loop t len bits b idx (dist bits b p) = Some (0, t')" "table_wf bits t'"
      "ent t' = insert (bkt_key (slot t p), w) (ent ?t)" "used t' = Suc (used ?t)" by auto
    have "used ?t = used t"
      using used_update [of "p mod 2 ^ bits" t b] len w bv by (simp add: slot_def)
    with t' ent_update_swap [OF wf w bv] show ?thesis by auto
  next
    case 3
    note on = carry_on [OF wf c 3(1) x 3(2)]
    have "bkt_key (slot t p) \<noteq> bkt_key b"
      using c 3(1) ent_key_iff [of "bkt_key b" t] by (auto simp: carry_ok_def)
    moreover have "\<not> occ t (Suc p + e)" using x by simp
    ultimately show ?thesis
      using Suc.IH [OF wf nidx bv on(2)] on(1) step 3 by auto
  qed
qed

subsection \<open>Where a key is\<close>

lemma key_position:
  assumes wf: "table_wf bits t" and b: "bits \<le> 32" and k: "(k, v) \<in> ent t"
  obtains m where "m < 2 ^ bits" "bkt_key (slot t (home bits (hash k) + m)) = k"
    "bkt_data (slot t (home bits (hash k) + m)) = Some v"
    "dist bits (slot t (home bits (hash k) + m)) (home bits (hash k) + m) = m"
proof -
  obtain q where q: "bkt_key (slot t q) = k" "bkt_data (slot t q) = Some v"
    using k by (auto simp: ent_def)
  define m where "m = dist bits (slot t q) q"
  have h: "bkt_hash (slot t q) = hash k"
    using table_wf_hash [OF wf, of q] q by (simp add: occ_def)
  have m: "m < 2 ^ bits" by (simp add: m_def dist_less)
  have "(home bits (hash k) + m) mod 2 ^ bits = q mod 2 ^ bits"
    using dist_home_ex [OF b, of "slot t q" q] by (simp add: m_def h)
  then have s: "slot t (home bits (hash k) + m) = slot t q"
    using table_wf_len [OF wf] by (intro slot_cong) simp
  have "dist bits (slot t q) (home bits (hash k) + m) = m"
    using dist_home [OF b m, of "slot t q"] by (simp add: h)
  with that [OF m] q s show ?thesis by simp
qed

text \<open>On the way from the home of a present key to its slot, nothing stops the probe.\<close>

lemma probe_path:
  assumes wf: "table_wf bits t" and o: "bkt_key (slot t (H + m)) = k" "bkt_data (slot t (H + m)) = Some v"
    "dist bits (slot t (H + m)) (H + m) = m" and m: "m < 2 ^ bits" and d: "d < m"
  shows "occ t (H + d)" "d \<le> dist bits (slot t (H + d)) (H + d)" "bkt_key (slot t (H + d)) \<noteq> k"
proof -
  have om: "occ t (H + m)" using o by (simp add: occ_def)
  show p: "occ t (H + d)" "d \<le> dist bits (slot t (H + d)) (H + d)"
    using rh_chain [OF table_wf_rh [OF wf] om, of d] o d by simp_all
  show "bkt_key (slot t (H + d)) \<noteq> k"
  proof
    assume "bkt_key (slot t (H + d)) = k"
    then have e: "(H + d) mod 2 ^ bits = (H + m) mod 2 ^ bits" using table_wf_uniq [OF wf p(1) om] o by simp
    have "(H + m) mod 2 ^ bits = (H + d + (m - d)) mod 2 ^ bits" using d by simp
    moreover have "(H + d + (m - d)) mod 2 ^ bits = (H + d) mod 2 ^ bits \<Longrightarrow> (2 :: nat) ^ bits dvd m - d"
      by (metis add_diff_cancel_left' mod_eq_dvd_iff_nat le_add1)
    ultimately have "(2 :: nat) ^ bits dvd m - d" using e by simp
    then show False using d m by (auto dest: dvd_imp_le)
  qed
qed

lemma find_loop_step:
  assumes "ring_len bits len" "length t = 2 ^ bits" "unat idx = p mod 2 ^ bits"
  shows "find_loop t len bits k idx d =
    (if \<not> occ t p \<or> dist bits (slot t p) p < d then Some None
     else if bkt_key (slot t p) = k then Some (bkt_data (slot t p))
     else find_loop t len bits k (next_idx len idx) (Suc d))"
proof -
  have "t ! (p mod 2 ^ bits) = slot t p" using assms(2) by (simp add: slot_def)
  then show ?thesis
    by (subst find_loop.simps)
      (simp only: Let_def assms(3) unat_distance [OF assms(1,3)] occ_def not_not Suc_eq_plus1)
qed

lemma find_loop_present:
  assumes r: "ring_len bits len" and wf: "table_wf bits t"
    and o: "bkt_key (slot t (H + m)) = k" "bkt_data (slot t (H + m)) = Some v"
      "dist bits (slot t (H + m)) (H + m) = m" and m: "m < 2 ^ bits"
  shows "d \<le> m \<Longrightarrow> unat idx = (H + d) mod 2 ^ bits \<Longrightarrow> find_loop t len bits k idx d = Some (Some v)"
proof (induction "m - d" arbitrary: d idx)
  case 0
  then have "d = m" by simp
  then show ?case using find_loop_step [OF r table_wf_len [OF wf] 0(3), of k d] o by (simp add: occ_def)
next
  case (Suc x)
  then have d: "d < m" by simp
  note pp = probe_path [OF wf o m d]
  have "find_loop t len bits k (next_idx len idx) (Suc d) = Some (Some v)"
    using Suc d unat_next_idx [OF r Suc.prems(2)] by (intro Suc.hyps) auto
  then show ?case using find_loop_step [OF r table_wf_len [OF wf] Suc.prems(2), of k d] pp by simp
qed

lemma find_loop_absent:
  assumes r: "ring_len bits len" and wf: "table_wf bits t" and k: "\<nexists>v. (k, v) \<in> ent t"
  shows "\<not> occ t (p + e) \<Longrightarrow> unat idx = p mod 2 ^ bits \<Longrightarrow> find_loop t len bits k idx d = Some None"
proof (induction e arbitrary: p d idx)
  case 0
  then show ?case using find_loop_step [OF r table_wf_len [OF wf] 0(2), of k d] by simp
next
  case (Suc e)
  have "occ t p \<Longrightarrow> bkt_key (slot t p) \<noteq> k" using k ent_key_iff [of k t] by blast
  moreover have "find_loop t len bits k (next_idx len idx) (Suc d) = Some None"
    using Suc.prems unat_next_idx [OF r Suc.prems(2)] by (intro Suc.IH [of "Suc p"]) auto
  ultimately show ?case using find_loop_step [OF r table_wf_len [OF wf] Suc.prems(2), of k d] by simp
qed

lemma insert_loop_dup:
  assumes r: "ring_len bits len" and wf: "table_wf bits t"
    and o: "bkt_key (slot t (H + m)) = bkt_key b" "bkt_data (slot t (H + m)) = Some v"
      "dist bits (slot t (H + m)) (H + m) = m" and m: "m < 2 ^ bits"
  shows "d \<le> m \<Longrightarrow> unat idx = (H + d) mod 2 ^ bits \<Longrightarrow>
    insert_loop t len bits b idx d = Some (NGHTTP2_ERR_INVALID_ARGUMENT, t)"
proof (induction "m - d" arbitrary: d idx)
  case 0
  then have "d = m" by simp
  then show ?case using insert_loop_step [OF r table_wf_len [OF wf] 0(3), of b d] o by (simp add: occ_def)
next
  case (Suc x)
  then have d: "d < m" by simp
  note pp = probe_path [OF wf o m d]
  have "insert_loop t len bits b (next_idx len idx) (Suc d) = Some (NGHTTP2_ERR_INVALID_ARGUMENT, t)"
    using Suc d unat_next_idx [OF r Suc.prems(2)] by (intro Suc.hyps) auto
  then show ?case using insert_loop_step [OF r table_wf_len [OF wf] Suc.prems(2), of b d] pp by simp
qed

subsection \<open>Removal\<close>

text \<open>
  During the backward shift the table has a hole at \<open>g\<close>, and the slot after it may be displaced.
  \<open>v\<close> is the distance of the bucket that was last in the hole.
\<close>

definition table_hole :: "nat \<Rightarrow> bucket list \<Rightarrow> nat \<Rightarrow> nat \<Rightarrow> bool" where
  "table_hole bits t g v \<longleftrightarrow> length t = 2 ^ bits \<and> \<not> occ t g \<and>
     (\<forall>p. occ t p \<longrightarrow> bkt_hash (slot t p) = hash (bkt_key (slot t p))) \<and>
     (\<forall>p q. occ t p \<and> occ t q \<and> bkt_key (slot t p) = bkt_key (slot t q) \<longrightarrow>
        p mod 2 ^ bits = q mod 2 ^ bits) \<and>
     (\<forall>p. p mod 2 ^ bits \<noteq> g mod 2 ^ bits \<and> occ t (Suc p) \<and> 0 < dist bits (slot t (Suc p)) (Suc p) \<longrightarrow>
        occ t p \<and> dist bits (slot t (Suc p)) (Suc p) \<le> Suc (dist bits (slot t p) p)) \<and>
     (0 < v \<longrightarrow> (\<exists>g'. Suc g' mod 2 ^ bits = g mod 2 ^ bits \<and> occ t g' \<and> v \<le> Suc (dist bits (slot t g') g'))) \<and>
     (occ t (Suc g) \<and> 0 < dist bits (slot t (Suc g)) (Suc g) \<longrightarrow> dist bits (slot t (Suc g)) (Suc g) \<le> Suc v)"

lemma table_holeD:
  assumes "table_hole bits t g v"
  shows "length t = 2 ^ bits" "\<not> occ t g"
    and "occ t p \<Longrightarrow> bkt_hash (slot t p) = hash (bkt_key (slot t p))"
    and "occ t p \<Longrightarrow> occ t q \<Longrightarrow> bkt_key (slot t p) = bkt_key (slot t q) \<Longrightarrow> p mod 2 ^ bits = q mod 2 ^ bits"
    and "p mod 2 ^ bits \<noteq> g mod 2 ^ bits \<Longrightarrow> occ t (Suc p) \<Longrightarrow> 0 < dist bits (slot t (Suc p)) (Suc p) \<Longrightarrow>
        occ t p \<and> dist bits (slot t (Suc p)) (Suc p) \<le> Suc (dist bits (slot t p) p)"
    and "0 < v \<Longrightarrow> \<exists>g'. Suc g' mod 2 ^ bits = g mod 2 ^ bits \<and> occ t g' \<and> v \<le> Suc (dist bits (slot t g') g')"
    and "occ t (Suc g) \<Longrightarrow> 0 < dist bits (slot t (Suc g)) (Suc g) \<Longrightarrow> dist bits (slot t (Suc g)) (Suc g) \<le> Suc v"
  using assms unfolding table_hole_def by blast+

lemma table_hole_done:
  assumes h: "table_hole bits t g v" and e: "\<not> occ t (Suc g) \<or> dist bits (slot t (Suc g)) (Suc g) = 0"
  shows "table_wf bits t"
proof -
  have "rh bits t" unfolding rh_def
  proof (intro allI impI)
    fix p assume *: "occ t (Suc p) \<and> 0 < dist bits (slot t (Suc p)) (Suc p)"
    have "p mod 2 ^ bits \<noteq> g mod 2 ^ bits"
    proof
      assume "p mod 2 ^ bits = g mod 2 ^ bits"
      then have m: "Suc p mod 2 ^ bits = Suc g mod 2 ^ bits" by (simp add: Suc_mod_inj)
      then have "slot t (Suc p) = slot t (Suc g)" "occ t (Suc p) = occ t (Suc g)"
        using table_holeD(1) [OF h] slot_cong [of "Suc p" t "Suc g"] occ_cong [of "Suc p" t "Suc g"] by simp_all
      then show False using * e dist_cong [OF m] by simp
    qed
    then show "occ t p \<and> dist bits (slot t (Suc p)) (Suc p) \<le> Suc (dist bits (slot t p) p)"
      using table_holeD(5) [OF h] * by blast
  qed
  then show ?thesis using h unfolding table_hole_def table_wf_def by blast
qed

lemma hole_move:
  assumes h: "table_hole bits t g v" and b2: "2 \<le> bits"
    and o: "occ t (Suc g)" and d: "0 < dist bits (slot t (Suc g)) (Suc g)"
  defines "t' \<equiv> t[g mod 2 ^ bits := slot t (Suc g), Suc g mod 2 ^ bits := empty_bucket]"
  shows "table_hole bits t' (Suc g) (dist bits (slot t (Suc g)) (Suc g))"
    and "ent t' = ent t" and "used t' = used t"
    and "q mod 2 ^ bits \<noteq> g mod 2 ^ bits \<Longrightarrow> q mod 2 ^ bits \<noteq> Suc g mod 2 ^ bits \<Longrightarrow> occ t' q = occ t q"
proof -
  let ?n = "2 ^ bits :: nat" and ?b = "slot t (Suc g)"
  have len: "length t = ?n" by (rule table_holeD(1) [OF h])
  have "(2 :: nat) ^ 2 \<le> 2 ^ bits" using b2 by (rule power_increasing) simp
  then have n4: "4 \<le> ?n" by simp
  have ne: "Suc g mod ?n \<noteq> g mod ?n" using n4 by (intro Suc_mod_neq) simp
  have ne2: "Suc (Suc g) mod ?n \<noteq> g mod ?n"
  proof
    assume "Suc (Suc g) mod ?n = g mod ?n"
    then have "?n dvd 2" by (metis add_2_eq_Suc diff_add_inverse2 le_add2 mod_eq_dvd_iff_nat)
    then show False using n4 by (auto dest: dvd_imp_le)
  qed
  have sl: "slot t' q = (if q mod ?n = Suc g mod ?n then empty_bucket
      else if q mod ?n = g mod ?n then ?b else slot t q)" for q
  proof -
    have "slot t' q = (if q mod ?n = Suc g mod ?n then empty_bucket else slot (t[g mod ?n := ?b]) q)"
      unfolding t'_def by (rule slot_update) (simp_all add: len)
    then show ?thesis using slot_update [OF len, of g ?b q] by simp
  qed
  have oc: "occ t' q \<longleftrightarrow> q mod ?n \<noteq> Suc g mod ?n \<and> (q mod ?n = g mod ?n \<or> occ t q)" for q
    using o by (auto simp: occ_def sl empty_bucket_def)
  show "occ t' q = occ t q" if "q mod ?n \<noteq> g mod ?n" "q mod ?n \<noteq> Suc g mod ?n"
    using that by (simp add: oc)
  have db: "dist bits ?b (Suc g) = Suc (dist bits ?b g)" by (rule dist_Suc_pos [OF d])
  define f where "f q = (if q mod ?n = g mod ?n then Suc g else q)" for q
  have sf: "slot t' q = slot t (f q)" "occ t (f q)" if "occ t' q" for q
    using that o by (auto simp: sl oc f_def)
  have hash': "bkt_hash (slot t' q) = hash (bkt_key (slot t' q))" if "occ t' q" for q
    using sf [OF that] table_holeD(3) [OF h, of "f q"] by simp
  have uniq': "q mod ?n = q' mod ?n"
    if "occ t' q" "occ t' q'" "bkt_key (slot t' q) = bkt_key (slot t' q')" for q q'
  proof -
    have "f q mod ?n = f q' mod ?n"
      using that sf [OF that(1)] sf [OF that(2)] table_holeD(4) [OF h, of "f q" "f q'"] by simp
    then show ?thesis using that(1,2) by (auto simp: f_def oc split: if_splits)
  qed
  have rh': "occ t' q \<and> dist bits (slot t' (Suc q)) (Suc q) \<le> Suc (dist bits (slot t' q) q)"
    if q: "q mod ?n \<noteq> Suc g mod ?n" "occ t' (Suc q)" "0 < dist bits (slot t' (Suc q)) (Suc q)" for q
  proof -
    have qg: "q mod ?n \<noteq> g mod ?n" using q(2) by (auto simp: oc Suc_mod_inj)
    show ?thesis
    proof (cases "Suc q mod ?n = g mod ?n")
      case False
      then show ?thesis using q qg table_holeD(5) [OF h qg] Suc_mod_inj [of q ?n g] by (simp add: sl oc)
    next
      case True
      then have s: "slot t' (Suc q) = ?b" using ne by (simp add: sl)
      have dq: "dist bits ?b (Suc q) = dist bits ?b g" using True by (rule dist_cong)
      have v: "Suc (dist bits ?b g) \<le> Suc v" "0 < dist bits ?b g"
        using table_holeD(7) [OF h o d] db q(3) s dq by simp_all
      then obtain g' where g': "Suc g' mod ?n = g mod ?n" "occ t g'" "v \<le> Suc (dist bits (slot t g') g')"
        using table_holeD(6) [OF h] by auto
      then have qg': "q mod ?n = g' mod ?n" using Suc_mod_inj [of q ?n g'] True by metis
      then have "slot t q = slot t g'" "occ t q"
        using g'(2) len slot_cong [of q t g'] occ_cong [of q t g'] by simp_all
      then show ?thesis using s dq v g'(3) q(1) qg dist_cong [OF qg'] by (simp add: sl oc)
    qed
  qed
  have pred': "\<exists>g'. Suc g' mod ?n = Suc g mod ?n \<and> occ t' g' \<and>
      dist bits ?b (Suc g) \<le> Suc (dist bits (slot t' g') g')"
    using ne db by (intro exI [of _ g]) (simp add: oc sl)
  have next': "dist bits (slot t' (Suc (Suc g))) (Suc (Suc g)) \<le> Suc (dist bits ?b (Suc g))"
    if "occ t' (Suc (Suc g))" "0 < dist bits (slot t' (Suc (Suc g))) (Suc (Suc g))"
    using that ne ne2 table_holeD(5) [OF h ne] by (auto simp: sl oc split: if_splits)
  show "table_hole bits t' (Suc g) (dist bits ?b (Suc g))"
  proof -
    have "length t' = ?n" "\<not> occ t' (Suc g)" using len oc [of "Suc g"] by (simp_all add: t'_def)
    then show ?thesis unfolding table_hole_def
      by (intro conjI allI impI; (elim conjE)?) (blast intro: hash' uniq' pred' next' dest: rh')+
  qed
  show "ent t' = ent t"
  proof (intro set_eqI iffI)
    fix x assume "x \<in> ent t'"
    then obtain q where q: "bkt_key (slot t' q) = fst x" "bkt_data (slot t' q) = Some (snd x)"
      by (auto simp: ent_def)
    then have "slot t' q = slot t (f q)" using sf [of q] by (simp add: occ_def)
    then show "x \<in> ent t" using q by (auto simp: ent_def)
  next
    fix x assume "x \<in> ent t"
    then obtain q where q: "bkt_key (slot t q) = fst x" "bkt_data (slot t q) = Some (snd x)"
      by (auto simp: ent_def)
    have "q mod ?n \<noteq> g mod ?n"
      using q(2) table_holeD(2) [OF h] occ_cong [of q t g] len by (auto simp: occ_def)
    then have "slot t q = slot t' (if q mod ?n = Suc g mod ?n then g else q)"
      using ne slot_cong [of q t "Suc g"] len by (simp add: sl)
    then show "x \<in> ent t'" using q by (auto simp: ent_def)
  qed
  show "used t' = used t"
  proof -
    have "used (t[g mod ?n := ?b]) = Suc (used t)"
      using used_update [of "g mod ?n" t ?b] table_holeD(2) [OF h] o len by (simp add: occ_def slot_def)
    moreover have "t[g mod ?n := ?b] ! (Suc g mod ?n) = ?b" using ne len by (simp add: slot_def)
    ultimately show ?thesis
      using used_update [of "Suc g mod ?n" "t[g mod ?n := ?b]" empty_bucket] o len
      by (simp add: t'_def occ_def empty_bucket_def)
  qed
qed

lemma shift_loop_step:
  assumes "ring_len bits len" "length t = 2 ^ bits"
    "unat didx = g mod 2 ^ bits" "unat idx = Suc g mod 2 ^ bits"
  shows "shift_loop t len bits didx idx =
    (if \<not> occ t (Suc g) \<or> dist bits (slot t (Suc g)) (Suc g) = 0 then Some t
     else shift_loop (t[g mod 2 ^ bits := slot t (Suc g), Suc g mod 2 ^ bits := empty_bucket]) len bits
            idx (next_idx len idx))"
proof -
  have "t ! (Suc g mod 2 ^ bits) = slot t (Suc g)" using assms(2) by (simp add: slot_def)
  moreover have "distance len bits (slot t (Suc g)) idx = 0 \<longleftrightarrow> dist bits (slot t (Suc g)) (Suc g) = 0"
    using unat_distance [OF assms(1,4), of "slot t (Suc g)"] unsigned_eq_0_iff by metis
  ultimately show ?thesis
    by (subst shift_loop.simps) (simp only: Let_def assms(3,4) occ_def not_not)
qed

lemma shift_loop_ok:
  assumes r: "ring_len bits len" and b2: "2 \<le> bits"
  shows "\<lbrakk>table_hole bits t g v; unat didx = g mod 2 ^ bits; unat idx = Suc g mod 2 ^ bits;
      \<not> occ t (Suc g + e); Suc e < 2 ^ bits\<rbrakk>
    \<Longrightarrow> \<exists>t'. shift_loop t len bits didx idx = Some t' \<and> table_wf bits t' \<and> ent t' = ent t \<and> used t' = used t"
proof (induction e arbitrary: t g v didx idx)
  case 0
  then have e: "\<not> occ t (Suc g)" by simp
  then show ?case
    using shift_loop_step [OF r table_holeD(1) [OF 0(1)] 0(2,3)] table_hole_done [OF 0(1)] by simp
next
  case (Suc e)
  note h = Suc.prems(1)
  note step = shift_loop_step [OF r table_holeD(1) [OF h] Suc.prems(2,3)]
  show ?case
  proof (cases "\<not> occ t (Suc g) \<or> dist bits (slot t (Suc g)) (Suc g) = 0")
    case True
    then show ?thesis using step table_hole_done [OF h] by simp
  next
    case False
    let ?n = "2 ^ bits :: nat"
    let ?t = "t[g mod ?n := slot t (Suc g), Suc g mod ?n := empty_bucket]"
    have o: "occ t (Suc g)" "0 < dist bits (slot t (Suc g)) (Suc g)" using False by auto
    note mv = hole_move [OF h b2 o]
    have far: "(Suc g + Suc e) mod ?n \<noteq> g mod ?n" "(Suc g + Suc e) mod ?n \<noteq> Suc g mod ?n"
      using ring_far [of "Suc (Suc e)" ?n g] ring_far [of "Suc e" ?n "Suc g"] Suc.prems(5) by simp_all
    have "\<not> occ ?t (Suc (Suc g) + e)" using mv(4) [OF far] Suc.prems(4) by simp
    from Suc.IH [OF mv(1) Suc.prems(3) unat_next_idx [OF r Suc.prems(3)] this] Suc.prems(5)
    obtain t' where "shift_loop ?t len bits idx (next_idx len idx) = Some t'" "table_wf bits t'"
      "ent t' = ent ?t" "used t' = used ?t" by auto
    then show ?thesis using step False mv(2,3) by simp
  qed
qed

lemma hole_start:
  assumes wf: "table_wf bits t" and b1: "1 \<le> bits" and o: "occ t p"
  shows "table_hole bits (t[p mod 2 ^ bits := empty_bucket]) p (dist bits (slot t p) p)"
proof -
  let ?n = "2 ^ bits :: nat" and ?t = "t[p mod 2 ^ bits := empty_bucket]"
  have len: "length t = ?n" by (rule table_wf_len [OF wf])
  have n2: "2 \<le> ?n" using b1 by (cases bits) auto
  have sl: "slot ?t q = (if q mod ?n = p mod ?n then empty_bucket else slot t q)" for q
    using slot_update [OF len] by simp
  have oc: "occ ?t q \<longleftrightarrow> q mod ?n \<noteq> p mod ?n \<and> occ t q" for q
    by (simp add: occ_def sl)
  have r: "occ t q \<and> dist bits (slot t (Suc q)) (Suc q) \<le> Suc (dist bits (slot t q) q)"
    if "occ t (Suc q)" "0 < dist bits (slot t (Suc q)) (Suc q)" for q
    using table_wf_rh [OF wf] that unfolding rh_def by blast
  define g' where "g' = p + (?n - 1)"
  have g': "Suc g' mod ?n = p mod ?n" using n2 by (simp add: g'_def)
  have gp: "g' mod ?n \<noteq> p mod ?n" using g' Suc_mod_neq [OF n2, of g'] by metis
  have sg: "slot t (Suc g') = slot t p" "occ t (Suc g')"
    using g' len o slot_cong [of "Suc g'" t p] occ_cong [of "Suc g'" t p] by simp_all
  have pred: "\<exists>g'. Suc g' mod ?n = p mod ?n \<and> occ ?t g' \<and>
      dist bits (slot t p) p \<le> Suc (dist bits (slot ?t g') g')" if "0 < dist bits (slot t p) p"
    using r [of g'] that sg gp g' dist_cong [OF g', of "slot t p"]
    by (intro exI [of _ g']) (simp add: oc sl)
  have nx: "dist bits (slot ?t (Suc p)) (Suc p) \<le> Suc (dist bits (slot t p) p)"
    if "occ ?t (Suc p)" "0 < dist bits (slot ?t (Suc p)) (Suc p)"
    using that r [of p] by (simp add: oc sl)
  have rh': "occ ?t q \<and> dist bits (slot ?t (Suc q)) (Suc q) \<le> Suc (dist bits (slot ?t q) q)"
    if "q mod ?n \<noteq> p mod ?n" "occ ?t (Suc q)" "0 < dist bits (slot ?t (Suc q)) (Suc q)" for q
    using that r [of q] by (simp add: oc sl)
  have hash': "bkt_hash (slot ?t q) = hash (bkt_key (slot ?t q))" if "occ ?t q" for q
    using that table_wf_hash [OF wf, of q] by (simp add: oc sl)
  have uniq': "q mod ?n = q' mod ?n"
    if "occ ?t q" "occ ?t q'" "bkt_key (slot ?t q) = bkt_key (slot ?t q')" for q q'
    using that table_wf_uniq [OF wf, of q q'] by (simp add: oc sl)
  have "length ?t = ?n" "\<not> occ ?t p" using len oc [of p] by simp_all
  then show ?thesis unfolding table_hole_def
    by (intro conjI allI impI; (elim conjE)?) (blast intro: hash' uniq' pred nx dest: rh')+
qed

lemma ent_delete:
  assumes wf: "table_wf bits t" and p: "bkt_key (slot t p) = k" "bkt_data (slot t p) = Some v"
  shows "ent (t[p mod 2 ^ bits := empty_bucket]) = {x \<in> ent t. fst x \<noteq> k}"
proof -
  let ?n = "2 ^ bits :: nat" and ?t = "t[p mod 2 ^ bits := empty_bucket]"
  have len: "length t = ?n" by (rule table_wf_len [OF wf])
  have sl: "slot ?t q = (if q mod ?n = p mod ?n then empty_bucket else slot t q)" for q
    using slot_update [OF len] by simp
  have k: "bkt_key (slot t q) \<noteq> k \<longleftrightarrow> q mod ?n \<noteq> p mod ?n" if "bkt_data (slot t q) = Some w" for q w
    using that p table_wf_uniq [OF wf, of q p] slot_cong [of q t p] len by (auto simp: occ_def)
  show ?thesis
    using k by (auto simp: ent_def sl split: if_splits) blast
qed

lemma remove_loop_step:
  assumes "ring_len bits len" "length t = 2 ^ bits" "unat idx = p mod 2 ^ bits"
  shows "remove_loop t len bits k idx d =
    (if \<not> occ t p \<or> dist bits (slot t p) p < d then Some (NGHTTP2_ERR_INVALID_ARGUMENT, t)
     else if bkt_key (slot t p) = k then
       (case shift_loop (t[p mod 2 ^ bits := empty_bucket]) len bits idx (next_idx len idx) of
          None \<Rightarrow> None | Some t' \<Rightarrow> Some (0, t'))
     else remove_loop t len bits k (next_idx len idx) (Suc d))"
proof -
  have "t ! (p mod 2 ^ bits) = slot t p" using assms(2) by (simp add: slot_def)
  then show ?thesis
    by (subst remove_loop.simps)
      (simp only: Let_def assms(3) unat_distance [OF assms(1,3)] occ_def not_not Suc_eq_plus1)
qed

lemma remove_loop_present:
  assumes r: "ring_len bits len" and b2: "2 \<le> bits" and wf: "table_wf bits t" and x: "used t < length t"
    and o: "bkt_key (slot t (H + m)) = k" "bkt_data (slot t (H + m)) = Some v"
      "dist bits (slot t (H + m)) (H + m) = m" and m: "m < 2 ^ bits"
  shows "d \<le> m \<Longrightarrow> unat idx = (H + d) mod 2 ^ bits \<Longrightarrow>
    \<exists>t'. remove_loop t len bits k idx d = Some (0, t') \<and> table_wf bits t' \<and>
      ent t' = {x \<in> ent t. fst x \<noteq> k} \<and> Suc (used t') = used t"
proof (induction "m - d" arbitrary: d idx)
  case 0
  let ?n = "2 ^ bits :: nat" and ?p = "H + m" and ?t = "t[(H + m) mod 2 ^ bits := empty_bucket]"
  have d: "d = m" using 0 by simp
  have len: "length t = ?n" by (rule table_wf_len [OF wf])
  have idx: "unat idx = ?p mod ?n" using 0 d by simp
  have om: "occ t ?p" using o by (simp add: occ_def)
  obtain y where y: "\<not> occ t y" using ex_empty [OF x] by blast
  obtain e where e: "e < ?n" "(Suc ?p + e) mod ?n = y mod ?n" using ring_reach [of ?n "Suc ?p" y] by auto
  have ye: "\<not> occ t (Suc ?p + e)" using y e(2) len occ_cong [of "Suc ?p + e" t y] by simp
  have "Suc e \<noteq> ?n"
  proof
    assume "Suc e = ?n"
    then have "(Suc ?p + e) mod ?n = ?p mod ?n" by (metis add_Suc_shift mod_add_self2)
    then show False using ye om occ_cong [of "Suc ?p + e" t ?p] len by simp
  qed
  then have e': "Suc e < ?n" using e(1) by simp
  have "\<not> occ ?t (Suc ?p + e)"
    using ye slot_update [OF len, of ?p empty_bucket "Suc ?p + e"] by (simp add: occ_def)
  moreover have "table_hole bits ?t ?p m" using hole_start [OF wf _ om] b2 o(3) by simp
  ultimately obtain t' where t': "shift_loop ?t len bits idx (next_idx len idx) = Some t'"
    "table_wf bits t'" "ent t' = ent ?t" "used t' = used ?t"
    using shift_loop_ok [OF r b2 _ idx unat_next_idx [OF r idx] _ e'] by blast
  have "Suc (used ?t) = used t"
    using used_update [of "?p mod ?n" t empty_bucket] om len by (simp add: occ_def slot_def)
  moreover have "ent t' = {x \<in> ent t. fst x \<noteq> k}" using t'(3) ent_delete [OF wf o(1,2)] by simp
  ultimately show ?case using remove_loop_step [OF r len idx, of k d] t' om o d by simp
next
  case (Suc z)
  then have d: "d < m" by simp
  note pp = probe_path [OF wf o m d]
  have "\<exists>t'. remove_loop t len bits k (next_idx len idx) (Suc d) = Some (0, t') \<and> table_wf bits t' \<and>
      ent t' = {x \<in> ent t. fst x \<noteq> k} \<and> Suc (used t') = used t"
    using Suc d unat_next_idx [OF r Suc.prems(2)] by (intro Suc.hyps) auto
  then show ?case using remove_loop_step [OF r table_wf_len [OF wf] Suc.prems(2), of k d] pp by simp
qed

lemma remove_loop_absent:
  assumes r: "ring_len bits len" and wf: "table_wf bits t" and k: "\<nexists>v. (k, v) \<in> ent t"
  shows "\<not> occ t (p + e) \<Longrightarrow> unat idx = p mod 2 ^ bits \<Longrightarrow>
    remove_loop t len bits k idx d = Some (NGHTTP2_ERR_INVALID_ARGUMENT, t)"
proof (induction e arbitrary: p d idx)
  case 0
  then show ?case using remove_loop_step [OF r table_wf_len [OF wf] 0(2), of k d] by simp
next
  case (Suc e)
  have "occ t p \<Longrightarrow> bkt_key (slot t p) \<noteq> k" using k ent_key_iff [of k t] by blast
  moreover have "remove_loop t len bits k (next_idx len idx) (Suc d) = Some (NGHTTP2_ERR_INVALID_ARGUMENT, t)"
    using Suc.prems unat_next_idx [OF r Suc.prems(2)] by (intro Suc.IH [of "Suc p"]) auto
  ultimately show ?case using remove_loop_step [OF r table_wf_len [OF wf] Suc.prems(2), of k d] by simp
qed

lemma empty_ahead:
  assumes wf: "table_wf bits t" and x: "used t < length t"
  obtains e where "\<not> occ t (p + e)"
proof -
  obtain y where y: "\<not> occ t y" using ex_empty [OF x] by blast
  obtain e where "(p + e) mod 2 ^ bits = y mod 2 ^ bits" using ring_reach [of "2 ^ bits" p y] by auto
  then show ?thesis using y that [of e] table_wf_len [OF wf] occ_cong [of "p + e" t y] by simp
qed

subsection \<open>One table\<close>

lemma table_insert_new:
  assumes r: "ring_len bits len" and wf: "table_wf bits t" and x: "used t < length t"
    and k: "\<nexists>w. (k, w) \<in> ent t"
  shows "\<exists>t'. table_insert t len bits (hash k) k (Some v) = Some (0, t') \<and> table_wf bits t' \<and>
    ent t' = insert (k, v) (ent t) \<and> used t' = Suc (used t)"
proof -
  let ?b = "\<lparr>bkt_hash = hash k, bkt_key = k, bkt_data = Some v\<rparr>" and ?H = "home bits (hash k)"
  have b: "1 \<le> bits" "bits \<le> 32" using r by (simp_all add: ring_len_def)
  obtain e where e: "\<not> occ t (?H + e)" using empty_ahead [OF wf x] .
  have d: "dist bits ?b ?H = 0" using dist_home [OF b(2), of 0 ?b] by simp
  have i: "unat (h2idx (hash k) bits) = ?H mod 2 ^ bits"
    using home_less [OF b(2), of "hash k"] by (simp add: unat_h2idx)
  have "carry_ok bits t ?b ?H" using k d by (simp add: carry_ok_def)
  from insert_loop_new [OF r b(1) wf i _ this e] show ?thesis by (simp add: table_insert_def d)
qed

lemma table_insert_dup:
  assumes r: "ring_len bits len" and wf: "table_wf bits t" and k: "(k, w) \<in> ent t"
  shows "table_insert t len bits (hash k) k v = Some (NGHTTP2_ERR_INVALID_ARGUMENT, t)"
proof -
  let ?H = "home bits (hash k)"
  have b: "bits \<le> 32" using r by (simp add: ring_len_def)
  obtain m where m: "m < 2 ^ bits" "bkt_key (slot t (?H + m)) = k" "bkt_data (slot t (?H + m)) = Some w"
    "dist bits (slot t (?H + m)) (?H + m) = m"
    using key_position [OF wf b k] .
  have "unat (h2idx (hash k) bits) = (?H + 0) mod 2 ^ bits"
    using home_less [OF b, of "hash k"] by (simp add: unat_h2idx)
  then show ?thesis unfolding table_insert_def
    by (intro insert_loop_dup [OF r wf _ m(3,4,1)]) (use m(2) in simp_all)
qed

subsection \<open>The map it represents\<close>

definition table_abs :: "bucket list \<Rightarrow> u32 \<rightharpoonup> nat" where
  "table_abs t = map_of (map (\<lambda>b. (bkt_key b, the (bkt_data b))) (filter (\<lambda>b. bkt_data b \<noteq> None) t))"

lemma ent_set:
  assumes "0 < length t"
  shows "(k, v) \<in> ent t \<longleftrightarrow> (\<exists>b \<in> set t. bkt_key b = k \<and> bkt_data b = Some v)"
proof
  assume "(k, v) \<in> ent t"
  then obtain p where "bkt_key (slot t p) = k" "bkt_data (slot t p) = Some v" by (auto simp: ent_def)
  moreover have "slot t p \<in> set t" using assms by (simp add: slot_def)
  ultimately show "\<exists>b \<in> set t. bkt_key b = k \<and> bkt_data b = Some v" by blast
next
  assume "\<exists>b \<in> set t. bkt_key b = k \<and> bkt_data b = Some v"
  then obtain i where "i < length t" "bkt_key (t ! i) = k" "bkt_data (t ! i) = Some v"
    by (auto simp: in_set_conv_nth)
  then have "bkt_key (slot t i) = k" "bkt_data (slot t i) = Some v" by (simp_all add: slot_def)
  then show "(k, v) \<in> ent t" by (auto simp: ent_def)
qed

lemma ent_fun:
  assumes wf: "table_wf bits t" and a: "(k, v) \<in> ent t" "(k, w) \<in> ent t"
  shows "v = w"
proof -
  obtain p q where p: "bkt_key (slot t p) = k" "bkt_data (slot t p) = Some v"
    and q: "bkt_key (slot t q) = k" "bkt_data (slot t q) = Some w" using a by (auto simp: ent_def)
  then have "p mod 2 ^ bits = q mod 2 ^ bits" using table_wf_uniq [OF wf, of p q] by (simp add: occ_def)
  then show ?thesis using p q slot_cong [of p t q] table_wf_len [OF wf] by simp
qed

lemma table_abs_iff:
  assumes wf: "table_wf bits t"
  shows "table_abs t k = Some v \<longleftrightarrow> (k, v) \<in> ent t"
proof -
  have len: "0 < length t" using table_wf_len [OF wf] by simp
  have sub: "(k, v) \<in> ent t" if "table_abs t k = Some v" for v
    using map_of_SomeD [OF that [unfolded table_abs_def]] by (auto simp: ent_set [OF len])
  show ?thesis
  proof
    assume a: "(k, v) \<in> ent t"
    then have "(k, v) \<in> set (map (\<lambda>b. (bkt_key b, the (bkt_data b))) (filter (\<lambda>b. bkt_data b \<noteq> None) t))"
      by (force simp: ent_set [OF len])
    from weak_map_of_SomeI [OF this] obtain w where w: "table_abs t k = Some w"
      unfolding table_abs_def ..
    then show "table_abs t k = Some v" using ent_fun [OF wf a sub [OF w]] by simp
  qed (rule sub)
qed

lemma table_abs_eqI:
  assumes "table_wf bits t" "\<And>k v. f k = Some v \<longleftrightarrow> (k, v) \<in> ent t"
  shows "table_abs t = f"
proof
  fix k
  have "table_abs t k = Some v \<longleftrightarrow> f k = Some v" for v
    using table_abs_iff [OF assms(1)] assms(2) by blast
  then show "table_abs t k = f k" by (metis not_Some_eq)
qed

lemma empty_table:
  assumes "1 \<le> bits"
  shows "table_wf bits (replicate (2 ^ bits) empty_bucket)" "ent (replicate (2 ^ bits) empty_bucket) = {}"
    "used (replicate (2 ^ bits) empty_bucket) = 0"
proof -
  have "slot (replicate (2 ^ bits) empty_bucket) p = empty_bucket" for p by (simp add: slot_def)
  then have "\<not> occ (replicate (2 ^ bits) empty_bucket) p" "bkt_data (slot (replicate (2 ^ bits) empty_bucket) p) = None" for p
    by (simp_all add: occ_def)
  then show "table_wf bits (replicate (2 ^ bits) empty_bucket)" "ent (replicate (2 ^ bits) empty_bucket) = {}"
    unfolding table_wf_def rh_def ent_def by auto
  show "used (replicate (2 ^ bits) empty_bucket) = 0" by (simp add: used_def)
qed

lemma resize_loop_ok:
  assumes r: "ring_len bits len"
  shows "\<lbrakk>table_wf bits t; used t + used bs < length t;
      \<forall>b \<in> set bs. bkt_data b \<noteq> None \<longrightarrow> bkt_hash b = hash (bkt_key b) \<and> (\<nexists>v. (bkt_key b, v) \<in> ent t);
      distinct (map bkt_key (filter (\<lambda>b. bkt_data b \<noteq> None) bs))\<rbrakk>
    \<Longrightarrow> \<exists>t'. resize_loop bs t len bits = Some t' \<and> table_wf bits t' \<and> used t' = used t + used bs \<and>
      (\<forall>k v. (k, v) \<in> ent t' \<longleftrightarrow> (k, v) \<in> ent t \<or> (\<exists>b \<in> set bs. bkt_key b = k \<and> bkt_data b = Some v))"
proof (induction bs arbitrary: t)
  case Nil
  then show ?case by (simp add: used_def)
next
  case (Cons b bs)
  show ?case
  proof (cases "bkt_data b")
    case None
    then have u: "used (b # bs) = used bs" by (simp add: used_def)
    from Cons.IH [of t] Cons.prems None u show ?thesis by simp
  next
    case (Some v)
    have u: "used (b # bs) = Suc (used bs)" using Some by (simp add: used_def)
    have b: "bkt_hash b = hash (bkt_key b)" "\<nexists>w. (bkt_key b, w) \<in> ent t"
      using Cons.prems(3) Some by simp_all
    obtain t1 where t1: "table_insert t len bits (hash (bkt_key b)) (bkt_key b) (Some v) = Some (0, t1)"
      "table_wf bits t1" "ent t1 = insert (bkt_key b, v) (ent t)" "used t1 = Suc (used t)"
      using table_insert_new [OF r Cons.prems(1) _ b(2), of v] Cons.prems(2) by auto
    have "length t1 = length t" using table_wf_len [OF t1(2)] table_wf_len [OF Cons.prems(1)] by simp
    moreover have "\<forall>c \<in> set bs. bkt_data c \<noteq> None \<longrightarrow> bkt_hash c = hash (bkt_key c) \<and> (\<nexists>w. (bkt_key c, w) \<in> ent t1)"
    proof (intro ballI impI)
      fix c assume c: "c \<in> set bs" "bkt_data c \<noteq> None"
      have "bkt_key c \<noteq> bkt_key b"
      proof -
        have "bkt_key b \<notin> bkt_key ` {x \<in> set bs. bkt_data x \<noteq> None}" using Cons.prems(4) Some by simp
        moreover have "bkt_key c \<in> bkt_key ` {x \<in> set bs. bkt_data x \<noteq> None}" using c by (intro imageI) simp
        ultimately show ?thesis by metis
      qed
      then show "bkt_hash c = hash (bkt_key c) \<and> (\<nexists>w. (bkt_key c, w) \<in> ent t1)"
        using Cons.prems(3) c t1(3) by simp
    qed
    ultimately obtain t' where t': "resize_loop bs t1 len bits = Some t'" "table_wf bits t'"
      "used t' = used t1 + used bs"
      "\<forall>k v. (k, v) \<in> ent t' \<longleftrightarrow> (k, v) \<in> ent t1 \<or> (\<exists>b \<in> set bs. bkt_key b = k \<and> bkt_data b = Some v)"
      using Cons.IH [OF t1(2)] Cons.prems(2,4) u Some t1(4) by auto
    have "resize_loop (b # bs) t len bits = Some t'" using t'(1) t1(1) b(1) Some by simp
    moreover have "used t' = used t + used (b # bs)" using t'(3) t1(4) u by simp
    moreover have "(k, w) \<in> ent t' \<longleftrightarrow> (k, w) \<in> ent t \<or> (\<exists>c \<in> set (b # bs). bkt_key c = k \<and> bkt_data c = Some w)" for k w
      using t'(4) t1(3) Some by auto
    ultimately show ?thesis using t'(2) by blast
  qed
qed

lemma distinct_filter_keys:
  "\<forall>i < length t. \<forall>j < length t. bkt_data (t ! i) \<noteq> None \<and> bkt_data (t ! j) \<noteq> None \<and>
      bkt_key (t ! i) = bkt_key (t ! j) \<longrightarrow> i = j
   \<Longrightarrow> distinct (map bkt_key (filter (\<lambda>b. bkt_data b \<noteq> None) t))"
proof (induction t)
  case Nil
  then show ?case by simp
next
  case (Cons b t)
  have "distinct (map bkt_key (filter (\<lambda>b. bkt_data b \<noteq> None) t))"
    using Cons.prems by (intro Cons.IH) force
  moreover have "bkt_key b \<noteq> bkt_key c" if c: "bkt_data b \<noteq> None" "c \<in> set t" "bkt_data c \<noteq> None" for c
  proof -
    obtain i where "i < length t" "t ! i = c" using c(2) by (auto simp: in_set_conv_nth)
    then show ?thesis using Cons.prems [rule_format, of 0 "Suc i"] c by auto
  qed
  ultimately show ?case by auto
qed

lemma table_wf_distinct: "table_wf bits t \<Longrightarrow> distinct (map bkt_key (filter (\<lambda>b. bkt_data b \<noteq> None) t))"
proof (rule distinct_filter_keys, intro allI impI)
  fix i j
  assume wf: "table_wf bits t" and i: "i < length t" and j: "j < length t"
    and k: "bkt_data (t ! i) \<noteq> None \<and> bkt_data (t ! j) \<noteq> None \<and> bkt_key (t ! i) = bkt_key (t ! j)"
  have "slot t i = t ! i" "slot t j = t ! j" using i j by (simp_all add: slot_def)
  then have "i mod 2 ^ bits = j mod 2 ^ bits" using table_wf_uniq [OF wf, of i j] k by (simp add: occ_def)
  then show "i = j" using i j table_wf_len [OF wf] by simp
qed

subsection \<open>The map object\<close>

definition map_inv :: "nghttp2_map \<Rightarrow> bool" where
  "map_inv mp \<longleftrightarrow>
     (tablelen mp = 0 \<and> map_table mp = [] \<and> map_size mp = 0) \<or>
     (4 \<le> tablelenbits mp \<and> tablelenbits mp \<le> 30 \<and> tablelen mp = 2 ^ tablelenbits mp \<and>
      table_wf (tablelenbits mp) (map_table mp) \<and> used (map_table mp) = map_size mp \<and>
      map_size mp * 4 \<le> 2 ^ tablelenbits mp * 3)"

definition map_abs :: "nghttp2_map \<Rightarrow> u32 \<rightharpoonup> nat" where
  "map_abs mp = table_abs (map_table mp)"

text \<open>The table may have at most \<open>2^30\<close> slots, so that the load test in 32 bits is exact.\<close>

definition map_room :: "nghttp2_map \<Rightarrow> bool" where
  "map_room mp \<longleftrightarrow> (map_size mp + 1) * 4 \<le> 2 ^ 30 * 3"

lemma map_invD:
  assumes "map_inv mp" "tablelen mp \<noteq> 0"
  shows "ring_len (tablelenbits mp) (tablelen mp)" "4 \<le> tablelenbits mp" "tablelenbits mp \<le> 30"
    "table_wf (tablelenbits mp) (map_table mp)" "used (map_table mp) = map_size mp"
    "map_size mp * 4 \<le> 2 ^ tablelenbits mp * 3" "used (map_table mp) < length (map_table mp)"
proof -
  show *: "ring_len (tablelenbits mp) (tablelen mp)" "4 \<le> tablelenbits mp" "tablelenbits mp \<le> 30"
    "table_wf (tablelenbits mp) (map_table mp)" "used (map_table mp) = map_size mp"
    "map_size mp * 4 \<le> 2 ^ tablelenbits mp * 3"
    using assms unfolding map_inv_def ring_len_def by auto
  have "0 < (2 :: nat) ^ tablelenbits mp" by simp
  then have "map_size mp < 2 ^ tablelenbits mp" using *(6) by linarith
  then show "used (map_table mp) < length (map_table mp)" using *(5) table_wf_len [OF *(4)] by simp
qed

lemma map_inv_empty: "map_inv mp \<Longrightarrow> tablelen mp = 0 \<Longrightarrow> map_table mp = [] \<and> map_size mp = 0"
  by (auto simp: map_inv_def dest: arg_cong [of _ _ unat] ring_len_unat)

lemma map_find_spec:
  assumes inv: "map_inv mp"
  shows "nghttp2_map_find mp k = Some (map_abs mp k)"
proof (cases "map_size mp = 0")
  case True
  then have "map_abs mp k = None"
  proof (cases "tablelen mp = 0")
    case True
    then show ?thesis using map_inv_empty [OF inv] by (simp add: map_abs_def table_abs_def)
  next
    case False
    then have "used (map_table mp) = 0" using map_invD(5) [OF inv] \<open>map_size mp = 0\<close> by simp
    then have "filter (\<lambda>b. bkt_data b \<noteq> None) (map_table mp) = []" unfolding used_def by simp
    then show ?thesis by (simp add: map_abs_def table_abs_def)
  qed
  with True show ?thesis by (simp add: nghttp2_map_find_def)
next
  case False
  then have nz: "tablelen mp \<noteq> 0" using map_inv_empty [OF inv] by auto
  note d = map_invD [OF inv nz]
  let ?bits = "tablelenbits mp" and ?t = "map_table mp" and ?H = "home (tablelenbits mp) (hash k)"
  have b: "?bits \<le> 32" using d(3) by simp
  have i: "unat (h2idx (hash k) ?bits) = ?H mod 2 ^ ?bits"
    using home_less [OF b, of "hash k"] by (simp add: unat_h2idx)
  show ?thesis
  proof (cases "map_abs mp k")
    case None
    then have "\<nexists>v. (k, v) \<in> ent ?t" using table_abs_iff [OF d(4)] by (simp add: map_abs_def flip: table_abs_iff [OF d(4)])
    moreover obtain e where "\<not> occ ?t (?H + e)" using empty_ahead [OF d(4,7)] .
    ultimately show ?thesis
      using find_loop_absent [OF d(1,4) _ _ i] False None by (simp add: nghttp2_map_find_def)
  next
    case (Some v)
    then have "(k, v) \<in> ent ?t" using table_abs_iff [OF d(4)] by (simp add: map_abs_def)
    from key_position [OF d(4) b this] obtain m where "m < 2 ^ ?bits" "bkt_key (slot ?t (?H + m)) = k"
      "bkt_data (slot ?t (?H + m)) = Some v" "dist ?bits (slot ?t (?H + m)) (?H + m) = m" .
    then show ?thesis
      using find_loop_present [OF d(1,4), of ?H m k v 0] i False Some by (simp add: nghttp2_map_find_def)
  qed
qed

lemma map_remove_spec:
  assumes inv: "map_inv mp"
  shows "\<exists>rv mp'. nghttp2_map_remove mp k = Some (rv, mp') \<and> map_inv mp' \<and>
    (if map_abs mp k = None then rv = NGHTTP2_ERR_INVALID_ARGUMENT \<and> mp' = mp
     else rv = 0 \<and> map_abs mp' = (map_abs mp)(k := None) \<and> map_size mp = Suc (map_size mp'))"
proof (cases "map_size mp = 0")
  case True
  then have "map_abs mp k = None" using map_find_spec [OF inv, of k] by (simp add: nghttp2_map_find_def)
  then show ?thesis using True inv by (simp add: nghttp2_map_remove_def)
next
  case False
  then have nz: "tablelen mp \<noteq> 0" using map_inv_empty [OF inv] by auto
  note d = map_invD [OF inv nz]
  let ?bits = "tablelenbits mp" and ?t = "map_table mp" and ?H = "home (tablelenbits mp) (hash k)"
  have b: "?bits \<le> 32" "2 \<le> ?bits" using d(2,3) by simp_all
  have i: "unat (h2idx (hash k) ?bits) = ?H mod 2 ^ ?bits"
    using home_less [OF b(1), of "hash k"] by (simp add: unat_h2idx)
  show ?thesis
  proof (cases "map_abs mp k")
    case None
    then have "\<nexists>v. (k, v) \<in> ent ?t" by (simp add: map_abs_def flip: table_abs_iff [OF d(4)])
    moreover obtain e where "\<not> occ ?t (?H + e)" using empty_ahead [OF d(4,7)] .
    ultimately show ?thesis
      using remove_loop_absent [OF d(1,4) _ _ i] False None inv
      by (simp add: nghttp2_map_remove_def ng_defs)
  next
    case (Some v)
    then have "(k, v) \<in> ent ?t" using table_abs_iff [OF d(4)] by (simp add: map_abs_def)
    from key_position [OF d(4) b(1) this] obtain m where "m < 2 ^ ?bits" "bkt_key (slot ?t (?H + m)) = k"
      "bkt_data (slot ?t (?H + m)) = Some v" "dist ?bits (slot ?t (?H + m)) (?H + m) = m" .
    then obtain t' where t': "remove_loop ?t (tablelen mp) ?bits k (h2idx (hash k) ?bits) 0 = Some (0, t')"
      "table_wf ?bits t'" "ent t' = {x \<in> ent ?t. fst x \<noteq> k}" "Suc (used t') = used ?t"
      using remove_loop_present [OF d(1) b(2) d(4,7), of ?H m k v 0] i by auto
    let ?mp = "mp\<lparr>map_table := t', map_size := map_size mp - 1\<rparr>"
    have "table_abs t' = (table_abs ?t)(k := None)"
      by (rule table_abs_eqI [OF t'(2)]) (simp add: t'(3) table_abs_iff [OF d(4)])
    moreover have "map_inv ?mp" using inv nz t'(2,4) d(5,6) unfolding map_inv_def by auto
    moreover have "nghttp2_map_remove mp k = Some (0, ?mp)"
      using False t'(1) by (simp add: nghttp2_map_remove_def)
    ultimately show ?thesis using Some False by (simp add: map_abs_def)
  qed
qed

lemma map_resize_ok:
  assumes r: "ring_len bits len" and b: "4 \<le> bits" "bits \<le> 30" and inv: "map_inv mp"
    and sz: "map_size mp * 4 \<le> 2 ^ bits * 3" and m: "m (unat len * 16)"
  shows "\<exists>mp'. map_resize m mp len bits = Some (0, mp') \<and> map_inv mp' \<and> map_abs mp' = map_abs mp \<and>
    map_size mp' = map_size mp \<and> tablelen mp' = len \<and> tablelenbits mp' = bits"
proof -
  let ?t = "replicate (2 ^ bits) empty_bucket"
  have len: "unat len = 2 ^ bits" by (rule ring_len_unat [OF r])
  have e: "table_wf bits ?t" "ent ?t = {}" "used ?t = 0" using empty_table [of bits] b by auto
  have u: "used (map_table mp) = map_size mp"
    using map_invD(5) [OF inv] map_inv_empty [OF inv] by (cases "tablelen mp = 0") (auto simp: used_def)
  have "0 < (2 :: nat) ^ bits" by simp
  then have "map_size mp < 2 ^ bits" using sz by linarith
  then have lt: "used ?t + used (map_table mp) < length ?t" using e(3) u by simp
  have old: "\<forall>b \<in> set (map_table mp). bkt_data b \<noteq> None \<longrightarrow> bkt_hash b = hash (bkt_key b) \<and> (\<nexists>v. (bkt_key b, v) \<in> ent ?t)"
  proof (cases "tablelen mp = 0")
    case True
    then show ?thesis using map_inv_empty [OF inv] by simp
  next
    case False
    note d = map_invD [OF inv False]
    show ?thesis
    proof (intro ballI impI)
      fix b assume "b \<in> set (map_table mp)" "bkt_data b \<noteq> None"
      then obtain i where i: "i < length (map_table mp)" "map_table mp ! i = b" by (auto simp: in_set_conv_nth)
      then have "slot (map_table mp) i = b" by (simp add: slot_def)
      then show "bkt_hash b = hash (bkt_key b) \<and> (\<nexists>v. (bkt_key b, v) \<in> ent ?t)"
        using table_wf_hash [OF d(4), of i] \<open>bkt_data b \<noteq> None\<close> e(2) by (simp add: occ_def)
    qed
  qed
  have dis: "distinct (map bkt_key (filter (\<lambda>b. bkt_data b \<noteq> None) (map_table mp)))"
    using table_wf_distinct [OF map_invD(4) [OF inv]] map_inv_empty [OF inv] by (cases "tablelen mp = 0") auto
  obtain t' where t': "resize_loop (map_table mp) ?t len bits = Some t'" "table_wf bits t'"
    "used t' = used (map_table mp)"
    "\<forall>k v. (k, v) \<in> ent t' \<longleftrightarrow> (\<exists>b \<in> set (map_table mp). bkt_key b = k \<and> bkt_data b = Some v)"
    using resize_loop_ok [OF r e(1) lt old dis] e(2,3) by auto
  let ?mp = "mp\<lparr>tablelen := len, tablelenbits := bits, map_table := t'\<rparr>"
  have "table_abs t' = table_abs (map_table mp)"
  proof (rule table_abs_eqI [OF t'(2)])
    fix k v
    show "table_abs (map_table mp) k = Some v \<longleftrightarrow> (k, v) \<in> ent t'"
    proof (cases "tablelen mp = 0")
      case True
      then show ?thesis using map_inv_empty [OF inv] t'(4) by (simp add: table_abs_def)
    next
      case False
      note d = map_invD [OF inv False]
      have "0 < length (map_table mp)" using d(7) by (rule le_less_trans [OF le0])
      then show ?thesis using table_abs_iff [OF d(4)] ent_set t'(4) by simp
    qed
  qed
  moreover have "map_inv ?mp" using t'(2,3) u sz b r unfolding map_inv_def ring_len_def by simp
  moreover have "map_resize m mp len bits = Some (0, ?mp)" using m t'(1) len by (simp add: map_resize_def)
  ultimately show ?thesis by (simp add: map_abs_def)
qed

text \<open>Growing before an insertion: the load factor stays at most three quarters.\<close>

definition map_grow :: "mem \<Rightarrow> nghttp2_map \<Rightarrow> (rc \<times> nghttp2_map) option" where
  "map_grow m mp =
     (if (map_size mp + 1) * 4 > unat (tablelen mp * 3) then
        if tablelen mp \<noteq> 0 then map_resize m mp (tablelen mp * 2) (tablelenbits mp + 1)
        else map_resize m mp (push_bit NGHTTP2_INITIAL_TABLE_LENBITS 1) NGHTTP2_INITIAL_TABLE_LENBITS
      else Some (0, mp))"

lemma map_grow_ok:
  assumes inv: "map_inv mp" and room: "map_room mp"
  shows "\<exists>rv mp'. map_grow m mp = Some (rv, mp') \<and> map_inv mp' \<and>
    (rv = 0 \<and> map_abs mp' = map_abs mp \<and> map_size mp' = map_size mp \<and> tablelen mp' \<noteq> 0 \<and>
       (map_size mp + 1) * 4 \<le> 2 ^ tablelenbits mp' * 3 \<or>
     rv = NGHTTP2_ERR_NOMEM \<and> mp' = mp \<and> (\<exists>n. \<not> m n))"
proof (cases "tablelen mp = 0")
  case True
  have i: "push_bit NGHTTP2_INITIAL_TABLE_LENBITS 1 = (2 ^ 4 :: u32)" "NGHTTP2_INITIAL_TABLE_LENBITS = 4"
    by (simp_all add: NGHTTP2_INITIAL_TABLE_LENBITS_def push_bit_eq_mult)
  have g: "map_grow m mp = map_resize m mp (2 ^ 4) 4" unfolding map_grow_def i using True by simp
  have r: "ring_len 4 (2 ^ 4)" by (simp add: ring_len_def)
  have z: "map_size mp = 0" using map_inv_empty [OF inv True] by simp
  show ?thesis
  proof (cases "m (unat (2 ^ 4 :: u32) * 16)")
    case True
    then obtain mp' where "map_resize m mp (2 ^ 4) 4 = Some (0, mp')" "map_inv mp'" "map_abs mp' = map_abs mp"
      "map_size mp' = map_size mp" "tablelen mp' = 2 ^ 4" "tablelenbits mp' = 4"
      using map_resize_ok [OF r _ _ inv, of m] z by auto
    then show ?thesis using g z by simp
  next
    case False
    then have "map_resize m mp (2 ^ 4) 4 = Some (NGHTTP2_ERR_NOMEM, mp)" by (simp add: map_resize_def)
    then show ?thesis using g inv False by auto
  qed
next
  case False
  note d = map_invD [OF inv False]
  let ?bits = "tablelenbits mp"
  have len: "unat (tablelen mp) = 2 ^ ?bits" by (rule ring_len_unat [OF d(1)])
  have p30: "(2 :: nat) ^ ?bits \<le> 2 ^ 30" using d(3) by (rule power_increasing) simp
  then have "unat (tablelen mp * 3) = 2 ^ ?bits * 3" by (simp add: unat_word_ariths len)
  then have g: "map_grow m mp = (if (map_size mp + 1) * 4 > 2 ^ ?bits * 3
      then map_resize m mp (tablelen mp * 2) (?bits + 1) else Some (0, mp))"
    unfolding map_grow_def using False by simp
  show ?thesis
  proof (cases "(map_size mp + 1) * 4 > 2 ^ ?bits * 3")
    case no: False
    then show ?thesis using g inv False by auto
  next
    case True
    have "(2 :: nat) ^ ?bits < 2 ^ 30" using True room unfolding map_room_def by linarith
    then have b: "?bits + 1 \<le> 30" using power_less_imp_less_exp [of "2 :: nat" ?bits 30] by simp
    have l2: "tablelen mp * 2 = 2 ^ (?bits + 1)" using d(1) by (simp add: ring_len_def mult.commute)
    have r: "ring_len (?bits + 1) (tablelen mp * 2)" using b l2 by (simp add: ring_len_def)
    have p16: "(16 :: nat) \<le> 2 ^ ?bits" using power_increasing [OF d(2), of "2 :: nat"] by simp
    have sz: "map_size mp * 4 \<le> 2 ^ (?bits + 1) * 3" "(map_size mp + 1) * 4 \<le> 2 ^ (?bits + 1) * 3"
      using d(6) p16 by simp_all
    show ?thesis
    proof (cases "m (unat (tablelen mp * 2) * 16)")
      case mt: True
      obtain mp' where "map_resize m mp (tablelen mp * 2) (?bits + 1) = Some (0, mp')" "map_inv mp'"
        "map_abs mp' = map_abs mp" "map_size mp' = map_size mp" "tablelen mp' = tablelen mp * 2"
        "tablelenbits mp' = ?bits + 1"
        using map_resize_ok [OF r _ b inv sz(1), of m] mt d(2) by auto
      moreover have "tablelen mp * 2 \<noteq> 0" using ring_len_unat [OF r] by (metis power_not_zero unat_0 zero_neq_numeral)
      ultimately show ?thesis using g True sz(2) by auto
    next
      case mf: False
      then have "map_resize m mp (tablelen mp * 2) (?bits + 1) = Some (NGHTTP2_ERR_NOMEM, mp)"
        by (simp add: map_resize_def)
      then show ?thesis using g True inv mf by auto
    qed
  qed
qed

lemma map_insert_spec:
  assumes inv: "map_inv mp" and room: "map_room mp"
  shows "\<exists>rv mp'. nghttp2_map_insert m mp k (Some v) = Some (rv, mp') \<and> map_inv mp' \<and>
    (rv = 0 \<and> map_abs mp k = None \<and> map_abs mp' = (map_abs mp)(k \<mapsto> v) \<and> map_size mp' = Suc (map_size mp) \<or>
     rv = NGHTTP2_ERR_INVALID_ARGUMENT \<and> map_abs mp k \<noteq> None \<and> map_abs mp' = map_abs mp \<and> map_size mp' = map_size mp \<or>
     rv = NGHTTP2_ERR_NOMEM \<and> mp' = mp \<and> (\<exists>n. \<not> m n))"
proof -
  have def: "nghttp2_map_insert m mp k (Some v) =
      (case map_grow m mp of
         None \<Rightarrow> None
       | Some (rv, mp) \<Rightarrow>
           if rv \<noteq> 0 then Some (rv, mp)
           else
             case table_insert (map_table mp) (tablelen mp) (tablelenbits mp) (hash k) k (Some v) of
               None \<Rightarrow> None
             | Some (rv, table) \<Rightarrow>
                 if rv \<noteq> 0 then Some (rv, mp\<lparr>map_table := table\<rparr>)
                 else Some (0, mp\<lparr>map_table := table, map_size := map_size mp + 1\<rparr>))"
    unfolding nghttp2_map_insert_def map_grow_def by simp
  from map_grow_ok [OF inv room, of m] consider
    mp1 where "map_grow m mp = Some (0, mp1)" "map_inv mp1" "map_abs mp1 = map_abs mp"
      "map_size mp1 = map_size mp" "tablelen mp1 \<noteq> 0" "(map_size mp + 1) * 4 \<le> 2 ^ tablelenbits mp1 * 3"
    | n where "map_grow m mp = Some (NGHTTP2_ERR_NOMEM, mp)" "\<not> m n"
    by auto
  then show ?thesis
  proof cases
    case 2
    then show ?thesis using inv def by (auto simp: ng_defs)
  next
    case 1
    note d = map_invD [OF 1(2,5)]
    show ?thesis
    proof (cases "map_abs mp k")
      case None
      then have "\<nexists>w. (k, w) \<in> ent (map_table mp1)"
        using 1(3) by (simp add: map_abs_def flip: table_abs_iff [OF d(4)])
      then obtain t' where t': "table_insert (map_table mp1) (tablelen mp1) (tablelenbits mp1) (hash k) k (Some v) = Some (0, t')"
        "table_wf (tablelenbits mp1) t'" "ent t' = insert (k, v) (ent (map_table mp1))"
        "used t' = Suc (used (map_table mp1))"
        using table_insert_new [OF d(1,4,7)] by blast
      let ?mp = "mp1\<lparr>map_table := t', map_size := map_size mp1 + 1\<rparr>"
      have "table_abs t' = (table_abs (map_table mp1))(k \<mapsto> v)"
        using None 1(3) by (intro table_abs_eqI [OF t'(2)])
          (auto simp: t'(3) table_abs_iff [OF d(4)] map_abs_def simp flip: table_abs_iff [OF d(4)])
      moreover have "map_inv ?mp" using 1(2,4,5,6) t'(2,4) d(5) unfolding map_inv_def by auto
      moreover have "nghttp2_map_insert m mp k (Some v) = Some (0, ?mp)" using def 1(1) t'(1) by simp
      ultimately show ?thesis using None 1(3,4) by (simp add: map_abs_def)
    next
      case (Some w)
      then have "(k, w) \<in> ent (map_table mp1)"
        using 1(3) by (simp add: map_abs_def flip: table_abs_iff [OF d(4)])
      from table_insert_dup [OF d(1,4) this]
      have "nghttp2_map_insert m mp k (Some v) = Some (NGHTTP2_ERR_INVALID_ARGUMENT, mp1)"
        using def 1(1) by (simp add: ng_defs)
      then show ?thesis using Some 1 by simp
    qed
  qed
qed

lemma map_clear_spec:
  assumes inv: "map_inv mp"
  shows "map_inv (nghttp2_map_clear mp) \<and> map_abs (nghttp2_map_clear mp) = (\<lambda>_. None) \<and>
    map_size (nghttp2_map_clear mp) = 0"
proof (cases "tablelen mp = 0")
  case True
  then show ?thesis using inv map_inv_empty [OF inv]
    by (auto simp: nghttp2_map_clear_def map_abs_def table_abs_def)
next
  case False
  note d = map_invD [OF inv False]
  have e: "table_wf (tablelenbits mp) (replicate (2 ^ tablelenbits mp) empty_bucket)"
    "used (replicate (2 ^ tablelenbits mp) empty_bucket) = 0"
    using empty_table [of "tablelenbits mp"] d(2) by auto
  have "map_inv (mp\<lparr>map_table := replicate (2 ^ tablelenbits mp) empty_bucket, map_size := 0\<rparr>)"
    using inv False e unfolding map_inv_def by auto
  then show ?thesis using False ring_len_unat [OF d(1)]
    by (auto simp: nghttp2_map_clear_def map_abs_def table_abs_def)
qed

subsection \<open>The interface of a map\<close>

locale kv_map =
  fixes invar :: "'m \<Rightarrow> bool" and abs :: "'m \<Rightarrow> 'k \<Rightarrow> 'v option" and room :: "'m \<Rightarrow> bool"
    and find :: "'m \<Rightarrow> 'k \<Rightarrow> 'v option option"
    and ins :: "'m \<Rightarrow> 'k \<Rightarrow> 'v \<Rightarrow> (rc \<times> 'm) option"
    and del :: "'m \<Rightarrow> 'k \<Rightarrow> (rc \<times> 'm) option"
  assumes find_abs: "invar mp \<Longrightarrow> find mp k = Some (abs mp k)"
    and ins_abs: "invar mp \<Longrightarrow> room mp \<Longrightarrow> \<exists>rv mp'. ins mp k v = Some (rv, mp') \<and> invar mp' \<and>
          abs mp' = (if rv = 0 then (abs mp)(k \<mapsto> v) else abs mp) \<and> (rv = 0 \<longrightarrow> abs mp k = None)"
    and del_abs: "invar mp \<Longrightarrow> \<exists>rv mp'. del mp k = Some (rv, mp') \<and> invar mp' \<and>
          abs mp' = (abs mp)(k := None) \<and> (rv = 0 \<longleftrightarrow> abs mp k \<noteq> None)"
begin

lemma find_after_ins:
  assumes "invar mp" "room mp" "ins mp k v = Some (0, mp')"
  shows "find mp' k = Some (Some v)" and "j \<noteq> k \<Longrightarrow> find mp' j = find mp j"
proof -
  have "invar mp'" "abs mp' = (abs mp)(k \<mapsto> v)" using ins_abs [OF assms(1,2), of k v] assms(3) by auto
  then show "find mp' k = Some (Some v)" "j \<noteq> k \<Longrightarrow> find mp' j = find mp j"
    using find_abs assms(1) by simp_all
qed

lemma find_after_del:
  assumes "invar mp" "del mp k = Some (rv, mp')"
  shows "find mp' k = Some None" and "j \<noteq> k \<Longrightarrow> find mp' j = find mp j"
proof -
  have "invar mp'" "abs mp' = (abs mp)(k := None)" using del_abs [OF assms(1), of k] assms(2) by auto
  then show "find mp' k = Some None" "j \<noteq> k \<Longrightarrow> find mp' j = find mp j"
    using find_abs assms(1) by simp_all
qed

end

interpretation ngm: kv_map map_inv map_abs map_room nghttp2_map_find
  "\<lambda>mp k v. nghttp2_map_insert m mp k (Some v)" nghttp2_map_remove for m
proof
  show "map_inv mp \<Longrightarrow> nghttp2_map_find mp k = Some (map_abs mp k)" for mp k by (rule map_find_spec)
  show "\<exists>rv mp'. nghttp2_map_insert m mp k (Some v) = Some (rv, mp') \<and> map_inv mp' \<and>
      map_abs mp' = (if rv = 0 then (map_abs mp)(k \<mapsto> v) else map_abs mp) \<and> (rv = 0 \<longrightarrow> map_abs mp k = None)"
    if a: "map_inv mp" "map_room mp" for mp k v
  proof -
    obtain rv mp' where "nghttp2_map_insert m mp k (Some v) = Some (rv, mp')" "map_inv mp'"
      "rv = 0 \<and> map_abs mp k = None \<and> map_abs mp' = (map_abs mp)(k \<mapsto> v) \<and> map_size mp' = Suc (map_size mp) \<or>
       rv = NGHTTP2_ERR_INVALID_ARGUMENT \<and> map_abs mp k \<noteq> None \<and> map_abs mp' = map_abs mp \<and> map_size mp' = map_size mp \<or>
       rv = NGHTTP2_ERR_NOMEM \<and> mp' = mp \<and> (\<exists>n. \<not> m n)"
      using map_insert_spec [OF a, of m k v] by blast
    then show ?thesis by (intro exI [of _ rv] exI [of _ mp']) (auto simp: ng_defs)
  qed
  show "\<exists>rv mp'. nghttp2_map_remove mp k = Some (rv, mp') \<and> map_inv mp' \<and>
      map_abs mp' = (map_abs mp)(k := None) \<and> (rv = 0 \<longleftrightarrow> map_abs mp k \<noteq> None)" if "map_inv mp" for mp k
    using map_remove_spec [OF that, of k] by (auto simp: ng_defs fun_upd_idem split: if_splits)
qed

subsection \<open>Properties\<close>

text \<open>
  C4.  Insertion refines the update of a partial map, for every allocator: it always ends, keeps the
  invariant of the table (which bounds the load by three quarters), and either adds the entry, or
  reports a key that is present, or fails to grow; in the last two cases the map is unchanged.
\<close>

theorem map_insert_refines:
  assumes "map_inv mp" "map_room mp"
  shows "\<exists>rv mp'. nghttp2_map_insert m mp k (Some v) = Some (rv, mp') \<and> map_inv mp' \<and>
    (rv = 0 \<and> map_abs mp k = None \<and> map_abs mp' = (map_abs mp)(k \<mapsto> v) \<and> map_size mp' = Suc (map_size mp) \<or>
     rv = NGHTTP2_ERR_INVALID_ARGUMENT \<and> map_abs mp k \<noteq> None \<and> map_abs mp' = map_abs mp \<and> map_size mp' = map_size mp \<or>
     rv = NGHTTP2_ERR_NOMEM \<and> mp' = mp \<and> (\<exists>n. \<not> m n))"
  by (rule map_insert_spec [OF assms])

theorem map_insert_refines_witness:
  "\<exists>rv mp'. nghttp2_map_insert (\<lambda>_. True) nghttp2_map_init 7 (Some 42) = Some (rv, mp') \<and> rv = 0 \<and>
     map_inv mp' \<and> map_abs mp' 7 = Some 42"
proof -
  have "map_inv nghttp2_map_init" "map_room nghttp2_map_init" "map_abs nghttp2_map_init = (\<lambda>_. None)"
    by (simp_all add: map_inv_def map_room_def nghttp2_map_init_def map_abs_def table_abs_def)
  from map_insert_refines [OF this(1,2), of "\<lambda>_. True" 7 42] this(3) show ?thesis by auto
qed

text \<open>
  C5.  Lookup and removal agree with the map the table stands for: a lookup returns exactly the
  entry of the key, and a removal deletes it and no other, or reports that there is none; the
  probe and shift loops always end.
\<close>

theorem map_find_remove_refine:
  assumes "map_inv mp"
  shows "nghttp2_map_find mp k = Some (map_abs mp k) \<and>
    (\<exists>rv mp'. nghttp2_map_remove mp k = Some (rv, mp') \<and> map_inv mp' \<and>
      (if map_abs mp k = None then rv = NGHTTP2_ERR_INVALID_ARGUMENT \<and> mp' = mp
       else rv = 0 \<and> map_abs mp' = (map_abs mp)(k := None) \<and> map_size mp = Suc (map_size mp')) \<and>
      nghttp2_map_find mp' k = Some None \<and> (\<forall>j. j \<noteq> k \<longrightarrow> nghttp2_map_find mp' j = nghttp2_map_find mp j))"
proof -
  obtain rv mp' where r: "nghttp2_map_remove mp k = Some (rv, mp')" "map_inv mp'"
    "if map_abs mp k = None then rv = NGHTTP2_ERR_INVALID_ARGUMENT \<and> mp' = mp
     else rv = 0 \<and> map_abs mp' = (map_abs mp)(k := None) \<and> map_size mp = Suc (map_size mp')"
    using map_remove_spec [OF assms, of k] by blast
  then show ?thesis
    using map_find_spec [OF assms] ngm.find_after_del [OF assms r(1)] by blast
qed

theorem map_find_remove_refine_witness:
  "nghttp2_map_find nghttp2_map_init 3 = Some None \<and>
   nghttp2_map_remove nghttp2_map_init 3 = Some (NGHTTP2_ERR_INVALID_ARGUMENT, nghttp2_map_init)"
proof -
  have "map_inv nghttp2_map_init" "map_abs nghttp2_map_init = (\<lambda>_. None)"
    by (simp_all add: map_inv_def nghttp2_map_init_def map_abs_def table_abs_def)
  with map_find_remove_refine [OF this(1), of 3] show ?thesis by auto
qed

end
