(* ===== verification/Buf.thy ===== *)
theory Buf
  imports Prelude "HOL-Library.Monad_Syntax"
begin

text \<open>
  \<open>nghttp2_buf.c\<close>: a buffer is a block of memory with three positions in it, and \<open>nghttp2_bufs\<close> a
  chain of them that grows by chunks up to a limit.  Positions are offsets from \<open>begin\<close>.  The
  chain is a list with the index of the current buffer; a chunk is only ever reached through it.
  \<open>None\<close> is a write outside the block or a loop that does not end.
\<close>

record allocator =
  mem_ok :: "nat \<Rightarrow> bool"
  mem_fill :: "nat \<Rightarrow> u8"

record nghttp2_buf =
  buf_mem :: bytes
  buf_pos :: nat
  buf_last :: nat
  buf_mark :: nat

record nghttp2_bufs =
  chain :: "nghttp2_buf list"
  cur :: nat
  bufs_mem :: allocator
  chunk_length :: nat
  max_chunk :: nat
  chunk_used :: nat
  chunk_keep :: nat
  offset :: nat

definition nghttp2_buf_len :: "nghttp2_buf \<Rightarrow> nat" where
  "nghttp2_buf_len b = buf_last b - buf_pos b"

definition nghttp2_buf_avail :: "nghttp2_buf \<Rightarrow> nat" where
  "nghttp2_buf_avail b = length (buf_mem b) - buf_last b"

definition nghttp2_buf_cap :: "nghttp2_buf \<Rightarrow> nat" where
  "nghttp2_buf_cap b = length (buf_mem b)"

definition nghttp2_buf_shift_right :: "nghttp2_buf \<Rightarrow> nat \<Rightarrow> nghttp2_buf" where
  "nghttp2_buf_shift_right b amt = b\<lparr>buf_pos := buf_pos b + amt, buf_last := buf_last b + amt\<rparr>"

definition nghttp2_buf_shift_left :: "nghttp2_buf \<Rightarrow> nat \<Rightarrow> nghttp2_buf" where
  "nghttp2_buf_shift_left b amt = b\<lparr>buf_pos := buf_pos b - amt, buf_last := buf_last b - amt\<rparr>"

definition nghttp2_buf_init :: nghttp2_buf where
  "nghttp2_buf_init = \<lparr>buf_mem = [], buf_pos = 0, buf_last = 0, buf_mark = 0\<rparr>"

text \<open>\<open>realloc\<close> keeps the old contents; what follows them is whatever the allocator returns.\<close>

definition nghttp2_buf_reserve :: "allocator \<Rightarrow> nghttp2_buf \<Rightarrow> nat \<Rightarrow> rc \<times> nghttp2_buf" where
  "nghttp2_buf_reserve al b new_cap =
     (let c = nghttp2_buf_cap b
      in if c \<ge> new_cap then (0, b)
         else
           let new_cap = max new_cap (c * 2)
           in if \<not> mem_ok al new_cap then (NGHTTP2_ERR_NOMEM, b)
              else (0, b\<lparr>buf_mem := buf_mem b @ map (mem_fill al) [c..<new_cap]\<rparr>))"

definition nghttp2_buf_init2 :: "allocator \<Rightarrow> nat \<Rightarrow> rc \<times> nghttp2_buf" where
  "nghttp2_buf_init2 al initial = nghttp2_buf_reserve al nghttp2_buf_init initial"

definition nghttp2_buf_reset :: "nghttp2_buf \<Rightarrow> nghttp2_buf" where
  "nghttp2_buf_reset b = b\<lparr>buf_pos := 0, buf_last := 0, buf_mark := 0\<rparr>"

definition nghttp2_buf_wrap_init :: "bytes \<Rightarrow> nghttp2_buf" where
  "nghttp2_buf_wrap_init bs = \<lparr>buf_mem = bs, buf_pos = 0, buf_last = 0, buf_mark = 0\<rparr>"

text \<open>\<open>nghttp2_cpymem\<close> at \<open>last\<close>, and a store of one byte at \<open>last\<close>.\<close>

definition buf_put :: "nghttp2_buf \<Rightarrow> bytes \<Rightarrow> nghttp2_buf option" where
  "buf_put b bs =
     (if length bs \<le> nghttp2_buf_avail b
      then Some (b\<lparr>buf_mem := take (buf_last b) (buf_mem b) @ bs @ drop (buf_last b + length bs) (buf_mem b),
                   buf_last := buf_last b + length bs\<rparr>)
      else None)"

definition buf_store :: "nghttp2_buf \<Rightarrow> u8 \<Rightarrow> nghttp2_buf option" where
  "buf_store b x =
     (if buf_last b < length (buf_mem b) then Some (b\<lparr>buf_mem := (buf_mem b)[buf_last b := x]\<rparr>) else None)"

text \<open>A chain element takes 48 bytes.\<close>

definition buf_chain_new :: "allocator \<Rightarrow> nat \<Rightarrow> rc \<times> nghttp2_buf" where
  "buf_chain_new al chunk_len =
     (if \<not> mem_ok al 48 then (NGHTTP2_ERR_NOMEM, nghttp2_buf_init)
      else
        let (rv, b) = nghttp2_buf_init2 al chunk_len
        in if rv \<noteq> 0 then (NGHTTP2_ERR_NOMEM, b) else (0, b))"

definition nghttp2_bufs_init3 ::
  "allocator \<Rightarrow> nat \<Rightarrow> nat \<Rightarrow> nat \<Rightarrow> nat \<Rightarrow> rc + nghttp2_bufs" where
  "nghttp2_bufs_init3 al chunk_len max_ch keep off =
     (if keep = 0 \<or> max_ch < keep \<or> chunk_len < off then Inl NGHTTP2_ERR_INVALID_ARGUMENT
      else
        let (rv, b) = buf_chain_new al chunk_len
        in if rv \<noteq> 0 then Inl rv
           else Inr \<lparr>chain = [nghttp2_buf_shift_right b off], cur = 0, bufs_mem = al,
                     chunk_length = chunk_len, max_chunk = max_ch, chunk_used = 1,
                     chunk_keep = keep, offset = off\<rparr>)"

definition nghttp2_bufs_init2 :: "allocator \<Rightarrow> nat \<Rightarrow> nat \<Rightarrow> nat \<Rightarrow> rc + nghttp2_bufs" where
  "nghttp2_bufs_init2 al chunk_len max_ch off = nghttp2_bufs_init3 al chunk_len max_ch max_ch off"

definition nghttp2_bufs_init :: "allocator \<Rightarrow> nat \<Rightarrow> nat \<Rightarrow> rc + nghttp2_bufs" where
  "nghttp2_bufs_init al chunk_len max_ch = nghttp2_bufs_init2 al chunk_len max_ch 0"

definition nghttp2_bufs_realloc :: "nghttp2_bufs \<Rightarrow> nat \<Rightarrow> rc \<times> nghttp2_bufs" where
  "nghttp2_bufs_realloc bufs chunk_len =
     (if chunk_len < offset bufs then (NGHTTP2_ERR_INVALID_ARGUMENT, bufs)
      else
        let (rv, b) = buf_chain_new (bufs_mem bufs) chunk_len
        in if rv \<noteq> 0 then (rv, bufs)
           else (0, bufs\<lparr>chain := [nghttp2_buf_shift_right b (offset bufs)], cur := 0,
                         chunk_length := chunk_len, chunk_used := 1\<rparr>))"

text \<open>\<open>nghttp2_bufs_wrap_init\<close> and \<open>nghttp2_bufs_wrap_init2\<close> wrap blocks of the caller.\<close>

definition nghttp2_bufs_wrap_init :: "allocator \<Rightarrow> bytes \<Rightarrow> rc + nghttp2_bufs" where
  "nghttp2_bufs_wrap_init al bs =
     (if \<not> mem_ok al 48 then Inl NGHTTP2_ERR_NOMEM
      else Inr \<lparr>chain = [nghttp2_buf_wrap_init bs], cur = 0, bufs_mem = al, chunk_length = length bs,
                max_chunk = 1, chunk_used = 1, chunk_keep = 1, offset = 0\<rparr>)"

definition nghttp2_bufs_wrap_init2 :: "allocator \<Rightarrow> bytes list \<Rightarrow> rc + nghttp2_bufs" where
  "nghttp2_bufs_wrap_init2 al vec =
     (if length vec = 0 then nghttp2_bufs_wrap_init al []
      else if \<not> mem_ok al (48 * length vec) then Inl NGHTTP2_ERR_NOMEM
      else Inr \<lparr>chain = map nghttp2_buf_wrap_init vec, cur = 0, bufs_mem = al, chunk_length = 0,
                max_chunk = length vec, chunk_used = length vec, chunk_keep = length vec, offset = 0\<rparr>)"

definition nghttp2_bufs_len :: "nghttp2_bufs \<Rightarrow> nat" where
  "nghttp2_bufs_len bufs = sum_list (map nghttp2_buf_len (chain bufs))"

definition bufs_alloc_chain :: "nghttp2_bufs \<Rightarrow> rc \<times> nghttp2_bufs" where
  "bufs_alloc_chain bufs =
     (if cur bufs + 1 < length (chain bufs) then (0, bufs\<lparr>cur := cur bufs + 1\<rparr>)
      else if max_chunk bufs = chunk_used bufs then (NGHTTP2_ERR_BUFFER_ERROR, bufs)
      else
        let (rv, b) = buf_chain_new (bufs_mem bufs) (chunk_length bufs)
        in if rv \<noteq> 0 then (rv, bufs)
           else (0, bufs\<lparr>chunk_used := chunk_used bufs + 1,
                         chain := chain bufs @ [nghttp2_buf_shift_right b (offset bufs)],
                         cur := cur bufs + 1\<rparr>))"

definition cur_buf :: "nghttp2_bufs \<Rightarrow> nghttp2_buf" where
  "cur_buf bufs = chain bufs ! cur bufs"

definition set_cur :: "nghttp2_bufs \<Rightarrow> nghttp2_buf \<Rightarrow> nghttp2_bufs" where
  "set_cur bufs b = bufs\<lparr>chain := (chain bufs)[cur bufs := b]\<rparr>"

partial_function (option) nghttp2_bufs_add :: "nghttp2_bufs \<Rightarrow> bytes \<Rightarrow> (rc \<times> nghttp2_bufs) option" where
  "nghttp2_bufs_add bufs p =
     (if p = [] then Some (0, bufs)
      else
        let nwrite = min (nghttp2_buf_avail (cur_buf bufs)) (length p)
        in if nwrite = 0 then
             let (rv, bufs) = bufs_alloc_chain bufs
             in if rv \<noteq> 0 then Some (rv, bufs) else nghttp2_bufs_add bufs p
           else
             case buf_put (cur_buf bufs) (take nwrite p) of
               None \<Rightarrow> None
             | Some b \<Rightarrow> nghttp2_bufs_add (set_cur bufs b) (drop nwrite p))"

definition bufs_ensure_addb :: "nghttp2_bufs \<Rightarrow> rc \<times> nghttp2_bufs" where
  "bufs_ensure_addb bufs =
     (if nghttp2_buf_avail (cur_buf bufs) > 0 then (0, bufs) else bufs_alloc_chain bufs)"

definition nghttp2_bufs_addb :: "nghttp2_bufs \<Rightarrow> u8 \<Rightarrow> (rc \<times> nghttp2_bufs) option" where
  "nghttp2_bufs_addb bufs b =
     (let (rv, bufs) = bufs_ensure_addb bufs
      in if rv \<noteq> 0 then Some (rv, bufs)
         else do { c \<leftarrow> buf_put (cur_buf bufs) [b]; Some (0, set_cur bufs c) })"

definition nghttp2_bufs_addb_hold :: "nghttp2_bufs \<Rightarrow> u8 \<Rightarrow> (rc \<times> nghttp2_bufs) option" where
  "nghttp2_bufs_addb_hold bufs b =
     (let (rv, bufs) = bufs_ensure_addb bufs
      in if rv \<noteq> 0 then Some (rv, bufs)
         else do { c \<leftarrow> buf_store (cur_buf bufs) b; Some (0, set_cur bufs c) })"

definition nghttp2_bufs_orb :: "nghttp2_bufs \<Rightarrow> u8 \<Rightarrow> (rc \<times> nghttp2_bufs) option" where
  "nghttp2_bufs_orb bufs b =
     (let (rv, bufs) = bufs_ensure_addb bufs
      in if rv \<noteq> 0 then Some (rv, bufs)
         else do { c \<leftarrow> buf_put (cur_buf bufs) [buf_mem (cur_buf bufs) ! buf_last (cur_buf bufs) OR b];
                   Some (0, set_cur bufs c) })"

definition nghttp2_bufs_orb_hold :: "nghttp2_bufs \<Rightarrow> u8 \<Rightarrow> (rc \<times> nghttp2_bufs) option" where
  "nghttp2_bufs_orb_hold bufs b =
     (let (rv, bufs) = bufs_ensure_addb bufs
      in if rv \<noteq> 0 then Some (rv, bufs)
         else do { c \<leftarrow> buf_store (cur_buf bufs) (buf_mem (cur_buf bufs) ! buf_last (cur_buf bufs) OR b);
                   Some (0, set_cur bufs c) })"

definition buf_bytes :: "nghttp2_buf \<Rightarrow> bytes" where
  "buf_bytes b = take (nghttp2_buf_len b) (drop (buf_pos b) (buf_mem b))"

definition nghttp2_bufs_remove :: "nghttp2_bufs \<Rightarrow> int \<times> bytes option" where
  "nghttp2_bufs_remove bufs =
     (let len = sum_list (map nghttp2_buf_len (chain bufs))
      in if len = 0 then (0, None)
         else if \<not> mem_ok (bufs_mem bufs) len then (NGHTTP2_ERR_NOMEM, None)
         else (int len, Some (concat (map buf_bytes (chain bufs)))))"

definition nghttp2_bufs_remove_copy :: "nghttp2_bufs \<Rightarrow> nat \<times> bytes" where
  "nghttp2_bufs_remove_copy bufs = (nghttp2_bufs_len bufs, concat (map buf_bytes (chain bufs)))"

text \<open>The reset loop over the first \<open>k\<close> buffers; it returns them and whether it reached the \<open>k\<close>-th.\<close>

fun reset_loop :: "nat \<Rightarrow> nghttp2_buf list \<Rightarrow> nat \<Rightarrow> nghttp2_buf list \<times> bool" where
  "reset_loop off [] k = ([], False)"
| "reset_loop off (b # bs) k =
     (let b = nghttp2_buf_shift_right (nghttp2_buf_reset b) off
      in if k = 1 then ([b], True)
         else let (bs, hit) = reset_loop off bs (k - 1) in (b # bs, hit))"

definition nghttp2_bufs_reset :: "nghttp2_bufs \<Rightarrow> nghttp2_bufs" where
  "nghttp2_bufs_reset bufs =
     (let (bs, hit) = reset_loop (offset bufs) (chain bufs) (chunk_keep bufs);
          bufs = bufs\<lparr>chain := bs\<rparr>;
          bufs = (if hit then bufs\<lparr>chunk_used := chunk_keep bufs\<rparr> else bufs)
      in bufs\<lparr>cur := 0\<rparr>)"

definition nghttp2_bufs_advance :: "nghttp2_bufs \<Rightarrow> rc \<times> nghttp2_bufs" where
  "nghttp2_bufs_advance bufs = bufs_alloc_chain bufs"

definition nghttp2_bufs_next_present :: "nghttp2_bufs \<Rightarrow> bool" where
  "nghttp2_bufs_next_present bufs \<longleftrightarrow>
     cur bufs + 1 < length (chain bufs) \<and> nghttp2_buf_len (chain bufs ! (cur bufs + 1)) \<noteq> 0"

text \<open>The scan from \<open>cur\<close> for the last buffer with data.\<close>

fun seek_loop :: "nghttp2_buf list \<Rightarrow> nat \<Rightarrow> nat \<Rightarrow> nat" where
  "seek_loop [] i c = c"
| "seek_loop (b # bs) i c = (if nghttp2_buf_len b = 0 then c else seek_loop bs (i + 1) i)"

definition nghttp2_bufs_seek_last_present :: "nghttp2_bufs \<Rightarrow> nghttp2_bufs" where
  "nghttp2_bufs_seek_last_present bufs =
     bufs\<lparr>cur := seek_loop (drop (cur bufs) (chain bufs)) (cur bufs) (cur bufs)\<rparr>"

subsection \<open>The invariant of a chain\<close>

text \<open>
  Every buffer but the first starts at the offset of the chain.
  Buffers after the current one are empty: they are chunks a reset kept.  \<open>bufs_room\<close> counts the
  bytes that fit, including the chunks that may still be allocated.
\<close>

definition bufs_inv :: "nghttp2_bufs \<Rightarrow> bool" where
  "bufs_inv bufs \<longleftrightarrow>
     cur bufs < length (chain bufs) \<and> chunk_used bufs = length (chain bufs) \<and>
     chunk_used bufs \<le> max_chunk bufs \<and> offset bufs < chunk_length bufs \<and>
     1 \<le> chunk_keep bufs \<and> chunk_keep bufs \<le> max_chunk bufs \<and>
     (\<forall>b \<in> set (chain bufs). buf_pos b \<le> buf_last b \<and> buf_last b \<le> length (buf_mem b) \<and>
        length (buf_mem b) = chunk_length bufs) \<and>
     (\<forall>i. 0 < i \<and> i < length (chain bufs) \<longrightarrow> buf_pos (chain bufs ! i) = offset bufs) \<and>
     (\<forall>i. cur bufs < i \<and> i < length (chain bufs) \<longrightarrow> buf_last (chain bufs ! i) = offset bufs)"

text \<open>What appending never changes: the sizes of the chain and where its first buffer starts.\<close>

definition bufs_shape :: "nghttp2_bufs \<Rightarrow> nat \<times> nat \<times> nat \<times> nat" where
  "bufs_shape bufs = (offset bufs, chunk_length bufs, max_chunk bufs, buf_pos (chain bufs ! 0))"

definition bufs_content :: "nghttp2_bufs \<Rightarrow> bytes" where
  "bufs_content bufs = concat (map buf_bytes (chain bufs))"

definition bufs_room :: "nghttp2_bufs \<Rightarrow> nat" where
  "bufs_room bufs = nghttp2_buf_avail (cur_buf bufs) +
     (max_chunk bufs - (cur bufs + 1)) * (chunk_length bufs - offset bufs)"

definition bufs_memok :: "nghttp2_bufs \<Rightarrow> bool" where
  "bufs_memok bufs \<longleftrightarrow> (\<forall>n. mem_ok (bufs_mem bufs) n)"

lemma bufs_invD:
  assumes "bufs_inv bufs"
  shows "cur bufs < length (chain bufs)" "chunk_used bufs = length (chain bufs)"
    "chunk_used bufs \<le> max_chunk bufs" "offset bufs < chunk_length bufs"
    "buf_pos (cur_buf bufs) \<le> buf_last (cur_buf bufs)"
    "buf_last (cur_buf bufs) \<le> length (buf_mem (cur_buf bufs))"
    "length (buf_mem (cur_buf bufs)) = chunk_length bufs"
    "\<And>i. cur bufs < i \<Longrightarrow> i < length (chain bufs) \<Longrightarrow>
        buf_pos (chain bufs ! i) = offset bufs \<and> buf_last (chain bufs ! i) = offset bufs"
    "\<And>b. b \<in> set (chain bufs) \<Longrightarrow> buf_pos b \<le> buf_last b \<and> buf_last b \<le> length (buf_mem b) \<and>
        length (buf_mem b) = chunk_length bufs"
proof -
  show a: "cur bufs < length (chain bufs)" "chunk_used bufs = length (chain bufs)"
    "chunk_used bufs \<le> max_chunk bufs" "offset bufs < chunk_length bufs"
    using assms unfolding bufs_inv_def by auto
  show b: "buf_pos b \<le> buf_last b \<and> buf_last b \<le> length (buf_mem b) \<and> length (buf_mem b) = chunk_length bufs"
    if "b \<in> set (chain bufs)" for b
    using assms that unfolding bufs_inv_def by blast
  have "cur_buf bufs \<in> set (chain bufs)" using a(1) by (simp add: cur_buf_def)
  then show "buf_pos (cur_buf bufs) \<le> buf_last (cur_buf bufs)"
    "buf_last (cur_buf bufs) \<le> length (buf_mem (cur_buf bufs))"
    "length (buf_mem (cur_buf bufs)) = chunk_length bufs" using b by blast+
  show "buf_pos (chain bufs ! i) = offset bufs \<and> buf_last (chain bufs ! i) = offset bufs"
    if "cur bufs < i" "i < length (chain bufs)" for i
    using assms that unfolding bufs_inv_def by auto
qed

lemma content_split:
  assumes inv: "bufs_inv bufs"
  shows "bufs_content bufs = concat (map buf_bytes (take (cur bufs) (chain bufs))) @ buf_bytes (cur_buf bufs)"
proof -
  have "buf_bytes b = []" if b: "b \<in> set (drop (Suc (cur bufs)) (chain bufs))" for b
  proof -
    obtain i where "i < length (chain bufs) - Suc (cur bufs)" "b = chain bufs ! (Suc (cur bufs) + i)"
      using b by (auto simp: in_set_conv_nth)
    then show ?thesis using bufs_invD(8) [OF inv, of "Suc (cur bufs) + i"]
      by (simp add: buf_bytes_def nghttp2_buf_len_def)
  qed
  then have e: "concat (map buf_bytes (drop (Suc (cur bufs)) (chain bufs))) = []" by simp
  have "chain bufs = take (cur bufs) (chain bufs) @ cur_buf bufs # drop (Suc (cur bufs)) (chain bufs)"
    unfolding cur_buf_def using bufs_invD(1) [OF inv] by (simp add: id_take_nth_drop [symmetric])
  then have "bufs_content bufs = concat (map buf_bytes (take (cur bufs) (chain bufs) @ cur_buf bufs # drop (Suc (cur bufs)) (chain bufs)))"
    unfolding bufs_content_def by simp
  then show ?thesis using e by simp
qed

lemma buf_chain_new_cases:
  obtains b where "buf_chain_new al n = (0, b)" "buf_pos b = 0" "buf_last b = 0" "length (buf_mem b) = n"
  | b k where "buf_chain_new al n = (NGHTTP2_ERR_NOMEM, b)" "\<not> mem_ok al k"
  unfolding buf_chain_new_def nghttp2_buf_init2_def nghttp2_buf_reserve_def nghttp2_buf_init_def
    nghttp2_buf_cap_def Let_def
  by (cases "mem_ok al 48"; cases "mem_ok al n"; cases "n = 0") (auto simp: ng_defs)

lemma alloc_chain_cases:
  assumes inv: "bufs_inv bufs"
  shows "\<exists>rv bufs'. bufs_alloc_chain bufs = (rv, bufs') \<and> bufs_inv bufs' \<and>
    bufs_content bufs' = bufs_content bufs \<and> bufs_mem bufs' = bufs_mem bufs \<and> bufs_shape bufs' = bufs_shape bufs \<and>
    (rv = 0 \<and> 0 < nghttp2_buf_avail (cur_buf bufs') \<and>
       bufs_room bufs' + nghttp2_buf_avail (cur_buf bufs) = bufs_room bufs \<or>
     rv = NGHTTP2_ERR_BUFFER_ERROR \<and> bufs' = bufs \<and> bufs_room bufs = nghttp2_buf_avail (cur_buf bufs) \<or>
     rv = NGHTTP2_ERR_NOMEM \<and> bufs' = bufs \<and> \<not> bufs_memok bufs)"
proof -
  note d = bufs_invD [OF inv]
  have room: "bufs_room bufs = nghttp2_buf_avail (cur_buf bufs) +
      (chunk_length bufs - offset bufs) + (max_chunk bufs - (cur bufs + 2)) * (chunk_length bufs - offset bufs)"
    if "cur bufs + 1 < max_chunk bufs"
  proof -
    have "max_chunk bufs - (cur bufs + 1) = Suc (max_chunk bufs - (cur bufs + 2))" using that by simp
    then show ?thesis by (simp add: bufs_room_def)
  qed
  consider "cur bufs + 1 < length (chain bufs)"
    | "\<not> cur bufs + 1 < length (chain bufs)" "max_chunk bufs = chunk_used bufs"
    | "\<not> cur bufs + 1 < length (chain bufs)" "max_chunk bufs \<noteq> chunk_used bufs" by blast
  then show ?thesis
  proof cases
    case 1
    let ?b = "bufs\<lparr>cur := cur bufs + 1\<rparr>"
    have f: "buf_last (cur_buf ?b) = offset bufs" "length (buf_mem (cur_buf ?b)) = chunk_length bufs"
      using d(8) [of "cur bufs + 1"] d(9) [of "chain bufs ! (cur bufs + 1)"] 1 by (simp_all add: cur_buf_def)
    have "bufs_inv ?b" using inv 1 unfolding bufs_inv_def by auto
    moreover have "bufs_room ?b + nghttp2_buf_avail (cur_buf bufs) = bufs_room bufs"
      using room 1 d(2,3) f by (simp add: bufs_room_def nghttp2_buf_avail_def)
    moreover have "0 < nghttp2_buf_avail (cur_buf ?b)" using f d(4) by (simp add: nghttp2_buf_avail_def)
    moreover have "bufs_content ?b = bufs_content bufs" "bufs_shape ?b = bufs_shape bufs" by (simp_all add: bufs_content_def bufs_shape_def)
    ultimately show ?thesis using 1 by (simp add: bufs_alloc_chain_def)
  next
    case 2
    then have "bufs_room bufs = nghttp2_buf_avail (cur_buf bufs)"
      using d(1,2) by (simp add: bufs_room_def)
    then show ?thesis using 2 inv by (simp add: bufs_alloc_chain_def)
  next
    case 3
    show ?thesis
    proof (cases rule: buf_chain_new_cases [of "bufs_mem bufs" "chunk_length bufs"])
      case (2 b k)
      then show ?thesis using 3 inv by (auto simp: bufs_alloc_chain_def ng_defs bufs_memok_def)
    next
      case (1 b)
      let ?c = "nghttp2_buf_shift_right b (offset bufs)"
      let ?b = "bufs\<lparr>chunk_used := chunk_used bufs + 1, chain := chain bufs @ [?c], cur := cur bufs + 1\<rparr>"
      have c: "cur bufs + 1 = length (chain bufs)" using 3 d(1) by simp
      have cb: "cur_buf ?b = ?c" using c by (simp add: cur_buf_def)
      have f: "buf_pos ?c = offset bufs" "buf_last ?c = offset bufs" "length (buf_mem ?c) = chunk_length bufs"
        using 1 by (simp_all add: nghttp2_buf_shift_right_def)
      have i: "bufs_inv ?b" using inv c 3 f d(4) unfolding bufs_inv_def by (auto simp: nth_append less_Suc_eq)
      moreover have "bufs_room ?b + nghttp2_buf_avail (cur_buf bufs) = bufs_room bufs"
        using room 3 c d(2,3) f cb by (simp add: bufs_room_def nghttp2_buf_avail_def)
      moreover have "0 < nghttp2_buf_avail (cur_buf ?b)" using f d(4) cb by (simp add: nghttp2_buf_avail_def)
      moreover have "bufs_content ?b = bufs_content bufs"
        using f by (simp add: bufs_content_def buf_bytes_def nghttp2_buf_len_def)
      moreover have "bufs_shape ?b = bufs_shape bufs" using d(1) by (cases "chain bufs") (simp_all add: bufs_shape_def)
      ultimately show ?thesis using 1 3 by (simp add: bufs_alloc_chain_def)
    qed
  qed
qed

definition buf_ok :: "nghttp2_buf \<Rightarrow> bool" where
  "buf_ok b \<longleftrightarrow> buf_pos b \<le> buf_last b \<and> buf_last b \<le> length (buf_mem b)"

lemma buf_put_ok:
  assumes ok: "buf_ok b" and n: "length bs \<le> nghttp2_buf_avail b"
  shows "\<exists>c. buf_put b bs = Some c \<and> buf_ok c \<and> buf_bytes c = buf_bytes b @ bs \<and>
    length (buf_mem c) = length (buf_mem b) \<and> buf_pos c = buf_pos b \<and> buf_mark c = buf_mark b \<and>
    nghttp2_buf_avail c + length bs = nghttp2_buf_avail b"
proof -
  define c where "c = b\<lparr>buf_mem := take (buf_last b) (buf_mem b) @ bs @ drop (buf_last b + length bs) (buf_mem b),
                   buf_last := buf_last b + length bs\<rparr>"
  have o: "buf_pos b \<le> buf_last b" "buf_last b \<le> length (buf_mem b)" using ok by (simp_all add: buf_ok_def)
  have le: "buf_last b + length bs \<le> length (buf_mem b)"
    using n o by (simp add: nghttp2_buf_avail_def)
  have p: "buf_put b bs = Some c" using n by (simp add: buf_put_def c_def)
  have bb: "buf_bytes c = buf_bytes b @ bs"
    using o le by (simp add: buf_bytes_def nghttp2_buf_len_def c_def take_append drop_append drop_take)
  show ?thesis using p bb o le by (simp add: c_def buf_ok_def nghttp2_buf_avail_def)
qed

lemma put_cur:
  assumes inv: "bufs_inv bufs" and n: "length bs \<le> nghttp2_buf_avail (cur_buf bufs)"
  shows "\<exists>c. buf_put (cur_buf bufs) bs = Some c \<and> bufs_inv (set_cur bufs c) \<and>
    bufs_content (set_cur bufs c) = bufs_content bufs @ bs \<and> bufs_shape (set_cur bufs c) = bufs_shape bufs \<and>
    bufs_room (set_cur bufs c) + length bs = bufs_room bufs \<and>
    nghttp2_buf_avail (cur_buf (set_cur bufs c)) + length bs = nghttp2_buf_avail (cur_buf bufs)"
proof -
  note d = bufs_invD [OF inv]
  have "buf_ok (cur_buf bufs)" using d(5,6) by (simp add: buf_ok_def)
  from buf_put_ok [OF this n] obtain c where c: "buf_put (cur_buf bufs) bs = Some c" "buf_ok c"
    "buf_bytes c = buf_bytes (cur_buf bufs) @ bs" "length (buf_mem c) = length (buf_mem (cur_buf bufs))"
    "nghttp2_buf_avail c + length bs = nghttp2_buf_avail (cur_buf bufs)" "buf_pos c = buf_pos (cur_buf bufs)" by blast
  have cs: "cur_buf (set_cur bufs c) = c" using d(1) by (simp add: set_cur_def cur_buf_def)
  have i: "bufs_inv (set_cur bufs c)"
  proof -
    have "\<forall>b \<in> set ((chain bufs)[cur bufs := c]). buf_pos b \<le> buf_last b \<and> buf_last b \<le> length (buf_mem b) \<and>
        length (buf_mem b) = chunk_length bufs"
    proof
      fix b assume "b \<in> set ((chain bufs)[cur bufs := c])"
      then have "b = c \<or> b \<in> set (chain bufs)"
        using set_update_subset_insert [of "chain bufs" "cur bufs" c] by blast
      then show "buf_pos b \<le> buf_last b \<and> buf_last b \<le> length (buf_mem b) \<and> length (buf_mem b) = chunk_length bufs"
        using d(7,9) c(2,4) by (auto simp: buf_ok_def)
    qed
    then show ?thesis using inv c(6) unfolding bufs_inv_def set_cur_def cur_buf_def by (auto simp: nth_list_update)
  qed
  have sh: "bufs_shape (set_cur bufs c) = bufs_shape bufs"
    using c(6) d(1) by (auto simp: bufs_shape_def set_cur_def cur_buf_def nth_list_update)
  have "bufs_content (set_cur bufs c) = bufs_content bufs @ bs"
    unfolding content_split [OF i] content_split [OF inv] cs c(3) by (simp add: set_cur_def)
  moreover have "bufs_room (set_cur bufs c) + length bs = bufs_room bufs"
    using c(5) cs by (simp add: bufs_room_def set_cur_def)
  ultimately show ?thesis using c(1,5) i cs sh by simp
qed

text \<open>What an operation that writes \<open>p\<close> guarantees.\<close>

definition appends :: "nghttp2_bufs \<Rightarrow> bytes \<Rightarrow> (rc \<times> nghttp2_bufs) option \<Rightarrow> bool" where
  "appends bufs p r \<longleftrightarrow>
     (\<exists>rv bufs'. r = Some (rv, bufs') \<and> bufs_inv bufs' \<and> bufs_mem bufs' = bufs_mem bufs \<and> bufs_shape bufs' = bufs_shape bufs \<and>
        (rv = 0 \<longrightarrow> bufs_content bufs' = bufs_content bufs @ p \<and> bufs_room bufs' + length p = bufs_room bufs) \<and>
        (rv \<noteq> 0 \<longrightarrow> (\<exists>n < length p. bufs_content bufs' = bufs_content bufs @ take n p)) \<and>
        (rv \<noteq> 0 \<longrightarrow> (rv = NGHTTP2_ERR_BUFFER_ERROR \<and> bufs_room bufs < length p) \<or>
                    (rv = NGHTTP2_ERR_NOMEM \<and> \<not> bufs_memok bufs)))"

lemma room_bound: "bufs_room bufs = nghttp2_buf_avail (cur_buf bufs) \<Longrightarrow> nghttp2_buf_avail (cur_buf bufs) = 0 \<Longrightarrow> p \<noteq> [] \<Longrightarrow> bufs_room bufs < length p"
  by simp

lemma bufs_add_appends: "bufs_inv bufs \<Longrightarrow> appends bufs p (nghttp2_bufs_add bufs p)"
proof (induction "2 * length p + (if nghttp2_buf_avail (cur_buf bufs) = 0 then 1 else 0)"
    arbitrary: bufs p rule: less_induct)
  case less
  note inv = less.prems
  let ?av = "nghttp2_buf_avail (cur_buf bufs)"
  consider "p = []" | "p \<noteq> []" "?av = 0" | "p \<noteq> []" "0 < ?av" by blast
  then show ?case
  proof cases
    case 1
    then show ?thesis using inv by (subst nghttp2_bufs_add.simps) (simp add: appends_def)
  next
    case 2
    obtain rv b1 where a: "bufs_alloc_chain bufs = (rv, b1)" "bufs_inv b1" "bufs_content b1 = bufs_content bufs"
      "bufs_mem b1 = bufs_mem bufs" "bufs_shape b1 = bufs_shape bufs"
      "rv = 0 \<and> 0 < nghttp2_buf_avail (cur_buf b1) \<and> bufs_room b1 + ?av = bufs_room bufs \<or>
       rv = NGHTTP2_ERR_BUFFER_ERROR \<and> b1 = bufs \<and> bufs_room bufs = ?av \<or>
       rv = NGHTTP2_ERR_NOMEM \<and> b1 = bufs \<and> \<not> bufs_memok bufs"
      using alloc_chain_cases [OF inv] by blast
    have step: "nghttp2_bufs_add bufs p = (if rv \<noteq> 0 then Some (rv, b1) else nghttp2_bufs_add b1 p)"
      using 2 a(1) by (subst nghttp2_bufs_add.simps) simp
    show ?thesis
    proof (cases "rv = 0")
      case True
      have "appends b1 p (nghttp2_bufs_add b1 p)"
        using a 2 True by (intro less.hyps) (auto simp: ng_defs)
      then show ?thesis using step True a 2 by (simp add: appends_def bufs_memok_def ng_defs)
    next
      case False
      then show ?thesis using step a 2 inv by (auto simp: appends_def intro!: exI [of _ 0])
    qed
  next
    case 3
    define n where "n = min ?av (length p)"
    have n: "0 < n" "n \<le> length p" "n \<le> ?av" using 3 by (auto simp: n_def)
    obtain c where c: "buf_put (cur_buf bufs) (take n p) = Some c" "bufs_inv (set_cur bufs c)"
      "bufs_content (set_cur bufs c) = bufs_content bufs @ take n p"
      "bufs_room (set_cur bufs c) + length (take n p) = bufs_room bufs" "bufs_shape (set_cur bufs c) = bufs_shape bufs"
      using put_cur [OF inv, of "take n p"] n by auto
    have step: "nghttp2_bufs_add bufs p = nghttp2_bufs_add (set_cur bufs c) (drop n p)"
    proof -
      have "(n = 0) = False" "(p = []) = False" using n 3 by auto
      then show ?thesis
        by (subst nghttp2_bufs_add.simps) (simp only: Let_def c(1) if_False option.case flip: n_def)
    qed
    have "appends (set_cur bufs c) (drop n p) (nghttp2_bufs_add (set_cur bufs c) (drop n p))"
      using c(2) n by (intro less.hyps) auto
    then obtain rv b' where r: "nghttp2_bufs_add (set_cur bufs c) (drop n p) = Some (rv, b')" "bufs_inv b'"
      "bufs_mem b' = bufs_mem bufs \<and> bufs_shape b' = bufs_shape bufs"
      "rv = 0 \<longrightarrow> bufs_content b' = bufs_content (set_cur bufs c) @ drop n p \<and>
         bufs_room b' + length (drop n p) = bufs_room (set_cur bufs c)"
      "rv \<noteq> 0 \<longrightarrow> (\<exists>k < length (drop n p). bufs_content b' = bufs_content (set_cur bufs c) @ take k (drop n p))"
      "rv \<noteq> 0 \<longrightarrow> rv = NGHTTP2_ERR_BUFFER_ERROR \<and> bufs_room (set_cur bufs c) < length (drop n p) \<or>
         rv = NGHTTP2_ERR_NOMEM \<and> \<not> bufs_memok bufs"
      using c(5) by (auto simp: appends_def set_cur_def bufs_memok_def)
    have "bufs_content b' = bufs_content bufs @ p \<and> bufs_room b' + length p = bufs_room bufs" if "rv = 0"
      using r(4) c(3,4) that by auto
    moreover have "\<exists>k < length p. bufs_content b' = bufs_content bufs @ take k p" if nz: "rv \<noteq> 0"
    proof -
      obtain k where "k < length (drop n p)" "bufs_content b' = bufs_content (set_cur bufs c) @ take k (drop n p)"
        using r(5) nz by blast
      then show ?thesis using c(3) by (intro exI [of _ "n + k"]) (simp add: take_add)
    qed
    moreover have "rv = NGHTTP2_ERR_BUFFER_ERROR \<and> bufs_room bufs < length p \<or> rv = NGHTTP2_ERR_NOMEM \<and> \<not> bufs_memok bufs"
      if "rv \<noteq> 0" using r(6) c(4) that by auto
    ultimately show ?thesis using step r(1-3) by (auto simp: appends_def)
  qed
qed

lemma bufs_addb_appends:
  assumes inv: "bufs_inv bufs"
  shows "appends bufs [x] (nghttp2_bufs_addb bufs x)"
proof -
  obtain rv b1 where e: "bufs_ensure_addb bufs = (rv, b1)" "bufs_inv b1" "bufs_content b1 = bufs_content bufs"
    "bufs_mem b1 = bufs_mem bufs" "bufs_shape b1 = bufs_shape bufs"
    "rv = 0 \<and> 0 < nghttp2_buf_avail (cur_buf b1) \<and> bufs_room b1 = bufs_room bufs \<or>
     rv = NGHTTP2_ERR_BUFFER_ERROR \<and> bufs_room bufs = 0 \<or> rv = NGHTTP2_ERR_NOMEM \<and> \<not> bufs_memok bufs"
    using alloc_chain_cases [OF inv] inv unfolding bufs_ensure_addb_def
    by (cases "0 < nghttp2_buf_avail (cur_buf bufs)") auto
  show ?thesis
  proof (cases "rv = 0")
    case True
    then have "length [x] \<le> nghttp2_buf_avail (cur_buf b1)" using e(6) by (auto simp: ng_defs)
    from put_cur [OF e(2) this] True e show ?thesis
      by (auto simp: nghttp2_bufs_addb_def appends_def ng_defs set_cur_def)
  next
    case False
    then show ?thesis using e by (auto simp: nghttp2_bufs_addb_def appends_def intro!: exI [of _ 0])
  qed
qed

subsection \<open>The interface of a byte sink\<close>

text \<open>
  What a serialiser relies on.  \<open>wr\<close> describes an operation by the bytes it appends, and
  sequencing two operations, stopping at the first error, appends both.
\<close>

locale byte_sink =
  fixes inv :: "'s \<Rightarrow> bool" and content :: "'s \<Rightarrow> bytes" and room :: "'s \<Rightarrow> nat" and good :: "'s \<Rightarrow> bool"
    and shape :: "'s \<Rightarrow> 't" and put :: "'s \<Rightarrow> bytes \<Rightarrow> (rc \<times> 's) option"
  assumes put_inv: "inv s \<Longrightarrow> \<exists>rv s'. put s p = Some (rv, s') \<and> inv s' \<and> good s' = good s \<and> shape s' = shape s \<and>
      (rv = 0 \<longrightarrow> content s' = content s @ p \<and> room s' + length p = room s) \<and>
      (good s \<and> length p \<le> room s \<longrightarrow> rv = 0)"
begin

definition res :: "'s \<Rightarrow> bytes \<Rightarrow> (rc \<times> 's) option \<Rightarrow> bool" where
  "res s p r \<longleftrightarrow> (\<exists>rv s'. r = Some (rv, s') \<and> inv s' \<and> good s' = good s \<and> shape s' = shape s \<and>
      (rv = 0 \<longrightarrow> content s' = content s @ p \<and> room s' + length p = room s) \<and>
      (good s \<and> length p \<le> room s \<longrightarrow> rv = 0))"

definition wr :: "('s \<Rightarrow> (rc \<times> 's) option) \<Rightarrow> bytes \<Rightarrow> bool" where
  "wr w p \<longleftrightarrow> (\<forall>s. inv s \<longrightarrow> res s p (w s))"

lemma res_ok: "res s p (Some (0, s1)) \<Longrightarrow> res s1 p' r \<Longrightarrow> res s (p @ p') r"
  unfolding res_def by auto

lemma res_fail: "res s p (Some (rv, s1)) \<Longrightarrow> rv \<noteq> 0 \<Longrightarrow> res s (p @ p') (Some (rv, s1))"
  unfolding res_def by auto

lemma res_inv: "res s p (Some (rv, s1)) \<Longrightarrow> inv s1"
  unfolding res_def by auto

lemma res_cases:
  assumes "res s p r"
  obtains rv s' where "r = Some (rv, s')" "res s p (Some (rv, s'))" "inv s'"
  using assms unfolding res_def by blast

lemma wr_put: "wr (\<lambda>s. put s p) p"
  using put_inv by (simp add: wr_def res_def)

lemma res_nop: "inv s \<Longrightarrow> res s [] (Some (0, s))"
  by (simp add: res_def)

lemma wr_nop: "wr (\<lambda>s. Some (0, s)) []"
  by (simp add: wr_def res_nop)

lemma wr_seq:
  assumes "wr w p" "wr w' p'"
  shows "wr (\<lambda>s. case w s of None \<Rightarrow> None | Some (rv, s) \<Rightarrow> if rv \<noteq> 0 then Some (rv, s) else w' s) (p @ p')"
  unfolding wr_def
proof (intro allI impI)
  fix s assume i: "inv s"
  from assms(1) i have "res s p (w s)" unfolding wr_def by blast
  then obtain rv s1 where 1: "w s = Some (rv, s1)" "res s p (Some (rv, s1))" "inv s1" by (rule res_cases)
  have "res s1 p' (w' s1)" using assms(2) 1(3) unfolding wr_def by blast
  then show "res s (p @ p') (case w s of None \<Rightarrow> None | Some (rv, s) \<Rightarrow> if rv \<noteq> 0 then Some (rv, s) else w' s)"
    using 1 res_ok res_fail by (cases "rv = 0") auto
qed

end

lemma appends_sink:
  "appends bufs p r \<Longrightarrow> \<exists>rv bufs'. r = Some (rv, bufs') \<and> bufs_inv bufs' \<and> bufs_memok bufs' = bufs_memok bufs \<and> bufs_shape bufs' = bufs_shape bufs \<and>
      (rv = 0 \<longrightarrow> bufs_content bufs' = bufs_content bufs @ p \<and> bufs_room bufs' + length p = bufs_room bufs) \<and>
      (bufs_memok bufs \<and> length p \<le> bufs_room bufs \<longrightarrow> rv = 0)"
  by (auto simp: appends_def bufs_memok_def)

interpretation sink: byte_sink bufs_inv bufs_content bufs_room bufs_memok bufs_shape nghttp2_bufs_add
  by unfold_locales (rule appends_sink [OF bufs_add_appends])

lemma wr_addb: "sink.wr (\<lambda>bufs. nghttp2_bufs_addb bufs x) [x]"
  unfolding sink.wr_def sink.res_def using appends_sink [OF bufs_addb_appends] by blast

subsection \<open>Creation and reset\<close>

lemma bufs_init3_inv:
  assumes "nghttp2_bufs_init3 al n mx keep off = Inr bufs" "off < n"
  shows "bufs_inv bufs \<and> bufs_content bufs = [] \<and> bufs_room bufs = mx * (n - off) \<and> bufs_mem bufs = al"
proof (cases rule: buf_chain_new_cases [of al n])
  case (1 b)
  then have b: "bufs = \<lparr>chain = [nghttp2_buf_shift_right b off], cur = 0, bufs_mem = al,
      chunk_length = n, max_chunk = mx, chunk_used = 1, chunk_keep = keep, offset = off\<rparr>" "keep \<noteq> 0" "keep \<le> mx"
    using assms by (auto simp: nghttp2_bufs_init3_def split: if_splits)
  then have "0 < mx" by simp
  then have "bufs_room bufs = mx * (n - off)"
    using 1 b(1) by (cases mx) (simp_all add: bufs_room_def cur_buf_def nghttp2_buf_avail_def nghttp2_buf_shift_right_def)
  then show ?thesis using 1 b assms(2)
    by (auto simp: bufs_inv_def bufs_content_def buf_bytes_def nghttp2_buf_len_def nghttp2_buf_shift_right_def)
next
  case (2 b k)
  then show ?thesis using assms by (auto simp: nghttp2_bufs_init3_def ng_defs split: if_splits)
qed

lemma reset_loop_spec:
  "1 \<le> k \<Longrightarrow> reset_loop off bs k =
     (map (\<lambda>b. nghttp2_buf_shift_right (nghttp2_buf_reset b) off) (take k bs), k \<le> length bs)"
proof (induction bs arbitrary: k)
  case Nil
  then show ?case by simp
next
  case (Cons b bs)
  show ?case
  proof (cases "k = 1")
    case False
    then have "1 \<le> k - 1" "k = Suc (k - 1)" using Cons.prems by simp_all
    then show ?thesis using Cons.IH [of "k - 1"] False by (cases k) auto
  qed simp
qed

lemma bufs_reset_inv:
  assumes inv: "bufs_inv bufs"
  shows "bufs_inv (nghttp2_bufs_reset bufs) \<and> bufs_content (nghttp2_bufs_reset bufs) = [] \<and>
    bufs_room (nghttp2_bufs_reset bufs) = max_chunk bufs * (chunk_length bufs - offset bufs)"
proof -
  note d = bufs_invD [OF inv]
  have k: "1 \<le> chunk_keep bufs" "chunk_keep bufs \<le> max_chunk bufs" using inv by (simp_all add: bufs_inv_def)
  let ?f = "\<lambda>b. nghttp2_buf_shift_right (nghttp2_buf_reset b) (offset bufs)"
  define r where "r = nghttp2_bufs_reset bufs"
  have r: "chain r = map ?f (take (chunk_keep bufs) (chain bufs))" "cur r = 0"
    "chunk_used r = length (chain r)" "max_chunk r = max_chunk bufs" "chunk_length r = chunk_length bufs"
    "offset r = offset bufs" "chunk_keep r = chunk_keep bufs"
    unfolding r_def nghttp2_bufs_reset_def reset_loop_spec [OF k(1)] Let_def using d(2) by auto
  have f: "buf_pos b = offset bufs \<and> buf_last b = offset bufs \<and> length (buf_mem b) = chunk_length bufs"
    if "b \<in> set (chain r)" for b
    using that d(9) by (auto simp: r(1) nghttp2_buf_shift_right_def nghttp2_buf_reset_def dest: in_set_takeD)
  have ne: "chain r \<noteq> []" using r(1) k d(1) by auto
  have i: "bufs_inv r"
  proof -
    have "length (chain r) \<le> max_chunk r" using r(1,4) k by simp
    moreover have "buf_pos (chain r ! i) = offset r \<and> buf_last (chain r ! i) = offset r"
      if "i < length (chain r)" for i using f [OF nth_mem [OF that]] r(6) by simp
    moreover have "\<forall>b \<in> set (chain r). buf_pos b \<le> buf_last b \<and> buf_last b \<le> length (buf_mem b) \<and>
        length (buf_mem b) = chunk_length r" using f r(5) d(4) by simp
    ultimately show ?thesis using ne r(2-7) k d(4) unfolding bufs_inv_def by auto
  qed
  moreover have "bufs_content r = []"
    using f by (auto simp: bufs_content_def buf_bytes_def nghttp2_buf_len_def)
  moreover have "bufs_room r = max_chunk bufs * (chunk_length bufs - offset bufs)"
  proof -
    have "cur_buf r \<in> set (chain r)" using ne r(2) by (simp add: cur_buf_def)
    moreover have "max_chunk bufs = Suc (max_chunk bufs - 1)" using k by simp
    moreover have "m * c = c + (m - 1) * c" if "m = Suc (m - 1)" for m c :: nat
      using that by (metis mult_Suc)
    ultimately show ?thesis using f [of "cur_buf r"] r by (simp add: bufs_room_def nghttp2_buf_avail_def)
  qed
  ultimately show ?thesis by (simp add: r_def)
qed

subsection \<open>Properties\<close>

text \<open>
  C34.  Appending to a chain of buffers is exact.  When allocations succeed, the bytes are
  appended if and only if they fit in the room of the chain, which shrinks by their number; if they
  do not fit, the call reports a buffer error after writing a proper prefix.  No byte is written
  outside a chunk and the loop ends.
\<close>

theorem bufs_add_exact:
  assumes "bufs_inv bufs" "bufs_memok bufs"
  shows "\<exists>rv bufs'. nghttp2_bufs_add bufs p = Some (rv, bufs') \<and> bufs_inv bufs' \<and>
    (if length p \<le> bufs_room bufs
     then rv = 0 \<and> bufs_content bufs' = bufs_content bufs @ p \<and> bufs_room bufs' + length p = bufs_room bufs
     else rv = NGHTTP2_ERR_BUFFER_ERROR \<and> (\<exists>n < length p. bufs_content bufs' = bufs_content bufs @ take n p))"
  using bufs_add_appends [OF assms(1), of p] assms(2) unfolding appends_def by auto

theorem bufs_add_exact_witness:
  "\<exists>bufs rv bufs'. nghttp2_bufs_init3 \<lparr>mem_ok = \<lambda>_. True, mem_fill = \<lambda>_. 0\<rparr> 4 3 1 1 = Inr bufs \<and>
     nghttp2_bufs_add bufs [1, 2, 3, 4, 5] = Some (rv, bufs') \<and> rv = 0 \<and>
     bufs_content bufs' = [1, 2, 3, 4, 5]"
proof -
  obtain bufs where b: "nghttp2_bufs_init3 \<lparr>mem_ok = \<lambda>_. True, mem_fill = \<lambda>_. 0\<rparr> 4 3 1 1 = Inr bufs"
    by (simp add: nghttp2_bufs_init3_def buf_chain_new_def nghttp2_buf_init2_def nghttp2_buf_reserve_def
        nghttp2_buf_cap_def nghttp2_buf_init_def Let_def)
  from bufs_init3_inv [OF b] have "bufs_inv bufs" "bufs_memok bufs" "bufs_content bufs = []" "bufs_room bufs = 9"
    by (simp_all add: bufs_memok_def)
  with bufs_add_exact [of bufs "[1, 2, 3, 4, 5]"] b show ?thesis by auto
qed

text \<open>
  A chain can be reused: a reset drops the chunks over the limit to keep, empties the rest and
  gives back the whole room, and what is added afterwards is read back by
  \<open>nghttp2_bufs_remove_copy\<close> with its length.
\<close>

theorem bufs_reset_then_read_back:
  assumes "bufs_inv bufs" "bufs_memok bufs" "length p \<le> max_chunk bufs * (chunk_length bufs - offset bufs)"
  shows "\<exists>bufs'. nghttp2_bufs_add (nghttp2_bufs_reset bufs) p = Some (0, bufs') \<and>
    nghttp2_bufs_remove_copy bufs' = (length p, p)"
proof -
  note r = bufs_reset_inv [OF assms(1)]
  have m: "bufs_memok (nghttp2_bufs_reset bufs)"
    using assms(2) by (auto simp: bufs_memok_def nghttp2_bufs_reset_def Let_def split: prod.split)
  obtain bufs' where b: "nghttp2_bufs_add (nghttp2_bufs_reset bufs) p = Some (0, bufs')" "bufs_inv bufs'"
    "bufs_content bufs' = p"
    using appends_sink [OF bufs_add_appends, of "nghttp2_bufs_reset bufs" p] r m assms(3) by auto
  have "nghttp2_buf_len c = length (buf_bytes c)" if "c \<in> set (chain bufs')" for c
    using bufs_invD(9) [OF b(2) that] by (auto simp: buf_bytes_def nghttp2_buf_len_def)
  then have eq: "map nghttp2_buf_len (chain bufs') = map (length \<circ> buf_bytes) (chain bufs')" by simp
  have "nghttp2_bufs_len bufs' = length (bufs_content bufs')"
    unfolding nghttp2_bufs_len_def bufs_content_def length_concat eq by simp
  then show ?thesis using b by (simp add: nghttp2_bufs_remove_copy_def bufs_content_def)
qed

theorem bufs_reset_then_read_back_witness:
  "\<exists>bufs bufs'. nghttp2_bufs_init3 \<lparr>mem_ok = \<lambda>_. True, mem_fill = \<lambda>_. 0\<rparr> 4 3 1 1 = Inr bufs \<and>
     nghttp2_bufs_add (nghttp2_bufs_reset bufs) [9, 8, 7, 6] = Some (0, bufs') \<and>
     nghttp2_bufs_remove_copy bufs' = (4, [9, 8, 7, 6])"
proof -
  obtain bufs where b: "nghttp2_bufs_init3 \<lparr>mem_ok = \<lambda>_. True, mem_fill = \<lambda>_. 0\<rparr> 4 3 1 1 = Inr bufs"
    and f: "max_chunk bufs = 3" "chunk_length bufs = 4" "offset bufs = 1"
    by (simp add: nghttp2_bufs_init3_def buf_chain_new_def nghttp2_buf_init2_def nghttp2_buf_reserve_def
        nghttp2_buf_cap_def nghttp2_buf_init_def Let_def)
  from bufs_init3_inv [OF b] have "bufs_inv bufs" "bufs_memok bufs" by (simp_all add: bufs_memok_def)
  from bufs_reset_then_read_back [OF this, of "[9, 8, 7, 6]"] f b show ?thesis by auto
qed

end
