(* ===== verification/Huffman_Tables.thy ===== *)
theory Huffman_Tables
  imports Hd_Huffman_Data
begin

text \<open>
  The Huffman code of the tables.  A decoder state stands for a string of bits that is a proper
  prefix of some code: \<open>huff_prefix\<close> lists these strings as length and value, and \<open>huff_child\<close> the
  two successors of each state, which is the code tree.  The lemmas check every entry of the
  source tables against them, and conclude that the code is prefix-free and that one step of the
  decode table consumes four bits of it.
\<close>

subsection \<open>Bit strings\<close>

primrec bits_of :: "nat \<Rightarrow> nat \<Rightarrow> bool list" where
  "bits_of 0 x = []"
| "bits_of (Suc n) x = bits_of n (x div 2) @ [odd x]"

lemma length_bits_of [simp]: "length (bits_of n x) = n"
  by (induction n arbitrary: x) simp_all

lemma bits_of_append: "bits_of (a + b) x = bits_of a (x div 2 ^ b) @ bits_of b (x mod 2 ^ b)"
proof (induction b arbitrary: x)
  case 0
  then show ?case by simp
next
  case (Suc b)
  have "x div 2 div 2 ^ b = x div 2 ^ Suc b" by (simp add: div_mult2_eq)
  moreover have "x div 2 mod 2 ^ b = x mod 2 ^ Suc b div 2" by (simp add: mod_mult2_eq)
  moreover have "odd (x mod 2 ^ Suc b) = odd x" by (simp add: odd_iff_mod_2_eq_one mod_mod_cancel)
  ultimately show ?case using Suc [of "x div 2"] by simp
qed

lemma bits_of_mod [simp]: "bits_of n (x mod 2 ^ n) = bits_of n x"
  using bits_of_append [of 0 n x] by simp

lemma bits_of_inj: "x < 2 ^ n \<Longrightarrow> y < 2 ^ n \<Longrightarrow> bits_of n x = bits_of n y \<Longrightarrow> x = y"
proof (induction n arbitrary: x y)
  case 0
  then show ?case by simp
next
  case (Suc n)
  then have "bits_of n (x div 2) = bits_of n (y div 2)" "odd x = odd y" by simp_all
  moreover have "x div 2 < 2 ^ n" "y div 2 < 2 ^ n" using Suc.prems by (auto simp: less_mult_imp_div_less)
  ultimately have "x div 2 = y div 2" using Suc.IH by blast
  then show ?case using \<open>odd x = odd y\<close> by (metis div_mod_decomp parity_cases odd_iff_mod_2_eq_one even_iff_mod_2_eq_zero)
qed

lemma bits_of_ones: "bits_of n (2 ^ n - 1) = replicate n True"
proof (induction n)
  case (Suc n)
  have "(2 ^ Suc n - 1) div 2 = (2 :: nat) ^ n - 1" by simp
  moreover have "odd ((2 :: nat) ^ Suc n - 1)" by simp
  ultimately show ?case using Suc by (simp add: replicate_append_same)
qed simp

lemma bits_of_ones_iff: "x < 2 ^ n \<Longrightarrow> bits_of n x = replicate n True \<longleftrightarrow> x = 2 ^ n - 1"
  using bits_of_inj [of x n "2 ^ n - 1"] bits_of_ones [of n] by auto

text \<open>The code of a symbol is the top bits of a 32-bit value.\<close>

primrec top_bits :: "nat \<Rightarrow> nat \<Rightarrow> bool list" where
  "top_bits 0 c = []"
| "top_bits (Suc k) c = (c \<ge> 2147483648) # top_bits k (2 * c mod 4294967296)"

lemma top_bits_numeral [simp]:
  "top_bits (numeral n) c = (c \<ge> 2147483648) # top_bits (pred_numeral n) (2 * c mod 4294967296)"
  by (subst numeral_eq_Suc [of n]) (rule top_bits.simps(2))

lemma top_bits_bits_of:
  "k \<le> 32 \<Longrightarrow> c < 4294967296 \<Longrightarrow> top_bits k c = bits_of k (c div 2 ^ (32 - k))"
proof (induction k arbitrary: c)
  case 0
  then show ?case by simp
next
  case (Suc k)
  let ?c = "2 * c mod 4294967296"
  have "32 - k = Suc (31 - k)" using Suc.prems by simp
  then have p: "(2 :: nat) ^ (32 - k) = 2 * 2 ^ (31 - k)" by (simp only: power_Suc)
  have b: "2 ^ (31 - k) * 2 ^ k = (2147483648 :: nat)" using Suc.prems by (simp flip: power_add)
  have e1: "?c div 2 ^ (32 - k) = c div 2 ^ (31 - k) mod 2 ^ k"
  proof -
    have "?c = 2 * (c mod 2147483648)" using mult_mod_right [of 2 c 2147483648] by simp
    also have "\<dots> div 2 ^ (32 - k) = c mod 2147483648 div 2 ^ (31 - k)" unfolding p by simp
    also have "\<dots> = c div 2 ^ (31 - k) mod 2 ^ k" unfolding b [symmetric] by (simp add: mod_mult2_eq)
    finally show ?thesis .
  qed
  have "bits_of (Suc k) (c div 2 ^ (31 - k)) =
      bits_of 1 (c div 2 ^ (31 - k) div 2 ^ k) @ bits_of k (c div 2 ^ (31 - k) mod 2 ^ k)"
    using bits_of_append [of 1 k "c div 2 ^ (31 - k)"] by simp
  also have "c div 2 ^ (31 - k) div 2 ^ k = c div 2147483648" unfolding b [symmetric] by (simp add: div_mult2_eq)
  also have "bits_of 1 (c div 2147483648) = [c \<ge> 2147483648]"
  proof -
    have "c div 2147483648 = 0 \<or> c div 2147483648 = 1" using Suc.prems by linarith
    moreover have "c \<ge> 2147483648 \<longleftrightarrow> 0 < c div 2147483648" by (simp add: div_greater_zero_iff)
    ultimately show ?thesis by auto
  qed
  finally have "bits_of (Suc k) (c div 2 ^ (31 - k)) = (c \<ge> 2147483648) # bits_of k (?c div 2 ^ (32 - k))"
    by (simp add: e1)
  moreover have "top_bits k ?c = bits_of k (?c div 2 ^ (32 - k))" using Suc.prems by (intro Suc.IH) simp_all
  ultimately show ?case by simp
qed

subsection \<open>Reading the tables\<close>

primrec nth_eqs :: "nat \<Rightarrow> 'a list \<Rightarrow> (nat \<Rightarrow> 'a) \<Rightarrow> bool" where
  "nth_eqs i [] f \<longleftrightarrow> True"
| "nth_eqs i (x # xs) f \<longleftrightarrow> f i = x \<and> nth_eqs (Suc i) xs f"

lemma nth_eqs_append: "nth_eqs (length ys) xs (nth (ys @ xs))"
proof (induction xs arbitrary: ys)
  case (Cons x xs)
  from Cons [of "ys @ [x]"] show ?case by simp
qed simp

lemma nth_eqs_nth: "t = xs \<Longrightarrow> nth_eqs 0 xs (nth t)"
  using nth_eqs_append [of "[]" xs] by simp

definition huff_prefix :: "(nat \<times> nat) list" where
  "huff_prefix = [
    (0, 0), (1, 0), (2, 0), (3, 0), (4, 0), (4, 1), (3, 1), (4, 2), (4, 3), (2, 1), (3, 2),
    (4, 4), (4, 5), (5, 10), (5, 11), (3, 3), (4, 6), (5, 12), (5, 13), (4, 7), (5, 14), (5, 15),
    (1, 1), (2, 2), (3, 4), (4, 8), (5, 16), (5, 17), (4, 9), (5, 18), (5, 19), (3, 5), (4, 10),
    (5, 20), (5, 21), (4, 11), (5, 22), (5, 23), (6, 46), (6, 47), (2, 3), (3, 6), (4, 12),
    (5, 24), (6, 48), (6, 49), (5, 25), (6, 50), (6, 51), (4, 13), (5, 26), (6, 52), (6, 53),
    (5, 27), (6, 54), (6, 55), (3, 7), (4, 14), (5, 28), (6, 56), (6, 57), (5, 29), (6, 58),
    (6, 59), (4, 15), (5, 30), (6, 60), (6, 61), (5, 31), (6, 62), (7, 124), (7, 125), (6, 63),
    (7, 126), (7, 127), (8, 254), (9, 508), (9, 509), (8, 255), (9, 510), (10, 1021), (9, 511),
    (10, 1022), (11, 2045), (10, 1023), (11, 2046), (12, 4092), (12, 4093), (11, 2047),
    (12, 4094), (12, 4095), (13, 8190), (13, 8191), (14, 16382), (14, 16383), (15, 32767),
    (16, 65534), (17, 131068), (18, 262136), (18, 262137), (19, 524275), (17, 131069),
    (18, 262138), (19, 524276), (19, 524277), (18, 262139), (19, 524278), (19, 524279),
    (20, 1048558), (20, 1048559), (16, 65535), (17, 131070), (18, 262140), (19, 524280),
    (20, 1048560), (20, 1048561), (19, 524281), (20, 1048562), (20, 1048563), (18, 262141),
    (19, 524282), (20, 1048564), (21, 2097129), (20, 1048565), (21, 2097130), (21, 2097131),
    (19, 524283), (20, 1048566), (21, 2097132), (21, 2097133), (20, 1048567), (21, 2097134),
    (21, 2097135), (17, 131071), (18, 262142), (19, 524284), (20, 1048568), (21, 2097136),
    (21, 2097137), (20, 1048569), (21, 2097138), (21, 2097139), (19, 524285), (20, 1048570),
    (21, 2097140), (21, 2097141), (20, 1048571), (21, 2097142), (22, 4194284), (22, 4194285),
    (21, 2097143), (22, 4194286), (22, 4194287), (18, 262143), (19, 524286), (20, 1048572),
    (21, 2097144), (22, 4194288), (22, 4194289), (21, 2097145), (22, 4194290), (22, 4194291),
    (20, 1048573), (21, 2097146), (22, 4194292), (22, 4194293), (21, 2097147), (22, 4194294),
    (22, 4194295), (19, 524287), (20, 1048574), (21, 2097148), (22, 4194296), (22, 4194297),
    (21, 2097149), (22, 4194298), (23, 8388597), (22, 4194299), (23, 8388598), (23, 8388599),
    (20, 1048575), (21, 2097150), (22, 4194300), (23, 8388600), (23, 8388601), (22, 4194301),
    (23, 8388602), (23, 8388603), (24, 16777206), (24, 16777207), (21, 2097151), (22, 4194302),
    (23, 8388604), (24, 16777208), (25, 33554416), (25, 33554417), (24, 16777209),
    (25, 33554418), (25, 33554419), (23, 8388605), (24, 16777210), (25, 33554420),
    (25, 33554421), (24, 16777211), (25, 33554422), (25, 33554423), (26, 67108847),
    (22, 4194303), (23, 8388606), (24, 16777212), (25, 33554424), (26, 67108848), (26, 67108849),
    (25, 33554425), (26, 67108850), (26, 67108851), (24, 16777213), (25, 33554426),
    (26, 67108852), (26, 67108853), (25, 33554427), (26, 67108854), (26, 67108855),
    (23, 8388607), (24, 16777214), (25, 33554428), (26, 67108856), (27, 134217713),
    (26, 67108857), (27, 134217714), (27, 134217715), (25, 33554429), (26, 67108858),
    (27, 134217716), (27, 134217717), (26, 67108859), (27, 134217718), (27, 134217719),
    (24, 16777215), (25, 33554430), (26, 67108860), (27, 134217720), (27, 134217721),
    (26, 67108861), (27, 134217722), (27, 134217723), (25, 33554431), (26, 67108862),
    (27, 134217724), (27, 134217725), (26, 67108863), (27, 134217726), (27, 134217727),
    (28, 268435455), (29, 536870910), (29, 536870911)]"

definition huff_child :: "((nat + nat) \<times> (nat + nat)) list" where
  "huff_child = [
    (Inl 1, Inl 22), (Inl 2, Inl 9), (Inl 3, Inl 6), (Inl 4, Inl 5), (Inr 48, Inr 49),
    (Inr 50, Inr 97), (Inl 7, Inl 8), (Inr 99, Inr 101), (Inr 105, Inr 111), (Inl 10, Inl 15),
    (Inl 11, Inl 12), (Inr 115, Inr 116), (Inl 13, Inl 14), (Inr 32, Inr 37), (Inr 45, Inr 46),
    (Inl 16, Inl 19), (Inl 17, Inl 18), (Inr 47, Inr 51), (Inr 52, Inr 53), (Inl 20, Inl 21),
    (Inr 54, Inr 55), (Inr 56, Inr 57), (Inl 23, Inl 40), (Inl 24, Inl 31), (Inl 25, Inl 28),
    (Inl 26, Inl 27), (Inr 61, Inr 65), (Inr 95, Inr 98), (Inl 29, Inl 30), (Inr 100, Inr 102),
    (Inr 103, Inr 104), (Inl 32, Inl 35), (Inl 33, Inl 34), (Inr 108, Inr 109),
    (Inr 110, Inr 112), (Inl 36, Inl 37), (Inr 114, Inr 117), (Inl 38, Inl 39), (Inr 58, Inr 66),
    (Inr 67, Inr 68), (Inl 41, Inl 56), (Inl 42, Inl 49), (Inl 43, Inl 46), (Inl 44, Inl 45),
    (Inr 69, Inr 70), (Inr 71, Inr 72), (Inl 47, Inl 48), (Inr 73, Inr 74), (Inr 75, Inr 76),
    (Inl 50, Inl 53), (Inl 51, Inl 52), (Inr 77, Inr 78), (Inr 79, Inr 80), (Inl 54, Inl 55),
    (Inr 81, Inr 82), (Inr 83, Inr 84), (Inl 57, Inl 64), (Inl 58, Inl 61), (Inl 59, Inl 60),
    (Inr 85, Inr 86), (Inr 87, Inr 89), (Inl 62, Inl 63), (Inr 106, Inr 107), (Inr 113, Inr 118),
    (Inl 65, Inl 68), (Inl 66, Inl 67), (Inr 119, Inr 120), (Inr 121, Inr 122), (Inl 69, Inl 72),
    (Inl 70, Inl 71), (Inr 38, Inr 42), (Inr 44, Inr 59), (Inl 73, Inl 74), (Inr 88, Inr 90),
    (Inl 75, Inl 78), (Inl 76, Inl 77), (Inr 33, Inr 34), (Inr 40, Inr 41), (Inl 79, Inl 81),
    (Inr 63, Inl 80), (Inr 39, Inr 43), (Inl 82, Inl 84), (Inr 124, Inl 83), (Inr 35, Inr 62),
    (Inl 85, Inl 88), (Inl 86, Inl 87), (Inr 0, Inr 36), (Inr 64, Inr 91), (Inl 89, Inl 90),
    (Inr 93, Inr 126), (Inl 91, Inl 92), (Inr 94, Inr 125), (Inl 93, Inl 94), (Inr 60, Inr 96),
    (Inr 123, Inl 95), (Inl 96, Inl 110), (Inl 97, Inl 101), (Inl 98, Inl 99), (Inr 92, Inr 195),
    (Inr 208, Inl 100), (Inr 128, Inr 130), (Inl 102, Inl 105), (Inl 103, Inl 104),
    (Inr 131, Inr 162), (Inr 184, Inr 194), (Inl 106, Inl 107), (Inr 224, Inr 226),
    (Inl 108, Inl 109), (Inr 153, Inr 161), (Inr 167, Inr 172), (Inl 111, Inl 133),
    (Inl 112, Inl 119), (Inl 113, Inl 116), (Inl 114, Inl 115), (Inr 176, Inr 177),
    (Inr 179, Inr 209), (Inl 117, Inl 118), (Inr 216, Inr 217), (Inr 227, Inr 229),
    (Inl 120, Inl 126), (Inl 121, Inl 123), (Inr 230, Inl 122), (Inr 129, Inr 132),
    (Inl 124, Inl 125), (Inr 133, Inr 134), (Inr 136, Inr 146), (Inl 127, Inl 130),
    (Inl 128, Inl 129), (Inr 154, Inr 156), (Inr 160, Inr 163), (Inl 131, Inl 132),
    (Inr 164, Inr 169), (Inr 170, Inr 173), (Inl 134, Inl 153), (Inl 135, Inl 142),
    (Inl 136, Inl 139), (Inl 137, Inl 138), (Inr 178, Inr 181), (Inr 185, Inr 186),
    (Inl 140, Inl 141), (Inr 187, Inr 189), (Inr 190, Inr 196), (Inl 143, Inl 146),
    (Inl 144, Inl 145), (Inr 198, Inr 228), (Inr 232, Inr 233), (Inl 147, Inl 150),
    (Inl 148, Inl 149), (Inr 1, Inr 135), (Inr 137, Inr 138), (Inl 151, Inl 152),
    (Inr 139, Inr 140), (Inr 141, Inr 143), (Inl 154, Inl 169), (Inl 155, Inl 162),
    (Inl 156, Inl 159), (Inl 157, Inl 158), (Inr 147, Inr 149), (Inr 150, Inr 151),
    (Inl 160, Inl 161), (Inr 152, Inr 155), (Inr 157, Inr 158), (Inl 163, Inl 166),
    (Inl 164, Inl 165), (Inr 165, Inr 166), (Inr 168, Inr 174), (Inl 167, Inl 168),
    (Inr 175, Inr 180), (Inr 182, Inr 183), (Inl 170, Inl 180), (Inl 171, Inl 174),
    (Inl 172, Inl 173), (Inr 188, Inr 191), (Inr 197, Inr 231), (Inl 175, Inl 177),
    (Inr 239, Inl 176), (Inr 9, Inr 142), (Inl 178, Inl 179), (Inr 144, Inr 145),
    (Inr 148, Inr 159), (Inl 181, Inl 190), (Inl 182, Inl 185), (Inl 183, Inl 184),
    (Inr 171, Inr 206), (Inr 215, Inr 225), (Inl 186, Inl 187), (Inr 236, Inr 237),
    (Inl 188, Inl 189), (Inr 199, Inr 207), (Inr 234, Inr 235), (Inl 191, Inl 207),
    (Inl 192, Inl 199), (Inl 193, Inl 196), (Inl 194, Inl 195), (Inr 192, Inr 193),
    (Inr 200, Inr 201), (Inl 197, Inl 198), (Inr 202, Inr 205), (Inr 210, Inr 213),
    (Inl 200, Inl 203), (Inl 201, Inl 202), (Inr 218, Inr 219), (Inr 238, Inr 240),
    (Inl 204, Inl 205), (Inr 242, Inr 243), (Inr 255, Inl 206), (Inr 203, Inr 204),
    (Inl 208, Inl 223), (Inl 209, Inl 216), (Inl 210, Inl 213), (Inl 211, Inl 212),
    (Inr 211, Inr 212), (Inr 214, Inr 221), (Inl 214, Inl 215), (Inr 222, Inr 223),
    (Inr 241, Inr 244), (Inl 217, Inl 220), (Inl 218, Inl 219), (Inr 245, Inr 246),
    (Inr 247, Inr 248), (Inl 221, Inl 222), (Inr 250, Inr 251), (Inr 252, Inr 253),
    (Inl 224, Inl 238), (Inl 225, Inl 231), (Inl 226, Inl 228), (Inr 254, Inl 227),
    (Inr 2, Inr 3), (Inl 229, Inl 230), (Inr 4, Inr 5), (Inr 6, Inr 7), (Inl 232, Inl 235),
    (Inl 233, Inl 234), (Inr 8, Inr 11), (Inr 12, Inr 14), (Inl 236, Inl 237), (Inr 15, Inr 16),
    (Inr 17, Inr 18), (Inl 239, Inl 246), (Inl 240, Inl 243), (Inl 241, Inl 242),
    (Inr 19, Inr 20), (Inr 21, Inr 23), (Inl 244, Inl 245), (Inr 24, Inr 25), (Inr 26, Inr 27),
    (Inl 247, Inl 250), (Inl 248, Inl 249), (Inr 28, Inr 29), (Inr 30, Inr 31),
    (Inl 251, Inl 252), (Inr 127, Inr 220), (Inr 249, Inl 253), (Inl 254, Inl 255),
    (Inr 10, Inr 13), (Inr 22, Inr 256)]"

lemmas huff_sym_nth =
  nth_eqs_nth [OF huff_sym_table_def, simplified nth_eqs.simps Suc_numeral numeral_2_eq_2 [symmetric] add_num_simps]

lemmas huff_prefix_nth =
  nth_eqs_nth [OF huff_prefix_def, simplified nth_eqs.simps Suc_numeral numeral_2_eq_2 [symmetric] add_num_simps]

lemmas huff_child_nth =
  nth_eqs_nth [OF huff_child_def, simplified nth_eqs.simps Suc_numeral numeral_2_eq_2 [symmetric] add_num_simps]

subsection \<open>The code tree\<close>

text \<open>\<open>Inl n\<close> is an inner node, \<open>Inr s\<close> the leaf of symbol \<open>s\<close>.\<close>

fun huff_walk :: "nat + nat \<Rightarrow> bool list \<Rightarrow> (nat + nat) option" where
  "huff_walk t [] = Some t"
| "huff_walk (Inr s) (b # bs) = None"
| "huff_walk (Inl n) (b # bs) = huff_walk (if b then snd (huff_child ! n) else fst (huff_child ! n)) bs"

definition huff_code :: "nat \<Rightarrow> bool list" where
  "huff_code s = top_bits (fst (huff_sym_table ! s)) (snd (huff_sym_table ! s))"

definition state_bits :: "nat \<Rightarrow> bool list" where
  "state_bits n = bits_of (fst (huff_prefix ! n)) (snd (huff_prefix ! n))"

fun sym_walks :: "nat \<Rightarrow> (nat \<times> nat) list \<Rightarrow> bool" where
  "sym_walks i [] \<longleftrightarrow> True"
| "sym_walks i ((n, c) # es) \<longleftrightarrow>
     huff_walk (Inl 0) (top_bits n c) = Some (Inr i) \<and> 5 \<le> n \<and> n \<le> 30 \<and> c < 4294967296 \<and>
     c mod 2 ^ (32 - n) = 0 \<and> sym_walks (Suc i) es"

fun state_walks :: "nat \<Rightarrow> (nat \<times> nat) list \<Rightarrow> bool" where
  "state_walks i [] \<longleftrightarrow> True"
| "state_walks i ((k, r) # es) \<longleftrightarrow>
     huff_walk (Inl 0) (top_bits k (r * 2 ^ (32 - k))) = Some (Inl i) \<and> k \<le> 29 \<and> r < 2 ^ k \<and> state_walks (Suc i) es"

lemma sym_walks_table: "sym_walks 0 huff_sym_table"
  by (simp add: huff_sym_table_def huff_child_nth flip: numeral_2_eq_2)

lemma state_walks_table: "state_walks 0 huff_prefix"
  by (simp add: huff_prefix_def huff_child_nth flip: numeral_2_eq_2)

lemma sym_walks_nth:
  "sym_walks i es \<Longrightarrow> j < length es \<Longrightarrow>
     huff_walk (Inl 0) (top_bits (fst (es ! j)) (snd (es ! j))) = Some (Inr (i + j)) \<and>
     5 \<le> fst (es ! j) \<and> fst (es ! j) \<le> 30 \<and> snd (es ! j) < 4294967296 \<and>
     snd (es ! j) mod 2 ^ (32 - fst (es ! j)) = 0"
proof (induction i es arbitrary: j rule: sym_walks.induct)
  case (2 i n c es)
  then show ?case by (cases j) auto
qed simp

lemma state_walks_nth:
  "state_walks i es \<Longrightarrow> j < length es \<Longrightarrow>
     huff_walk (Inl 0) (top_bits (fst (es ! j)) (snd (es ! j) * 2 ^ (32 - fst (es ! j)))) = Some (Inl (i + j)) \<and>
     fst (es ! j) \<le> 29 \<and> snd (es ! j) < 2 ^ fst (es ! j)"
proof (induction i es arbitrary: j rule: state_walks.induct)
  case (2 i k r es)
  then show ?case by (cases j) auto
qed simp

lemma length_sym_table: "length huff_sym_table = 257"
  by (simp add: huff_sym_table_def)

lemma length_prefix: "length huff_prefix = 256"
  by (simp add: huff_prefix_def)

lemma walk_code:
  assumes "s < 257"
  shows "huff_walk (Inl 0) (huff_code s) = Some (Inr s)" "5 \<le> length (huff_code s)" "length (huff_code s) \<le> 30"
proof -
  note w = sym_walks_nth [OF sym_walks_table, of s]
  show "huff_walk (Inl 0) (huff_code s) = Some (Inr s)"
    using w assms by (simp add: huff_code_def length_sym_table)
  have "length (top_bits n c) = n" for n c by (induction n arbitrary: c) simp_all
  then show "5 \<le> length (huff_code s)" "length (huff_code s) \<le> 30"
    using w assms by (simp_all add: huff_code_def length_sym_table)
qed

lemma state_prefix:
  assumes "n < 256"
  shows "fst (huff_prefix ! n) \<le> 29" "snd (huff_prefix ! n) < 2 ^ fst (huff_prefix ! n)"
  using state_walks_nth [OF state_walks_table, of n] assms by (simp_all add: length_prefix)

lemma walk_state:
  assumes n: "n < 256"
  shows "huff_walk (Inl 0) (state_bits n) = Some (Inl n)"
proof -
  let ?k = "fst (huff_prefix ! n)" and ?r = "snd (huff_prefix ! n)"
  have w: "huff_walk (Inl 0) (top_bits ?k (?r * 2 ^ (32 - ?k))) = Some (Inl n)"
    using state_walks_nth [OF state_walks_table, of n] n by (simp add: length_prefix)
  have k: "?k \<le> 29" "?r < 2 ^ ?k" using state_prefix [OF n] .
  have "?r * 2 ^ (32 - ?k) < 2 ^ ?k * 2 ^ (32 - ?k)" using k(2) by simp
  also have "\<dots> = 4294967296" using k(1) by (simp flip: power_add)
  finally have "top_bits ?k (?r * 2 ^ (32 - ?k)) = state_bits n"
    using top_bits_bits_of [of ?k "?r * 2 ^ (32 - ?k)"] k(1) by (simp add: state_bits_def)
  then show ?thesis using w by simp
qed

lemma huff_code_bits:
  assumes "s < 257"
  shows "huff_code s = bits_of (fst (huff_sym_table ! s)) (snd (huff_sym_table ! s) div 2 ^ (32 - fst (huff_sym_table ! s)))"
  unfolding huff_code_def using sym_walks_nth [OF sym_walks_table, of s] assms
  by (intro top_bits_bits_of) (simp_all add: length_sym_table)

lemma walk_append: "huff_walk t (xs @ ys) = (case huff_walk t xs of None \<Rightarrow> None | Some u \<Rightarrow> huff_walk u ys)"
  by (induction t xs rule: huff_walk.induct) simp_all

lemma walk_leaf: "huff_walk (Inr s) bs = Some u \<longleftrightarrow> bs = [] \<and> u = Inr s"
  by (cases bs) auto

subsection \<open>Unique decoding\<close>

text \<open>No code continues another one, and no state string contains a whole code.\<close>

lemma code_prefix_free:
  assumes "a < 257" "b < 257" "huff_code a @ xs = huff_code b @ ys"
  shows "a = b" "xs = ys"
proof -
  have "a = b \<and> xs = ys" if ab: "a < 257" "b < 257" "huff_code a @ xs = huff_code b @ ys"
    "length (huff_code a) \<le> length (huff_code b)" for a b xs ys
  proof -
    obtain zs where z: "huff_code b = huff_code a @ zs"
      using ab(3,4) by (metis append_eq_append_conv_if append_eq_conv_conj append_take_drop_id)
    then have "huff_walk (Inr a) zs = Some (Inr b)"
      using walk_append [of "Inl 0" "huff_code a" zs] walk_code(1) [OF ab(1)] walk_code(1) [OF ab(2)] by simp
    then have "zs = []" "a = b" by (auto simp: walk_leaf)
    then show ?thesis using z ab(3) by simp
  qed
  from this [of a b xs ys] this [of b a ys xs] assms show "a = b" "xs = ys"
    by (metis le_cases)+
qed

lemma state_no_code:
  assumes "n < 256" "s < 257"
  shows "state_bits n \<noteq> huff_code s @ xs"
proof
  assume "state_bits n = huff_code s @ xs"
  then have "huff_walk (Inr s) xs = Some (Inl n)"
    using walk_append [of "Inl 0" "huff_code s" xs] walk_code(1) [OF assms(2)] walk_state [OF assms(1)] by simp
  then show False by (simp add: walk_leaf)
qed

lemma huff_code_eos: "huff_code 256 = replicate 30 True"
proof -
  have "huff_code 256 = bits_of 30 (4294967292 div 2 ^ (32 - 30))"
    using huff_code_bits [of 256] by (simp only: huff_sym_nth fst_conv snd_conv)
  also have "4294967292 div 2 ^ (32 - 30) = (2 :: nat) ^ 30 - 1" by simp
  finally show ?thesis by (simp only: bits_of_ones)
qed

subsection \<open>One step of the decode table\<close>

fun sym_ok :: "nat \<Rightarrow> nat \<Rightarrow> nat \<Rightarrow> nat \<times> nat \<Rightarrow> bool" where
  "sym_ok k x nk (cn, c) \<longleftrightarrow> k = cn + nk \<and> c = x div 2 ^ nk * 2 ^ (32 - cn)"

fun next_ok :: "nat \<Rightarrow> nat \<Rightarrow> nat \<Rightarrow> nat \<Rightarrow> nat \<times> nat \<Rightarrow> bool" where
  "next_ok k x fl y (nk, nr) \<longleftrightarrow>
     (fl mod 2 = 1 \<longleftrightarrow> nk \<le> 7 \<and> nr = 2 ^ nk - 1) \<and>
     (if fl \<ge> 2 then y < 256 \<and> sym_ok k x nk (huff_sym_table ! y) \<and> x mod 2 ^ nk = nr else nk = k \<and> nr = x)"

fun entry_ok :: "nat \<Rightarrow> nat \<Rightarrow> nat \<times> nat \<Rightarrow> bool" where
  "entry_ok k x (f, y) \<longleftrightarrow>
     (if f = 256 then 30 \<le> k \<and> x div 2 ^ (k - 30) = 2 ^ 30 - 1
      else f < 65536 \<and> f mod 512 < 256 \<and> next_ok k x (f div 16384) y (huff_prefix ! (f mod 512)))"

primrec entries_ok :: "nat \<Rightarrow> nat \<Rightarrow> huff_row \<Rightarrow> bool" where
  "entries_ok k x [] \<longleftrightarrow> True"
| "entries_ok k x (e # es) \<longleftrightarrow> entry_ok k x e \<and> entries_ok k (Suc x) es"

fun row_ok :: "nat \<times> nat \<Rightarrow> huff_row \<Rightarrow> bool" where
  "row_ok (k, r) row \<longleftrightarrow> length row = 16 \<and> entries_ok (k + 4) (r * 16) row"

primrec rows_ok :: "nat \<Rightarrow> huff_row list \<Rightarrow> bool" where
  "rows_ok s [] \<longleftrightarrow> True"
| "rows_ok s (row # rows) \<longleftrightarrow> row_ok (huff_prefix ! s) row \<and> rows_ok (Suc s) rows"

lemma rows_ok_append: "rows_ok s (xs @ ys) \<longleftrightarrow> rows_ok s xs \<and> rows_ok (s + length xs) ys"
  by (induction xs arbitrary: s) simp_all

lemma rows_0: "rows_ok 0 huff_decode_rows_0"
  by (simp add: huff_decode_rows_0_def huff_prefix_nth huff_sym_nth flip: numeral_2_eq_2)

lemma rows_1: "rows_ok 8 huff_decode_rows_1"
  by (simp add: huff_decode_rows_1_def huff_prefix_nth huff_sym_nth flip: numeral_2_eq_2)

lemma rows_2: "rows_ok 16 huff_decode_rows_2"
  by (simp add: huff_decode_rows_2_def huff_prefix_nth huff_sym_nth flip: numeral_2_eq_2)

lemma rows_3: "rows_ok 24 huff_decode_rows_3"
  by (simp add: huff_decode_rows_3_def huff_prefix_nth huff_sym_nth flip: numeral_2_eq_2)

lemma rows_4: "rows_ok 32 huff_decode_rows_4"
  by (simp add: huff_decode_rows_4_def huff_prefix_nth huff_sym_nth flip: numeral_2_eq_2)

lemma rows_5: "rows_ok 40 huff_decode_rows_5"
  by (simp add: huff_decode_rows_5_def huff_prefix_nth huff_sym_nth flip: numeral_2_eq_2)

lemma rows_6: "rows_ok 48 huff_decode_rows_6"
  by (simp add: huff_decode_rows_6_def huff_prefix_nth huff_sym_nth flip: numeral_2_eq_2)

lemma rows_7: "rows_ok 56 huff_decode_rows_7"
  by (simp add: huff_decode_rows_7_def huff_prefix_nth huff_sym_nth flip: numeral_2_eq_2)

lemma rows_8: "rows_ok 64 huff_decode_rows_8"
  by (simp add: huff_decode_rows_8_def huff_prefix_nth huff_sym_nth flip: numeral_2_eq_2)

lemma rows_9: "rows_ok 72 huff_decode_rows_9"
  by (simp add: huff_decode_rows_9_def huff_prefix_nth huff_sym_nth flip: numeral_2_eq_2)

lemma rows_10: "rows_ok 80 huff_decode_rows_10"
  by (simp add: huff_decode_rows_10_def huff_prefix_nth huff_sym_nth flip: numeral_2_eq_2)

lemma rows_11: "rows_ok 88 huff_decode_rows_11"
  by (simp add: huff_decode_rows_11_def huff_prefix_nth huff_sym_nth flip: numeral_2_eq_2)

lemma rows_12: "rows_ok 96 huff_decode_rows_12"
  by (simp add: huff_decode_rows_12_def huff_prefix_nth huff_sym_nth flip: numeral_2_eq_2)

lemma rows_13: "rows_ok 104 huff_decode_rows_13"
  by (simp add: huff_decode_rows_13_def huff_prefix_nth huff_sym_nth flip: numeral_2_eq_2)

lemma rows_14: "rows_ok 112 huff_decode_rows_14"
  by (simp add: huff_decode_rows_14_def huff_prefix_nth huff_sym_nth flip: numeral_2_eq_2)

lemma rows_15: "rows_ok 120 huff_decode_rows_15"
  by (simp add: huff_decode_rows_15_def huff_prefix_nth huff_sym_nth flip: numeral_2_eq_2)

lemma rows_16: "rows_ok 128 huff_decode_rows_16"
  by (simp add: huff_decode_rows_16_def huff_prefix_nth huff_sym_nth flip: numeral_2_eq_2)

lemma rows_17: "rows_ok 136 huff_decode_rows_17"
  by (simp add: huff_decode_rows_17_def huff_prefix_nth huff_sym_nth flip: numeral_2_eq_2)

lemma rows_18: "rows_ok 144 huff_decode_rows_18"
  by (simp add: huff_decode_rows_18_def huff_prefix_nth huff_sym_nth flip: numeral_2_eq_2)

lemma rows_19: "rows_ok 152 huff_decode_rows_19"
  by (simp add: huff_decode_rows_19_def huff_prefix_nth huff_sym_nth flip: numeral_2_eq_2)

lemma rows_20: "rows_ok 160 huff_decode_rows_20"
  by (simp add: huff_decode_rows_20_def huff_prefix_nth huff_sym_nth flip: numeral_2_eq_2)

lemma rows_21: "rows_ok 168 huff_decode_rows_21"
  by (simp add: huff_decode_rows_21_def huff_prefix_nth huff_sym_nth flip: numeral_2_eq_2)

lemma rows_22: "rows_ok 176 huff_decode_rows_22"
  by (simp add: huff_decode_rows_22_def huff_prefix_nth huff_sym_nth flip: numeral_2_eq_2)

lemma rows_23: "rows_ok 184 huff_decode_rows_23"
  by (simp add: huff_decode_rows_23_def huff_prefix_nth huff_sym_nth flip: numeral_2_eq_2)

lemma rows_24: "rows_ok 192 huff_decode_rows_24"
  by (simp add: huff_decode_rows_24_def huff_prefix_nth huff_sym_nth flip: numeral_2_eq_2)

lemma rows_25: "rows_ok 200 huff_decode_rows_25"
  by (simp add: huff_decode_rows_25_def huff_prefix_nth huff_sym_nth flip: numeral_2_eq_2)

lemma rows_26: "rows_ok 208 huff_decode_rows_26"
  by (simp add: huff_decode_rows_26_def huff_prefix_nth huff_sym_nth flip: numeral_2_eq_2)

lemma rows_27: "rows_ok 216 huff_decode_rows_27"
  by (simp add: huff_decode_rows_27_def huff_prefix_nth huff_sym_nth flip: numeral_2_eq_2)

lemma rows_28: "rows_ok 224 huff_decode_rows_28"
  by (simp add: huff_decode_rows_28_def huff_prefix_nth huff_sym_nth flip: numeral_2_eq_2)

lemma rows_29: "rows_ok 232 huff_decode_rows_29"
  by (simp add: huff_decode_rows_29_def huff_prefix_nth huff_sym_nth flip: numeral_2_eq_2)

lemma rows_30: "rows_ok 240 huff_decode_rows_30"
  by (simp add: huff_decode_rows_30_def huff_prefix_nth huff_sym_nth flip: numeral_2_eq_2)

lemma rows_31: "rows_ok 248 huff_decode_rows_31"
  by (simp add: huff_decode_rows_31_def huff_prefix_nth huff_sym_nth flip: numeral_2_eq_2)

lemmas decode_rows_defs = huff_decode_rows_0_def huff_decode_rows_1_def huff_decode_rows_2_def huff_decode_rows_3_def huff_decode_rows_4_def huff_decode_rows_5_def huff_decode_rows_6_def huff_decode_rows_7_def huff_decode_rows_8_def huff_decode_rows_9_def huff_decode_rows_10_def huff_decode_rows_11_def huff_decode_rows_12_def huff_decode_rows_13_def huff_decode_rows_14_def huff_decode_rows_15_def huff_decode_rows_16_def huff_decode_rows_17_def huff_decode_rows_18_def huff_decode_rows_19_def huff_decode_rows_20_def huff_decode_rows_21_def huff_decode_rows_22_def huff_decode_rows_23_def huff_decode_rows_24_def huff_decode_rows_25_def huff_decode_rows_26_def huff_decode_rows_27_def huff_decode_rows_28_def huff_decode_rows_29_def huff_decode_rows_30_def huff_decode_rows_31_def huff_decode_rows_32_def

lemma rows_ok_table: "\<exists>rows. huff_decode_table = rows @ huff_decode_rows_32 \<and> length rows = 256 \<and> rows_ok 0 rows"
proof -
  define rows where "rows = huff_decode_rows_0 @ huff_decode_rows_1 @ huff_decode_rows_2 @ huff_decode_rows_3 @ huff_decode_rows_4 @ huff_decode_rows_5 @ huff_decode_rows_6 @ huff_decode_rows_7 @ huff_decode_rows_8 @ huff_decode_rows_9 @ huff_decode_rows_10 @ huff_decode_rows_11 @ huff_decode_rows_12 @ huff_decode_rows_13 @ huff_decode_rows_14 @ huff_decode_rows_15 @ huff_decode_rows_16 @ huff_decode_rows_17 @ huff_decode_rows_18 @ huff_decode_rows_19 @ huff_decode_rows_20 @ huff_decode_rows_21 @ huff_decode_rows_22 @ huff_decode_rows_23 @ huff_decode_rows_24 @ huff_decode_rows_25 @ huff_decode_rows_26 @ huff_decode_rows_27 @ huff_decode_rows_28 @ huff_decode_rows_29 @ huff_decode_rows_30 @ huff_decode_rows_31"
  have len: "length huff_decode_rows_0 = 8" "length huff_decode_rows_1 = 8" "length huff_decode_rows_2 = 8" "length huff_decode_rows_3 = 8" "length huff_decode_rows_4 = 8" "length huff_decode_rows_5 = 8" "length huff_decode_rows_6 = 8" "length huff_decode_rows_7 = 8" "length huff_decode_rows_8 = 8" "length huff_decode_rows_9 = 8" "length huff_decode_rows_10 = 8" "length huff_decode_rows_11 = 8" "length huff_decode_rows_12 = 8" "length huff_decode_rows_13 = 8" "length huff_decode_rows_14 = 8" "length huff_decode_rows_15 = 8" "length huff_decode_rows_16 = 8" "length huff_decode_rows_17 = 8" "length huff_decode_rows_18 = 8" "length huff_decode_rows_19 = 8" "length huff_decode_rows_20 = 8" "length huff_decode_rows_21 = 8" "length huff_decode_rows_22 = 8" "length huff_decode_rows_23 = 8" "length huff_decode_rows_24 = 8" "length huff_decode_rows_25 = 8" "length huff_decode_rows_26 = 8" "length huff_decode_rows_27 = 8" "length huff_decode_rows_28 = 8" "length huff_decode_rows_29 = 8" "length huff_decode_rows_30 = 8" "length huff_decode_rows_31 = 8"
    by (simp_all add: decode_rows_defs)
  have "length rows = 256" unfolding rows_def by (simp add: len)
  moreover have "rows_ok 0 rows" unfolding rows_def by (simp add: rows_ok_append len rows_0 rows_1 rows_2 rows_3 rows_4 rows_5 rows_6 rows_7 rows_8 rows_9 rows_10 rows_11 rows_12 rows_13 rows_14 rows_15 rows_16 rows_17 rows_18 rows_19 rows_20 rows_21 rows_22 rows_23 rows_24 rows_25 rows_26 rows_27 rows_28 rows_29 rows_30 rows_31)
  moreover have "huff_decode_table = rows @ huff_decode_rows_32"
    unfolding rows_def huff_decode_table_def by simp
  ultimately show ?thesis by blast
qed

lemma rows_ok_nth: "rows_ok s rows \<Longrightarrow> j < length rows \<Longrightarrow> row_ok (huff_prefix ! (s + j)) (rows ! j)"
proof (induction rows arbitrary: s j)
  case (Cons row rows)
  then show ?case using Cons.IH [of "Suc s" "j - 1"] by (cases j) auto
qed simp

lemma entries_ok_nth: "entries_ok k x es \<Longrightarrow> j < length es \<Longrightarrow> entry_ok k (x + j) (es ! j)"
proof (induction es arbitrary: x j)
  case (Cons e es)
  then show ?case using Cons.IH [of "Suc x" "j - 1"] by (cases j) auto
qed simp

lemma decode_entry:
  assumes "s < 256" "v < 16"
  shows "entry_ok (fst (huff_prefix ! s) + 4) (snd (huff_prefix ! s) * 16 + v) (huff_decode_table ! s ! v)"
proof -
  obtain rows where r: "huff_decode_table = rows @ huff_decode_rows_32" "length rows = 256" "rows_ok 0 rows"
    using rows_ok_table by blast
  obtain k p where kp: "huff_prefix ! s = (k, p)" by (rule prod.exhaust)
  have "row_ok (huff_prefix ! (0 + s)) (rows ! s)" using r(2,3) assms(1) by (intro rows_ok_nth) simp_all
  then have e: "length (rows ! s) = 16" "entries_ok (k + 4) (p * 16) (rows ! s)" using kp by simp_all
  have "entry_ok (k + 4) (p * 16 + v) (rows ! s ! v)" using e assms(2) by (intro entries_ok_nth) simp_all
  moreover have "huff_decode_table ! s = rows ! s" unfolding r(1) using r(2) assms(1) by (simp add: nth_append)
  ultimately show ?thesis using kp by simp
qed

lemma decode_sink: "v < 16 \<Longrightarrow> huff_decode_table ! 256 ! v = (256, 0)"
proof -
  assume v: "v < 16"
  obtain rows where r: "huff_decode_table = rows @ huff_decode_rows_32" "length rows = 256"
    using rows_ok_table by blast
  obtain row where row: "huff_decode_rows_32 = [row]" "length row = 16" "list_all (\<lambda>e. e = (256, 0)) row"
    by (simp add: huff_decode_rows_32_def)
  have "huff_decode_table ! 256 = row" unfolding r(1) row(1) using r(2) by (simp add: nth_append)
  then show ?thesis using v row(2,3) by (simp add: list_all_length)
qed

end
