(* ===== verification/Hd_Huffman.thy ===== *)
theory Hd_Huffman
  imports Huffman_Tables Buf Helper
begin

text \<open>
  \<open>nghttp2_hd_huffman.c\<close>: the Huffman encoder, which packs codes in a 64-bit accumulator and writes
  it to a buffer chain by words or by bytes, and the decoder, a table-driven automaton over nibbles
  with a context that survives from one input fragment to the next.  The theorems show that the
  encoder writes the codes padded with less than a byte of ones, and that the decoder accepts
  exactly such strings.
\<close>

subsection \<open>The encoder\<close>

definition huff_nbits :: "u8 \<Rightarrow> nat" where
  "huff_nbits c = fst (huff_sym_table ! unat c)"

primrec huff_count_loop :: "bytes \<Rightarrow> nat \<Rightarrow> nat" where
  "huff_count_loop [] nbits = nbits"
| "huff_count_loop (c # src) nbits = huff_count_loop src (nbits + huff_nbits c)"

definition nghttp2_hd_huff_encode_count :: "bytes \<Rightarrow> nat" where
  "nghttp2_hd_huff_encode_count src = (huff_count_loop src 0 + 7) div 8"

text \<open>The loop that writes whole bytes of the accumulator; it returns the code, the chain and what is left.\<close>

function huff_flush :: "nghttp2_bufs \<Rightarrow> u64 \<Rightarrow> nat \<Rightarrow> (rc \<times> nghttp2_bufs \<times> u64 \<times> nat) option" where
  "huff_flush bufs code nbits =
     (if nbits \<ge> 8 then
        do { (rv, bufs) \<leftarrow> nghttp2_bufs_addb bufs (ucast (drop_bit 56 code));
             if rv \<noteq> 0 then Some (rv, bufs, code, nbits)
             else huff_flush bufs (push_bit 8 code) (nbits - 8) }
      else Some (0, bufs, code, nbits))"
  by pat_completeness auto
termination by (relation "measure (\<lambda>(bufs, code, nbits). nbits)") auto

declare huff_flush.simps [simp del]

fun huff_encode_loop ::
  "nghttp2_bufs \<Rightarrow> u64 \<Rightarrow> nat \<Rightarrow> nat \<Rightarrow> bytes \<Rightarrow> (rc \<times> nghttp2_bufs \<times> u64 \<times> nat) option" where
  "huff_encode_loop bufs code nbits avail [] = Some (0, bufs, code, nbits)"
| "huff_encode_loop bufs code nbits avail (c # src) =
     (let sym = huff_sym_table ! unat c;
          code = code OR push_bit (32 - nbits) (of_nat (snd sym));
          nbits = nbits + fst sym
      in if nbits < 32 then huff_encode_loop bufs code nbits avail src
         else if avail \<ge> 4 then
           do { b \<leftarrow> buf_put (cur_buf bufs) (uint32be_bytes (ucast (drop_bit 32 code)));
                huff_encode_loop (set_cur bufs b) (push_bit 32 code) (nbits - 32) (avail - 4) src }
         else
           do { (rv, bufs, code, nbits) \<leftarrow> huff_flush bufs code nbits;
                if rv \<noteq> 0 then Some (rv, bufs, code, nbits)
                else huff_encode_loop bufs code nbits (nghttp2_buf_avail (cur_buf bufs)) src })"

definition nghttp2_hd_huff_encode :: "nghttp2_bufs \<Rightarrow> bytes \<Rightarrow> (rc \<times> nghttp2_bufs) option" where
  "nghttp2_hd_huff_encode bufs src =
     do { (rv, bufs, code, nbits) \<leftarrow> huff_encode_loop bufs 0 0 (nghttp2_buf_avail (cur_buf bufs)) src;
          if rv \<noteq> 0 then Some (rv, bufs)
          else do { (rv, bufs, code, nbits) \<leftarrow> huff_flush bufs code nbits;
               if rv \<noteq> 0 then Some (rv, bufs)
               else if nbits \<noteq> 0
                 then nghttp2_bufs_addb bufs (ucast (drop_bit 56 code) OR (push_bit (8 - nbits) 1 - 1))
                 else Some (0, bufs) } }"

subsection \<open>The decoder\<close>

definition NGHTTP2_HUFF_ACCEPTED :: nat where "NGHTTP2_HUFF_ACCEPTED = 2 ^ 14"
definition NGHTTP2_HUFF_SYM :: nat where "NGHTTP2_HUFF_SYM = 2 ^ 15"

record nghttp2_hd_huff_decode_context =
  fstate :: nat

definition nghttp2_hd_huff_decode_context_init :: "nghttp2_hd_huff_decode_context" where
  "nghttp2_hd_huff_decode_context_init = \<lparr>fstate = NGHTTP2_HUFF_ACCEPTED\<rparr>"

text \<open>One lookup: the entry of the state for a nibble, and the store of its symbol.\<close>

definition huff_decode_nibble :: "nat \<Rightarrow> nghttp2_buf \<Rightarrow> nat \<Rightarrow> (nat \<times> nghttp2_buf) option" where
  "huff_decode_nibble f buf v =
     (let t = huff_decode_table ! (f AND 0x1ff) ! v
      in if fst t AND NGHTTP2_HUFF_SYM \<noteq> 0
         then do { buf \<leftarrow> buf_put buf [of_nat (snd t)]; Some (fst t, buf) }
         else Some (fst t, buf))"

fun huff_decode_loop :: "nat \<Rightarrow> nghttp2_buf \<Rightarrow> bytes \<Rightarrow> (nat \<times> nghttp2_buf) option" where
  "huff_decode_loop f buf [] = Some (f, buf)"
| "huff_decode_loop f buf (c # src) =
     do { (f, buf) \<leftarrow> huff_decode_nibble f buf (unat (drop_bit 4 c));
          (f, buf) \<leftarrow> huff_decode_nibble f buf (unat (c AND 0xf));
          huff_decode_loop f buf src }"

definition nghttp2_hd_huff_decode ::
  "nghttp2_hd_huff_decode_context \<Rightarrow> nghttp2_buf \<Rightarrow> bytes \<Rightarrow> bool \<Rightarrow>
     (int \<times> nghttp2_hd_huff_decode_context \<times> nghttp2_buf) option" where
  "nghttp2_hd_huff_decode ctx buf src fin =
     do { (f, buf) \<leftarrow> huff_decode_loop (fstate ctx) buf src;
          let ctx = ctx\<lparr>fstate := f\<rparr>;
          if fin \<and> fstate ctx AND NGHTTP2_HUFF_ACCEPTED = 0
          then Some (NGHTTP2_ERR_HEADER_COMP, ctx, buf)
          else Some (int (length src), ctx, buf) }"

definition nghttp2_hd_huff_decode_failure_state :: "nghttp2_hd_huff_decode_context \<Rightarrow> bool" where
  "nghttp2_hd_huff_decode_failure_state ctx \<longleftrightarrow> fstate ctx = 0x100"

subsection \<open>Bytes as bits\<close>

definition byte_bits :: "u8 \<Rightarrow> bool list" where
  "byte_bits c = bits_of 8 (unat c)"

definition bytes_bits :: "bytes \<Rightarrow> bool list" where
  "bytes_bits bs = concat (map byte_bits bs)"

definition codes :: "bytes \<Rightarrow> bool list" where
  "codes src = concat (map (huff_code \<circ> unat) src)"

lemma length_byte_bits [simp]: "length (byte_bits c) = 8"
  by (simp add: byte_bits_def)

lemma bytes_bits_simps [simp]:
  "bytes_bits [] = []" "bytes_bits (c # bs) = byte_bits c @ bytes_bits bs"
  "bytes_bits (xs @ ys) = bytes_bits xs @ bytes_bits ys"
  by (simp_all add: bytes_bits_def)

lemma codes_simps [simp]:
  "codes [] = []" "codes (c # bs) = huff_code (unat c) @ codes bs" "codes (xs @ ys) = codes xs @ codes ys"
  by (simp_all add: codes_def)

lemma length_bytes_bits [simp]: "length (bytes_bits bs) = 8 * length bs"
  by (induction bs) simp_all

lemma bytes_bits_inj: "bytes_bits xs = bytes_bits ys \<Longrightarrow> xs = ys"
proof (induction xs arbitrary: ys)
  case Nil
  then show ?case using length_bytes_bits [of ys] by simp
next
  case (Cons x xs)
  then obtain y ys' where ys: "ys = y # ys'"
    using length_bytes_bits [of ys] length_bytes_bits [of "x # xs"] by (cases ys) auto
  with Cons.prems have "byte_bits x = byte_bits y" "bytes_bits xs = bytes_bits ys'" by simp_all
  moreover from this have "unat x = unat y"
    using bits_of_inj [of "unat x" 8 "unat y"] unsigned_less [of x] unsigned_less [of y]
    by (simp add: byte_bits_def)
  ultimately show ?case using ys Cons.IH by (auto simp: unat_eqD)
qed

lemma unat_byte_less: "unat (c :: u8) < 257"
  using unat_less_exp [of c] by simp

subsection \<open>The accumulator\<close>

text \<open>\<open>acc code nbits v\<close>: the top \<open>nbits\<close> bits of the accumulator are \<open>v\<close> and the others are zero.\<close>

definition acc :: "u64 \<Rightarrow> nat \<Rightarrow> nat \<Rightarrow> bool" where
  "acc code nbits v \<longleftrightarrow> nbits \<le> 64 \<and> v < 2 ^ nbits \<and> unat code = v * 2 ^ (64 - nbits)"

lemma sym_entry:
  assumes "s < 257"
  shows "5 \<le> fst (huff_sym_table ! s)" "fst (huff_sym_table ! s) \<le> 30" "snd (huff_sym_table ! s) < 2 ^ 32"
    "snd (huff_sym_table ! s) mod 2 ^ (32 - fst (huff_sym_table ! s)) = 0"
    "snd (huff_sym_table ! s) div 2 ^ (32 - fst (huff_sym_table ! s)) < 2 ^ fst (huff_sym_table ! s)"
proof -
  note w = sym_walks_nth [OF sym_walks_table, of s, unfolded length_sym_table, OF assms]
  show "5 \<le> fst (huff_sym_table ! s)" "fst (huff_sym_table ! s) \<le> 30" "snd (huff_sym_table ! s) < 2 ^ 32"
    "snd (huff_sym_table ! s) mod 2 ^ (32 - fst (huff_sym_table ! s)) = 0" using w by simp_all
  have "(2 :: nat) ^ 32 = 2 ^ fst (huff_sym_table ! s) * 2 ^ (32 - fst (huff_sym_table ! s))"
    using w by (simp flip: power_add)
  then show "snd (huff_sym_table ! s) div 2 ^ (32 - fst (huff_sym_table ! s)) < 2 ^ fst (huff_sym_table ! s)"
    using w by (simp add: less_mult_imp_div_less)
qed

lemma acc_or:
  assumes a: "acc code nbits v" and n: "nbits < 32" and s: "s < 257"
  shows "acc (code OR push_bit (32 - nbits) (of_nat (snd (huff_sym_table ! s)))) (nbits + fst (huff_sym_table ! s))
     (v * 2 ^ fst (huff_sym_table ! s) + snd (huff_sym_table ! s) div 2 ^ (32 - fst (huff_sym_table ! s)))"
proof -
  obtain k c where kc: "huff_sym_table ! s = (k, c)" by (rule prod.exhaust)
  note w = sym_entry [OF s, unfolded kc fst_conv snd_conv]
  define d where "d = c div 2 ^ (32 - k)"
  have c: "c = d * 2 ^ (32 - k)" using w(4) by (simp add: d_def mod_0_imp_dvd)
  have d: "d < 2 ^ k" using w(5) by (simp add: d_def)
  have cc: "c * 2 ^ (32 - nbits) < 2 ^ (64 - nbits)"
  proof -
    have "(2 :: nat) ^ (64 - nbits) = 2 ^ 32 * 2 ^ (32 - nbits)"
      using n by (simp only: power_add [symmetric]) simp
    then show ?thesis using w(3) by simp
  qed
  have le: "(2 :: nat) ^ (64 - nbits) \<le> 2 ^ 64" by (rule power_increasing) simp_all
  have "unat (push_bit (32 - nbits) (of_nat c :: u64)) = c * 2 ^ (32 - nbits)"
    using cc le w(3) by (simp add: unat_push_bit unsigned_of_nat take_bit_eq_mod)
  then have "unat (code OR push_bit (32 - nbits) (of_nat c)) = v * 2 ^ (64 - nbits) + c * 2 ^ (32 - nbits)"
    using a or_disjoint_nat [OF cc, of v] by (simp add: unsigned_or_eq acc_def)
  also have "v * 2 ^ (64 - nbits) = v * 2 ^ k * 2 ^ (64 - (nbits + k))"
    using n w(2) by (simp flip: power_add)
  also have "c * 2 ^ (32 - nbits) = d * 2 ^ (64 - (nbits + k))"
    unfolding c using n w(2) by (simp add: mult.assoc add.commute flip: power_add)
  finally have e: "unat (code OR push_bit (32 - nbits) (of_nat c)) = (v * 2 ^ k + d) * 2 ^ (64 - (nbits + k))"
    by (simp add: algebra_simps)
  have "v * 2 ^ k + d < v * 2 ^ k + 2 ^ k" using d by simp
  also have "\<dots> = (v + 1) * 2 ^ k" by simp
  also have "\<dots> \<le> 2 ^ nbits * 2 ^ k" using a by (intro mult_right_mono) (simp_all add: acc_def Suc_le_eq)
  finally show ?thesis using e n w(2) kc by (simp add: acc_def d_def power_add)
qed

lemma acc_bits_or:
  assumes "s < 257"
  shows "bits_of (nbits + fst (huff_sym_table ! s))
     (v * 2 ^ fst (huff_sym_table ! s) + snd (huff_sym_table ! s) div 2 ^ (32 - fst (huff_sym_table ! s))) =
     bits_of nbits v @ huff_code s"
proof -
  obtain k c where kc: "huff_sym_table ! s = (k, c)" by (rule prod.exhaust)
  have "c div 2 ^ (32 - k) < 2 ^ k" using sym_entry(5) [OF assms] kc by simp
  then show ?thesis using bits_of_append [of nbits k "v * 2 ^ k + c div 2 ^ (32 - k)"] huff_code_bits [OF assms] kc by simp
qed

text \<open>Taking the top \<open>j\<close> bits off the accumulator.\<close>

lemma acc_top:
  assumes a: "acc code nbits v" and j: "j \<le> nbits"
  shows "unat (drop_bit (64 - j) code) = v div 2 ^ (nbits - j)"
    "acc (push_bit j code) (nbits - j) (v mod 2 ^ (nbits - j))"
    "bits_of nbits v = bits_of j (v div 2 ^ (nbits - j)) @ bits_of (nbits - j) (v mod 2 ^ (nbits - j))"
    "v div 2 ^ (nbits - j) < 2 ^ j"
proof -
  let ?r = "nbits - j"
  have n: "nbits \<le> 64" "v < 2 ^ nbits" "unat code = v * 2 ^ (64 - nbits)" using a by (simp_all add: acc_def)
  have p: "(2 :: nat) ^ (64 - j) = 2 ^ ?r * 2 ^ (64 - nbits)" using n(1) j by (simp flip: power_add)
  show "unat (drop_bit (64 - j) code) = v div 2 ^ ?r"
    by (simp add: unat_drop_bit n(3) p)
  have q: "(2 :: nat) ^ (64 - nbits) * 2 ^ j = 2 ^ (64 - ?r)" "(2 :: nat) ^ 64 = 2 ^ ?r * 2 ^ (64 - ?r)"
    using n(1) j by (simp_all flip: power_add)
  have "unat (push_bit j code) = v * 2 ^ (64 - ?r) mod 2 ^ 64"
    using unat_push_bit [of j code] n(3) q(1) by (simp add: mult.assoc)
  also have "\<dots> = v mod 2 ^ ?r * 2 ^ (64 - ?r)" unfolding q(2) by (rule mod_mult_mult2)
  finally show "acc (push_bit j code) ?r (v mod 2 ^ ?r)" using n(1) by (simp add: acc_def)
  show "bits_of nbits v = bits_of j (v div 2 ^ ?r) @ bits_of ?r (v mod 2 ^ ?r)"
    using bits_of_append [of j ?r v] j by simp
  have "(2 :: nat) ^ nbits = 2 ^ j * 2 ^ ?r" using j by (simp flip: power_add)
  then show "v div 2 ^ ?r < 2 ^ j" using n(2) by (simp add: less_mult_imp_div_less)
qed

subsection \<open>Packing bits into bytes\<close>

primrec bits_val :: "bool list \<Rightarrow> nat" where
  "bits_val [] = 0"
| "bits_val (b # bs) = of_bool b * 2 ^ length bs + bits_val bs"

lemma bits_val_less: "bits_val bs < 2 ^ length bs"
  by (induction bs) auto

lemma bits_of_val: "bits_of (length bs) (bits_val bs) = bs"
proof (induction bs)
  case (Cons b bs)
  have "bits_of 1 (of_bool b :: nat) = [b]" by simp
  then show ?case using bits_of_append [of 1 "length bs" "bits_val (b # bs)"] bits_val_less [of bs] Cons
    by (simp add: div_mult_self3)
qed simp

text \<open>The reference: bits are cut into bytes, and the last byte is filled with ones.\<close>

function pack :: "bool list \<Rightarrow> bytes" where
  "pack bs = (if bs = [] then [] else of_nat (bits_val (take 8 (bs @ replicate 7 True))) # pack (drop 8 bs))"
  by pat_completeness auto
termination by (relation "measure length") auto

declare pack.simps [simp del]

definition pad_len :: "nat \<Rightarrow> nat" where
  "pad_len n = (8 - n mod 8) mod 8"

lemma byte_bits_val: "length bs = 8 \<Longrightarrow> byte_bits (of_nat (bits_val bs)) = bs"
  using bits_val_less [of bs] bits_of_val [of bs] by (simp add: byte_bits_def unsigned_of_nat take_bit_nat_eq_self)

lemma pack_bits: "bytes_bits (pack bs) = bs @ replicate (pad_len (length bs)) True"
proof (induction bs rule: pack.induct)
  case (1 bs)
  show ?case
  proof (cases "bs = []")
    case False
    have h: "byte_bits (of_nat (bits_val (take 8 (bs @ replicate 7 True)))) = take 8 (bs @ replicate 7 True)"
      using False by (intro byte_bits_val) (cases bs; simp)
    have "bytes_bits (pack bs) = take 8 (bs @ replicate 7 True) @ drop 8 bs @ replicate (pad_len (length bs - 8)) True"
      by (subst pack.simps) (simp only: False if_False bytes_bits_simps h "1.IH" [OF False] length_drop not_False_eq_True)
    also have "\<dots> = bs @ replicate (pad_len (length bs)) True"
    proof (cases "8 \<le> length bs")
      case True
      then have "pad_len (length bs - 8) = pad_len (length bs)" by (simp add: pad_len_def le_mod_geq)
      then show ?thesis using True by simp
    next
      case False
      then have "pad_len (length bs) = 8 - length bs" "pad_len 0 = 0"
        using \<open>bs \<noteq> []\<close> by (simp_all add: pad_len_def)
      moreover have "min (8 - length bs) 7 = 8 - length bs" using \<open>bs \<noteq> []\<close> by (cases bs) simp_all
      ultimately show ?thesis using False by simp
    qed
    finally show ?thesis .
  qed (simp add: pack.simps pad_len_def)
qed

lemma length_pack: "length (pack bs) = (length bs + 7) div 8"
proof -
  have "8 * length (pack bs) = length bs + pad_len (length bs)"
    using arg_cong [OF pack_bits [of bs], of length] by simp
  moreover have "pad_len (length bs) < 8" by (simp add: pad_len_def)
  ultimately show ?thesis by linarith
qed

lemma pack_unique: "bytes_bits p = bs @ replicate k True \<Longrightarrow> k < 8 \<Longrightarrow> p = pack bs"
proof -
  assume a: "bytes_bits p = bs @ replicate k True" "k < 8"
  have "8 * length p = length bs + k" using arg_cong [OF a(1), of length] by simp
  moreover have "8 * length (pack bs) = length bs + pad_len (length bs)"
    using arg_cong [OF pack_bits [of bs], of length] by simp
  moreover have "pad_len (length bs) < 8" by (simp add: pad_len_def)
  ultimately have "k = pad_len (length bs)" using a(2) by presburger
  then show ?thesis using a(1) pack_bits [of bs] bytes_bits_inj by simp
qed

text \<open>The bytes of a bit string that starts with whole bytes.\<close>

lemma pack_prefix: "bytes_bits p @ rest = bs \<Longrightarrow> \<exists>q. pack bs = p @ q"
proof -
  assume a: "bytes_bits p @ rest = bs"
  have "bytes_bits (p @ pack rest) = bs @ replicate (pad_len (length rest)) True"
    using a pack_bits [of rest] by auto
  then have "p @ pack rest = pack bs" by (rule pack_unique) (simp add: pad_len_def)
  then show ?thesis by metis
qed

lemma huff_count_loop: "huff_count_loop src n = n + length (codes src)"
proof (induction src arbitrary: n)
  case (Cons c src)
  then show ?case using huff_code_bits [OF unat_byte_less, of c] by (simp add: huff_nbits_def)
qed simp

lemma encode_count: "nghttp2_hd_huff_encode_count src = length (pack (codes src))"
  by (simp add: nghttp2_hd_huff_encode_count_def huff_count_loop length_pack)

subsection \<open>The encoder writes the packed codes\<close>

lemma addb_res: "bufs_inv bufs \<Longrightarrow> sink.res bufs [x] (nghttp2_bufs_addb bufs x)"
  using wr_addb [of x] by (simp add: sink.wr_def)

lemma put_cur_res:
  assumes "bufs_inv bufs" "length p \<le> nghttp2_buf_avail (cur_buf bufs)"
  shows "\<exists>b. buf_put (cur_buf bufs) p = Some b \<and> sink.res bufs p (Some (0, set_cur bufs b)) \<and>
    nghttp2_buf_avail (cur_buf (set_cur bufs b)) + length p = nghttp2_buf_avail (cur_buf bufs)"
proof -
  obtain b where b: "buf_put (cur_buf bufs) p = Some b" "bufs_inv (set_cur bufs b)"
    "bufs_content (set_cur bufs b) = bufs_content bufs @ p" "bufs_room (set_cur bufs b) + length p = bufs_room bufs"
    "nghttp2_buf_avail (cur_buf (set_cur bufs b)) + length p = nghttp2_buf_avail (cur_buf bufs)"
    "bufs_shape (set_cur bufs b) = bufs_shape bufs"
    using put_cur [OF assms] by blast
  have "bufs_memok (set_cur bufs b) = bufs_memok bufs" by (simp add: bufs_memok_def set_cur_def)
  then show ?thesis using b by (auto simp: sink.res_def)
qed

lemma byte_bits_ucast:
  assumes "unat (w :: 'a::len word) < 2 ^ 8"
  shows "byte_bits (ucast w) = bits_of 8 (unat w)"
  using assms by (simp add: byte_bits_def unsigned_ucast_eq take_bit_eq_mod)

lemma word_bits: "bytes_bits (uint32be_bytes w) = bits_of 32 (unat w)"
proof -
  have s: "bits_of (n + 8) x = bits_of n (x div 256) @ bits_of 8 x" for n x
    using bits_of_append [of n 8 x] bits_of_mod [of 8 x] by simp
  have b: "byte_bits (ucast (drop_bit n w)) = bits_of 8 (unat w div 2 ^ n)" for n
    using bits_of_mod [of 8 "unat w div 2 ^ n"]
    by (simp add: byte_bits_def unsigned_ucast_eq take_bit_eq_mod unat_drop_bit)
  have "byte_bits (ucast w) = bits_of 8 (unat w)" using b [of 0] by simp
  moreover have "bits_of 32 x = bits_of 8 (x div 256 div 256 div 256) @ bits_of 8 (x div 256 div 256) @
      bits_of 8 (x div 256) @ bits_of 8 x" for x
    using s [of 24 x] s [of 16 "x div 256"] s [of 8 "x div 256 div 256"] by simp
  ultimately show ?thesis by (simp add: uint32be_bytes_def b flip: div_mult2_eq)
qed

lemma huff_flush_res:
  assumes "bufs_inv bufs" "acc code nbits v"
  shows "\<exists>rv bufs' code' nbits' p. huff_flush bufs code nbits = Some (rv, bufs', code', nbits') \<and>
    sink.res bufs p (Some (rv, bufs')) \<and>
    bits_of nbits v = bytes_bits p @ bits_of (nbits mod 8) v \<and>
    (rv = 0 \<longrightarrow> nbits' = nbits mod 8 \<and> acc code' (nbits mod 8) (v mod 2 ^ (nbits mod 8)))"
  using assms
proof (induction nbits arbitrary: bufs code v rule: less_induct)
  case (less nbits)
  show ?case
  proof (cases "8 \<le> nbits")
    case False
    then have "huff_flush bufs code nbits = Some (0, bufs, code, nbits)" by (simp add: huff_flush.simps)
    moreover have "v < 2 ^ nbits" using less.prems(2) by (simp add: acc_def)
    ultimately show ?thesis using False less.prems sink.res_nop by (intro exI [of _ "[]"] exI conjI) auto
  next
    case True
    note t = acc_top [OF less.prems(2) True]
    let ?x = "ucast (drop_bit 56 code) :: u8" and ?v = "v mod 2 ^ (nbits - 8)"
    have x: "byte_bits ?x = bits_of 8 (v div 2 ^ (nbits - 8))"
      using byte_bits_ucast [of "drop_bit 56 code"] t(1,4) by simp
    obtain rv b1 where a: "nghttp2_bufs_addb bufs ?x = Some (rv, b1)" "sink.res bufs [?x] (Some (rv, b1))" "bufs_inv b1"
      using addb_res [OF less.prems(1), of ?x] by (rule sink.res_cases)
    have m: "(nbits - 8) mod 8 = nbits mod 8" using True by (simp add: le_mod_geq)
    obtain rv' b2 code' nbits' p where f:
      "huff_flush b1 (push_bit 8 code) (nbits - 8) = Some (rv', b2, code', nbits')"
      "sink.res b1 p (Some (rv', b2))"
      "bits_of (nbits - 8) ?v = bytes_bits p @ bits_of (nbits mod 8) ?v"
      "rv' = 0 \<longrightarrow> nbits' = nbits mod 8 \<and> acc code' (nbits mod 8) (?v mod 2 ^ (nbits mod 8))"
      using less.IH [of "nbits - 8" b1 "push_bit 8 code" ?v] t(2) a(3) True m by auto
    have le: "nbits mod 8 \<le> nbits - 8" using True m by (metis mod_less_eq_dividend)
    have vm: "?v mod 2 ^ (nbits mod 8) = v mod 2 ^ (nbits mod 8)"
      using le by (simp add: mod_mod_cancel le_imp_power_dvd)
    then have "bits_of (nbits mod 8) ?v = bits_of (nbits mod 8) v"
      using bits_of_mod [of "nbits mod 8" ?v] bits_of_mod [of "nbits mod 8" v] by simp
    then have bits: "bits_of nbits v = bytes_bits (?x # p) @ bits_of (nbits mod 8) v"
      using t(3) f(3) x by simp
    show ?thesis
    proof (cases "rv = 0")
      case True
      have "huff_flush bufs code nbits = Some (rv', b2, code', nbits')"
        using a(1) True \<open>8 \<le> nbits\<close> f(1) by (subst huff_flush.simps) simp
      moreover have "sink.res bufs (?x # p) (Some (rv', b2))" using sink.res_ok [of bufs "[?x]" b1 p] a(2) f(2) True by simp
      ultimately show ?thesis using bits f(4) vm by (intro exI [of _ "?x # p"] exI conjI) auto
    next
      case False
      have "huff_flush bufs code nbits = Some (rv, b1, code, nbits)"
        using a(1) False \<open>8 \<le> nbits\<close> by (subst huff_flush.simps) simp
      moreover have "sink.res bufs (?x # p) (Some (rv, b1))" using sink.res_fail [of bufs "[?x]" rv b1 p] a(2) False by simp
      ultimately show ?thesis using bits False by (intro exI [of _ "?x # p"] exI conjI) auto
    qed
  qed
qed

text \<open>What a run of the loop over the bits of the accumulator and the codes that follow does.\<close>

definition enc_ok :: "nghttp2_bufs \<Rightarrow> bool list \<Rightarrow> (rc \<times> nghttp2_bufs \<times> u64 \<times> nat) option \<Rightarrow> bool" where
  "enc_ok bufs bits r \<longleftrightarrow>
     (\<exists>rv bufs' code nbits p rest. r = Some (rv, bufs', code, nbits) \<and> sink.res bufs p (Some (rv, bufs')) \<and>
        bits = bytes_bits p @ rest \<and>
        (rv = 0 \<longrightarrow> nbits < 32 \<and> (\<exists>v. acc code nbits v \<and> rest = bits_of nbits v)))"

lemma enc_ok_step: "sink.res bufs p (Some (0, b1)) \<Longrightarrow> enc_ok b1 bits r \<Longrightarrow> enc_ok bufs (bytes_bits p @ bits) r"
  unfolding enc_ok_def by (metis append.assoc bytes_bits_simps(3) sink.res_ok)

lemma huff_encode_loop_ok:
  "bufs_inv bufs \<Longrightarrow> acc code nbits v \<Longrightarrow> nbits < 32 \<Longrightarrow> avail = nghttp2_buf_avail (cur_buf bufs) \<Longrightarrow>
     enc_ok bufs (bits_of nbits v @ codes src) (huff_encode_loop bufs code nbits avail src)"
proof (induction src arbitrary: bufs code nbits v avail)
  case Nil
  then show ?case using sink.res_nop [OF Nil.prems(1)] unfolding enc_ok_def
    by (intro exI [of _ "[]"] exI conjI) auto
next
  case (Cons c src)
  let ?e = "huff_sym_table ! unat c"
  define code1 where "code1 = code OR push_bit (32 - nbits) (of_nat (snd ?e))"
  define n1 where "n1 = nbits + fst ?e"
  define v1 where "v1 = v * 2 ^ fst ?e + snd ?e div 2 ^ (32 - fst ?e)"
  have a1: "acc code1 n1 v1" unfolding code1_def n1_def v1_def using Cons.prems by (intro acc_or) (auto simp: unat_byte_less)
  have bits: "bits_of nbits v @ codes (c # src) = bits_of n1 v1 @ codes src"
    using acc_bits_or [OF unat_byte_less, of nbits c v] by (simp add: n1_def v1_def)
  have n1: "n1 < 64" using sym_entry(2) [OF unat_byte_less, of c] Cons.prems(3) by (simp add: n1_def)
  consider "n1 < 32" | "32 \<le> n1" "4 \<le> avail" | "32 \<le> n1" "avail < 4" by linarith
  then show ?case
  proof cases
    case 1
    then have "huff_encode_loop bufs code nbits avail (c # src) = huff_encode_loop bufs code1 n1 avail src"
      by (simp add: Let_def n1_def code1_def)
    then show ?thesis unfolding bits using Cons.IH [OF Cons.prems(1) a1 1 Cons.prems(4)] by simp
  next
    case 2
    note t = acc_top [OF a1 2(1)]
    let ?w = "uint32be_bytes (ucast (drop_bit 32 code1))"
    obtain b where b: "buf_put (cur_buf bufs) ?w = Some b" "sink.res bufs ?w (Some (0, set_cur bufs b))"
      "nghttp2_buf_avail (cur_buf (set_cur bufs b)) + 4 = nghttp2_buf_avail (cur_buf bufs)"
      using put_cur_res [OF Cons.prems(1), of ?w] 2 Cons.prems(4) by auto
    have e: "huff_encode_loop bufs code nbits avail (c # src) =
        huff_encode_loop (set_cur bufs b) (push_bit 32 code1) (n1 - 32) (avail - 4) src"
      using 2 b(1) by (simp add: Let_def n1_def code1_def)
    have "unat (ucast (drop_bit 32 code1) :: u32) = v1 div 2 ^ (n1 - 32)"
      using t(1,4) by (simp add: unsigned_ucast_eq take_bit_eq_mod)
    then have w: "bits_of n1 v1 = bytes_bits ?w @ bits_of (n1 - 32) (v1 mod 2 ^ (n1 - 32))"
      using t(3) word_bits by simp
    have "enc_ok (set_cur bufs b) (bits_of (n1 - 32) (v1 mod 2 ^ (n1 - 32)) @ codes src)
        (huff_encode_loop (set_cur bufs b) (push_bit 32 code1) (n1 - 32) (avail - 4) src)"
      using sink.res_inv [OF b(2)] t(2) n1 b(3) Cons.prems(4) by (intro Cons.IH) auto
    from enc_ok_step [OF b(2) this] show ?thesis unfolding bits e w by simp
  next
    case 3
    obtain rv b1 code2 n2 p where f: "huff_flush bufs code1 n1 = Some (rv, b1, code2, n2)"
      "sink.res bufs p (Some (rv, b1))" "bits_of n1 v1 = bytes_bits p @ bits_of (n1 mod 8) v1"
      "rv = 0 \<longrightarrow> n2 = n1 mod 8 \<and> acc code2 (n1 mod 8) (v1 mod 2 ^ (n1 mod 8))"
      using huff_flush_res [OF Cons.prems(1) a1] by blast
    have e: "huff_encode_loop bufs code nbits avail (c # src) =
      (if rv \<noteq> 0 then Some (rv, b1, code2, n2)
       else huff_encode_loop b1 code2 n2 (nghttp2_buf_avail (cur_buf b1)) src)"
      using 3 f(1) by (simp add: Let_def n1_def code1_def)
    show ?thesis
    proof (cases "rv = 0")
      case True
      then have r: "sink.res bufs p (Some (0, b1))" "acc code2 n2 (v1 mod 2 ^ n2)" "n2 = n1 mod 8" using f by auto
      have "n2 < 32" using r(3) mod_less_divisor [of 8 n1] by linarith
      then have "enc_ok b1 (bits_of n2 (v1 mod 2 ^ n2) @ codes src)
          (huff_encode_loop b1 code2 n2 (nghttp2_buf_avail (cur_buf b1)) src)"
        using sink.res_inv [OF r(1)] r(2) by (intro Cons.IH) auto
      from enc_ok_step [OF r(1) this] show ?thesis unfolding bits e f(3) using True r(3) by simp
    next
      case False
      then show ?thesis unfolding bits e f(3) enc_ok_def using f(2)
        by (intro exI [of _ p] exI [of _ "bits_of (n1 mod 8) v1 @ codes src"] exI conjI) auto
    qed
  qed
qed

text \<open>The last byte, filled with ones.\<close>

lemma pad_byte:
  assumes a: "acc code nbits v" and n: "0 < nbits" "nbits < 8"
  shows "byte_bits (ucast (drop_bit 56 code) OR (push_bit (8 - nbits) 1 - 1)) = bits_of nbits v @ replicate (8 - nbits) True"
proof -
  let ?k = "8 - nbits"
  have v: "v < 2 ^ nbits" "unat code = v * 2 ^ (64 - nbits)" using a by (simp_all add: acc_def)
  have p: "(2 :: nat) ^ (64 - nbits) = 2 ^ ?k * 2 ^ 56" "(2 :: nat) ^ 8 = 2 ^ nbits * 2 ^ ?k"
    using n by (simp_all only: power_add [symmetric]) simp_all
  have "unat (drop_bit 56 code) = v * 2 ^ ?k"
    using v(2) p(1) by (simp add: unat_drop_bit mult.assoc [symmetric])
  moreover have "v * 2 ^ ?k < 2 ^ 8" unfolding p(2) using v(1) by simp
  ultimately have u: "unat (ucast (drop_bit 56 code) :: u8) = v * 2 ^ ?k"
    by (simp add: unsigned_ucast_eq take_bit_eq_mod)
  have "push_bit ?k 1 - 1 = (mask ?k :: u8)" by (simp add: mask_eq_decr_exp push_bit_eq_mult)
  moreover have "unat (mask ?k :: u8) = mask ?k"
    by (rule bit_eqI) (use n in \<open>auto simp: bit_simps\<close>)
  ultimately have "unat (push_bit ?k 1 - 1 :: u8) = 2 ^ ?k - 1" by (simp add: mask_eq_exp_minus_1)
  then have "unat (ucast (drop_bit 56 code) OR (push_bit ?k 1 - 1) :: u8) = v * 2 ^ ?k + (2 ^ ?k - 1)"
    using u or_disjoint_nat [of "2 ^ ?k - 1" ?k v] by (simp add: unsigned_or_eq)
  moreover have "(v * 2 ^ ?k + (2 ^ ?k - 1)) div 2 ^ ?k = v" "(v * 2 ^ ?k + (2 ^ ?k - 1)) mod 2 ^ ?k = 2 ^ ?k - 1"
  proof -
    obtain r where r: "r = (2 :: nat) ^ ?k - 1" "r < 2 ^ ?k" by simp
    then show "(v * 2 ^ ?k + (2 ^ ?k - 1)) div 2 ^ ?k = v" "(v * 2 ^ ?k + (2 ^ ?k - 1)) mod 2 ^ ?k = 2 ^ ?k - 1"
      unfolding r(1) [symmetric] by simp_all
  qed
  ultimately show ?thesis
    using bits_of_append [of nbits ?k "v * 2 ^ ?k + (2 ^ ?k - 1)"] n bits_of_ones [of ?k]
    by (simp add: byte_bits_def)
qed

lemma huff_encode_res:
  assumes inv: "bufs_inv bufs"
  shows "sink.res bufs (pack (codes src)) (nghttp2_hd_huff_encode bufs src)"
proof -
  have "enc_ok bufs (bits_of 0 0 @ codes src) (huff_encode_loop bufs 0 0 (nghttp2_buf_avail (cur_buf bufs)) src)"
    using inv by (intro huff_encode_loop_ok) (auto simp: acc_def)
  then obtain rv b1 code n p rest where l:
    "huff_encode_loop bufs 0 0 (nghttp2_buf_avail (cur_buf bufs)) src = Some (rv, b1, code, n)"
    "sink.res bufs p (Some (rv, b1))" "codes src = bytes_bits p @ rest"
    "rv = 0 \<longrightarrow> (\<exists>v. acc code n v \<and> rest = bits_of n v)"
    unfolding enc_ok_def bits_of.simps append_Nil by blast
  obtain q where q: "pack (codes src) = p @ q" using pack_prefix [OF l(3) [symmetric]] by blast
  show ?thesis
  proof (cases "rv = 0")
    case False
    then show ?thesis using l(1) sink.res_fail [OF l(2) False] q by (simp add: nghttp2_hd_huff_encode_def)
  next
    case True
    then obtain v where v: "acc code n v" "rest = bits_of n v" using l(4) by blast
    have r0: "sink.res bufs p (Some (0, b1))" using l(2) True by simp
    obtain rv' b2 code2 n2 p2 where f: "huff_flush b1 code n = Some (rv', b2, code2, n2)"
      "sink.res b1 p2 (Some (rv', b2))" "bits_of n v = bytes_bits p2 @ bits_of (n mod 8) v"
      "rv' = 0 \<longrightarrow> n2 = n mod 8 \<and> acc code2 (n mod 8) (v mod 2 ^ (n mod 8))"
      using huff_flush_res [OF sink.res_inv [OF l(2)] v(1)] by blast
    have r1: "sink.res bufs (p @ p2) (Some (rv', b2))" using sink.res_ok [OF r0 f(2)] .
    have bits: "codes src = bytes_bits (p @ p2) @ bits_of (n mod 8) v" using l(3) v(2) f(3) by simp
    obtain q2 where q2: "pack (codes src) = (p @ p2) @ q2" using pack_prefix [OF bits [symmetric]] by blast
    consider "rv' \<noteq> 0" | "rv' = 0" "n mod 8 = 0" | "rv' = 0" "n mod 8 \<noteq> 0" by blast
    then show ?thesis
    proof cases
      case 1
      then show ?thesis using l(1) True f(1) sink.res_fail [OF r1 1] q2 by (simp add: nghttp2_hd_huff_encode_def)
    next
      case 2
      have "pack (codes src) = p @ p2"
        using bits 2 by (intro pack_unique [symmetric, where k = 0]) simp_all
      then show ?thesis using l(1) True f(1,4) 2 r1 by (simp add: nghttp2_hd_huff_encode_def)
    next
      case 3
      let ?m = "n mod 8"
      let ?x = "ucast (drop_bit 56 code2) OR (push_bit (8 - ?m) 1 - 1) :: u8"
      have m: "0 < ?m" "?m < 8" using 3 by simp_all
      have x: "byte_bits ?x = bits_of ?m v @ replicate (8 - ?m) True"
        using pad_byte [of code2 ?m "v mod 2 ^ ?m"] f(4) 3(1) m by simp
      have "pack (codes src) = (p @ p2) @ [?x]"
        using bits x m by (intro pack_unique [symmetric, where k = "8 - ?m"]) simp_all
      moreover have "sink.res bufs ((p @ p2) @ [?x]) (nghttp2_bufs_addb b2 ?x)"
        using r1 3(1) sink.res_inv [OF f(2)] by (intro sink.res_ok [OF _ addb_res]) simp_all
      ultimately show ?thesis using l(1) True f(1,4) 3 by (simp add: nghttp2_hd_huff_encode_def)
    qed
  qed
qed

subsection \<open>The decoder follows the code tree\<close>

lemma flag_tests:
  assumes "f < 65536"
  shows "f AND 0x1ff = f mod 512" "f AND NGHTTP2_HUFF_SYM \<noteq> 0 \<longleftrightarrow> 2 \<le> f div 16384"
    "f AND NGHTTP2_HUFF_ACCEPTED \<noteq> 0 \<longleftrightarrow> f div 16384 mod 2 = 1"
proof -
  show "f AND 0x1ff = f mod 512" using take_bit_eq_mask [of 9 f] by (simp add: take_bit_eq_mod mask_eq_exp_minus_1)
  have "f AND NGHTTP2_HUFF_SYM \<noteq> 0 \<longleftrightarrow> odd (f div 2 ^ 15)"
    by (simp only: NGHTTP2_HUFF_SYM_def and_exp_eq_0_iff_not_bit bit_iff_odd not_not)
  also have "\<dots> \<longleftrightarrow> 2 \<le> f div 16384"
  proof -
    have "f div 32768 = f div 16384 div 2" by (simp add: div_mult2_eq [symmetric])
    moreover have "f div 16384 < 4" using assms by (simp add: less_mult_imp_div_less)
    ultimately show ?thesis by (auto simp: odd_iff_mod_2_eq_one)
  qed
  finally show "f AND NGHTTP2_HUFF_SYM \<noteq> 0 \<longleftrightarrow> 2 \<le> f div 16384" .
  have "f AND NGHTTP2_HUFF_ACCEPTED \<noteq> 0 \<longleftrightarrow> odd (f div 2 ^ 14)"
    by (simp only: NGHTTP2_HUFF_ACCEPTED_def and_exp_eq_0_iff_not_bit bit_iff_odd not_not)
  then show "f AND NGHTTP2_HUFF_ACCEPTED \<noteq> 0 \<longleftrightarrow> f div 16384 mod 2 = 1" by (simp add: odd_iff_mod_2_eq_one)
qed

text \<open>
  The relation between the bits read so far, the state of the decoder and the symbols it stored.
  The failure state is entered when the code of EOS has been read.
\<close>

definition ones :: "nat \<Rightarrow> bool list" where
  "ones k = replicate k True"

definition dec_rel :: "bool list \<Rightarrow> nat \<Rightarrow> bytes \<Rightarrow> bool" where
  "dec_rel bits f out \<longleftrightarrow>
     (if f = 256 then \<exists>xs. bits = codes out @ huff_code 256 @ xs
      else f < 65536 \<and> f mod 512 < 256 \<and> bits = codes out @ state_bits (f mod 512) \<and>
        (f AND NGHTTP2_HUFF_ACCEPTED \<noteq> 0 \<longleftrightarrow> (\<exists>k \<le> 7. state_bits (f mod 512) = ones k)))"

lemma state_ones:
  assumes "s < 256"
  shows "(\<exists>k \<le> 7. state_bits s = ones k) \<longleftrightarrow>
    fst (huff_prefix ! s) \<le> 7 \<and> snd (huff_prefix ! s) = 2 ^ fst (huff_prefix ! s) - 1"
  using bits_of_ones_iff [OF state_prefix(2) [OF assms]] unfolding state_bits_def ones_def
  by (metis length_bits_of length_replicate)

lemma state_step_bits:
  "s < 256 \<Longrightarrow> v < 16 \<Longrightarrow> state_bits s @ bits_of 4 v = bits_of (fst (huff_prefix ! s) + 4) (snd (huff_prefix ! s) * 16 + v)"
  using bits_of_append [of "fst (huff_prefix ! s)" 4 "snd (huff_prefix ! s) * 16 + v"] by (simp add: state_bits_def)

text \<open>One entry of the table, read as bits.\<close>

lemma entry_bits:
  assumes s: "s < 256" and v: "v < 16" and e: "huff_decode_table ! s ! v = (f, y)"
  shows "f = 256 \<and> (\<exists>xs. state_bits s @ bits_of 4 v = huff_code 256 @ xs) \<or>
    f \<noteq> 256 \<and> f < 65536 \<and> f mod 512 < 256 \<and>
    (f AND NGHTTP2_HUFF_ACCEPTED \<noteq> 0 \<longleftrightarrow> (\<exists>k \<le> 7. state_bits (f mod 512) = ones k)) \<and>
    (if f AND NGHTTP2_HUFF_SYM \<noteq> 0
     then y < 256 \<and> state_bits s @ bits_of 4 v = huff_code y @ state_bits (f mod 512)
     else state_bits s @ bits_of 4 v = state_bits (f mod 512))"
proof -
  let ?k = "fst (huff_prefix ! s) + 4" and ?x = "snd (huff_prefix ! s) * 16 + v"
  have ok: "entry_ok ?k ?x (f, y)" using decode_entry [OF s v] e by simp
  note b = state_step_bits [OF s v]
  show ?thesis
  proof (cases "f = 256")
    case True
    then have "30 \<le> ?k" "?x div 2 ^ (?k - 30) = 2 ^ 30 - 1" using ok by auto
    then have "bits_of ?k ?x = bits_of 30 (2 ^ 30 - 1) @ bits_of (?k - 30) (?x mod 2 ^ (?k - 30))"
      using bits_of_append [of 30 "?k - 30" ?x] by (simp add: add.commute)
    then show ?thesis using True b bits_of_ones [of 30] huff_code_eos by metis
  next
    case False
    let ?t = "f mod 512"
    obtain nk nr where n: "huff_prefix ! ?t = (nk, nr)" by (rule prod.exhaust)
    have f: "f < 65536" "?t < 256" and nx: "next_ok ?k ?x (f div 16384) y (nk, nr)" using ok False n by auto
    have sb: "state_bits ?t = bits_of nk nr" using n by (simp add: state_bits_def)
    have acc: "f AND NGHTTP2_HUFF_ACCEPTED \<noteq> 0 \<longleftrightarrow> (\<exists>k \<le> 7. state_bits ?t = ones k)"
      using nx n by (simp only: flag_tests(3) [OF f(1)] state_ones [OF f(2)] fst_conv snd_conv next_ok.simps)
    show ?thesis
    proof (cases "2 \<le> f div 16384")
      case True
      obtain cn c where c: "huff_sym_table ! y = (cn, c)" by (rule prod.exhaust)
      have y: "y < 256" "?k = cn + nk" "c = ?x div 2 ^ nk * 2 ^ (32 - cn)" "?x mod 2 ^ nk = nr"
        using nx True c by auto
      have "huff_code y = bits_of cn (?x div 2 ^ nk)" using huff_code_bits [of y] y(1,3) c by simp
      then have "bits_of ?k ?x = huff_code y @ state_bits ?t"
        using bits_of_append [of cn nk ?x] y(2,4) sb by simp
      then show ?thesis using True False f acc b y(1) flag_tests(2) [OF f(1)] by simp
    next
      case False
      then have "nk = ?k" "nr = ?x" using nx by auto
      then have "bits_of ?k ?x = state_bits ?t" using sb by simp
      then show ?thesis using False \<open>f \<noteq> 256\<close> f acc b flag_tests(2) [OF f(1)] by simp
    qed
  qed
qed

lemma nibble_step:
  assumes r: "dec_rel bits f out" and v: "v < 16" and b: "buf_ok b" "1 \<le> nghttp2_buf_avail b"
  shows "\<exists>f' b' o'. huff_decode_nibble f b v = Some (f', b') \<and> dec_rel (bits @ bits_of 4 v) f' (out @ o') \<and>
    buf_ok b' \<and> buf_bytes b' = buf_bytes b @ o' \<and> length o' \<le> 1 \<and>
    nghttp2_buf_avail b' + length o' = nghttp2_buf_avail b"
proof (cases "f = 256")
  case True
  then have "huff_decode_nibble f b v = Some (256, b)"
    using decode_sink [OF v] by (simp add: huff_decode_nibble_def NGHTTP2_HUFF_SYM_def)
  moreover have "dec_rel (bits @ bits_of 4 v) 256 (out @ [])" using r True by (auto simp: dec_rel_def)
  ultimately show ?thesis using b by (intro exI [of _ "[]"] exI conjI) auto
next
  case False
  let ?s = "f mod 512"
  have f: "f < 65536" "?s < 256" and bits: "bits = codes out @ state_bits ?s"
    using r False by (simp_all add: dec_rel_def)
  obtain f' y where e: "huff_decode_table ! ?s ! v = (f', y)" by (rule prod.exhaust)
  note n = entry_bits [OF f(2) v e]
  show ?thesis
  proof (cases "f' AND NGHTTP2_HUFF_SYM \<noteq> 0")
    case True
    then have "f' \<noteq> 256" by (auto simp: NGHTTP2_HUFF_SYM_def)
    obtain b' where b': "buf_put b [of_nat y] = Some b'" "buf_ok b'" "buf_bytes b' = buf_bytes b @ [of_nat y]"
      "nghttp2_buf_avail b' + 1 = nghttp2_buf_avail b"
      using buf_put_ok [OF b(1), of "[of_nat y]"] b(2) by auto
    have "huff_decode_nibble f b v = Some (f', b')"
      using e b'(1) True by (simp add: huff_decode_nibble_def Let_def flag_tests(1) [OF f(1)])
    moreover have "dec_rel (bits @ bits_of 4 v) f' (out @ [of_nat y])"
      using n True \<open>f' \<noteq> 256\<close> bits by (simp add: dec_rel_def unsigned_of_nat take_bit_nat_eq_self)
    ultimately show ?thesis using b' by (intro exI [of _ "[of_nat y]"] exI conjI) auto
  next
    case False
    then have "huff_decode_nibble f b v = Some (f', b)"
      using e by (simp add: huff_decode_nibble_def Let_def flag_tests(1) [OF f(1)])
    moreover have "dec_rel (bits @ bits_of 4 v) f' (out @ [])"
      using n False bits by (auto simp: dec_rel_def)
    ultimately show ?thesis using b by (intro exI [of _ "[]"] exI conjI) auto
  qed
qed

lemma unat_low_nibble: "unat (c AND 0xf :: u8) = unat c mod 16"
  using unat_and_mask [of c 4] by simp

lemma byte_nibbles: "byte_bits c = bits_of 4 (unat (drop_bit 4 c)) @ bits_of 4 (unat (c AND 0xf))"
  using bits_of_append [of 4 4 "unat c"] by (simp add: byte_bits_def unat_drop_bit unat_low_nibble)

lemma nibble_less: "unat (drop_bit 4 (c :: u8)) < 16" "unat ((c :: u8) AND 0xf) < 16"
  using unat_less_exp [of c] by (simp_all add: unat_drop_bit unat_low_nibble less_mult_imp_div_less)

text \<open>A run over a fragment stores at most two symbols for each byte of it.\<close>

lemma decode_loop_rel:
  "dec_rel bits f out \<Longrightarrow> buf_ok b \<Longrightarrow> 2 * length src \<le> nghttp2_buf_avail b \<Longrightarrow>
     \<exists>f' b' o'. huff_decode_loop f b src = Some (f', b') \<and> dec_rel (bits @ bytes_bits src) f' (out @ o') \<and>
       buf_ok b' \<and> buf_bytes b' = buf_bytes b @ o' \<and> length o' \<le> 2 * length src \<and>
       nghttp2_buf_avail b' + length o' = nghttp2_buf_avail b"
proof (induction src arbitrary: bits f out b)
  case Nil
  then show ?case by (intro exI [of _ f] exI [of _ b] exI [of _ "[]"]) simp
next
  case (Cons c src)
  have "1 \<le> nghttp2_buf_avail b" using Cons.prems(3) by simp
  from nibble_step [OF Cons.prems(1) nibble_less(1) Cons.prems(2) this, of c] obtain f1 b1 o1 where
    1: "huff_decode_nibble f b (unat (drop_bit 4 c)) = Some (f1, b1)"
    "dec_rel (bits @ bits_of 4 (unat (drop_bit 4 c))) f1 (out @ o1)" "buf_ok b1" "buf_bytes b1 = buf_bytes b @ o1"
    "length o1 \<le> 1" "nghttp2_buf_avail b1 + length o1 = nghttp2_buf_avail b" by blast
  have "1 \<le> nghttp2_buf_avail b1" using Cons.prems(3) 1(5,6) by simp
  from nibble_step [OF 1(2) nibble_less(2) 1(3) this, of c] obtain f2 b2 o2 where
    2: "huff_decode_nibble f1 b1 (unat (c AND 0xf)) = Some (f2, b2)"
    "dec_rel (bits @ byte_bits c) f2 (out @ o1 @ o2)" "buf_ok b2" "buf_bytes b2 = buf_bytes b1 @ o2"
    "length o2 \<le> 1" "nghttp2_buf_avail b2 + length o2 = nghttp2_buf_avail b1"
    by (auto simp: byte_nibbles)
  have "2 * length src \<le> nghttp2_buf_avail b2" using Cons.prems(3) 1(5,6) 2(5,6) by simp
  from Cons.IH [OF 2(2,3) this] obtain f' b' o' where
    3: "huff_decode_loop f2 b2 src = Some (f', b')" "dec_rel (bits @ bytes_bits (c # src)) f' (out @ o1 @ o2 @ o')"
    "buf_ok b'" "buf_bytes b' = buf_bytes b2 @ o'" "length o' \<le> 2 * length src"
    "nghttp2_buf_avail b' + length o' = nghttp2_buf_avail b2" by auto
  show ?case using 1 2 3 by (intro exI [of _ f'] exI [of _ b'] exI [of _ "o1 @ o2 @ o'"]) auto
qed

subsection \<open>Unique parsing\<close>

text \<open>A bit string is stuck when no code of a byte starts it; after the codes of a string, what is stuck is determined.\<close>

definition stuck :: "bool list \<Rightarrow> bool" where
  "stuck x \<longleftrightarrow> (\<forall>s < 256. \<forall>xs. x \<noteq> huff_code s @ xs)"

lemma unat_byte256: "unat (c :: u8) < 256"
  using unat_less_exp [of c] by simp

lemma codes_unique: "codes a @ x = codes b @ y \<Longrightarrow> stuck x \<Longrightarrow> stuck y \<Longrightarrow> a = b \<and> x = y"
proof (induction a arbitrary: b)
  case Nil
  then show ?case using unat_byte256 by (cases b) (auto simp: stuck_def)
next
  case (Cons c a)
  show ?case
  proof (cases b)
    case Nil
    then show ?thesis using Cons.prems unat_byte256 [of c] unfolding stuck_def
      by (metis append_assoc append_self_conv2 codes_simps(1,2))
  next
    case (Cons d b')
    have eq: "huff_code (unat c) @ codes a @ x = huff_code (unat d) @ codes b' @ y"
      using Cons.prems(1) Cons by simp
    have "unat c = unat d" "codes a @ x = codes b' @ y"
      using code_prefix_free [OF unat_byte_less unat_byte_less eq] by auto
    then show ?thesis using Cons.IH [of b'] Cons.prems(2,3) Cons unat_eqD by auto
  qed
qed

lemma stuck_state: "n < 256 \<Longrightarrow> stuck (state_bits n)"
  using state_no_code by (auto simp: stuck_def)

lemma stuck_eos: "stuck (huff_code 256 @ xs)"
proof -
  have "huff_code 256 @ xs \<noteq> huff_code s @ ys" if "s < 256" for s ys
    using code_prefix_free(1) [of 256 s xs ys] that by auto
  then show ?thesis by (simp add: stuck_def)
qed

lemma stuck_ones:
  assumes "k \<le> 7"
  shows "stuck (ones k)"
proof -
  have "ones k \<noteq> huff_code s @ ys" if s: "s < 256" for s ys
  proof
    assume a: "ones k = huff_code s @ ys"
    have "huff_code 256 @ [] = ones k @ replicate (30 - k) True"
      using assms by (simp add: huff_code_eos ones_def flip: replicate_add)
    then have "huff_code 256 @ [] = huff_code s @ (ys @ replicate (30 - k) True)" using a by simp
    then show False using code_prefix_free(1) [of 256 s "[]" "ys @ replicate (30 - k) True"] s by simp
  qed
  then show ?thesis by (simp add: stuck_def)
qed

lemma dec_rel_unique:
  assumes r: "dec_rel (codes s @ x) f out" and x: "stuck x"
  shows "out = s \<and> (if f = 256 then \<exists>xs. x = huff_code 256 @ xs else x = state_bits (f mod 512))"
proof (cases "f = 256")
  case True
  then obtain xs where "codes s @ x = codes out @ huff_code 256 @ xs" using r by (auto simp: dec_rel_def)
  then show ?thesis using codes_unique [OF _ x stuck_eos, of s out xs] True by auto
next
  case False
  then have "codes s @ x = codes out @ state_bits (f mod 512)" "f mod 512 < 256" using r by (auto simp: dec_rel_def)
  then show ?thesis using codes_unique [OF _ x stuck_state, of s out "f mod 512"] False by auto
qed

lemma dec_rel_init: "dec_rel [] (fstate nghttp2_hd_huff_decode_context_init) []"
proof -
  have "state_bits 0 = []" by (simp add: state_bits_def huff_prefix_nth)
  moreover have "ones 0 = []" by (simp add: ones_def)
  ultimately show ?thesis
    by (auto simp: dec_rel_def nghttp2_hd_huff_decode_context_init_def NGHTTP2_HUFF_ACCEPTED_def intro: exI [of _ 0])
qed

lemma dec_rel_accepted:
  "dec_rel bits f out \<Longrightarrow> f AND NGHTTP2_HUFF_ACCEPTED \<noteq> 0 \<longleftrightarrow> (\<exists>k \<le> 7. bits = codes out @ ones k)"
proof -
  assume r: "dec_rel bits f out"
  show ?thesis
  proof (cases "f = 256")
    case True
    then obtain xs where b: "bits = codes out @ huff_code 256 @ xs" using r by (auto simp: dec_rel_def)
    have "bits \<noteq> codes out @ ones k" if "k \<le> 7" for k
    proof
      assume "bits = codes out @ ones k"
      then have "huff_code 256 @ xs = ones k" using b by simp
      from arg_cong [OF this, of length] show False using that by (simp add: huff_code_eos ones_def)
    qed
    then show ?thesis using True by (auto simp: NGHTTP2_HUFF_ACCEPTED_def)
  qed (use r in \<open>auto simp: dec_rel_def\<close>)
qed

lemma huff_decode_loop_append:
  "huff_decode_loop f b (xs @ ys) = do { (f, b) \<leftarrow> huff_decode_loop f b xs; huff_decode_loop f b ys }"
  by (induction f b xs rule: huff_decode_loop.induct) (auto split: Option.bind_splits)

lemma init_state: "fstate nghttp2_hd_huff_decode_context_init = NGHTTP2_HUFF_ACCEPTED"
  by (simp add: nghttp2_hd_huff_decode_context_init_def)

text \<open>A whole input read from the initial state.\<close>

lemma decode_from_init:
  assumes "buf_ok b" "2 * length src \<le> nghttp2_buf_avail b"
  obtains f b' out where "huff_decode_loop NGHTTP2_HUFF_ACCEPTED b src = Some (f, b')"
    "dec_rel (bytes_bits src) f out" "buf_ok b'" "buf_bytes b' = buf_bytes b @ out"
    "nghttp2_buf_avail b' + length out = nghttp2_buf_avail b"
  using decode_loop_rel [OF dec_rel_init assms] by (auto simp: init_state)

lemma final_result:
  assumes "huff_decode_loop NGHTTP2_HUFF_ACCEPTED b src = Some (f, b')" "dec_rel (bytes_bits src) f out"
  shows "nghttp2_hd_huff_decode nghttp2_hd_huff_decode_context_init b src True =
    Some (if \<exists>k \<le> 7. bytes_bits src = codes out @ ones k then int (length src) else NGHTTP2_ERR_HEADER_COMP,
      nghttp2_hd_huff_decode_context_init\<lparr>fstate := f\<rparr>, b')"
  using dec_rel_accepted [OF assms(2)] assms(1)
  by (auto simp: nghttp2_hd_huff_decode_def init_state Let_def simp del: One_nat_def)

lemma pack_example: "pack (codes [97, 49]) = [0x18, 0x7f]"
proof -
  have "codes [97, 49] = [False, False, False, True, True, False, False, False, False, True]"
    by (simp add: codes_def huff_code_def huff_sym_nth flip: numeral_2_eq_2)
  moreover have "replicate 7 True = [True, True, True, True, True, True, True]"
    by (simp add: numeral_eq_Suc)
  ultimately show ?thesis by (simp add: pack.simps)
qed

subsection \<open>Properties\<close>

text \<open>
  C37.  The encoder is equivalent to packing the codes of the octets into bytes and filling the
  last byte with ones: when allocations succeed it succeeds exactly if the packed string fits in the
  room of the chain, it appends that string, and \<open>nghttp2_hd_huff_encode_count\<close> is its length.
\<close>

theorem huff_encode_packs_codes:
  assumes "bufs_inv bufs" "bufs_memok bufs"
  shows "\<exists>rv bufs'. nghttp2_hd_huff_encode bufs src = Some (rv, bufs') \<and> bufs_inv bufs' \<and>
    (rv = 0 \<longleftrightarrow> nghttp2_hd_huff_encode_count src \<le> bufs_room bufs) \<and>
    (rv = 0 \<longrightarrow> bufs_content bufs' = bufs_content bufs @ pack (codes src)) \<and>
    length (pack (codes src)) = nghttp2_hd_huff_encode_count src"
proof -
  obtain rv b1 where "nghttp2_hd_huff_encode bufs src = Some (rv, b1)"
    "sink.res bufs (pack (codes src)) (Some (rv, b1))" "bufs_inv b1"
    using huff_encode_res [OF assms(1)] by (rule sink.res_cases)
  then show ?thesis using assms(2) by (auto simp: sink.res_def encode_count)
qed

theorem huff_encode_packs_codes_witness:
  "\<exists>bufs rv bufs'. nghttp2_bufs_init3 \<lparr>mem_ok = \<lambda>_. True, mem_fill = \<lambda>_. 0\<rparr> 4 3 1 0 = Inr bufs \<and>
     nghttp2_hd_huff_encode bufs [97, 49] = Some (rv, bufs') \<and> rv = 0 \<and> bufs_content bufs' = [0x18, 0x7f]"
proof -
  obtain bufs where b: "nghttp2_bufs_init3 \<lparr>mem_ok = \<lambda>_. True, mem_fill = \<lambda>_. 0\<rparr> 4 3 1 0 = Inr bufs"
    by (simp add: nghttp2_bufs_init3_def buf_chain_new_def nghttp2_buf_init2_def nghttp2_buf_reserve_def
        nghttp2_buf_cap_def nghttp2_buf_init_def Let_def)
  from bufs_init3_inv [OF b] have i: "bufs_inv bufs" "bufs_memok bufs" "bufs_content bufs = []" "bufs_room bufs = 12"
    by (simp_all add: bufs_memok_def)
  have n: "nghttp2_hd_huff_encode_count [97, 49] = 2"
    by (simp add: nghttp2_hd_huff_encode_count_def huff_nbits_def huff_sym_nth)
  with huff_encode_packs_codes [OF i(1,2), of "[97, 49]"] pack_example i n b show ?thesis by auto
qed

text \<open>
  C36.  The decoder accepts a string exactly when it is the codes of some octets followed by at
  most seven ones, and then it has stored those octets; any other string is reported as a
  compression error.  The output never exceeds two octets per input byte, so a buffer of that size
  is not overrun.
\<close>

theorem huff_decode_accepts_codes:
  assumes "buf_ok b" "2 * length src \<le> nghttp2_buf_avail b"
  shows "\<exists>rv ctx b' out. nghttp2_hd_huff_decode nghttp2_hd_huff_decode_context_init b src True = Some (rv, ctx, b') \<and>
    buf_ok b' \<and> buf_bytes b' = buf_bytes b @ out \<and>
    (if \<exists>s. \<exists>k \<le> 7. bytes_bits src = codes s @ replicate k True
     then rv = int (length src) \<and> (\<exists>k \<le> 7. bytes_bits src = codes out @ replicate k True)
     else rv = NGHTTP2_ERR_HEADER_COMP)"
proof -
  obtain f b' out where d: "huff_decode_loop NGHTTP2_HUFF_ACCEPTED b src = Some (f, b')"
    "dec_rel (bytes_bits src) f out" "buf_ok b'" "buf_bytes b' = buf_bytes b @ out"
    using assms by (rule decode_from_init)
  have "\<exists>k \<le> 7. bytes_bits src = codes out @ ones k" if "k \<le> 7" "bytes_bits src = codes s @ ones k" for s k
    using dec_rel_unique [of s "ones k" f out] d(2) stuck_ones [OF that(1)] that by auto
  then have "(\<exists>k \<le> 7. bytes_bits src = codes out @ ones k) \<longleftrightarrow> (\<exists>s. \<exists>k \<le> 7. bytes_bits src = codes s @ ones k)"
    by blast
  then show ?thesis using final_result [OF d(1,2)] d(3,4) by (auto simp: ones_def)
qed

theorem huff_decode_accepts_codes_witness:
  "\<exists>rv ctx b'. nghttp2_hd_huff_decode nghttp2_hd_huff_decode_context_init (nghttp2_buf_wrap_init [0, 0, 0, 0]) [0x18, 0x7f] True =
     Some (rv, ctx, b') \<and> rv = 2"
proof -
  have "bytes_bits [0x18, 0x7f] = codes [97, 49] @ replicate (pad_len (length (codes [97, 49]))) True"
    using pack_bits [of "codes [97, 49]"] unfolding pack_example .
  moreover have "pad_len n \<le> 7" for n by (simp add: pad_len_def)
  ultimately have e: "(\<exists>s. \<exists>k \<le> 7. bytes_bits [0x18, 0x7f] = codes s @ replicate k True) = True" by blast
  have "buf_ok (nghttp2_buf_wrap_init [0, 0, 0, 0])" "nghttp2_buf_avail (nghttp2_buf_wrap_init [0, 0, 0, 0]) = 4"
    by (simp_all add: buf_ok_def nghttp2_buf_wrap_init_def nghttp2_buf_avail_def)
  then show ?thesis
    using huff_decode_accepts_codes [of "nghttp2_buf_wrap_init [0, 0, 0, 0]" "[0x18, 0x7f]", unfolded e if_True] by auto
qed

text \<open>
  C35.  Decoding inverts encoding, however the encoded string is cut into two fragments: the first
  call keeps its state in the context, and after the second the output is the original string.
\<close>

theorem huff_roundtrip:
  assumes "pack (codes s) = src1 @ src2" "buf_ok b" "2 * length (src1 @ src2) \<le> nghttp2_buf_avail b"
  shows "\<exists>ctx1 b1 ctx2 b2.
    nghttp2_hd_huff_decode nghttp2_hd_huff_decode_context_init b src1 False = Some (int (length src1), ctx1, b1) \<and>
    nghttp2_hd_huff_decode ctx1 b1 src2 True = Some (int (length src2), ctx2, b2) \<and>
    buf_bytes b2 = buf_bytes b @ s \<and> \<not> nghttp2_hd_huff_decode_failure_state ctx2"
proof -
  let ?k = "pad_len (length (codes s))"
  have k: "?k \<le> 7" by (simp add: pad_len_def)
  have bits: "bytes_bits (src1 @ src2) = codes s @ ones ?k"
    using pack_bits [of "codes s"] by (simp only: assms(1) ones_def)
  obtain f b2 out where d: "huff_decode_loop NGHTTP2_HUFF_ACCEPTED b (src1 @ src2) = Some (f, b2)"
    "dec_rel (bytes_bits (src1 @ src2)) f out" "buf_ok b2" "buf_bytes b2 = buf_bytes b @ out"
    using assms(2,3) by (rule decode_from_init)
  have out: "out = s" using dec_rel_unique [of s "ones ?k" f out] d(2) bits stuck_ones [OF k] by simp
  have acc: "f AND NGHTTP2_HUFF_ACCEPTED \<noteq> 0" using dec_rel_accepted [OF d(2)] bits out k by auto
  then have "f \<noteq> 256" by (auto simp: NGHTTP2_HUFF_ACCEPTED_def)
  obtain f1 b1 where 1: "huff_decode_loop NGHTTP2_HUFF_ACCEPTED b src1 = Some (f1, b1)"
    "huff_decode_loop f1 b1 src2 = Some (f, b2)"
    using d(1) by (auto simp: huff_decode_loop_append split: Option.bind_splits)
  show ?thesis
    using 1 acc out d(4) \<open>f \<noteq> 256\<close>
    by (simp add: nghttp2_hd_huff_decode_def init_state nghttp2_hd_huff_decode_failure_state_def Let_def)
qed

theorem huff_roundtrip_witness:
  "\<exists>ctx1 b1 ctx2 b2.
     nghttp2_hd_huff_decode nghttp2_hd_huff_decode_context_init (nghttp2_buf_wrap_init [0, 0, 0, 0]) [0x18] False = Some (1, ctx1, b1) \<and>
     nghttp2_hd_huff_decode ctx1 b1 [0x7f] True = Some (1, ctx2, b2) \<and> buf_bytes b2 = [97, 49]"
  using huff_roundtrip [of "[97, 49]" "[0x18]" "[0x7f]" "nghttp2_buf_wrap_init [0, 0, 0, 0]"] pack_example
  by (auto simp: buf_ok_def nghttp2_buf_wrap_init_def nghttp2_buf_avail_def buf_bytes_def nghttp2_buf_len_def)

text \<open>
  C38.  The failure state is a verdict: after a fragment of a longer input the context reports
  failure exactly when the bits read so far contain the whole EOS code after the codes of some
  octets, and no later input can make such a string acceptable.
\<close>

theorem huff_failure_state_exact:
  assumes "buf_ok b" "2 * length (src @ later) \<le> nghttp2_buf_avail b"
  shows "\<exists>ctx b1. nghttp2_hd_huff_decode nghttp2_hd_huff_decode_context_init b src False = Some (int (length src), ctx, b1) \<and>
    (nghttp2_hd_huff_decode_failure_state ctx \<longleftrightarrow> (\<exists>s xs. bytes_bits src = codes s @ huff_code 256 @ xs)) \<and>
    (nghttp2_hd_huff_decode_failure_state ctx \<longrightarrow>
      (\<exists>ctx2 b2. nghttp2_hd_huff_decode ctx b1 later True = Some (NGHTTP2_ERR_HEADER_COMP, ctx2, b2)))"
proof -
  have "2 * length src \<le> nghttp2_buf_avail b" using assms(2) by simp
  with assms(1) obtain f b1 out where d: "huff_decode_loop NGHTTP2_HUFF_ACCEPTED b src = Some (f, b1)"
    "dec_rel (bytes_bits src) f out" by (rule decode_from_init)
  have "f = 256 \<longleftrightarrow> (\<exists>s xs. bytes_bits src = codes s @ huff_code 256 @ xs)"
  proof
    assume "f = 256"
    then show "\<exists>s xs. bytes_bits src = codes s @ huff_code 256 @ xs" using d(2) by (auto simp: dec_rel_def)
  next
    assume "\<exists>s xs. bytes_bits src = codes s @ huff_code 256 @ xs"
    then obtain s xs where e: "bytes_bits src = codes s @ huff_code 256 @ xs" by blast
    show "f = 256"
    proof (rule ccontr)
      assume "f \<noteq> 256"
      then have "huff_code 256 @ xs = state_bits (f mod 512)" "f mod 512 < 256"
        using dec_rel_unique [of s "huff_code 256 @ xs" f out] d(2) e stuck_eos by (auto simp: dec_rel_def)
      then show False using state_no_code [of "f mod 512" 256 xs] by simp
    qed
  qed
  moreover have "\<exists>ctx2 b2. nghttp2_hd_huff_decode (nghttp2_hd_huff_decode_context_init\<lparr>fstate := f\<rparr>) b1 later True =
      Some (NGHTTP2_ERR_HEADER_COMP, ctx2, b2)" if f: "f = 256"
  proof -
    obtain f2 b2 out2 where e: "huff_decode_loop NGHTTP2_HUFF_ACCEPTED b (src @ later) = Some (f2, b2)"
      using assms by (rule decode_from_init)
    then have "huff_decode_loop 256 b1 later = Some (f2, b2)" using d(1) f by (simp add: huff_decode_loop_append)
    moreover have "huff_decode_loop 256 b1 later = Some (256, b1)" for b1
      using decode_sink nibble_less by (induction later) (simp_all add: huff_decode_nibble_def NGHTTP2_HUFF_SYM_def)
    ultimately show ?thesis using f by (simp add: nghttp2_hd_huff_decode_def Let_def NGHTTP2_HUFF_ACCEPTED_def)
  qed
  moreover have "nghttp2_hd_huff_decode nghttp2_hd_huff_decode_context_init b src False =
      Some (int (length src), nghttp2_hd_huff_decode_context_init\<lparr>fstate := f\<rparr>, b1)"
    using d(1) by (simp add: nghttp2_hd_huff_decode_def init_state Let_def)
  moreover have "nghttp2_hd_huff_decode_failure_state (nghttp2_hd_huff_decode_context_init\<lparr>fstate := f\<rparr>) \<longleftrightarrow> f = 256"
    by (simp add: nghttp2_hd_huff_decode_failure_state_def)
  ultimately show ?thesis by blast
qed

theorem huff_failure_state_exact_witness:
  "\<exists>ctx b1. nghttp2_hd_huff_decode nghttp2_hd_huff_decode_context_init (nghttp2_buf_wrap_init (replicate 10 0))
       [0xff, 0xff, 0xff, 0xff] False = Some (4, ctx, b1) \<and> nghttp2_hd_huff_decode_failure_state ctx"
proof -
  have o: "byte_bits 0xff = replicate 8 True" using bits_of_ones [of 8] by (simp add: byte_bits_def)
  have "bytes_bits [0xff, 0xff, 0xff, 0xff] = replicate 8 True @ replicate 8 True @ replicate 8 True @ replicate 8 True"
    by (simp only: bytes_bits_simps o append_Nil2)
  also have "\<dots> = codes [] @ huff_code 256 @ replicate 2 True" by (simp add: huff_code_eos flip: replicate_add)
  finally have "\<exists>s xs. bytes_bits [0xff, 0xff, 0xff, 0xff] = codes s @ huff_code 256 @ xs" by blast
  then show ?thesis
    using huff_failure_state_exact [of "nghttp2_buf_wrap_init (replicate 10 0)" "[0xff, 0xff, 0xff, 0xff]" "[]"]
    by (auto simp: buf_ok_def nghttp2_buf_wrap_init_def nghttp2_buf_avail_def)
qed

end
