(* ===== verification/Hd_Integer.thy ===== *)
theory Hd_Integer
  imports Prelude "HOL-Library.Monad_Syntax"
begin

text \<open>
  The prefixed integers of HPACK (RFC 7541, section 5.1) in \<open>nghttp2_hd.c\<close>: \<open>count_encoded_length\<close>,
  \<open>encode_length\<close> and the resumable \<open>decode_length\<close>.  \<open>None\<close> is an access outside the array or the
  input.  The decoder checks each shift and addition against \<open>UINT32_MAX\<close> before it makes it, so
  its 32-bit values are natural numbers.
\<close>

definition UINT32_MAX :: nat where "UINT32_MAX = 2 ^ 32 - 1"

function count_loop :: "nat \<Rightarrow> nat \<Rightarrow> nat" where
  "count_loop n len = (if n \<ge> 128 then count_loop (drop_bit 7 n) (len + 1) else len)"
  by pat_completeness auto
termination by (relation "measure fst") (auto simp: drop_bit_eq_div)

declare count_loop.simps [simp del]

definition count_encoded_length :: "nat \<Rightarrow> nat \<Rightarrow> nat" where
  "count_encoded_length n prefix =
     (let k = push_bit prefix 1 - 1
      in if n < k then 1 else count_loop (n - k) 1 + 1)"

text \<open>A store to an array of bytes.\<close>

definition store :: "bytes \<Rightarrow> nat \<Rightarrow> u8 \<Rightarrow> bytes option" where
  "store buf i x = (if i < length buf then Some (buf[i := x]) else None)"

function encode_loop :: "bytes \<Rightarrow> nat \<Rightarrow> nat \<Rightarrow> (nat \<times> bytes) option" where
  "encode_loop buf i n =
     (if n \<ge> 128 then
        do { buf \<leftarrow> store buf i (push_bit 7 1 OR (of_nat n AND 0x7f)); encode_loop buf (i + 1) (drop_bit 7 n) }
      else
        do { buf \<leftarrow> store buf i (of_nat n); Some (i + 1, buf) })"
  by pat_completeness auto
termination by (relation "measure (\<lambda>(buf, i, n). n)") (auto simp: drop_bit_eq_div)

declare encode_loop.simps [simp del]

definition encode_length :: "bytes \<Rightarrow> nat \<Rightarrow> nat \<Rightarrow> (nat \<times> bytes) option" where
  "encode_length buf n prefix =
     (if buf = [] then None
      else
        let k = push_bit prefix 1 - 1;
            buf = buf[0 := hd buf AND NOT (of_nat k)]
        in if n < k then Some (1, buf[0 := hd buf OR of_nat n])
           else encode_loop (buf[0 := hd buf OR of_nat k]) 1 (n - k))"

text \<open>The result is the return value, the integer, the next shift and whether it is complete.\<close>

fun decode_length_loop :: "nat \<Rightarrow> nat \<Rightarrow> nat \<Rightarrow> bytes \<Rightarrow> int \<times> nat \<times> nat \<times> bool" where
  "decode_length_loop cnt n shift [] = (int cnt, n, shift, False)"
| "decode_length_loop cnt n shift (b # inp) =
     (let add = unat (b AND 0x7f)
      in if shift \<ge> 32 then (-1, 0, 0, False)
         else if drop_bit shift UINT32_MAX < add then (-1, 0, 0, False)
         else
           let add = push_bit shift add
           in if UINT32_MAX - add < n then (-1, 0, 0, False)
              else if b AND push_bit 7 1 = 0 then (int (cnt + 1), n + add, shift, True)
              else decode_length_loop (cnt + 1) (n + add) (shift + 7) inp)"

definition decode_length :: "nat \<Rightarrow> nat \<Rightarrow> bytes \<Rightarrow> nat \<Rightarrow> (int \<times> nat \<times> nat \<times> bool) option" where
  "decode_length initial shift inp prefix =
     (let k = push_bit prefix 1 - 1
      in if initial = 0 then
           (case inp of
              [] \<Rightarrow> None
            | b # inp \<Rightarrow>
                if unat b AND k \<noteq> k then Some (1, unat b AND k, 0, True)
                else if inp = [] then Some (1, k, 0, False)
                else Some (decode_length_loop 1 k shift inp))
         else Some (decode_length_loop 0 initial shift inp))"

subsection \<open>The encoding\<close>

fun tail7 :: "nat \<Rightarrow> bytes" where
  "tail7 n = (if n < 128 then [of_nat n] else of_nat (128 + n mod 128) # tail7 (n div 128))"

declare tail7.simps [simp del]

definition int_bytes :: "u8 \<Rightarrow> nat \<Rightarrow> nat \<Rightarrow> bytes" where
  "int_bytes b n p =
     (let k = 2 ^ p - 1; h = b AND NOT (of_nat k)
      in if n < k then [h OR of_nat n] else (h OR of_nat k) # tail7 (n - k))"

lemma count_loop_eq: "count_loop n len = len + length (tail7 n) - 1"
proof (induction n arbitrary: len rule: less_induct)
  case (less n)
  show ?case
  proof (cases "128 \<le> n")
    case True
    then have "count_loop n len = count_loop (n div 128) (len + 1)"
      by (subst count_loop.simps) (simp add: drop_bit_eq_div)
    moreover have "tail7 (n div 128) \<noteq> []" by (simp add: tail7.simps)
    ultimately show ?thesis using less [of "n div 128" "len + 1"] True tail7.simps [of n] by auto
  qed (simp add: count_loop.simps tail7.simps)
qed

lemma count_encoded_length_eq: "count_encoded_length n p = length (int_bytes b n p)"
  using tail7.simps [of "n - (2 ^ p - 1)"]
  by (auto simp: count_encoded_length_def int_bytes_def Let_def count_loop_eq push_bit_eq_mult)

text \<open>The store of the loop writes the bytes at the position and returns the one after them.\<close>

lemma low7: "of_nat n AND (0x7f :: u8) = of_nat (n mod 128)"
proof -
  have "of_nat n AND (0x7f :: u8) = take_bit 7 (of_nat n)" using and_mask_take_bit [of "of_nat n :: u8" 7] by simp
  also have "\<dots> = of_nat (take_bit 7 n)" by (rule bit_word_eqI) (auto simp: bit_simps)
  finally show ?thesis by (simp add: take_bit_eq_mod)
qed

lemma unat_of_nat8: "m < 256 \<Longrightarrow> unat (of_nat m :: u8) = m"
  by (simp add: unsigned_of_nat take_bit_nat_eq_self)

lemma cont_byte: "push_bit 7 1 OR (of_nat n AND 0x7f) = (of_nat (128 + n mod 128) :: u8)"
proof (rule unat_eqD)
  have "n mod 128 < 2 ^ 7" by simp
  then have "unat (push_bit 7 1 OR (of_nat n AND 0x7f) :: u8) = 1 * 2 ^ 7 OR n mod 128"
    by (simp add: low7 unsigned_or_eq unsigned_of_nat take_bit_nat_eq_self)
  also have "\<dots> = 128 + n mod 128" using or_disjoint_nat [of "n mod 128" 7 1] by simp
  finally show "unat (push_bit 7 1 OR (of_nat n AND 0x7f) :: u8) = unat (of_nat (128 + n mod 128) :: u8)"
    using unat_of_nat8 [of "128 + n mod 128"] by simp
qed

lemma encode_loop_eq:
  "i + length (tail7 n) \<le> length buf \<Longrightarrow>
     encode_loop buf i n = Some (i + length (tail7 n), take i buf @ tail7 n @ drop (i + length (tail7 n)) buf)"
proof (induction n arbitrary: buf i rule: less_induct)
  case (less n)
  show ?case
  proof (cases "128 \<le> n")
    case True
    let ?x = "of_nat (128 + n mod 128) :: u8"
    have t: "tail7 n = ?x # tail7 (n div 128)" using True by (simp add: tail7.simps [of n])
    then have i: "i < length buf" using less.prems by simp
    have "encode_loop buf i n = encode_loop (buf[i := ?x]) (i + 1) (n div 128)"
      using True i by (subst encode_loop.simps) (simp only: cont_byte, simp add: store_def drop_bit_eq_div)
    also have "\<dots> = Some (i + 1 + length (tail7 (n div 128)),
        take (i + 1) (buf[i := ?x]) @ tail7 (n div 128) @ drop (i + 1 + length (tail7 (n div 128))) (buf[i := ?x]))"
      using True less.prems t by (intro less.IH) simp_all
    finally show ?thesis using i t by (simp add: take_Suc_conv_app_nth)
  next
    case False
    then have "tail7 n = [of_nat n]" by (simp add: tail7.simps)
    then show ?thesis using False less.prems
      by (subst encode_loop.simps) (simp add: store_def upd_conv_take_nth_drop)
  qed
qed

lemma encode_length_eq:
  assumes "length (int_bytes (hd buf) n p) \<le> length buf"
  shows "encode_length buf n p =
    Some (length (int_bytes (hd buf) n p), int_bytes (hd buf) n p @ drop (length (int_bytes (hd buf) n p)) buf)"
proof -
  have "buf \<noteq> []" using assms by (auto simp: int_bytes_def Let_def split: if_splits)
  then obtain b bs where b: "buf = b # bs" by (cases buf) auto
  show ?thesis
  proof (cases "n < 2 ^ p - 1")
    case True
    then show ?thesis using b by (simp add: encode_length_def int_bytes_def Let_def push_bit_eq_mult)
  next
    case False
    then show ?thesis using b assms encode_loop_eq [of 1 "n - (2 ^ p - 1)" "(b AND NOT (of_nat (2 ^ p - 1)) OR of_nat (2 ^ p - 1)) # bs"]
      by (simp add: encode_length_def int_bytes_def Let_def push_bit_eq_mult)
  qed
qed

subsection \<open>Decoding\<close>

lemma unat_low7: "unat (b AND 0x7f :: u8) = unat b mod 128"
  using unat_and_mask [of b 7] by simp

lemma bit7: "(b :: u8) AND push_bit 7 1 = 0 \<longleftrightarrow> unat b < 128"
proof -
  have "b AND push_bit 7 1 = 0 \<longleftrightarrow> \<not> bit b 7" using and_exp_eq_0_iff_not_bit [of b 7] by (simp add: push_bit_eq_mult)
  also have "\<dots> \<longleftrightarrow> \<not> bit (unat b) 7" by (simp add: bit_simps)
  also have "\<dots> \<longleftrightarrow> unat b < 128"
  proof -
    have "unat b div 128 < 2" using unat_less_exp [of b] by (simp add: less_mult_imp_div_less)
    then have "even (unat b div 128) \<longleftrightarrow> unat b div 128 = 0" by (auto simp: less_2_cases_iff)
    then show ?thesis by (simp add: bit_iff_odd div_eq_0_iff)
  qed
  finally show ?thesis .
qed

lemma dec_bytes:
  assumes "m < 128"
  shows "unat ((of_nat m :: u8) AND 0x7f) = m" "(of_nat m :: u8) AND push_bit 7 1 = 0"
    "unat ((of_nat (128 + m) :: u8) AND 0x7f) = m" "(of_nat (128 + m) :: u8) AND push_bit 7 1 \<noteq> 0"
  using unat_of_nat8 [of m] unat_of_nat8 [of "128 + m"] assms by (simp_all only: unat_low7 bit7) simp_all

text \<open>One group of seven bits passes the three checks when the value it leads to is small enough.\<close>

lemma group_fits:
  assumes "n + a * 2 ^ s \<le> UINT32_MAX"
  shows "\<not> drop_bit s UINT32_MAX < a" "\<not> UINT32_MAX - push_bit s a < n"
proof -
  have "a * 2 ^ s \<le> UINT32_MAX" using assms by simp
  then have "a \<le> UINT32_MAX div 2 ^ s" by (simp add: less_eq_div_iff_mult_less_eq)
  then show "\<not> drop_bit s UINT32_MAX < a" by (simp add: drop_bit_eq_div)
  show "\<not> UINT32_MAX - push_bit s a < n" using assms by (simp add: push_bit_eq_mult)
qed

lemma tail_step:
  assumes "128 \<le> m" "n + m * 2 ^ s \<le> UINT32_MAX"
  shows "n + (m mod 128) * 2 ^ s \<le> UINT32_MAX"
    "n + (m mod 128) * 2 ^ s + m div 128 * 2 ^ (s + 7) = n + m * 2 ^ s" "s + 7 < 32"
proof -
  have "m mod 128 * 2 ^ s \<le> m * 2 ^ s" by simp
  then show "n + (m mod 128) * 2 ^ s \<le> UINT32_MAX" using assms(2) by linarith
  have "m * 2 ^ s = (m mod 128 + m div 128 * 128) * 2 ^ s" by (simp only: mod_div_mult_eq)
  also have "\<dots> = (m mod 128) * 2 ^ s + m div 128 * 2 ^ (s + 7)"
    by (simp only: add_mult_distrib power_add mult.assoc) (simp add: mult.commute)
  finally show "n + (m mod 128) * 2 ^ s + m div 128 * 2 ^ (s + 7) = n + m * 2 ^ s" by simp
  have "2 ^ (s + 7) = 128 * (2 :: nat) ^ s" by (simp add: power_add)
  also have "\<dots> \<le> m * 2 ^ s" using assms(1) by simp
  also have "\<dots> < 2 ^ 32" using assms(2) by (simp add: UINT32_MAX_def)
  finally show "s + 7 < 32" by (rule power_less_imp_less_exp [rotated]) simp
qed

text \<open>A prefix of the groups leaves the loop with the rest of the value, all of them with the value.\<close>

lemma decode_loop_prefix:
  "tail7 m = xs @ ys \<Longrightarrow> ys \<noteq> [] \<Longrightarrow> s < 32 \<Longrightarrow> n + m * 2 ^ s \<le> UINT32_MAX \<Longrightarrow>
     \<exists>n' s' m'. decode_length_loop c n s (xs @ zs) = decode_length_loop (c + length xs) n' s' zs \<and> ys = tail7 m' \<and>
       s' < 32 \<and> n \<le> n' \<and> n' + m' * 2 ^ s' = n + m * 2 ^ s"
proof (induction xs arbitrary: m s n c)
  case Nil
  then show ?case by (intro exI [of _ n] exI [of _ s] exI [of _ m]) simp
next
  case (Cons x xs)
  have m: "128 \<le> m" using Cons.prems(1,2) by (cases "m < 128") (auto simp: tail7.simps [of m])
  then have x: "x = of_nat (128 + m mod 128)" "tail7 (m div 128) = xs @ ys"
    using Cons.prems(1) by (simp_all add: tail7.simps [of m])
  have l: "m mod 128 < 128" by simp
  note t = tail_step [OF m Cons.prems(4)] and d = dec_bytes [OF l] and g = group_fits [OF tail_step(1) [OF m Cons.prems(4)]]
  have "decode_length_loop c n s ((x # xs) @ zs) =
      decode_length_loop (c + 1) (n + m mod 128 * 2 ^ s) (s + 7) (xs @ zs)"
    unfolding x(1) append_Cons decode_length_loop.simps Let_def using d(3,4) g Cons.prems(3) t(1)
    by (simp only: if_False push_bit_eq_mult) simp
  moreover obtain n' s' m' where
    "decode_length_loop (c + 1) (n + m mod 128 * 2 ^ s) (s + 7) (xs @ zs) = decode_length_loop (c + 1 + length xs) n' s' zs"
    "ys = tail7 m'" "s' < 32" "n + m mod 128 * 2 ^ s \<le> n'" "n' + m' * 2 ^ s' = n + m * 2 ^ s"
    using Cons.IH [OF x(2) Cons.prems(2) t(3), of "n + m mod 128 * 2 ^ s" "c + 1"] t(2) Cons.prems(4) by auto
  ultimately show ?case by (intro exI [of _ n'] exI [of _ s'] exI [of _ m']) simp
qed

lemma decode_loop_all:
  "s < 32 \<Longrightarrow> n + m * 2 ^ s \<le> UINT32_MAX \<Longrightarrow>
     \<exists>s'. decode_length_loop c n s (tail7 m @ zs) = (int (c + length (tail7 m)), n + m * 2 ^ s, s', True)"
proof (induction m arbitrary: c n s rule: less_induct)
  case (less m)
  show ?case
  proof (cases "128 \<le> m")
    case True
    have l: "m mod 128 < 128" by simp
    note t = tail_step [OF True less.prems(2)] and d = dec_bytes [OF l]
      and g = group_fits [OF tail_step(1) [OF True less.prems(2)]]
    have e: "tail7 m = of_nat (128 + m mod 128) # tail7 (m div 128)" using True by (simp add: tail7.simps [of m])
    have "decode_length_loop c n s (tail7 m @ zs) =
        decode_length_loop (c + 1) (n + m mod 128 * 2 ^ s) (s + 7) (tail7 (m div 128) @ zs)"
      unfolding e append_Cons decode_length_loop.simps Let_def using d(3,4) g less.prems(1) t(1)
      by (simp only: if_False push_bit_eq_mult) simp
    then show ?thesis
      using less.IH [of "m div 128" "s + 7" "n + m mod 128 * 2 ^ s" "c + 1"] True t(2,3) less.prems(2) e by auto
  next
    case False
    then have l: "m < 128" and e: "tail7 m = [of_nat m]" by (simp_all add: tail7.simps)
    note d = dec_bytes [OF l] and g = group_fits [OF less.prems(2)]
    show ?thesis
      unfolding e append_Cons decode_length_loop.simps Let_def using d(1,2) g less.prems(1)
      by (simp only: if_False push_bit_eq_mult) simp
  qed
qed

subsection \<open>The first byte\<close>

definition first_byte :: "u8 \<Rightarrow> nat \<Rightarrow> nat \<Rightarrow> u8" where
  "first_byte b p v = (b AND NOT (of_nat (2 ^ p - 1))) OR of_nat v"

lemma int_bytes_first:
  "int_bytes b n p = (if n < 2 ^ p - 1 then [first_byte b p n]
     else first_byte b p (2 ^ p - 1) # tail7 (n - (2 ^ p - 1)))"
  by (simp add: int_bytes_def first_byte_def Let_def)

lemma unat_first_byte:
  assumes p: "p \<le> 8" and v: "v < 2 ^ p"
  shows "unat (first_byte b p v) = unat b div 2 ^ p * 2 ^ p + v"
proof -
  have "(2 :: nat) ^ p \<le> 2 ^ 8" using p by (rule power_increasing) simp
  then have v8: "unat (of_nat v :: u8) = v" using v by (intro unat_of_nat8) simp
  have m: "of_nat (2 ^ p - 1) = (mask p :: u8)"
    using of_nat_mask_eq [of p, where 'a = "8 word"] by (simp add: mask_eq_exp_minus_1)
  have "unat (b AND NOT (mask p)) = push_bit p (drop_bit p (unat b))"
    by (rule bit_eqI) (auto simp: bit_simps dest: bit_imp_le_length)
  then have "unat (first_byte b p v) = unat b div 2 ^ p * 2 ^ p OR v"
    unfolding first_byte_def m unsigned_or_eq v8 by (simp only: push_bit_eq_mult drop_bit_eq_div)
  then show ?thesis using or_disjoint_nat [OF v] by simp
qed

lemma and_prefix: "n AND (2 ^ p - 1) = n mod 2 ^ p" for n :: nat
  using take_bit_eq_mask [of p n] by (simp add: take_bit_eq_mod mask_eq_exp_minus_1)

lemma decode_first:
  assumes "p \<le> 8" "v < 2 ^ p"
  shows "unat (first_byte b p v) AND (push_bit p 1 - 1) = v"
  using unat_first_byte [OF assms, of b] assms(2) and_prefix [of "unat (first_byte b p v)" p]
  by (simp add: push_bit_eq_mult)

text \<open>A whole integer, whatever follows it, and an integer cut in two.\<close>

lemma decode_whole:
  assumes p: "1 \<le> p" "p \<le> 8" and n: "n \<le> UINT32_MAX"
  shows "\<exists>s. decode_length 0 0 (int_bytes b n p @ rest) p = Some (int (length (int_bytes b n p)), n, s, True)"
proof -
  let ?k = "(2 :: nat) ^ p - 1"
  have k: "?k < 2 ^ p" "0 < ?k" using p(1) one_less_power [of "2 :: nat" p] by simp_all
  show ?thesis
  proof (cases "n < ?k")
    case True
    then have "unat (first_byte b p n) AND (push_bit p 1 - 1) = n" using p(2) by (intro decode_first) simp_all
    then show ?thesis using True by (simp add: decode_length_def int_bytes_first Let_def push_bit_eq_mult)
  next
    case False
    have f: "unat (first_byte b p ?k) AND (push_bit p 1 - 1) = ?k" using p(2) k(1) by (intro decode_first)
    have "tail7 (n - ?k) \<noteq> []" by (simp add: tail7.simps)
    moreover obtain s' where
      "decode_length_loop 1 ?k 0 (tail7 (n - ?k) @ rest) = (int (1 + length (tail7 (n - ?k))), ?k + (n - ?k) * 2 ^ 0, s', True)"
      using decode_loop_all [of 0 ?k "n - ?k" 1 rest] n False by auto
    ultimately show ?thesis using False f by (simp add: decode_length_def int_bytes_first Let_def push_bit_eq_mult)
  qed
qed

lemma decode_fragment:
  assumes p: "1 \<le> p" "p \<le> 8" and n: "n \<le> UINT32_MAX"
    and c: "int_bytes b n p = xs @ ys" "xs \<noteq> []" "ys \<noteq> []"
  shows "\<exists>n1 s1 m. decode_length 0 0 xs p = Some (int (length xs), n1, s1, False) \<and> 0 < n1 \<and> s1 < 32 \<and>
    ys = tail7 m \<and> n1 + m * 2 ^ s1 = n"
proof -
  let ?k = "(2 :: nat) ^ p - 1"
  have k: "?k < 2 ^ p" "0 < ?k" using p(1) one_less_power [of "2 :: nat" p] by simp_all
  have ge: "\<not> n < ?k" using c by (cases xs) (auto simp: int_bytes_first split: if_splits)
  then obtain xs' where xs: "xs = first_byte b p ?k # xs'" "tail7 (n - ?k) = xs' @ ys"
    using c by (auto simp: int_bytes_first Cons_eq_append_conv)
  have f: "unat (first_byte b p ?k) AND (push_bit p 1 - 1) = ?k" using p(2) k(1) by (intro decode_first)
  obtain n' s' m' where d: "decode_length_loop 1 ?k 0 (xs' @ []) = decode_length_loop (1 + length xs') n' s' []"
    "ys = tail7 m'" "s' < 32" "?k \<le> n'" "n' + m' * 2 ^ s' = ?k + (n - ?k) * 2 ^ 0"
    using decode_loop_prefix [OF xs(2) c(3), of 0 ?k 1 "[]"] n ge by auto
  have "decode_length 0 0 xs p = Some (int (length xs), n', s', False)"
  proof (cases "xs' = []")
    case True
    have "s' = 0 \<and> n' = ?k" using d(1) True by simp
    then show ?thesis using True f xs(1) by (simp add: decode_length_def Let_def push_bit_eq_mult)
  next
    case False
    then show ?thesis using d(1) f xs(1) by (simp add: decode_length_def Let_def push_bit_eq_mult)
  qed
  then show ?thesis using d k(2) ge by (intro exI [of _ n'] exI [of _ s'] exI [of _ m']) auto
qed

text \<open>The decoder on an arbitrary input.\<close>

lemma decode_length_bounds:
  assumes "inp \<noteq> []" "initial \<le> UINT32_MAX" "p \<le> 8"
  shows "\<exists>rv res s fin. decode_length initial s0 inp p = Some (rv, res, s, fin) \<and>
    (rv = -1 \<or> 1 \<le> rv \<and> rv \<le> int (length inp) \<and> res \<le> UINT32_MAX \<and> (fin \<or> rv = int (length inp)))"
proof -
  have loop: "\<exists>rv res s' fin. decode_length_loop c n s xs = (rv, res, s', fin) \<and>
      (rv = -1 \<or> int c \<le> rv \<and> rv \<le> int (c + length xs) \<and> res \<le> UINT32_MAX \<and> (fin \<or> rv = int (c + length xs)) \<and>
        (xs \<noteq> [] \<longrightarrow> int c < rv))"
    if "n \<le> UINT32_MAX" for c n s xs using that
  proof (induction c n s xs rule: decode_length_loop.induct)
    case (2 cnt n shift b inp)
    show ?case
    proof (cases "shift \<ge> 32 \<or> drop_bit shift UINT32_MAX < unat (b AND 0x7f) \<or> UINT32_MAX - push_bit shift (unat (b AND 0x7f)) < n")
      case True
      then have "decode_length_loop cnt n shift (b # inp) = (-1, 0, 0, False)" by (auto simp: Let_def)
      then show ?thesis by blast
    next
      case False
      have le: "n + push_bit shift (unat (b AND 0x7f)) \<le> UINT32_MAX"
      proof -
        have "unat (b AND 0x7f) \<le> UINT32_MAX div 2 ^ shift" using False by (simp add: drop_bit_eq_div)
        then have "push_bit shift (unat (b AND 0x7f)) \<le> UINT32_MAX"
          by (simp add: push_bit_eq_mult less_eq_div_iff_mult_less_eq)
        then show ?thesis using False by linarith
      qed
      show ?thesis
      proof (cases "b AND push_bit 7 1 = 0")
        case True
        then have "decode_length_loop cnt n shift (b # inp) =
            (int (cnt + 1), n + push_bit shift (unat (b AND 0x7f)), shift, True)"
          using False by (simp add: Let_def)
        then show ?thesis using le by (intro exI conjI) (assumption, simp)
      next
        case nz: False
        have e: "decode_length_loop cnt n shift (b # inp) =
            decode_length_loop (cnt + 1) (n + push_bit shift (unat (b AND 0x7f))) (shift + 7) inp"
          using False nz by (simp add: Let_def)
        show ?thesis unfolding e using "2.IH" [OF refl _ _ refl _ nz] False le by fastforce
      qed
    qed
  next
    case (1 cnt n shift)
    then show ?case by (intro exI conjI) (rule decode_length_loop.simps(1), simp)
  qed
  have k: "push_bit p 1 - 1 \<le> UINT32_MAX"
  proof -
    have "(2 :: nat) ^ p \<le> 2 ^ 8" using assms(3) by (rule power_increasing) simp
    then show ?thesis by (simp add: push_bit_eq_mult UINT32_MAX_def)
  qed
  obtain b bs where inp: "inp = b # bs" using assms(1) by (cases inp) auto
  show ?thesis
  proof (cases "initial = 0")
    case False
    then show ?thesis using loop [OF assms(2), of 0 s0 inp] assms(1)
      by (auto simp: decode_length_def Let_def Suc_le_eq)
  next
    case True
    have "unat b AND (push_bit p 1 - 1) \<le> UINT32_MAX"
    proof -
      have "unat b mod 2 ^ p < 2 ^ p" by simp
      then have "unat b mod 2 ^ p \<le> UINT32_MAX" using k unfolding push_bit_eq_mult by linarith
      then show ?thesis using and_prefix [of "unat b" p] by (simp add: push_bit_eq_mult)
    qed
    then show ?thesis using True loop [OF k, of 1 s0 bs] k inp by (auto simp: decode_length_def Let_def)
  qed
qed

subsection \<open>Properties\<close>

text \<open>
  C25.  The integer codec is a round trip.  \<open>encode_length\<close> fills \<open>count_encoded_length\<close> bytes of its
  array, keeping the bits above the prefix; \<open>decode_length\<close> reads back every value up to
  \<open>UINT32_MAX\<close>, whatever follows it, also when the input is cut anywhere and the second call resumes
  from the value and the shift of the first.
\<close>

theorem hd_integer_roundtrip:
  assumes "1 \<le> p" "p \<le> 8" "n \<le> UINT32_MAX" "count_encoded_length n p \<le> length buf"
  shows "\<exists>enc. encode_length buf n p = Some (count_encoded_length n p, enc @ drop (count_encoded_length n p) buf) \<and>
    length enc = count_encoded_length n p \<and> unat (hd enc) div 2 ^ p = unat (hd buf) div 2 ^ p \<and>
    (\<exists>s. decode_length 0 0 (enc @ rest) p = Some (int (length enc), n, s, True)) \<and>
    (\<forall>xs ys. enc = xs @ ys \<longrightarrow> xs \<noteq> [] \<longrightarrow> ys \<noteq> [] \<longrightarrow>
      (\<exists>n1 s1 s2. decode_length 0 0 xs p = Some (int (length xs), n1, s1, False) \<and>
        decode_length n1 s1 (ys @ rest) p = Some (int (length ys), n, s2, True)))"
proof -
  let ?enc = "int_bytes (hd buf) n p"
  have len: "length ?enc = count_encoded_length n p" using count_encoded_length_eq [of n p "hd buf"] by simp
  have "encode_length buf n p = Some (length ?enc, ?enc @ drop (length ?enc) buf)"
    using assms(4) len by (intro encode_length_eq) simp
  moreover have "unat (hd ?enc) div 2 ^ p = unat (hd buf) div 2 ^ p"
  proof -
    define v where "v = (if n < 2 ^ p - 1 then n else 2 ^ p - 1)"
    have "v < 2 ^ p" "hd ?enc = first_byte (hd buf) p v" by (auto simp: int_bytes_first v_def)
    then show ?thesis using unat_first_byte [OF assms(2), of v "hd buf"] by simp
  qed
  moreover have "\<exists>n1 s1 s2. decode_length 0 0 xs p = Some (int (length xs), n1, s1, False) \<and>
      decode_length n1 s1 (ys @ rest) p = Some (int (length ys), n, s2, True)"
    if c: "?enc = xs @ ys" "xs \<noteq> []" "ys \<noteq> []" for xs ys
  proof -
    obtain n1 s1 m where d: "decode_length 0 0 xs p = Some (int (length xs), n1, s1, False)" "0 < n1" "s1 < 32"
      "ys = tail7 m" "n1 + m * 2 ^ s1 = n" using decode_fragment [OF assms(1-3) c] by blast
    then show ?thesis using decode_loop_all [of s1 n1 m 0 rest] assms(3) by (auto simp: decode_length_def Let_def)
  qed
  ultimately show ?thesis using decode_whole [OF assms(1-3), of "hd buf" rest] len by auto
qed

theorem hd_integer_roundtrip_witness:
  "\<exists>enc. encode_length [0x1f, 0, 0, 0] 1337 5 = Some (3, enc @ drop 3 [0x1f, 0, 0, 0]) \<and>
     (\<exists>s. decode_length 0 0 (enc @ [7]) 5 = Some (3, 1337, s, True))"
proof -
  have "count_encoded_length 1337 5 = 3"
    by (simp add: count_encoded_length_def Let_def count_loop.simps drop_bit_eq_div)
  then show ?thesis using hd_integer_roundtrip [of 5 1337 "[0x1f, 0, 0, 0]" "[7]"] by (auto simp: UINT32_MAX_def)
qed

text \<open>
  C26.  Decoding never leaves 32 bits: a call on a non-empty input either fails or reads between one
  byte and all of it, with a value that is at most \<open>UINT32_MAX\<close>; it stops short of the end only
  with a complete integer.
\<close>

theorem hd_decode_length_bounds:
  assumes "inp \<noteq> []" "initial \<le> UINT32_MAX" "p \<le> 8"
  shows "\<exists>rv res s fin. decode_length initial s0 inp p = Some (rv, res, s, fin) \<and>
    (rv = -1 \<or> 1 \<le> rv \<and> rv \<le> int (length inp) \<and> res \<le> UINT32_MAX \<and> (fin \<or> rv = int (length inp)))"
  using assms by (rule decode_length_bounds)

theorem hd_decode_length_bounds_witness:
  "\<exists>rv res s fin. decode_length 0 0 [0xff, 0xff, 0xff, 0xff, 0xff, 0xff, 0xff] 7 = Some (rv, res, s, fin) \<and>
     (rv = -1 \<or> res \<le> UINT32_MAX)"
  using hd_decode_length_bounds [of "[0xff, 0xff, 0xff, 0xff, 0xff, 0xff, 0xff]" 0 7 0] by auto

end
