(* ===== verification/Hd_Token.thy ===== *)
theory Hd_Token
  imports Prelude
begin

text \<open>
  The header field tokens, the static table and \<open>lookup_token\<close> of \<open>nghttp2_hd.c\<close>.  The lookup is a
  generated switch on the length of the name and on its last character; each length is a
  definition of its own.  It is shown equal to a search of the list of known names.
\<close>

subsection \<open>Tokens\<close>

definition NGHTTP2_TOKEN__AUTHORITY :: int where "NGHTTP2_TOKEN__AUTHORITY = 0"
definition NGHTTP2_TOKEN__METHOD :: int where "NGHTTP2_TOKEN__METHOD = 1"
definition NGHTTP2_TOKEN__PATH :: int where "NGHTTP2_TOKEN__PATH = 3"
definition NGHTTP2_TOKEN__SCHEME :: int where "NGHTTP2_TOKEN__SCHEME = 5"
definition NGHTTP2_TOKEN__STATUS :: int where "NGHTTP2_TOKEN__STATUS = 7"
definition NGHTTP2_TOKEN_ACCEPT_CHARSET :: int where "NGHTTP2_TOKEN_ACCEPT_CHARSET = 14"
definition NGHTTP2_TOKEN_ACCEPT_ENCODING :: int where "NGHTTP2_TOKEN_ACCEPT_ENCODING = 15"
definition NGHTTP2_TOKEN_ACCEPT_LANGUAGE :: int where "NGHTTP2_TOKEN_ACCEPT_LANGUAGE = 16"
definition NGHTTP2_TOKEN_ACCEPT_RANGES :: int where "NGHTTP2_TOKEN_ACCEPT_RANGES = 17"
definition NGHTTP2_TOKEN_ACCEPT :: int where "NGHTTP2_TOKEN_ACCEPT = 18"
definition NGHTTP2_TOKEN_ACCESS_CONTROL_ALLOW_ORIGIN :: int where "NGHTTP2_TOKEN_ACCESS_CONTROL_ALLOW_ORIGIN = 19"
definition NGHTTP2_TOKEN_AGE :: int where "NGHTTP2_TOKEN_AGE = 20"
definition NGHTTP2_TOKEN_ALLOW :: int where "NGHTTP2_TOKEN_ALLOW = 21"
definition NGHTTP2_TOKEN_AUTHORIZATION :: int where "NGHTTP2_TOKEN_AUTHORIZATION = 22"
definition NGHTTP2_TOKEN_CACHE_CONTROL :: int where "NGHTTP2_TOKEN_CACHE_CONTROL = 23"
definition NGHTTP2_TOKEN_CONTENT_DISPOSITION :: int where "NGHTTP2_TOKEN_CONTENT_DISPOSITION = 24"
definition NGHTTP2_TOKEN_CONTENT_ENCODING :: int where "NGHTTP2_TOKEN_CONTENT_ENCODING = 25"
definition NGHTTP2_TOKEN_CONTENT_LANGUAGE :: int where "NGHTTP2_TOKEN_CONTENT_LANGUAGE = 26"
definition NGHTTP2_TOKEN_CONTENT_LENGTH :: int where "NGHTTP2_TOKEN_CONTENT_LENGTH = 27"
definition NGHTTP2_TOKEN_CONTENT_LOCATION :: int where "NGHTTP2_TOKEN_CONTENT_LOCATION = 28"
definition NGHTTP2_TOKEN_CONTENT_RANGE :: int where "NGHTTP2_TOKEN_CONTENT_RANGE = 29"
definition NGHTTP2_TOKEN_CONTENT_TYPE :: int where "NGHTTP2_TOKEN_CONTENT_TYPE = 30"
definition NGHTTP2_TOKEN_COOKIE :: int where "NGHTTP2_TOKEN_COOKIE = 31"
definition NGHTTP2_TOKEN_DATE :: int where "NGHTTP2_TOKEN_DATE = 32"
definition NGHTTP2_TOKEN_ETAG :: int where "NGHTTP2_TOKEN_ETAG = 33"
definition NGHTTP2_TOKEN_EXPECT :: int where "NGHTTP2_TOKEN_EXPECT = 34"
definition NGHTTP2_TOKEN_EXPIRES :: int where "NGHTTP2_TOKEN_EXPIRES = 35"
definition NGHTTP2_TOKEN_FROM :: int where "NGHTTP2_TOKEN_FROM = 36"
definition NGHTTP2_TOKEN_HOST :: int where "NGHTTP2_TOKEN_HOST = 37"
definition NGHTTP2_TOKEN_IF_MATCH :: int where "NGHTTP2_TOKEN_IF_MATCH = 38"
definition NGHTTP2_TOKEN_IF_MODIFIED_SINCE :: int where "NGHTTP2_TOKEN_IF_MODIFIED_SINCE = 39"
definition NGHTTP2_TOKEN_IF_NONE_MATCH :: int where "NGHTTP2_TOKEN_IF_NONE_MATCH = 40"
definition NGHTTP2_TOKEN_IF_RANGE :: int where "NGHTTP2_TOKEN_IF_RANGE = 41"
definition NGHTTP2_TOKEN_IF_UNMODIFIED_SINCE :: int where "NGHTTP2_TOKEN_IF_UNMODIFIED_SINCE = 42"
definition NGHTTP2_TOKEN_LAST_MODIFIED :: int where "NGHTTP2_TOKEN_LAST_MODIFIED = 43"
definition NGHTTP2_TOKEN_LINK :: int where "NGHTTP2_TOKEN_LINK = 44"
definition NGHTTP2_TOKEN_LOCATION :: int where "NGHTTP2_TOKEN_LOCATION = 45"
definition NGHTTP2_TOKEN_MAX_FORWARDS :: int where "NGHTTP2_TOKEN_MAX_FORWARDS = 46"
definition NGHTTP2_TOKEN_PROXY_AUTHENTICATE :: int where "NGHTTP2_TOKEN_PROXY_AUTHENTICATE = 47"
definition NGHTTP2_TOKEN_PROXY_AUTHORIZATION :: int where "NGHTTP2_TOKEN_PROXY_AUTHORIZATION = 48"
definition NGHTTP2_TOKEN_RANGE :: int where "NGHTTP2_TOKEN_RANGE = 49"
definition NGHTTP2_TOKEN_REFERER :: int where "NGHTTP2_TOKEN_REFERER = 50"
definition NGHTTP2_TOKEN_REFRESH :: int where "NGHTTP2_TOKEN_REFRESH = 51"
definition NGHTTP2_TOKEN_RETRY_AFTER :: int where "NGHTTP2_TOKEN_RETRY_AFTER = 52"
definition NGHTTP2_TOKEN_SERVER :: int where "NGHTTP2_TOKEN_SERVER = 53"
definition NGHTTP2_TOKEN_SET_COOKIE :: int where "NGHTTP2_TOKEN_SET_COOKIE = 54"
definition NGHTTP2_TOKEN_STRICT_TRANSPORT_SECURITY :: int where "NGHTTP2_TOKEN_STRICT_TRANSPORT_SECURITY = 55"
definition NGHTTP2_TOKEN_TRANSFER_ENCODING :: int where "NGHTTP2_TOKEN_TRANSFER_ENCODING = 56"
definition NGHTTP2_TOKEN_USER_AGENT :: int where "NGHTTP2_TOKEN_USER_AGENT = 57"
definition NGHTTP2_TOKEN_VARY :: int where "NGHTTP2_TOKEN_VARY = 58"
definition NGHTTP2_TOKEN_VIA :: int where "NGHTTP2_TOKEN_VIA = 59"
definition NGHTTP2_TOKEN_WWW_AUTHENTICATE :: int where "NGHTTP2_TOKEN_WWW_AUTHENTICATE = 60"
definition NGHTTP2_TOKEN_TE :: int where "NGHTTP2_TOKEN_TE = 61"
definition NGHTTP2_TOKEN_CONNECTION :: int where "NGHTTP2_TOKEN_CONNECTION = 62"
definition NGHTTP2_TOKEN_KEEP_ALIVE :: int where "NGHTTP2_TOKEN_KEEP_ALIVE = 63"
definition NGHTTP2_TOKEN_PROXY_CONNECTION :: int where "NGHTTP2_TOKEN_PROXY_CONNECTION = 64"
definition NGHTTP2_TOKEN_UPGRADE :: int where "NGHTTP2_TOKEN_UPGRADE = 65"
definition NGHTTP2_TOKEN__PROTOCOL :: int where "NGHTTP2_TOKEN__PROTOCOL = 66"
definition NGHTTP2_TOKEN_PRIORITY :: int where "NGHTTP2_TOKEN_PRIORITY = 67"

lemmas token_defs [ng_defs] =
  NGHTTP2_TOKEN__AUTHORITY_def NGHTTP2_TOKEN__METHOD_def NGHTTP2_TOKEN__PATH_def
  NGHTTP2_TOKEN__SCHEME_def NGHTTP2_TOKEN__STATUS_def NGHTTP2_TOKEN_ACCEPT_CHARSET_def
  NGHTTP2_TOKEN_ACCEPT_ENCODING_def NGHTTP2_TOKEN_ACCEPT_LANGUAGE_def NGHTTP2_TOKEN_ACCEPT_RANGES_def
  NGHTTP2_TOKEN_ACCEPT_def NGHTTP2_TOKEN_ACCESS_CONTROL_ALLOW_ORIGIN_def NGHTTP2_TOKEN_AGE_def
  NGHTTP2_TOKEN_ALLOW_def NGHTTP2_TOKEN_AUTHORIZATION_def NGHTTP2_TOKEN_CACHE_CONTROL_def
  NGHTTP2_TOKEN_CONTENT_DISPOSITION_def NGHTTP2_TOKEN_CONTENT_ENCODING_def NGHTTP2_TOKEN_CONTENT_LANGUAGE_def
  NGHTTP2_TOKEN_CONTENT_LENGTH_def NGHTTP2_TOKEN_CONTENT_LOCATION_def NGHTTP2_TOKEN_CONTENT_RANGE_def
  NGHTTP2_TOKEN_CONTENT_TYPE_def NGHTTP2_TOKEN_COOKIE_def NGHTTP2_TOKEN_DATE_def
  NGHTTP2_TOKEN_ETAG_def NGHTTP2_TOKEN_EXPECT_def NGHTTP2_TOKEN_EXPIRES_def
  NGHTTP2_TOKEN_FROM_def NGHTTP2_TOKEN_HOST_def NGHTTP2_TOKEN_IF_MATCH_def
  NGHTTP2_TOKEN_IF_MODIFIED_SINCE_def NGHTTP2_TOKEN_IF_NONE_MATCH_def NGHTTP2_TOKEN_IF_RANGE_def
  NGHTTP2_TOKEN_IF_UNMODIFIED_SINCE_def NGHTTP2_TOKEN_LAST_MODIFIED_def NGHTTP2_TOKEN_LINK_def
  NGHTTP2_TOKEN_LOCATION_def NGHTTP2_TOKEN_MAX_FORWARDS_def NGHTTP2_TOKEN_PROXY_AUTHENTICATE_def
  NGHTTP2_TOKEN_PROXY_AUTHORIZATION_def NGHTTP2_TOKEN_RANGE_def NGHTTP2_TOKEN_REFERER_def
  NGHTTP2_TOKEN_REFRESH_def NGHTTP2_TOKEN_RETRY_AFTER_def NGHTTP2_TOKEN_SERVER_def
  NGHTTP2_TOKEN_SET_COOKIE_def NGHTTP2_TOKEN_STRICT_TRANSPORT_SECURITY_def NGHTTP2_TOKEN_TRANSFER_ENCODING_def
  NGHTTP2_TOKEN_USER_AGENT_def NGHTTP2_TOKEN_VARY_def NGHTTP2_TOKEN_VIA_def
  NGHTTP2_TOKEN_WWW_AUTHENTICATE_def NGHTTP2_TOKEN_TE_def NGHTTP2_TOKEN_CONNECTION_def
  NGHTTP2_TOKEN_KEEP_ALIVE_def NGHTTP2_TOKEN_PROXY_CONNECTION_def NGHTTP2_TOKEN_UPGRADE_def
  NGHTTP2_TOKEN__PROTOCOL_def NGHTTP2_TOKEN_PRIORITY_def

subsection \<open>The static table\<close>

record nghttp2_hd_static_entry =
  se_name :: bytes
  se_value :: bytes
  se_token :: int
  se_hash :: u32

definition MAKE_STATIC_ENT :: "string \<Rightarrow> string \<Rightarrow> int \<Rightarrow> u32 \<Rightarrow> nghttp2_hd_static_entry" where
  "MAKE_STATIC_ENT n v t h = \<lparr>se_name = ascii n, se_value = ascii v, se_token = t, se_hash = h\<rparr>"

definition static_table :: "nghttp2_hd_static_entry list" where
  "static_table = [
    MAKE_STATIC_ENT '':authority'' [] 0 3153725150,
    MAKE_STATIC_ENT '':method'' ''GET'' 1 695666056,
    MAKE_STATIC_ENT '':method'' ''POST'' 1 695666056,
    MAKE_STATIC_ENT '':path'' ''/'' 3 3292848686,
    MAKE_STATIC_ENT '':path'' ''/index.html'' 3 3292848686,
    MAKE_STATIC_ENT '':scheme'' ''http'' 5 2510477674,
    MAKE_STATIC_ENT '':scheme'' ''https'' 5 2510477674,
    MAKE_STATIC_ENT '':status'' ''200'' 7 4000288983,
    MAKE_STATIC_ENT '':status'' ''204'' 7 4000288983,
    MAKE_STATIC_ENT '':status'' ''206'' 7 4000288983,
    MAKE_STATIC_ENT '':status'' ''304'' 7 4000288983,
    MAKE_STATIC_ENT '':status'' ''400'' 7 4000288983,
    MAKE_STATIC_ENT '':status'' ''404'' 7 4000288983,
    MAKE_STATIC_ENT '':status'' ''500'' 7 4000288983,
    MAKE_STATIC_ENT ''accept-charset'' [] 14 3664010344,
    MAKE_STATIC_ENT ''accept-encoding'' ''gzip, deflate'' 15 3379649177,
    MAKE_STATIC_ENT ''accept-language'' [] 16 1979086614,
    MAKE_STATIC_ENT ''accept-ranges'' [] 17 1713753958,
    MAKE_STATIC_ENT ''accept'' [] 18 136609321,
    MAKE_STATIC_ENT ''access-control-allow-origin'' [] 19 2710797292,
    MAKE_STATIC_ENT ''age'' [] 20 742476188,
    MAKE_STATIC_ENT ''allow'' [] 21 2930878514,
    MAKE_STATIC_ENT ''authorization'' [] 22 2436257726,
    MAKE_STATIC_ENT ''cache-control'' [] 23 1355326669,
    MAKE_STATIC_ENT ''content-disposition'' [] 24 3889184348,
    MAKE_STATIC_ENT ''content-encoding'' [] 25 65203592,
    MAKE_STATIC_ENT ''content-language'' [] 26 24973587,
    MAKE_STATIC_ENT ''content-length'' [] 27 1308181789,
    MAKE_STATIC_ENT ''content-location'' [] 28 2302364718,
    MAKE_STATIC_ENT ''content-range'' [] 29 3555523146,
    MAKE_STATIC_ENT ''content-type'' [] 30 4244048277,
    MAKE_STATIC_ENT ''cookie'' [] 31 2007449791,
    MAKE_STATIC_ENT ''date'' [] 32 3564297305,
    MAKE_STATIC_ENT ''etag'' [] 33 113792960,
    MAKE_STATIC_ENT ''expect'' [] 34 2530896728,
    MAKE_STATIC_ENT ''expires'' [] 35 1049544579,
    MAKE_STATIC_ENT ''from'' [] 36 2513272949,
    MAKE_STATIC_ENT ''host'' [] 37 2952701295,
    MAKE_STATIC_ENT ''if-match'' [] 38 3597694698,
    MAKE_STATIC_ENT ''if-modified-since'' [] 39 2213050793,
    MAKE_STATIC_ENT ''if-none-match'' [] 40 2536202615,
    MAKE_STATIC_ENT ''if-range'' [] 41 2340978238,
    MAKE_STATIC_ENT ''if-unmodified-since'' [] 42 3794814858,
    MAKE_STATIC_ENT ''last-modified'' [] 43 3226950251,
    MAKE_STATIC_ENT ''link'' [] 44 232457833,
    MAKE_STATIC_ENT ''location'' [] 45 200649126,
    MAKE_STATIC_ENT ''max-forwards'' [] 46 1826162134,
    MAKE_STATIC_ENT ''proxy-authenticate'' [] 47 2709445359,
    MAKE_STATIC_ENT ''proxy-authorization'' [] 48 2686392507,
    MAKE_STATIC_ENT ''range'' [] 49 4208725202,
    MAKE_STATIC_ENT ''referer'' [] 50 3969579366,
    MAKE_STATIC_ENT ''refresh'' [] 51 3572655668,
    MAKE_STATIC_ENT ''retry-after'' [] 52 3336180598,
    MAKE_STATIC_ENT ''server'' [] 53 1085029842,
    MAKE_STATIC_ENT ''set-cookie'' [] 54 1848371000,
    MAKE_STATIC_ENT ''strict-transport-security'' [] 55 4138147361,
    MAKE_STATIC_ENT ''transfer-encoding'' [] 56 3719590988,
    MAKE_STATIC_ENT ''user-agent'' [] 57 606444526,
    MAKE_STATIC_ENT ''vary'' [] 58 1085005381,
    MAKE_STATIC_ENT ''via'' [] 59 1762798611,
    MAKE_STATIC_ENT ''www-authenticate'' [] 60 779865858]"

subsection \<open>Token lookup\<close>

definition memeq :: "bytes \<Rightarrow> bytes \<Rightarrow> nat \<Rightarrow> bool" where
  "memeq s1 s2 n \<longleftrightarrow> take n s1 = take n s2"

definition lookup_token_2 :: "bytes \<Rightarrow> int" where
  "lookup_token_2 name =
     (if name ! 1 = of_char (CHR ''e'') then (if memeq (ascii ''t'') name 1 then NGHTTP2_TOKEN_TE else -1)
      else -1)"

definition lookup_token_3 :: "bytes \<Rightarrow> int" where
  "lookup_token_3 name =
     (if name ! 2 = of_char (CHR ''a'') then (if memeq (ascii ''vi'') name 2 then NGHTTP2_TOKEN_VIA else -1)
      else if name ! 2 = of_char (CHR ''e'') then (if memeq (ascii ''ag'') name 2 then NGHTTP2_TOKEN_AGE else -1)
      else -1)"

definition lookup_token_4 :: "bytes \<Rightarrow> int" where
  "lookup_token_4 name =
     (if name ! 3 = of_char (CHR ''e'') then (if memeq (ascii ''dat'') name 3 then NGHTTP2_TOKEN_DATE else -1)
      else if name ! 3 = of_char (CHR ''g'') then (if memeq (ascii ''eta'') name 3 then NGHTTP2_TOKEN_ETAG else -1)
      else if name ! 3 = of_char (CHR ''k'') then (if memeq (ascii ''lin'') name 3 then NGHTTP2_TOKEN_LINK else -1)
      else if name ! 3 = of_char (CHR ''m'') then (if memeq (ascii ''fro'') name 3 then NGHTTP2_TOKEN_FROM else -1)
      else if name ! 3 = of_char (CHR ''t'') then (if memeq (ascii ''hos'') name 3 then NGHTTP2_TOKEN_HOST else -1)
      else if name ! 3 = of_char (CHR ''y'') then (if memeq (ascii ''var'') name 3 then NGHTTP2_TOKEN_VARY else -1)
      else -1)"

definition lookup_token_5 :: "bytes \<Rightarrow> int" where
  "lookup_token_5 name =
     (if name ! 4 = of_char (CHR ''e'') then (if memeq (ascii ''rang'') name 4 then NGHTTP2_TOKEN_RANGE else -1)
      else if name ! 4 = of_char (CHR ''h'') then (if memeq (ascii '':pat'') name 4 then NGHTTP2_TOKEN__PATH else -1)
      else if name ! 4 = of_char (CHR ''w'') then (if memeq (ascii ''allo'') name 4 then NGHTTP2_TOKEN_ALLOW else -1)
      else -1)"

definition lookup_token_6 :: "bytes \<Rightarrow> int" where
  "lookup_token_6 name =
     (if name ! 5 = of_char (CHR ''e'') then (if memeq (ascii ''cooki'') name 5 then NGHTTP2_TOKEN_COOKIE else -1)
      else if name ! 5 = of_char (CHR ''r'') then (if memeq (ascii ''serve'') name 5 then NGHTTP2_TOKEN_SERVER else -1)
      else if name ! 5 = of_char (CHR ''t'') then (if memeq (ascii ''accep'') name 5 then NGHTTP2_TOKEN_ACCEPT else if memeq (ascii ''expec'') name 5 then NGHTTP2_TOKEN_EXPECT else -1)
      else -1)"

definition lookup_token_7 :: "bytes \<Rightarrow> int" where
  "lookup_token_7 name =
     (if name ! 6 = of_char (CHR ''d'') then (if memeq (ascii '':metho'') name 6 then NGHTTP2_TOKEN__METHOD else -1)
      else if name ! 6 = of_char (CHR ''e'') then (if memeq (ascii '':schem'') name 6 then NGHTTP2_TOKEN__SCHEME else if memeq (ascii ''upgrad'') name 6 then NGHTTP2_TOKEN_UPGRADE else -1)
      else if name ! 6 = of_char (CHR ''h'') then (if memeq (ascii ''refres'') name 6 then NGHTTP2_TOKEN_REFRESH else -1)
      else if name ! 6 = of_char (CHR ''r'') then (if memeq (ascii ''refere'') name 6 then NGHTTP2_TOKEN_REFERER else -1)
      else if name ! 6 = of_char (CHR ''s'') then (if memeq (ascii '':statu'') name 6 then NGHTTP2_TOKEN__STATUS else if memeq (ascii ''expire'') name 6 then NGHTTP2_TOKEN_EXPIRES else -1)
      else -1)"

definition lookup_token_8 :: "bytes \<Rightarrow> int" where
  "lookup_token_8 name =
     (if name ! 7 = of_char (CHR ''e'') then (if memeq (ascii ''if-rang'') name 7 then NGHTTP2_TOKEN_IF_RANGE else -1)
      else if name ! 7 = of_char (CHR ''h'') then (if memeq (ascii ''if-matc'') name 7 then NGHTTP2_TOKEN_IF_MATCH else -1)
      else if name ! 7 = of_char (CHR ''n'') then (if memeq (ascii ''locatio'') name 7 then NGHTTP2_TOKEN_LOCATION else -1)
      else if name ! 7 = of_char (CHR ''y'') then (if memeq (ascii ''priorit'') name 7 then NGHTTP2_TOKEN_PRIORITY else -1)
      else -1)"

definition lookup_token_9 :: "bytes \<Rightarrow> int" where
  "lookup_token_9 name =
     (if name ! 8 = of_char (CHR ''l'') then (if memeq (ascii '':protoco'') name 8 then NGHTTP2_TOKEN__PROTOCOL else -1)
      else -1)"

definition lookup_token_10 :: "bytes \<Rightarrow> int" where
  "lookup_token_10 name =
     (if name ! 9 = of_char (CHR ''e'') then (if memeq (ascii ''keep-aliv'') name 9 then NGHTTP2_TOKEN_KEEP_ALIVE else if memeq (ascii ''set-cooki'') name 9 then NGHTTP2_TOKEN_SET_COOKIE else -1)
      else if name ! 9 = of_char (CHR ''n'') then (if memeq (ascii ''connectio'') name 9 then NGHTTP2_TOKEN_CONNECTION else -1)
      else if name ! 9 = of_char (CHR ''t'') then (if memeq (ascii ''user-agen'') name 9 then NGHTTP2_TOKEN_USER_AGENT else -1)
      else if name ! 9 = of_char (CHR ''y'') then (if memeq (ascii '':authorit'') name 9 then NGHTTP2_TOKEN__AUTHORITY else -1)
      else -1)"

definition lookup_token_11 :: "bytes \<Rightarrow> int" where
  "lookup_token_11 name =
     (if name ! 10 = of_char (CHR ''r'') then (if memeq (ascii ''retry-afte'') name 10 then NGHTTP2_TOKEN_RETRY_AFTER else -1)
      else -1)"

definition lookup_token_12 :: "bytes \<Rightarrow> int" where
  "lookup_token_12 name =
     (if name ! 11 = of_char (CHR ''e'') then (if memeq (ascii ''content-typ'') name 11 then NGHTTP2_TOKEN_CONTENT_TYPE else -1)
      else if name ! 11 = of_char (CHR ''s'') then (if memeq (ascii ''max-forward'') name 11 then NGHTTP2_TOKEN_MAX_FORWARDS else -1)
      else -1)"

definition lookup_token_13 :: "bytes \<Rightarrow> int" where
  "lookup_token_13 name =
     (if name ! 12 = of_char (CHR ''d'') then (if memeq (ascii ''last-modifie'') name 12 then NGHTTP2_TOKEN_LAST_MODIFIED else -1)
      else if name ! 12 = of_char (CHR ''e'') then (if memeq (ascii ''content-rang'') name 12 then NGHTTP2_TOKEN_CONTENT_RANGE else -1)
      else if name ! 12 = of_char (CHR ''h'') then (if memeq (ascii ''if-none-matc'') name 12 then NGHTTP2_TOKEN_IF_NONE_MATCH else -1)
      else if name ! 12 = of_char (CHR ''l'') then (if memeq (ascii ''cache-contro'') name 12 then NGHTTP2_TOKEN_CACHE_CONTROL else -1)
      else if name ! 12 = of_char (CHR ''n'') then (if memeq (ascii ''authorizatio'') name 12 then NGHTTP2_TOKEN_AUTHORIZATION else -1)
      else if name ! 12 = of_char (CHR ''s'') then (if memeq (ascii ''accept-range'') name 12 then NGHTTP2_TOKEN_ACCEPT_RANGES else -1)
      else -1)"

definition lookup_token_14 :: "bytes \<Rightarrow> int" where
  "lookup_token_14 name =
     (if name ! 13 = of_char (CHR ''h'') then (if memeq (ascii ''content-lengt'') name 13 then NGHTTP2_TOKEN_CONTENT_LENGTH else -1)
      else if name ! 13 = of_char (CHR ''t'') then (if memeq (ascii ''accept-charse'') name 13 then NGHTTP2_TOKEN_ACCEPT_CHARSET else -1)
      else -1)"

definition lookup_token_15 :: "bytes \<Rightarrow> int" where
  "lookup_token_15 name =
     (if name ! 14 = of_char (CHR ''e'') then (if memeq (ascii ''accept-languag'') name 14 then NGHTTP2_TOKEN_ACCEPT_LANGUAGE else -1)
      else if name ! 14 = of_char (CHR ''g'') then (if memeq (ascii ''accept-encodin'') name 14 then NGHTTP2_TOKEN_ACCEPT_ENCODING else -1)
      else -1)"

definition lookup_token_16 :: "bytes \<Rightarrow> int" where
  "lookup_token_16 name =
     (if name ! 15 = of_char (CHR ''e'') then (if memeq (ascii ''content-languag'') name 15 then NGHTTP2_TOKEN_CONTENT_LANGUAGE else if memeq (ascii ''www-authenticat'') name 15 then NGHTTP2_TOKEN_WWW_AUTHENTICATE else -1)
      else if name ! 15 = of_char (CHR ''g'') then (if memeq (ascii ''content-encodin'') name 15 then NGHTTP2_TOKEN_CONTENT_ENCODING else -1)
      else if name ! 15 = of_char (CHR ''n'') then (if memeq (ascii ''content-locatio'') name 15 then NGHTTP2_TOKEN_CONTENT_LOCATION else if memeq (ascii ''proxy-connectio'') name 15 then NGHTTP2_TOKEN_PROXY_CONNECTION else -1)
      else -1)"

definition lookup_token_17 :: "bytes \<Rightarrow> int" where
  "lookup_token_17 name =
     (if name ! 16 = of_char (CHR ''e'') then (if memeq (ascii ''if-modified-sinc'') name 16 then NGHTTP2_TOKEN_IF_MODIFIED_SINCE else -1)
      else if name ! 16 = of_char (CHR ''g'') then (if memeq (ascii ''transfer-encodin'') name 16 then NGHTTP2_TOKEN_TRANSFER_ENCODING else -1)
      else -1)"

definition lookup_token_18 :: "bytes \<Rightarrow> int" where
  "lookup_token_18 name =
     (if name ! 17 = of_char (CHR ''e'') then (if memeq (ascii ''proxy-authenticat'') name 17 then NGHTTP2_TOKEN_PROXY_AUTHENTICATE else -1)
      else -1)"

definition lookup_token_19 :: "bytes \<Rightarrow> int" where
  "lookup_token_19 name =
     (if name ! 18 = of_char (CHR ''e'') then (if memeq (ascii ''if-unmodified-sinc'') name 18 then NGHTTP2_TOKEN_IF_UNMODIFIED_SINCE else -1)
      else if name ! 18 = of_char (CHR ''n'') then (if memeq (ascii ''content-dispositio'') name 18 then NGHTTP2_TOKEN_CONTENT_DISPOSITION else if memeq (ascii ''proxy-authorizatio'') name 18 then NGHTTP2_TOKEN_PROXY_AUTHORIZATION else -1)
      else -1)"

definition lookup_token_25 :: "bytes \<Rightarrow> int" where
  "lookup_token_25 name =
     (if name ! 24 = of_char (CHR ''y'') then (if memeq (ascii ''strict-transport-securit'') name 24 then NGHTTP2_TOKEN_STRICT_TRANSPORT_SECURITY else -1)
      else -1)"

definition lookup_token_27 :: "bytes \<Rightarrow> int" where
  "lookup_token_27 name =
     (if name ! 26 = of_char (CHR ''n'') then (if memeq (ascii ''access-control-allow-origi'') name 26 then NGHTTP2_TOKEN_ACCESS_CONTROL_ALLOW_ORIGIN else -1)
      else -1)"

definition lookup_token :: "bytes \<Rightarrow> int" where
  "lookup_token name =
     (let namelen = length name in
      if namelen = 2 then lookup_token_2 name
      else if namelen = 3 then lookup_token_3 name
      else if namelen = 4 then lookup_token_4 name
      else if namelen = 5 then lookup_token_5 name
      else if namelen = 6 then lookup_token_6 name
      else if namelen = 7 then lookup_token_7 name
      else if namelen = 8 then lookup_token_8 name
      else if namelen = 9 then lookup_token_9 name
      else if namelen = 10 then lookup_token_10 name
      else if namelen = 11 then lookup_token_11 name
      else if namelen = 12 then lookup_token_12 name
      else if namelen = 13 then lookup_token_13 name
      else if namelen = 14 then lookup_token_14 name
      else if namelen = 15 then lookup_token_15 name
      else if namelen = 16 then lookup_token_16 name
      else if namelen = 17 then lookup_token_17 name
      else if namelen = 18 then lookup_token_18 name
      else if namelen = 19 then lookup_token_19 name
      else if namelen = 25 then lookup_token_25 name
      else if namelen = 27 then lookup_token_27 name
      else -1)"

text \<open>32-bit FNV-1a.\<close>

definition name_hash_mult :: "u32 \<Rightarrow> u32" where
  "name_hash_mult h = h + (push_bit 1 h + push_bit 4 h + push_bit 7 h + push_bit 8 h + push_bit 24 h)"

primrec name_hash_loop :: "u32 \<Rightarrow> bytes \<Rightarrow> u32" where
  "name_hash_loop h [] = h"
| "name_hash_loop h (c # name) = name_hash_loop (name_hash_mult (h XOR ucast c)) name"

definition name_hash :: "bytes \<Rightarrow> u32" where
  "name_hash name = name_hash_loop 2166136261 name"

subsection \<open>The names behind the tokens\<close>

definition names_2 :: "(bytes \<times> int) list" where
  "names_2 = [(ascii ''te'', NGHTTP2_TOKEN_TE)]"

definition names_3 :: "(bytes \<times> int) list" where
  "names_3 = [(ascii ''via'', NGHTTP2_TOKEN_VIA), (ascii ''age'', NGHTTP2_TOKEN_AGE)]"

definition names_4 :: "(bytes \<times> int) list" where
  "names_4 = [(ascii ''date'', NGHTTP2_TOKEN_DATE), (ascii ''etag'', NGHTTP2_TOKEN_ETAG), (ascii ''link'', NGHTTP2_TOKEN_LINK), (ascii ''from'', NGHTTP2_TOKEN_FROM), (ascii ''host'', NGHTTP2_TOKEN_HOST), (ascii ''vary'', NGHTTP2_TOKEN_VARY)]"

definition names_5 :: "(bytes \<times> int) list" where
  "names_5 = [(ascii ''range'', NGHTTP2_TOKEN_RANGE), (ascii '':path'', NGHTTP2_TOKEN__PATH), (ascii ''allow'', NGHTTP2_TOKEN_ALLOW)]"

definition names_6 :: "(bytes \<times> int) list" where
  "names_6 = [(ascii ''cookie'', NGHTTP2_TOKEN_COOKIE), (ascii ''server'', NGHTTP2_TOKEN_SERVER), (ascii ''accept'', NGHTTP2_TOKEN_ACCEPT), (ascii ''expect'', NGHTTP2_TOKEN_EXPECT)]"

definition names_7 :: "(bytes \<times> int) list" where
  "names_7 = [(ascii '':method'', NGHTTP2_TOKEN__METHOD), (ascii '':scheme'', NGHTTP2_TOKEN__SCHEME), (ascii ''upgrade'', NGHTTP2_TOKEN_UPGRADE), (ascii ''refresh'', NGHTTP2_TOKEN_REFRESH), (ascii ''referer'', NGHTTP2_TOKEN_REFERER), (ascii '':status'', NGHTTP2_TOKEN__STATUS), (ascii ''expires'', NGHTTP2_TOKEN_EXPIRES)]"

definition names_8 :: "(bytes \<times> int) list" where
  "names_8 = [(ascii ''if-range'', NGHTTP2_TOKEN_IF_RANGE), (ascii ''if-match'', NGHTTP2_TOKEN_IF_MATCH), (ascii ''location'', NGHTTP2_TOKEN_LOCATION), (ascii ''priority'', NGHTTP2_TOKEN_PRIORITY)]"

definition names_9 :: "(bytes \<times> int) list" where
  "names_9 = [(ascii '':protocol'', NGHTTP2_TOKEN__PROTOCOL)]"

definition names_10 :: "(bytes \<times> int) list" where
  "names_10 = [(ascii ''keep-alive'', NGHTTP2_TOKEN_KEEP_ALIVE), (ascii ''set-cookie'', NGHTTP2_TOKEN_SET_COOKIE), (ascii ''connection'', NGHTTP2_TOKEN_CONNECTION), (ascii ''user-agent'', NGHTTP2_TOKEN_USER_AGENT), (ascii '':authority'', NGHTTP2_TOKEN__AUTHORITY)]"

definition names_11 :: "(bytes \<times> int) list" where
  "names_11 = [(ascii ''retry-after'', NGHTTP2_TOKEN_RETRY_AFTER)]"

definition names_12 :: "(bytes \<times> int) list" where
  "names_12 = [(ascii ''content-type'', NGHTTP2_TOKEN_CONTENT_TYPE), (ascii ''max-forwards'', NGHTTP2_TOKEN_MAX_FORWARDS)]"

definition names_13 :: "(bytes \<times> int) list" where
  "names_13 = [(ascii ''last-modified'', NGHTTP2_TOKEN_LAST_MODIFIED), (ascii ''content-range'', NGHTTP2_TOKEN_CONTENT_RANGE), (ascii ''if-none-match'', NGHTTP2_TOKEN_IF_NONE_MATCH), (ascii ''cache-control'', NGHTTP2_TOKEN_CACHE_CONTROL), (ascii ''authorization'', NGHTTP2_TOKEN_AUTHORIZATION), (ascii ''accept-ranges'', NGHTTP2_TOKEN_ACCEPT_RANGES)]"

definition names_14 :: "(bytes \<times> int) list" where
  "names_14 = [(ascii ''content-length'', NGHTTP2_TOKEN_CONTENT_LENGTH), (ascii ''accept-charset'', NGHTTP2_TOKEN_ACCEPT_CHARSET)]"

definition names_15 :: "(bytes \<times> int) list" where
  "names_15 = [(ascii ''accept-language'', NGHTTP2_TOKEN_ACCEPT_LANGUAGE), (ascii ''accept-encoding'', NGHTTP2_TOKEN_ACCEPT_ENCODING)]"

definition names_16 :: "(bytes \<times> int) list" where
  "names_16 = [(ascii ''content-language'', NGHTTP2_TOKEN_CONTENT_LANGUAGE), (ascii ''www-authenticate'', NGHTTP2_TOKEN_WWW_AUTHENTICATE), (ascii ''content-encoding'', NGHTTP2_TOKEN_CONTENT_ENCODING), (ascii ''content-location'', NGHTTP2_TOKEN_CONTENT_LOCATION), (ascii ''proxy-connection'', NGHTTP2_TOKEN_PROXY_CONNECTION)]"

definition names_17 :: "(bytes \<times> int) list" where
  "names_17 = [(ascii ''if-modified-since'', NGHTTP2_TOKEN_IF_MODIFIED_SINCE), (ascii ''transfer-encoding'', NGHTTP2_TOKEN_TRANSFER_ENCODING)]"

definition names_18 :: "(bytes \<times> int) list" where
  "names_18 = [(ascii ''proxy-authenticate'', NGHTTP2_TOKEN_PROXY_AUTHENTICATE)]"

definition names_19 :: "(bytes \<times> int) list" where
  "names_19 = [(ascii ''if-unmodified-since'', NGHTTP2_TOKEN_IF_UNMODIFIED_SINCE), (ascii ''content-disposition'', NGHTTP2_TOKEN_CONTENT_DISPOSITION), (ascii ''proxy-authorization'', NGHTTP2_TOKEN_PROXY_AUTHORIZATION)]"

definition names_25 :: "(bytes \<times> int) list" where
  "names_25 = [(ascii ''strict-transport-security'', NGHTTP2_TOKEN_STRICT_TRANSPORT_SECURITY)]"

definition names_27 :: "(bytes \<times> int) list" where
  "names_27 = [(ascii ''access-control-allow-origin'', NGHTTP2_TOKEN_ACCESS_CONTROL_ALLOW_ORIGIN)]"

definition token_names :: "(bytes \<times> int) list" where
  "token_names = names_2 @ names_3 @ names_4 @ names_5 @ names_6 @ names_7 @ names_8 @ names_9 @ names_10 @ names_11 @ names_12 @ names_13 @ names_14 @ names_15 @ names_16 @ names_17 @ names_18 @ names_19 @ names_25 @ names_27"

definition assoc :: "(bytes \<times> int) list \<Rightarrow> bytes \<Rightarrow> int" where
  "assoc xs name = (case map_of xs name of Some t \<Rightarrow> t | None \<Rightarrow> -1)"

lemma assoc_simps [simp]: "assoc [] name = -1" "assoc ((n, t) # xs) name = (if name = n then t else assoc xs name)"
  by (simp_all add: assoc_def)

lemma snoc_eq_iff: "xs @ [c] = ys \<longleftrightarrow> ys \<noteq> [] \<and> xs = butlast ys \<and> c = last ys"
  by (metis append_butlast_last_id butlast_snoc last_snoc snoc_eq_iff_butlast)

lemma length_snoc: "length name = Suc n \<Longrightarrow> \<exists>xs c. name = xs @ [c] \<and> length xs = n"
  by (metis length_Suc_conv_rev)

lemma lookup_token_2: "length name = 2 \<Longrightarrow> lookup_token_2 name = assoc names_2 name"
proof -
  assume "length name = 2"
  then obtain xs c where n: "name = xs @ [c]" "length xs = 1" using length_snoc [of name 1] by auto
  show ?thesis unfolding n(1) lookup_token_2_def names_2_def
    using n(2) by (simp add: memeq_def nth_append snoc_eq_iff)
qed

lemma lookup_token_3: "length name = 3 \<Longrightarrow> lookup_token_3 name = assoc names_3 name"
proof -
  assume "length name = 3"
  then obtain xs c where n: "name = xs @ [c]" "length xs = 2" using length_snoc [of name 2] by auto
  show ?thesis unfolding n(1) lookup_token_3_def names_3_def
    using n(2) by (simp add: memeq_def nth_append snoc_eq_iff)
qed

lemma lookup_token_4: "length name = 4 \<Longrightarrow> lookup_token_4 name = assoc names_4 name"
proof -
  assume "length name = 4"
  then obtain xs c where n: "name = xs @ [c]" "length xs = 3" using length_snoc [of name 3] by auto
  show ?thesis unfolding n(1) lookup_token_4_def names_4_def
    using n(2) by (simp add: memeq_def nth_append snoc_eq_iff)
qed

lemma lookup_token_5: "length name = 5 \<Longrightarrow> lookup_token_5 name = assoc names_5 name"
proof -
  assume "length name = 5"
  then obtain xs c where n: "name = xs @ [c]" "length xs = 4" using length_snoc [of name 4] by auto
  show ?thesis unfolding n(1) lookup_token_5_def names_5_def
    using n(2) by (simp add: memeq_def nth_append snoc_eq_iff)
qed

lemma lookup_token_6: "length name = 6 \<Longrightarrow> lookup_token_6 name = assoc names_6 name"
proof -
  assume "length name = 6"
  then obtain xs c where n: "name = xs @ [c]" "length xs = 5" using length_snoc [of name 5] by auto
  show ?thesis unfolding n(1) lookup_token_6_def names_6_def
    using n(2) by (simp add: memeq_def nth_append snoc_eq_iff)
qed

lemma lookup_token_7: "length name = 7 \<Longrightarrow> lookup_token_7 name = assoc names_7 name"
proof -
  assume "length name = 7"
  then obtain xs c where n: "name = xs @ [c]" "length xs = 6" using length_snoc [of name 6] by auto
  show ?thesis unfolding n(1) lookup_token_7_def names_7_def
    using n(2) by (simp add: memeq_def nth_append snoc_eq_iff)
qed

lemma lookup_token_8: "length name = 8 \<Longrightarrow> lookup_token_8 name = assoc names_8 name"
proof -
  assume "length name = 8"
  then obtain xs c where n: "name = xs @ [c]" "length xs = 7" using length_snoc [of name 7] by auto
  show ?thesis unfolding n(1) lookup_token_8_def names_8_def
    using n(2) by (simp add: memeq_def nth_append snoc_eq_iff)
qed

lemma lookup_token_9: "length name = 9 \<Longrightarrow> lookup_token_9 name = assoc names_9 name"
proof -
  assume "length name = 9"
  then obtain xs c where n: "name = xs @ [c]" "length xs = 8" using length_snoc [of name 8] by auto
  show ?thesis unfolding n(1) lookup_token_9_def names_9_def
    using n(2) by (simp add: memeq_def nth_append snoc_eq_iff)
qed

lemma lookup_token_10: "length name = 10 \<Longrightarrow> lookup_token_10 name = assoc names_10 name"
proof -
  assume "length name = 10"
  then obtain xs c where n: "name = xs @ [c]" "length xs = 9" using length_snoc [of name 9] by auto
  show ?thesis unfolding n(1) lookup_token_10_def names_10_def
    using n(2) by (simp add: memeq_def nth_append snoc_eq_iff)
qed

lemma lookup_token_11: "length name = 11 \<Longrightarrow> lookup_token_11 name = assoc names_11 name"
proof -
  assume "length name = 11"
  then obtain xs c where n: "name = xs @ [c]" "length xs = 10" using length_snoc [of name 10] by auto
  show ?thesis unfolding n(1) lookup_token_11_def names_11_def
    using n(2) by (simp add: memeq_def nth_append snoc_eq_iff)
qed

lemma lookup_token_12: "length name = 12 \<Longrightarrow> lookup_token_12 name = assoc names_12 name"
proof -
  assume "length name = 12"
  then obtain xs c where n: "name = xs @ [c]" "length xs = 11" using length_snoc [of name 11] by auto
  show ?thesis unfolding n(1) lookup_token_12_def names_12_def
    using n(2) by (simp add: memeq_def nth_append snoc_eq_iff)
qed

lemma lookup_token_13: "length name = 13 \<Longrightarrow> lookup_token_13 name = assoc names_13 name"
proof -
  assume "length name = 13"
  then obtain xs c where n: "name = xs @ [c]" "length xs = 12" using length_snoc [of name 12] by auto
  show ?thesis unfolding n(1) lookup_token_13_def names_13_def
    using n(2) by (simp add: memeq_def nth_append snoc_eq_iff)
qed

lemma lookup_token_14: "length name = 14 \<Longrightarrow> lookup_token_14 name = assoc names_14 name"
proof -
  assume "length name = 14"
  then obtain xs c where n: "name = xs @ [c]" "length xs = 13" using length_snoc [of name 13] by auto
  show ?thesis unfolding n(1) lookup_token_14_def names_14_def
    using n(2) by (simp add: memeq_def nth_append snoc_eq_iff)
qed

lemma lookup_token_15: "length name = 15 \<Longrightarrow> lookup_token_15 name = assoc names_15 name"
proof -
  assume "length name = 15"
  then obtain xs c where n: "name = xs @ [c]" "length xs = 14" using length_snoc [of name 14] by auto
  show ?thesis unfolding n(1) lookup_token_15_def names_15_def
    using n(2) by (simp add: memeq_def nth_append snoc_eq_iff)
qed

lemma lookup_token_16: "length name = 16 \<Longrightarrow> lookup_token_16 name = assoc names_16 name"
proof -
  assume "length name = 16"
  then obtain xs c where n: "name = xs @ [c]" "length xs = 15" using length_snoc [of name 15] by auto
  show ?thesis unfolding n(1) lookup_token_16_def names_16_def
    using n(2) by (simp add: memeq_def nth_append snoc_eq_iff)
qed

lemma lookup_token_17: "length name = 17 \<Longrightarrow> lookup_token_17 name = assoc names_17 name"
proof -
  assume "length name = 17"
  then obtain xs c where n: "name = xs @ [c]" "length xs = 16" using length_snoc [of name 16] by auto
  show ?thesis unfolding n(1) lookup_token_17_def names_17_def
    using n(2) by (simp add: memeq_def nth_append snoc_eq_iff)
qed

lemma lookup_token_18: "length name = 18 \<Longrightarrow> lookup_token_18 name = assoc names_18 name"
proof -
  assume "length name = 18"
  then obtain xs c where n: "name = xs @ [c]" "length xs = 17" using length_snoc [of name 17] by auto
  show ?thesis unfolding n(1) lookup_token_18_def names_18_def
    using n(2) by (simp add: memeq_def nth_append snoc_eq_iff)
qed

lemma lookup_token_19: "length name = 19 \<Longrightarrow> lookup_token_19 name = assoc names_19 name"
proof -
  assume "length name = 19"
  then obtain xs c where n: "name = xs @ [c]" "length xs = 18" using length_snoc [of name 18] by auto
  show ?thesis unfolding n(1) lookup_token_19_def names_19_def
    using n(2) by (simp add: memeq_def nth_append snoc_eq_iff)
qed

lemma lookup_token_25: "length name = 25 \<Longrightarrow> lookup_token_25 name = assoc names_25 name"
proof -
  assume "length name = 25"
  then obtain xs c where n: "name = xs @ [c]" "length xs = 24" using length_snoc [of name 24] by auto
  show ?thesis unfolding n(1) lookup_token_25_def names_25_def
    using n(2) by (simp add: memeq_def nth_append snoc_eq_iff)
qed

lemma lookup_token_27: "length name = 27 \<Longrightarrow> lookup_token_27 name = assoc names_27 name"
proof -
  assume "length name = 27"
  then obtain xs c where n: "name = xs @ [c]" "length xs = 26" using length_snoc [of name 26] by auto
  show ?thesis unfolding n(1) lookup_token_27_def names_27_def
    using n(2) by (simp add: memeq_def nth_append snoc_eq_iff)
qed

lemma assoc_append: "assoc (xs @ ys) name = (if name \<in> fst ` set xs then assoc xs name else assoc ys name)"
  by (auto simp: assoc_def map_add_def map_of_append dom_map_of_conv_image_fst [symmetric] split: option.splits)

lemma assoc_none: "name \<notin> fst ` set xs \<Longrightarrow> assoc xs name = -1"
  by (simp add: assoc_def map_of_eq_None_iff [symmetric])

lemma names_lengths:
  "length name \<noteq> 2 \<Longrightarrow> name \<notin> fst ` set names_2"
  "length name \<noteq> 3 \<Longrightarrow> name \<notin> fst ` set names_3"
  "length name \<noteq> 4 \<Longrightarrow> name \<notin> fst ` set names_4"
  "length name \<noteq> 5 \<Longrightarrow> name \<notin> fst ` set names_5"
  "length name \<noteq> 6 \<Longrightarrow> name \<notin> fst ` set names_6"
  "length name \<noteq> 7 \<Longrightarrow> name \<notin> fst ` set names_7"
  "length name \<noteq> 8 \<Longrightarrow> name \<notin> fst ` set names_8"
  "length name \<noteq> 9 \<Longrightarrow> name \<notin> fst ` set names_9"
  "length name \<noteq> 10 \<Longrightarrow> name \<notin> fst ` set names_10"
  "length name \<noteq> 11 \<Longrightarrow> name \<notin> fst ` set names_11"
  "length name \<noteq> 12 \<Longrightarrow> name \<notin> fst ` set names_12"
  "length name \<noteq> 13 \<Longrightarrow> name \<notin> fst ` set names_13"
  "length name \<noteq> 14 \<Longrightarrow> name \<notin> fst ` set names_14"
  "length name \<noteq> 15 \<Longrightarrow> name \<notin> fst ` set names_15"
  "length name \<noteq> 16 \<Longrightarrow> name \<notin> fst ` set names_16"
  "length name \<noteq> 17 \<Longrightarrow> name \<notin> fst ` set names_17"
  "length name \<noteq> 18 \<Longrightarrow> name \<notin> fst ` set names_18"
  "length name \<noteq> 19 \<Longrightarrow> name \<notin> fst ` set names_19"
  "length name \<noteq> 25 \<Longrightarrow> name \<notin> fst ` set names_25"
  "length name \<noteq> 27 \<Longrightarrow> name \<notin> fst ` set names_27"
  by (auto simp: names_2_def names_3_def names_4_def names_5_def names_6_def names_7_def names_8_def names_9_def names_10_def names_11_def names_12_def names_13_def names_14_def names_15_def names_16_def names_17_def names_18_def names_19_def names_25_def names_27_def)

lemmas lookup_token_parts =
  lookup_token_2 lookup_token_3 lookup_token_4 lookup_token_5 lookup_token_6 lookup_token_7 lookup_token_8 lookup_token_9 lookup_token_10 lookup_token_11 lookup_token_12 lookup_token_13 lookup_token_14 lookup_token_15 lookup_token_16 lookup_token_17 lookup_token_18 lookup_token_19 lookup_token_25 lookup_token_27

lemma token_names_length:
  "length name = 2 \<Longrightarrow> assoc token_names name = assoc names_2 name"
  "length name = 3 \<Longrightarrow> assoc token_names name = assoc names_3 name"
  "length name = 4 \<Longrightarrow> assoc token_names name = assoc names_4 name"
  "length name = 5 \<Longrightarrow> assoc token_names name = assoc names_5 name"
  "length name = 6 \<Longrightarrow> assoc token_names name = assoc names_6 name"
  "length name = 7 \<Longrightarrow> assoc token_names name = assoc names_7 name"
  "length name = 8 \<Longrightarrow> assoc token_names name = assoc names_8 name"
  "length name = 9 \<Longrightarrow> assoc token_names name = assoc names_9 name"
  "length name = 10 \<Longrightarrow> assoc token_names name = assoc names_10 name"
  "length name = 11 \<Longrightarrow> assoc token_names name = assoc names_11 name"
  "length name = 12 \<Longrightarrow> assoc token_names name = assoc names_12 name"
  "length name = 13 \<Longrightarrow> assoc token_names name = assoc names_13 name"
  "length name = 14 \<Longrightarrow> assoc token_names name = assoc names_14 name"
  "length name = 15 \<Longrightarrow> assoc token_names name = assoc names_15 name"
  "length name = 16 \<Longrightarrow> assoc token_names name = assoc names_16 name"
  "length name = 17 \<Longrightarrow> assoc token_names name = assoc names_17 name"
  "length name = 18 \<Longrightarrow> assoc token_names name = assoc names_18 name"
  "length name = 19 \<Longrightarrow> assoc token_names name = assoc names_19 name"
  "length name = 25 \<Longrightarrow> assoc token_names name = assoc names_25 name"
  "length name = 27 \<Longrightarrow> assoc token_names name = assoc names_27 name"
  unfolding token_names_def by (simp_all add: assoc_append assoc_none names_lengths)

lemma token_names_other: "length name \<notin> {2, 3, 4, 5, 6, 7, 8, 9, 10, 11, 12, 13, 14, 15, 16, 17, 18, 19, 25, 27} \<Longrightarrow> assoc token_names name = -1"
  unfolding token_names_def by (simp add: assoc_append assoc_none names_lengths)

lemma lookup_token_eq: "lookup_token name = assoc token_names name"
proof -
  consider "length name = 2" | "length name = 3" | "length name = 4" | "length name = 5" | "length name = 6" | "length name = 7" | "length name = 8" | "length name = 9" | "length name = 10" | "length name = 11" | "length name = 12" | "length name = 13" | "length name = 14" | "length name = 15" | "length name = 16" | "length name = 17" | "length name = 18" | "length name = 19" | "length name = 25" | "length name = 27"
    | "length name \<notin> {2, 3, 4, 5, 6, 7, 8, 9, 10, 11, 12, 13, 14, 15, 16, 17, 18, 19, 25, 27}" by blast
  then show ?thesis
    by cases (simp_all add: lookup_token_def lookup_token_parts token_names_length token_names_other)
qed

subsection \<open>The static table checked\<close>

definition static_ok :: "nat \<Rightarrow> nghttp2_hd_static_entry \<Rightarrow> bool" where
  "static_ok i e \<longleftrightarrow> lookup_token (se_name e) = se_token e \<and> 0 \<le> se_token e \<and> nat (se_token e) \<le> i"

primrec statics_ok :: "nat \<Rightarrow> nghttp2_hd_static_entry list \<Rightarrow> bool" where
  "statics_ok i [] \<longleftrightarrow> True"
| "statics_ok i (e # es) \<longleftrightarrow> static_ok i e \<and> statics_ok (Suc i) es"

lemmas lookup_token_defs =
  lookup_token_2_def lookup_token_3_def lookup_token_4_def lookup_token_5_def lookup_token_6_def lookup_token_7_def lookup_token_8_def lookup_token_9_def lookup_token_10_def lookup_token_11_def lookup_token_12_def lookup_token_13_def lookup_token_14_def lookup_token_15_def lookup_token_16_def lookup_token_17_def lookup_token_18_def lookup_token_19_def lookup_token_25_def lookup_token_27_def

lemma statics_ok_table: "statics_ok 0 static_table"
  by (simp add: static_table_def static_ok_def MAKE_STATIC_ENT_def lookup_token_def lookup_token_defs memeq_def
      token_defs)

lemma static_hashes: "list_all (\<lambda>e. name_hash (se_name e) = se_hash e) static_table"
  by (simp add: static_table_def MAKE_STATIC_ENT_def name_hash_def name_hash_mult_def)

lemma length_static_table: "length static_table = 61"
  by (simp add: static_table_def)

lemma statics_ok_nth: "statics_ok i es \<Longrightarrow> j < length es \<Longrightarrow> static_ok (i + j) (es ! j)"
proof (induction es arbitrary: i j)
  case (Cons e es)
  then show ?case using Cons.IH [of "Suc i" "j - 1"] by (cases j) auto
qed simp

lemma static_entry:
  assumes "i < 61"
  shows "lookup_token (se_name (static_table ! i)) = se_token (static_table ! i)"
    "0 \<le> se_token (static_table ! i)" "nat (se_token (static_table ! i)) \<le> i"
    "name_hash (se_name (static_table ! i)) = se_hash (static_table ! i)"
  using statics_ok_nth [OF statics_ok_table, of i] static_hashes assms
  by (simp_all add: static_ok_def length_static_table list_all_length)

lemmas names_defs = names_2_def names_3_def names_4_def names_5_def names_6_def names_7_def names_8_def names_9_def names_10_def names_11_def names_12_def names_13_def names_14_def names_15_def names_16_def names_17_def names_18_def names_19_def names_25_def names_27_def

lemma token_names_distinct: "distinct (map fst token_names)" "distinct (map snd token_names)"
  by (simp_all add: token_names_def names_defs token_defs)

lemma token_names_nonneg: "(name, t) \<in> set token_names \<Longrightarrow> 0 \<le> t"
  by (auto simp: token_names_def names_defs token_defs)

lemma lookup_token_iff: "lookup_token name = t \<and> t \<noteq> -1 \<longleftrightarrow> (name, t) \<in> set token_names"
proof -
  have "lookup_token name = t \<and> t \<noteq> -1 \<longleftrightarrow> map_of token_names name = Some t"
    using token_names_nonneg by (fastforce simp: lookup_token_eq assoc_def split: option.splits dest: map_of_SomeD)
  then show ?thesis by (simp add: token_names_distinct(1))
qed

lemma lookup_token_inj: "lookup_token a = lookup_token b \<Longrightarrow> lookup_token b \<noteq> -1 \<Longrightarrow> a = b"
  using token_names_distinct(2) lookup_token_iff [of a "lookup_token b"] lookup_token_iff [of b "lookup_token b"]
  by (metis eq_key_imp_eq_value distinct_map inj_onD prod.inject snd_conv)

lemma static_token_name:
  assumes i: "i < 61"
  shows "se_name (static_table ! nat (se_token (static_table ! i))) = se_name (static_table ! i)"
proof -
  define ts where "ts = map se_token static_table"
  have ts: "ts = [0, 1, 1, 3, 3, 5, 5, 7, 7, 7, 7, 7, 7, 7, 14, 15, 16, 17, 18, 19, 20, 21, 22, 23, 24, 25, 26, 27, 28, 29, 30, 31, 32, 33, 34, 35, 36, 37, 38, 39, 40, 41, 42, 43, 44, 45, 46, 47, 48, 49, 50, 51, 52, 53, 54, 55, 56, 57, 58, 59, 60]"
    by (simp add: ts_def static_table_def MAKE_STATIC_ENT_def)
  have len: "length ts = 61" by (simp add: ts)
  have "list_all (\<lambda>t. ts ! nat t = t \<and> nat t < 61) ts" unfolding ts by simp
  then have "ts ! nat (ts ! i) = ts ! i \<and> nat (ts ! i) < 61" using i len by (simp add: list_all_length)
  moreover have "ts ! j = se_token (static_table ! j)" if "j < 61" for j
    using that by (simp add: ts_def length_static_table)
  ultimately have "nat (se_token (static_table ! i)) < 61"
    "se_token (static_table ! nat (se_token (static_table ! i))) = se_token (static_table ! i)" using i by metis+
  then show ?thesis using static_entry(1,2) [OF i] static_entry(1) [of "nat (se_token (static_table ! i))"]
    by (intro lookup_token_inj) simp_all
qed

subsection \<open>Properties\<close>

text \<open>
  C27.  The generated switch is exact: it returns a token for a name if and only if the pair is in
  the list of known field names, and -1 for every other string.
\<close>

theorem lookup_token_exact: "lookup_token name = t \<and> t \<noteq> -1 \<longleftrightarrow> (name, t) \<in> set token_names"
  by (rule lookup_token_iff)

text \<open>
  C28.  The static table is consistent: the token of an entry is the one \<open>lookup_token\<close> computes from its
  name, it is the index of the first entry with that name, and the stored hash is the FNV-1a hash of
  the name.
\<close>

theorem static_table_consistent:
  assumes "i < 61"
  shows "lookup_token (se_name (static_table ! i)) = se_token (static_table ! i) \<and>
    nat (se_token (static_table ! i)) \<le> i \<and>
    se_name (static_table ! nat (se_token (static_table ! i))) = se_name (static_table ! i) \<and>
    name_hash (se_name (static_table ! i)) = se_hash (static_table ! i)"
  using static_entry [OF assms] static_token_name [OF assms] by auto

theorem static_table_consistent_witness:
  "lookup_token (ascii '':status'') = 7 \<and> name_hash (ascii '':status'') = 4000288983"
  using static_table_consistent [of 9] by (simp add: static_table_def MAKE_STATIC_ENT_def)

end
