(* ===== verification/Hd_Table.thy ===== *)
theory Hd_Table
  imports Hd_Token Buf
begin

text \<open>
  The dynamic table of HPACK in \<open>nghttp2_hd.c\<close>: the ring buffer of entries, the hash map from names
  to entries, insertion with eviction, and the search of the static and the dynamic table.  An
  entry owns its name and value, which the code shares between reference-counted buffers; the chain
  of entries that \<open>next\<close> links in a bucket is a list.  Live entries differ in their sequence number,
  so the comparison of two pointers to live entries is the comparison of the entries.  \<open>None\<close> is a failed
  assertion or a read of a slot that was never written.
\<close>

subsection \<open>Data\<close>

record nghttp2_nv =
  nv_name :: bytes
  nv_value :: bytes
  nv_flags :: u8

record nghttp2_hd_nv =
  hd_name :: bytes
  hd_value :: bytes
  hd_token :: int
  hd_flags :: u8

record nghttp2_hd_entry =
  ent_nv :: nghttp2_hd_nv
  ent_seq :: u32
  ent_hash :: u32

record nghttp2_hd_ringbuf =
  rb_buffer :: "nghttp2_hd_entry option list"
  rb_mask :: u64
  rb_first :: u64
  rb_len :: nat

record nghttp2_hd_context =
  hd_table :: nghttp2_hd_ringbuf
  ctx_mem :: allocator
  hd_table_bufsize :: nat
  hd_table_bufsize_max :: nat
  next_seq :: u32
  bad :: bool

type_synonym nghttp2_hd_map = "nghttp2_hd_entry list list"

datatype nghttp2_hd_indexing_mode =
  NGHTTP2_HD_WITH_INDEXING | NGHTTP2_HD_WITHOUT_INDEXING | NGHTTP2_HD_NEVER_INDEXING

definition NGHTTP2_HD_ENTRY_OVERHEAD :: nat where "NGHTTP2_HD_ENTRY_OVERHEAD = 32"
definition NGHTTP2_STATIC_TABLE_LENGTH :: nat where "NGHTTP2_STATIC_TABLE_LENGTH = 61"
definition NGHTTP2_HD_DEFAULT_MAX_BUFFER_SIZE :: nat where "NGHTTP2_HD_DEFAULT_MAX_BUFFER_SIZE = 4096"
definition HD_MAP_SIZE :: nat where "HD_MAP_SIZE = 128"
definition NGHTTP2_NV_FLAG_NONE :: u8 where "NGHTTP2_NV_FLAG_NONE = 0"
definition NGHTTP2_NV_FLAG_NO_INDEX :: u8 where "NGHTTP2_NV_FLAG_NO_INDEX = 1"

lemmas hd_const_defs [ng_defs] =
  NGHTTP2_HD_ENTRY_OVERHEAD_def NGHTTP2_STATIC_TABLE_LENGTH_def NGHTTP2_HD_DEFAULT_MAX_BUFFER_SIZE_def
  HD_MAP_SIZE_def NGHTTP2_NV_FLAG_NONE_def NGHTTP2_NV_FLAG_NO_INDEX_def

definition nghttp2_hd_entry_init :: "nghttp2_hd_nv \<Rightarrow> nghttp2_hd_entry" where
  "nghttp2_hd_entry_init nv = \<lparr>ent_nv = nv, ent_seq = 0, ent_hash = 0\<rparr>"

definition name_eq :: "nghttp2_hd_nv \<Rightarrow> nghttp2_nv \<Rightarrow> bool" where
  "name_eq a b \<longleftrightarrow> length (hd_name a) = length (nv_name b) \<and> memeq (hd_name a) (nv_name b) (length (nv_name b))"

definition value_eq :: "nghttp2_hd_nv \<Rightarrow> nghttp2_nv \<Rightarrow> bool" where
  "value_eq a b \<longleftrightarrow> length (hd_value a) = length (nv_value b) \<and> memeq (hd_value a) (nv_value b) (length (nv_value b))"

subsection \<open>The hash map\<close>

definition hd_bucket :: "u32 \<Rightarrow> nat" where
  "hd_bucket h = unat (h AND of_nat (HD_MAP_SIZE - 1))"

definition hd_map_init :: nghttp2_hd_map where
  "hd_map_init = replicate HD_MAP_SIZE []"

definition hd_map_insert :: "nghttp2_hd_map \<Rightarrow> nghttp2_hd_entry \<Rightarrow> nghttp2_hd_map" where
  "hd_map_insert m ent = m[hd_bucket (ent_hash ent) := ent # m ! hd_bucket (ent_hash ent)]"

text \<open>The scan of a bucket, with the best entry so far.\<close>

fun hd_map_find_loop ::
  "nghttp2_hd_entry list \<Rightarrow> nghttp2_hd_entry option \<Rightarrow> nghttp2_nv \<Rightarrow> int \<Rightarrow> u32 \<Rightarrow> bool \<Rightarrow> nghttp2_hd_entry option \<times> bool" where
  "hd_map_find_loop [] res nv token hash name_only = (res, False)"
| "hd_map_find_loop (p # ps) res nv token hash name_only =
     (if token \<noteq> hd_token (ent_nv p) \<or> token = -1 \<and> (hash \<noteq> ent_hash p \<or> \<not> name_eq (ent_nv p) nv)
      then hd_map_find_loop ps res nv token hash name_only
      else if res = None \<and> name_only then (Some p, False)
      else if value_eq (ent_nv p) nv then (Some p, True)
      else hd_map_find_loop ps (if res = None then Some p else res) nv token hash name_only)"

definition hd_map_find ::
  "nghttp2_hd_map \<Rightarrow> nghttp2_nv \<Rightarrow> int \<Rightarrow> u32 \<Rightarrow> bool \<Rightarrow> nghttp2_hd_entry option \<times> bool" where
  "hd_map_find m nv token hash name_only = hd_map_find_loop (m ! hd_bucket hash) None nv token hash name_only"

primrec hd_map_remove_loop :: "nghttp2_hd_entry list \<Rightarrow> nghttp2_hd_entry \<Rightarrow> nghttp2_hd_entry list" where
  "hd_map_remove_loop [] ent = []"
| "hd_map_remove_loop (p # ps) ent = (if p \<noteq> ent then p # hd_map_remove_loop ps ent else ps)"

definition hd_map_remove :: "nghttp2_hd_map \<Rightarrow> nghttp2_hd_entry \<Rightarrow> nghttp2_hd_map" where
  "hd_map_remove m ent =
     m[hd_bucket (ent_hash ent) := hd_map_remove_loop (m ! hd_bucket (ent_hash ent)) ent]"

subsection \<open>The ring buffer\<close>

text \<open>\<open>for (size = 1; size < bufsize; size <<= 1)\<close> with \<open>size = 2 ^ e\<close>.\<close>

function rb_size_loop :: "nat \<Rightarrow> nat \<Rightarrow> nat" where
  "rb_size_loop bufsize e = (if 2 ^ e < bufsize then rb_size_loop bufsize (e + 1) else 2 ^ e)"
  by pat_completeness auto
termination
proof (relation "measure (\<lambda>(bufsize, e). bufsize - 2 ^ e)")
  fix bufsize e :: nat
  assume "2 ^ e < bufsize"
  moreover have "(2 :: nat) ^ e < 2 ^ (e + 1)" by simp
  ultimately have "bufsize - 2 ^ (e + 1) < bufsize - (2 :: nat) ^ e" by (intro diff_less_mono2) simp_all
  then show "((bufsize, e + 1), bufsize, e) \<in> measure (\<lambda>(bufsize, e). bufsize - 2 ^ e)" by simp
qed simp

declare rb_size_loop.simps [simp del]

definition hd_ringbuf_init :: "allocator \<Rightarrow> nat \<Rightarrow> rc + nghttp2_hd_ringbuf" where
  "hd_ringbuf_init al bufsize =
     (let size = rb_size_loop bufsize 0
      in if \<not> mem_ok al (8 * size) then Inl NGHTTP2_ERR_NOMEM
         else Inr \<lparr>rb_buffer = replicate size None, rb_mask = of_nat size - 1, rb_first = 0, rb_len = 0\<rparr>)"

definition hd_ringbuf_get :: "nghttp2_hd_ringbuf \<Rightarrow> nat \<Rightarrow> nghttp2_hd_entry option" where
  "hd_ringbuf_get rb idx =
     (if idx < rb_len rb then rb_buffer rb ! unat ((rb_first rb + of_nat idx) AND rb_mask rb) else None)"

definition hd_ringbuf_reserve :: "allocator \<Rightarrow> nghttp2_hd_ringbuf \<Rightarrow> nat \<Rightarrow> rc \<times> nghttp2_hd_ringbuf" where
  "hd_ringbuf_reserve al rb bufsize =
     (if unat (rb_mask rb + 1) \<ge> bufsize then (0, rb)
      else
        let size = rb_size_loop bufsize 0
        in if \<not> mem_ok al (8 * size) then (NGHTTP2_ERR_NOMEM, rb)
           else (0, rb\<lparr>rb_buffer := map (hd_ringbuf_get rb) [0..<rb_len rb] @ replicate (size - rb_len rb) None,
                       rb_mask := of_nat size - 1, rb_first := 0\<rparr>))"

definition hd_ringbuf_push_front ::
  "allocator \<Rightarrow> nghttp2_hd_ringbuf \<Rightarrow> nghttp2_hd_entry \<Rightarrow> rc \<times> nghttp2_hd_ringbuf" where
  "hd_ringbuf_push_front al rb ent =
     (let (rv, rb) = hd_ringbuf_reserve al rb (rb_len rb + 1)
      in if rv \<noteq> 0 then (rv, rb)
         else
           let first = rb_first rb - 1
           in (0, rb\<lparr>rb_first := first,
                     rb_buffer := (rb_buffer rb)[unat (first AND rb_mask rb) := Some ent],
                     rb_len := rb_len rb + 1\<rparr>))"

definition hd_ringbuf_pop_back :: "nghttp2_hd_ringbuf \<Rightarrow> nghttp2_hd_ringbuf option" where
  "hd_ringbuf_pop_back rb = (if rb_len rb > 0 then Some (rb\<lparr>rb_len := rb_len rb - 1\<rparr>) else None)"

subsection \<open>The table\<close>

definition hd_context_init :: "allocator \<Rightarrow> rc + nghttp2_hd_context" where
  "hd_context_init al =
     (case hd_ringbuf_init al (NGHTTP2_HD_DEFAULT_MAX_BUFFER_SIZE div NGHTTP2_HD_ENTRY_OVERHEAD) of
        Inl rv \<Rightarrow> Inl rv
      | Inr rb \<Rightarrow> Inr \<lparr>hd_table = rb, ctx_mem = al, hd_table_bufsize = 0,
                      hd_table_bufsize_max = NGHTTP2_HD_DEFAULT_MAX_BUFFER_SIZE, next_seq = 0, bad = False\<rparr>)"

definition entry_room :: "nat \<Rightarrow> nat \<Rightarrow> nat" where
  "entry_room namelen valuelen = NGHTTP2_HD_ENTRY_OVERHEAD + namelen + valuelen"

text \<open>
  The loop that removes the oldest entry while the table with \<open>room\<close> more bytes is too large;
  \<open>hd_context_shrink_table_size\<close> has the same loop with no extra room.
\<close>

function hd_evict_loop ::
  "nat \<Rightarrow> nghttp2_hd_context \<Rightarrow> nghttp2_hd_map option \<Rightarrow> (nghttp2_hd_context \<times> nghttp2_hd_map option) option" where
  "hd_evict_loop room ctx m =
     (if hd_table_bufsize ctx + room > hd_table_bufsize_max ctx \<and> rb_len (hd_table ctx) > 0 then
        case hd_ringbuf_get (hd_table ctx) (rb_len (hd_table ctx) - 1) of
          None \<Rightarrow> None
        | Some ent \<Rightarrow>
            (case hd_ringbuf_pop_back (hd_table ctx) of
               None \<Rightarrow> None
             | Some rb \<Rightarrow>
                 hd_evict_loop room
                   (ctx\<lparr>hd_table_bufsize := hd_table_bufsize ctx -
                          entry_room (length (hd_name (ent_nv ent))) (length (hd_value (ent_nv ent))),
                        hd_table := rb\<rparr>)
                   (map_option (\<lambda>m. hd_map_remove m ent) m))
      else Some (ctx, m))"
  by pat_completeness auto
termination
  by (relation "measure (\<lambda>(room, ctx, m). rb_len (hd_table ctx))") (auto simp: hd_ringbuf_pop_back_def split: if_splits)

declare hd_evict_loop.simps [simp del]

text \<open>An entry takes 80 bytes.\<close>

definition add_hd_table_incremental ::
  "nghttp2_hd_context \<Rightarrow> nghttp2_hd_nv \<Rightarrow> nghttp2_hd_map option \<Rightarrow> u32 \<Rightarrow>
     (rc \<times> nghttp2_hd_context \<times> nghttp2_hd_map option) option" where
  "add_hd_table_incremental ctx nv m hash =
     (let room = entry_room (length (hd_name nv)) (length (hd_value nv))
      in case hd_evict_loop room ctx m of
           None \<Rightarrow> None
         | Some (ctx, m) \<Rightarrow>
             if room > hd_table_bufsize_max ctx then Some (0, ctx, m)
             else if \<not> mem_ok (ctx_mem ctx) 80 then Some (NGHTTP2_ERR_NOMEM, ctx, m)
             else
               let new_ent = (nghttp2_hd_entry_init nv)\<lparr>ent_seq := next_seq ctx, ent_hash := hash\<rparr>;
                   (rv, rb) = hd_ringbuf_push_front (ctx_mem ctx) (hd_table ctx) new_ent
               in if rv \<noteq> 0 then Some (rv, ctx, m)
                  else Some (0, ctx\<lparr>hd_table := rb, next_seq := next_seq ctx + 1,
                                    hd_table_bufsize := hd_table_bufsize ctx + room\<rparr>,
                             map_option (\<lambda>m. hd_map_insert m new_ent) m))"

definition hd_context_shrink_table_size ::
  "nghttp2_hd_context \<Rightarrow> nghttp2_hd_map option \<Rightarrow> (nghttp2_hd_context \<times> nghttp2_hd_map option) option" where
  "hd_context_shrink_table_size ctx m = hd_evict_loop 0 ctx m"

subsection \<open>Search and access\<close>

type_synonym search_result = "int \<times> bool"

function search_static_loop :: "nghttp2_nv \<Rightarrow> int \<Rightarrow> nat \<Rightarrow> search_result" where
  "search_static_loop nv token i =
     (if int i \<le> NGHTTP2_TOKEN_WWW_AUTHENTICATE \<and> se_token (static_table ! i) = token then
        let ent = static_table ! i
        in if length (se_value ent) = length (nv_value nv) \<and> memeq (se_value ent) (nv_value nv) (length (nv_value nv))
           then (int i, True)
           else search_static_loop nv token (i + 1)
      else (token, False))"
  by pat_completeness auto
termination by (relation "measure (\<lambda>(nv, token, i). 61 - i)") (auto simp: NGHTTP2_TOKEN_WWW_AUTHENTICATE_def)

declare search_static_loop.simps [simp del]

definition search_static_table :: "nghttp2_nv \<Rightarrow> int \<Rightarrow> bool \<Rightarrow> search_result" where
  "search_static_table nv token name_only =
     (if name_only then (token, False) else search_static_loop nv token (nat token))"

text \<open>The hash that \<open>deflate_nv\<close> looks up for a name and its token.\<close>

definition nv_hash :: "int \<Rightarrow> bytes \<Rightarrow> u32" where
  "nv_hash token name =
     (if token = -1 then name_hash name
      else if token \<le> NGHTTP2_TOKEN_WWW_AUTHENTICATE then se_hash (static_table ! nat token)
      else 0)"

definition search_hd_table ::
  "nghttp2_hd_context \<Rightarrow> nghttp2_nv \<Rightarrow> int \<Rightarrow> nghttp2_hd_indexing_mode \<Rightarrow> nghttp2_hd_map \<Rightarrow> u32 \<Rightarrow> search_result" where
  "search_hd_table ctx nv token indexing_mode m hash =
     (let name_only = indexing_mode = NGHTTP2_HD_NEVER_INDEXING;
          (ent, exact_match) = hd_map_find m nv token hash name_only
      in if \<not> exact_match \<and> token \<ge> 0 \<and> token \<le> NGHTTP2_TOKEN_WWW_AUTHENTICATE
         then search_static_table nv token name_only
         else
           case ent of
             None \<Rightarrow> (-1, False)
           | Some ent \<Rightarrow>
               (int (unat (next_seq ctx - 1 - ent_seq ent + of_nat NGHTTP2_STATIC_TABLE_LENGTH)), exact_match))"

definition INDEX_RANGE_VALID :: "nghttp2_hd_context \<Rightarrow> nat \<Rightarrow> bool" where
  "INDEX_RANGE_VALID ctx idx \<longleftrightarrow> idx < rb_len (hd_table ctx) + NGHTTP2_STATIC_TABLE_LENGTH"

definition get_max_index :: "nghttp2_hd_context \<Rightarrow> nat" where
  "get_max_index ctx = rb_len (hd_table ctx) + NGHTTP2_STATIC_TABLE_LENGTH"

definition nghttp2_hd_table_get :: "nghttp2_hd_context \<Rightarrow> nat \<Rightarrow> nghttp2_hd_nv option" where
  "nghttp2_hd_table_get ctx idx =
     (if \<not> INDEX_RANGE_VALID ctx idx then None
      else if idx \<ge> NGHTTP2_STATIC_TABLE_LENGTH
        then map_option ent_nv (hd_ringbuf_get (hd_table ctx) (idx - NGHTTP2_STATIC_TABLE_LENGTH))
        else
          let ent = static_table ! idx
          in Some \<lparr>hd_name = se_name ent, hd_value = se_value ent, hd_token = se_token ent, hd_flags = NGHTTP2_NV_FLAG_NONE\<rparr>)"

text \<open>\<open>nghttp2_hd_table_get2\<close> returns the copy of the pair that \<open>nghttp2_hd_entry_init\<close> keeps.\<close>

definition nghttp2_hd_table_get2 :: "nghttp2_hd_context \<Rightarrow> nat \<Rightarrow> nghttp2_nv option" where
  "nghttp2_hd_table_get2 ctx idx =
     (if \<not> INDEX_RANGE_VALID ctx idx then None
      else if idx \<ge> NGHTTP2_STATIC_TABLE_LENGTH
        then map_option (\<lambda>e. \<lparr>nv_name = hd_name (ent_nv e), nv_value = hd_value (ent_nv e), nv_flags = hd_flags (ent_nv e)\<rparr>)
               (hd_ringbuf_get (hd_table ctx) (idx - NGHTTP2_STATIC_TABLE_LENGTH))
        else
          let ent = static_table ! idx
          in Some \<lparr>nv_name = se_name ent, nv_value = se_value ent, nv_flags = 0\<rparr>)"

definition hd_get_table_entry :: "nghttp2_hd_context \<Rightarrow> nat \<Rightarrow> nghttp2_nv option option" where
  "hd_get_table_entry ctx idx =
     (if idx = 0 then Some None
      else if \<not> INDEX_RANGE_VALID ctx (idx - 1) then Some None
      else map_option Some (nghttp2_hd_table_get2 ctx (idx - 1)))"

subsection \<open>The ring buffer is a list\<close>

definition rb_inv :: "nghttp2_hd_ringbuf \<Rightarrow> bool" where
  "rb_inv rb \<longleftrightarrow> (\<exists>e < 64. length (rb_buffer rb) = 2 ^ e \<and> rb_mask rb = 2 ^ e - 1 \<and> rb_len rb \<le> 2 ^ e \<and>
     (\<forall>i < rb_len rb. rb_buffer rb ! ((unat (rb_first rb) + i) mod 2 ^ e) \<noteq> None))"

definition rb_list :: "nghttp2_hd_ringbuf \<Rightarrow> nghttp2_hd_entry list" where
  "rb_list rb = map (\<lambda>i. the (hd_ringbuf_get rb i)) [0..<rb_len rb]"

lemma length_rb_list [simp]: "length (rb_list rb) = rb_len rb"
  by (simp add: rb_list_def)

lemma rb_pos:
  assumes "e < 64"
  shows "unat ((f + of_nat i) AND (2 ^ e - 1) :: u64) = (unat f + i) mod 2 ^ e"
proof -
  have "unat ((f + of_nat i) AND (2 ^ e - 1)) = unat (f + of_nat i) mod 2 ^ e" by (rule unat_and_mask)
  also have "unat (f + of_nat i) = (unat f + i) mod 2 ^ 64"
    by (simp add: unat_word_ariths unsigned_of_nat take_bit_eq_mod mod_add_right_eq)
  also have "(unat f + i) mod 2 ^ 64 mod 2 ^ e = (unat f + i) mod 2 ^ e"
    using assms by (intro mod_mod_cancel le_imp_power_dvd) simp
  finally show ?thesis .
qed

lemma rb_invD:
  assumes "rb_inv rb"
  obtains e where "e < 64" "length (rb_buffer rb) = 2 ^ e" "rb_mask rb = 2 ^ e - 1" "rb_len rb \<le> 2 ^ e"
    "\<And>i. i < rb_len rb \<Longrightarrow> rb_buffer rb ! ((unat (rb_first rb) + i) mod 2 ^ e) \<noteq> None"
    "\<And>i. i < rb_len rb \<Longrightarrow> hd_ringbuf_get rb i = rb_buffer rb ! ((unat (rb_first rb) + i) mod 2 ^ e)"
  using assms unfolding rb_inv_def by (auto simp: hd_ringbuf_get_def rb_pos)

lemma rb_get: "rb_inv rb \<Longrightarrow> hd_ringbuf_get rb i = (if i < rb_len rb then Some (rb_list rb ! i) else None)"
  by (erule rb_invD) (auto simp: rb_list_def hd_ringbuf_get_def)

lemma rb_size: "bufsize \<le> 2 ^ m \<Longrightarrow> e \<le> m \<Longrightarrow> \<exists>k \<le> m. rb_size_loop bufsize e = 2 ^ k \<and> bufsize \<le> 2 ^ k"
proof (induction bufsize e rule: rb_size_loop.induct)
  case (1 bufsize e)
  show ?case
  proof (cases "2 ^ e < bufsize")
    case True
    then have "(2 :: nat) ^ e < 2 ^ m" using "1.prems" by linarith
    then have "e + 1 \<le> m" by simp
    then show ?thesis using "1.IH" [OF True] "1.prems" True by (simp add: rb_size_loop.simps [of bufsize e])
  next
    case False
    then show ?thesis using "1.prems" by (auto simp: rb_size_loop.simps [of bufsize e])
  qed
qed

lemma of_nat_size: "of_nat (2 ^ k) - 1 = (2 ^ k - 1 :: u64)"
  by simp

lemma rb_init:
  assumes "hd_ringbuf_init al n = Inr rb" "n \<le> 2 ^ 63"
  shows "rb_inv rb \<and> rb_list rb = []"
proof -
  obtain k where "k \<le> 63" "rb_size_loop n 0 = 2 ^ k" using rb_size [OF assms(2), of 0] by auto
  then show ?thesis using assms(1)
    by (auto simp: hd_ringbuf_init_def rb_inv_def rb_list_def Let_def split: if_splits intro!: exI [of _ k])
qed

lemma mask_plus_1: "e < 64 \<Longrightarrow> unat ((2 ^ e - 1) + 1 :: u64) = 2 ^ e"
proof -
  assume e: "e < 64"
  then have "unat (of_nat (2 ^ e) :: u64) = 2 ^ e" by (simp only: unsigned_of_nat) (simp add: take_bit_nat_eq_self)
  then show ?thesis by simp
qed

lemma rb_reserve:
  assumes inv: "rb_inv rb" and n: "n \<le> 2 ^ 62" "rb_len rb \<le> n"
  shows "\<exists>rv rb'. hd_ringbuf_reserve al rb n = (rv, rb') \<and>
    (rv = 0 \<and> rb_inv rb' \<and> rb_list rb' = rb_list rb \<and> rb_len rb' = rb_len rb \<and> n \<le> length (rb_buffer rb') \<or>
     rv = NGHTTP2_ERR_NOMEM \<and> rb' = rb \<and> (\<exists>k. \<not> mem_ok al k))"
  using inv
proof (rule rb_invD)
  fix e assume e: "e < 64" "length (rb_buffer rb) = 2 ^ e" "rb_mask rb = 2 ^ e - 1" "rb_len rb \<le> 2 ^ e"
    "\<And>i. i < rb_len rb \<Longrightarrow> rb_buffer rb ! ((unat (rb_first rb) + i) mod 2 ^ e) \<noteq> None"
    "\<And>i. i < rb_len rb \<Longrightarrow> hd_ringbuf_get rb i = rb_buffer rb ! ((unat (rb_first rb) + i) mod 2 ^ e)"
  have m: "unat (rb_mask rb + 1) = 2 ^ e" using mask_plus_1 [OF e(1)] e(3) by simp
  show ?thesis
  proof (cases "n \<le> 2 ^ e")
    case True
    then show ?thesis using m e(2) inv by (simp add: hd_ringbuf_reserve_def)
  next
    case False
    obtain k where k: "k \<le> 62" "rb_size_loop n 0 = 2 ^ k" "n \<le> 2 ^ k" using rb_size [OF n(1), of 0] by auto
    show ?thesis
    proof (cases "mem_ok al (8 * 2 ^ k)")
      case True
      let ?b = "rb\<lparr>rb_buffer := map (hd_ringbuf_get rb) [0..<rb_len rb] @ replicate (2 ^ k - rb_len rb) None,
                       rb_mask := of_nat (2 ^ k) - 1, rb_first := 0\<rparr>"
      have r: "hd_ringbuf_reserve al rb n = (0, ?b)"
        using False True k(2) m by (simp add: hd_ringbuf_reserve_def Let_def)
      have le: "rb_len rb \<le> 2 ^ k" using n(2) k(3) by simp
      have p: "i mod 2 ^ k = i" if "i < rb_len rb" for i using that le by simp
      have inv': "rb_inv ?b" unfolding rb_inv_def
        using k(1) le e(5,6) by (intro exI [of _ k]) (auto simp: nth_append)
      have g: "hd_ringbuf_get ?b i = hd_ringbuf_get rb i" if i: "i < rb_len rb" for i
      proof -
        have "hd_ringbuf_get ?b i = rb_buffer ?b ! ((unat (0 :: u64) + i) mod 2 ^ k)"
          using i k(1) rb_pos [of k 0 i] by (simp add: hd_ringbuf_get_def)
        then show ?thesis using i p [OF i] by (simp add: nth_append)
      qed
      have "rb_list ?b = rb_list rb" using g by (simp add: rb_list_def)
      then show ?thesis using r inv' k(3) le by simp
    next
      case f: False
      then show ?thesis using False k(2) m by (auto simp: hd_ringbuf_reserve_def Let_def)
    qed
  qed
qed

lemma rb_push_front:
  assumes inv: "rb_inv rb" and n: "rb_len rb < 2 ^ 62"
  shows "\<exists>rv rb'. hd_ringbuf_push_front al rb ent = (rv, rb') \<and>
    (rv = 0 \<and> rb_inv rb' \<and> rb_list rb' = ent # rb_list rb \<or>
     rv = NGHTTP2_ERR_NOMEM \<and> rb' = rb \<and> (\<exists>k. \<not> mem_ok al k))"
proof -
  obtain rv rb1 where r: "hd_ringbuf_reserve al rb (rb_len rb + 1) = (rv, rb1)"
    "rv = 0 \<and> rb_inv rb1 \<and> rb_list rb1 = rb_list rb \<and> rb_len rb1 = rb_len rb \<and> rb_len rb + 1 \<le> length (rb_buffer rb1) \<or>
     rv = NGHTTP2_ERR_NOMEM \<and> rb1 = rb \<and> (\<exists>k. \<not> mem_ok al k)"
    using rb_reserve [OF inv, of "rb_len rb + 1" al] n by auto
  show ?thesis
  proof (cases "rv = 0")
    case False
    then show ?thesis using r by (auto simp: hd_ringbuf_push_front_def)
  next
    case True
    then have r1: "rb_inv rb1" "rb_list rb1 = rb_list rb" "rb_len rb1 = rb_len rb" "rb_len rb + 1 \<le> length (rb_buffer rb1)"
      using r(2) by (auto simp: ng_defs)
    from r1(1) show ?thesis
    proof (rule rb_invD)
      fix e assume e: "e < 64" "length (rb_buffer rb1) = 2 ^ e" "rb_mask rb1 = 2 ^ e - 1" "rb_len rb1 \<le> 2 ^ e"
        "\<And>i. i < rb_len rb1 \<Longrightarrow> rb_buffer rb1 ! ((unat (rb_first rb1) + i) mod 2 ^ e) \<noteq> None"
        "\<And>i. i < rb_len rb1 \<Longrightarrow> hd_ringbuf_get rb1 i = rb_buffer rb1 ! ((unat (rb_first rb1) + i) mod 2 ^ e)"
      define f where "f = rb_first rb1 - 1"
      define p where "p = unat f mod 2 ^ e"
      define b where "b = rb1\<lparr>rb_first := f, rb_buffer := (rb_buffer rb1)[p := Some ent], rb_len := rb_len rb1 + 1\<rparr>"
      have pos: "unat (f AND rb_mask rb1) = p" using rb_pos [OF e(1), of f 0] e(3) by (simp add: p_def)
      have push: "hd_ringbuf_push_front al rb ent = (0, b)"
        using r(1) True pos by (simp add: hd_ringbuf_push_front_def Let_def b_def f_def)
      have next_pos: "(unat f + Suc i) mod 2 ^ e = (unat (rb_first rb1) + i) mod 2 ^ e" for i
      proof -
        have "(unat f + Suc i) mod 2 ^ e = unat ((f + of_nat (Suc i)) AND (2 ^ e - 1))"
          using rb_pos [OF e(1), of f "Suc i"] by simp
        also have "f + of_nat (Suc i) = rb_first rb1 + of_nat i" by (simp add: f_def)
        finally show ?thesis using rb_pos [OF e(1), of "rb_first rb1" i] by simp
      qed
      have diff: "(unat f + Suc i) mod 2 ^ e \<noteq> p" if "i < rb_len rb1" for i
      proof
        assume "(unat f + Suc i) mod 2 ^ e = p"
        then have "2 ^ e dvd Suc i" unfolding p_def by (metis add_diff_cancel_left' mod_eq_dvd_iff_nat le_add1)
        then have "2 ^ e \<le> Suc i" by (rule dvd_imp_le) simp
        then show False using that r1(3,4) e(2) by simp
      qed
      have lt: "p < length (rb_buffer rb1)" using e(2) by (simp add: p_def)
      have g: "hd_ringbuf_get b i = (if i < rb_len b then rb_buffer b ! ((unat f + i) mod 2 ^ e) else None)" for i
        using rb_pos [OF e(1), of f i] e(3) by (simp add: hd_ringbuf_get_def b_def)
      have g0: "hd_ringbuf_get b 0 = Some ent" using g [of 0] lt by (simp add: b_def p_def)
      have gS: "hd_ringbuf_get b (Suc i) = hd_ringbuf_get rb1 i" if "i < rb_len rb1" for i
        using g [of "Suc i"] diff [OF that] that e(6) [OF that] next_pos [of i] by (simp add: b_def)
      have "rb_inv b" unfolding rb_inv_def
      proof (intro exI [of _ e] conjI allI impI)
        fix i assume "i < rb_len b"
        then show "rb_buffer b ! ((unat (rb_first b) + i) mod 2 ^ e) \<noteq> None"
          using g [of i] g0 gS [of "i - 1"] e(5,6) [of "i - 1"] by (cases i) (auto simp: b_def)
      qed (use e r1 in \<open>simp_all add: b_def\<close>)
      moreover have "rb_list b = ent # rb_list rb"
      proof -
        have "rb_list b = map (\<lambda>i. the (hd_ringbuf_get b i)) (0 # map Suc [0..<rb_len rb1])"
          by (simp add: rb_list_def b_def upt_conv_Cons map_Suc_upt del: upt_Suc)
        also have "\<dots> = ent # rb_list rb1" using g0 gS by (simp add: rb_list_def)
        finally show ?thesis using r1(2) by simp
      qed
      ultimately show ?thesis using push by simp
    qed
  qed
qed

lemma rb_pop_back:
  assumes inv: "rb_inv rb" and n: "0 < rb_len rb"
  shows "\<exists>rb'. hd_ringbuf_pop_back rb = Some rb' \<and> rb_inv rb' \<and> rb_list rb' = butlast (rb_list rb) \<and> rb_len rb' = rb_len rb - 1"
proof -
  let ?b = "rb\<lparr>rb_len := rb_len rb - 1\<rparr>"
  have "rb_inv ?b" using inv unfolding rb_inv_def by auto
  moreover have "rb_list ?b = butlast (rb_list rb)"
  proof -
    have "[0..<rb_len rb] = [0..<rb_len rb - 1] @ [rb_len rb - 1]" using n by (cases "rb_len rb") auto
    then have "butlast (rb_list rb) = map (\<lambda>i. the (hd_ringbuf_get rb i)) [0..<rb_len rb - 1]" by (simp add: rb_list_def)
    then show ?thesis by (simp add: rb_list_def hd_ringbuf_get_def)
  qed
  ultimately show ?thesis using n by (simp add: hd_ringbuf_pop_back_def)
qed

subsection \<open>The table as a list with a size limit\<close>

definition ent_room :: "nghttp2_hd_entry \<Rightarrow> nat" where
  "ent_room e = entry_room (length (hd_name (ent_nv e))) (length (hd_value (ent_nv e)))"

definition dyn_size :: "nghttp2_hd_entry list \<Rightarrow> nat" where
  "dyn_size es = sum_list (map ent_room es)"

text \<open>The reference for eviction: the longest prefix, the newest entries, whose size is within a limit.\<close>

primrec fit :: "nat \<Rightarrow> nghttp2_hd_entry list \<Rightarrow> nghttp2_hd_entry list" where
  "fit lim [] = []"
| "fit lim (e # es) = (if ent_room e \<le> lim then e # fit (lim - ent_room e) es else [])"

definition keep :: "nat \<Rightarrow> nat \<Rightarrow> nghttp2_hd_entry list \<Rightarrow> nghttp2_hd_entry list" where
  "keep room lim es = (if room \<le> lim then fit (lim - room) es else [])"

definition ents :: "nghttp2_hd_context \<Rightarrow> nghttp2_hd_entry list" where
  "ents ctx = rb_list (hd_table ctx)"

definition hd_map_of :: "nghttp2_hd_entry list \<Rightarrow> nghttp2_hd_map" where
  "hd_map_of es = map (\<lambda>b. filter (\<lambda>e. hd_bucket (ent_hash e) = b) es) [0..<HD_MAP_SIZE]"

definition ctx_wf :: "nghttp2_hd_context \<Rightarrow> bool" where
  "ctx_wf ctx \<longleftrightarrow> rb_inv (hd_table ctx) \<and> hd_table_bufsize ctx = dyn_size (ents ctx) \<and> dyn_size (ents ctx) < 2 ^ 32 \<and>
     (\<forall>i < length (ents ctx). ent_seq (ents ctx ! i) = next_seq ctx - 1 - of_nat i)"

definition ctx_inv :: "nghttp2_hd_context \<Rightarrow> bool" where
  "ctx_inv ctx \<longleftrightarrow> ctx_wf ctx \<and> hd_table_bufsize ctx \<le> hd_table_bufsize_max ctx \<and> hd_table_bufsize_max ctx < 2 ^ 32"

definition map_ok :: "nghttp2_hd_map option \<Rightarrow> nghttp2_hd_entry list \<Rightarrow> bool" where
  "map_ok m es \<longleftrightarrow> (case m of None \<Rightarrow> True | Some m \<Rightarrow> m = hd_map_of es)"

lemma dyn_size_simps [simp]:
  "dyn_size [] = 0" "dyn_size (e # es) = ent_room e + dyn_size es" "dyn_size (xs @ ys) = dyn_size xs + dyn_size ys"
  by (simp_all add: dyn_size_def)

lemma ent_room_ge: "32 \<le> ent_room e"
  by (simp add: ent_room_def entry_room_def ng_defs)

lemma dyn_size_length: "32 * length es \<le> dyn_size es"
proof (induction es)
  case (Cons e es)
  then show ?case using ent_room_ge [of e] by simp
qed simp

lemma fit_id: "dyn_size es \<le> lim \<Longrightarrow> fit lim es = es"
  by (induction es arbitrary: lim) auto

lemma fit_snoc: "lim < dyn_size (es @ [x]) \<Longrightarrow> fit lim (es @ [x]) = fit lim es"
  by (induction es arbitrary: lim) auto

lemma fit_prefix: "\<exists>ys. es = fit lim es @ ys"
proof (induction es arbitrary: lim)
  case (Cons e es)
  then show ?case by (metis append_Cons append_Nil fit.simps(2))
qed simp

lemma fit_size: "dyn_size (fit lim es) \<le> lim"
proof (induction es arbitrary: lim)
  case (Cons e es)
  have "ent_room e + dyn_size (fit (lim - ent_room e) es) \<le> lim" if "ent_room e \<le> lim"
    using Cons [of "lim - ent_room e"] that by linarith
  then show ?case by simp
qed simp

lemma ents_distinct:
  assumes "ctx_wf ctx"
  shows "distinct (ents ctx)"
proof -
  have len: "length (ents ctx) < 2 ^ 32" using assms dyn_size_length [of "ents ctx"] by (simp add: ctx_wf_def)
  have "i = j" if "i < length (ents ctx)" "j < length (ents ctx)" "ents ctx ! i = ents ctx ! j" for i j
  proof -
    have "next_seq ctx - 1 - of_nat i = next_seq ctx - 1 - of_nat j" using assms that by (metis ctx_wf_def)
    then have "of_nat i = (of_nat j :: u32)" by simp
    then have "unat (of_nat i :: u32) = unat (of_nat j :: u32)" by simp
    moreover have "i < 2 ^ 32" "j < 2 ^ 32" using that len by linarith+
    ultimately show ?thesis by (simp add: unsigned_of_nat take_bit_nat_eq_self)
  qed
  then show ?thesis by (simp add: distinct_conv_nth) blast
qed

subsection \<open>The hash map mirrors the table\<close>

lemma hd_bucket_less: "hd_bucket h < HD_MAP_SIZE"
proof -
  have "hd_bucket h = unat h mod 2 ^ 7" unfolding hd_bucket_def using unat_and_mask [of h 7] by (simp add: ng_defs)
  then show ?thesis by (simp add: ng_defs)
qed

lemma hd_map_of_nth: "b < HD_MAP_SIZE \<Longrightarrow> hd_map_of es ! b = filter (\<lambda>e. hd_bucket (ent_hash e) = b) es"
  by (simp add: hd_map_of_def)

lemma map_upd_upt: "b < n \<Longrightarrow> (map f [0..<n])[b := v] = map (f(b := v)) [0..<n]"
  by (rule nth_equalityI) (auto simp: nth_list_update)

lemma hd_map_insert_of: "hd_map_insert (hd_map_of es) x = hd_map_of (x # es)"
proof -
  let ?b = "hd_bucket (ent_hash x)"
  have "hd_map_insert (hd_map_of es) x = (hd_map_of es)[?b := x # filter (\<lambda>e. hd_bucket (ent_hash e) = ?b) es]"
    by (simp add: hd_map_insert_def hd_map_of_nth hd_bucket_less)
  also have "\<dots> = hd_map_of (x # es)"
    unfolding hd_map_of_def map_upd_upt [OF hd_bucket_less] by auto
  finally show ?thesis .
qed

lemma hd_map_remove_loop_snoc: "x \<notin> set ys \<Longrightarrow> hd_map_remove_loop (ys @ [x]) x = ys"
  by (induction ys) auto

lemma hd_map_remove_of: "x \<notin> set es \<Longrightarrow> hd_map_remove (hd_map_of (es @ [x])) x = hd_map_of es"
proof -
  assume x: "x \<notin> set es"
  let ?b = "hd_bucket (ent_hash x)"
  have "hd_map_remove (hd_map_of (es @ [x])) x = (hd_map_of (es @ [x]))[?b := filter (\<lambda>e. hd_bucket (ent_hash e) = ?b) es]"
    using x by (simp add: hd_map_remove_def hd_map_of_nth hd_bucket_less hd_map_remove_loop_snoc)
  also have "\<dots> = hd_map_of es"
    unfolding hd_map_of_def map_upd_upt [OF hd_bucket_less] by auto
  finally show ?thesis .
qed

lemma hd_map_init_of: "hd_map_init = hd_map_of []"
  by (simp add: hd_map_init_def hd_map_of_def map_replicate_const)

subsection \<open>Eviction and insertion\<close>

lemma evict_spec:
  "ctx_wf ctx \<Longrightarrow> map_ok m (ents ctx) \<Longrightarrow>
     \<exists>rb m'. hd_evict_loop room ctx m =
         Some (ctx\<lparr>hd_table := rb, hd_table_bufsize := dyn_size (rb_list rb)\<rparr>, m') \<and> (m' = None \<longleftrightarrow> m = None) \<and>
       ctx_wf (ctx\<lparr>hd_table := rb, hd_table_bufsize := dyn_size (rb_list rb)\<rparr>) \<and>
       rb_list rb = keep room (hd_table_bufsize_max ctx) (ents ctx) \<and> map_ok m' (rb_list rb)"
proof (induction room ctx m rule: hd_evict_loop.induct)
  case (1 room ctx m)
  let ?es = "ents ctx" and ?mx = "hd_table_bufsize_max ctx"
  have wf: "rb_inv (hd_table ctx)" "hd_table_bufsize ctx = dyn_size ?es" "dyn_size ?es < 2 ^ 32"
    "\<And>i. i < length ?es \<Longrightarrow> ent_seq (?es ! i) = next_seq ctx - 1 - of_nat i"
    using "1.prems"(1) by (auto simp: ctx_wf_def)
  have len: "length ?es = rb_len (hd_table ctx)" by (simp add: ents_def)
  show ?case
  proof (cases "hd_table_bufsize ctx + room > ?mx \<and> rb_len (hd_table ctx) > 0")
    case False
    then have "hd_evict_loop room ctx m = Some (ctx, m)" by (subst hd_evict_loop.simps) auto
    moreover have "ctx\<lparr>hd_table := hd_table ctx, hd_table_bufsize := dyn_size (rb_list (hd_table ctx))\<rparr> = ctx"
      using wf(2) by (simp add: ents_def)
    moreover have "?es = keep room ?mx ?es"
      using False wf(2) len by (auto simp: keep_def intro!: fit_id [symmetric])
    ultimately show ?thesis using "1.prems"
      by (intro exI [of _ "hd_table ctx"] exI [of _ m]) (simp add: ents_def)
  next
    case True
    define x where "x = last ?es"
    have ne: "?es \<noteq> []" using True len by auto
    then have es: "?es = butlast ?es @ [x]" by (simp add: x_def)
    have get: "hd_ringbuf_get (hd_table ctx) (rb_len (hd_table ctx) - 1) = Some x"
      using rb_get [OF wf(1)] True ne len by (simp add: x_def ents_def last_conv_nth)
    obtain rb where pop: "hd_ringbuf_pop_back (hd_table ctx) = Some rb" "rb_inv rb" "rb_list rb = butlast ?es"
      using rb_pop_back [OF wf(1)] True by (auto simp: ents_def)
    define c where "c = ctx\<lparr>hd_table_bufsize := hd_table_bufsize ctx - entry_room (length (hd_name (ent_nv x))) (length (hd_value (ent_nv x))),
        hd_table := rb\<rparr>"
    define m1 where "m1 = map_option (\<lambda>m. hd_map_remove m x) m"
    have sz: "dyn_size ?es = dyn_size (butlast ?es) + ent_room x" using es by (metis dyn_size_simps(1,2,3) add.right_neutral)
    have step: "hd_evict_loop room ctx m = hd_evict_loop room c m1"
      using True get pop(1) by (subst hd_evict_loop.simps) (simp add: c_def m1_def)
    have ec: "ents c = butlast ?es" by (simp add: ents_def c_def pop(3))
    have cwf: "ctx_wf c"
      using pop wf sz ec unfolding ctx_wf_def by (auto simp: c_def ent_room_def nth_butlast)
    have "x \<notin> set (butlast ?es)" using ents_distinct [OF "1.prems"(1)] es by (metis distinct_append disjoint_insert(1) list.simps(15))
    then have mok: "map_ok m1 (ents c)"
      using "1.prems"(2) es hd_map_remove_of [of x "butlast ?es"] ec by (auto simp: map_ok_def m1_def split: option.splits)
    have k: "keep room ?mx (butlast ?es) = keep room ?mx ?es"
    proof (cases "room \<le> ?mx")
      case le: True
      moreover have "dyn_size (butlast ?es @ [x]) = dyn_size (butlast ?es) + ent_room x" by simp
      ultimately have "?mx - room < dyn_size (butlast ?es @ [x])" using True wf(2) sz by linarith
      then show ?thesis using fit_snoc le es unfolding keep_def by metis
    qed (simp add: keep_def)
    obtain rb' m' where "hd_evict_loop room c m1 = Some (c\<lparr>hd_table := rb', hd_table_bufsize := dyn_size (rb_list rb')\<rparr>, m')"
      "m' = None \<longleftrightarrow> m1 = None" "ctx_wf (c\<lparr>hd_table := rb', hd_table_bufsize := dyn_size (rb_list rb')\<rparr>)"
      "rb_list rb' = keep room (hd_table_bufsize_max c) (ents c)" "map_ok m' (rb_list rb')"
      using "1.IH" [OF True get pop(1)] cwf mok unfolding c_def m1_def by blast
    then show ?thesis unfolding step using k ec
      by (intro exI [of _ rb'] exI [of _ m']) (auto simp: c_def m1_def)
  qed
qed

lemma keep_size: "dyn_size (keep room lim es) + room \<le> lim \<or> lim < room \<and> keep room lim es = []"
  using fit_size [of "lim - room" es] by (auto simp: keep_def)

lemma keep_prefix: "\<exists>ys. es = keep room lim es @ ys"
  using fit_prefix by (simp add: keep_def)

definition new_entry :: "nghttp2_hd_context \<Rightarrow> nghttp2_hd_nv \<Rightarrow> u32 \<Rightarrow> nghttp2_hd_entry" where
  "new_entry ctx nv hash = \<lparr>ent_nv = nv, ent_seq = next_seq ctx, ent_hash = hash\<rparr>"

definition nv_room :: "nghttp2_hd_nv \<Rightarrow> nat" where
  "nv_room nv = entry_room (length (hd_name nv)) (length (hd_value nv))"

text \<open>The fields of a context that insertion and eviction leave alone.\<close>

definition same_ctx :: "nghttp2_hd_context \<Rightarrow> nghttp2_hd_context \<Rightarrow> bool" where
  "same_ctx a b \<longleftrightarrow> hd_table_bufsize_max a = hd_table_bufsize_max b \<and> ctx_mem a = ctx_mem b \<and> bad a = bad b"

lemma add_spec:
  assumes inv: "ctx_inv ctx" and mo: "map_ok m (ents ctx)"
  shows "\<exists>rv ctx' m'. add_hd_table_incremental ctx nv m hash = Some (rv, ctx', m') \<and> (m' = None \<longleftrightarrow> m = None) \<and>
    ctx_inv ctx' \<and> map_ok m' (ents ctx') \<and> same_ctx ctx' ctx \<and>
    (rv = 0 \<and> ents ctx' = (if nv_room nv \<le> hd_table_bufsize_max ctx
         then new_entry ctx nv hash # keep (nv_room nv) (hd_table_bufsize_max ctx) (ents ctx) else []) \<or>
     rv = NGHTTP2_ERR_NOMEM \<and> ents ctx' = keep (nv_room nv) (hd_table_bufsize_max ctx) (ents ctx) \<and>
       (\<exists>k. \<not> mem_ok (ctx_mem ctx) k))"
proof -
  let ?room = "nv_room nv" and ?mx = "hd_table_bufsize_max ctx"
  have wf: "ctx_wf ctx" and mx: "?mx < 2 ^ 32" using inv by (simp_all add: ctx_inv_def)
  obtain rb m1 where ev: "hd_evict_loop ?room ctx m = Some (ctx\<lparr>hd_table := rb, hd_table_bufsize := dyn_size (rb_list rb)\<rparr>, m1)"
    "m1 = None \<longleftrightarrow> m = None" "ctx_wf (ctx\<lparr>hd_table := rb, hd_table_bufsize := dyn_size (rb_list rb)\<rparr>)"
    "rb_list rb = keep ?room ?mx (ents ctx)" "map_ok m1 (rb_list rb)"
    using evict_spec [OF wf mo] by blast
  define c where "c = ctx\<lparr>hd_table := rb, hd_table_bufsize := dyn_size (rb_list rb)\<rparr>"
  have c: "ents c = rb_list rb" "hd_table_bufsize_max c = ?mx" "ctx_mem c = ctx_mem ctx" "hd_table c = rb"
    "same_ctx c ctx" "next_seq c = next_seq ctx" by (simp_all add: c_def ents_def same_ctx_def)
  have le: "dyn_size (rb_list rb) \<le> ?mx" using keep_size [of ?room ?mx "ents ctx"] ev(4) by auto
  have cinv: "ctx_inv c" using ev(3) le mx by (simp add: ctx_inv_def c_def)
  show ?thesis
  proof (cases "?room > ?mx")
    case True
    then have "add_hd_table_incremental ctx nv m hash = Some (0, c, m1)"
      using ev(1) c by (simp add: add_hd_table_incremental_def Let_def nv_room_def c_def)
    moreover have "ents c = []" using True ev(4) c(1) by (simp add: keep_def)
    ultimately show ?thesis using True ev(2,4,5) cinv c by auto
  next
    case False
    have sz: "dyn_size (rb_list rb) + ?room \<le> ?mx" using keep_size [of ?room ?mx "ents ctx"] ev(4) False by auto
    have rinv: "rb_inv rb" using ev(3) by (simp add: ctx_wf_def)
    have "rb_len rb < 2 ^ 62" using dyn_size_length [of "rb_list rb"] le mx by simp
    from rb_push_front [OF rinv this, of "ctx_mem ctx" "new_entry ctx nv hash"] obtain rv rb2 where
      push: "hd_ringbuf_push_front (ctx_mem ctx) rb (new_entry ctx nv hash) = (rv, rb2)"
      "rv = 0 \<and> rb_inv rb2 \<and> rb_list rb2 = new_entry ctx nv hash # rb_list rb \<or>
       rv = NGHTTP2_ERR_NOMEM \<and> rb2 = rb \<and> (\<exists>k. \<not> mem_ok (ctx_mem ctx) k)" by blast
    have new: "(nghttp2_hd_entry_init nv)\<lparr>ent_seq := next_seq c, ent_hash := hash\<rparr> = new_entry ctx nv hash"
      by (simp add: nghttp2_hd_entry_init_def new_entry_def c)
    define d where "d = c\<lparr>hd_table := rb2, next_seq := next_seq c + 1, hd_table_bufsize := hd_table_bufsize c + ?room\<rparr>"
    have add: "add_hd_table_incremental ctx nv m hash =
      (if \<not> mem_ok (ctx_mem ctx) 80 then Some (NGHTTP2_ERR_NOMEM, c, m1)
       else if rv \<noteq> 0 then Some (rv, c, m1)
       else Some (0, d, map_option (\<lambda>m. hd_map_insert m (new_entry ctx nv hash)) m1))"
      unfolding add_hd_table_incremental_def Let_def nv_room_def [symmetric] ev(1) c_def [symmetric] d_def
      using False c push(1) new by simp
    show ?thesis
    proof (cases "mem_ok (ctx_mem ctx) 80 \<and> rv = 0")
      case True
      then have p: "rb_inv rb2" "rb_list rb2 = new_entry ctx nv hash # rb_list rb" using push(2) by (auto simp: ng_defs)
      have ed: "ents d = new_entry ctx nv hash # rb_list rb" by (simp add: ents_def d_def p(2))
      have er: "ent_room (new_entry ctx nv hash) = ?room" by (simp add: ent_room_def new_entry_def nv_room_def)
      have sq: "ent_seq (rb_list rb ! i) = next_seq ctx - 1 - of_nat i" if "i < length (rb_list rb)" for i
        using ev(3) that by (simp add: ctx_wf_def ents_def)
      have nd: "next_seq d = next_seq ctx + 1" by (simp add: d_def c(6))
      have "ent_seq (ents d ! i) = next_seq d - 1 - of_nat i" if "i < length (ents d)" for i
        using sq [of "i - 1"] that unfolding ed nd by (cases i) (auto simp: new_entry_def)
      then have "ctx_inv d" using p(1) ed er sz mx unfolding ctx_inv_def ctx_wf_def by (auto simp: d_def c_def)
      moreover have "map_ok (map_option (\<lambda>m. hd_map_insert m (new_entry ctx nv hash)) m1) (ents d)"
        using ev(5) by (auto simp: map_ok_def ed hd_map_insert_of split: option.splits)
      moreover have "same_ctx d ctx" using c(5) by (simp add: same_ctx_def d_def)
      ultimately show ?thesis using add True ev(2,4) ed False by auto
    next
      case f: False
      have "\<exists>k. \<not> mem_ok (ctx_mem ctx) k" using f push(2) by auto
      moreover have "rv = NGHTTP2_ERR_NOMEM" if "rv \<noteq> 0" using push(2) that by auto
      ultimately show ?thesis using add f ev(2,4,5) cinv c by auto
    qed
  qed
qed

lemma shrink_spec:
  assumes "ctx_wf ctx" "map_ok m (ents ctx)" "hd_table_bufsize_max ctx < 2 ^ 32"
  shows "\<exists>ctx' m'. hd_context_shrink_table_size ctx m = Some (ctx', m') \<and> (m' = None \<longleftrightarrow> m = None) \<and> ctx_inv ctx' \<and>
    map_ok m' (ents ctx') \<and> ents ctx' = fit (hd_table_bufsize_max ctx) (ents ctx) \<and> same_ctx ctx' ctx \<and> next_seq ctx' = next_seq ctx"
proof -
  obtain rb m1 where ev: "hd_evict_loop 0 ctx m = Some (ctx\<lparr>hd_table := rb, hd_table_bufsize := dyn_size (rb_list rb)\<rparr>, m1)"
    "m1 = None \<longleftrightarrow> m = None" "ctx_wf (ctx\<lparr>hd_table := rb, hd_table_bufsize := dyn_size (rb_list rb)\<rparr>)"
    "rb_list rb = keep 0 (hd_table_bufsize_max ctx) (ents ctx)" "map_ok m1 (rb_list rb)"
    using evict_spec [OF assms(1,2)] by blast
  then show ?thesis using assms(3) fit_size [of "hd_table_bufsize_max ctx" "ents ctx"]
    by (auto simp: hd_context_shrink_table_size_def ctx_inv_def ents_def same_ctx_def keep_def)
qed

subsection \<open>Search\<close>

text \<open>The entries a deflater makes: their token and hash are those of their name.\<close>

definition ent_ok :: "nghttp2_hd_entry \<Rightarrow> bool" where
  "ent_ok e \<longleftrightarrow> hd_token (ent_nv e) = lookup_token (hd_name (ent_nv e)) \<and>
     ent_hash e = nv_hash (hd_token (ent_nv e)) (hd_name (ent_nv e))"

lemma memeq_eq: "length a = length b \<Longrightarrow> memeq a b (length b) \<longleftrightarrow> a = b"
  by (simp add: memeq_def)

lemma memeq_iff: "length a = length b \<and> memeq a b (length b) \<longleftrightarrow> a = b"
  by (auto simp: memeq_def)

lemma name_eq_iff: "name_eq a b \<longleftrightarrow> hd_name a = nv_name b"
  by (auto simp: name_eq_def memeq_eq)

lemma value_eq_iff: "value_eq a b \<longleftrightarrow> hd_value a = nv_value b"
  by (auto simp: value_eq_def memeq_eq)

lemma match_iff:
  assumes "ent_ok p" "token = lookup_token (nv_name nv)" "hash = nv_hash token (nv_name nv)"
  shows "(token \<noteq> hd_token (ent_nv p) \<or> token = -1 \<and> (hash \<noteq> ent_hash p \<or> \<not> name_eq (ent_nv p) nv)) \<longleftrightarrow>
    hd_name (ent_nv p) \<noteq> nv_name nv"
proof (cases "token = -1")
  case True
  then show ?thesis using assms by (auto simp: ent_ok_def name_eq_iff)
next
  case False
  then show ?thesis using assms lookup_token_inj unfolding ent_ok_def by metis
qed

definition first_of :: "'a list \<Rightarrow> 'a option" where
  "first_of xs = (case xs of [] \<Rightarrow> None | x # _ \<Rightarrow> Some x)"

lemma first_of_simps [simp]: "first_of [] = None" "first_of (x # xs) = Some x"
  by (simp_all add: first_of_def)

text \<open>The reference for the lookup: the first entry with the pair, or else the first with the name.\<close>

definition find_ref :: "nghttp2_hd_entry list \<Rightarrow> nghttp2_nv \<Rightarrow> bool \<Rightarrow> nghttp2_hd_entry option \<times> bool" where
  "find_ref es nv name_only =
     (let qs = filter (\<lambda>e. hd_name (ent_nv e) = nv_name nv) es
      in if name_only then (first_of qs, False)
         else case first_of (filter (\<lambda>e. hd_value (ent_nv e) = nv_value nv) qs) of
                Some e \<Rightarrow> (Some e, True) | None \<Rightarrow> (first_of qs, False))"

lemma find_loop_some:
  assumes "token = lookup_token (nv_name nv)" "hash = nv_hash token (nv_name nv)"
  shows "list_all ent_ok ps \<Longrightarrow> hd_map_find_loop ps (Some r) nv token hash name_only =
    (case first_of (filter (\<lambda>e. hd_value (ent_nv e) = nv_value nv) (filter (\<lambda>e. hd_name (ent_nv e) = nv_name nv) ps)) of
       Some e \<Rightarrow> (Some e, True) | None \<Rightarrow> (Some r, False))"
proof (induction ps)
  case (Cons p ps)
  then show ?case using match_iff [OF _ assms, of p] by (simp add: value_eq_iff)
qed simp

lemma find_loop_ref:
  assumes "token = lookup_token (nv_name nv)" "hash = nv_hash token (nv_name nv)"
  shows "list_all ent_ok ps \<Longrightarrow> hd_map_find_loop ps None nv token hash name_only = find_ref ps nv name_only"
proof (induction ps)
  case (Cons p ps)
  show ?case
  proof (cases "hd_name (ent_nv p) = nv_name nv")
    case False
    then have "find_ref (p # ps) nv name_only = find_ref ps nv name_only" by (simp add: find_ref_def)
    then show ?thesis using Cons match_iff [OF _ assms, of p] False by simp
  next
    case True
    have "ent_ok p" using Cons.prems by simp
    then have c: "(token \<noteq> hd_token (ent_nv p) \<or> token = -1 \<and> (hash \<noteq> ent_hash p \<or> \<not> name_eq (ent_nv p) nv)) = False"
      using match_iff [OF _ assms, of p] True by simp
    have "hd_map_find_loop (p # ps) None nv token hash name_only =
        (if name_only then (Some p, False) else if hd_value (ent_nv p) = nv_value nv then (Some p, True)
         else hd_map_find_loop ps (Some p) nv token hash name_only)"
      unfolding hd_map_find_loop.simps c value_eq_iff by simp
    then show ?thesis using Cons.prems True find_loop_some [OF assms, of ps p name_only]
      by (cases name_only) (auto simp: find_ref_def Let_def simp del: hd_map_find_loop.simps split: option.split)
  qed
qed (simp add: find_ref_def)

lemma hd_map_find_ref:
  assumes "token = lookup_token (nv_name nv)" "hash = nv_hash token (nv_name nv)" "list_all ent_ok es"
  shows "hd_map_find (hd_map_of es) nv token hash name_only = find_ref es nv name_only"
proof -
  let ?bs = "filter (\<lambda>e. hd_bucket (ent_hash e) = hd_bucket hash) es"
  have "filter (\<lambda>e. hd_name (ent_nv e) = nv_name nv) ?bs = filter (\<lambda>e. hd_name (ent_nv e) = nv_name nv) es"
    unfolding filter_filter using assms by (intro filter_cong) (auto simp: list_all_iff ent_ok_def)
  then have "find_ref ?bs nv name_only = find_ref es nv name_only" by (simp add: find_ref_def)
  moreover have "list_all ent_ok ?bs" using assms(3) by (auto simp: list_all_iff)
  ultimately show ?thesis
    using find_loop_ref [OF assms(1,2), of ?bs name_only] by (simp add: hd_map_find_def hd_map_of_nth hd_bucket_less)
qed

lemma first_of_Some: "first_of xs = Some x \<Longrightarrow> x \<in> set xs"
  by (auto simp: first_of_def split: list.splits)

lemma first_of_None: "first_of xs = None \<longleftrightarrow> xs = []"
  by (auto simp: first_of_def split: list.splits)

lemma first_of_ex: "(\<exists>y. first_of xs = Some y) \<longleftrightarrow> xs \<noteq> []"
  by (auto simp: first_of_def split: list.splits)

lemma find_ref_sound:
  assumes "find_ref es nv name_only = (Some e, match)"
  shows "e \<in> set es \<and> hd_name (ent_nv e) = nv_name nv \<and> (match \<longrightarrow> hd_value (ent_nv e) = nv_value nv \<and> \<not> name_only)"
  using assms by (auto simp: find_ref_def Let_def split: if_splits option.splits dest!: first_of_Some)

lemma find_ref_complete:
  assumes "find_ref es nv name_only = (r, match)"
  shows "(e \<in> set es \<and> hd_name (ent_nv e) = nv_name nv \<longrightarrow> r \<noteq> None) \<and>
    (e \<in> set es \<and> hd_name (ent_nv e) = nv_name nv \<and> hd_value (ent_nv e) = nv_value nv \<and> \<not> name_only \<longrightarrow> match) \<and>
    (r = None \<longrightarrow> \<not> match)"
proof -
  let ?qs = "filter (\<lambda>e. hd_name (ent_nv e) = nv_name nv) es"
  let ?vs = "filter (\<lambda>e. hd_value (ent_nv e) = nv_value nv) ?qs"
  consider "name_only" "r = first_of ?qs" "\<not> match" | "\<not> name_only" "?vs = []" "r = first_of ?qs" "\<not> match"
    | x where "\<not> name_only" "r = Some x" "match"
    using assms by (cases ?vs) (auto simp: find_ref_def Let_def split: if_splits)
  then show ?thesis
    by cases (auto simp: first_of_None filter_empty_conv simp del: not_None_eq)
qed

lemma seq_index:
  assumes inv: "ctx_inv ctx" and e: "e \<in> set (ents ctx)"
  obtains i where "i < length (ents ctx)" "ents ctx ! i = e"
    "unat (next_seq ctx - 1 - ent_seq e + of_nat NGHTTP2_STATIC_TABLE_LENGTH) = i + 61"
proof -
  obtain i where i: "i < length (ents ctx)" "ents ctx ! i = e" using e by (auto simp: in_set_conv_nth)
  have "next_seq ctx - 1 - ent_seq e = of_nat i" using inv i by (auto simp: ctx_inv_def ctx_wf_def)
  moreover have "i + 61 < 2 ^ 32" using i(1) inv dyn_size_length [of "ents ctx"] by (simp add: ctx_inv_def ctx_wf_def)
  then have "unat (of_nat (i + 61) :: u32) = i + 61" by (simp only: unsigned_of_nat) (simp add: take_bit_nat_eq_self)
  ultimately show ?thesis using i that by (simp add: ng_defs)
qed

lemma static_sorted: "i \<le> j \<Longrightarrow> j < 61 \<Longrightarrow> se_token (static_table ! i) \<le> se_token (static_table ! j)"
proof -
  assume ij: "i \<le> j" "j < 61"
  have "sorted (map se_token static_table)" by (simp add: static_table_def MAKE_STATIC_ENT_def)
  then show ?thesis using sorted_nth_mono [of "map se_token static_table" i j] ij by (simp add: length_static_table)
qed

lemma static_tokens_le: "i < 61 \<Longrightarrow> nat (se_token (static_table ! i)) < 61"
  using static_entry(3) by fastforce

lemma static_loop_sound:
  "search_static_loop nv token i = (idx, match) \<Longrightarrow>
     \<not> match \<and> idx = token \<or>
     match \<and> (\<exists>j < 61. idx = int j \<and> se_token (static_table ! j) = token \<and> se_value (static_table ! j) = nv_value nv)"
proof (induction nv token i rule: search_static_loop.induct)
  case (1 nv token i)
  show ?case
  proof (cases "int i \<le> NGHTTP2_TOKEN_WWW_AUTHENTICATE \<and> se_token (static_table ! i) = token")
    case False
    then show ?thesis using "1.prems" by (auto simp: search_static_loop.simps [of nv token i])
  next
    case True
    then show ?thesis using "1.prems" "1.IH" [OF True refl]
      by (cases "se_value (static_table ! i) = nv_value nv")
        (auto simp: search_static_loop.simps [of nv token i] Let_def memeq_iff ng_defs)
  qed
qed

lemma static_loop_complete:
  "search_static_loop nv token i = (idx, match) \<Longrightarrow> i \<le> j \<Longrightarrow> j < 61 \<Longrightarrow>
     (\<forall>k. i \<le> k \<and> k \<le> j \<longrightarrow> se_token (static_table ! k) = token) \<Longrightarrow> se_value (static_table ! j) = nv_value nv \<Longrightarrow> match"
proof (induction nv token i rule: search_static_loop.induct)
  case (1 nv token i)
  have c: "int i \<le> NGHTTP2_TOKEN_WWW_AUTHENTICATE \<and> se_token (static_table ! i) = token"
    using "1.prems"(2-4) by (auto simp: ng_defs)
  show ?case
  proof (cases "se_value (static_table ! i) = nv_value nv")
    case True
    then show ?thesis using "1.prems"(1) c by (auto simp: search_static_loop.simps [of nv token i] Let_def memeq_iff)
  next
    case False
    then have "i \<noteq> j" using "1.prems"(5) by auto
    moreover have "search_static_loop nv token (i + 1) = (idx, match)"
      using "1.prems"(1) c False by (auto simp: search_static_loop.simps [of nv token i] Let_def memeq_iff split: if_splits)
    moreover have "\<not> (length (se_value (static_table ! i)) = length (nv_value nv) \<and>
        memeq (se_value (static_table ! i)) (nv_value nv) (length (nv_value nv)))" using False by (auto simp: memeq_iff)
    ultimately show ?thesis using "1.IH" [OF c refl] "1.prems"(2-5) by simp
  qed
qed

text \<open>The static entries with a given name are the run that starts at the token.\<close>

lemma static_run:
  assumes "i < 61" "se_name (static_table ! i) = n" "lookup_token n = t" "nat t \<le> k" "k \<le> i"
  shows "se_token (static_table ! k) = t"
proof -
  have t: "se_token (static_table ! i) = t" using static_entry(1) [OF assms(1)] assms(2,3) by simp
  have "lookup_token (se_name (static_table ! nat t)) = lookup_token n"
    using static_token_name [OF assms(1)] t assms(2) by simp
  then have "se_token (static_table ! nat t) = t"
    using static_entry(1) [OF static_tokens_le [OF assms(1)]] t assms(3) by simp
  then show ?thesis using static_sorted [of "nat t" k] static_sorted [of k i] assms(1,4,5) t by simp
qed

lemma token_static:
  assumes "lookup_token n = t" "0 \<le> t" "t \<le> 60"
  shows "se_name (static_table ! nat t) = n"
proof -
  have "list_all (\<lambda>(n, t). t \<le> 60 \<longrightarrow> se_name (static_table ! nat t) = n) token_names"
    by (simp add: token_names_def names_defs token_defs static_table_def MAKE_STATIC_ENT_def)
  moreover have "(n, t) \<in> set token_names" using assms lookup_token_iff [of n t] by simp
  ultimately show ?thesis using assms(3) by (auto simp: list_all_iff)
qed

text \<open>The name and value at an index of the combined table.\<close>

definition pair_at :: "nghttp2_hd_context \<Rightarrow> nat \<Rightarrow> (bytes \<times> bytes) option" where
  "pair_at ctx i = map_option (\<lambda>h. (hd_name h, hd_value h)) (nghttp2_hd_table_get ctx i)"

lemma pair_at_eq:
  assumes "rb_inv (hd_table ctx)"
  shows "pair_at ctx i = (if i < 61 then Some (se_name (static_table ! i), se_value (static_table ! i))
    else if i < 61 + length (ents ctx) then Some (hd_name (ent_nv (ents ctx ! (i - 61))), hd_value (ent_nv (ents ctx ! (i - 61))))
    else None)"
proof -
  have "NGHTTP2_STATIC_TABLE_LENGTH = 61" by (simp add: ng_defs)
  moreover have "rb_len (hd_table ctx) = length (ents ctx)" by (simp add: ents_def)
  ultimately show ?thesis
    unfolding pair_at_def nghttp2_hd_table_get_def INDEX_RANGE_VALID_def Let_def using rb_get [OF assms, of "i - 61"]
    by (auto simp: ents_def)
qed

lemma search_spec:
  assumes inv: "ctx_inv ctx" and ok: "list_all ent_ok (ents ctx)"
    and t: "token = lookup_token (nv_name nv)" and h: "hash = nv_hash token (nv_name nv)"
    and s: "search_hd_table ctx nv token mode (hd_map_of (ents ctx)) hash = (idx, match)"
  shows "(idx = -1 \<longrightarrow> \<not> match \<and> (\<forall>i v. pair_at ctx i \<noteq> Some (nv_name nv, v))) \<and>
    (idx \<noteq> -1 \<longrightarrow> 0 \<le> idx \<and> (\<exists>v. pair_at ctx (nat idx) = Some (nv_name nv, v) \<and> (match \<longrightarrow> v = nv_value nv))) \<and>
    (match \<longleftrightarrow> mode \<noteq> NGHTTP2_HD_NEVER_INDEXING \<and> (\<exists>i. pair_at ctx i = Some (nv_name nv, nv_value nv)))"
proof -
  let ?no = "mode = NGHTTP2_HD_NEVER_INDEXING" and ?es = "ents ctx"
  have rb: "rb_inv (hd_table ctx)" using inv by (simp add: ctx_inv_def ctx_wf_def)
  note pa = pair_at_eq [OF rb]
  obtain r exact where f: "find_ref ?es nv ?no = (r, exact)" by (rule prod.exhaust)
  have find: "hd_map_find (hd_map_of ?es) nv token hash ?no = (r, exact)"
    using hd_map_find_ref [OF t h ok] f by simp
  have tneg: "token = -1 \<or> 0 \<le> token" using t lookup_token_iff [of "nv_name nv" token] token_names_nonneg by blast
  have tle: "lookup_token (se_name (static_table ! i)) \<le> 60 \<and> 0 \<le> lookup_token (se_name (static_table ! i))" if "i < 61" for i
    using static_entry(1-3) [OF that] that by auto
  show ?thesis
  proof (cases "\<not> exact \<and> 0 \<le> token \<and> token \<le> NGHTTP2_TOKEN_WWW_AUTHENTICATE")
    case True
    then have st: "search_static_table nv token ?no = (idx, match)" using s find by (simp add: search_hd_table_def Let_def)
    have tok: "nat token < 61" "token \<noteq> -1" "0 \<le> token" "token \<le> 60" using True by (auto simp: ng_defs)
    have nm: "se_name (static_table ! nat token) = nv_name nv" using token_static [OF t [symmetric] tok(3,4)] .
    have dyn: "\<not> (\<exists>e \<in> set ?es. hd_name (ent_nv e) = nv_name nv \<and> hd_value (ent_nv e) = nv_value nv)" if "\<not> ?no"
      using find_ref_complete [OF f] True that by blast
    show ?thesis
    proof (cases ?no)
      case no: True
      then show ?thesis using st tok nm pa [of "nat token"] by (auto simp: search_static_table_def)
    next
      case no: False
      then have l: "search_static_loop nv token (nat token) = (idx, match)" using st by (simp add: search_static_table_def)
      have "match" if p: "pair_at ctx i = Some (nv_name nv, nv_value nv)" for i
      proof (cases "i < 61")
        case i: True
        then have e: "se_name (static_table ! i) = nv_name nv" "se_value (static_table ! i) = nv_value nv" using p pa [of i] by auto
        have "nat token \<le> i" using static_entry(1,3) [OF i] e(1) t by simp
        then show ?thesis using static_loop_complete [OF l _ i _ e(2)] static_run [OF i e(1) t [symmetric]] by blast
      next
        case i: False
        then have "i - 61 < length ?es" using p pa [of i] by (auto split: if_splits)
        then show ?thesis using i p pa [of i] dyn [OF no] by (auto split: if_splits)
      qed
      moreover have "idx \<noteq> -1 \<and> 0 \<le> idx \<and> (\<exists>v. pair_at ctx (nat idx) = Some (nv_name nv, v) \<and> (match \<longrightarrow> v = nv_value nv))"
        using static_loop_sound [OF l]
      proof
        assume "\<not> match \<and> idx = token"
        then show ?thesis using tok nm pa [of "nat token"] by auto
      next
        assume "match \<and> (\<exists>j < 61. idx = int j \<and> se_token (static_table ! j) = token \<and> se_value (static_table ! j) = nv_value nv)"
        then obtain j where j: "j < 61" "idx = int j" "se_token (static_table ! j) = token" "se_value (static_table ! j) = nv_value nv"
          by blast
        have "se_name (static_table ! j) = nv_name nv"
          using static_entry(1) [OF j(1)] j(3) t tok(2) by (intro lookup_token_inj) auto
        then show ?thesis using j pa [of j] by auto
      qed
      ultimately show ?thesis using no by auto
    qed
  next
    case False
    have nostat: "lookup_token (se_name (static_table ! i)) \<noteq> token" if "i < 61" "\<not> exact" for i
      using tle [OF that(1)] False that(2) by (auto simp: ng_defs)
    have stat: "\<not> (i < 61 \<and> \<not> exact \<and> pair_at ctx i = Some (nv_name nv, v))" for i v
      using nostat [of i] pa [of i] t by auto
    have dyne: "\<exists>e \<in> set ?es. hd_name (ent_nv e) = nv_name nv \<and> hd_value (ent_nv e) = v"
      if "pair_at ctx i = Some (nv_name nv, v)" "\<not> i < 61" for i v
      using that pa [of i] by (auto split: if_splits)
    show ?thesis
    proof (cases r)
      case None
      then have e: "\<not> exact" using find_ref_complete [OF f] by blast
      then have im: "idx = -1" "\<not> match" using s find None False by (auto simp: search_hd_table_def Let_def)
      have "pair_at ctx i \<noteq> Some (nv_name nv, v)" for i v
        using stat [of i v] e dyne [of i v] find_ref_complete [OF f] None by blast
      then show ?thesis using im by auto
    next
      case (Some e)
      note fs = find_ref_sound [OF f [unfolded Some]]
      obtain k where k: "k < length ?es" "?es ! k = e"
        "unat (next_seq ctx - 1 - ent_seq e + of_nat NGHTTP2_STATIC_TABLE_LENGTH) = k + 61"
        using seq_index [OF inv, of e] fs by blast
      have im: "idx = int (k + 61)" "match = exact" using s find Some False k(3) by (auto simp: search_hd_table_def Let_def)
      have "nat idx = k + 61" using im(1) by simp
      then have p: "pair_at ctx (nat idx) = Some (nv_name nv, hd_value (ent_nv e))" using pa [of "k + 61"] k fs by auto
      have "exact" if "\<not> ?no" "pair_at ctx i = Some (nv_name nv, nv_value nv)" for i
        using that stat [of i "nv_value nv"] dyne [of i "nv_value nv"] find_ref_complete [OF f] by blast
      then show ?thesis using im p fs by auto
    qed
  qed
qed

lemma context_init:
  assumes "hd_context_init al = Inr ctx"
  shows "ctx_inv ctx \<and> ents ctx = [] \<and> hd_table_bufsize_max ctx = 4096 \<and> ctx_mem ctx = al \<and> \<not> bad ctx"
proof -
  obtain rb where rb: "hd_ringbuf_init al (NGHTTP2_HD_DEFAULT_MAX_BUFFER_SIZE div NGHTTP2_HD_ENTRY_OVERHEAD) = Inr rb"
    "ctx = \<lparr>hd_table = rb, ctx_mem = al, hd_table_bufsize = 0,
      hd_table_bufsize_max = NGHTTP2_HD_DEFAULT_MAX_BUFFER_SIZE, next_seq = 0, bad = False\<rparr>"
    using assms by (auto simp: hd_context_init_def split: sum.splits)
  have "rb_inv rb \<and> rb_list rb = []" using rb_init [OF rb(1)] by (simp add: ng_defs)
  then show ?thesis using rb(2) by (simp add: ctx_inv_def ctx_wf_def ents_def ng_defs)
qed

lemma context_init_ok: "(\<And>n. mem_ok al n) \<Longrightarrow> \<exists>ctx. hd_context_init al = Inr ctx"
  by (simp add: hd_context_init_def hd_ringbuf_init_def Let_def)

subsection \<open>Properties\<close>

text \<open>
  C21.  Insertion refines the dynamic table of RFC 7541: the table keeps its newest entries whose
  size leaves room for the new one, which becomes the first, or is emptied when the new entry alone
  exceeds the limit.  The accounted size is exact and within the limit, the hash map mirrors the
  table, no assertion fails, and a failed allocation leaves a consistent table.
\<close>

theorem hd_table_insert_refines:
  assumes "ctx_inv ctx" "map_ok m (ents ctx)"
  shows "\<exists>rv ctx' m'. add_hd_table_incremental ctx nv m hash = Some (rv, ctx', m') \<and>
    ctx_inv ctx' \<and> map_ok m' (ents ctx') \<and> hd_table_bufsize ctx' = dyn_size (ents ctx') \<and>
    hd_table_bufsize ctx' \<le> hd_table_bufsize_max ctx \<and>
    (rv = 0 \<and> ents ctx' = (if nv_room nv \<le> hd_table_bufsize_max ctx
         then new_entry ctx nv hash # keep (nv_room nv) (hd_table_bufsize_max ctx) (ents ctx) else []) \<or>
     rv = NGHTTP2_ERR_NOMEM \<and> ents ctx' = keep (nv_room nv) (hd_table_bufsize_max ctx) (ents ctx) \<and>
       (\<exists>k. \<not> mem_ok (ctx_mem ctx) k))"
proof -
  obtain rv ctx' m' where r: "add_hd_table_incremental ctx nv m hash = Some (rv, ctx', m')" "ctx_inv ctx'" "map_ok m' (ents ctx')"
    "same_ctx ctx' ctx" "rv = 0 \<and> ents ctx' = (if nv_room nv \<le> hd_table_bufsize_max ctx
         then new_entry ctx nv hash # keep (nv_room nv) (hd_table_bufsize_max ctx) (ents ctx) else []) \<or>
     rv = NGHTTP2_ERR_NOMEM \<and> ents ctx' = keep (nv_room nv) (hd_table_bufsize_max ctx) (ents ctx) \<and>
       (\<exists>k. \<not> mem_ok (ctx_mem ctx) k)"
    using add_spec [OF assms, of nv hash] by (elim exE conjE) (rule that)
  have "hd_table_bufsize ctx' = dyn_size (ents ctx')" using r(2) by (simp add: ctx_inv_def ctx_wf_def)
  moreover have "hd_table_bufsize ctx' \<le> hd_table_bufsize_max ctx" using r(2,4) by (simp add: ctx_inv_def same_ctx_def)
  ultimately show ?thesis using r(1-3,5) by (intro exI conjI)
qed

theorem hd_table_insert_refines_witness:
  "\<exists>ctx rv ctx' m'. hd_context_init \<lparr>mem_ok = \<lambda>_. True, mem_fill = \<lambda>_. 0\<rparr> = Inr ctx \<and>
     add_hd_table_incremental ctx \<lparr>hd_name = [120], hd_value = [49], hd_token = -1, hd_flags = 0\<rparr> (Some hd_map_init) 7 =
       Some (rv, ctx', m') \<and> rv = 0 \<and> hd_table_bufsize ctx' = 34"
proof -
  let ?al = "\<lparr>mem_ok = \<lambda>_. True, mem_fill = \<lambda>_. 0\<rparr>"
  obtain ctx where c: "hd_context_init ?al = Inr ctx" using context_init_ok [of ?al] by auto
  note i = context_init [OF c]
  have "map_ok (Some hd_map_init) (ents ctx)" using i by (simp add: map_ok_def hd_map_init_of)
  from hd_table_insert_refines [OF _ this, of "\<lparr>hd_name = [120], hd_value = [49], hd_token = -1, hd_flags = 0\<rparr>" 7] i c
  show ?thesis
    by (auto simp: nv_room_def entry_room_def ng_defs new_entry_def ent_room_def keep_def)
qed

text \<open>
  C22.  The search is exact.  The hash map and the run of the static table give an index of the
  combined table that has the name, with the value if the match flag is set; the flag is set exactly when some entry
  has both (and the field may be indexed), and there is no index exactly when no entry has the name.
\<close>

theorem hd_search_exact:
  assumes "ctx_inv ctx" "list_all ent_ok (ents ctx)"
    "search_hd_table ctx nv (lookup_token (nv_name nv)) mode (hd_map_of (ents ctx))
       (nv_hash (lookup_token (nv_name nv)) (nv_name nv)) = (idx, match)"
  shows "(idx = -1 \<longrightarrow> \<not> match \<and> (\<forall>i v. pair_at ctx i \<noteq> Some (nv_name nv, v))) \<and>
    (idx \<noteq> -1 \<longrightarrow> 0 \<le> idx \<and> (\<exists>v. pair_at ctx (nat idx) = Some (nv_name nv, v) \<and> (match \<longrightarrow> v = nv_value nv))) \<and>
    (match \<longleftrightarrow> mode \<noteq> NGHTTP2_HD_NEVER_INDEXING \<and> (\<exists>i. pair_at ctx i = Some (nv_name nv, nv_value nv)))"
  using search_spec [OF assms(1,2) refl refl assms(3)] .

theorem hd_search_exact_witness:
  "\<exists>ctx idx. hd_context_init \<lparr>mem_ok = \<lambda>_. True, mem_fill = \<lambda>_. 0\<rparr> = Inr ctx \<and>
     search_hd_table ctx \<lparr>nv_name = ascii '':method'', nv_value = ascii ''POST'', nv_flags = 0\<rparr>
       (lookup_token (ascii '':method'')) NGHTTP2_HD_WITH_INDEXING hd_map_init
       (nv_hash (lookup_token (ascii '':method'')) (ascii '':method'')) = (idx, True) \<and> idx \<noteq> -1"
proof -
  let ?al = "\<lparr>mem_ok = \<lambda>_. True, mem_fill = \<lambda>_. 0\<rparr>"
  let ?nv = "\<lparr>nv_name = ascii '':method'', nv_value = ascii ''POST'', nv_flags = 0\<rparr>"
  obtain ctx where c: "hd_context_init ?al = Inr ctx" using context_init_ok [of ?al] by auto
  note i = context_init [OF c]
  have rb: "rb_inv (hd_table ctx)" using i by (simp add: ctx_inv_def ctx_wf_def)
  have p: "pair_at ctx 2 = Some (nv_name ?nv, nv_value ?nv)"
    unfolding pair_at_eq [OF rb] by (simp add: static_table_def MAKE_STATIC_ENT_def)
  obtain idx match where s: "search_hd_table ctx ?nv (lookup_token (nv_name ?nv)) NGHTTP2_HD_WITH_INDEXING (hd_map_of (ents ctx))
      (nv_hash (lookup_token (nv_name ?nv)) (nv_name ?nv)) = (idx, match)" by (rule prod.exhaust)
  have "list_all ent_ok (ents ctx)" using i by simp
  from hd_search_exact [OF _ this s] i p have "match" "idx \<noteq> -1" by auto
  then show ?thesis using s c i hd_map_init_of by auto
qed

end
