(* ===== verification/Hd_Deflate.thy ===== *)
theory Hd_Deflate
  imports Hd_Table Hd_Integer Hd_Huffman
begin

text \<open>
  The HPACK deflater of \<open>nghttp2_hd.c\<close>: the emission of integers, strings and field
  representations, the choice of a representation for a field, and the compression of a header
  block into a buffer chain, with the table size updates that precede it.
\<close>

subsection \<open>Data\<close>

record nghttp2_hd_deflater =
  dfl_ctx :: nghttp2_hd_context
  dfl_map :: nghttp2_hd_map
  deflate_hd_table_bufsize_max :: nat
  min_hd_table_bufsize_max :: nat
  notify_table_size_change :: bool

definition NGHTTP2_HD_DEFAULT_MAX_DEFLATE_BUFFER_SIZE :: nat where
  "NGHTTP2_HD_DEFAULT_MAX_DEFLATE_BUFFER_SIZE = push_bit 12 1"

definition nghttp2_hd_deflate_init2 :: "allocator \<Rightarrow> nat \<Rightarrow> rc + nghttp2_hd_deflater" where
  "nghttp2_hd_deflate_init2 al max_size =
     (case hd_context_init al of
        Inl rv \<Rightarrow> Inl rv
      | Inr ctx \<Rightarrow>
          Inr \<lparr>dfl_ctx = (if max_size < NGHTTP2_HD_DEFAULT_MAX_BUFFER_SIZE then ctx\<lparr>hd_table_bufsize_max := max_size\<rparr> else ctx),
               dfl_map = hd_map_init,
               deflate_hd_table_bufsize_max = max_size, min_hd_table_bufsize_max = UINT32_MAX,
               notify_table_size_change = (max_size < NGHTTP2_HD_DEFAULT_MAX_BUFFER_SIZE)\<rparr>)"

definition nghttp2_hd_deflate_init :: "allocator \<Rightarrow> rc + nghttp2_hd_deflater" where
  "nghttp2_hd_deflate_init al = nghttp2_hd_deflate_init2 al NGHTTP2_HD_DEFAULT_MAX_DEFLATE_BUFFER_SIZE"

subsection \<open>Emission\<close>

text \<open>
  The block that the emission functions share: an integer behind the bits of \<open>b\<close>, encoded in an
  array of 16 bytes whose other bytes are not initialised, and appended to the chain.
\<close>

definition emit_integer :: "nghttp2_bufs \<Rightarrow> u8 \<Rightarrow> nat \<Rightarrow> nat \<Rightarrow> (rc \<times> nghttp2_bufs) option" where
  "emit_integer bufs b n prefix =
     (let blocklen = count_encoded_length n prefix
      in if 16 < blocklen then Some (NGHTTP2_ERR_HEADER_COMP, bufs)
         else do { (_, sb) \<leftarrow> encode_length (b # replicate 15 0) n prefix;
                   nghttp2_bufs_add bufs (take blocklen sb) })"

definition emit_table_size :: "nghttp2_bufs \<Rightarrow> nat \<Rightarrow> (rc \<times> nghttp2_bufs) option" where
  "emit_table_size bufs table_size = emit_integer bufs 0x20 table_size 5"

definition emit_indexed_block :: "nghttp2_bufs \<Rightarrow> nat \<Rightarrow> (rc \<times> nghttp2_bufs) option" where
  "emit_indexed_block bufs idx = emit_integer bufs 0x80 (idx + 1) 7"

definition emit_string :: "nghttp2_bufs \<Rightarrow> bytes \<Rightarrow> (rc \<times> nghttp2_bufs) option" where
  "emit_string bufs str =
     (let enclen = nghttp2_hd_huff_encode_count str;
          huffman = enclen < length str;
          enclen = (if huffman then enclen else length str)
      in do { (rv, bufs) \<leftarrow> emit_integer bufs (if huffman then push_bit 7 1 else 0) enclen 7;
              if rv \<noteq> 0 then Some (rv, bufs)
              else if huffman then nghttp2_hd_huff_encode bufs str
              else nghttp2_bufs_add bufs str })"

fun pack_first_byte :: "nghttp2_hd_indexing_mode \<Rightarrow> u8" where
  "pack_first_byte NGHTTP2_HD_WITH_INDEXING = 0x40"
| "pack_first_byte NGHTTP2_HD_WITHOUT_INDEXING = 0"
| "pack_first_byte NGHTTP2_HD_NEVER_INDEXING = 0x10"

definition emit_indname_block ::
  "nghttp2_bufs \<Rightarrow> nat \<Rightarrow> nghttp2_nv \<Rightarrow> nghttp2_hd_indexing_mode \<Rightarrow> (rc \<times> nghttp2_bufs) option" where
  "emit_indname_block bufs idx nv indexing_mode =
     (let prefixlen = (if indexing_mode = NGHTTP2_HD_WITH_INDEXING then 6 else 4)
      in do { (rv, bufs) \<leftarrow> emit_integer bufs (pack_first_byte indexing_mode) (idx + 1) prefixlen;
              if rv \<noteq> 0 then Some (rv, bufs) else emit_string bufs (nv_value nv) })"

definition emit_newname_block ::
  "nghttp2_bufs \<Rightarrow> nghttp2_nv \<Rightarrow> nghttp2_hd_indexing_mode \<Rightarrow> (rc \<times> nghttp2_bufs) option" where
  "emit_newname_block bufs nv indexing_mode =
     do { (rv, bufs) \<leftarrow> nghttp2_bufs_addb bufs (pack_first_byte indexing_mode);
          if rv \<noteq> 0 then Some (rv, bufs)
          else do { (rv, bufs) \<leftarrow> emit_string bufs (nv_name nv);
               if rv \<noteq> 0 then Some (rv, bufs) else emit_string bufs (nv_value nv) } }"

subsection \<open>Compression of a field\<close>

definition hd_deflate_decide_indexing :: "nghttp2_hd_deflater \<Rightarrow> nghttp2_nv \<Rightarrow> int \<Rightarrow> nghttp2_hd_indexing_mode" where
  "hd_deflate_decide_indexing deflater nv token =
     (if token = NGHTTP2_TOKEN__PATH \<or> token = NGHTTP2_TOKEN_AGE \<or> token = NGHTTP2_TOKEN_CONTENT_LENGTH \<or>
         token = NGHTTP2_TOKEN_ETAG \<or> token = NGHTTP2_TOKEN_IF_MODIFIED_SINCE \<or> token = NGHTTP2_TOKEN_IF_NONE_MATCH \<or>
         token = NGHTTP2_TOKEN_LOCATION \<or> token = NGHTTP2_TOKEN_SET_COOKIE \<or>
         entry_room (length (nv_name nv)) (length (nv_value nv)) > hd_table_bufsize_max (dfl_ctx deflater) * 3 div 4
      then NGHTTP2_HD_WITHOUT_INDEXING else NGHTTP2_HD_WITH_INDEXING)"

text \<open>A reference-counted buffer takes 40 bytes and its contents with a terminator.\<close>

definition nghttp2_rcbuf_new2_ok :: "allocator \<Rightarrow> bytes \<Rightarrow> bool" where
  "nghttp2_rcbuf_new2_ok al src \<longleftrightarrow> mem_ok al (40 + (length src + 1))"

text \<open>The part of \<open>deflate_nv\<close> that adds the field to the table.\<close>

definition deflate_add ::
  "nghttp2_hd_deflater \<Rightarrow> nghttp2_nv \<Rightarrow> int \<Rightarrow> u32 \<Rightarrow> int \<Rightarrow> (rc \<times> nghttp2_hd_deflater) option" where
  "deflate_add deflater nv token hash idx =
     (let al = ctx_mem (dfl_ctx deflater)
      in do { name \<leftarrow> (if idx \<noteq> -1 then map_option (Some \<circ> hd_name) (nghttp2_hd_table_get (dfl_ctx deflater) (nat idx))
                      else Some (if nghttp2_rcbuf_new2_ok al (nv_name nv) then Some (nv_name nv) else None));
              case name of
                None \<Rightarrow> Some (NGHTTP2_ERR_NOMEM, deflater)
              | Some name \<Rightarrow>
                  if \<not> nghttp2_rcbuf_new2_ok al (nv_value nv) then Some (NGHTTP2_ERR_NOMEM, deflater)
                  else
                    do { (rv, ctx, m) \<leftarrow> add_hd_table_incremental (dfl_ctx deflater)
                           \<lparr>hd_name = name, hd_value = nv_value nv, hd_token = token, hd_flags = NGHTTP2_NV_FLAG_NONE\<rparr>
                           (Some (dfl_map deflater)) hash;
                         Some (if rv \<noteq> 0 then NGHTTP2_ERR_HEADER_COMP else 0,
                               deflater\<lparr>dfl_ctx := ctx, dfl_map := the m\<rparr>) } })"

definition deflate_nv ::
  "nghttp2_hd_deflater \<Rightarrow> nghttp2_bufs \<Rightarrow> nghttp2_nv \<Rightarrow> (rc \<times> nghttp2_hd_deflater \<times> nghttp2_bufs) option" where
  "deflate_nv deflater bufs nv =
     (let token = lookup_token (nv_name nv);
          hash = nv_hash token (nv_name nv);
          indexing_mode =
            (if token = NGHTTP2_TOKEN_AUTHORIZATION \<or> token = NGHTTP2_TOKEN_COOKIE \<and> length (nv_value nv) < 20 \<or>
                nv_flags nv AND NGHTTP2_NV_FLAG_NO_INDEX \<noteq> 0
             then NGHTTP2_HD_NEVER_INDEXING else hd_deflate_decide_indexing deflater nv token);
          (idx, name_value_match) = search_hd_table (dfl_ctx deflater) nv token indexing_mode (dfl_map deflater) hash
      in if name_value_match then
           do { (rv, bufs) \<leftarrow> emit_indexed_block bufs (nat idx); Some (rv, deflater, bufs) }
         else
           do { (rv, deflater) \<leftarrow> (if indexing_mode = NGHTTP2_HD_WITH_INDEXING
                                  then deflate_add deflater nv token hash idx else Some (0, deflater));
                if rv \<noteq> 0 then Some (rv, deflater, bufs)
                else
                  do { (rv, bufs) \<leftarrow> (if idx = -1 then emit_newname_block bufs nv indexing_mode
                                    else emit_indname_block bufs (nat idx) nv indexing_mode);
                       Some (rv, deflater, bufs) } })"

subsection \<open>Compression of a block\<close>

fun deflate_nvs ::
  "nghttp2_hd_deflater \<Rightarrow> nghttp2_bufs \<Rightarrow> nghttp2_nv list \<Rightarrow> (rc \<times> nghttp2_hd_deflater \<times> nghttp2_bufs) option" where
  "deflate_nvs deflater bufs [] = Some (0, deflater, bufs)"
| "deflate_nvs deflater bufs (nv # nva) =
     do { (rv, deflater, bufs) \<leftarrow> deflate_nv deflater bufs nv;
          if rv \<noteq> 0 then Some (rv, deflater, bufs) else deflate_nvs deflater bufs nva }"

text \<open>The table size updates that a change of the limit calls for.\<close>

definition deflate_table_size ::
  "nghttp2_hd_deflater \<Rightarrow> nghttp2_bufs \<Rightarrow> (rc \<times> nghttp2_hd_deflater \<times> nghttp2_bufs) option" where
  "deflate_table_size deflater bufs =
     (if notify_table_size_change deflater then
        let min_size = min_hd_table_bufsize_max deflater;
            deflater = deflater\<lparr>notify_table_size_change := False, min_hd_table_bufsize_max := UINT32_MAX\<rparr>
        in do { (rv, bufs) \<leftarrow> (if hd_table_bufsize_max (dfl_ctx deflater) > min_size
                             then emit_table_size bufs min_size else Some (0, bufs));
                if rv \<noteq> 0 then Some (rv, deflater, bufs)
                else do { (rv, bufs) \<leftarrow> emit_table_size bufs (hd_table_bufsize_max (dfl_ctx deflater));
                          Some (rv, deflater, bufs) } }
      else Some (0, deflater, bufs))"

definition nghttp2_hd_deflate_hd_bufs ::
  "nghttp2_hd_deflater \<Rightarrow> nghttp2_bufs \<Rightarrow> nghttp2_nv list \<Rightarrow> (rc \<times> nghttp2_hd_deflater \<times> nghttp2_bufs) option" where
  "nghttp2_hd_deflate_hd_bufs deflater bufs nva =
     (if bad (dfl_ctx deflater) then Some (NGHTTP2_ERR_HEADER_COMP, deflater, bufs)
      else
        do { (rv, deflater, bufs) \<leftarrow> deflate_table_size deflater bufs;
             (rv, deflater, bufs) \<leftarrow> (if rv \<noteq> 0 then Some (rv, deflater, bufs) else deflate_nvs deflater bufs nva);
             if rv \<noteq> 0 then Some (rv, deflater\<lparr>dfl_ctx := (dfl_ctx deflater)\<lparr>bad := True\<rparr>\<rparr>, bufs)
             else Some (0, deflater, bufs) })"

text \<open>The return value and the bytes written to the array of the caller.\<close>

definition deflate_result :: "rc \<Rightarrow> nghttp2_bufs \<Rightarrow> int" where
  "deflate_result rv bufs =
     (if rv = NGHTTP2_ERR_BUFFER_ERROR then NGHTTP2_ERR_INSUFF_BUFSIZE
      else if rv \<noteq> 0 then rv else int (nghttp2_bufs_len bufs))"

definition nghttp2_hd_deflate_hd2 ::
  "nghttp2_hd_deflater \<Rightarrow> bytes \<Rightarrow> nghttp2_nv list \<Rightarrow> (int \<times> nghttp2_hd_deflater \<times> bytes) option" where
  "nghttp2_hd_deflate_hd2 deflater buf nva =
     (case nghttp2_bufs_wrap_init (ctx_mem (dfl_ctx deflater)) buf of
        Inl rv \<Rightarrow> Some (rv, deflater, buf)
      | Inr bufs \<Rightarrow>
          do { (rv, deflater, bufs) \<leftarrow> nghttp2_hd_deflate_hd_bufs deflater bufs nva;
               Some (deflate_result rv bufs, deflater, concat (map buf_mem (chain bufs))) })"

definition nghttp2_hd_deflate_hd_vec2 ::
  "nghttp2_hd_deflater \<Rightarrow> bytes list \<Rightarrow> nghttp2_nv list \<Rightarrow> (int \<times> nghttp2_hd_deflater \<times> bytes list) option" where
  "nghttp2_hd_deflate_hd_vec2 deflater vec nva =
     (case nghttp2_bufs_wrap_init2 (ctx_mem (dfl_ctx deflater)) vec of
        Inl rv \<Rightarrow> Some (rv, deflater, vec)
      | Inr bufs \<Rightarrow>
          do { (rv, deflater, bufs) \<leftarrow> nghttp2_hd_deflate_hd_bufs deflater bufs nva;
               Some (deflate_result rv bufs, deflater, map buf_mem (chain bufs)) })"

definition nghttp2_hd_deflate_bound :: "nghttp2_nv list \<Rightarrow> nat" where
  "nghttp2_hd_deflate_bound nva =
     12 + 6 * 2 * length nva + sum_list (map (\<lambda>nv. length (nv_name nv) + length (nv_value nv)) nva)"

definition nghttp2_hd_deflate_change_table_size ::
  "nghttp2_hd_deflater \<Rightarrow> nat \<Rightarrow> nghttp2_hd_deflater option" where
  "nghttp2_hd_deflate_change_table_size deflater settings_max =
     (let next_bufsize = min settings_max (deflate_hd_table_bufsize_max deflater);
          deflater = deflater\<lparr>dfl_ctx := (dfl_ctx deflater)\<lparr>hd_table_bufsize_max := next_bufsize\<rparr>,
                              min_hd_table_bufsize_max := min (min_hd_table_bufsize_max deflater) next_bufsize,
                              notify_table_size_change := True\<rparr>
      in do { (ctx, m) \<leftarrow> hd_context_shrink_table_size (dfl_ctx deflater) (Some (dfl_map deflater));
              Some (deflater\<lparr>dfl_ctx := ctx, dfl_map := the m\<rparr>) })"

definition nghttp2_hd_deflate_get_num_table_entries :: "nghttp2_hd_deflater \<Rightarrow> nat" where
  "nghttp2_hd_deflate_get_num_table_entries deflater = get_max_index (dfl_ctx deflater)"

definition nghttp2_hd_deflate_get_table_entry :: "nghttp2_hd_deflater \<Rightarrow> nat \<Rightarrow> nghttp2_nv option option" where
  "nghttp2_hd_deflate_get_table_entry deflater idx = hd_get_table_entry (dfl_ctx deflater) idx"

definition nghttp2_hd_deflate_get_dynamic_table_size :: "nghttp2_hd_deflater \<Rightarrow> nat" where
  "nghttp2_hd_deflate_get_dynamic_table_size deflater = hd_table_bufsize (dfl_ctx deflater)"

definition nghttp2_hd_deflate_get_max_dynamic_table_size :: "nghttp2_hd_deflater \<Rightarrow> nat" where
  "nghttp2_hd_deflate_get_max_dynamic_table_size deflater = hd_table_bufsize_max (dfl_ctx deflater)"

subsection \<open>What is written\<close>

lemma res_bind:
  assumes "sink.res bufs p r" "\<And>b. bufs_inv b \<Longrightarrow> sink.res b q (f b)"
  shows "sink.res bufs (p @ q) (do { (rv, b) \<leftarrow> r; if rv \<noteq> 0 then Some (rv, b) else f b })"
proof -
  obtain rv b where r: "r = Some (rv, b)" "sink.res bufs p (Some (rv, b))" "bufs_inv b" using assms(1) by (rule sink.res_cases)
  show ?thesis
  proof (cases "rv = 0")
    case True
    then show ?thesis using r sink.res_ok [OF _ assms(2) [OF r(3)]] by simp
  next
    case False
    then show ?thesis using r(1) sink.res_fail [OF r(2) False] by simp
  qed
qed

lemma tail7_length: "n < 128 ^ Suc k \<Longrightarrow> length (tail7 n) \<le> Suc k"
proof (induction k arbitrary: n)
  case 0
  then show ?case by (simp add: tail7.simps)
next
  case (Suc k)
  have "n div 128 < 128 ^ Suc k" using Suc.prems by (simp add: less_mult_imp_div_less)
  then show ?case using Suc.IH [of "n div 128"] by (subst tail7.simps) simp
qed

lemma int_bytes_length: "n < 128 ^ Suc k \<Longrightarrow> length (int_bytes b n p) \<le> Suc (Suc k)"
proof -
  assume "n < 128 ^ Suc k"
  then have "length (tail7 (n - (2 ^ p - 1))) \<le> Suc k" by (intro tail7_length) linarith
  then show ?thesis by (simp add: int_bytes_first)
qed

lemma emit_integer_res:
  assumes "bufs_inv bufs" "n < 2 ^ 64"
  shows "sink.res bufs (int_bytes b n p) (emit_integer bufs b n p)"
proof -
  let ?e = "int_bytes b n p"
  have "n < 128 ^ Suc 9" using assms(2) by simp
  then have len: "length ?e \<le> 11" using int_bytes_length [of n 9 b p] by simp
  have c: "count_encoded_length n p = length ?e" by (rule count_encoded_length_eq)
  have "encode_length (b # replicate 15 0) n p = Some (length ?e, ?e @ drop (length ?e) (b # replicate 15 0))"
    using encode_length_eq [of "b # replicate 15 0" n p] len by simp
  then have "emit_integer bufs b n p = nghttp2_bufs_add bufs ?e"
    using len by (simp add: emit_integer_def c Let_def)
  then show ?thesis using sink.wr_put [of ?e] assms(1) by (simp add: sink.wr_def)
qed

definition str_bytes :: "bytes \<Rightarrow> bytes" where
  "str_bytes s = (if length (pack (codes s)) < length s then int_bytes 0x80 (length (pack (codes s))) 7 @ pack (codes s)
     else int_bytes 0 (length s) 7 @ s)"

lemma emit_string_res:
  assumes "bufs_inv bufs" "length s < 2 ^ 64"
  shows "sink.res bufs (str_bytes s) (emit_string bufs s)"
proof (cases "length (pack (codes s)) < length s")
  case True
  have e: "emit_string bufs s = do { (rv, b) \<leftarrow> emit_integer bufs 0x80 (length (pack (codes s))) 7;
      if rv \<noteq> 0 then Some (rv, b) else nghttp2_hd_huff_encode b s }"
    unfolding emit_string_def Let_def encode_count using True by (simp only: if_True) simp
  show ?thesis unfolding e str_bytes_def using True assms
    by (simp only: if_True, intro res_bind emit_integer_res huff_encode_res) simp_all
next
  case False
  have e: "emit_string bufs s = do { (rv, b) \<leftarrow> emit_integer bufs 0 (length s) 7;
      if rv \<noteq> 0 then Some (rv, b) else nghttp2_bufs_add b s }"
    unfolding emit_string_def Let_def encode_count using False by (simp only: if_False)
  have "sink.res b s (nghttp2_bufs_add b s)" if "bufs_inv b" for b
    using sink.wr_put [of s] that by (simp add: sink.wr_def)
  then show ?thesis unfolding e str_bytes_def using False assms
    by (simp only: if_False, intro res_bind emit_integer_res) simp_all
qed

text \<open>The representations of RFC 7541, section 6.\<close>

datatype hd_rep =
  Indexed nat
| Ind_Name nghttp2_hd_indexing_mode nat bytes
| New_Name nghttp2_hd_indexing_mode bytes bytes

fun rep_bytes :: "hd_rep \<Rightarrow> bytes" where
  "rep_bytes (Indexed i) = int_bytes 0x80 (i + 1) 7"
| "rep_bytes (Ind_Name m i v) =
     int_bytes (pack_first_byte m) (i + 1) (if m = NGHTTP2_HD_WITH_INDEXING then 6 else 4) @ str_bytes v"
| "rep_bytes (New_Name m n v) = pack_first_byte m # str_bytes n @ str_bytes v"

lemma emit_indexed_res:
  "bufs_inv bufs \<Longrightarrow> i + 1 < 2 ^ 64 \<Longrightarrow> sink.res bufs (rep_bytes (Indexed i)) (emit_indexed_block bufs i)"
  by (simp add: emit_indexed_block_def emit_integer_res)

lemma emit_indname_res:
  assumes "bufs_inv bufs" "i + 1 < 2 ^ 64" "length (nv_value nv) < 2 ^ 64"
  shows "sink.res bufs (rep_bytes (Ind_Name m i (nv_value nv))) (emit_indname_block bufs i nv m)"
  unfolding emit_indname_block_def Let_def rep_bytes.simps
  using assms by (intro res_bind emit_integer_res emit_string_res)

lemma emit_newname_res:
  assumes "bufs_inv bufs" "length (nv_name nv) < 2 ^ 64" "length (nv_value nv) < 2 ^ 64"
  shows "sink.res bufs (rep_bytes (New_Name m (nv_name nv) (nv_value nv))) (emit_newname_block bufs nv m)"
proof -
  have "sink.res bufs ([pack_first_byte m] @ str_bytes (nv_name nv) @ str_bytes (nv_value nv)) (emit_newname_block bufs nv m)"
    unfolding emit_newname_block_def using assms by (intro res_bind addb_res emit_string_res)
  then show ?thesis by simp
qed

subsection \<open>The meaning of a representation\<close>

text \<open>
  The table seen by the peer: a limit and a list of pairs, newest first.  Looking up an index,
  adding a pair with eviction, and what a representation denotes and does to the table.
\<close>

type_synonym pairs = "(bytes \<times> bytes) list"

definition pair_room :: "bytes \<times> bytes \<Rightarrow> nat" where
  "pair_room p = entry_room (length (fst p)) (length (snd p))"

primrec pfit :: "nat \<Rightarrow> pairs \<Rightarrow> pairs" where
  "pfit lim [] = []"
| "pfit lim (p # ps) = (if pair_room p \<le> lim then p # pfit (lim - pair_room p) ps else [])"

definition padd :: "nat \<Rightarrow> bytes \<times> bytes \<Rightarrow> pairs \<Rightarrow> pairs" where
  "padd mx p ps = (if pair_room p \<le> mx then p # pfit (mx - pair_room p) ps else [])"

definition plook :: "pairs \<Rightarrow> nat \<Rightarrow> (bytes \<times> bytes) option" where
  "plook ps i = (if i < 61 then Some (se_name (static_table ! i), se_value (static_table ! i))
     else if i - 61 < length ps then Some (ps ! (i - 61)) else None)"

fun rep_sem :: "nat \<Rightarrow> pairs \<Rightarrow> hd_rep \<Rightarrow> ((bytes \<times> bytes) \<times> pairs) option" where
  "rep_sem mx ps (Indexed i) = map_option (\<lambda>p. (p, ps)) (plook ps i)"
| "rep_sem mx ps (Ind_Name m i v) =
     map_option (\<lambda>p. ((fst p, v), if m = NGHTTP2_HD_WITH_INDEXING then padd mx (fst p, v) ps else ps)) (plook ps i)"
| "rep_sem mx ps (New_Name m n v) = Some ((n, v), if m = NGHTTP2_HD_WITH_INDEXING then padd mx (n, v) ps else ps)"

definition ent_pair :: "nghttp2_hd_entry \<Rightarrow> bytes \<times> bytes" where
  "ent_pair e = (hd_name (ent_nv e), hd_value (ent_nv e))"

definition prs :: "nghttp2_hd_context \<Rightarrow> pairs" where
  "prs ctx = map ent_pair (ents ctx)"

lemma ent_room_pair: "ent_room e = pair_room (ent_pair e)"
  by (simp add: ent_room_def pair_room_def ent_pair_def)

lemma pfit_map: "map ent_pair (fit lim es) = pfit lim (map ent_pair es)"
  by (induction es arbitrary: lim) (simp_all add: ent_room_pair)

lemma prs_add:
  assumes "ents ctx' = (if nv_room nv \<le> mx then new_entry ctx nv h # keep (nv_room nv) mx (ents ctx) else [])"
  shows "prs ctx' = padd mx (hd_name nv, hd_value nv) (prs ctx)"
  using assms by (simp add: prs_def padd_def keep_def pair_room_def nv_room_def pfit_map ent_pair_def new_entry_def)

lemma pair_at_plook:
  assumes "ctx_inv ctx"
  shows "pair_at ctx i = plook (prs ctx) i"
proof -
  have "rb_inv (hd_table ctx)" using assms by (simp add: ctx_inv_def ctx_wf_def)
  then show ?thesis by (auto simp: pair_at_eq plook_def prs_def ent_pair_def)
qed

subsection \<open>Compression of a field is faithful\<close>

definition dfl_inv :: "nghttp2_hd_deflater \<Rightarrow> bool" where
  "dfl_inv d \<longleftrightarrow> ctx_inv (dfl_ctx d) \<and> list_all ent_ok (ents (dfl_ctx d)) \<and> dfl_map d = hd_map_of (ents (dfl_ctx d))"

definition dfl_same :: "nghttp2_hd_deflater \<Rightarrow> nghttp2_hd_deflater \<Rightarrow> bool" where
  "dfl_same a b \<longleftrightarrow> same_ctx (dfl_ctx a) (dfl_ctx b) \<and>
     deflate_hd_table_bufsize_max a = deflate_hd_table_bufsize_max b \<and>
     min_hd_table_bufsize_max a = min_hd_table_bufsize_max b \<and> notify_table_size_change a = notify_table_size_change b"

lemma dfl_same_refl [simp]: "dfl_same d d"
  by (simp add: dfl_same_def same_ctx_def)

lemma dfl_same_trans: "dfl_same a b \<Longrightarrow> dfl_same b c \<Longrightarrow> dfl_same a c"
  by (auto simp: dfl_same_def same_ctx_def)

fun rep_never :: "hd_rep \<Rightarrow> bool" where
  "rep_never (Indexed i) \<longleftrightarrow> False"
| "rep_never (Ind_Name m i v) \<longleftrightarrow> m = NGHTTP2_HD_NEVER_INDEXING"
| "rep_never (New_Name m n v) \<longleftrightarrow> m = NGHTTP2_HD_NEVER_INDEXING"

definition nv_small :: "nghttp2_nv \<Rightarrow> bool" where
  "nv_small nv \<longleftrightarrow> length (nv_name nv) < 2 ^ 64 \<and> length (nv_value nv) < 2 ^ 64"

definition dfl_mem_ok :: "nghttp2_hd_deflater \<Rightarrow> bool" where
  "dfl_mem_ok d \<longleftrightarrow> (\<forall>k. mem_ok (ctx_mem (dfl_ctx d)) k)"

lemma keep_ent_ok: "list_all P es \<Longrightarrow> list_all P (keep room lim es)"
  using keep_prefix [of es room lim] by (metis list_all_append)

lemma deflate_add_spec:
  assumes inv: "dfl_inv d" and idx: "idx \<noteq> -1 \<longrightarrow> (\<exists>v. pair_at (dfl_ctx d) (nat idx) = Some (nv_name nv, v))"
  shows "\<exists>rv d'. deflate_add d nv (lookup_token (nv_name nv)) (nv_hash (lookup_token (nv_name nv)) (nv_name nv)) idx = Some (rv, d') \<and> dfl_inv d' \<and> dfl_same d' d \<and>
    (rv = 0 \<longrightarrow> prs (dfl_ctx d') = padd (hd_table_bufsize_max (dfl_ctx d)) (nv_name nv, nv_value nv) (prs (dfl_ctx d))) \<and>
    (dfl_mem_ok d \<longrightarrow> rv = 0)"
proof -
  let ?c = "dfl_ctx d" and ?al = "ctx_mem (dfl_ctx d)"
  let ?t = "lookup_token (nv_name nv)"
  let ?h = "nv_hash ?t (nv_name nv)"
  let ?nv = "\<lparr>hd_name = nv_name nv, hd_value = nv_value nv, hd_token = ?t, hd_flags = NGHTTP2_NV_FLAG_NONE\<rparr>"
  have c: "ctx_inv ?c" "list_all ent_ok (ents ?c)" "dfl_map d = hd_map_of (ents ?c)" using inv by (simp_all add: dfl_inv_def)
  have n: "map_option (Some \<circ> hd_name) (nghttp2_hd_table_get ?c (nat idx)) = Some (Some (nv_name nv))" if "idx \<noteq> -1"
    using idx that by (auto simp: pair_at_def)
  let ?ok = "(idx \<noteq> -1 \<or> nghttp2_rcbuf_new2_ok ?al (nv_name nv)) \<and> nghttp2_rcbuf_new2_ok ?al (nv_value nv)"
  have e: "deflate_add d nv (lookup_token (nv_name nv)) (nv_hash (lookup_token (nv_name nv)) (nv_name nv)) idx =
    (if \<not> ?ok then Some (NGHTTP2_ERR_NOMEM, d)
     else do { (rv, ctx, m) \<leftarrow> add_hd_table_incremental ?c ?nv (Some (dfl_map d)) ?h;
               Some (if rv \<noteq> 0 then NGHTTP2_ERR_HEADER_COMP else 0, d\<lparr>dfl_ctx := ctx, dfl_map := the m\<rparr>) })"
    using n by (auto simp: deflate_add_def Let_def)
  show ?thesis
  proof (cases ?ok)
    case False
    then show ?thesis using e inv by (auto simp: ng_defs dfl_mem_ok_def nghttp2_rcbuf_new2_ok_def)
  next
    case True
    have mo: "map_ok (Some (dfl_map d)) (ents ?c)" using c(3) by (simp add: map_ok_def)
    obtain rv ctx' m' where a: "add_hd_table_incremental ?c ?nv (Some (dfl_map d)) ?h = Some (rv, ctx', m')"
      "m' = None \<longleftrightarrow> Some (dfl_map d) = None" "ctx_inv ctx'" "map_ok m' (ents ctx')" "same_ctx ctx' ?c"
      "rv = 0 \<and> ents ctx' = (if nv_room ?nv \<le> hd_table_bufsize_max ?c
         then new_entry ?c ?nv ?h # keep (nv_room ?nv) (hd_table_bufsize_max ?c) (ents ?c) else []) \<or>
       rv = NGHTTP2_ERR_NOMEM \<and> ents ctx' = keep (nv_room ?nv) (hd_table_bufsize_max ?c) (ents ?c) \<and> (\<exists>k. \<not> mem_ok ?al k)"
      using add_spec [OF c(1) mo, of ?nv ?h] by (elim exE conjE) (rule that)
    have ok: "list_all ent_ok (ents ctx')"
      using a(6) c(2) keep_ent_ok by (auto simp: new_entry_def ent_ok_def)
    obtain m1 where m1: "m' = Some m1" "m1 = hd_map_of (ents ctx')" using a(2,4) by (auto simp: map_ok_def)
    let ?d = "d\<lparr>dfl_ctx := ctx', dfl_map := m1\<rparr>"
    have "dfl_inv ?d" "dfl_same ?d d" using a(3,5) ok m1(2) by (simp_all add: dfl_inv_def dfl_same_def)
    moreover have "prs ctx' = padd (hd_table_bufsize_max ?c) (nv_name nv, nv_value nv) (prs ?c)" if "rv = 0"
      using prs_add [of ctx' ?nv _ ?c ?h] a(6) that by (auto simp: ng_defs)
    moreover have "dfl_mem_ok d \<longrightarrow> rv = 0" using a(6) by (auto simp: dfl_mem_ok_def)
    moreover have "deflate_add d nv (lookup_token (nv_name nv)) (nv_hash (lookup_token (nv_name nv)) (nv_name nv)) idx = Some (if rv \<noteq> 0 then NGHTTP2_ERR_HEADER_COMP else 0, ?d)"
    proof -
      have nt: "(\<not> ?ok) = False" using True by simp
      show ?thesis unfolding e nt if_False a(1) by (simp add: m1(1))
    qed
    ultimately show ?thesis by (auto simp: ng_defs)
  qed
qed

definition nv_mode :: "nghttp2_hd_deflater \<Rightarrow> nghttp2_nv \<Rightarrow> nghttp2_hd_indexing_mode" where
  "nv_mode d nv = (if lookup_token (nv_name nv) = NGHTTP2_TOKEN_AUTHORIZATION \<or>
       lookup_token (nv_name nv) = NGHTTP2_TOKEN_COOKIE \<and> length (nv_value nv) < 20 \<or> nv_flags nv AND NGHTTP2_NV_FLAG_NO_INDEX \<noteq> 0
     then NGHTTP2_HD_NEVER_INDEXING else hd_deflate_decide_indexing d nv (lookup_token (nv_name nv)))"

text \<open>
  A step of the deflater writes one representation.  The peer reads the field from it with the
  same effect on its table, unless an allocation fails.
\<close>

definition nv_step ::
  "nghttp2_hd_deflater \<Rightarrow> nghttp2_bufs \<Rightarrow> nghttp2_nv \<Rightarrow> hd_rep \<Rightarrow> rc \<Rightarrow> nghttp2_hd_deflater \<Rightarrow> nghttp2_bufs \<Rightarrow> bool" where
  "nv_step d bufs nv r rv d' bufs' \<longleftrightarrow>
     dfl_inv d' \<and> dfl_same d' d \<and> bufs_inv bufs' \<and>
     (rv = 0 \<or> dfl_mem_ok d \<longrightarrow> sink.res bufs (rep_bytes r) (Some (rv, bufs')) \<and>
       rep_sem (hd_table_bufsize_max (dfl_ctx d)) (prs (dfl_ctx d)) r = Some ((nv_name nv, nv_value nv), prs (dfl_ctx d'))) \<and>
     (nv_flags nv AND NGHTTP2_NV_FLAG_NO_INDEX \<noteq> 0 \<longrightarrow> rep_never r)"

lemma deflate_nv_spec:
  assumes inv: "dfl_inv d" and b: "bufs_inv bufs" and sm: "nv_small nv"
  shows "\<exists>rv d' bufs' r. deflate_nv d bufs nv = Some (rv, d', bufs') \<and> nv_step d bufs nv r rv d' bufs'"
proof -
  let ?c = "dfl_ctx d" and ?t = "lookup_token (nv_name nv)"
  let ?h = "nv_hash ?t (nv_name nv)" and ?m = "nv_mode d nv" and ?mx = "hd_table_bufsize_max (dfl_ctx d)"
  have c: "ctx_inv ?c" "list_all ent_ok (ents ?c)" "dfl_map d = hd_map_of (ents ?c)" using inv by (simp_all add: dfl_inv_def)
  obtain idx match where s: "search_hd_table ?c nv ?t ?m (dfl_map d) ?h = (idx, match)" by (rule prod.exhaust)
  note sp = search_spec [OF c(1,2) refl refl s [unfolded c(3)]]
  have never: "?m = NGHTTP2_HD_NEVER_INDEXING" if "nv_flags nv AND NGHTTP2_NV_FLAG_NO_INDEX \<noteq> 0"
    using that by (simp add: nv_mode_def)
  have len: "length (ents ?c) < 2 ^ 32" using c(1) dyn_size_length [of "ents ?c"] by (simp add: ctx_inv_def ctx_wf_def)
  have small: "nat idx + 1 < 2 ^ 64" if p: "pair_at ?c (nat idx) = Some q" for q
  proof -
    have "nat idx < 61 + length (ents ?c)"
      using p c(1) by (auto simp: pair_at_eq ctx_inv_def ctx_wf_def split: if_splits)
    then show ?thesis using len by simp
  qed
  have e: "deflate_nv d bufs nv = (if match then do { (rv, bufs) \<leftarrow> emit_indexed_block bufs (nat idx); Some (rv, d, bufs) }
     else do { (rv, d) \<leftarrow> (if ?m = NGHTTP2_HD_WITH_INDEXING then deflate_add d nv ?t ?h idx else Some (0, d));
               if rv \<noteq> 0 then Some (rv, d, bufs)
               else do { (rv, bufs) \<leftarrow> (if idx = -1 then emit_newname_block bufs nv ?m else emit_indname_block bufs (nat idx) nv ?m);
                       Some (rv, d, bufs) } })"
    unfolding deflate_nv_def Let_def nv_mode_def [symmetric] s by simp
  show ?thesis
  proof (cases match)
    case True
    then have p: "pair_at ?c (nat idx) = Some (nv_name nv, nv_value nv)" using sp by auto
    have "sink.res bufs (rep_bytes (Indexed (nat idx))) (emit_indexed_block bufs (nat idx))"
      using b small [OF p] by (rule emit_indexed_res)
    then obtain rv b1 where r: "emit_indexed_block bufs (nat idx) = Some (rv, b1)"
      "sink.res bufs (rep_bytes (Indexed (nat idx))) (Some (rv, b1))" "bufs_inv b1" by (rule sink.res_cases)
    have "nv_step d bufs nv (Indexed (nat idx)) rv d b1"
      using inv r(2,3) p pair_at_plook [OF c(1)] sp True never by (auto simp: nv_step_def)
    then show ?thesis using e True r(1) by auto
  next
    case False
    have nm: "\<exists>v. pair_at ?c (nat idx) = Some (nv_name nv, v)" if "idx \<noteq> -1" using sp that by blast
    define r where "r = (if idx = -1 then New_Name ?m (nv_name nv) (nv_value nv) else Ind_Name ?m (nat idx) (nv_value nv))"
    obtain rv d1 where a: "(if ?m = NGHTTP2_HD_WITH_INDEXING then deflate_add d nv ?t ?h idx else Some (0, d)) = Some (rv, d1)"
      "dfl_inv d1" "dfl_same d1 d" "dfl_mem_ok d \<longrightarrow> rv = 0"
      "rv = 0 \<longrightarrow> prs (dfl_ctx d1) = (if ?m = NGHTTP2_HD_WITH_INDEXING then padd ?mx (nv_name nv, nv_value nv) (prs ?c) else prs ?c)"
      using deflate_add_spec [OF inv, of idx nv] nm inv by (cases "?m = NGHTTP2_HD_WITH_INDEXING") auto
    have sem: "rep_sem ?mx (prs ?c) r = Some ((nv_name nv, nv_value nv), prs (dfl_ctx d1))" if "rv = 0"
      using a(5) that nm pair_at_plook [OF c(1), of "nat idx"] by (auto simp: r_def)
    show ?thesis
    proof (cases "rv = 0")
      case rv: False
      have "nv_step d bufs nv r rv d1 bufs" using a b rv never by (auto simp: nv_step_def r_def)
      then show ?thesis using e False a(1) rv by auto
    next
      case rv: True
      let ?emit = "if idx = -1 then emit_newname_block bufs nv ?m else emit_indname_block bufs (nat idx) nv ?m"
      have "sink.res bufs (rep_bytes r) ?emit"
        using b sm nm small emit_newname_res [OF b, of nv ?m] emit_indname_res [OF b, of "nat idx" nv ?m]
        by (auto simp: r_def nv_small_def simp del: rep_bytes.simps)
      then obtain rv2 b1 where em: "?emit = Some (rv2, b1)" "sink.res bufs (rep_bytes r) (Some (rv2, b1))" "bufs_inv b1"
        by (rule sink.res_cases)
      have "nv_step d bufs nv r rv2 d1 b1" using a em(2,3) sem rv never by (auto simp: nv_step_def r_def)
      then show ?thesis using e False a(1) rv em(1) by auto
    qed
  qed
qed

subsection \<open>Blocks\<close>

fun reps_sem :: "nat \<Rightarrow> pairs \<Rightarrow> hd_rep list \<Rightarrow> (pairs \<times> pairs) option" where
  "reps_sem mx ps [] = Some ([], ps)"
| "reps_sem mx ps (r # rs) =
     do { (p, ps) \<leftarrow> rep_sem mx ps r; (out, ps) \<leftarrow> reps_sem mx ps rs; Some (p # out, ps) }"

definition reps_bytes :: "hd_rep list \<Rightarrow> bytes" where
  "reps_bytes rs = concat (map rep_bytes rs)"

lemma reps_bytes_simps [simp]: "reps_bytes [] = []" "reps_bytes (r # rs) = rep_bytes r @ reps_bytes rs"
  by (simp_all add: reps_bytes_def)

definition nv_pair :: "nghttp2_nv \<Rightarrow> bytes \<times> bytes" where
  "nv_pair nv = (nv_name nv, nv_value nv)"

text \<open>A bound on the bytes of one field, when its strings are shorter than \<open>2 ^ 28\<close>.\<close>

definition nv_short :: "nghttp2_nv \<Rightarrow> bool" where
  "nv_short nv \<longleftrightarrow> length (nv_name nv) < 2 ^ 28 \<and> length (nv_value nv) < 2 ^ 28"

definition nv_bound :: "nghttp2_nv \<Rightarrow> nat" where
  "nv_bound nv = 12 + length (nv_name nv) + length (nv_value nv)"

lemma str_bytes_length: "length s < 128 ^ Suc k \<Longrightarrow> length (str_bytes s) \<le> Suc (Suc k) + length s"
proof -
  assume s: "length s < 128 ^ Suc k"
  show ?thesis
  proof (cases "length (pack (codes s)) < length s")
    case True
    then have "length (int_bytes 0x80 (length (pack (codes s))) 7) \<le> Suc (Suc k)" using s by (intro int_bytes_length) simp
    then show ?thesis using True by (simp add: str_bytes_def)
  next
    case False
    have "length (int_bytes 0 (length s) 7) \<le> Suc (Suc k)" using s by (rule int_bytes_length)
    then show ?thesis using False by (simp add: str_bytes_def)
  qed
qed

lemma rep_fits:
  assumes "rep_sem mx ps r = Some (nv_pair nv, ps')" "length ps < 2 ^ 32" "nv_short nv"
  shows "length (rep_bytes r) \<le> nv_bound nv"
proof -
  have ib: "length (int_bytes b (i + 1) p) \<le> 6" if "plook ps i = Some q" for b i p q
  proof -
    have "i < 61 + length ps" using that by (auto simp: plook_def split: if_splits)
    then show ?thesis using int_bytes_length [of "i + 1" 4 b p] assms(2) by simp
  qed
  have nv: "length (nv_name nv) < 128 ^ Suc 3" "length (nv_value nv) < 128 ^ Suc 3" using assms(3) by (simp_all add: nv_short_def)
  note sb = str_bytes_length [OF nv(1)] str_bytes_length [OF nv(2)]
  show ?thesis
  proof (cases r)
    case (Indexed i)
    then have "plook ps i \<noteq> None" using assms(1) by auto
    then have "length (rep_bytes r) \<le> 6" using Indexed ib by auto
    then show ?thesis by (simp add: nv_bound_def)
  next
    case (Ind_Name m i v)
    then have "v = nv_value nv" "plook ps i \<noteq> None" using assms(1) by (auto simp: nv_pair_def)
    then show ?thesis using Ind_Name ib [of i _ "pack_first_byte m" "if m = NGHTTP2_HD_WITH_INDEXING then 6 else 4"] sb(2)
      by (auto simp: nv_bound_def)
  next
    case (New_Name m n v)
    then show ?thesis using assms(1) sb by (auto simp: nv_bound_def nv_pair_def)
  qed
qed

lemma deflate_nvs_spec:
  "dfl_inv d \<Longrightarrow> bufs_inv bufs \<Longrightarrow> list_all nv_small nva \<Longrightarrow>
     \<exists>rv d' bufs' rs. deflate_nvs d bufs nva = Some (rv, d', bufs') \<and> dfl_inv d' \<and> dfl_same d' d \<and> bufs_inv bufs' \<and>
       (rv = 0 \<or> dfl_mem_ok d \<longrightarrow> sink.res bufs (reps_bytes rs) (Some (rv, bufs'))) \<and>
       (rv = 0 \<longrightarrow> reps_sem (hd_table_bufsize_max (dfl_ctx d)) (prs (dfl_ctx d)) rs = Some (map nv_pair nva, prs (dfl_ctx d')) \<and>
          list_all2 (\<lambda>nv r. nv_flags nv AND NGHTTP2_NV_FLAG_NO_INDEX \<noteq> 0 \<longrightarrow> rep_never r) nva rs) \<and>
       (dfl_mem_ok d \<and> list_all nv_short nva \<longrightarrow> length (reps_bytes rs) \<le> sum_list (map nv_bound nva))"
proof (induction nva arbitrary: d bufs)
  case Nil
  then show ?case using sink.res_nop by (intro exI [of _ "[]"] exI conjI) auto
next
  case (Cons nv nva)
  let ?mx = "hd_table_bufsize_max (dfl_ctx d)"
  have "nv_small nv" using Cons.prems(3) by simp
  from deflate_nv_spec [OF Cons.prems(1,2) this] obtain rv d1 b1 r where
    1: "deflate_nv d bufs nv = Some (rv, d1, b1)" "nv_step d bufs nv r rv d1 b1" by blast
  note st = 1(2) [unfolded nv_step_def]
  have fits: "length (rep_bytes r) \<le> nv_bound nv" if "dfl_mem_ok d" "nv_short nv"
  proof -
    have "length (prs (dfl_ctx d)) < 2 ^ 32"
      using Cons.prems(1) dyn_size_length [of "ents (dfl_ctx d)"] by (simp add: dfl_inv_def ctx_inv_def ctx_wf_def prs_def)
    then show ?thesis using st that rep_fits [of ?mx "prs (dfl_ctx d)" r nv] by (auto simp: nv_pair_def)
  qed
  show ?case
  proof (cases "rv = 0")
    case False
    then have "deflate_nvs d bufs (nv # nva) = Some (rv, d1, b1)" using 1(1) by simp
    then show ?thesis using st False fits by (intro exI [of _ "[r]"] exI conjI) auto
  next
    case True
    have mx: "hd_table_bufsize_max (dfl_ctx d1) = ?mx" "dfl_mem_ok d1 = dfl_mem_ok d"
      using st by (auto simp: dfl_same_def same_ctx_def dfl_mem_ok_def)
    obtain rv2 d2 b2 rs where 2: "deflate_nvs d1 b1 nva = Some (rv2, d2, b2)" "dfl_inv d2" "dfl_same d2 d1" "bufs_inv b2"
      "rv2 = 0 \<or> dfl_mem_ok d1 \<longrightarrow> sink.res b1 (reps_bytes rs) (Some (rv2, b2))"
      "rv2 = 0 \<longrightarrow> reps_sem (hd_table_bufsize_max (dfl_ctx d1)) (prs (dfl_ctx d1)) rs = Some (map nv_pair nva, prs (dfl_ctx d2)) \<and>
          list_all2 (\<lambda>nv r. nv_flags nv AND NGHTTP2_NV_FLAG_NO_INDEX \<noteq> 0 \<longrightarrow> rep_never r) nva rs"
      "dfl_mem_ok d1 \<and> list_all nv_short nva \<longrightarrow> length (reps_bytes rs) \<le> sum_list (map nv_bound nva)"
      using Cons.IH [of d1 b1] st Cons.prems(3) by auto
    have e: "deflate_nvs d bufs (nv # nva) = Some (rv2, d2, b2)" using 1(1) True 2(1) by simp
    have r0: "sink.res bufs (rep_bytes r) (Some (0, b1))"
      "rep_sem ?mx (prs (dfl_ctx d)) r = Some ((nv_name nv, nv_value nv), prs (dfl_ctx d1))" using st True by auto
    have "rv2 = 0 \<or> dfl_mem_ok d \<longrightarrow> sink.res bufs (reps_bytes (r # rs)) (Some (rv2, b2))"
      using sink.res_ok [OF r0(1)] 2(5) mx(2) by simp
    moreover have "rv2 = 0 \<longrightarrow> reps_sem ?mx (prs (dfl_ctx d)) (r # rs) = Some (map nv_pair (nv # nva), prs (dfl_ctx d2)) \<and>
        list_all2 (\<lambda>nv r. nv_flags nv AND NGHTTP2_NV_FLAG_NO_INDEX \<noteq> 0 \<longrightarrow> rep_never r) (nv # nva) (r # rs)"
      using 2(6) r0(2) mx(1) st by (auto simp: nv_pair_def)
    moreover have "dfl_mem_ok d \<and> list_all nv_short (nv # nva) \<longrightarrow> length (reps_bytes (r # rs)) \<le> sum_list (map nv_bound (nv # nva))"
      using 2(7) fits mx(2) by auto
    ultimately show ?thesis using e 2(2,4) dfl_same_trans [OF 2(3)] st by (intro exI [of _ "r # rs"] exI conjI) auto
  qed
qed

text \<open>The table size updates: the smallest limit since the last block if it was smaller, then the current one.\<close>

definition size_updates :: "nghttp2_hd_deflater \<Rightarrow> nat list" where
  "size_updates d =
     (if notify_table_size_change d
      then (if hd_table_bufsize_max (dfl_ctx d) > min_hd_table_bufsize_max d then [min_hd_table_bufsize_max d] else []) @
           [hd_table_bufsize_max (dfl_ctx d)]
      else [])"

definition updates_bytes :: "nat list \<Rightarrow> bytes" where
  "updates_bytes us = concat (map (\<lambda>u. int_bytes 0x20 u 5) us)"

lemma deflate_table_size_spec:
  assumes inv: "dfl_inv d" and b: "bufs_inv bufs"
  shows "\<exists>rv bufs'. deflate_table_size d bufs =
      Some (rv, (if notify_table_size_change d then d\<lparr>notify_table_size_change := False, min_hd_table_bufsize_max := UINT32_MAX\<rparr> else d), bufs') \<and>
    bufs_inv bufs' \<and> sink.res bufs (updates_bytes (size_updates d)) (Some (rv, bufs'))"
proof (cases "notify_table_size_change d")
  case False
  then show ?thesis using b sink.res_nop by (simp add: deflate_table_size_def size_updates_def updates_bytes_def)
next
  case True
  let ?mx = "hd_table_bufsize_max (dfl_ctx d)" and ?mn = "min_hd_table_bufsize_max d"
  let ?d = "d\<lparr>notify_table_size_change := False, min_hd_table_bufsize_max := UINT32_MAX\<rparr>"
  have mx: "?mx < 2 ^ 64" using inv by (simp add: dfl_inv_def ctx_inv_def)
  define first where "first = (if ?mx > ?mn then emit_table_size bufs ?mn else Some (0, bufs))"
  have "sink.res bufs (updates_bytes (if ?mx > ?mn then [?mn] else [])) first"
    using b mx sink.res_nop [OF b] by (auto simp: first_def emit_table_size_def updates_bytes_def intro!: emit_integer_res)
  moreover have "sink.res b1 (updates_bytes [?mx]) (emit_table_size b1 ?mx)" if "bufs_inv b1" for b1
    using that mx by (simp add: emit_table_size_def updates_bytes_def emit_integer_res)
  ultimately have "sink.res bufs (updates_bytes (size_updates d))
      (do { (rv, b) \<leftarrow> first; if rv \<noteq> 0 then Some (rv, b) else emit_table_size b ?mx })"
    using res_bind [of bufs _ first "updates_bytes [?mx]" "\<lambda>b. emit_table_size b ?mx"] True
    by (simp add: size_updates_def updates_bytes_def)
  then obtain rv b1 where r: "(do { (rv, b) \<leftarrow> first; if rv \<noteq> 0 then Some (rv, b) else emit_table_size b ?mx }) = Some (rv, b1)"
    "sink.res bufs (updates_bytes (size_updates d)) (Some (rv, b1))" "bufs_inv b1" by (rule sink.res_cases)
  have "deflate_table_size d bufs = Some (rv, ?d, b1)"
    using r(1) True by (auto simp: deflate_table_size_def first_def [symmetric] split: Option.bind_splits if_splits)
  then show ?thesis using r(2,3) True by simp
qed

lemma updates_length:
  assumes "dfl_inv d"
  shows "length (updates_bytes (size_updates d)) \<le> 12"
proof -
  have mx: "hd_table_bufsize_max (dfl_ctx d) < 2 ^ 32" using assms by (simp add: dfl_inv_def ctx_inv_def)
  have "length (int_bytes 0x20 u 5) \<le> 6" if "u < 2 ^ 32" for u using int_bytes_length [of u 4 "0x20" 5] that by simp
  from this [of "hd_table_bufsize_max (dfl_ctx d)"] this [of "min_hd_table_bufsize_max d"] mx show ?thesis
    by (auto simp: size_updates_def updates_bytes_def)
qed

definition notified :: "nghttp2_hd_deflater \<Rightarrow> nghttp2_hd_deflater" where
  "notified d = (if notify_table_size_change d then d\<lparr>notify_table_size_change := False, min_hd_table_bufsize_max := UINT32_MAX\<rparr> else d)"

lemma notified_simps [simp]:
  "dfl_ctx (notified d) = dfl_ctx d" "dfl_map (notified d) = dfl_map d" "dfl_inv (notified d) = dfl_inv d"
  "dfl_mem_ok (notified d) = dfl_mem_ok d"
  by (auto simp: notified_def dfl_inv_def dfl_mem_ok_def)

lemma deflate_hd_bufs_spec:
  assumes inv: "dfl_inv d" and b: "bufs_inv bufs" and sm: "list_all nv_small nva" and nb: "\<not> bad (dfl_ctx d)"
  shows "\<exists>rv d' bufs' rs. nghttp2_hd_deflate_hd_bufs d bufs nva = Some (rv, d', bufs') \<and> dfl_inv d' \<and> bufs_inv bufs' \<and>
    (bad (dfl_ctx d') \<longleftrightarrow> rv \<noteq> 0) \<and> hd_table_bufsize_max (dfl_ctx d') = hd_table_bufsize_max (dfl_ctx d) \<and>
    (rv = 0 \<or> dfl_mem_ok d \<longrightarrow> sink.res bufs (updates_bytes (size_updates d) @ reps_bytes rs) (Some (rv, bufs'))) \<and>
    (rv = 0 \<longrightarrow> reps_sem (hd_table_bufsize_max (dfl_ctx d)) (prs (dfl_ctx d)) rs = Some (map nv_pair nva, prs (dfl_ctx d')) \<and>
       list_all2 (\<lambda>nv r. nv_flags nv AND NGHTTP2_NV_FLAG_NO_INDEX \<noteq> 0 \<longrightarrow> rep_never r) nva rs \<and>
       dfl_same d' (notified d)) \<and>
    (dfl_mem_ok d \<and> list_all nv_short nva \<longrightarrow> length (reps_bytes rs) \<le> sum_list (map nv_bound nva))"
proof -
  obtain rv b1 where u: "deflate_table_size d bufs = Some (rv, notified d, b1)" "bufs_inv b1"
    "sink.res bufs (updates_bytes (size_updates d)) (Some (rv, b1))"
    using deflate_table_size_spec [OF inv b] by (auto simp: notified_def)
  have dbad: "dfl_inv (e\<lparr>dfl_ctx := (dfl_ctx e)\<lparr>bad := True\<rparr>\<rparr>) = dfl_inv e" for e
    by (simp add: dfl_inv_def ctx_inv_def ctx_wf_def ents_def)
  show ?thesis
  proof (cases "rv = 0")
    case False
    then have "nghttp2_hd_deflate_hd_bufs d bufs nva = Some (rv, (notified d)\<lparr>dfl_ctx := (dfl_ctx d)\<lparr>bad := True\<rparr>\<rparr>, b1)"
      using u(1) nb by (simp add: nghttp2_hd_deflate_hd_bufs_def)
    moreover have "sink.res bufs (updates_bytes (size_updates d) @ reps_bytes []) (Some (rv, b1))" using u(3) by simp
    ultimately show ?thesis using False u(2) inv dbad [of "notified d"]
      by (intro exI [of _ rv] exI [of _ "(notified d)\<lparr>dfl_ctx := (dfl_ctx d)\<lparr>bad := True\<rparr>\<rparr>"] exI [of _ b1] exI [of _ "[]"] conjI) simp_all
  next
    case True
    obtain rv2 d2 b2 rs where v: "deflate_nvs (notified d) b1 nva = Some (rv2, d2, b2)" "dfl_inv d2" "dfl_same d2 (notified d)" "bufs_inv b2"
      "rv2 = 0 \<or> dfl_mem_ok d \<longrightarrow> sink.res b1 (reps_bytes rs) (Some (rv2, b2))"
      "rv2 = 0 \<longrightarrow> reps_sem (hd_table_bufsize_max (dfl_ctx d)) (prs (dfl_ctx d)) rs = Some (map nv_pair nva, prs (dfl_ctx d2)) \<and>
          list_all2 (\<lambda>nv r. nv_flags nv AND NGHTTP2_NV_FLAG_NO_INDEX \<noteq> 0 \<longrightarrow> rep_never r) nva rs"
      "dfl_mem_ok d \<and> list_all nv_short nva \<longrightarrow> length (reps_bytes rs) \<le> sum_list (map nv_bound nva)"
      using deflate_nvs_spec [of "notified d" b1 nva] inv u(2) sm by auto
    let ?d = "if rv2 \<noteq> 0 then d2\<lparr>dfl_ctx := (dfl_ctx d2)\<lparr>bad := True\<rparr>\<rparr> else d2"
    have e: "nghttp2_hd_deflate_hd_bufs d bufs nva = Some (rv2, ?d, b2)"
      using u(1) True v(1) nb by (simp add: nghttp2_hd_deflate_hd_bufs_def)
    have s: "\<not> bad (dfl_ctx d2)" "hd_table_bufsize_max (dfl_ctx d2) = hd_table_bufsize_max (dfl_ctx d)"
      using v(3) nb by (simp_all add: dfl_same_def same_ctx_def)
    have "rv2 = 0 \<or> dfl_mem_ok d \<longrightarrow> sink.res bufs (updates_bytes (size_updates d) @ reps_bytes rs) (Some (rv2, b2))"
      using sink.res_ok u(3) True v(5) by blast
    moreover have "dfl_inv ?d" "bad (dfl_ctx ?d) \<longleftrightarrow> rv2 \<noteq> 0" "hd_table_bufsize_max (dfl_ctx ?d) = hd_table_bufsize_max (dfl_ctx d)"
      using v(2) dbad [of d2] s by simp_all
    moreover have "rv2 = 0 \<longrightarrow> ?d = d2" by simp
    ultimately show ?thesis using e v(3,4,6,7)
      by (intro exI [of _ rv2] exI [of _ ?d] exI [of _ b2] exI [of _ rs] conjI) simp_all
  qed
qed


lemma deflate_init2:
  assumes "nghttp2_hd_deflate_init2 al n = Inr d"
  shows "dfl_inv d \<and> \<not> bad (dfl_ctx d) \<and> prs (dfl_ctx d) = [] \<and> ctx_mem (dfl_ctx d) = al \<and>
    hd_table_bufsize_max (dfl_ctx d) = min n 4096 \<and>
    size_updates d = (if n < 4096 then [n] else [])"
proof -
  obtain ctx where c: "hd_context_init al = Inr ctx" using assms by (auto simp: nghttp2_hd_deflate_init2_def split: sum.splits)
  note i = context_init [OF c]
  have d: "d = \<lparr>dfl_ctx = (if n < 4096 then ctx\<lparr>hd_table_bufsize_max := n\<rparr> else ctx), dfl_map = hd_map_init,
      deflate_hd_table_bufsize_max = n, min_hd_table_bufsize_max = UINT32_MAX, notify_table_size_change = (n < 4096)\<rparr>"
    using assms c by (simp add: nghttp2_hd_deflate_init2_def ng_defs)
  have "hd_table_bufsize ctx = 0" using i by (simp add: ctx_inv_def ctx_wf_def)
  then show ?thesis using i hd_map_init_of
    by (auto simp: d dfl_inv_def ctx_inv_def ctx_wf_def ents_def prs_def size_updates_def UINT32_MAX_def)
qed

lemma deflate_init_ok: "(\<And>k. mem_ok al k) \<Longrightarrow> \<exists>d. nghttp2_hd_deflate_init2 al n = Inr d"
  using context_init_ok [of al] by (auto simp: nghttp2_hd_deflate_init2_def)

lemma change_table_size_spec:
  assumes inv: "dfl_inv d" and n: "min n (deflate_hd_table_bufsize_max d) < 2 ^ 32"
  shows "\<exists>d'. nghttp2_hd_deflate_change_table_size d n = Some d' \<and> dfl_inv d' \<and>
    hd_table_bufsize_max (dfl_ctx d') = min n (deflate_hd_table_bufsize_max d) \<and>
    prs (dfl_ctx d') = pfit (min n (deflate_hd_table_bufsize_max d)) (prs (dfl_ctx d)) \<and>
    notify_table_size_change d' \<and> bad (dfl_ctx d') = bad (dfl_ctx d) \<and>
    deflate_hd_table_bufsize_max d' = deflate_hd_table_bufsize_max d \<and>
    min_hd_table_bufsize_max d' = min (min_hd_table_bufsize_max d) (min n (deflate_hd_table_bufsize_max d))"
proof -
  let ?n = "min n (deflate_hd_table_bufsize_max d)"
  let ?c = "(dfl_ctx d)\<lparr>hd_table_bufsize_max := ?n\<rparr>"
  have i: "ctx_inv (dfl_ctx d)" "list_all ent_ok (ents (dfl_ctx d))" "dfl_map d = hd_map_of (ents (dfl_ctx d))"
    using inv by (simp_all add: dfl_inv_def)
  have c: "ctx_wf ?c" "ents ?c = ents (dfl_ctx d)" using i(1) by (simp_all add: ctx_inv_def ctx_wf_def ents_def)
  have "map_ok (Some (dfl_map d)) (ents ?c)" using i(3) c(2) by (simp add: map_ok_def)
  from shrink_spec [OF c(1) this] n obtain ctx' m' where
    s: "hd_context_shrink_table_size ?c (Some (dfl_map d)) = Some (ctx', m')" "m' \<noteq> None" "ctx_inv ctx'"
      "map_ok m' (ents ctx')" "ents ctx' = fit ?n (ents (dfl_ctx d))" "same_ctx ctx' ?c"
    by (auto simp: c(2))
  have "list_all ent_ok (ents ctx')" using i(2) s(5) keep_ent_ok [of ent_ok _ 0 ?n] by (simp add: keep_def)
  then show ?thesis using s
    by (auto simp: nghttp2_hd_deflate_change_table_size_def Let_def dfl_inv_def map_ok_def prs_def pfit_map same_ctx_def)
qed

lemma wrap_init_inv:
  assumes "bs \<noteq> []" "mem_ok al 48"
  shows "\<exists>bufs. nghttp2_bufs_wrap_init al bs = Inr bufs \<and> bufs_inv bufs \<and> bufs_content bufs = [] \<and>
    bufs_room bufs = length bs \<and> bufs_mem bufs = al"
  using assms by (simp add: nghttp2_bufs_wrap_init_def nghttp2_buf_wrap_init_def bufs_inv_def bufs_content_def buf_bytes_def
    bufs_room_def cur_buf_def nghttp2_buf_avail_def nghttp2_buf_len_def)

lemma bufs_len_content: "bufs_inv bufs \<Longrightarrow> nghttp2_bufs_len bufs = length (bufs_content bufs)"
  unfolding nghttp2_bufs_len_def bufs_content_def length_concat map_map
  by (rule arg_cong [of _ _ sum_list], rule map_cong)
     (auto simp: bufs_inv_def buf_bytes_def nghttp2_buf_len_def)

lemma deflate_bound_sum: "nghttp2_hd_deflate_bound nva = 12 + sum_list (map nv_bound nva)"
  by (induction nva) (simp_all add: nghttp2_hd_deflate_bound_def nv_bound_def)

subsection \<open>Properties\<close>

text \<open>
  C19.  Compression is faithful.  When \<open>nghttp2_hd_deflate_hd_bufs\<close> succeeds, it has appended the
  pending table size updates and then one representation for each field, whose meaning under
  RFC 7541, for a peer whose table holds the same pairs, is the list of fields, and which leaves the
  two tables equal again.  A field flagged \<open>NO_INDEX\<close> is written as a never-indexed literal.  When it
  fails, the context is marked bad.
\<close>

theorem hd_deflate_faithful:
  assumes "dfl_inv d" "bufs_inv bufs" "list_all nv_small nva" "\<not> bad (dfl_ctx d)"
  shows "\<exists>rv d' bufs'. nghttp2_hd_deflate_hd_bufs d bufs nva = Some (rv, d', bufs') \<and> dfl_inv d' \<and> bufs_inv bufs' \<and>
    (bad (dfl_ctx d') \<longleftrightarrow> rv \<noteq> 0) \<and>
    (rv = 0 \<longrightarrow> \<not> notify_table_size_change d' \<and>
      (\<exists>rs. bufs_content bufs' = bufs_content bufs @ updates_bytes (size_updates d) @ concat (map rep_bytes rs) \<and>
        reps_sem (hd_table_bufsize_max (dfl_ctx d)) (prs (dfl_ctx d)) rs = Some (map nv_pair nva, prs (dfl_ctx d')) \<and>
        list_all2 (\<lambda>nv r. nv_flags nv AND NGHTTP2_NV_FLAG_NO_INDEX \<noteq> 0 \<longrightarrow> rep_never r) nva rs))"
proof -
  obtain rv d' bufs' rs where r: "nghttp2_hd_deflate_hd_bufs d bufs nva = Some (rv, d', bufs')" "dfl_inv d'" "bufs_inv bufs'"
    "bad (dfl_ctx d') \<longleftrightarrow> rv \<noteq> 0"
    "rv = 0 \<or> dfl_mem_ok d \<longrightarrow> sink.res bufs (updates_bytes (size_updates d) @ reps_bytes rs) (Some (rv, bufs'))"
    "rv = 0 \<longrightarrow> reps_sem (hd_table_bufsize_max (dfl_ctx d)) (prs (dfl_ctx d)) rs = Some (map nv_pair nva, prs (dfl_ctx d')) \<and>
       list_all2 (\<lambda>nv r. nv_flags nv AND NGHTTP2_NV_FLAG_NO_INDEX \<noteq> 0 \<longrightarrow> rep_never r) nva rs \<and> dfl_same d' (notified d)"
    using deflate_hd_bufs_spec [OF assms] by (elim exE conjE) (rule that)
  have "\<not> notify_table_size_change d' \<and>
      bufs_content bufs' = bufs_content bufs @ updates_bytes (size_updates d) @ concat (map rep_bytes rs)" if "rv = 0"
    using r(5,6) that by (simp add: sink.res_def reps_bytes_def dfl_same_def notified_def split: if_splits)
  then show ?thesis using r(1-4,6) by (intro exI conjI impI) auto
qed

theorem hd_deflate_faithful_witness:
  "\<exists>d bufs rv d' bufs'. nghttp2_hd_deflate_init \<lparr>mem_ok = \<lambda>_. True, mem_fill = \<lambda>_. 0\<rparr> = Inr d \<and>
     nghttp2_hd_deflate_hd_bufs d bufs [\<lparr>nv_name = ascii '':method'', nv_value = ascii ''GET'', nv_flags = 0\<rparr>] = Some (rv, d', bufs') \<and>
     (bad (dfl_ctx d') \<longleftrightarrow> rv \<noteq> 0)"
proof -
  let ?al = "\<lparr>mem_ok = \<lambda>_. True, mem_fill = \<lambda>_. 0\<rparr>"
  let ?nv = "\<lparr>nv_name = ascii '':method'', nv_value = ascii ''GET'', nv_flags = 0\<rparr>"
  obtain d where d: "nghttp2_hd_deflate_init ?al = Inr d" using deflate_init_ok [of ?al] by (auto simp: nghttp2_hd_deflate_init_def)
  note i = deflate_init2 [OF d [unfolded nghttp2_hd_deflate_init_def]]
  obtain bufs where "bufs_inv bufs" using wrap_init_inv [of "[0]" ?al] by auto
  from hd_deflate_faithful [OF _ this, of d "[?nv]"] i have
    "\<exists>rv d' bufs'. nghttp2_hd_deflate_hd_bufs d bufs [?nv] = Some (rv, d', bufs') \<and> (bad (dfl_ctx d') \<longleftrightarrow> rv \<noteq> 0)"
    by (auto simp: nv_small_def)
  then show ?thesis using d by blast
qed

text \<open>
  C23.  \<open>nghttp2_hd_deflate_bound\<close> is sufficient: with strings shorter than \<open>2 ^ 28\<close> bytes and memory
  available, an array of that many bytes is large enough for \<open>nghttp2_hd_deflate_hd2\<close> to compress
  the fields, and the value returned is the number of bytes of the block.
\<close>

theorem hd_deflate_bound_sufficient:
  assumes "dfl_inv d" "\<not> bad (dfl_ctx d)" "dfl_mem_ok d" "list_all nv_short nva"
    "nghttp2_hd_deflate_bound nva \<le> length buf"
  shows "\<exists>n d' buf'. nghttp2_hd_deflate_hd2 d buf nva = Some (int n, d', buf') \<and> n \<le> nghttp2_hd_deflate_bound nva \<and>
    dfl_inv d' \<and> \<not> bad (dfl_ctx d')"
proof -
  have "buf \<noteq> []" using assms(5) by (auto simp: nghttp2_hd_deflate_bound_def)
  then obtain bufs where b: "nghttp2_bufs_wrap_init (ctx_mem (dfl_ctx d)) buf = Inr bufs" "bufs_inv bufs" "bufs_content bufs = []"
    "bufs_room bufs = length buf" "bufs_memok bufs"
    using wrap_init_inv [of buf "ctx_mem (dfl_ctx d)"] assms(3) by (auto simp: dfl_mem_ok_def bufs_memok_def)
  have sm: "list_all nv_small nva" using assms(4) by (auto simp: list_all_iff nv_small_def nv_short_def intro: less_trans)
  obtain rv d' bufs' rs where r: "nghttp2_hd_deflate_hd_bufs d bufs nva = Some (rv, d', bufs')" "dfl_inv d'" "bufs_inv bufs'"
    "bad (dfl_ctx d') \<longleftrightarrow> rv \<noteq> 0"
    "rv = 0 \<or> dfl_mem_ok d \<longrightarrow> sink.res bufs (updates_bytes (size_updates d) @ reps_bytes rs) (Some (rv, bufs'))"
    "dfl_mem_ok d \<and> list_all nv_short nva \<longrightarrow> length (reps_bytes rs) \<le> sum_list (map nv_bound nva)"
    using deflate_hd_bufs_spec [OF assms(1) b(2) sm assms(2)] by (elim exE conjE) (rule that)
  have len: "length (updates_bytes (size_updates d) @ reps_bytes rs) \<le> nghttp2_hd_deflate_bound nva"
    using updates_length [OF assms(1)] r(6) assms(3,4) by (simp add: deflate_bound_sum)
  have res: "sink.res bufs (updates_bytes (size_updates d) @ reps_bytes rs) (Some (rv, bufs'))" using r(5) assms(3) by blast
  have "rv = 0" using res b(4,5) len assms(5) by (simp add: sink.res_def)
  moreover have "nghttp2_bufs_len bufs' \<le> nghttp2_hd_deflate_bound nva"
    using res \<open>rv = 0\<close> b(3) len by (simp add: bufs_len_content [OF r(3)] sink.res_def)
  ultimately show ?thesis using r(1,2,4) b(1) by (simp add: nghttp2_hd_deflate_hd2_def deflate_result_def ng_defs)
qed

theorem hd_deflate_bound_sufficient_witness:
  "\<exists>d n d' buf'. nghttp2_hd_deflate_init \<lparr>mem_ok = \<lambda>_. True, mem_fill = \<lambda>_. 0\<rparr> = Inr d \<and>
     nghttp2_hd_deflate_hd2 d (replicate 35 0) [\<lparr>nv_name = ascii '':method'', nv_value = ascii ''PUT'', nv_flags = 0\<rparr>] =
       Some (int n, d', buf') \<and> n \<le> 35"
proof -
  let ?al = "\<lparr>mem_ok = \<lambda>_. True, mem_fill = \<lambda>_. 0\<rparr>"
  let ?nv = "\<lparr>nv_name = ascii '':method'', nv_value = ascii ''PUT'', nv_flags = 0\<rparr>"
  obtain d where d: "nghttp2_hd_deflate_init ?al = Inr d" using deflate_init_ok [of ?al] by (auto simp: nghttp2_hd_deflate_init_def)
  note i = deflate_init2 [OF d [unfolded nghttp2_hd_deflate_init_def]]
  have "dfl_mem_ok d" using i by (simp add: dfl_mem_ok_def)
  moreover have "nghttp2_hd_deflate_bound [?nv] = 34" by (simp add: nghttp2_hd_deflate_bound_def)
  ultimately show ?thesis using hd_deflate_bound_sufficient [of d "[?nv]" "replicate 35 0"] i d
    by (fastforce simp: nv_short_def)
qed

text \<open>
  C24.  A change of the table size applies at once: the limit becomes the smaller of the two
  limits, the table keeps the newest entries that fit in it, and the next block opens with an update
  to the smallest limit of the interval if it was lower, followed by an update to the current one.
\<close>

theorem hd_deflate_change_table_size_exact:
  assumes "dfl_inv d" "min n (deflate_hd_table_bufsize_max d) < 2 ^ 32" "n' = min n (deflate_hd_table_bufsize_max d)"
  shows "\<exists>d'. nghttp2_hd_deflate_change_table_size d n = Some d' \<and> dfl_inv d' \<and>
    hd_table_bufsize_max (dfl_ctx d') = n' \<and> prs (dfl_ctx d') = pfit n' (prs (dfl_ctx d)) \<and>
    hd_table_bufsize (dfl_ctx d') \<le> n' \<and>
    size_updates d' = (if min_hd_table_bufsize_max d < n' then [min_hd_table_bufsize_max d, n'] else [n'])"
proof -
  obtain d' where d: "nghttp2_hd_deflate_change_table_size d n = Some d'" "dfl_inv d'"
    "hd_table_bufsize_max (dfl_ctx d') = n'" "prs (dfl_ctx d') = pfit n' (prs (dfl_ctx d))" "notify_table_size_change d'"
    "min_hd_table_bufsize_max d' = min (min_hd_table_bufsize_max d) n'"
    using change_table_size_spec [OF assms(1,2)] assms(3) by auto
  have "hd_table_bufsize (dfl_ctx d') \<le> n'" using d(2,3) by (simp add: dfl_inv_def ctx_inv_def)
  moreover have "size_updates d' = (if min_hd_table_bufsize_max d < n' then [min_hd_table_bufsize_max d, n'] else [n'])"
    using d(3,5,6) by (auto simp: size_updates_def min_def)
  ultimately show ?thesis using d(1-4) by blast
qed

theorem hd_deflate_change_table_size_exact_witness:
  "\<exists>d d'. nghttp2_hd_deflate_init \<lparr>mem_ok = \<lambda>_. True, mem_fill = \<lambda>_. 0\<rparr> = Inr d \<and>
     nghttp2_hd_deflate_change_table_size d 100 = Some d' \<and> hd_table_bufsize_max (dfl_ctx d') = 100"
proof -
  let ?al = "\<lparr>mem_ok = \<lambda>_. True, mem_fill = \<lambda>_. 0\<rparr>"
  obtain d where d: "nghttp2_hd_deflate_init ?al = Inr d" using deflate_init_ok [of ?al] by (auto simp: nghttp2_hd_deflate_init_def)
  note i = deflate_init2 [OF d [unfolded nghttp2_hd_deflate_init_def]]
  have "deflate_hd_table_bufsize_max d = 4096"
    using d by (auto simp: nghttp2_hd_deflate_init_def nghttp2_hd_deflate_init2_def
      NGHTTP2_HD_DEFAULT_MAX_DEFLATE_BUFFER_SIZE_def split: sum.splits)
  then show ?thesis using hd_deflate_change_table_size_exact [of d 100 100] i d by auto
qed

end
