(* ===== verification/Hd_Inflate.thy ===== *)
theory Hd_Inflate
  imports Hd_Deflate
begin

text \<open>
  The HPACK inflater of \<open>nghttp2_hd.c\<close>: a resumable decoder that is fed fragments of a header
  block and returns at each field.  The input pointer is the list of the bytes that are left, and a
  read or a store outside an array, like a failed assertion, is \<open>None\<close>.

  The reference-counted buffers \<open>namercbuf\<close> and \<open>valuercbuf\<close> own the blocks that \<open>namebuf\<close> and
  \<open>valuebuf\<close> write to, so the model keeps only their lengths; their reference counts are the
  subject of \<open>Rcbuf\<close>.
\<close>

subsection \<open>Data\<close>

datatype nghttp2_hd_opcode =
  NGHTTP2_HD_OPCODE_NONE | NGHTTP2_HD_OPCODE_INDEXED | NGHTTP2_HD_OPCODE_NEWNAME | NGHTTP2_HD_OPCODE_INDNAME

datatype nghttp2_hd_inflate_state =
  NGHTTP2_HD_STATE_EXPECT_TABLE_SIZE | NGHTTP2_HD_STATE_INFLATE_START | NGHTTP2_HD_STATE_OPCODE |
  NGHTTP2_HD_STATE_READ_TABLE_SIZE | NGHTTP2_HD_STATE_READ_INDEX |
  NGHTTP2_HD_STATE_NEWNAME_CHECK_NAMELEN | NGHTTP2_HD_STATE_NEWNAME_READ_NAMELEN |
  NGHTTP2_HD_STATE_NEWNAME_READ_NAMEHUFF | NGHTTP2_HD_STATE_NEWNAME_READ_NAME |
  NGHTTP2_HD_STATE_CHECK_VALUELEN | NGHTTP2_HD_STATE_READ_VALUELEN |
  NGHTTP2_HD_STATE_READ_VALUEHUFF | NGHTTP2_HD_STATE_READ_VALUE

record nghttp2_hd_inflater =
  ifl_ctx :: nghttp2_hd_context
  huff_decode_ctx :: nghttp2_hd_huff_decode_context
  namebuf :: nghttp2_buf
  valuebuf :: nghttp2_buf
  namercbuf :: "nat option"
  valuercbuf :: "nat option"
  nv_name_keep :: "bytes option"
  nv_value_keep :: "bytes option"
  left :: nat
  index :: nat
  settings_hd_table_bufsize_max :: nat
  ifl_min_hd_table_bufsize_max :: nat
  ifl_shift :: nat
  opcode :: nghttp2_hd_opcode
  ifl_state :: nghttp2_hd_inflate_state
  huffman_encoded :: bool
  index_required :: bool
  no_index :: bool

definition NGHTTP2_HD_MAX_NV :: nat where "NGHTTP2_HD_MAX_NV = 65536"
definition NGHTTP2_HD_INFLATE_NONE :: nat where "NGHTTP2_HD_INFLATE_NONE = 0"
definition NGHTTP2_HD_INFLATE_FINAL :: nat where "NGHTTP2_HD_INFLATE_FINAL = 1"
definition NGHTTP2_HD_INFLATE_EMIT :: nat where "NGHTTP2_HD_INFLATE_EMIT = 2"

lemmas inflate_consts [ng_defs] =
  NGHTTP2_HD_MAX_NV_def NGHTTP2_HD_INFLATE_NONE_def NGHTTP2_HD_INFLATE_FINAL_def NGHTTP2_HD_INFLATE_EMIT_def

definition nghttp2_hd_inflate_init :: "allocator \<Rightarrow> rc + nghttp2_hd_inflater" where
  "nghttp2_hd_inflate_init al =
     (case hd_context_init al of
        Inl rv \<Rightarrow> Inl rv
      | Inr ctx \<Rightarrow>
          Inr \<lparr>ifl_ctx = ctx, huff_decode_ctx = nghttp2_hd_huff_decode_context_init,
               namebuf = nghttp2_buf_init, valuebuf = nghttp2_buf_init, namercbuf = None, valuercbuf = None,
               nv_name_keep = None, nv_value_keep = None, left = 0, index = 0,
               settings_hd_table_bufsize_max = NGHTTP2_HD_DEFAULT_MAX_BUFFER_SIZE,
               ifl_min_hd_table_bufsize_max = UINT32_MAX, ifl_shift = 0, opcode = NGHTTP2_HD_OPCODE_NONE,
               ifl_state = NGHTTP2_HD_STATE_INFLATE_START, huffman_encoded = False, index_required = False, no_index = False\<rparr>)"

definition hd_inflate_keep_free :: "nghttp2_hd_inflater \<Rightarrow> nghttp2_hd_inflater" where
  "hd_inflate_keep_free inflater = inflater\<lparr>nv_value_keep := None, nv_name_keep := None\<rparr>"

definition nghttp2_hd_inflate_change_table_size ::
  "nghttp2_hd_inflater \<Rightarrow> nat \<Rightarrow> (rc \<times> nghttp2_hd_inflater) option" where
  "nghttp2_hd_inflate_change_table_size inflater settings_max =
     (if ifl_state inflater \<noteq> NGHTTP2_HD_STATE_EXPECT_TABLE_SIZE \<and> ifl_state inflater \<noteq> NGHTTP2_HD_STATE_INFLATE_START
      then Some (NGHTTP2_ERR_INVALID_STATE, inflater)
      else
        let inflater = inflater\<lparr>settings_hd_table_bufsize_max := settings_max\<rparr>
        in if hd_table_bufsize_max (ifl_ctx inflater) > settings_max then
             do { (ctx, _) \<leftarrow> hd_context_shrink_table_size ((ifl_ctx inflater)\<lparr>hd_table_bufsize_max := settings_max\<rparr>) None;
                  Some (0, inflater\<lparr>ifl_state := NGHTTP2_HD_STATE_EXPECT_TABLE_SIZE,
                                    ifl_min_hd_table_bufsize_max := settings_max, ifl_ctx := ctx\<rparr>) }
           else Some (0, inflater))"

subsection \<open>Reading\<close>

definition hd_inflate_set_huffman_encoded :: "nghttp2_hd_inflater \<Rightarrow> bytes \<Rightarrow> nghttp2_hd_inflater option" where
  "hd_inflate_set_huffman_encoded inflater inp =
     (case inp of [] \<Rightarrow> None | b # _ \<Rightarrow> Some (inflater\<lparr>huffman_encoded := b AND push_bit 7 1 \<noteq> 0\<rparr>))"

text \<open>The return value, \<open>*rfin\<close> and the inflater.\<close>

definition hd_inflate_read_len ::
  "nghttp2_hd_inflater \<Rightarrow> bytes \<Rightarrow> nat \<Rightarrow> nat \<Rightarrow> (int \<times> bool \<times> nghttp2_hd_inflater) option" where
  "hd_inflate_read_len inflater inp prefix maxlen =
     do { (rv, out, sh, rfin) \<leftarrow> decode_length (left inflater mod 2 ^ 32) (ifl_shift inflater) inp prefix;
          let inflater = inflater\<lparr>ifl_shift := sh\<rparr>;
          if rv = -1 then Some (NGHTTP2_ERR_HEADER_COMP, rfin, inflater)
          else if out > maxlen then Some (NGHTTP2_ERR_HEADER_COMP, rfin, inflater)
          else Some (rv, rfin, inflater\<lparr>left := out\<rparr>) }"

text \<open>The buffer is \<open>namebuf\<close> or \<open>valuebuf\<close>; the updated one is part of the result.\<close>

definition hd_inflate_read_huff ::
  "nghttp2_hd_inflater \<Rightarrow> nghttp2_buf \<Rightarrow> bytes \<Rightarrow> (int \<times> nghttp2_hd_inflater \<times> nghttp2_buf) option" where
  "hd_inflate_read_huff inflater buf inp =
     (let (src, fin) = (if length inp \<ge> left inflater then (take (left inflater) inp, True) else (inp, False))
      in do { (readlen, hctx, buf) \<leftarrow> nghttp2_hd_huff_decode (huff_decode_ctx inflater) buf src fin;
              let inflater = inflater\<lparr>huff_decode_ctx := hctx\<rparr>;
              if readlen < 0 then Some (readlen, inflater, buf)
              else if nghttp2_hd_huff_decode_failure_state (huff_decode_ctx inflater)
                then Some (NGHTTP2_ERR_HEADER_COMP, inflater, buf)
              else Some (readlen, inflater\<lparr>left := left inflater - nat readlen\<rparr>, buf) })"

definition hd_inflate_read ::
  "nghttp2_hd_inflater \<Rightarrow> nghttp2_buf \<Rightarrow> bytes \<Rightarrow> (int \<times> nghttp2_hd_inflater \<times> nghttp2_buf) option" where
  "hd_inflate_read inflater buf inp =
     (let len = min (length inp) (left inflater)
      in do { buf \<leftarrow> buf_put buf (take len inp);
              Some (int len, inflater\<lparr>left := left inflater - len\<rparr>, buf) })"

text \<open>A reference-counted buffer has a header of 40 bytes before its block.\<close>

definition nghttp2_rcbuf_new :: "allocator \<Rightarrow> nat \<Rightarrow> bytes option" where
  "nghttp2_rcbuf_new al n = (if mem_ok al (40 + n) then Some (map (mem_fill al) [40..<40 + n]) else None)"

text \<open>The bytes of a reference-counted buffer of length \<open>len\<close> over a block; \<open>None\<close> when the pointer is null.\<close>

definition rcbuf_bytes :: "nghttp2_buf \<Rightarrow> nat option \<Rightarrow> bytes option" where
  "rcbuf_bytes b rc = map_option (\<lambda>len. take len (buf_mem b)) rc"

subsection \<open>Emission\<close>

definition hd_inflate_commit_indexed :: "nghttp2_hd_inflater \<Rightarrow> nghttp2_hd_nv option" where
  "hd_inflate_commit_indexed inflater = nghttp2_hd_table_get (ifl_ctx inflater) (index inflater)"

definition commit_flags :: "nghttp2_hd_inflater \<Rightarrow> u8" where
  "commit_flags inflater = (if no_index inflater then NGHTTP2_NV_FLAG_NO_INDEX else NGHTTP2_NV_FLAG_NONE)"

text \<open>The part the two commits share: the field joins the table if the representation asks for it.\<close>

definition inflate_add :: "nghttp2_hd_inflater \<Rightarrow> nghttp2_hd_nv \<Rightarrow> (rc \<times> nghttp2_hd_inflater) option" where
  "inflate_add inflater nv =
     (if index_required inflater then
        do { (rv, ctx, _) \<leftarrow> add_hd_table_incremental (ifl_ctx inflater) nv None 0; Some (rv, inflater\<lparr>ifl_ctx := ctx\<rparr>) }
      else Some (0, inflater))"

definition hd_inflate_commit_newname ::
  "nghttp2_hd_inflater \<Rightarrow> (rc \<times> nghttp2_hd_inflater \<times> nghttp2_hd_nv) option" where
  "hd_inflate_commit_newname inflater =
     do { name \<leftarrow> rcbuf_bytes (namebuf inflater) (namercbuf inflater);
          val \<leftarrow> rcbuf_bytes (valuebuf inflater) (valuercbuf inflater);
          let nv = \<lparr>hd_name = name, hd_value = val, hd_token = lookup_token name, hd_flags = commit_flags inflater\<rparr>;
          (rv, inflater) \<leftarrow> inflate_add inflater nv;
          if rv \<noteq> 0 then Some (rv, inflater, nv)
          else Some (0, inflater\<lparr>nv_name_keep := Some (hd_name nv), nv_value_keep := Some (hd_value nv),
                                 namercbuf := None, valuercbuf := None\<rparr>, nv) }"

definition hd_inflate_commit_indname ::
  "nghttp2_hd_inflater \<Rightarrow> (rc \<times> nghttp2_hd_inflater \<times> nghttp2_hd_nv) option" where
  "hd_inflate_commit_indname inflater =
     do { nv \<leftarrow> nghttp2_hd_table_get (ifl_ctx inflater) (index inflater);
          val \<leftarrow> rcbuf_bytes (valuebuf inflater) (valuercbuf inflater);
          let nv = nv\<lparr>hd_flags := commit_flags inflater, hd_value := val\<rparr>;
          (rv, inflater) \<leftarrow> inflate_add inflater nv;
          if rv \<noteq> 0 then Some (NGHTTP2_ERR_NOMEM, inflater, nv)
          else Some (0, inflater\<lparr>nv_name_keep := Some (hd_name nv), nv_value_keep := Some (hd_value nv),
                                 valuercbuf := None\<rparr>, nv) }"

subsection \<open>The state machine\<close>

text \<open>
  How one turn of the loop of \<open>nghttp2_hd_inflate_hd_nv\<close> ends: with the next turn (and \<open>busy\<close>), at
  \<open>almost_ok\<close>, at \<open>fail\<close>, or by returning a field.
\<close>

datatype inflate_turn =
  Turn_Next nghttp2_hd_inflater bytes bool
| Turn_Almost nghttp2_hd_inflater bytes
| Turn_Fail int nghttp2_hd_inflater
| Turn_Emit nghttp2_hd_inflater bytes nghttp2_hd_nv

text \<open>\<open>INFLATE_START\<close> and \<open>OPCODE\<close>, which \<open>EXPECT_TABLE_SIZE\<close> falls through to.\<close>

definition inflate_opcode :: "nghttp2_hd_inflater \<Rightarrow> u8 \<Rightarrow> bytes \<Rightarrow> inflate_turn" where
  "inflate_opcode inflater b inp =
     (if b AND 0xe0 = 0x20 then
        if ifl_state inflater = NGHTTP2_HD_STATE_OPCODE then Turn_Fail NGHTTP2_ERR_HEADER_COMP inflater
        else Turn_Next (inflater\<lparr>opcode := NGHTTP2_HD_OPCODE_INDEXED, ifl_state := NGHTTP2_HD_STATE_READ_TABLE_SIZE,
                                 left := 0, ifl_shift := 0\<rparr>) (b # inp) False
      else if b AND 0x80 \<noteq> 0 then
        Turn_Next (inflater\<lparr>opcode := NGHTTP2_HD_OPCODE_INDEXED, ifl_state := NGHTTP2_HD_STATE_READ_INDEX,
                            left := 0, ifl_shift := 0\<rparr>) (b # inp) False
      else
        let inflater =
              (if b = 0x40 \<or> b = 0 \<or> b = 0x10
               then inflater\<lparr>opcode := NGHTTP2_HD_OPCODE_NEWNAME, ifl_state := NGHTTP2_HD_STATE_NEWNAME_CHECK_NAMELEN\<rparr>
               else inflater\<lparr>opcode := NGHTTP2_HD_OPCODE_INDNAME, ifl_state := NGHTTP2_HD_STATE_READ_INDEX\<rparr>);
            inflater = inflater\<lparr>index_required := b AND 0x40 \<noteq> 0, no_index := b AND 0xf0 = 0x10\<rparr>
        in Turn_Next (inflater\<lparr>left := 0, ifl_shift := 0\<rparr>)
             (if opcode inflater = NGHTTP2_HD_OPCODE_NEWNAME then inp else b # inp) False)"

definition inflate_table_size :: "nghttp2_hd_inflater \<Rightarrow> bytes \<Rightarrow> inflate_turn option" where
  "inflate_table_size inflater inp =
     do { (rv, rfin, inflater) \<leftarrow> hd_inflate_read_len inflater inp 5
            (min (ifl_min_hd_table_bufsize_max inflater) (settings_hd_table_bufsize_max inflater));
          if rv < 0 then Some (Turn_Fail rv inflater)
          else
            let inp = drop (nat rv) inp
            in if \<not> rfin then Some (Turn_Almost inflater inp)
               else
                 do { (ctx, _) \<leftarrow> hd_context_shrink_table_size ((ifl_ctx inflater)\<lparr>hd_table_bufsize_max := left inflater\<rparr>) None;
                      Some (Turn_Next (inflater\<lparr>ifl_min_hd_table_bufsize_max := UINT32_MAX, ifl_ctx := ctx,
                                                ifl_state := NGHTTP2_HD_STATE_INFLATE_START\<rparr>) inp False) } }"

definition inflate_index :: "nghttp2_hd_inflater \<Rightarrow> bytes \<Rightarrow> inflate_turn option" where
  "inflate_index inflater inp =
     (let prefixlen = (if opcode inflater = NGHTTP2_HD_OPCODE_INDEXED then 7 else if index_required inflater then 6 else 4)
      in do { (rv, rfin, inflater) \<leftarrow> hd_inflate_read_len inflater inp prefixlen (get_max_index (ifl_ctx inflater));
              if rv < 0 then Some (Turn_Fail rv inflater)
              else
                let inp = drop (nat rv) inp
                in if \<not> rfin then Some (Turn_Almost inflater inp)
                   else if left inflater = 0 then Some (Turn_Fail NGHTTP2_ERR_HEADER_COMP inflater)
                   else
                     let inflater = inflater\<lparr>index := left inflater - 1\<rparr>
                     in if opcode inflater = NGHTTP2_HD_OPCODE_INDEXED then
                          do { nv \<leftarrow> hd_inflate_commit_indexed inflater;
                               Some (Turn_Emit (inflater\<lparr>ifl_state := NGHTTP2_HD_STATE_OPCODE\<rparr>) inp nv) }
                        else Some (Turn_Next (inflater\<lparr>ifl_state := NGHTTP2_HD_STATE_CHECK_VALUELEN\<rparr>) inp False) })"

definition inflate_namelen :: "nghttp2_hd_inflater \<Rightarrow> bytes \<Rightarrow> inflate_turn option" where
  "inflate_namelen inflater inp =
     do { (rv, rfin, inflater) \<leftarrow> hd_inflate_read_len inflater inp 7 NGHTTP2_HD_MAX_NV;
          if rv < 0 then Some (Turn_Fail rv inflater)
          else
            let inp = drop (nat rv) inp
            in if \<not> rfin then Some (Turn_Almost inflater inp)
               else
                 let inflater =
                       (if huffman_encoded inflater
                        then inflater\<lparr>huff_decode_ctx := nghttp2_hd_huff_decode_context_init,
                                      ifl_state := NGHTTP2_HD_STATE_NEWNAME_READ_NAMEHUFF\<rparr>
                        else inflater\<lparr>ifl_state := NGHTTP2_HD_STATE_NEWNAME_READ_NAME\<rparr>);
                     sz = (if huffman_encoded inflater then left inflater * 2 + 1 else left inflater + 1)
                 in Some (case nghttp2_rcbuf_new (ctx_mem (ifl_ctx inflater)) sz of
                            None \<Rightarrow> Turn_Fail NGHTTP2_ERR_NOMEM inflater
                          | Some base \<Rightarrow>
                              Turn_Next (inflater\<lparr>namercbuf := Some (length base), namebuf := nghttp2_buf_wrap_init base\<rparr>)
                                inp False) }"

text \<open>What follows a read of name bytes, and a read of value bytes.\<close>

definition inflate_name_read ::
  "bytes \<Rightarrow> int \<times> nghttp2_hd_inflater \<times> nghttp2_buf \<Rightarrow> inflate_turn option" where
  "inflate_name_read inp = (\<lambda>(rv, inflater, buf).
     let inflater = inflater\<lparr>namebuf := buf\<rparr>
     in if rv < 0 then Some (Turn_Fail rv inflater)
        else
          let inp = drop (nat rv) inp
          in if left inflater \<noteq> 0 then Some (Turn_Almost inflater inp)
             else
               do { buf \<leftarrow> buf_store (namebuf inflater) 0;
                    Some (Turn_Next (inflater\<lparr>namebuf := buf, namercbuf := Some (nghttp2_buf_len buf),
                                              ifl_state := NGHTTP2_HD_STATE_CHECK_VALUELEN\<rparr>) inp False) })"

definition inflate_valuelen :: "nghttp2_hd_inflater \<Rightarrow> bytes \<Rightarrow> inflate_turn option" where
  "inflate_valuelen inflater inp =
     do { (rv, rfin, inflater) \<leftarrow> hd_inflate_read_len inflater inp 7 NGHTTP2_HD_MAX_NV;
          if rv < 0 then Some (Turn_Fail rv inflater)
          else
            let inp = drop (nat rv) inp
            in if \<not> rfin then Some (Turn_Almost inflater inp)
               else
                 let inflater =
                       (if huffman_encoded inflater
                        then inflater\<lparr>huff_decode_ctx := nghttp2_hd_huff_decode_context_init,
                                      ifl_state := NGHTTP2_HD_STATE_READ_VALUEHUFF\<rparr>
                        else inflater\<lparr>ifl_state := NGHTTP2_HD_STATE_READ_VALUE\<rparr>);
                     sz = (if huffman_encoded inflater then left inflater * 2 + 1 else left inflater + 1)
                 in Some (case nghttp2_rcbuf_new (ctx_mem (ifl_ctx inflater)) sz of
                            None \<Rightarrow> Turn_Fail NGHTTP2_ERR_NOMEM inflater
                          | Some base \<Rightarrow>
                              Turn_Next (inflater\<lparr>valuercbuf := Some (length base), valuebuf := nghttp2_buf_wrap_init base\<rparr>)
                                inp True) }"

definition inflate_value_read ::
  "bytes \<Rightarrow> int \<times> nghttp2_hd_inflater \<times> nghttp2_buf \<Rightarrow> inflate_turn option" where
  "inflate_value_read inp = (\<lambda>(rv, inflater, buf).
     let inflater = inflater\<lparr>valuebuf := buf\<rparr>
     in if rv < 0 then Some (Turn_Fail rv inflater)
        else
          let inp = drop (nat rv) inp
          in if left inflater \<noteq> 0 then Some (Turn_Almost inflater inp)
             else
               do { buf \<leftarrow> buf_store (valuebuf inflater) 0;
                    let inflater = inflater\<lparr>valuebuf := buf, valuercbuf := Some (nghttp2_buf_len buf)\<rparr>;
                    (rv, inflater, nv) \<leftarrow> (if opcode inflater = NGHTTP2_HD_OPCODE_NEWNAME
                                         then hd_inflate_commit_newname inflater
                                         else hd_inflate_commit_indname inflater);
                    if rv \<noteq> 0 then Some (Turn_Fail rv inflater)
                    else Some (Turn_Emit (inflater\<lparr>ifl_state := NGHTTP2_HD_STATE_OPCODE\<rparr>) inp nv) })"

definition inflate_step :: "nghttp2_hd_inflater \<Rightarrow> bytes \<Rightarrow> inflate_turn option" where
  "inflate_step inflater inp =
     (case ifl_state inflater of
        NGHTTP2_HD_STATE_EXPECT_TABLE_SIZE \<Rightarrow>
          (case inp of
             [] \<Rightarrow> None
           | b # inp \<Rightarrow>
               if b AND 0xe0 \<noteq> 0x20 then Some (Turn_Fail NGHTTP2_ERR_HEADER_COMP inflater)
               else Some (inflate_opcode inflater b inp))
      | NGHTTP2_HD_STATE_INFLATE_START \<Rightarrow> (case inp of [] \<Rightarrow> None | b # inp \<Rightarrow> Some (inflate_opcode inflater b inp))
      | NGHTTP2_HD_STATE_OPCODE \<Rightarrow> (case inp of [] \<Rightarrow> None | b # inp \<Rightarrow> Some (inflate_opcode inflater b inp))
      | NGHTTP2_HD_STATE_READ_TABLE_SIZE \<Rightarrow> inflate_table_size inflater inp
      | NGHTTP2_HD_STATE_READ_INDEX \<Rightarrow> inflate_index inflater inp
      | NGHTTP2_HD_STATE_NEWNAME_CHECK_NAMELEN \<Rightarrow>
          do { inflater \<leftarrow> hd_inflate_set_huffman_encoded inflater inp;
               inflate_namelen (inflater\<lparr>ifl_state := NGHTTP2_HD_STATE_NEWNAME_READ_NAMELEN, left := 0, ifl_shift := 0\<rparr>) inp }
      | NGHTTP2_HD_STATE_NEWNAME_READ_NAMELEN \<Rightarrow> inflate_namelen inflater inp
      | NGHTTP2_HD_STATE_NEWNAME_READ_NAMEHUFF \<Rightarrow>
          hd_inflate_read_huff inflater (namebuf inflater) inp \<bind> inflate_name_read inp
      | NGHTTP2_HD_STATE_NEWNAME_READ_NAME \<Rightarrow>
          hd_inflate_read inflater (namebuf inflater) inp \<bind> inflate_name_read inp
      | NGHTTP2_HD_STATE_CHECK_VALUELEN \<Rightarrow>
          do { inflater \<leftarrow> hd_inflate_set_huffman_encoded inflater inp;
               inflate_valuelen (inflater\<lparr>ifl_state := NGHTTP2_HD_STATE_READ_VALUELEN, left := 0, ifl_shift := 0\<rparr>) inp }
      | NGHTTP2_HD_STATE_READ_VALUELEN \<Rightarrow> inflate_valuelen inflater inp
      | NGHTTP2_HD_STATE_READ_VALUEHUFF \<Rightarrow>
          hd_inflate_read_huff inflater (valuebuf inflater) inp \<bind> inflate_value_read inp
      | NGHTTP2_HD_STATE_READ_VALUE \<Rightarrow>
          hd_inflate_read inflater (valuebuf inflater) inp \<bind> inflate_value_read inp)"

subsection \<open>The loop ends\<close>

text \<open>
  A turn that continues consumes input or leaves a state that reads none; the measure counts both.
  The first turn may find an empty input when \<open>busy\<close> is set.
\<close>

fun turn_rank :: "nghttp2_hd_inflate_state \<Rightarrow> nat" where
  "turn_rank NGHTTP2_HD_STATE_EXPECT_TABLE_SIZE = 1"
| "turn_rank NGHTTP2_HD_STATE_INFLATE_START = 1"
| "turn_rank NGHTTP2_HD_STATE_OPCODE = 1"
| "turn_rank NGHTTP2_HD_STATE_NEWNAME_READ_NAMEHUFF = 1"
| "turn_rank NGHTTP2_HD_STATE_NEWNAME_READ_NAME = 1"
| "turn_rank _ = 0"

lemma decode_loop_count:
  "decode_length_loop c n s xs = (rv, out, sh, fin) \<Longrightarrow> fin \<Longrightarrow> int c < rv \<and> rv \<le> int (c + length xs)"
  by (induction c n s xs rule: decode_length_loop.induct) (fastforce simp: Let_def split: if_splits)+

lemma decode_length_count:
  "decode_length n s xs p = Some (rv, out, sh, True) \<Longrightarrow> rv \<noteq> -1 \<Longrightarrow> 0 < rv \<and> rv \<le> int (length xs)"
  by (auto simp: decode_length_def Let_def split: if_splits list.splits dest: decode_loop_count)

lemma read_len_count:
  "hd_inflate_read_len i inp p mx = Some (rv, True, i') \<Longrightarrow> \<not> rv < 0 \<Longrightarrow> 0 < nat rv \<and> nat rv \<le> length inp"
  by (auto simp: hd_inflate_read_len_def Let_def ng_defs split: Option.bind_splits if_splits dest!: decode_length_count)

lemma turn_decreases:
  assumes "inflate_step i inp = Some (Turn_Next i' inp' busy)"
  shows "2 * length inp' + turn_rank (ifl_state i') < 2 * length inp + turn_rank (ifl_state i)"
proof (cases "ifl_state i")
qed (use assms in \<open>auto simp: inflate_step_def inflate_opcode_def inflate_table_size_def inflate_index_def inflate_namelen_def
  inflate_valuelen_def inflate_name_read_def inflate_value_read_def hd_inflate_set_huffman_encoded_def Let_def
  split: Option.bind_splits if_splits list.splits option.splits dest!: read_len_count\<close>)

function hd_inflate_loop :: "nghttp2_hd_inflater \<Rightarrow> bytes \<Rightarrow> bool \<Rightarrow> inflate_turn option" where
  "hd_inflate_loop inflater inp busy =
     (if inp = [] \<and> \<not> busy then Some (Turn_Next inflater inp False)
      else case inflate_step inflater inp of
          None \<Rightarrow> None
        | Some (Turn_Next inflater inp busy) \<Rightarrow> hd_inflate_loop inflater inp busy
        | Some r \<Rightarrow> Some r)"
  by pat_completeness auto
termination
  by (relation "measure (\<lambda>(i, inp, busy). 2 * length inp + turn_rank (ifl_state i))") (auto dest: turn_decreases)

declare hd_inflate_loop.simps [simp del]

definition inflate_fail :: "int \<Rightarrow> nghttp2_hd_inflater \<Rightarrow> int \<times> nghttp2_hd_inflater" where
  "inflate_fail rv inflater = (rv, inflater\<lparr>ifl_ctx := (ifl_ctx inflater)\<lparr>bad := True\<rparr>\<rparr>)"

text \<open>
  The value returned, the inflater, \<open>*inflate_flags\<close> (which the caller passes with some value) and
  \<open>*nv_out\<close>, if it was written.
\<close>

definition nghttp2_hd_inflate_hd_nv ::
  "nghttp2_hd_inflater \<Rightarrow> nat \<Rightarrow> bytes \<Rightarrow> bool \<Rightarrow> (int \<times> nghttp2_hd_inflater \<times> nat \<times> nghttp2_hd_nv option) option" where
  "nghttp2_hd_inflate_hd_nv inflater inflate_flags inp in_final =
     (if bad (ifl_ctx inflater) then Some (NGHTTP2_ERR_HEADER_COMP, inflater, inflate_flags, None)
      else
        let inflater = hd_inflate_keep_free inflater;
            flags = NGHTTP2_HD_INFLATE_NONE;
            fail = (\<lambda>rv i. let (rv, i) = inflate_fail rv i in (rv, i, flags, None));
            count = (\<lambda>rest. int (length inp) - int (length rest))
        in do { r \<leftarrow> hd_inflate_loop inflater inp False;
                case r of
                  Turn_Fail rv i \<Rightarrow> Some (fail rv i)
                | Turn_Emit i rest nv \<Rightarrow> Some (count rest, i, flags OR NGHTTP2_HD_INFLATE_EMIT, Some nv)
                | Turn_Almost i rest \<Rightarrow>
                    if in_final then Some (fail NGHTTP2_ERR_HEADER_COMP i) else Some (count rest, i, flags, None)
                | Turn_Next i rest _ \<Rightarrow>
                    if rest \<noteq> [] then None
                    else if in_final then
                      if ifl_state i \<noteq> NGHTTP2_HD_STATE_OPCODE \<and> ifl_state i \<noteq> NGHTTP2_HD_STATE_INFLATE_START
                      then Some (fail NGHTTP2_ERR_HEADER_COMP i)
                      else Some (count rest, i, flags OR NGHTTP2_HD_INFLATE_FINAL, None)
                    else Some (count rest, i, flags, None) })"

definition nghttp2_hd_inflate_hd3 ::
  "nghttp2_hd_inflater \<Rightarrow> nat \<Rightarrow> bytes \<Rightarrow> bool \<Rightarrow> (int \<times> nghttp2_hd_inflater \<times> nat \<times> nghttp2_nv option) option" where
  "nghttp2_hd_inflate_hd3 inflater inflate_flags inp in_final =
     do { (rv, inflater, flags, hd_nv) \<leftarrow> nghttp2_hd_inflate_hd_nv inflater inflate_flags inp in_final;
          if rv < 0 then Some (rv, inflater, flags, None)
          else if flags AND NGHTTP2_HD_INFLATE_EMIT \<noteq> 0 then
            do { h \<leftarrow> hd_nv;
                 Some (rv, inflater, flags, Some \<lparr>nv_name = hd_name h, nv_value = hd_value h, nv_flags = hd_flags h\<rparr>) }
          else Some (rv, inflater, flags, None) }"

definition nghttp2_hd_inflate_hd2 ::
  "nghttp2_hd_inflater \<Rightarrow> nat \<Rightarrow> bytes \<Rightarrow> bool \<Rightarrow> (int \<times> nghttp2_hd_inflater \<times> nat \<times> nghttp2_nv option) option" where
  "nghttp2_hd_inflate_hd2 inflater inflate_flags inp in_final = nghttp2_hd_inflate_hd3 inflater inflate_flags inp in_final"

definition nghttp2_hd_inflate_end_headers :: "nghttp2_hd_inflater \<Rightarrow> rc \<times> nghttp2_hd_inflater" where
  "nghttp2_hd_inflate_end_headers inflater =
     (0, (hd_inflate_keep_free inflater)\<lparr>ifl_state := NGHTTP2_HD_STATE_INFLATE_START\<rparr>)"

definition nghttp2_hd_inflate_get_num_table_entries :: "nghttp2_hd_inflater \<Rightarrow> nat" where
  "nghttp2_hd_inflate_get_num_table_entries inflater = get_max_index (ifl_ctx inflater)"

definition nghttp2_hd_inflate_get_table_entry :: "nghttp2_hd_inflater \<Rightarrow> nat \<Rightarrow> nghttp2_nv option option" where
  "nghttp2_hd_inflate_get_table_entry inflater idx = hd_get_table_entry (ifl_ctx inflater) idx"

definition nghttp2_hd_inflate_get_dynamic_table_size :: "nghttp2_hd_inflater \<Rightarrow> nat" where
  "nghttp2_hd_inflate_get_dynamic_table_size inflater = hd_table_bufsize (ifl_ctx inflater)"

definition nghttp2_hd_inflate_get_max_dynamic_table_size :: "nghttp2_hd_inflater \<Rightarrow> nat" where
  "nghttp2_hd_inflate_get_max_dynamic_table_size inflater = hd_table_bufsize_max (ifl_ctx inflater)"

subsection \<open>The invariant\<close>

text \<open>
  \<open>str_dest\<close>: the block of a string that is being read has room for what is left and for the
  terminator, and the Huffman state is one that some input reaches.  \<open>name_known\<close>: the name of a
  literal whose value is being read is available.
\<close>

definition huff_reach :: "nghttp2_hd_huff_decode_context \<Rightarrow> bool" where
  "huff_reach h \<longleftrightarrow> (\<exists>bits out. dec_rel bits (fstate h) out)"

definition str_dest :: "bool \<Rightarrow> nghttp2_hd_inflater \<Rightarrow> nghttp2_buf \<Rightarrow> bool" where
  "str_dest huff i b \<longleftrightarrow> buf_ok b \<and> buf_pos b = 0 \<and>
     (if huff then left i * 2 + 1 \<le> nghttp2_buf_avail b \<and> huff_reach (huff_decode_ctx i)
      else left i + 1 \<le> nghttp2_buf_avail b)"

definition name_known :: "nghttp2_hd_inflater \<Rightarrow> bool" where
  "name_known i \<longleftrightarrow> (if opcode i = NGHTTP2_HD_OPCODE_NEWNAME then namercbuf i \<noteq> None
     else index i < 61 + length (ents (ifl_ctx i)))"

definition state_ok :: "nghttp2_hd_inflater \<Rightarrow> bool" where
  "state_ok i \<longleftrightarrow>
     (case ifl_state i of
        NGHTTP2_HD_STATE_READ_INDEX \<Rightarrow> opcode i \<noteq> NGHTTP2_HD_OPCODE_NEWNAME
      | NGHTTP2_HD_STATE_NEWNAME_CHECK_NAMELEN \<Rightarrow> opcode i = NGHTTP2_HD_OPCODE_NEWNAME
      | NGHTTP2_HD_STATE_NEWNAME_READ_NAMELEN \<Rightarrow> opcode i = NGHTTP2_HD_OPCODE_NEWNAME
      | NGHTTP2_HD_STATE_NEWNAME_READ_NAMEHUFF \<Rightarrow> opcode i = NGHTTP2_HD_OPCODE_NEWNAME \<and> str_dest True i (namebuf i)
      | NGHTTP2_HD_STATE_NEWNAME_READ_NAME \<Rightarrow> opcode i = NGHTTP2_HD_OPCODE_NEWNAME \<and> str_dest False i (namebuf i)
      | NGHTTP2_HD_STATE_CHECK_VALUELEN \<Rightarrow> name_known i
      | NGHTTP2_HD_STATE_READ_VALUELEN \<Rightarrow> name_known i
      | NGHTTP2_HD_STATE_READ_VALUEHUFF \<Rightarrow> name_known i \<and> str_dest True i (valuebuf i)
      | NGHTTP2_HD_STATE_READ_VALUE \<Rightarrow> name_known i \<and> str_dest False i (valuebuf i)
      | _ \<Rightarrow> True)"

definition ifl_ok :: "nghttp2_hd_inflater \<Rightarrow> bool" where
  "ifl_ok i \<longleftrightarrow> ctx_inv (ifl_ctx i) \<and> \<not> bad (ifl_ctx i) \<and> left i \<le> UINT32_MAX \<and> state_ok i"

definition ifl_inv :: "nghttp2_hd_inflater \<Rightarrow> bool" where
  "ifl_inv i \<longleftrightarrow> ctx_inv (ifl_ctx i) \<and> (bad (ifl_ctx i) \<or> ifl_ok i)"

text \<open>What a turn promises: no access outside an array, the invariant, and a suffix of the input.\<close>

definition is_suffix :: "bytes \<Rightarrow> bytes \<Rightarrow> bool" where
  "is_suffix inp inp' \<longleftrightarrow> (\<exists>n \<le> length inp. inp' = drop n inp)"

definition is_err :: "int \<Rightarrow> bool" where
  "is_err rv \<longleftrightarrow> rv = NGHTTP2_ERR_HEADER_COMP \<or> rv = NGHTTP2_ERR_NOMEM"

definition value_state :: "nghttp2_hd_inflater \<Rightarrow> bool" where
  "value_state i \<longleftrightarrow> ifl_state i = NGHTTP2_HD_STATE_READ_VALUEHUFF \<or> ifl_state i = NGHTTP2_HD_STATE_READ_VALUE"

fun turn_ok :: "bytes \<Rightarrow> inflate_turn \<Rightarrow> bool" where
  "turn_ok inp (Turn_Next i inp' busy) \<longleftrightarrow> ifl_ok i \<and> is_suffix inp inp' \<and> (busy \<longrightarrow> value_state i)"
| "turn_ok inp (Turn_Almost i inp') \<longleftrightarrow> ifl_ok i \<and> inp' = []"
| "turn_ok inp (Turn_Fail rv i) \<longleftrightarrow> ctx_inv (ifl_ctx i) \<and> is_err rv"
| "turn_ok inp (Turn_Emit i inp' nv) \<longleftrightarrow> ifl_ok i \<and> ifl_state i = NGHTTP2_HD_STATE_OPCODE \<and> is_suffix inp inp'"

lemma is_suffix_simps [simp]: "is_suffix inp inp" "is_suffix (b # inp) inp" "n \<le> length inp \<Longrightarrow> is_suffix inp (drop n inp)"
  by (auto simp: is_suffix_def intro: exI [of _ 0] exI [of _ 1])

lemma is_suffix_trans: "is_suffix a b \<Longrightarrow> is_suffix b c \<Longrightarrow> is_suffix a c"
proof (unfold is_suffix_def, elim exE conjE)
  fix m n assume "m \<le> length a" "b = drop m a" "n \<le> length b" "c = drop n b"
  then show "\<exists>k \<le> length a. c = drop k a" by (intro exI [of _ "n + m"]) simp
qed

lemma is_suffix_length: "is_suffix a b \<Longrightarrow> length b \<le> length a"
  by (auto simp: is_suffix_def)

lemma read_len_spec:
  assumes "left i \<le> UINT32_MAX" "inp \<noteq> []" "p \<le> 8"
  shows "\<exists>rv rfin sh out. hd_inflate_read_len i inp p mx = Some (rv, rfin, i\<lparr>ifl_shift := sh, left := out\<rparr>) \<and> out \<le> UINT32_MAX \<and>
    (rv = NGHTTP2_ERR_HEADER_COMP \<or> 1 \<le> rv \<and> rv \<le> int (length inp) \<and> out \<le> mx \<and> (rfin \<or> rv = int (length inp)))"
proof -
  have l: "left i mod 2 ^ 32 = left i" using assms(1) by (simp add: UINT32_MAX_def)
  obtain rv res s fin where d: "decode_length (left i) (ifl_shift i) inp p = Some (rv, res, s, fin)"
    "rv = -1 \<or> 1 \<le> rv \<and> rv \<le> int (length inp) \<and> res \<le> UINT32_MAX \<and> (fin \<or> rv = int (length inp))"
    using decode_length_bounds [OF assms(2,1,3)] by blast
  show ?thesis
  proof (cases "rv = -1 \<or> mx < res")
    case True
    then have "hd_inflate_read_len i inp p mx = Some (NGHTTP2_ERR_HEADER_COMP, fin, i\<lparr>ifl_shift := s, left := left i\<rparr>)"
      unfolding hd_inflate_read_len_def l d(1) by (auto simp: Let_def)
    then show ?thesis using assms(1) by blast
  next
    case False
    then have "hd_inflate_read_len i inp p mx = Some (rv, fin, i\<lparr>ifl_shift := s, left := res\<rparr>)"
      unfolding hd_inflate_read_len_def l d(1) by (simp add: Let_def)
    then show ?thesis using d(2) False by (intro exI conjI) auto
  qed
qed

lemma prefix_ok: "(7 :: nat) \<le> 8" "(5 :: nat) \<le> 8"
  by simp_all

lemma read_len_cases:
  assumes "left i \<le> UINT32_MAX" "inp \<noteq> []" "p \<le> 8"
  obtains (fail) rfin sh out where
      "hd_inflate_read_len i inp p mx = Some (NGHTTP2_ERR_HEADER_COMP, rfin, i\<lparr>ifl_shift := sh, left := out\<rparr>)"
    | (cut) sh out where
      "hd_inflate_read_len i inp p mx = Some (int (length inp), False, i\<lparr>ifl_shift := sh, left := out\<rparr>)" "out \<le> UINT32_MAX"
    | (whole) n sh out where
      "hd_inflate_read_len i inp p mx = Some (int n, True, i\<lparr>ifl_shift := sh, left := out\<rparr>)"
      "1 \<le> n" "n \<le> length inp" "out \<le> UINT32_MAX" "out \<le> mx"
proof -
  from read_len_spec [OF assms] obtain rv rfin sh out where
    r: "hd_inflate_read_len i inp p mx = Some (rv, rfin, i\<lparr>ifl_shift := sh, left := out\<rparr>)" "out \<le> UINT32_MAX"
      "rv = NGHTTP2_ERR_HEADER_COMP \<or> 1 \<le> rv \<and> rv \<le> int (length inp) \<and> out \<le> mx \<and> (rfin \<or> rv = int (length inp))"
    by blast
  show ?thesis
  proof (cases "rv = NGHTTP2_ERR_HEADER_COMP")
    case True
    then show ?thesis using r fail by blast
  next
    case False
    then show ?thesis using r cut whole [where n = "nat rv" and sh = sh and out = out] by (cases rfin) auto
  qed
qed

text \<open>The two readers of string bytes keep one contract.\<close>

definition read_post ::
  "bool \<Rightarrow> nghttp2_hd_inflater \<Rightarrow> bytes \<Rightarrow> (int \<times> nghttp2_hd_inflater \<times> nghttp2_buf) option \<Rightarrow> bool" where
  "read_post huff i inp r \<longleftrightarrow> (\<exists>rv h n b. r = Some (rv, i\<lparr>huff_decode_ctx := h, left := n\<rparr>, b) \<and> n \<le> left i \<and>
     (rv = NGHTTP2_ERR_HEADER_COMP \<or>
      0 \<le> rv \<and> rv \<le> int (length inp) \<and> (n = 0 \<or> rv = int (length inp)) \<and> str_dest huff (i\<lparr>huff_decode_ctx := h, left := n\<rparr>) b))"

lemma buf_put_pos: "buf_put b xs = Some b' \<Longrightarrow> buf_pos b' = buf_pos b"
  by (auto simp: buf_put_def split: if_splits)

lemma huff_loop_pos: "huff_decode_loop f b src = Some (f', b') \<Longrightarrow> buf_pos b' = buf_pos b"
  by (induction f b src rule: huff_decode_loop.induct)
    (auto simp: huff_decode_nibble_def Let_def buf_put_pos split: Option.bind_splits if_splits)

lemma huff_decode_safe:
  assumes "huff_reach h" "buf_ok b" "2 * length src \<le> nghttp2_buf_avail b"
  shows "\<exists>rv h' b'. nghttp2_hd_huff_decode h b src fin = Some (rv, h', b') \<and> huff_reach h' \<and> buf_ok b' \<and>
    buf_pos b' = buf_pos b \<and> nghttp2_buf_avail b \<le> nghttp2_buf_avail b' + 2 * length src \<and>
    (rv = NGHTTP2_ERR_HEADER_COMP \<or> rv = int (length src))"
proof -
  obtain bits out where r: "dec_rel bits (fstate h) out" using assms(1) by (auto simp: huff_reach_def)
  from decode_loop_rel [OF r assms(2,3)] obtain f' b' o' where
    d: "huff_decode_loop (fstate h) b src = Some (f', b')" "dec_rel (bits @ bytes_bits src) f' (out @ o')" "buf_ok b'"
      "length o' \<le> 2 * length src" "nghttp2_buf_avail b' + length o' = nghttp2_buf_avail b" by blast
  moreover have "buf_pos b' = buf_pos b" using d(1) by (rule huff_loop_pos)
  moreover have "huff_reach (h\<lparr>fstate := f'\<rparr>)" using d(2) by (auto simp: huff_reach_def)
  ultimately show ?thesis by (auto simp: nghttp2_hd_huff_decode_def Let_def)
qed

lemma read_huff_post:
  assumes "str_dest True i b"
  shows "read_post True i inp (hd_inflate_read_huff i b inp)"
proof -
  define src where "src = (if left i \<le> length inp then take (left i) inp else inp)"
  define fin where "fin = (left i \<le> length inp)"
  have len: "length src = min (left i) (length inp)" by (simp add: src_def)
  have b: "huff_reach (huff_decode_ctx i)" "buf_ok b" "2 * length src \<le> nghttp2_buf_avail b" "buf_pos b = 0"
    "left i * 2 + 1 \<le> nghttp2_buf_avail b"
    using assms len by (auto simp: str_dest_def)
  from huff_decode_safe [OF b(1-3), of fin] obtain rv h b' where
    d: "nghttp2_hd_huff_decode (huff_decode_ctx i) b src fin = Some (rv, h, b')" "huff_reach h" "buf_ok b'" "buf_pos b' = 0"
      "nghttp2_buf_avail b \<le> nghttp2_buf_avail b' + 2 * length src" "rv = NGHTTP2_ERR_HEADER_COMP \<or> rv = int (length src)"
    using b(4) by auto
  have e: "hd_inflate_read_huff i b inp =
    (if rv < 0 then Some (rv, i\<lparr>huff_decode_ctx := h, left := left i\<rparr>, b')
     else if nghttp2_hd_huff_decode_failure_state h then Some (NGHTTP2_ERR_HEADER_COMP, i\<lparr>huff_decode_ctx := h, left := left i\<rparr>, b')
     else Some (rv, i\<lparr>huff_decode_ctx := h, left := left i - nat rv\<rparr>, b'))"
  proof -
    have "(if left i \<le> length inp then (take (left i) inp, True) else (inp, False)) = (src, fin)"
      by (simp add: src_def fin_def)
    then show ?thesis unfolding hd_inflate_read_huff_def Let_def by (simp only: prod.case d(1)) simp
  qed
  show ?thesis
  proof (cases "rv < 0 \<or> nghttp2_hd_huff_decode_failure_state h")
    case True
    then have "hd_inflate_read_huff i b inp = Some (NGHTTP2_ERR_HEADER_COMP, i\<lparr>huff_decode_ctx := h, left := left i\<rparr>, b')"
      using e d(6) by (auto simp: ng_defs)
    then show ?thesis unfolding read_post_def by blast
  next
    case False
    then have rv: "rv = int (length src)" using d(6) by (auto simp: ng_defs)
    then have "str_dest True (i\<lparr>huff_decode_ctx := h, left := left i - nat rv\<rparr>) b'"
      using d(2-5) b(5) len by (auto simp: str_dest_def)
    then show ?thesis unfolding read_post_def e using False rv len by (intro exI conjI) auto
  qed
qed

lemma read_plain_post:
  assumes "str_dest False i b"
  shows "read_post False i inp (hd_inflate_read i b inp)"
proof -
  let ?n = "min (length inp) (left i)"
  have b: "buf_ok b" "length (take ?n inp) \<le> nghttp2_buf_avail b" "buf_pos b = 0" "left i + 1 \<le> nghttp2_buf_avail b"
    using assms by (auto simp: str_dest_def)
  from buf_put_ok [OF b(1,2)] obtain c where c: "buf_put b (take ?n inp) = Some c" "buf_ok c" "buf_pos c = 0"
    "nghttp2_buf_avail c + ?n = nghttp2_buf_avail b" using b(3) by auto
  have e: "hd_inflate_read i b inp = Some (int ?n, i\<lparr>huff_decode_ctx := huff_decode_ctx i, left := left i - ?n\<rparr>, c)"
    using c(1) by (simp add: hd_inflate_read_def Let_def)
  have "str_dest False (i\<lparr>huff_decode_ctx := huff_decode_ctx i, left := left i - ?n\<rparr>) c"
    using c(2-4) b(4) by (auto simp: str_dest_def)
  then show ?thesis unfolding read_post_def e
    by (intro exI [of _ "int ?n"] exI [of _ "huff_decode_ctx i"] exI [of _ "left i - ?n"] exI [of _ c] conjI) auto
qed

lemma buf_store_ok:
  assumes "buf_ok b" "buf_pos b = 0" "1 \<le> nghttp2_buf_avail b"
  shows "\<exists>c. buf_store b x = Some c \<and> take (nghttp2_buf_len c) (buf_mem c) = buf_bytes b \<and> nghttp2_buf_len c = nghttp2_buf_len b"
  using assms by (auto simp: buf_store_def buf_ok_def nghttp2_buf_avail_def nghttp2_buf_len_def buf_bytes_def)

lemma name_read_ok:
  assumes "read_post huff i inp r" "ctx_inv (ifl_ctx i)" "\<not> bad (ifl_ctx i)" "left i \<le> UINT32_MAX"
    "opcode i = NGHTTP2_HD_OPCODE_NEWNAME"
    "ifl_state i = (if huff then NGHTTP2_HD_STATE_NEWNAME_READ_NAMEHUFF else NGHTTP2_HD_STATE_NEWNAME_READ_NAME)"
  shows "\<exists>t. r \<bind> inflate_name_read inp = Some t \<and> turn_ok inp t"
proof -
  obtain rv h n b where r: "r = Some (rv, i\<lparr>huff_decode_ctx := h, left := n\<rparr>, b)" "n \<le> left i"
    "rv = NGHTTP2_ERR_HEADER_COMP \<or> 0 \<le> rv \<and> rv \<le> int (length inp) \<and> (n = 0 \<or> rv = int (length inp)) \<and>
       str_dest huff (i\<lparr>huff_decode_ctx := h, left := n\<rparr>) b"
    using assms(1) unfolding read_post_def by blast
  show ?thesis
  proof (cases "rv < 0")
    case True
    then show ?thesis using r(1,3) assms(2) by (auto simp: inflate_name_read_def is_err_def)
  next
    case False
    then have rv: "rv \<noteq> NGHTTP2_ERR_HEADER_COMP" by (auto simp: ng_defs)
    have sd: "str_dest huff (i\<lparr>huff_decode_ctx := h, left := n\<rparr>) b" "rv \<le> int (length inp)" "n = 0 \<or> rv = int (length inp)"
      using r(3) rv by auto
    show ?thesis
    proof (cases "n = 0")
      case True
      have "buf_ok b" "buf_pos b = 0" "1 \<le> nghttp2_buf_avail b" using sd(1) by (auto simp: str_dest_def split: if_splits)
      from buf_store_ok [OF this] obtain c where c: "buf_store b 0 = Some c" by blast
      show ?thesis using r(1) c False True sd(2) assms(2-5)
        by (auto simp: inflate_name_read_def Let_def ifl_ok_def state_ok_def name_known_def)
    next
      case n: False
      have "ifl_ok (i\<lparr>huff_decode_ctx := h, left := n, namebuf := b\<rparr>)"
        using assms(2-6) r(2) sd(1) by (auto simp: ifl_ok_def state_ok_def str_dest_def)
      then show ?thesis using r(1) False n sd(3) by (simp add: inflate_name_read_def Let_def)
    qed
  qed
qed

lemma inflate_add_spec:
  assumes "ctx_inv (ifl_ctx i)"
  shows "\<exists>rv ctx. inflate_add i nv = Some (rv, i\<lparr>ifl_ctx := ctx\<rparr>) \<and> ctx_inv ctx \<and> same_ctx ctx (ifl_ctx i) \<and>
    (rv = 0 \<and> prs ctx = (if index_required i then padd (hd_table_bufsize_max (ifl_ctx i)) (hd_name nv, hd_value nv) (prs (ifl_ctx i))
        else prs (ifl_ctx i)) \<or>
     rv = NGHTTP2_ERR_NOMEM \<and> (\<exists>k. \<not> mem_ok (ctx_mem (ifl_ctx i)) k))"
proof (cases "index_required i")
  case True
  let ?c = "ifl_ctx i"
  obtain rv ctx' m' where a: "add_hd_table_incremental ?c nv None 0 = Some (rv, ctx', m')" "ctx_inv ctx'" "same_ctx ctx' ?c"
    "rv = 0 \<and> ents ctx' = (if nv_room nv \<le> hd_table_bufsize_max ?c
         then new_entry ?c nv 0 # keep (nv_room nv) (hd_table_bufsize_max ?c) (ents ?c) else []) \<or>
     rv = NGHTTP2_ERR_NOMEM \<and> ents ctx' = keep (nv_room nv) (hd_table_bufsize_max ?c) (ents ?c) \<and> (\<exists>k. \<not> mem_ok (ctx_mem ?c) k)"
    using add_spec [OF assms, of None nv 0] by (auto simp: map_ok_def)
  have "rv = 0 \<Longrightarrow> prs ctx' = padd (hd_table_bufsize_max ?c) (hd_name nv, hd_value nv) (prs ?c)"
    using a(4) prs_add [of ctx' nv "hd_table_bufsize_max ?c" ?c 0] by (auto simp: ng_defs)
  then show ?thesis using True a by (auto simp: inflate_add_def)
next
  case False
  then show ?thesis using assms by (auto simp: inflate_add_def same_ctx_def intro!: exI [of _ "ifl_ctx i"])
qed

lemma commit_newname_eq:
  "namercbuf i = Some n \<Longrightarrow> valuercbuf i = Some v \<Longrightarrow>
   nv = \<lparr>hd_name = take n (buf_mem (namebuf i)), hd_value = take v (buf_mem (valuebuf i)),
         hd_token = lookup_token (take n (buf_mem (namebuf i))), hd_flags = commit_flags i\<rparr> \<Longrightarrow>
   hd_inflate_commit_newname i = do { (rv, i) \<leftarrow> inflate_add i nv;
     if rv \<noteq> 0 then Some (rv, i, nv)
     else Some (0, i\<lparr>nv_name_keep := Some (hd_name nv), nv_value_keep := Some (hd_value nv), namercbuf := None, valuercbuf := None\<rparr>, nv) }"
  by (clarify, simp add: hd_inflate_commit_newname_def rcbuf_bytes_def Let_def)

lemma commit_indname_eq:
  "nghttp2_hd_table_get (ifl_ctx i) (index i) = Some h \<Longrightarrow> valuercbuf i = Some v \<Longrightarrow>
   nv = h\<lparr>hd_flags := commit_flags i, hd_value := take v (buf_mem (valuebuf i))\<rparr> \<Longrightarrow>
   hd_inflate_commit_indname i = do { (rv, i) \<leftarrow> inflate_add i nv;
     if rv \<noteq> 0 then Some (NGHTTP2_ERR_NOMEM, i, nv)
     else Some (0, i\<lparr>nv_name_keep := Some (hd_name nv), nv_value_keep := Some (hd_value nv), valuercbuf := None\<rparr>, nv) }"
  by (clarify, simp add: hd_inflate_commit_indname_def rcbuf_bytes_def Let_def)

text \<open>The field that a commit delivers, and what the inflater becomes.\<close>

definition lit_name :: "nghttp2_hd_inflater \<Rightarrow> bytes" where
  "lit_name i = (if opcode i = NGHTTP2_HD_OPCODE_NEWNAME then take (the (namercbuf i)) (buf_mem (namebuf i))
     else fst (the (plook (prs (ifl_ctx i)) (index i))))"

definition commit_lit :: "nghttp2_hd_inflater \<Rightarrow> (rc \<times> nghttp2_hd_inflater \<times> nghttp2_hd_nv) option" where
  "commit_lit i = (if opcode i = NGHTTP2_HD_OPCODE_NEWNAME then hd_inflate_commit_newname i else hd_inflate_commit_indname i)"

lemma plook_valid: "i < 61 + length ps \<Longrightarrow> \<exists>p. plook ps i = Some p"
  by (auto simp: plook_def)

lemma commit_spec:
  assumes inv: "ctx_inv (ifl_ctx i)" and nk: "name_known i" and v: "valuercbuf i = Some v"
  shows "\<exists>rv i' nv. commit_lit i = Some (rv, i', nv) \<and> ctx_inv (ifl_ctx i') \<and> same_ctx (ifl_ctx i') (ifl_ctx i) \<and>
    left i' = left i \<and> ifl_min_hd_table_bufsize_max i' = ifl_min_hd_table_bufsize_max i \<and>
    settings_hd_table_bufsize_max i' = settings_hd_table_bufsize_max i \<and>
    (rv = 0 \<and> hd_name nv = lit_name i \<and> hd_value nv = take v (buf_mem (valuebuf i)) \<and> hd_flags nv = commit_flags i \<and>
       prs (ifl_ctx i') = (if index_required i
         then padd (hd_table_bufsize_max (ifl_ctx i)) (hd_name nv, hd_value nv) (prs (ifl_ctx i)) else prs (ifl_ctx i)) \<or>
     rv = NGHTTP2_ERR_NOMEM \<and> (\<exists>k. \<not> mem_ok (ctx_mem (ifl_ctx i)) k))"
proof (cases "opcode i = NGHTTP2_HD_OPCODE_NEWNAME")
  case True
  obtain n where n: "namercbuf i = Some n" using nk True by (auto simp: name_known_def)
  let ?nv = "\<lparr>hd_name = take n (buf_mem (namebuf i)), hd_value = take v (buf_mem (valuebuf i)),
         hd_token = lookup_token (take n (buf_mem (namebuf i))), hd_flags = commit_flags i\<rparr>"
  from inflate_add_spec [OF inv, of ?nv] obtain rv ctx where
    a: "inflate_add i ?nv = Some (rv, i\<lparr>ifl_ctx := ctx\<rparr>)" "ctx_inv ctx" "same_ctx ctx (ifl_ctx i)"
      "rv = 0 \<and> prs ctx = (if index_required i then padd (hd_table_bufsize_max (ifl_ctx i)) (hd_name ?nv, hd_value ?nv) (prs (ifl_ctx i))
        else prs (ifl_ctx i)) \<or> rv = NGHTTP2_ERR_NOMEM \<and> (\<exists>k. \<not> mem_ok (ctx_mem (ifl_ctx i)) k)" by (elim exE conjE)
  show ?thesis using a n True by (auto simp: commit_lit_def lit_name_def commit_newname_eq [OF n v refl] ng_defs)
next
  case False
  have idx: "index i < 61 + length (prs (ifl_ctx i))" using nk False by (simp add: name_known_def prs_def)
  then obtain p where p: "plook (prs (ifl_ctx i)) (index i) = Some p" using plook_valid by blast
  then obtain h where h: "nghttp2_hd_table_get (ifl_ctx i) (index i) = Some h" "hd_name h = fst p"
    using pair_at_plook [OF inv, of "index i"] by (auto simp: pair_at_def)
  let ?nv = "h\<lparr>hd_flags := commit_flags i, hd_value := take v (buf_mem (valuebuf i))\<rparr>"
  from inflate_add_spec [OF inv, of ?nv] obtain rv ctx where
    a: "inflate_add i ?nv = Some (rv, i\<lparr>ifl_ctx := ctx\<rparr>)" "ctx_inv ctx" "same_ctx ctx (ifl_ctx i)"
      "rv = 0 \<and> prs ctx = (if index_required i then padd (hd_table_bufsize_max (ifl_ctx i)) (hd_name ?nv, hd_value ?nv) (prs (ifl_ctx i))
        else prs (ifl_ctx i)) \<or> rv = NGHTTP2_ERR_NOMEM \<and> (\<exists>k. \<not> mem_ok (ctx_mem (ifl_ctx i)) k)" by (elim exE conjE)
  show ?thesis using a h(2) p False by (auto simp: commit_lit_def lit_name_def commit_indname_eq [OF h(1) v refl] ng_defs)
qed

lemma value_read_ok:
  assumes "read_post huff i inp r" "ctx_inv (ifl_ctx i)" "\<not> bad (ifl_ctx i)" "left i \<le> UINT32_MAX" "name_known i"
    "ifl_state i = (if huff then NGHTTP2_HD_STATE_READ_VALUEHUFF else NGHTTP2_HD_STATE_READ_VALUE)"
  shows "\<exists>t. r \<bind> inflate_value_read inp = Some t \<and> turn_ok inp t"
proof -
  obtain rv h n b where r: "r = Some (rv, i\<lparr>huff_decode_ctx := h, left := n\<rparr>, b)" "n \<le> left i"
    "rv = NGHTTP2_ERR_HEADER_COMP \<or> 0 \<le> rv \<and> rv \<le> int (length inp) \<and> (n = 0 \<or> rv = int (length inp)) \<and>
       str_dest huff (i\<lparr>huff_decode_ctx := h, left := n\<rparr>) b"
    using assms(1) unfolding read_post_def by blast
  show ?thesis
  proof (cases "rv < 0")
    case True
    then show ?thesis using r(1,3) assms(2) by (auto simp: inflate_value_read_def is_err_def)
  next
    case False
    then have rv: "rv \<noteq> NGHTTP2_ERR_HEADER_COMP" by (auto simp: ng_defs)
    have sd: "str_dest huff (i\<lparr>huff_decode_ctx := h, left := n\<rparr>) b" "rv \<le> int (length inp)" "n = 0 \<or> rv = int (length inp)"
      using r(3) rv by auto
    show ?thesis
    proof (cases "n = 0")
      case True
      have "buf_ok b" "buf_pos b = 0" "1 \<le> nghttp2_buf_avail b" using sd(1) by (auto simp: str_dest_def split: if_splits)
      from buf_store_ok [OF this] obtain c where c: "buf_store b 0 = Some c" by blast
      let ?i = "i\<lparr>huff_decode_ctx := h, left := n, valuebuf := c, valuercbuf := Some (nghttp2_buf_len c)\<rparr>"
      have "name_known ?i" "ctx_inv (ifl_ctx ?i)" using assms(2,5) by (simp_all add: name_known_def)
      from commit_spec [OF this(2,1), of "nghttp2_buf_len c"] obtain rc i' nv where
        k: "commit_lit ?i = Some (rc, i', nv)" "ctx_inv (ifl_ctx i')" "same_ctx (ifl_ctx i') (ifl_ctx i)" "left i' = n"
          "rc = 0 \<or> rc = NGHTTP2_ERR_NOMEM" by auto
      have "ifl_ok (i'\<lparr>ifl_state := NGHTTP2_HD_STATE_OPCODE\<rparr>)"
        using k(2-4) True assms(3) by (simp add: ifl_ok_def state_ok_def same_ctx_def)
      then show ?thesis using r(1) c False True sd(2) k(1,2,5)
        by (auto simp: inflate_value_read_def Let_def commit_lit_def [symmetric] is_err_def ng_defs)
    next
      case n: False
      have "ifl_ok (i\<lparr>huff_decode_ctx := h, left := n, valuebuf := b\<rparr>)"
        using assms(2-6) r(2) sd(1) by (auto simp: ifl_ok_def state_ok_def str_dest_def name_known_def)
      then show ?thesis using r(1) False n sd(3) by (simp add: inflate_value_read_def Let_def)
    qed
  qed
qed

lemma rcbuf_new_dest:
  assumes "nghttp2_rcbuf_new al (if huff then left i * 2 + 1 else left i + 1) = Some base"
    "huff \<Longrightarrow> huff_decode_ctx i = nghttp2_hd_huff_decode_context_init"
  shows "str_dest huff i (nghttp2_buf_wrap_init base)"
proof -
  have "length base = (if huff then left i * 2 + 1 else left i + 1)"
    using assms(1) by (auto simp: nghttp2_rcbuf_new_def split: if_splits)
  moreover have "huff \<Longrightarrow> huff_reach (huff_decode_ctx i)"
    using assms(2) dec_rel_init unfolding huff_reach_def by auto
  ultimately show ?thesis
    by (auto simp: str_dest_def buf_ok_def nghttp2_buf_wrap_init_def nghttp2_buf_avail_def)
qed

definition name_dest :: "nghttp2_hd_inflater \<Rightarrow> nghttp2_hd_inflater" where
  "name_dest i = (if huffman_encoded i
     then i\<lparr>huff_decode_ctx := nghttp2_hd_huff_decode_context_init, ifl_state := NGHTTP2_HD_STATE_NEWNAME_READ_NAMEHUFF\<rparr>
     else i\<lparr>ifl_state := NGHTTP2_HD_STATE_NEWNAME_READ_NAME\<rparr>)"

lemma namelen_whole:
  assumes "hd_inflate_read_len i inp 7 NGHTTP2_HD_MAX_NV = Some (int n, True, i1)"
  shows "inflate_namelen i inp =
    Some (case nghttp2_rcbuf_new (ctx_mem (ifl_ctx i1)) (if huffman_encoded i1 then left i1 * 2 + 1 else left i1 + 1) of
        None \<Rightarrow> Turn_Fail NGHTTP2_ERR_NOMEM (name_dest i1)
      | Some base \<Rightarrow> Turn_Next ((name_dest i1)\<lparr>namercbuf := Some (length base), namebuf := nghttp2_buf_wrap_init base\<rparr>) (drop n inp) False)"
  using assms by (auto simp: inflate_namelen_def name_dest_def Let_def split: option.split)

lemma namelen_ok:
  assumes "ctx_inv (ifl_ctx i)" "\<not> bad (ifl_ctx i)" "left i \<le> UINT32_MAX" "inp \<noteq> []"
    "opcode i = NGHTTP2_HD_OPCODE_NEWNAME" "ifl_state i = NGHTTP2_HD_STATE_NEWNAME_READ_NAMELEN"
  shows "\<exists>t. inflate_namelen i inp = Some t \<and> turn_ok inp t"
  using assms(3,4) prefix_ok(1)
proof (cases rule: read_len_cases [where mx = NGHTTP2_HD_MAX_NV])
  case (fail rfin sh out)
  then show ?thesis using assms(1) by (simp add: inflate_namelen_def ng_defs is_err_def)
next
  case (cut sh out)
  then show ?thesis using assms by (simp add: inflate_namelen_def ifl_ok_def state_ok_def)
next
  case (whole n sh out)
  let ?i = "i\<lparr>ifl_shift := sh, left := out\<rparr>"
  define j where "j = name_dest ?i"
  have j: "ifl_ctx j = ifl_ctx i" "huffman_encoded j = huffman_encoded ?i" "left j = left ?i" by (simp_all add: j_def name_dest_def)
  note e = namelen_whole [OF whole(1), folded j_def]
  show ?thesis
  proof (cases "nghttp2_rcbuf_new (ctx_mem (ifl_ctx ?i)) (if huffman_encoded ?i then left ?i * 2 + 1 else left ?i + 1)")
    case None
    then show ?thesis unfolding e by (simp add: is_err_def j(1) assms(1))
  next
    case (Some base)
    have h: "huff_decode_ctx j = nghttp2_hd_huff_decode_context_init" if "huffman_encoded j"
      using that by (simp add: j_def name_dest_def split: if_splits)
    have "str_dest (huffman_encoded j) j (nghttp2_buf_wrap_init base)"
      using Some unfolding j(2,3) [symmetric] by (rule rcbuf_new_dest) (rule h)
    then have "ifl_ok (j\<lparr>namercbuf := Some (length base), namebuf := nghttp2_buf_wrap_init base\<rparr>)"
      using assms whole(4) by (auto simp: ifl_ok_def state_ok_def j_def name_dest_def str_dest_def)
    then show ?thesis unfolding e Some using whole(3) by simp
  qed
qed

definition value_dest :: "nghttp2_hd_inflater \<Rightarrow> nghttp2_hd_inflater" where
  "value_dest i = (if huffman_encoded i
     then i\<lparr>huff_decode_ctx := nghttp2_hd_huff_decode_context_init, ifl_state := NGHTTP2_HD_STATE_READ_VALUEHUFF\<rparr>
     else i\<lparr>ifl_state := NGHTTP2_HD_STATE_READ_VALUE\<rparr>)"

lemma valuelen_whole:
  assumes "hd_inflate_read_len i inp 7 NGHTTP2_HD_MAX_NV = Some (int n, True, i1)"
  shows "inflate_valuelen i inp =
    Some (case nghttp2_rcbuf_new (ctx_mem (ifl_ctx i1)) (if huffman_encoded i1 then left i1 * 2 + 1 else left i1 + 1) of
        None \<Rightarrow> Turn_Fail NGHTTP2_ERR_NOMEM (value_dest i1)
      | Some base \<Rightarrow> Turn_Next ((value_dest i1)\<lparr>valuercbuf := Some (length base), valuebuf := nghttp2_buf_wrap_init base\<rparr>) (drop n inp) True)"
  using assms by (auto simp: inflate_valuelen_def value_dest_def Let_def split: option.split)

lemma valuelen_ok:
  assumes "ctx_inv (ifl_ctx i)" "\<not> bad (ifl_ctx i)" "left i \<le> UINT32_MAX" "inp \<noteq> []"
    "name_known i" "ifl_state i = NGHTTP2_HD_STATE_READ_VALUELEN"
  shows "\<exists>t. inflate_valuelen i inp = Some t \<and> turn_ok inp t"
  using assms(3,4) prefix_ok(1)
proof (cases rule: read_len_cases [where mx = NGHTTP2_HD_MAX_NV])
  case (fail rfin sh out)
  then show ?thesis using assms(1) by (simp add: inflate_valuelen_def ng_defs is_err_def)
next
  case (cut sh out)
  then show ?thesis using assms by (simp add: inflate_valuelen_def ifl_ok_def state_ok_def name_known_def)
next
  case (whole n sh out)
  let ?i = "i\<lparr>ifl_shift := sh, left := out\<rparr>"
  define j where "j = value_dest ?i"
  have j: "ifl_ctx j = ifl_ctx i" "huffman_encoded j = huffman_encoded ?i" "left j = left ?i" by (simp_all add: j_def value_dest_def)
  note e = valuelen_whole [OF whole(1), folded j_def]
  show ?thesis
  proof (cases "nghttp2_rcbuf_new (ctx_mem (ifl_ctx ?i)) (if huffman_encoded ?i then left ?i * 2 + 1 else left ?i + 1)")
    case None
    then show ?thesis unfolding e by (simp add: is_err_def j(1) assms(1))
  next
    case (Some base)
    have h: "huff_decode_ctx j = nghttp2_hd_huff_decode_context_init" if "huffman_encoded j"
      using that by (simp add: j_def value_dest_def split: if_splits)
    have "str_dest (huffman_encoded j) j (nghttp2_buf_wrap_init base)"
      using Some unfolding j(2,3) [symmetric] by (rule rcbuf_new_dest) (rule h)
    then have "ifl_ok (j\<lparr>valuercbuf := Some (length base), valuebuf := nghttp2_buf_wrap_init base\<rparr>)"
      "value_state (j\<lparr>valuercbuf := Some (length base), valuebuf := nghttp2_buf_wrap_init base\<rparr>)"
      using assms whole(4) by (auto simp: ifl_ok_def state_ok_def j_def value_dest_def str_dest_def name_known_def value_state_def)
    then show ?thesis unfolding e Some using whole(3) by simp
  qed
qed

lemma opcode_ok:
  assumes "ctx_inv (ifl_ctx i)" "\<not> bad (ifl_ctx i)"
  shows "turn_ok (b # inp) (inflate_opcode i b inp)"
  using assms by (auto simp: inflate_opcode_def Let_def ifl_ok_def state_ok_def is_err_def)

lemma table_size_ok:
  assumes "ctx_inv (ifl_ctx i)" "\<not> bad (ifl_ctx i)" "left i \<le> UINT32_MAX" "inp \<noteq> []"
    "ifl_state i = NGHTTP2_HD_STATE_READ_TABLE_SIZE"
  shows "\<exists>t. inflate_table_size i inp = Some t \<and> turn_ok inp t"
  using assms(3,4) prefix_ok(2)
proof (cases rule: read_len_cases [where mx = "min (ifl_min_hd_table_bufsize_max i) (settings_hd_table_bufsize_max i)"])
  case (fail rfin sh out)
  then show ?thesis using assms(1) by (simp add: inflate_table_size_def ng_defs is_err_def)
next
  case (cut sh out)
  then show ?thesis using assms by (simp add: inflate_table_size_def ifl_ok_def state_ok_def)
next
  case (whole n sh out)
  let ?c = "(ifl_ctx i)\<lparr>hd_table_bufsize_max := out\<rparr>"
  have "ctx_wf ?c" using assms(1) by (simp add: ctx_inv_def ctx_wf_def ents_def)
  from shrink_spec [OF this, of None] obtain ctx m where
    "hd_context_shrink_table_size ?c None = Some (ctx, m)" "ctx_inv ctx" "same_ctx ctx ?c"
    using whole(4) by (auto simp: map_ok_def UINT32_MAX_def)
  then show ?thesis using whole(1,3,4) assms(2) by (simp add: inflate_table_size_def ifl_ok_def state_ok_def same_ctx_def)
qed

lemma index_ok:
  assumes "ctx_inv (ifl_ctx i)" "\<not> bad (ifl_ctx i)" "left i \<le> UINT32_MAX" "inp \<noteq> []"
    "ifl_state i = NGHTTP2_HD_STATE_READ_INDEX" "opcode i \<noteq> NGHTTP2_HD_OPCODE_NEWNAME"
  shows "\<exists>t. inflate_index i inp = Some t \<and> turn_ok inp t"
proof -
  define pl :: nat where "pl = (if opcode i = NGHTTP2_HD_OPCODE_INDEXED then 7 else if index_required i then 6 else 4)"
  have "pl \<le> 8" by (simp add: pl_def)
  have e: "inflate_index i inp = do { (rv, rfin, inflater) \<leftarrow> hd_inflate_read_len i inp pl (get_max_index (ifl_ctx i));
              if rv < 0 then Some (Turn_Fail rv inflater)
              else
                let inp = drop (nat rv) inp
                in if \<not> rfin then Some (Turn_Almost inflater inp)
                   else if left inflater = 0 then Some (Turn_Fail NGHTTP2_ERR_HEADER_COMP inflater)
                   else
                     let inflater = inflater\<lparr>index := left inflater - 1\<rparr>
                     in if opcode inflater = NGHTTP2_HD_OPCODE_INDEXED then
                          do { nv \<leftarrow> hd_inflate_commit_indexed inflater;
                               Some (Turn_Emit (inflater\<lparr>ifl_state := NGHTTP2_HD_STATE_OPCODE\<rparr>) inp nv) }
                        else Some (Turn_Next (inflater\<lparr>ifl_state := NGHTTP2_HD_STATE_CHECK_VALUELEN\<rparr>) inp False) }"
    unfolding inflate_index_def pl_def [symmetric] Let_def ..
  from assms(3,4) \<open>pl \<le> 8\<close> show ?thesis
  proof (cases rule: read_len_cases [where mx = "get_max_index (ifl_ctx i)"])
    case (fail rfin sh out)
    then show ?thesis using assms(1) by (simp add: e ng_defs is_err_def)
  next
    case (cut sh out)
    then show ?thesis using assms by (simp add: e ifl_ok_def state_ok_def)
  next
    case (whole n sh out)
    have mx: "get_max_index (ifl_ctx i) = 61 + length (ents (ifl_ctx i))"
      by (simp add: get_max_index_def ents_def ng_defs)
    show ?thesis
    proof (cases "out = 0")
      case True
      then show ?thesis using whole(1) assms(1) by (simp add: e is_err_def)
    next
      case False
      then have v: "out - 1 < 61 + length (ents (ifl_ctx i))" using whole(5) mx by simp
      then obtain h where "nghttp2_hd_table_get (ifl_ctx i) (out - 1) = Some h"
        using pair_at_plook [OF assms(1), of "out - 1"] plook_valid [of "out - 1" "prs (ifl_ctx i)"]
        by (auto simp: pair_at_def prs_def)
      then show ?thesis using whole(1,3,4) False assms(1,2,6) v
        by (auto simp: e Let_def hd_inflate_commit_indexed_def ifl_ok_def state_ok_def name_known_def)
    qed
  qed
qed

text \<open>Every turn of the machine.\<close>

lemma step_ok:
  assumes "ifl_ok i" "inp \<noteq> [] \<or> value_state i"
  shows "\<exists>t. inflate_step i inp = Some t \<and> turn_ok inp t"
proof -
  have c: "ctx_inv (ifl_ctx i)" "\<not> bad (ifl_ctx i)" "left i \<le> UINT32_MAX" "state_ok i" using assms(1) by (simp_all add: ifl_ok_def)
  show ?thesis
  proof (cases "ifl_state i")
  qed (use c assms(2) in \<open>auto simp: inflate_step_def value_state_def state_ok_def hd_inflate_set_huffman_encoded_def neq_Nil_conv is_err_def name_known_def
    intro!: opcode_ok table_size_ok index_ok namelen_ok valuelen_ok 
      name_read_ok [OF read_huff_post] name_read_ok [OF read_plain_post] value_read_ok [OF read_huff_post] value_read_ok [OF read_plain_post]\<close>)
qed

lemma turn_ok_suffix: "turn_ok inp' t \<Longrightarrow> is_suffix inp inp' \<Longrightarrow> turn_ok inp t"
  by (cases t) (auto intro: is_suffix_trans)

lemma loop_ok:
  "ifl_ok i \<Longrightarrow> (busy \<longrightarrow> value_state i) \<Longrightarrow>
     \<exists>t. hd_inflate_loop i inp busy = Some t \<and> turn_ok inp t \<and> (\<forall>i' inp' b. t = Turn_Next i' inp' b \<longrightarrow> inp' = [])"
proof (induction i inp busy rule: hd_inflate_loop.induct)
  case (1 i inp busy)
  show ?case
  proof (cases "inp = [] \<and> \<not> busy")
    case True
    then show ?thesis using "1.prems" by (simp add: hd_inflate_loop.simps)
  next
    case go: False
    then have "inp \<noteq> [] \<or> value_state i" using "1.prems"(2) by auto
    from step_ok [OF "1.prems"(1) this] obtain t where t: "inflate_step i inp = Some t" "turn_ok inp t" by blast
    show ?thesis
    proof (cases t)
      case (Turn_Next i' inp' busy')
      then have "\<exists>t. hd_inflate_loop i' inp' busy' = Some t \<and> turn_ok inp' t \<and> (\<forall>i' inp' b. t = Turn_Next i' inp' b \<longrightarrow> inp' = [])"
        using "1.IH" [OF go t(1) Turn_Next] t(2) by simp
      moreover have "hd_inflate_loop i inp busy = hd_inflate_loop i' inp' busy'"
        using go t(1) Turn_Next by (subst hd_inflate_loop.simps) auto
      ultimately show ?thesis using turn_ok_suffix t(2) Turn_Next by auto
    qed (use go t in \<open>auto simp: hd_inflate_loop.simps [of i inp]\<close>)
  qed
qed

lemma keep_free_ok [simp]: "ifl_ok (hd_inflate_keep_free i) = ifl_ok i"
  by (simp add: hd_inflate_keep_free_def ifl_ok_def state_ok_def str_dest_def name_known_def cong: nghttp2_hd_inflate_state.case_cong)

lemma fail_inv: "ctx_inv (ifl_ctx i) \<Longrightarrow> ifl_inv (i\<lparr>ifl_ctx := (ifl_ctx i)\<lparr>bad := True\<rparr>\<rparr>)"
  by (auto simp: ifl_inv_def ctx_inv_def ctx_wf_def ents_def)

lemma ok_inv: "ifl_ok i \<Longrightarrow> ifl_inv i"
  by (simp add: ifl_inv_def ifl_ok_def)

lemma inflate_init_inv: "nghttp2_hd_inflate_init al = Inr i \<Longrightarrow> ifl_inv i"
  using context_init by (auto simp: nghttp2_hd_inflate_init_def ifl_inv_def ifl_ok_def state_ok_def split: sum.splits)

lemma inflate_init_ok: "(\<And>k. mem_ok al k) \<Longrightarrow> \<exists>i. nghttp2_hd_inflate_init al = Inr i"
  using context_init_ok [of al] by (auto simp: nghttp2_hd_inflate_init_def)

subsection \<open>Safety\<close>

text \<open>
  C3.  On every input, however it is cut into calls, the inflater returns: no assertion fails, no
  byte is read or written outside an array, and the loop ends.  It keeps its invariant; an error is
  a compression error or a failed allocation and marks the context bad; otherwise the count
  returned is that of the bytes consumed, which are all of them unless a field is delivered.
\<close>

theorem hd_inflate_safe:
  assumes "ifl_inv i"
  shows "\<exists>rv i' flags nv. nghttp2_hd_inflate_hd_nv i f inp in_final = Some (rv, i', flags, nv) \<and> ifl_inv i' \<and>
    (if rv < 0 then (rv = NGHTTP2_ERR_HEADER_COMP \<or> rv = NGHTTP2_ERR_NOMEM) \<and> bad (ifl_ctx i')
     else \<not> bad (ifl_ctx i') \<and> rv \<le> int (length inp) \<and> (nv \<noteq> None \<longleftrightarrow> flags = NGHTTP2_HD_INFLATE_EMIT) \<and>
       (nv = None \<longrightarrow> rv = int (length inp)) \<and>
       (in_final \<longrightarrow> flags = NGHTTP2_HD_INFLATE_EMIT \<or> flags = NGHTTP2_HD_INFLATE_FINAL))"
proof (cases "bad (ifl_ctx i)")
  case True
  then show ?thesis using assms by (simp add: nghttp2_hd_inflate_hd_nv_def ng_defs)
next
  case False
  then have "ifl_ok (hd_inflate_keep_free i)" using assms by (simp add: ifl_inv_def)
  from loop_ok [OF this, of False inp] obtain t where t: "hd_inflate_loop (hd_inflate_keep_free i) inp False = Some t" "turn_ok inp t"
    "\<forall>i' inp' b. t = Turn_Next i' inp' b \<longrightarrow> inp' = []" by auto
  note fl = fail_inv and d = nghttp2_hd_inflate_hd_nv_def inflate_fail_def Let_def ng_defs
  have okc: "ctx_inv (ifl_ctx j) \<and> \<not> bad (ifl_ctx j)" if "ifl_ok j" for j using that by (simp add: ifl_ok_def)
  show ?thesis
  proof (cases t)
    case (Turn_Next j rest b)
    then show ?thesis using t False fl [of j] okc [of j] ok_inv [of j]
      by (auto simp: d)
  next
    case (Turn_Almost j rest)
    then show ?thesis using t False fl [of j] okc [of j] ok_inv [of j]
      by (auto simp: d)
  next
    case (Turn_Fail rv j)
    then show ?thesis using t False fl [of j] by (auto simp: d is_err_def)
  next
    case (Turn_Emit j rest nv)
    then show ?thesis using t False okc [of j] ok_inv [of j] is_suffix_length [of inp rest]
      by (auto simp: d)
  qed
qed

theorem hd_inflate_safe_witness:
  "\<exists>i rv i' flags nv. nghttp2_hd_inflate_init \<lparr>mem_ok = \<lambda>_. True, mem_fill = \<lambda>_. 0\<rparr> = Inr i \<and>
     nghttp2_hd_inflate_hd_nv i 0 [0xff, 0xff, 0x40] True = Some (rv, i', flags, nv) \<and> ifl_inv i' \<and> rv \<le> 3"
proof -
  let ?al = "\<lparr>mem_ok = \<lambda>_. True, mem_fill = \<lambda>_. 0\<rparr>"
  obtain i where i: "nghttp2_hd_inflate_init ?al = Inr i" using inflate_init_ok [of ?al] by auto
  from hd_inflate_safe [OF inflate_init_inv [OF i], of 0 "[0xff, 0xff, 0x40]" True] i show ?thesis by (auto split: if_splits)
qed

end
