(* ===== verification/Hpack.thy ===== *)
theory Hpack
  imports Hd_Inflate
begin

text \<open>
  The two ends of HPACK together: the inflater decodes each representation that RFC 7541 defines,
  with its effect on the table, and a block that the deflater wrote is read back by a peer whose
  inflater is in sync with it, which leaves the two in sync again.
\<close>

subsection \<open>First bytes\<close>

definition indexed_byte :: "u8 \<Rightarrow> bool" where
  "indexed_byte b \<longleftrightarrow> b AND 0xe0 \<noteq> 0x20 \<and> b AND 0x80 \<noteq> 0"

definition indname_byte :: "nghttp2_hd_indexing_mode \<Rightarrow> u8 \<Rightarrow> bool" where
  "indname_byte m b \<longleftrightarrow> b AND 0xe0 \<noteq> 0x20 \<and> b AND 0x80 = 0 \<and> b \<noteq> 0x40 \<and> b \<noteq> 0 \<and> b \<noteq> 0x10 \<and>
     (b AND 0x40 \<noteq> 0) = (m = NGHTTP2_HD_WITH_INDEXING) \<and> (b AND 0xf0 = 0x10) = (m = NGHTTP2_HD_NEVER_INDEXING)"

lemma first_bytes:
  "list_all (\<lambda>v. indexed_byte (first_byte 0x80 7 v)) [0..<128]"
  "list_all (\<lambda>v. first_byte 0x20 5 v AND 0xe0 = 0x20) [0..<32]"
  "list_all (\<lambda>v. first_byte 0x80 7 v AND push_bit 7 1 \<noteq> 0 \<and> first_byte 0 7 v AND push_bit 7 1 = 0) [0..<128]"
  "list_all (\<lambda>v. indname_byte NGHTTP2_HD_WITH_INDEXING (first_byte 0x40 6 v)) [1..<64]"
  "list_all (\<lambda>v. indname_byte NGHTTP2_HD_WITHOUT_INDEXING (first_byte 0 4 v)) [1..<16]"
  "list_all (\<lambda>v. indname_byte NGHTTP2_HD_NEVER_INDEXING (first_byte 0x10 4 v)) [1..<16]"
  by code_simp+

lemma int_bytes_Cons:
  fixes n p :: nat
  assumes "1 \<le> n" "0 < p"
  obtains v tl where "int_bytes b n p = first_byte b p v # tl" "1 \<le> v" "v < 2 ^ p"
proof (cases "n < 2 ^ p - 1")
  case True
  then show ?thesis using assms that [of n "[]"] by (simp add: int_bytes_first)
next
  case False
  have "(2 :: nat) ^ 1 \<le> 2 ^ p" using assms(2) by (intro power_increasing) simp_all
  then show ?thesis using False that [of "2 ^ p - 1" "tail7 (n - (2 ^ p - 1))"] by (simp add: int_bytes_first)
qed

lemma int_bytes_Cons0:
  obtains v tl where "int_bytes b n p = first_byte b p v # tl" "v < 2 ^ p"
proof (cases "n < 2 ^ p - 1")
  case True
  then show ?thesis using that [of n "[]"] by (simp add: int_bytes_first)
next
  case False
  then show ?thesis using that [of "2 ^ p - 1" "tail7 (n - (2 ^ p - 1))"] by (simp add: int_bytes_first)
qed

lemma indexed_first: "1 \<le> n \<Longrightarrow> \<exists>b tl. int_bytes 0x80 n 7 = b # tl \<and> indexed_byte b"
proof -
  assume "1 \<le> n"
  then obtain v tl where "int_bytes 0x80 n 7 = first_byte 0x80 7 v # tl" "v < 2 ^ 7" by (rule int_bytes_Cons [of n 7 "0x80"]) simp
  then show ?thesis using first_bytes(1) by (auto simp: list_all_iff)
qed

lemma update_first: "\<exists>b tl. int_bytes 0x20 n 5 = b # tl \<and> b AND 0xe0 = 0x20"
proof -
  obtain v tl where "int_bytes 0x20 n 5 = first_byte 0x20 5 v # tl" "v < 2 ^ 5" by (rule int_bytes_Cons0)
  then show ?thesis using first_bytes(2) by (auto simp: list_all_iff)
qed

lemma indname_first:
  assumes "1 \<le> n"
  shows "\<exists>b tl. int_bytes (pack_first_byte m) n (if m = NGHTTP2_HD_WITH_INDEXING then 6 else 4) = b # tl \<and> indname_byte m b"
proof (cases m)
  case NGHTTP2_HD_WITH_INDEXING
  obtain v tl where "int_bytes 0x40 n 6 = first_byte 0x40 6 v # tl" "1 \<le> v" "v < 2 ^ 6" using assms by (rule int_bytes_Cons [of n 6 "0x40"]) simp
  then show ?thesis using NGHTTP2_HD_WITH_INDEXING first_bytes(4) by (auto simp: list_all_iff)
next
  case NGHTTP2_HD_WITHOUT_INDEXING
  obtain v tl where "int_bytes 0 n 4 = first_byte 0 4 v # tl" "1 \<le> v" "v < 2 ^ 4" using assms by (rule int_bytes_Cons [of n 4 "0"]) simp
  then show ?thesis using NGHTTP2_HD_WITHOUT_INDEXING first_bytes(5) by (auto simp: list_all_iff)
next
  case NGHTTP2_HD_NEVER_INDEXING
  obtain v tl where "int_bytes 0x10 n 4 = first_byte 0x10 4 v # tl" "1 \<le> v" "v < 2 ^ 4" using assms by (rule int_bytes_Cons [of n 4 "0x10"]) simp
  then show ?thesis using NGHTTP2_HD_NEVER_INDEXING first_bytes(6) by (auto simp: list_all_iff)
qed

text \<open>A string: the flag, the length and the bytes.\<close>

definition str_huff :: "bytes \<Rightarrow> bool" where
  "str_huff s \<longleftrightarrow> length (pack (codes s)) < length s"

definition str_enc :: "bytes \<Rightarrow> bytes" where
  "str_enc s = (if str_huff s then pack (codes s) else s)"

definition str_len :: "bytes \<Rightarrow> bytes" where
  "str_len s = int_bytes (if str_huff s then 0x80 else 0) (length (str_enc s)) 7"

lemma str_bytes_eq: "str_bytes s = str_len s @ str_enc s"
  by (simp add: str_bytes_def str_len_def str_enc_def str_huff_def)

lemma str_enc_length: "length (str_enc s) \<le> length s"
  by (auto simp: str_enc_def str_huff_def)

lemma str_first: "\<exists>b tl. str_len s = b # tl \<and> (b AND push_bit 7 1 \<noteq> 0) = str_huff s"
proof -
  obtain v tl where "str_len s = first_byte (if str_huff s then 0x80 else 0) 7 v # tl" "v < 2 ^ 7"
    unfolding str_len_def by (rule int_bytes_Cons0)
  then show ?thesis using first_bytes(3) by (auto simp: list_all_iff)
qed

lemma read_len_whole:
  assumes "left i = 0" "ifl_shift i = 0" "1 \<le> p" "p \<le> 8" "n \<le> UINT32_MAX" "n \<le> mx"
  shows "\<exists>s. hd_inflate_read_len i (int_bytes b n p @ rest) p mx =
    Some (int (length (int_bytes b n p)), True, i\<lparr>ifl_shift := s, left := n\<rparr>)"
proof -
  obtain s where "decode_length 0 0 (int_bytes b n p @ rest) p = Some (int (length (int_bytes b n p)), n, s, True)"
    using decode_whole [OF assms(3-5)] by blast
  then have "hd_inflate_read_len i (int_bytes b n p @ rest) p mx =
      Some (int (length (int_bytes b n p)), True, i\<lparr>ifl_shift := s, left := n\<rparr>)"
    using assms(1,2,6) by (simp add: hd_inflate_read_len_def Let_def)
  then show ?thesis by blast
qed

lemma huff_whole:
  assumes "buf_ok b" "2 * length (pack (codes s)) \<le> nghttp2_buf_avail b"
  shows "\<exists>h b'. nghttp2_hd_huff_decode nghttp2_hd_huff_decode_context_init b (pack (codes s)) True =
      Some (int (length (pack (codes s))), h, b') \<and>
    \<not> nghttp2_hd_huff_decode_failure_state h \<and> buf_bytes b' = buf_bytes b @ s"
proof -
  let ?src = "pack (codes s)" and ?k = "pad_len (length (codes s))"
  have k: "?k \<le> 7" by (simp add: pad_len_def)
  have bits: "bytes_bits ?src = codes s @ ones ?k" using pack_bits [of "codes s"] by (simp only: ones_def)
  obtain f b' out where d: "huff_decode_loop NGHTTP2_HUFF_ACCEPTED b ?src = Some (f, b')"
    "dec_rel (bytes_bits ?src) f out" "buf_bytes b' = buf_bytes b @ out"
    using assms by (rule decode_from_init)
  have out: "out = s" using dec_rel_unique [of s "ones ?k" f out] d(2) bits stuck_ones [OF k] by simp
  have "f AND NGHTTP2_HUFF_ACCEPTED \<noteq> 0" using dec_rel_accepted [OF d(2)] bits out k by auto
  then have "f \<noteq> 256" by (auto simp: NGHTTP2_HUFF_ACCEPTED_def)
  then show ?thesis using final_result [OF d(1,2)] bits out k d(3)
    by (auto simp: nghttp2_hd_huff_decode_failure_state_def)
qed

text \<open>Either reader on a whole string.\<close>

definition read_str :: "bool \<Rightarrow> nghttp2_hd_inflater \<Rightarrow> nghttp2_buf \<Rightarrow> bytes \<Rightarrow> (int \<times> nghttp2_hd_inflater \<times> nghttp2_buf) option" where
  "read_str huff i b inp = (if huff then hd_inflate_read_huff i b inp else hd_inflate_read i b inp)"

lemma read_str_whole:
  assumes d: "str_dest (str_huff s) i b" and l: "left i = length (str_enc s)" and b: "buf_bytes b = []"
    and h: "str_huff s \<Longrightarrow> huff_decode_ctx i = nghttp2_hd_huff_decode_context_init"
  shows "\<exists>h b'. read_str (str_huff s) i b (str_enc s @ rest) =
      Some (int (length (str_enc s)), i\<lparr>huff_decode_ctx := h, left := 0\<rparr>, b') \<and>
    buf_bytes b' = s \<and> buf_ok b' \<and> buf_pos b' = 0 \<and> 1 \<le> nghttp2_buf_avail b'"
proof -
  have post: "read_post (str_huff s) i (str_enc s @ rest) (read_str (str_huff s) i b (str_enc s @ rest))"
    using read_huff_post [of i b] read_plain_post [of i b] d by (cases "str_huff s") (auto simp: read_str_def)
  have v: "\<exists>h b'. read_str (str_huff s) i b (str_enc s @ rest) =
      Some (int (length (str_enc s)), i\<lparr>huff_decode_ctx := h, left := 0\<rparr>, b') \<and> buf_bytes b' = s"
  proof (cases "str_huff s")
    case True
    have "buf_ok b" "2 * length (pack (codes s)) \<le> nghttp2_buf_avail b"
      using d True l by (auto simp: str_dest_def str_enc_def)
    from huff_whole [OF this] show ?thesis using True l b h [OF True]
      by (auto simp: read_str_def hd_inflate_read_huff_def str_enc_def Let_def)
  next
    case False
    have "buf_ok b" "length s \<le> nghttp2_buf_avail b" using d False l by (auto simp: str_dest_def str_enc_def)
    from buf_put_ok [OF this] obtain c where "buf_put b s = Some c" "buf_bytes c = s" using b by auto
    then have "read_str (str_huff s) i b (str_enc s @ rest) =
      Some (int (length (str_enc s)), i\<lparr>huff_decode_ctx := huff_decode_ctx i, left := 0\<rparr>, c)"
      using False l by (simp add: read_str_def hd_inflate_read_def str_enc_def Let_def)
    then show ?thesis using \<open>buf_bytes c = s\<close> by blast
  qed
  have nn: "int (length (str_enc s)) \<noteq> NGHTTP2_ERR_HEADER_COMP" by (simp add: ng_defs)
  show ?thesis using post v nn unfolding read_post_def by (fastforce simp: str_dest_def split: if_splits)
qed

subsection \<open>The phases of a literal\<close>

lemma loop_next:
  "inflate_step i inp = Some (Turn_Next i' inp' b) \<Longrightarrow> inp \<noteq> [] \<or> busy \<Longrightarrow> hd_inflate_loop i inp busy = hd_inflate_loop i' inp' b"
  by (subst hd_inflate_loop.simps) auto

lemma loop_emit:
  "inflate_step i inp = Some (Turn_Emit i' inp' nv) \<Longrightarrow> inp \<noteq> [] \<or> busy \<Longrightarrow> hd_inflate_loop i inp busy = Some (Turn_Emit i' inp' nv)"
  by (subst hd_inflate_loop.simps) auto

text \<open>What reading a string leaves alone.\<close>

definition same_hdr :: "nghttp2_hd_inflater \<Rightarrow> nghttp2_hd_inflater \<Rightarrow> bool" where
  "same_hdr a b \<longleftrightarrow> ifl_ctx a = ifl_ctx b \<and> opcode a = opcode b \<and> index a = index b \<and> index_required a = index_required b \<and>
     no_index a = no_index b \<and> ifl_min_hd_table_bufsize_max a = ifl_min_hd_table_bufsize_max b \<and>
     settings_hd_table_bufsize_max a = settings_hd_table_bufsize_max b"

lemma rcbuf_new_ok: "(\<And>k. mem_ok al k) \<Longrightarrow> \<exists>base. nghttp2_rcbuf_new al n = Some base"
  by (simp add: nghttp2_rcbuf_new_def)

lemma wrap_bytes [simp]: "buf_bytes (nghttp2_buf_wrap_init bs) = []"
  by (simp add: buf_bytes_def nghttp2_buf_wrap_init_def nghttp2_buf_len_def)

lemma str_len_read:
  assumes "left i = 0" "ifl_shift i = 0" "length s \<le> 65536"
  shows "\<exists>sh. hd_inflate_read_len i (str_len s @ rest) 7 NGHTTP2_HD_MAX_NV =
    Some (int (length (str_len s)), True, i\<lparr>ifl_shift := sh, left := length (str_enc s)\<rparr>)"
  unfolding str_len_def using assms str_enc_length [of s] by (intro read_len_whole) (simp_all add: UINT32_MAX_def ng_defs)

lemma name_phase:
  assumes st: "ifl_state i = NGHTTP2_HD_STATE_NEWNAME_CHECK_NAMELEN" and mem: "\<And>k. mem_ok (ctx_mem (ifl_ctx i)) k"
    and len: "length s \<le> 65536" and rest: "rest \<noteq> []"
  shows "\<exists>i'. hd_inflate_loop i (str_bytes s @ rest) busy = hd_inflate_loop i' rest False \<and> same_hdr i' i \<and>
    ifl_state i' = NGHTTP2_HD_STATE_CHECK_VALUELEN \<and> (\<exists>n. namercbuf i' = Some n \<and> take n (buf_mem (namebuf i')) = s)"
proof -
  let ?inp = "str_bytes s @ rest"
  define i0 where "i0 = i\<lparr>huffman_encoded := str_huff s, ifl_state := NGHTTP2_HD_STATE_NEWNAME_READ_NAMELEN, left := 0, ifl_shift := 0\<rparr>"
  obtain b tl where f: "str_len s = b # tl" "(b AND push_bit 7 1 \<noteq> 0) = str_huff s" using str_first by blast
  obtain sh where r: "hd_inflate_read_len i0 (str_len s @ str_enc s @ rest) 7 NGHTTP2_HD_MAX_NV =
      Some (int (length (str_len s)), True, i0\<lparr>ifl_shift := sh, left := length (str_enc s)\<rparr>)"
    using str_len_read [of i0 s "str_enc s @ rest"] len by (auto simp: i0_def)
  define i1 where "i1 = i0\<lparr>ifl_shift := sh, left := length (str_enc s)\<rparr>"
  obtain base where base: "nghttp2_rcbuf_new (ctx_mem (ifl_ctx i1)) (if huffman_encoded i1 then left i1 * 2 + 1 else left i1 + 1) = Some base"
    using rcbuf_new_ok [OF mem] by (auto simp: i1_def i0_def)
  define i2 where "i2 = (name_dest i1)\<lparr>namercbuf := Some (length base), namebuf := nghttp2_buf_wrap_init base\<rparr>"
  have 1: "inflate_step i ?inp = Some (Turn_Next i2 (str_enc s @ rest) False)"
  proof -
    have "inflate_step i ?inp = inflate_namelen i0 ?inp"
      using st f by (simp add: inflate_step_def hd_inflate_set_huffman_encoded_def str_bytes_eq i0_def)
    then show ?thesis using namelen_whole [OF r [folded i1_def]] base by (simp add: str_bytes_eq i2_def)
  qed
  have h: "huffman_encoded i1 = str_huff s" "left i2 = length (str_enc s)" "str_huff s \<Longrightarrow> huff_decode_ctx i2 = nghttp2_hd_huff_decode_context_init"
    "ifl_state i2 = (if str_huff s then NGHTTP2_HD_STATE_NEWNAME_READ_NAMEHUFF else NGHTTP2_HD_STATE_NEWNAME_READ_NAME)"
    "namebuf i2 = nghttp2_buf_wrap_init base" "left i1 = left i2"
    by (simp_all add: i2_def name_dest_def i1_def i0_def)
  have sm: "same_hdr i2 i" by (simp add: same_hdr_def i2_def name_dest_def i1_def i0_def)
  have "str_dest (str_huff s) i2 (namebuf i2)"
    using base unfolding h(5) by (intro rcbuf_new_dest) (simp_all only: h)
  from read_str_whole [OF this h(2) _ h(3), where rest = rest] obtain hc b' where
    rd: "read_str (str_huff s) i2 (namebuf i2) (str_enc s @ rest) = Some (int (length (str_enc s)), i2\<lparr>huff_decode_ctx := hc, left := 0\<rparr>, b')"
      "buf_bytes b' = s" "buf_ok b'" "buf_pos b' = 0" "1 \<le> nghttp2_buf_avail b'" by (auto simp: h(5))
  from buf_store_ok [OF rd(3-5), of 0] obtain c where c: "buf_store b' 0 = Some c" "take (nghttp2_buf_len c) (buf_mem c) = s"
    using rd(2) by auto
  define i3 where "i3 = i2\<lparr>huff_decode_ctx := hc, left := 0, namebuf := c, namercbuf := Some (nghttp2_buf_len c),
    ifl_state := NGHTTP2_HD_STATE_CHECK_VALUELEN\<rparr>"
  have "inflate_step i2 (str_enc s @ rest) = Some (Turn_Next i3 rest False)"
  proof -
    have "inflate_step i2 (str_enc s @ rest) = read_str (str_huff s) i2 (namebuf i2) (str_enc s @ rest) \<bind> inflate_name_read (str_enc s @ rest)"
      using h(4) by (simp add: inflate_step_def read_str_def)
    then show ?thesis using rd(1) c(1) by (simp add: inflate_name_read_def Let_def i3_def)
  qed
  then have "hd_inflate_loop i ?inp busy = hd_inflate_loop i3 rest False"
    using loop_next [OF 1] loop_next [of i2 "str_enc s @ rest" i3 rest False] rest by simp
  moreover have "same_hdr i3 i" using sm by (simp add: same_hdr_def i3_def)
  moreover have "ifl_state i3 = NGHTTP2_HD_STATE_CHECK_VALUELEN" "namercbuf i3 = Some (nghttp2_buf_len c)" "namebuf i3 = c"
    by (simp_all add: i3_def)
  ultimately show ?thesis using c(2) by auto
qed

lemma value_phase:
  assumes st: "ifl_state i = NGHTTP2_HD_STATE_CHECK_VALUELEN" and mem: "\<And>k. mem_ok (ctx_mem (ifl_ctx i)) k"
    and len: "length s \<le> 65536" and inv: "ctx_inv (ifl_ctx i)" and nk: "name_known i"
  shows "\<exists>i' nv. hd_inflate_loop i (str_bytes s @ rest) busy = Some (Turn_Emit i' rest nv) \<and>
    ifl_state i' = NGHTTP2_HD_STATE_OPCODE \<and> ctx_inv (ifl_ctx i') \<and> same_ctx (ifl_ctx i') (ifl_ctx i) \<and> left i' = 0 \<and>
    ifl_min_hd_table_bufsize_max i' = ifl_min_hd_table_bufsize_max i \<and>
    settings_hd_table_bufsize_max i' = settings_hd_table_bufsize_max i \<and>
    hd_name nv = lit_name i \<and> hd_value nv = s \<and> hd_flags nv = commit_flags i \<and>
    prs (ifl_ctx i') = (if index_required i then padd (hd_table_bufsize_max (ifl_ctx i)) (lit_name i, s) (prs (ifl_ctx i)) else prs (ifl_ctx i))"
proof -
  let ?inp = "str_bytes s @ rest"
  define i0 where "i0 = i\<lparr>huffman_encoded := str_huff s, ifl_state := NGHTTP2_HD_STATE_READ_VALUELEN, left := 0, ifl_shift := 0\<rparr>"
  obtain b tl where f: "str_len s = b # tl" "(b AND push_bit 7 1 \<noteq> 0) = str_huff s" using str_first by blast
  obtain sh where r: "hd_inflate_read_len i0 (str_len s @ str_enc s @ rest) 7 NGHTTP2_HD_MAX_NV =
      Some (int (length (str_len s)), True, i0\<lparr>ifl_shift := sh, left := length (str_enc s)\<rparr>)"
    using str_len_read [of i0 s "str_enc s @ rest"] len by (auto simp: i0_def)
  define i1 where "i1 = i0\<lparr>ifl_shift := sh, left := length (str_enc s)\<rparr>"
  obtain base where base: "nghttp2_rcbuf_new (ctx_mem (ifl_ctx i1)) (if huffman_encoded i1 then left i1 * 2 + 1 else left i1 + 1) = Some base"
    using rcbuf_new_ok [OF mem] by (auto simp: i1_def i0_def)
  define i2 where "i2 = (value_dest i1)\<lparr>valuercbuf := Some (length base), valuebuf := nghttp2_buf_wrap_init base\<rparr>"
  have 1: "inflate_step i ?inp = Some (Turn_Next i2 (str_enc s @ rest) True)"
  proof -
    have "inflate_step i ?inp = inflate_valuelen i0 ?inp"
      using st f by (simp add: inflate_step_def hd_inflate_set_huffman_encoded_def str_bytes_eq i0_def)
    then show ?thesis using valuelen_whole [OF r [folded i1_def]] base by (simp add: str_bytes_eq i2_def)
  qed
  have h: "huffman_encoded i1 = str_huff s" "left i2 = length (str_enc s)" "str_huff s \<Longrightarrow> huff_decode_ctx i2 = nghttp2_hd_huff_decode_context_init"
    "ifl_state i2 = (if str_huff s then NGHTTP2_HD_STATE_READ_VALUEHUFF else NGHTTP2_HD_STATE_READ_VALUE)"
    "valuebuf i2 = nghttp2_buf_wrap_init base" "left i1 = left i2"
    by (simp_all add: i2_def value_dest_def i1_def i0_def)
  have "str_dest (str_huff s) i2 (valuebuf i2)"
    using base unfolding h(5) by (intro rcbuf_new_dest) (simp_all only: h)
  from read_str_whole [OF this h(2) _ h(3), where rest = rest] obtain hc b' where
    rd: "read_str (str_huff s) i2 (valuebuf i2) (str_enc s @ rest) = Some (int (length (str_enc s)), i2\<lparr>huff_decode_ctx := hc, left := 0\<rparr>, b')"
      "buf_bytes b' = s" "buf_ok b'" "buf_pos b' = 0" "1 \<le> nghttp2_buf_avail b'" by (auto simp: h(5))
  from buf_store_ok [OF rd(3-5), of 0] obtain c where c: "buf_store b' 0 = Some c" "take (nghttp2_buf_len c) (buf_mem c) = s"
    using rd(2) by auto
  define i3 where "i3 = i2\<lparr>huff_decode_ctx := hc, left := 0, valuebuf := c, valuercbuf := Some (nghttp2_buf_len c)\<rparr>"
  have k: "ifl_ctx i3 = ifl_ctx i" "opcode i3 = opcode i" "index i3 = index i" "index_required i3 = index_required i" "no_index i3 = no_index i"
    "namercbuf i3 = namercbuf i" "namebuf i3 = namebuf i" "valuebuf i3 = c" "valuercbuf i3 = Some (nghttp2_buf_len c)" "left i3 = 0"
    "ifl_min_hd_table_bufsize_max i3 = ifl_min_hd_table_bufsize_max i" "settings_hd_table_bufsize_max i3 = settings_hd_table_bufsize_max i"
    by (simp_all add: i3_def i2_def value_dest_def i1_def i0_def)
  have l: "lit_name i3 = lit_name i" "commit_flags i3 = commit_flags i" "name_known i3" "ctx_inv (ifl_ctx i3)"
    using nk inv by (simp_all add: lit_name_def commit_flags_def name_known_def k)
  from commit_spec [OF l(4,3) k(9)] obtain rv i4 nv where
    cm: "commit_lit i3 = Some (rv, i4, nv)" "ctx_inv (ifl_ctx i4)" "same_ctx (ifl_ctx i4) (ifl_ctx i)" "left i4 = 0"
      "ifl_min_hd_table_bufsize_max i4 = ifl_min_hd_table_bufsize_max i" "settings_hd_table_bufsize_max i4 = settings_hd_table_bufsize_max i"
      "rv = 0 \<and> hd_name nv = lit_name i \<and> hd_value nv = s \<and> hd_flags nv = commit_flags i \<and>
       prs (ifl_ctx i4) = (if index_required i
         then padd (hd_table_bufsize_max (ifl_ctx i)) (hd_name nv, hd_value nv) (prs (ifl_ctx i)) else prs (ifl_ctx i)) \<or>
       rv = NGHTTP2_ERR_NOMEM \<and> (\<exists>k. \<not> mem_ok (ctx_mem (ifl_ctx i)) k)"
    unfolding k l c(2) by (elim exE conjE)
  have rv: "rv = 0" "hd_name nv = lit_name i" "hd_value nv = s" "hd_flags nv = commit_flags i"
    "prs (ifl_ctx i4) = (if index_required i then padd (hd_table_bufsize_max (ifl_ctx i)) (lit_name i, s) (prs (ifl_ctx i)) else prs (ifl_ctx i))"
    using cm(7) mem by auto
  have "inflate_step i2 (str_enc s @ rest) = Some (Turn_Emit (i4\<lparr>ifl_state := NGHTTP2_HD_STATE_OPCODE\<rparr>) rest nv)"
  proof -
    have "inflate_step i2 (str_enc s @ rest) = read_str (str_huff s) i2 (valuebuf i2) (str_enc s @ rest) \<bind> inflate_value_read (str_enc s @ rest)"
      using h(4) by (simp add: inflate_step_def read_str_def)
    then show ?thesis using rd(1) c(1) cm(1) rv(1) by (simp add: inflate_value_read_def Let_def i3_def commit_lit_def [symmetric])
  qed
  then have "hd_inflate_loop i ?inp busy = Some (Turn_Emit (i4\<lparr>ifl_state := NGHTTP2_HD_STATE_OPCODE\<rparr>) rest nv)"
    using loop_next [OF 1] loop_emit [of i2 "str_enc s @ rest" _ rest nv True] f(1) by (simp add: str_bytes_eq)
  then show ?thesis using cm(2-6) rv(2-5)
    by (intro exI [of _ "i4\<lparr>ifl_state := NGHTTP2_HD_STATE_OPCODE\<rparr>"] exI [of _ nv] conjI) simp_all
qed

subsection \<open>A representation\<close>

definition rep_short :: "hd_rep \<Rightarrow> bool" where
  "rep_short r \<longleftrightarrow> (case r of Indexed i \<Rightarrow> True | Ind_Name m i v \<Rightarrow> length v \<le> 65536
     | New_Name m n v \<Rightarrow> length n \<le> 65536 \<and> length v \<le> 65536)"

text \<open>The inflater between two fields: \<open>START\<close> or \<open>OPCODE\<close>.\<close>

definition at_field :: "nghttp2_hd_inflater \<Rightarrow> bool" where
  "at_field i \<longleftrightarrow> ctx_inv (ifl_ctx i) \<and> \<not> bad (ifl_ctx i) \<and> (\<forall>k. mem_ok (ctx_mem (ifl_ctx i)) k) \<and>
     (ifl_state i = NGHTTP2_HD_STATE_INFLATE_START \<or> ifl_state i = NGHTTP2_HD_STATE_OPCODE)"

definition after_field :: "nghttp2_hd_inflater \<Rightarrow> nghttp2_hd_inflater \<Rightarrow> bool" where
  "after_field i i' \<longleftrightarrow> ifl_state i' = NGHTTP2_HD_STATE_OPCODE \<and> ctx_inv (ifl_ctx i') \<and> same_ctx (ifl_ctx i') (ifl_ctx i) \<and> left i' \<le> UINT32_MAX \<and>
     ifl_min_hd_table_bufsize_max i' = ifl_min_hd_table_bufsize_max i \<and>
     settings_hd_table_bufsize_max i' = settings_hd_table_bufsize_max i"

lemma index_bound:
  assumes "ctx_inv c" "plook (prs c) k = Some p"
  shows "k < 61 + length (ents c)" "k + 1 \<le> UINT32_MAX" "get_max_index c = 61 + length (ents c)"
proof -
  show k: "k < 61 + length (ents c)" using assms(2) by (auto simp: plook_def prs_def split: if_splits)
  have "32 * length (ents c) < 2 ^ 32" using dyn_size_length [of "ents c"] assms(1) by (simp add: ctx_inv_def ctx_wf_def)
  then show "k + 1 \<le> UINT32_MAX" using k by (simp add: UINT32_MAX_def)
  show "get_max_index c = 61 + length (ents c)" by (simp add: get_max_index_def ents_def ng_defs)
qed

lemma indexed_decode:
  assumes a: "at_field i" and p: "plook (prs (ifl_ctx i)) k = Some p"
  shows "\<exists>i' nv. hd_inflate_loop i (rep_bytes (Indexed k) @ rest) busy = Some (Turn_Emit i' rest nv) \<and> after_field i i' \<and>
    (hd_name nv, hd_value nv) = p \<and> prs (ifl_ctx i') = prs (ifl_ctx i)"
proof -
  let ?inp = "int_bytes 0x80 (k + 1) 7 @ rest"
  have c: "ctx_inv (ifl_ctx i)" using a by (simp add: at_field_def)
  note ib = index_bound [OF c p]
  define i0 where "i0 = i\<lparr>opcode := NGHTTP2_HD_OPCODE_INDEXED, ifl_state := NGHTTP2_HD_STATE_READ_INDEX, left := 0, ifl_shift := 0\<rparr>"
  obtain b tl where b: "int_bytes 0x80 (k + 1) 7 = b # tl" "indexed_byte b" using indexed_first [of "k + 1"] by auto
  have 1: "inflate_step i ?inp = Some (Turn_Next i0 ?inp False)"
    using a b by (auto simp: inflate_step_def at_field_def inflate_opcode_def indexed_byte_def i0_def)
  obtain sh where r: "hd_inflate_read_len i0 ?inp 7 (get_max_index (ifl_ctx i0)) =
      Some (int (length (int_bytes 0x80 (k + 1) 7)), True, i0\<lparr>ifl_shift := sh, left := k + 1\<rparr>)"
    using read_len_whole [of i0 7 "k + 1" "get_max_index (ifl_ctx i0)" "0x80" rest] ib by (auto simp: i0_def)
  obtain h where h: "nghttp2_hd_table_get (ifl_ctx i) k = Some h" "(hd_name h, hd_value h) = p"
    using pair_at_plook [OF c, of k] p by (auto simp: pair_at_def)
  have "inflate_step i0 ?inp = Some (Turn_Emit (i0\<lparr>ifl_shift := sh, left := k + 1, index := k, ifl_state := NGHTTP2_HD_STATE_OPCODE\<rparr>) rest h)"
    using r h(1) by (simp add: inflate_step_def i0_def inflate_index_def Let_def hd_inflate_commit_indexed_def)
  then have "hd_inflate_loop i ?inp busy = Some (Turn_Emit (i0\<lparr>ifl_shift := sh, left := k + 1, index := k, ifl_state := NGHTTP2_HD_STATE_OPCODE\<rparr>) rest h)"
    using loop_next [OF 1] loop_emit [of i0 ?inp _ rest h False] b(1) by simp
  then show ?thesis using h(2) c ib(2) by (auto simp: i0_def after_field_def same_ctx_def)
qed

lemma indname_decode:
  assumes a: "at_field i" and p: "plook (prs (ifl_ctx i)) k = Some p" and len: "length v \<le> 65536"
  shows "\<exists>i' nv. hd_inflate_loop i (rep_bytes (Ind_Name m k v) @ rest) busy = Some (Turn_Emit i' rest nv) \<and> after_field i i' \<and>
    (hd_name nv, hd_value nv) = (fst p, v) \<and> hd_flags nv = (if m = NGHTTP2_HD_NEVER_INDEXING then NGHTTP2_NV_FLAG_NO_INDEX else NGHTTP2_NV_FLAG_NONE) \<and>
    prs (ifl_ctx i') = (if m = NGHTTP2_HD_WITH_INDEXING then padd (hd_table_bufsize_max (ifl_ctx i)) (fst p, v) (prs (ifl_ctx i)) else prs (ifl_ctx i))"
proof -
  define pl :: nat where "pl = (if m = NGHTTP2_HD_WITH_INDEXING then 6 else 4)"
  let ?ib = "int_bytes (pack_first_byte m) (k + 1) pl"
  let ?inp = "?ib @ str_bytes v @ rest"
  have c: "ctx_inv (ifl_ctx i)" "\<And>k. mem_ok (ctx_mem (ifl_ctx i)) k" using a by (simp_all add: at_field_def)
  note ib = index_bound [OF c(1) p]
  define i0 where "i0 = i\<lparr>opcode := NGHTTP2_HD_OPCODE_INDNAME, ifl_state := NGHTTP2_HD_STATE_READ_INDEX,
    index_required := m = NGHTTP2_HD_WITH_INDEXING, no_index := m = NGHTTP2_HD_NEVER_INDEXING, left := 0, ifl_shift := 0\<rparr>"
  obtain b tl where b: "?ib = b # tl" "indname_byte m b" using indname_first [of "k + 1" m] by (auto simp: pl_def)
  have 1: "inflate_step i ?inp = Some (Turn_Next i0 ?inp False)"
    using a b by (auto simp: inflate_step_def at_field_def inflate_opcode_def indname_byte_def i0_def Let_def)
  have "left i0 = 0" "ifl_shift i0 = 0" "1 \<le> pl" "pl \<le> 8" "k + 1 \<le> get_max_index (ifl_ctx i0)" using ib by (simp_all add: i0_def pl_def)
  from read_len_whole [OF this(1-4) ib(2) this(5)] obtain sh where
    r: "hd_inflate_read_len i0 ?inp pl (get_max_index (ifl_ctx i0)) = Some (int (length ?ib), True, i0\<lparr>ifl_shift := sh, left := k + 1\<rparr>)"
    by blast
  define i1 where "i1 = i0\<lparr>ifl_shift := sh, left := k + 1, index := k, ifl_state := NGHTTP2_HD_STATE_CHECK_VALUELEN\<rparr>"
  have "(if opcode i0 = NGHTTP2_HD_OPCODE_INDEXED then 7 else if index_required i0 then 6 else 4) = pl" by (simp add: i0_def pl_def)
  then have "inflate_step i0 ?inp = Some (Turn_Next i1 (str_bytes v @ rest) False)"
    using r by (simp add: inflate_step_def i0_def [THEN arg_cong [of _ _ ifl_state]] inflate_index_def Let_def i1_def)
       (simp add: i0_def)
  moreover have "str_bytes v \<noteq> []" using str_first [of v] by (auto simp: str_bytes_eq)
  ultimately have e: "hd_inflate_loop i ?inp busy = hd_inflate_loop i1 (str_bytes v @ rest) False"
    using loop_next [OF 1] loop_next [of i0 ?inp i1 "str_bytes v @ rest" False] b(1) by simp
  have i1: "ifl_state i1 = NGHTTP2_HD_STATE_CHECK_VALUELEN" "ifl_ctx i1 = ifl_ctx i" "name_known i1" "lit_name i1 = fst p"
    "commit_flags i1 = (if m = NGHTTP2_HD_NEVER_INDEXING then NGHTTP2_NV_FLAG_NO_INDEX else NGHTTP2_NV_FLAG_NONE)"
    "index_required i1 = (m = NGHTTP2_HD_WITH_INDEXING)" "ifl_min_hd_table_bufsize_max i1 = ifl_min_hd_table_bufsize_max i"
    "settings_hd_table_bufsize_max i1 = settings_hd_table_bufsize_max i"
    using ib(1) p by (simp_all add: i1_def i0_def name_known_def lit_name_def commit_flags_def)
  from value_phase [OF i1(1) _ len _ i1(3), of rest False] obtain i' nv where
    "hd_inflate_loop i1 (str_bytes v @ rest) False = Some (Turn_Emit i' rest nv)" "after_field i i'"
    "hd_name nv = fst p" "hd_value nv = v" "hd_flags nv = commit_flags i1"
    "prs (ifl_ctx i') = (if index_required i1 then padd (hd_table_bufsize_max (ifl_ctx i)) (fst p, v) (prs (ifl_ctx i)) else prs (ifl_ctx i))"
    using c by (auto simp: i1(2,4,7,8) after_field_def)
  then show ?thesis using e by (simp add: pl_def i1(5,6))
qed

lemma newname_decode:
  assumes a: "at_field i" and len: "length n \<le> 65536" "length v \<le> 65536"
  shows "\<exists>i' nv. hd_inflate_loop i (rep_bytes (New_Name m n v) @ rest) busy = Some (Turn_Emit i' rest nv) \<and> after_field i i' \<and>
    (hd_name nv, hd_value nv) = (n, v) \<and> hd_flags nv = (if m = NGHTTP2_HD_NEVER_INDEXING then NGHTTP2_NV_FLAG_NO_INDEX else NGHTTP2_NV_FLAG_NONE) \<and>
    prs (ifl_ctx i') = (if m = NGHTTP2_HD_WITH_INDEXING then padd (hd_table_bufsize_max (ifl_ctx i)) (n, v) (prs (ifl_ctx i)) else prs (ifl_ctx i))"
proof -
  let ?inp = "pack_first_byte m # str_bytes n @ str_bytes v @ rest"
  have c: "ctx_inv (ifl_ctx i)" "\<And>k. mem_ok (ctx_mem (ifl_ctx i)) k" using a by (simp_all add: at_field_def)
  define i0 where "i0 = i\<lparr>opcode := NGHTTP2_HD_OPCODE_NEWNAME, ifl_state := NGHTTP2_HD_STATE_NEWNAME_CHECK_NAMELEN,
    index_required := m = NGHTTP2_HD_WITH_INDEXING, no_index := m = NGHTTP2_HD_NEVER_INDEXING, left := 0, ifl_shift := 0\<rparr>"
  have 1: "inflate_step i ?inp = Some (Turn_Next i0 (str_bytes n @ str_bytes v @ rest) False)"
    using a by (cases m) (auto simp: inflate_step_def at_field_def inflate_opcode_def i0_def Let_def)
  have ne: "str_bytes v @ rest \<noteq> []" using str_first [of v] by (auto simp: str_bytes_eq)
  have i0: "ifl_state i0 = NGHTTP2_HD_STATE_NEWNAME_CHECK_NAMELEN" "\<And>k. mem_ok (ctx_mem (ifl_ctx i0)) k" using c by (simp_all add: i0_def)
  from name_phase [OF i0 len(1) ne, of False] obtain i1 l where
    n: "hd_inflate_loop i0 (str_bytes n @ str_bytes v @ rest) False = hd_inflate_loop i1 (str_bytes v @ rest) False"
      "same_hdr i1 i0" "ifl_state i1 = NGHTTP2_HD_STATE_CHECK_VALUELEN" "namercbuf i1 = Some l" "take l (buf_mem (namebuf i1)) = n" by blast
  have e: "hd_inflate_loop i ?inp busy = hd_inflate_loop i1 (str_bytes v @ rest) False" using loop_next [OF 1] n(1) by simp
  have i1: "ifl_ctx i1 = ifl_ctx i" "name_known i1" "lit_name i1 = n"
    "commit_flags i1 = (if m = NGHTTP2_HD_NEVER_INDEXING then NGHTTP2_NV_FLAG_NO_INDEX else NGHTTP2_NV_FLAG_NONE)"
    "index_required i1 = (m = NGHTTP2_HD_WITH_INDEXING)" "ifl_min_hd_table_bufsize_max i1 = ifl_min_hd_table_bufsize_max i"
    "settings_hd_table_bufsize_max i1 = settings_hd_table_bufsize_max i"
    using n(2,4,5) by (simp_all add: same_hdr_def i0_def name_known_def lit_name_def commit_flags_def)
  from value_phase [OF n(3) _ len(2) _ i1(2), of rest False] obtain i' nv where
    "hd_inflate_loop i1 (str_bytes v @ rest) False = Some (Turn_Emit i' rest nv)" "after_field i i'"
    "hd_name nv = n" "hd_value nv = v" "hd_flags nv = commit_flags i1"
    "prs (ifl_ctx i') = (if index_required i1 then padd (hd_table_bufsize_max (ifl_ctx i)) (n, v) (prs (ifl_ctx i)) else prs (ifl_ctx i))"
    using c by (auto simp: i1(1,3,6,7) after_field_def)
  then show ?thesis using e by (simp add: i1(4,5))
qed

lemma rep_decode:
  assumes a: "at_field i" and sh: "rep_short r" and sem: "rep_sem (hd_table_bufsize_max (ifl_ctx i)) (prs (ifl_ctx i)) r = Some (p, ps)"
  shows "\<exists>i' nv. hd_inflate_loop i (rep_bytes r @ rest) busy = Some (Turn_Emit i' rest nv) \<and> after_field i i' \<and>
    (hd_name nv, hd_value nv) = p \<and> prs (ifl_ctx i') = ps \<and> (rep_never r \<longrightarrow> hd_flags nv = NGHTTP2_NV_FLAG_NO_INDEX)"
proof (cases r)
  case (Indexed k)
  then have "plook (prs (ifl_ctx i)) k = Some p" "ps = prs (ifl_ctx i)" using sem by auto
  then show ?thesis using Indexed indexed_decode [OF a, of k p rest busy] by (auto simp del: rep_bytes.simps)
next
  case (Ind_Name m k v)
  then obtain q where q: "plook (prs (ifl_ctx i)) k = Some q" "p = (fst q, v)"
    "ps = (if m = NGHTTP2_HD_WITH_INDEXING then padd (hd_table_bufsize_max (ifl_ctx i)) (fst q, v) (prs (ifl_ctx i)) else prs (ifl_ctx i))"
    using sem by auto
  have "length v \<le> 65536" using sh Ind_Name by (simp add: rep_short_def)
  from indname_decode [OF a q(1) this, of m rest busy] show ?thesis unfolding Ind_Name q(2,3) by (auto simp del: rep_bytes.simps)
next
  case (New_Name m n v)
  then have q: "p = (n, v)"
    "ps = (if m = NGHTTP2_HD_WITH_INDEXING then padd (hd_table_bufsize_max (ifl_ctx i)) (n, v) (prs (ifl_ctx i)) else prs (ifl_ctx i))"
    using sem by auto
  have "length n \<le> 65536" "length v \<le> 65536" using sh New_Name by (simp_all add: rep_short_def)
  from newname_decode [OF a this, of m rest busy] show ?thesis unfolding New_Name q by (auto simp del: rep_bytes.simps)
qed

subsection \<open>Table size updates\<close>

definition at_start :: "nghttp2_hd_inflater \<Rightarrow> bool" where
  "at_start i \<longleftrightarrow> ctx_inv (ifl_ctx i) \<and> \<not> bad (ifl_ctx i) \<and> (\<forall>k. mem_ok (ctx_mem (ifl_ctx i)) k) \<and>
     (ifl_state i = NGHTTP2_HD_STATE_INFLATE_START \<or> ifl_state i = NGHTTP2_HD_STATE_EXPECT_TABLE_SIZE)"

lemma update_decode:
  assumes a: "at_start i" and u: "u \<le> UINT32_MAX" "u \<le> ifl_min_hd_table_bufsize_max i" "u \<le> settings_hd_table_bufsize_max i"
  shows "\<exists>i'. hd_inflate_loop i (int_bytes 0x20 u 5 @ rest) False = hd_inflate_loop i' rest False \<and> at_start i' \<and>
    ifl_state i' = NGHTTP2_HD_STATE_INFLATE_START \<and> hd_table_bufsize_max (ifl_ctx i') = u \<and>
    prs (ifl_ctx i') = pfit u (prs (ifl_ctx i)) \<and> ifl_min_hd_table_bufsize_max i' = UINT32_MAX \<and>
    settings_hd_table_bufsize_max i' = settings_hd_table_bufsize_max i"
proof -
  let ?ib = "int_bytes 0x20 u 5"
  let ?mx = "min (ifl_min_hd_table_bufsize_max i) (settings_hd_table_bufsize_max i)"
  define i0 where "i0 = i\<lparr>opcode := NGHTTP2_HD_OPCODE_INDEXED, ifl_state := NGHTTP2_HD_STATE_READ_TABLE_SIZE, left := 0, ifl_shift := 0\<rparr>"
  obtain b tl where b: "?ib = b # tl" "b AND 0xe0 = 0x20" using update_first by blast
  have 1: "inflate_step i (?ib @ rest) = Some (Turn_Next i0 (?ib @ rest) False)"
    using a b by (auto simp: inflate_step_def at_start_def inflate_opcode_def i0_def)
  have "left i0 = 0" "ifl_shift i0 = 0" "1 \<le> (5 :: nat)" "(5 :: nat) \<le> 8" "u \<le> ?mx" using u by (simp_all add: i0_def)
  from read_len_whole [OF this(1-4) u(1) this(5), of "0x20" rest] obtain sh where
    r: "hd_inflate_read_len i0 (?ib @ rest) 5 ?mx = Some (int (length ?ib), True, i0\<lparr>ifl_shift := sh, left := u\<rparr>)" by blast
  let ?c = "(ifl_ctx i)\<lparr>hd_table_bufsize_max := u\<rparr>"
  have c: "ctx_wf ?c" "ents ?c = ents (ifl_ctx i)" using a by (simp_all add: at_start_def ctx_inv_def ctx_wf_def ents_def)
  from shrink_spec [OF c(1), of None] obtain ctx m where
    s: "hd_context_shrink_table_size ?c None = Some (ctx, m)" "ctx_inv ctx" "same_ctx ctx ?c" "ents ctx = fit u (ents (ifl_ctx i))"
    using u(1) c(2) by (auto simp: map_ok_def UINT32_MAX_def)
  define i1 where "i1 = i0\<lparr>ifl_shift := sh, left := u, ifl_min_hd_table_bufsize_max := UINT32_MAX, ifl_ctx := ctx,
    ifl_state := NGHTTP2_HD_STATE_INFLATE_START\<rparr>"
  have "inflate_step i0 (?ib @ rest) = Some (Turn_Next i1 rest False)"
    using r s(1) by (simp add: inflate_step_def inflate_table_size_def Let_def i0_def i1_def)
  then have "hd_inflate_loop i (?ib @ rest) False = hd_inflate_loop i1 rest False"
    using loop_next [OF 1] loop_next [of i0 "?ib @ rest" i1 rest False] b(1) by simp
  then show ?thesis using s(2-4) a by (auto simp: i1_def i0_def at_start_def same_ctx_def prs_def pfit_map)
qed

lemma updates_decode:
  "at_start i \<Longrightarrow> list_all (\<lambda>u. u \<le> UINT32_MAX \<and> u \<le> settings_hd_table_bufsize_max i) us \<Longrightarrow>
   (us \<noteq> [] \<longrightarrow> hd us \<le> ifl_min_hd_table_bufsize_max i) \<Longrightarrow> us \<noteq> [] \<or> ifl_state i = NGHTTP2_HD_STATE_INFLATE_START \<Longrightarrow>
   \<exists>i'. hd_inflate_loop i (updates_bytes us @ rest) False = hd_inflate_loop i' rest False \<and> at_start i' \<and>
     ifl_state i' = NGHTTP2_HD_STATE_INFLATE_START \<and> prs (ifl_ctx i') = foldl (\<lambda>ps u. pfit u ps) (prs (ifl_ctx i)) us \<and>
     hd_table_bufsize_max (ifl_ctx i') = (if us = [] then hd_table_bufsize_max (ifl_ctx i) else last us) \<and>
     settings_hd_table_bufsize_max i' = settings_hd_table_bufsize_max i \<and>
     ifl_min_hd_table_bufsize_max i' = (if us = [] then ifl_min_hd_table_bufsize_max i else UINT32_MAX)"
proof (induction us arbitrary: i)
  case Nil
  then show ?case by (auto simp: updates_bytes_def)
next
  case (Cons u us)
  have "u \<le> UINT32_MAX" "u \<le> ifl_min_hd_table_bufsize_max i" "u \<le> settings_hd_table_bufsize_max i" using Cons.prems by auto
  from update_decode [OF Cons.prems(1) this, of "updates_bytes us @ rest"] obtain i1 where
    1: "hd_inflate_loop i (updates_bytes (u # us) @ rest) False = hd_inflate_loop i1 (updates_bytes us @ rest) False" "at_start i1"
      "ifl_state i1 = NGHTTP2_HD_STATE_INFLATE_START" "hd_table_bufsize_max (ifl_ctx i1) = u" "prs (ifl_ctx i1) = pfit u (prs (ifl_ctx i))"
      "ifl_min_hd_table_bufsize_max i1 = UINT32_MAX" "settings_hd_table_bufsize_max i1 = settings_hd_table_bufsize_max i"
    by (auto simp: updates_bytes_def)
  have "us \<noteq> [] \<longrightarrow> hd us \<le> UINT32_MAX" using Cons.prems(2) by (cases us) auto
  with Cons.IH [of i1] 1 Cons.prems(2) show ?case by auto
qed

subsection \<open>A header block\<close>

text \<open>
  The loop by which an application inflates a block, as the documentation of
  \<open>nghttp2_hd_inflate_hd2\<close> in \<open>nghttp2.h\<close> gives it, with the list of the fields that it prints.
\<close>

partial_function (option) inflate_header_block ::
  "nghttp2_hd_inflater \<Rightarrow> bytes \<Rightarrow> bool \<Rightarrow> (int \<times> nghttp2_hd_inflater \<times> nghttp2_nv list) option" where
  "inflate_header_block i inp in_final =
     do { (rv, i, flags, nv) \<leftarrow> nghttp2_hd_inflate_hd2 i 0 inp in_final;
          let inp = drop (nat rv) inp;
          let out = (if flags AND NGHTTP2_HD_INFLATE_EMIT \<noteq> 0 then [the nv] else []);
          if rv < 0 then Some (-1, i, [])
          else if flags AND NGHTTP2_HD_INFLATE_FINAL \<noteq> 0 then Some (0, snd (nghttp2_hd_inflate_end_headers i), out)
          else if flags AND NGHTTP2_HD_INFLATE_EMIT = 0 \<and> inp = [] then Some (0, i, out)
          else do { (r, i, nvs) \<leftarrow> inflate_header_block i inp in_final; Some (r, i, out @ nvs) } }"

lemma hd2_emit:
  assumes "\<not> bad (ifl_ctx i)" "hd_inflate_loop (hd_inflate_keep_free i) (pre @ rest) False = Some (Turn_Emit i' rest nv)"
  shows "nghttp2_hd_inflate_hd2 i f (pre @ rest) fin = Some (int (length pre), i', NGHTTP2_HD_INFLATE_EMIT,
    Some \<lparr>nv_name = hd_name nv, nv_value = hd_value nv, nv_flags = hd_flags nv\<rparr>)"
  using assms by (simp add: nghttp2_hd_inflate_hd2_def nghttp2_hd_inflate_hd3_def nghttp2_hd_inflate_hd_nv_def Let_def ng_defs)

lemma hd2_final:
  assumes "\<not> bad (ifl_ctx i)" "hd_inflate_loop (hd_inflate_keep_free i) inp False = Some (Turn_Next i' [] b)"
    "ifl_state i' = NGHTTP2_HD_STATE_OPCODE \<or> ifl_state i' = NGHTTP2_HD_STATE_INFLATE_START"
  shows "nghttp2_hd_inflate_hd2 i f inp True = Some (int (length inp), i', NGHTTP2_HD_INFLATE_FINAL, None)"
  using assms by (auto simp: nghttp2_hd_inflate_hd2_def nghttp2_hd_inflate_hd3_def nghttp2_hd_inflate_hd_nv_def Let_def ng_defs)

definition after_block :: "nghttp2_hd_inflater \<Rightarrow> nghttp2_hd_inflater \<Rightarrow> bool" where
  "after_block i i' \<longleftrightarrow> at_start i' \<and> ifl_state i' = NGHTTP2_HD_STATE_INFLATE_START \<and> same_ctx (ifl_ctx i') (ifl_ctx i) \<and>
     ifl_min_hd_table_bufsize_max i' = ifl_min_hd_table_bufsize_max i \<and>
     settings_hd_table_bufsize_max i' = settings_hd_table_bufsize_max i"

lemma after_field_at: "at_field i \<Longrightarrow> after_field i i' \<Longrightarrow> at_field i'"
  by (simp add: at_field_def after_field_def same_ctx_def)

lemma at_field_keep [simp]: "at_field (hd_inflate_keep_free i) = at_field i" "ifl_ctx (hd_inflate_keep_free i) = ifl_ctx i"
  by (simp_all add: at_field_def hd_inflate_keep_free_def)

lemma after_block_trans: "after_block (hd_inflate_keep_free i) j \<Longrightarrow> after_field h i \<Longrightarrow> after_block h j"
  by (auto simp: after_block_def after_field_def same_ctx_def hd_inflate_keep_free_def)

lemma flag_bits: "NGHTTP2_HD_INFLATE_EMIT AND NGHTTP2_HD_INFLATE_EMIT \<noteq> 0" "NGHTTP2_HD_INFLATE_EMIT AND NGHTTP2_HD_INFLATE_FINAL = 0"
  "NGHTTP2_HD_INFLATE_FINAL AND NGHTTP2_HD_INFLATE_FINAL \<noteq> 0" "NGHTTP2_HD_INFLATE_FINAL AND NGHTTP2_HD_INFLATE_EMIT = 0"
  "NGHTTP2_HD_INFLATE_FINAL \<noteq> 0" "NGHTTP2_HD_INFLATE_EMIT \<noteq> 0"
  by (simp_all add: ng_defs)

lemma block_decode:
  "\<not> bad (ifl_ctx i) \<Longrightarrow> at_field i1 \<Longrightarrow> hd_inflate_loop (hd_inflate_keep_free i) (pre @ reps_bytes rs) False = hd_inflate_loop i1 (reps_bytes rs) False \<Longrightarrow>
   list_all rep_short rs \<Longrightarrow> reps_sem (hd_table_bufsize_max (ifl_ctx i1)) (prs (ifl_ctx i1)) rs = Some (out, ps) \<Longrightarrow>
   \<exists>i' nvs. inflate_header_block i (pre @ reps_bytes rs) True = Some (0, i', nvs) \<and> after_block i1 i' \<and> prs (ifl_ctx i') = ps \<and>
     map nv_pair nvs = out \<and> list_all2 (\<lambda>r nv. rep_never r \<longrightarrow> nv_flags nv = NGHTTP2_NV_FLAG_NO_INDEX) rs nvs"
proof (induction rs arbitrary: i i1 pre out)
  case Nil
  have "hd_inflate_loop i1 [] False = Some (Turn_Next i1 [] False)" by (simp add: hd_inflate_loop.simps)
  then have "nghttp2_hd_inflate_hd2 i 0 (pre @ reps_bytes []) True = Some (int (length (pre @ reps_bytes [])), i1, NGHTTP2_HD_INFLATE_FINAL, None)"
    using Nil.prems(2,3) by (intro hd2_final [OF Nil.prems(1)]) (auto simp: at_field_def)
  then have "inflate_header_block i (pre @ reps_bytes []) True = Some (0, snd (nghttp2_hd_inflate_end_headers i1), [])"
    by (subst inflate_header_block.simps) (simp add: Let_def flag_bits)
  then show ?case using Nil.prems(2,5)
    by (auto simp: nghttp2_hd_inflate_end_headers_def hd_inflate_keep_free_def after_block_def at_start_def at_field_def same_ctx_def)
next
  case (Cons r rs)
  obtain p ps1 out' where s: "rep_sem (hd_table_bufsize_max (ifl_ctx i1)) (prs (ifl_ctx i1)) r = Some (p, ps1)"
    "reps_sem (hd_table_bufsize_max (ifl_ctx i1)) ps1 rs = Some (out', ps)" "out = p # out'"
    using Cons.prems(5) by (auto split: Option.bind_splits)
  have "rep_short r" "list_all rep_short rs" using Cons.prems(4) by simp_all
  from rep_decode [OF Cons.prems(2) this(1) s(1), of "reps_bytes rs" False] obtain i2 nv where
    d: "hd_inflate_loop i1 (rep_bytes r @ reps_bytes rs) False = Some (Turn_Emit i2 (reps_bytes rs) nv)" "after_field i1 i2"
      "(hd_name nv, hd_value nv) = p" "prs (ifl_ctx i2) = ps1" "rep_never r \<longrightarrow> hd_flags nv = NGHTTP2_NV_FLAG_NO_INDEX" by blast
  let ?nv = "\<lparr>nv_name = hd_name nv, nv_value = hd_value nv, nv_flags = hd_flags nv\<rparr>"
  have "hd_inflate_loop (hd_inflate_keep_free i) ((pre @ rep_bytes r) @ reps_bytes rs) False = Some (Turn_Emit i2 (reps_bytes rs) nv)"
    using Cons.prems(3) d(1) by simp
  from hd2_emit [OF Cons.prems(1) this] have
    e: "nghttp2_hd_inflate_hd2 i 0 ((pre @ rep_bytes r) @ reps_bytes rs) True = Some (int (length (pre @ rep_bytes r)), i2, NGHTTP2_HD_INFLATE_EMIT, Some ?nv)" .
  have a2: "at_field i2" using after_field_at [OF Cons.prems(2) d(2)] .
  have mx: "hd_table_bufsize_max (ifl_ctx i2) = hd_table_bufsize_max (ifl_ctx i1)" "\<not> bad (ifl_ctx i2)"
    using d(2) a2 by (simp_all add: after_field_def same_ctx_def at_field_def)
  obtain i' nvs where r: "inflate_header_block i2 ([] @ reps_bytes rs) True = Some (0, i', nvs)" "after_block (hd_inflate_keep_free i2) i'" "prs (ifl_ctx i') = ps"
     "map nv_pair nvs = out'" "list_all2 (\<lambda>r nv. rep_never r \<longrightarrow> nv_flags nv = NGHTTP2_NV_FLAG_NO_INDEX) rs nvs"
    using Cons.IH [of i2 "hd_inflate_keep_free i2" "[]" out'] mx a2 s(2) d(4) \<open>list_all rep_short rs\<close> by auto
  have "inflate_header_block i (pre @ reps_bytes (r # rs)) True = Some (0, i', ?nv # nvs)"
    using e r(1) by (subst inflate_header_block.simps) (simp add: Let_def flag_bits)
  moreover have "after_block i1 i'" using after_block_trans [OF r(2) d(2)] .
  ultimately show ?case using r(3-5) d(3,5) s(3) by (auto simp: nv_pair_def)
qed

subsection \<open>Deflater and inflater in sync\<close>

text \<open>
  The pending updates of the deflater bring the table of the peer to its own, and the peer accepts
  them: each is within its setting, and the first within the least limit it has announced since.
\<close>

definition lim_ok :: "nghttp2_hd_deflater \<Rightarrow> bool" where
  "lim_ok d \<longleftrightarrow> (if notify_table_size_change d
     then min_hd_table_bufsize_max d \<le> hd_table_bufsize_max (dfl_ctx d) \<or>
       hd_table_bufsize_max (dfl_ctx d) = deflate_hd_table_bufsize_max d \<and> min_hd_table_bufsize_max d = UINT32_MAX
     else min_hd_table_bufsize_max d = UINT32_MAX)"

definition in_sync :: "nghttp2_hd_deflater \<Rightarrow> nghttp2_hd_inflater \<Rightarrow> bool" where
  "in_sync d i \<longleftrightarrow> dfl_inv d \<and> \<not> bad (dfl_ctx d) \<and> lim_ok d \<and> at_start i \<and>
     foldl (\<lambda>ps u. pfit u ps) (prs (ifl_ctx i)) (size_updates d) = prs (dfl_ctx d) \<and>
     list_all (\<lambda>u. u \<le> settings_hd_table_bufsize_max i) (size_updates d) \<and>
     (if size_updates d = []
      then hd_table_bufsize_max (ifl_ctx i) = hd_table_bufsize_max (dfl_ctx d) \<and> ifl_state i = NGHTTP2_HD_STATE_INFLATE_START \<and>
        ifl_min_hd_table_bufsize_max i = UINT32_MAX
      else hd (size_updates d) \<le> ifl_min_hd_table_bufsize_max i)"

definition nv_fits :: "nghttp2_nv \<Rightarrow> bool" where
  "nv_fits nv \<longleftrightarrow> length (nv_name nv) \<le> 65536 \<and> length (nv_value nv) \<le> 65536"

lemma updates_small: "dfl_inv d \<Longrightarrow> list_all (\<lambda>u. u \<le> UINT32_MAX) (size_updates d)"
  by (auto simp: size_updates_def dfl_inv_def ctx_inv_def UINT32_MAX_def)

lemma updates_last: "size_updates d \<noteq> [] \<Longrightarrow> last (size_updates d) = hd_table_bufsize_max (dfl_ctx d)"
  by (simp add: size_updates_def split: if_splits)

lemma reps_short:
  "reps_sem mx ps rs = Some (map nv_pair nva, ps') \<Longrightarrow> list_all nv_fits nva \<Longrightarrow> list_all rep_short rs"
proof (induction rs arbitrary: ps nva)
  case Nil
  then show ?case by simp
next
  case (Cons r rs)
  obtain p ps1 out where s: "rep_sem mx ps r = Some (p, ps1)" "reps_sem mx ps1 rs = Some (out, ps')" "map nv_pair nva = p # out"
    using Cons.prems(1) by (auto split: Option.bind_splits)
  obtain nv nva' where n: "nva = nv # nva'" "nv_pair nv = p" "map nv_pair nva' = out" using s(3) by (cases nva) auto
  have "rep_short r" using s(1) n(1,2) Cons.prems(2) by (cases r) (auto simp: rep_short_def nv_fits_def nv_pair_def)
  then show ?case using Cons.IH [of ps1 nva'] s(2) n Cons.prems(2) by simp
qed

lemma list_all2_flags:
  "list_all2 (\<lambda>nv r. P nv \<longrightarrow> Q r) xs rs \<Longrightarrow> list_all2 (\<lambda>r nv. Q r \<longrightarrow> R nv) rs ys \<Longrightarrow> list_all2 (\<lambda>x y. P x \<longrightarrow> R y) xs ys"
  by (rule list_all2_trans) auto

lemma updates_of_block:
  assumes "in_sync d i"
  shows "\<exists>i1. hd_inflate_loop (hd_inflate_keep_free i) (updates_bytes (size_updates d) @ rest) False = hd_inflate_loop i1 rest False \<and>
    at_field i1 \<and> prs (ifl_ctx i1) = prs (dfl_ctx d) \<and> hd_table_bufsize_max (ifl_ctx i1) = hd_table_bufsize_max (dfl_ctx d) \<and>
    ifl_min_hd_table_bufsize_max i1 = UINT32_MAX"
proof -
  let ?i = "hd_inflate_keep_free i" and ?us = "size_updates d"
  have k: "ifl_ctx ?i = ifl_ctx i" "ifl_state ?i = ifl_state i" "settings_hd_table_bufsize_max ?i = settings_hd_table_bufsize_max i"
    "ifl_min_hd_table_bufsize_max ?i = ifl_min_hd_table_bufsize_max i" by (simp_all add: hd_inflate_keep_free_def)
  have a: "at_start ?i" "?us \<noteq> [] \<longrightarrow> hd ?us \<le> ifl_min_hd_table_bufsize_max ?i" "?us \<noteq> [] \<or> ifl_state ?i = NGHTTP2_HD_STATE_INFLATE_START"
    using assms by (auto simp: in_sync_def at_start_def k split: if_splits)
  have s: "list_all (\<lambda>u. u \<le> UINT32_MAX \<and> u \<le> settings_hd_table_bufsize_max ?i) ?us"
    using assms updates_small [of d] by (simp add: in_sync_def list_all_iff k)
  from updates_decode [OF a(1) s a(2,3), of rest] obtain i1 where
    1: "hd_inflate_loop ?i (updates_bytes ?us @ rest) False = hd_inflate_loop i1 rest False" "at_start i1"
      "ifl_state i1 = NGHTTP2_HD_STATE_INFLATE_START" "prs (ifl_ctx i1) = foldl (\<lambda>ps u. pfit u ps) (prs (ifl_ctx i)) ?us"
      "hd_table_bufsize_max (ifl_ctx i1) = (if ?us = [] then hd_table_bufsize_max (ifl_ctx i) else last ?us)"
      "ifl_min_hd_table_bufsize_max i1 = (if ?us = [] then ifl_min_hd_table_bufsize_max i else UINT32_MAX)"
    unfolding k by (elim exE conjE)
  have "at_field i1" using 1(2,3) by (simp add: at_start_def at_field_def)
  then show ?thesis using 1 assms updates_last [of d] by (auto simp: in_sync_def split: if_splits)
qed

lemma no_updates: "\<not> notify_table_size_change d \<Longrightarrow> size_updates d = []"
  by (simp add: size_updates_def)

lemma roundtrip_spec:
  assumes sync: "in_sync d i" and b: "bufs_inv bufs" "bufs_content bufs = []" and fits: "list_all nv_fits nva"
    and e: "nghttp2_hd_deflate_hd_bufs d bufs nva = Some (0, d', bufs')"
  shows "\<exists>i' nvs. inflate_header_block i (bufs_content bufs') True = Some (0, i', nvs) \<and> map nv_pair nvs = map nv_pair nva \<and>
    list_all2 (\<lambda>a b. nv_flags a AND NGHTTP2_NV_FLAG_NO_INDEX \<noteq> 0 \<longrightarrow> nv_flags b = NGHTTP2_NV_FLAG_NO_INDEX) nva nvs \<and> in_sync d' i'"
proof -
  let ?mx = "hd_table_bufsize_max (dfl_ctx d)"
  have d: "dfl_inv d" "\<not> bad (dfl_ctx d)" "\<not> bad (ifl_ctx i)" using sync by (simp_all add: in_sync_def at_start_def)
  have sm: "list_all nv_small nva" using fits by (auto simp: list_all_iff nv_fits_def nv_small_def)
  obtain rv e' b' rs where r0: "nghttp2_hd_deflate_hd_bufs d bufs nva = Some (rv, e', b')" "dfl_inv e'"
    "bad (dfl_ctx e') \<longleftrightarrow> rv \<noteq> 0" "hd_table_bufsize_max (dfl_ctx e') = ?mx"
    "rv = 0 \<or> dfl_mem_ok d \<longrightarrow> sink.res bufs (updates_bytes (size_updates d) @ reps_bytes rs) (Some (rv, b'))"
    "rv = 0 \<longrightarrow> reps_sem ?mx (prs (dfl_ctx d)) rs = Some (map nv_pair nva, prs (dfl_ctx e')) \<and>
       list_all2 (\<lambda>nv r. nv_flags nv AND NGHTTP2_NV_FLAG_NO_INDEX \<noteq> 0 \<longrightarrow> rep_never r) nva rs \<and> dfl_same e' (notified d)"
    using deflate_hd_bufs_spec [OF d(1) b(1) sm d(2)] by (elim exE conjE) (rule that)
  have r: "dfl_inv d'" "\<not> bad (dfl_ctx d')" "hd_table_bufsize_max (dfl_ctx d') = ?mx"
    "bufs_content bufs' = updates_bytes (size_updates d) @ reps_bytes rs"
    "reps_sem ?mx (prs (dfl_ctx d)) rs = Some (map nv_pair nva, prs (dfl_ctx d'))"
    "list_all2 (\<lambda>nv r. nv_flags nv AND NGHTTP2_NV_FLAG_NO_INDEX \<noteq> 0 \<longrightarrow> rep_never r) nva rs" "dfl_same d' (notified d)"
    using r0 e b(2) by (simp_all add: sink.res_def)
  have lim: "lim_ok d'" "size_updates d' = []"
    using r(7) sync by (simp_all add: dfl_same_def notified_def lim_ok_def in_sync_def size_updates_def split: if_splits)
  obtain i1 where i1: "hd_inflate_loop (hd_inflate_keep_free i) (updates_bytes (size_updates d) @ reps_bytes rs) False = hd_inflate_loop i1 (reps_bytes rs) False"
    "at_field i1" "prs (ifl_ctx i1) = prs (dfl_ctx d)" "hd_table_bufsize_max (ifl_ctx i1) = ?mx" "ifl_min_hd_table_bufsize_max i1 = UINT32_MAX"
    using updates_of_block [OF sync] by blast
  have "reps_sem (hd_table_bufsize_max (ifl_ctx i1)) (prs (ifl_ctx i1)) rs = Some (map nv_pair nva, prs (dfl_ctx d'))"
    using r(5) i1(3,4) by simp
  from block_decode [OF d(3) i1(2,1) reps_short [OF r(5) fits] this] obtain i' nvs where
    f: "inflate_header_block i (bufs_content bufs') True = Some (0, i', nvs)" "after_block i1 i'" "prs (ifl_ctx i') = prs (dfl_ctx d')"
      "map nv_pair nvs = map nv_pair nva" "list_all2 (\<lambda>r nv. rep_never r \<longrightarrow> nv_flags nv = NGHTTP2_NV_FLAG_NO_INDEX) rs nvs"
    unfolding r(4) by blast
  have "in_sync d' i'" using f(2,3) r(1-3) lim i1(4,5) by (simp add: in_sync_def after_block_def same_ctx_def)
  then show ?thesis using f(1,4) list_all2_flags [OF r(6) f(5)] by blast
qed

lemma pfit_pfit: "pfit a (pfit b ps) = pfit (min a b) ps"
proof (induction ps arbitrary: a b)
  case (Cons p ps)
  then show ?case using Cons.IH [of "a - pair_room p" "b - pair_room p"] by (auto simp: min_def split: if_splits)
qed simp

lemma inflate_change_spec:
  assumes "at_start i"
  shows "\<exists>i'. nghttp2_hd_inflate_change_table_size i n = Some (0, i') \<and> at_start i' \<and> settings_hd_table_bufsize_max i' = n \<and>
    (if n < hd_table_bufsize_max (ifl_ctx i)
     then ifl_state i' = NGHTTP2_HD_STATE_EXPECT_TABLE_SIZE \<and> ifl_min_hd_table_bufsize_max i' = n \<and>
       hd_table_bufsize_max (ifl_ctx i') = n \<and> prs (ifl_ctx i') = pfit n (prs (ifl_ctx i))
     else ifl_state i' = ifl_state i \<and> ifl_min_hd_table_bufsize_max i' = ifl_min_hd_table_bufsize_max i \<and> ifl_ctx i' = ifl_ctx i)"
proof (cases "n < hd_table_bufsize_max (ifl_ctx i)")
  case True
  let ?c = "(ifl_ctx i)\<lparr>hd_table_bufsize_max := n\<rparr>"
  have c: "ctx_wf ?c" "ents ?c = ents (ifl_ctx i)" "n < 2 ^ 32"
    using assms True by (simp_all add: at_start_def ctx_inv_def ctx_wf_def ents_def)
  from shrink_spec [OF c(1), of None] obtain ctx m where
    s: "hd_context_shrink_table_size ?c None = Some (ctx, m)" "ctx_inv ctx" "same_ctx ctx ?c" "ents ctx = fit n (ents (ifl_ctx i))"
    using c(2,3) by (auto simp: map_ok_def)
  then show ?thesis using True assms
    by (auto simp: nghttp2_hd_inflate_change_table_size_def at_start_def same_ctx_def prs_def pfit_map)
next
  case False
  then show ?thesis using assms by (auto simp: nghttp2_hd_inflate_change_table_size_def at_start_def)
qed

text \<open>The pending updates after another change of the limit of the deflater.\<close>

lemma updates_compose:
  assumes "lim_ok d" "n \<le> deflate_hd_table_bufsize_max d" "n \<le> UINT32_MAX"
    "size_updates d' = (if min_hd_table_bufsize_max d < n then [min_hd_table_bufsize_max d, n] else [n])"
  shows "foldl (\<lambda>ps u. pfit u ps) ps (size_updates d') = pfit n (foldl (\<lambda>ps u. pfit u ps) ps (size_updates d))"
    "size_updates d \<noteq> [] \<Longrightarrow> hd (size_updates d') \<le> hd (size_updates d)"
    "size_updates d = [] \<Longrightarrow> size_updates d' = [n]"
    "list_all (\<lambda>u. u \<le> n) (size_updates d')" "size_updates d' \<noteq> []"
  using assms by (auto simp: lim_ok_def size_updates_def [of d] pfit_pfit min_def split: if_splits)

lemma settings_spec:
  assumes sync: "in_sync d i" and n: "n < 2 ^ 32"
  shows "\<exists>i' d'. nghttp2_hd_inflate_change_table_size i n = Some (0, i') \<and> nghttp2_hd_deflate_change_table_size d n = Some d' \<and> in_sync d' i'"
proof -
  let ?n = "min n (deflate_hd_table_bufsize_max d)" and ?fold = "foldl (\<lambda>ps u. pfit u ps)"
  have s: "dfl_inv d" "\<not> bad (dfl_ctx d)" "lim_ok d" "at_start i" "?fold (prs (ifl_ctx i)) (size_updates d) = prs (dfl_ctx d)"
    using sync by (simp_all add: in_sync_def)
  have n': "?n < 2 ^ 32" using n by simp
  obtain d' where d: "nghttp2_hd_deflate_change_table_size d n = Some d'" "dfl_inv d'" "hd_table_bufsize_max (dfl_ctx d') = ?n"
    "prs (dfl_ctx d') = pfit ?n (prs (dfl_ctx d))" "notify_table_size_change d'" "bad (dfl_ctx d') = bad (dfl_ctx d)"
    "min_hd_table_bufsize_max d' = min (min_hd_table_bufsize_max d) ?n"
    using change_table_size_spec [OF s(1) n'] by blast
  obtain i' where i: "nghttp2_hd_inflate_change_table_size i n = Some (0, i')" "at_start i'" "settings_hd_table_bufsize_max i' = n"
    "if n < hd_table_bufsize_max (ifl_ctx i)
     then ifl_state i' = NGHTTP2_HD_STATE_EXPECT_TABLE_SIZE \<and> ifl_min_hd_table_bufsize_max i' = n \<and>
       hd_table_bufsize_max (ifl_ctx i') = n \<and> prs (ifl_ctx i') = pfit n (prs (ifl_ctx i))
     else ifl_state i' = ifl_state i \<and> ifl_min_hd_table_bufsize_max i' = ifl_min_hd_table_bufsize_max i \<and> ifl_ctx i' = ifl_ctx i"
    using inflate_change_spec [OF s(4)] by blast
  have u: "size_updates d' = (if min_hd_table_bufsize_max d < ?n then [min_hd_table_bufsize_max d, ?n] else [?n])"
    using d(3,5,7) by (auto simp: size_updates_def min_def)
  have nn: "?n \<le> deflate_hd_table_bufsize_max d" "?n \<le> UINT32_MAX" using n by (simp_all add: UINT32_MAX_def)
  note c = updates_compose [OF s(3) nn u]
  have "min_hd_table_bufsize_max d' \<le> hd_table_bufsize_max (dfl_ctx d')" unfolding d(3,7) by (rule min.cobounded2)
  then have lim: "lim_ok d'" using d(5) by (simp add: lim_ok_def)
  have all: "list_all (\<lambda>u. u \<le> n) (size_updates d')" using c(4) by (auto simp: list_all_iff)
  have acc: "hd (size_updates d') \<le> ifl_min_hd_table_bufsize_max i'"
  proof (cases "n < hd_table_bufsize_max (ifl_ctx i)")
    case True
    then show ?thesis using i(4) all c(5) by (cases "size_updates d'") auto
  next
    case False
    then show ?thesis using i(4) c(2,3) sync nn(2) by (cases "size_updates d = []") (auto simp: in_sync_def)
  qed
  have "?fold (pfit n (prs (ifl_ctx i))) (size_updates d') = ?fold (prs (ifl_ctx i)) (size_updates d')"
    unfolding u by (auto simp: pfit_pfit min_def)
  then have "?fold (prs (ifl_ctx i')) (size_updates d') = prs (dfl_ctx d')"
    using i(4) c(1) s(5) d(4) by (auto split: if_splits)
  then have "in_sync d' i'" using d(2,6) s(2) lim i(2,3) all acc c(5) by (simp add: in_sync_def)
  then show ?thesis using i(1) d(1) by blast
qed

lemma inflate_init:
  assumes "nghttp2_hd_inflate_init al = Inr i" "\<And>k. mem_ok al k"
  shows "at_start i \<and> ifl_state i = NGHTTP2_HD_STATE_INFLATE_START \<and> prs (ifl_ctx i) = [] \<and> hd_table_bufsize_max (ifl_ctx i) = 4096 \<and>
    settings_hd_table_bufsize_max i = 4096 \<and> ifl_min_hd_table_bufsize_max i = UINT32_MAX \<and> ifl_inv i"
proof -
  obtain c where c: "hd_context_init al = Inr c" using assms(1) by (auto simp: nghttp2_hd_inflate_init_def split: sum.splits)
  note i = context_init [OF c]
  show ?thesis using assms(1,2) c i
    by (auto simp: nghttp2_hd_inflate_init_def at_start_def prs_def ng_defs ifl_inv_def ifl_ok_def state_ok_def)
qed

lemma init_sync:
  assumes "nghttp2_hd_deflate_init2 al n = Inr d" "nghttp2_hd_inflate_init al' = Inr i" "\<And>k. mem_ok al' k"
  shows "in_sync d i"
proof -
  note d = deflate_init2 [OF assms(1)] and i = inflate_init [OF assms(2,3)]
  have "foldl (\<lambda>ps u. pfit u ps) [] us = []" for us by (induction us) simp_all
  moreover have "lim_ok d" using assms(1) d
    by (auto simp: lim_ok_def nghttp2_hd_deflate_init2_def ng_defs split: sum.splits)
  ultimately show ?thesis using d i by (auto simp: in_sync_def UINT32_MAX_def)
qed

subsection \<open>Properties\<close>

text \<open>
  C2.  HPACK round trip.  When a block is compressed by a deflater that is in sync with the inflater
  of a peer, inflating the bytes gives the same list of fields, with the mark that forbids indexing
  kept, and the two ends are in sync again, so this holds for block after block.  A string is at
  most 65536 bytes, the limit of the inflater.
\<close>

theorem hpack_roundtrip:
  assumes "in_sync d i" "bufs_inv bufs" "bufs_content bufs = []" "list_all nv_fits nva"
    "nghttp2_hd_deflate_hd_bufs d bufs nva = Some (0, d', bufs')"
  shows "\<exists>i' nvs. inflate_header_block i (bufs_content bufs') True = Some (0, i', nvs) \<and> map nv_pair nvs = map nv_pair nva \<and>
    list_all2 (\<lambda>a b. nv_flags a AND NGHTTP2_NV_FLAG_NO_INDEX \<noteq> 0 \<longrightarrow> nv_flags b = NGHTTP2_NV_FLAG_NO_INDEX) nva nvs \<and> in_sync d' i'"
  using assms by (rule roundtrip_spec)

theorem hpack_roundtrip_witness:
  "\<exists>d i bufs d' bufs' i' nvs. nghttp2_hd_deflate_init2 \<lparr>mem_ok = \<lambda>_. True, mem_fill = \<lambda>_. 0\<rparr> 100 = Inr d \<and>
     nghttp2_hd_inflate_init \<lparr>mem_ok = \<lambda>_. True, mem_fill = \<lambda>_. 0\<rparr> = Inr i \<and>
     nghttp2_hd_deflate_hd_bufs d bufs [\<lparr>nv_name = ascii ''x-test'', nv_value = ascii ''one'', nv_flags = 0\<rparr>] = Some (0, d', bufs') \<and>
     inflate_header_block i (bufs_content bufs') True = Some (0, i', nvs) \<and> map nv_pair nvs = [(ascii ''x-test'', ascii ''one'')]"
proof -
  let ?al = "\<lparr>mem_ok = \<lambda>_. True, mem_fill = \<lambda>_. 0\<rparr>"
  let ?nv = "\<lparr>nv_name = ascii ''x-test'', nv_value = ascii ''one'', nv_flags = 0\<rparr>"
  obtain d where d: "nghttp2_hd_deflate_init2 ?al 100 = Inr d" using deflate_init_ok [of ?al] by auto
  obtain i where i: "nghttp2_hd_inflate_init ?al = Inr i" using inflate_init_ok [of ?al] by auto
  have s: "in_sync d i" using d i by (rule init_sync) simp
  obtain bufs where b: "bufs_inv bufs" "bufs_content bufs = []" "bufs_room bufs = 50" "bufs_memok bufs"
    using wrap_init_inv [of "replicate 50 0" ?al] by (auto simp: bufs_memok_def)
  have m: "dfl_mem_ok d" using deflate_init2 [OF d] by (simp add: dfl_mem_ok_def)
  have n: "list_all nv_fits [?nv]" "list_all nv_small [?nv]" "list_all nv_short [?nv]" by (simp_all add: nv_fits_def nv_small_def nv_short_def)
  have dv: "dfl_inv d" "\<not> bad (dfl_ctx d)" using s by (simp_all add: in_sync_def)
  obtain rv d' bufs' rs where r: "nghttp2_hd_deflate_hd_bufs d bufs [?nv] = Some (rv, d', bufs')"
    "sink.res bufs (updates_bytes (size_updates d) @ reps_bytes rs) (Some (rv, bufs'))" "length (reps_bytes rs) \<le> sum_list (map nv_bound [?nv])"
    using deflate_hd_bufs_spec [OF dv(1) b(1) n(2) dv(2)] m n(3) by (elim exE conjE) blast
  have "rv = 0" using r(2,3) b(3,4) updates_length [OF dv(1)] by (simp add: sink.res_def nv_bound_def)
  then obtain i' nvs where "inflate_header_block i (bufs_content bufs') True = Some (0, i', nvs)" "map nv_pair nvs = map nv_pair [?nv]"
    using hpack_roundtrip [OF s b(1,2) n(1)] r(1) by blast
  then show ?thesis using d i r(1) \<open>rv = 0\<close> by (intro exI conjI) (auto simp: nv_pair_def)
qed

text \<open>
  C20.  A change of \<open>SETTINGS_HEADER_TABLE_SIZE\<close> keeps the ends in sync: the inflater that announces
  a new limit and the deflater that applies it, whatever changes are still pending, evict the same
  entries, and the updates that open the next block are ones the inflater accepts.
\<close>

theorem hpack_settings_keep_sync:
  assumes "in_sync d i" "n < 2 ^ 32"
  shows "\<exists>i' d'. nghttp2_hd_inflate_change_table_size i n = Some (0, i') \<and> nghttp2_hd_deflate_change_table_size d n = Some d' \<and>
    in_sync d' i'"
  using assms by (rule settings_spec)

theorem hpack_settings_keep_sync_witness:
  "\<exists>d i i' d'. nghttp2_hd_deflate_init \<lparr>mem_ok = \<lambda>_. True, mem_fill = \<lambda>_. 0\<rparr> = Inr d \<and>
     nghttp2_hd_inflate_init \<lparr>mem_ok = \<lambda>_. True, mem_fill = \<lambda>_. 0\<rparr> = Inr i \<and>
     nghttp2_hd_inflate_change_table_size i 256 = Some (0, i') \<and> nghttp2_hd_deflate_change_table_size d 256 = Some d' \<and> in_sync d' i'"
proof -
  let ?al = "\<lparr>mem_ok = \<lambda>_. True, mem_fill = \<lambda>_. 0\<rparr>"
  obtain d where d: "nghttp2_hd_deflate_init ?al = Inr d" using deflate_init_ok [of ?al] by (auto simp: nghttp2_hd_deflate_init_def)
  obtain i where i: "nghttp2_hd_inflate_init ?al = Inr i" using inflate_init_ok [of ?al] by auto
  have s: "in_sync d i" using d [unfolded nghttp2_hd_deflate_init_def] i by (rule init_sync) simp
  then show ?thesis using hpack_settings_keep_sync [OF s, of 256] d i by auto
qed



end
