(* ===== verification/Frame.thy ===== *)
theory Frame
  imports Helper Buf Header_Chars Hd_Deflate
begin

text \<open>
  The frames of \<open>nghttp2_frame.c\<close>: the frame header, the payload of each frame type in both
  directions, padding, and the checks on field lists and settings.  A payload that is unpacked is
  the list of its bytes, and reading past its end is \<open>None\<close>, like a failed assertion or a store
  outside a buffer.  HEADERS and PUSH_PROMISE, which may spread over several buffers, are packed in
  \<open>Frame_Headers\<close>.
\<close>

subsection \<open>Constants\<close>

definition NGHTTP2_STREAM_ID_MASK :: u32 where "NGHTTP2_STREAM_ID_MASK = push_bit 31 1 - 1"
definition NGHTTP2_WINDOW_SIZE_INCREMENT_MASK :: u32 where "NGHTTP2_WINDOW_SIZE_INCREMENT_MASK = push_bit 31 1 - 1"
definition NGHTTP2_FRAME_HDLEN :: nat where "NGHTTP2_FRAME_HDLEN = 9"
definition NGHTTP2_FRAME_SETTINGS_ENTRY_LENGTH :: nat where "NGHTTP2_FRAME_SETTINGS_ENTRY_LENGTH = 6"
definition NGHTTP2_PRIORITY_SPECLEN :: nat where "NGHTTP2_PRIORITY_SPECLEN = 5"
definition NGHTTP2_MAX_FRAME_SIZE_MAX :: u32 where "NGHTTP2_MAX_FRAME_SIZE_MAX = push_bit 24 1 - 1"
definition NGHTTP2_MAX_FRAME_SIZE_MIN :: u32 where "NGHTTP2_MAX_FRAME_SIZE_MIN = push_bit 14 1"

definition NGHTTP2_DATA :: u8 where "NGHTTP2_DATA = 0"
definition NGHTTP2_HEADERS :: u8 where "NGHTTP2_HEADERS = 1"
definition NGHTTP2_PRIORITY :: u8 where "NGHTTP2_PRIORITY = 2"
definition NGHTTP2_RST_STREAM :: u8 where "NGHTTP2_RST_STREAM = 3"
definition NGHTTP2_SETTINGS :: u8 where "NGHTTP2_SETTINGS = 4"
definition NGHTTP2_PUSH_PROMISE :: u8 where "NGHTTP2_PUSH_PROMISE = 5"
definition NGHTTP2_PING :: u8 where "NGHTTP2_PING = 6"
definition NGHTTP2_GOAWAY :: u8 where "NGHTTP2_GOAWAY = 7"
definition NGHTTP2_WINDOW_UPDATE :: u8 where "NGHTTP2_WINDOW_UPDATE = 8"
definition NGHTTP2_CONTINUATION :: u8 where "NGHTTP2_CONTINUATION = 9"
definition NGHTTP2_ALTSVC :: u8 where "NGHTTP2_ALTSVC = 10"
definition NGHTTP2_ORIGIN :: u8 where "NGHTTP2_ORIGIN = 12"
definition NGHTTP2_PRIORITY_UPDATE :: u8 where "NGHTTP2_PRIORITY_UPDATE = 16"

definition NGHTTP2_FLAG_NONE :: u8 where "NGHTTP2_FLAG_NONE = 0"
definition NGHTTP2_FLAG_END_HEADERS :: u8 where "NGHTTP2_FLAG_END_HEADERS = 4"
definition NGHTTP2_FLAG_PADDED :: u8 where "NGHTTP2_FLAG_PADDED = 8"
definition NGHTTP2_FLAG_PRIORITY :: u8 where "NGHTTP2_FLAG_PRIORITY = 32"

definition NGHTTP2_FRAME_SIZE_ERROR :: int where "NGHTTP2_FRAME_SIZE_ERROR = 6"
definition NGHTTP2_DEFAULT_WEIGHT :: int where "NGHTTP2_DEFAULT_WEIGHT = 16"
definition NGHTTP2_MIN_WEIGHT :: int where "NGHTTP2_MIN_WEIGHT = 1"
definition NGHTTP2_MAX_WEIGHT_INT :: int where "NGHTTP2_MAX_WEIGHT_INT = 256"

definition NGHTTP2_NV_FLAG_NO_COPY_NAME :: u8 where "NGHTTP2_NV_FLAG_NO_COPY_NAME = 2"
definition NGHTTP2_NV_FLAG_NO_COPY_VALUE :: u8 where "NGHTTP2_NV_FLAG_NO_COPY_VALUE = 4"

definition NGHTTP2_SETTINGS_HEADER_TABLE_SIZE :: int where "NGHTTP2_SETTINGS_HEADER_TABLE_SIZE = 1"
definition NGHTTP2_SETTINGS_ENABLE_PUSH :: int where "NGHTTP2_SETTINGS_ENABLE_PUSH = 2"
definition NGHTTP2_SETTINGS_MAX_CONCURRENT_STREAMS :: int where "NGHTTP2_SETTINGS_MAX_CONCURRENT_STREAMS = 3"
definition NGHTTP2_SETTINGS_INITIAL_WINDOW_SIZE :: int where "NGHTTP2_SETTINGS_INITIAL_WINDOW_SIZE = 4"
definition NGHTTP2_SETTINGS_MAX_FRAME_SIZE :: int where "NGHTTP2_SETTINGS_MAX_FRAME_SIZE = 5"
definition NGHTTP2_SETTINGS_MAX_HEADER_LIST_SIZE :: int where "NGHTTP2_SETTINGS_MAX_HEADER_LIST_SIZE = 6"
definition NGHTTP2_SETTINGS_ENABLE_CONNECT_PROTOCOL :: int where "NGHTTP2_SETTINGS_ENABLE_CONNECT_PROTOCOL = 8"
definition NGHTTP2_SETTINGS_NO_RFC7540_PRIORITIES :: int where "NGHTTP2_SETTINGS_NO_RFC7540_PRIORITIES = 9"

lemmas frame_consts [ng_defs] =
  NGHTTP2_FRAME_HDLEN_def NGHTTP2_FRAME_SETTINGS_ENTRY_LENGTH_def NGHTTP2_PRIORITY_SPECLEN_def
  NGHTTP2_FLAG_NONE_def NGHTTP2_FLAG_END_HEADERS_def NGHTTP2_FLAG_PADDED_def NGHTTP2_FLAG_PRIORITY_def
  NGHTTP2_FRAME_SIZE_ERROR_def NGHTTP2_DEFAULT_WEIGHT_def NGHTTP2_MIN_WEIGHT_def NGHTTP2_MAX_WEIGHT_INT_def

subsection \<open>Data\<close>

record nghttp2_frame_hd =
  fh_length :: nat
  fh_stream_id :: int
  fh_type :: u8
  fh_flags :: u8
  fh_reserved :: u8

record nghttp2_priority_spec =
  pri_stream_id :: int
  pri_weight :: int
  pri_exclusive :: u8

datatype nghttp2_headers_category =
  NGHTTP2_HCAT_REQUEST | NGHTTP2_HCAT_RESPONSE | NGHTTP2_HCAT_PUSH_RESPONSE | NGHTTP2_HCAT_HEADERS

record nghttp2_headers =
  headers_hd :: nghttp2_frame_hd
  headers_padlen :: nat
  headers_pri_spec :: nghttp2_priority_spec
  headers_nva :: "nghttp2_nv list"
  headers_cat :: nghttp2_headers_category

record nghttp2_priority =
  priority_hd :: nghttp2_frame_hd
  priority_pri_spec :: nghttp2_priority_spec

record nghttp2_rst_stream =
  rst_hd :: nghttp2_frame_hd
  rst_error_code :: u32

record nghttp2_settings_entry =
  settings_id :: int
  settings_value :: u32

record nghttp2_settings =
  settings_hd :: nghttp2_frame_hd
  settings_iv :: "nghttp2_settings_entry list"

record nghttp2_push_promise =
  pp_hd :: nghttp2_frame_hd
  pp_padlen :: nat
  pp_nva :: "nghttp2_nv list"
  pp_promised_stream_id :: int
  pp_reserved :: u8

record nghttp2_ping =
  ping_hd :: nghttp2_frame_hd
  ping_opaque_data :: bytes

record nghttp2_goaway =
  goaway_hd :: nghttp2_frame_hd
  goaway_last_stream_id :: int
  goaway_error_code :: u32
  goaway_opaque_data :: bytes
  goaway_reserved :: u8

record nghttp2_window_update =
  wu_hd :: nghttp2_frame_hd
  window_size_increment :: int
  wu_reserved :: u8

record nghttp2_data =
  data_hd :: nghttp2_frame_hd
  data_padlen :: nat

record nghttp2_ext_altsvc =
  altsvc_origin :: bytes
  altsvc_field_value :: bytes

record nghttp2_ext_origin =
  origin_ov :: "bytes list"

record nghttp2_ext_priority_update =
  pu_stream_id :: int
  pu_field_value :: bytes

text \<open>An extension frame, with the payload structure its \<open>void *\<close> points to.\<close>

record 'p nghttp2_extension =
  ext_hd :: nghttp2_frame_hd
  ext_payload :: 'p

subsection \<open>Priority specifications\<close>

definition nghttp2_priority_spec_init :: "int \<Rightarrow> int \<Rightarrow> bool \<Rightarrow> nghttp2_priority_spec" where
  "nghttp2_priority_spec_init sid weight exclusive =
     \<lparr>pri_stream_id = sid, pri_weight = weight, pri_exclusive = (if exclusive then 1 else 0)\<rparr>"

definition nghttp2_priority_spec_default_init :: nghttp2_priority_spec where
  "nghttp2_priority_spec_default_init = \<lparr>pri_stream_id = 0, pri_weight = NGHTTP2_DEFAULT_WEIGHT, pri_exclusive = 0\<rparr>"

definition nghttp2_priority_spec_check_default :: "nghttp2_priority_spec \<Rightarrow> bool" where
  "nghttp2_priority_spec_check_default pri_spec \<longleftrightarrow>
     pri_stream_id pri_spec = 0 \<and> pri_weight pri_spec = NGHTTP2_DEFAULT_WEIGHT \<and> pri_exclusive pri_spec = 0"

definition nghttp2_priority_spec_normalize_weight :: "nghttp2_priority_spec \<Rightarrow> nghttp2_priority_spec" where
  "nghttp2_priority_spec_normalize_weight pri_spec =
     (if pri_weight pri_spec < NGHTTP2_MIN_WEIGHT then pri_spec\<lparr>pri_weight := NGHTTP2_MIN_WEIGHT\<rparr>
      else if pri_weight pri_spec > NGHTTP2_MAX_WEIGHT_INT then pri_spec\<lparr>pri_weight := NGHTTP2_MAX_WEIGHT_INT\<rparr>
      else pri_spec)"

subsection \<open>Initialisation\<close>

definition nghttp2_frame_hd_init :: "nat \<Rightarrow> u8 \<Rightarrow> u8 \<Rightarrow> int \<Rightarrow> nghttp2_frame_hd" where
  "nghttp2_frame_hd_init len type flags sid =
     \<lparr>fh_length = len, fh_stream_id = sid, fh_type = type, fh_flags = flags, fh_reserved = 0\<rparr>"

definition nghttp2_frame_headers_init ::
  "u8 \<Rightarrow> int \<Rightarrow> nghttp2_headers_category \<Rightarrow> nghttp2_priority_spec option \<Rightarrow> nghttp2_nv list \<Rightarrow> nghttp2_headers" where
  "nghttp2_frame_headers_init flags sid cat pri_spec nva =
     \<lparr>headers_hd = nghttp2_frame_hd_init 0 NGHTTP2_HEADERS flags sid, headers_padlen = 0,
      headers_pri_spec = (case pri_spec of Some p \<Rightarrow> p | None \<Rightarrow> nghttp2_priority_spec_default_init),
      headers_nva = nva, headers_cat = cat\<rparr>"

definition nghttp2_frame_priority_init :: "int \<Rightarrow> nghttp2_priority_spec \<Rightarrow> nghttp2_priority" where
  "nghttp2_frame_priority_init sid pri_spec =
     \<lparr>priority_hd = nghttp2_frame_hd_init NGHTTP2_PRIORITY_SPECLEN NGHTTP2_PRIORITY NGHTTP2_FLAG_NONE sid,
      priority_pri_spec = pri_spec\<rparr>"

definition nghttp2_frame_rst_stream_init :: "int \<Rightarrow> u32 \<Rightarrow> nghttp2_rst_stream" where
  "nghttp2_frame_rst_stream_init sid error_code =
     \<lparr>rst_hd = nghttp2_frame_hd_init 4 NGHTTP2_RST_STREAM NGHTTP2_FLAG_NONE sid, rst_error_code = error_code\<rparr>"

definition nghttp2_frame_settings_init :: "u8 \<Rightarrow> nghttp2_settings_entry list \<Rightarrow> nghttp2_settings" where
  "nghttp2_frame_settings_init flags iv =
     \<lparr>settings_hd = nghttp2_frame_hd_init (length iv * NGHTTP2_FRAME_SETTINGS_ENTRY_LENGTH) NGHTTP2_SETTINGS flags 0,
      settings_iv = iv\<rparr>"

definition nghttp2_frame_push_promise_init :: "u8 \<Rightarrow> int \<Rightarrow> int \<Rightarrow> nghttp2_nv list \<Rightarrow> nghttp2_push_promise" where
  "nghttp2_frame_push_promise_init flags sid promised nva =
     \<lparr>pp_hd = nghttp2_frame_hd_init 0 NGHTTP2_PUSH_PROMISE flags sid, pp_padlen = 0, pp_nva = nva,
      pp_promised_stream_id = promised, pp_reserved = 0\<rparr>"

definition nghttp2_frame_ping_init :: "u8 \<Rightarrow> bytes option \<Rightarrow> nghttp2_ping" where
  "nghttp2_frame_ping_init flags opaque_data =
     \<lparr>ping_hd = nghttp2_frame_hd_init 8 NGHTTP2_PING flags 0,
      ping_opaque_data = (case opaque_data of Some d \<Rightarrow> take 8 d | None \<Rightarrow> replicate 8 0)\<rparr>"

definition nghttp2_frame_goaway_init :: "int \<Rightarrow> u32 \<Rightarrow> bytes \<Rightarrow> nghttp2_goaway" where
  "nghttp2_frame_goaway_init last_sid error_code opaque_data =
     \<lparr>goaway_hd = nghttp2_frame_hd_init (8 + length opaque_data) NGHTTP2_GOAWAY NGHTTP2_FLAG_NONE 0,
      goaway_last_stream_id = last_sid, goaway_error_code = error_code, goaway_opaque_data = opaque_data, goaway_reserved = 0\<rparr>"

definition nghttp2_frame_window_update_init :: "u8 \<Rightarrow> int \<Rightarrow> int \<Rightarrow> nghttp2_window_update" where
  "nghttp2_frame_window_update_init flags sid inc =
     \<lparr>wu_hd = nghttp2_frame_hd_init 4 NGHTTP2_WINDOW_UPDATE flags sid, window_size_increment = inc, wu_reserved = 0\<rparr>"

definition nghttp2_frame_data_init :: "u8 \<Rightarrow> int \<Rightarrow> nghttp2_data" where
  "nghttp2_frame_data_init flags sid = \<lparr>data_hd = nghttp2_frame_hd_init 0 NGHTTP2_DATA flags sid, data_padlen = 0\<rparr>"

definition nghttp2_frame_extension_init :: "u8 \<Rightarrow> u8 \<Rightarrow> int \<Rightarrow> 'p \<Rightarrow> 'p nghttp2_extension" where
  "nghttp2_frame_extension_init type flags sid payload = \<lparr>ext_hd = nghttp2_frame_hd_init 0 type flags sid, ext_payload = payload\<rparr>"

definition nghttp2_frame_altsvc_init :: "int \<Rightarrow> bytes \<Rightarrow> bytes \<Rightarrow> nghttp2_ext_altsvc nghttp2_extension" where
  "nghttp2_frame_altsvc_init sid origin field_value =
     \<lparr>ext_hd = nghttp2_frame_hd_init (2 + length origin + length field_value) NGHTTP2_ALTSVC NGHTTP2_FLAG_NONE sid,
      ext_payload = \<lparr>altsvc_origin = origin, altsvc_field_value = field_value\<rparr>\<rparr>"

definition nghttp2_frame_origin_init :: "bytes list \<Rightarrow> nghttp2_ext_origin nghttp2_extension" where
  "nghttp2_frame_origin_init ov =
     \<lparr>ext_hd = nghttp2_frame_hd_init (sum_list (map (\<lambda>og. 2 + length og) ov)) NGHTTP2_ORIGIN NGHTTP2_FLAG_NONE 0,
      ext_payload = \<lparr>origin_ov = ov\<rparr>\<rparr>"

definition nghttp2_frame_priority_update_init :: "int \<Rightarrow> bytes \<Rightarrow> nghttp2_ext_priority_update nghttp2_extension" where
  "nghttp2_frame_priority_update_init sid field_value =
     \<lparr>ext_hd = nghttp2_frame_hd_init (4 + length field_value) NGHTTP2_PRIORITY_UPDATE NGHTTP2_FLAG_NONE 0,
      ext_payload = \<lparr>pu_stream_id = sid, pu_field_value = field_value\<rparr>\<rparr>"

subsection \<open>The frame header\<close>

text \<open>Stores and loads on a block of memory.\<close>

definition mem_put :: "nat \<Rightarrow> bytes \<Rightarrow> bytes \<Rightarrow> bytes option" where
  "mem_put off bs buf = (if off + length bs \<le> length buf then Some (write_at off bs buf) else None)"

definition rd16 :: "bytes \<Rightarrow> nat \<Rightarrow> u16 option" where
  "rd16 p off = (if off + 2 \<le> length p then Some (nghttp2_get_uint16 (drop off p)) else None)"

definition rd32 :: "bytes \<Rightarrow> nat \<Rightarrow> u32 option" where
  "rd32 p off = (if off + 4 \<le> length p then Some (nghttp2_get_uint32 (drop off p)) else None)"

definition rd8 :: "bytes \<Rightarrow> nat \<Rightarrow> u8 option" where
  "rd8 p off = (if off < length p then Some (p ! off) else None)"

definition nghttp2_frame_pack_frame_hd :: "nat \<Rightarrow> nghttp2_frame_hd \<Rightarrow> bytes \<Rightarrow> bytes option" where
  "nghttp2_frame_pack_frame_hd off fh buf =
     do { buf \<leftarrow> mem_put off (uint32be_bytes (of_nat (push_bit 8 (fh_length fh)))) buf;
          buf \<leftarrow> mem_put (off + 3) [fh_type fh] buf;
          buf \<leftarrow> mem_put (off + 4) [fh_flags fh] buf;
          mem_put (off + 5) (uint32be_bytes (word_of_int (fh_stream_id fh))) buf }"

definition nghttp2_frame_unpack_frame_hd :: "bytes \<Rightarrow> nghttp2_frame_hd option" where
  "nghttp2_frame_unpack_frame_hd buf =
     do { len \<leftarrow> rd32 buf 0; type \<leftarrow> rd8 buf 3; flags \<leftarrow> rd8 buf 4; sid \<leftarrow> rd32 buf 5;
          Some \<lparr>fh_length = unat (drop_bit 8 len), fh_stream_id = uint (sid AND NGHTTP2_STREAM_ID_MASK),
                fh_type = type, fh_flags = flags, fh_reserved = 0\<rparr> }"

definition nghttp2_frame_trail_padlen :: "u8 \<Rightarrow> nat \<Rightarrow> nat" where
  "nghttp2_frame_trail_padlen flags padlen =
     (if padlen = 0 then 0 else padlen - (if flags AND NGHTTP2_FLAG_PADDED \<noteq> 0 then 1 else 0))"

definition nghttp2_frame_priority_len :: "u8 \<Rightarrow> nat" where
  "nghttp2_frame_priority_len flags = (if flags AND NGHTTP2_FLAG_PRIORITY \<noteq> 0 then NGHTTP2_PRIORITY_SPECLEN else 0)"

definition nghttp2_frame_headers_payload_nv_offset :: "nghttp2_headers \<Rightarrow> nat" where
  "nghttp2_frame_headers_payload_nv_offset frame = nghttp2_frame_priority_len (fh_flags (headers_hd frame))"

subsection \<open>Packing\<close>

text \<open>The header goes in front of the payload: \<open>buf->pos -= NGHTTP2_FRAME_HDLEN\<close> and a store there.\<close>

definition buf_pack_hd :: "nghttp2_frame_hd \<Rightarrow> nghttp2_buf \<Rightarrow> nghttp2_buf option" where
  "buf_pack_hd fh b =
     (if buf_pos b < NGHTTP2_FRAME_HDLEN then None
      else
        let p = buf_pos b - NGHTTP2_FRAME_HDLEN
        in do { m \<leftarrow> nghttp2_frame_pack_frame_hd p fh (buf_mem b); Some (b\<lparr>buf_pos := p, buf_mem := m\<rparr>) })"

text \<open>An update of the first buffer of a chain.\<close>

definition head_buf :: "nghttp2_bufs \<Rightarrow> nghttp2_buf" where
  "head_buf bufs = chain bufs ! 0"

definition set_head :: "nghttp2_bufs \<Rightarrow> nghttp2_buf \<Rightarrow> nghttp2_bufs" where
  "set_head bufs b = bufs\<lparr>chain := (chain bufs)[0 := b]\<rparr>"

definition nghttp2_frame_pack_priority_spec :: "nat \<Rightarrow> nghttp2_priority_spec \<Rightarrow> bytes \<Rightarrow> bytes option" where
  "nghttp2_frame_pack_priority_spec off pri_spec buf =
     do { buf \<leftarrow> mem_put off (uint32be_bytes (word_of_int (pri_stream_id pri_spec))) buf;
          buf \<leftarrow> (if pri_exclusive pri_spec \<noteq> 0 then mem_put off [buf ! off OR 0x80] buf else Some buf);
          mem_put (off + 4) [word_of_int (pri_weight pri_spec - 1)] buf }"

definition nghttp2_frame_unpack_priority_spec :: "bytes \<Rightarrow> nghttp2_priority_spec option" where
  "nghttp2_frame_unpack_priority_spec payload =
     do { d \<leftarrow> rd32 payload 0; b \<leftarrow> rd8 payload 0; w \<leftarrow> rd8 payload 4;
          Some (nghttp2_priority_spec_init (uint (d AND NGHTTP2_STREAM_ID_MASK)) (uint w + 1) (b AND 0x80 \<noteq> 0)) }"

definition nghttp2_frame_unpack_headers_payload :: "nghttp2_headers \<Rightarrow> bytes \<Rightarrow> nghttp2_headers option" where
  "nghttp2_frame_unpack_headers_payload frame payload =
     do { p \<leftarrow> (if fh_flags (headers_hd frame) AND NGHTTP2_FLAG_PRIORITY \<noteq> 0
                then nghttp2_frame_unpack_priority_spec payload else Some nghttp2_priority_spec_default_init);
          Some (frame\<lparr>headers_pri_spec := p, headers_nva := []\<rparr>) }"

definition nghttp2_frame_pack_priority :: "nghttp2_bufs \<Rightarrow> nghttp2_priority \<Rightarrow> nghttp2_bufs option" where
  "nghttp2_frame_pack_priority bufs frame =
     (if cur bufs \<noteq> 0 \<or> nghttp2_buf_avail (head_buf bufs) < NGHTTP2_PRIORITY_SPECLEN then None
      else
        do { b \<leftarrow> buf_pack_hd (priority_hd frame) (head_buf bufs);
             m \<leftarrow> nghttp2_frame_pack_priority_spec (buf_last b) (priority_pri_spec frame) (buf_mem b);
             Some (set_head bufs (b\<lparr>buf_mem := m, buf_last := buf_last b + NGHTTP2_PRIORITY_SPECLEN\<rparr>)) })"

definition nghttp2_frame_unpack_priority_payload :: "nghttp2_priority \<Rightarrow> bytes \<Rightarrow> nghttp2_priority option" where
  "nghttp2_frame_unpack_priority_payload frame payload =
     do { p \<leftarrow> nghttp2_frame_unpack_priority_spec payload; Some (frame\<lparr>priority_pri_spec := p\<rparr>) }"

definition nghttp2_frame_pack_rst_stream :: "nghttp2_bufs \<Rightarrow> nghttp2_rst_stream \<Rightarrow> nghttp2_bufs option" where
  "nghttp2_frame_pack_rst_stream bufs frame =
     (if cur bufs \<noteq> 0 \<or> nghttp2_buf_avail (head_buf bufs) < 4 then None
      else
        do { b \<leftarrow> buf_pack_hd (rst_hd frame) (head_buf bufs);
             b \<leftarrow> buf_put b (uint32be_bytes (rst_error_code frame));
             Some (set_head bufs b) })"

definition nghttp2_frame_unpack_rst_stream_payload :: "nghttp2_rst_stream \<Rightarrow> bytes \<Rightarrow> nghttp2_rst_stream option" where
  "nghttp2_frame_unpack_rst_stream_payload frame payload =
     do { e \<leftarrow> rd32 payload 0; Some (frame\<lparr>rst_error_code := e\<rparr>) }"

text \<open>The loop over the settings, which stores at successive offsets.\<close>

fun nghttp2_frame_pack_settings_payload :: "nat \<Rightarrow> nghttp2_settings_entry list \<Rightarrow> bytes \<Rightarrow> bytes option" where
  "nghttp2_frame_pack_settings_payload off [] buf = Some buf"
| "nghttp2_frame_pack_settings_payload off (e # iv) buf =
     do { buf \<leftarrow> mem_put off (uint16be_bytes (word_of_int (settings_id e))) buf;
          buf \<leftarrow> mem_put (off + 2) (uint32be_bytes (settings_value e)) buf;
          nghttp2_frame_pack_settings_payload (off + NGHTTP2_FRAME_SETTINGS_ENTRY_LENGTH) iv buf }"

definition nghttp2_frame_pack_settings :: "nghttp2_bufs \<Rightarrow> nghttp2_settings \<Rightarrow> (rc \<times> nghttp2_bufs) option" where
  "nghttp2_frame_pack_settings bufs frame =
     (if cur bufs \<noteq> 0 then None
      else if nghttp2_buf_avail (head_buf bufs) < fh_length (settings_hd frame) then Some (NGHTTP2_ERR_FRAME_SIZE_ERROR, bufs)
      else
        do { b \<leftarrow> buf_pack_hd (settings_hd frame) (head_buf bufs);
             m \<leftarrow> nghttp2_frame_pack_settings_payload (buf_last b) (settings_iv frame) (buf_mem b);
             Some (0, set_head bufs (b\<lparr>buf_mem := m,
               buf_last := buf_last b + NGHTTP2_FRAME_SETTINGS_ENTRY_LENGTH * length (settings_iv frame)\<rparr>)) })"

definition nghttp2_frame_unpack_settings_payload :: "nghttp2_settings \<Rightarrow> nghttp2_settings_entry list \<Rightarrow> nghttp2_settings" where
  "nghttp2_frame_unpack_settings_payload frame iv = frame\<lparr>settings_iv := iv\<rparr>"

definition nghttp2_frame_unpack_settings_entry :: "bytes \<Rightarrow> nat \<Rightarrow> nghttp2_settings_entry option" where
  "nghttp2_frame_unpack_settings_entry payload off =
     do { i \<leftarrow> rd16 payload off; v \<leftarrow> rd32 payload (off + 2); Some \<lparr>settings_id = uint i, settings_value = v\<rparr> }"

fun unpack_settings_loop :: "bytes \<Rightarrow> nat \<Rightarrow> nat \<Rightarrow> nghttp2_settings_entry list option" where
  "unpack_settings_loop payload i 0 = Some []"
| "unpack_settings_loop payload i (Suc n) =
     do { e \<leftarrow> nghttp2_frame_unpack_settings_entry payload (i * NGHTTP2_FRAME_SETTINGS_ENTRY_LENGTH);
          iv \<leftarrow> unpack_settings_loop payload (i + 1) n; Some (e # iv) }"

text \<open>A settings entry takes 8 bytes.\<close>

definition nghttp2_frame_unpack_settings_payload2 :: "allocator \<Rightarrow> bytes \<Rightarrow> (rc + nghttp2_settings_entry list) option" where
  "nghttp2_frame_unpack_settings_payload2 al payload =
     (let niv = length payload div NGHTTP2_FRAME_SETTINGS_ENTRY_LENGTH
      in if niv = 0 then Some (Inr [])
         else if \<not> mem_ok al (niv * 8) then Some (Inl NGHTTP2_ERR_NOMEM)
         else map_option Inr (unpack_settings_loop payload 0 niv))"

definition nghttp2_frame_unpack_push_promise_payload :: "nghttp2_push_promise \<Rightarrow> bytes \<Rightarrow> nghttp2_push_promise option" where
  "nghttp2_frame_unpack_push_promise_payload frame payload =
     do { i \<leftarrow> rd32 payload 0;
          Some (frame\<lparr>pp_promised_stream_id := uint (i AND NGHTTP2_STREAM_ID_MASK), pp_nva := []\<rparr>) }"

definition nghttp2_frame_pack_ping :: "nghttp2_bufs \<Rightarrow> nghttp2_ping \<Rightarrow> nghttp2_bufs option" where
  "nghttp2_frame_pack_ping bufs frame =
     (if cur bufs \<noteq> 0 \<or> nghttp2_buf_avail (head_buf bufs) < 8 then None
      else
        do { b \<leftarrow> buf_pack_hd (ping_hd frame) (head_buf bufs);
             b \<leftarrow> buf_put b (ping_opaque_data frame);
             Some (set_head bufs b) })"

definition nghttp2_frame_unpack_ping_payload :: "nghttp2_ping \<Rightarrow> bytes \<Rightarrow> nghttp2_ping option" where
  "nghttp2_frame_unpack_ping_payload frame payload =
     (if length payload < 8 then None else Some (frame\<lparr>ping_opaque_data := take 8 payload\<rparr>))"

definition nghttp2_frame_pack_goaway :: "nghttp2_bufs \<Rightarrow> nghttp2_goaway \<Rightarrow> (rc \<times> nghttp2_bufs) option" where
  "nghttp2_frame_pack_goaway bufs frame =
     (if cur bufs \<noteq> 0 then None
      else
        do { b \<leftarrow> buf_pack_hd (goaway_hd frame) (head_buf bufs);
             b \<leftarrow> buf_put b (uint32be_bytes (word_of_int (goaway_last_stream_id frame)));
             b \<leftarrow> buf_put b (uint32be_bytes (goaway_error_code frame));
             (rv, bufs) \<leftarrow> nghttp2_bufs_add (set_head bufs b) (goaway_opaque_data frame);
             Some (if rv = NGHTTP2_ERR_BUFFER_ERROR then NGHTTP2_ERR_FRAME_SIZE_ERROR else rv, bufs) })"

definition nghttp2_frame_unpack_goaway_payload :: "nghttp2_goaway \<Rightarrow> bytes \<Rightarrow> bytes \<Rightarrow> nghttp2_goaway option" where
  "nghttp2_frame_unpack_goaway_payload frame payload var_gift =
     do { l \<leftarrow> rd32 payload 0; e \<leftarrow> rd32 payload 4;
          Some (frame\<lparr>goaway_last_stream_id := uint (l AND NGHTTP2_STREAM_ID_MASK), goaway_error_code := e,
                      goaway_opaque_data := var_gift\<rparr>) }"

definition nghttp2_frame_unpack_goaway_payload2 :: "allocator \<Rightarrow> nghttp2_goaway \<Rightarrow> bytes \<Rightarrow> (rc \<times> nghttp2_goaway) option" where
  "nghttp2_frame_unpack_goaway_payload2 al frame payload =
     (let n = (if length payload > 8 then length payload - 8 else 0)
      in if n \<noteq> 0 \<and> \<not> mem_ok al n then Some (NGHTTP2_ERR_NOMEM, frame)
         else do { f \<leftarrow> nghttp2_frame_unpack_goaway_payload frame payload (drop 8 payload); Some (0, f) })"

definition nghttp2_frame_pack_window_update :: "nghttp2_bufs \<Rightarrow> nghttp2_window_update \<Rightarrow> nghttp2_bufs option" where
  "nghttp2_frame_pack_window_update bufs frame =
     (if cur bufs \<noteq> 0 \<or> nghttp2_buf_avail (head_buf bufs) < 4 then None
      else
        do { b \<leftarrow> buf_pack_hd (wu_hd frame) (head_buf bufs);
             b \<leftarrow> buf_put b (uint32be_bytes (word_of_int (window_size_increment frame)));
             Some (set_head bufs b) })"

definition nghttp2_frame_unpack_window_update_payload :: "nghttp2_window_update \<Rightarrow> bytes \<Rightarrow> nghttp2_window_update option" where
  "nghttp2_frame_unpack_window_update_payload frame payload =
     do { i \<leftarrow> rd32 payload 0; Some (frame\<lparr>window_size_increment := uint (i AND NGHTTP2_WINDOW_SIZE_INCREMENT_MASK)\<rparr>) }"

definition nghttp2_frame_pack_altsvc :: "nghttp2_bufs \<Rightarrow> nghttp2_ext_altsvc nghttp2_extension \<Rightarrow> nghttp2_bufs option" where
  "nghttp2_frame_pack_altsvc bufs frame =
     (let altsvc = ext_payload frame
      in if nghttp2_buf_avail (head_buf bufs) < 2 + length (altsvc_origin altsvc) + length (altsvc_field_value altsvc) then None
         else
           do { b \<leftarrow> buf_pack_hd (ext_hd frame) (head_buf bufs);
                b \<leftarrow> buf_put b (uint16be_bytes (of_nat (length (altsvc_origin altsvc))));
                (rv, bufs) \<leftarrow> nghttp2_bufs_add (set_head bufs b) (altsvc_origin altsvc);
                if rv \<noteq> 0 then None
                else do { (rv, bufs) \<leftarrow> nghttp2_bufs_add bufs (altsvc_field_value altsvc);
                          if rv \<noteq> 0 then None else Some bufs } })"

definition nghttp2_frame_unpack_altsvc_payload ::
  "nghttp2_ext_altsvc nghttp2_extension \<Rightarrow> nat \<Rightarrow> bytes \<Rightarrow> nghttp2_ext_altsvc nghttp2_extension option" where
  "nghttp2_frame_unpack_altsvc_payload frame origin_len payload =
     (if length payload < origin_len then None
      else Some (frame\<lparr>ext_payload := \<lparr>altsvc_origin = take origin_len payload, altsvc_field_value = drop origin_len payload\<rparr>\<rparr>))"

definition nghttp2_frame_unpack_altsvc_payload2 ::
  "allocator \<Rightarrow> nghttp2_ext_altsvc nghttp2_extension \<Rightarrow> bytes \<Rightarrow> (int \<times> nghttp2_ext_altsvc nghttp2_extension) option" where
  "nghttp2_frame_unpack_altsvc_payload2 al frame payload =
     (if length payload < 2 then Some (NGHTTP2_FRAME_SIZE_ERROR, frame)
      else
        do { origin_len \<leftarrow> rd16 payload 0;
             if \<not> mem_ok al (length payload - 2) then Some (NGHTTP2_ERR_NOMEM, frame)
             else do { f \<leftarrow> nghttp2_frame_unpack_altsvc_payload frame (unat origin_len) (drop 2 payload); Some (0, f) } })"

fun pack_origin_loop :: "bytes list \<Rightarrow> nghttp2_buf \<Rightarrow> nghttp2_buf option" where
  "pack_origin_loop [] b = Some b"
| "pack_origin_loop (og # ov) b =
     do { b \<leftarrow> buf_put b (uint16be_bytes (of_nat (length og))); b \<leftarrow> buf_put b og; pack_origin_loop ov b }"

definition nghttp2_frame_pack_origin :: "nghttp2_bufs \<Rightarrow> nghttp2_ext_origin nghttp2_extension \<Rightarrow> (rc \<times> nghttp2_bufs) option" where
  "nghttp2_frame_pack_origin bufs frame =
     (if nghttp2_buf_avail (head_buf bufs) < fh_length (ext_hd frame) then Some (NGHTTP2_ERR_FRAME_SIZE_ERROR, bufs)
      else
        do { b \<leftarrow> buf_pack_hd (ext_hd frame) (head_buf bufs);
             b \<leftarrow> pack_origin_loop (origin_ov (ext_payload frame)) b;
             if nghttp2_buf_len b \<noteq> NGHTTP2_FRAME_HDLEN + fh_length (ext_hd frame) then None
             else Some (0, set_head bufs b) })"

text \<open>
  The two passes over the origins: the first counts the entries and the bytes they need, the second
  fills the block.  \<open>None\<close> in the second is a store past the space that the first pass computed.
\<close>

function origin_count_loop :: "bytes \<Rightarrow> nat \<Rightarrow> nat \<Rightarrow> rc + nat \<times> nat" where
  "origin_count_loop p nov len =
     (if p = [] then Inr (nov, len)
      else if length p < 2 then Inl NGHTTP2_ERR_FRAME_SIZE_ERROR
      else
        let originlen = unat (nghttp2_get_uint16 p); p = drop 2 p
        in if originlen = 0 then origin_count_loop p nov len
           else if originlen > length p then Inl NGHTTP2_ERR_FRAME_SIZE_ERROR
           else origin_count_loop (drop originlen p) (nov + 1) (len + (originlen + 1)))"
  by pat_completeness auto
termination by (relation "measure (\<lambda>(p, nov, len). length p)") auto

function origin_fill_loop :: "bytes \<Rightarrow> nat \<Rightarrow> nat \<Rightarrow> bytes list option" where
  "origin_fill_loop p nov len =
     (if p = [] then Some []
      else if length p < 2 then None
      else
        let originlen = unat (nghttp2_get_uint16 p); p = drop 2 p
        in if originlen = 0 then origin_fill_loop p nov len
           else if nov = 0 \<or> len < originlen + 1 \<or> length p < originlen then None
           else do { ov \<leftarrow> origin_fill_loop (drop originlen p) (nov - 1) (len - (originlen + 1));
                     Some (take originlen p # ov) })"
  by pat_completeness auto
termination by (relation "measure (\<lambda>(p, nov, len). length p)") auto

declare origin_count_loop.simps [simp del] origin_fill_loop.simps [simp del]

text \<open>An origin entry takes 16 bytes.\<close>

definition nghttp2_frame_unpack_origin_payload ::
  "allocator \<Rightarrow> nghttp2_ext_origin nghttp2_extension \<Rightarrow> bytes \<Rightarrow> (rc \<times> nghttp2_ext_origin nghttp2_extension) option" where
  "nghttp2_frame_unpack_origin_payload al frame payload =
     (case origin_count_loop payload 0 0 of
        Inl rv \<Rightarrow> Some (rv, frame)
      | Inr (nov, len) \<Rightarrow>
          if nov = 0 then Some (0, frame\<lparr>ext_payload := \<lparr>origin_ov = []\<rparr>\<rparr>)
          else if \<not> mem_ok al (len + nov * 16) then Some (NGHTTP2_ERR_NOMEM, frame)
          else do { ov \<leftarrow> origin_fill_loop payload nov len; Some (0, frame\<lparr>ext_payload := \<lparr>origin_ov = ov\<rparr>\<rparr>) })"

definition nghttp2_frame_pack_priority_update ::
  "nghttp2_bufs \<Rightarrow> nghttp2_ext_priority_update nghttp2_extension \<Rightarrow> nghttp2_bufs option" where
  "nghttp2_frame_pack_priority_update bufs frame =
     (let pu = ext_payload frame
      in if nghttp2_buf_avail (head_buf bufs) < 4 + length (pu_field_value pu) then None
         else
           do { b \<leftarrow> buf_pack_hd (ext_hd frame) (head_buf bufs);
                b \<leftarrow> buf_put b (uint32be_bytes (word_of_int (pu_stream_id pu)));
                (rv, bufs) \<leftarrow> nghttp2_bufs_add (set_head bufs b) (pu_field_value pu);
                if rv \<noteq> 0 then None else Some bufs })"

definition nghttp2_frame_unpack_priority_update_payload ::
  "nghttp2_ext_priority_update nghttp2_extension \<Rightarrow> bytes \<Rightarrow> nghttp2_ext_priority_update nghttp2_extension option" where
  "nghttp2_frame_unpack_priority_update_payload frame payload =
     (if length payload < 4 then None
      else
        do { i \<leftarrow> rd32 payload 0;
             Some (frame\<lparr>ext_payload := \<lparr>pu_stream_id = uint (i AND NGHTTP2_STREAM_ID_MASK),
               pu_field_value = (if length payload > 4 then drop 4 payload else [])\<rparr>\<rparr>) })"

text \<open>\<open>NULL\<close> both when there is nothing to copy and when memory is short.\<close>

definition nghttp2_frame_iv_copy :: "allocator \<Rightarrow> nghttp2_settings_entry list \<Rightarrow> nghttp2_settings_entry list option" where
  "nghttp2_frame_iv_copy al iv = (if length iv * 8 = 0 then None else if \<not> mem_ok al (length iv * 8) then None else Some iv)"

subsection \<open>Field lists\<close>

definition nghttp2_nv_equal :: "nghttp2_nv \<Rightarrow> nghttp2_nv \<Rightarrow> bool" where
  "nghttp2_nv_equal a b \<longleftrightarrow>
     length (nv_name a) = length (nv_name b) \<and> length (nv_value a) = length (nv_value b) \<and>
     nv_name a = nv_name b \<and> nv_value a = nv_value b"

text \<open>\<open>memcmp\<close> on the first \<open>n\<close> bytes: the difference at the first that differs.\<close>

fun memcmp :: "bytes \<Rightarrow> bytes \<Rightarrow> nat \<Rightarrow> int" where
  "memcmp (a # as) (b # bs) (Suc n) = (if a = b then memcmp as bs n else uint a - uint b)"
| "memcmp as bs n = 0"

definition bytes_compar :: "bytes \<Rightarrow> bytes \<Rightarrow> int" where
  "bytes_compar a b =
     (if length a = length b then memcmp a b (length a)
      else if length a < length b then
        let rv = memcmp a b (length a) in if rv = 0 then -1 else rv
      else
        let rv = memcmp a b (length b) in if rv = 0 then 1 else rv)"

definition nghttp2_nv_compare_name :: "nghttp2_nv \<Rightarrow> nghttp2_nv \<Rightarrow> int" where
  "nghttp2_nv_compare_name lhs rhs = bytes_compar (nv_name lhs) (nv_name rhs)"

definition nv_compar :: "nghttp2_nv \<Rightarrow> nghttp2_nv \<Rightarrow> int" where
  "nv_compar a b =
     (let rv = bytes_compar (nv_name a) (nv_name b)
      in if rv = 0 then bytes_compar (nv_value a) (nv_value b) else rv)"

definition nv_copy_len :: "nghttp2_nv \<Rightarrow> nat" where
  "nv_copy_len nv =
     (if nv_flags nv AND NGHTTP2_NV_FLAG_NO_COPY_NAME = 0 then length (nv_name nv) + 1 else 0) +
     (if nv_flags nv AND NGHTTP2_NV_FLAG_NO_COPY_VALUE = 0 then length (nv_value nv) + 1 else 0)"

text \<open>The copies are carved out of one block of which \<open>room\<close> bytes are left; each ends with a zero byte.\<close>

fun nv_copy_loop :: "nghttp2_nv list \<Rightarrow> nat \<Rightarrow> nghttp2_nv list option" where
  "nv_copy_loop [] room = Some []"
| "nv_copy_loop (nv # nva) room =
     do { (name, room) \<leftarrow>
            (if nv_flags nv AND NGHTTP2_NV_FLAG_NO_COPY_NAME \<noteq> 0 then Some (nv_name nv, room)
             else if room < length (nv_name nv) + 1 then None
             else Some (nghttp2_downcase (nv_name nv), room - (length (nv_name nv) + 1)));
          (val, room) \<leftarrow>
            (if nv_flags nv AND NGHTTP2_NV_FLAG_NO_COPY_VALUE \<noteq> 0 then Some (nv_value nv, room)
             else if room < length (nv_value nv) + 1 then None
             else Some (nv_value nv, room - (length (nv_value nv) + 1)));
          rest \<leftarrow> nv_copy_loop nva room;
          Some (\<lparr>nv_name = name, nv_value = val, nv_flags = nv_flags nv\<rparr> # rest) }"

text \<open>An \<open>nghttp2_nv\<close> takes 40 bytes.\<close>

definition nghttp2_nv_array_copy :: "allocator \<Rightarrow> nghttp2_nv list \<Rightarrow> (rc + nghttp2_nv list) option" where
  "nghttp2_nv_array_copy al nva =
     (if nva = [] then Some (Inr [])
      else
        let buflen = sum_list (map nv_copy_len nva) + 40 * length nva
        in if \<not> mem_ok al buflen then Some (Inl NGHTTP2_ERR_NOMEM)
           else map_option Inr (nv_copy_loop nva (buflen - 40 * length nva)))"

fun nghttp2_iv_check :: "nghttp2_settings_entry list \<Rightarrow> bool" where
  "nghttp2_iv_check [] \<longleftrightarrow> True"
| "nghttp2_iv_check (e # iv) \<longleftrightarrow>
     (let i = settings_id e; v = settings_value e
      in if i = NGHTTP2_SETTINGS_ENABLE_PUSH \<and> v \<noteq> 0 \<and> v \<noteq> 1 then False
         else if i = NGHTTP2_SETTINGS_INITIAL_WINDOW_SIZE \<and> v > word_of_int NGHTTP2_MAX_WINDOW_SIZE then False
         else if i = NGHTTP2_SETTINGS_MAX_FRAME_SIZE \<and> (v < NGHTTP2_MAX_FRAME_SIZE_MIN \<or> v > NGHTTP2_MAX_FRAME_SIZE_MAX) then False
         else if i = NGHTTP2_SETTINGS_ENABLE_CONNECT_PROTOCOL \<and> v \<noteq> 0 \<and> v \<noteq> 1 then False
         else if i = NGHTTP2_SETTINGS_NO_RFC7540_PRIORITIES \<and> v \<noteq> 0 \<and> v \<noteq> 1 then False
         else nghttp2_iv_check iv)"

subsection \<open>Padding\<close>

definition frame_set_pad :: "nghttp2_buf \<Rightarrow> nat \<Rightarrow> bool \<Rightarrow> nghttp2_buf option" where
  "frame_set_pad b padlen framehd_only =
     (if buf_pos b = 0 \<or> length (buf_mem b) < buf_pos b + NGHTTP2_FRAME_HDLEN then None
      else
        do { let p = buf_pos b - 1;
             m \<leftarrow> mem_put p (take NGHTTP2_FRAME_HDLEN (drop (buf_pos b) (buf_mem b))) (buf_mem b);
             m \<leftarrow> mem_put (p + 4) [m ! (p + 4) OR NGHTTP2_FLAG_PADDED] m;
             let newlen = unat (drop_bit 8 (nghttp2_get_uint32 (drop p m))) + padlen;
             m \<leftarrow> mem_put p (uint32be_bytes (of_nat (push_bit 8 newlen + unat (m ! (p + 3))))) m;
             let b = b\<lparr>buf_pos := p, buf_mem := m\<rparr>;
             if framehd_only then Some b
             else
               do { m \<leftarrow> mem_put (p + NGHTTP2_FRAME_HDLEN) [of_nat (padlen - 1)] (buf_mem b);
                    buf_put (b\<lparr>buf_mem := m\<rparr>) (replicate (padlen - 1) 0) } })"

definition nghttp2_frame_add_pad ::
  "nghttp2_bufs \<Rightarrow> nghttp2_frame_hd \<Rightarrow> nat \<Rightarrow> bool \<Rightarrow> (nghttp2_bufs \<times> nghttp2_frame_hd) option" where
  "nghttp2_frame_add_pad bufs fh padlen framehd_only =
     (if padlen = 0 then Some (bufs, fh)
      else if nghttp2_buf_avail (head_buf bufs) < padlen - 1 then None
      else
        do { b \<leftarrow> frame_set_pad (head_buf bufs) padlen framehd_only;
             Some (set_head bufs b, fh\<lparr>fh_length := fh_length fh + padlen, fh_flags := fh_flags fh OR NGHTTP2_FLAG_PADDED\<rparr>) })"


subsection \<open>The bytes of a frame header\<close>

definition hd_bytes :: "nghttp2_frame_hd \<Rightarrow> bytes" where
  "hd_bytes fh = take 3 (uint32be_bytes (of_nat (push_bit 8 (fh_length fh)))) @ [fh_type fh, fh_flags fh] @
     uint32be_bytes (word_of_int (fh_stream_id fh))"

definition fh_ok :: "nghttp2_frame_hd \<Rightarrow> bool" where
  "fh_ok fh \<longleftrightarrow> fh_length fh < 2 ^ 24 \<and> 0 \<le> fh_stream_id fh \<and> fh_stream_id fh < 2 ^ 31 \<and> fh_reserved fh = 0"

lemma length_hd_bytes [simp]: "length (hd_bytes fh) = 9"
  by (simp add: hd_bytes_def)

lemma mem_put_eq: "off + length bs \<le> length buf \<Longrightarrow> mem_put off bs buf = Some (write_at off bs buf)"
  by (simp add: mem_put_def)

lemma write_at_seq:
  assumes "off + length as + length bs \<le> length buf"
  shows "write_at (off + length as) bs (write_at off as buf) = write_at off (as @ bs) buf"
  using assms by (simp add: write_at_def ac_simps)

lemma write_at_overlap:
  assumes "off + k + length bs \<le> length buf" "off + length as \<le> length buf" "k \<le> length as" "length as \<le> k + length bs"
  shows "write_at (off + k) bs (write_at off as buf) = write_at off (take k as @ bs) buf"
proof -
  have "off \<le> length buf" using assms(1) by linarith
  then show ?thesis using assms by (simp add: write_at_def min_absorb2 ac_simps)
qed

lemma pack_frame_hd_eq:
  assumes "off + 9 \<le> length buf"
  shows "nghttp2_frame_pack_frame_hd off fh buf = Some (write_at off (hd_bytes fh) buf)"
proof -
  let ?l = "uint32be_bytes (of_nat (push_bit 8 (fh_length fh)))"
  have "write_at (off + 3) [fh_type fh] (write_at off ?l buf) = write_at off (take 3 ?l @ [fh_type fh]) buf"
    using assms by (intro write_at_overlap) simp_all
  moreover have "write_at (off + 4) [fh_flags fh] (write_at off (take 3 ?l @ [fh_type fh]) buf) =
      write_at off (take 3 ?l @ [fh_type fh, fh_flags fh]) buf"
    using assms write_at_seq [of off "take 3 ?l @ [fh_type fh]" "[fh_flags fh]" buf] by simp
  moreover have "write_at (off + 5) (uint32be_bytes (word_of_int (fh_stream_id fh))) (write_at off (take 3 ?l @ [fh_type fh, fh_flags fh]) buf) =
      write_at off (hd_bytes fh) buf"
    using assms write_at_seq [of off "take 3 ?l @ [fh_type fh, fh_flags fh]" "uint32be_bytes (word_of_int (fh_stream_id fh))" buf]
    by (simp add: hd_bytes_def)
  ultimately show ?thesis using assms
    by (simp add: nghttp2_frame_pack_frame_hd_def mem_put_eq)
qed

lemma uint_stream_id [simp]:
  assumes "0 \<le> i" "i < 2 ^ 31"
  shows "uint ((word_of_int i :: u32) AND NGHTTP2_STREAM_ID_MASK) = i"
proof -
  have m: "NGHTTP2_STREAM_ID_MASK = 2 ^ 31 - 1" by (simp add: NGHTTP2_STREAM_ID_MASK_def)
  have "uint ((word_of_int i :: u32) AND NGHTTP2_STREAM_ID_MASK) = take_bit 31 (uint (word_of_int i :: u32))"
    unfolding m and_mask_take_bit by (simp add: unsigned_take_bit_eq)
  also have "\<dots> = i" using assms by (simp add: take_bit_eq_mod unsigned_of_int)
  finally show ?thesis .
qed

lemma get_uint32_len: "drop_bit 8 (nghttp2_get_uint32 (take 3 (uint32be_bytes n) @ x # rest)) = drop_bit 8 n"
proof -
  have "drop_bit 8 (nghttp2_get_uint32 (uint32be_bytes n @ rest)) = drop_bit 8 n" by simp
  moreover have "drop_bit 8 (nghttp2_get_uint32 (a # b # c # d # r)) = drop_bit 8 (nghttp2_get_uint32 (a # b # c # e # r'))"
    for a b c d e r r' unfolding nghttp2_get_uint32_def by (rule bit_word_eqI) (auto simp: bit_simps)
  ultimately show ?thesis unfolding uint32be_bytes_def by (simp del: drop_bit_of_nat) metis
qed

lemma unat_len24:
  assumes "n < 2 ^ 24"
  shows "unat (drop_bit 8 (of_nat (push_bit 8 n) :: u32)) = n"
proof -
  have "unat (of_nat (push_bit 8 n) :: u32) = 256 * n"
    using assms by (simp add: unsigned_of_nat push_bit_eq_mult take_bit_nat_eq_self del: of_nat_mult of_nat_push_bit)
  then show ?thesis by (simp add: unat_drop_bit del: of_nat_mult of_nat_push_bit)
qed

lemma unpack_hd_bytes:
  assumes "fh_ok fh"
  shows "nghttp2_frame_unpack_frame_hd (hd_bytes fh @ rest) = Some fh"
proof -
  let ?l = "uint32be_bytes (of_nat (push_bit 8 (fh_length fh)))"
  have nth: "(hd_bytes fh @ rest) ! 3 = fh_type fh" "(hd_bytes fh @ rest) ! 4 = fh_flags fh"
    by (simp_all add: hd_bytes_def uint32be_bytes_def)
  have "drop 5 (hd_bytes fh @ rest) = uint32be_bytes (word_of_int (fh_stream_id fh)) @ rest"
    by (simp add: hd_bytes_def)
  moreover have "hd_bytes fh @ rest = take 3 ?l @ fh_type fh # drop 4 (hd_bytes fh @ rest)"
    by (simp add: hd_bytes_def)
  then have "unat (drop_bit 8 (nghttp2_get_uint32 (hd_bytes fh @ rest))) = fh_length fh"
    using assms get_uint32_len unat_len24 unfolding fh_ok_def by metis
  ultimately show ?thesis using assms nth
    by (simp add: nghttp2_frame_unpack_frame_hd_def rd32_def rd8_def fh_ok_def)
qed

lemma buf_pack_hd_ok:
  assumes ok: "buf_ok b" and p: "9 \<le> buf_pos b"
  shows "\<exists>c. buf_pack_hd fh b = Some c \<and> buf_ok c \<and> buf_bytes c = hd_bytes fh @ buf_bytes b \<and>
    length (buf_mem c) = length (buf_mem b) \<and> buf_pos c + 9 = buf_pos b \<and> buf_last c = buf_last b \<and>
    buf_mark c = buf_mark b \<and> drop (buf_pos b) (buf_mem c) = drop (buf_pos b) (buf_mem b)"
proof -
  let ?p = "buf_pos b - 9"
  have o: "buf_pos b \<le> buf_last b" "buf_last b \<le> length (buf_mem b)" using ok by (simp_all add: buf_ok_def)
  define c where "c = b\<lparr>buf_pos := ?p, buf_mem := write_at ?p (hd_bytes fh) (buf_mem b)\<rparr>"
  have c: "buf_pack_hd fh b = Some c"
    using p o by (simp add: buf_pack_hd_def ng_defs pack_frame_hd_eq c_def Let_def)
  have d: "drop ?p (write_at ?p (hd_bytes fh) (buf_mem b)) = hd_bytes fh @ drop (buf_pos b) (buf_mem b)"
    using p o by (simp add: drop_write_at)
  have "drop (buf_pos b) (buf_mem c) = drop 9 (drop ?p (buf_mem c))" using p by (simp add: c_def)
  also have "\<dots> = drop (buf_pos b) (buf_mem b)" using d by (simp add: c_def)
  finally have e: "drop (buf_pos b) (buf_mem c) = drop (buf_pos b) (buf_mem b)" .
  have "buf_bytes c = hd_bytes fh @ buf_bytes b"
    using p o d by (simp add: buf_bytes_def nghttp2_buf_len_def c_def)
  then show ?thesis using c e p o by (simp add: c_def buf_ok_def)
qed

subsection \<open>Packing on a fresh chain\<close>

text \<open>A chain in front of a frame: empty, with room for the header before the first byte.\<close>

definition fresh_chain :: "nghttp2_bufs \<Rightarrow> bool" where
  "fresh_chain bufs \<longleftrightarrow> bufs_inv bufs \<and> cur bufs = 0 \<and> 9 \<le> buf_pos (head_buf bufs) \<and>
     buf_pos (head_buf bufs) = buf_last (head_buf bufs)"

lemma head_is_cur: "cur bufs = 0 \<Longrightarrow> head_buf bufs = cur_buf bufs \<and> set_head bufs b = set_cur bufs b"
  by (simp add: head_buf_def cur_buf_def set_head_def set_cur_def)

lemma fresh_chainD:
  assumes "fresh_chain bufs"
  shows "bufs_inv bufs" "cur bufs = 0" "buf_ok (head_buf bufs)" "9 \<le> buf_pos (head_buf bufs)" "buf_bytes (head_buf bufs) = []"
    "length (buf_mem (head_buf bufs)) = chunk_length bufs"
  using assms bufs_invD(5,6,7) [of bufs] head_is_cur [of bufs]
  by (auto simp: fresh_chain_def buf_ok_def buf_bytes_def nghttp2_buf_len_def)

lemma set_cur_inv:
  assumes inv: "bufs_inv bufs" "cur bufs = 0" and c: "buf_ok c" "length (buf_mem c) = chunk_length bufs"
  shows "bufs_inv (set_cur bufs c) \<and> cur_buf (set_cur bufs c) = c"
proof -
  have "\<forall>b \<in> set ((chain bufs)[cur bufs := c]). buf_pos b \<le> buf_last b \<and> buf_last b \<le> length (buf_mem b) \<and>
      length (buf_mem b) = chunk_length bufs"
    using c bufs_invD(9) [OF inv(1)] set_update_subset_insert [of "chain bufs" "cur bufs" c]
    unfolding buf_ok_def by blast
  then show ?thesis using inv unfolding bufs_inv_def set_cur_def cur_buf_def by (auto simp: nth_list_update)
qed

lemma set_head_ok:
  assumes "fresh_chain bufs" and c: "buf_ok c" "length (buf_mem c) = chunk_length bufs"
  shows "bufs_inv (set_head bufs c) \<and> cur (set_head bufs c) = 0 \<and> head_buf (set_head bufs c) = c \<and>
    bufs_content (set_head bufs c) = buf_bytes c \<and> bufs_mem (set_head bufs c) = bufs_mem bufs"
proof -
  have inv: "bufs_inv bufs" "cur bufs = 0" using fresh_chainD [OF assms(1)] by simp_all
  have s: "set_head bufs c = set_cur bufs c" using head_is_cur [OF inv(2)] by simp
  have i: "bufs_inv (set_cur bufs c)" "cur_buf (set_cur bufs c) = c" using set_cur_inv [OF inv c] by simp_all
  have k: "cur (set_cur bufs c) = 0" using inv(2) by (simp add: set_cur_def)
  have "bufs_content (set_cur bufs c) = buf_bytes c" using content_split [OF i(1)] i(2) k by simp
  then show ?thesis using s i k head_is_cur [OF k] by (simp add: set_cur_def)
qed

text \<open>The header and the fixed part of a payload that fits in the first buffer.\<close>

lemma pack_head_ok:
  assumes "fresh_chain bufs"
  shows "\<exists>b. buf_pack_hd fh (head_buf bufs) = Some b \<and> buf_ok b \<and> buf_bytes b = hd_bytes fh \<and>
    length (buf_mem b) = chunk_length bufs \<and> nghttp2_buf_avail b = nghttp2_buf_avail (head_buf bufs) \<and> buf_pos b + 9 = buf_last b"
  using buf_pack_hd_ok [OF fresh_chainD(3,4) [OF assms], of fh] fresh_chainD [OF assms] assms
  by (auto simp: nghttp2_buf_avail_def fresh_chain_def)

lemma avail_room: "cur bufs = 0 \<Longrightarrow> nghttp2_buf_avail (head_buf bufs) \<le> bufs_room bufs"
  by (simp add: bufs_room_def head_is_cur)

lemma add_after_head:
  assumes "bufs_inv bufs" "cur bufs = 0" "length p \<le> nghttp2_buf_avail (head_buf bufs)"
  shows "\<exists>bufs'. nghttp2_bufs_add bufs p = Some (0, bufs') \<and> bufs_inv bufs' \<and> cur bufs' = 0 \<and>
    bufs_content bufs' = bufs_content bufs @ p \<and>
    nghttp2_buf_avail (head_buf bufs') + length p = nghttp2_buf_avail (head_buf bufs)"
proof (cases "p = []")
  case True
  then show ?thesis using assms by (subst nghttp2_bufs_add.simps) simp
next
  case False
  have h: "head_buf bufs = cur_buf bufs" using head_is_cur [OF assms(2)] by simp
  obtain c where c: "buf_put (cur_buf bufs) p = Some c" "bufs_inv (set_cur bufs c)"
    "bufs_content (set_cur bufs c) = bufs_content bufs @ p"
    "nghttp2_buf_avail (cur_buf (set_cur bufs c)) + length p = nghttp2_buf_avail (cur_buf bufs)"
    using put_cur [OF assms(1), of p] assms(3) h by auto
  have k: "cur (set_cur bufs c) = 0" using assms(2) by (simp add: set_cur_def)
  have m: "min (nghttp2_buf_avail (cur_buf bufs)) (length p) = length p" using assms(3) h by simp
  have "nghttp2_bufs_add bufs p = nghttp2_bufs_add (set_cur bufs c) []"
    using False by (subst nghttp2_bufs_add.simps) (simp add: m c(1) Let_def)
  also have "\<dots> = Some (0, set_cur bufs c)" by (subst nghttp2_bufs_add.simps) simp
  finally show ?thesis using c k head_is_cur [OF k] h by simp
qed

lemma buf_put_eq:
  assumes "buf_ok b" "length bs \<le> nghttp2_buf_avail b"
  shows "buf_put b bs = Some (b\<lparr>buf_mem := write_at (buf_last b) bs (buf_mem b), buf_last := buf_last b + length bs\<rparr>)"
  using assms by (simp add: buf_put_def write_at_def)

lemma buf_put_append:
  assumes "buf_ok b" "length as + length bs \<le> nghttp2_buf_avail b"
  shows "(buf_put b as \<bind> (\<lambda>b. buf_put b bs)) = buf_put b (as @ bs)"
proof -
  let ?c = "b\<lparr>buf_mem := write_at (buf_last b) as (buf_mem b), buf_last := buf_last b + length as\<rparr>"
  have n: "buf_last b + length as + length bs \<le> length (buf_mem b)"
    using assms unfolding buf_ok_def nghttp2_buf_avail_def by linarith
  have c: "buf_put b as = Some ?c" using assms by (simp add: buf_put_eq)
  have "buf_ok ?c" "length bs \<le> nghttp2_buf_avail ?c"
    using n assms(1) by (simp_all add: buf_ok_def nghttp2_buf_avail_def)
  from buf_put_eq [OF this] c show ?thesis
    using assms n write_at_seq [OF n] by (simp add: buf_put_eq add.assoc)
qed

lemma pack_then_put:
  assumes f: "fresh_chain bufs" and n: "length p \<le> nghttp2_buf_avail (head_buf bufs)"
  shows "\<exists>b c. buf_pack_hd fh (head_buf bufs) = Some b \<and> buf_ok b \<and> length p \<le> nghttp2_buf_avail b \<and>
    nghttp2_buf_avail b = nghttp2_buf_avail (head_buf bufs) \<and>
    buf_put b p = Some c \<and> nghttp2_buf_len c = 9 + length p \<and>
    bufs_inv (set_head bufs c) \<and> cur (set_head bufs c) = 0 \<and> bufs_content (set_head bufs c) = hd_bytes fh @ p \<and>
    nghttp2_buf_avail (head_buf (set_head bufs c)) + length p = nghttp2_buf_avail (head_buf bufs)"
proof -
  obtain b where b: "buf_pack_hd fh (head_buf bufs) = Some b" "buf_ok b" "buf_bytes b = hd_bytes fh"
    "length (buf_mem b) = chunk_length bufs" "nghttp2_buf_avail b = nghttp2_buf_avail (head_buf bufs)" "buf_pos b + 9 = buf_last b"
    using pack_head_ok [OF f] by blast
  obtain c where c: "buf_put b p = Some c" "buf_ok c" "buf_bytes c = buf_bytes b @ p" "length (buf_mem c) = length (buf_mem b)"
    "nghttp2_buf_avail c + length p = nghttp2_buf_avail b"
    using buf_put_ok [OF b(2), of p] n b(5) by auto
  have "nghttp2_buf_len c = 9 + length p"
    using c(1) b(6) buf_put_eq [OF b(2), of p] n b(5) by (auto simp: nghttp2_buf_len_def)
  then show ?thesis using b c n set_head_ok [OF f c(2)] by auto
qed

subsection \<open>The contract of a frame type\<close>

text \<open>
  What the session relies on for every frame it sends and receives: the length in the header is
  the length of the payload, packing puts the header and the payload on a chain with enough room,
  and unpacking that payload into a frame with the same header gives the frame back.
\<close>

definition transmits ::
  "('f \<Rightarrow> nghttp2_frame_hd) \<Rightarrow> (nghttp2_bufs \<Rightarrow> 'f \<Rightarrow> (rc \<times> nghttp2_bufs) option) \<Rightarrow> ('f \<Rightarrow> 'f \<Rightarrow> bool) \<Rightarrow>
   (allocator \<Rightarrow> 'f \<Rightarrow> bytes \<Rightarrow> (rc \<times> 'f) option) \<Rightarrow> nghttp2_bufs \<Rightarrow> 'f \<Rightarrow> bool" where
  "transmits fhd pk received unpk bufs f \<longleftrightarrow> (\<exists>bufs'. pk bufs f = Some (0, bufs') \<and> bufs_inv bufs' \<and>
     nghttp2_frame_unpack_frame_hd (bufs_content bufs') = Some (fhd f) \<and>
     length (bufs_content bufs') = 9 + fh_length (fhd f) \<and>
     (\<forall>al g. (\<forall>n. mem_ok al n) \<longrightarrow> received g f \<longrightarrow> unpk al g (drop 9 (bufs_content bufs')) = Some (0, f)))"

locale frame_codec =
  fixes ok :: "'f \<Rightarrow> bool" and fhd :: "'f \<Rightarrow> nghttp2_frame_hd" and payload :: "'f \<Rightarrow> bytes"
    and pack :: "nghttp2_bufs \<Rightarrow> 'f \<Rightarrow> (rc \<times> nghttp2_bufs) option"
    and received :: "'f \<Rightarrow> 'f \<Rightarrow> bool"
    and unpack :: "allocator \<Rightarrow> 'f \<Rightarrow> bytes \<Rightarrow> (rc \<times> 'f) option"
  assumes ok_hd: "ok f \<Longrightarrow> fh_ok (fhd f) \<and> fh_length (fhd f) = length (payload f)"
    and pack_payload: "ok f \<Longrightarrow> fresh_chain bufs \<Longrightarrow> length (payload f) \<le> nghttp2_buf_avail (head_buf bufs) \<Longrightarrow>
      \<exists>bufs'. pack bufs f = Some (0, bufs') \<and> bufs_inv bufs' \<and> cur bufs' = 0 \<and> bufs_content bufs' = hd_bytes (fhd f) @ payload f"
    and unpack_payload: "ok f \<Longrightarrow> received g f \<Longrightarrow> (\<forall>n. mem_ok al n) \<Longrightarrow> unpack al g (payload f) = Some (0, f)"
begin

lemma roundtrip:
  assumes "ok f" "fresh_chain bufs" "fh_length (fhd f) \<le> nghttp2_buf_avail (head_buf bufs)"
  shows "transmits fhd pack received unpack bufs f"
proof -
  have h: "fh_ok (fhd f)" "fh_length (fhd f) = length (payload f)" using ok_hd [OF assms(1)] by simp_all
  obtain bufs' where b: "pack bufs f = Some (0, bufs')" "bufs_inv bufs'" "bufs_content bufs' = hd_bytes (fhd f) @ payload f"
    using pack_payload [OF assms(1,2)] assms(3) h(2) by auto
  then show ?thesis
    using unpack_hd_bytes [OF h(1)] unpack_payload [OF assms(1)] h(2) unfolding transmits_def by (intro exI [of _ bufs']) simp
qed

end

text \<open>A call without a return code, and one that cannot run out of memory.\<close>

definition no_rc :: "('a \<Rightarrow> 'b \<Rightarrow> 'c option) \<Rightarrow> 'a \<Rightarrow> 'b \<Rightarrow> (rc \<times> 'c) option" where
  "no_rc p a b = map_option (Pair 0) (p a b)"

subsection \<open>The fixed-size frames\<close>

definition pri_bytes :: "nghttp2_priority_spec \<Rightarrow> bytes" where
  "pri_bytes p =
     (let bs = uint32be_bytes (word_of_int (pri_stream_id p))
      in (if pri_exclusive p \<noteq> 0 then hd bs OR 0x80 else hd bs) # tl bs @ [word_of_int (pri_weight p - 1)])"

definition pri_spec_ok :: "nghttp2_priority_spec \<Rightarrow> bool" where
  "pri_spec_ok p \<longleftrightarrow> 0 \<le> pri_stream_id p \<and> pri_stream_id p < 2 ^ 31 \<and> 1 \<le> pri_weight p \<and> pri_weight p \<le> 256 \<and>
     (pri_exclusive p = 0 \<or> pri_exclusive p = 1)"

lemma length_pri_bytes [simp]: "length (pri_bytes p) = 5"
  by (simp add: pri_bytes_def Let_def)

lemma pack_priority_spec_eq:
  assumes "off + 5 \<le> length buf"
  shows "nghttp2_frame_pack_priority_spec off p buf = Some (write_at off (pri_bytes p) buf)"
proof -
  let ?bs = "uint32be_bytes (word_of_int (pri_stream_id p))"
  have bs: "?bs = hd ?bs # tl ?bs" "?bs ! 0 = hd ?bs" by (simp_all add: uint32be_bytes_def)
  let ?e = "(if pri_exclusive p \<noteq> 0 then hd ?bs OR 0x80 else hd ?bs) # tl ?bs"
  have l: "length ?e = 4" by simp
  have w: "write_at off ?bs buf ! off = hd ?bs" using assms bs by (simp add: write_at_def nth_append)
  have "write_at off [x] (write_at off ?bs buf) = write_at off (x # tl ?bs) buf" for x
    using assms bs by (simp add: write_at_def drop_Suc flip: drop_drop)
  then have e: "(if pri_exclusive p \<noteq> 0 then mem_put off [write_at off ?bs buf ! off OR 0x80] (write_at off ?bs buf)
      else Some (write_at off ?bs buf)) = Some (write_at off ?e buf)"
    using assms bs w by (simp add: mem_put_eq)
  have "write_at (off + 4) [word_of_int (pri_weight p - 1)] (write_at off ?e buf) = write_at off (pri_bytes p) buf"
    using write_at_seq [of off ?e "[word_of_int (pri_weight p - 1)]" buf] assms by (simp add: pri_bytes_def Let_def)
  then show ?thesis
    unfolding nghttp2_frame_pack_priority_spec_def using assms e by (simp add: mem_put_eq)
qed

lemma uint_weight:
  assumes "1 \<le> w" "w \<le> 256"
  shows "uint (word_of_int (w - 1) :: u8) + 1 = w"
  using assms by (simp add: unsigned_of_int take_bit_int_eq_self del: of_int_diff)

lemma bit_0x80: "bit (0x80 :: u8) k \<longleftrightarrow> k = 7"
proof -
  have e: "(0x80 :: u8) = 2 ^ 7" by simp
  show ?thesis unfolding e by (auto simp: bit_exp_iff simp del: power_numeral)
qed

lemma and_0x80: "x AND 0x80 = 0 \<longleftrightarrow> \<not> bit (x :: u8) 7"
proof -
  have e: "(0x80 :: u8) = 2 ^ 7" by simp
  show ?thesis unfolding e by (rule and_exp_eq_0_iff_not_bit)
qed

lemma get_uint32_top: "nghttp2_get_uint32 ((a OR 0x80) # b # c # d # r) AND NGHTTP2_STREAM_ID_MASK =
    nghttp2_get_uint32 (a # b # c # d # r') AND NGHTTP2_STREAM_ID_MASK"
proof -
  have m: "NGHTTP2_STREAM_ID_MASK = 2 ^ 31 - 1" by (simp add: NGHTTP2_STREAM_ID_MASK_def)
  obtain x where x: "x = a OR 0x80" "\<And>k. k \<noteq> 7 \<Longrightarrow> bit x k = bit a k" by (metis bit_or_iff bit_0x80)
  show ?thesis unfolding m and_mask_take_bit nghttp2_get_uint32_def x(1) [symmetric]
    by (intro bit_word_eqI) (auto simp: bit_simps x(2))
qed

lemma unpack_pri_bytes:
  assumes "pri_spec_ok p"
  shows "nghttp2_frame_unpack_priority_spec (pri_bytes p @ rest) = Some p"
proof -
  let ?n = "word_of_int (pri_stream_id p) :: u32"
  obtain a b c d where bs: "uint32be_bytes ?n = [a, b, c, d]" by (simp add: uint32be_bytes_def)
  have g: "nghttp2_get_uint32 ([a, b, c, d] @ r) = ?n" for r using get_uint32_bytes [of ?n r] bs by simp
  have "\<not> bit ?n 31"
  proof -
    have "uint ?n = pri_stream_id p" using assms by (simp add: pri_spec_ok_def unsigned_of_int take_bit_int_eq_self)
    then have "\<not> bit (uint ?n) 31" using assms by (simp add: pri_spec_ok_def bit_iff_odd)
    then show ?thesis by (simp add: bit_uint_iff)
  qed
  moreover have "a = ucast (drop_bit 24 ?n)" using bs by (simp add: uint32be_bytes_def)
  ultimately have a: "\<not> bit a 7" by (simp add: bit_simps)
  define e where "e = (if pri_exclusive p \<noteq> 0 then a OR 0x80 else a)"
  have pb: "pri_bytes p @ rest = e # b # c # d # word_of_int (pri_weight p - 1) # rest"
    using bs by (simp add: pri_bytes_def e_def)
  have "nghttp2_get_uint32 (e # b # c # d # r) AND NGHTTP2_STREAM_ID_MASK = ?n AND NGHTTP2_STREAM_ID_MASK" for r
    using g [of r] get_uint32_top [of a b c d r r] by (simp add: e_def)
  then have i: "uint (nghttp2_get_uint32 (e # b # c # d # r) AND NGHTTP2_STREAM_ID_MASK) = pri_stream_id p" for r
    using assms by (simp add: pri_spec_ok_def)
  have x: "(e AND 0x80 \<noteq> 0) = (pri_exclusive p \<noteq> 0)"
    using a unfolding and_0x80 e_def by (simp add: bit_or_iff bit_0x80)
  show ?thesis unfolding pb nghttp2_frame_unpack_priority_spec_def
    using assms i x uint_weight by (auto simp: rd32_def rd8_def pri_spec_ok_def nghttp2_priority_spec_init_def)
qed

lemma buf_priority_put:
  assumes "buf_ok b" "5 \<le> nghttp2_buf_avail b"
  shows "(nghttp2_frame_pack_priority_spec (buf_last b) p (buf_mem b) \<bind>
      (\<lambda>m. Some (b\<lparr>buf_mem := m, buf_last := buf_last b + NGHTTP2_PRIORITY_SPECLEN\<rparr>))) = buf_put b (pri_bytes p)"
proof -
  have "buf_last b + 5 \<le> length (buf_mem b)" using assms unfolding buf_ok_def nghttp2_buf_avail_def by linarith
  then show ?thesis using assms by (simp add: pack_priority_spec_eq buf_put_eq ng_defs)
qed

definition priority_ok :: "nghttp2_priority \<Rightarrow> bool" where
  "priority_ok f \<longleftrightarrow> fh_ok (priority_hd f) \<and> fh_length (priority_hd f) = 5 \<and> pri_spec_ok (priority_pri_spec f)"

interpretation priority: frame_codec priority_ok priority_hd "\<lambda>f. pri_bytes (priority_pri_spec f)"
  "no_rc nghttp2_frame_pack_priority" "\<lambda>g f. priority_hd g = priority_hd f"
  "\<lambda>al. no_rc nghttp2_frame_unpack_priority_payload"
proof unfold_locales
  fix f bufs assume f: "priority_ok f" "fresh_chain bufs"
    "length (pri_bytes (priority_pri_spec f)) \<le> nghttp2_buf_avail (head_buf bufs)"
  then obtain b c where c: "buf_pack_hd (priority_hd f) (head_buf bufs) = Some b" "buf_ok b" "5 \<le> nghttp2_buf_avail b"
    "buf_put b (pri_bytes (priority_pri_spec f)) = Some c"
    "bufs_inv (set_head bufs c)" "cur (set_head bufs c) = 0"
    "bufs_content (set_head bufs c) = hd_bytes (priority_hd f) @ pri_bytes (priority_pri_spec f)"
    using pack_then_put [OF f(2), of "pri_bytes (priority_pri_spec f)" "priority_hd f"] by auto
  obtain m where m: "nghttp2_frame_pack_priority_spec (buf_last b) (priority_pri_spec f) (buf_mem b) = Some m"
    "c = b\<lparr>buf_mem := m, buf_last := buf_last b + NGHTTP2_PRIORITY_SPECLEN\<rparr>"
    using buf_priority_put [OF c(2,3), of "priority_pri_spec f"] c(4) by (auto simp: bind_eq_Some_conv)
  have "nghttp2_frame_pack_priority bufs f = Some (set_head bufs c)"
    using f c(1) m fresh_chainD(2) [OF f(2)] by (simp add: nghttp2_frame_pack_priority_def ng_defs)
  then show "\<exists>bufs'. no_rc nghttp2_frame_pack_priority bufs f = Some (0, bufs') \<and> bufs_inv bufs' \<and> cur bufs' = 0 \<and>
      bufs_content bufs' = hd_bytes (priority_hd f) @ pri_bytes (priority_pri_spec f)"
    using c(5-7) by (simp add: no_rc_def)
next
  fix f g :: nghttp2_priority and al assume "priority_ok f" "priority_hd g = priority_hd f"
  then show "no_rc nghttp2_frame_unpack_priority_payload g (pri_bytes (priority_pri_spec f)) = Some (0, f)"
    using unpack_pri_bytes [of "priority_pri_spec f" "[]"]
    by (simp add: no_rc_def nghttp2_frame_unpack_priority_payload_def priority_ok_def)
qed (simp add: priority_ok_def)

text \<open>The frames whose payload is stored by one call.\<close>

lemma pack_put_frame:
  assumes "fresh_chain bufs" "length p \<le> nghttp2_buf_avail (head_buf bufs)"
  shows "\<exists>c. (do { b \<leftarrow> buf_pack_hd fh (head_buf bufs); b \<leftarrow> buf_put b p; Some (set_head bufs b) }) = Some (set_head bufs c) \<and>
    bufs_inv (set_head bufs c) \<and> cur (set_head bufs c) = 0 \<and> bufs_content (set_head bufs c) = hd_bytes fh @ p"
  using pack_then_put [OF assms, of fh] by auto

definition rst_ok :: "nghttp2_rst_stream \<Rightarrow> bool" where
  "rst_ok f \<longleftrightarrow> fh_ok (rst_hd f) \<and> fh_length (rst_hd f) = 4"

lemma rd32_bytes [simp]: "rd32 (uint32be_bytes n @ r) 0 = Some n" "rd32 (uint32be_bytes n) 0 = Some n"
  using get_uint32_bytes [of n r] get_uint32_bytes [of n "[]"] by (simp_all add: rd32_def)

interpretation rst: frame_codec rst_ok rst_hd "\<lambda>f. uint32be_bytes (rst_error_code f)"
  "no_rc nghttp2_frame_pack_rst_stream" "\<lambda>g f. rst_hd g = rst_hd f"
  "\<lambda>al. no_rc nghttp2_frame_unpack_rst_stream_payload"
proof unfold_locales
  fix f bufs assume "rst_ok f" "fresh_chain bufs" "length (uint32be_bytes (rst_error_code f)) \<le> nghttp2_buf_avail (head_buf bufs)"
  then show "\<exists>bufs'. no_rc nghttp2_frame_pack_rst_stream bufs f = Some (0, bufs') \<and> bufs_inv bufs' \<and> cur bufs' = 0 \<and>
      bufs_content bufs' = hd_bytes (rst_hd f) @ uint32be_bytes (rst_error_code f)"
    using pack_put_frame [of bufs "uint32be_bytes (rst_error_code f)" "rst_hd f"] fresh_chainD(2) [of bufs]
    by (auto simp: no_rc_def nghttp2_frame_pack_rst_stream_def)
qed (simp_all add: rst_ok_def no_rc_def nghttp2_frame_unpack_rst_stream_payload_def)

definition ping_ok :: "nghttp2_ping \<Rightarrow> bool" where
  "ping_ok f \<longleftrightarrow> fh_ok (ping_hd f) \<and> fh_length (ping_hd f) = 8 \<and> length (ping_opaque_data f) = 8"

interpretation ping: frame_codec ping_ok ping_hd ping_opaque_data
  "no_rc nghttp2_frame_pack_ping" "\<lambda>g f. ping_hd g = ping_hd f" "\<lambda>al. no_rc nghttp2_frame_unpack_ping_payload"
proof unfold_locales
  fix f bufs assume "ping_ok f" "fresh_chain bufs" "length (ping_opaque_data f) \<le> nghttp2_buf_avail (head_buf bufs)"
  then show "\<exists>bufs'. no_rc nghttp2_frame_pack_ping bufs f = Some (0, bufs') \<and> bufs_inv bufs' \<and> cur bufs' = 0 \<and>
      bufs_content bufs' = hd_bytes (ping_hd f) @ ping_opaque_data f"
    using pack_put_frame [of bufs "ping_opaque_data f" "ping_hd f"] fresh_chainD(2) [of bufs]
    by (auto simp: no_rc_def nghttp2_frame_pack_ping_def ping_ok_def)
qed (simp_all add: ping_ok_def no_rc_def nghttp2_frame_unpack_ping_payload_def)

definition wu_ok :: "nghttp2_window_update \<Rightarrow> bool" where
  "wu_ok f \<longleftrightarrow> fh_ok (wu_hd f) \<and> fh_length (wu_hd f) = 4 \<and> 0 \<le> window_size_increment f \<and> window_size_increment f < 2 ^ 31"

lemma increment_mask: "NGHTTP2_WINDOW_SIZE_INCREMENT_MASK = NGHTTP2_STREAM_ID_MASK"
  by (simp add: NGHTTP2_WINDOW_SIZE_INCREMENT_MASK_def NGHTTP2_STREAM_ID_MASK_def)

interpretation wu: frame_codec wu_ok wu_hd "\<lambda>f. uint32be_bytes (word_of_int (window_size_increment f))"
  "no_rc nghttp2_frame_pack_window_update" "\<lambda>g f. wu_hd g = wu_hd f \<and> wu_reserved g = wu_reserved f"
  "\<lambda>al. no_rc nghttp2_frame_unpack_window_update_payload"
proof unfold_locales
  fix f bufs assume "wu_ok f" "fresh_chain bufs"
    "length (uint32be_bytes (word_of_int (window_size_increment f))) \<le> nghttp2_buf_avail (head_buf bufs)"
  then show "\<exists>bufs'. no_rc nghttp2_frame_pack_window_update bufs f = Some (0, bufs') \<and> bufs_inv bufs' \<and> cur bufs' = 0 \<and>
      bufs_content bufs' = hd_bytes (wu_hd f) @ uint32be_bytes (word_of_int (window_size_increment f))"
    using pack_put_frame [of bufs "uint32be_bytes (word_of_int (window_size_increment f))" "wu_hd f"] fresh_chainD(2) [of bufs]
    by (auto simp: no_rc_def nghttp2_frame_pack_window_update_def)
qed (simp_all add: wu_ok_def no_rc_def nghttp2_frame_unpack_window_update_payload_def increment_mask)

subsection \<open>SETTINGS\<close>

definition entry_bytes :: "nghttp2_settings_entry \<Rightarrow> bytes" where
  "entry_bytes e = uint16be_bytes (word_of_int (settings_id e)) @ uint32be_bytes (settings_value e)"

definition iv_bytes :: "nghttp2_settings_entry list \<Rightarrow> bytes" where
  "iv_bytes iv = concat (map entry_bytes iv)"

lemma length_entry_bytes [simp]: "length (entry_bytes e) = 6"
  by (simp add: entry_bytes_def)

lemma iv_bytes_simps [simp]:
  "iv_bytes [] = []" "iv_bytes (e # iv) = entry_bytes e @ iv_bytes iv" "iv_bytes (as @ bs) = iv_bytes as @ iv_bytes bs"
  by (simp_all add: iv_bytes_def)

lemma length_iv_bytes [simp]: "length (iv_bytes iv) = 6 * length iv"
  by (induction iv) simp_all

lemma pack_settings_payload_eq:
  "off + 6 * length iv \<le> length buf \<Longrightarrow> nghttp2_frame_pack_settings_payload off iv buf = Some (write_at off (iv_bytes iv) buf)"
proof (induction iv arbitrary: off buf)
  case Nil
  then show ?case by (simp add: write_at_def)
next
  case (Cons e iv)
  let ?b = "write_at off (entry_bytes e) buf"
  have n: "off + 6 + 6 * length iv \<le> length buf" using Cons.prems by simp
  have "write_at (off + 2) (uint32be_bytes (settings_value e)) (write_at off (uint16be_bytes (word_of_int (settings_id e))) buf) = ?b"
    using n write_at_seq [of off "uint16be_bytes (word_of_int (settings_id e))" "uint32be_bytes (settings_value e)" buf]
    by (simp add: entry_bytes_def)
  moreover have "nghttp2_frame_pack_settings_payload (off + 6) iv ?b = Some (write_at (off + 6) (iv_bytes iv) ?b)"
    using n by (intro Cons.IH) simp
  moreover have "write_at (off + 6) (iv_bytes iv) ?b = write_at off (iv_bytes (e # iv)) buf"
    using n write_at_seq [of off "entry_bytes e" "iv_bytes iv" buf] by simp
  ultimately show ?case using n by (simp add: mem_put_eq ng_defs)
qed

definition setting_ok :: "nghttp2_settings_entry \<Rightarrow> bool" where
  "setting_ok e \<longleftrightarrow> 0 \<le> settings_id e \<and> settings_id e < 2 ^ 16"

lemma unpack_entry:
  assumes "setting_ok e"
  shows "nghttp2_frame_unpack_settings_entry (pre @ entry_bytes e @ post) (length pre) = Some e"
proof -
  have "drop (length pre + 2) (pre @ entry_bytes e @ post) = uint32be_bytes (settings_value e) @ post"
    by (simp add: entry_bytes_def)
  moreover have "uint (word_of_int (settings_id e) :: u16) = settings_id e"
    using assms by (simp add: setting_ok_def unsigned_of_int take_bit_int_eq_self)
  ultimately show ?thesis
    by (simp add: nghttp2_frame_unpack_settings_entry_def rd16_def rd32_def) (simp add: entry_bytes_def)
qed

lemma unpack_settings_loop_eq:
  "\<forall>e \<in> set iv. setting_ok e \<Longrightarrow>
   unpack_settings_loop (iv_bytes pre @ iv_bytes iv @ rest) (length pre) (length iv) = Some iv"
proof (induction iv arbitrary: pre)
  case (Cons e iv)
  have "nghttp2_frame_unpack_settings_entry (iv_bytes pre @ iv_bytes (e # iv) @ rest) (length pre * 6) = Some e"
    using unpack_entry [of e "iv_bytes pre" "iv_bytes iv @ rest"] Cons.prems by (simp add: mult.commute)
  moreover have "unpack_settings_loop (iv_bytes pre @ iv_bytes (e # iv) @ rest) (length pre + 1) (length iv) = Some iv"
    using Cons.IH [of "pre @ [e]"] Cons.prems by simp
  ultimately show ?case by (simp add: ng_defs)
qed simp

definition settings_ok :: "nghttp2_settings \<Rightarrow> bool" where
  "settings_ok f \<longleftrightarrow> fh_ok (settings_hd f) \<and> fh_length (settings_hd f) = 6 * length (settings_iv f) \<and>
     (\<forall>e \<in> set (settings_iv f). setting_ok e)"

text \<open>The two calls with which a received SETTINGS payload is turned into a frame.\<close>

definition unpack_settings :: "allocator \<Rightarrow> nghttp2_settings \<Rightarrow> bytes \<Rightarrow> (rc \<times> nghttp2_settings) option" where
  "unpack_settings al g p =
     (case nghttp2_frame_unpack_settings_payload2 al p of
        None \<Rightarrow> None
      | Some (Inl rv) \<Rightarrow> Some (rv, g)
      | Some (Inr iv) \<Rightarrow> Some (0, nghttp2_frame_unpack_settings_payload g iv))"

lemma unpack_settings_payload2_eq:
  assumes "\<forall>e \<in> set iv. setting_ok e" "\<forall>n. mem_ok al n" "length rest < 6"
  shows "nghttp2_frame_unpack_settings_payload2 al (iv_bytes iv @ rest) = Some (Inr iv)"
  using unpack_settings_loop_eq [of iv "[]" rest] assms
  by (simp add: nghttp2_frame_unpack_settings_payload2_def ng_defs Let_def)

interpretation settings: frame_codec settings_ok settings_hd "\<lambda>f. iv_bytes (settings_iv f)"
  nghttp2_frame_pack_settings "\<lambda>g f. settings_hd g = settings_hd f" unpack_settings
proof unfold_locales
  fix f bufs assume f: "settings_ok f" "fresh_chain bufs" "length (iv_bytes (settings_iv f)) \<le> nghttp2_buf_avail (head_buf bufs)"
  then obtain b c where c: "buf_pack_hd (settings_hd f) (head_buf bufs) = Some b" "buf_ok b"
    "length (iv_bytes (settings_iv f)) \<le> nghttp2_buf_avail b" "buf_put b (iv_bytes (settings_iv f)) = Some c"
    "bufs_inv (set_head bufs c)" "cur (set_head bufs c) = 0"
    "bufs_content (set_head bufs c) = hd_bytes (settings_hd f) @ iv_bytes (settings_iv f)"
    using pack_then_put [OF f(2), of "iv_bytes (settings_iv f)" "settings_hd f"] by auto
  have n: "buf_last b + 6 * length (settings_iv f) \<le> length (buf_mem b)"
    using c(2,3) unfolding buf_ok_def nghttp2_buf_avail_def length_iv_bytes by linarith
  have "nghttp2_frame_pack_settings bufs f = Some (0, set_head bufs c)"
    using f c(1) buf_put_eq [OF c(2,3)] c(4) fresh_chainD(2) [OF f(2)] pack_settings_payload_eq [OF n]
    by (simp add: nghttp2_frame_pack_settings_def ng_defs settings_ok_def)
  then show "\<exists>bufs'. nghttp2_frame_pack_settings bufs f = Some (0, bufs') \<and> bufs_inv bufs' \<and> cur bufs' = 0 \<and>
      bufs_content bufs' = hd_bytes (settings_hd f) @ iv_bytes (settings_iv f)"
    using c(5-7) by simp
next
  fix f g :: nghttp2_settings and al :: allocator assume "settings_ok f" "settings_hd g = settings_hd f" "\<forall>n. mem_ok al n"
  then show "unpack_settings al g (iv_bytes (settings_iv f)) = Some (0, f)"
    using unpack_settings_payload2_eq [of "settings_iv f" al "[]"]
    by (simp add: unpack_settings_def nghttp2_frame_unpack_settings_payload_def settings_ok_def)
qed (simp add: settings_ok_def)

subsection \<open>GOAWAY\<close>

definition goaway_bytes :: "nghttp2_goaway \<Rightarrow> bytes" where
  "goaway_bytes f = uint32be_bytes (word_of_int (goaway_last_stream_id f)) @ uint32be_bytes (goaway_error_code f) @ goaway_opaque_data f"

definition goaway_ok :: "nghttp2_goaway \<Rightarrow> bool" where
  "goaway_ok f \<longleftrightarrow> fh_ok (goaway_hd f) \<and> fh_length (goaway_hd f) = 8 + length (goaway_opaque_data f) \<and>
     0 \<le> goaway_last_stream_id f \<and> goaway_last_stream_id f < 2 ^ 31"

text \<open>A fixed part in the first buffer, and data appended to the chain behind it.\<close>

lemma pack_put_add:
  assumes f: "fresh_chain bufs" and n: "length p + length q \<le> nghttp2_buf_avail (head_buf bufs)"
  shows "\<exists>b c bufs'. buf_pack_hd fh (head_buf bufs) = Some b \<and> buf_ok b \<and>
    nghttp2_buf_avail b = nghttp2_buf_avail (head_buf bufs) \<and> buf_put b p = Some c \<and>
    nghttp2_bufs_add (set_head bufs c) q = Some (0, bufs') \<and> bufs_inv bufs' \<and> cur bufs' = 0 \<and>
    bufs_content bufs' = hd_bytes fh @ p @ q \<and>
    nghttp2_buf_avail (head_buf bufs') + length p + length q = nghttp2_buf_avail (head_buf bufs)"
proof -
  obtain b c where b: "buf_pack_hd fh (head_buf bufs) = Some b" "buf_ok b" "nghttp2_buf_avail b = nghttp2_buf_avail (head_buf bufs)"
    "buf_put b p = Some c" "bufs_inv (set_head bufs c)" "cur (set_head bufs c) = 0"
    "bufs_content (set_head bufs c) = hd_bytes fh @ p"
    "nghttp2_buf_avail (head_buf (set_head bufs c)) + length p = nghttp2_buf_avail (head_buf bufs)"
    using pack_then_put [OF f, of p fh] n by auto
  then have q: "length q \<le> nghttp2_buf_avail (head_buf (set_head bufs c))" using n by simp
  show ?thesis using add_after_head [OF b(5,6) q] b by auto
qed

interpretation goaway: frame_codec goaway_ok goaway_hd goaway_bytes nghttp2_frame_pack_goaway
  "\<lambda>g f. goaway_hd g = goaway_hd f \<and> goaway_reserved g = goaway_reserved f" nghttp2_frame_unpack_goaway_payload2
proof unfold_locales
  fix f bufs assume f: "goaway_ok f" "fresh_chain bufs" "length (goaway_bytes f) \<le> nghttp2_buf_avail (head_buf bufs)"
  let ?l = "uint32be_bytes (word_of_int (goaway_last_stream_id f))" and ?e = "uint32be_bytes (goaway_error_code f)"
  obtain b c bufs' where c: "buf_pack_hd (goaway_hd f) (head_buf bufs) = Some b" "buf_ok b"
    "nghttp2_buf_avail b = nghttp2_buf_avail (head_buf bufs)" "buf_put b (?l @ ?e) = Some c"
    "nghttp2_bufs_add (set_head bufs c) (goaway_opaque_data f) = Some (0, bufs')"
    "bufs_inv bufs'" "cur bufs' = 0" "bufs_content bufs' = hd_bytes (goaway_hd f) @ (?l @ ?e) @ goaway_opaque_data f"
    using pack_put_add [OF f(2), of "?l @ ?e" "goaway_opaque_data f" "goaway_hd f"] f(3) by (auto simp: goaway_bytes_def)
  have "(buf_put b ?l \<bind> (\<lambda>b. buf_put b ?e)) = Some c"
    using buf_put_append [OF c(2), of ?l ?e] c(3,4) f(3) by (simp add: goaway_bytes_def)
  then obtain y where "buf_put b ?l = Some y" "buf_put y ?e = Some c" by (auto simp: bind_eq_Some_conv)
  then have "nghttp2_frame_pack_goaway bufs f = Some (0, bufs')"
    using c fresh_chainD(2) [OF f(2)] by (simp add: nghttp2_frame_pack_goaway_def ng_defs)
  then show "\<exists>bufs'. nghttp2_frame_pack_goaway bufs f = Some (0, bufs') \<and> bufs_inv bufs' \<and> cur bufs' = 0 \<and>
      bufs_content bufs' = hd_bytes (goaway_hd f) @ goaway_bytes f"
    using c(6-8) by (simp add: goaway_bytes_def)
next
  fix f g :: nghttp2_goaway and al :: allocator
  assume f: "goaway_ok f" "goaway_hd g = goaway_hd f \<and> goaway_reserved g = goaway_reserved f" "\<forall>n. mem_ok al n"
  have "rd32 (goaway_bytes f) 4 = Some (goaway_error_code f)"
    by (simp add: rd32_def goaway_bytes_def)
  then show "nghttp2_frame_unpack_goaway_payload2 al g (goaway_bytes f) = Some (0, f)"
    using f by (simp add: nghttp2_frame_unpack_goaway_payload2_def nghttp2_frame_unpack_goaway_payload_def Let_def goaway_ok_def)
      (simp add: goaway_bytes_def)
qed (simp add: goaway_ok_def goaway_bytes_def)

subsection \<open>Extension frames\<close>

definition altsvc_bytes :: "nghttp2_ext_altsvc nghttp2_extension \<Rightarrow> bytes" where
  "altsvc_bytes f = uint16be_bytes (of_nat (length (altsvc_origin (ext_payload f)))) @
     altsvc_origin (ext_payload f) @ altsvc_field_value (ext_payload f)"

definition altsvc_ok :: "nghttp2_ext_altsvc nghttp2_extension \<Rightarrow> bool" where
  "altsvc_ok f \<longleftrightarrow> fh_ok (ext_hd f) \<and> fh_length (ext_hd f) = length (altsvc_bytes f) \<and> length (altsvc_origin (ext_payload f)) < 2 ^ 16"

lemma unat_len16: "n < 2 ^ 16 \<Longrightarrow> unat (of_nat n :: u16) = n"
  by (simp add: unsigned_of_nat take_bit_nat_eq_self)

interpretation altsvc: frame_codec altsvc_ok ext_hd altsvc_bytes "no_rc nghttp2_frame_pack_altsvc"
  "\<lambda>g f. ext_hd g = ext_hd f" nghttp2_frame_unpack_altsvc_payload2
proof unfold_locales
  fix f bufs assume f: "altsvc_ok f" "fresh_chain bufs" "length (altsvc_bytes f) \<le> nghttp2_buf_avail (head_buf bufs)"
  let ?n = "uint16be_bytes (of_nat (length (altsvc_origin (ext_payload f))))"
    and ?og = "altsvc_origin (ext_payload f)" and ?fv = "altsvc_field_value (ext_payload f)"
  have n: "2 + length ?og + length ?fv \<le> nghttp2_buf_avail (head_buf bufs)" using f(3) by (simp add: altsvc_bytes_def)
  obtain b c b1 where c: "buf_pack_hd (ext_hd f) (head_buf bufs) = Some b" "buf_put b ?n = Some c"
    "nghttp2_bufs_add (set_head bufs c) ?og = Some (0, b1)" "bufs_inv b1" "cur b1 = 0" "bufs_content b1 = hd_bytes (ext_hd f) @ ?n @ ?og"
    "nghttp2_buf_avail (head_buf b1) + length ?n + length ?og = nghttp2_buf_avail (head_buf bufs)"
    using pack_put_add [OF f(2), of ?n ?og "ext_hd f"] n by auto
  obtain b2 where b2: "nghttp2_bufs_add b1 ?fv = Some (0, b2)" "bufs_inv b2" "cur b2 = 0" "bufs_content b2 = bufs_content b1 @ ?fv"
    using add_after_head [OF c(4,5), of ?fv] c(7) n by auto
  have "nghttp2_frame_pack_altsvc bufs f = Some b2"
    using n c(1-3) b2(1) by (simp add: nghttp2_frame_pack_altsvc_def Let_def)
  then show "\<exists>bufs'. no_rc nghttp2_frame_pack_altsvc bufs f = Some (0, bufs') \<and> bufs_inv bufs' \<and> cur bufs' = 0 \<and>
      bufs_content bufs' = hd_bytes (ext_hd f) @ altsvc_bytes f"
    using c(6) b2 by (simp add: no_rc_def altsvc_bytes_def)
next
  fix f g :: "nghttp2_ext_altsvc nghttp2_extension" and al :: allocator
  assume f: "altsvc_ok f" "ext_hd g = ext_hd f" "\<forall>n. mem_ok al n"
  have "rd16 (altsvc_bytes f) 0 = Some (of_nat (length (altsvc_origin (ext_payload f))))"
    by (simp add: rd16_def altsvc_bytes_def)
  then show "nghttp2_frame_unpack_altsvc_payload2 al g (altsvc_bytes f) = Some (0, f)"
    using f by (simp add: nghttp2_frame_unpack_altsvc_payload2_def nghttp2_frame_unpack_altsvc_payload_def altsvc_ok_def unat_len16)
      (simp add: altsvc_bytes_def)
qed (simp add: altsvc_ok_def)

definition pu_bytes :: "nghttp2_ext_priority_update nghttp2_extension \<Rightarrow> bytes" where
  "pu_bytes f = uint32be_bytes (word_of_int (pu_stream_id (ext_payload f))) @ pu_field_value (ext_payload f)"

definition pu_ok :: "nghttp2_ext_priority_update nghttp2_extension \<Rightarrow> bool" where
  "pu_ok f \<longleftrightarrow> fh_ok (ext_hd f) \<and> fh_length (ext_hd f) = length (pu_bytes f) \<and>
     0 \<le> pu_stream_id (ext_payload f) \<and> pu_stream_id (ext_payload f) < 2 ^ 31"

interpretation pu: frame_codec pu_ok ext_hd pu_bytes "no_rc nghttp2_frame_pack_priority_update"
  "\<lambda>g f. ext_hd g = ext_hd f" "\<lambda>al. no_rc nghttp2_frame_unpack_priority_update_payload"
proof unfold_locales
  fix f bufs assume f: "pu_ok f" "fresh_chain bufs" "length (pu_bytes f) \<le> nghttp2_buf_avail (head_buf bufs)"
  let ?n = "uint32be_bytes (word_of_int (pu_stream_id (ext_payload f)))" and ?fv = "pu_field_value (ext_payload f)"
  have n: "4 + length ?fv \<le> nghttp2_buf_avail (head_buf bufs)" using f(3) by (simp add: pu_bytes_def)
  show "\<exists>bufs'. no_rc nghttp2_frame_pack_priority_update bufs f = Some (0, bufs') \<and> bufs_inv bufs' \<and> cur bufs' = 0 \<and>
      bufs_content bufs' = hd_bytes (ext_hd f) @ pu_bytes f"
    using pack_put_add [OF f(2), of ?n ?fv "ext_hd f"] n
    by (auto simp: no_rc_def nghttp2_frame_pack_priority_update_def pu_bytes_def Let_def)
next
  fix f g :: "nghttp2_ext_priority_update nghttp2_extension" and al :: allocator
  assume "pu_ok f" "ext_hd g = ext_hd f"
  then show "no_rc nghttp2_frame_unpack_priority_update_payload g (pu_bytes f) = Some (0, f)"
    by (simp add: no_rc_def nghttp2_frame_unpack_priority_update_payload_def pu_ok_def pu_bytes_def)
qed (simp add: pu_ok_def)

subsection \<open>ORIGIN\<close>

definition origin_bytes :: "bytes \<Rightarrow> bytes" where
  "origin_bytes og = uint16be_bytes (of_nat (length og)) @ og"

definition ov_bytes :: "bytes list \<Rightarrow> bytes" where
  "ov_bytes ov = concat (map origin_bytes ov)"

lemma ov_bytes_simps [simp]: "ov_bytes [] = []" "ov_bytes (og # ov) = origin_bytes og @ ov_bytes ov"
  by (simp_all add: ov_bytes_def)

lemma length_origin_bytes [simp]: "length (origin_bytes og) = 2 + length og"
  by (simp add: origin_bytes_def)

lemma pack_origin_loop_eq:
  "buf_ok b \<Longrightarrow> length (ov_bytes ov) \<le> nghttp2_buf_avail b \<Longrightarrow> pack_origin_loop ov b = buf_put b (ov_bytes ov)"
proof (induction ov arbitrary: b)
  case Nil
  then show ?case by (simp add: buf_put_def)
next
  case (Cons og ov)
  let ?n = "uint16be_bytes (of_nat (length og))"
  have n: "length (origin_bytes og) + length (ov_bytes ov) \<le> nghttp2_buf_avail b" using Cons.prems by simp
  then obtain c where c: "buf_put b (origin_bytes og) = Some c" "buf_ok c" "nghttp2_buf_avail c + length (origin_bytes og) = nghttp2_buf_avail b"
    using buf_put_ok [OF Cons.prems(1), of "origin_bytes og"] by auto
  have "(buf_put b ?n \<bind> (\<lambda>b. buf_put b og)) = Some c"
    using buf_put_append [OF Cons.prems(1), of ?n og] n c(1) by (simp add: origin_bytes_def)
  then have "pack_origin_loop (og # ov) b = pack_origin_loop ov c" by (auto simp: bind_eq_Some_conv)
  also have "\<dots> = buf_put c (ov_bytes ov)" using c n by (intro Cons.IH) auto
  also have "\<dots> = buf_put b (ov_bytes (og # ov))" using buf_put_append [OF Cons.prems(1) n] c(1) by simp
  finally show ?case .
qed

text \<open>What a payload says: the origins with their lengths, empty ones included, if it is well formed.\<close>

function parse_origins :: "bytes \<Rightarrow> bytes list option" where
  "parse_origins p =
     (if p = [] then Some []
      else if length p < 2 then None
      else
        let n = unat (nghttp2_get_uint16 p)
        in if length p < 2 + n then None
           else do { ov \<leftarrow> parse_origins (drop (2 + n) p); Some (take n (drop 2 p) # ov) })"
  by pat_completeness auto
termination by (relation "measure length") auto

declare parse_origins.simps [simp del]

lemma parse_origins_Nil [simp]: "parse_origins [] = Some []" "origin_fill_loop [] nov len = Some []" "origin_count_loop [] nov len = Inr (nov, len)"
  by (simp_all add: parse_origins.simps origin_fill_loop.simps origin_count_loop.simps)

lemma parse_origins_bytes: "\<forall>og \<in> set ov. length og < 2 ^ 16 \<Longrightarrow> parse_origins (ov_bytes ov) = Some ov"
proof (induction ov)
  case Nil
  show ?case by (simp add: parse_origins.simps)
next
  case (Cons og ov)
  have "unat (nghttp2_get_uint16 (ov_bytes (og # ov))) = length og"
    using Cons.prems by (simp add: origin_bytes_def unat_len16)
  moreover have "ov_bytes (og # ov) \<noteq> []" "\<not> length (ov_bytes (og # ov)) < 2 + length og"
    by (simp_all add: origin_bytes_def uint16be_bytes_def)
  moreover have "drop (2 + length og) (ov_bytes (og # ov)) = ov_bytes ov" "take (length og) (drop 2 (ov_bytes (og # ov))) = og"
    by (simp_all add: origin_bytes_def)
  ultimately show ?case using Cons by (subst parse_origins.simps) (simp add: Let_def)
qed

definition nonempty_origins :: "bytes list \<Rightarrow> bytes list" where
  "nonempty_origins ov = filter (\<lambda>og. og \<noteq> []) ov"

definition origins_size :: "bytes list \<Rightarrow> nat" where
  "origins_size ov = sum_list (map (\<lambda>og. length og + 1) ov)"

lemma origin_count_eq:
  "origin_count_loop p nov len =
     (case parse_origins p of
        None \<Rightarrow> Inl NGHTTP2_ERR_FRAME_SIZE_ERROR
      | Some ov \<Rightarrow> Inr (nov + length (nonempty_origins ov), len + origins_size (nonempty_origins ov)))"
proof (induction p nov len rule: origin_count_loop.induct)
  case (1 p nov len)
  let ?n = "unat (nghttp2_get_uint16 p)"
  consider "p = []" | "p \<noteq> []" "length p < 2" | "2 \<le> length p" "?n = 0" | "2 \<le> length p" "0 < ?n" "length p < 2 + ?n"
    | "2 \<le> length p" "0 < ?n" "2 + ?n \<le> length p" by linarith
  then show ?case
  proof cases
    case 3
    then have p: "p \<noteq> []" "\<not> length p < 2" by auto
    have "origin_count_loop p nov len = origin_count_loop (drop 2 p) nov len"
      using 3 p by (subst origin_count_loop.simps) (simp add: Let_def)
    also have "\<dots> = (case parse_origins (drop 2 p) of None \<Rightarrow> Inl NGHTTP2_ERR_FRAME_SIZE_ERROR
        | Some ov \<Rightarrow> Inr (nov + length (nonempty_origins ov), len + origins_size (nonempty_origins ov)))"
      using 1(1) [OF p refl refl] 3 by simp
    also have "\<dots> = (case parse_origins p of None \<Rightarrow> Inl NGHTTP2_ERR_FRAME_SIZE_ERROR
        | Some ov \<Rightarrow> Inr (nov + length (nonempty_origins ov), len + origins_size (nonempty_origins ov)))"
      using 3 p by (subst (2) parse_origins.simps) (simp add: Let_def nonempty_origins_def split: option.split)
    finally show ?thesis .
  next
    case 5
    then have p: "p \<noteq> []" "\<not> length p < 2" "\<not> length p - 2 < ?n" by auto
    have "origin_count_loop p nov len = origin_count_loop (drop (2 + ?n) p) (nov + 1) (len + (?n + 1))"
      using 5 p by (subst origin_count_loop.simps) (simp add: Let_def add.commute)
    also have "\<dots> = (case parse_origins (drop (2 + ?n) p) of None \<Rightarrow> Inl NGHTTP2_ERR_FRAME_SIZE_ERROR
        | Some ov \<Rightarrow> Inr (nov + 1 + length (nonempty_origins ov), len + (?n + 1) + origins_size (nonempty_origins ov)))"
      using 1(2) [OF p(1,2) refl refl] 5 by (simp add: add.commute)
    also have "\<dots> = (case parse_origins p of None \<Rightarrow> Inl NGHTTP2_ERR_FRAME_SIZE_ERROR
        | Some ov \<Rightarrow> Inr (nov + length (nonempty_origins ov), len + origins_size (nonempty_origins ov)))"
      using 5 p by (subst (2) parse_origins.simps) (simp add: Let_def nonempty_origins_def origins_size_def split: option.split)
    finally show ?thesis .
  qed (auto simp: origin_count_loop.simps [of p] parse_origins.simps [of p] nonempty_origins_def origins_size_def Let_def)
qed

lemma origin_fill_eq:
  "parse_origins p = Some ov \<Longrightarrow> length (nonempty_origins ov) \<le> nov \<Longrightarrow> origins_size (nonempty_origins ov) \<le> len \<Longrightarrow>
   origin_fill_loop p nov len = Some (nonempty_origins ov)"
proof (induction p nov len arbitrary: ov rule: origin_fill_loop.induct)
  case (1 p nov len)
  let ?n = "unat (nghttp2_get_uint16 p)"
  show ?case
  proof (cases "p = []")
    case True
    then show ?thesis using 1(3) by (auto simp: nonempty_origins_def)
  next
    case False
    then obtain os where p: "\<not> length p < 2" "2 + ?n \<le> length p" "parse_origins (drop (2 + ?n) p) = Some os"
      "ov = take ?n (drop 2 p) # os"
      using 1(3) by (subst (asm) parse_origins.simps) (auto simp: Let_def bind_eq_Some_conv split: if_splits)
    show ?thesis
    proof (cases "?n = 0")
      case True
      have "origin_fill_loop (drop 2 p) nov len = Some (nonempty_origins os)"
        using 1(1) [OF False p(1) refl refl] True p 1(4,5) by (simp add: nonempty_origins_def)
      then show ?thesis using False p True by (subst origin_fill_loop.simps) (simp add: Let_def nonempty_origins_def)
    next
      case n: False
      then have t: "nonempty_origins ov = take ?n (drop 2 p) # nonempty_origins os" and l: "length (take ?n (drop 2 p)) = ?n"
        using p by (auto simp: nonempty_origins_def)
      then have r: "1 + length (nonempty_origins os) \<le> nov" "?n + 1 + origins_size (nonempty_origins os) \<le> len"
        using 1(4,5) by (simp_all add: origins_size_def)
      have g: "nov \<noteq> 0" "\<not> len < ?n + 1" "\<not> length p - 2 < ?n" using r p(2) by auto
      have "origin_fill_loop (drop (2 + ?n) p) (nov - 1) (len - (?n + 1)) = Some (nonempty_origins os)"
        using 1(2) [OF False p(1) refl refl, of os] n g p(3) r by (simp add: add.commute)
      then show ?thesis using False p(1) n g t
        by (subst origin_fill_loop.simps) (simp add: Let_def add.commute)
    qed
  qed
qed

lemma unpack_origin_eq:
  "nghttp2_frame_unpack_origin_payload al frame payload =
     (case parse_origins payload of
        None \<Rightarrow> Some (NGHTTP2_ERR_FRAME_SIZE_ERROR, frame)
      | Some ov \<Rightarrow>
          if nonempty_origins ov = [] \<or> mem_ok al (origins_size (nonempty_origins ov) + length (nonempty_origins ov) * 16)
          then Some (0, frame\<lparr>ext_payload := \<lparr>origin_ov = nonempty_origins ov\<rparr>\<rparr>)
          else Some (NGHTTP2_ERR_NOMEM, frame))"
  using origin_fill_eq [of payload] origin_count_eq [of payload 0 0]
  by (auto simp: nghttp2_frame_unpack_origin_payload_def split: option.split)

definition origin_ok :: "nghttp2_ext_origin nghttp2_extension \<Rightarrow> bool" where
  "origin_ok f \<longleftrightarrow> fh_ok (ext_hd f) \<and> fh_length (ext_hd f) = length (ov_bytes (origin_ov (ext_payload f))) \<and>
     (\<forall>og \<in> set (origin_ov (ext_payload f)). og \<noteq> [] \<and> length og < 2 ^ 16)"

interpretation origin: frame_codec origin_ok ext_hd "\<lambda>f. ov_bytes (origin_ov (ext_payload f))"
  nghttp2_frame_pack_origin "\<lambda>g f. ext_hd g = ext_hd f" nghttp2_frame_unpack_origin_payload
proof unfold_locales
  fix f bufs assume f: "origin_ok f" "fresh_chain bufs" "length (ov_bytes (origin_ov (ext_payload f))) \<le> nghttp2_buf_avail (head_buf bufs)"
  then obtain b c where c: "buf_pack_hd (ext_hd f) (head_buf bufs) = Some b" "buf_ok b"
    "length (ov_bytes (origin_ov (ext_payload f))) \<le> nghttp2_buf_avail b" "buf_put b (ov_bytes (origin_ov (ext_payload f))) = Some c"
    "nghttp2_buf_len c = 9 + length (ov_bytes (origin_ov (ext_payload f)))"
    "bufs_inv (set_head bufs c)" "cur (set_head bufs c) = 0"
    "bufs_content (set_head bufs c) = hd_bytes (ext_hd f) @ ov_bytes (origin_ov (ext_payload f))"
    using pack_then_put [OF f(2), of "ov_bytes (origin_ov (ext_payload f))" "ext_hd f"] by auto
  have "nghttp2_frame_pack_origin bufs f = Some (0, set_head bufs c)"
    using f c(1,4,5) pack_origin_loop_eq [OF c(2,3)] by (simp add: nghttp2_frame_pack_origin_def ng_defs origin_ok_def)
  then show "\<exists>bufs'. nghttp2_frame_pack_origin bufs f = Some (0, bufs') \<and> bufs_inv bufs' \<and> cur bufs' = 0 \<and>
      bufs_content bufs' = hd_bytes (ext_hd f) @ ov_bytes (origin_ov (ext_payload f))"
    using c(6-8) by simp
next
  fix f g :: "nghttp2_ext_origin nghttp2_extension" and al :: allocator
  assume f: "origin_ok f" "ext_hd g = ext_hd f" "\<forall>n. mem_ok al n"
  then have "nonempty_origins (origin_ov (ext_payload f)) = origin_ov (ext_payload f)"
    by (simp add: origin_ok_def nonempty_origins_def filter_id_conv)
  moreover have "parse_origins (ov_bytes (origin_ov (ext_payload f))) = Some (origin_ov (ext_payload f))"
    using f by (intro parse_origins_bytes) (simp add: origin_ok_def)
  ultimately show "nghttp2_frame_unpack_origin_payload al g (ov_bytes (origin_ov (ext_payload f))) = Some (0, f)"
    using f by (simp add: unpack_origin_eq)
qed (simp add: origin_ok_def)

subsection \<open>Padding\<close>

lemma write_at_append: "write_at (length pre + k) bs (pre @ ys) = pre @ write_at k bs ys"
  by (simp add: write_at_def add.assoc)

lemma mem_put_append: "mem_put (length pre + k) bs (pre @ ys) = map_option ((@) pre) (mem_put k bs ys)"
  by (simp add: mem_put_def write_at_append)

lemma len_type_bytes:
  assumes "n < 2 ^ 24"
  shows "uint32be_bytes (of_nat (push_bit 8 n + unat t)) = take 3 (uint32be_bytes (of_nat (push_bit 8 n))) @ [t :: u8]"
proof -
  let ?w = "of_nat (push_bit 8 n) :: u32"
  have t: "unat t < 2 ^ 8" using unat_less_exp [of t] by simp
  have "n * 2 ^ 8 OR unat t = n * 2 ^ 8 + unat t" using or_disjoint_nat [OF t, of n] .
  then have "push_bit 8 n + unat t = push_bit 8 n OR unat t" by (simp add: push_bit_eq_mult)
  then have w: "(of_nat (push_bit 8 n + unat t) :: u32) = push_bit 8 (of_nat n) OR ucast t"
    by (simp add: of_nat_or_eq of_nat_push_bit del: of_nat_add)
  have v: "?w = push_bit 8 (of_nat n)" by (simp add: of_nat_push_bit)
  show ?thesis unfolding w v uint32be_bytes_def
    by (auto intro!: u8_bit_eqI simp: bit_simps)
qed

text \<open>The header of the padded frame.\<close>

definition padded_hd :: "nghttp2_frame_hd \<Rightarrow> nat \<Rightarrow> nghttp2_frame_hd" where
  "padded_hd fh padlen = fh\<lparr>fh_length := fh_length fh + padlen, fh_flags := fh_flags fh OR NGHTTP2_FLAG_PADDED\<rparr>"

lemma frame_set_pad_layout:
  assumes m: "buf_mem b = pre @ x # hd_bytes fh @ rest" "buf_pos b = Suc (length pre)"
    and ok: "fh_ok fh" "fh_length fh + padlen < 2 ^ 24"
  shows "\<exists>y. frame_set_pad b padlen True = Some (b\<lparr>buf_pos := length pre, buf_mem := pre @ hd_bytes (padded_hd fh padlen) @ y # rest\<rparr>) \<and>
    frame_set_pad b padlen False = buf_put (b\<lparr>buf_pos := length pre,
      buf_mem := pre @ hd_bytes (padded_hd fh padlen) @ of_nat (padlen - 1) # rest\<rparr>) (replicate (padlen - 1) 0)"
proof -
  obtain l0 l1 l2 l3 where l: "uint32be_bytes (of_nat (push_bit 8 (fh_length fh))) = [l0, l1, l2, l3]"
    by (simp add: uint32be_bytes_def)
  obtain k0 k1 k2 k3 where k: "uint32be_bytes (of_nat (push_bit 8 (fh_length fh + padlen))) = [k0, k1, k2, k3]"
    by (simp add: uint32be_bytes_def)
  obtain s0 s1 s2 s3 where s: "uint32be_bytes (word_of_int (fh_stream_id fh)) = [s0, s1, s2, s3]"
    by (simp add: uint32be_bytes_def)
  have h: "hd_bytes fh = [l0, l1, l2, fh_type fh, fh_flags fh, s0, s1, s2, s3]"
    unfolding hd_bytes_def l s by simp
  have h': "hd_bytes (padded_hd fh padlen) = [k0, k1, k2, fh_type fh, fh_flags fh OR NGHTTP2_FLAG_PADDED, s0, s1, s2, s3]"
    unfolding hd_bytes_def padded_hd_def by (simp add: k s del: push_bit_nat_eq of_nat_add of_nat_push_bit)
  have len: "unat (drop_bit 8 (nghttp2_get_uint32 (l0 # l1 # l2 # z # r))) = fh_length fh" for z r
    using get_uint32_len [of "of_nat (push_bit 8 (fh_length fh))" z r] l ok unat_len24 [of "fh_length fh"]
    by (simp add: fh_ok_def del: of_nat_push_bit)
  have kt: "uint32be_bytes (of_nat (push_bit 8 (fh_length fh + padlen) + unat (fh_type fh))) = [k0, k1, k2, fh_type fh]"
    using len_type_bytes [OF ok(2), of "fh_type fh"] k by simp
  let ?t = "[s0, s1, s2, s3]" and ?f = "fh_flags fh OR NGHTTP2_FLAG_PADDED"
  define m1 where "m1 = pre @ [l0, l1, l2, fh_type fh, fh_flags fh, s0, s1, s2, s3, s3] @ rest"
  define m2 where "m2 = pre @ [l0, l1, l2, fh_type fh, ?f, s0, s1, s2, s3, s3] @ rest"
  define m3 where "m3 = pre @ [k0, k1, k2, fh_type fh, ?f, s0, s1, s2, s3, s3] @ rest"
  have e1: "mem_put (length pre) (take 9 (drop (buf_pos b) (buf_mem b))) (buf_mem b) = Some m1"
    by (simp add: m h m1_def mem_put_def write_at_def)
  have e2: "mem_put (length pre + 4) [m1 ! (length pre + 4) OR NGHTTP2_FLAG_PADDED] m1 = Some m2"
    by (simp add: m1_def m2_def mem_put_def write_at_def nth_append)
  have e3: "unat (drop_bit 8 (nghttp2_get_uint32 (drop (length pre) m2))) = fh_length fh" "m2 ! (length pre + 3) = fh_type fh"
    using len by (simp_all add: m2_def nth_append)
  have e4: "mem_put (length pre) (uint32be_bytes (of_nat (push_bit 8 (fh_length fh + padlen) + unat (fh_type fh)))) m2 = Some m3"
    unfolding kt by (simp add: m2_def m3_def mem_put_def write_at_def)
  have e5: "mem_put (length pre + 9) [of_nat (padlen - 1)] m3 = Some (pre @ hd_bytes (padded_hd fh padlen) @ of_nat (padlen - 1) # rest)"
    unfolding h' by (simp add: m3_def mem_put_def write_at_def)
  have e6: "m3 = pre @ hd_bytes (padded_hd fh padlen) @ s3 # rest" unfolding h' m3_def by simp
  have g: "\<not> (buf_pos b = 0 \<or> length (buf_mem b) < buf_pos b + 9)" "buf_pos b - 1 = length pre" by (simp_all add: m)
  have s: "frame_set_pad b padlen fo = (if fo then Some (b\<lparr>buf_pos := length pre, buf_mem := m3\<rparr>)
      else buf_put (b\<lparr>buf_pos := length pre, buf_mem := pre @ hd_bytes (padded_hd fh padlen) @ of_nat (padlen - 1) # rest\<rparr>) (replicate (padlen - 1) 0))" for fo
    unfolding frame_set_pad_def NGHTTP2_FRAME_HDLEN_def if_not_P [OF g(1)] g(2) Let_def e1 bind.bind_lunit e2 e3 e4 using e5 by simp
  show ?thesis by (rule exI [of _ s3]) (simp add: s e6)
qed

lemma frame_set_pad_ok:
  assumes ok: "buf_ok b" "1 \<le> buf_pos b" "buf_bytes b = hd_bytes fh @ payload" "fh_ok fh"
    and n: "fh_length fh + padlen < 2 ^ 24" "padlen - 1 \<le> nghttp2_buf_avail b"
  shows "\<exists>c. frame_set_pad b padlen False = Some c \<and> buf_ok c \<and>
      buf_bytes c = hd_bytes (padded_hd fh padlen) @ [of_nat (padlen - 1)] @ payload @ replicate (padlen - 1) 0"
    and "\<exists>c. frame_set_pad b padlen True = Some c \<and> buf_ok c \<and> take 9 (buf_bytes c) = hd_bytes (padded_hd fh padlen)"
proof -
  let ?pre = "take (buf_pos b - 1) (buf_mem b)"
  have o: "buf_pos b \<le> buf_last b" "buf_last b \<le> length (buf_mem b)" using ok(1) by (simp_all add: buf_ok_def)
  have "length (buf_bytes b) = buf_last b - buf_pos b" using o by (simp add: buf_bytes_def nghttp2_buf_len_def)
  then have l: "buf_last b = buf_pos b + 9 + length payload" using ok(3) o(1) by simp
  obtain rest where d: "drop (buf_pos b) (buf_mem b) = hd_bytes fh @ payload @ rest"
    using ok(3) append_take_drop_id [of "nghttp2_buf_len b" "drop (buf_pos b) (buf_mem b)"] by (metis append.assoc buf_bytes_def)
  have "drop (buf_pos b - 1) (buf_mem b) = buf_mem b ! (buf_pos b - 1) # drop (buf_pos b) (buf_mem b)"
    using ok(2) o l by (simp add: take_Suc_drop)
  then have m: "buf_mem b = ?pre @ buf_mem b ! (buf_pos b - 1) # hd_bytes fh @ payload @ rest"
    using append_take_drop_id [of "buf_pos b - 1" "buf_mem b"] d by simp
  have p: "buf_pos b = Suc (length ?pre)" "length ?pre = buf_pos b - 1" using ok(2) o l by simp_all
  obtain y where y: "frame_set_pad b padlen True = Some (b\<lparr>buf_pos := length ?pre, buf_mem := ?pre @ hd_bytes (padded_hd fh padlen) @ y # payload @ rest\<rparr>)"
    "frame_set_pad b padlen False = buf_put (b\<lparr>buf_pos := length ?pre,
      buf_mem := ?pre @ hd_bytes (padded_hd fh padlen) @ of_nat (padlen - 1) # payload @ rest\<rparr>) (replicate (padlen - 1) 0)"
    using frame_set_pad_layout [OF m p(1) ok(4) n(1)] by blast
  have lm: "length (buf_mem b) = buf_pos b + 9 + length payload + length rest" by (subst m) (use p in simp)
  define c where "c z = b\<lparr>buf_pos := length ?pre, buf_mem := ?pre @ hd_bytes (padded_hd fh padlen) @ z # payload @ rest\<rparr>" for z
  have c: "buf_ok (c z)" "nghttp2_buf_avail (c z) = nghttp2_buf_avail b" for z
    using lm l p by (simp_all add: c_def buf_ok_def nghttp2_buf_avail_def)
  have cb: "buf_bytes (c z) = hd_bytes (padded_hd fh padlen) @ z # payload" for z
  proof -
    have k: "buf_last b - length ?pre = length (hd_bytes (padded_hd fh padlen) @ z # payload)" using l ok(2) p by simp
    have "buf_bytes (c z) = take (buf_last b - length ?pre) ((hd_bytes (padded_hd fh padlen) @ z # payload) @ rest)"
      unfolding buf_bytes_def nghttp2_buf_len_def c_def by simp
    then show ?thesis unfolding k by simp
  qed
  show "\<exists>c. frame_set_pad b padlen True = Some c \<and> buf_ok c \<and> take 9 (buf_bytes c) = hd_bytes (padded_hd fh padlen)"
    using y(1) c(1) cb by (intro exI [of _ "c y"]) (simp add: c_def)
  show "\<exists>c. frame_set_pad b padlen False = Some c \<and> buf_ok c \<and>
      buf_bytes c = hd_bytes (padded_hd fh padlen) @ [of_nat (padlen - 1)] @ payload @ replicate (padlen - 1) 0"
    using buf_put_ok [OF c(1), of "replicate (padlen - 1) 0" "of_nat (padlen - 1)"] n(2) c(2) cb y(2) unfolding c_def by auto
qed

subsection \<open>Properties\<close>

text \<open>
  C29.  Every control frame reaches the peer as it was sent.  A PRIORITY, RST_STREAM, SETTINGS,
  PING, GOAWAY or WINDOW_UPDATE frame whose fields are in range is packed on a fresh chain with
  room for it without a failed assertion or an error.  The chain then holds exactly a 9-byte header
  that decodes to the header of the frame and as many payload bytes as it says, and unpacking those
  into a frame with that header gives the frame back.
\<close>

theorem control_frames_roundtrip:
  assumes "fresh_chain bufs"
  shows "(priority_ok f1 \<and> fh_length (priority_hd f1) \<le> nghttp2_buf_avail (head_buf bufs) \<longrightarrow>
      transmits priority_hd (no_rc nghttp2_frame_pack_priority) (\<lambda>g f. priority_hd g = priority_hd f)
        (\<lambda>al. no_rc nghttp2_frame_unpack_priority_payload) bufs f1) \<and>
    (rst_ok f2 \<and> fh_length (rst_hd f2) \<le> nghttp2_buf_avail (head_buf bufs) \<longrightarrow>
      transmits rst_hd (no_rc nghttp2_frame_pack_rst_stream) (\<lambda>g f. rst_hd g = rst_hd f)
        (\<lambda>al. no_rc nghttp2_frame_unpack_rst_stream_payload) bufs f2) \<and>
    (settings_ok f3 \<and> fh_length (settings_hd f3) \<le> nghttp2_buf_avail (head_buf bufs) \<longrightarrow>
      transmits settings_hd nghttp2_frame_pack_settings (\<lambda>g f. settings_hd g = settings_hd f) unpack_settings bufs f3) \<and>
    (ping_ok f4 \<and> fh_length (ping_hd f4) \<le> nghttp2_buf_avail (head_buf bufs) \<longrightarrow>
      transmits ping_hd (no_rc nghttp2_frame_pack_ping) (\<lambda>g f. ping_hd g = ping_hd f)
        (\<lambda>al. no_rc nghttp2_frame_unpack_ping_payload) bufs f4) \<and>
    (goaway_ok f5 \<and> fh_length (goaway_hd f5) \<le> nghttp2_buf_avail (head_buf bufs) \<longrightarrow>
      transmits goaway_hd nghttp2_frame_pack_goaway (\<lambda>g f. goaway_hd g = goaway_hd f \<and> goaway_reserved g = goaway_reserved f)
        nghttp2_frame_unpack_goaway_payload2 bufs f5) \<and>
    (wu_ok f6 \<and> fh_length (wu_hd f6) \<le> nghttp2_buf_avail (head_buf bufs) \<longrightarrow>
      transmits wu_hd (no_rc nghttp2_frame_pack_window_update) (\<lambda>g f. wu_hd g = wu_hd f \<and> wu_reserved g = wu_reserved f)
        (\<lambda>al. no_rc nghttp2_frame_unpack_window_update_payload) bufs f6)"
  using priority.roundtrip rst.roundtrip settings.roundtrip ping.roundtrip goaway.roundtrip wu.roundtrip assms by blast

text \<open>A chain as the session creates it: the head leaves room for a header and a pad length.\<close>

definition sample_chain :: nghttp2_bufs where
  "sample_chain = \<lparr>chain = [\<lparr>buf_mem = replicate 64 0, buf_pos = 10, buf_last = 10, buf_mark = 0\<rparr>], cur = 0,
     bufs_mem = \<lparr>mem_ok = \<lambda>_. True, mem_fill = \<lambda>_. 0\<rparr>, chunk_length = 64, max_chunk = 2, chunk_used = 1, chunk_keep = 1, offset = 10\<rparr>"

lemma sample_chain_fresh: "fresh_chain sample_chain" "nghttp2_buf_avail (head_buf sample_chain) = 54"
  by (auto simp: fresh_chain_def sample_chain_def bufs_inv_def head_buf_def nghttp2_buf_avail_def)

theorem control_frames_roundtrip_witness:
  "transmits settings_hd nghttp2_frame_pack_settings (\<lambda>g f. settings_hd g = settings_hd f) unpack_settings sample_chain
     (nghttp2_frame_settings_init 0 [\<lparr>settings_id = 3, settings_value = 100\<rparr>, \<lparr>settings_id = 4, settings_value = 65535\<rparr>]) \<and>
   transmits wu_hd (no_rc nghttp2_frame_pack_window_update) (\<lambda>g f. wu_hd g = wu_hd f \<and> wu_reserved g = wu_reserved f)
     (\<lambda>al. no_rc nghttp2_frame_unpack_window_update_payload) sample_chain (nghttp2_frame_window_update_init 0 1 65535)"
  using control_frames_roundtrip [OF sample_chain_fresh(1),
      where ?f3.0 = "nghttp2_frame_settings_init 0 [\<lparr>settings_id = 3, settings_value = 100\<rparr>, \<lparr>settings_id = 4, settings_value = 65535\<rparr>]"
        and ?f6.0 = "nghttp2_frame_window_update_init 0 1 65535"]
  by (simp add: sample_chain_fresh settings_ok_def wu_ok_def nghttp2_frame_settings_init_def nghttp2_frame_window_update_init_def
      nghttp2_frame_hd_init_def fh_ok_def setting_ok_def ng_defs)

text \<open>
  C32.  The extension frames ALTSVC, ORIGIN and PRIORITY_UPDATE reach the peer as they were
  sent, in the same sense.
\<close>

theorem extension_frames_roundtrip:
  assumes "fresh_chain bufs"
  shows "(altsvc_ok f1 \<and> fh_length (ext_hd f1) \<le> nghttp2_buf_avail (head_buf bufs) \<longrightarrow>
      transmits ext_hd (no_rc nghttp2_frame_pack_altsvc) (\<lambda>g f. ext_hd g = ext_hd f) nghttp2_frame_unpack_altsvc_payload2 bufs f1) \<and>
    (origin_ok f2 \<and> fh_length (ext_hd f2) \<le> nghttp2_buf_avail (head_buf bufs) \<longrightarrow>
      transmits ext_hd nghttp2_frame_pack_origin (\<lambda>g f. ext_hd g = ext_hd f) nghttp2_frame_unpack_origin_payload bufs f2) \<and>
    (pu_ok f3 \<and> fh_length (ext_hd f3) \<le> nghttp2_buf_avail (head_buf bufs) \<longrightarrow>
      transmits ext_hd (no_rc nghttp2_frame_pack_priority_update) (\<lambda>g f. ext_hd g = ext_hd f)
        (\<lambda>al. no_rc nghttp2_frame_unpack_priority_update_payload) bufs f3)"
  using altsvc.roundtrip origin.roundtrip pu.roundtrip assms by blast

theorem extension_frames_roundtrip_witness:
  "transmits ext_hd nghttp2_frame_pack_origin (\<lambda>g f. ext_hd g = ext_hd f) nghttp2_frame_unpack_origin_payload sample_chain
     (nghttp2_frame_origin_init [ascii ''https://a'', ascii ''https://b''])"
  using extension_frames_roundtrip [OF sample_chain_fresh(1), where ?f2.0 = "nghttp2_frame_origin_init [ascii ''https://a'', ascii ''https://b'']"]
  by (simp add: sample_chain_fresh origin_ok_def nghttp2_frame_origin_init_def nghttp2_frame_hd_init_def fh_ok_def)

text \<open>
  C30.  Reading an ORIGIN payload is exact and safe on every input.  The payload is refused with
  a frame size error, and the frame left alone, precisely when it is not a sequence of length-prefixed
  origins; otherwise the frame gets its non-empty origins in order, and the block whose size the
  first pass computes is large enough for everything that the second pass copies.
\<close>

theorem unpack_origin_exact:
  "nghttp2_frame_unpack_origin_payload al frame payload =
     (case parse_origins payload of
        None \<Rightarrow> Some (NGHTTP2_ERR_FRAME_SIZE_ERROR, frame)
      | Some ov \<Rightarrow>
          if nonempty_origins ov = [] \<or> mem_ok al (origins_size (nonempty_origins ov) + length (nonempty_origins ov) * 16)
          then Some (0, frame\<lparr>ext_payload := \<lparr>origin_ov = nonempty_origins ov\<rparr>\<rparr>)
          else Some (NGHTTP2_ERR_NOMEM, frame))"
  by (rule unpack_origin_eq)

text \<open>
  C31.  Padding moves the header and keeps the payload.  On a buffer that holds a frame and has a
  byte in front of it, the padded frame is the header with its length increased by the padding and
  the PADDED flag set, the number of trailing bytes, the payload untouched, and that many zeros;
  \<open>nghttp2_frame_trail_padlen\<close> returns the same number for it.  With \<open>framehd_only\<close> the header alone
  is rewritten.
\<close>

theorem frame_add_pad_layout:
  assumes "chain bufs \<noteq> []" "buf_ok (head_buf bufs)" "1 \<le> buf_pos (head_buf bufs)"
    "buf_bytes (head_buf bufs) = hd_bytes fh @ payload"
    and "fh_ok fh" "1 \<le> padlen" "fh_length fh + padlen < 2 ^ 24" "padlen - 1 \<le> nghttp2_buf_avail (head_buf bufs)"
  shows "\<exists>b b'. nghttp2_frame_add_pad bufs fh padlen False = Some (set_head bufs b, padded_hd fh padlen) \<and>
      nghttp2_frame_add_pad bufs fh padlen True = Some (set_head bufs b', padded_hd fh padlen) \<and>
      buf_bytes b = hd_bytes (padded_hd fh padlen) @ [of_nat (padlen - 1)] @ payload @ replicate (padlen - 1) 0 \<and>
      take 9 (buf_bytes b') = hd_bytes (padded_hd fh padlen) \<and>
      nghttp2_frame_trail_padlen (fh_flags (padded_hd fh padlen)) padlen = padlen - 1"
proof -
  have f: "(fh_flags fh OR NGHTTP2_FLAG_PADDED) AND NGHTTP2_FLAG_PADDED \<noteq> 0"
  proof -
    have "(x OR NGHTTP2_FLAG_PADDED) AND NGHTTP2_FLAG_PADDED = NGHTTP2_FLAG_PADDED" for x
      by (rule bit_word_eqI) (auto simp: bit_and_iff bit_or_iff)
    then show ?thesis by (simp add: NGHTTP2_FLAG_PADDED_def)
  qed
  obtain c where c: "frame_set_pad (head_buf bufs) padlen False = Some c"
    "buf_bytes c = hd_bytes (padded_hd fh padlen) @ [of_nat (padlen - 1)] @ payload @ replicate (padlen - 1) 0"
    using frame_set_pad_ok(1) [OF assms(2-5,7,8)] by blast
  obtain d where d: "frame_set_pad (head_buf bufs) padlen True = Some d" "take 9 (buf_bytes d) = hd_bytes (padded_hd fh padlen)"
    using frame_set_pad_ok(2) [OF assms(2-5,7,8)] by blast
  have "nghttp2_frame_trail_padlen (fh_flags (padded_hd fh padlen)) padlen = padlen - 1"
    using f assms(6) by (simp add: padded_hd_def nghttp2_frame_trail_padlen_def)
  moreover have "nghttp2_frame_add_pad bufs fh padlen fo = map_option (\<lambda>b. (set_head bufs b, padded_hd fh padlen)) (frame_set_pad (head_buf bufs) padlen fo)" for fo
    using assms(6,8) by (cases "frame_set_pad (head_buf bufs) padlen fo") (simp_all add: nghttp2_frame_add_pad_def padded_hd_def)
  ultimately show ?thesis using c d by (intro exI [of _ c] exI [of _ d]) simp
qed

theorem frame_add_pad_layout_witness:
  "\<exists>b. nghttp2_frame_add_pad
       (set_head sample_chain \<lparr>buf_mem = 0 # hd_bytes (nghttp2_frame_hd_init 2 NGHTTP2_DATA 1 5) @ [7, 9] @ replicate 8 255,
          buf_pos = 1, buf_last = 12, buf_mark = 0\<rparr>) (nghttp2_frame_hd_init 2 NGHTTP2_DATA 1 5) 4 False =
     Some (set_head (set_head sample_chain \<lparr>buf_mem = 0 # hd_bytes (nghttp2_frame_hd_init 2 NGHTTP2_DATA 1 5) @ [7, 9] @ replicate 8 255,
          buf_pos = 1, buf_last = 12, buf_mark = 0\<rparr>) b, nghttp2_frame_hd_init 6 NGHTTP2_DATA 9 5) \<and>
     buf_bytes b = hd_bytes (nghttp2_frame_hd_init 6 NGHTTP2_DATA 9 5) @ [3, 7, 9, 0, 0, 0]"
proof -
  let ?fh = "nghttp2_frame_hd_init 2 NGHTTP2_DATA 1 5"
  let ?h = "\<lparr>buf_mem = 0 # hd_bytes ?fh @ [7, 9] @ replicate 8 255, buf_pos = 1, buf_last = 12, buf_mark = 0\<rparr>"
  have h: "head_buf (set_head sample_chain ?h) = ?h" "chain (set_head sample_chain ?h) \<noteq> []"
    by (simp_all add: head_buf_def set_head_def sample_chain_def)
  have p: "padded_hd ?fh 4 = nghttp2_frame_hd_init 6 NGHTTP2_DATA 9 5"
    by (simp add: padded_hd_def nghttp2_frame_hd_init_def ng_defs)
  have "buf_bytes ?h = hd_bytes ?fh @ [7, 9]" "buf_ok ?h" "fh_ok ?fh" "nghttp2_buf_avail ?h = 8" "fh_length ?fh = 2"
    by (simp_all add: buf_bytes_def nghttp2_buf_len_def buf_ok_def fh_ok_def nghttp2_frame_hd_init_def nghttp2_buf_avail_def)
  then have "\<exists>b b'. nghttp2_frame_add_pad (set_head sample_chain ?h) ?fh 4 False = Some (set_head (set_head sample_chain ?h) b, padded_hd ?fh 4) \<and>
      nghttp2_frame_add_pad (set_head sample_chain ?h) ?fh 4 True = Some (set_head (set_head sample_chain ?h) b', padded_hd ?fh 4) \<and>
      buf_bytes b = hd_bytes (padded_hd ?fh 4) @ [of_nat (4 - 1)] @ [7, 9] @ replicate (4 - 1) 0 \<and>
      take 9 (buf_bytes b') = hd_bytes (padded_hd ?fh 4) \<and> nghttp2_frame_trail_padlen (fh_flags (padded_hd ?fh 4)) 4 = 4 - 1"
    using h by (intro frame_add_pad_layout) simp_all
  moreover have "[of_nat (4 - 1)] @ [7, 9] @ replicate (4 - 1) 0 = ([3, 7, 9, 0, 0, 0] :: bytes)" by (simp add: numeral_eq_Suc)
  ultimately show ?thesis unfolding p by metis
qed

end
