(* ===== verification/Frame_Headers.thy ===== *)
theory Frame_Headers
  imports Frame Hpack
begin

text \<open>
  HEADERS and PUSH_PROMISE of \<open>nghttp2_frame.c\<close>: the field block is compressed into the chain behind
  the fixed part of the payload, and each buffer that was needed becomes a frame, the first of the
  type asked for and the others CONTINUATION.
\<close>

subsection \<open>Packing\<close>

text \<open>The header of the frame in the \<open>i\<close>-th buffer, with the length that the buffer holds.\<close>

definition pack_hd_at :: "nghttp2_bufs \<Rightarrow> nat \<Rightarrow> nghttp2_frame_hd \<Rightarrow> nghttp2_bufs option" where
  "pack_hd_at bufs i fh =
     do { b \<leftarrow> buf_pack_hd (fh\<lparr>fh_length := nghttp2_buf_len (chain bufs ! i)\<rparr>) (chain bufs ! i);
          Some (bufs\<lparr>chain := (chain bufs)[i := b]\<rparr>) }"

text \<open>The loop over the \<open>n\<close> buffers between the first and the current one.\<close>

fun continuation_loop :: "nghttp2_bufs \<Rightarrow> nghttp2_frame_hd \<Rightarrow> nat \<Rightarrow> nat \<Rightarrow> nghttp2_bufs option" where
  "continuation_loop bufs fh i 0 = Some bufs"
| "continuation_loop bufs fh i (Suc n) =
     do { bufs \<leftarrow> pack_hd_at bufs i fh; continuation_loop bufs fh (i + 1) n }"

definition frame_pack_headers_shared :: "nghttp2_bufs \<Rightarrow> nghttp2_frame_hd \<Rightarrow> nghttp2_bufs option" where
  "frame_pack_headers_shared bufs frame_hd =
     do { let fh = (if cur bufs \<noteq> 0 then frame_hd\<lparr>fh_flags := fh_flags frame_hd AND NOT NGHTTP2_FLAG_END_HEADERS\<rparr> else frame_hd);
          bufs \<leftarrow> pack_hd_at bufs 0 fh;
          if cur bufs \<noteq> 0 then
            do { let fh = fh\<lparr>fh_type := NGHTTP2_CONTINUATION, fh_flags := NGHTTP2_FLAG_NONE\<rparr>;
                 bufs \<leftarrow> continuation_loop bufs fh 1 (cur bufs - 1);
                 pack_hd_at bufs (cur bufs) (fh\<lparr>fh_flags := NGHTTP2_FLAG_END_HEADERS\<rparr>) }
          else Some bufs }"

text \<open>\<open>buf->pos += nv_offset; buf->last = buf->pos\<close> and, after the call, \<open>buf->pos -= nv_offset\<close>.\<close>

definition skip_head :: "nghttp2_bufs \<Rightarrow> nat \<Rightarrow> nghttp2_bufs" where
  "skip_head bufs n = set_head bufs ((head_buf bufs)\<lparr>buf_pos := buf_pos (head_buf bufs) + n, buf_last := buf_pos (head_buf bufs) + n\<rparr>)"

definition unskip_head :: "nghttp2_bufs \<Rightarrow> nat \<Rightarrow> nghttp2_bufs" where
  "unskip_head bufs n = set_head bufs ((head_buf bufs)\<lparr>buf_pos := buf_pos (head_buf bufs) - n\<rparr>)"

definition nghttp2_frame_pack_headers ::
  "nghttp2_bufs \<Rightarrow> nghttp2_headers \<Rightarrow> nghttp2_hd_deflater \<Rightarrow> (rc \<times> nghttp2_headers \<times> nghttp2_hd_deflater \<times> nghttp2_bufs) option" where
  "nghttp2_frame_pack_headers bufs frame deflater =
     (if cur bufs \<noteq> 0 then None
      else
        do { let nv_offset = nghttp2_frame_headers_payload_nv_offset frame;
             (rv, deflater, bufs) \<leftarrow> nghttp2_hd_deflate_hd_bufs deflater (skip_head bufs nv_offset) (headers_nva frame);
             let rv = (if rv = NGHTTP2_ERR_BUFFER_ERROR then NGHTTP2_ERR_HEADER_COMP else rv);
             let bufs = unskip_head bufs nv_offset;
             if rv \<noteq> 0 then Some (rv, frame, deflater, bufs)
             else
               do { bufs \<leftarrow> (if fh_flags (headers_hd frame) AND NGHTTP2_FLAG_PRIORITY \<noteq> 0
                             then do { m \<leftarrow> nghttp2_frame_pack_priority_spec (buf_pos (head_buf bufs)) (headers_pri_spec frame) (buf_mem (head_buf bufs));
                                       Some (set_head bufs ((head_buf bufs)\<lparr>buf_mem := m\<rparr>)) }
                             else Some bufs);
                    let frame = frame\<lparr>headers_padlen := 0, headers_hd := (headers_hd frame)\<lparr>fh_length := nghttp2_bufs_len bufs\<rparr>\<rparr>;
                    bufs \<leftarrow> frame_pack_headers_shared bufs (headers_hd frame);
                    Some (0, frame, deflater, bufs) } })"

definition nghttp2_frame_pack_push_promise ::
  "nghttp2_bufs \<Rightarrow> nghttp2_push_promise \<Rightarrow> nghttp2_hd_deflater \<Rightarrow>
   (rc \<times> nghttp2_push_promise \<times> nghttp2_hd_deflater \<times> nghttp2_bufs) option" where
  "nghttp2_frame_pack_push_promise bufs frame deflater =
     (if cur bufs \<noteq> 0 then None
      else
        do { let nv_offset = 4;
             (rv, deflater, bufs) \<leftarrow> nghttp2_hd_deflate_hd_bufs deflater (skip_head bufs nv_offset) (pp_nva frame);
             let rv = (if rv = NGHTTP2_ERR_BUFFER_ERROR then NGHTTP2_ERR_HEADER_COMP else rv);
             let bufs = unskip_head bufs nv_offset;
             if rv \<noteq> 0 then Some (rv, frame, deflater, bufs)
             else
               do { m \<leftarrow> mem_put (buf_pos (head_buf bufs)) (uint32be_bytes (word_of_int (pp_promised_stream_id frame))) (buf_mem (head_buf bufs));
                    let bufs = set_head bufs ((head_buf bufs)\<lparr>buf_mem := m\<rparr>);
                    let frame = frame\<lparr>pp_padlen := 0, pp_hd := (pp_hd frame)\<lparr>fh_length := nghttp2_bufs_len bufs\<rparr>\<rparr>;
                    bufs \<leftarrow> frame_pack_headers_shared bufs (pp_hd frame);
                    Some (0, frame, deflater, bufs) } })"

subsection \<open>The frames of a block\<close>

text \<open>A frame as its header and its payload; the bytes of a sequence of frames, and how a peer splits them.\<close>

definition frame_bytes :: "nghttp2_frame_hd \<times> bytes \<Rightarrow> bytes" where
  "frame_bytes f = hd_bytes (fst f) @ snd f"

function read_frames :: "bytes \<Rightarrow> (nghttp2_frame_hd \<times> bytes) list option" where
  "read_frames p =
     (if p = [] then Some []
      else
        case nghttp2_frame_unpack_frame_hd p of
          None \<Rightarrow> None
        | Some fh \<Rightarrow>
            if length p < 9 + fh_length fh then None
            else map_option ((#) (fh, take (fh_length fh) (drop 9 p))) (read_frames (drop (9 + fh_length fh) p)))"
  by pat_completeness auto
termination by (relation "measure length") auto

declare read_frames.simps [simp del]

definition frame_ok :: "nghttp2_frame_hd \<times> bytes \<Rightarrow> bool" where
  "frame_ok f \<longleftrightarrow> fh_ok (fst f) \<and> fh_length (fst f) = length (snd f)"

lemma read_frames_bytes: "list_all frame_ok fs \<Longrightarrow> read_frames (concat (map frame_bytes fs)) = Some fs"
proof (induction fs)
  case Nil
  show ?case by (simp add: read_frames.simps)
next
  case (Cons f fs)
  then have f: "fh_ok (fst f)" "fh_length (fst f) = length (snd f)" "read_frames (concat (map frame_bytes fs)) = Some fs"
    by (simp_all add: frame_ok_def)
  have e: "concat (map frame_bytes (f # fs)) = hd_bytes (fst f) @ snd f @ concat (map frame_bytes fs)" by (simp add: frame_bytes_def)
  have "hd_bytes (fst f) \<noteq> []" by (simp add: hd_bytes_def)
  then show ?case unfolding e using f unpack_hd_bytes [OF f(1)]
    by (subst read_frames.simps) simp
qed

text \<open>The first frame carries \<open>END_HEADERS\<close> only if it is the only one; otherwise the last does.\<close>

fun continuation_frames :: "nghttp2_frame_hd \<Rightarrow> bytes list \<Rightarrow> (nghttp2_frame_hd \<times> bytes) list" where
  "continuation_frames fh [] = []"
| "continuation_frames fh (p # ps) =
     (fh\<lparr>fh_type := NGHTTP2_CONTINUATION, fh_flags := (if ps = [] then NGHTTP2_FLAG_END_HEADERS else NGHTTP2_FLAG_NONE),
         fh_length := length p\<rparr>, p) # continuation_frames fh ps"

fun header_frames :: "nghttp2_frame_hd \<Rightarrow> bytes list \<Rightarrow> (nghttp2_frame_hd \<times> bytes) list" where
  "header_frames fh [] = []"
| "header_frames fh (p # ps) =
     (fh\<lparr>fh_flags := (if ps = [] then fh_flags fh else fh_flags fh AND NOT NGHTTP2_FLAG_END_HEADERS), fh_length := length p\<rparr>, p) #
     continuation_frames fh ps"

lemma continuation_frames_snoc:
  "continuation_frames fh (ms @ [l]) =
     map (\<lambda>p. (fh\<lparr>fh_type := NGHTTP2_CONTINUATION, fh_flags := NGHTTP2_FLAG_NONE, fh_length := length p\<rparr>, p)) ms @
     [(fh\<lparr>fh_type := NGHTTP2_CONTINUATION, fh_flags := NGHTTP2_FLAG_END_HEADERS, fh_length := length l\<rparr>, l)]"
  by (induction ms) simp_all

lemma header_frames_payload: "concat (map snd (header_frames fh ps)) = concat ps"
proof -
  have "concat (map snd (continuation_frames fh ps)) = concat ps" for ps by (induction ps) simp_all
  then show ?thesis by (cases ps) simp_all
qed

lemma header_frames_ok:
  assumes "\<forall>p \<in> set ps. length p < 2 ^ 24" "0 \<le> fh_stream_id fh" "fh_stream_id fh < 2 ^ 31" "fh_reserved fh = 0"
  shows "list_all frame_ok (header_frames fh ps)"
proof -
  have "list_all frame_ok (continuation_frames fh ps)" if "\<forall>p \<in> set ps. length p < 2 ^ 24" for ps
    using that assms(2-4) by (induction ps) (simp_all add: frame_ok_def fh_ok_def)
  then show ?thesis using assms by (cases ps) (simp_all add: frame_ok_def fh_ok_def)
qed

subsection \<open>The headers of the frames\<close>

definition hd_room :: "nghttp2_buf \<Rightarrow> bool" where
  "hd_room b \<longleftrightarrow> buf_ok b \<and> 9 \<le> buf_pos b"

lemma buf_len_bytes: "buf_ok b \<Longrightarrow> nghttp2_buf_len b = length (buf_bytes b)"
  by (auto simp: buf_ok_def buf_bytes_def nghttp2_buf_len_def min_def)

lemma pack_hd_at_eq:
  assumes "chain bufs = xs @ b # ys" "hd_room b"
  shows "\<exists>c. pack_hd_at bufs (length xs) fh = Some (bufs\<lparr>chain := xs @ c # ys\<rparr>) \<and>
    buf_bytes c = frame_bytes (fh\<lparr>fh_length := length (buf_bytes b)\<rparr>, buf_bytes b)"
proof -
  have b: "buf_ok b" "9 \<le> buf_pos b" using assms(2) by (simp_all add: hd_room_def)
  obtain c where c: "buf_pack_hd (fh\<lparr>fh_length := length (buf_bytes b)\<rparr>) b = Some c"
    "buf_bytes c = hd_bytes (fh\<lparr>fh_length := length (buf_bytes b)\<rparr>) @ buf_bytes b"
    using buf_pack_hd_ok [OF b] by blast
  show ?thesis using c assms(1) buf_len_bytes [OF b(1)] by (intro exI [of _ c]) (simp add: pack_hd_at_def frame_bytes_def)
qed

lemma continuation_loop_eq:
  "chain bufs = xs @ ms @ ys \<Longrightarrow> list_all hd_room ms \<Longrightarrow>
   \<exists>cs. continuation_loop bufs fh (length xs) (length ms) = Some (bufs\<lparr>chain := xs @ cs @ ys\<rparr>) \<and> length cs = length ms \<and>
     map buf_bytes cs = map (\<lambda>b. frame_bytes (fh\<lparr>fh_length := length (buf_bytes b)\<rparr>, buf_bytes b)) ms"
proof (induction ms arbitrary: bufs xs)
  case Nil
  then have "bufs\<lparr>chain := xs @ ys\<rparr> = bufs" by simp
  then show ?case by simp
next
  case (Cons m ms)
  obtain c where c: "pack_hd_at bufs (length xs) fh = Some (bufs\<lparr>chain := xs @ c # ms @ ys\<rparr>)"
    "buf_bytes c = frame_bytes (fh\<lparr>fh_length := length (buf_bytes m)\<rparr>, buf_bytes m)"
    using pack_hd_at_eq [of bufs xs m "ms @ ys" fh] Cons.prems by auto
  obtain cs where "continuation_loop (bufs\<lparr>chain := xs @ c # ms @ ys\<rparr>) fh (length (xs @ [c])) (length ms) =
      Some (bufs\<lparr>chain := (xs @ [c]) @ cs @ ys\<rparr>)" "length cs = length ms"
    "map buf_bytes cs = map (\<lambda>b. frame_bytes (fh\<lparr>fh_length := length (buf_bytes b)\<rparr>, buf_bytes b)) ms"
    using Cons.IH [of "bufs\<lparr>chain := xs @ c # ms @ ys\<rparr>" "xs @ [c]"] Cons.prems by auto
  then show ?case using c by (intro exI [of _ "c # cs"]) simp
qed

lemma pack_shared_eq:
  assumes "chain bufs = xs @ ys" "length xs = Suc (cur bufs)" "list_all hd_room xs"
  shows "\<exists>cs. frame_pack_headers_shared bufs fh = Some (bufs\<lparr>chain := cs @ ys\<rparr>) \<and> length cs = length xs \<and>
    map buf_bytes cs = map frame_bytes (header_frames fh (map buf_bytes xs))"
proof (cases "cur bufs = 0")
  case True
  then obtain b where b: "xs = [b]" "hd_room b" using assms by (cases xs) auto
  obtain c where "pack_hd_at bufs 0 fh = Some (bufs\<lparr>chain := c # ys\<rparr>)"
    "buf_bytes c = frame_bytes (fh\<lparr>fh_length := length (buf_bytes b)\<rparr>, buf_bytes b)"
    using pack_hd_at_eq [of bufs "[]" b ys fh] assms(1) b by auto
  then show ?thesis using True b by (intro exI [of _ "[c]"]) (simp add: frame_pack_headers_shared_def)
next
  case False
  then obtain b ms l where x: "xs = b # ms @ [l]" using assms(2) by (cases xs; cases "tl xs" rule: rev_cases) auto
  have n: "length ms = cur bufs - 1" "Suc (length ms) = cur bufs" using x assms(2) by auto
  have r: "hd_room b" "list_all hd_room ms" "hd_room l" using x assms(3) by auto
  let ?g = "fh\<lparr>fh_flags := fh_flags fh AND NOT NGHTTP2_FLAG_END_HEADERS\<rparr>"
  let ?f = "?g\<lparr>fh_type := NGHTTP2_CONTINUATION, fh_flags := NGHTTP2_FLAG_NONE\<rparr>"
  obtain c where c: "pack_hd_at bufs 0 ?g = Some (bufs\<lparr>chain := c # ms @ l # ys\<rparr>)"
    "buf_bytes c = frame_bytes (?g\<lparr>fh_length := length (buf_bytes b)\<rparr>, buf_bytes b)"
    using pack_hd_at_eq [of bufs "[]" b "ms @ l # ys" ?g] assms(1) x r(1) by auto
  obtain cs where cs: "continuation_loop (bufs\<lparr>chain := c # ms @ l # ys\<rparr>) ?f 1 (cur bufs - 1) = Some (bufs\<lparr>chain := [c] @ cs @ l # ys\<rparr>)"
    "length cs = length ms" "map buf_bytes cs = map (\<lambda>b. frame_bytes (?f\<lparr>fh_length := length (buf_bytes b)\<rparr>, buf_bytes b)) ms"
    using continuation_loop_eq [of "bufs\<lparr>chain := c # ms @ l # ys\<rparr>" "[c]" ms "l # ys" ?f] r(2) n(1) by auto
  obtain e where e: "pack_hd_at (bufs\<lparr>chain := [c] @ cs @ l # ys\<rparr>) (cur bufs) (?f\<lparr>fh_flags := NGHTTP2_FLAG_END_HEADERS\<rparr>) =
      Some (bufs\<lparr>chain := c # cs @ e # ys\<rparr>)"
    "buf_bytes e = frame_bytes (?f\<lparr>fh_flags := NGHTTP2_FLAG_END_HEADERS, fh_length := length (buf_bytes l)\<rparr>, buf_bytes l)"
    using pack_hd_at_eq [of "bufs\<lparr>chain := [c] @ cs @ l # ys\<rparr>" "c # cs" l ys "?f\<lparr>fh_flags := NGHTTP2_FLAG_END_HEADERS\<rparr>"] r(3) n(2) cs(2) by auto
  have "frame_pack_headers_shared bufs fh = Some (bufs\<lparr>chain := c # cs @ e # ys\<rparr>)"
    unfolding frame_pack_headers_shared_def using False c(1) cs(1) e(1) by (simp add: Let_def)
  then show ?thesis using x c(2) cs(2,3) e(2)
    by (intro exI [of _ "c # cs @ [e]"]) (simp add: continuation_frames_snoc o_def)
qed

subsection \<open>The block behind the fixed part\<close>

lemma skip_head_ok:
  assumes f: "fresh_chain bufs" and n: "n \<le> nghttp2_buf_avail (head_buf bufs)"
  shows "bufs_inv (skip_head bufs n) \<and> bufs_content (skip_head bufs n) = [] \<and>
    bufs_shape (skip_head bufs n) = (offset bufs, chunk_length bufs, max_chunk bufs, buf_pos (head_buf bufs) + n) \<and>
    bufs_memok (skip_head bufs n) = bufs_memok bufs \<and> bufs_room (skip_head bufs n) + n = bufs_room bufs"
proof -
  note d = fresh_chainD [OF f]
  let ?b = "(head_buf bufs)\<lparr>buf_pos := buf_pos (head_buf bufs) + n, buf_last := buf_pos (head_buf bufs) + n\<rparr>"
  have p: "buf_pos (head_buf bufs) = buf_last (head_buf bufs)" using f by (simp add: fresh_chain_def)
  have o: "buf_ok ?b" using d(3) n p by (simp add: buf_ok_def nghttp2_buf_avail_def)
  have s: "skip_head bufs n = set_head bufs ?b" by (simp add: skip_head_def)
  have i: "bufs_inv (set_head bufs ?b) \<and> cur (set_head bufs ?b) = 0 \<and> head_buf (set_head bufs ?b) = ?b \<and>
      bufs_content (set_head bufs ?b) = buf_bytes ?b \<and> bufs_mem (set_head bufs ?b) = bufs_mem bufs"
    using o d(6) by (intro set_head_ok [OF f]) simp_all
  have k: "cur_buf (set_head bufs ?b) = ?b" "cur_buf bufs = head_buf bufs"
    using i d(2) head_is_cur [of bufs] head_is_cur [of "set_head bufs ?b"] by metis+
  have "bufs_room (set_head bufs ?b) = nghttp2_buf_avail ?b + (max_chunk bufs - 1) * (chunk_length bufs - offset bufs)"
    unfolding bufs_room_def k by (simp add: set_head_def d(2))
  then have "bufs_room (set_head bufs ?b) + n = bufs_room bufs"
    unfolding bufs_room_def [of bufs] k using n p by (simp add: d(2) nghttp2_buf_avail_def)
  moreover have "bufs_shape (set_head bufs ?b) = (offset bufs, chunk_length bufs, max_chunk bufs, buf_pos (head_buf bufs) + n)"
    using i by (simp add: bufs_shape_def head_buf_def [symmetric]) (simp add: set_head_def)
  ultimately show ?thesis unfolding s using i by (simp add: buf_bytes_def nghttp2_buf_len_def bufs_memok_def)
qed

text \<open>The prefix is stored in front of the block, and every buffer up to the current one has room for a header.\<close>

lemma prefix_head:
  assumes inv: "bufs_inv bufs" and p: "buf_pos (head_buf bufs) = 9 + k + length pre" and o: "9 \<le> offset bufs"
  shows "\<exists>b xs ys. mem_put (buf_pos (head_buf (unskip_head bufs (length pre)))) pre (buf_mem (head_buf (unskip_head bufs (length pre)))) = Some b \<and>
    chain (set_head (unskip_head bufs (length pre)) ((head_buf (unskip_head bufs (length pre)))\<lparr>buf_mem := b\<rparr>)) = xs @ ys \<and>
    length xs = Suc (cur bufs) \<and> list_all hd_room xs \<and> concat (map buf_bytes xs) = pre @ bufs_content bufs \<and>
    (\<forall>c \<in> set xs. length (buf_bytes c) + 9 \<le> chunk_length bufs) \<and> concat (map buf_bytes ys) = [] \<and>
    (\<exists>q. buf_bytes (xs ! 0) = pre @ q)"
proof -
  note d = bufs_invD [OF inv]
  obtain h t where c: "chain bufs = h # t" using d(1) by (cases "chain bufs") auto
  have hb: "head_buf bufs = h" using c by (simp add: head_buf_def)
  have ok: "buf_ok x" "length (buf_mem x) = chunk_length bufs" if "x \<in> set (chain bufs)" for x
    using d(9) [OF that] by (simp_all add: buf_ok_def)
  let ?m = "write_at (9 + k) pre (buf_mem h)"
  let ?h = "h\<lparr>buf_pos := 9 + k, buf_mem := ?m\<rparr>"
  have hk: "buf_pos h = 9 + k + length pre" "buf_pos h \<le> buf_last h" "buf_last h \<le> length (buf_mem h)" "length (buf_mem h) = chunk_length bufs"
    using p hb ok [of h] c by (simp_all add: buf_ok_def)
  have m: "mem_put (9 + k) pre (buf_mem h) = Some ?m" using hk by (simp add: mem_put_eq)
  have hr: "hd_room ?h" using hk by (simp add: hd_room_def buf_ok_def)
  have "drop (9 + k) ?m = pre @ drop (buf_pos h) (buf_mem h)" using hk by (simp add: drop_write_at)
  then have bb: "buf_bytes ?h = pre @ buf_bytes h"
    using hk by (simp add: buf_bytes_def nghttp2_buf_len_def)
  let ?xs = "?h # take (cur bufs) t" and ?ys = "drop (cur bufs) t"
  have lt: "cur bufs \<le> length t" using d(1) c by simp
  have t: "hd_room x \<and> length (buf_bytes x) + 9 \<le> chunk_length bufs" if x: "x \<in> set t" for x
  proof -
    obtain i where i: "i < length t" "x = t ! i" using x by (auto simp: in_set_conv_nth)
    then have "buf_pos x = offset bufs" using inv c unfolding bufs_inv_def by (metis Suc_less_eq length_Cons nth_Cons_Suc zero_less_Suc)
    moreover have "buf_ok x" "length (buf_mem x) = chunk_length bufs" using ok x c by auto
    ultimately show ?thesis using o buf_len_bytes [of x] by (auto simp: hd_room_def buf_ok_def nghttp2_buf_len_def)
  qed
  have y: "buf_bytes x = []" if x: "x \<in> set ?ys" for x
  proof -
    obtain i where "i < length t - cur bufs" "x = t ! (cur bufs + i)" using x by (auto simp: in_set_conv_nth)
    then show ?thesis using d(8) [of "Suc (cur bufs + i)"] c by (simp add: buf_bytes_def nghttp2_buf_len_def)
  qed
  have "concat (map buf_bytes t) = concat (map buf_bytes (take (cur bufs) t)) @ concat (map buf_bytes ?ys)"
    by (metis append_take_drop_id concat_append map_append)
  then have "concat (map buf_bytes ?xs) = pre @ bufs_content bufs"
    using y bb c by (simp add: bufs_content_def)
  moreover have "length (buf_bytes ?h) + 9 \<le> chunk_length bufs"
    using hr hk buf_len_bytes [of ?h] by (auto simp: hd_room_def nghttp2_buf_len_def)
  moreover have "list_all hd_room ?xs" "\<forall>c \<in> set (take (cur bufs) t). length (buf_bytes c) + 9 \<le> chunk_length bufs"
    using hr t by (auto simp: list_all_iff dest: in_set_takeD)
  moreover have "chain (set_head (unskip_head bufs (length pre)) ((head_buf (unskip_head bufs (length pre)))\<lparr>buf_mem := ?m\<rparr>)) = ?xs @ ?ys"
    using c hk by (simp add: unskip_head_def set_head_def head_buf_def)
  moreover have "concat (map buf_bytes ?ys) = []" using y by simp
  ultimately show ?thesis using m lt bb c hk
    by (intro exI [of _ ?m] exI [of _ ?xs] exI [of _ ?ys]) (simp add: unskip_head_def set_head_def head_buf_def)
qed

lemma header_frames_length [simp]: "header_frames (fh\<lparr>fh_length := n\<rparr>) ps = header_frames fh ps"
proof -
  have "continuation_frames (fh\<lparr>fh_length := n\<rparr>) ps = continuation_frames fh ps" for ps
    by (induction ps) (cases fh; simp)+
  then show ?thesis by (cases ps) (cases fh; simp)+
qed

definition sid_ok :: "nghttp2_frame_hd \<Rightarrow> bool" where
  "sid_ok fh \<longleftrightarrow> 0 \<le> fh_stream_id fh \<and> fh_stream_id fh < 2 ^ 31 \<and> fh_reserved fh = 0"

text \<open>A chain as the session sets it up: fresh, with room for a header in front of every buffer.\<close>

definition headers_chain :: "nghttp2_bufs \<Rightarrow> bool" where
  "headers_chain bufs \<longleftrightarrow> fresh_chain bufs \<and> 9 \<le> offset bufs \<and> chunk_length bufs \<le> 2 ^ 24"

abbreviation prefix_mem :: "nghttp2_bufs \<Rightarrow> bytes \<Rightarrow> bytes option" where
  "prefix_mem bufs pre \<equiv> mem_put (buf_pos (head_buf bufs)) pre (buf_mem (head_buf bufs))"

text \<open>When the block is certain to fit: memory is available and the bound of the deflater is within the room.\<close>

definition enough_room :: "nghttp2_bufs \<Rightarrow> nghttp2_hd_deflater \<Rightarrow> nat \<Rightarrow> nghttp2_nv list \<Rightarrow> bool" where
  "enough_room bufs d n nva \<longleftrightarrow> bufs_memok bufs \<and> dfl_mem_ok d \<and> list_all nv_short nva \<and>
     n + nghttp2_hd_deflate_bound nva \<le> bufs_room bufs"

lemma pack_block:
  assumes c: "headers_chain bufs" and n: "length pre \<le> nghttp2_buf_avail (head_buf bufs)" and s: "sid_ok fh"
    and d: "dfl_inv d" "\<not> bad (dfl_ctx d)" "list_all nv_small nva"
  obtains rv d' b where "nghttp2_hd_deflate_hd_bufs d (skip_head bufs (length pre)) nva = Some (rv, d', b)" "bad (dfl_ctx d') \<longleftrightarrow> rv \<noteq> 0"
    "enough_room bufs d (length pre) nva \<Longrightarrow> rv = 0"
    "rv = 0 \<Longrightarrow> \<exists>m b' p ps. prefix_mem (unskip_head b (length pre)) pre = Some m \<and> chain b \<noteq> [] \<and> bufs_inv b \<and>
       (\<forall>k. frame_pack_headers_shared (set_head (unskip_head b (length pre)) ((head_buf (unskip_head b (length pre)))\<lparr>buf_mem := m\<rparr>)) (fh\<lparr>fh_length := k\<rparr>) = Some (b' k) \<and>
         read_frames (bufs_content (b' k)) = Some (header_frames fh (p # ps))) \<and>
       concat (p # ps) = pre @ bufs_content b \<and> (\<exists>q. p = pre @ q)"
proof -
  have f: "fresh_chain bufs" "9 \<le> offset bufs" "chunk_length bufs \<le> 2 ^ 24" using c by (simp_all add: headers_chain_def)
  note k = skip_head_ok [OF f(1) n]
  then have i: "bufs_inv (skip_head bufs (length pre))" by simp
  obtain rv d' b rs where r: "nghttp2_hd_deflate_hd_bufs d (skip_head bufs (length pre)) nva = Some (rv, d', b)" "bufs_inv b"
    "bad (dfl_ctx d') \<longleftrightarrow> rv \<noteq> 0"
    "rv = 0 \<or> dfl_mem_ok d \<longrightarrow> sink.res (skip_head bufs (length pre)) (updates_bytes (size_updates d) @ reps_bytes rs) (Some (rv, b))"
    "dfl_mem_ok d \<and> list_all nv_short nva \<longrightarrow> length (reps_bytes rs) \<le> sum_list (map nv_bound nva)"
    using deflate_hd_bufs_spec [OF d(1) i d(3,2)] by (elim exE conjE) (rule that)
  have room: "rv = 0" if "enough_room bufs d (length pre) nva"
    using that r(4,5) k updates_length [OF d(1)] by (simp add: enough_room_def sink.res_def deflate_bound_sum)
  have "\<exists>m b' p ps. prefix_mem (unskip_head b (length pre)) pre = Some m \<and> chain b \<noteq> [] \<and> bufs_inv b \<and>
       (\<forall>k. frame_pack_headers_shared (set_head (unskip_head b (length pre)) ((head_buf (unskip_head b (length pre)))\<lparr>buf_mem := m\<rparr>)) (fh\<lparr>fh_length := k\<rparr>) = Some (b' k) \<and>
         read_frames (bufs_content (b' k)) = Some (header_frames fh (p # ps))) \<and>
       concat (p # ps) = pre @ bufs_content b \<and> (\<exists>q. p = pre @ q)" if z: "rv = 0"
  proof -
    have "bufs_shape b = bufs_shape (skip_head bufs (length pre))" using r(4) z by (simp add: sink.res_def)
    then have sh: "offset b = offset bufs" "chunk_length b = chunk_length bufs" "buf_pos (head_buf b) = buf_pos (head_buf bufs) + length pre"
      using k by (simp_all add: bufs_shape_def head_buf_def)
    have "9 \<le> buf_pos (head_buf bufs)" using fresh_chainD(4) [OF f(1)] .
    then have p: "buf_pos (head_buf b) = 9 + (buf_pos (head_buf bufs) - 9) + length pre" using sh(3) by simp
    obtain m xs ys where x: "prefix_mem (unskip_head b (length pre)) pre = Some m"
      "chain (set_head (unskip_head b (length pre)) ((head_buf (unskip_head b (length pre)))\<lparr>buf_mem := m\<rparr>)) = xs @ ys"
      "length xs = Suc (cur b)" "list_all hd_room xs" "concat (map buf_bytes xs) = pre @ bufs_content b"
      "\<forall>c \<in> set xs. length (buf_bytes c) + 9 \<le> chunk_length bufs" "concat (map buf_bytes ys) = []" "\<exists>q. buf_bytes (xs ! 0) = pre @ q"
      using prefix_head [OF r(2) p] f(2) sh by auto
    define B where "B = set_head (unskip_head b (length pre)) ((head_buf (unskip_head b (length pre)))\<lparr>buf_mem := m\<rparr>)"
    have B: "chain B = xs @ ys" "length xs = Suc (cur B)" using x(2,3) by (simp_all add: B_def set_head_def unskip_head_def)
    have ok: "list_all frame_ok (header_frames fh (map buf_bytes xs))"
      using x(6) f(3) s by (intro header_frames_ok) (auto simp: sid_ok_def)
    have "\<exists>b'. frame_pack_headers_shared B (fh\<lparr>fh_length := k\<rparr>) = Some b' \<and> read_frames (bufs_content b') = Some (header_frames fh (map buf_bytes xs))" for k
    proof -
      obtain cs where "frame_pack_headers_shared B (fh\<lparr>fh_length := k\<rparr>) = Some (B\<lparr>chain := cs @ ys\<rparr>)"
        "map buf_bytes cs = map frame_bytes (header_frames fh (map buf_bytes xs))"
        using pack_shared_eq [OF B x(4), of "fh\<lparr>fh_length := k\<rparr>"] by auto
      then show ?thesis using read_frames_bytes [OF ok] by (simp add: bufs_content_def x(7) del: concat_eq_Nil_conv)
    qed
    then obtain b' where "\<forall>k. frame_pack_headers_shared B (fh\<lparr>fh_length := k\<rparr>) = Some (b' k) \<and>
        read_frames (bufs_content (b' k)) = Some (header_frames fh (map buf_bytes xs))" by metis
    moreover obtain x0 xr where "xs = x0 # xr" using x(3) by (cases xs) auto
    moreover have "chain b \<noteq> []" using bufs_invD(1) [OF r(2)] by auto
    ultimately show ?thesis using x(1,5,8) r(2) unfolding B_def
      by (intro exI [of _ m] exI [of _ b'] exI [of _ "buf_bytes x0"] exI [of _ "map buf_bytes xr"]) simp
  qed
  then show thesis using r(1,3) room that by blast
qed

lemma mem_put_nil: "buf_ok b \<Longrightarrow> mem_put (buf_pos b) [] (buf_mem b) = Some (buf_mem b)"
  by (simp add: buf_ok_def mem_put_def write_at_def)

lemma set_head_same: "chain b \<noteq> [] \<Longrightarrow> set_head b (head_buf b) = b"
  by (cases "chain b") (simp_all add: set_head_def head_buf_def)

definition headers_prefix :: "nghttp2_headers \<Rightarrow> bytes" where
  "headers_prefix frame = (if fh_flags (headers_hd frame) AND NGHTTP2_FLAG_PRIORITY \<noteq> 0 then pri_bytes (headers_pri_spec frame) else [])"

lemma headers_prefix_length: "length (headers_prefix frame) = nghttp2_frame_headers_payload_nv_offset frame"
  by (simp add: headers_prefix_def nghttp2_frame_headers_payload_nv_offset_def nghttp2_frame_priority_len_def ng_defs)

lemma headers_prefix_store:
  assumes b: "bufs_inv b" "chain b \<noteq> []" and p: "prefix_mem (unskip_head b n) (headers_prefix frame) = Some m"
  shows "(if fh_flags (headers_hd frame) AND NGHTTP2_FLAG_PRIORITY \<noteq> 0
          then do { m \<leftarrow> nghttp2_frame_pack_priority_spec (buf_pos (head_buf (unskip_head b n))) (headers_pri_spec frame) (buf_mem (head_buf (unskip_head b n)));
                    Some (set_head (unskip_head b n) ((head_buf (unskip_head b n))\<lparr>buf_mem := m\<rparr>)) }
          else Some (unskip_head b n)) = Some (set_head (unskip_head b n) ((head_buf (unskip_head b n))\<lparr>buf_mem := m\<rparr>))"
proof (cases "fh_flags (headers_hd frame) AND NGHTTP2_FLAG_PRIORITY = 0")
  case True
  have "m = buf_mem (head_buf (unskip_head b n))" using p True
    by (auto simp: headers_prefix_def mem_put_def write_at_def split: if_splits)
  moreover have "chain (unskip_head b n) \<noteq> []" using b(2) by (simp add: unskip_head_def set_head_def)
  ultimately show ?thesis using True set_head_same [of "unskip_head b n"] by simp
next
  case False
  then have "buf_pos (head_buf (unskip_head b n)) + 5 \<le> length (buf_mem (head_buf (unskip_head b n)))"
    "m = write_at (buf_pos (head_buf (unskip_head b n))) (pri_bytes (headers_pri_spec frame)) (buf_mem (head_buf (unskip_head b n)))"
    using p by (auto simp: headers_prefix_def mem_put_def split: if_splits)
  then show ?thesis using False by (simp add: pack_priority_spec_eq)
qed

text \<open>The same for PUSH_PROMISE, whose fixed part is the promised stream.\<close>

lemma push_promise_reaches_peer:
  assumes "headers_chain bufs" "4 \<le> nghttp2_buf_avail (head_buf bufs)" "sid_ok (pp_hd frame)"
    "0 \<le> pp_promised_stream_id frame" "pp_promised_stream_id frame < 2 ^ 31" "in_sync d i" "list_all nv_fits (pp_nva frame)"
  shows "\<exists>rv frame' d' bufs'. nghttp2_frame_pack_push_promise bufs frame d = Some (rv, frame', d', bufs') \<and> (bad (dfl_ctx d') \<longleftrightarrow> rv \<noteq> 0) \<and>
    (enough_room bufs d 4 (pp_nva frame) \<longrightarrow> rv = 0) \<and>
    (rv = 0 \<longrightarrow> (\<exists>p ps i' nvs. read_frames (bufs_content bufs') = Some (header_frames (pp_hd frame) (p # ps)) \<and>
       (\<forall>g. nghttp2_frame_unpack_push_promise_payload g p = Some (g\<lparr>pp_promised_stream_id := pp_promised_stream_id frame, pp_nva := []\<rparr>)) \<and>
       inflate_header_block i (drop 4 (concat (p # ps))) True = Some (0, i', nvs) \<and>
       map nv_pair nvs = map nv_pair (pp_nva frame) \<and> in_sync d' i'))"
proof -
  let ?pre = "uint32be_bytes (word_of_int (pp_promised_stream_id frame))"
  have l: "length ?pre = 4" by simp
  have d: "dfl_inv d" "\<not> bad (dfl_ctx d)" using assms(6) by (simp_all add: in_sync_def)
  have sm: "list_all nv_small (pp_nva frame)" using assms(7) by (auto simp: list_all_iff nv_fits_def nv_small_def)
  have n: "length ?pre \<le> nghttp2_buf_avail (head_buf bufs)" using assms(2) l by simp
  have f: "fresh_chain bufs" using assms(1) by (simp add: headers_chain_def)
  note k = skip_head_ok [OF f n, unfolded l]
  obtain rv d' b where r: "nghttp2_hd_deflate_hd_bufs d (skip_head bufs 4) (pp_nva frame) = Some (rv, d', b)" "bad (dfl_ctx d') \<longleftrightarrow> rv \<noteq> 0"
    "enough_room bufs d 4 (pp_nva frame) \<Longrightarrow> rv = 0"
    "rv = 0 \<Longrightarrow> \<exists>m b' p ps. prefix_mem (unskip_head b 4) ?pre = Some m \<and> chain b \<noteq> [] \<and> bufs_inv b \<and>
       (\<forall>k. frame_pack_headers_shared (set_head (unskip_head b 4) ((head_buf (unskip_head b 4))\<lparr>buf_mem := m\<rparr>)) ((pp_hd frame)\<lparr>fh_length := k\<rparr>) = Some (b' k) \<and>
         read_frames (bufs_content (b' k)) = Some (header_frames (pp_hd frame) (p # ps))) \<and>
       concat (p # ps) = ?pre @ bufs_content b \<and> (\<exists>q. p = ?pre @ q)"
    using pack_block [OF assms(1) n assms(3) d sm] unfolding l by metis
  have c0: "cur bufs = 0" using fresh_chainD(2) [OF f] .
  show ?thesis
  proof (cases "rv = 0")
    case False
    then show ?thesis using r(1-3) c0 by (auto simp: nghttp2_frame_pack_push_promise_def Let_def rc_defs)
  next
    case True
    obtain m b' p ps where x: "prefix_mem (unskip_head b 4) ?pre = Some m"
      "\<And>k. frame_pack_headers_shared (set_head (unskip_head b 4) ((head_buf (unskip_head b 4))\<lparr>buf_mem := m\<rparr>)) ((pp_hd frame)\<lparr>fh_length := k\<rparr>) = Some (b' k)"
      "\<And>k. read_frames (bufs_content (b' k)) = Some (header_frames (pp_hd frame) (p # ps))"
      "concat (p # ps) = ?pre @ bufs_content b" "\<exists>q. p = ?pre @ q" using r(4) [OF True] by blast
    obtain i' nvs where v: "inflate_header_block i (bufs_content b) True = Some (0, i', nvs)"
      "map nv_pair nvs = map nv_pair (pp_nva frame)" "in_sync d' i'"
      using roundtrip_spec [OF assms(6) _ _ assms(7) r(1) [unfolded True]] k by blast
    have "drop 4 (concat (p # ps)) = bufs_content b" unfolding x(4) by simp
    moreover have "nghttp2_frame_unpack_push_promise_payload g p = Some (g\<lparr>pp_promised_stream_id := pp_promised_stream_id frame, pp_nva := []\<rparr>)" for g
      using x(5) assms(4,5) by (auto simp: nghttp2_frame_unpack_push_promise_payload_def)
    moreover have "\<exists>f' k. nghttp2_frame_pack_push_promise bufs frame d = Some (0, f', d', b' k)"
      unfolding nghttp2_frame_pack_push_promise_def Let_def using c0 r(1) True x(1,2) by (auto simp: rc_defs)
    ultimately show ?thesis using x(3) v r(2) True by metis
  qed
qed

subsection \<open>Properties\<close>

text \<open>
  C1.  A field list sent in a HEADERS frame reaches the peer.  Packing never fails an
  assertion or leaves a buffer; it fails exactly when the compression context is left unusable,
  and it succeeds when memory is available and the bound of the deflater is within the room.
  Otherwise a peer that splits the bytes of the chain by their frame headers reads a frame of the
  given type, followed by CONTINUATION frames if the block did not fit, with \<open>END_HEADERS\<close> on the last
  frame only; the first payload starts with the priority if the flag says so; and inflating the
  rest of the payloads with an inflater in sync gives the fields, and keeps the two in sync.
\<close>

theorem headers_frame_reaches_peer:
  assumes "headers_chain bufs" "nghttp2_frame_headers_payload_nv_offset frame \<le> nghttp2_buf_avail (head_buf bufs)"
    "sid_ok (headers_hd frame)" "pri_spec_ok (headers_pri_spec frame)" "in_sync d i" "list_all nv_fits (headers_nva frame)"
  shows "\<exists>rv frame' d' bufs'. nghttp2_frame_pack_headers bufs frame d = Some (rv, frame', d', bufs') \<and> (bad (dfl_ctx d') \<longleftrightarrow> rv \<noteq> 0) \<and>
    (enough_room bufs d (nghttp2_frame_headers_payload_nv_offset frame) (headers_nva frame) \<longrightarrow> rv = 0) \<and>
    (rv = 0 \<longrightarrow> (\<exists>p ps i' nvs. read_frames (bufs_content bufs') = Some (header_frames (headers_hd frame) (p # ps)) \<and>
       (fh_flags (headers_hd frame) AND NGHTTP2_FLAG_PRIORITY \<noteq> 0 \<longrightarrow> nghttp2_frame_unpack_priority_spec p = Some (headers_pri_spec frame)) \<and>
       inflate_header_block i (drop (nghttp2_frame_headers_payload_nv_offset frame) (concat (p # ps))) True = Some (0, i', nvs) \<and>
       map nv_pair nvs = map nv_pair (headers_nva frame) \<and> in_sync d' i'))"
proof -
  let ?pre = "headers_prefix frame" and ?n = "nghttp2_frame_headers_payload_nv_offset frame"
  have d: "dfl_inv d" "\<not> bad (dfl_ctx d)" using assms(5) by (simp_all add: in_sync_def)
  have sm: "list_all nv_small (headers_nva frame)" using assms(6) by (auto simp: list_all_iff nv_fits_def nv_small_def)
  have n: "length ?pre \<le> nghttp2_buf_avail (head_buf bufs)" using assms(2) by (simp add: headers_prefix_length)
  have f: "fresh_chain bufs" using assms(1) by (simp add: headers_chain_def)
  note k = skip_head_ok [OF f n, unfolded headers_prefix_length]
  obtain rv d' b where r: "nghttp2_hd_deflate_hd_bufs d (skip_head bufs ?n) (headers_nva frame) = Some (rv, d', b)" "bad (dfl_ctx d') \<longleftrightarrow> rv \<noteq> 0"
    "enough_room bufs d ?n (headers_nva frame) \<Longrightarrow> rv = 0"
    "rv = 0 \<Longrightarrow> \<exists>m b' p ps. prefix_mem (unskip_head b ?n) ?pre = Some m \<and> chain b \<noteq> [] \<and> bufs_inv b \<and>
       (\<forall>k. frame_pack_headers_shared (set_head (unskip_head b ?n) ((head_buf (unskip_head b ?n))\<lparr>buf_mem := m\<rparr>)) ((headers_hd frame)\<lparr>fh_length := k\<rparr>) = Some (b' k) \<and>
         read_frames (bufs_content (b' k)) = Some (header_frames (headers_hd frame) (p # ps))) \<and>
       concat (p # ps) = ?pre @ bufs_content b \<and> (\<exists>q. p = ?pre @ q)"
    using pack_block [OF assms(1) n assms(3) d sm] unfolding headers_prefix_length by metis
  have c0: "cur bufs = 0" using fresh_chainD(2) [OF f] .
  show ?thesis
  proof (cases "rv = 0")
    case False
    then show ?thesis using r(1-3) c0 by (auto simp: nghttp2_frame_pack_headers_def Let_def rc_defs)
  next
    case True
    obtain m b' p ps where x: "prefix_mem (unskip_head b ?n) ?pre = Some m" "chain b \<noteq> []" "bufs_inv b"
      "\<And>k. frame_pack_headers_shared (set_head (unskip_head b ?n) ((head_buf (unskip_head b ?n))\<lparr>buf_mem := m\<rparr>)) ((headers_hd frame)\<lparr>fh_length := k\<rparr>) = Some (b' k)"
      "\<And>k. read_frames (bufs_content (b' k)) = Some (header_frames (headers_hd frame) (p # ps))"
      "concat (p # ps) = ?pre @ bufs_content b" "\<exists>q. p = ?pre @ q" using r(4) [OF True] by blast
    obtain i' nvs where v: "inflate_header_block i (bufs_content b) True = Some (0, i', nvs)"
      "map nv_pair nvs = map nv_pair (headers_nva frame)" "in_sync d' i'"
      using roundtrip_spec [OF assms(5) _ _ assms(6) r(1) [unfolded True]] k by blast
    have "drop ?n (concat (p # ps)) = bufs_content b" unfolding x(6) headers_prefix_length [symmetric] by simp
    moreover have "fh_flags (headers_hd frame) AND NGHTTP2_FLAG_PRIORITY \<noteq> 0 \<longrightarrow> nghttp2_frame_unpack_priority_spec p = Some (headers_pri_spec frame)"
      using x(7) unpack_pri_bytes [OF assms(4)] by (auto simp: headers_prefix_def)
    moreover have "\<exists>f' k. nghttp2_frame_pack_headers bufs frame d = Some (0, f', d', b' k)"
      unfolding nghttp2_frame_pack_headers_def Let_def using c0 r(1) True headers_prefix_store [OF x(3,2,1)] x(4) by (auto simp: rc_defs)
    ultimately show ?thesis using x(5) v r(2) True by metis
  qed
qed

theorem headers_frame_reaches_peer_witness:
  "\<exists>d i f' d' bufs' p ps i' nvs. nghttp2_hd_deflate_init2 \<lparr>mem_ok = \<lambda>_. True, mem_fill = \<lambda>_. 0\<rparr> 100 = Inr d \<and>
     nghttp2_hd_inflate_init \<lparr>mem_ok = \<lambda>_. True, mem_fill = \<lambda>_. 0\<rparr> = Inr i \<and>
     nghttp2_frame_pack_headers sample_chain (nghttp2_frame_headers_init 36 1 NGHTTP2_HCAT_REQUEST None
       [\<lparr>nv_name = ascii ''x-test'', nv_value = ascii ''one'', nv_flags = 0\<rparr>]) d = Some (0, f', d', bufs') \<and>
     read_frames (bufs_content bufs') = Some (header_frames (nghttp2_frame_hd_init 0 NGHTTP2_HEADERS 36 1) (p # ps)) \<and>
     inflate_header_block i (drop 5 (concat (p # ps))) True = Some (0, i', nvs) \<and> map nv_pair nvs = [(ascii ''x-test'', ascii ''one'')]"
proof -
  let ?al = "\<lparr>mem_ok = \<lambda>_. True, mem_fill = \<lambda>_. 0\<rparr>"
  let ?nv = "\<lparr>nv_name = ascii ''x-test'', nv_value = ascii ''one'', nv_flags = 0\<rparr>"
  define hf where "hf = nghttp2_frame_headers_init 36 1 NGHTTP2_HCAT_REQUEST None [?nv]"
  obtain d where d: "nghttp2_hd_deflate_init2 ?al 100 = Inr d" using deflate_init_ok [of ?al] by auto
  obtain i where i: "nghttp2_hd_inflate_init ?al = Inr i" using inflate_init_ok [of ?al] by auto
  have s: "in_sync d i" using d i by (rule init_sync) simp
  have m: "dfl_mem_ok d" using deflate_init2 [OF d] by (simp add: dfl_mem_ok_def)
  have n: "list_all nv_fits [?nv]" "list_all nv_short [?nv]" by (simp_all add: nv_fits_def nv_short_def)
  have f: "headers_hd hf = nghttp2_frame_hd_init 0 NGHTTP2_HEADERS 36 1" "headers_nva hf = [?nv]" "headers_pri_spec hf = nghttp2_priority_spec_default_init"
    by (simp_all add: hf_def nghttp2_frame_headers_init_def)
  have k: "nghttp2_frame_headers_payload_nv_offset hf = 5"
    unfolding nghttp2_frame_headers_payload_nv_offset_def f by (simp add: nghttp2_frame_priority_len_def nghttp2_frame_hd_init_def ng_defs)
  have c: "headers_chain sample_chain" using sample_chain_fresh(1) by (simp add: headers_chain_def) (simp add: sample_chain_def)
  have r: "enough_room sample_chain d 5 [?nv]"
    using m n(2) by (simp add: enough_room_def deflate_bound_sum nv_bound_def)
      (simp add: sample_chain_def bufs_memok_def bufs_room_def cur_buf_def nghttp2_buf_avail_def)
  have "sid_ok (headers_hd hf)" "pri_spec_ok (headers_pri_spec hf)"
    by (simp_all add: f sid_ok_def nghttp2_frame_hd_init_def pri_spec_ok_def nghttp2_priority_spec_default_init_def ng_defs)
  moreover have "nghttp2_frame_headers_payload_nv_offset hf \<le> nghttp2_buf_avail (head_buf sample_chain)" unfolding k sample_chain_fresh(2) by simp
  moreover have "list_all nv_fits (headers_nva hf)" using n(1) unfolding f .
  ultimately obtain rv f' d' bufs' where p: "nghttp2_frame_pack_headers sample_chain hf d = Some (rv, f', d', bufs')"
    "enough_room sample_chain d 5 [?nv] \<longrightarrow> rv = 0"
    "rv = 0 \<longrightarrow> (\<exists>p ps i' nvs. read_frames (bufs_content bufs') = Some (header_frames (nghttp2_frame_hd_init 0 NGHTTP2_HEADERS 36 1) (p # ps)) \<and>
       (fh_flags (nghttp2_frame_hd_init 0 NGHTTP2_HEADERS 36 1) AND NGHTTP2_FLAG_PRIORITY \<noteq> 0 \<longrightarrow>
          nghttp2_frame_unpack_priority_spec p = Some nghttp2_priority_spec_default_init) \<and>
       inflate_header_block i (drop 5 (concat (p # ps))) True = Some (0, i', nvs) \<and> map nv_pair nvs = map nv_pair [?nv] \<and> in_sync d' i')"
    using headers_frame_reaches_peer [of sample_chain hf d i] c s unfolding k f by blast
  have z: "rv = 0" using p(2) r by blast
  obtain q qs i' nvs where
    "nghttp2_frame_pack_headers sample_chain hf d = Some (0, f', d', bufs')"
    "read_frames (bufs_content bufs') = Some (header_frames (nghttp2_frame_hd_init 0 NGHTTP2_HEADERS 36 1) (q # qs))"
    "inflate_header_block i (drop 5 (concat (q # qs))) True = Some (0, i', nvs)" "map nv_pair nvs = map nv_pair [?nv]"
    using p(1,3) z by blast
  then show ?thesis using d i unfolding hf_def by (intro exI conjI) (auto simp: nv_pair_def)
qed

end
