(* ===== verification/Sfparse.thy ===== *)
theory Sfparse
  imports Prelude "HOL-Library.Monad_Syntax"
begin

unbundle bit_operations_syntax

text \<open>
  The parser of structured fields in \<open>sfparse.c\<close>: bare items, parameters, inner lists, and the
  iteration over dictionaries, lists and items.  The two pointers of the parser are the list of the
  bytes that are left.  A read at its end, a failed assertion and a 64-bit overflow are \<open>None\<close>.  A
  value that is stored through a pointer which may be \<open>NULL\<close> is returned, and dropped by the callers
  that pass \<open>NULL\<close>.
\<close>

subsection \<open>Values and the parser state\<close>

definition SF_ERR_PARSE_ERROR :: int where "SF_ERR_PARSE_ERROR = -1"
definition SF_ERR_EOF :: int where "SF_ERR_EOF = -2"

definition SF_VALUE_FLAG_NONE :: u32 where "SF_VALUE_FLAG_NONE = 0"
definition SF_VALUE_FLAG_ESCAPED_STRING :: u32 where "SF_VALUE_FLAG_ESCAPED_STRING = 1"

type_synonym sf_vec = bytes

datatype sf_value =
  SF_TYPE_BOOLEAN bool
| SF_TYPE_INTEGER int
| SF_TYPE_DECIMAL int int
| SF_TYPE_STRING u32 sf_vec
| SF_TYPE_TOKEN sf_vec
| SF_TYPE_BYTESEQ sf_vec
| SF_TYPE_INNER_LIST
| SF_TYPE_DATE int

record sf_parser =
  sfp_pos :: bytes
  sfp_state :: u32

definition SF_STATE_DICT :: u32 where "SF_STATE_DICT = 0x08"
definition SF_STATE_LIST :: u32 where "SF_STATE_LIST = 0x10"
definition SF_STATE_ITEM :: u32 where "SF_STATE_ITEM = 0x18"
definition SF_STATE_INNER_LIST :: u32 where "SF_STATE_INNER_LIST = 0x04"
definition SF_STATE_BEFORE :: u32 where "SF_STATE_BEFORE = 0x00"
definition SF_STATE_BEFORE_PARAMS :: u32 where "SF_STATE_BEFORE_PARAMS = 0x01"
definition SF_STATE_PARAMS :: u32 where "SF_STATE_PARAMS = 0x02"
definition SF_STATE_AFTER :: u32 where "SF_STATE_AFTER = 0x03"
definition SF_STATE_OP_MASK :: u32 where "SF_STATE_OP_MASK = 0x03"
definition SF_STATE_INITIAL :: u32 where "SF_STATE_INITIAL = 0x00"

definition SF_SET_STATE_AFTER :: "u32 \<Rightarrow> u32" where "SF_SET_STATE_AFTER n = n OR SF_STATE_AFTER"
definition SF_SET_STATE_BEFORE_PARAMS :: "u32 \<Rightarrow> u32" where "SF_SET_STATE_BEFORE_PARAMS n = n OR SF_STATE_BEFORE_PARAMS"
definition SF_SET_STATE_INNER_LIST_BEFORE :: "u32 \<Rightarrow> u32" where
  "SF_SET_STATE_INNER_LIST_BEFORE n = n OR SF_STATE_INNER_LIST OR SF_STATE_BEFORE"

lemmas sf_states [ng_defs] =
  SF_STATE_DICT_def SF_STATE_LIST_def SF_STATE_ITEM_def SF_STATE_INNER_LIST_def SF_STATE_BEFORE_def
  SF_STATE_BEFORE_PARAMS_def SF_STATE_PARAMS_def SF_STATE_AFTER_def SF_STATE_OP_MASK_def SF_STATE_INITIAL_def
  SF_SET_STATE_AFTER_def SF_SET_STATE_BEFORE_PARAMS_def SF_SET_STATE_INNER_LIST_BEFORE_def

type_synonym 'a sf_result = "((int + 'a) \<times> sf_parser) option"

text \<open>The arithmetic on \<open>int64_t\<close>, which must not overflow.\<close>

definition INT64_MAX :: int where "INT64_MAX = 2 ^ 63 - 1"

definition i64 :: "int \<Rightarrow> int option" where
  "i64 x = (if - INT64_MAX - 1 \<le> x \<and> x \<le> INT64_MAX then Some x else None)"

subsection \<open>Characters\<close>

definition DIGIT_CASES :: "u8 \<Rightarrow> bool" where "DIGIT_CASES c \<longleftrightarrow> 0x30 \<le> c \<and> c \<le> 0x39"
definition LCALPHA_CASES :: "u8 \<Rightarrow> bool" where "LCALPHA_CASES c \<longleftrightarrow> 0x61 \<le> c \<and> c \<le> 0x7a"
definition UCALPHA_CASES :: "u8 \<Rightarrow> bool" where "UCALPHA_CASES c \<longleftrightarrow> 0x41 \<le> c \<and> c \<le> 0x5a"
definition ALPHA_CASES :: "u8 \<Rightarrow> bool" where "ALPHA_CASES c \<longleftrightarrow> UCALPHA_CASES c \<or> LCALPHA_CASES c"
definition X20_21_CASES :: "u8 \<Rightarrow> bool" where "X20_21_CASES c \<longleftrightarrow> 0x20 \<le> c \<and> c \<le> 0x21"
definition X23_5B_CASES :: "u8 \<Rightarrow> bool" where "X23_5B_CASES c \<longleftrightarrow> 0x23 \<le> c \<and> c \<le> 0x5b"
definition X5D_7E_CASES :: "u8 \<Rightarrow> bool" where "X5D_7E_CASES c \<longleftrightarrow> 0x5d \<le> c \<and> c \<le> 0x7e"

definition is_ws :: "u8 \<Rightarrow> bool" where
  "is_ws c \<longleftrightarrow> c = 0x20 \<or> c = 0x09"

text \<open>The characters after the first one of a key and of a token.\<close>

definition key_char :: "u8 \<Rightarrow> bool" where
  "key_char c \<longleftrightarrow> c \<in> set (ascii ''_-.*'') \<or> DIGIT_CASES c \<or> LCALPHA_CASES c"

definition token_char :: "u8 \<Rightarrow> bool" where
  "token_char c \<longleftrightarrow> c \<in> set (0x27 # ascii ''!#$%&*+-.^_`|~:/'') \<or> DIGIT_CASES c \<or> ALPHA_CASES c"

subsection \<open>Reading\<close>

definition parser_eof :: "sf_parser \<Rightarrow> bool" where
  "parser_eof sfp \<longleftrightarrow> sfp_pos sfp = []"

text \<open>\<open>*sfp->pos\<close> and \<open>++sfp->pos\<close>.\<close>

definition parser_byte :: "sf_parser \<Rightarrow> u8 option" where
  "parser_byte sfp = (case sfp_pos sfp of [] \<Rightarrow> None | c # cs \<Rightarrow> Some c)"

definition parser_advance :: "sf_parser \<Rightarrow> sf_parser" where
  "parser_advance sfp = sfp\<lparr>sfp_pos := tl (sfp_pos sfp)\<rparr>"

definition parser_at :: "sf_parser \<Rightarrow> u8 \<Rightarrow> bool" where
  "parser_at sfp c \<longleftrightarrow> \<not> parser_eof sfp \<and> hd (sfp_pos sfp) = c"

definition parser_discard_ows :: "sf_parser \<Rightarrow> sf_parser" where
  "parser_discard_ows sfp = sfp\<lparr>sfp_pos := dropWhile is_ws (sfp_pos sfp)\<rparr>"

definition parser_discard_sp :: "sf_parser \<Rightarrow> sf_parser" where
  "parser_discard_sp sfp = sfp\<lparr>sfp_pos := dropWhile (\<lambda>c. c = 0x20) (sfp_pos sfp)\<rparr>"

definition parser_set_op_state :: "sf_parser \<Rightarrow> u32 \<Rightarrow> sf_parser" where
  "parser_set_op_state sfp op = sfp\<lparr>sfp_state := (sfp_state sfp AND NOT SF_STATE_OP_MASK) OR op\<rparr>"

definition parser_unset_inner_list_state :: "sf_parser \<Rightarrow> sf_parser" where
  "parser_unset_inner_list_state sfp = sfp\<lparr>sfp_state := sfp_state sfp AND NOT SF_STATE_INNER_LIST\<rparr>"

definition parser_key :: "sf_parser \<Rightarrow> sf_vec sf_result" where
  "parser_key sfp =
     do { c \<leftarrow> parser_byte sfp;
          if c = 0x2a \<or> LCALPHA_CASES c
          then let p = tl (sfp_pos sfp) in Some (Inr (c # takeWhile key_char p), sfp\<lparr>sfp_pos := dropWhile key_char p\<rparr>)
          else Some (Inl SF_ERR_PARSE_ERROR, sfp) }"

text \<open>A run of digits: whether it is short enough, the rest, and the length and the value so far.\<close>

fun digits_loop :: "bytes \<Rightarrow> nat \<Rightarrow> int \<Rightarrow> (bool \<times> bytes \<times> nat \<times> int) option" where
  "digits_loop [] len v = Some (True, [], len, v)"
| "digits_loop (c # cs) len v =
     (if DIGIT_CASES c then
        if len + 1 > 15 then Some (False, c # cs, len + 1, v)
        else do { v \<leftarrow> i64 (v * 10); v \<leftarrow> i64 (v + (uint c - 0x30)); digits_loop cs (len + 1) v }
      else Some (True, c # cs, len, v))"

definition parser_number :: "sf_parser \<Rightarrow> sf_value sf_result" where
  "parser_number sfp =
     do { c \<leftarrow> parser_byte sfp;
          let neg = (c = 0x2d);
          let sfp = (if neg then parser_advance sfp else sfp);
          if neg \<and> parser_eof sfp then Some (Inl SF_ERR_PARSE_ERROR, sfp)
          else if parser_eof sfp then None
          else
            do { (ok, p, len, v) \<leftarrow> digits_loop (sfp_pos sfp) 0 0;
                 let sfp = sfp\<lparr>sfp_pos := p\<rparr>;
                 if \<not> ok \<or> len = 0 then Some (Inl SF_ERR_PARSE_ERROR, sfp)
                 else if \<not> parser_at sfp 0x2e then
                   do { n \<leftarrow> i64 (v * (if neg then -1 else 1)); Some (Inr (SF_TYPE_INTEGER n), sfp) }
                 else if len > 12 then Some (Inl SF_ERR_PARSE_ERROR, sfp)
                 else
                   do { let fpos = len;
                        (ok, p, len, v) \<leftarrow> digits_loop (tl p) len v;
                        let sfp = sfp\<lparr>sfp_pos := p\<rparr>;
                        if \<not> ok \<or> fpos = len \<or> len - fpos > 3 then Some (Inl SF_ERR_PARSE_ERROR, sfp)
                        else
                          do { n \<leftarrow> i64 (v * (if neg then -1 else 1));
                               Some (Inr (SF_TYPE_DECIMAL n (if len - fpos = 1 then 10 else if len - fpos = 2 then 100 else 1000)), sfp) } } } }"

definition parser_date :: "sf_parser \<Rightarrow> sf_value sf_result" where
  "parser_date sfp =
     (if \<not> parser_at sfp 0x40 then None
      else
        let sfp = parser_advance sfp
        in if parser_eof sfp then Some (Inl SF_ERR_PARSE_ERROR, sfp)
           else
             do { (r, sfp) \<leftarrow> parser_number sfp;
                  case r of
                    Inl rv \<Rightarrow> Some (Inl rv, sfp)
                  | Inr v \<Rightarrow> (case v of SF_TYPE_INTEGER n \<Rightarrow> Some (Inr (SF_TYPE_DATE n), sfp)
                                     | _ \<Rightarrow> Some (Inl SF_ERR_PARSE_ERROR, sfp)) })"

text \<open>The loops over a string and a byte sequence keep the bytes since \<open>base\<close>.\<close>

fun string_loop :: "bytes \<Rightarrow> u32 \<Rightarrow> bytes \<Rightarrow> (u32 \<times> bytes) option \<times> bytes" where
  "string_loop [] fl done = (None, [])"
| "string_loop (c # cs) fl done =
     (if X20_21_CASES c \<or> X23_5B_CASES c \<or> X5D_7E_CASES c then string_loop cs fl (done @ [c])
      else if c = 0x5c then
        (case cs of
           [] \<Rightarrow> (None, [])
         | d # ds \<Rightarrow> if d = 0x22 \<or> d = 0x5c then string_loop ds SF_VALUE_FLAG_ESCAPED_STRING (done @ [c, d]) else (None, d # ds))
      else if c = 0x22 then (Some (fl, done), cs)
      else (None, c # cs))"

definition parser_string :: "sf_parser \<Rightarrow> sf_value sf_result" where
  "parser_string sfp =
     (if \<not> parser_at sfp 0x22 then None
      else
        let (r, p) = string_loop (tl (sfp_pos sfp)) SF_VALUE_FLAG_NONE []
        in Some (case r of None \<Rightarrow> Inl SF_ERR_PARSE_ERROR | Some (fl, s) \<Rightarrow> Inr (SF_TYPE_STRING fl s), sfp\<lparr>sfp_pos := p\<rparr>))"

definition parser_token :: "sf_parser \<Rightarrow> sf_value sf_result" where
  "parser_token sfp =
     do { c \<leftarrow> parser_byte sfp;
          let p = tl (sfp_pos sfp);
          Some (Inr (SF_TYPE_TOKEN (c # takeWhile token_char p)), sfp\<lparr>sfp_pos := dropWhile token_char p\<rparr>) }"

definition byteseq_fin :: "bytes \<Rightarrow> bytes \<Rightarrow> bytes option \<times> bytes" where
  "byteseq_fin p done = (if p = [] \<or> hd p \<noteq> 0x3a then (None, p) else (Some done, tl p))"

fun byteseq_loop :: "bytes \<Rightarrow> bytes \<Rightarrow> bytes option \<times> bytes" where
  "byteseq_loop [] done = (None, [])"
| "byteseq_loop (c # cs) done =
     (if c = 0x2b \<or> c = 0x2f \<or> DIGIT_CASES c \<or> ALPHA_CASES c then byteseq_loop cs (done @ [c])
      else if c = 0x3d then
        (if length done mod 4 \<le> 1 then (None, c # cs)
         else if length done mod 4 = 2 then
           (if last done \<notin> set (ascii ''AQgw'') then (None, c # cs)
            else if cs = [] \<or> hd cs \<noteq> 0x3d then (None, cs)
            else byteseq_fin (tl cs) (done @ [c, hd cs]))
         else if last done \<notin> set (ascii ''AEIMQUYcgkosw048'') then (None, c # cs)
         else byteseq_fin cs (done @ [c]))
      else if c = 0x3a then (if length done mod 4 \<noteq> 0 then (None, c # cs) else (Some done, cs))
      else (None, c # cs))"

definition parser_byteseq :: "sf_parser \<Rightarrow> sf_value sf_result" where
  "parser_byteseq sfp =
     (if \<not> parser_at sfp 0x3a then None
      else
        let (r, p) = byteseq_loop (tl (sfp_pos sfp)) []
        in Some (case r of None \<Rightarrow> Inl SF_ERR_PARSE_ERROR | Some s \<Rightarrow> Inr (SF_TYPE_BYTESEQ s), sfp\<lparr>sfp_pos := p\<rparr>))"

definition parser_boolean :: "sf_parser \<Rightarrow> sf_value sf_result" where
  "parser_boolean sfp =
     (if \<not> parser_at sfp 0x3f then None
      else
        let sfp = parser_advance sfp
        in case parser_byte sfp of
             None \<Rightarrow> Some (Inl SF_ERR_PARSE_ERROR, sfp)
           | Some c \<Rightarrow>
               if c = 0x30 then Some (Inr (SF_TYPE_BOOLEAN False), parser_advance sfp)
               else if c = 0x31 then Some (Inr (SF_TYPE_BOOLEAN True), parser_advance sfp)
               else Some (Inl SF_ERR_PARSE_ERROR, sfp))"

definition parser_bare_item :: "sf_parser \<Rightarrow> sf_value sf_result" where
  "parser_bare_item sfp =
     do { c \<leftarrow> parser_byte sfp;
          if c = 0x22 then parser_string sfp
          else if c = 0x2d \<or> DIGIT_CASES c then parser_number sfp
          else if c = 0x40 then parser_date sfp
          else if c = 0x3a then parser_byteseq sfp
          else if c = 0x3f then parser_boolean sfp
          else if c = 0x2a \<or> ALPHA_CASES c then parser_token sfp
          else Some (Inl SF_ERR_PARSE_ERROR, sfp) }"

subsection \<open>Parameters and inner lists\<close>

definition parser_param_tail :: "sf_parser \<Rightarrow> (sf_vec \<times> sf_value) sf_result" where
  "parser_param_tail sfp =
     (if \<not> parser_at sfp 0x3b then Some (Inl SF_ERR_EOF, parser_set_op_state sfp SF_STATE_AFTER)
      else
        let sfp = parser_discard_sp (parser_advance sfp)
        in if parser_eof sfp then Some (Inl SF_ERR_PARSE_ERROR, sfp)
           else
             do { (r, sfp) \<leftarrow> parser_key sfp;
                  case r of
                    Inl rv \<Rightarrow> Some (Inl rv, sfp)
                  | Inr key \<Rightarrow>
                      if \<not> parser_at sfp 0x3d then Some (Inr (key, SF_TYPE_BOOLEAN True), sfp)
                      else
                        let sfp = parser_advance sfp
                        in if parser_eof sfp then Some (Inl SF_ERR_PARSE_ERROR, sfp)
                           else do { (r, sfp) \<leftarrow> parser_bare_item sfp;
                                     case r of Inl rv \<Rightarrow> Some (Inl rv, sfp) | Inr v \<Rightarrow> Some (Inr (key, v), sfp) } })"

text \<open>
  \<open>sf_parser_param\<close> with what it does in the state \<open>SF_STATE_BEFORE\<close> as an argument.  The loop that
  skips parameters is only entered in other states, so it has no use for the argument, which
  breaks the cycle of calls between parameters and inner lists.
\<close>

definition sf_parser_param_with :: "(sf_parser \<Rightarrow> unit sf_result) \<Rightarrow> sf_parser \<Rightarrow> (sf_vec \<times> sf_value) sf_result" where
  "sf_parser_param_with skip_inner_list sfp =
     (let op = sfp_state sfp AND SF_STATE_OP_MASK
      in if op = SF_STATE_BEFORE then
           do { (r, sfp) \<leftarrow> skip_inner_list sfp;
                case r of Inl rv \<Rightarrow> Some (Inl rv, sfp) | Inr _ \<Rightarrow> parser_param_tail (parser_set_op_state sfp SF_STATE_PARAMS) }
         else if op = SF_STATE_BEFORE_PARAMS then parser_param_tail (parser_set_op_state sfp SF_STATE_PARAMS)
         else if op = SF_STATE_PARAMS then parser_param_tail sfp
         else None)"

partial_function (option) parser_skip_params :: "sf_parser \<Rightarrow> unit sf_result" where
  "parser_skip_params sfp =
     (case sf_parser_param_with (\<lambda>_. None) sfp of
        None \<Rightarrow> None
      | Some (r, sfp) \<Rightarrow>
          (case r of
             Inr _ \<Rightarrow> parser_skip_params sfp
           | Inl rv \<Rightarrow> if rv = SF_ERR_EOF then Some (Inr (), sfp)
                       else if rv = SF_ERR_PARSE_ERROR then Some (Inl rv, sfp) else None))"

definition parser_inner_list_item :: "sf_parser \<Rightarrow> sf_value sf_result" where
  "parser_inner_list_item sfp =
     do { c \<leftarrow> parser_byte sfp;
          if c = 0x29
          then Some (Inl SF_ERR_EOF, parser_set_op_state (parser_unset_inner_list_state (parser_advance sfp)) SF_STATE_BEFORE_PARAMS)
          else do { (r, sfp) \<leftarrow> parser_bare_item sfp;
                    case r of Inl rv \<Rightarrow> Some (Inl rv, sfp) | Inr v \<Rightarrow> Some (Inr v, parser_set_op_state sfp SF_STATE_BEFORE_PARAMS) } }"

definition parser_inner_list_after :: "sf_parser \<Rightarrow> sf_value sf_result" where
  "parser_inner_list_after sfp =
     (if parser_eof sfp then Some (Inl SF_ERR_PARSE_ERROR, sfp)
      else if parser_at sfp 0x20 then
        let sfp = parser_discard_sp sfp
        in if parser_eof sfp then Some (Inl SF_ERR_PARSE_ERROR, sfp) else parser_inner_list_item sfp
      else if parser_at sfp 0x29 then parser_inner_list_item sfp
      else Some (Inl SF_ERR_PARSE_ERROR, sfp))"

definition sf_parser_inner_list :: "sf_parser \<Rightarrow> sf_value sf_result" where
  "sf_parser_inner_list sfp =
     (let op = sfp_state sfp AND SF_STATE_OP_MASK
      in if op = SF_STATE_BEFORE then
           let sfp = parser_discard_sp sfp
           in if parser_eof sfp then Some (Inl SF_ERR_PARSE_ERROR, sfp) else parser_inner_list_item sfp
         else if op = SF_STATE_BEFORE_PARAMS then
           do { (r, sfp) \<leftarrow> parser_skip_params sfp;
                case r of Inl rv \<Rightarrow> Some (Inl rv, sfp) | Inr _ \<Rightarrow> parser_inner_list_after sfp }
         else if op = SF_STATE_AFTER then parser_inner_list_after sfp
         else None)"

partial_function (option) parser_skip_inner_list :: "sf_parser \<Rightarrow> unit sf_result" where
  "parser_skip_inner_list sfp =
     (case sf_parser_inner_list sfp of
        None \<Rightarrow> None
      | Some (r, sfp) \<Rightarrow>
          (case r of
             Inr _ \<Rightarrow> parser_skip_inner_list sfp
           | Inl rv \<Rightarrow> if rv = SF_ERR_EOF then Some (Inr (), sfp)
                       else if rv = SF_ERR_PARSE_ERROR then Some (Inl rv, sfp) else None))"

definition sf_parser_param :: "sf_parser \<Rightarrow> (sf_vec \<times> sf_value) sf_result" where
  "sf_parser_param sfp = sf_parser_param_with parser_skip_inner_list sfp"

subsection \<open>Dictionaries, lists and items\<close>

definition parser_next_key_or_item :: "sf_parser \<Rightarrow> unit sf_result" where
  "parser_next_key_or_item sfp =
     (let sfp = parser_discard_ows sfp
      in if parser_eof sfp then Some (Inl SF_ERR_EOF, sfp)
         else if \<not> parser_at sfp 0x2c then Some (Inl SF_ERR_PARSE_ERROR, sfp)
         else
           let sfp = parser_discard_ows (parser_advance sfp)
           in if parser_eof sfp then Some (Inl SF_ERR_PARSE_ERROR, sfp) else Some (Inr (), sfp))"

text \<open>An inner list or a bare item, and the state it leaves for the container \<open>n\<close>.\<close>

definition parser_member :: "u32 \<Rightarrow> sf_parser \<Rightarrow> sf_value sf_result" where
  "parser_member n sfp =
     do { c \<leftarrow> parser_byte sfp;
          if c = 0x28 then Some (Inr SF_TYPE_INNER_LIST, (parser_advance sfp)\<lparr>sfp_state := SF_SET_STATE_INNER_LIST_BEFORE n\<rparr>)
          else do { (r, sfp) \<leftarrow> parser_bare_item sfp;
                    case r of Inl rv \<Rightarrow> Some (Inl rv, sfp) | Inr v \<Rightarrow> Some (Inr v, sfp\<lparr>sfp_state := SF_SET_STATE_BEFORE_PARAMS n\<rparr>) } }"

definition parser_dict_value :: "sf_parser \<Rightarrow> sf_value sf_result" where
  "parser_dict_value sfp =
     (if \<not> parser_at sfp 0x3d then Some (Inr (SF_TYPE_BOOLEAN True), sfp\<lparr>sfp_state := SF_SET_STATE_BEFORE_PARAMS SF_STATE_DICT\<rparr>)
      else
        let sfp = parser_advance sfp
        in if parser_eof sfp then Some (Inl SF_ERR_PARSE_ERROR, sfp) else parser_member SF_STATE_DICT sfp)"

text \<open>The fall-through cases that skip what is left of the previous member of the container \<open>n\<close>.\<close>

definition parser_skip_member :: "u32 \<Rightarrow> sf_parser \<Rightarrow> unit sf_result" where
  "parser_skip_member n sfp =
     (let params = (\<lambda>sfp. parser_skip_params sfp)
      in if sfp_state sfp = SF_SET_STATE_INNER_LIST_BEFORE n then
           do { (r, sfp) \<leftarrow> parser_skip_inner_list sfp;
                case r of Inl rv \<Rightarrow> Some (Inl rv, sfp) | Inr _ \<Rightarrow> params sfp }
         else if sfp_state sfp = SF_SET_STATE_BEFORE_PARAMS n then params sfp
         else if sfp_state sfp = SF_SET_STATE_AFTER n then Some (Inr (), sfp)
         else None)"

definition parser_start_member :: "u32 \<Rightarrow> sf_parser \<Rightarrow> unit sf_result" where
  "parser_start_member n sfp =
     (if sfp_state sfp = SF_STATE_INITIAL then
        let sfp = parser_discard_sp sfp
        in if parser_eof sfp then Some (Inl SF_ERR_EOF, sfp) else Some (Inr (), sfp)
      else
        do { (r, sfp) \<leftarrow> parser_skip_member n sfp;
             case r of Inl rv \<Rightarrow> Some (Inl rv, sfp) | Inr _ \<Rightarrow> parser_next_key_or_item sfp })"

definition sf_parser_dict :: "sf_parser \<Rightarrow> (sf_vec \<times> sf_value) sf_result" where
  "sf_parser_dict sfp =
     do { (r, sfp) \<leftarrow> parser_start_member SF_STATE_DICT sfp;
          case r of
            Inl rv \<Rightarrow> Some (Inl rv, sfp)
          | Inr _ \<Rightarrow>
              do { (r, sfp) \<leftarrow> parser_key sfp;
                   case r of
                     Inl rv \<Rightarrow> Some (Inl rv, sfp)
                   | Inr key \<Rightarrow>
                       do { (r, sfp) \<leftarrow> parser_dict_value sfp;
                            case r of Inl rv \<Rightarrow> Some (Inl rv, sfp) | Inr v \<Rightarrow> Some (Inr (key, v), sfp) } } }"

definition sf_parser_list :: "sf_parser \<Rightarrow> sf_value sf_result" where
  "sf_parser_list sfp =
     do { (r, sfp) \<leftarrow> parser_start_member SF_STATE_LIST sfp;
          case r of Inl rv \<Rightarrow> Some (Inl rv, sfp) | Inr _ \<Rightarrow> parser_member SF_STATE_LIST sfp }"

definition sf_parser_item :: "sf_parser \<Rightarrow> sf_value sf_result" where
  "sf_parser_item sfp =
     (if sfp_state sfp = SF_STATE_INITIAL then
        let sfp = parser_discard_sp sfp
        in if parser_eof sfp then Some (Inl SF_ERR_PARSE_ERROR, sfp) else parser_member SF_STATE_ITEM sfp
      else
        do { (r, sfp) \<leftarrow> parser_skip_member SF_STATE_ITEM sfp;
             case r of
               Inl rv \<Rightarrow> Some (Inl rv, sfp)
             | Inr _ \<Rightarrow>
                 let sfp = parser_discard_sp sfp
                 in Some (Inl (if \<not> parser_eof sfp then SF_ERR_PARSE_ERROR else SF_ERR_EOF), sfp) })"

definition sf_parser_init :: "bytes \<Rightarrow> sf_parser" where
  "sf_parser_init data = \<lparr>sfp_pos = data, sfp_state = SF_STATE_INITIAL\<rparr>"

subsection \<open>Decoding strings and byte sequences\<close>

text \<open>
  The destination has room for \<open>room\<close> bytes; a store past it is \<open>None\<close>.  When nothing has to be
  copied the destination becomes the source, whatever its room.
\<close>

definition put_bytes :: "nat \<Rightarrow> bytes \<Rightarrow> bytes \<Rightarrow> bytes option" where
  "put_bytes room out bs = (if length out + length bs \<le> room then Some (out @ bs) else None)"

function unescape_loop :: "nat \<Rightarrow> bytes \<Rightarrow> bytes \<Rightarrow> bytes \<Rightarrow> bytes option" where
  "unescape_loop room src p out =
     (let run = takeWhile (\<lambda>c. c \<noteq> 0x5c) p; q = dropWhile (\<lambda>c. c \<noteq> 0x5c) p
      in if q = [] then (if length p = length src then Some src else put_bytes room out p)
         else
           do { out \<leftarrow> put_bytes room out run;
                case tl q of
                  [] \<Rightarrow> None
                | c # p \<Rightarrow> do { out \<leftarrow> put_bytes room out [c]; unescape_loop room src p out } })"
  by pat_completeness auto
termination
proof (relation "measure (\<lambda>(room, src, p, out). length p)", goal_cases)
  case (2 room src p out run q out' c p' out'')
  have "length q \<le> length p" using 2(2) by (simp add: length_dropWhile_le)
  moreover have "length p' < length q" using 2(3,5) by (cases q) auto
  ultimately show ?case by simp
qed simp

declare unescape_loop.simps [simp del]

definition sf_unescape :: "nat \<Rightarrow> sf_vec \<Rightarrow> sf_vec option" where
  "sf_unescape room src = (if src = [] then Some src else unescape_loop room src src [])"

definition index_tbl :: "int list" where
  "index_tbl = [
     -1, -1, -1, -1, -1, -1, -1, -1, -1, -1, -1, -1, -1, -1, -1, -1,
     -1, -1, -1, -1, -1, -1, -1, -1, -1, -1, -1, -1, -1, -1, -1, -1,
     -1, -1, -1, -1, -1, -1, -1, -1, -1, -1, -1, 62, -1, -1, -1, 63,
     52, 53, 54, 55, 56, 57, 58, 59, 60, 61, -1, -1, -1, -1, -1, -1,
     -1, 0, 1, 2, 3, 4, 5, 6, 7, 8, 9, 10, 11, 12, 13, 14,
     15, 16, 17, 18, 19, 20, 21, 22, 23, 24, 25, -1, -1, -1, -1, -1,
     -1, 26, 27, 28, 29, 30, 31, 32, 33, 34, 35, 36, 37, 38, 39, 40,
     41, 42, 43, 44, 45, 46, 47, 48, 49, 50, 51, -1, -1, -1, -1, -1,
     -1, -1, -1, -1, -1, -1, -1, -1, -1, -1, -1, -1, -1, -1, -1, -1,
     -1, -1, -1, -1, -1, -1, -1, -1, -1, -1, -1, -1, -1, -1, -1, -1,
     -1, -1, -1, -1, -1, -1, -1, -1, -1, -1, -1, -1, -1, -1, -1, -1,
     -1, -1, -1, -1, -1, -1, -1, -1, -1, -1, -1, -1, -1, -1, -1, -1,
     -1, -1, -1, -1, -1, -1, -1, -1, -1, -1, -1, -1, -1, -1, -1, -1,
     -1, -1, -1, -1, -1, -1, -1, -1, -1, -1, -1, -1, -1, -1, -1, -1,
     -1, -1, -1, -1, -1, -1, -1, -1, -1, -1, -1, -1, -1, -1, -1, -1,
     -1, -1, -1, -1, -1, -1, -1, -1, -1, -1, -1, -1, -1, -1, -1, -1]"

text \<open>A group of four characters: the bits it has, or the last bytes when it ends in padding.\<close>

definition b64_byte :: "u32 \<Rightarrow> nat \<Rightarrow> u8" where
  "b64_byte n k = ucast (drop_bit k n)"

fun base64_group :: "nat \<Rightarrow> u32 \<Rightarrow> bytes \<Rightarrow> (bytes + u32 \<times> bytes) option" where
  "base64_group i n [] = (if i > 4 then Some (Inr (n, [])) else None)"
| "base64_group i n (c # cs) =
     (if i > 4 then Some (Inr (n, c # cs))
      else
        let idx = index_tbl ! unat c
        in if idx = -1 then
             if i \<le> 2 then None
             else if i = 3 then (if c = 0x3d \<and> cs = [0x3d] then Some (Inl [b64_byte n 16]) else None)
             else if c = 0x3d \<and> cs = [] then Some (Inl [b64_byte n 16, b64_byte n 8])
             else None
           else base64_group (i + 1) (n + push_bit (24 - i * 6) (of_int idx)) cs)"

lemma base64_group_length: "base64_group i n p = Some (Inr (m, p')) \<Longrightarrow> i \<le> 5 \<Longrightarrow> length p' + (5 - i) = length p"
  by (induction i n p rule: base64_group.induct) (auto simp: Let_def split: if_splits)

function base64_loop :: "nat \<Rightarrow> bytes \<Rightarrow> bytes \<Rightarrow> bytes option" where
  "base64_loop room p out =
     (if p = [] then Some out
      else
        do { r \<leftarrow> base64_group 1 0 p;
             case r of
               Inl bs \<Rightarrow> put_bytes room out bs
             | Inr (n, p) \<Rightarrow> do { out \<leftarrow> put_bytes room out [b64_byte n 16, b64_byte n 8, b64_byte n 0]; base64_loop room p out } })"
  by pat_completeness auto
termination
  by (relation "measure (\<lambda>(room, p, out). length p)") (auto dest: base64_group_length)

declare base64_loop.simps [simp del]

definition sf_base64decode :: "nat \<Rightarrow> sf_vec \<Rightarrow> sf_vec option" where
  "sf_base64decode room src =
     (if length src mod 4 \<noteq> 0 then None
      else if src = [] then Some src
      else base64_loop room src [])"


subsection \<open>Every reader returns and makes progress\<close>

text \<open>
  What a reader of a non-empty input guarantees: it returns, the input does not grow and shrinks
  when a value was read, the state is kept, and the only error is a parse error.
\<close>

definition reads :: "sf_parser \<Rightarrow> 'a sf_result \<Rightarrow> bool" where
  "reads sfp r \<longleftrightarrow> (\<exists>x sfp'. r = Some (x, sfp') \<and> sfp_state sfp' = sfp_state sfp \<and> length (sfp_pos sfp') \<le> length (sfp_pos sfp) \<and>
     (case x of Inl e \<Rightarrow> e = SF_ERR_PARSE_ERROR | Inr _ \<Rightarrow> length (sfp_pos sfp') < length (sfp_pos sfp)))"

lemma length_dropWhile_Cons: "length (dropWhile P cs) < Suc (length cs)"
  using length_dropWhile_le [of P cs] by simp

lemmas parser_defs = parser_byte_def parser_advance_def parser_at_def parser_eof_def parser_discard_sp_def parser_discard_ows_def

lemma digit_value: "DIGIT_CASES c \<Longrightarrow> 0 \<le> uint c - 0x30 \<and> uint c - 0x30 \<le> 9"
  by (simp add: DIGIT_CASES_def word_le_def)

lemma digits_loop_bounds:
  "0 \<le> v \<Longrightarrow> v < 10 ^ len \<Longrightarrow> len \<le> 15 \<Longrightarrow>
   \<exists>ok p' len' v'. digits_loop p len v = Some (ok, p', len', v') \<and> length p' \<le> length p \<and> len \<le> len' \<and>
     (len' \<noteq> len \<and> ok \<longrightarrow> length p' < length p) \<and> (ok \<longrightarrow> len' \<le> 15 \<and> 0 \<le> v' \<and> v' < 10 ^ len')"
proof (induction p arbitrary: len v)
  case (Cons c p)
  show ?case
  proof (cases "DIGIT_CASES c \<and> len < 15")
    case True
    note d = digit_value [OF conjunct1 [OF True]]
    let ?v = "v * 10 + (uint c - 0x30)"
    have "v + 1 \<le> 10 ^ len" using Cons.prems(2) by simp
    then have b: "?v < 10 ^ (len + 1)" "0 \<le> ?v" using d Cons.prems(1) by auto
    have "(10 :: int) ^ (len + 1) \<le> 10 ^ 15" using True by (intro power_increasing) auto
    then have "i64 (v * 10) = Some (v * 10)" "i64 ?v = Some ?v"
      using b d Cons.prems(1) by (auto simp: i64_def INT64_MAX_def)
    then have "digits_loop (c # p) len v = digits_loop p (len + 1) ?v" using True by simp
    then show ?thesis using Cons.IH [OF b(2,1)] True by fastforce
  qed (use Cons.prems in \<open>auto\<close>)
qed auto

lemma i64_15:
  assumes "0 \<le> v" "v < 10 ^ len" "len \<le> 15"
  shows "i64 v = Some v" "i64 (- v) = Some (- v)"
proof -
  have "(10 :: int) ^ len \<le> 10 ^ 15" using assms(3) by (intro power_increasing) auto
  then have "v < 10 ^ 15" using assms(2) by linarith
  then show "i64 v = Some v" "i64 (- v) = Some (- v)" using assms(1) by (simp_all add: i64_def INT64_MAX_def)
qed

text \<open>
  The integers that can be read have at most 15 digits, the decimals at most 12 and 3.  The escapes
  of a string are complete and its flag says whether it has any; a byte sequence is made of whole
  groups, and padding only ends it.
\<close>

fun string_ok :: "bytes \<Rightarrow> bool" where
  "string_ok [] \<longleftrightarrow> True"
| "string_ok (c # cs) \<longleftrightarrow>
     (if c = 0x5c then (case cs of [] \<Rightarrow> False | d # ds \<Rightarrow> (d = 0x22 \<or> d = 0x5c) \<and> string_ok ds)
      else (X20_21_CASES c \<or> X23_5B_CASES c \<or> X5D_7E_CASES c) \<and> string_ok cs)"

definition b64_char :: "u8 \<Rightarrow> bool" where
  "b64_char c \<longleftrightarrow> c = 0x2b \<or> c = 0x2f \<or> DIGIT_CASES c \<or> ALPHA_CASES c"

definition byteseq_ok :: "bytes \<Rightarrow> bool" where
  "byteseq_ok s \<longleftrightarrow> length s mod 4 = 0 \<and> dropWhile b64_char s \<in> {[], [0x3d], [0x3d, 0x3d]}"

definition value_ok :: "sf_value \<Rightarrow> bool" where
  "value_ok v \<longleftrightarrow> (case v of
      SF_TYPE_INTEGER n \<Rightarrow> \<bar>n\<bar> < 10 ^ 15
    | SF_TYPE_DATE n \<Rightarrow> \<bar>n\<bar> < 10 ^ 15
    | SF_TYPE_DECIMAL n d \<Rightarrow> \<bar>n\<bar> < 10 ^ 15 \<and> d \<in> {10, 100, 1000}
    | SF_TYPE_STRING fl s \<Rightarrow> string_ok s \<and> fl = (if 0x5c \<in> set s then SF_VALUE_FLAG_ESCAPED_STRING else SF_VALUE_FLAG_NONE)
    | SF_TYPE_BYTESEQ s \<Rightarrow> byteseq_ok s
    | _ \<Rightarrow> True)"

definition reads_value :: "sf_parser \<Rightarrow> sf_value sf_result \<Rightarrow> bool" where
  "reads_value sfp r \<longleftrightarrow> reads sfp r \<and> (\<forall>v sfp'. r = Some (Inr v, sfp') \<longrightarrow> value_ok v)"

lemma reads_cases:
  assumes "reads sfp r"
  obtains v s where "r = Some (Inr v, s)" "sfp_state s = sfp_state sfp" "length (sfp_pos s) < length (sfp_pos sfp)"
  | s where "r = Some (Inl SF_ERR_PARSE_ERROR, s)" "sfp_state s = sfp_state sfp" "length (sfp_pos s) \<le> length (sfp_pos sfp)"
proof -
  obtain x s where "r = Some (x, s)" "sfp_state s = sfp_state sfp" "length (sfp_pos s) \<le> length (sfp_pos sfp)"
    "case x of Inl e \<Rightarrow> e = SF_ERR_PARSE_ERROR | Inr _ \<Rightarrow> length (sfp_pos s) < length (sfp_pos sfp)"
    using assms unfolding reads_def by blast
  then show thesis using that by (cases x) auto
qed

lemma reads_value_cases:
  assumes "reads_value sfp r"
  obtains v s where "r = Some (Inr v, s)" "value_ok v" "sfp_state s = sfp_state sfp" "length (sfp_pos s) < length (sfp_pos sfp)"
  | s where "r = Some (Inl SF_ERR_PARSE_ERROR, s)" "sfp_state s = sfp_state sfp" "length (sfp_pos s) \<le> length (sfp_pos sfp)"
  using assms unfolding reads_value_def by (auto elim: reads_cases)

lemma abs_15: "0 \<le> (v :: int) \<Longrightarrow> v < 10 ^ len \<Longrightarrow> len \<le> 15 \<Longrightarrow> \<bar>v\<bar> < 10 ^ 15"
  using power_increasing [of len 15 "10 :: int"] by simp

lemma number_reads:
  assumes "sfp_pos sfp = c # cs"
  shows "reads_value sfp (parser_number sfp)"
proof -
  let ?neg = "c = 0x2d" and ?p = "if c = 0x2d then cs else c # cs"
  let ?sfp = "sfp\<lparr>sfp_pos := ?p\<rparr>"
  have s: "(if ?neg then parser_advance sfp else sfp) = ?sfp" using assms by (simp add: parser_advance_def)
  show ?thesis
  proof (cases "?p = []")
    case True
    then show ?thesis using assms
      by (auto simp: parser_number_def parser_defs reads_value_def reads_def split: if_splits)
  next
    case False
    obtain ok q len v where d0: "digits_loop ?p 0 0 = Some (ok, q, len, v)" "length q \<le> length ?p" "ok \<longrightarrow> len \<le> 15 \<and> 0 \<le> v \<and> v < 10 ^ len"
      "len \<noteq> 0 \<and> ok \<longrightarrow> length q < length ?p"
      using digits_loop_bounds [of 0 0 ?p] by auto
    have "length ?p \<le> Suc (length cs)" by simp
    then have d: "digits_loop ?p 0 0 = Some (ok, q, len, v)" "length q \<le> Suc (length cs)" "ok \<longrightarrow> len \<le> 15 \<and> 0 \<le> v \<and> v < 10 ^ len"
      "len \<noteq> 0 \<and> ok \<longrightarrow> length q < Suc (length cs)" using d0 by linarith+
    have n: "parser_number sfp = (if \<not> ok \<or> len = 0 then Some (Inl SF_ERR_PARSE_ERROR, sfp\<lparr>sfp_pos := q\<rparr>)
        else if \<not> parser_at (sfp\<lparr>sfp_pos := q\<rparr>) 0x2e then
          do { n \<leftarrow> i64 (v * (if ?neg then -1 else 1)); Some (Inr (SF_TYPE_INTEGER n), sfp\<lparr>sfp_pos := q\<rparr>) }
        else if len > 12 then Some (Inl SF_ERR_PARSE_ERROR, sfp\<lparr>sfp_pos := q\<rparr>)
        else
          do { (ok, p, len', v) \<leftarrow> digits_loop (tl q) len v;
               if \<not> ok \<or> len = len' \<or> len' - len > 3 then Some (Inl SF_ERR_PARSE_ERROR, sfp\<lparr>sfp_pos := p\<rparr>)
               else do { n \<leftarrow> i64 (v * (if ?neg then -1 else 1));
                         Some (Inr (SF_TYPE_DECIMAL n (if len' - len = 1 then 10 else if len' - len = 2 then 100 else 1000)), sfp\<lparr>sfp_pos := p\<rparr>) } })"
      using assms False d(1) unfolding parser_number_def by (simp add: parser_byte_def s Let_def parser_eof_def)
    consider "\<not> ok \<or> len = 0" | "ok" "len \<noteq> 0" "\<not> parser_at (sfp\<lparr>sfp_pos := q\<rparr>) 0x2e"
      | "ok" "len \<noteq> 0" "parser_at (sfp\<lparr>sfp_pos := q\<rparr>) 0x2e" "12 < len" | "ok" "len \<noteq> 0" "parser_at (sfp\<lparr>sfp_pos := q\<rparr>) 0x2e" "len \<le> 12" by linarith
    then show ?thesis
    proof cases
      case 2
      then show ?thesis using n d assms i64_15 [of v len] abs_15 [of v len] by (auto simp: reads_value_def reads_def value_ok_def)
    next
      case 4
      obtain ok2 p len' v' where e: "digits_loop (tl q) len v = Some (ok2, p, len', v')" "length p \<le> length (tl q)" "ok2 \<longrightarrow> len' \<le> 15 \<and> 0 \<le> v' \<and> v' < 10 ^ len'"
        using digits_loop_bounds [of v len "tl q"] d(3) 4 by auto
      then show ?thesis using n d 4 assms i64_15 [of v' len'] abs_15 [of v' len'] by (auto simp: reads_value_def reads_def value_ok_def)
    qed (use n d assms in \<open>auto simp: reads_value_def reads_def\<close>)
  qed
qed

lemma date_reads: "sfp_pos sfp = 0x40 # cs \<Longrightarrow> reads_value sfp (parser_date sfp)"
proof (cases cs)
  case Nil
  then show "sfp_pos sfp = 0x40 # cs \<Longrightarrow> reads_value sfp (parser_date sfp)"
    by (simp add: parser_date_def parser_defs reads_value_def reads_def)
next
  case (Cons d ds)
  assume p: "sfp_pos sfp = 0x40 # cs"
  have "reads_value (sfp\<lparr>sfp_pos := cs\<rparr>) (parser_number (sfp\<lparr>sfp_pos := cs\<rparr>))" using Cons by (intro number_reads) simp
  then show "reads_value sfp (parser_date sfp)"
    by (cases rule: reads_value_cases) (use p Cons in
      \<open>auto simp: parser_date_def parser_defs reads_value_def reads_def value_ok_def split: sf_value.splits\<close>)
qed

lemma string_loop_length: "string_loop p fl done = (r, p') \<Longrightarrow> length p' \<le> length p"
  by (induction p fl "done" rule: string_loop.induct) (auto split: if_splits list.splits)

lemma string_loop_ok:
  "string_loop p fl done = (Some (fl', s), p') \<Longrightarrow>
   \<exists>t. s = done @ t \<and> string_ok t \<and> fl' = (if 0x5c \<in> set t then SF_VALUE_FLAG_ESCAPED_STRING else fl)"
proof (induction p fl "done" rule: string_loop.induct)
  case (2 c cs fl "done")
  let ?plain = "X20_21_CASES c \<or> X23_5B_CASES c \<or> X5D_7E_CASES c"
  consider "?plain" | "\<not> ?plain" "c = 0x5c" | "\<not> ?plain" "c \<noteq> 0x5c" by blast
  then show ?case
  proof cases
    case 1
    then have c: "c \<noteq> 0x5c" by (auto simp: X20_21_CASES_def X23_5B_CASES_def X5D_7E_CASES_def)
    obtain t where "s = (done @ [c]) @ t" "string_ok t" "fl' = (if 0x5c \<in> set t then SF_VALUE_FLAG_ESCAPED_STRING else fl)"
      using 2(1) [OF 1] 2(3) 1 by auto
    then show ?thesis using 1 c by (intro exI [of _ "c # t"]) auto
  next
    case 2
    obtain d ds where d: "cs = d # ds" "d = 0x22 \<or> d = 0x5c" using 2 "2.prems" by (auto split: list.splits if_splits)
    obtain t where "s = (done @ [c, d]) @ t" "string_ok t" "fl' = SF_VALUE_FLAG_ESCAPED_STRING"
      using "2.IH"(2) [OF 2(1,2) d(1)] d "2.prems" 2 by (fastforce split: if_splits)
    then show ?thesis using 2 d by (intro exI [of _ "c # d # t"]) auto
  next
    case 3
    then show ?thesis using "2.prems" by (auto split: if_splits)
  qed
qed simp

lemma byteseq_fin_length: "byteseq_fin p done = (r, p') \<Longrightarrow> length p' \<le> length p"
  by (auto simp: byteseq_fin_def split: if_splits)

lemma byteseq_loop_length: "byteseq_loop p done = (r, p') \<Longrightarrow> length p' \<le> length p"
  by (induction p "done" rule: byteseq_loop.induct)
    (auto split: if_splits dest!: byteseq_fin_length)

lemma dropWhile_pad: "list_all b64_char t \<Longrightarrow> dropWhile b64_char (t @ u) = dropWhile b64_char u"
  by (induction t) auto

lemma b64_pad [simp]: "\<not> b64_char 0x3d" "\<not> b64_char 0x3a"
  by (simp_all add: b64_char_def DIGIT_CASES_def ALPHA_CASES_def UCALPHA_CASES_def LCALPHA_CASES_def)

lemma byteseq_pad:
  assumes "byteseq_loop (0x3d # cs) done = (Some s, p')"
  shows "\<not> length done mod 4 \<le> 1" "length done mod 4 = 2 \<Longrightarrow> s = done @ [0x3d, 0x3d]" "length done mod 4 = 3 \<Longrightarrow> s = done @ [0x3d]"
proof -
  have n: "\<not> (0x3d = (0x2b :: u8) \<or> 0x3d = (0x2f :: u8) \<or> DIGIT_CASES 0x3d \<or> ALPHA_CASES 0x3d)"
    by (simp add: DIGIT_CASES_def ALPHA_CASES_def UCALPHA_CASES_def LCALPHA_CASES_def)
  note e = assms [unfolded byteseq_loop.simps, simplified n if_False]
  show "\<not> length done mod 4 \<le> 1" using e by (auto simp del: ascii_simps)
  show "s = done @ [0x3d, 0x3d]" if "length done mod 4 = 2"
    using e that by (simp add: byteseq_fin_def del: ascii_simps split: if_splits)
  show "s = done @ [0x3d]" if "length done mod 4 = 3"
    using e that by (simp add: byteseq_fin_def del: ascii_simps split: if_splits)
qed

lemma byteseq_loop_ok:
  "byteseq_loop p done = (Some s, p') \<Longrightarrow> list_all b64_char done \<Longrightarrow> byteseq_ok s"
proof (induction p "done" rule: byteseq_loop.induct)
  case (2 c cs "done")
  note d = dropWhile_pad [OF 2(3)]
  consider "b64_char c" | "\<not> b64_char c" "c = 0x3d" | "\<not> b64_char c" "c \<noteq> 0x3d" by blast
  then show ?case
  proof cases
    case 1
    then show ?thesis using 2 unfolding b64_char_def by (auto split: if_splits)
  next
    case c: 2
    consider "length done mod 4 \<le> 1" | "length done mod 4 = 2" | "length done mod 4 = 3" by linarith
    then have "\<exists>u. (u = [0x3d] \<or> u = [0x3d, 0x3d]) \<and> s = done @ u \<and> (length done + length u) mod 4 = 0"
    proof cases
      case 2
      then have "(length done + 2) mod 4 = 0" by presburger
      then show ?thesis using 2 c "2.prems"(1) byteseq_pad by auto
    next
      case 3
      then have "(length done + 1) mod 4 = 0" by presburger
      then show ?thesis using 3 c "2.prems"(1) byteseq_pad by auto
    qed (use c "2.prems"(1) byteseq_pad in \<open>auto\<close>)
    then show ?thesis using d by (auto simp: byteseq_ok_def)
  next
    case 3
    then have "s = done" "length done mod 4 = 0" using 2(2) unfolding b64_char_def by (auto split: if_splits)
    then show ?thesis using d [of "[]"] by (simp add: byteseq_ok_def)
  qed
qed simp

lemma string_reads:
  assumes "sfp_pos sfp = 0x22 # cs"
  shows "reads_value sfp (parser_string sfp)"
proof -
  obtain r p where r: "string_loop cs SF_VALUE_FLAG_NONE [] = (r, p)" by (cases "string_loop cs SF_VALUE_FLAG_NONE []")
  note l = string_loop_length [OF r]
  have "value_ok (SF_TYPE_STRING fl s)" if "r = Some (fl, s)" for fl s
    using string_loop_ok [OF r [unfolded that]] by (auto simp: value_ok_def)
  then show ?thesis using assms r l by (auto simp: parser_string_def parser_defs reads_value_def reads_def split: option.splits)
qed

lemma byteseq_reads:
  assumes "sfp_pos sfp = 0x3a # cs"
  shows "reads_value sfp (parser_byteseq sfp)"
proof -
  obtain r p where r: "byteseq_loop cs [] = (r, p)" by (cases "byteseq_loop cs []")
  note l = byteseq_loop_length [OF r]
  have "value_ok (SF_TYPE_BYTESEQ s)" if "r = Some s" for s
    using byteseq_loop_ok [OF r [unfolded that]] by (simp add: value_ok_def)
  then show ?thesis using assms r l by (auto simp: parser_byteseq_def parser_defs reads_value_def reads_def split: option.splits)
qed

lemma boolean_reads: "sfp_pos sfp = 0x3f # cs \<Longrightarrow> reads_value sfp (parser_boolean sfp)"
  by (cases cs) (auto simp: parser_boolean_def parser_defs reads_value_def reads_def value_ok_def Let_def split: if_splits)

lemma token_reads: "sfp_pos sfp = c # cs \<Longrightarrow> reads_value sfp (parser_token sfp)"
  by (simp add: parser_token_def parser_defs reads_value_def reads_def value_ok_def length_dropWhile_Cons less_imp_le)

lemma key_reads: "\<not> parser_eof sfp \<Longrightarrow> reads sfp (parser_key sfp)"
  by (cases "sfp_pos sfp") (simp_all add: parser_key_def parser_defs reads_def length_dropWhile_Cons less_imp_le)

lemma bare_item_reads: "\<not> parser_eof sfp \<Longrightarrow> reads_value sfp (parser_bare_item sfp)"
proof (cases "sfp_pos sfp")
  case (Cons c cs)
  then show ?thesis
    using number_reads [OF Cons] token_reads [OF Cons] date_reads [of sfp cs] string_reads [of sfp cs] byteseq_reads [of sfp cs] boolean_reads [of sfp cs]
    by (auto simp: parser_bare_item_def parser_byte_def reads_value_def reads_def)
qed (simp add: parser_eof_def)

subsection \<open>The states of the parser\<close>

definition set_op :: "u32 \<Rightarrow> u32 \<Rightarrow> u32" where
  "set_op s op = (s AND NOT SF_STATE_OP_MASK) OR op"

definition op_of :: "u32 \<Rightarrow> u32" where
  "op_of s = s AND SF_STATE_OP_MASK"

definition un_inner :: "u32 \<Rightarrow> u32" where
  "un_inner s = s AND NOT SF_STATE_INNER_LIST"

lemma set_op_state [simp]: "sfp_state (parser_set_op_state sfp op) = set_op (sfp_state sfp) op" "sfp_pos (parser_set_op_state sfp op) = sfp_pos sfp"
  by (simp_all add: parser_set_op_state_def set_op_def)

lemma unset_inner_state [simp]:
  "sfp_state (parser_unset_inner_list_state sfp) = un_inner (sfp_state sfp)" "sfp_pos (parser_unset_inner_list_state sfp) = sfp_pos sfp"
  by (simp_all add: parser_unset_inner_list_state_def un_inner_def)

lemma op_mask_bits: "bit SF_STATE_OP_MASK k \<longleftrightarrow> k < 2" "bit SF_STATE_INNER_LIST k \<longleftrightarrow> k = 2"
proof -
  have e: "SF_STATE_OP_MASK = mask 2" "SF_STATE_INNER_LIST = 2 ^ 2" by (simp_all add: ng_defs mask_eq_exp_minus_1)
  show "bit SF_STATE_OP_MASK k \<longleftrightarrow> k < 2" unfolding e(1) by (auto simp: bit_mask_iff)
  show "bit SF_STATE_INNER_LIST k \<longleftrightarrow> k = 2" unfolding e(2) by (auto simp: bit_exp_iff simp del: power_numeral)
qed

definition is_op :: "u32 \<Rightarrow> bool" where
  "is_op k \<longleftrightarrow> k \<in> {SF_STATE_BEFORE, SF_STATE_BEFORE_PARAMS, SF_STATE_PARAMS, SF_STATE_AFTER}"

lemma is_op_bits: "is_op k \<Longrightarrow> bit k j \<Longrightarrow> j < 2"
proof -
  assume "is_op k"
  then have "k = k AND SF_STATE_OP_MASK" by (auto simp: is_op_def ng_defs)
  moreover assume "bit k j"
  ultimately have "bit (k AND SF_STATE_OP_MASK) j" by simp
  then show "j < 2" by (simp add: bit_and_iff op_mask_bits)
qed

lemma op_of_set [simp]: "is_op k \<Longrightarrow> op_of (set_op s k) = k"
  unfolding op_of_def set_op_def by (rule bit_word_eqI) (auto simp: bit_and_iff bit_or_iff bit_not_iff op_mask_bits dest: is_op_bits)

lemma set_op_set [simp]: "is_op k \<Longrightarrow> set_op (set_op s k) j = set_op s j"
  unfolding set_op_def by (rule bit_word_eqI) (auto simp: bit_and_iff bit_or_iff bit_not_iff op_mask_bits dest: is_op_bits)

lemma set_op_same [simp]: "set_op s (op_of s) = s"
  unfolding op_of_def set_op_def by (rule bit_word_eqI) (auto simp: bit_and_iff bit_or_iff bit_not_iff op_mask_bits)

lemma un_inner_set [simp]: "is_op k \<Longrightarrow> un_inner (set_op s k) = set_op (un_inner s) k"
  unfolding set_op_def un_inner_def
  by (rule bit_word_eqI) (auto simp: bit_and_iff bit_or_iff bit_not_iff op_mask_bits dest: is_op_bits)

lemma is_ops [simp]: "is_op SF_STATE_BEFORE" "is_op SF_STATE_BEFORE_PARAMS" "is_op SF_STATE_PARAMS" "is_op SF_STATE_AFTER"
  by (simp_all add: is_op_def)

lemma ops_distinct [simp]:
  "SF_STATE_BEFORE \<noteq> SF_STATE_BEFORE_PARAMS" "SF_STATE_BEFORE \<noteq> SF_STATE_PARAMS" "SF_STATE_BEFORE \<noteq> SF_STATE_AFTER"
  "SF_STATE_BEFORE_PARAMS \<noteq> SF_STATE_PARAMS" "SF_STATE_BEFORE_PARAMS \<noteq> SF_STATE_AFTER" "SF_STATE_PARAMS \<noteq> SF_STATE_AFTER"
  "SF_STATE_BEFORE_PARAMS \<noteq> SF_STATE_BEFORE" "SF_STATE_PARAMS \<noteq> SF_STATE_BEFORE" "SF_STATE_AFTER \<noteq> SF_STATE_BEFORE"
  "SF_STATE_PARAMS \<noteq> SF_STATE_BEFORE_PARAMS" "SF_STATE_AFTER \<noteq> SF_STATE_BEFORE_PARAMS" "SF_STATE_AFTER \<noteq> SF_STATE_PARAMS"
  by (simp_all add: ng_defs)

lemma errs_distinct [simp]: "SF_ERR_EOF \<noteq> SF_ERR_PARSE_ERROR" "SF_ERR_PARSE_ERROR \<noteq> SF_ERR_EOF"
  by (simp_all add: SF_ERR_EOF_def SF_ERR_PARSE_ERROR_def)

subsection \<open>Skipping parameters and inner lists\<close>

lemma advance_simps [simp]:
  "sfp_state (parser_advance sfp) = sfp_state sfp" "sfp_state (parser_discard_sp sfp) = sfp_state sfp" "sfp_state (parser_discard_ows sfp) = sfp_state sfp"
  "length (sfp_pos (parser_discard_sp sfp)) \<le> length (sfp_pos sfp)" "length (sfp_pos (parser_discard_ows sfp)) \<le> length (sfp_pos sfp)"
  by (simp_all add: parser_defs length_dropWhile_le)

lemma at_advance: "parser_at sfp c \<Longrightarrow> Suc (length (sfp_pos (parser_advance sfp))) = length (sfp_pos sfp)"
  by (cases "sfp_pos sfp") (simp_all add: parser_defs)

lemma param_tail_cases:
  obtains "parser_param_tail sfp = Some (Inl SF_ERR_EOF, parser_set_op_state sfp SF_STATE_AFTER)" | "reads sfp (parser_param_tail sfp)"
proof (cases "parser_at sfp 0x3b")
  case False
  then show thesis using that(1) by (simp add: parser_param_tail_def)
next
  case True
  let ?s = "parser_discard_sp (parser_advance sfp)"
  have l: "length (sfp_pos ?s) < length (sfp_pos sfp)" using at_advance [OF True] advance_simps(4) [of "parser_advance sfp"] by linarith
  have "reads sfp (parser_param_tail sfp)"
  proof (cases "parser_eof ?s")
    case True
    then show ?thesis using \<open>parser_at sfp 0x3b\<close> l by (simp add: parser_param_tail_def Let_def reads_def)
  next
    case False
    from key_reads [OF False] show ?thesis
    proof (cases rule: reads_cases)
      case (2 s)
      then show ?thesis using True False l by (simp add: parser_param_tail_def Let_def reads_def)
    next
      case (1 k s)
      let ?t = "parser_advance s"
      show ?thesis
      proof (cases "parser_at s 0x3d \<and> \<not> parser_eof ?t")
        case eq: True
        note a = at_advance [OF conjunct1 [OF eq]]
        from bare_item_reads [OF conjunct2 [OF eq]] show ?thesis
          by (cases rule: reads_value_cases) (use True False 1 eq l a in \<open>auto simp: parser_param_tail_def Let_def reads_def\<close>)
      next
        case ne: False
        then show ?thesis using True False 1 l at_advance [of s "0x3d"] by (auto simp: parser_param_tail_def Let_def reads_def)
      qed
    qed
  qed
  then show thesis using that(2) by simp
qed

lemma set_op_is: "op_of (sfp_state sfp) = k \<Longrightarrow> parser_set_op_state sfp k = sfp"
  using set_op_same [of "sfp_state sfp"] by (cases sfp) (simp add: parser_set_op_state_def set_op_def)

lemma param_with_eq:
  assumes "op_of (sfp_state sfp) \<in> {SF_STATE_BEFORE_PARAMS, SF_STATE_PARAMS}"
  shows "sf_parser_param_with f sfp = parser_param_tail (parser_set_op_state sfp SF_STATE_PARAMS)"
  using assms set_op_is [of sfp] unfolding sf_parser_param_with_def Let_def op_of_def by auto

lemma skip_params_returns:
  "op_of (sfp_state sfp) \<in> {SF_STATE_BEFORE_PARAMS, SF_STATE_PARAMS} \<Longrightarrow>
   \<exists>x s. parser_skip_params sfp = Some (x, s) \<and> length (sfp_pos s) \<le> length (sfp_pos sfp) \<and>
     (case x of Inl e \<Rightarrow> e = SF_ERR_PARSE_ERROR | Inr _ \<Rightarrow> sfp_state s = set_op (sfp_state sfp) SF_STATE_AFTER)"
proof (induction "length (sfp_pos sfp)" arbitrary: sfp rule: less_induct)
  case less
  let ?s = "parser_set_op_state sfp SF_STATE_PARAMS"
  note u = parser_skip_params.simps [of sfp, unfolded param_with_eq [OF less.prems]]
  show ?case
  proof (cases rule: param_tail_cases [of ?s])
    case 1
    then show ?thesis by (subst u) simp
  next
    case 2
    then show ?thesis
    proof (cases rule: reads_cases)
      case (1 v s)
      have "\<exists>x s'. parser_skip_params s = Some (x, s') \<and> length (sfp_pos s') \<le> length (sfp_pos s) \<and>
         (case x of Inl e \<Rightarrow> e = SF_ERR_PARSE_ERROR | Inr _ \<Rightarrow> sfp_state s' = set_op (sfp_state s) SF_STATE_AFTER)"
        using 1 by (intro less.hyps) simp_all
      then obtain x s' where "parser_skip_params s = Some (x, s')" "length (sfp_pos s') \<le> length (sfp_pos s)"
        "case x of Inl e \<Rightarrow> e = SF_ERR_PARSE_ERROR | Inr _ \<Rightarrow> sfp_state s' = set_op (sfp_state s) SF_STATE_AFTER" by blast
      then show ?thesis using 1 by (subst u) (intro exI [of _ x] exI [of _ s'], simp split: sum.splits)
    next
      case (2 s)
      then show ?thesis by (subst u) simp
    qed
  qed
qed

text \<open>What an inner list returns, from a state that its calls leave.\<close>

definition list_result :: "sf_parser \<Rightarrow> sf_value sf_result \<Rightarrow> bool" where
  "list_result sfp r \<longleftrightarrow>
     (\<exists>s. r = Some (Inl SF_ERR_PARSE_ERROR, s) \<and> length (sfp_pos s) \<le> length (sfp_pos sfp)) \<or>
     (\<exists>s. r = Some (Inl SF_ERR_EOF, s) \<and> length (sfp_pos s) < length (sfp_pos sfp) \<and>
        sfp_state s = set_op (un_inner (sfp_state sfp)) SF_STATE_BEFORE_PARAMS) \<or>
     (\<exists>v s. r = Some (Inr v, s) \<and> value_ok v \<and> length (sfp_pos s) < length (sfp_pos sfp) \<and> sfp_state s = set_op (sfp_state sfp) SF_STATE_BEFORE_PARAMS)"

lemma list_result_mono:
  assumes "list_result t r" "length (sfp_pos t) \<le> length (sfp_pos sfp)"
    "sfp_state t = sfp_state sfp \<or> sfp_state t = set_op (sfp_state sfp) SF_STATE_AFTER"
  shows "list_result sfp r"
  using assms unfolding list_result_def by (elim disjE exE conjE) auto

lemma list_item_result: "\<not> parser_eof sfp \<Longrightarrow> list_result sfp (parser_inner_list_item sfp)"
proof (cases "parser_byte sfp = Some 0x29")
  case True
  assume "\<not> parser_eof sfp"
  then show ?thesis using True
    by (cases "sfp_pos sfp") (auto simp: parser_inner_list_item_def list_result_def parser_defs)
next
  case False
  assume ne: "\<not> parser_eof sfp"
  then obtain c where c: "parser_byte sfp = Some c" "c \<noteq> 0x29" using False by (cases "sfp_pos sfp") (auto simp: parser_defs)
  from bare_item_reads [OF ne] show ?thesis
    by (cases rule: reads_value_cases) (use c in \<open>auto simp: parser_inner_list_item_def list_result_def\<close>)
qed

lemma list_after_result: "list_result sfp (parser_inner_list_after sfp)"
proof -
  let ?s = "parser_discard_sp sfp"
  have "list_result sfp (parser_inner_list_item ?s)" if "\<not> parser_eof ?s"
    by (rule list_result_mono [OF list_item_result [OF that]]) simp_all
  moreover have "list_result sfp (parser_inner_list_item sfp)" if "\<not> parser_eof sfp"
    by (rule list_item_result [OF that])
  ultimately show ?thesis by (auto simp: parser_inner_list_after_def Let_def list_result_def)
qed

lemma inner_list_result:
  assumes "op_of (sfp_state sfp) \<in> {SF_STATE_BEFORE, SF_STATE_BEFORE_PARAMS, SF_STATE_AFTER}"
  shows "list_result sfp (sf_parser_inner_list sfp)"
proof -
  consider "op_of (sfp_state sfp) = SF_STATE_BEFORE" | "op_of (sfp_state sfp) = SF_STATE_BEFORE_PARAMS" | "op_of (sfp_state sfp) = SF_STATE_AFTER"
    using assms by blast
  then show ?thesis
  proof cases
    case 1
    let ?s = "parser_discard_sp sfp"
    have "list_result sfp (parser_inner_list_item ?s)" if "\<not> parser_eof ?s"
      by (rule list_result_mono [OF list_item_result [OF that]]) simp_all
    then show ?thesis using 1 by (auto simp: sf_parser_inner_list_def op_of_def Let_def list_result_def)
  next
    case 2
    obtain x s where s: "parser_skip_params sfp = Some (x, s)" "length (sfp_pos s) \<le> length (sfp_pos sfp)"
      "case x of Inl e \<Rightarrow> e = SF_ERR_PARSE_ERROR | Inr _ \<Rightarrow> sfp_state s = set_op (sfp_state sfp) SF_STATE_AFTER"
      using skip_params_returns [of sfp] 2 by auto
    have "list_result sfp (parser_inner_list_after s)" if "x = Inr ()"
      using s that by (intro list_result_mono [OF list_after_result]) simp_all
    then show ?thesis using 2 s by (cases x) (auto simp: sf_parser_inner_list_def op_of_def list_result_def)
  next
    case 3
    then show ?thesis using list_after_result [of sfp] by (simp add: sf_parser_inner_list_def op_of_def)
  qed
qed

lemma skip_inner_list_returns:
  "op_of (sfp_state sfp) \<in> {SF_STATE_BEFORE, SF_STATE_BEFORE_PARAMS, SF_STATE_AFTER} \<Longrightarrow>
   \<exists>x s. parser_skip_inner_list sfp = Some (x, s) \<and> length (sfp_pos s) \<le> length (sfp_pos sfp) \<and>
     (case x of Inl e \<Rightarrow> e = SF_ERR_PARSE_ERROR | Inr _ \<Rightarrow> sfp_state s = set_op (un_inner (sfp_state sfp)) SF_STATE_BEFORE_PARAMS)"
proof (induction "length (sfp_pos sfp)" arbitrary: sfp rule: less_induct)
  case less
  note u = parser_skip_inner_list.simps [of sfp]
  from inner_list_result [OF less.prems] show ?case unfolding list_result_def
  proof (elim disjE exE conjE)
    fix v s assume s: "sf_parser_inner_list sfp = Some (Inr v, s)" "length (sfp_pos s) < length (sfp_pos sfp)"
      "sfp_state s = set_op (sfp_state sfp) SF_STATE_BEFORE_PARAMS"
    have "\<exists>x s'. parser_skip_inner_list s = Some (x, s') \<and> length (sfp_pos s') \<le> length (sfp_pos s) \<and>
       (case x of Inl e \<Rightarrow> e = SF_ERR_PARSE_ERROR | Inr _ \<Rightarrow> sfp_state s' = set_op (un_inner (sfp_state s)) SF_STATE_BEFORE_PARAMS)"
      using s by (intro less.hyps) simp_all
    then obtain x s' where "parser_skip_inner_list s = Some (x, s')" "length (sfp_pos s') \<le> length (sfp_pos s)"
      "case x of Inl e \<Rightarrow> e = SF_ERR_PARSE_ERROR | Inr _ \<Rightarrow> sfp_state s' = set_op (un_inner (sfp_state s)) SF_STATE_BEFORE_PARAMS" by blast
    then show ?thesis using s by (subst u) (intro exI [of _ x] exI [of _ s'], simp split: sum.splits)
  qed (subst u, simp)+
qed

lemma param_returns:
  assumes "op_of (sfp_state sfp) \<in> {SF_STATE_BEFORE, SF_STATE_BEFORE_PARAMS, SF_STATE_PARAMS}"
  shows "\<exists>x s. sf_parser_param sfp = Some (x, s) \<and> length (sfp_pos s) \<le> length (sfp_pos sfp)"
proof (cases "op_of (sfp_state sfp) = SF_STATE_BEFORE")
  case True
  obtain x s where s: "parser_skip_inner_list sfp = Some (x, s)" "length (sfp_pos s) \<le> length (sfp_pos sfp)"
    using skip_inner_list_returns [of sfp] True by auto
  have "\<exists>y t. parser_param_tail (parser_set_op_state s SF_STATE_PARAMS) = Some (y, t) \<and> length (sfp_pos t) \<le> length (sfp_pos s)"
    by (cases rule: param_tail_cases [of "parser_set_op_state s SF_STATE_PARAMS"]) (auto simp: reads_def)
  then show ?thesis using True s
    by (cases x) (auto simp: sf_parser_param_def sf_parser_param_with_def op_of_def intro: le_trans)
next
  case False
  then have "op_of (sfp_state sfp) \<in> {SF_STATE_BEFORE_PARAMS, SF_STATE_PARAMS}" using assms by auto
  from param_with_eq [OF this] show ?thesis unfolding sf_parser_param_def
    by (cases rule: param_tail_cases [of "parser_set_op_state sfp SF_STATE_PARAMS"]) (auto simp: reads_def)
qed

subsection \<open>Containers\<close>

definition container :: "u32 \<Rightarrow> bool" where
  "container n \<longleftrightarrow> n \<in> {SF_STATE_DICT, SF_STATE_LIST, SF_STATE_ITEM}"

text \<open>The states in which the parser of the container \<open>n\<close> is between two calls.\<close>

definition between :: "u32 \<Rightarrow> u32 \<Rightarrow> bool" where
  "between n s \<longleftrightarrow> s \<in> {SF_STATE_INITIAL, SF_SET_STATE_INNER_LIST_BEFORE n, SF_SET_STATE_BEFORE_PARAMS n, SF_SET_STATE_AFTER n}"

lemma container_states:
  assumes "container n"
  shows "op_of (SF_SET_STATE_INNER_LIST_BEFORE n) = SF_STATE_BEFORE" "op_of (SF_SET_STATE_BEFORE_PARAMS n) = SF_STATE_BEFORE_PARAMS"
    "set_op (un_inner (SF_SET_STATE_INNER_LIST_BEFORE n)) SF_STATE_BEFORE_PARAMS = SF_SET_STATE_BEFORE_PARAMS n"
    "SF_SET_STATE_INNER_LIST_BEFORE n \<noteq> SF_STATE_INITIAL" "SF_SET_STATE_BEFORE_PARAMS n \<noteq> SF_STATE_INITIAL" "SF_SET_STATE_AFTER n \<noteq> SF_STATE_INITIAL"
    "SF_SET_STATE_BEFORE_PARAMS n \<noteq> SF_SET_STATE_INNER_LIST_BEFORE n" "SF_SET_STATE_AFTER n \<noteq> SF_SET_STATE_INNER_LIST_BEFORE n"
    "SF_SET_STATE_AFTER n \<noteq> SF_SET_STATE_BEFORE_PARAMS n"
  using assms by (auto simp: container_def op_of_def set_op_def un_inner_def ng_defs)

lemma skip_member_returns:
  assumes "container n" "between n (sfp_state sfp)" "sfp_state sfp \<noteq> SF_STATE_INITIAL"
  shows "\<exists>x s. parser_skip_member n sfp = Some (x, s) \<and> length (sfp_pos s) \<le> length (sfp_pos sfp) \<and>
    (case x of Inl e \<Rightarrow> e = SF_ERR_PARSE_ERROR | Inr _ \<Rightarrow> True)"
proof -
  note c = container_states [OF assms(1)]
  have p: "\<exists>x t. parser_skip_params s = Some (x, t) \<and> length (sfp_pos t) \<le> length (sfp_pos s) \<and>
      (case x of Inl e \<Rightarrow> e = SF_ERR_PARSE_ERROR | Inr _ \<Rightarrow> True)" if "sfp_state s = SF_SET_STATE_BEFORE_PARAMS n" for s
    using skip_params_returns [of s] c(2) that by (fastforce split: sum.splits)
  consider "sfp_state sfp = SF_SET_STATE_INNER_LIST_BEFORE n" | "sfp_state sfp = SF_SET_STATE_BEFORE_PARAMS n" | "sfp_state sfp = SF_SET_STATE_AFTER n"
    using assms(2,3) by (auto simp: between_def)
  then show ?thesis
  proof cases
    case 1
    obtain x s where s: "parser_skip_inner_list sfp = Some (x, s)" "length (sfp_pos s) \<le> length (sfp_pos sfp)"
      "case x of Inl e \<Rightarrow> e = SF_ERR_PARSE_ERROR | Inr _ \<Rightarrow> sfp_state s = SF_SET_STATE_BEFORE_PARAMS n"
      using skip_inner_list_returns [of sfp, unfolded 1 c(1,3)] by auto
    show ?thesis
    proof (cases x)
      case (Inr u)
      then obtain y t where "parser_skip_params s = Some (y, t)" "length (sfp_pos t) \<le> length (sfp_pos s)"
        "case y of Inl e \<Rightarrow> e = SF_ERR_PARSE_ERROR | Inr _ \<Rightarrow> True" using p [of s] s(3) by auto
      then show ?thesis using 1 s Inr by (simp add: parser_skip_member_def)
    qed (use 1 s in \<open>simp add: parser_skip_member_def\<close>)
  next
    case 2
    then show ?thesis using p [OF 2] c by (simp add: parser_skip_member_def)
  next
    case 3
    then show ?thesis using c by (simp add: parser_skip_member_def)
  qed
qed

lemma next_key_returns:
  "\<exists>x s. parser_next_key_or_item sfp = Some (x, s) \<and> length (sfp_pos s) \<le> length (sfp_pos sfp) \<and>
    (case x of Inl e \<Rightarrow> e \<in> {SF_ERR_EOF, SF_ERR_PARSE_ERROR} | Inr _ \<Rightarrow> \<not> parser_eof s)"
proof -
  let ?s = "parser_discard_ows sfp" and ?t = "parser_discard_ows (parser_advance (parser_discard_ows sfp))"
  have "length (sfp_pos ?t) \<le> length (sfp_pos sfp)" if "parser_at ?s 0x2c"
    using at_advance [OF that] advance_simps(5) [of "parser_advance ?s"] advance_simps(5) [of sfp] by linarith
  then show ?thesis by (auto simp: parser_next_key_or_item_def Let_def)
qed

lemma start_member_returns:
  assumes "container n" "between n (sfp_state sfp)"
  shows "\<exists>x s. parser_start_member n sfp = Some (x, s) \<and> length (sfp_pos s) \<le> length (sfp_pos sfp) \<and>
    (case x of Inl e \<Rightarrow> e \<in> {SF_ERR_EOF, SF_ERR_PARSE_ERROR} | Inr _ \<Rightarrow> \<not> parser_eof s)"
proof (cases "sfp_state sfp = SF_STATE_INITIAL")
  case True
  then show ?thesis by (auto simp: parser_start_member_def Let_def)
next
  case False
  obtain x s where s: "parser_skip_member n sfp = Some (x, s)" "length (sfp_pos s) \<le> length (sfp_pos sfp)"
    "case x of Inl e \<Rightarrow> e = SF_ERR_PARSE_ERROR | Inr _ \<Rightarrow> True"
    using skip_member_returns [OF assms False] by auto
  obtain y t where t: "parser_next_key_or_item s = Some (y, t)" "length (sfp_pos t) \<le> length (sfp_pos s)"
    "case y of Inl e \<Rightarrow> e \<in> {SF_ERR_EOF, SF_ERR_PARSE_ERROR} | Inr _ \<Rightarrow> \<not> parser_eof t"
    using next_key_returns [of s] by auto
  show ?thesis
  proof (cases x)
    case (Inl e)
    then show ?thesis using s False by (simp add: parser_start_member_def)
  next
    case (Inr u)
    then have "parser_start_member n sfp = Some (y, t)" using s(1) t(1) False by (simp add: parser_start_member_def)
    then show ?thesis using s(2) t(2,3) by auto
  qed
qed

text \<open>A call that delivers a member consumes input and leaves the parser between two calls.\<close>

definition member_result :: "u32 \<Rightarrow> sf_parser \<Rightarrow> ('a \<Rightarrow> sf_value) \<Rightarrow> 'a sf_result \<Rightarrow> bool" where
  "member_result n sfp val r \<longleftrightarrow> (\<exists>x s. r = Some (x, s) \<and> length (sfp_pos s) \<le> length (sfp_pos sfp) \<and>
     (case x of
        Inl e \<Rightarrow> e \<in> {SF_ERR_EOF, SF_ERR_PARSE_ERROR}
      | Inr v \<Rightarrow> value_ok (val v) \<and> between n (sfp_state s) \<and> length (sfp_pos s) < length (sfp_pos sfp)))"

lemma member_result_mono: "member_result n t val r \<Longrightarrow> length (sfp_pos t) \<le> length (sfp_pos sfp) \<Longrightarrow> member_result n sfp val r"
  unfolding member_result_def by (fastforce split: sum.splits)

lemma member_returns: "\<not> parser_eof sfp \<Longrightarrow> member_result n sfp id (parser_member n sfp)"
proof (cases "parser_byte sfp = Some 0x28")
  case True
  assume "\<not> parser_eof sfp"
  then show ?thesis using True
    by (cases "sfp_pos sfp") (auto simp: parser_member_def member_result_def parser_defs value_ok_def between_def)
next
  case False
  assume ne: "\<not> parser_eof sfp"
  then obtain c where c: "parser_byte sfp = Some c" "c \<noteq> 0x28" using False by (cases "sfp_pos sfp") (auto simp: parser_defs)
  from bare_item_reads [OF ne] show ?thesis
    by (cases rule: reads_value_cases) (use c in \<open>auto simp: parser_member_def member_result_def between_def\<close>)
qed

lemma dict_value_returns:
  shows "\<exists>x s. parser_dict_value sfp = Some (x, s) \<and> length (sfp_pos s) \<le> length (sfp_pos sfp) \<and>
     (case x of Inl e \<Rightarrow> e \<in> {SF_ERR_EOF, SF_ERR_PARSE_ERROR} | Inr v \<Rightarrow> value_ok v \<and> between SF_STATE_DICT (sfp_state s))"
proof (cases "parser_at sfp 0x3d \<and> \<not> parser_eof (parser_advance sfp)")
  case True
  then have "member_result SF_STATE_DICT (parser_advance sfp) id (parser_dict_value sfp)"
    using member_returns [of "parser_advance sfp" SF_STATE_DICT] by (simp add: parser_dict_value_def)
  then show ?thesis using at_advance [of sfp "0x3d"] True unfolding member_result_def by (fastforce split: sum.splits)
next
  case False
  then show ?thesis using at_advance [of sfp "0x3d"]
    by (auto simp: parser_dict_value_def Let_def value_ok_def between_def)
qed

lemma dict_returns:
  assumes "between SF_STATE_DICT (sfp_state sfp)"
  shows "member_result SF_STATE_DICT sfp snd (sf_parser_dict sfp)"
proof -
  have c: "container SF_STATE_DICT" by (simp add: container_def)
  obtain x s where s: "parser_start_member SF_STATE_DICT sfp = Some (x, s)" "length (sfp_pos s) \<le> length (sfp_pos sfp)"
    "case x of Inl e \<Rightarrow> e \<in> {SF_ERR_EOF, SF_ERR_PARSE_ERROR} | Inr _ \<Rightarrow> \<not> parser_eof s"
    using start_member_returns [OF c assms] by auto
  show ?thesis
  proof (cases x)
    case (Inl e)
    then show ?thesis using s by (simp add: sf_parser_dict_def member_result_def)
  next
    case (Inr u)
    then have ne: "\<not> parser_eof s" using s(3) by simp
    from key_reads [OF ne] show ?thesis
    proof (cases rule: reads_cases)
      case (2 t)
      then show ?thesis using s Inr by (simp add: sf_parser_dict_def member_result_def)
    next
      case (1 k t)
      obtain y r where "parser_dict_value t = Some (y, r)" "length (sfp_pos r) \<le> length (sfp_pos t)"
        "case y of Inl e \<Rightarrow> e \<in> {SF_ERR_EOF, SF_ERR_PARSE_ERROR} | Inr v \<Rightarrow> value_ok v \<and> between SF_STATE_DICT (sfp_state r)"
        using dict_value_returns [of t] by auto
      then show ?thesis using s Inr 1 by (cases y) (simp_all add: sf_parser_dict_def member_result_def)
    qed
  qed
qed

lemma list_returns:
  assumes "between SF_STATE_LIST (sfp_state sfp)"
  shows "member_result SF_STATE_LIST sfp id (sf_parser_list sfp)"
proof -
  have c: "container SF_STATE_LIST" by (simp add: container_def)
  obtain x s where s: "parser_start_member SF_STATE_LIST sfp = Some (x, s)" "length (sfp_pos s) \<le> length (sfp_pos sfp)"
    "case x of Inl e \<Rightarrow> e \<in> {SF_ERR_EOF, SF_ERR_PARSE_ERROR} | Inr _ \<Rightarrow> \<not> parser_eof s"
    using start_member_returns [OF c assms] by auto
  show ?thesis
  proof (cases x)
    case (Inl e)
    then show ?thesis using s by (simp add: sf_parser_list_def member_result_def)
  next
    case (Inr u)
    then have "member_result SF_STATE_LIST s id (parser_member SF_STATE_LIST s)" using member_returns [of s] s(3) by simp
    from member_result_mono [OF this s(2)] show ?thesis using s(1) Inr by (simp add: sf_parser_list_def)
  qed
qed

lemma item_returns:
  assumes "between SF_STATE_ITEM (sfp_state sfp)"
  shows "member_result SF_STATE_ITEM sfp id (sf_parser_item sfp)"
proof (cases "sfp_state sfp = SF_STATE_INITIAL")
  case True
  have "member_result SF_STATE_ITEM sfp id (parser_member SF_STATE_ITEM (parser_discard_sp sfp))" if "\<not> parser_eof (parser_discard_sp sfp)"
    by (rule member_result_mono [OF member_returns [OF that]]) simp
  then show ?thesis using True by (auto simp: sf_parser_item_def Let_def member_result_def)
next
  case False
  have c: "container SF_STATE_ITEM" by (simp add: container_def)
  obtain x s where s: "parser_skip_member SF_STATE_ITEM sfp = Some (x, s)" "length (sfp_pos s) \<le> length (sfp_pos sfp)"
    "case x of Inl e \<Rightarrow> e = SF_ERR_PARSE_ERROR | Inr _ \<Rightarrow> True"
    using skip_member_returns [OF c assms False] by auto
  then show ?thesis using False le_trans [OF advance_simps(4) s(2)]
    by (cases x) (auto simp: sf_parser_item_def Let_def member_result_def)
qed

subsection \<open>Serialised dictionaries\<close>

text \<open>
  The textual form of RFC 8941, section 4.1: integers and dates in decimal, strings between quotes
  with their escapes, a member whose value is true without a value, members separated by a comma
  and a space, each with its parameters.
\<close>

fun dec_digits :: "nat \<Rightarrow> bytes" where
  "dec_digits n = (if n < 10 then [of_nat (0x30 + n)] else dec_digits (n div 10) @ [of_nat (0x30 + n mod 10)])"

declare dec_digits.simps [simp del]

definition dec_int :: "int \<Rightarrow> bytes" where
  "dec_int n = (if n < 0 then 0x2d # dec_digits (nat (- n)) else dec_digits (nat n))"

fun sf_bare :: "sf_value \<Rightarrow> bytes" where
  "sf_bare (SF_TYPE_BOOLEAN b) = [0x3f, if b then 0x31 else 0x30]"
| "sf_bare (SF_TYPE_INTEGER n) = dec_int n"
| "sf_bare (SF_TYPE_DATE n) = 0x40 # dec_int n"
| "sf_bare (SF_TYPE_STRING fl s) = 0x22 # s @ [0x22]"
| "sf_bare (SF_TYPE_TOKEN t) = t"
| "sf_bare _ = []"

definition bare_ok :: "sf_value \<Rightarrow> bool" where
  "bare_ok v \<longleftrightarrow> (case v of
      SF_TYPE_BOOLEAN _ \<Rightarrow> True
    | SF_TYPE_INTEGER n \<Rightarrow> \<bar>n\<bar> < 10 ^ 15
    | SF_TYPE_DATE n \<Rightarrow> \<bar>n\<bar> < 10 ^ 15
    | SF_TYPE_STRING fl s \<Rightarrow> string_ok s \<and> fl = (if 0x5c \<in> set s then SF_VALUE_FLAG_ESCAPED_STRING else SF_VALUE_FLAG_NONE)
    | SF_TYPE_TOKEN t \<Rightarrow> t \<noteq> [] \<and> (hd t = 0x2a \<or> ALPHA_CASES (hd t)) \<and> list_all token_char (tl t)
    | _ \<Rightarrow> False)"

definition key_ok :: "bytes \<Rightarrow> bool" where
  "key_ok k \<longleftrightarrow> k \<noteq> [] \<and> (hd k = 0x2a \<or> LCALPHA_CASES (hd k)) \<and> list_all key_char (tl k)"

definition assign :: "sf_value \<Rightarrow> bytes" where
  "assign v = (if v = SF_TYPE_BOOLEAN True then [] else 0x3d # sf_bare v)"

definition params_bytes :: "(bytes \<times> sf_value) list \<Rightarrow> bytes" where
  "params_bytes ps = concat (map (\<lambda>(k, v). 0x3b # k @ assign v) ps)"

type_synonym sf_member = "bytes \<times> sf_value \<times> (bytes \<times> sf_value) list"

definition member_bytes :: "sf_member \<Rightarrow> bytes" where
  "member_bytes m = (case m of (k, v, ps) \<Rightarrow> k @ assign v @ params_bytes ps)"

definition member_ok :: "sf_member \<Rightarrow> bool" where
  "member_ok m \<longleftrightarrow> (case m of (k, v, ps) \<Rightarrow> key_ok k \<and> bare_ok v \<and> list_all (\<lambda>(k, v). key_ok k \<and> bare_ok v) ps)"

fun dict_bytes :: "sf_member list \<Rightarrow> bytes" where
  "dict_bytes [] = []"
| "dict_bytes [m] = member_bytes m"
| "dict_bytes (m # ms) = member_bytes m @ [0x2c, 0x20] @ dict_bytes ms"

text \<open>What may follow an item: the end, a parameter or the next member.\<close>

definition stop :: "bytes \<Rightarrow> bool" where
  "stop p \<longleftrightarrow> p = [] \<or> hd p = 0x3b \<or> hd p = 0x2c"

lemma takeWhile_stop: "list_all P xs \<Longrightarrow> rest = [] \<or> \<not> P (hd rest) \<Longrightarrow> takeWhile P (xs @ rest) = xs \<and> dropWhile P (xs @ rest) = rest"
  by (induction xs) (cases rest; simp)+

lemma stop_chars [simp]: "stop p \<Longrightarrow> p = [] \<or> \<not> key_char (hd p)" "stop p \<Longrightarrow> p = [] \<or> \<not> token_char (hd p)"
  "stop p \<Longrightarrow> p = [] \<or> \<not> DIGIT_CASES (hd p) \<and> hd p \<noteq> 0x2e \<and> hd p \<noteq> 0x3d"
  by (auto simp: stop_def key_char_def token_char_def DIGIT_CASES_def LCALPHA_CASES_def ALPHA_CASES_def UCALPHA_CASES_def)

lemma parser_keyI:
  assumes "key_ok k" "rest = [] \<or> \<not> key_char (hd rest)" "sfp_pos sfp = k @ rest"
  shows "parser_key sfp = Some (Inr k, sfp\<lparr>sfp_pos := rest\<rparr>)"
proof -
  obtain c cs where k: "k = c # cs" "c = 0x2a \<or> LCALPHA_CASES c" "list_all key_char cs" using assms(1) by (cases k) (auto simp: key_ok_def)
  show ?thesis using k assms(3) takeWhile_stop [OF k(3) assms(2)] by (simp add: parser_key_def parser_byte_def)
qed

lemma digits_loop_append:
  "list_all DIGIT_CASES ds \<Longrightarrow> len + length ds \<le> 15 \<Longrightarrow> 0 \<le> v \<Longrightarrow> v < 10 ^ len \<Longrightarrow>
   digits_loop (ds @ p) len v = digits_loop p (len + length ds) (foldl (\<lambda>v c. v * 10 + (uint c - 0x30)) v ds)"
proof (induction ds arbitrary: len v)
  case (Cons c ds)
  have c: "DIGIT_CASES c" "len < 15" using Cons.prems by auto
  note d = digit_value [OF c(1)]
  let ?v = "v * 10 + (uint c - 0x30)"
  have "v + 1 \<le> 10 ^ len" using Cons.prems(4) by simp
  then have b: "?v < 10 ^ (len + 1)" "0 \<le> ?v" using d Cons.prems(3) by auto
  have "(10 :: int) ^ (len + 1) \<le> 10 ^ 15" using c(2) by (intro power_increasing) auto
  then have "i64 (v * 10) = Some (v * 10)" "i64 ?v = Some ?v" using b d Cons.prems(3) by (auto simp: i64_def INT64_MAX_def)
  then show ?case using c Cons.IH [of "len + 1" ?v] Cons.prems b by simp
qed simp

lemma digit_byte: "n < 10 \<Longrightarrow> DIGIT_CASES (of_nat (0x30 + n)) \<and> uint (of_nat (0x30 + n) :: u8) = 0x30 + int n"
  by (simp add: DIGIT_CASES_def word_le_nat_alt unsigned_of_nat take_bit_nat_eq_self uint_nat del: of_nat_add)

lemma dec_digits_spec:
  "list_all DIGIT_CASES (dec_digits n) \<and> dec_digits n \<noteq> [] \<and> foldl (\<lambda>v c. v * 10 + (uint c - 0x30)) 0 (dec_digits n) = int n"
proof (induction n rule: less_induct)
  case (less n)
  show ?case
  proof (cases "n < 10")
    case True
    then show ?thesis using digit_byte [OF True] by (subst (1 2 3) dec_digits.simps) (simp del: of_nat_add)
  next
    case False
    have "int n = int (n div 10) * 10 + int (n mod 10)" by (metis div_mult_mod_eq of_nat_add of_nat_mult of_nat_numeral)
    then show ?thesis using False less.IH [of "n div 10"] digit_byte [of "n mod 10"]
      by (subst (1 2 3) dec_digits.simps) (simp del: of_nat_add)
  qed
qed

lemma dec_digits_length: "n < 10 ^ Suc k \<Longrightarrow> length (dec_digits n) \<le> Suc k"
proof (induction k arbitrary: n)
  case 0
  then show ?case by (simp add: dec_digits.simps)
next
  case (Suc k)
  then show ?case
  proof (cases "n < 10")
    case False
    have "n div 10 < 10 ^ Suc k" using Suc.prems by (simp add: less_mult_imp_div_less)
    then show ?thesis using Suc.IH [of "n div 10"] False by (subst dec_digits.simps) simp
  qed (simp add: dec_digits.simps)
qed

lemma number_dec:
  assumes "\<bar>n\<bar> < 10 ^ 15" "stop rest" "sfp_pos sfp = dec_int n @ rest"
  shows "parser_number sfp = Some (Inr (SF_TYPE_INTEGER n), sfp\<lparr>sfp_pos := rest\<rparr>)"
proof -
  let ?ds = "dec_digits (nat \<bar>n\<bar>)"
  note d = dec_digits_spec [of "nat \<bar>n\<bar>"]
  have l: "length ?ds \<le> 15" using dec_digits_length [of "nat \<bar>n\<bar>" 14] assms(1) by simp
  have r: "digits_loop rest k v = Some (True, rest, k, v)" for k v using stop_chars(3) [OF assms(2)] by (cases rest) auto
  have dl: "digits_loop (?ds @ rest) 0 0 = Some (True, rest, length ?ds, \<bar>n\<bar>)"
    using digits_loop_append [of ?ds 0 0 rest] d l r by simp
  have dd: "\<not> parser_at (s\<lparr>sfp_pos := rest\<rparr>) 0x2e" for s using stop_chars(3) [OF assms(2)] by (auto simp: parser_at_def parser_eof_def)
  have i: "i64 \<bar>n\<bar> = Some \<bar>n\<bar>" "i64 (- \<bar>n\<bar>) = Some (- \<bar>n\<bar>)" using i64_15 [of "\<bar>n\<bar>" 15] assms(1) by simp_all
  obtain c cs where c: "?ds = c # cs" "DIGIT_CASES c" using d by (cases ?ds) auto
  have c2: "c \<noteq> 0x2d" using c(2) by (auto simp: DIGIT_CASES_def)
  show ?thesis
  proof (cases "n < 0")
    case True
    then have p: "sfp_pos sfp = 0x2d # ?ds @ rest" using assms(3) by (simp add: dec_int_def)
    then show ?thesis using True dl dd i(2) c unfolding parser_number_def
      by (simp add: parser_byte_def parser_advance_def parser_eof_def Let_def)
  next
    case False
    then have p: "sfp_pos sfp = c # cs @ rest" "digits_loop (c # cs @ rest) 0 0 = Some (True, rest, length ?ds, \<bar>n\<bar>)"
      using assms(3) c dl by (simp_all add: dec_int_def)
    then show ?thesis using False dd [of sfp] i(1) c c2 unfolding parser_number_def
      by (simp add: parser_byte_def parser_eof_def Let_def)
  qed
qed

lemma string_loop_append:
  "string_ok s \<Longrightarrow> string_loop (s @ 0x22 # rest) fl done =
     (Some (if 0x5c \<in> set s then SF_VALUE_FLAG_ESCAPED_STRING else fl, done @ s), rest)"
proof (induction s arbitrary: fl "done" rule: string_ok.induct)
  case 1
  then show ?case by (simp add: X20_21_CASES_def X23_5B_CASES_def X5D_7E_CASES_def)
next
  case (2 c cs)
  show ?case
  proof (cases "c = 0x5c")
    case True
    have n: "\<not> (X20_21_CASES 0x5c \<or> X23_5B_CASES 0x5c \<or> X5D_7E_CASES 0x5c)"
      by (simp add: X20_21_CASES_def X23_5B_CASES_def X5D_7E_CASES_def)
    obtain d ds where d: "cs = d # ds" "d = 0x22 \<or> d = 0x5c" "string_ok ds" using 2(3) True by (auto split: list.splits)
    show ?thesis using True d(2) n "2.IH"(1) [OF True d(1) d(3)] by (subst d(1)) (simp add: d(1))
  qed (use 2 in auto)
qed

lemma bare_item_ser:
  assumes "bare_ok v" "stop rest" "sfp_pos sfp = sf_bare v @ rest"
  shows "parser_bare_item sfp = Some (Inr v, sfp\<lparr>sfp_pos := rest\<rparr>)"
proof (cases v)
  case (SF_TYPE_BOOLEAN b)
  then show ?thesis using assms
    by (cases b) (simp_all add: parser_bare_item_def parser_boolean_def parser_defs DIGIT_CASES_def Let_def)
next
  case (SF_TYPE_INTEGER n)
  then have n: "parser_number sfp = Some (Inr v, sfp\<lparr>sfp_pos := rest\<rparr>)" using assms by (simp add: number_dec bare_ok_def)
  obtain c cs where c: "sf_bare v = c # cs" "c = 0x2d \<or> DIGIT_CASES c"
    using dec_digits_spec [of "nat n"] SF_TYPE_INTEGER by (cases "n < 0"; cases "dec_digits (nat n)") (auto simp: dec_int_def)
  then have "c \<noteq> 0x22" by (auto simp: DIGIT_CASES_def)
  then show ?thesis using assms(3) c n by (auto simp: parser_bare_item_def parser_byte_def)
next
  case (SF_TYPE_DATE n)
  then have n: "parser_number (parser_advance sfp) = Some (Inr (SF_TYPE_INTEGER n), sfp\<lparr>sfp_pos := rest\<rparr>)"
    using assms by (subst number_dec [of n rest]) (simp_all add: bare_ok_def parser_advance_def)
  have "dec_int n \<noteq> []" using dec_digits_spec [of "nat n"] by (simp add: dec_int_def)
  then have "\<not> parser_eof (parser_advance sfp)" using SF_TYPE_DATE assms(3) by (simp add: parser_defs)
  then show ?thesis using SF_TYPE_DATE assms(3) n
    by (simp add: parser_bare_item_def parser_date_def parser_byte_def parser_at_def parser_eof_def [of sfp] DIGIT_CASES_def)
next
  case (SF_TYPE_STRING fl s)
  then show ?thesis using assms string_loop_append [of s rest SF_VALUE_FLAG_NONE "[]"]
    by (auto simp: parser_bare_item_def parser_string_def parser_defs bare_ok_def)
next
  case (SF_TYPE_TOKEN t)
  then obtain c cs where c: "t = c # cs" "c = 0x2a \<or> ALPHA_CASES c" "list_all token_char cs" using assms(1) by (cases t) (auto simp: bare_ok_def)
  have "c \<noteq> 0x22" "\<not> (c = 0x2d \<or> DIGIT_CASES c)" "c \<noteq> 0x40" "c \<noteq> 0x3a" "c \<noteq> 0x3f"
    using c(2) by (auto simp: DIGIT_CASES_def ALPHA_CASES_def UCALPHA_CASES_def LCALPHA_CASES_def word_le_nat_alt)
  then show ?thesis using assms(3) SF_TYPE_TOKEN c takeWhile_stop [OF c(3) stop_chars(2) [OF assms(2)]]
    by (simp add: parser_bare_item_def parser_token_def parser_byte_def)
qed (use assms in \<open>simp_all add: bare_ok_def\<close>)

lemma bare_ne: "bare_ok v \<Longrightarrow> sf_bare v \<noteq> []"
  using dec_digits_spec by (cases v) (simp_all add: bare_ok_def dec_int_def)

lemma stop_assign: "stop rest \<Longrightarrow> assign v @ rest = [] \<or> \<not> key_char (hd (assign v @ rest))"
  using stop_chars(1) [of rest] by (simp add: assign_def key_char_def DIGIT_CASES_def LCALPHA_CASES_def)

text \<open>The value after a key is absent when it is true.\<close>

lemma assign_cases:
  assumes "bare_ok v" "stop rest" "sfp_pos sfp = assign v @ rest"
  obtains "v = SF_TYPE_BOOLEAN True" "sfp_pos sfp = rest" "\<not> parser_at sfp 0x3d"
  | "parser_at sfp 0x3d" "\<not> parser_eof (parser_advance sfp)" "parser_bare_item (parser_advance sfp) = Some (Inr v, sfp\<lparr>sfp_pos := rest\<rparr>)"
proof (cases "v = SF_TYPE_BOOLEAN True")
  case True
  then show thesis using that(1) assms(3) stop_chars(3) [OF assms(2)] by (simp add: assign_def parser_at_def parser_eof_def) blast
next
  case False
  then have "parser_bare_item (parser_advance sfp) = Some (Inr v, (parser_advance sfp)\<lparr>sfp_pos := rest\<rparr>)"
    using assms by (intro bare_item_ser) (simp_all add: assign_def parser_advance_def)
  then show thesis using that(2) assms False bare_ne [OF assms(1)] by (simp add: assign_def parser_defs)
qed

lemma key_no_space: "key_ok k \<Longrightarrow> dropWhile (\<lambda>c. c = 0x20) (k @ p) = k @ p" "key_ok k \<Longrightarrow> dropWhile is_ws (k @ p) = k @ p" "key_ok k \<Longrightarrow> k \<noteq> []"
  by (cases k; auto simp: key_ok_def LCALPHA_CASES_def is_ws_def)+

lemma param_tail_ser:
  assumes "key_ok k" "bare_ok v" "stop rest" "sfp_pos sfp = 0x3b # k @ assign v @ rest"
  shows "parser_param_tail sfp = Some (Inr (k, v), sfp\<lparr>sfp_pos := rest\<rparr>)"
proof -
  let ?s = "sfp\<lparr>sfp_pos := k @ assign v @ rest\<rparr>" and ?t = "sfp\<lparr>sfp_pos := assign v @ rest\<rparr>"
  have s: "parser_at sfp 0x3b" "parser_discard_sp (parser_advance sfp) = ?s" "\<not> parser_eof ?s"
    using assms key_no_space [OF assms(1)] by (simp_all add: parser_defs)
  have k: "parser_key ?s = Some (Inr k, ?t)"
    using parser_keyI [OF assms(1) stop_assign [OF assms(3), of v], of ?s] by simp
  have "sfp_pos ?t = assign v @ rest" by simp
  from assign_cases [OF assms(2,3) this] show ?thesis
    by cases (use s k in \<open>simp_all add: parser_param_tail_def Let_def\<close>)
qed

lemma params_stop: "stop rest \<Longrightarrow> stop (params_bytes ps @ rest)"
  by (cases ps) (auto simp: params_bytes_def stop_def)

lemma skip_params_ser:
  assumes "list_all (\<lambda>(k, v). key_ok k \<and> bare_ok v) ps" "rest = [] \<or> hd rest = 0x2c" "sfp_pos sfp = params_bytes ps @ rest"
    "op_of (sfp_state sfp) \<in> {SF_STATE_BEFORE_PARAMS, SF_STATE_PARAMS}"
  shows "parser_skip_params sfp = Some (Inr (), parser_set_op_state (sfp\<lparr>sfp_pos := rest\<rparr>) SF_STATE_AFTER)"
  using assms
proof (induction ps arbitrary: sfp)
  case Nil
  let ?s = "parser_set_op_state sfp SF_STATE_PARAMS"
  have "\<not> parser_at ?s 0x3b" using Nil by (auto simp: params_bytes_def parser_at_def parser_eof_def)
  moreover have "parser_set_op_state ?s SF_STATE_AFTER = parser_set_op_state (sfp\<lparr>sfp_pos := rest\<rparr>) SF_STATE_AFTER"
    using Nil.prems(3) set_op_set [of SF_STATE_PARAMS "sfp_state sfp" SF_STATE_AFTER]
    by (cases sfp) (simp add: params_bytes_def parser_set_op_state_def set_op_def)
  ultimately show ?case
    by (subst parser_skip_params.simps) (simp add: param_with_eq [OF Nil.prems(4)] parser_param_tail_def)
next
  case (Cons p ps)
  obtain k v where p: "p = (k, v)" by (cases p)
  let ?rest = "params_bytes ps @ rest" and ?s = "parser_set_op_state sfp SF_STATE_PARAMS"
  let ?t = "?s\<lparr>sfp_pos := ?rest\<rparr>"
  have "parser_param_tail ?s = Some (Inr (k, v), ?t)"
    using Cons.prems p params_stop [of rest ps] by (intro param_tail_ser) (auto simp: params_bytes_def stop_def)
  moreover have "parser_skip_params ?t = Some (Inr (), parser_set_op_state (?t\<lparr>sfp_pos := rest\<rparr>) SF_STATE_AFTER)"
    using Cons.prems by (intro Cons.IH) simp_all
  moreover have "parser_set_op_state (?t\<lparr>sfp_pos := rest\<rparr>) SF_STATE_AFTER = parser_set_op_state (sfp\<lparr>sfp_pos := rest\<rparr>) SF_STATE_AFTER"
    using set_op_set [of SF_STATE_PARAMS "sfp_state sfp" SF_STATE_AFTER] by (cases sfp) (simp add: parser_set_op_state_def set_op_def)
  ultimately show ?case by (subst parser_skip_params.simps) (simp add: param_with_eq [OF Cons.prems(4)])
qed

subsection \<open>The iteration over a container\<close>

text \<open>All that a client gets by calling \<open>next\<close> until it does not deliver a member.\<close>

inductive yields :: "(sf_parser \<Rightarrow> 'a sf_result) \<Rightarrow> sf_parser \<Rightarrow> 'a list \<Rightarrow> int \<Rightarrow> bool" for "next" where
  yields_end: "next sfp = Some (Inl e, s) \<Longrightarrow> yields next sfp [] e"
| yields_member: "next sfp = Some (Inr v, s) \<Longrightarrow> yields next s vs e \<Longrightarrow> yields next sfp (v # vs) e"

lemma yields_unique: "yields next sfp vs e \<Longrightarrow> yields next sfp vs' e' \<Longrightarrow> vs' = vs \<and> e' = e"
proof (induction arbitrary: vs' e' rule: yields.induct)
  case (yields_end sfp e s)
  from yields_end(2,1) show ?case by (cases rule: yields.cases) simp_all
next
  case (yields_member sfp v s vs e)
  from yields_member(4) show ?case
  proof (cases rule: yields.cases)
    case (yields_member w t ws)
    then show ?thesis using yields_member.hyps yields_member.IH [of ws e'] by auto
  qed (use yields_member.hyps in simp)
qed

text \<open>What the three parsers have in common.\<close>

locale sf_iterator =
  fixes "next" :: "sf_parser \<Rightarrow> 'a sf_result" and n :: u32 and val :: "'a \<Rightarrow> sf_value"
  assumes next_result: "between n (sfp_state sfp) \<Longrightarrow> member_result n sfp val (next sfp)"
begin

lemma iteration_ends:
  "between n (sfp_state sfp) \<Longrightarrow>
   \<exists>vs e. yields next sfp vs e \<and> e \<in> {SF_ERR_EOF, SF_ERR_PARSE_ERROR} \<and> length vs \<le> length (sfp_pos sfp) \<and> (\<forall>v \<in> set vs. value_ok (val v))"
proof (induction "length (sfp_pos sfp)" arbitrary: sfp rule: less_induct)
  case less
  obtain x s where s: "next sfp = Some (x, s)"
    "case x of Inl e \<Rightarrow> e \<in> {SF_ERR_EOF, SF_ERR_PARSE_ERROR}
      | Inr v \<Rightarrow> value_ok (val v) \<and> between n (sfp_state s) \<and> length (sfp_pos s) < length (sfp_pos sfp)"
    using next_result [OF less.prems] unfolding member_result_def by blast
  show ?case
  proof (cases x)
    case (Inl e)
    then show ?thesis using s by (intro exI [of _ "[]"] exI [of _ e]) (auto intro: yields_end)
  next
    case (Inr v)
    then have p: "length (sfp_pos s) < length (sfp_pos sfp)" "between n (sfp_state s)" "value_ok (val v)" "next sfp = Some (Inr v, s)" using s by auto
    obtain vs e where "yields next s vs e" "e \<in> {SF_ERR_EOF, SF_ERR_PARSE_ERROR}" "length vs \<le> length (sfp_pos s)" "\<forall>v \<in> set vs. value_ok (val v)"
      using less.hyps [OF p(1,2)] by blast
    then show ?thesis using p by (intro exI [of _ "v # vs"] exI [of _ e]) (auto intro: yields_member)
  qed
qed

lemma init_iteration_ends:
  "\<exists>vs e. yields next (sf_parser_init data) vs e \<and> e \<in> {SF_ERR_EOF, SF_ERR_PARSE_ERROR} \<and> length vs \<le> length data \<and> (\<forall>v \<in> set vs. value_ok (val v))"
  using iteration_ends [of "sf_parser_init data"] by (simp add: sf_parser_init_def between_def)

end

interpretation sfd: sf_iterator sf_parser_dict SF_STATE_DICT snd
  by unfold_locales (rule dict_returns)

interpretation sfl: sf_iterator sf_parser_list SF_STATE_LIST id
  by unfold_locales (rule list_returns)

interpretation sfi: sf_iterator sf_parser_item SF_STATE_ITEM id
  by unfold_locales (rule item_returns)

lemma hd_dec_digits: "hd (dec_digits n) \<noteq> 0x28"
  using dec_digits_spec [of n] by (cases "dec_digits n") (auto simp: DIGIT_CASES_def)

lemma dict_state: "set_op (SF_SET_STATE_BEFORE_PARAMS SF_STATE_DICT) SF_STATE_AFTER = SF_SET_STATE_AFTER SF_STATE_DICT"
  by (simp add: set_op_def ng_defs)

text \<open>One member, once the parser is at its key.\<close>

lemma dict_member_ser:
  assumes "member_ok (k, v, ps)" "rest = [] \<or> hd rest = 0x2c" "sfp_pos t = member_bytes (k, v, ps) @ rest"
    "parser_start_member SF_STATE_DICT sfp = Some (Inr (), t)"
  shows "sf_parser_dict sfp = Some (Inr (k, v), \<lparr>sfp_pos = params_bytes ps @ rest, sfp_state = SF_SET_STATE_BEFORE_PARAMS SF_STATE_DICT\<rparr>)"
proof -
  let ?rest = "params_bytes ps @ rest" and ?t = "t\<lparr>sfp_pos := assign v @ params_bytes ps @ rest\<rparr>"
  let ?u = "\<lparr>sfp_pos = params_bytes ps @ rest, sfp_state = SF_SET_STATE_BEFORE_PARAMS SF_STATE_DICT\<rparr>"
  have ok: "key_ok k" "bare_ok v" "list_all (\<lambda>(k, v). key_ok k \<and> bare_ok v) ps" using assms(1) by (simp_all add: member_ok_def)
  have st: "stop ?rest" using assms(2) by (intro params_stop) (auto simp: stop_def)
  have k: "parser_key t = Some (Inr k, ?t)"
    using parser_keyI [OF ok(1) stop_assign [OF st, of v], of t] assms(3) by (simp add: member_bytes_def)
  have "parser_dict_value ?t = Some (Inr v, ?u)"
  proof (cases rule: assign_cases [OF ok(2) st, of ?t])
    case 1
    then show ?case by simp
  next
    case 2
    then show ?thesis by (cases t) (simp add: parser_dict_value_def)
  next
    case 3
    have "sfp_pos (parser_advance ?t) = sf_bare v @ ?rest" "sf_bare v \<noteq> []"
      using 3(1) bare_ne [OF ok(2)] st by (auto simp: parser_defs assign_def stop_def split: if_splits)
    moreover have "hd (sf_bare v) \<noteq> 0x28"
      using ok(2) hd_dec_digits
      by (cases v) (auto simp: bare_ok_def dec_int_def ALPHA_CASES_def UCALPHA_CASES_def LCALPHA_CASES_def)
    ultimately have "parser_member SF_STATE_DICT (parser_advance ?t) = Some (Inr v, ?u)"
      using 3(3) by (cases "sf_bare v"; cases t) (simp_all add: parser_member_def parser_byte_def)
    then show ?thesis using 3 by (simp add: parser_dict_value_def)
  qed
  then show ?thesis using assms(4) k by (simp add: sf_parser_dict_def)
qed

definition next_bytes :: "sf_member list \<Rightarrow> bytes" where
  "next_bytes ms = (if ms = [] then [] else [0x2c, 0x20] @ dict_bytes ms)"

lemma dict_bytes_Cons: "dict_bytes (m # ms) = member_bytes m @ next_bytes ms"
  by (cases ms) (simp_all add: next_bytes_def)

definition member_kv :: "sf_member \<Rightarrow> bytes \<times> sf_value" where
  "member_kv m = (case m of (k, v, ps) \<Rightarrow> (k, v))"

lemma start_next_member:
  assumes "list_all (\<lambda>(k, v). key_ok k \<and> bare_ok v) ps" "rest = [] \<or> hd rest = 0x2c"
  shows "parser_start_member SF_STATE_DICT \<lparr>sfp_pos = params_bytes ps @ rest, sfp_state = SF_SET_STATE_BEFORE_PARAMS SF_STATE_DICT\<rparr> =
    parser_next_key_or_item \<lparr>sfp_pos = rest, sfp_state = SF_SET_STATE_AFTER SF_STATE_DICT\<rparr>"
proof -
  let ?s = "\<lparr>sfp_pos = params_bytes ps @ rest, sfp_state = SF_SET_STATE_BEFORE_PARAMS SF_STATE_DICT\<rparr>"
  have c: "container SF_STATE_DICT" by (simp add: container_def)
  note st = container_states [OF c]
  have "parser_skip_params ?s = Some (Inr (), \<lparr>sfp_pos = rest, sfp_state = SF_SET_STATE_AFTER SF_STATE_DICT\<rparr>)"
    using skip_params_ser [OF assms, of ?s] st(2) dict_state by (simp add: parser_set_op_state_def set_op_def)
  then show ?thesis using st by (simp add: parser_start_member_def parser_skip_member_def)
qed

lemma dict_tail_ser:
  "list_all member_ok ms \<Longrightarrow> list_all (\<lambda>(k, v). key_ok k \<and> bare_ok v) ps \<Longrightarrow>
   yields sf_parser_dict \<lparr>sfp_pos = params_bytes ps @ next_bytes ms, sfp_state = SF_SET_STATE_BEFORE_PARAMS SF_STATE_DICT\<rparr> (map member_kv ms) SF_ERR_EOF"
proof (induction ms arbitrary: ps)
  case Nil
  have "sf_parser_dict \<lparr>sfp_pos = params_bytes ps @ next_bytes [], sfp_state = SF_SET_STATE_BEFORE_PARAMS SF_STATE_DICT\<rparr> =
    Some (Inl SF_ERR_EOF, \<lparr>sfp_pos = [], sfp_state = SF_SET_STATE_AFTER SF_STATE_DICT\<rparr>)"
    unfolding sf_parser_dict_def using start_next_member [OF Nil(2), of "[]"]
    by (simp add: next_bytes_def parser_next_key_or_item_def parser_defs)
  then show ?case by (auto intro: yields_end)
next
  case (Cons m ms)
  obtain k v qs where m: "m = (k, v, qs)" by (cases m) auto
  have ok: "member_ok (k, v, qs)" "key_ok k" "list_all (\<lambda>(k, v). key_ok k \<and> bare_ok v) qs" using Cons.prems m by (auto simp: member_ok_def)
  let ?t = "\<lparr>sfp_pos = dict_bytes (m # ms), sfp_state = SF_SET_STATE_AFTER SF_STATE_DICT\<rparr>"
  have rest: "next_bytes ms = [] \<or> hd (next_bytes ms) = 0x2c" by (simp add: next_bytes_def)
  have "parser_next_key_or_item \<lparr>sfp_pos = next_bytes (m # ms), sfp_state = SF_SET_STATE_AFTER SF_STATE_DICT\<rparr> = Some (Inr (), ?t)"
    using key_no_space(2,3) [OF ok(2)]
    by (simp add: parser_next_key_or_item_def parser_defs next_bytes_def dict_bytes_Cons m member_bytes_def is_ws_def)
  then have "parser_start_member SF_STATE_DICT \<lparr>sfp_pos = params_bytes ps @ next_bytes (m # ms), sfp_state = SF_SET_STATE_BEFORE_PARAMS SF_STATE_DICT\<rparr> = Some (Inr (), ?t)"
    using start_next_member [OF Cons.prems(2), of "next_bytes (m # ms)"] by (simp add: next_bytes_def)
  from dict_member_ser [OF ok(1) rest _ this] show ?case
    using Cons.IH [OF _ ok(3)] Cons.prems(1) m by (auto simp: dict_bytes_Cons member_kv_def intro: yields_member)
qed

subsection \<open>Decoders\<close>

text \<open>
  A string whose escapes are complete is decoded within a destination of its own length, and the
  result is the string that was escaped.
\<close>

fun escape :: "bytes \<Rightarrow> bytes" where
  "escape [] = []"
| "escape (c # cs) = (if c = 0x22 \<or> c = 0x5c then 0x5c # c # escape cs else c # escape cs)"

fun unescaped :: "bytes \<Rightarrow> bytes" where
  "unescaped [] = []"
| "unescaped (c # cs) = (if c = 0x5c then (case cs of [] \<Rightarrow> [] | d # ds \<Rightarrow> d # unescaped ds) else c # unescaped cs)"

lemma unescaped_escape: "unescaped (escape s) = s"
  by (induction s) auto

lemma string_ok_escape: "list_all (\<lambda>c. 0x20 \<le> c \<and> c \<le> 0x7e) s \<Longrightarrow> string_ok (escape s)"
proof (induction s)
  case (Cons c s)
  have "c \<noteq> 0x22 \<Longrightarrow> c \<noteq> 0x5c \<Longrightarrow> X20_21_CASES c \<or> X23_5B_CASES c \<or> X5D_7E_CASES c"
    using Cons.prems by (auto simp: X20_21_CASES_def X23_5B_CASES_def X5D_7E_CASES_def word_le_nat_alt unat_arith_simps)
  then show ?case using Cons by auto
qed simp

lemma unescaped_run: "unescaped p = takeWhile (\<lambda>c. c \<noteq> 0x5c) p @ unescaped (dropWhile (\<lambda>c. c \<noteq> 0x5c) p)"
  by (induction p) auto

lemma string_ok_run: "string_ok p \<Longrightarrow> string_ok (dropWhile (\<lambda>c. c \<noteq> 0x5c) p)"
  by (induction p) auto

lemma length_unescaped: "length (unescaped p) \<le> length p"
  by (induction p rule: unescaped.induct) (auto split: list.splits)

lemma unescape_loop_ok:
  "string_ok p \<Longrightarrow> length out + length p \<le> room \<Longrightarrow> length p < length src \<or> p = src \<and> out = [] \<Longrightarrow>
   unescape_loop room src p out = Some (out @ unescaped p)"
proof (induction "length p" arbitrary: p out rule: less_induct)
  case less
  let ?P = "\<lambda>c. c \<noteq> (0x5c :: u8)"
  let ?run = "takeWhile ?P p" and ?q = "dropWhile ?P p"
  note pq = unescaped_run [of p] takeWhile_dropWhile_id [of ?P p]
  show ?case
  proof (cases "?q = []")
    case True
    then have "unescaped p = p" using pq by (metis append_Nil2 unescaped.simps(1))
    then show ?thesis using True less.prems by (subst unescape_loop.simps) (auto simp: put_bytes_def)
  next
    case False
    then obtain c p' where q: "?q = 0x5c # c # p'" "string_ok p'"
      using string_ok_run [OF less.prems(1)] hd_dropWhile [OF False]
      by (cases ?q rule: string_ok.cases) (auto split: list.splits)
    have l: "length p = length ?run + 2 + length p'" using arg_cong [OF pq(2), of length] q(1) by simp
    have "unescape_loop room src p' (out @ ?run @ [c]) = Some ((out @ ?run @ [c]) @ unescaped p')"
      using l q(2) less.prems by (intro less.hyps) auto
    then show ?thesis using q(1) pq(1) l less.prems(2) by (subst unescape_loop.simps) (simp add: put_bytes_def)
  qed
qed

lemma sf_unescape_ok: "string_ok s \<Longrightarrow> length s \<le> room \<Longrightarrow> sf_unescape room s = Some (unescaped s)"
  using unescape_loop_ok [of s "[]" room s] by (simp add: sf_unescape_def)

text \<open>The base64 alphabet, and the encoding of RFC 4648, section 4.\<close>

definition b64_of :: "nat \<Rightarrow> u8" where
  "b64_of k = ascii ''ABCDEFGHIJKLMNOPQRSTUVWXYZabcdefghijklmnopqrstuvwxyz0123456789+/'' ! k"

fun b64_encode :: "bytes \<Rightarrow> bytes" where
  "b64_encode [] = []"
| "b64_encode [a] = (let m = unat a * 2 ^ 16 in [b64_of (m div 2 ^ 18), b64_of (m div 2 ^ 12 mod 64), 0x3d, 0x3d])"
| "b64_encode [a, b] =
     (let m = unat a * 2 ^ 16 + unat b * 2 ^ 8 in [b64_of (m div 2 ^ 18), b64_of (m div 2 ^ 12 mod 64), b64_of (m div 2 ^ 6 mod 64), 0x3d])"
| "b64_encode (a # b # c # r) =
     (let m = unat a * 2 ^ 16 + unat b * 2 ^ 8 + unat c
      in [b64_of (m div 2 ^ 18), b64_of (m div 2 ^ 12 mod 64), b64_of (m div 2 ^ 6 mod 64), b64_of (m mod 64)] @ b64_encode r)"

lemma index_b64_all: "list_all (\<lambda>k. index_tbl ! unat (b64_of k) = int k) [0..<64]"
  by code_simp

lemma index_b64: "k < 64 \<Longrightarrow> index_tbl ! unat (b64_of k) = int k"
  using index_b64_all by (simp add: list_all_iff)

lemma index_pad [simp]: "index_tbl ! 61 = -1"
  by code_simp

lemma b64_byte_of_nat: "m < 2 ^ 32 \<Longrightarrow> b64_byte (of_nat m) k = of_nat (m div 2 ^ k)"
proof -
  assume "m < 2 ^ 32"
  then have "unat (of_nat m :: u32) = m" by (simp add: unsigned_of_nat take_bit_nat_eq_self)
  then have "unat (drop_bit k (of_nat m :: u32)) = m div 2 ^ k" by (metis unat_drop_bit_eq drop_bit_eq_div)
  then show ?thesis unfolding b64_byte_def by (metis of_nat_unat)
qed

text \<open>The characters of a group, one after the other.\<close>

lemma base64_step:
  assumes "k < 64" "i \<le> 4"
  shows "base64_group i n (b64_of k # p) = base64_group (i + 1) (n + of_nat (k * 2 ^ (24 - i * 6))) p"
  using assms index_b64 [OF assms(1)] by (simp add: push_bit_eq_mult)

lemma base64_quad:
  assumes "i < 64" "j < 64" "k < 64" "l < 64"
  shows "base64_group 1 0 (b64_of i # b64_of j # b64_of k # b64_of l # p) = Some (Inr (of_nat (i * 2 ^ 18 + j * 2 ^ 12 + k * 2 ^ 6 + l), p))"
    "base64_group 1 0 [b64_of i, b64_of j, b64_of k, 0x3d] =
      Some (Inl [b64_byte (of_nat (i * 2 ^ 18 + j * 2 ^ 12 + k * 2 ^ 6)) 16, b64_byte (of_nat (i * 2 ^ 18 + j * 2 ^ 12 + k * 2 ^ 6)) 8])"
    "base64_group 1 0 [b64_of i, b64_of j, 0x3d, 0x3d] = Some (Inl [b64_byte (of_nat (i * 2 ^ 18 + j * 2 ^ 12)) 16])"
proof -
  have s3: "base64_group 3 n (b64_of k # q) = base64_group 4 (n + of_nat (k * 2 ^ 6)) q" for n q
    using base64_step [OF assms(3), of 3 n q] by (simp del: base64_group.simps)
  have s4: "base64_group 4 n (b64_of l # q) = base64_group 5 (n + of_nat l) q" for n q
    using base64_step [OF assms(4), of 4 n q] by (simp del: base64_group.simps)
  have s: "base64_group 1 0 (b64_of i # b64_of j # q) = base64_group 3 (of_nat (i * 2 ^ 18 + j * 2 ^ 12)) q" for q
    using base64_step [OF assms(1), of 1 0 "b64_of j # q"] base64_step [OF assms(2), of 2 "of_nat (i * 2 ^ 18)" q]
    by (simp add: numeral_2_eq_2 numeral_3_eq_3 del: base64_group.simps)
  have t: "base64_group 5 n q = Some (Inr (n, q))" for n q by (cases q) simp_all
  show "base64_group 1 0 (b64_of i # b64_of j # b64_of k # b64_of l # p) = Some (Inr (of_nat (i * 2 ^ 18 + j * 2 ^ 12 + k * 2 ^ 6 + l), p))"
    unfolding s s3 s4 t by simp
  show "base64_group 1 0 [b64_of i, b64_of j, b64_of k, 0x3d] =
      Some (Inl [b64_byte (of_nat (i * 2 ^ 18 + j * 2 ^ 12 + k * 2 ^ 6)) 16, b64_byte (of_nat (i * 2 ^ 18 + j * 2 ^ 12 + k * 2 ^ 6)) 8])"
    unfolding s s3 by simp
  show "base64_group 1 0 [b64_of i, b64_of j, 0x3d, 0x3d] = Some (Inl [b64_byte (of_nat (i * 2 ^ 18 + j * 2 ^ 12)) 16])"
    unfolding s by simp
qed

lemma split_24: "(m :: nat) div 2 ^ 18 * 2 ^ 18 + m div 2 ^ 12 mod 64 * 2 ^ 12 + m div 2 ^ 6 mod 64 * 2 ^ 6 + m mod 64 = m"
proof -
  have "m = m div 64 * 64 + m mod 64" by simp
  moreover have "m div 64 = m div 4096 * 64 + m div 64 mod 64" using div_mult_mod_eq [of "m div 64" 64] by (simp add: div_mult2_eq [symmetric])
  moreover have "m div 4096 = m div 262144 * 64 + m div 4096 mod 64" using div_mult_mod_eq [of "m div 4096" 64] by (simp add: div_mult2_eq [symmetric])
  ultimately have "m = ((m div 262144 * 64 + m div 4096 mod 64) * 64 + m div 64 mod 64) * 64 + m mod 64" by metis
  then show ?thesis by (simp add: algebra_simps)
qed

lemma three_bytes:
  fixes a b c :: u8
  defines "m \<equiv> unat a * 2 ^ 16 + unat b * 2 ^ 8 + unat c"
  shows "m < 2 ^ 24" "b64_byte (of_nat m) 16 = a" "b64_byte (of_nat m) 8 = b" "b64_byte (of_nat m) 0 = c"
proof -
  have l: "unat a < 256" "unat b < 256" "unat c < 256" using unsigned_less [of a] unsigned_less [of b] unsigned_less [of c] by simp_all
  show m: "m < 2 ^ 24" unfolding m_def using l by simp
  have d: "m div 2 ^ 16 = unat a" "m div 2 ^ 8 = unat a * 2 ^ 8 + unat b" unfolding m_def using l by simp_all
  have w: "of_nat (unat a * 2 ^ 8 + unat b) = b" "(of_nat (unat a * 2 ^ 16 + unat b * 2 ^ 8 + unat c) :: u8) = c"
    by (rule word_unat_eq_iff [THEN iffD2]; use l in \<open>simp add: unsigned_of_nat take_bit_eq_mod mod_add_left_eq [symmetric] del: of_nat_add of_nat_mult\<close>)+
  have "m < 2 ^ 32" using m by simp
  note e = b64_byte_of_nat [OF this]
  show "b64_byte (of_nat m) 16 = a" "b64_byte (of_nat m) 8 = b" "b64_byte (of_nat m) 0 = c"
    unfolding e d using w by (simp_all add: m_def)
qed

lemma base64_loop_encode: "length out + length xs \<le> room \<Longrightarrow> base64_loop room (b64_encode xs) out = Some (out @ xs)"
proof (induction xs arbitrary: out rule: b64_encode.induct)
  case (2 a)
  let ?m = "unat a * 2 ^ 16"
  note t = three_bytes [of a 0 0, simplified] and s = split_24 [of ?m]
  have "?m div 2 ^ 18 < 64" "?m div 2 ^ 12 mod 64 < 64" "?m div 2 ^ 6 mod 64 = 0" "?m mod 64 = 0" using t(1) by simp_all
  moreover from this s have "?m div 2 ^ 18 * 2 ^ 18 + ?m div 2 ^ 12 mod 64 * 2 ^ 12 = ?m" by simp
  ultimately show ?case using 2 t base64_quad(3) [of "?m div 2 ^ 18" "?m div 2 ^ 12 mod 64" 0 0]
    by (subst base64_loop.simps) (simp add: Let_def put_bytes_def del: base64_group.simps)
next
  case (3 a b)
  let ?m = "unat a * 2 ^ 16 + unat b * 2 ^ 8"
  note t = three_bytes [of a b 0, simplified] and s = split_24 [of ?m]
  have "?m = 64 * (unat a * 2 ^ 10 + unat b * 2 ^ 2)" by simp
  then have "?m mod 64 = 0" by (metis mod_mult_self1_is_0)
  moreover have "?m div 2 ^ 18 < 64" "?m div 2 ^ 12 mod 64 < 64" "?m div 2 ^ 6 mod 64 < 64" using t(1) by simp_all
  moreover from this s have "?m div 2 ^ 18 * 2 ^ 18 + ?m div 2 ^ 12 mod 64 * 2 ^ 12 + ?m div 2 ^ 6 mod 64 * 2 ^ 6 = ?m" by simp
  ultimately show ?case using 3 t base64_quad(2) [of "?m div 2 ^ 18" "?m div 2 ^ 12 mod 64" "?m div 2 ^ 6 mod 64" 0]
    by (subst base64_loop.simps) (simp add: Let_def put_bytes_def del: base64_group.simps)
next
  case (4 a b c r)
  let ?m = "unat a * 2 ^ 16 + unat b * 2 ^ 8 + unat c"
  note t = three_bytes [of a b c] and s = split_24 [of ?m]
  have m: "?m div 2 ^ 18 < 64" "?m div 2 ^ 12 mod 64 < 64" "?m div 2 ^ 6 mod 64 < 64" "?m mod 64 < 64" using t(1) by simp_all
  have g: "base64_group 1 0 (b64_encode (a # b # c # r)) = Some (Inr (of_nat ?m, b64_encode r))"
    using base64_quad(1) [OF m, of "b64_encode r"] unfolding s by (simp add: Let_def del: base64_group.simps)
  have "b64_encode (a # b # c # r) \<noteq> []" by (simp add: Let_def)
  then show ?case using g t 4 by (subst base64_loop.simps) (simp add: put_bytes_def del: base64_group.simps b64_encode.simps)
qed (simp add: base64_loop.simps)

lemma length_b64_encode: "length (b64_encode xs) mod 4 = 0"
  by (induction xs rule: b64_encode.induct) (simp_all add: Let_def)

lemma base64decode_encode:
  assumes "length xs \<le> room"
  shows "sf_base64decode room (b64_encode xs) = Some xs"
  using base64_loop_encode [of "[]" xs room] assms length_b64_encode [of xs]
  by (cases xs rule: b64_encode.cases) (simp_all add: sf_base64decode_def Let_def)

text \<open>Whatever the reader of byte sequences accepts is decoded, into three quarters of its length.\<close>

lemma index_char_all: "list_all (\<lambda>n. b64_char (of_nat n) \<longrightarrow> index_tbl ! n \<noteq> -1) [0..<256]"
  by code_simp

lemma index_char: "b64_char c \<Longrightarrow> index_tbl ! unat c \<noteq> -1"
proof -
  have "unat c < 256" using unsigned_less [of c] by simp
  then show "b64_char c \<Longrightarrow> index_tbl ! unat c \<noteq> -1" using index_char_all by (simp add: list_all_iff)
qed

lemma group_returns:
  assumes "byteseq_ok p" "p \<noteq> []"
  obtains n p' where "base64_group 1 0 p = Some (Inr (n, p'))" "byteseq_ok p'" "length p = length p' + 4"
  | bs where "base64_group 1 0 p = Some (Inl bs)" "length bs \<le> 2" "4 \<le> length p"
proof -
  have l: "length p mod 4 = 0" using assms(1) by (simp add: byteseq_ok_def)
  obtain a b c d p' where p: "p = a # b # c # d # p'"
  proof -
    have "4 \<le> length p" using assms(2) l by (cases "length p < 4") simp_all
    then show thesis using that by (auto simp: numeral_eq_Suc Suc_le_length_iff)
  qed
  have l': "length p' mod 4 = 0" using l p by simp
  have d: "dropWhile b64_char p \<in> {[], [0x3d], [0x3d, 0x3d]}" using assms(1) by (simp add: byteseq_ok_def)
  have ab: "b64_char a" "b64_char b" using d p by (auto split: if_splits)
  note ix = index_char [OF ab(1)] index_char [OF ab(2)]
  consider "b64_char c" "b64_char d" | "b64_char c" "\<not> b64_char d" | "\<not> b64_char c" by blast
  then show thesis
  proof cases
    case 1
    then have "\<exists>n. base64_group 1 0 p = Some (Inr (n, p'))"
      using p ix index_char [OF 1(1)] index_char [OF 1(2)] by (cases p') (simp_all add: Let_def)
    moreover have "byteseq_ok p'" using d p 1 ab l' by (simp add: byteseq_ok_def)
    ultimately show thesis using that(1) p by auto
  next
    case 2
    then have "d # p' = [0x3d]" using d p ab l' by auto
    then show thesis using that(2) p ix index_char [OF 2(1)] by (simp add: Let_def)
  next
    case 3
    then have "c # d # p' = [0x3d, 0x3d]" using d p ab l' by auto
    then show thesis using that(2) p ix by (simp add: Let_def)
  qed
qed

lemma base64_loop_returns:
  "byteseq_ok p \<Longrightarrow> length out + 3 * (length p div 4) \<le> room \<Longrightarrow>
   \<exists>r. base64_loop room p out = Some r \<and> length r \<le> length out + 3 * (length p div 4)"
proof (induction "length p" arbitrary: p out rule: less_induct)
  case less
  show ?case
  proof (cases "p = []")
    case True
    then show ?thesis by (simp add: base64_loop.simps)
  next
    case False
    from group_returns [OF less.prems(1) False] show ?thesis
    proof cases
      case (1 n p')
      let ?out = "out @ [b64_byte n 16, b64_byte n 8, b64_byte n 0]"
      have "length p div 4 = length p' div 4 + 1" using 1(3) by simp
      moreover from this obtain r where "base64_loop room p' ?out = Some r" "length r \<le> length ?out + 3 * (length p' div 4)"
        using less.hyps [of p' ?out] 1 less.prems(2) by auto
      ultimately show ?thesis using 1 False less.prems(2) by (subst base64_loop.simps) (simp add: put_bytes_def)
    next
      case (2 bs)
      have "1 \<le> length p div 4" using 2(3) by simp
      then show ?thesis using 2 False less.prems(2) by (subst base64_loop.simps) (simp add: put_bytes_def)
    qed
  qed
qed

text \<open>The decoder that a client calls for a value, with a destination as long as the value.\<close>

definition decodable :: "sf_value \<Rightarrow> bool" where
  "decodable v \<longleftrightarrow> (case v of
      SF_TYPE_STRING fl s \<Rightarrow> sf_unescape (length s) s = Some (unescaped s) \<and> (fl = SF_VALUE_FLAG_NONE \<longrightarrow> unescaped s = s)
    | SF_TYPE_BYTESEQ s \<Rightarrow> sf_base64decode (3 * (length s div 4)) s \<noteq> None
    | SF_TYPE_INTEGER n \<Rightarrow> \<bar>n\<bar> < 10 ^ 15
    | SF_TYPE_DATE n \<Rightarrow> \<bar>n\<bar> < 10 ^ 15
    | SF_TYPE_DECIMAL n d \<Rightarrow> \<bar>n\<bar> < 10 ^ 15 \<and> d \<in> {10, 100, 1000}
    | _ \<Rightarrow> True)"

lemma unescaped_plain: "0x5c \<notin> set s \<Longrightarrow> unescaped s = s"
  by (induction s) auto

lemma value_ok_decodable: "value_ok v \<Longrightarrow> decodable v"
proof (cases v)
  case (SF_TYPE_STRING fl s)
  assume "value_ok v"
  then show ?thesis using SF_TYPE_STRING sf_unescape_ok [of s "length s"] unescaped_plain [of s]
    by (auto simp: value_ok_def decodable_def SF_VALUE_FLAG_NONE_def SF_VALUE_FLAG_ESCAPED_STRING_def split: if_splits)
next
  case (SF_TYPE_BYTESEQ s)
  assume "value_ok v"
  then show ?thesis using SF_TYPE_BYTESEQ base64_loop_returns [of s "[]" "3 * (length s div 4)"]
    by (auto simp: value_ok_def decodable_def sf_base64decode_def byteseq_ok_def)
qed (simp_all add: value_ok_def decodable_def)

lemma dict_yields:
  assumes "list_all member_ok ms"
  shows "yields sf_parser_dict (sf_parser_init (dict_bytes ms)) (map member_kv ms) SF_ERR_EOF"
proof (cases ms)
  case Nil
  then show ?thesis by (auto simp: sf_parser_init_def sf_parser_dict_def parser_start_member_def parser_defs intro: yields_end)
next
  case (Cons m ms')
  obtain k v qs where m: "m = (k, v, qs)" by (cases m) auto
  have ok: "member_ok (k, v, qs)" "key_ok k" "list_all (\<lambda>(k, v). key_ok k \<and> bare_ok v) qs" using assms Cons m by (auto simp: member_ok_def)
  have rest: "next_bytes ms' = [] \<or> hd (next_bytes ms') = 0x2c" by (simp add: next_bytes_def)
  have "parser_start_member SF_STATE_DICT (sf_parser_init (dict_bytes ms)) = Some (Inr (), sf_parser_init (dict_bytes ms))"
    using key_no_space(1,3) [OF ok(2)]
    by (simp add: parser_start_member_def sf_parser_init_def parser_defs Cons dict_bytes_Cons m member_bytes_def)
  from dict_member_ser [OF ok(1) rest _ this] show ?thesis
    using dict_tail_ser [OF _ ok(3)] assms Cons m
    by (auto simp: sf_parser_init_def dict_bytes_Cons member_kv_def intro: yields_member)
qed

subsection \<open>Properties\<close>

text \<open>
  C14.  Iterating over any dictionary, list or item, whatever its bytes, never reads out of bounds,
  fails an assertion or overflows, and it ends: after at most as many members as there are bytes,
  with the end of the input or a parse error.  Every value it delivers can be passed to its decoder:
  the escapes of a string are complete and its flag tells whether there are any, a byte sequence
  decodes into three quarters of its length, and numbers have at most fifteen digits.
\<close>

theorem sf_iteration_total:
  "(\<exists>vs e. yields sf_parser_dict (sf_parser_init data) vs e \<and> e \<in> {SF_ERR_EOF, SF_ERR_PARSE_ERROR} \<and> length vs \<le> length data \<and> list_all (decodable \<circ> snd) vs) \<and>
   (\<exists>vs e. yields sf_parser_list (sf_parser_init data) vs e \<and> e \<in> {SF_ERR_EOF, SF_ERR_PARSE_ERROR} \<and> length vs \<le> length data \<and> list_all decodable vs) \<and>
   (\<exists>vs e. yields sf_parser_item (sf_parser_init data) vs e \<and> e \<in> {SF_ERR_EOF, SF_ERR_PARSE_ERROR} \<and> length vs \<le> length data \<and> list_all decodable vs)"
  using sfd.init_iteration_ends [of data] sfl.init_iteration_ends [of data] sfi.init_iteration_ends [of data] value_ok_decodable
  by (simp add: list_all_iff) blast

text \<open>
  C17.  The dictionary of RFC 8941 is read back: from the serialisation of any list of members with
  valid keys, boolean, integer, date, string or token values and such parameters, the iteration
  delivers exactly the keys and the values in their order, and nothing else.
\<close>

theorem sf_dict_roundtrip:
  assumes "list_all member_ok ms"
  shows "yields sf_parser_dict (sf_parser_init (dict_bytes ms)) vs e \<longleftrightarrow> vs = map member_kv ms \<and> e = SF_ERR_EOF"
  using dict_yields [OF assms] by (blast dest: yields_unique)

text \<open>Witness: \<open>u=3, i;q="a\\"b"\<close>.\<close>

definition sample_dict :: "sf_member list" where
  "sample_dict = [(ascii ''u'', SF_TYPE_INTEGER 3, []),
     (ascii ''i'', SF_TYPE_BOOLEAN True, [(ascii ''q'', SF_TYPE_STRING SF_VALUE_FLAG_ESCAPED_STRING [0x61, 0x5c, 0x22, 0x62])])]"

theorem sf_dict_roundtrip_witness:
  "list_all member_ok sample_dict \<and> dict_bytes sample_dict = ascii ''u=3, i;q='' @ [0x22, 0x61, 0x5c, 0x22, 0x62, 0x22] \<and>
   yields sf_parser_dict (sf_parser_init (dict_bytes sample_dict)) [(ascii ''u'', SF_TYPE_INTEGER 3), (ascii ''i'', SF_TYPE_BOOLEAN True)] SF_ERR_EOF"
proof -
  have ok: "list_all member_ok sample_dict" by code_simp
  have b: "dict_bytes sample_dict = ascii ''u=3, i;q='' @ [0x22, 0x61, 0x5c, 0x22, 0x62, 0x22]" by code_simp
  have kv: "map member_kv sample_dict = [(ascii ''u'', SF_TYPE_INTEGER 3), (ascii ''i'', SF_TYPE_BOOLEAN True)]"
    by (simp add: sample_dict_def member_kv_def)
  show ?thesis using ok b sf_dict_roundtrip [OF ok] kv by simp
qed

end
