(* ===== verification/Http.thy ===== *)
theory Http
  imports Sfparse Stream Header_Chars Frame "HOL-Library.Signed_Division"
begin

unbundle bit_operations_syntax

text \<open>
  The checks on HTTP messages in \<open>nghttp2_http.c\<close>: what a received header field, the end of a field
  section, body data and the end of a stream do to the stream, and the \<open>priority\<close> header field.
  The fields that are used are those of \<^typ>\<open>nghttp2_stream\<close> in \<open>Stream\<close>.  A received name or
  value is in a reference counted buffer that ends in a NUL, so its first byte can be read when it
  is empty.  A signed overflow is \<open>None\<close>; what the code returns is \<open>Some\<close> of the return value and
  the stream.
\<close>

subsection \<open>Flags\<close>

definition NGHTTP2_HTTP_FLAG__AUTHORITY :: u32 where "NGHTTP2_HTTP_FLAG__AUTHORITY = 2 ^ 0"
definition NGHTTP2_HTTP_FLAG__PATH :: u32 where "NGHTTP2_HTTP_FLAG__PATH = 2 ^ 1"
definition NGHTTP2_HTTP_FLAG__METHOD :: u32 where "NGHTTP2_HTTP_FLAG__METHOD = 2 ^ 2"
definition NGHTTP2_HTTP_FLAG__SCHEME :: u32 where "NGHTTP2_HTTP_FLAG__SCHEME = 2 ^ 3"
definition NGHTTP2_HTTP_FLAG_HOST :: u32 where "NGHTTP2_HTTP_FLAG_HOST = 2 ^ 4"
definition NGHTTP2_HTTP_FLAG__STATUS :: u32 where "NGHTTP2_HTTP_FLAG__STATUS = 2 ^ 5"
definition NGHTTP2_HTTP_FLAG_REQ_HEADERS :: u32 where
  "NGHTTP2_HTTP_FLAG_REQ_HEADERS = NGHTTP2_HTTP_FLAG__METHOD OR NGHTTP2_HTTP_FLAG__PATH OR NGHTTP2_HTTP_FLAG__SCHEME"
definition NGHTTP2_HTTP_FLAG_PSEUDO_HEADER_DISALLOWED :: u32 where "NGHTTP2_HTTP_FLAG_PSEUDO_HEADER_DISALLOWED = 2 ^ 6"
definition NGHTTP2_HTTP_FLAG_METH_CONNECT :: u32 where "NGHTTP2_HTTP_FLAG_METH_CONNECT = 2 ^ 7"
definition NGHTTP2_HTTP_FLAG_METH_HEAD :: u32 where "NGHTTP2_HTTP_FLAG_METH_HEAD = 2 ^ 8"
definition NGHTTP2_HTTP_FLAG_METH_OPTIONS :: u32 where "NGHTTP2_HTTP_FLAG_METH_OPTIONS = 2 ^ 9"
definition NGHTTP2_HTTP_FLAG_METH_UPGRADE_WORKAROUND :: u32 where "NGHTTP2_HTTP_FLAG_METH_UPGRADE_WORKAROUND = 2 ^ 10"
definition NGHTTP2_HTTP_FLAG_METH_ALL :: u32 where
  "NGHTTP2_HTTP_FLAG_METH_ALL = NGHTTP2_HTTP_FLAG_METH_CONNECT OR NGHTTP2_HTTP_FLAG_METH_HEAD OR
     NGHTTP2_HTTP_FLAG_METH_OPTIONS OR NGHTTP2_HTTP_FLAG_METH_UPGRADE_WORKAROUND"
definition NGHTTP2_HTTP_FLAG_PATH_REGULAR :: u32 where "NGHTTP2_HTTP_FLAG_PATH_REGULAR = 2 ^ 11"
definition NGHTTP2_HTTP_FLAG_PATH_ASTERISK :: u32 where "NGHTTP2_HTTP_FLAG_PATH_ASTERISK = 2 ^ 12"
definition NGHTTP2_HTTP_FLAG_SCHEME_HTTP :: u32 where "NGHTTP2_HTTP_FLAG_SCHEME_HTTP = 2 ^ 13"
definition NGHTTP2_HTTP_FLAG_EXPECT_FINAL_RESPONSE :: u32 where "NGHTTP2_HTTP_FLAG_EXPECT_FINAL_RESPONSE = 2 ^ 14"
definition NGHTTP2_HTTP_FLAG__PROTOCOL :: u32 where "NGHTTP2_HTTP_FLAG__PROTOCOL = 2 ^ 15"
definition NGHTTP2_HTTP_FLAG_PRIORITY :: u32 where "NGHTTP2_HTTP_FLAG_PRIORITY = 2 ^ 16"
definition NGHTTP2_HTTP_FLAG_BAD_PRIORITY :: u32 where "NGHTTP2_HTTP_FLAG_BAD_PRIORITY = 2 ^ 17"

definition NGHTTP2_STREAM_FLAG_NO_RFC9113_LEADING_AND_TRAILING_WS_VALIDATION :: u8 where
  "NGHTTP2_STREAM_FLAG_NO_RFC9113_LEADING_AND_TRAILING_WS_VALIDATION = 0x40"

definition NGHTTP2_FLAG_END_STREAM :: u8 where "NGHTTP2_FLAG_END_STREAM = 0x01"

definition NGHTTP2_EXTPRI_URGENCY_HIGH :: int where "NGHTTP2_EXTPRI_URGENCY_HIGH = 0"
definition NGHTTP2_EXTPRI_URGENCY_LOW :: int where "NGHTTP2_EXTPRI_URGENCY_LOW = 7"

text \<open>A test and an update of the flags.\<close>

definition has_flag :: "nghttp2_stream \<Rightarrow> u32 \<Rightarrow> bool" where
  "has_flag stream flag \<longleftrightarrow> http_flags stream AND flag \<noteq> 0"

definition set_flag :: "u32 \<Rightarrow> nghttp2_stream \<Rightarrow> nghttp2_stream" where
  "set_flag flag stream = stream\<lparr>http_flags := http_flags stream OR flag\<rparr>"

subsection \<open>Strings and numbers\<close>

definition downcase :: "u8 \<Rightarrow> u8" where
  "downcase c = (if 0x41 \<le> c \<and> c \<le> 0x5a then c - 0x41 + 0x61 else c)"

fun memieq :: "bytes \<Rightarrow> bytes \<Rightarrow> nat \<Rightarrow> bool" where
  "memieq a b 0 = True"
| "memieq a b (Suc n) = (if downcase (a ! 0) \<noteq> downcase (b ! 0) then False else memieq (tl a) (tl b) n)"

definition lstrieq :: "bytes \<Rightarrow> bytes \<Rightarrow> bool" where
  "lstrieq a b \<longleftrightarrow> length a = length b \<and> memieq a b (length b)"

definition lstreq :: "bytes \<Rightarrow> bytes \<Rightarrow> bool" where
  "lstreq a b \<longleftrightarrow> length a = length b \<and> take (length b) a = take (length b) b"

fun parse_uint_loop :: "bytes \<Rightarrow> int \<Rightarrow> int option" where
  "parse_uint_loop [] n = Some n"
| "parse_uint_loop (c # s) n =
     (if 0x30 \<le> c \<and> c \<le> 0x39 then
        if n > INT64_MAX div 10 then Some (-1)
        else
          do { n \<leftarrow> i64 (n * 10);
               let d = uint c - 0x30;
               if n > INT64_MAX - d then Some (-1)
               else do { n \<leftarrow> i64 (n + d); parse_uint_loop s n } }
      else Some (-1))"

definition parse_uint :: "bytes \<Rightarrow> int option" where
  "parse_uint s = (if s = [] then Some (-1) else parse_uint_loop s 0)"

definition byte0 :: "bytes \<Rightarrow> u8" where
  "byte0 s = (case s of [] \<Rightarrow> 0 | c # _ \<Rightarrow> c)"

text \<open>The conversion of an \<open>int64_t\<close> to \<open>int16_t\<close>.\<close>

definition i16 :: "int \<Rightarrow> int" where
  "i16 n = (n + 2 ^ 15) mod 2 ^ 16 - 2 ^ 15"

subsection \<open>The priority header field\<close>

definition priority_member :: "nghttp2_extpri \<Rightarrow> sf_vec \<Rightarrow> sf_value \<Rightarrow> nghttp2_extpri option" where
  "priority_member pri key val =
     (if length key \<noteq> 1 then Some pri
      else if key ! 0 = 0x69 then (case val of SF_TYPE_BOOLEAN b \<Rightarrow> Some (pri\<lparr>inc := (if b then 1 else 0)\<rparr>) | _ \<Rightarrow> None)
      else if key ! 0 = 0x75 then
        (case val of
           SF_TYPE_INTEGER n \<Rightarrow>
             if n < NGHTTP2_EXTPRI_URGENCY_HIGH \<or> NGHTTP2_EXTPRI_URGENCY_LOW < n then None else Some (pri\<lparr>urgency := of_int n\<rparr>)
         | _ \<Rightarrow> None)
      else Some pri)"

partial_function (option) parse_priority_loop :: "sf_parser \<Rightarrow> nghttp2_extpri \<Rightarrow> (rc \<times> nghttp2_extpri) option" where
  "parse_priority_loop sfp pri =
     (case sf_parser_dict sfp of
        None \<Rightarrow> None
      | Some (r, sfp) \<Rightarrow>
          (case r of
             Inl rv \<Rightarrow> if rv = SF_ERR_EOF then Some (0, pri) else Some (NGHTTP2_ERR_INVALID_ARGUMENT, pri)
           | Inr (key, val) \<Rightarrow>
               (case priority_member pri key val of
                  None \<Rightarrow> Some (NGHTTP2_ERR_INVALID_ARGUMENT, pri)
                | Some pri \<Rightarrow> parse_priority_loop sfp pri)))"

definition nghttp2_http_parse_priority :: "nghttp2_extpri \<Rightarrow> bytes \<Rightarrow> (rc \<times> nghttp2_extpri) option" where
  "nghttp2_http_parse_priority dest value =
     do { (rv, pri) \<leftarrow> parse_priority_loop (sf_parser_init value) dest;
          if rv \<noteq> 0 then Some (rv, dest) else Some (0, pri) }"

subsection \<open>Header fields\<close>

definition check_pseudo_header :: "nghttp2_stream \<Rightarrow> nghttp2_hd_nv \<Rightarrow> u32 \<Rightarrow> bool \<times> nghttp2_stream" where
  "check_pseudo_header stream nv flag =
     (if has_flag stream flag \<or> length (hd_value nv) = 0 then (False, stream) else (True, set_flag flag stream))"

definition expect_response_body :: "nghttp2_stream \<Rightarrow> bool" where
  "expect_response_body stream \<longleftrightarrow>
     \<not> has_flag stream NGHTTP2_HTTP_FLAG_METH_HEAD \<and> status_code stream sdiv 100 \<noteq> 1 \<and>
     status_code stream \<noteq> 304 \<and> status_code stream \<noteq> 204"

definition check_path :: "nghttp2_stream \<Rightarrow> bool" where
  "check_path stream \<longleftrightarrow>
     \<not> has_flag stream NGHTTP2_HTTP_FLAG_SCHEME_HTTP \<or>
     (has_flag stream NGHTTP2_HTTP_FLAG_PATH_REGULAR \<or>
      has_flag stream NGHTTP2_HTTP_FLAG_METH_OPTIONS \<and> has_flag stream NGHTTP2_HTTP_FLAG_PATH_ASTERISK)"

text \<open>The cases of the switch; a result 0 falls out of it.\<close>

definition request_method :: "nghttp2_stream \<Rightarrow> bytes \<Rightarrow> rc \<times> nghttp2_stream" where
  "request_method stream value =
     (if length value = 4 then
        (0, if lstreq (ascii ''HEAD'') value then set_flag NGHTTP2_HTTP_FLAG_METH_HEAD stream else stream)
      else if length value = 7 then
        (if value ! 6 = 0x54 then
           (if lstreq (ascii ''CONNECT'') value then
              (if stream_id stream smod 2 = 0 then (NGHTTP2_ERR_HTTP_HEADER, stream)
               else (0, set_flag NGHTTP2_HTTP_FLAG_METH_CONNECT stream))
            else (0, stream))
         else if value ! 6 = 0x53 then
           (0, if lstreq (ascii ''OPTIONS'') value then set_flag NGHTTP2_HTTP_FLAG_METH_OPTIONS stream else stream)
         else (0, stream))
      else (0, stream))"

definition request_path :: "nghttp2_stream \<Rightarrow> bytes \<Rightarrow> nghttp2_stream" where
  "request_path stream value =
     (if byte0 value = 0x2f then set_flag NGHTTP2_HTTP_FLAG_PATH_REGULAR stream
      else if length value = 1 \<and> byte0 value = 0x2a then set_flag NGHTTP2_HTTP_FLAG_PATH_ASTERISK stream
      else stream)"

definition request_scheme :: "nghttp2_stream \<Rightarrow> bytes \<Rightarrow> nghttp2_stream" where
  "request_scheme stream value =
     (if length value = 4 \<and> memieq (ascii ''http'') value 4 \<or> length value = 5 \<and> memieq (ascii ''https'') value 5
      then set_flag NGHTTP2_HTTP_FLAG_SCHEME_HTTP stream else stream)"

definition request_priority :: "nghttp2_stream \<Rightarrow> bytes \<Rightarrow> bool \<Rightarrow> nghttp2_stream option" where
  "request_priority stream value trailer =
     (if \<not> trailer \<and> odd (stream_id stream) \<and> flags stream AND NGHTTP2_STREAM_FLAG_NO_RFC7540_PRIORITIES \<noteq> 0 \<and>
         \<not> has_flag stream NGHTTP2_HTTP_FLAG_BAD_PRIORITY then
        do { (rv, e) \<leftarrow> nghttp2_http_parse_priority (nghttp2_extpri_from_uint8 (http_extpri stream)) value;
             if rv = 0 then Some (set_flag NGHTTP2_HTTP_FLAG_PRIORITY (stream\<lparr>http_extpri := nghttp2_extpri_to_uint8 e\<rparr>))
             else Some (set_flag NGHTTP2_HTTP_FLAG_BAD_PRIORITY
                          (stream\<lparr>http_flags := http_flags stream AND NOT NGHTTP2_HTTP_FLAG_PRIORITY\<rparr>)) }
      else Some stream)"

definition on_content_length :: "nghttp2_stream \<Rightarrow> bytes \<Rightarrow> (rc \<times> nghttp2_stream) option" where
  "on_content_length stream value =
     (if content_length stream \<noteq> -1 then Some (NGHTTP2_ERR_HTTP_HEADER, stream)
      else
        do { n \<leftarrow> parse_uint value;
             let stream = stream\<lparr>content_length := n\<rparr>;
             if n = -1 then Some (NGHTTP2_ERR_HTTP_HEADER, stream) else Some (0, stream) })"

definition prohibited :: "int \<Rightarrow> bool" where
  "prohibited token \<longleftrightarrow>
     token = NGHTTP2_TOKEN_CONNECTION \<or> token = NGHTTP2_TOKEN_KEEP_ALIVE \<or> token = NGHTTP2_TOKEN_PROXY_CONNECTION \<or>
     token = NGHTTP2_TOKEN_TRANSFER_ENCODING \<or> token = NGHTTP2_TOKEN_UPGRADE"

definition on_te :: "nghttp2_stream \<Rightarrow> bytes \<Rightarrow> rc \<times> nghttp2_stream" where
  "on_te stream value = (if \<not> lstrieq (ascii ''trailers'') value then (NGHTTP2_ERR_HTTP_HEADER, stream) else (0, stream))"

definition request_switch :: "nghttp2_stream \<Rightarrow> nghttp2_hd_nv \<Rightarrow> bool \<Rightarrow> bool \<Rightarrow> (rc \<times> nghttp2_stream) option" where
  "request_switch stream nv trailer connect_protocol =
     (let token = hd_token nv; value = hd_value nv;
          once = (\<lambda>flag f. let (ok, stream) = check_pseudo_header stream nv flag
                           in Some (if \<not> ok then (NGHTTP2_ERR_HTTP_HEADER, stream) else f stream))
      in if token = NGHTTP2_TOKEN__AUTHORITY then once NGHTTP2_HTTP_FLAG__AUTHORITY (Pair 0)
         else if token = NGHTTP2_TOKEN__METHOD then once NGHTTP2_HTTP_FLAG__METHOD (\<lambda>stream. request_method stream value)
         else if token = NGHTTP2_TOKEN__PATH then once NGHTTP2_HTTP_FLAG__PATH (\<lambda>stream. (0, request_path stream value))
         else if token = NGHTTP2_TOKEN__SCHEME then once NGHTTP2_HTTP_FLAG__SCHEME (\<lambda>stream. (0, request_scheme stream value))
         else if token = NGHTTP2_TOKEN__PROTOCOL then
           (if \<not> connect_protocol then Some (NGHTTP2_ERR_HTTP_HEADER, stream) else once NGHTTP2_HTTP_FLAG__PROTOCOL (Pair 0))
         else if token = NGHTTP2_TOKEN_HOST then once NGHTTP2_HTTP_FLAG_HOST (Pair 0)
         else if token = NGHTTP2_TOKEN_CONTENT_LENGTH then on_content_length stream value
         else if prohibited token then Some (NGHTTP2_ERR_HTTP_HEADER, stream)
         else if token = NGHTTP2_TOKEN_TE then Some (on_te stream value)
         else if token = NGHTTP2_TOKEN_PRIORITY then do { stream \<leftarrow> request_priority stream value trailer; Some (0, stream) }
         else if byte0 (hd_name nv) = 0x3a then Some (NGHTTP2_ERR_HTTP_HEADER, stream)
         else Some (0, stream))"

text \<open>What surrounds the switch for requests and for responses.\<close>

definition around_switch ::
  "(nghttp2_stream \<Rightarrow> (rc \<times> nghttp2_stream) option) \<Rightarrow> nghttp2_stream \<Rightarrow> nghttp2_hd_nv \<Rightarrow> bool \<Rightarrow> (rc \<times> nghttp2_stream) option" where
  "around_switch switch stream nv trailer =
     (if byte0 (hd_name nv) = 0x3a \<and> (trailer \<or> has_flag stream NGHTTP2_HTTP_FLAG_PSEUDO_HEADER_DISALLOWED)
      then Some (NGHTTP2_ERR_HTTP_HEADER, stream)
      else
        do { (rv, stream) \<leftarrow> switch stream;
             if rv \<noteq> 0 then Some (rv, stream)
             else Some (0, if byte0 (hd_name nv) \<noteq> 0x3a then set_flag NGHTTP2_HTTP_FLAG_PSEUDO_HEADER_DISALLOWED stream else stream) })"

definition http_request_on_header :: "nghttp2_stream \<Rightarrow> nghttp2_hd_nv \<Rightarrow> bool \<Rightarrow> bool \<Rightarrow> (rc \<times> nghttp2_stream) option" where
  "http_request_on_header stream nv trailer connect_protocol =
     around_switch (\<lambda>stream. request_switch stream nv trailer connect_protocol) stream nv trailer"

definition response_status :: "nghttp2_stream \<Rightarrow> nghttp2_hd_nv \<Rightarrow> (rc \<times> nghttp2_stream) option" where
  "response_status stream nv =
     (let (ok, stream) = check_pseudo_header stream nv NGHTTP2_HTTP_FLAG__STATUS
      in if \<not> ok then Some (NGHTTP2_ERR_HTTP_HEADER, stream)
         else if length (hd_value nv) \<noteq> 3 then Some (NGHTTP2_ERR_HTTP_HEADER, stream)
         else
           do { n \<leftarrow> parse_uint (hd_value nv);
                let stream = stream\<lparr>status_code := i16 n\<rparr>;
                if status_code stream = -1 \<or> status_code stream = 101 then Some (NGHTTP2_ERR_HTTP_HEADER, stream) else Some (0, stream) })"

definition response_content_length :: "nghttp2_stream \<Rightarrow> bytes \<Rightarrow> (rc \<times> nghttp2_stream) option" where
  "response_content_length stream value =
     (if status_code stream = 204 then
        (if content_length stream \<noteq> -1 then Some (NGHTTP2_ERR_HTTP_HEADER, stream)
         else if \<not> lstrieq (ascii ''0'') value then Some (NGHTTP2_ERR_HTTP_HEADER, stream)
         else Some (NGHTTP2_ERR_REMOVE_HTTP_HEADER, stream\<lparr>content_length := 0\<rparr>))
      else if status_code stream sdiv 100 = 1 then Some (NGHTTP2_ERR_HTTP_HEADER, stream)
      else if status_code stream sdiv 100 = 2 \<and> has_flag stream NGHTTP2_HTTP_FLAG_METH_CONNECT then
        Some (NGHTTP2_ERR_REMOVE_HTTP_HEADER, stream)
      else on_content_length stream value)"

definition response_switch :: "nghttp2_stream \<Rightarrow> nghttp2_hd_nv \<Rightarrow> (rc \<times> nghttp2_stream) option" where
  "response_switch stream nv =
     (let token = hd_token nv; value = hd_value nv
      in if token = NGHTTP2_TOKEN__STATUS then response_status stream nv
         else if token = NGHTTP2_TOKEN_CONTENT_LENGTH then response_content_length stream value
         else if prohibited token then Some (NGHTTP2_ERR_HTTP_HEADER, stream)
         else if token = NGHTTP2_TOKEN_TE then Some (on_te stream value)
         else if byte0 (hd_name nv) = 0x3a then Some (NGHTTP2_ERR_HTTP_HEADER, stream)
         else Some (0, stream))"

definition http_response_on_header :: "nghttp2_stream \<Rightarrow> nghttp2_hd_nv \<Rightarrow> bool \<Rightarrow> (rc \<times> nghttp2_stream) option" where
  "http_response_on_header stream nv trailer = around_switch (\<lambda>stream. response_switch stream nv) stream nv trailer"

definition check_scheme :: "bytes \<Rightarrow> bool" where
  "check_scheme value =
     (case value of
        [] \<Rightarrow> False
      | c # rest \<Rightarrow>
          (is_upper c \<or> is_lower c) \<and> list_all (\<lambda>c. is_upper c \<or> is_lower c \<or> is_digit c \<or> c = 0x2b \<or> c = 0x2d \<or> c = 0x2e) rest)"

definition lws :: "bytes \<Rightarrow> bool" where
  "lws s = list_all (\<lambda>c. c = 0x20 \<or> c = 0x09) s"

text \<open>The session members that are read, and the check of a value by its token.\<close>

record http_session =
  hs_server :: bool
  hs_pending_enable_connect_protocol :: bool

definition check_value_by_flags :: "nghttp2_stream \<Rightarrow> bytes \<Rightarrow> bool" where
  "check_value_by_flags stream value =
     (if flags stream AND NGHTTP2_STREAM_FLAG_NO_RFC9113_LEADING_AND_TRAILING_WS_VALIDATION \<noteq> 0
      then nghttp2_check_header_value value else nghttp2_check_header_value_rfc9113 value)"

definition check_value_by_token :: "http_session \<Rightarrow> nghttp2_stream \<Rightarrow> nghttp2_frame_hd \<Rightarrow> nghttp2_hd_nv \<Rightarrow> bool" where
  "check_value_by_token session stream fhd nv =
     (let token = hd_token nv; value = hd_value nv
      in if token = NGHTTP2_TOKEN__METHOD then nghttp2_check_method value
         else if token = NGHTTP2_TOKEN__PATH then nghttp2_check_path value
         else if token = NGHTTP2_TOKEN__AUTHORITY \<or> token = NGHTTP2_TOKEN_HOST then
           (if hs_server session \<or> fh_type fhd = NGHTTP2_PUSH_PROMISE then nghttp2_check_authority value
            else check_value_by_flags stream value)
         else if token = NGHTTP2_TOKEN__SCHEME then check_scheme value
         else if token = NGHTTP2_TOKEN__PROTOCOL \<and>
                 flags stream AND NGHTTP2_STREAM_FLAG_NO_RFC9113_LEADING_AND_TRAILING_WS_VALIDATION \<noteq> 0 \<and> lws value then False
         else check_value_by_flags stream value)"

definition nghttp2_http_on_header ::
  "http_session \<Rightarrow> nghttp2_stream \<Rightarrow> nghttp2_frame_hd \<Rightarrow> nghttp2_hd_nv \<Rightarrow> bool \<Rightarrow> (rc \<times> nghttp2_stream) option" where
  "nghttp2_http_on_header session stream fhd nv trailer =
     (if \<not> nghttp2_check_header_name (hd_name nv) then
        if length (hd_name nv) > 0 \<and> byte0 (hd_name nv) = 0x3a then Some (NGHTTP2_ERR_HTTP_HEADER, stream)
        else if list_ex (\<lambda>c. 0x41 \<le> c \<and> c \<le> 0x5a) (hd_name nv) then Some (NGHTTP2_ERR_HTTP_HEADER, stream)
        else Some (NGHTTP2_ERR_IGN_HTTP_HEADER, set_flag NGHTTP2_HTTP_FLAG_PSEUDO_HEADER_DISALLOWED stream)
      else if \<not> check_value_by_token session stream fhd nv then
        if length (hd_name nv) = 0 then None
        else if byte0 (hd_name nv) = 0x3a then Some (NGHTTP2_ERR_HTTP_HEADER, stream)
        else Some (NGHTTP2_ERR_IGN_HTTP_HEADER, set_flag NGHTTP2_HTTP_FLAG_PSEUDO_HEADER_DISALLOWED stream)
      else if hs_server session \<or> fh_type fhd = NGHTTP2_PUSH_PROMISE then
        http_request_on_header stream nv trailer (hs_server session \<and> hs_pending_enable_connect_protocol session)
      else http_response_on_header stream nv trailer)"

subsection \<open>The end of a field section, body data and the end of the stream\<close>

definition nghttp2_http_on_request_headers :: "nghttp2_stream \<Rightarrow> nghttp2_frame_hd \<Rightarrow> rc \<times> nghttp2_stream" where
  "nghttp2_http_on_request_headers stream fhd =
     (let fin = (\<lambda>stream. (0, if fh_type fhd = NGHTTP2_PUSH_PROMISE
                              then stream\<lparr>http_flags := http_flags stream AND NGHTTP2_HTTP_FLAG_METH_ALL, content_length := -1\<rparr>
                              else stream))
      in if \<not> has_flag stream NGHTTP2_HTTP_FLAG__PROTOCOL \<and> has_flag stream NGHTTP2_HTTP_FLAG_METH_CONNECT then
           if has_flag stream (NGHTTP2_HTTP_FLAG__SCHEME OR NGHTTP2_HTTP_FLAG__PATH) \<or> \<not> has_flag stream NGHTTP2_HTTP_FLAG__AUTHORITY
           then (-1, stream)
           else fin (stream\<lparr>content_length := -1\<rparr>)
         else if http_flags stream AND NGHTTP2_HTTP_FLAG_REQ_HEADERS \<noteq> NGHTTP2_HTTP_FLAG_REQ_HEADERS \<or>
                 \<not> has_flag stream (NGHTTP2_HTTP_FLAG__AUTHORITY OR NGHTTP2_HTTP_FLAG_HOST) then (-1, stream)
         else if has_flag stream NGHTTP2_HTTP_FLAG__PROTOCOL \<and>
                 (\<not> has_flag stream NGHTTP2_HTTP_FLAG_METH_CONNECT \<or> \<not> has_flag stream NGHTTP2_HTTP_FLAG__AUTHORITY) then (-1, stream)
         else if \<not> check_path stream then (-1, stream)
         else fin stream)"

definition nghttp2_http_on_response_headers :: "nghttp2_stream \<Rightarrow> rc \<times> nghttp2_stream" where
  "nghttp2_http_on_response_headers stream =
     (if \<not> has_flag stream NGHTTP2_HTTP_FLAG__STATUS then (-1, stream)
      else if status_code stream sdiv 100 = 1 then
        (0, stream\<lparr>http_flags := (http_flags stream AND NGHTTP2_HTTP_FLAG_METH_ALL) OR NGHTTP2_HTTP_FLAG_EXPECT_FINAL_RESPONSE,
                   content_length := -1, status_code := -1\<rparr>)
      else
        let stream = stream\<lparr>http_flags := http_flags stream AND NOT NGHTTP2_HTTP_FLAG_EXPECT_FINAL_RESPONSE\<rparr>
        in (0, if \<not> expect_response_body stream then stream\<lparr>content_length := 0\<rparr>
               else if has_flag stream (NGHTTP2_HTTP_FLAG_METH_CONNECT OR NGHTTP2_HTTP_FLAG_METH_UPGRADE_WORKAROUND)
               then stream\<lparr>content_length := -1\<rparr>
               else stream))"

definition nghttp2_http_on_trailer_headers :: "nghttp2_stream \<Rightarrow> nghttp2_frame_hd \<Rightarrow> rc" where
  "nghttp2_http_on_trailer_headers stream fhd = (if fh_flags fhd AND NGHTTP2_FLAG_END_STREAM = 0 then -1 else 0)"

definition nghttp2_http_on_remote_end_stream :: "nghttp2_stream \<Rightarrow> rc" where
  "nghttp2_http_on_remote_end_stream stream =
     (if has_flag stream NGHTTP2_HTTP_FLAG_EXPECT_FINAL_RESPONSE then -1
      else if content_length stream \<noteq> -1 \<and> content_length stream \<noteq> recv_content_length stream then -1
      else 0)"

definition nghttp2_http_on_data_chunk :: "nghttp2_stream \<Rightarrow> nat \<Rightarrow> (rc \<times> nghttp2_stream) option" where
  "nghttp2_http_on_data_chunk stream n =
     do { m \<leftarrow> i64 (int n);
          r \<leftarrow> i64 (recv_content_length stream + m);
          let stream = stream\<lparr>recv_content_length := r\<rparr>;
          Some (if has_flag stream NGHTTP2_HTTP_FLAG_EXPECT_FINAL_RESPONSE \<or>
                   content_length stream \<noteq> -1 \<and> recv_content_length stream > content_length stream
                then (-1, stream) else (0, stream)) }"

text \<open>\<open>nva\<close> is the field list of the HEADERS or PUSH_PROMISE frame with the header \<open>fhd\<close>.\<close>

fun record_method_loop :: "nghttp2_stream \<Rightarrow> nghttp2_nv list \<Rightarrow> nghttp2_stream" where
  "record_method_loop stream [] = stream"
| "record_method_loop stream (nv # nva) =
     (if \<not> (length (nv_name nv) = 7 \<and> nv_name nv ! 6 = 0x64 \<and> take 6 (nv_name nv) = ascii '':metho'') then record_method_loop stream nva
      else if lstreq (ascii ''CONNECT'') (nv_value nv) then set_flag NGHTTP2_HTTP_FLAG_METH_CONNECT stream
      else if lstreq (ascii ''HEAD'') (nv_value nv) then set_flag NGHTTP2_HTTP_FLAG_METH_HEAD stream
      else stream)"

definition nghttp2_http_record_request_method :: "nghttp2_stream \<Rightarrow> nghttp2_frame_hd \<Rightarrow> nghttp2_nv list \<Rightarrow> nghttp2_stream" where
  "nghttp2_http_record_request_method stream fhd nva =
     (if fh_type fhd = NGHTTP2_HEADERS \<or> fh_type fhd = NGHTTP2_PUSH_PROMISE then record_method_loop stream nva else stream)"


subsection \<open>Strings, numbers and flags\<close>

lemmas http_flag_defs [ng_defs] =
  NGHTTP2_HTTP_FLAG__AUTHORITY_def NGHTTP2_HTTP_FLAG__PATH_def NGHTTP2_HTTP_FLAG__METHOD_def NGHTTP2_HTTP_FLAG__SCHEME_def
  NGHTTP2_HTTP_FLAG_HOST_def NGHTTP2_HTTP_FLAG__STATUS_def NGHTTP2_HTTP_FLAG_PSEUDO_HEADER_DISALLOWED_def
  NGHTTP2_HTTP_FLAG_METH_CONNECT_def NGHTTP2_HTTP_FLAG_METH_HEAD_def NGHTTP2_HTTP_FLAG_METH_OPTIONS_def
  NGHTTP2_HTTP_FLAG_METH_UPGRADE_WORKAROUND_def NGHTTP2_HTTP_FLAG_PATH_REGULAR_def NGHTTP2_HTTP_FLAG_PATH_ASTERISK_def
  NGHTTP2_HTTP_FLAG_SCHEME_HTTP_def NGHTTP2_HTTP_FLAG_EXPECT_FINAL_RESPONSE_def NGHTTP2_HTTP_FLAG__PROTOCOL_def
  NGHTTP2_HTTP_FLAG_PRIORITY_def NGHTTP2_HTTP_FLAG_BAD_PRIORITY_def

definition dec_value :: "int \<Rightarrow> bytes \<Rightarrow> int" where
  "dec_value n s = foldl (\<lambda>n c. n * 10 + (uint c - 0x30)) n s"

lemma dec_value_Cons: "dec_value n (c # s) = dec_value (n * 10 + (uint c - 0x30)) s"
  by (simp add: dec_value_def)

lemma dec_value_mono: "0 \<le> n \<Longrightarrow> list_all DIGIT_CASES s \<Longrightarrow> n \<le> dec_value n s"
proof (induction s arbitrary: n)
  case (Cons c s)
  have d: "0 \<le> uint c - 0x30" using Cons.prems(2) digit_value [of c] by simp
  then have "n * 10 + (uint c - 0x30) \<le> dec_value (n * 10 + (uint c - 0x30)) s" using Cons.prems by (intro Cons.IH) auto
  then show ?case using d Cons.prems(1) by (simp add: dec_value_Cons)
qed (simp add: dec_value_def)

lemma parse_uint_loop_eq:
  "0 \<le> n \<Longrightarrow> n \<le> INT64_MAX \<Longrightarrow>
   parse_uint_loop s n = Some (if list_all DIGIT_CASES s \<and> dec_value n s \<le> INT64_MAX then dec_value n s else -1)"
proof (induction s arbitrary: n)
  case Nil
  then show ?case by (simp add: dec_value_def)
next
  case (Cons c s)
  let ?n = "n * 10 + (uint c - 0x30)"
  show ?case
  proof (cases "DIGIT_CASES c")
    case True
    note d = digit_value [OF True]
    have big: "dec_value n (c # s) > INT64_MAX" if "?n > INT64_MAX" "list_all DIGIT_CASES s"
      using dec_value_mono [of ?n s] that d Cons.prems(1) by (simp add: dec_value_Cons)
    show ?thesis
    proof (cases "?n \<le> INT64_MAX")
      case False
      then have "parse_uint_loop (c # s) n = Some (-1)"
        using True d Cons.prems by (auto simp: DIGIT_CASES_def i64_def INT64_MAX_def)
      then show ?thesis using False big by force
    next
      case le: True
      then have "parse_uint_loop (c # s) n = parse_uint_loop s ?n"
        using True d Cons.prems(1) by (auto simp: DIGIT_CASES_def i64_def INT64_MAX_def)
      then show ?thesis using Cons.IH [of ?n] True le d Cons.prems(1) by (simp add: dec_value_Cons)
    qed
  next
    case False
    then have "parse_uint_loop (c # s) n = Some (-1)" unfolding DIGIT_CASES_def by auto
    then show ?thesis using False by simp
  qed
qed

lemma parse_uint_eq:
  "parse_uint s = Some (if s \<noteq> [] \<and> list_all DIGIT_CASES s \<and> dec_value 0 s \<le> INT64_MAX then dec_value 0 s else -1)"
  using parse_uint_loop_eq [of 0 s] by (simp add: parse_uint_def INT64_MAX_def)

lemma memieq_map: "length a = n \<Longrightarrow> length b = n \<Longrightarrow> memieq a b n \<longleftrightarrow> map downcase a = map downcase b"
proof (induction n arbitrary: a b)
  case (Suc n)
  then show ?case by (cases a; cases b) auto
qed simp

lemma lstrieq_map: "lstrieq a b \<longleftrightarrow> map downcase a = map downcase b"
  using memieq_map [of a "length b" b] by (auto simp: lstrieq_def dest: map_eq_imp_length_eq)

lemma lstreq_eq [simp]: "lstreq a b \<longleftrightarrow> a = b"
  by (auto simp: lstreq_def)

lemma has_set_flag [simp]: "has_flag (set_flag F s) G \<longleftrightarrow> has_flag s G \<or> F AND G \<noteq> 0"
  by (simp add: has_flag_def set_flag_def bit.conj_disj_distrib2 or_eq_0_iff)

lemma set_flag_simps [simp]:
  "content_length (set_flag F s) = content_length s" "stream_id (set_flag F s) = stream_id s" "flags (set_flag F s) = flags s"
  "status_code (set_flag F s) = status_code s" "recv_content_length (set_flag F s) = recv_content_length s"
  by (simp_all add: set_flag_def)

subsection \<open>Tokens and names\<close>

definition token_ok :: "nghttp2_hd_nv \<Rightarrow> bool" where
  "token_ok f \<longleftrightarrow> hd_token f = lookup_token (hd_name f)"

definition named :: "nghttp2_hd_nv \<Rightarrow> string \<Rightarrow> bool" where
  "named f n \<longleftrightarrow> hd_name f = ascii n"

lemma token_is:
  assumes "lookup_token (ascii n) = t" "t \<noteq> -1" "token_ok f"
  shows "hd_token f = t \<longleftrightarrow> named f n"
  using assms lookup_token_inj [of "hd_name f" "ascii n"] by (auto simp: token_ok_def named_def)

lemma name_tokens:
  "lookup_token (ascii '':authority'') = NGHTTP2_TOKEN__AUTHORITY" "lookup_token (ascii '':method'') = NGHTTP2_TOKEN__METHOD"
  "lookup_token (ascii '':path'') = NGHTTP2_TOKEN__PATH" "lookup_token (ascii '':scheme'') = NGHTTP2_TOKEN__SCHEME"
  "lookup_token (ascii '':protocol'') = NGHTTP2_TOKEN__PROTOCOL" "lookup_token (ascii '':status'') = NGHTTP2_TOKEN__STATUS"
  "lookup_token (ascii ''host'') = NGHTTP2_TOKEN_HOST" "lookup_token (ascii ''content-length'') = NGHTTP2_TOKEN_CONTENT_LENGTH"
  "lookup_token (ascii ''connection'') = NGHTTP2_TOKEN_CONNECTION" "lookup_token (ascii ''keep-alive'') = NGHTTP2_TOKEN_KEEP_ALIVE"
  "lookup_token (ascii ''proxy-connection'') = NGHTTP2_TOKEN_PROXY_CONNECTION"
  "lookup_token (ascii ''transfer-encoding'') = NGHTTP2_TOKEN_TRANSFER_ENCODING" "lookup_token (ascii ''upgrade'') = NGHTTP2_TOKEN_UPGRADE"
  "lookup_token (ascii ''te'') = NGHTTP2_TOKEN_TE" "lookup_token (ascii ''priority'') = NGHTTP2_TOKEN_PRIORITY"
  by code_simp+

lemma tokens_valid:
  "NGHTTP2_TOKEN__AUTHORITY \<noteq> -1" "NGHTTP2_TOKEN__METHOD \<noteq> -1" "NGHTTP2_TOKEN__PATH \<noteq> -1" "NGHTTP2_TOKEN__SCHEME \<noteq> -1"
  "NGHTTP2_TOKEN__PROTOCOL \<noteq> -1" "NGHTTP2_TOKEN__STATUS \<noteq> -1" "NGHTTP2_TOKEN_HOST \<noteq> -1" "NGHTTP2_TOKEN_CONTENT_LENGTH \<noteq> -1"
  "NGHTTP2_TOKEN_CONNECTION \<noteq> -1" "NGHTTP2_TOKEN_KEEP_ALIVE \<noteq> -1" "NGHTTP2_TOKEN_PROXY_CONNECTION \<noteq> -1"
  "NGHTTP2_TOKEN_TRANSFER_ENCODING \<noteq> -1" "NGHTTP2_TOKEN_UPGRADE \<noteq> -1" "NGHTTP2_TOKEN_TE \<noteq> -1" "NGHTTP2_TOKEN_PRIORITY \<noteq> -1"
  by code_simp+

lemmas tokens_named = token_is [OF name_tokens(1) tokens_valid(1)] token_is [OF name_tokens(2) tokens_valid(2)]
  token_is [OF name_tokens(3) tokens_valid(3)] token_is [OF name_tokens(4) tokens_valid(4)]
  token_is [OF name_tokens(5) tokens_valid(5)] token_is [OF name_tokens(6) tokens_valid(6)]
  token_is [OF name_tokens(7) tokens_valid(7)] token_is [OF name_tokens(8) tokens_valid(8)]
  token_is [OF name_tokens(9) tokens_valid(9)] token_is [OF name_tokens(10) tokens_valid(10)]
  token_is [OF name_tokens(11) tokens_valid(11)] token_is [OF name_tokens(12) tokens_valid(12)]
  token_is [OF name_tokens(13) tokens_valid(13)] token_is [OF name_tokens(14) tokens_valid(14)]
  token_is [OF name_tokens(15) tokens_valid(15)]

lemma named_neq: "named f n \<Longrightarrow> named f m \<longleftrightarrow> ascii n = ascii m"
  by (simp add: named_def)

subsection \<open>The priority header field\<close>

text \<open>The members in their order, the later of two with the same key prevailing; a member that is not allowed fails.\<close>

fun priority_of :: "nghttp2_extpri \<Rightarrow> (sf_vec \<times> sf_value) list \<Rightarrow> nghttp2_extpri option" where
  "priority_of pri [] = Some pri"
| "priority_of pri ((k, v) # kvs) =
     (if k = ascii ''i'' then (case v of SF_TYPE_BOOLEAN b \<Rightarrow> priority_of (pri\<lparr>inc := (if b then 1 else 0)\<rparr>) kvs | _ \<Rightarrow> None)
      else if k = ascii ''u'' then
        (case v of SF_TYPE_INTEGER n \<Rightarrow> (if 0 \<le> n \<and> n \<le> 7 then priority_of (pri\<lparr>urgency := of_int n\<rparr>) kvs else None) | _ \<Rightarrow> None)
      else priority_of pri kvs)"

lemma length_1_key: "length k \<noteq> 1 \<Longrightarrow> k \<noteq> ascii ''i'' \<and> k \<noteq> ascii ''u''" "length k = 1 \<Longrightarrow> k ! 0 = c \<longleftrightarrow> k = [c]"
  by (auto simp: length_Suc_conv)

lemma priority_of_member:
  "priority_of pri ((k, v) # kvs) = (case priority_member pri k v of None \<Rightarrow> None | Some pri \<Rightarrow> priority_of pri kvs)"
proof (cases "length k = 1")
  case False
  then show ?thesis using length_1_key(1) [of k] by (simp add: priority_member_def del: ascii_simps)
next
  case True
  then show ?thesis using length_1_key(2) [of k]
    by (auto simp: priority_member_def NGHTTP2_EXTPRI_URGENCY_HIGH_def NGHTTP2_EXTPRI_URGENCY_LOW_def split: sf_value.splits)
qed

lemma invalid_arg [simp]: "NGHTTP2_ERR_INVALID_ARGUMENT \<noteq> 0"
  by (simp add: rc_defs)

lemma priority_loop_yields:
  "yields sf_parser_dict sfp kvs e \<Longrightarrow>
   \<exists>rv pri'. parse_priority_loop sfp pri = Some (rv, pri') \<and>
     (case priority_of pri kvs of
        Some p \<Rightarrow> if e = SF_ERR_EOF then rv = 0 \<and> pri' = p else rv = NGHTTP2_ERR_INVALID_ARGUMENT
      | None \<Rightarrow> rv = NGHTTP2_ERR_INVALID_ARGUMENT)"
proof (induction arbitrary: pri rule: yields.induct)
  case (yields_end sfp e s)
  then show ?case by (subst parse_priority_loop.simps) auto
next
  case (yields_member sfp v s kvs e)
  obtain k x where v: "v = (k, x)" by (cases v)
  show ?case
  proof (cases "priority_member pri k x")
    case None
    then show ?thesis using yields_member(1) v priority_of_member [of pri k x kvs] by (subst parse_priority_loop.simps) simp
  next
    case (Some p)
    then show ?thesis using yields_member v priority_of_member [of pri k x kvs] by (subst parse_priority_loop.simps) simp
  qed
qed

lemma parse_priority_yields:
  assumes "yields sf_parser_dict (sf_parser_init value) kvs e"
  shows "nghttp2_http_parse_priority dest value =
    Some (case priority_of dest kvs of
            Some p \<Rightarrow> if e = SF_ERR_EOF then (0, p) else (NGHTTP2_ERR_INVALID_ARGUMENT, dest)
          | None \<Rightarrow> (NGHTTP2_ERR_INVALID_ARGUMENT, dest))"
proof -
  obtain rv p where "parse_priority_loop (sf_parser_init value) dest = Some (rv, p)"
    "case priority_of dest kvs of
        Some q \<Rightarrow> if e = SF_ERR_EOF then rv = 0 \<and> p = q else rv = NGHTTP2_ERR_INVALID_ARGUMENT
      | None \<Rightarrow> rv = NGHTTP2_ERR_INVALID_ARGUMENT"
    using priority_loop_yields [OF assms, of dest] by blast
  then show ?thesis by (auto simp: nghttp2_http_parse_priority_def split: option.splits if_splits)
qed

lemma priority_returns: "\<exists>rv e. nghttp2_http_parse_priority dest v = Some (rv, e)"
  using sfd.init_iteration_ends [of v] parse_priority_yields [of v] by (metis surj_pair)

lemma priority_of_range:
  "priority_of pri kvs = Some p \<Longrightarrow> urgency pri \<le> 7 \<Longrightarrow> inc pri \<in> {0, 1} \<Longrightarrow> urgency p \<le> 7 \<and> inc p \<in> {0, 1}"
proof (induction pri kvs rule: priority_of.induct)
  case (2 pri k v kvs)
  have u: "(of_int n :: u32) \<le> 7" if "0 \<le> n" "n \<le> 7" for n using that by (simp add: word_le_def uint_word_of_int take_bit_int_eq_self_iff)
  show ?case using 2 u by (auto split: if_splits sf_value.splits)
qed simp

subsection \<open>Requests, field by field\<close>

definition pseudo :: "nghttp2_hd_nv \<Rightarrow> bool" where
  "pseudo f \<longleftrightarrow> byte0 (hd_name f) = 0x3a"

text \<open>
  The rule for one field: \<open>vok\<close> says whether its value is well formed, \<open>cp\<close> whether the extended
  CONNECT protocol is enabled.
\<close>

definition once_names :: "string list" where
  "once_names = ['':authority'', '':method'', '':path'', '':scheme'', '':protocol'', ''host'']"

definition field_rule :: "bool \<Rightarrow> nghttp2_hd_nv \<Rightarrow> bool" where
  "field_rule cp f \<longleftrightarrow>
     (pseudo f \<longrightarrow> list_ex (named f) ([ '':authority'', '':method'', '':path'', '':scheme''] @ (if cp then ['':protocol''] else []))) \<and>
     \<not> list_ex (named f) [''connection'', ''keep-alive'', ''proxy-connection'', ''transfer-encoding'', ''upgrade''] \<and>
     (named f ''te'' \<longrightarrow> map downcase (hd_value f) = ascii ''trailers'') \<and>
     (named f ''content-length'' \<longrightarrow>
        hd_value f \<noteq> [] \<and> list_all DIGIT_CASES (hd_value f) \<and> dec_value 0 (hd_value f) \<le> INT64_MAX) \<and>
     (list_ex (named f) once_names \<longrightarrow> hd_value f \<noteq> [])"

definition field_flags :: "nghttp2_hd_nv \<Rightarrow> u32" where
  "field_flags f =
     (if named f '':authority'' then NGHTTP2_HTTP_FLAG__AUTHORITY
      else if named f '':method'' then NGHTTP2_HTTP_FLAG__METHOD OR
        (if hd_value f = ascii ''HEAD'' then NGHTTP2_HTTP_FLAG_METH_HEAD
         else if hd_value f = ascii ''CONNECT'' then NGHTTP2_HTTP_FLAG_METH_CONNECT
         else if hd_value f = ascii ''OPTIONS'' then NGHTTP2_HTTP_FLAG_METH_OPTIONS else 0)
      else if named f '':path'' then NGHTTP2_HTTP_FLAG__PATH OR
        (if byte0 (hd_value f) = 0x2f then NGHTTP2_HTTP_FLAG_PATH_REGULAR
         else if hd_value f = ascii ''*'' then NGHTTP2_HTTP_FLAG_PATH_ASTERISK else 0)
      else if named f '':scheme'' then NGHTTP2_HTTP_FLAG__SCHEME OR
        (if map downcase (hd_value f) \<in> {ascii ''http'', ascii ''https''} then NGHTTP2_HTTP_FLAG_SCHEME_HTTP else 0)
      else if named f '':protocol'' then NGHTTP2_HTTP_FLAG__PROTOCOL
      else if named f ''host'' then NGHTTP2_HTTP_FLAG_HOST
      else 0)"

text \<open>The flag that records a field which may occur once.\<close>

definition once_flag :: "nghttp2_hd_nv \<Rightarrow> u32" where
  "once_flag f =
     (if named f '':authority'' then NGHTTP2_HTTP_FLAG__AUTHORITY
      else if named f '':method'' then NGHTTP2_HTTP_FLAG__METHOD
      else if named f '':path'' then NGHTTP2_HTTP_FLAG__PATH
      else if named f '':scheme'' then NGHTTP2_HTTP_FLAG__SCHEME
      else if named f '':protocol'' then NGHTTP2_HTTP_FLAG__PROTOCOL
      else if named f ''host'' then NGHTTP2_HTTP_FLAG_HOST
      else 0)"

text \<open>The streams agree except for the flags of the priority field and the length.\<close>

definition msg_flags :: "nghttp2_stream \<Rightarrow> u32" where
  "msg_flags s = take_bit 16 (http_flags s)"

definition switch_result :: "nghttp2_stream \<Rightarrow> nghttp2_hd_nv \<Rightarrow> bool \<Rightarrow> (rc \<times> nghttp2_stream) option \<Rightarrow> bool" where
  "switch_result s f ok r \<longleftrightarrow> (\<exists>rv s'. r = Some (rv, s') \<and> (rv = 0 \<longleftrightarrow> ok) \<and> rv \<in> {0, NGHTTP2_ERR_HTTP_HEADER} \<and>
     flags s' = flags s \<and> stream_id s' = stream_id s \<and> recv_content_length s' = recv_content_length s \<and>
     (rv = 0 \<longrightarrow> msg_flags s' = msg_flags s OR field_flags f \<and>
        content_length s' = (if named f ''content-length'' then dec_value 0 (hd_value f) else content_length s)))"

lemma msg_set_flag [simp]: "msg_flags (set_flag F s) = msg_flags s OR take_bit 16 F"
  by (simp add: msg_flags_def set_flag_def take_bit_or)

lemma header_err [simp]: "NGHTTP2_ERR_HTTP_HEADER \<noteq> 0"
  by (simp add: rc_defs)

lemma request_method_result:
  assumes "odd (stream_id s)"
  shows "request_method s v = (0, if v = ascii ''HEAD'' then set_flag NGHTTP2_HTTP_FLAG_METH_HEAD s
     else if v = ascii ''CONNECT'' then set_flag NGHTTP2_HTTP_FLAG_METH_CONNECT s
     else if v = ascii ''OPTIONS'' then set_flag NGHTTP2_HTTP_FLAG_METH_OPTIONS s else s)"
proof -
  have "odd \<bar>stream_id s\<bar>" "stream_id s \<noteq> 0" using assms by auto
  then have "stream_id s smod 2 \<noteq> 0" by (simp add: smod_int_alt_def sgn_if odd_iff_mod_2_eq_one) presburger
  then show ?thesis by (auto simp: request_method_def)
qed

lemma once_result:
  assumes "f' = (\<lambda>s. (0, g s))" "\<And>s. flags (g s) = flags s \<and> stream_id (g s) = stream_id s \<and> recv_content_length (g s) = recv_content_length s \<and> content_length (g s) = content_length s"
    "\<And>s. msg_flags (g s) = msg_flags s OR extra" "field_flags nv = flag OR extra" "take_bit 16 flag = flag" "\<not> named nv ''content-length''"
  shows "switch_result s nv (\<not> has_flag s flag \<and> hd_value nv \<noteq> [])
    (let (ok, s) = check_pseudo_header s nv flag in Some (if \<not> ok then (NGHTTP2_ERR_HTTP_HEADER, s) else f' s))"
  using assms by (auto simp: check_pseudo_header_def switch_result_def or.assoc)

lemma request_priority_result:
  "\<exists>s'. request_priority s v trailer = Some s' \<and> flags s' = flags s \<and> stream_id s' = stream_id s \<and> recv_content_length s' = recv_content_length s \<and> content_length s' = content_length s \<and>
     msg_flags s' = msg_flags s"
proof -
  obtain rv e where e: "nghttp2_http_parse_priority (nghttp2_extpri_from_uint8 (http_extpri s)) v = Some (rv, e)"
    using priority_returns by blast
  have b: "take_bit 16 (2 ^ 16 :: u32) = 0" "take_bit 16 (2 ^ 17 :: u32) = 0" by simp_all
  have n: "take_bit 16 (x AND NOT F) = take_bit 16 x" if "take_bit 16 F = 0" for x F :: u32
    using arg_cong [OF that, of bit] by (intro bit_word_eqI) (auto simp: bit_and_iff bit_not_iff bit_take_bit_iff fun_eq_iff)
  show ?thesis using e b n [OF b(1)]
    by (auto simp: request_priority_def msg_flags_def set_flag_def take_bit_or NGHTTP2_HTTP_FLAG_PRIORITY_def NGHTTP2_HTTP_FLAG_BAD_PRIORITY_def
      simp del: power_numeral)
qed

definition field_now :: "bool \<Rightarrow> nghttp2_stream \<Rightarrow> nghttp2_hd_nv \<Rightarrow> bool" where
  "field_now cp s f \<longleftrightarrow> field_rule cp f \<and> \<not> has_flag s (once_flag f) \<and> (named f ''content-length'' \<longrightarrow> content_length s = -1)"

lemma has_no_flag [simp]: "\<not> has_flag s 0"
  by (simp add: has_flag_def)

lemma pseudo_named: "named f n \<Longrightarrow> pseudo f \<longleftrightarrow> byte0 (ascii n) = 0x3a"
  by (simp add: named_def pseudo_def)

lemmas rule_defs = field_rule_def once_names_def field_flags_def once_flag_def

text \<open>The tests of the switch, by name.\<close>

lemma request_switch_named:
  assumes "token_ok f"
  shows "request_switch s f trailer cp =
     (let value = hd_value f;
          once = (\<lambda>flag g. let (ok, s) = check_pseudo_header s f flag in Some (if \<not> ok then (NGHTTP2_ERR_HTTP_HEADER, s) else g s))
      in if named f '':authority'' then once NGHTTP2_HTTP_FLAG__AUTHORITY (Pair 0)
         else if named f '':method'' then once NGHTTP2_HTTP_FLAG__METHOD (\<lambda>s. request_method s value)
         else if named f '':path'' then once NGHTTP2_HTTP_FLAG__PATH (\<lambda>s. (0, request_path s value))
         else if named f '':scheme'' then once NGHTTP2_HTTP_FLAG__SCHEME (\<lambda>s. (0, request_scheme s value))
         else if named f '':protocol'' then
           (if \<not> cp then Some (NGHTTP2_ERR_HTTP_HEADER, s) else once NGHTTP2_HTTP_FLAG__PROTOCOL (Pair 0))
         else if named f ''host'' then once NGHTTP2_HTTP_FLAG_HOST (Pair 0)
         else if named f ''content-length'' then on_content_length s value
         else if named f ''connection'' \<or> named f ''keep-alive'' \<or> named f ''proxy-connection'' \<or> named f ''transfer-encoding'' \<or> named f ''upgrade''
         then Some (NGHTTP2_ERR_HTTP_HEADER, s)
         else if named f ''te'' then Some (on_te s value)
         else if named f ''priority'' then do { s \<leftarrow> request_priority s value trailer; Some (0, s) }
         else if pseudo f then Some (NGHTTP2_ERR_HTTP_HEADER, s)
         else Some (0, s))"
  unfolding request_switch_def Let_def prohibited_def pseudo_def tokens_named [OF assms] by (rule refl)

lemma once_case:
  assumes "request_switch s f trailer cp =
      (let (ok, s) = check_pseudo_header s f flag in Some (if \<not> ok then (NGHTTP2_ERR_HTTP_HEADER, s) else g' s))"
    "\<And>t. odd (stream_id t) \<Longrightarrow> g' t = (0, g t)" "odd (stream_id s)"
    "\<And>t. flags (g t) = flags t \<and> stream_id (g t) = stream_id t \<and> recv_content_length (g t) = recv_content_length t \<and> content_length (g t) = content_length t"
    "\<And>t. msg_flags (g t) = msg_flags t OR extra" "field_flags f = flag OR extra" "take_bit 16 flag = flag"
    "\<not> named f ''content-length''" "once_flag f = flag" "field_rule cp f \<longleftrightarrow> hd_value f \<noteq> []"
  shows "switch_result s f (field_now cp s f) (request_switch s f trailer cp)"
  using assms by (auto simp: check_pseudo_header_def switch_result_def or.assoc field_now_def)

lemma single_byte: "length v = 1 \<and> byte0 v = c \<longleftrightarrow> v = [c]"
  by (cases v) (auto simp: byte0_def)

lemma request_path_flags:
  "flags (request_path t v) = flags t" "stream_id (request_path t v) = stream_id t" "recv_content_length (request_path t v) = recv_content_length t" "content_length (request_path t v) = content_length t"
  "msg_flags (request_path t v) = msg_flags t OR
     (if byte0 v = 0x2f then NGHTTP2_HTTP_FLAG_PATH_REGULAR else if v = ascii ''*'' then NGHTTP2_HTTP_FLAG_PATH_ASTERISK else 0)"
  unfolding request_path_def single_byte by (simp_all add: NGHTTP2_HTTP_FLAG_PATH_REGULAR_def NGHTTP2_HTTP_FLAG_PATH_ASTERISK_def)

lemma request_scheme_flags:
  "flags (request_scheme t v) = flags t" "stream_id (request_scheme t v) = stream_id t" "recv_content_length (request_scheme t v) = recv_content_length t" "content_length (request_scheme t v) = content_length t"
  "msg_flags (request_scheme t v) = msg_flags t OR
     (if map downcase v \<in> {ascii ''http'', ascii ''https''} then NGHTTP2_HTTP_FLAG_SCHEME_HTTP else 0)"
proof -
  have l: "map downcase (ascii ''http'') = ascii ''http''" "map downcase (ascii ''https'') = ascii ''https''" by code_simp+
  have len: "length v = length n" if "map downcase v = ascii n" for n using arg_cong [OF that, of length] by simp
  have "length v = 4 \<and> memieq (ascii ''http'') v 4 \<longleftrightarrow> map downcase v = ascii ''http''"
    using memieq_map [of "ascii ''http''" 4 v] l(1) len [of "''http''"] by (auto simp del: ascii_simps)
  moreover have "length v = 5 \<and> memieq (ascii ''https'') v 5 \<longleftrightarrow> map downcase v = ascii ''https''"
    using memieq_map [of "ascii ''https''" 5 v] l(2) len [of "''https''"] by (auto simp del: ascii_simps)
  ultimately have e: "request_scheme t v = (if map downcase v \<in> {ascii ''http'', ascii ''https''} then set_flag NGHTTP2_HTTP_FLAG_SCHEME_HTTP t else t)"
    by (simp only: request_scheme_def insert_iff empty_iff simp_thms)
  show "flags (request_scheme t v) = flags t" "stream_id (request_scheme t v) = stream_id t" "recv_content_length (request_scheme t v) = recv_content_length t" "content_length (request_scheme t v) = content_length t"
    "msg_flags (request_scheme t v) = msg_flags t OR
      (if map downcase v \<in> {ascii ''http'', ascii ''https''} then NGHTTP2_HTTP_FLAG_SCHEME_HTTP else 0)"
    unfolding e by (simp_all add: NGHTTP2_HTTP_FLAG_SCHEME_HTTP_def)
qed

lemma content_length_result:
  assumes "named f ''content-length''"
  shows "switch_result s f (field_now cp s f) (on_content_length s (hd_value f))"
proof -
  have n: "field_flags f = 0" "once_flag f = 0"
    "field_rule cp f \<longleftrightarrow> hd_value f \<noteq> [] \<and> list_all DIGIT_CASES (hd_value f) \<and> dec_value 0 (hd_value f) \<le> INT64_MAX"
    using assms by (simp_all add: named_def rule_defs pseudo_def byte0_def)
  have "field_rule cp f \<Longrightarrow> dec_value 0 (hd_value f) \<noteq> -1" using n(3) dec_value_mono [of 0 "hd_value f"] by simp
  then show ?thesis using assms n parse_uint_eq [of "hd_value f"]
    by (auto simp: on_content_length_def switch_result_def field_now_def msg_flags_def)
qed

lemma request_switch_plain:
  assumes tok: "token_ok f" and not_once: "\<not> list_ex (named f) once_names"
  shows "switch_result s f (field_now cp s f) (request_switch s f False cp)"
proof -
  have no: "\<not> named f '':authority''" "\<not> named f '':method''" "\<not> named f '':path''" "\<not> named f '':scheme''" "\<not> named f '':protocol''" "\<not> named f ''host''"
    using not_once by (simp_all add: once_names_def)
  note sw = request_switch_named [OF tok, of s False cp, unfolded Let_def, simplified no if_False]
  have fl: "field_flags f = 0" "once_flag f = 0" using no by (simp_all add: field_flags_def once_flag_def)
  have rule: "field_rule cp f \<longleftrightarrow> \<not> pseudo f \<and>
     \<not> (named f ''connection'' \<or> named f ''keep-alive'' \<or> named f ''proxy-connection'' \<or> named f ''transfer-encoding'' \<or> named f ''upgrade'') \<and>
     (named f ''te'' \<longrightarrow> map downcase (hd_value f) = ascii ''trailers'')" if "\<not> named f ''content-length''"
    using no that unfolding field_rule_def once_names_def by (cases cp) (simp_all del: ascii_simps)
  show ?thesis
  proof (cases "named f ''content-length''")
    case True
    then show ?thesis using content_length_result [OF True] sw by simp
  next
    case False
    note sw = sw [simplified False if_False] and rule = rule [OF False]
    let ?bad = "named f ''connection'' \<or> named f ''keep-alive'' \<or> named f ''proxy-connection'' \<or> named f ''transfer-encoding'' \<or> named f ''upgrade''"
    have l: "map downcase (ascii ''trailers'') = ascii ''trailers''" by code_simp
    consider "?bad" | "\<not> ?bad" "named f ''te''" | "\<not> ?bad" "\<not> named f ''te''" "named f ''priority''"
      | "\<not> ?bad" "\<not> named f ''te''" "\<not> named f ''priority''" by blast
    then show ?thesis
    proof cases
      case 1
      then have "request_switch s f False cp = Some (NGHTTP2_ERR_HTTP_HEADER, s)" using sw by (simp only: if_True)
      then show ?thesis using 1 rule by (simp add: switch_result_def field_now_def)
    next
      case 2
      have "\<not> pseudo f" using 2(2) by (simp add: named_def pseudo_def byte0_def)
      moreover have "request_switch s f False cp = Some (on_te s (hd_value f))" using sw 2 by (simp only: if_True if_False)
      ultimately show ?thesis using 2 rule fl False l
        by (auto simp: switch_result_def field_now_def on_te_def lstrieq_map simp del: ascii_simps)
    next
      case 3
      have "\<not> pseudo f" using 3(3) by (simp add: named_def pseudo_def byte0_def)
      moreover have "request_switch s f False cp = do { s \<leftarrow> request_priority s (hd_value f) False; Some (0, s) }"
        using sw 3 by (simp only: if_True if_False)
      ultimately show ?thesis using 3 rule fl False request_priority_result [of s "hd_value f" False]
        by (auto simp: switch_result_def field_now_def)
    next
      case 4
      then have "request_switch s f False cp = (if pseudo f then Some (NGHTTP2_ERR_HTTP_HEADER, s) else Some (0, s))"
        using sw by (simp only: if_False)
      then show ?thesis using 4 rule fl False by (auto simp: switch_result_def field_now_def)
    qed
  qed
qed

lemma request_switch_result:
  assumes tok: "token_ok f" and odd: "odd (stream_id s)"
  shows "switch_result s f (field_now cp s f) (request_switch s f False cp)"
proof -
  note sw = request_switch_named [OF tok, of s False cp, unfolded Let_def]
  note nm = named_def pseudo_def rule_defs byte0_def
  consider "named f '':authority''" | "named f '':method''" | "named f '':path''" | "named f '':scheme''" | "named f '':protocol''" | "named f ''host''"
    | "\<not> list_ex (named f) once_names" by (auto simp: once_names_def)
  then show ?thesis
  proof cases
    case 1
    show ?thesis
      by (rule once_case [where g = "\<lambda>t. t" and extra = 0 and flag = NGHTTP2_HTTP_FLAG__AUTHORITY])
        (use 1 odd in \<open>simp_all add: sw nm NGHTTP2_HTTP_FLAG__AUTHORITY_def\<close>)
  next
    case 6
    show ?thesis
      by (rule once_case [where g = "\<lambda>t. t" and extra = 0 and flag = NGHTTP2_HTTP_FLAG_HOST])
        (use 6 odd in \<open>simp_all add: sw nm NGHTTP2_HTTP_FLAG_HOST_def\<close>)
  next
    case 5
    show ?thesis
    proof (cases cp)
      case True
      show ?thesis
        by (rule once_case [where g = "\<lambda>t. t" and extra = 0 and flag = NGHTTP2_HTTP_FLAG__PROTOCOL])
          (use 5 odd True request_switch_named [OF tok, of s False True, unfolded Let_def] in \<open>simp_all add: nm NGHTTP2_HTTP_FLAG__PROTOCOL_def\<close>)
    next
      case False
      then show ?thesis using 5 request_switch_named [OF tok, of s False False, unfolded Let_def] by (simp add: nm switch_result_def field_now_def)
    qed
  next
    case 2
    let ?v = "hd_value f"
    show ?thesis
      by (rule once_case [where flag = NGHTTP2_HTTP_FLAG__METHOD and g' = "\<lambda>s. request_method s ?v"
          and g = "\<lambda>t. if ?v = ascii ''HEAD'' then set_flag NGHTTP2_HTTP_FLAG_METH_HEAD t
             else if ?v = ascii ''CONNECT'' then set_flag NGHTTP2_HTTP_FLAG_METH_CONNECT t
             else if ?v = ascii ''OPTIONS'' then set_flag NGHTTP2_HTTP_FLAG_METH_OPTIONS t else t"
          and extra = "if ?v = ascii ''HEAD'' then NGHTTP2_HTTP_FLAG_METH_HEAD
             else if ?v = ascii ''CONNECT'' then NGHTTP2_HTTP_FLAG_METH_CONNECT
             else if ?v = ascii ''OPTIONS'' then NGHTTP2_HTTP_FLAG_METH_OPTIONS else 0"])
        (use 2 odd in \<open>simp_all add: sw nm request_method_result http_flag_defs\<close>)
  next
    case 3
    show ?thesis
      by (rule once_case [where flag = NGHTTP2_HTTP_FLAG__PATH and g' = "\<lambda>s. (0, request_path s (hd_value f))"
          and g = "\<lambda>t. request_path t (hd_value f)"
          and extra = "if byte0 (hd_value f) = 0x2f then NGHTTP2_HTTP_FLAG_PATH_REGULAR
             else if hd_value f = ascii ''*'' then NGHTTP2_HTTP_FLAG_PATH_ASTERISK else 0"])
        (use 3 odd in \<open>simp_all add: sw nm request_path_flags http_flag_defs\<close>)
  next
    case 4
    show ?thesis
      by (rule once_case [where flag = NGHTTP2_HTTP_FLAG__SCHEME and g' = "\<lambda>s. (0, request_scheme s (hd_value f))"
          and g = "\<lambda>t. request_scheme t (hd_value f)"
          and extra = "if map downcase (hd_value f) \<in> {ascii ''http'', ascii ''https''} then NGHTTP2_HTTP_FLAG_SCHEME_HTTP else 0"])
        (use 4 odd in \<open>simp_all add: sw nm request_scheme_flags http_flag_defs\<close>)
  next
    case 7
    then show ?thesis using request_switch_plain [OF tok] by blast
  qed
qed

text \<open>A whole field: \<open>http_ctx\<close> is what does not change while a field section is read.\<close>

record http_ctx =
  cx_session :: http_session
  cx_stream :: nghttp2_stream
  cx_fhd :: nghttp2_frame_hd

definition has_upper :: "bytes \<Rightarrow> bool" where
  "has_upper s \<longleftrightarrow> list_ex (\<lambda>c. 0x41 \<le> c \<and> c \<le> 0x5a) s"

definition well_formed :: "http_ctx \<Rightarrow> nghttp2_hd_nv \<Rightarrow> bool" where
  "well_formed cx f \<longleftrightarrow> nghttp2_check_header_name (hd_name f) \<and> check_value_by_token (cx_session cx) (cx_stream cx) (cx_fhd cx) f"

definition dropped :: "http_ctx \<Rightarrow> nghttp2_hd_nv \<Rightarrow> bool" where
  "dropped cx f \<longleftrightarrow> \<not> well_formed cx f \<and> \<not> pseudo f \<and> \<not> has_upper (hd_name f)"

definition cx_cp :: "http_ctx \<Rightarrow> bool" where
  "cx_cp cx \<longleftrightarrow> hs_server (cx_session cx) \<and> hs_pending_enable_connect_protocol (cx_session cx)"

definition contrib :: "http_ctx \<Rightarrow> nghttp2_hd_nv \<Rightarrow> u32" where
  "contrib cx f = (if dropped cx f then NGHTTP2_HTTP_FLAG_PSEUDO_HEADER_DISALLOWED
     else field_flags f OR (if pseudo f then 0 else NGHTTP2_HTTP_FLAG_PSEUDO_HEADER_DISALLOWED))"

lemma check_value_flags: "flags s = flags t \<Longrightarrow> check_value_by_token ses s fhd f = check_value_by_token ses t fhd f"
  by (simp add: check_value_by_token_def check_value_by_flags_def Let_def)

lemma name_not_upper: "nghttp2_check_header_name n \<Longrightarrow> \<not> has_upper n"
proof -
  assume "nghttp2_check_header_name n"
  then have b: "list_all (\<lambda>c. tchar c \<and> \<not> is_upper c) (if n \<noteq> [] \<and> hd n = 0x3a then tl n else n)"
    by (simp add: check_header_name_language prefixed_name_def Let_def)
  have "\<not> is_upper 0x3a" by (simp add: is_upper_def)
  then have "list_all (\<lambda>c. \<not> is_upper c) n" using b by (cases n) (auto simp: list_all_iff split: if_splits)
  then show ?thesis by (auto simp: has_upper_def is_upper_def list_all_iff list_ex_iff word_le_nat_alt)
qed

text \<open>What a request field does to the stream.\<close>

definition field_result :: "http_ctx \<Rightarrow> nghttp2_stream \<Rightarrow> nghttp2_hd_nv \<Rightarrow> (rc \<times> nghttp2_stream) option \<Rightarrow> bool" where
  "field_result cx s f r \<longleftrightarrow> (\<exists>rv s'. r = Some (rv, s') \<and>
     (rv \<in> {0, NGHTTP2_ERR_IGN_HTTP_HEADER} \<longleftrightarrow> dropped cx f \<or>
        well_formed cx f \<and> (pseudo f \<longrightarrow> \<not> has_flag s NGHTTP2_HTTP_FLAG_PSEUDO_HEADER_DISALLOWED) \<and> field_now (cx_cp cx) s f) \<and>
     flags s' = flags s \<and> stream_id s' = stream_id s \<and> recv_content_length s' = recv_content_length s \<and>
     (rv \<in> {0, NGHTTP2_ERR_IGN_HTTP_HEADER} \<longrightarrow> msg_flags s' = msg_flags s OR contrib cx f \<and>
        content_length s' = (if named f ''content-length'' \<and> \<not> dropped cx f then dec_value 0 (hd_value f) else content_length s)))"

lemma ign_errs [simp]: "NGHTTP2_ERR_IGN_HTTP_HEADER \<noteq> 0" "NGHTTP2_ERR_HTTP_HEADER \<noteq> NGHTTP2_ERR_IGN_HTTP_HEADER"
  by (simp_all add: rc_defs)

lemma around_result:
  assumes "switch_result s f ok (switch s)"
  shows "\<exists>rv s'. around_switch switch s f False = Some (rv, s') \<and> rv \<in> {0, NGHTTP2_ERR_HTTP_HEADER} \<and>
    (rv = 0 \<longleftrightarrow> (pseudo f \<longrightarrow> \<not> has_flag s NGHTTP2_HTTP_FLAG_PSEUDO_HEADER_DISALLOWED) \<and> ok) \<and> flags s' = flags s \<and> stream_id s' = stream_id s \<and> recv_content_length s' = recv_content_length s \<and>
    (rv = 0 \<longrightarrow> msg_flags s' = msg_flags s OR (field_flags f OR (if pseudo f then 0 else NGHTTP2_HTTP_FLAG_PSEUDO_HEADER_DISALLOWED)) \<and>
       content_length s' = (if named f ''content-length'' then dec_value 0 (hd_value f) else content_length s))"
proof -
  have t: "take_bit 16 NGHTTP2_HTTP_FLAG_PSEUDO_HEADER_DISALLOWED = NGHTTP2_HTTP_FLAG_PSEUDO_HEADER_DISALLOWED"
    by (simp add: NGHTTP2_HTTP_FLAG_PSEUDO_HEADER_DISALLOWED_def)
  obtain rv s' where "switch s = Some (rv, s')" "rv = 0 \<longleftrightarrow> ok" "rv \<in> {0, NGHTTP2_ERR_HTTP_HEADER}" "flags s' = flags s" "stream_id s' = stream_id s \<and> recv_content_length s' = recv_content_length s"
    "rv = 0 \<longrightarrow> msg_flags s' = msg_flags s OR field_flags f \<and>
        content_length s' = (if named f ''content-length'' then dec_value 0 (hd_value f) else content_length s)"
    using assms unfolding switch_result_def by blast
  then show ?thesis using t by (auto simp: around_switch_def pseudo_def or.assoc)
qed

lemma on_header_result:
  assumes "token_ok f" "odd (stream_id s)" "hs_server (cx_session cx)" "flags s = flags (cx_stream cx)"
  shows "field_result cx s f (nghttp2_http_on_header (cx_session cx) s (cx_fhd cx) f False)"
proof -
  note v = check_value_flags [OF assms(4), of "cx_session cx" "cx_fhd cx" f]
  have t: "take_bit 16 NGHTTP2_HTTP_FLAG_PSEUDO_HEADER_DISALLOWED = NGHTTP2_HTTP_FLAG_PSEUDO_HEADER_DISALLOWED"
    by (simp add: NGHTTP2_HTTP_FLAG_PSEUDO_HEADER_DISALLOWED_def)
  consider "well_formed cx f" | "dropped cx f" | "\<not> well_formed cx f" "\<not> dropped cx f" by (auto simp: dropped_def)
  then show ?thesis
  proof cases
    case 1
    then have "nghttp2_http_on_header (cx_session cx) s (cx_fhd cx) f False = around_switch (\<lambda>s. request_switch s f False (cx_cp cx)) s f False"
      using assms(3) v by (simp add: nghttp2_http_on_header_def well_formed_def http_request_on_header_def cx_cp_def)
    moreover have "\<not> dropped cx f" using 1 by (simp add: dropped_def)
    ultimately show ?thesis using 1 around_result [where switch = "\<lambda>s. request_switch s f False (cx_cp cx)", OF request_switch_result [OF assms(1,2)]]
      unfolding field_result_def contrib_def by (elim exE conjE) auto
  next
    case 2
    then have "nghttp2_http_on_header (cx_session cx) s (cx_fhd cx) f False =
        Some (NGHTTP2_ERR_IGN_HTTP_HEADER, set_flag NGHTTP2_HTTP_FLAG_PSEUDO_HEADER_DISALLOWED s)"
      using v by (auto simp: nghttp2_http_on_header_def dropped_def well_formed_def pseudo_def has_upper_def nghttp2_check_header_name_def)
    then show ?thesis using 2 t by (simp add: field_result_def contrib_def)
  next
    case 3
    then have "nghttp2_http_on_header (cx_session cx) s (cx_fhd cx) f False = Some (NGHTTP2_ERR_HTTP_HEADER, s)"
      using v name_not_upper [of "hd_name f"]
      by (auto simp: nghttp2_http_on_header_def dropped_def well_formed_def pseudo_def has_upper_def byte0_def split: list.splits)
    then show ?thesis using 3 by (simp add: field_result_def)
  qed
qed

subsection \<open>Requests, whole field sections\<close>

definition all_flags :: "http_ctx \<Rightarrow> nghttp2_hd_nv list \<Rightarrow> u32" where
  "all_flags cx pre = foldr (\<lambda>f x. contrib cx f OR x) pre 0"

lemma all_flags_simps [simp]: "all_flags cx [] = 0" "all_flags cx (pre @ [f]) = all_flags cx pre OR contrib cx f"
proof -
  have "foldr (\<lambda>f x. contrib cx f OR x) pre y = all_flags cx pre OR y" for y
    by (induction pre) (simp_all add: all_flags_def or.assoc)
  from this [of "contrib cx f"] show "all_flags cx (pre @ [f]) = all_flags cx pre OR contrib cx f" by (simp add: all_flags_def)
qed (simp add: all_flags_def)

lemma all_flags_and: "all_flags cx pre AND G \<noteq> 0 \<longleftrightarrow> list_ex (\<lambda>f. contrib cx f AND G \<noteq> 0) pre"
  by (induction pre) (simp_all add: all_flags_def bit.conj_disj_distrib2 or_eq_0_iff)

lemma has_flag_msg:
  assumes "take_bit 16 G = G"
  shows "has_flag s G \<longleftrightarrow> msg_flags s AND G \<noteq> 0"
proof -
  have "take_bit 16 (http_flags s) AND take_bit 16 G = take_bit 16 (http_flags s AND take_bit 16 G)" by (simp add: take_bit_and)
  moreover have "take_bit 16 (http_flags s AND take_bit 16 G) = http_flags s AND take_bit 16 G"
    by (rule bit_word_eqI) (auto simp: bit_and_iff bit_take_bit_iff)
  ultimately show ?thesis using assms by (simp add: has_flag_def msg_flags_def)
qed

text \<open>A field that is kept, with a name.\<close>

definition kept :: "http_ctx \<Rightarrow> string \<Rightarrow> nghttp2_hd_nv \<Rightarrow> bool" where
  "kept cx n f \<longleftrightarrow> \<not> dropped cx f \<and> named f n"

lemma field_flags_or:
  "field_flags f =
     (if named f '':authority'' then NGHTTP2_HTTP_FLAG__AUTHORITY else 0) OR (if named f '':method'' then NGHTTP2_HTTP_FLAG__METHOD else 0) OR
     (if named f '':path'' then NGHTTP2_HTTP_FLAG__PATH else 0) OR (if named f '':scheme'' then NGHTTP2_HTTP_FLAG__SCHEME else 0) OR
     (if named f '':protocol'' then NGHTTP2_HTTP_FLAG__PROTOCOL else 0) OR (if named f ''host'' then NGHTTP2_HTTP_FLAG_HOST else 0) OR
     (if named f '':method'' \<and> hd_value f = ascii ''HEAD'' then NGHTTP2_HTTP_FLAG_METH_HEAD else 0) OR
     (if named f '':method'' \<and> hd_value f = ascii ''CONNECT'' then NGHTTP2_HTTP_FLAG_METH_CONNECT else 0) OR
     (if named f '':method'' \<and> hd_value f = ascii ''OPTIONS'' then NGHTTP2_HTTP_FLAG_METH_OPTIONS else 0) OR
     (if named f '':path'' \<and> byte0 (hd_value f) = 0x2f then NGHTTP2_HTTP_FLAG_PATH_REGULAR else 0) OR
     (if named f '':path'' \<and> hd_value f = ascii ''*'' then NGHTTP2_HTTP_FLAG_PATH_ASTERISK else 0) OR
     (if named f '':scheme'' \<and> map downcase (hd_value f) \<in> {ascii ''http'', ascii ''https''} then NGHTTP2_HTTP_FLAG_SCHEME_HTTP else 0)"
proof -
  consider "named f '':authority''" | "named f '':method''" | "named f '':path''" | "named f '':scheme''" | "named f '':protocol''" | "named f ''host''"
    | "\<not> named f '':authority''" "\<not> named f '':method''" "\<not> named f '':path''" "\<not> named f '':scheme''" "\<not> named f '':protocol''" "\<not> named f ''host''"
    by blast
  then show ?thesis
  proof cases
    case 3
    then show ?thesis by (cases "hd_value f = ascii ''*''") (simp_all add: field_flags_def named_def byte0_def)
  qed (simp_all add: field_flags_def named_def)
qed

lemma if_flag: "(if P then F else 0) AND G = 0 \<longleftrightarrow> \<not> P \<or> F AND G = (0 :: u32)"
  by simp

lemma contrib_flags:
  "contrib cx f AND NGHTTP2_HTTP_FLAG__AUTHORITY \<noteq> 0 \<longleftrightarrow> kept cx '':authority'' f"
  "contrib cx f AND NGHTTP2_HTTP_FLAG__METHOD \<noteq> 0 \<longleftrightarrow> kept cx '':method'' f"
  "contrib cx f AND NGHTTP2_HTTP_FLAG__PATH \<noteq> 0 \<longleftrightarrow> kept cx '':path'' f"
  "contrib cx f AND NGHTTP2_HTTP_FLAG__SCHEME \<noteq> 0 \<longleftrightarrow> kept cx '':scheme'' f"
  "contrib cx f AND NGHTTP2_HTTP_FLAG__PROTOCOL \<noteq> 0 \<longleftrightarrow> kept cx '':protocol'' f"
  "contrib cx f AND NGHTTP2_HTTP_FLAG_HOST \<noteq> 0 \<longleftrightarrow> kept cx ''host'' f"
  "contrib cx f AND NGHTTP2_HTTP_FLAG_METH_CONNECT \<noteq> 0 \<longleftrightarrow> kept cx '':method'' f \<and> hd_value f = ascii ''CONNECT''"
  "contrib cx f AND NGHTTP2_HTTP_FLAG_METH_OPTIONS \<noteq> 0 \<longleftrightarrow> kept cx '':method'' f \<and> hd_value f = ascii ''OPTIONS''"
  "contrib cx f AND NGHTTP2_HTTP_FLAG_PATH_REGULAR \<noteq> 0 \<longleftrightarrow> kept cx '':path'' f \<and> byte0 (hd_value f) = 0x2f"
  "contrib cx f AND NGHTTP2_HTTP_FLAG_PATH_ASTERISK \<noteq> 0 \<longleftrightarrow> kept cx '':path'' f \<and> hd_value f = ascii ''*''"
  "contrib cx f AND NGHTTP2_HTTP_FLAG_SCHEME_HTTP \<noteq> 0 \<longleftrightarrow> kept cx '':scheme'' f \<and> map downcase (hd_value f) \<in> {ascii ''http'', ascii ''https''}"
  "contrib cx f AND NGHTTP2_HTTP_FLAG_PSEUDO_HEADER_DISALLOWED \<noteq> 0 \<longleftrightarrow> \<not> pseudo f"
  "contrib cx f AND NGHTTP2_HTTP_FLAG_EXPECT_FINAL_RESPONSE \<noteq> 0 \<longleftrightarrow> False"
  unfolding contrib_def kept_def field_flags_or
  by (simp_all add: bit.conj_disj_distrib2 or_eq_0_iff if_flag http_flag_defs dropped_def del: ascii_simps)

text \<open>The length that the fields declare.\<close>

definition declared :: "http_ctx \<Rightarrow> nghttp2_hd_nv list \<Rightarrow> int" where
  "declared cx pre = (case find (kept cx ''content-length'') pre of None \<Rightarrow> -1 | Some f \<Rightarrow> dec_value 0 (hd_value f))"

lemma find_snoc: "find P (xs @ [x]) = (case find P xs of None \<Rightarrow> if P x then Some x else None | Some y \<Rightarrow> Some y)"
  by (induction xs) simp_all

definition msg_inv :: "http_ctx \<Rightarrow> nghttp2_hd_nv list \<Rightarrow> nghttp2_stream \<Rightarrow> bool" where
  "msg_inv cx pre s \<longleftrightarrow> flags s = flags (cx_stream cx) \<and> odd (stream_id s) \<and> msg_flags s = all_flags cx pre \<and>
     (content_length s = -1 \<longleftrightarrow> \<not> list_ex (kept cx ''content-length'') pre) \<and>
     content_length s = declared cx pre \<and> recv_content_length s = recv_content_length (cx_stream cx)"

text \<open>The rule for a field after the fields \<open>pre\<close>.\<close>

definition single_names :: "string list" where
  "single_names = ''content-length'' # once_names"

definition field_after :: "http_ctx \<Rightarrow> nghttp2_hd_nv list \<Rightarrow> nghttp2_hd_nv \<Rightarrow> bool" where
  "field_after cx pre f \<longleftrightarrow> dropped cx f \<or>
     well_formed cx f \<and> field_rule (cx_cp cx) f \<and> (pseudo f \<longrightarrow> list_all pseudo pre) \<and>
     list_all (\<lambda>n. named f n \<longrightarrow> \<not> list_ex (kept cx n) pre) single_names"

lemma http_flag_bits:
  "take_bit 16 NGHTTP2_HTTP_FLAG__AUTHORITY = NGHTTP2_HTTP_FLAG__AUTHORITY" "take_bit 16 NGHTTP2_HTTP_FLAG__METHOD = NGHTTP2_HTTP_FLAG__METHOD"
  "take_bit 16 NGHTTP2_HTTP_FLAG__PATH = NGHTTP2_HTTP_FLAG__PATH" "take_bit 16 NGHTTP2_HTTP_FLAG__SCHEME = NGHTTP2_HTTP_FLAG__SCHEME"
  "take_bit 16 NGHTTP2_HTTP_FLAG__PROTOCOL = NGHTTP2_HTTP_FLAG__PROTOCOL" "take_bit 16 NGHTTP2_HTTP_FLAG_HOST = NGHTTP2_HTTP_FLAG_HOST"
  "take_bit 16 NGHTTP2_HTTP_FLAG_METH_CONNECT = NGHTTP2_HTTP_FLAG_METH_CONNECT"
  "take_bit 16 NGHTTP2_HTTP_FLAG_METH_OPTIONS = NGHTTP2_HTTP_FLAG_METH_OPTIONS"
  "take_bit 16 NGHTTP2_HTTP_FLAG_PATH_REGULAR = NGHTTP2_HTTP_FLAG_PATH_REGULAR"
  "take_bit 16 NGHTTP2_HTTP_FLAG_PATH_ASTERISK = NGHTTP2_HTTP_FLAG_PATH_ASTERISK"
  "take_bit 16 NGHTTP2_HTTP_FLAG_SCHEME_HTTP = NGHTTP2_HTTP_FLAG_SCHEME_HTTP"
  "take_bit 16 NGHTTP2_HTTP_FLAG_PSEUDO_HEADER_DISALLOWED = NGHTTP2_HTTP_FLAG_PSEUDO_HEADER_DISALLOWED"
  "take_bit 16 NGHTTP2_HTTP_FLAG_EXPECT_FINAL_RESPONSE = NGHTTP2_HTTP_FLAG_EXPECT_FINAL_RESPONSE"
  by (simp_all add: http_flag_defs)

lemma msg_inv_flags:
  assumes "msg_inv cx pre s"
  shows "has_flag s NGHTTP2_HTTP_FLAG__AUTHORITY \<longleftrightarrow> list_ex (kept cx '':authority'') pre"
    "has_flag s NGHTTP2_HTTP_FLAG__METHOD \<longleftrightarrow> list_ex (kept cx '':method'') pre"
    "has_flag s NGHTTP2_HTTP_FLAG__PATH \<longleftrightarrow> list_ex (kept cx '':path'') pre"
    "has_flag s NGHTTP2_HTTP_FLAG__SCHEME \<longleftrightarrow> list_ex (kept cx '':scheme'') pre"
    "has_flag s NGHTTP2_HTTP_FLAG__PROTOCOL \<longleftrightarrow> list_ex (kept cx '':protocol'') pre"
    "has_flag s NGHTTP2_HTTP_FLAG_HOST \<longleftrightarrow> list_ex (kept cx ''host'') pre"
    "has_flag s NGHTTP2_HTTP_FLAG_METH_CONNECT \<longleftrightarrow> list_ex (\<lambda>f. kept cx '':method'' f \<and> hd_value f = ascii ''CONNECT'') pre"
    "has_flag s NGHTTP2_HTTP_FLAG_METH_OPTIONS \<longleftrightarrow> list_ex (\<lambda>f. kept cx '':method'' f \<and> hd_value f = ascii ''OPTIONS'') pre"
    "has_flag s NGHTTP2_HTTP_FLAG_PATH_REGULAR \<longleftrightarrow> list_ex (\<lambda>f. kept cx '':path'' f \<and> byte0 (hd_value f) = 0x2f) pre"
    "has_flag s NGHTTP2_HTTP_FLAG_PATH_ASTERISK \<longleftrightarrow> list_ex (\<lambda>f. kept cx '':path'' f \<and> hd_value f = ascii ''*'') pre"
    "has_flag s NGHTTP2_HTTP_FLAG_SCHEME_HTTP \<longleftrightarrow>
      list_ex (\<lambda>f. kept cx '':scheme'' f \<and> map downcase (hd_value f) \<in> {ascii ''http'', ascii ''https''}) pre"
    "has_flag s NGHTTP2_HTTP_FLAG_PSEUDO_HEADER_DISALLOWED \<longleftrightarrow> list_ex (\<lambda>f. \<not> pseudo f) pre"
    "has_flag s NGHTTP2_HTTP_FLAG_EXPECT_FINAL_RESPONSE \<longleftrightarrow> list_ex (\<lambda>f. False) pre"
proof -
  have m: "msg_flags s = all_flags cx pre" using assms by (simp add: msg_inv_def)
  note b = http_flag_bits [THEN has_flag_msg, of s, unfolded m all_flags_and contrib_flags]
  show "has_flag s NGHTTP2_HTTP_FLAG__AUTHORITY \<longleftrightarrow> list_ex (kept cx '':authority'') pre"
    "has_flag s NGHTTP2_HTTP_FLAG__METHOD \<longleftrightarrow> list_ex (kept cx '':method'') pre"
    "has_flag s NGHTTP2_HTTP_FLAG__PATH \<longleftrightarrow> list_ex (kept cx '':path'') pre"
    "has_flag s NGHTTP2_HTTP_FLAG__SCHEME \<longleftrightarrow> list_ex (kept cx '':scheme'') pre"
    "has_flag s NGHTTP2_HTTP_FLAG__PROTOCOL \<longleftrightarrow> list_ex (kept cx '':protocol'') pre"
    "has_flag s NGHTTP2_HTTP_FLAG_HOST \<longleftrightarrow> list_ex (kept cx ''host'') pre"
    "has_flag s NGHTTP2_HTTP_FLAG_METH_CONNECT \<longleftrightarrow> list_ex (\<lambda>f. kept cx '':method'' f \<and> hd_value f = ascii ''CONNECT'') pre"
    "has_flag s NGHTTP2_HTTP_FLAG_METH_OPTIONS \<longleftrightarrow> list_ex (\<lambda>f. kept cx '':method'' f \<and> hd_value f = ascii ''OPTIONS'') pre"
    "has_flag s NGHTTP2_HTTP_FLAG_PATH_REGULAR \<longleftrightarrow> list_ex (\<lambda>f. kept cx '':path'' f \<and> byte0 (hd_value f) = 0x2f) pre"
    "has_flag s NGHTTP2_HTTP_FLAG_PATH_ASTERISK \<longleftrightarrow> list_ex (\<lambda>f. kept cx '':path'' f \<and> hd_value f = ascii ''*'') pre"
    "has_flag s NGHTTP2_HTTP_FLAG_SCHEME_HTTP \<longleftrightarrow>
      list_ex (\<lambda>f. kept cx '':scheme'' f \<and> map downcase (hd_value f) \<in> {ascii ''http'', ascii ''https''}) pre"
    "has_flag s NGHTTP2_HTTP_FLAG_PSEUDO_HEADER_DISALLOWED \<longleftrightarrow> list_ex (\<lambda>f. \<not> pseudo f) pre"
    "has_flag s NGHTTP2_HTTP_FLAG_EXPECT_FINAL_RESPONSE \<longleftrightarrow> list_ex (\<lambda>f. False) pre"
    by (rule b)+
qed

lemma field_now_inv:
  assumes "msg_inv cx pre s"
  shows "field_now cp s f \<longleftrightarrow> field_rule cp f \<and> list_all (\<lambda>n. named f n \<longrightarrow> \<not> list_ex (kept cx n) pre) single_names"
proof -
  note fl = msg_inv_flags [OF assms]
  have c: "content_length s = -1 \<longleftrightarrow> \<not> list_ex (kept cx ''content-length'') pre" using assms unfolding msg_inv_def by blast
  consider "named f '':authority''" | "named f '':method''" | "named f '':path''" | "named f '':scheme''" | "named f '':protocol''" | "named f ''host''"
    | "\<not> list_ex (named f) once_names" by (auto simp: once_names_def)
  then show ?thesis
    by cases (simp_all add: field_now_def single_names_def once_names_def once_flag_def fl c named_def)
qed

text \<open>The fields of a section, up to the first that is an error.\<close>

fun receive_fields :: "http_ctx \<Rightarrow> nghttp2_stream \<Rightarrow> nghttp2_hd_nv list \<Rightarrow> (rc \<times> nghttp2_stream) option" where
  "receive_fields cx s [] = Some (0, s)"
| "receive_fields cx s (f # fs) =
     do { (rv, s) \<leftarrow> nghttp2_http_on_header (cx_session cx) s (cx_fhd cx) f False;
          if rv = 0 \<or> rv = NGHTTP2_ERR_IGN_HTTP_HEADER then receive_fields cx s fs else Some (rv, s) }"

fun fields_after :: "http_ctx \<Rightarrow> nghttp2_hd_nv list \<Rightarrow> nghttp2_hd_nv list \<Rightarrow> bool" where
  "fields_after cx pre [] \<longleftrightarrow> True"
| "fields_after cx pre (f # fs) \<longleftrightarrow> field_after cx pre f \<and> fields_after cx (pre @ [f]) fs"

lemma on_header_step:
  assumes "msg_inv cx pre s" "token_ok f" "hs_server (cx_session cx)"
  obtains rv s' where "nghttp2_http_on_header (cx_session cx) s (cx_fhd cx) f False = Some (rv, s')"
    "rv = 0 \<or> rv = NGHTTP2_ERR_IGN_HTTP_HEADER \<longleftrightarrow> field_after cx pre f" "field_after cx pre f \<Longrightarrow> msg_inv cx (pre @ [f]) s'"
proof -
  have o: "odd (stream_id s)" "flags s = flags (cx_stream cx)" using assms(1) by (simp_all add: msg_inv_def)
  have p: "(pseudo f \<longrightarrow> \<not> has_flag s NGHTTP2_HTTP_FLAG_PSEUDO_HEADER_DISALLOWED) \<longleftrightarrow> (pseudo f \<longrightarrow> list_all pseudo pre)"
    unfolding msg_inv_flags(12) [OF assms(1)] by (auto simp: list_ex_iff list_all_iff)
  obtain rv s' where r: "nghttp2_http_on_header (cx_session cx) s (cx_fhd cx) f False = Some (rv, s')"
    "rv \<in> {0, NGHTTP2_ERR_IGN_HTTP_HEADER} \<longleftrightarrow> dropped cx f \<or> well_formed cx f \<and> (pseudo f \<longrightarrow> list_all pseudo pre) \<and>
        field_rule (cx_cp cx) f \<and> list_all (\<lambda>n. named f n \<longrightarrow> \<not> list_ex (kept cx n) pre) single_names"
    "flags s' = flags s" "stream_id s' = stream_id s \<and> recv_content_length s' = recv_content_length s"
    "rv \<in> {0, NGHTTP2_ERR_IGN_HTTP_HEADER} \<longrightarrow> msg_flags s' = msg_flags s OR contrib cx f \<and>
        content_length s' = (if named f ''content-length'' \<and> \<not> dropped cx f then dec_value 0 (hd_value f) else content_length s)"
    using on_header_result [OF assms(2) o(1) assms(3) o(2)] unfolding field_result_def field_now_inv [OF assms(1)] p by blast
  have fa: "rv = 0 \<or> rv = NGHTTP2_ERR_IGN_HTTP_HEADER \<longleftrightarrow> field_after cx pre f" using r(2) by (auto simp: field_after_def)
  have "msg_inv cx (pre @ [f]) s'" if f: "field_after cx pre f"
  proof -
    have "dec_value 0 (hd_value f) \<noteq> -1" if "kept cx ''content-length'' f"
      using f that dec_value_mono [of 0 "hd_value f"] by (auto simp: field_after_def kept_def field_rule_def)
    then have "content_length s' = -1 \<longleftrightarrow> \<not> list_ex (kept cx ''content-length'') (pre @ [f])"
      using assms(1) [unfolded msg_inv_def, THEN conjunct2, THEN conjunct2, THEN conjunct2, THEN conjunct1] r(5) fa f by (auto simp: kept_def)
    moreover have "content_length s' = declared cx (pre @ [f])"
    proof (cases "kept cx ''content-length'' f")
      case True
      then have "\<not> list_ex (kept cx ''content-length'') pre" using f by (auto simp: field_after_def kept_def single_names_def)
      then have "find (kept cx ''content-length'') pre = None" by (simp add: find_None_iff list_ex_iff)
      then show ?thesis using True r(5) fa f by (auto simp: declared_def find_snoc kept_def)
    next
      case False
      then show ?thesis using assms(1) r(5) fa f by (auto simp: declared_def find_snoc kept_def msg_inv_def split: option.splits)
    qed
    ultimately show ?thesis using assms(1) r(3,4,5) fa f unfolding msg_inv_def by simp
  qed
  then show thesis using that r(1) fa by blast
qed

lemma receive_fields_iff:
  assumes "msg_inv cx pre s" "list_all token_ok fs" "hs_server (cx_session cx)"
  shows "\<exists>rv s'. receive_fields cx s fs = Some (rv, s') \<and> (rv = 0 \<longleftrightarrow> fields_after cx pre fs) \<and> (rv = 0 \<longrightarrow> msg_inv cx (pre @ fs) s')"
  using assms(1,2)
proof (induction fs arbitrary: pre s)
  case (Cons f fs)
  obtain rv s' where r: "nghttp2_http_on_header (cx_session cx) s (cx_fhd cx) f False = Some (rv, s')"
    "rv = 0 \<or> rv = NGHTTP2_ERR_IGN_HTTP_HEADER \<longleftrightarrow> field_after cx pre f" "field_after cx pre f \<Longrightarrow> msg_inv cx (pre @ [f]) s'"
    using on_header_step [of cx pre s f] Cons.prems assms(3) by auto
  show ?case
  proof (cases "field_after cx pre f")
    case True
    then show ?thesis using r Cons.IH [of "pre @ [f]" s'] Cons.prems(2) by simp
  next
    case False
    then show ?thesis using r by simp
  qed
qed simp

text \<open>The rules for a field section as a whole.\<close>

definition section_ok :: "http_ctx \<Rightarrow> nghttp2_hd_nv list \<Rightarrow> bool" where
  "section_ok cx fs \<longleftrightarrow>
     list_all (\<lambda>f. dropped cx f \<or> well_formed cx f \<and> field_rule (cx_cp cx) f) fs \<and>
     sorted_wrt (\<lambda>f g. pseudo g \<longrightarrow> pseudo f) fs \<and>
     list_all (\<lambda>n. length (filter (kept cx n) fs) \<le> 1) single_names"

lemma fields_after_snoc: "fields_after cx pre (fs @ [f]) \<longleftrightarrow> fields_after cx pre fs \<and> field_after cx (pre @ fs) f"
  by (induction fs arbitrary: pre) simp_all

lemma filter_snoc_1: "length (filter P (xs @ [x])) \<le> 1 \<longleftrightarrow> length (filter P xs) \<le> 1 \<and> (P x \<longrightarrow> \<not> list_ex P xs)"
  by (auto simp: list_ex_iff filter_empty_conv)

lemma fields_after_section: "fields_after cx [] fs \<longleftrightarrow> section_ok cx fs"
proof (induction fs rule: rev_induct)
  case (snoc f fs)
  have "fields_after cx [] (fs @ [f]) \<longleftrightarrow> section_ok cx fs \<and> field_after cx fs f" using snoc fields_after_snoc [of cx "[]" fs f] by simp
  also have "\<dots> \<longleftrightarrow> section_ok cx (fs @ [f])"
  proof (cases "dropped cx f")
    case True
    then have "\<not> pseudo f" "\<And>n. \<not> kept cx n f" by (simp_all add: dropped_def kept_def)
    then show ?thesis using True by (simp add: section_ok_def field_after_def sorted_wrt_append)
  next
    case False
    then have k: "kept cx n f \<longleftrightarrow> named f n" for n by (simp add: kept_def)
    show ?thesis unfolding section_ok_def field_after_def filter_snoc_1 k using False
      by (auto simp: sorted_wrt_append list_all_iff)
  qed
  finally show ?case .
qed (simp add: section_ok_def list_all_iff)

text \<open>The value of a field that occurs at most once.\<close>

definition field_value :: "http_ctx \<Rightarrow> nghttp2_hd_nv list \<Rightarrow> string \<Rightarrow> bytes option" where
  "field_value cx fs n = map_option hd_value (find (kept cx n) fs)"

lemma field_value_some: "field_value cx fs n \<noteq> None \<longleftrightarrow> list_ex (kept cx n) fs"
  by (auto simp: field_value_def find_None_iff list_ex_iff)

lemma field_value_ex:
  "length (filter (kept cx n) fs) \<le> 1 \<Longrightarrow>
   list_ex (\<lambda>f. kept cx n f \<and> P (hd_value f)) fs \<longleftrightarrow> (case field_value cx fs n of None \<Rightarrow> False | Some v \<Rightarrow> P v)"
proof (induction fs)
  case (Cons f fs)
  show ?case
  proof (cases "kept cx n f")
    case True
    then have "\<not> list_ex (kept cx n) fs" using Cons.prems by (auto simp: list_ex_iff filter_empty_conv)
    then have "\<not> list_ex (\<lambda>f. kept cx n f \<and> P (hd_value f)) fs" by (auto simp: list_ex_iff)
    then show ?thesis using True by (simp add: field_value_def)
  next
    case False
    then show ?thesis using Cons by (simp add: field_value_def)
  qed
qed (simp add: field_value_def)

definition request_ok :: "http_ctx \<Rightarrow> nghttp2_hd_nv list \<Rightarrow> bool" where
  "request_ok cx fs \<longleftrightarrow> section_ok cx fs \<and>
     (let val = field_value cx fs;
          connect = (val '':method'' = Some (ascii ''CONNECT''))
      in if connect \<and> val '':protocol'' = None
         then val '':scheme'' = None \<and> val '':path'' = None \<and> val '':authority'' \<noteq> None
         else val '':method'' \<noteq> None \<and> val '':path'' \<noteq> None \<and> val '':scheme'' \<noteq> None \<and>
              (val '':authority'' \<noteq> None \<or> val ''host'' \<noteq> None) \<and>
              (val '':protocol'' \<noteq> None \<longrightarrow> connect \<and> val '':authority'' \<noteq> None) \<and>
              (map downcase (the (val '':scheme'')) \<in> {ascii ''http'', ascii ''https''} \<longrightarrow>
                 byte0 (the (val '':path'')) = 0x2f \<or>
                 val '':method'' = Some (ascii ''OPTIONS'') \<and> val '':path'' = Some (ascii ''*'')))"

definition receive_request :: "http_ctx \<Rightarrow> nghttp2_hd_nv list \<Rightarrow> (rc \<times> nghttp2_stream) option" where
  "receive_request cx fs =
     do { (rv, s) \<leftarrow> receive_fields cx (cx_stream cx) fs;
          if rv \<noteq> 0 then Some (rv, s) else Some (nghttp2_http_on_request_headers s (cx_fhd cx)) }"

lemma has_flag_or: "has_flag s (F OR G) \<longleftrightarrow> has_flag s F \<or> has_flag s G"
  by (simp add: has_flag_def bit.conj_disj_distrib or_eq_0_iff)

lemma req_headers: "http_flags s AND NGHTTP2_HTTP_FLAG_REQ_HEADERS = NGHTTP2_HTTP_FLAG_REQ_HEADERS \<longleftrightarrow>
  has_flag s NGHTTP2_HTTP_FLAG__METHOD \<and> has_flag s NGHTTP2_HTTP_FLAG__PATH \<and> has_flag s NGHTTP2_HTTP_FLAG__SCHEME"
proof -
  have b: "has_flag s (2 ^ k) \<longleftrightarrow> bit (http_flags s) k" for k by (simp add: has_flag_def and_exp_eq_0_iff_not_bit)
  have p: "bit (2 ^ j :: u32) k \<longleftrightarrow> k = j" if "j < 32" for j k using that by (auto simp: bit_exp_iff)
  have e: "bit NGHTTP2_HTTP_FLAG_REQ_HEADERS k \<longleftrightarrow> k = 2 \<or> k = 1 \<or> k = 3" for k
    unfolding NGHTTP2_HTTP_FLAG_REQ_HEADERS_def http_flag_defs using p [of 1 k] p [of 2 k] p [of 3 k] by (simp only: bit_or_iff)
  have "http_flags s AND NGHTTP2_HTTP_FLAG_REQ_HEADERS = NGHTTP2_HTTP_FLAG_REQ_HEADERS \<longleftrightarrow>
      (\<forall>k. bit NGHTTP2_HTTP_FLAG_REQ_HEADERS k \<longrightarrow> bit (http_flags s) k)"
  proof
    assume "http_flags s AND NGHTTP2_HTTP_FLAG_REQ_HEADERS = NGHTTP2_HTTP_FLAG_REQ_HEADERS"
    then show "\<forall>k. bit NGHTTP2_HTTP_FLAG_REQ_HEADERS k \<longrightarrow> bit (http_flags s) k" by (metis bit_and_iff)
  next
    assume "\<forall>k. bit NGHTTP2_HTTP_FLAG_REQ_HEADERS k \<longrightarrow> bit (http_flags s) k"
    then show "http_flags s AND NGHTTP2_HTTP_FLAG_REQ_HEADERS = NGHTTP2_HTTP_FLAG_REQ_HEADERS"
      by (intro bit_word_eqI) (auto simp: bit_and_iff)
  qed
  then show ?thesis unfolding http_flag_defs b e by auto
qed

lemma on_request_headers_iff:
  assumes "msg_inv cx fs s" "section_ok cx fs"
  shows "fst (nghttp2_http_on_request_headers s fhd) = 0 \<longleftrightarrow> request_ok cx fs"
proof -
  let ?val = "field_value cx fs"
  have u: "length (filter (kept cx n) fs) \<le> 1" if "n \<in> set single_names" for n
    using assms(2) that by (simp add: section_ok_def list_all_iff)
  note ex = u [THEN field_value_ex]
  have n: "'':method'' \<in> set single_names" "'':path'' \<in> set single_names" "'':scheme'' \<in> set single_names"
    by (simp_all add: single_names_def once_names_def)
  note fl = msg_inv_flags [OF assms(1), folded field_value_some]
  have m: "has_flag s NGHTTP2_HTTP_FLAG_METH_CONNECT \<longleftrightarrow> ?val '':method'' = Some (ascii ''CONNECT'')"
    "has_flag s NGHTTP2_HTTP_FLAG_METH_OPTIONS \<longleftrightarrow> ?val '':method'' = Some (ascii ''OPTIONS'')"
    unfolding fl ex [OF n(1), of "\<lambda>v. v = ascii ''CONNECT''"] ex [OF n(1), of "\<lambda>v. v = ascii ''OPTIONS''"] by (auto split: option.splits simp del: ascii_simps)
  have p: "has_flag s NGHTTP2_HTTP_FLAG_PATH_REGULAR \<longleftrightarrow> ?val '':path'' \<noteq> None \<and> byte0 (the (?val '':path'')) = 0x2f"
    "has_flag s NGHTTP2_HTTP_FLAG_PATH_ASTERISK \<longleftrightarrow> ?val '':path'' = Some (ascii ''*'')"
    unfolding fl ex [OF n(2), of "\<lambda>v. byte0 v = 0x2f"] ex [OF n(2), of "\<lambda>v. v = ascii ''*''"] by (auto split: option.splits simp del: ascii_simps)
  have h: "has_flag s NGHTTP2_HTTP_FLAG_SCHEME_HTTP \<longleftrightarrow>
      ?val '':scheme'' \<noteq> None \<and> map downcase (the (?val '':scheme'')) \<in> {ascii ''http'', ascii ''https''}"
    unfolding fl ex [OF n(3), of "\<lambda>v. map downcase v \<in> {ascii ''http'', ascii ''https''}"] by (auto split: option.splits simp del: ascii_simps)
  show ?thesis
    unfolding nghttp2_http_on_request_headers_def request_ok_def Let_def has_flag_or req_headers check_path_def fl(1-6) m p h
    using assms(2) by (auto simp del: ascii_simps)
qed

lemma connect_flag:
  assumes "msg_inv cx fs s" "section_ok cx fs"
  shows "\<not> has_flag s NGHTTP2_HTTP_FLAG__PROTOCOL \<and> has_flag s NGHTTP2_HTTP_FLAG_METH_CONNECT \<longleftrightarrow>
    field_value cx fs '':method'' = Some (ascii ''CONNECT'') \<and> field_value cx fs '':protocol'' = None"
proof -
  have "length (filter (kept cx '':method'') fs) \<le> 1" using assms(2) by (simp add: section_ok_def single_names_def once_names_def)
  from field_value_ex [OF this, of "\<lambda>v. v = ascii ''CONNECT''"] show ?thesis
    using msg_inv_flags(5,7) [OF assms(1)] field_value_some [of cx fs "'':protocol''"] by (auto split: option.splits simp del: ascii_simps)
qed

text \<open>The stream after an accepted field section that does not belong to a PUSH_PROMISE.\<close>

lemma on_request_headers_stream:
  assumes "fst (nghttp2_http_on_request_headers s fhd) = 0" "fh_type fhd \<noteq> NGHTTP2_PUSH_PROMISE"
  shows "snd (nghttp2_http_on_request_headers s fhd) =
    (if \<not> has_flag s NGHTTP2_HTTP_FLAG__PROTOCOL \<and> has_flag s NGHTTP2_HTTP_FLAG_METH_CONNECT then s\<lparr>content_length := -1\<rparr> else s)"
  using assms by (auto simp: nghttp2_http_on_request_headers_def Let_def split: if_splits)

definition fresh_request :: "http_ctx \<Rightarrow> bool" where
  "fresh_request cx \<longleftrightarrow> hs_server (cx_session cx) \<and> fh_type (cx_fhd cx) = NGHTTP2_HEADERS \<and> http_flags (cx_stream cx) = 0 \<and>
     content_length (cx_stream cx) = -1 \<and> recv_content_length (cx_stream cx) = 0 \<and> odd (stream_id (cx_stream cx))"

lemma receive_request_iff:
  assumes "fresh_request cx" "list_all token_ok fs"
  shows "\<exists>rv s. receive_request cx fs = Some (rv, s) \<and> (rv = 0 \<longleftrightarrow> request_ok cx fs) \<and>
    (rv = 0 \<longrightarrow> \<not> has_flag s NGHTTP2_HTTP_FLAG_EXPECT_FINAL_RESPONSE \<and> recv_content_length s = 0 \<and>
       content_length s = (if field_value cx fs '':method'' = Some (ascii ''CONNECT'') \<and> field_value cx fs '':protocol'' = None then -1 else declared cx fs))"
proof -
  have "msg_inv cx [] (cx_stream cx)" using assms(1) by (simp add: fresh_request_def msg_inv_def msg_flags_def declared_def)
  moreover have "hs_server (cx_session cx)" using assms(1) by (simp add: fresh_request_def)
  ultimately obtain rv s where r: "receive_fields cx (cx_stream cx) fs = Some (rv, s)" "rv = 0 \<longleftrightarrow> section_ok cx fs" "rv = 0 \<longrightarrow> msg_inv cx fs s"
    using receive_fields_iff [OF _ assms(2), of cx "[]" "cx_stream cx"] fields_after_section by auto
  show ?thesis
  proof (cases "rv = 0")
    case True
    then have inv: "msg_inv cx fs s" "section_ok cx fs" using r by simp_all
    obtain rv' s' where h: "nghttp2_http_on_request_headers s (cx_fhd cx) = (rv', s')" by fastforce
    have "fh_type (cx_fhd cx) \<noteq> NGHTTP2_PUSH_PROMISE" using assms(1) by (simp add: fresh_request_def NGHTTP2_HEADERS_def NGHTTP2_PUSH_PROMISE_def)
    then have "s' = (if field_value cx fs '':method'' = Some (ascii ''CONNECT'') \<and> field_value cx fs '':protocol'' = None then s\<lparr>content_length := -1\<rparr> else s)" if "rv' = 0"
      using on_request_headers_stream [of s "cx_fhd cx"] h that unfolding connect_flag [OF inv] by simp
    moreover have "\<not> has_flag s NGHTTP2_HTTP_FLAG_EXPECT_FINAL_RESPONSE" "recv_content_length s = 0" "content_length s = declared cx fs"
      using msg_inv_flags(13) [OF inv(1)] inv(1) assms(1) by (auto simp: msg_inv_def fresh_request_def list_ex_iff)
    ultimately show ?thesis using True r(1) h on_request_headers_iff [OF inv, of "cx_fhd cx"]
      by (simp add: receive_request_def has_flag_def del: ascii_simps)
  next
    case False
    then show ?thesis using r by (simp add: receive_request_def request_ok_def)
  qed
qed

subsection \<open>Bodies\<close>

text \<open>The chunks of a body up to the first that is refused, and then the end of the stream.\<close>

fun receive_body :: "nghttp2_stream \<Rightarrow> nat list \<Rightarrow> (rc \<times> nghttp2_stream) option" where
  "receive_body s [] = Some (nghttp2_http_on_remote_end_stream s, s)"
| "receive_body s (n # ns) =
     do { (rv, s) \<leftarrow> nghttp2_http_on_data_chunk s n; if rv \<noteq> 0 then Some (rv, s) else receive_body s ns }"

lemma receive_body_iff:
  "\<not> has_flag s NGHTTP2_HTTP_FLAG_EXPECT_FINAL_RESPONSE \<Longrightarrow> 0 \<le> recv_content_length s \<Longrightarrow>
   recv_content_length s + int (sum_list ns) \<le> INT64_MAX \<Longrightarrow> content_length s = -1 \<or> recv_content_length s \<le> content_length s \<Longrightarrow>
   \<exists>rv s'. receive_body s ns = Some (rv, s') \<and>
     (rv = 0 \<longleftrightarrow> content_length s = -1 \<or> content_length s = recv_content_length s + int (sum_list ns))"
proof (induction ns arbitrary: s)
  case Nil
  then show ?case by (simp add: nghttp2_http_on_remote_end_stream_def)
next
  case (Cons n ns)
  let ?r = "recv_content_length s + int n" and ?s = "s\<lparr>recv_content_length := recv_content_length s + int n\<rparr>"
  have i: "i64 (int n) = Some (int n)" "i64 ?r = Some ?r" using Cons.prems(2,3) by (auto simp: i64_def INT64_MAX_def)
  have f: "\<not> has_flag ?s NGHTTP2_HTTP_FLAG_EXPECT_FINAL_RESPONSE" using Cons.prems(1) by (simp add: has_flag_def)
  have d: "nghttp2_http_on_data_chunk s n = Some (if content_length s \<noteq> -1 \<and> ?r > content_length s then (-1, ?s) else (0, ?s))"
    using i f by (simp add: nghttp2_http_on_data_chunk_def)
  show ?case
  proof (cases "content_length s \<noteq> -1 \<and> ?r > content_length s")
    case True
    then show ?thesis using d by simp
  next
    case False
    then show ?thesis using d Cons.IH [OF f] Cons.prems(2,3) by (auto simp: add.assoc)
  qed
qed

definition receive_message :: "http_ctx \<Rightarrow> nghttp2_hd_nv list \<Rightarrow> nat list \<Rightarrow> (rc \<times> nghttp2_stream) option" where
  "receive_message cx fs ns =
     do { (rv, s) \<leftarrow> receive_request cx fs; if rv \<noteq> 0 then Some (rv, s) else receive_body s ns }"

text \<open>The body that a request announces: a plain CONNECT has no length.\<close>

definition body_ok :: "http_ctx \<Rightarrow> nghttp2_hd_nv list \<Rightarrow> nat \<Rightarrow> bool" where
  "body_ok cx fs len \<longleftrightarrow>
     field_value cx fs '':method'' = Some (ascii ''CONNECT'') \<and> field_value cx fs '':protocol'' = None \<or>
     (case field_value cx fs ''content-length'' of None \<Rightarrow> True | Some v \<Rightarrow> dec_value 0 v = int len)"

lemma declared_value: "declared cx fs = (case field_value cx fs ''content-length'' of None \<Rightarrow> -1 | Some v \<Rightarrow> dec_value 0 v)"
  by (simp add: declared_def field_value_def split: option.splits)

lemma declared_nonneg:
  assumes "section_ok cx fs"
  shows "declared cx fs = -1 \<and> field_value cx fs ''content-length'' = None \<or> 0 \<le> declared cx fs \<and> field_value cx fs ''content-length'' \<noteq> None"
proof (cases "find (kept cx ''content-length'') fs")
  case None
  then show ?thesis by (simp add: declared_def field_value_def)
next
  case (Some f)
  then have f: "f \<in> set fs" "kept cx ''content-length'' f" by (auto simp: find_Some_iff)
  then have "list_all DIGIT_CASES (hd_value f)" using assms by (auto simp: section_ok_def list_all_iff kept_def field_rule_def)
  then show ?thesis using Some dec_value_mono [of 0 "hd_value f"] by (simp add: declared_def field_value_def)
qed

subsection \<open>Properties\<close>

text \<open>
  C11.  A request that a server receives on a fresh stream, fields and body, is accepted exactly when
  it is well formed in the sense of RFC 9113, section 8: no pseudo-header field after a regular one;
  only known pseudo-header fields, with a value; none of them, host or content-length twice; no
  connection-specific field, and te only for trailers; \<open>:method\<close>, \<open>:path\<close> and \<open>:scheme\<close> present with
  an authority, or only \<open>:authority\<close> for CONNECT, or the extended form of CONNECT with \<open>:protocol\<close> when
  it is enabled; a path that starts with a slash, or the asterisk of OPTIONS, for http and https;
  and a body whose length is the one that content-length declares.  A regular field with an illegal
  name or value does not count, and no input makes the code overflow or abort.
\<close>

theorem request_accepted_iff:
  assumes "fresh_request cx" "list_all token_ok fs" "int (sum_list ns) \<le> INT64_MAX"
  shows "\<exists>rv s. receive_message cx fs ns = Some (rv, s) \<and> (rv = 0 \<longleftrightarrow> request_ok cx fs \<and> body_ok cx fs (sum_list ns))"
proof -
  let ?c = "field_value cx fs '':method'' = Some (ascii ''CONNECT'') \<and> field_value cx fs '':protocol'' = None"
  obtain rv s where r: "receive_request cx fs = Some (rv, s)" "rv = 0 \<longleftrightarrow> request_ok cx fs"
    "rv = 0 \<longrightarrow> \<not> has_flag s NGHTTP2_HTTP_FLAG_EXPECT_FINAL_RESPONSE \<and> recv_content_length s = 0 \<and> content_length s = (if ?c then -1 else declared cx fs)"
    using receive_request_iff [OF assms(1,2)] by blast
  show ?thesis
  proof (cases "rv = 0")
    case True
    have d: "declared cx fs = -1 \<and> field_value cx fs ''content-length'' = None \<or> 0 \<le> declared cx fs \<and> field_value cx fs ''content-length'' \<noteq> None"
      using r(2) True declared_nonneg [of cx fs] by (auto simp: request_ok_def)
    have "content_length s = -1 \<or> recv_content_length s \<le> content_length s" using r(3) True d by auto
    then obtain rv' s' where "receive_body s ns = Some (rv', s')" "rv' = 0 \<longleftrightarrow> content_length s = -1 \<or> content_length s = int (sum_list ns)"
      using receive_body_iff [of s ns] r(3) True assms(3) by auto
    moreover have "content_length s = -1 \<or> content_length s = int (sum_list ns) \<longleftrightarrow> body_ok cx fs (sum_list ns)"
      using r(3) True d declared_value [of cx fs] by (auto simp: body_ok_def simp del: ascii_simps)
    ultimately show ?thesis using r(1,2) True by (simp add: receive_message_def)
  qed (use r in \<open>simp add: receive_message_def\<close>)
qed

text \<open>Witness: a GET with a body of five bytes, announced.\<close>

definition sample_field :: "string \<Rightarrow> string \<Rightarrow> nghttp2_hd_nv" where
  "sample_field n v = \<lparr>hd_name = ascii n, hd_value = ascii v, hd_token = lookup_token (ascii n), hd_flags = 0\<rparr>"

definition sample_fields :: "nghttp2_hd_nv list" where
  "sample_fields = [sample_field '':method'' ''GET'', sample_field '':scheme'' ''https'', sample_field '':path'' ''/'',
     sample_field '':authority'' ''a.b'', sample_field ''content-length'' ''5'']"

definition sample_ctx :: http_ctx where
  "sample_ctx = \<lparr>cx_session = \<lparr>hs_server = True, hs_pending_enable_connect_protocol = False\<rparr>,
     cx_stream = nghttp2_stream_init (\<lambda>_. 0) 1 0 NGHTTP2_STREAM_OPENED 16 65535 65535 0, cx_fhd = nghttp2_frame_hd_init 0 NGHTTP2_HEADERS 4 1\<rparr>"

theorem request_accepted_iff_witness:
  "(\<exists>s. receive_message sample_ctx sample_fields [2, 3] = Some (0, s)) \<and>
   (\<exists>rv s. receive_message sample_ctx (sample_field ''te'' ''trailers'' # sample_fields) [2, 3] = Some (rv, s) \<and> rv \<noteq> 0)"
proof -
  have fr: "fresh_request sample_ctx" by code_simp
  have tok: "list_all token_ok sample_fields" "list_all token_ok (sample_field ''te'' ''trailers'' # sample_fields)" by code_simp+
  have ok: "request_ok sample_ctx sample_fields" "body_ok sample_ctx sample_fields 5" by code_simp+
  have bad: "\<not> request_ok sample_ctx (sample_field ''te'' ''trailers'' # sample_fields)" by code_simp
  have l: "int (sum_list [2, 3]) \<le> INT64_MAX" "sum_list [2, 3] = (5 :: nat)" by (simp_all add: INT64_MAX_def)
  show ?thesis
    using request_accepted_iff [OF fr tok(1) l(1)] request_accepted_iff [OF fr tok(2) l(1)] ok bad unfolding l(2) by blast
qed

text \<open>
  C16.  Once the fields of a response with a status are complete, exactly these bodies are accepted:
  none at all, not even an empty one, after an interim status, since the final response is still to
  come; only the empty one for HEAD, 204 and 304; any for CONNECT; and otherwise one whose length is
  what content-length declared, if it did.
\<close>

theorem response_body_rule:
  assumes "has_flag s NGHTTP2_HTTP_FLAG__STATUS" "recv_content_length s = 0" "-1 \<le> content_length s" "int (sum_list ns) \<le> INT64_MAX"
  shows "\<exists>s' rv t. nghttp2_http_on_response_headers s = (0, s') \<and> receive_body s' ns = Some (rv, t) \<and>
    (rv = 0 \<longleftrightarrow>
       (if status_code s sdiv 100 = 1 then False
        else if has_flag s NGHTTP2_HTTP_FLAG_METH_HEAD \<or> status_code s = 304 \<or> status_code s = 204 then sum_list ns = 0
        else has_flag s NGHTTP2_HTTP_FLAG_METH_CONNECT \<or> has_flag s NGHTTP2_HTTP_FLAG_METH_UPGRADE_WORKAROUND \<or>
             content_length s = -1 \<or> content_length s = int (sum_list ns)))"
proof (cases "status_code s sdiv 100 = 1")
  case True
  let ?s = "s\<lparr>http_flags := (http_flags s AND NGHTTP2_HTTP_FLAG_METH_ALL) OR NGHTTP2_HTTP_FLAG_EXPECT_FINAL_RESPONSE, content_length := -1, status_code := -1\<rparr>"
  have f: "has_flag (?s\<lparr>recv_content_length := r\<rparr>) NGHTTP2_HTTP_FLAG_EXPECT_FINAL_RESPONSE" "has_flag ?s NGHTTP2_HTTP_FLAG_EXPECT_FINAL_RESPONSE" for r
    by (simp_all add: has_flag_def bit.conj_disj_distrib2 or_eq_0_iff NGHTTP2_HTTP_FLAG_EXPECT_FINAL_RESPONSE_def)
  have "\<exists>rv t. receive_body ?s ns = Some (rv, t) \<and> rv \<noteq> 0"
  proof (cases ns)
    case Nil
    then show ?thesis using f(2) by (simp add: nghttp2_http_on_remote_end_stream_def)
  next
    case (Cons n ms)
    then have "i64 (int n) = Some (int n)" using assms(4) by (simp add: i64_def INT64_MAX_def)
    then show ?thesis using Cons f(1) [of "int n"] assms(2) by (simp add: nghttp2_http_on_data_chunk_def)
  qed
  then show ?thesis using True assms(1) by (simp add: nghttp2_http_on_response_headers_def)
next
  case False
  let ?t = "s\<lparr>http_flags := http_flags s AND NOT NGHTTP2_HTTP_FLAG_EXPECT_FINAL_RESPONSE\<rparr>"
  let ?empty = "has_flag s NGHTTP2_HTTP_FLAG_METH_HEAD \<or> status_code s = 304 \<or> status_code s = 204"
  let ?any = "has_flag s NGHTTP2_HTTP_FLAG_METH_CONNECT \<or> has_flag s NGHTTP2_HTTP_FLAG_METH_UPGRADE_WORKAROUND"
  let ?s = "?t\<lparr>content_length := (if ?empty then 0 else if ?any then -1 else content_length s)\<rparr>"
  have m: "NOT NGHTTP2_HTTP_FLAG_EXPECT_FINAL_RESPONSE AND F = F"
    if "F = NGHTTP2_HTTP_FLAG_METH_HEAD \<or> F = NGHTTP2_HTTP_FLAG_METH_CONNECT \<or> F = NGHTTP2_HTTP_FLAG_METH_UPGRADE_WORKAROUND" for F
    using that by (elim disjE) (simp_all add: http_flag_defs)
  have h: "has_flag ?t F \<longleftrightarrow> has_flag s F"
    if "F = NGHTTP2_HTTP_FLAG_METH_HEAD \<or> F = NGHTTP2_HTTP_FLAG_METH_CONNECT \<or> F = NGHTTP2_HTTP_FLAG_METH_UPGRADE_WORKAROUND" for F
    using m [OF that] by (simp add: has_flag_def and.assoc)
  define u where "u = ?s"
  have h: "nghttp2_http_on_response_headers s = (0, u)"
    using False assms(1) by (simp add: u_def nghttp2_http_on_response_headers_def expect_response_body_def Let_def has_flag_or h)
  have f: "\<not> has_flag u NGHTTP2_HTTP_FLAG_EXPECT_FINAL_RESPONSE" by (simp add: u_def has_flag_def and.assoc)
  have c: "content_length u = (if ?empty then 0 else if ?any then -1 else content_length s)" "recv_content_length u = 0"
    using assms(2) by (simp_all add: u_def)
  have "content_length u = -1 \<or> 0 \<le> content_length u" using c(1) assms(3) by auto
  then obtain rv t where r: "receive_body u ns = Some (rv, t)" "rv = 0 \<longleftrightarrow> content_length u = -1 \<or> content_length u = int (sum_list ns)"
    using receive_body_iff [OF f, of ns] c(2) assms(4) by auto
  show ?thesis unfolding h using False r c(1) by (intro exI [of _ u] exI [of _ rv] exI [of _ t]) auto
qed

text \<open>Witness: a 204 response refuses a body, whatever length it declared.\<close>

definition sample_response :: nghttp2_stream where
  "sample_response = (cx_stream sample_ctx)\<lparr>http_flags := NGHTTP2_HTTP_FLAG__STATUS, status_code := 204, content_length := 5\<rparr>"

theorem response_body_rule_witness:
  "\<exists>s' rv t. nghttp2_http_on_response_headers sample_response = (0, s') \<and> receive_body s' [5] = Some (rv, t) \<and> rv \<noteq> 0"
proof -
  have h: "has_flag sample_response NGHTTP2_HTTP_FLAG__STATUS" "recv_content_length sample_response = 0" "-1 \<le> content_length sample_response"
    "int (sum_list [5]) \<le> INT64_MAX" "status_code sample_response = 204" "\<not> (204 :: int) sdiv 100 = 1"
    by code_simp+
  show ?thesis using response_body_rule [OF h(1-4)] h(5,6) by auto
qed

text \<open>
  C15.  The priority header field: whatever its bytes, parsing returns success or
  \<open>NGHTTP2_ERR_INVALID_ARGUMENT\<close>, changes nothing on failure and keeps the urgency within its eight
  levels; and the serialisation of a dictionary gives the urgency and the incremental flag of its last
  members \<open>u\<close> and \<open>i\<close>, failing exactly when one of them has the wrong type or an urgency above 7.
\<close>

theorem priority_field_parsed:
  assumes "list_all member_ok ms" "urgency dest \<le> 7" "inc dest \<in> {0, 1}"
  shows "nghttp2_http_parse_priority dest (dict_bytes ms) =
      Some (case priority_of dest (map member_kv ms) of Some p \<Rightarrow> (0, p) | None \<Rightarrow> (NGHTTP2_ERR_INVALID_ARGUMENT, dest)) \<and>
    (\<exists>rv p. nghttp2_http_parse_priority dest value = Some (rv, p) \<and> (rv = 0 \<or> rv = NGHTTP2_ERR_INVALID_ARGUMENT \<and> p = dest) \<and>
       urgency p \<le> 7 \<and> inc p \<in> {0, 1})"
proof
  show "nghttp2_http_parse_priority dest (dict_bytes ms) =
      Some (case priority_of dest (map member_kv ms) of Some p \<Rightarrow> (0, p) | None \<Rightarrow> (NGHTTP2_ERR_INVALID_ARGUMENT, dest))"
    using parse_priority_yields [OF dict_yields [OF assms(1)], of dest] by (simp cong: option.case_cong)
next
  obtain kvs e where y: "yields sf_parser_dict (sf_parser_init value) kvs e" using sfd.init_iteration_ends [of "value"] by blast
  show "\<exists>rv p. nghttp2_http_parse_priority dest value = Some (rv, p) \<and> (rv = 0 \<or> rv = NGHTTP2_ERR_INVALID_ARGUMENT \<and> p = dest) \<and>
       urgency p \<le> 7 \<and> inc p \<in> {0, 1}"
    using parse_priority_yields [OF y, of dest] priority_of_range [OF _ assms(2,3)] assms(2,3)
    by (auto split: option.splits if_splits)
qed

text \<open>Witness: \<open>u=3, i;q="a\\"b"\<close> over the default priority.\<close>

theorem priority_field_parsed_witness:
  "nghttp2_http_parse_priority \<lparr>urgency = 1, inc = 0\<rparr> (dict_bytes sample_dict) = Some (0, \<lparr>urgency = 3, inc = 1\<rparr>)"
proof -
  have ok: "list_all member_ok sample_dict" by code_simp
  have kv: "map member_kv sample_dict = [(ascii ''u'', SF_TYPE_INTEGER 3), (ascii ''i'', SF_TYPE_BOOLEAN True)]"
    by (simp add: sample_dict_def member_kv_def)
  show ?thesis using priority_field_parsed [OF ok, of "\<lparr>urgency = 1, inc = 0\<rparr>"] unfolding kv by simp
qed

end
