(* ===== verification/Alpn.thy ===== *)
theory Alpn
  imports Prelude "HOL-Library.Monad_Syntax"
begin

text \<open>
  The choice of a protocol in \<open>nghttp2_alpn.c\<close>.  A protocol list is a sequence of names, each after a
  byte with its length; \<open>*out\<close> is a position in it.  The list is an extension of a TLS handshake, of
  at most 2^16 bytes, so the \<open>unsigned int\<close> index of the source never wraps and is a \<open>nat\<close>.
\<close>

definition NGHTTP2_PROTO_ALPN :: bytes where "NGHTTP2_PROTO_ALPN = 0x02 # ascii ''h2''"
definition NGHTTP2_HTTP_1_1_ALPN :: bytes where "NGHTTP2_HTTP_1_1_ALPN = 0x08 # ascii ''http/1.1''"

text \<open>The loop of \<open>select_alpn\<close> from the index \<open>i\<close>; the result is \<open>*out\<close> and \<open>*outlen\<close>.\<close>

function select_alpn :: "bytes \<Rightarrow> bytes \<Rightarrow> nat \<Rightarrow> (nat \<times> u8) option" where
  "select_alpn inp key i =
     (if i + length key \<le> length inp then
        if take (length key) (drop i inp) = key then Some (i + 1, inp ! i)
        else select_alpn inp key (i + (unat (inp ! i) + 1))
      else None)"
  by pat_completeness auto
termination
  by (relation "measure (\<lambda>(inp, key, i). Suc (length inp) - i)") auto

declare select_alpn.simps [simp del]

definition nghttp2_select_alpn :: "bytes \<Rightarrow> int \<times> (nat \<times> u8) option" where
  "nghttp2_select_alpn inp =
     (case select_alpn inp NGHTTP2_PROTO_ALPN 0 of
        Some out \<Rightarrow> (1, Some out)
      | None \<Rightarrow> (case select_alpn inp NGHTTP2_HTTP_1_1_ALPN 0 of Some out \<Rightarrow> (0, Some out) | None \<Rightarrow> (-1, None)))"

definition nghttp2_select_next_protocol :: "bytes \<Rightarrow> int \<times> (nat \<times> u8) option" where
  "nghttp2_select_next_protocol inp =
     (case select_alpn inp NGHTTP2_PROTO_ALPN 0 of
        Some out \<Rightarrow> (1, Some out)
      | None \<Rightarrow> (case select_alpn inp NGHTTP2_HTTP_1_1_ALPN 0 of Some out \<Rightarrow> (0, Some out) | None \<Rightarrow> (-1, None)))"

subsection \<open>Well-formed lists\<close>

definition proto_bytes :: "bytes list \<Rightarrow> bytes" where
  "proto_bytes ps = concat (map (\<lambda>p. of_nat (length p) # p) ps)"

definition protos_ok :: "bytes list \<Rightarrow> bool" where
  "protos_ok ps \<longleftrightarrow> list_all (\<lambda>p. p \<noteq> [] \<and> length p < 256) ps"

text \<open>The offset of the first occurrence of a name.\<close>

fun proto_at :: "bytes list \<Rightarrow> bytes \<Rightarrow> nat \<Rightarrow> nat option" where
  "proto_at [] n i = None"
| "proto_at (p # ps) n i = (if p = n then Some (i + 1) else proto_at ps n (i + length p + 1))"

lemma proto_bytes_simps [simp]: "proto_bytes [] = []" "proto_bytes (p # ps) = of_nat (length p) # p @ proto_bytes ps"
  by (simp_all add: proto_bytes_def)

lemma proto_at_None: "proto_at ps n i = None \<longleftrightarrow> n \<notin> set ps"
  by (induction ps arbitrary: i) auto

lemma proto_at_Some: "proto_at ps n i = Some j \<Longrightarrow> \<exists>pre post. ps = pre @ n # post \<and> n \<notin> set pre \<and> j = i + length (proto_bytes pre) + 1"
proof (induction ps arbitrary: i)
  case (Cons p ps)
  show ?case
  proof (cases "p = n")
    case True
    then show ?thesis using Cons.prems by (intro exI [of _ "[]"] exI [of _ ps]) simp
  next
    case False
    then obtain pre post where "ps = pre @ n # post" "n \<notin> set pre" "j = i + length p + 1 + length (proto_bytes pre) + 1"
      using Cons.IH [of "i + length p + 1"] Cons.prems False by auto
    then show ?thesis using False by (intro exI [of _ "p # pre"] exI [of _ post]) simp
  qed
qed simp

lemma proto_len: "length p < 256 \<Longrightarrow> unat (of_nat (length p) :: u8) = length p"
  by (simp add: unsigned_of_nat take_bit_nat_eq_self)

lemma select_alpn_list:
  "protos_ok ps \<Longrightarrow> protos_ok [n] \<Longrightarrow>
   select_alpn (pre @ proto_bytes ps) (of_nat (length n) # n) (length pre) = map_option (\<lambda>j. (j, of_nat (length n))) (proto_at ps n (length pre))"
proof (induction ps arbitrary: pre)
  case Nil
  then show ?case by (subst select_alpn.simps) simp
next
  case (Cons p ps)
  let ?pb = "of_nat (length p) # p" and ?key = "of_nat (length n) # n" and ?in = "pre @ proto_bytes (p # ps)"
  have l: "length p < 256" "length n < 256" using Cons.prems by (simp_all add: protos_ok_def)
  have at: "?in ! length pre = of_nat (length p)" "drop (length pre) ?in = ?pb @ proto_bytes ps" by simp_all
  show ?case
  proof (cases "p = n")
    case True
    then show ?thesis using at by (subst select_alpn.simps) simp
  next
    case False
    have ne: "take (length ?key) (?pb @ proto_bytes ps) \<noteq> ?key"
    proof
      assume a: "take (length ?key) (?pb @ proto_bytes ps) = ?key"
      then have "length p = length n" using proto_len [OF l(1)] proto_len [OF l(2)] by (metis append_Cons length_Cons list.inject take_Suc_Cons)
      then show False using a False by simp
    qed
    have "select_alpn ?in ?key (length pre) = select_alpn ((pre @ ?pb) @ proto_bytes ps) ?key (length (pre @ ?pb))"
    proof (cases "length pre + length ?key \<le> length ?in")
      case True
      then have "select_alpn ?in ?key (length pre) = select_alpn ?in ?key (length pre + (unat (?in ! length pre) + 1))"
        using ne at(2) by (subst select_alpn.simps) (simp only: if_True if_False)
      then show ?thesis using at(1) proto_len [OF l(1)] by simp
    next
      case F: False
      then have "\<not> length (pre @ ?pb) + length ?key \<le> length ((pre @ ?pb) @ proto_bytes ps)" by simp
      then show ?thesis using F by (subst (1 2) select_alpn.simps) (simp only: if_False)
    qed
    also have "\<dots> = map_option (\<lambda>j. (j, of_nat (length n))) (proto_at ps n (length (pre @ ?pb)))"
      using Cons.prems by (intro Cons.IH) (simp_all add: protos_ok_def)
    finally show ?thesis using False by (simp add: add.commute)
  qed
qed

text \<open>
  On every well-formed list the choice is \<open>h2\<close> when it is offered, otherwise \<open>http/1.1\<close> when that is,
  and the position is that of the first occurrence.
\<close>

lemma select_alpn_exact:
  assumes "protos_ok ps"
  shows "nghttp2_select_alpn (proto_bytes ps) =
    (if ascii ''h2'' \<in> set ps then (1, map_option (\<lambda>j. (j, 2)) (proto_at ps (ascii ''h2'') 0))
     else if ascii ''http/1.1'' \<in> set ps then (0, map_option (\<lambda>j. (j, 8)) (proto_at ps (ascii ''http/1.1'') 0))
     else (-1, None))"
proof -
  have k: "protos_ok [ascii ''h2'']" "protos_ok [ascii ''http/1.1'']" by (simp_all add: protos_ok_def)
  note s = select_alpn_list [OF assms k(1), of "[]"] select_alpn_list [OF assms k(2), of "[]"]
  have e: "NGHTTP2_PROTO_ALPN = of_nat (length (ascii ''h2'')) # ascii ''h2''" "NGHTTP2_HTTP_1_1_ALPN = of_nat (length (ascii ''http/1.1'')) # ascii ''http/1.1''"
    by (simp_all add: NGHTTP2_PROTO_ALPN_def NGHTTP2_HTTP_1_1_ALPN_def)
  show ?thesis unfolding nghttp2_select_alpn_def e using s
      proto_at_None [of ps "ascii ''h2''" 0] proto_at_None [of ps "ascii ''http/1.1''" 0]
    by (auto split: option.splits simp del: ascii_simps)
qed

end
