(* ===== verification/Rcbuf.thy ===== *)
theory Rcbuf
  imports Helper "HOL-Library.Monad_Syntax"
begin

text \<open>
  The reference counted buffers of \<open>nghttp2_rcbuf.c\<close> in a heap.  An access to a buffer that is not
  in the heap, a failed assertion and an overflow of the \<open>int32_t\<close> count are \<open>None\<close>.  The buffers of
  the static table have the count -1 and are never counted or released.  A discipline in which only
  owners take and give up references is a step relation; in its reachable states the count of every
  buffer is the number of its owners, so that no operation of an owner fails and a buffer is
  released exactly when its last owner gives it up.
\<close>

record nghttp2_rcbuf =
  rc_base :: bytes
  rc_len :: nat
  rc_ref :: int

type_synonym rc_heap = "nat \<rightharpoonup> nghttp2_rcbuf"

text \<open>The allocator chooses the address \<open>p\<close>, or fails; \<open>fill\<close> is what the fresh block holds.\<close>

definition rcbuf_new :: "nat option \<Rightarrow> bytes \<Rightarrow> nat \<Rightarrow> rc_heap \<Rightarrow> rc \<times> nat option \<times> rc_heap" where
  "rcbuf_new p fill n h =
     (case p of
        None \<Rightarrow> (NGHTTP2_ERR_NOMEM, None, h)
      | Some p \<Rightarrow> (0, Some p, h(p \<mapsto> \<lparr>rc_base = fill, rc_len = n, rc_ref = 1\<rparr>)))"

definition rcbuf_new2 :: "nat option \<Rightarrow> bytes \<Rightarrow> bytes \<Rightarrow> rc_heap \<Rightarrow> rc \<times> nat option \<times> rc_heap" where
  "rcbuf_new2 p fill src h =
     (case rcbuf_new p fill (length src + 1) h of
        (rv, p, h) \<Rightarrow>
          (case p of
             None \<Rightarrow> (rv, p, h)
           | Some q \<Rightarrow> (0, p, h(q := map_option (\<lambda>b. b\<lparr>rc_len := length src, rc_base := src @ [0]\<rparr>) (h q)))))"

definition nghttp2_rcbuf_del :: "nat \<Rightarrow> rc_heap \<Rightarrow> rc_heap option" where
  "nghttp2_rcbuf_del p h = (if h p = None then None else Some (h(p := None)))"

definition nghttp2_rcbuf_incref :: "nat \<Rightarrow> rc_heap \<Rightarrow> rc_heap option" where
  "nghttp2_rcbuf_incref p h =
     do { b \<leftarrow> h p;
          if rc_ref b = -1 then Some h
          else do { n \<leftarrow> i32 (rc_ref b + 1); Some (h(p \<mapsto> b\<lparr>rc_ref := n\<rparr>)) } }"

definition nghttp2_rcbuf_decref :: "nat option \<Rightarrow> rc_heap \<Rightarrow> rc_heap option" where
  "nghttp2_rcbuf_decref rcbuf h =
     (case rcbuf of
        None \<Rightarrow> Some h
      | Some p \<Rightarrow>
          do { b \<leftarrow> h p;
               if rc_ref b = -1 then Some h
               else if \<not> rc_ref b > 0 then None
               else
                 let b = b\<lparr>rc_ref := rc_ref b - 1\<rparr>; h = h(p \<mapsto> b)
                 in if rc_ref b = 0 then nghttp2_rcbuf_del p h else Some h })"

definition nghttp2_rcbuf_get_buf :: "nat \<Rightarrow> rc_heap \<Rightarrow> bytes option" where
  "nghttp2_rcbuf_get_buf p h = do { b \<leftarrow> h p; Some (take (rc_len b) (rc_base b)) }"

definition nghttp2_rcbuf_is_static :: "nat \<Rightarrow> rc_heap \<Rightarrow> bool option" where
  "nghttp2_rcbuf_is_static p h = do { b \<leftarrow> h p; Some (rc_ref b = -1) }"

subsection \<open>Owners\<close>

inductive rc_step :: "rc_heap \<times> nat multiset \<Rightarrow> rc_heap \<times> nat multiset \<Rightarrow> bool" where
  rc_acquire: "h p = None \<Longrightarrow> rcbuf_new2 (Some p) fill src h = (0, Some p, h') \<Longrightarrow> rc_step (h, m) (h', add_mset p m)"
| rc_share: "p \<in># m \<Longrightarrow> count m p < 2 ^ 31 - 1 \<Longrightarrow> nghttp2_rcbuf_incref p h = Some h' \<Longrightarrow> rc_step (h, m) (h', add_mset p m)"
| rc_drop: "p \<in># m \<Longrightarrow> nghttp2_rcbuf_decref (Some p) h = Some h' \<Longrightarrow> rc_step (h, m) (h', m - {#p#})"

definition rc_start :: "rc_heap \<Rightarrow> bool" where
  "rc_start h \<longleftrightarrow> (\<forall>p b. h p = Some b \<longrightarrow> rc_ref b = -1)"

definition rc_ok :: "nghttp2_rcbuf option \<Rightarrow> nat \<Rightarrow> bool" where
  "rc_ok b n \<longleftrightarrow> (case b of None \<Rightarrow> n = 0 | Some b \<Rightarrow> rc_ref b = -1 \<or> n \<noteq> 0 \<and> rc_ref b = int n)"

definition rc_inv :: "rc_heap \<times> nat multiset \<Rightarrow> bool" where
  "rc_inv s \<longleftrightarrow> (\<forall>p. rc_ok (fst s p) (count (snd s) p))"

lemma rc_invD: "rc_inv (h, m) \<Longrightarrow> p \<in># m \<Longrightarrow> \<exists>b. h p = Some b \<and> (rc_ref b = -1 \<or> rc_ref b = int (count m p))"
  unfolding rc_inv_def by (drule spec [of _ p]) (auto simp: rc_ok_def not_in_iff [symmetric] split: option.splits)

lemma rc_invI:
  assumes "rc_inv (h, m)" "rc_ok (h' p) (count m' p)" "\<And>q. q \<noteq> p \<Longrightarrow> h' q = h q \<and> count m' q = count m q"
  shows "rc_inv (h', m')"
  unfolding rc_inv_def
proof
  fix q
  show "rc_ok (fst (h', m') q) (count (snd (h', m')) q)"
    using assms(1,2) assms(3) [of q] by (cases "q = p") (simp_all add: rc_inv_def)
qed

lemma new2_eq: "rcbuf_new2 (Some p) fill src h = (0, Some p, h(p \<mapsto> \<lparr>rc_base = src @ [0], rc_len = length src, rc_ref = 1\<rparr>))"
  by (simp add: rcbuf_new2_def rcbuf_new_def)

lemma incref_owner:
  assumes "rc_inv (h, m)" "p \<in># m" "count m p < 2 ^ 31 - 1"
  shows "\<exists>h'. nghttp2_rcbuf_incref p h = Some h' \<and> rc_inv (h', add_mset p m)"
proof -
  obtain b where b: "h p = Some b" "rc_ref b = -1 \<or> rc_ref b = int (count m p)" using rc_invD [OF assms(1,2)] by blast
  have i: "i32 (int (count m p) + 1) = Some (int (count m p) + 1)" using assms(3) by (simp add: i32_def is_i32_def INT32_MIN_def INT32_MAX_def)
  let ?h = "if rc_ref b = -1 then h else h(p \<mapsto> b\<lparr>rc_ref := int (count m p) + 1\<rparr>)"
  have "nghttp2_rcbuf_incref p h = Some ?h" using b i by (auto simp: nghttp2_rcbuf_incref_def)
  moreover have "rc_inv (?h, add_mset p m)" by (rule rc_invI [OF assms(1), where p = p]) (use b in \<open>auto simp: rc_ok_def\<close>)
  ultimately show ?thesis by blast
qed

lemma decref_owner:
  assumes "rc_inv (h, m)" "p \<in># m"
  shows "\<exists>h'. nghttp2_rcbuf_decref (Some p) h = Some h' \<and> rc_inv (h', m - {#p#}) \<and>
    (h' p = None \<longleftrightarrow> count m p = 1 \<and> nghttp2_rcbuf_is_static p h = Some False) \<and> (\<forall>q. q \<noteq> p \<longrightarrow> h' q = h q)"
proof -
  obtain b where b: "h p = Some b" "rc_ref b = -1 \<or> rc_ref b = int (count m p)" using rc_invD [OF assms] by blast
  have c: "0 < count m p" using assms(2) by simp
  let ?h = "if rc_ref b = -1 then h else h(p := if count m p = 1 then None else Some (b\<lparr>rc_ref := int (count m p) - 1\<rparr>))"
  have "nghttp2_rcbuf_decref (Some p) h = Some ?h"
    using b c by (cases "count m p = 1") (auto simp: nghttp2_rcbuf_decref_def nghttp2_rcbuf_del_def Let_def)
  moreover have "rc_inv (?h, m - {#p#})" by (rule rc_invI [OF assms(1), where p = p]) (use b c in \<open>auto simp: rc_ok_def\<close>)
  moreover have "?h p = None \<longleftrightarrow> count m p = 1 \<and> nghttp2_rcbuf_is_static p h = Some False"
    using b c by (auto simp: nghttp2_rcbuf_is_static_def)
  ultimately show ?thesis by auto
qed

lemma rc_inv_None: "rc_inv (h, m) \<Longrightarrow> h p = None \<Longrightarrow> count m p = 0"
  unfolding rc_inv_def by (drule spec [of _ p]) (simp only: fst_conv snd_conv rc_ok_def option.case)

lemma rc_step_inv: "rc_step s t \<Longrightarrow> rc_inv s \<Longrightarrow> rc_inv t"
proof (induction rule: rc_step.induct)
  case (rc_acquire h p fill src h' m)
  have "h' = h(p \<mapsto> \<lparr>rc_base = src @ [0], rc_len = length src, rc_ref = 1\<rparr>)" using rc_acquire(2) unfolding new2_eq by blast
  then show ?case using rc_inv_None [OF rc_acquire(3,1)]
    by (intro rc_invI [OF rc_acquire(3), where p = p]) (simp_all add: rc_ok_def)
next
  case (rc_share p m h h')
  from incref_owner [OF rc_share(4,1,2)] show ?case unfolding rc_share(3) option.inject by (elim exE conjE) simp
next
  case (rc_drop p m h h')
  from decref_owner [OF rc_drop(3,1)] show ?case unfolding rc_drop(2) option.inject by (elim exE conjE) simp
qed

text \<open>
  However buffers are created, shared and given up by their owners, an owner can always read, share
  and give up its buffer: the buffer is in the heap, no assertion fails, and giving it up releases
  it exactly when it was counted and this was the last reference.
\<close>

theorem rcbuf_owners_safe:
  assumes "rc_step\<^sup>*\<^sup>* (h0, {#}) (h, m)" "rc_start h0" "p \<in># m"
  shows "nghttp2_rcbuf_get_buf p h \<noteq> None \<and>
    (count m p < 2 ^ 31 - 1 \<longrightarrow> nghttp2_rcbuf_incref p h \<noteq> None) \<and>
    (\<exists>h'. nghttp2_rcbuf_decref (Some p) h = Some h' \<and> (h' p = None \<longleftrightarrow> count m p = 1 \<and> nghttp2_rcbuf_is_static p h = Some False) \<and>
       (\<forall>q. q \<noteq> p \<longrightarrow> h' q = h q))"
proof -
  have "rc_inv (h0, {#})" using assms(2) by (auto simp: rc_inv_def rc_ok_def rc_start_def split: option.splits)
  with assms(1) have inv: "rc_inv (h, m)"
    by (induction rule: rtranclp_induct) (auto intro: rc_step_inv)
  show ?thesis using rc_invD [OF inv assms(3)] incref_owner [OF inv assms(3)] decref_owner [OF inv assms(3)]
    by (auto simp: nghttp2_rcbuf_get_buf_def)
qed

end
