(* ===== verification/Options.thy ===== *)
theory Options
  imports Frame Ratelim
begin

text \<open>
  The options of a session, \<open>nghttp2_option.c\<close>: a block of values with a mask that says which of
  them are set.
\<close>

definition NGHTTP2_OPT_NO_AUTO_WINDOW_UPDATE :: u32 where "NGHTTP2_OPT_NO_AUTO_WINDOW_UPDATE = 1"
definition NGHTTP2_OPT_PEER_MAX_CONCURRENT_STREAMS :: u32 where "NGHTTP2_OPT_PEER_MAX_CONCURRENT_STREAMS = push_bit 1 1"
definition NGHTTP2_OPT_NO_RECV_CLIENT_MAGIC :: u32 where "NGHTTP2_OPT_NO_RECV_CLIENT_MAGIC = push_bit 2 1"
definition NGHTTP2_OPT_NO_HTTP_MESSAGING :: u32 where "NGHTTP2_OPT_NO_HTTP_MESSAGING = push_bit 3 1"
definition NGHTTP2_OPT_MAX_RESERVED_REMOTE_STREAMS :: u32 where "NGHTTP2_OPT_MAX_RESERVED_REMOTE_STREAMS = push_bit 4 1"
definition NGHTTP2_OPT_USER_RECV_EXT_TYPES :: u32 where "NGHTTP2_OPT_USER_RECV_EXT_TYPES = push_bit 5 1"
definition NGHTTP2_OPT_NO_AUTO_PING_ACK :: u32 where "NGHTTP2_OPT_NO_AUTO_PING_ACK = push_bit 6 1"
definition NGHTTP2_OPT_BUILTIN_RECV_EXT_TYPES :: u32 where "NGHTTP2_OPT_BUILTIN_RECV_EXT_TYPES = push_bit 7 1"
definition NGHTTP2_OPT_MAX_SEND_HEADER_BLOCK_LENGTH :: u32 where "NGHTTP2_OPT_MAX_SEND_HEADER_BLOCK_LENGTH = push_bit 8 1"
definition NGHTTP2_OPT_MAX_DEFLATE_DYNAMIC_TABLE_SIZE :: u32 where "NGHTTP2_OPT_MAX_DEFLATE_DYNAMIC_TABLE_SIZE = push_bit 9 1"
definition NGHTTP2_OPT_NO_CLOSED_STREAMS :: u32 where "NGHTTP2_OPT_NO_CLOSED_STREAMS = push_bit 10 1"
definition NGHTTP2_OPT_MAX_OUTBOUND_ACK :: u32 where "NGHTTP2_OPT_MAX_OUTBOUND_ACK = push_bit 11 1"
definition NGHTTP2_OPT_MAX_SETTINGS :: u32 where "NGHTTP2_OPT_MAX_SETTINGS = push_bit 12 1"
definition NGHTTP2_OPT_SERVER_FALLBACK_RFC7540_PRIORITIES :: u32 where
  "NGHTTP2_OPT_SERVER_FALLBACK_RFC7540_PRIORITIES = push_bit 13 1"
definition NGHTTP2_OPT_NO_RFC9113_LEADING_AND_TRAILING_WS_VALIDATION :: u32 where
  "NGHTTP2_OPT_NO_RFC9113_LEADING_AND_TRAILING_WS_VALIDATION = push_bit 14 1"
definition NGHTTP2_OPT_STREAM_RESET_RATE_LIMIT :: u32 where "NGHTTP2_OPT_STREAM_RESET_RATE_LIMIT = push_bit 15 1"
definition NGHTTP2_OPT_MAX_CONTINUATIONS :: u32 where "NGHTTP2_OPT_MAX_CONTINUATIONS = push_bit 16 1"

definition NGHTTP2_TYPEMASK_ALTSVC :: u32 where "NGHTTP2_TYPEMASK_ALTSVC = push_bit 0 1"
definition NGHTTP2_TYPEMASK_ORIGIN :: u32 where "NGHTTP2_TYPEMASK_ORIGIN = push_bit 1 1"
definition NGHTTP2_TYPEMASK_PRIORITY_UPDATE :: u32 where "NGHTTP2_TYPEMASK_PRIORITY_UPDATE = push_bit 2 1"

text \<open>The \<open>int\<close> members are flags that are only compared with 0.\<close>

record nghttp2_option =
  o_stream_reset_burst :: u64
  o_stream_reset_rate :: u64
  o_max_send_header_block_length :: nat
  o_max_deflate_dynamic_table_size :: nat
  o_max_outbound_ack :: nat
  o_max_settings :: nat
  o_max_continuations :: nat
  o_opt_set_mask :: u32
  o_peer_max_concurrent_streams :: u32
  o_max_reserved_remote_streams :: u32
  o_builtin_recv_ext_types :: u32
  o_no_auto_window_update :: bool
  o_no_recv_client_magic :: bool
  o_no_http_messaging :: bool
  o_no_auto_ping_ack :: bool
  o_no_closed_streams :: bool
  o_server_fallback_rfc7540_priorities :: bool
  o_no_rfc9113_leading_and_trailing_ws_validation :: bool
  o_user_recv_ext_types :: bytes

text \<open>The allocation is the argument; the block is filled with zeros.\<close>

definition nghttp2_option_new :: "bool \<Rightarrow> rc + nghttp2_option" where
  "nghttp2_option_new mem =
     (if \<not> mem then Inl NGHTTP2_ERR_NOMEM
      else Inr \<lparr>o_stream_reset_burst = 0, o_stream_reset_rate = 0, o_max_send_header_block_length = 0,
                o_max_deflate_dynamic_table_size = 0, o_max_outbound_ack = 0, o_max_settings = 0, o_max_continuations = 0,
                o_opt_set_mask = 0, o_peer_max_concurrent_streams = 0, o_max_reserved_remote_streams = 0,
                o_builtin_recv_ext_types = 0, o_no_auto_window_update = False, o_no_recv_client_magic = False,
                o_no_http_messaging = False, o_no_auto_ping_ack = False, o_no_closed_streams = False,
                o_server_fallback_rfc7540_priorities = False, o_no_rfc9113_leading_and_trailing_ws_validation = False,
                o_user_recv_ext_types = replicate 32 0\<rparr>)"

definition set_mask :: "u32 \<Rightarrow> nghttp2_option \<Rightarrow> nghttp2_option" where
  "set_mask m op = op\<lparr>o_opt_set_mask := o_opt_set_mask op OR m\<rparr>"

definition nghttp2_option_set_no_auto_window_update :: "nghttp2_option \<Rightarrow> bool \<Rightarrow> nghttp2_option" where
  "nghttp2_option_set_no_auto_window_update op val = (set_mask NGHTTP2_OPT_NO_AUTO_WINDOW_UPDATE op)\<lparr>o_no_auto_window_update := val\<rparr>"

definition nghttp2_option_set_peer_max_concurrent_streams :: "nghttp2_option \<Rightarrow> u32 \<Rightarrow> nghttp2_option" where
  "nghttp2_option_set_peer_max_concurrent_streams op val =
     (set_mask NGHTTP2_OPT_PEER_MAX_CONCURRENT_STREAMS op)\<lparr>o_peer_max_concurrent_streams := val\<rparr>"

definition nghttp2_option_set_no_recv_client_magic :: "nghttp2_option \<Rightarrow> bool \<Rightarrow> nghttp2_option" where
  "nghttp2_option_set_no_recv_client_magic op val = (set_mask NGHTTP2_OPT_NO_RECV_CLIENT_MAGIC op)\<lparr>o_no_recv_client_magic := val\<rparr>"

definition nghttp2_option_set_no_http_messaging :: "nghttp2_option \<Rightarrow> bool \<Rightarrow> nghttp2_option" where
  "nghttp2_option_set_no_http_messaging op val = (set_mask NGHTTP2_OPT_NO_HTTP_MESSAGING op)\<lparr>o_no_http_messaging := val\<rparr>"

definition nghttp2_option_set_max_reserved_remote_streams :: "nghttp2_option \<Rightarrow> u32 \<Rightarrow> nghttp2_option" where
  "nghttp2_option_set_max_reserved_remote_streams op val =
     (set_mask NGHTTP2_OPT_MAX_RESERVED_REMOTE_STREAMS op)\<lparr>o_max_reserved_remote_streams := val\<rparr>"

definition set_ext_type :: "bytes \<Rightarrow> u8 \<Rightarrow> bytes" where
  "set_ext_type ext_types type =
     ext_types[unat type div 8 := ext_types ! (unat type div 8) OR push_bit (unat (type AND 0x7)) 1]"

text \<open>The test of \<open>nghttp2_session.c\<close> on the same array.\<close>

definition check_ext_type_set :: "bytes \<Rightarrow> u8 \<Rightarrow> bool" where
  "check_ext_type_set ext_types type \<longleftrightarrow>
     ext_types ! (unat type div 8) AND push_bit (unat (type AND 0x7)) 1 > 0"

definition nghttp2_option_set_user_recv_extension_type :: "nghttp2_option \<Rightarrow> u8 \<Rightarrow> nghttp2_option" where
  "nghttp2_option_set_user_recv_extension_type op type =
     (if type < 10 then op
      else (set_mask NGHTTP2_OPT_USER_RECV_EXT_TYPES op)\<lparr>o_user_recv_ext_types := set_ext_type (o_user_recv_ext_types op) type\<rparr>)"

definition nghttp2_option_set_builtin_recv_extension_type :: "nghttp2_option \<Rightarrow> u8 \<Rightarrow> nghttp2_option" where
  "nghttp2_option_set_builtin_recv_extension_type op type =
     (let enable = (\<lambda>m. (set_mask NGHTTP2_OPT_BUILTIN_RECV_EXT_TYPES op)
                         \<lparr>o_builtin_recv_ext_types := o_builtin_recv_ext_types op OR m\<rparr>)
      in if type = NGHTTP2_ALTSVC then enable NGHTTP2_TYPEMASK_ALTSVC
         else if type = NGHTTP2_ORIGIN then enable NGHTTP2_TYPEMASK_ORIGIN
         else if type = NGHTTP2_PRIORITY_UPDATE then enable NGHTTP2_TYPEMASK_PRIORITY_UPDATE
         else op)"

definition nghttp2_option_set_no_auto_ping_ack :: "nghttp2_option \<Rightarrow> bool \<Rightarrow> nghttp2_option" where
  "nghttp2_option_set_no_auto_ping_ack op val = (set_mask NGHTTP2_OPT_NO_AUTO_PING_ACK op)\<lparr>o_no_auto_ping_ack := val\<rparr>"

definition nghttp2_option_set_max_send_header_block_length :: "nghttp2_option \<Rightarrow> nat \<Rightarrow> nghttp2_option" where
  "nghttp2_option_set_max_send_header_block_length op val =
     (set_mask NGHTTP2_OPT_MAX_SEND_HEADER_BLOCK_LENGTH op)\<lparr>o_max_send_header_block_length := val\<rparr>"

definition nghttp2_option_set_max_deflate_dynamic_table_size :: "nghttp2_option \<Rightarrow> nat \<Rightarrow> nghttp2_option" where
  "nghttp2_option_set_max_deflate_dynamic_table_size op val =
     (set_mask NGHTTP2_OPT_MAX_DEFLATE_DYNAMIC_TABLE_SIZE op)\<lparr>o_max_deflate_dynamic_table_size := val\<rparr>"

definition nghttp2_option_set_no_closed_streams :: "nghttp2_option \<Rightarrow> bool \<Rightarrow> nghttp2_option" where
  "nghttp2_option_set_no_closed_streams op val = (set_mask NGHTTP2_OPT_NO_CLOSED_STREAMS op)\<lparr>o_no_closed_streams := val\<rparr>"

definition nghttp2_option_set_max_outbound_ack :: "nghttp2_option \<Rightarrow> nat \<Rightarrow> nghttp2_option" where
  "nghttp2_option_set_max_outbound_ack op val = (set_mask NGHTTP2_OPT_MAX_OUTBOUND_ACK op)\<lparr>o_max_outbound_ack := val\<rparr>"

definition nghttp2_option_set_max_settings :: "nghttp2_option \<Rightarrow> nat \<Rightarrow> nghttp2_option" where
  "nghttp2_option_set_max_settings op val = (set_mask NGHTTP2_OPT_MAX_SETTINGS op)\<lparr>o_max_settings := val\<rparr>"

definition nghttp2_option_set_server_fallback_rfc7540_priorities :: "nghttp2_option \<Rightarrow> bool \<Rightarrow> nghttp2_option" where
  "nghttp2_option_set_server_fallback_rfc7540_priorities op val =
     (set_mask NGHTTP2_OPT_SERVER_FALLBACK_RFC7540_PRIORITIES op)\<lparr>o_server_fallback_rfc7540_priorities := val\<rparr>"

definition nghttp2_option_set_no_rfc9113_leading_and_trailing_ws_validation :: "nghttp2_option \<Rightarrow> bool \<Rightarrow> nghttp2_option" where
  "nghttp2_option_set_no_rfc9113_leading_and_trailing_ws_validation op val =
     (set_mask NGHTTP2_OPT_NO_RFC9113_LEADING_AND_TRAILING_WS_VALIDATION op)
       \<lparr>o_no_rfc9113_leading_and_trailing_ws_validation := val\<rparr>"

definition nghttp2_option_set_stream_reset_rate_limit :: "nghttp2_option \<Rightarrow> u64 \<Rightarrow> u64 \<Rightarrow> nghttp2_option" where
  "nghttp2_option_set_stream_reset_rate_limit op burst rate =
     (set_mask NGHTTP2_OPT_STREAM_RESET_RATE_LIMIT op)\<lparr>o_stream_reset_burst := burst, o_stream_reset_rate := rate\<rparr>"

definition nghttp2_option_set_max_continuations :: "nghttp2_option \<Rightarrow> nat \<Rightarrow> nghttp2_option" where
  "nghttp2_option_set_max_continuations op val = (set_mask NGHTTP2_OPT_MAX_CONTINUATIONS op)\<lparr>o_max_continuations := val\<rparr>"

subsection \<open>Extension types\<close>

lemma type_bit_less: "unat ((type :: u8) AND 0x7) < 8"
proof -
  have "type AND 7 \<le> 7" by (rule word_and_le1)
  then show ?thesis by (simp add: word_le_nat_alt)
qed

lemma type_bit_mod: "unat ((type :: u8) AND 0x7) = unat type mod 8"
proof -
  have "(7 :: u8) = mask 3" by (simp add: mask_eq_exp_minus_1)
  then have "type AND 7 = take_bit 3 type" by (simp add: take_bit_eq_mask)
  then show ?thesis by (simp add: take_bit_eq_mod unat_mod)
qed

lemma check_bit: "check_ext_type_set ts type \<longleftrightarrow> bit (ts ! (unat type div 8)) (unat type mod 8)"
proof -
  have "x AND push_bit n 1 > 0 \<longleftrightarrow> bit x n" if "n < 8" for x :: u8 and n
  proof -
    have "bit (x AND push_bit n 1) k \<longleftrightarrow> k = n \<and> bit x n" for k using that by (auto simp: bit_simps)
    then have "x AND push_bit n 1 \<noteq> 0 \<longleftrightarrow> bit x n" by (metis bit_0_eq bit_eqI bot_apply bot_bool_def)
    then show ?thesis by (simp add: word_gt_0)
  qed
  then show ?thesis by (simp add: check_ext_type_set_def type_bit_mod)
qed

text \<open>Setting a type in the array makes exactly that type pass the test, in addition to those that did.\<close>

theorem set_ext_type_exact:
  assumes "length ts = 32"
  shows "check_ext_type_set (set_ext_type ts type) u \<longleftrightarrow> u = type \<or> check_ext_type_set ts u"
proof -
  have l: "unat type div 8 < 32" using unsigned_less [of type, where ?'a = nat] by simp
  have "u = type \<longleftrightarrow> unat u div 8 = unat type div 8 \<and> unat u mod 8 = unat type mod 8"
    by (metis div_mult_mod_eq word_unat_eq_iff)
  moreover have "unat type mod 8 < 8" by simp
  ultimately show ?thesis using assms l
    by (auto simp: check_bit set_ext_type_def type_bit_mod nth_list_update bit_simps)
qed

end
