(* ===== verification/Dep_Tree.thy ===== *)
theory Dep_Tree
  imports Stream
begin

text \<open>
  The dependency tree of RFC 7540 priorities in \<open>nghttp2_stream.c\<close>.  A stream points to its parent
  (\<open>dep_prev\<close>), its first child (\<open>dep_next\<close>) and its neighbours among the children of its parent
  (\<open>sib_prev\<close>, \<open>sib_next\<close>); \<open>sum_dep_weight\<close> is the sum of the weights of its children.  The loops
  over these pointers are partial functions.
\<close>

subsection \<open>Links\<close>

partial_function (option) stream_last_sib :: "stream_heap \<Rightarrow> nat \<Rightarrow> nat option" where
  "stream_last_sib h s = (case sib_next (h s) of None \<Rightarrow> Some s | Some n \<Rightarrow> stream_last_sib h n)"

partial_function (option) nghttp2_stream_dep_find_ancestor :: "stream_heap \<Rightarrow> nat option \<Rightarrow> nat \<Rightarrow> bool option" where
  "nghttp2_stream_dep_find_ancestor h s target =
     (case s of
        None \<Rightarrow> Some False
      | Some a \<Rightarrow> if a = target then Some True else nghttp2_stream_dep_find_ancestor h (dep_prev (h a)) target)"

partial_function (option) set_dep_prev :: "stream_heap \<Rightarrow> nat option \<Rightarrow> nat option \<Rightarrow> stream_heap option" where
  "set_dep_prev h s dep =
     (case s of
        None \<Rightarrow> Some h
      | Some a \<Rightarrow> let h = h(a := (h a)\<lparr>dep_prev := dep\<rparr>) in set_dep_prev h (sib_next (h a)) dep)"

definition link_dep :: "stream_heap \<Rightarrow> nat \<Rightarrow> nat option \<Rightarrow> stream_heap" where
  "link_dep h dep_stream s =
     (let h = h(dep_stream := (h dep_stream)\<lparr>dep_next := s\<rparr>)
      in case s of None \<Rightarrow> h | Some a \<Rightarrow> h(a := (h a)\<lparr>dep_prev := Some dep_stream\<rparr>))"

definition link_sib :: "stream_heap \<Rightarrow> nat \<Rightarrow> nat option \<Rightarrow> stream_heap" where
  "link_sib h a b =
     (let h = h(a := (h a)\<lparr>sib_next := b\<rparr>)
      in case b of None \<Rightarrow> h | Some b \<Rightarrow> h(b := (h b)\<lparr>sib_prev := Some a\<rparr>))"

definition insert_link_dep :: "stream_heap \<Rightarrow> nat \<Rightarrow> nat \<Rightarrow> stream_heap option" where
  "insert_link_dep h dep_stream s =
     (if sib_prev (h s) \<noteq> None then None
      else Some (link_dep (link_sib h s (dep_next (h dep_stream))) dep_stream (Some s)))"

definition unlink_sib :: "stream_heap \<Rightarrow> nat \<Rightarrow> stream_heap option" where
  "unlink_sib h s =
     (case sib_prev (h s) of
        None \<Rightarrow> None
      | Some prev \<Rightarrow>
          (case dep_next (h s) of
             Some dn \<Rightarrow>
               (case set_dep_prev (link_sib h prev (Some dn)) (Some dn) (dep_prev (h s)) of
                  None \<Rightarrow> None
                | Some h \<Rightarrow>
                    if sib_next (h s) = None then Some h
                    else map_option (\<lambda>l. link_sib h l (sib_next (h s))) (stream_last_sib h dn))
           | None \<Rightarrow>
               let n = sib_next (h s);
                   h = h(prev := (h prev)\<lparr>sib_next := n\<rparr>)
               in Some (case n of None \<Rightarrow> h | Some a \<Rightarrow> h(a := (h a)\<lparr>sib_prev := Some prev\<rparr>))))"

definition unlink_dep :: "stream_heap \<Rightarrow> nat \<Rightarrow> stream_heap option" where
  "unlink_dep h s =
     (case dep_prev (h s) of
        None \<Rightarrow> None
      | Some prev \<Rightarrow>
          (case dep_next (h s) of
             Some dn \<Rightarrow>
               (case set_dep_prev (link_dep h prev (Some dn)) (Some dn) (dep_prev (h s)) of
                  None \<Rightarrow> None
                | Some h \<Rightarrow>
                    if sib_next (h s) = None then Some h
                    else map_option (\<lambda>l. link_sib h l (sib_next (h s))) (stream_last_sib h dn))
           | None \<Rightarrow>
               (case sib_next (h s) of
                  Some n \<Rightarrow> Some (link_dep (h(n := (h n)\<lparr>sib_prev := None\<rparr>)) prev (Some n))
                | None \<Rightarrow> Some (h(prev := (h prev)\<lparr>dep_next := None\<rparr>)))))"

subsection \<open>Operations on the tree\<close>

text \<open>
  The loop of \<open>nghttp2_stream_dep_insert\<close> and of \<open>nghttp2_stream_dep_insert_subtree\<close> over the old
  children of \<open>dep\<close>, which become children of \<open>s\<close>.
\<close>

partial_function (option) dep_move_loop ::
  "mem \<Rightarrow> stream_heap \<Rightarrow> nat \<Rightarrow> nat \<Rightarrow> nat option \<Rightarrow> (rc \<times> stream_heap) option" where
  "dep_move_loop m h dep s si =
     (case si of
        None \<Rightarrow> Some (0, h)
      | Some i \<Rightarrow>
          let h = h(i := (h i)\<lparr>dep_prev := Some s\<rparr>)
          in if queued (h i) then
               (case stream_obq_move m h s dep i of
                  None \<Rightarrow> None
                | Some (rv, h) \<Rightarrow> if rv \<noteq> 0 then Some (rv, h) else dep_move_loop m h dep s (sib_next (h i)))
             else dep_move_loop m h dep s (sib_next (h i)))"

definition nghttp2_stream_dep_insert :: "mem \<Rightarrow> stream_heap \<Rightarrow> nat \<Rightarrow> nat \<Rightarrow> (rc \<times> stream_heap) option" where
  "nghttp2_stream_dep_insert m h dep s =
     (let h = h(s := (h s)\<lparr>sum_dep_weight := sum_dep_weight (h dep)\<rparr>);
          h = h(dep := (h dep)\<lparr>sum_dep_weight := weight (h s)\<rparr>);
          finish = (\<lambda>h. let h = h(dep := (h dep)\<lparr>dep_next := Some s\<rparr>)
                        in Some (0, h(s := (h s)\<lparr>dep_prev := Some dep\<rparr>)))
      in if dep_next (h dep) = None then finish h
         else
           case dep_move_loop m h dep s (dep_next (h dep)) of
             None \<Rightarrow> None
           | Some (rv, h) \<Rightarrow>
               if rv \<noteq> 0 then Some (rv, h)
               else
                 case (if stream_subtree_active (h s) then stream_obq_push m h (Some dep) s else Some (0, h)) of
                   None \<Rightarrow> None
                 | Some (rv, h) \<Rightarrow>
                     if rv \<noteq> 0 then Some (rv, h)
                     else finish (h(s := (h s)\<lparr>dep_next := dep_next (h dep)\<rparr>)))"

definition nghttp2_stream_dep_add :: "stream_heap \<Rightarrow> nat \<Rightarrow> nat \<Rightarrow> stream_heap option" where
  "nghttp2_stream_dep_add h dep s =
     (let h = h(dep := (h dep)\<lparr>sum_dep_weight := sum_dep_weight (h dep) + weight (h s)\<rparr>)
      in if dep_next (h dep) = None then Some (link_dep h dep (Some s)) else insert_link_dep h dep s)"

text \<open>The loop of \<open>nghttp2_stream_dep_remove\<close>; \<open>d\<close> is \<open>sum_dep_weight_delta\<close>.\<close>

partial_function (option) dep_remove_loop ::
  "mem \<Rightarrow> stream_heap \<Rightarrow> nat \<Rightarrow> int \<Rightarrow> nat option \<Rightarrow> (rc \<times> int \<times> stream_heap) option" where
  "dep_remove_loop m h s d si =
     (case si of
        None \<Rightarrow> Some (0, d, h)
      | Some i \<Rightarrow>
          let h = h(i := (h i)\<lparr>weight := nghttp2_stream_dep_distributed_weight (h s) (weight (h i))\<rparr>);
              d = d + weight (h i)
          in if queued (h i) then
               (case dep_prev (h s) of
                  None \<Rightarrow> None
                | Some dp \<Rightarrow>
                    (case stream_obq_move m h dp s i of
                       None \<Rightarrow> None
                     | Some (rv, h) \<Rightarrow>
                         if rv \<noteq> 0 then Some (rv, d, h) else dep_remove_loop m h s d (sib_next (h i))))
             else dep_remove_loop m h s d (sib_next (h i)))"

definition nghttp2_stream_dep_remove :: "mem \<Rightarrow> stream_heap \<Rightarrow> nat \<Rightarrow> (rc \<times> stream_heap) option" where
  "nghttp2_stream_dep_remove m h s =
     (case dep_remove_loop m h s (- weight (h s)) (dep_next (h s)) of
        None \<Rightarrow> None
      | Some (rv, d, h) \<Rightarrow>
          if rv \<noteq> 0 then Some (rv, h)
          else
            case dep_prev (h s) of
              None \<Rightarrow> None
            | Some dp \<Rightarrow>
                let h = h(dp := (h dp)\<lparr>sum_dep_weight := sum_dep_weight (h dp) + d\<rparr>)
                in case (if queued (h s) then stream_obq_remove h s else Some h) of
                     None \<Rightarrow> None
                   | Some h \<Rightarrow>
                       (case (if sib_prev (h s) \<noteq> None then unlink_sib h s else unlink_dep h s) of
                          None \<Rightarrow> None
                        | Some h \<Rightarrow>
                            Some (0, h(s := (h s)\<lparr>sum_dep_weight := 0, dep_prev := None, dep_next := None,
                                                   sib_prev := None, sib_next := None\<rparr>))))"

text \<open>The push of \<open>s\<close> when something in its subtree is to be sent.\<close>

definition push_if_active :: "mem \<Rightarrow> stream_heap \<Rightarrow> nat \<Rightarrow> nat \<Rightarrow> (rc \<times> stream_heap) option" where
  "push_if_active m h dep s =
     (if stream_subtree_active (h s) then stream_obq_push m h (Some dep) s else Some (0, h))"

definition nghttp2_stream_dep_insert_subtree :: "mem \<Rightarrow> stream_heap \<Rightarrow> nat \<Rightarrow> nat \<Rightarrow> (rc \<times> stream_heap) option" where
  "nghttp2_stream_dep_insert_subtree m h dep s =
     (let h = h(s := (h s)\<lparr>sum_dep_weight := sum_dep_weight (h s) + sum_dep_weight (h dep)\<rparr>);
          h = h(dep := (h dep)\<lparr>sum_dep_weight := weight (h s)\<rparr>)
      in case dep_next (h dep) of
           None \<Rightarrow> push_if_active m (link_dep h dep (Some s)) dep s
         | Some dn \<Rightarrow>
             let h = link_dep h dep (Some s)
             in case (case dep_next (h s) of
                        Some c \<Rightarrow> map_option (\<lambda>l. link_sib h l (Some dn)) (stream_last_sib h c)
                      | None \<Rightarrow> Some (link_dep h s (Some dn))) of
                  None \<Rightarrow> None
                | Some h \<Rightarrow>
                    (case dep_move_loop m h dep s (Some dn) of
                       None \<Rightarrow> None
                     | Some (rv, h) \<Rightarrow> if rv \<noteq> 0 then Some (rv, h) else push_if_active m h dep s))"

definition nghttp2_stream_dep_add_subtree :: "mem \<Rightarrow> stream_heap \<Rightarrow> nat \<Rightarrow> nat \<Rightarrow> (rc \<times> stream_heap) option" where
  "nghttp2_stream_dep_add_subtree m h dep s =
     (let h = h(dep := (h dep)\<lparr>sum_dep_weight := sum_dep_weight (h dep) + weight (h s)\<rparr>)
      in case (if dep_next (h dep) \<noteq> None then insert_link_dep h dep s else Some (link_dep h dep (Some s))) of
           None \<Rightarrow> None
         | Some h \<Rightarrow> push_if_active m h dep s)"

definition nghttp2_stream_dep_remove_subtree :: "stream_heap \<Rightarrow> nat \<Rightarrow> stream_heap option" where
  "nghttp2_stream_dep_remove_subtree h s =
     (case dep_prev (h s) of
        None \<Rightarrow> None
      | Some dp \<Rightarrow>
          let h = (case sib_prev (h s) of
                     Some p \<Rightarrow> link_sib h p (sib_next (h s))
                   | None \<Rightarrow>
                       let n = sib_next (h s); h = link_dep h dp n
                       in case n of None \<Rightarrow> h | Some a \<Rightarrow> h(a := (h a)\<lparr>sib_prev := None\<rparr>));
              h = h(dp := (h dp)\<lparr>sum_dep_weight := sum_dep_weight (h dp) - weight (h s)\<rparr>)
          in case (if queued (h s) then stream_obq_remove h s else Some h) of
               None \<Rightarrow> None
             | Some h \<Rightarrow> Some (h(s := (h s)\<lparr>sib_prev := None, sib_next := None, dep_prev := None\<rparr>)))"

definition nghttp2_stream_in_dep_tree :: "nghttp2_stream \<Rightarrow> bool" where
  "nghttp2_stream_in_dep_tree s \<longleftrightarrow>
     dep_prev s \<noteq> None \<or> dep_next s \<noteq> None \<or> sib_prev s \<noteq> None \<or> sib_next s \<noteq> None"

text \<open>The inner loop of \<open>nghttp2_stream_next_outbound_item\<close>, from \<open>si\<close> up to the root.\<close>

partial_function (option) last_cycle_loop :: "stream_heap \<Rightarrow> nat \<Rightarrow> stream_heap option" where
  "last_cycle_loop h si =
     (case dep_prev (h si) of
        None \<Rightarrow> Some h
      | Some p \<Rightarrow> last_cycle_loop (h(p := (h p)\<lparr>descendant_last_cycle := cycle (h si)\<rparr>)) p)"

partial_function (option) nghttp2_stream_next_outbound_item ::
  "stream_heap \<Rightarrow> nat \<Rightarrow> (nat option \<times> stream_heap) option" where
  "nghttp2_stream_next_outbound_item h s =
     (if stream_active (h s) then map_option (\<lambda>h'. (item (h s), h')) (last_cycle_loop h s)
      else case nghttp2_pq_top (obq (h s)) of
             None \<Rightarrow> Some (None, h)
           | Some e \<Rightarrow> nghttp2_stream_next_outbound_item h e)"

subsection \<open>What the tree leaves alone\<close>

text \<open>
  The tree and its queues live in the links, weights, cycles and queues of the stream objects.  All
  other fields (the windows, the state, the flags, the item) are the same after every operation.
\<close>

definition untouched :: "nghttp2_stream \<Rightarrow> nghttp2_stream" where
  "untouched st =
     st\<lparr>obq := nghttp2_pq_init (\<lambda>_. 0), descendant_last_cycle := 0, cycle := 0, descendant_next_seq := 0, seq := 0,
        dep_prev := None, dep_next := None, sib_prev := None, sib_next := None, last_writelen := 0, weight := 0,
        pending_penalty := 0, sum_dep_weight := 0, queued := False\<rparr>"

definition tree_frame :: "stream_heap \<Rightarrow> stream_heap \<Rightarrow> bool" where
  "tree_frame h h' \<longleftrightarrow> (\<forall>a. untouched (h' a) = untouched (h a))"

lemma tree_frame_refl [simp, intro]: "tree_frame h h"
  by (simp add: tree_frame_def)

lemma tree_frame_trans [trans]: "tree_frame h h' \<Longrightarrow> tree_frame h' h'' \<Longrightarrow> tree_frame h h''"
  by (simp add: tree_frame_def)

lemma tree_frame_upd: "tree_frame h h' \<Longrightarrow> untouched x = untouched (h' a) \<Longrightarrow> tree_frame h (h'(a := x))"
  by (simp add: tree_frame_def)

lemma untouched_upd [simp]:
  "untouched (st\<lparr>obq := q\<rparr>) = untouched st" "untouched (st\<lparr>descendant_last_cycle := c\<rparr>) = untouched st"
  "untouched (st\<lparr>cycle := c\<rparr>) = untouched st" "untouched (st\<lparr>descendant_next_seq := c\<rparr>) = untouched st"
  "untouched (st\<lparr>seq := c\<rparr>) = untouched st" "untouched (st\<lparr>dep_prev := p\<rparr>) = untouched st"
  "untouched (st\<lparr>dep_next := p\<rparr>) = untouched st" "untouched (st\<lparr>sib_prev := p\<rparr>) = untouched st"
  "untouched (st\<lparr>sib_next := p\<rparr>) = untouched st" "untouched (st\<lparr>last_writelen := n\<rparr>) = untouched st"
  "untouched (st\<lparr>weight := w\<rparr>) = untouched st" "untouched (st\<lparr>pending_penalty := u\<rparr>) = untouched st"
  "untouched (st\<lparr>sum_dep_weight := w\<rparr>) = untouched st" "untouched (st\<lparr>queued := b\<rparr>) = untouched st"
  "untouched (stream_next_cycle st c) = untouched st"
  by (simp_all add: untouched_def stream_next_cycle_def Let_def)

lemma obq_push_frame: "stream_obq_push m h dep s = Some r \<Longrightarrow> tree_frame h (snd r)"
proof (rule stream_obq_push.raw_induct [where P = "\<lambda>_ h _ _ r. tree_frame h (snd r)", rotated])
  fix f :: "mem \<Rightarrow> stream_heap \<Rightarrow> nat option \<Rightarrow> nat \<Rightarrow> (rc \<times> stream_heap) option" and m and h :: stream_heap and dep s r
  assume IH: "\<And>m h dep s r. f m h dep s = Some r \<Longrightarrow> tree_frame h (snd r)"
  let ?h1 = "\<lambda>d. h(s := stream_next_cycle (h s) (descendant_last_cycle (h d)))"
  let ?h2 = "\<lambda>d. (?h1 d)(d := (?h1 d d)\<lparr>descendant_next_seq := descendant_next_seq (?h1 d d) + 1\<rparr>)"
  let ?h3 = "\<lambda>d. (?h2 d)(s := (?h2 d s)\<lparr>seq := descendant_next_seq (?h1 d d)\<rparr>)"
  let ?h4 = "\<lambda>d q. (?h3 d)(d := (?h3 d d)\<lparr>obq := q\<rparr>)"
  let ?h5 = "\<lambda>d q. (?h4 d q)(s := (?h4 d q s)\<lparr>queued := True\<rparr>)"
  have f45: "tree_frame h (?h4 d q)" "tree_frame h (?h5 d q)" for d q by (simp_all add: tree_frame_def)
  assume op: "(case dep of
        None \<Rightarrow> Some (0, h)
      | Some d \<Rightarrow>
          if queued (h s) then Some (0, h)
          else
            let h = h(s := stream_next_cycle (h s) (descendant_last_cycle (h d)));
                sq = descendant_next_seq (h d);
                h = h(d := (h d)\<lparr>descendant_next_seq := sq + 1\<rparr>);
                h = h(s := (h s)\<lparr>seq := sq\<rparr>);
                (rv, q) = nghttp2_pq_push m (stream_less NGHTTP2_MAX_CYCLE_DISTANCE h) (obq (h d)) s;
                h = h(d := (h d)\<lparr>obq := q\<rparr>)
            in if rv \<noteq> 0 then Some (rv, h)
               else
                 let h = h(s := (h s)\<lparr>queued := True\<rparr>)
                 in f m h (dep_prev (h d)) d) = Some r"
  show "tree_frame h (snd r)"
  proof (cases "\<exists>d. dep = Some d \<and> \<not> queued (h s)")
    case False
    then show ?thesis using op by (auto split: option.splits)
  next
    case True
    then obtain d where d: "dep = Some d" "\<not> queued (h s)" by auto
    obtain v q where q: "nghttp2_pq_push m (stream_less NGHTTP2_MAX_CYCLE_DISTANCE (?h3 d)) (obq (?h3 d d)) s = (v, q)"
      by (metis surj_pair)
    have e: "(if v \<noteq> 0 then Some (v, ?h4 d q) else f m (?h5 d q) (dep_prev (?h5 d q d)) d) = Some r"
      using op unfolding Let_def by (simp only: d option.case if_False q prod.case)
    show ?thesis
    proof (cases "v = 0")
      case True
      have "f m (?h5 d q) (dep_prev (?h5 d q d)) d = Some r" using e by (simp only: True simp_thms if_False)
      then show ?thesis by (rule tree_frame_trans [OF f45(2) IH])
    next
      case False
      have "r = (v, ?h4 d q)" using e by (simp only: False simp_thms if_True option.inject)
      then show ?thesis using f45(1) [of d q] by (simp only: snd_conv)
    qed
  qed
qed

lemma obq_remove_loop_frame: "obq_remove_loop h dep s = Some h' \<Longrightarrow> tree_frame h h'"
proof (rule obq_remove_loop.raw_induct [where P = "\<lambda>h _ _ h'. tree_frame h h'", rotated])
  fix f :: "stream_heap \<Rightarrow> nat option \<Rightarrow> nat \<Rightarrow> stream_heap option" and h :: stream_heap and dep s h'
  assume IH: "\<And>h dep s h'. f h dep s = Some h' \<Longrightarrow> tree_frame h h'"
  let ?h1 = "\<lambda>d q. h(d := (h d)\<lparr>obq := q\<rparr>)"
  let ?h2 = "\<lambda>d q. (?h1 d q)(s := (?h1 d q s)\<lparr>queued := False, cycle := 0, pending_penalty := 0,
                               descendant_last_cycle := 0, last_writelen := 0\<rparr>)"
  have f2: "tree_frame h (?h2 d q)" for d q by (simp add: tree_frame_def)
  assume op: "(case dep of
        None \<Rightarrow> Some h
      | Some d \<Rightarrow>
          (case nghttp2_pq_remove (stream_less NGHTTP2_MAX_CYCLE_DISTANCE h) (obq (h d)) s of
             None \<Rightarrow> None
           | Some q \<Rightarrow>
               let h = h(d := (h d)\<lparr>obq := q\<rparr>)
               in if \<not> queued (h s) then None
                  else
                    let h = h(s := (h s)\<lparr>queued := False, cycle := 0, pending_penalty := 0,
                                         descendant_last_cycle := 0, last_writelen := 0\<rparr>)
                    in if stream_subtree_active (h d) then Some h
                       else f h (dep_prev (h d)) d)) = Some h'"
  show "tree_frame h h'"
  proof (cases dep)
    case None
    then show ?thesis using op by simp
  next
    case d: (Some d)
    with op obtain q where q: "nghttp2_pq_remove (stream_less NGHTTP2_MAX_CYCLE_DISTANCE h) (obq (h d)) s = Some q"
      by (auto split: option.splits)
    have "(if \<not> queued (?h1 d q s) then None else if stream_subtree_active (?h2 d q d) then Some (?h2 d q)
        else f (?h2 d q) (dep_prev (?h2 d q d)) d) = Some h'"
      using op unfolding Let_def by (simp only: d option.case q)
    then consider "h' = ?h2 d q" | "f (?h2 d q) (dep_prev (?h2 d q d)) d = Some h'"
      by (cases "queued (?h1 d q s)"; cases "stream_subtree_active (?h2 d q d)")
        (simp_all only: if_True if_False option.inject not_True_eq_False not_False_eq_True option.distinct)
    then show ?thesis
    proof cases
      case 1
      then show ?thesis using f2 [of d q] by (simp only:)
    next
      case 2
      show ?thesis by (rule tree_frame_trans [OF f2 IH [OF 2]])
    qed
  qed
qed

lemma obq_remove_frame: "stream_obq_remove h s = Some h' \<Longrightarrow> tree_frame h h'"
  by (auto simp: stream_obq_remove_def dest: obq_remove_loop_frame split: if_splits)

lemma obq_move_frame:
  assumes "stream_obq_move m h dest src s = Some (rv, h')"
  shows "tree_frame h h'"
proof -
  let ?h = "\<lambda>q. (h(src := (h src)\<lparr>obq := q\<rparr>))(s := ((h(src := (h src)\<lparr>obq := q\<rparr>)) s)\<lparr>queued := False\<rparr>)"
  have "tree_frame h (?h q)" for q by (simp add: tree_frame_def)
  moreover have "h' = h \<or> (\<exists>q. stream_obq_push m (?h q) (Some dest) s = Some (rv, h'))"
    using assms unfolding stream_obq_move_def Let_def by (auto split: if_splits option.splits)
  ultimately show ?thesis using obq_push_frame tree_frame_trans by fastforce
qed

lemma link_frame:
  "tree_frame h (link_dep h d s)" "tree_frame h (link_sib h a b)"
  by (auto simp: link_dep_def link_sib_def Let_def tree_frame_def split: option.splits)

lemma set_dep_prev_frame: "set_dep_prev h s dep = Some h' \<Longrightarrow> tree_frame h h'"
proof (rule set_dep_prev.raw_induct [where P = "\<lambda>h _ _ h'. tree_frame h h'", rotated])
  fix f :: "stream_heap \<Rightarrow> nat option \<Rightarrow> nat option \<Rightarrow> stream_heap option" and h :: stream_heap and s dep h'
  assume IH: "\<And>h s dep h'. f h s dep = Some h' \<Longrightarrow> tree_frame h h'"
  have "tree_frame h (h(a := (h a)\<lparr>dep_prev := dep\<rparr>))" for a by (simp add: tree_frame_def)
  moreover assume "(case s of
        None \<Rightarrow> Some h
      | Some a \<Rightarrow> let h = h(a := (h a)\<lparr>dep_prev := dep\<rparr>) in f h (sib_next (h a)) dep) = Some h'"
  ultimately show "tree_frame h h'" using IH tree_frame_trans by (fastforce simp: Let_def split: option.splits)
qed

lemma unlink_frame: "unlink_sib h s = Some h' \<Longrightarrow> tree_frame h h'" "unlink_dep h s = Some h' \<Longrightarrow> tree_frame h h'"
proof -
  note t = tree_frame_trans [OF link_frame(1)] tree_frame_trans [OF link_frame(2)] tree_frame_trans [OF _ link_frame(2)]
  show "tree_frame h h'" if u: "unlink_sib h s = Some h'"
  proof (cases "dep_next (h s)")
    case None
    then show ?thesis using u by (auto simp: unlink_sib_def Let_def tree_frame_def split: option.splits)
  next
    case (Some dn)
    then show ?thesis using u
      by (auto simp: unlink_sib_def split: option.splits if_splits dest!: set_dep_prev_frame intro: t)
  qed
  show "tree_frame h h'" if u: "unlink_dep h s = Some h'"
  proof (cases "dep_next (h s)")
    case None
    have "tree_frame h (h(n := (h n)\<lparr>sib_prev := None\<rparr>))" for n by (simp add: tree_frame_def)
    then show ?thesis using None u
      by (auto simp: unlink_dep_def split: option.splits intro: tree_frame_trans [OF _ link_frame(1)])
        (simp add: tree_frame_def)
  next
    case (Some dn)
    then show ?thesis using u
      by (auto simp: unlink_dep_def split: option.splits if_splits dest!: set_dep_prev_frame intro: t)
  qed
qed

lemma dep_move_loop_frame: "dep_move_loop m h dep s si = Some r \<Longrightarrow> tree_frame h (snd r)"
proof (rule dep_move_loop.raw_induct [where P = "\<lambda>_ h _ _ _ r. tree_frame h (snd r)", rotated])
  fix f :: "mem \<Rightarrow> stream_heap \<Rightarrow> nat \<Rightarrow> nat \<Rightarrow> nat option \<Rightarrow> (rc \<times> stream_heap) option"
    and m and h :: stream_heap and dep s si r
  assume IH: "\<And>m h dep s si r. f m h dep s si = Some r \<Longrightarrow> tree_frame h (snd r)"
  let ?h = "\<lambda>i. h(i := (h i)\<lparr>dep_prev := Some s\<rparr>)"
  have h: "tree_frame h (?h i)" for i by (simp add: tree_frame_def)
  assume op: "(case si of
        None \<Rightarrow> Some (0, h)
      | Some i \<Rightarrow>
          let h = h(i := (h i)\<lparr>dep_prev := Some s\<rparr>)
          in if queued (h i) then
               (case stream_obq_move m h s dep i of
                  None \<Rightarrow> None
                | Some (rv, h) \<Rightarrow> if rv \<noteq> 0 then Some (rv, h) else f m h dep s (sib_next (h i)))
             else f m h dep s (sib_next (h i))) = Some r"
  show "tree_frame h (snd r)"
  proof (cases si)
    case None
    then show ?thesis using op by (auto simp only: option.case option.inject snd_conv)
  next
    case i: (Some i)
    show ?thesis
    proof (cases "queued (?h i i)")
      case False
      have "f m (?h i) dep s (sib_next (?h i i)) = Some r"
        using op unfolding Let_def by (simp only: i option.case False if_False)
      then show ?thesis by (rule tree_frame_trans [OF h IH])
    next
      case True
      have e: "(case stream_obq_move m (?h i) s dep i of
          None \<Rightarrow> None | Some (rv, h) \<Rightarrow> if rv \<noteq> 0 then Some (rv, h) else f m h dep s (sib_next (h i))) = Some r"
        using op unfolding Let_def by (simp only: i option.case True if_True)
      then obtain rv h' where mv: "stream_obq_move m (?h i) s dep i = Some (rv, h')" by (auto split: option.splits)
      have h': "tree_frame h h'" by (rule tree_frame_trans [OF h obq_move_frame [OF mv]])
      have "r = (rv, h') \<or> f m h' dep s (sib_next (h' i)) = Some r" using e unfolding mv by (auto split: if_splits)
      then show ?thesis using h' tree_frame_trans [OF h' IH] by (elim disjE) simp_all
    qed
  qed
qed

lemma dep_remove_loop_frame: "dep_remove_loop m h s d si = Some r \<Longrightarrow> tree_frame h (snd (snd r))"
proof (rule dep_remove_loop.raw_induct [where P = "\<lambda>_ h _ _ _ r. tree_frame h (snd (snd r))", rotated])
  fix f :: "mem \<Rightarrow> stream_heap \<Rightarrow> nat \<Rightarrow> int \<Rightarrow> nat option \<Rightarrow> (rc \<times> int \<times> stream_heap) option"
    and m and h :: stream_heap and s d si r
  assume IH: "\<And>m h s d si r. f m h s d si = Some r \<Longrightarrow> tree_frame h (snd (snd r))"
  let ?h = "\<lambda>i. h(i := (h i)\<lparr>weight := nghttp2_stream_dep_distributed_weight (h s) (weight (h i))\<rparr>)"
  have h: "tree_frame h (?h i)" for i by (simp add: tree_frame_def)
  assume op: "(case si of
        None \<Rightarrow> Some (0, d, h)
      | Some i \<Rightarrow>
          let h = h(i := (h i)\<lparr>weight := nghttp2_stream_dep_distributed_weight (h s) (weight (h i))\<rparr>);
              d = d + weight (h i)
          in if queued (h i) then
               (case dep_prev (h s) of
                  None \<Rightarrow> None
                | Some dp \<Rightarrow>
                    (case stream_obq_move m h dp s i of
                       None \<Rightarrow> None
                     | Some (rv, h) \<Rightarrow>
                         if rv \<noteq> 0 then Some (rv, d, h) else f m h s d (sib_next (h i))))
             else f m h s d (sib_next (h i))) = Some r"
  show "tree_frame h (snd (snd r))"
  proof (cases si)
    case None
    then show ?thesis using op by (auto simp only: option.case option.inject snd_conv)
  next
    case i: (Some i)
    let ?d = "d + weight (?h i i)"
    show ?thesis
    proof (cases "queued (?h i i)")
      case False
      have "f m (?h i) s ?d (sib_next (?h i i)) = Some r"
        using op unfolding Let_def by (simp only: i option.case False if_False)
      then show ?thesis by (rule tree_frame_trans [OF h IH])
    next
      case True
      have e: "(case dep_prev (?h i s) of None \<Rightarrow> None | Some dp \<Rightarrow> (case stream_obq_move m (?h i) dp s i of
          None \<Rightarrow> None | Some (rv, h) \<Rightarrow> if rv \<noteq> 0 then Some (rv, ?d, h) else f m h s ?d (sib_next (h i)))) = Some r"
        using op unfolding Let_def by (simp only: i option.case True if_True)
      then obtain dp rv h' where dp: "dep_prev (?h i s) = Some dp" and mv: "stream_obq_move m (?h i) dp s i = Some (rv, h')"
        by (auto split: option.splits)
      have h': "tree_frame h h'" by (rule tree_frame_trans [OF h obq_move_frame [OF mv]])
      have "r = (rv, ?d, h') \<or> f m h' s ?d (sib_next (h' i)) = Some r"
        using e unfolding dp option.case mv by (auto split: if_splits)
      then show ?thesis using h' tree_frame_trans [OF h' IH] by (elim disjE) simp_all
    qed
  qed
qed

text \<open>The operations that open, close and move streams.\<close>

lemma dep_add_frame: "nghttp2_stream_dep_add h dep s = Some h' \<Longrightarrow> tree_frame h h'"
proof -
  have "tree_frame h (h(dep := (h dep)\<lparr>sum_dep_weight := w\<rparr>))" for w by (simp add: tree_frame_def)
  then show "nghttp2_stream_dep_add h dep s = Some h' \<Longrightarrow> tree_frame h h'"
    using link_frame tree_frame_trans
    by (auto simp: nghttp2_stream_dep_add_def insert_link_dep_def Let_def simp del: fun_upd_apply split: if_splits) blast+
qed

lemma push_if_active_frame: "push_if_active m h dep s = Some (rv, h') \<Longrightarrow> tree_frame h h'"
  using obq_push_frame by (fastforce simp: push_if_active_def split: if_splits)

lemma dep_insert_frame:
  assumes "nghttp2_stream_dep_insert m h dep s = Some (rv, h')"
  shows "tree_frame h h'"
proof -
  let ?h1 = "h(s := (h s)\<lparr>sum_dep_weight := sum_dep_weight (h dep)\<rparr>)"
  let ?h2 = "?h1(dep := (?h1 dep)\<lparr>sum_dep_weight := weight (?h1 s)\<rparr>)"
  let ?fin = "\<lambda>h. (h(dep := (h dep)\<lparr>dep_next := Some s\<rparr>))(s := ((h(dep := (h dep)\<lparr>dep_next := Some s\<rparr>)) s)\<lparr>dep_prev := Some dep\<rparr>)"
  have h2: "tree_frame h ?h2" by (simp add: tree_frame_def)
  have fin: "tree_frame h (?fin k)" if "tree_frame h k" for k :: stream_heap using that by (simp add: tree_frame_def)
  have sn: "tree_frame h (k(s := (k s)\<lparr>dep_next := x\<rparr>))" if "tree_frame h k" for k :: stream_heap and x using that by (simp add: tree_frame_def)
  consider "h' = ?fin ?h2" | v k where "dep_move_loop m ?h2 dep s (dep_next (?h2 dep)) = Some (v, k)"
      "h' = k \<or> (\<exists>v' k'. push_if_active m k dep s = Some (v', k') \<and> (h' = k' \<or> h' = ?fin (k'(s := (k' s)\<lparr>dep_next := dep_next (k' dep)\<rparr>))))"
    using assms unfolding nghttp2_stream_dep_insert_def Let_def push_if_active_def [symmetric]
    by (auto simp del: fun_upd_apply split: option.splits if_splits prod.splits)
  then show ?thesis
  proof cases
    case 1
    then show ?thesis using fin [OF h2] by simp
  next
    case (2 v k)
    have k: "tree_frame h k" using tree_frame_trans [OF h2 dep_move_loop_frame [OF 2(1)]] by simp
    then show ?thesis using 2(2) push_if_active_frame tree_frame_trans fin sn by blast
  qed
qed

lemma dep_remove_frame:
  assumes "nghttp2_stream_dep_remove m h s = Some (rv, h')"
  shows "tree_frame h h'"
proof -
  obtain v d k where k: "dep_remove_loop m h s (- weight (h s)) (dep_next (h s)) = Some (v, d, k)"
    using assms unfolding nghttp2_stream_dep_remove_def by (auto split: option.splits)
  have f: "tree_frame h k" using dep_remove_loop_frame [OF k] by simp
  let ?k1 = "\<lambda>dp. k(dp := (k dp)\<lparr>sum_dep_weight := sum_dep_weight (k dp) + d\<rparr>)"
  let ?fin = "\<lambda>h. h(s := (h s)\<lparr>sum_dep_weight := 0, dep_prev := None, dep_next := None, sib_prev := None, sib_next := None\<rparr>)"
  have k1: "tree_frame h (?k1 dp)" for dp using f by (simp add: tree_frame_def)
  have fin: "tree_frame h (?fin k)" if "tree_frame h k" for k :: stream_heap using that by (simp add: tree_frame_def)
  have "h' = k \<or> (\<exists>dp k2 k3. (k2 = ?k1 dp \<or> stream_obq_remove (?k1 dp) s = Some k2) \<and>
      (unlink_sib k2 s = Some k3 \<or> unlink_dep k2 s = Some k3) \<and> h' = ?fin k3)"
    using assms k unfolding nghttp2_stream_dep_remove_def Let_def
    by (auto simp del: fun_upd_apply split: option.splits if_splits)
  then show ?thesis
  proof (elim disjE [of "h' = k"] exE conjE)
    fix dp k2 k3
    assume a: "k2 = ?k1 dp \<or> stream_obq_remove (?k1 dp) s = Some k2" "unlink_sib k2 s = Some k3 \<or> unlink_dep k2 s = Some k3"
      and h': "h' = ?fin k3"
    have k2: "tree_frame h k2" using a(1) k1 obq_remove_frame tree_frame_trans by blast
    have "tree_frame h k3" using a(2) unlink_frame tree_frame_trans [OF k2] by blast
    then show ?thesis using h' fin by blast
  qed (use f in blast)
qed

end
