(* ===== verification/Session.thy ===== *)
theory Session
  imports Dep_Tree Options Scheduler Map_Table Http Hd_Inflate
begin

text \<open>
  The state of a session (\<open>struct nghttp2_session\<close> in \<open>nghttp2_session.h\<close>), its stream table, its
  outbound queues (\<open>nghttp2_outbound_item.c\<close>) and the operations of \<open>nghttp2_session.c\<close> that put
  control frames on them.

  The stream table is the hash map of \<open>Map_Table\<close> from stream ids to addresses, and the stream
  objects are in the heap of the scheduler state, which also holds the root of the dependency tree.
  An outbound queue is the list of the items on its \<open>qnext\<close> chain.  Every allocation the session
  makes asks \<open>s_alloc\<close>, which says what the n-th request returns (\<open>None\<close> is \<open>NULL\<close>), so each of them
  may fail independently of the others.
\<close>

subsection \<open>Frames and outbound items\<close>

text \<open>The union \<open>nghttp2_frame\<close>; the constructor stands for \<open>hd.type\<close>.\<close>

datatype nghttp2_frame =
    Data_frame nghttp2_data
  | Headers_frame nghttp2_headers
  | Priority_frame nghttp2_priority
  | Rst_stream_frame nghttp2_rst_stream
  | Settings_frame nghttp2_settings
  | Push_promise_frame nghttp2_push_promise
  | Ping_frame nghttp2_ping
  | Goaway_frame nghttp2_goaway
  | Window_update_frame nghttp2_window_update
  | Altsvc_frame "nghttp2_ext_altsvc nghttp2_extension"
  | Origin_frame "nghttp2_ext_origin nghttp2_extension"
  | Priority_update_frame "nghttp2_ext_priority_update nghttp2_extension"
  | Extension_frame nghttp2_frame_hd

fun frame_hd :: "nghttp2_frame \<Rightarrow> nghttp2_frame_hd" where
  "frame_hd (Data_frame f) = data_hd f"
| "frame_hd (Headers_frame f) = headers_hd f"
| "frame_hd (Priority_frame f) = priority_hd f"
| "frame_hd (Rst_stream_frame f) = rst_hd f"
| "frame_hd (Settings_frame f) = settings_hd f"
| "frame_hd (Push_promise_frame f) = pp_hd f"
| "frame_hd (Ping_frame f) = ping_hd f"
| "frame_hd (Goaway_frame f) = goaway_hd f"
| "frame_hd (Window_update_frame f) = wu_hd f"
| "frame_hd (Altsvc_frame f) = ext_hd f"
| "frame_hd (Origin_frame f) = ext_hd f"
| "frame_hd (Priority_update_frame f) = ext_hd f"
| "frame_hd (Extension_frame h) = h"

abbreviation frame_sid :: "nghttp2_frame \<Rightarrow> int" where
  "frame_sid f \<equiv> fh_stream_id (frame_hd f)"

record nghttp2_headers_aux_data =
  haux_stream_user_data :: nat
  haux_error_code :: u32
  haux_canceled :: bool

record nghttp2_data_aux_data =
  daux_flags :: u8
  daux_eof :: bool
  daux_no_copy :: bool

text \<open>The union \<open>nghttp2_aux_data\<close>; \<open>Aux_zero\<close> is the state after \<open>memset\<close>.\<close>

datatype nghttp2_aux_data =
    Aux_zero
  | Aux_data nghttp2_data_aux_data
  | Aux_headers nghttp2_headers_aux_data
  | Aux_goaway u8
  | Aux_ext bool

record nghttp2_outbound_item =
  oi_addr :: nat
  oi_frame :: nghttp2_frame
  oi_aux :: nghttp2_aux_data
  oi_cycle :: u64
  oi_queued :: bool

text \<open>\<open>nghttp2_outbound_item_init\<close> on the item at address \<open>a\<close>, with the frame the caller then sets.\<close>

definition nghttp2_outbound_item_init :: "nat \<Rightarrow> nghttp2_frame \<Rightarrow> nghttp2_outbound_item" where
  "nghttp2_outbound_item_init a f =
     \<lparr>oi_addr = a, oi_frame = f, oi_aux = Aux_zero, oi_cycle = 0, oi_queued = False\<rparr>"

text \<open>The members of the \<open>headers\<close> part of the union.\<close>

fun aux_headers :: "nghttp2_aux_data \<Rightarrow> nghttp2_headers_aux_data" where
  "aux_headers (Aux_headers a) = a"
| "aux_headers _ = \<lparr>haux_stream_user_data = 0, haux_error_code = 0, haux_canceled = False\<rparr>"

type_synonym nghttp2_outbound_queue = "nghttp2_outbound_item list"

definition nghttp2_outbound_queue_init :: nghttp2_outbound_queue where
  "nghttp2_outbound_queue_init = []"

definition nghttp2_outbound_queue_push :: "nghttp2_outbound_queue \<Rightarrow> nghttp2_outbound_item \<Rightarrow> nghttp2_outbound_queue" where
  "nghttp2_outbound_queue_push q it = q @ [it]"

definition nghttp2_outbound_queue_pop :: "nghttp2_outbound_queue \<Rightarrow> nghttp2_outbound_queue" where
  "nghttp2_outbound_queue_pop q = tl q"

definition nghttp2_outbound_queue_top :: "nghttp2_outbound_queue \<Rightarrow> nghttp2_outbound_item option" where
  "nghttp2_outbound_queue_top q = (case q of [] \<Rightarrow> None | it # _ \<Rightarrow> Some it)"

definition nghttp2_outbound_queue_size :: "nghttp2_outbound_queue \<Rightarrow> nat" where
  "nghttp2_outbound_queue_size q = length q"

subsection \<open>The session\<close>

datatype nghttp2_inbound_state =
    NGHTTP2_IB_READ_CLIENT_MAGIC | NGHTTP2_IB_READ_FIRST_SETTINGS | NGHTTP2_IB_READ_HEAD
  | NGHTTP2_IB_READ_NBYTE | NGHTTP2_IB_READ_HEADER_BLOCK | NGHTTP2_IB_IGN_HEADER_BLOCK
  | NGHTTP2_IB_IGN_PAYLOAD | NGHTTP2_IB_FRAME_SIZE_ERROR | NGHTTP2_IB_READ_SETTINGS
  | NGHTTP2_IB_READ_GOAWAY_DEBUG | NGHTTP2_IB_EXPECT_CONTINUATION | NGHTTP2_IB_IGN_CONTINUATION
  | NGHTTP2_IB_READ_PAD_DATA | NGHTTP2_IB_READ_DATA | NGHTTP2_IB_IGN_DATA | NGHTTP2_IB_IGN_ALL
  | NGHTTP2_IB_READ_ALTSVC_PAYLOAD | NGHTTP2_IB_READ_ORIGIN_PAYLOAD | NGHTTP2_IB_READ_EXTENSION_PAYLOAD

datatype nghttp2_outbound_state =
    NGHTTP2_OB_POP_ITEM | NGHTTP2_OB_SEND_DATA | NGHTTP2_OB_SEND_NO_COPY | NGHTTP2_OB_SEND_CLIENT_MAGIC

record nghttp2_settings_storage =
  st_header_table_size :: u32
  st_enable_push :: u32
  st_max_concurrent_streams :: u32
  st_initial_window_size :: u32
  st_max_frame_size :: u32
  st_max_header_list_size :: u32
  st_enable_connect_protocol :: u32
  st_no_rfc7540_priorities :: u32

record nghttp2_session =
  s_streams :: nghttp2_map
  s_core :: sched_session
  s_root :: nat
  s_ob_urgent :: nghttp2_outbound_queue
  s_ob_reg :: nghttp2_outbound_queue
  s_ob_syn :: nghttp2_outbound_queue
  s_items :: "nat \<rightharpoonup> nghttp2_outbound_item"
  s_aob_item :: "nghttp2_outbound_item option"
  s_aob_state :: nghttp2_outbound_state
  s_framebufs :: nghttp2_bufs
  s_iframe_state :: nghttp2_inbound_state
  s_payloadleft :: nat
  s_hd_deflater :: nghttp2_hd_deflater
  s_hd_inflater :: nghttp2_hd_inflater
  s_stream_reset_ratelim :: nghttp2_ratelim
  s_alloc :: "nat \<Rightarrow> nat option"
  s_nalloc :: nat
  s_closed_stream_head :: "nat option"
  s_closed_stream_tail :: "nat option"
  s_idle_stream_head :: "nat option"
  s_idle_stream_tail :: "nat option"
  s_stream_seq :: u64
  s_num_outgoing_streams :: nat
  s_num_incoming_streams :: nat
  s_num_incoming_reserved_streams :: nat
  s_num_closed_streams :: nat
  s_num_idle_streams :: nat
  s_max_incoming_reserved_streams :: nat
  s_obq_flood_counter :: nat
  s_max_send_header_block_length :: nat
  s_max_outbound_ack :: nat
  s_max_settings :: nat
  s_max_continuations :: nat
  s_next_stream_id :: u32
  s_last_sent_stream_id :: int
  s_last_recv_stream_id :: int
  s_last_proc_stream_id :: int
  s_local_last_stream_id :: int
  s_remote_last_stream_id :: int
  s_remote_window_size :: int
  s_recv_window_size :: int
  s_consumed_size :: int
  s_recv_reduction :: int
  s_local_window_size :: int
  s_remote_settings :: nghttp2_settings_storage
  s_local_settings :: nghttp2_settings_storage
  s_opt_flags :: u32
  s_pending_local_max_concurrent_stream :: u32
  s_builtin_recv_ext_types :: u32
  s_pending_enable_push :: u8
  s_pending_no_rfc7540_priorities :: u8
  s_fallback_rfc7540_priorities :: bool
  s_goaway_flags :: u8
  s_window_update_queued :: bool
  s_user_recv_ext_types :: bytes

abbreviation s_heap :: "nghttp2_session \<Rightarrow> stream_heap" where
  "s_heap ss \<equiv> streams (s_core ss)"

abbreviation s_server :: "nghttp2_session \<Rightarrow> bool" where
  "s_server ss \<equiv> server (s_core ss)"

definition set_heap :: "nghttp2_session \<Rightarrow> stream_heap \<Rightarrow> nghttp2_session" where
  "set_heap ss h = ss\<lparr>s_core := (s_core ss)\<lparr>streams := h\<rparr>\<rparr>"

text \<open>An assignment to fields of the stream at address \<open>s\<close>.\<close>

definition upd_stream :: "nghttp2_session \<Rightarrow> nat \<Rightarrow> (nghttp2_stream \<Rightarrow> nghttp2_stream) \<Rightarrow> nghttp2_session" where
  "upd_stream ss s f = set_heap ss ((s_heap ss)(s := f (s_heap ss s)))"

definition session_malloc :: "nghttp2_session \<Rightarrow> nat option \<times> nghttp2_session" where
  "session_malloc ss = (s_alloc ss (s_nalloc ss), ss\<lparr>s_nalloc := Suc (s_nalloc ss)\<rparr>)"

text \<open>The allocator as an operation on streams sees it, and the session after that operation.\<close>

definition session_mem :: "nghttp2_session \<Rightarrow> mem" where
  "session_mem ss n \<longleftrightarrow> s_alloc ss (s_nalloc ss) \<noteq> None"

definition mem_used :: "nghttp2_session \<Rightarrow> nghttp2_session" where
  "mem_used ss = ss\<lparr>s_nalloc := Suc (s_nalloc ss)\<rparr>"

text \<open>The counters of streams are \<open>size_t\<close>.\<close>

definition size_dec :: "nat \<Rightarrow> nat" where
  "size_dec n = (if n = 0 then 2 ^ 64 - 1 else n - 1)"

definition NGHTTP2_OPTMASK_NO_AUTO_WINDOW_UPDATE :: u32 where "NGHTTP2_OPTMASK_NO_AUTO_WINDOW_UPDATE = push_bit 0 1"
definition NGHTTP2_OPTMASK_NO_RECV_CLIENT_MAGIC :: u32 where "NGHTTP2_OPTMASK_NO_RECV_CLIENT_MAGIC = push_bit 1 1"
definition NGHTTP2_OPTMASK_NO_HTTP_MESSAGING :: u32 where "NGHTTP2_OPTMASK_NO_HTTP_MESSAGING = push_bit 2 1"
definition NGHTTP2_OPTMASK_NO_AUTO_PING_ACK :: u32 where "NGHTTP2_OPTMASK_NO_AUTO_PING_ACK = push_bit 3 1"
definition NGHTTP2_OPTMASK_NO_CLOSED_STREAMS :: u32 where "NGHTTP2_OPTMASK_NO_CLOSED_STREAMS = push_bit 4 1"
definition NGHTTP2_OPTMASK_SERVER_FALLBACK_RFC7540_PRIORITIES :: u32 where
  "NGHTTP2_OPTMASK_SERVER_FALLBACK_RFC7540_PRIORITIES = push_bit 5 1"
definition NGHTTP2_OPTMASK_NO_RFC9113_LEADING_AND_TRAILING_WS_VALIDATION :: u32 where
  "NGHTTP2_OPTMASK_NO_RFC9113_LEADING_AND_TRAILING_WS_VALIDATION = push_bit 6 1"

definition NGHTTP2_GOAWAY_TERM_ON_SEND :: u8 where "NGHTTP2_GOAWAY_TERM_ON_SEND = 0x1"
definition NGHTTP2_GOAWAY_TERM_SENT :: u8 where "NGHTTP2_GOAWAY_TERM_SENT = 0x2"
definition NGHTTP2_GOAWAY_SENT :: u8 where "NGHTTP2_GOAWAY_SENT = 0x4"
definition NGHTTP2_GOAWAY_RECV :: u8 where "NGHTTP2_GOAWAY_RECV = 0x8"
definition NGHTTP2_GOAWAY_SUBMITTED :: u8 where "NGHTTP2_GOAWAY_SUBMITTED = 0x10"
definition NGHTTP2_GOAWAY_AUX_TERM_ON_SEND :: u8 where "NGHTTP2_GOAWAY_AUX_TERM_ON_SEND = 0x1"
definition NGHTTP2_GOAWAY_AUX_SHUTDOWN_NOTICE :: u8 where "NGHTTP2_GOAWAY_AUX_SHUTDOWN_NOTICE = 0x2"

definition NGHTTP2_FLAG_ACK :: u8 where "NGHTTP2_FLAG_ACK = 0x01"

definition NGHTTP2_ERR_PROTO :: rc where "NGHTTP2_ERR_PROTO = -505"
definition NGHTTP2_ERR_STREAM_CLOSED :: rc where "NGHTTP2_ERR_STREAM_CLOSED = -510"
definition NGHTTP2_ERR_STREAM_CLOSING :: rc where "NGHTTP2_ERR_STREAM_CLOSING = -511"
definition NGHTTP2_ERR_STREAM_SHUT_WR :: rc where "NGHTTP2_ERR_STREAM_SHUT_WR = -512"
definition NGHTTP2_ERR_INVALID_STREAM_STATE :: rc where "NGHTTP2_ERR_INVALID_STREAM_STATE = -514"
definition NGHTTP2_ERR_DATA_EXIST :: rc where "NGHTTP2_ERR_DATA_EXIST = -529"
definition NGHTTP2_ERR_SESSION_CLOSING :: rc where "NGHTTP2_ERR_SESSION_CLOSING = -530"
definition NGHTTP2_ERR_HTTP_MESSAGING :: rc where "NGHTTP2_ERR_HTTP_MESSAGING = -532"
definition NGHTTP2_ERR_REFUSED_STREAM :: rc where "NGHTTP2_ERR_REFUSED_STREAM = -533"
definition NGHTTP2_ERR_FATAL :: rc where "NGHTTP2_ERR_FATAL = -900"
definition NGHTTP2_ERR_CALLBACK_FAILURE :: rc where "NGHTTP2_ERR_CALLBACK_FAILURE = -902"
definition NGHTTP2_ERR_FLOODED :: rc where "NGHTTP2_ERR_FLOODED = -904"
definition NGHTTP2_ERR_IGN_PAYLOAD :: rc where "NGHTTP2_ERR_IGN_PAYLOAD = -104"

definition NGHTTP2_NO_ERROR :: u32 where "NGHTTP2_NO_ERROR = 0x00"
definition NGHTTP2_PROTOCOL_ERROR :: u32 where "NGHTTP2_PROTOCOL_ERROR = 0x01"
definition NGHTTP2_INTERNAL_ERROR :: u32 where "NGHTTP2_INTERNAL_ERROR = 0x02"
definition NGHTTP2_FLOW_CONTROL_ERROR :: u32 where "NGHTTP2_FLOW_CONTROL_ERROR = 0x03"
definition NGHTTP2_STREAM_CLOSED :: u32 where "NGHTTP2_STREAM_CLOSED = 0x05"
definition NGHTTP2_REFUSED_STREAM :: u32 where "NGHTTP2_REFUSED_STREAM = 0x07"
definition NGHTTP2_COMPRESSION_ERROR :: u32 where "NGHTTP2_COMPRESSION_ERROR = 0x09"

definition NGHTTP2_MAX_PAYLOADLEN :: nat where "NGHTTP2_MAX_PAYLOADLEN = 16384"
definition NGHTTP2_DATA_PAYLOADLEN :: int where "NGHTTP2_DATA_PAYLOADLEN = 16384"

lemmas session_const_defs [ng_defs] =
  NGHTTP2_OPTMASK_NO_AUTO_WINDOW_UPDATE_def NGHTTP2_OPTMASK_NO_HTTP_MESSAGING_def NGHTTP2_OPTMASK_NO_AUTO_PING_ACK_def
  NGHTTP2_GOAWAY_TERM_ON_SEND_def NGHTTP2_GOAWAY_TERM_SENT_def NGHTTP2_GOAWAY_SENT_def NGHTTP2_GOAWAY_RECV_def
  NGHTTP2_GOAWAY_SUBMITTED_def NGHTTP2_GOAWAY_AUX_TERM_ON_SEND_def NGHTTP2_GOAWAY_AUX_SHUTDOWN_NOTICE_def
  NGHTTP2_FLAG_ACK_def NGHTTP2_ERR_STREAM_CLOSED_def NGHTTP2_ERR_STREAM_CLOSING_def NGHTTP2_ERR_STREAM_SHUT_WR_def
  NGHTTP2_ERR_INVALID_STREAM_STATE_def NGHTTP2_ERR_DATA_EXIST_def NGHTTP2_ERR_SESSION_CLOSING_def
  NGHTTP2_ERR_FATAL_def NGHTTP2_ERR_CALLBACK_FAILURE_def NGHTTP2_ERR_FLOODED_def NGHTTP2_ERR_IGN_PAYLOAD_def
  NGHTTP2_FLOW_CONTROL_ERROR_def NGHTTP2_PROTOCOL_ERROR_def NGHTTP2_MAX_PAYLOADLEN_def NGHTTP2_DATA_PAYLOADLEN_def

subsection \<open>Queries\<close>

definition is_non_fatal :: "rc \<Rightarrow> bool" where
  "is_non_fatal lib_error_code \<longleftrightarrow> lib_error_code < 0 \<and> lib_error_code > NGHTTP2_ERR_FATAL"

definition nghttp2_is_fatal :: "rc \<Rightarrow> bool" where
  "nghttp2_is_fatal lib_error_code \<longleftrightarrow> lib_error_code < NGHTTP2_ERR_FATAL"

definition session_is_outgoing_concurrent_streams_max :: "nghttp2_session \<Rightarrow> bool" where
  "session_is_outgoing_concurrent_streams_max ss \<longleftrightarrow>
     unat (st_max_concurrent_streams (s_remote_settings ss)) \<le> s_num_outgoing_streams ss"

definition session_is_incoming_concurrent_streams_max :: "nghttp2_session \<Rightarrow> bool" where
  "session_is_incoming_concurrent_streams_max ss \<longleftrightarrow>
     unat (st_max_concurrent_streams (s_local_settings ss)) \<le> s_num_incoming_streams ss"

definition session_enforce_http_messaging :: "nghttp2_session \<Rightarrow> bool" where
  "session_enforce_http_messaging ss \<longleftrightarrow> s_opt_flags ss AND NGHTTP2_OPTMASK_NO_HTTP_MESSAGING = 0"

definition nghttp2_session_is_my_stream_id :: "nghttp2_session \<Rightarrow> int \<Rightarrow> bool" where
  "nghttp2_session_is_my_stream_id ss sid \<longleftrightarrow>
     (if sid = 0 then False else if s_server ss then sid mod 2 = 0 else sid mod 2 = 1)"

text \<open>The lookup in the stream table is \<open>None\<close> when the search does not end, \<open>Some None\<close> for \<open>NULL\<close>.\<close>

definition nghttp2_session_get_stream_raw :: "nghttp2_session \<Rightarrow> int \<Rightarrow> nat option option" where
  "nghttp2_session_get_stream_raw ss sid = nghttp2_map_find (s_streams ss) (word_of_int sid)"

definition nghttp2_session_get_stream :: "nghttp2_session \<Rightarrow> int \<Rightarrow> nat option option" where
  "nghttp2_session_get_stream ss sid = do {
     stream \<leftarrow> nghttp2_map_find (s_streams ss) (word_of_int sid);
     case stream of
       None \<Rightarrow> Some None
     | Some s \<Rightarrow>
         if flags (s_heap ss s) AND NGHTTP2_STREAM_FLAG_CLOSED \<noteq> 0 \<or> state (s_heap ss s) = NGHTTP2_STREAM_IDLE
         then Some None else Some (Some s)
   }"

definition state_reserved_remote :: "nghttp2_session \<Rightarrow> nat \<Rightarrow> bool" where
  "state_reserved_remote ss s \<longleftrightarrow>
     state (s_heap ss s) = NGHTTP2_STREAM_RESERVED \<and> \<not> nghttp2_session_is_my_stream_id ss (stream_id (s_heap ss s))"

definition state_reserved_local :: "nghttp2_session \<Rightarrow> nat \<Rightarrow> bool" where
  "state_reserved_local ss s \<longleftrightarrow>
     state (s_heap ss s) = NGHTTP2_STREAM_RESERVED \<and> nghttp2_session_is_my_stream_id ss (stream_id (s_heap ss s))"

definition session_is_new_peer_stream_id :: "nghttp2_session \<Rightarrow> int \<Rightarrow> bool" where
  "session_is_new_peer_stream_id ss sid \<longleftrightarrow>
     sid \<noteq> 0 \<and> \<not> nghttp2_session_is_my_stream_id ss sid \<and> s_last_recv_stream_id ss < sid"

definition session_detect_idle_stream :: "nghttp2_session \<Rightarrow> int \<Rightarrow> bool" where
  "session_detect_idle_stream ss sid \<longleftrightarrow>
     (if nghttp2_session_is_my_stream_id ss sid then s_last_sent_stream_id ss < sid
      else session_is_new_peer_stream_id ss sid)"

definition session_no_rfc7540_pri_no_fallback :: "nghttp2_session \<Rightarrow> bool" where
  "session_no_rfc7540_pri_no_fallback ss \<longleftrightarrow>
     s_pending_no_rfc7540_priorities ss = 1 \<and> \<not> s_fallback_rfc7540_priorities ss"

text \<open>The subtraction is on \<open>size_t\<close>.\<close>

definition session_get_num_active_streams :: "nghttp2_session \<Rightarrow> u64" where
  "session_get_num_active_streams ss =
     word_of_nat (nghttp2_map_size (s_streams ss)) - word_of_nat (s_num_closed_streams ss) - word_of_nat (s_num_idle_streams ss)"

definition nghttp2_session_want_read :: "nghttp2_session \<Rightarrow> bool" where
  "nghttp2_session_want_read ss \<longleftrightarrow>
     (if s_goaway_flags ss AND NGHTTP2_GOAWAY_TERM_SENT \<noteq> 0 then False
      else if session_get_num_active_streams ss > 0 then True
      else s_goaway_flags ss AND (NGHTTP2_GOAWAY_SENT OR NGHTTP2_GOAWAY_RECV) = 0)"

definition nghttp2_session_want_write :: "nghttp2_session \<Rightarrow> bool" where
  "nghttp2_session_want_write ss \<longleftrightarrow>
     (if s_goaway_flags ss AND NGHTTP2_GOAWAY_TERM_SENT \<noteq> 0 then False
      else s_aob_item ss \<noteq> None \<or> nghttp2_outbound_queue_top (s_ob_urgent ss) \<noteq> None
        \<or> nghttp2_outbound_queue_top (s_ob_reg ss) \<noteq> None
        \<or> (\<not> nghttp2_pq_empty (obq (s_heap ss (s_root ss))) \<or> \<not> session_sched_empty (s_core ss))
           \<and> s_remote_window_size ss > 0
        \<or> nghttp2_outbound_queue_top (s_ob_syn ss) \<noteq> None \<and> \<not> session_is_outgoing_concurrent_streams_max ss)"

definition session_allow_incoming_new_stream :: "nghttp2_session \<Rightarrow> bool" where
  "session_allow_incoming_new_stream ss \<longleftrightarrow>
     s_goaway_flags ss AND (NGHTTP2_GOAWAY_TERM_ON_SEND OR NGHTTP2_GOAWAY_SENT) = 0"

definition session_is_closing :: "nghttp2_session \<Rightarrow> bool" where
  "session_is_closing ss \<longleftrightarrow>
     s_goaway_flags ss AND NGHTTP2_GOAWAY_TERM_ON_SEND \<noteq> 0
     \<or> \<not> nghttp2_session_want_read ss \<and> \<not> nghttp2_session_want_write ss"

definition nghttp2_session_check_request_allowed :: "nghttp2_session \<Rightarrow> bool" where
  "nghttp2_session_check_request_allowed ss \<longleftrightarrow>
     \<not> s_server ss \<and> uint (s_next_stream_id ss) \<le> INT32_MAX
     \<and> s_goaway_flags ss AND NGHTTP2_GOAWAY_RECV = 0 \<and> \<not> session_is_closing ss"

definition session_predicate_for_stream_send :: "nghttp2_session \<Rightarrow> nat option \<Rightarrow> rc" where
  "session_predicate_for_stream_send ss stream =
     (case stream of
        None \<Rightarrow> NGHTTP2_ERR_STREAM_CLOSED
      | Some s \<Rightarrow>
          if session_is_closing ss then NGHTTP2_ERR_SESSION_CLOSING
          else if shut_flags (s_heap ss s) AND NGHTTP2_SHUT_WR \<noteq> 0 then NGHTTP2_ERR_STREAM_SHUT_WR
          else 0)"

definition session_predicate_window_update_send :: "nghttp2_session \<Rightarrow> int \<Rightarrow> rc option" where
  "session_predicate_window_update_send ss sid =
     (if session_is_closing ss then Some NGHTTP2_ERR_SESSION_CLOSING
      else if sid = 0 then Some 0
      else do {
        stream \<leftarrow> nghttp2_session_get_stream ss sid;
        case stream of
          None \<Rightarrow> Some NGHTTP2_ERR_STREAM_CLOSED
        | Some s \<Rightarrow>
            if state (s_heap ss s) = NGHTTP2_STREAM_CLOSING then Some NGHTTP2_ERR_STREAM_CLOSING
            else if state_reserved_local ss s then Some NGHTTP2_ERR_INVALID_STREAM_STATE
            else Some 0
      })"

definition nghttp2_session_predicate_data_send :: "nghttp2_session \<Rightarrow> nat option \<Rightarrow> rc" where
  "nghttp2_session_predicate_data_send ss stream =
     (let rv = session_predicate_for_stream_send ss stream
      in if rv \<noteq> 0 then rv
         else
           case stream of
             None \<Rightarrow> 0
           | Some s \<Rightarrow>
               if nghttp2_session_is_my_stream_id ss (stream_id (s_heap ss s)) then
                 if state (s_heap ss s) = NGHTTP2_STREAM_CLOSING then NGHTTP2_ERR_STREAM_CLOSING
                 else if state (s_heap ss s) = NGHTTP2_STREAM_RESERVED then NGHTTP2_ERR_INVALID_STREAM_STATE
                 else 0
               else if state (s_heap ss s) = NGHTTP2_STREAM_OPENED then 0
               else if state (s_heap ss s) = NGHTTP2_STREAM_CLOSING then NGHTTP2_ERR_STREAM_CLOSING
               else NGHTTP2_ERR_INVALID_STREAM_STATE)"

subsection \<open>Opening a stream\<close>

definition nghttp2_session_keep_idle_stream :: "nghttp2_session \<Rightarrow> nat \<Rightarrow> nghttp2_session" where
  "nghttp2_session_keep_idle_stream ss s =
     (let ss = (case s_idle_stream_tail ss of
                  Some t \<Rightarrow>
                    upd_stream (upd_stream ss t (\<lambda>st. st\<lparr>closed_next := Some s\<rparr>)) s (\<lambda>st. st\<lparr>closed_prev := Some t\<rparr>)
                | None \<Rightarrow> ss\<lparr>s_idle_stream_head := Some s\<rparr>)
      in ss\<lparr>s_idle_stream_tail := Some s, s_num_idle_streams := s_num_idle_streams ss + 1\<rparr>)"

definition nghttp2_session_detach_idle_stream :: "nghttp2_session \<Rightarrow> nat \<Rightarrow> nghttp2_session" where
  "nghttp2_session_detach_idle_stream ss s =
     (let prev_stream = closed_prev (s_heap ss s);
          next_stream = closed_next (s_heap ss s);
          ss = (case prev_stream of
                  Some p \<Rightarrow> upd_stream ss p (\<lambda>st. st\<lparr>closed_next := next_stream\<rparr>)
                | None \<Rightarrow> ss\<lparr>s_idle_stream_head := next_stream\<rparr>);
          ss = (case next_stream of
                  Some n \<Rightarrow> upd_stream ss n (\<lambda>st. st\<lparr>closed_prev := prev_stream\<rparr>)
                | None \<Rightarrow> ss\<lparr>s_idle_stream_tail := prev_stream\<rparr>);
          ss = upd_stream ss s (\<lambda>st. st\<lparr>closed_prev := None, closed_next := None\<rparr>)
      in ss\<lparr>s_num_idle_streams := size_dec (s_num_idle_streams ss)\<rparr>)"

text \<open>
  \<open>nghttp2_session_open_stream\<close> in three parts.  The first finds or allocates the object: the result
  is \<open>NULL\<close>, or the address with \<open>stream_alloc\<close>.
\<close>

definition open_stream_object ::
  "nghttp2_session \<Rightarrow> int \<Rightarrow> ((nat \<times> bool) option \<times> nghttp2_session) option" where
  "open_stream_object ss sid = do {
     stream \<leftarrow> nghttp2_session_get_stream_raw ss sid;
     case stream of
       None \<Rightarrow> (case session_malloc ss of (a, ss) \<Rightarrow> Some (map_option (\<lambda>s. (s, True)) a, ss))
     | Some s \<Rightarrow>
         if state (s_heap ss s) \<noteq> NGHTTP2_STREAM_IDLE \<or>
            \<not> (flags (s_heap ss s) AND NGHTTP2_STREAM_FLAG_NO_RFC7540_PRIORITIES \<noteq> 0 \<or> nghttp2_stream_in_dep_tree (s_heap ss s))
         then None
         else
           let ss = nghttp2_session_detach_idle_stream ss s
           in if \<not> nghttp2_stream_in_dep_tree (s_heap ss s) then Some (Some (s, False), ss)
              else if flags (s_heap ss s) AND NGHTTP2_STREAM_FLAG_NO_RFC7540_PRIORITIES \<noteq> 0 then None
              else do {
                (rv, h) \<leftarrow> nghttp2_stream_dep_remove (session_mem ss) (s_heap ss) s;
                let ss = mem_used (set_heap ss h);
                if rv \<noteq> 0 then Some (None, ss)
                else if session_no_rfc7540_pri_no_fallback ss
                then Some (Some (s, False),
                       upd_stream ss s (\<lambda>st. st\<lparr>flags := flags st OR NGHTTP2_STREAM_FLAG_NO_RFC7540_PRIORITIES\<rparr>))
                else Some (Some (s, False), ss)
              }
   }"

text \<open>
  The last part, from \<open>if (initial_state == NGHTTP2_STREAM_RESERVED)\<close>: the object is initialised and
  registered, counted, and put in the dependency tree below \<open>dep\<close>.
\<close>

definition open_stream_finish ::
  "nghttp2_session \<Rightarrow> int \<Rightarrow> u8 \<Rightarrow> nghttp2_priority_spec \<Rightarrow> nghttp2_stream_state \<Rightarrow> nat \<Rightarrow> nat \<Rightarrow> bool \<Rightarrow> nat option \<Rightarrow>
   (nat option \<times> nghttp2_session) option" where
  "open_stream_finish ss sid fl pri_spec initial_state user_data s stream_alloc dep =
     (let fl = (if initial_state = NGHTTP2_STREAM_RESERVED then fl OR NGHTTP2_STREAM_FLAG_PUSH else fl)
      in do {
        (rv, ss) \<leftarrow>
          (if stream_alloc then do {
             let ss = upd_stream ss s (\<lambda>_. nghttp2_stream_init (\<lambda>_. 0) sid fl initial_state (pri_weight pri_spec)
                        (sint (st_initial_window_size (s_remote_settings ss)))
                        (sint (st_initial_window_size (s_local_settings ss))) user_data);
             let ss = (if session_no_rfc7540_pri_no_fallback ss
                       then (upd_stream ss s (\<lambda>st. st\<lparr>seq := s_stream_seq ss\<rparr>))\<lparr>s_stream_seq := s_stream_seq ss + 1\<rparr>
                       else ss);
             (rv, mp) \<leftarrow> nghttp2_map_insert (session_mem ss) (s_streams ss) (word_of_int sid) (Some s);
             Some (rv, mem_used (ss\<lparr>s_streams := mp\<rparr>))
           }
           else Some (0, upd_stream ss s (\<lambda>st. st\<lparr>flags := fl, state := initial_state, weight := pri_weight pri_spec,
                                                stream_user_data := user_data\<rparr>)));
        if rv \<noteq> 0 then Some (None, ss)
        else do {
          let mine = nghttp2_session_is_my_stream_id ss sid;
          let ss =
            (case initial_state of
               NGHTTP2_STREAM_RESERVED \<Rightarrow>
                 if mine then upd_stream ss s (\<lambda>st. nghttp2_stream_shutdown st NGHTTP2_SHUT_RD)
                 else (upd_stream ss s (\<lambda>st. nghttp2_stream_shutdown st NGHTTP2_SHUT_WR))
                        \<lparr>s_num_incoming_reserved_streams := s_num_incoming_reserved_streams ss + 1\<rparr>
             | NGHTTP2_STREAM_IDLE \<Rightarrow> nghttp2_session_keep_idle_stream ss s
             | _ \<Rightarrow> if mine then ss\<lparr>s_num_outgoing_streams := s_num_outgoing_streams ss + 1\<rparr>
                    else ss\<lparr>s_num_incoming_streams := s_num_incoming_streams ss + 1\<rparr>);
          if flags (s_heap ss s) AND NGHTTP2_STREAM_FLAG_NO_RFC7540_PRIORITIES \<noteq> 0 then Some (Some s, ss)
          else do {
            d \<leftarrow> (if pri_stream_id pri_spec = 0 then Some (s_root ss) else dep);
            if pri_exclusive pri_spec \<noteq> 0 then do {
              (rv, h) \<leftarrow> nghttp2_stream_dep_insert (session_mem ss) (s_heap ss) d s;
              let ss = mem_used (set_heap ss h);
              if rv \<noteq> 0 then Some (None, ss) else Some (Some s, ss)
            }
            else do {
              h \<leftarrow> nghttp2_stream_dep_add (s_heap ss) d s;
              Some (Some s, set_heap ss h)
            }
          }
        }
      })"

text \<open>
  The whole operation.  The recursive call, for the idle stream the new one depends on, is made with
  the default priority, which depends on nothing.
\<close>

function nghttp2_session_open_stream ::
  "nghttp2_session \<Rightarrow> int \<Rightarrow> u8 \<Rightarrow> nghttp2_priority_spec \<Rightarrow> nghttp2_stream_state \<Rightarrow> nat \<Rightarrow>
   (nat option \<times> nghttp2_session) option" where
  "nghttp2_session_open_stream ss sid fl pri_spec initial_state user_data =
     (let fl = (if s_opt_flags ss AND NGHTTP2_OPTMASK_NO_RFC9113_LEADING_AND_TRAILING_WS_VALIDATION \<noteq> 0
                then fl OR NGHTTP2_STREAM_FLAG_NO_RFC9113_LEADING_AND_TRAILING_WS_VALIDATION else fl)
      in case open_stream_object ss sid of
           None \<Rightarrow> None
         | Some (None, ss) \<Rightarrow> Some (None, ss)
         | Some (Some (s, stream_alloc), ss) \<Rightarrow>
             if session_no_rfc7540_pri_no_fallback ss \<or> st_no_rfc7540_priorities (s_remote_settings ss) = 1 then
               let pri = (if s_server ss \<or> st_no_rfc7540_priorities (s_remote_settings ss) = 1
                          then nghttp2_priority_spec_default_init else pri_spec);
                   fl = (if s_pending_no_rfc7540_priorities ss = 1
                         then fl OR NGHTTP2_STREAM_FLAG_NO_RFC7540_PRIORITIES else fl)
               in open_stream_finish ss sid fl pri initial_state user_data s stream_alloc None
             else if pri_stream_id pri_spec \<noteq> 0 then
               (case nghttp2_session_get_stream_raw ss (pri_stream_id pri_spec) of
                  None \<Rightarrow> None
                | Some dep_stream \<Rightarrow>
                    if dep_stream = None \<and> session_detect_idle_stream ss (pri_stream_id pri_spec) then
                      (case nghttp2_session_open_stream ss (pri_stream_id pri_spec) NGHTTP2_FLAG_NONE
                              nghttp2_priority_spec_default_init NGHTTP2_STREAM_IDLE 0 of
                         None \<Rightarrow> None
                       | Some (None, ss) \<Rightarrow> Some (None, ss)
                       | Some (Some d, ss) \<Rightarrow>
                           open_stream_finish ss sid fl pri_spec initial_state user_data s stream_alloc (Some d))
                    else
                      (case dep_stream of
                         Some d \<Rightarrow>
                           if nghttp2_stream_in_dep_tree (s_heap ss d)
                           then open_stream_finish ss sid fl pri_spec initial_state user_data s stream_alloc (Some d)
                           else open_stream_finish ss sid fl nghttp2_priority_spec_default_init initial_state user_data
                                  s stream_alloc (Some d)
                       | None \<Rightarrow>
                           open_stream_finish ss sid fl nghttp2_priority_spec_default_init initial_state user_data
                             s stream_alloc None))
             else open_stream_finish ss sid fl pri_spec initial_state user_data s stream_alloc None)"
  by pat_completeness auto
termination
  by (relation "measure (\<lambda>(_, _, _, pri, _, _). if pri_stream_id pri = 0 then 0 else 1)")
    (auto simp: nghttp2_priority_spec_default_init_def)

declare nghttp2_session_open_stream.simps [simp del]

subsection \<open>Queueing frames\<close>

definition push_urgent :: "nghttp2_session \<Rightarrow> nghttp2_outbound_item \<Rightarrow> nghttp2_session" where
  "push_urgent ss it = ss\<lparr>s_ob_urgent := nghttp2_outbound_queue_push (s_ob_urgent ss) (it\<lparr>oi_queued := True\<rparr>)\<rparr>"

definition push_reg :: "nghttp2_session \<Rightarrow> nghttp2_outbound_item \<Rightarrow> nghttp2_session" where
  "push_reg ss it = ss\<lparr>s_ob_reg := nghttp2_outbound_queue_push (s_ob_reg ss) (it\<lparr>oi_queued := True\<rparr>)\<rparr>"

definition push_syn :: "nghttp2_session \<Rightarrow> nghttp2_outbound_item \<Rightarrow> nghttp2_session" where
  "push_syn ss it = ss\<lparr>s_ob_syn := nghttp2_outbound_queue_push (s_ob_syn ss) (it\<lparr>oi_queued := True\<rparr>)\<rparr>"

definition nghttp2_session_add_item ::
  "nghttp2_session \<Rightarrow> nghttp2_outbound_item \<Rightarrow> (rc \<times> nghttp2_session) option" where
  "nghttp2_session_add_item ss it = do {
     stream \<leftarrow> nghttp2_session_get_stream ss (frame_sid (oi_frame it));
     case oi_frame it of
       Data_frame f \<Rightarrow>
         (case stream of
            None \<Rightarrow> Some (NGHTTP2_ERR_STREAM_CLOSED, ss)
          | Some s \<Rightarrow>
              if item (s_heap ss s) \<noteq> None then Some (NGHTTP2_ERR_DATA_EXIST, ss)
              else do {
                (rv, core) \<leftarrow> session_attach_stream_item (session_mem ss) (s_core ss) s (oi_addr it);
                let ss = mem_used (ss\<lparr>s_core := core\<rparr>);
                if rv \<noteq> 0 then Some (rv, ss)
                else Some (0, ss\<lparr>s_items := (s_items ss)(oi_addr it \<mapsto> it)\<rparr>)
              })
     | Headers_frame f \<Rightarrow>
         if headers_cat f = NGHTTP2_HCAT_REQUEST \<or>
            (\<exists>s \<in> set_option stream. state (s_heap ss s) = NGHTTP2_STREAM_RESERVED)
         then Some (0, push_syn ss it) else Some (0, push_reg ss it)
     | Settings_frame f \<Rightarrow> Some (0, push_urgent ss it)
     | Ping_frame f \<Rightarrow> Some (0, push_urgent ss it)
     | Rst_stream_frame f \<Rightarrow>
         let ss = (case stream of
                     Some s \<Rightarrow> upd_stream ss s (\<lambda>st. st\<lparr>state := NGHTTP2_STREAM_CLOSING\<rparr>)
                   | None \<Rightarrow> ss)
         in Some (0, push_reg ss it)
     | Push_promise_frame f \<Rightarrow>
         (case stream of
            None \<Rightarrow> Some (NGHTTP2_ERR_STREAM_CLOSED, ss)
          | Some s \<Rightarrow> do {
              let pri_spec = nghttp2_priority_spec_init (stream_id (s_heap ss s)) NGHTTP2_DEFAULT_WEIGHT False;
              (r, ss) \<leftarrow> nghttp2_session_open_stream ss (pp_promised_stream_id f) 0 pri_spec NGHTTP2_STREAM_RESERVED
                         (haux_stream_user_data (aux_headers (oi_aux it)));
              if r = None then Some (NGHTTP2_ERR_NOMEM, ss) else Some (0, push_reg ss it)
            })
     | Window_update_frame f \<Rightarrow>
         let ss = (case stream of
                     Some s \<Rightarrow> upd_stream ss s (\<lambda>st. st\<lparr>window_update_queued := True\<rparr>)
                   | None \<Rightarrow> if frame_sid (oi_frame it) = 0 then ss\<lparr>s_window_update_queued := True\<rparr> else ss)
         in Some (0, push_reg ss it)
     | _ \<Rightarrow> Some (0, push_reg ss it)
   }"

text \<open>
  The scan of \<open>ob_syn\<close> in \<open>nghttp2_session_add_rst_stream\<close>: \<open>Some\<close> is the queue with the request for
  the stream cancelled, \<open>None\<close> means that the loop ended without finding one.
\<close>

fun cancel_loop :: "int \<Rightarrow> u32 \<Rightarrow> nghttp2_outbound_queue \<Rightarrow> nghttp2_outbound_queue option" where
  "cancel_loop sid error_code [] = None"
| "cancel_loop sid error_code (it # q) =
     (if frame_sid (oi_frame it) < sid then map_option (Cons it) (cancel_loop sid error_code q)
      else if frame_sid (oi_frame it) > sid \<or> haux_canceled (aux_headers (oi_aux it)) then None
      else Some (it\<lparr>oi_aux := Aux_headers ((aux_headers (oi_aux it))\<lparr>haux_error_code := error_code, haux_canceled := True\<rparr>)\<rparr> # q))"

definition nghttp2_session_add_rst_stream :: "nghttp2_session \<Rightarrow> int \<Rightarrow> u32 \<Rightarrow> (rc \<times> nghttp2_session) option" where
  "nghttp2_session_add_rst_stream ss sid error_code = do {
     stream \<leftarrow> nghttp2_session_get_stream ss sid;
     if (\<exists>s \<in> set_option stream. state (s_heap ss s) = NGHTTP2_STREAM_CLOSING) then Some (0, ss)
     else if (if nghttp2_session_is_my_stream_id ss sid then word_of_int sid \<ge> s_next_stream_id ss
              else s_last_recv_stream_id ss < sid)
     then Some (0, ss)
     else do {
       canceled \<leftarrow>
         (if \<not> s_server ss \<and> nghttp2_session_is_my_stream_id ss sid then
            (case nghttp2_outbound_queue_top (s_ob_syn ss) of
               None \<Rightarrow> Some None
             | Some t \<Rightarrow>
                 (case oi_frame t of
                    Headers_frame hf \<Rightarrow>
                      if fh_stream_id (headers_hd hf) \<le> sid then Some (cancel_loop sid error_code (s_ob_syn ss)) else Some None
                  | _ \<Rightarrow> None))
          else Some None);
       case canceled of
         Some q \<Rightarrow> Some (0, ss\<lparr>s_ob_syn := q\<rparr>)
       | None \<Rightarrow>
           (case session_malloc ss of
              (None, ss) \<Rightarrow> Some (NGHTTP2_ERR_NOMEM, ss)
            | (Some a, ss) \<Rightarrow>
                nghttp2_session_add_item ss
                  (nghttp2_outbound_item_init a (Rst_stream_frame (nghttp2_frame_rst_stream_init sid error_code))))
     }
   }"

definition nghttp2_session_add_ping :: "nghttp2_session \<Rightarrow> u8 \<Rightarrow> bytes option \<Rightarrow> (rc \<times> nghttp2_session) option" where
  "nghttp2_session_add_ping ss fl opaque_data =
     (if fl AND NGHTTP2_FLAG_ACK \<noteq> 0 \<and> s_obq_flood_counter ss \<ge> s_max_outbound_ack ss
      then Some (NGHTTP2_ERR_FLOODED, ss)
      else
        case session_malloc ss of
          (None, ss) \<Rightarrow> Some (NGHTTP2_ERR_NOMEM, ss)
        | (Some a, ss) \<Rightarrow> do {
            (rv, ss) \<leftarrow> nghttp2_session_add_item ss
                         (nghttp2_outbound_item_init a (Ping_frame (nghttp2_frame_ping_init fl opaque_data)));
            if rv \<noteq> 0 then Some (rv, ss)
            else if fl AND NGHTTP2_FLAG_ACK \<noteq> 0
            then Some (0, ss\<lparr>s_obq_flood_counter := s_obq_flood_counter ss + 1\<rparr>)
            else Some (0, ss)
          })"

definition nghttp2_session_add_goaway ::
  "nghttp2_session \<Rightarrow> int \<Rightarrow> u32 \<Rightarrow> bytes \<Rightarrow> u8 \<Rightarrow> (rc \<times> nghttp2_session) option" where
  "nghttp2_session_add_goaway ss last_sid error_code opaque_data aux_flags =
     (if nghttp2_session_is_my_stream_id ss last_sid then Some (NGHTTP2_ERR_INVALID_ARGUMENT, ss)
      else if length opaque_data \<noteq> 0 \<and> length opaque_data + 8 > NGHTTP2_MAX_PAYLOADLEN
      then Some (NGHTTP2_ERR_INVALID_ARGUMENT, ss)
      else
        case (if length opaque_data \<noteq> 0 then session_malloc ss else (Some 0, ss)) of
          (None, ss) \<Rightarrow> Some (NGHTTP2_ERR_NOMEM, ss)
        | (Some _, ss) \<Rightarrow>
            (case session_malloc ss of
               (None, ss) \<Rightarrow> Some (NGHTTP2_ERR_NOMEM, ss)
             | (Some a, ss) \<Rightarrow> do {
                 let last_sid = min last_sid (s_local_last_stream_id ss);
                 (rv, ss) \<leftarrow> nghttp2_session_add_item ss
                   ((nghttp2_outbound_item_init a (Goaway_frame (nghttp2_frame_goaway_init last_sid error_code opaque_data)))
                      \<lparr>oi_aux := Aux_goaway aux_flags\<rparr>);
                 if rv \<noteq> 0 then Some (rv, ss)
                 else Some (0, ss\<lparr>s_goaway_flags := s_goaway_flags ss OR NGHTTP2_GOAWAY_SUBMITTED\<rparr>)
               }))"

definition nghttp2_session_add_window_update ::
  "nghttp2_session \<Rightarrow> u8 \<Rightarrow> int \<Rightarrow> int \<Rightarrow> (rc \<times> nghttp2_session) option" where
  "nghttp2_session_add_window_update ss fl sid incr =
     (case session_malloc ss of
        (None, ss) \<Rightarrow> Some (NGHTTP2_ERR_NOMEM, ss)
      | (Some a, ss) \<Rightarrow>
          nghttp2_session_add_item ss
            (nghttp2_outbound_item_init a (Window_update_frame (nghttp2_frame_window_update_init fl sid incr))))"

text \<open>The reason is \<open>NULL\<close> or a string.\<close>

definition session_terminate_session ::
  "nghttp2_session \<Rightarrow> int \<Rightarrow> u32 \<Rightarrow> bytes option \<Rightarrow> (rc \<times> nghttp2_session) option" where
  "session_terminate_session ss last_sid error_code reason =
     (if s_goaway_flags ss AND NGHTTP2_GOAWAY_TERM_ON_SEND \<noteq> 0 then Some (0, ss)
      else do {
        let ss = ss\<lparr>s_iframe_state := NGHTTP2_IB_IGN_ALL\<rparr>;
        let debug_data = (case reason of None \<Rightarrow> [] | Some r \<Rightarrow> r);
        (rv, ss) \<leftarrow> nghttp2_session_add_goaway ss last_sid error_code debug_data NGHTTP2_GOAWAY_AUX_TERM_ON_SEND;
        if rv \<noteq> 0 then Some (rv, ss)
        else Some (0, ss\<lparr>s_goaway_flags := s_goaway_flags ss OR NGHTTP2_GOAWAY_TERM_ON_SEND\<rparr>)
      })"

definition nghttp2_session_terminate_session :: "nghttp2_session \<Rightarrow> u32 \<Rightarrow> (rc \<times> nghttp2_session) option" where
  "nghttp2_session_terminate_session ss error_code =
     session_terminate_session ss (s_last_proc_stream_id ss) error_code None"

definition nghttp2_session_terminate_session2 :: "nghttp2_session \<Rightarrow> int \<Rightarrow> u32 \<Rightarrow> (rc \<times> nghttp2_session) option" where
  "nghttp2_session_terminate_session2 ss last_sid error_code = session_terminate_session ss last_sid error_code None"

definition nghttp2_session_terminate_session_with_reason ::
  "nghttp2_session \<Rightarrow> u32 \<Rightarrow> bytes option \<Rightarrow> (rc \<times> nghttp2_session) option" where
  "nghttp2_session_terminate_session_with_reason ss error_code reason =
     session_terminate_session ss (s_last_proc_stream_id ss) error_code reason"

subsection \<open>Taking the next item\<close>

text \<open>
  DATA items are attached to streams and found by address in \<open>s_items\<close>.  Looking at the dependency
  tree may change \<open>descendant_last_cycle\<close> of its nodes, so the session is part of the result.
\<close>

definition next_data_item :: "nghttp2_session \<Rightarrow> (nghttp2_outbound_item option \<times> nghttp2_session) option" where
  "next_data_item ss =
     (if s_remote_window_size ss > 0 then do {
        (it, h) \<leftarrow> nghttp2_stream_next_outbound_item (s_heap ss) (s_root ss);
        let ss = set_heap ss h;
        case it of
          Some a \<Rightarrow> Some (s_items ss a, ss)
        | None \<Rightarrow> Some (Option.bind (session_sched_get_next_outbound_item (s_core ss)) (s_items ss), ss)
      }
      else Some (None, ss))"

definition nghttp2_session_get_next_ob_item ::
  "nghttp2_session \<Rightarrow> (nghttp2_outbound_item option \<times> nghttp2_session) option" where
  "nghttp2_session_get_next_ob_item ss =
     (if nghttp2_outbound_queue_top (s_ob_urgent ss) \<noteq> None then Some (nghttp2_outbound_queue_top (s_ob_urgent ss), ss)
      else if nghttp2_outbound_queue_top (s_ob_reg ss) \<noteq> None then Some (nghttp2_outbound_queue_top (s_ob_reg ss), ss)
      else if \<not> session_is_outgoing_concurrent_streams_max ss \<and> nghttp2_outbound_queue_top (s_ob_syn ss) \<noteq> None
      then Some (nghttp2_outbound_queue_top (s_ob_syn ss), ss)
      else next_data_item ss)"

definition nghttp2_session_pop_next_ob_item ::
  "nghttp2_session \<Rightarrow> (nghttp2_outbound_item option \<times> nghttp2_session) option" where
  "nghttp2_session_pop_next_ob_item ss =
     (case nghttp2_outbound_queue_top (s_ob_urgent ss) of
        Some it \<Rightarrow> Some (Some (it\<lparr>oi_queued := False\<rparr>), ss\<lparr>s_ob_urgent := nghttp2_outbound_queue_pop (s_ob_urgent ss)\<rparr>)
      | None \<Rightarrow>
          (case nghttp2_outbound_queue_top (s_ob_reg ss) of
             Some it \<Rightarrow> Some (Some (it\<lparr>oi_queued := False\<rparr>), ss\<lparr>s_ob_reg := nghttp2_outbound_queue_pop (s_ob_reg ss)\<rparr>)
           | None \<Rightarrow>
               (case (if session_is_outgoing_concurrent_streams_max ss then None
                      else nghttp2_outbound_queue_top (s_ob_syn ss)) of
                  Some it \<Rightarrow> Some (Some (it\<lparr>oi_queued := False\<rparr>), ss\<lparr>s_ob_syn := nghttp2_outbound_queue_pop (s_ob_syn ss)\<rparr>)
                | None \<Rightarrow> next_data_item ss)))"

definition nghttp2_session_get_outbound_queue_size :: "nghttp2_session \<Rightarrow> nat" where
  "nghttp2_session_get_outbound_queue_size ss =
     nghttp2_outbound_queue_size (s_ob_urgent ss) + nghttp2_outbound_queue_size (s_ob_reg ss) + nghttp2_outbound_queue_size (s_ob_syn ss)"

subsection \<open>Stream ids\<close>

definition nghttp2_session_set_next_stream_id :: "nghttp2_session \<Rightarrow> int \<Rightarrow> rc \<times> nghttp2_session" where
  "nghttp2_session_set_next_stream_id ss next_sid =
     (if next_sid \<le> 0 \<or> s_next_stream_id ss > word_of_int next_sid then (NGHTTP2_ERR_INVALID_ARGUMENT, ss)
      else if (if s_server ss then next_sid mod 2 \<noteq> 0 else next_sid mod 2 = 0) then (NGHTTP2_ERR_INVALID_ARGUMENT, ss)
      else (0, ss\<lparr>s_next_stream_id := word_of_int next_sid\<rparr>))"

definition nghttp2_session_get_next_stream_id :: "nghttp2_session \<Rightarrow> u32" where
  "nghttp2_session_get_next_stream_id ss = s_next_stream_id ss"

definition nghttp2_session_get_last_proc_stream_id :: "nghttp2_session \<Rightarrow> int" where
  "nghttp2_session_get_last_proc_stream_id ss = s_last_proc_stream_id ss"

definition nghttp2_session_find_stream :: "nghttp2_session \<Rightarrow> int \<Rightarrow> nat option option" where
  "nghttp2_session_find_stream ss sid =
     (if sid = 0 then Some (Some (s_root ss)) else nghttp2_session_get_stream_raw ss sid)"

definition nghttp2_session_check_server_session :: "nghttp2_session \<Rightarrow> bool" where
  "nghttp2_session_check_server_session ss = s_server ss"

subsection \<open>Creation\<close>

definition NGHTTP2_STREAM_FLAG_NONE :: u8 where "NGHTTP2_STREAM_FLAG_NONE = 0"
definition NGHTTP2_INITIAL_WINDOW_SIZE :: int where "NGHTTP2_INITIAL_WINDOW_SIZE = push_bit 16 1 - 1"
definition NGHTTP2_INITIAL_CONNECTION_WINDOW_SIZE :: int where "NGHTTP2_INITIAL_CONNECTION_WINDOW_SIZE = push_bit 16 1 - 1"
definition NGHTTP2_DEFAULT_MAX_CONCURRENT_STREAMS :: u32 where "NGHTTP2_DEFAULT_MAX_CONCURRENT_STREAMS = 0xffffffff"
definition NGHTTP2_MAX_INCOMING_RESERVED_STREAMS :: nat where "NGHTTP2_MAX_INCOMING_RESERVED_STREAMS = 200"
definition NGHTTP2_DEFAULT_MAX_OBQ_FLOOD_ITEM :: nat where "NGHTTP2_DEFAULT_MAX_OBQ_FLOOD_ITEM = 1000"
definition NGHTTP2_DEFAULT_STREAM_RESET_BURST :: u64 where "NGHTTP2_DEFAULT_STREAM_RESET_BURST = 1000"
definition NGHTTP2_DEFAULT_STREAM_RESET_RATE :: u64 where "NGHTTP2_DEFAULT_STREAM_RESET_RATE = 33"
definition NGHTTP2_DEFAULT_MAX_SETTINGS :: nat where "NGHTTP2_DEFAULT_MAX_SETTINGS = 32"
definition NGHTTP2_DEFAULT_MAX_CONTINUATIONS :: nat where "NGHTTP2_DEFAULT_MAX_CONTINUATIONS = 8"
definition NGHTTP2_MAX_HEADERSLEN :: nat where "NGHTTP2_MAX_HEADERSLEN = 65536"
definition NGHTTP2_FRAMEBUF_CHUNKLEN :: nat where
  "NGHTTP2_FRAMEBUF_CHUNKLEN = NGHTTP2_FRAME_HDLEN + 1 + NGHTTP2_MAX_PAYLOADLEN"

text \<open>The 24 bytes ``PRI * HTTP/2.0 CR LF CR LF SM CR LF CR LF''.\<close>

definition NGHTTP2_CLIENT_MAGIC :: bytes where
  "NGHTTP2_CLIENT_MAGIC = ascii ''PRI * HTTP/2.0'' @ [13, 10, 13, 10] @ ascii ''SM'' @ [13, 10, 13, 10]"

definition NGHTTP2_CLIENT_MAGIC_LEN :: nat where "NGHTTP2_CLIENT_MAGIC_LEN = 24"

text \<open>\<open>init_settings\<close> on a block of zeros.\<close>

definition init_settings :: nghttp2_settings_storage where
  "init_settings =
     \<lparr>st_header_table_size = word_of_nat NGHTTP2_HD_DEFAULT_MAX_BUFFER_SIZE, st_enable_push = 1,
      st_max_concurrent_streams = NGHTTP2_DEFAULT_MAX_CONCURRENT_STREAMS,
      st_initial_window_size = word_of_int NGHTTP2_INITIAL_WINDOW_SIZE, st_max_frame_size = NGHTTP2_MAX_FRAME_SIZE_MIN,
      st_max_header_list_size = word_of_nat UINT32_MAX, st_enable_connect_protocol = 0,
      st_no_rfc7540_priorities = word_of_nat UINT32_MAX\<rparr>"

text \<open>
  The memory for a session: whether its own block is there, the memory of the codecs and of the
  frame buffers, the contents of the memory that later holds stream objects, the address of the
  embedded root, and what the allocations of the session will return.
\<close>

record session_memory =
  sm_session :: bool
  sm_deflater :: allocator
  sm_inflater :: allocator
  sm_framebufs :: allocator
  sm_heap :: stream_heap
  sm_root :: nat
  sm_alloc :: "nat \<Rightarrow> nat option"

definition apply_if :: "bool \<Rightarrow> (nghttp2_session \<Rightarrow> nghttp2_session) \<Rightarrow> nghttp2_session \<Rightarrow> nghttp2_session" where
  "apply_if c f ss = (if c then f ss else ss)"

definition add_opt_flag :: "u32 \<Rightarrow> nghttp2_session \<Rightarrow> nghttp2_session" where
  "add_opt_flag m ss = ss\<lparr>s_opt_flags := s_opt_flags ss OR m\<rparr>"

text \<open>The part of \<open>session_new\<close> under \<open>if (option)\<close>, except for the size of the deflater's table.\<close>

definition session_options :: "nghttp2_option \<Rightarrow> nghttp2_session \<Rightarrow> nghttp2_session" where
  "session_options op ss =
     (let has = (\<lambda>m. o_opt_set_mask op AND m \<noteq> 0);
          ss = apply_if (has NGHTTP2_OPT_NO_AUTO_WINDOW_UPDATE \<and> o_no_auto_window_update op)
                 (add_opt_flag NGHTTP2_OPTMASK_NO_AUTO_WINDOW_UPDATE) ss;
          ss = apply_if (has NGHTTP2_OPT_PEER_MAX_CONCURRENT_STREAMS)
                 (\<lambda>ss. ss\<lparr>s_remote_settings := (s_remote_settings ss)\<lparr>st_max_concurrent_streams := o_peer_max_concurrent_streams op\<rparr>\<rparr>) ss;
          ss = apply_if (has NGHTTP2_OPT_MAX_RESERVED_REMOTE_STREAMS)
                 (\<lambda>ss. ss\<lparr>s_max_incoming_reserved_streams := unat (o_max_reserved_remote_streams op)\<rparr>) ss;
          ss = apply_if (has NGHTTP2_OPT_NO_RECV_CLIENT_MAGIC \<and> o_no_recv_client_magic op)
                 (add_opt_flag NGHTTP2_OPTMASK_NO_RECV_CLIENT_MAGIC) ss;
          ss = apply_if (has NGHTTP2_OPT_NO_HTTP_MESSAGING \<and> o_no_http_messaging op)
                 (add_opt_flag NGHTTP2_OPTMASK_NO_HTTP_MESSAGING) ss;
          ss = apply_if (has NGHTTP2_OPT_USER_RECV_EXT_TYPES) (\<lambda>ss. ss\<lparr>s_user_recv_ext_types := o_user_recv_ext_types op\<rparr>) ss;
          ss = apply_if (has NGHTTP2_OPT_BUILTIN_RECV_EXT_TYPES) (\<lambda>ss. ss\<lparr>s_builtin_recv_ext_types := o_builtin_recv_ext_types op\<rparr>) ss;
          ss = apply_if (has NGHTTP2_OPT_NO_AUTO_PING_ACK \<and> o_no_auto_ping_ack op)
                 (add_opt_flag NGHTTP2_OPTMASK_NO_AUTO_PING_ACK) ss;
          ss = apply_if (has NGHTTP2_OPT_MAX_SEND_HEADER_BLOCK_LENGTH)
                 (\<lambda>ss. ss\<lparr>s_max_send_header_block_length := o_max_send_header_block_length op\<rparr>) ss;
          ss = apply_if (has NGHTTP2_OPT_NO_CLOSED_STREAMS \<and> o_no_closed_streams op)
                 (add_opt_flag NGHTTP2_OPTMASK_NO_CLOSED_STREAMS) ss;
          ss = apply_if (has NGHTTP2_OPT_MAX_OUTBOUND_ACK) (\<lambda>ss. ss\<lparr>s_max_outbound_ack := o_max_outbound_ack op\<rparr>) ss;
          ss = apply_if (has NGHTTP2_OPT_MAX_SETTINGS \<and> o_max_settings op \<noteq> 0) (\<lambda>ss. ss\<lparr>s_max_settings := o_max_settings op\<rparr>) ss;
          ss = apply_if (has NGHTTP2_OPT_SERVER_FALLBACK_RFC7540_PRIORITIES \<and> o_server_fallback_rfc7540_priorities op)
                 (add_opt_flag NGHTTP2_OPTMASK_SERVER_FALLBACK_RFC7540_PRIORITIES) ss;
          ss = apply_if (has NGHTTP2_OPT_NO_RFC9113_LEADING_AND_TRAILING_WS_VALIDATION \<and>
                         o_no_rfc9113_leading_and_trailing_ws_validation op)
                 (add_opt_flag NGHTTP2_OPTMASK_NO_RFC9113_LEADING_AND_TRAILING_WS_VALIDATION) ss;
          ss = apply_if (has NGHTTP2_OPT_STREAM_RESET_RATE_LIMIT)
                 (\<lambda>ss. ss\<lparr>s_stream_reset_ratelim := nghttp2_ratelim_init (o_stream_reset_burst op) (o_stream_reset_rate op)\<rparr>) ss
      in apply_if (has NGHTTP2_OPT_MAX_CONTINUATIONS) (\<lambda>ss. ss\<lparr>s_max_continuations := o_max_continuations op\<rparr>) ss)"

definition option_deflate_size :: "nghttp2_option option \<Rightarrow> nat" where
  "option_deflate_size op =
     (case op of
        None \<Rightarrow> NGHTTP2_HD_DEFAULT_MAX_DEFLATE_BUFFER_SIZE
      | Some op \<Rightarrow> if o_opt_set_mask op AND NGHTTP2_OPT_MAX_DEFLATE_DYNAMIC_TABLE_SIZE \<noteq> 0
                   then o_max_deflate_dynamic_table_size op else NGHTTP2_HD_DEFAULT_MAX_DEFLATE_BUFFER_SIZE)"

definition option_header_block_length :: "nghttp2_option option \<Rightarrow> nat" where
  "option_header_block_length op =
     (case op of
        None \<Rightarrow> NGHTTP2_MAX_HEADERSLEN
      | Some op \<Rightarrow> if o_opt_set_mask op AND NGHTTP2_OPT_MAX_SEND_HEADER_BLOCK_LENGTH \<noteq> 0
                   then o_max_send_header_block_length op else NGHTTP2_MAX_HEADERSLEN)"

text \<open>The number of frame buffers; the sum is a \<open>size_t\<close>.\<close>

definition framebuf_count :: "nat \<Rightarrow> nat" where
  "framebuf_count n =
     (let nbuffer = unat (word_of_nat n + word_of_nat (NGHTTP2_FRAMEBUF_CHUNKLEN - 1) :: u64) div NGHTTP2_FRAMEBUF_CHUNKLEN
      in if nbuffer = 0 then 1 else nbuffer)"

text \<open>
  The block of a new session as far as the session record goes, before the options: the codecs and
  the frame buffers are those created further down, \<open>next_stream_id\<close> is still 0.
\<close>

definition session_block ::
  "session_memory \<Rightarrow> bool \<Rightarrow> nghttp2_hd_deflater \<Rightarrow> nghttp2_hd_inflater \<Rightarrow> nghttp2_bufs \<Rightarrow> nghttp2_session" where
  "session_block sm sv dfl ifl bufs =
     \<lparr>s_streams = nghttp2_map_init,
      s_core = \<lparr>server = sv, sched = replicate NGHTTP2_EXTPRI_URGENCY_LEVELS (nghttp2_pq_init (\<lambda>_. 0)),
                streams = (sm_heap sm)(sm_root sm := nghttp2_stream_init (\<lambda>_. 0) 0 NGHTTP2_STREAM_FLAG_NONE NGHTTP2_STREAM_IDLE
                                         NGHTTP2_DEFAULT_WEIGHT 0 0 0)\<rparr>,
      s_root = sm_root sm, s_ob_urgent = nghttp2_outbound_queue_init, s_ob_reg = nghttp2_outbound_queue_init,
      s_ob_syn = nghttp2_outbound_queue_init, s_items = Map.empty, s_aob_item = None, s_aob_state = NGHTTP2_OB_POP_ITEM,
      s_framebufs = nghttp2_bufs_reset bufs, s_iframe_state = NGHTTP2_IB_READ_HEAD, s_payloadleft = 0,
      s_hd_deflater = dfl, s_hd_inflater = ifl,
      s_stream_reset_ratelim = nghttp2_ratelim_init NGHTTP2_DEFAULT_STREAM_RESET_BURST NGHTTP2_DEFAULT_STREAM_RESET_RATE,
      s_alloc = sm_alloc sm, s_nalloc = 0, s_closed_stream_head = None, s_closed_stream_tail = None,
      s_idle_stream_head = None, s_idle_stream_tail = None, s_stream_seq = 0,
      s_num_outgoing_streams = 0, s_num_incoming_streams = 0, s_num_incoming_reserved_streams = 0, s_num_closed_streams = 0,
      s_num_idle_streams = 0, s_max_incoming_reserved_streams = NGHTTP2_MAX_INCOMING_RESERVED_STREAMS,
      s_obq_flood_counter = 0, s_max_send_header_block_length = NGHTTP2_MAX_HEADERSLEN,
      s_max_outbound_ack = NGHTTP2_DEFAULT_MAX_OBQ_FLOOD_ITEM, s_max_settings = NGHTTP2_DEFAULT_MAX_SETTINGS,
      s_max_continuations = NGHTTP2_DEFAULT_MAX_CONTINUATIONS, s_next_stream_id = 0, s_last_sent_stream_id = 0,
      s_last_recv_stream_id = 0, s_last_proc_stream_id = 0, s_local_last_stream_id = push_bit 31 1 - 1,
      s_remote_last_stream_id = push_bit 31 1 - 1, s_remote_window_size = NGHTTP2_INITIAL_CONNECTION_WINDOW_SIZE,
      s_recv_window_size = 0, s_consumed_size = 0, s_recv_reduction = 0,
      s_local_window_size = NGHTTP2_INITIAL_CONNECTION_WINDOW_SIZE,
      s_remote_settings = init_settings\<lparr>st_max_concurrent_streams := 100\<rparr>, s_local_settings = init_settings,
      s_opt_flags = 0, s_pending_local_max_concurrent_stream = NGHTTP2_DEFAULT_MAX_CONCURRENT_STREAMS,
      s_builtin_recv_ext_types = 0, s_pending_enable_push = 1, s_pending_no_rfc7540_priorities = 255,
      s_fallback_rfc7540_priorities = False, s_goaway_flags = 0, s_window_update_queued = False,
      s_user_recv_ext_types = replicate 32 0\<rparr>"

text \<open>The state of the receiver and the client's magic, with \<open>nghttp2_enable_strict_preface\<close> at its value 1.\<close>

definition session_preface :: "nghttp2_session \<Rightarrow> nghttp2_session option" where
  "session_preface ss =
     (let ss = (if s_server ss \<and> s_opt_flags ss AND NGHTTP2_OPTMASK_NO_RECV_CLIENT_MAGIC = 0
                then ss\<lparr>s_iframe_state := NGHTTP2_IB_READ_CLIENT_MAGIC, s_payloadleft := NGHTTP2_CLIENT_MAGIC_LEN\<rparr>
                else ss\<lparr>s_iframe_state := NGHTTP2_IB_READ_FIRST_SETTINGS\<rparr>)
      in if s_server ss then Some ss
         else do {
           (_, bufs) \<leftarrow> nghttp2_bufs_add (s_framebufs ss) NGHTTP2_CLIENT_MAGIC;
           Some (ss\<lparr>s_aob_state := NGHTTP2_OB_SEND_CLIENT_MAGIC, s_framebufs := bufs\<rparr>)
         })"

definition session_new :: "session_memory \<Rightarrow> bool \<Rightarrow> nghttp2_option option \<Rightarrow> (rc + nghttp2_session) option" where
  "session_new sm sv op =
     (if \<not> sm_session sm then Some (Inl NGHTTP2_ERR_NOMEM)
      else
        case nghttp2_hd_deflate_init2 (sm_deflater sm) (option_deflate_size op) of
          Inl rv \<Rightarrow> Some (Inl rv)
        | Inr dfl \<Rightarrow>
            (case nghttp2_hd_inflate_init (sm_inflater sm) of
               Inl rv \<Rightarrow> Some (Inl rv)
             | Inr ifl \<Rightarrow>
                 (case nghttp2_bufs_init3 (sm_framebufs sm) NGHTTP2_FRAMEBUF_CHUNKLEN (framebuf_count (option_header_block_length op))
                         1 (NGHTTP2_FRAME_HDLEN + 1) of
                    Inl rv \<Rightarrow> Some (Inl rv)
                  | Inr bufs \<Rightarrow>
                      let ss = session_block sm sv dfl ifl bufs
                      in map_option Inr (session_preface (case op of None \<Rightarrow> ss | Some op \<Rightarrow> session_options op ss)))))"

definition nghttp2_session_client_new3 :: "session_memory \<Rightarrow> nghttp2_option option \<Rightarrow> (rc + nghttp2_session) option" where
  "nghttp2_session_client_new3 sm op =
     map_option (map_sum id (\<lambda>ss. ss\<lparr>s_next_stream_id := 1\<rparr>)) (session_new sm False op)"

definition nghttp2_session_server_new3 :: "session_memory \<Rightarrow> nghttp2_option option \<Rightarrow> (rc + nghttp2_session) option" where
  "nghttp2_session_server_new3 sm op =
     map_option (map_sum id (\<lambda>ss. ss\<lparr>s_next_stream_id := 2\<rparr>)) (session_new sm True op)"

subsection \<open>Closing streams\<close>

text \<open>The block of the stream is freed; its address may be returned by a later allocation.\<close>

definition nghttp2_session_destroy_stream :: "nghttp2_session \<Rightarrow> nat \<Rightarrow> (rc \<times> nghttp2_session) option" where
  "nghttp2_session_destroy_stream ss s = do {
     (rv, ss) \<leftarrow>
       (if nghttp2_stream_in_dep_tree (s_heap ss s) then do {
          (rv, h) \<leftarrow> nghttp2_stream_dep_remove (session_mem ss) (s_heap ss) s;
          Some (rv, mem_used (set_heap ss h))
        }
        else Some (0, ss));
     if rv \<noteq> 0 then Some (rv, ss)
     else do {
       core \<leftarrow> (if queued (s_heap ss s) \<and> flags (s_heap ss s) AND NGHTTP2_STREAM_FLAG_NO_RFC7540_PRIORITIES \<noteq> 0
               then session_ob_data_remove (s_core ss) s else Some (s_core ss));
       (_, mp) \<leftarrow> nghttp2_map_remove (s_streams ss) (word_of_int (stream_id (streams core s)));
       Some (0, ss\<lparr>s_core := core, s_streams := mp\<rparr>)
     }
   }"

definition nghttp2_session_keep_closed_stream :: "nghttp2_session \<Rightarrow> nat \<Rightarrow> nghttp2_session" where
  "nghttp2_session_keep_closed_stream ss s =
     (let ss = (case s_closed_stream_tail ss of
                  Some t \<Rightarrow>
                    upd_stream (upd_stream ss t (\<lambda>st. st\<lparr>closed_next := Some s\<rparr>)) s (\<lambda>st. st\<lparr>closed_prev := Some t\<rparr>)
                | None \<Rightarrow> ss\<lparr>s_closed_stream_head := Some s\<rparr>)
      in ss\<lparr>s_closed_stream_tail := Some s, s_num_closed_streams := s_num_closed_streams ss + 1\<rparr>)"

text \<open>
  The callback may use the session, so it returns it.  The item is freed when it is neither queued
  nor the one being sent.
\<close>

type_synonym stream_close_callback = "(nghttp2_session \<Rightarrow> int \<Rightarrow> u32 \<Rightarrow> int \<times> nghttp2_session) option"

definition close_detach_item :: "nghttp2_session \<Rightarrow> nat \<Rightarrow> nghttp2_session option" where
  "close_detach_item ss s =
     (case item (s_heap ss s) of
        None \<Rightarrow> Some ss
      | Some a \<Rightarrow> do {
          core \<leftarrow> session_detach_stream_item (s_core ss) s;
          let ss = ss\<lparr>s_core := core\<rparr>;
          Some (if (\<forall>it \<in> set_option (s_items ss a). \<not> oi_queued it) \<and> map_option oi_addr (s_aob_item ss) \<noteq> Some a
                then ss\<lparr>s_items := (s_items ss)(a := None)\<rparr> else ss)
        })"

definition close_count :: "nghttp2_session \<Rightarrow> int \<Rightarrow> nat \<Rightarrow> nghttp2_session" where
  "close_count ss sid s =
     (if flags (s_heap ss s) AND NGHTTP2_STREAM_FLAG_PUSH \<noteq> 0 then
        if nghttp2_session_is_my_stream_id ss sid then ss
        else ss\<lparr>s_num_incoming_reserved_streams := size_dec (s_num_incoming_reserved_streams ss)\<rparr>
      else if nghttp2_session_is_my_stream_id ss sid then ss\<lparr>s_num_outgoing_streams := size_dec (s_num_outgoing_streams ss)\<rparr>
      else ss\<lparr>s_num_incoming_streams := size_dec (s_num_incoming_streams ss)\<rparr>)"

definition nghttp2_session_close_stream ::
  "stream_close_callback \<Rightarrow> nghttp2_session \<Rightarrow> int \<Rightarrow> u32 \<Rightarrow> (rc \<times> nghttp2_session) option" where
  "nghttp2_session_close_stream cb ss sid error_code = do {
     stream \<leftarrow> nghttp2_session_get_stream ss sid;
     case stream of
       None \<Rightarrow> Some (NGHTTP2_ERR_INVALID_ARGUMENT, ss)
     | Some s \<Rightarrow>
         (case (case cb of None \<Rightarrow> (0, ss) | Some f \<Rightarrow> f ss sid error_code) of
            (rv, ss) \<Rightarrow>
              if rv \<noteq> 0 then Some (NGHTTP2_ERR_CALLBACK_FAILURE, ss)
              else do {
                ss \<leftarrow> close_detach_item ss s;
                let ss = upd_stream (close_count ss sid s) s (\<lambda>st. st\<lparr>flags := flags st OR NGHTTP2_STREAM_FLAG_CLOSED\<rparr>);
                if s_pending_no_rfc7540_priorities ss = 1 then nghttp2_session_destroy_stream ss s
                else if s_opt_flags ss AND NGHTTP2_OPTMASK_NO_CLOSED_STREAMS = 0 \<and> s_server ss \<and>
                        \<not> nghttp2_session_is_my_stream_id ss sid \<and> nghttp2_stream_in_dep_tree (s_heap ss s)
                then Some (0, nghttp2_session_keep_closed_stream ss s)
                else nghttp2_session_destroy_stream ss s
              })
   }"

definition nghttp2_session_close_stream_if_shut_rdwr ::
  "stream_close_callback \<Rightarrow> nghttp2_session \<Rightarrow> nat \<Rightarrow> (rc \<times> nghttp2_session) option" where
  "nghttp2_session_close_stream_if_shut_rdwr cb ss s =
     (if shut_flags (s_heap ss s) AND NGHTTP2_SHUT_RDWR = NGHTTP2_SHUT_RDWR
      then nghttp2_session_close_stream cb ss (stream_id (s_heap ss s)) NGHTTP2_NO_ERROR
      else Some (0, ss))"

text \<open>
  The loops that drop the oldest closed and idle streams count \<open>num_closed_streams\<close> and
  \<open>num_idle_streams\<close> down; the count is the argument.
\<close>

fun adjust_closed_loop :: "nat \<Rightarrow> nat \<Rightarrow> nghttp2_session \<Rightarrow> (rc \<times> nghttp2_session) option" where
  "adjust_closed_loop num_stream_max n ss =
     (if \<not> (n > 0 \<and> n + s_num_incoming_streams ss > num_stream_max) then Some (0, ss)
      else
        case s_closed_stream_head ss of
          None \<Rightarrow> None
        | Some a \<Rightarrow> do {
            let nxt = closed_next (s_heap ss a);
            (rv, ss) \<leftarrow> nghttp2_session_destroy_stream ss a;
            if rv \<noteq> 0 then Some (rv, ss)
            else do {
              let ss = ss\<lparr>s_closed_stream_head := nxt\<rparr>;
              let ss = (case nxt of
                          Some b \<Rightarrow> upd_stream ss b (\<lambda>st. st\<lparr>closed_prev := None\<rparr>)
                        | None \<Rightarrow> ss\<lparr>s_closed_stream_tail := None\<rparr>);
              adjust_closed_loop num_stream_max (n - 1) (ss\<lparr>s_num_closed_streams := n - 1\<rparr>)
            }
          })"

declare adjust_closed_loop.simps [simp del]

definition nghttp2_session_adjust_closed_stream :: "nghttp2_session \<Rightarrow> (rc \<times> nghttp2_session) option" where
  "nghttp2_session_adjust_closed_stream ss =
     adjust_closed_loop
       (unat (if st_max_concurrent_streams (s_local_settings ss) = NGHTTP2_DEFAULT_MAX_CONCURRENT_STREAMS
              then s_pending_local_max_concurrent_stream ss else st_max_concurrent_streams (s_local_settings ss)))
       (s_num_closed_streams ss) ss"

fun adjust_idle_loop :: "nat \<Rightarrow> nat \<Rightarrow> nghttp2_session \<Rightarrow> (rc \<times> nghttp2_session) option" where
  "adjust_idle_loop max_idle n ss =
     (if \<not> n > max_idle then Some (0, ss)
      else
        case s_idle_stream_head ss of
          None \<Rightarrow> None
        | Some a \<Rightarrow> do {
            let nxt = closed_next (s_heap ss a);
            (rv, ss) \<leftarrow> nghttp2_session_destroy_stream ss a;
            if rv \<noteq> 0 then Some (rv, ss)
            else do {
              let ss = ss\<lparr>s_idle_stream_head := nxt\<rparr>;
              let ss = (case nxt of
                          Some b \<Rightarrow> upd_stream ss b (\<lambda>st. st\<lparr>closed_prev := None\<rparr>)
                        | None \<Rightarrow> ss\<lparr>s_idle_stream_tail := None\<rparr>);
              adjust_idle_loop max_idle (n - 1) (ss\<lparr>s_num_idle_streams := n - 1\<rparr>)
            }
          })"

declare adjust_idle_loop.simps [simp del]

definition nghttp2_session_adjust_idle_stream :: "nghttp2_session \<Rightarrow> (rc \<times> nghttp2_session) option" where
  "nghttp2_session_adjust_idle_stream ss =
     adjust_idle_loop
       (min 100 (max 16 (unat (min (st_max_concurrent_streams (s_local_settings ss)) (s_pending_local_max_concurrent_stream ss)))))
       (s_num_idle_streams ss) ss"

subsection \<open>Changing the priority of a stream\<close>

text \<open>
  \<open>nghttp2_session_reprioritize_stream\<close>: first the stream to depend on, with the priority to use,
  or \<open>NULL\<close> when an idle stream cannot be created.
\<close>

definition reprioritize_dep ::
  "nghttp2_session \<Rightarrow> nghttp2_priority_spec \<Rightarrow> ((nat \<times> nghttp2_priority_spec) option \<times> nghttp2_session) option" where
  "reprioritize_dep ss pri_spec =
     (if pri_stream_id pri_spec = 0 then Some (Some (s_root ss, pri_spec), ss)
      else do {
        dep_stream \<leftarrow> nghttp2_session_get_stream_raw ss (pri_stream_id pri_spec);
        case dep_stream of
          None \<Rightarrow>
            if session_detect_idle_stream ss (pri_stream_id pri_spec) then do {
              (r, ss) \<leftarrow> nghttp2_session_open_stream ss (pri_stream_id pri_spec) NGHTTP2_FLAG_NONE
                          nghttp2_priority_spec_default_init NGHTTP2_STREAM_IDLE 0;
              Some (map_option (\<lambda>d. (d, pri_spec)) r, ss)
            }
            else Some (Some (s_root ss, nghttp2_priority_spec_default_init), ss)
        | Some d \<Rightarrow>
            if nghttp2_stream_in_dep_tree (s_heap ss d) then Some (Some (d, pri_spec), ss)
            else Some (Some (s_root ss, nghttp2_priority_spec_default_init), ss)
      })"

text \<open>A stream that is to depend on one of its descendants: that descendant takes its place first.\<close>

definition reprioritize_cycle :: "nghttp2_session \<Rightarrow> nat \<Rightarrow> nat \<Rightarrow> nghttp2_priority_spec \<Rightarrow> (rc \<times> nghttp2_session) option" where
  "reprioritize_cycle ss s d pri_spec =
     (if pri_stream_id pri_spec = 0 then Some (0, ss)
      else do {
        below \<leftarrow> nghttp2_stream_dep_find_ancestor (s_heap ss) (Some d) s;
        if \<not> below then Some (0, ss)
        else do {
          h \<leftarrow> nghttp2_stream_dep_remove_subtree (s_heap ss) d;
          p \<leftarrow> dep_prev (h s);
          (rv, h) \<leftarrow> nghttp2_stream_dep_add_subtree (session_mem ss) h p d;
          Some (rv, mem_used (set_heap ss h))
        }
      })"

definition nghttp2_session_reprioritize_stream ::
  "nghttp2_session \<Rightarrow> nat \<Rightarrow> nghttp2_priority_spec \<Rightarrow> (rc \<times> nghttp2_session) option" where
  "nghttp2_session_reprioritize_stream ss s pri_spec =
     (if \<not> (\<not> s_server ss \<and> s_pending_no_rfc7540_priorities ss \<noteq> 1 \<or> s_server ss \<and> \<not> session_no_rfc7540_pri_no_fallback ss) \<or>
         pri_stream_id pri_spec = stream_id (s_heap ss s) then None
      else if \<not> nghttp2_stream_in_dep_tree (s_heap ss s) then Some (0, ss)
      else do {
        (r, ss) \<leftarrow> reprioritize_dep ss pri_spec;
        case r of
          None \<Rightarrow> Some (NGHTTP2_ERR_NOMEM, ss)
        | Some (d, pri_spec) \<Rightarrow> do {
            (rv, ss) \<leftarrow> reprioritize_cycle ss s d pri_spec;
            if rv \<noteq> 0 then Some (rv, ss)
            else if Some d = dep_prev (s_heap ss s) \<and> pri_exclusive pri_spec = 0 then do {
              h \<leftarrow> nghttp2_stream_change_weight (session_mem ss) (s_heap ss) s (pri_weight pri_spec);
              Some (0, mem_used (set_heap ss h))
            }
            else do {
              h \<leftarrow> nghttp2_stream_dep_remove_subtree (s_heap ss) s;
              let h = h(s := (h s)\<lparr>weight := pri_weight pri_spec\<rparr>);
              (rv, h) \<leftarrow> (if pri_exclusive pri_spec \<noteq> 0 then nghttp2_stream_dep_insert_subtree (session_mem ss) h d s
                         else nghttp2_stream_dep_add_subtree (session_mem ss) h d s);
              Some (rv, mem_used (set_heap ss h))
            }
          }
      })"

end
