(* ===== verification/Session_Streams.thy ===== *)
theory Session_Streams
  imports Session
begin

text \<open>
  The life of a stream in a session: what \<open>nghttp2_session_open_stream\<close> and
  \<open>nghttp2_session_close_stream\<close> do to the stream table and to the stream objects.  These operations
  go through the hash map, the dependency tree, the queues of both schedulers and the lists of idle
  and closed streams; the lemmas here say what all this leaves as it was.
\<close>

subsection \<open>The stream table\<close>

text \<open>The stream table maps an id to an object with that id, and never the id 0.\<close>

definition streams_ok :: "nghttp2_session \<Rightarrow> bool" where
  "streams_ok ss \<longleftrightarrow> map_inv (s_streams ss) \<and>
     (\<forall>k s. map_abs (s_streams ss) k = Some s \<longrightarrow> stream_id (s_heap ss s) = sint k \<and> 0 < sint k)"

abbreviation live :: "nghttp2_session \<Rightarrow> int \<Rightarrow> nat \<Rightarrow> bool" where
  "live ss sid s \<equiv> nghttp2_session_get_stream ss sid = Some (Some s)"

definition valid_sid :: "int \<Rightarrow> bool" where
  "valid_sid sid \<longleftrightarrow> 0 < sid \<and> sid \<le> INT32_MAX"

lemma valid_sid_sint: "valid_sid sid \<Longrightarrow> sint (word_of_int sid :: u32) = sid"
  by (simp add: valid_sid_def signed_of_int signed_take_bit_int_eq_self INT32_MAX_def)

text \<open>What a lookup says about an object: it is neither closed nor idle.\<close>

definition findable :: "nghttp2_stream \<Rightarrow> bool" where
  "findable st \<longleftrightarrow> flags st AND NGHTTP2_STREAM_FLAG_CLOSED = 0 \<and> state st \<noteq> NGHTTP2_STREAM_IDLE"

lemma get_stream_find:
  assumes "streams_ok ss"
  shows "nghttp2_session_get_stream ss sid =
    Some (case map_abs (s_streams ss) (word_of_int sid) of None \<Rightarrow> None | Some s \<Rightarrow> if findable (s_heap ss s) then Some s else None)"
  using assms map_find_spec [of "s_streams ss"]
  by (simp add: nghttp2_session_get_stream_def streams_ok_def findable_def split: option.split)

lemma live_iff:
  "streams_ok ss \<Longrightarrow> live ss sid s \<longleftrightarrow> map_abs (s_streams ss) (word_of_int sid) = Some s \<and> findable (s_heap ss s)"
  by (auto simp: get_stream_find split: option.splits if_splits)

lemma raw_find: "map_inv (s_streams ss) \<Longrightarrow> nghttp2_session_get_stream_raw ss sid = Some (map_abs (s_streams ss) (word_of_int sid))"
  by (simp add: nghttp2_session_get_stream_raw_def map_find_spec)

lemma get_stream_0:
  assumes "streams_ok ss"
  shows "nghttp2_session_get_stream ss 0 = Some None"
proof -
  have "map_abs (s_streams ss) 0 = None"
  proof (cases "map_abs (s_streams ss) 0")
    case (Some s)
    then have "0 < sint (0 :: u32)" using assms unfolding streams_ok_def by blast
    then show ?thesis by simp
  qed simp
  then show ?thesis by (simp add: get_stream_find [OF assms])
qed

lemma streams_ok_cong:
  "streams_ok ss \<Longrightarrow> s_streams ss' = s_streams ss \<Longrightarrow> (\<And>a. stream_id (s_heap ss' a) = stream_id (s_heap ss a)) \<Longrightarrow> streams_ok ss'"
  by (simp add: streams_ok_def)

lemma get_stream_cong:
  "s_streams ss' = s_streams ss \<Longrightarrow> (\<And>a. flags (s_heap ss' a) = flags (s_heap ss a) \<and> state (s_heap ss' a) = state (s_heap ss a)) \<Longrightarrow>
   nghttp2_session_get_stream ss' sid = nghttp2_session_get_stream ss sid"
  by (simp add: nghttp2_session_get_stream_def cong: option.case_cong)

subsection \<open>What opening and closing leave alone\<close>

text \<open>
  Of a stream: everything but its place in the tree, the queues and the lists, and its item.  Of the
  session: everything but the table, the streams, the counters of streams, the lists and the memory.
\<close>

definition stream_meta :: "nghttp2_stream \<Rightarrow> nghttp2_stream" where
  "stream_meta st = (untouched st)\<lparr>closed_prev := None, closed_next := None, item := None\<rparr>"

definition session_rest :: "nghttp2_session \<Rightarrow> nghttp2_session" where
  "session_rest ss =
     ss\<lparr>s_streams := nghttp2_map_init, s_core := sched_init (s_server ss) (\<lambda>_. nghttp2_stream_init (\<lambda>_. 0) 0 0 NGHTTP2_STREAM_IDLE 0 0 0 0),
        s_items := Map.empty, s_nalloc := 0, s_closed_stream_head := None, s_closed_stream_tail := None, s_idle_stream_head := None,
        s_idle_stream_tail := None, s_stream_seq := 0, s_num_outgoing_streams := 0, s_num_incoming_streams := 0,
        s_num_incoming_reserved_streams := 0, s_num_closed_streams := 0, s_num_idle_streams := 0\<rparr>"

lemma stream_meta_eqD:
  assumes "stream_meta st' = stream_meta st"
  shows "stream_id st' = stream_id st" "flags st' = flags st" "state st' = state st" "shut_flags st' = shut_flags st"
    "local_window_size st' = local_window_size st" "recv_window_size st' = recv_window_size st"
    "recv_reduction st' = recv_reduction st" "consumed_size st' = consumed_size st"
    "window_update_queued st' = window_update_queued st"
  using arg_cong [OF assms, of stream_id] arg_cong [OF assms, of flags] arg_cong [OF assms, of state]
    arg_cong [OF assms, of shut_flags] arg_cong [OF assms, of local_window_size] arg_cong [OF assms, of recv_window_size]
    arg_cong [OF assms, of recv_reduction] arg_cong [OF assms, of consumed_size] arg_cong [OF assms, of window_update_queued]
  by (simp_all add: stream_meta_def untouched_def)

lemma session_rest_eqD:
  assumes "session_rest ss' = session_rest ss"
  shows "s_opt_flags ss' = s_opt_flags ss" "s_ob_reg ss' = s_ob_reg ss" "s_ob_urgent ss' = s_ob_urgent ss"
    "s_local_window_size ss' = s_local_window_size ss" "s_recv_window_size ss' = s_recv_window_size ss"
    "s_recv_reduction ss' = s_recv_reduction ss" "s_consumed_size ss' = s_consumed_size ss"
    "s_window_update_queued ss' = s_window_update_queued ss"
  using arg_cong [OF assms, of s_opt_flags] arg_cong [OF assms, of s_ob_reg] arg_cong [OF assms, of s_ob_urgent]
    arg_cong [OF assms, of s_local_window_size] arg_cong [OF assms, of s_recv_window_size] arg_cong [OF assms, of s_recv_reduction]
    arg_cong [OF assms, of s_consumed_size] arg_cong [OF assms, of s_window_update_queued]
  by (simp_all add: session_rest_def)

text \<open>An operation that works on the stream \<open>s\<close>.\<close>

definition life_frame :: "nat \<Rightarrow> nghttp2_session \<Rightarrow> nghttp2_session \<Rightarrow> bool" where
  "life_frame s ss ss' \<longleftrightarrow> session_rest ss' = session_rest ss \<and> (\<forall>a. a \<noteq> s \<longrightarrow> stream_meta (s_heap ss' a) = stream_meta (s_heap ss a))"

text \<open>The same when \<open>s\<close> is not changed either.\<close>

definition tidy :: "nghttp2_session \<Rightarrow> nghttp2_session \<Rightarrow> bool" where
  "tidy ss ss' \<longleftrightarrow> session_rest ss' = session_rest ss \<and> (\<forall>a. stream_meta (s_heap ss' a) = stream_meta (s_heap ss a))"

lemma tidy_refl [simp, intro]: "tidy ss ss"
  by (simp add: tidy_def)

lemma tidy_trans [trans]: "tidy ss ss' \<Longrightarrow> tidy ss' ss'' \<Longrightarrow> tidy ss ss''"
  by (simp add: tidy_def)

lemma life_frame_refl [simp, intro]: "life_frame s ss ss"
  by (simp add: life_frame_def)

lemma life_frame_trans [trans]: "life_frame s ss ss' \<Longrightarrow> life_frame s ss' ss'' \<Longrightarrow> life_frame s ss ss''"
  by (simp add: life_frame_def)

lemma tidy_life: "tidy ss ss' \<Longrightarrow> life_frame s ss ss'"
  by (simp add: tidy_def life_frame_def)

lemma heap_upd [simp]: "s_heap (upd_stream ss s f) = (s_heap ss)(s := f (s_heap ss s))" "s_heap (set_heap ss h) = h" "s_heap (mem_used ss) = s_heap ss"
  by (simp_all add: upd_stream_def set_heap_def mem_used_def)

lemma tidy_heap: "(\<And>a. stream_meta (h a) = stream_meta (s_heap ss a)) \<Longrightarrow> tidy ss (set_heap ss h)"
  by (simp add: tidy_def) (simp add: session_rest_def set_heap_def)

lemma life_upd: "life_frame s ss (upd_stream ss s f)"
  by (simp add: life_frame_def) (simp add: session_rest_def upd_stream_def set_heap_def)

lemma tidy_mem: "tidy ss (mem_used ss)"
  by (simp add: tidy_def) (simp add: session_rest_def mem_used_def)

lemma frame_meta: "tree_frame h h' \<Longrightarrow> stream_meta (h' a) = stream_meta (h a)"
  by (simp add: tree_frame_def stream_meta_def)

lemma tidy_tree: "tree_frame (s_heap ss) h \<Longrightarrow> tidy ss (mem_used (set_heap ss h))" "tree_frame (s_heap ss) h \<Longrightarrow> tidy ss (set_heap ss h)"
  using tidy_trans [OF tidy_heap tidy_mem] tidy_heap frame_meta by blast+

lemma streams_simps [simp]:
  "s_streams (upd_stream ss s f) = s_streams ss" "s_streams (set_heap ss h) = s_streams ss" "s_streams (mem_used ss) = s_streams ss"
  by (simp_all add: upd_stream_def set_heap_def mem_used_def)

subsection \<open>Opening\<close>

lemma keep_idle_tidy: "tidy ss (nghttp2_session_keep_idle_stream ss s)" "s_streams (nghttp2_session_keep_idle_stream ss s) = s_streams ss"
  by (auto simp: nghttp2_session_keep_idle_stream_def Let_def tidy_def stream_meta_def session_rest_def upd_stream_def set_heap_def
      untouched_def split: option.split)

text \<open>The parts of \<open>open_stream_finish\<close>: registering the new object, counting it, putting it in the tree.\<close>

definition open_registered :: "nghttp2_session \<Rightarrow> int \<Rightarrow> u8 \<Rightarrow> nghttp2_priority_spec \<Rightarrow> nghttp2_stream_state \<Rightarrow> nat \<Rightarrow> nat \<Rightarrow> nghttp2_session" where
  "open_registered ss sid fl pri st ud s =
     (let ss = upd_stream ss s (\<lambda>_. nghttp2_stream_init (\<lambda>_. 0) sid fl st (pri_weight pri) (sint (st_initial_window_size (s_remote_settings ss)))
                 (sint (st_initial_window_size (s_local_settings ss))) ud)
      in if session_no_rfc7540_pri_no_fallback ss
         then (upd_stream ss s (\<lambda>st. st\<lparr>seq := s_stream_seq ss\<rparr>))\<lparr>s_stream_seq := s_stream_seq ss + 1\<rparr> else ss)"

definition open_counted :: "nghttp2_session \<Rightarrow> int \<Rightarrow> nghttp2_stream_state \<Rightarrow> nat \<Rightarrow> nghttp2_session" where
  "open_counted ss sid st s =
     (case st of
        NGHTTP2_STREAM_RESERVED \<Rightarrow>
          if nghttp2_session_is_my_stream_id ss sid then upd_stream ss s (\<lambda>st. nghttp2_stream_shutdown st NGHTTP2_SHUT_RD)
          else (upd_stream ss s (\<lambda>st. nghttp2_stream_shutdown st NGHTTP2_SHUT_WR))
                 \<lparr>s_num_incoming_reserved_streams := s_num_incoming_reserved_streams ss + 1\<rparr>
      | NGHTTP2_STREAM_IDLE \<Rightarrow> nghttp2_session_keep_idle_stream ss s
      | _ \<Rightarrow> if nghttp2_session_is_my_stream_id ss sid then ss\<lparr>s_num_outgoing_streams := s_num_outgoing_streams ss + 1\<rparr>
             else ss\<lparr>s_num_incoming_streams := s_num_incoming_streams ss + 1\<rparr>)"

definition open_placed :: "nghttp2_session \<Rightarrow> nghttp2_priority_spec \<Rightarrow> nat \<Rightarrow> nat option \<Rightarrow> (nat option \<times> nghttp2_session) option" where
  "open_placed ss pri s dep =
     (if flags (s_heap ss s) AND NGHTTP2_STREAM_FLAG_NO_RFC7540_PRIORITIES \<noteq> 0 then Some (Some s, ss)
      else do {
        d \<leftarrow> (if pri_stream_id pri = 0 then Some (s_root ss) else dep);
        if pri_exclusive pri \<noteq> 0 then do {
          (rv, h) \<leftarrow> nghttp2_stream_dep_insert (session_mem ss) (s_heap ss) d s;
          let ss = mem_used (set_heap ss h);
          if rv \<noteq> 0 then Some (None, ss) else Some (Some s, ss)
        }
        else do {
          h \<leftarrow> nghttp2_stream_dep_add (s_heap ss) d s;
          Some (Some s, set_heap ss h)
        }
      })"

definition push_flag :: "nghttp2_stream_state \<Rightarrow> u8 \<Rightarrow> u8" where
  "push_flag st fl = (if st = NGHTTP2_STREAM_RESERVED then fl OR NGHTTP2_STREAM_FLAG_PUSH else fl)"

lemma open_finish_parts:
  "open_stream_finish ss sid fl pri st ud s True dep = do {
     let ss = open_registered ss sid (push_flag st fl) pri st ud s;
     (rv, mp) \<leftarrow> nghttp2_map_insert (session_mem ss) (s_streams ss) (word_of_int sid) (Some s);
     let ss = mem_used (ss\<lparr>s_streams := mp\<rparr>);
     if rv \<noteq> 0 then Some (None, ss) else open_placed (open_counted ss sid st s) pri s dep
   }"
  by (simp add: open_stream_finish_def open_registered_def open_counted_def open_placed_def push_flag_def Let_def bind_assoc
      split_def cong: if_cong nghttp2_stream_state.case_cong)

lemma open_registered_frame:
  "life_frame s ss (open_registered ss sid fl pri st ud s)" "s_streams (open_registered ss sid fl pri st ud s) = s_streams ss"
  "stream_meta (s_heap (open_registered ss sid fl pri st ud s) s) =
     stream_meta (nghttp2_stream_init (\<lambda>_. 0) sid fl st 0 (sint (st_initial_window_size (s_remote_settings ss)))
       (sint (st_initial_window_size (s_local_settings ss))) ud)"
  by (simp_all add: open_registered_def life_frame_def Let_def)
    (simp_all add: upd_stream_def set_heap_def session_rest_def stream_meta_def untouched_def nghttp2_stream_init_def)

lemma open_placed_tidy:
  assumes "open_placed ss pri s dep = Some (r, ss')"
  shows "tidy ss ss'" "s_streams ss' = s_streams ss" "r = None \<or> r = Some s"
proof -
  have "r = None \<or> r = Some s" "ss' = ss \<or> (\<exists>h. tree_frame (s_heap ss) h \<and> (ss' = mem_used (set_heap ss h) \<or> ss' = set_heap ss h))"
    using assms dep_insert_frame dep_add_frame
    by (auto simp: open_placed_def split_def Let_def split: if_splits Option.bind_splits) blast+
  then show "tidy ss ss'" "s_streams ss' = s_streams ss" "r = None \<or> r = Some s" using tidy_tree by auto
qed

lemma open_counted_frame: "life_frame s ss (open_counted ss sid st s)" "s_streams (open_counted ss sid st s) = s_streams ss"
  using tidy_life [OF keep_idle_tidy(1)] keep_idle_tidy(2)
  by (auto simp: open_counted_def life_frame_def upd_stream_def set_heap_def session_rest_def split: nghttp2_stream_state.split)

text \<open>The new object as the opener leaves it, up to its place in the tree.\<close>

definition new_stream :: "nghttp2_session \<Rightarrow> int \<Rightarrow> u8 \<Rightarrow> nghttp2_stream_state \<Rightarrow> nat \<Rightarrow> nghttp2_stream" where
  "new_stream ss sid fl st ud =
     (let x = nghttp2_stream_init (\<lambda>_. 0) sid fl st 0 (sint (st_initial_window_size (s_remote_settings ss)))
                (sint (st_initial_window_size (s_local_settings ss))) ud
      in if st = NGHTTP2_STREAM_RESERVED
         then nghttp2_stream_shutdown x (if nghttp2_session_is_my_stream_id ss sid then NGHTTP2_SHUT_RD else NGHTTP2_SHUT_WR)
         else x)"

lemma is_my_rest:
  assumes "session_rest ss' = session_rest ss"
  shows "nghttp2_session_is_my_stream_id ss' sid = nghttp2_session_is_my_stream_id ss sid"
proof -
  have "s_server (session_rest x) = s_server x" for x by (simp add: session_rest_def sched_init_def)
  then have "s_server ss' = s_server ss" using assms by metis
  then show ?thesis by (simp add: nghttp2_session_is_my_stream_id_def)
qed

lemma meta_shutdown: "stream_meta x = stream_meta y \<Longrightarrow> stream_meta (nghttp2_stream_shutdown x f) = stream_meta (nghttp2_stream_shutdown y f)"
proof -
  have e: "stream_meta (x\<lparr>shut_flags := v\<rparr>) = (stream_meta x)\<lparr>shut_flags := v\<rparr>" for x v by (simp add: stream_meta_def untouched_def)
  assume "stream_meta x = stream_meta y"
  then show ?thesis using stream_meta_eqD(4) [of x y] by (simp add: nghttp2_stream_shutdown_def e)
qed

lemma open_counted_meta:
  assumes "stream_meta (s_heap ss s) = stream_meta x"
  shows "stream_meta (s_heap (open_counted ss sid st s) s) =
    stream_meta (if st = NGHTTP2_STREAM_RESERVED
      then nghttp2_stream_shutdown x (if nghttp2_session_is_my_stream_id ss sid then NGHTTP2_SHUT_RD else NGHTTP2_SHUT_WR) else x)"
  using assms meta_shutdown [OF assms] keep_idle_tidy(1) [of ss s]
  by (auto simp: open_counted_def tidy_def split: nghttp2_stream_state.split)

lemma open_finish_spec:
  assumes inv: "map_inv (s_streams ss)" "map_room (s_streams ss)"
    and op: "open_stream_finish ss sid fl pri st ud s True dep = Some (r, ss')"
  shows "map_inv (s_streams ss')" "life_frame s ss ss'"
    "r = None \<or> r = Some s \<and> map_abs (s_streams ss) (word_of_int sid) = None \<and>
       map_abs (s_streams ss') = (map_abs (s_streams ss))(word_of_int sid \<mapsto> s) \<and>
       stream_meta (s_heap ss' s) = stream_meta (new_stream ss sid (push_flag st fl) st ud)"
proof -
  let ?s1 = "open_registered ss sid (push_flag st fl) pri st ud s"
  note f1 = open_registered_frame [where s = s and ss = ss and sid = sid and fl = "push_flag st fl" and pri = pri and st = st and ud = ud]
  obtain rv mp where m: "nghttp2_map_insert (session_mem ?s1) (s_streams ss) (word_of_int sid) (Some s) = Some (rv, mp)" "map_inv mp"
    "rv = 0 \<longrightarrow> map_abs (s_streams ss) (word_of_int sid) = None \<and> map_abs mp = (map_abs (s_streams ss))(word_of_int sid \<mapsto> s)"
    using map_insert_spec [OF inv, of "session_mem ?s1" "word_of_int sid" s] by (auto simp: NGHTTP2_ERR_INVALID_ARGUMENT_def NGHTTP2_ERR_NOMEM_def)
  let ?s2 = "mem_used (?s1\<lparr>s_streams := mp\<rparr>)"
  have f2: "life_frame s ss ?s2" "stream_meta (s_heap ?s2 s) = stream_meta (s_heap ?s1 s)"
    using f1(1) by (simp_all add: life_frame_def session_rest_def mem_used_def)
  let ?s3 = "open_counted ?s2 sid st s"
  have f3: "life_frame s ss ?s3" "s_streams ?s3 = mp" "s_streams ?s2 = mp"
    using life_frame_trans [OF f2(1) open_counted_frame(1)] open_counted_frame(2) by (simp_all add: mem_used_def)
  have e: "(if rv \<noteq> 0 then Some (None, ?s2) else open_placed ?s3 pri s dep) = Some (r, ss')"
    using op m(1) by (simp add: open_finish_parts f1(2) Let_def)
  consider "r = None" "ss' = ?s2" | "rv = 0" "open_placed ?s3 pri s dep = Some (r, ss')" using e by (cases "rv = 0") simp_all
  then have "map_inv (s_streams ss') \<and> life_frame s ss ss'"
  proof cases
    case 1
    show ?thesis unfolding 1(2) using m(2) f2(1) f3(3) by simp
  next
    case 2
    note p = open_placed_tidy [OF 2(2)]
    show ?thesis using m(2) f3(2) p(2) life_frame_trans [OF f3(1) tidy_life [OF p(1)]] by simp
  qed
  then show "map_inv (s_streams ss')" "life_frame s ss ss'" by blast+
  have my: "nghttp2_session_is_my_stream_id ?s2 sid = nghttp2_session_is_my_stream_id ss sid"
    by (rule is_my_rest) (use f2(1) in \<open>simp add: life_frame_def\<close>)
  have meta: "stream_meta (s_heap ?s3 s) = stream_meta (new_stream ss sid (push_flag st fl) st ud)"
    using open_counted_meta [OF trans [OF f2(2) f1(3)], of sid st] by (simp only: my new_stream_def Let_def)
  show "r = None \<or> r = Some s \<and> map_abs (s_streams ss) (word_of_int sid) = None \<and>
      map_abs (s_streams ss') = (map_abs (s_streams ss))(word_of_int sid \<mapsto> s) \<and>
      stream_meta (s_heap ss' s) = stream_meta (new_stream ss sid (push_flag st fl) st ud)"
    using e m(3) f3 meta open_placed_tidy [of ?s3 pri s dep r ss'] by (auto simp: tidy_def split: if_splits)
qed

text \<open>
  The stream a new one depends on is none, the default, or in the table; it need not be created as an
  idle stream first.
\<close>

definition dep_known :: "nghttp2_session \<Rightarrow> nghttp2_priority_spec \<Rightarrow> bool" where
  "dep_known ss pri \<longleftrightarrow> nghttp2_session_get_stream_raw ss (pri_stream_id pri) \<noteq> Some None \<or> \<not> session_detect_idle_stream ss (pri_stream_id pri)"

definition clean_flags :: "u8 \<Rightarrow> bool" where
  "clean_flags fl \<longleftrightarrow> fl AND NGHTTP2_STREAM_FLAG_CLOSED = 0"

lemma clean_flags_or:
  "clean_flags fl \<Longrightarrow> clean_flags (fl OR NGHTTP2_STREAM_FLAG_NO_RFC9113_LEADING_AND_TRAILING_WS_VALIDATION)"
  "clean_flags fl \<Longrightarrow> clean_flags (fl OR NGHTTP2_STREAM_FLAG_NO_RFC7540_PRIORITIES)"
  "clean_flags fl \<Longrightarrow> clean_flags (push_flag st fl)"
  by (simp_all add: clean_flags_def push_flag_def bit.conj_disj_distrib2 ng_defs NGHTTP2_STREAM_FLAG_NO_RFC9113_LEADING_AND_TRAILING_WS_VALIDATION_def)

lemma open_new_parts:
  assumes inv: "map_inv (s_streams ss)" and new: "map_abs (s_streams ss) (word_of_int sid) = None" and dep: "dep_known ss pri"
    and op: "nghttp2_session_open_stream ss sid fl pri st ud = Some (Some s, ss')"
  obtains fl' pri' d where "s_alloc ss (s_nalloc ss) = Some s" "clean_flags fl \<Longrightarrow> clean_flags fl'"
    "open_stream_finish (ss\<lparr>s_nalloc := Suc (s_nalloc ss)\<rparr>) sid fl' pri' st ud s True d = Some (Some s, ss')"
proof -
  have o: "open_stream_object ss sid = Some (map_option (\<lambda>s. (s, True)) (s_alloc ss (s_nalloc ss)), ss\<lparr>s_nalloc := Suc (s_nalloc ss)\<rparr>)"
    using inv new by (simp add: open_stream_object_def raw_find session_malloc_def)
  obtain a where a: "s_alloc ss (s_nalloc ss) = Some a" using op o by (cases "s_alloc ss (s_nalloc ss)") (auto simp: nghttp2_session_open_stream.simps Let_def)
  have k: "nghttp2_session_get_stream_raw (ss\<lparr>s_nalloc := n\<rparr>) t = nghttp2_session_get_stream_raw ss t"
    "session_detect_idle_stream (ss\<lparr>s_nalloc := n\<rparr>) t = session_detect_idle_stream ss t" for n t
    by (simp_all add: nghttp2_session_get_stream_raw_def session_detect_idle_stream_def nghttp2_session_is_my_stream_id_def session_is_new_peer_stream_id_def)
  note f = clean_flags_or(1,2)
  have "\<exists>fl' pri' d. (clean_flags fl \<longrightarrow> clean_flags fl') \<and>
      open_stream_finish (ss\<lparr>s_nalloc := Suc (s_nalloc ss)\<rparr>) sid fl' pri' st ud a True d = Some (Some s, ss')"
    using op dep f unfolding nghttp2_session_open_stream.simps [of ss] o a dep_known_def
    by (auto simp: Let_def k raw_find [OF inv] split: if_splits option.splits)
  then obtain fl' pri' d where r: "clean_flags fl \<Longrightarrow> clean_flags fl'"
      "open_stream_finish (ss\<lparr>s_nalloc := Suc (s_nalloc ss)\<rparr>) sid fl' pri' st ud a True d = Some (Some s, ss')" by blast
  moreover have "s = a" using r(2) by (auto simp: open_finish_parts Let_def split_def dest: open_placed_tidy(3) split: if_splits Option.bind_splits)
  ultimately show ?thesis using that a by blast
qed

lemma open_new_spec:
  assumes ok: "streams_ok ss" and sid: "valid_sid sid" and new: "map_abs (s_streams ss) (word_of_int sid) = None"
    and room: "map_room (s_streams ss)" and dep: "dep_known ss pri"
    and op: "nghttp2_session_open_stream ss sid fl pri st ud = Some (Some s, ss')" and fresh: "s \<notin> ran (map_abs (s_streams ss))"
  obtains fl' where "clean_flags fl \<Longrightarrow> clean_flags fl'" "stream_meta (s_heap ss' s) = stream_meta (new_stream ss sid fl' st ud)"
    "streams_ok ss'" "life_frame s ss ss'" "map_abs (s_streams ss') = (map_abs (s_streams ss))(word_of_int sid \<mapsto> s)"
proof -
  have inv: "map_inv (s_streams ss)" using ok by (simp add: streams_ok_def)
  obtain fl' pri' d where p: "clean_flags fl \<Longrightarrow> clean_flags fl'"
    "open_stream_finish (ss\<lparr>s_nalloc := Suc (s_nalloc ss)\<rparr>) sid fl' pri' st ud s True d = Some (Some s, ss')"
    using open_new_parts [OF inv new dep op] by metis
  let ?s0 = "ss\<lparr>s_nalloc := Suc (s_nalloc ss)\<rparr>"
  have n: "new_stream ?s0 = new_stream ss" by (simp add: new_stream_def nghttp2_session_is_my_stream_id_def fun_eq_iff)
  have s0: "life_frame s ss ?s0" by (simp add: life_frame_def session_rest_def)
  note f = open_finish_spec [OF _ _ p(2), simplified, OF inv room]
  have m: "map_abs (s_streams ss') = (map_abs (s_streams ss))(word_of_int sid \<mapsto> s)"
    "stream_meta (s_heap ss' s) = stream_meta (new_stream ss sid (push_flag st fl') st ud)" using f(3) n by auto
  have l: "life_frame s ss ss'" using f(2) s0 by (blast intro: life_frame_trans)
  have "stream_id (s_heap ss' t) = sint k \<and> 0 < sint k" if "map_abs (s_streams ss') k = Some t" for k t
  proof (cases "k = word_of_int sid")
    case True
    then have "t = s" using that m(1) by simp
    moreover have "stream_id (s_heap ss' s) = sid"
      using stream_meta_eqD(1) [OF m(2)] by (simp add: new_stream_def nghttp2_stream_shutdown_def nghttp2_stream_init_def Let_def)
    ultimately show ?thesis using True sid valid_sid_sint [OF sid] by (simp add: valid_sid_def)
  next
    case False
    then have t: "map_abs (s_streams ss) k = Some t" using that m(1) by simp
    then have "t \<noteq> s" using fresh by (auto simp: ran_def)
    then have "stream_id (s_heap ss' t) = stream_id (s_heap ss t)" using l stream_meta_eqD(1) [of "s_heap ss' t" "s_heap ss t"] by (simp add: life_frame_def)
    then show ?thesis using ok t by (simp add: streams_ok_def)
  qed
  then have "streams_ok ss'" using f(1) by (simp add: streams_ok_def)
  then show ?thesis using p(1) clean_flags_or(3) by (intro that [OF _ m(2) _ l m(1)]) simp_all
qed

lemma new_stream_findable: "clean_flags fl \<Longrightarrow> st \<noteq> NGHTTP2_STREAM_IDLE \<Longrightarrow> findable (new_stream ss sid fl st ud)"
  by (simp add: findable_def new_stream_def clean_flags_def nghttp2_stream_shutdown_def nghttp2_stream_init_def Let_def)

lemma findable_meta: "stream_meta st' = stream_meta st \<Longrightarrow> findable st' = findable st"
  using stream_meta_eqD(2,3) [of st' st] by (simp add: findable_def)

subsection \<open>Closing\<close>

lemma detach_core_meta:
  assumes "session_detach_stream_item core s = Some core'"
  shows "server core' = server core" "a \<noteq> s \<Longrightarrow> stream_meta (streams core' a) = stream_meta (streams core a)"
    "stream_id (streams core' s) = stream_id (streams core s)"
proof -
  let ?h = "(streams core)(s := (streams core s)\<lparr>item := None, flags := flags (streams core s) AND NOT NGHTTP2_STREAM_FLAG_DEFERRED_ALL\<rparr>)"
  obtain h where h: "nghttp2_stream_detach_item (streams core) s = Some h"
    using assms unfolding session_detach_stream_item_def by (cases "nghttp2_stream_detach_item (streams core) s") simp_all
  have t: "tree_frame ?h h"
    using h obq_remove_frame [of ?h s h] unfolding nghttp2_stream_detach_item_def Let_def stream_update_dep_on_detach_item_def
    by (simp only: option.inject split: if_splits) auto
  have "core' = core\<lparr>streams := h\<rparr> \<or> session_ob_data_remove (core\<lparr>streams := h\<rparr>) s = Some core'"
    using assms unfolding session_detach_stream_item_def h Let_def by (auto split: if_splits)
  then obtain q where q: "core' = core\<lparr>streams := h\<rparr> \<or> core' = core\<lparr>streams := h(s := (h s)\<lparr>queued := False\<rparr>), sched := q\<rparr>"
    unfolding session_ob_data_remove_def Let_def by (auto split: option.splits if_splits)
  note h = t q
  show "server core' = server core" using h(2) by auto
  show "a \<noteq> s \<Longrightarrow> stream_meta (streams core' a) = stream_meta (streams core a)" using h(2) frame_meta [OF h(1), of a] by auto
  show "stream_id (streams core' s) = stream_id (streams core s)" using h(2) stream_meta_eqD(1) [OF frame_meta [OF h(1), of s]] by auto
qed

lemma close_detach_frame:
  assumes "close_detach_item ss s = Some ss'"
  shows "life_frame s ss ss'" "s_streams ss' = s_streams ss" "stream_id (s_heap ss' s) = stream_id (s_heap ss s)"
proof -
  have "ss' = ss \<or> (\<exists>core m. session_detach_stream_item (s_core ss) s = Some core \<and> ss' = ss\<lparr>s_core := core, s_items := m\<rparr>)"
  proof (cases "item (s_heap ss s)")
    case None
    then show ?thesis using assms by (simp add: close_detach_item_def)
  next
    case (Some a)
    then obtain core where c: "session_detach_stream_item (s_core ss) s = Some core"
      using assms by (cases "session_detach_stream_item (s_core ss) s") (simp_all add: close_detach_item_def)
    have "ss' = ss\<lparr>s_core := core, s_items := s_items ss\<rparr> \<or> ss' = ss\<lparr>s_core := core, s_items := (s_items ss)(a := None)\<rparr>"
      using assms Some c by (simp add: close_detach_item_def Let_def split: if_splits)
    then show ?thesis using c by blast
  qed
  then obtain core m where c: "ss' = ss \<or> session_detach_stream_item (s_core ss) s = Some core \<and> ss' = ss\<lparr>s_core := core, s_items := m\<rparr>" by blast
  then show "life_frame s ss ss'" "s_streams ss' = s_streams ss" "stream_id (s_heap ss' s) = stream_id (s_heap ss s)"
    using detach_core_meta [of "s_core ss" s core] by (auto simp: life_frame_def session_rest_def)
qed

lemma ob_remove_meta:
  assumes "session_ob_data_remove core s = Some core'"
  shows "server core' = server core" "stream_meta (streams core' a) = stream_meta (streams core a)"
  using assms by (auto simp: session_ob_data_remove_def Let_def stream_meta_def untouched_def split: option.splits if_splits)

text \<open>A stream is taken out of the table, or the operation fails in the tree and changes nothing but links.\<close>

lemma destroy_spec:
  assumes ok: "map_inv (s_streams ss)" and op: "nghttp2_session_destroy_stream ss s = Some (rv, ss')"
  shows "tidy ss ss'" "map_inv (s_streams ss')"
    "map_abs (s_streams ss') = (if rv = 0 then (map_abs (s_streams ss))(word_of_int (stream_id (s_heap ss s)) := None) else map_abs (s_streams ss))"
proof -
  obtain v s1 where s1: "(if nghttp2_stream_in_dep_tree (s_heap ss s) then do {
          (rv, h) \<leftarrow> nghttp2_stream_dep_remove (session_mem ss) (s_heap ss) s;
          Some (rv, mem_used (set_heap ss h))
        } else Some (0, ss)) = Some (v, s1)"
    "(if v \<noteq> 0 then Some (v, s1)
      else do {
       core \<leftarrow> (if queued (s_heap s1 s) \<and> flags (s_heap s1 s) AND NGHTTP2_STREAM_FLAG_NO_RFC7540_PRIORITIES \<noteq> 0
               then session_ob_data_remove (s_core s1) s else Some (s_core s1));
       (_, mp) \<leftarrow> nghttp2_map_remove (s_streams s1) (word_of_int (stream_id (streams core s)));
       Some (0, s1\<lparr>s_core := core, s_streams := mp\<rparr>)
     }) = Some (rv, ss')"
    using op unfolding nghttp2_session_destroy_stream_def Option.bind_eq_Some_conv [of _ "case_prod _"] by fastforce
  have t1: "tidy ss s1" "s_streams s1 = s_streams ss"
    using s1(1) tidy_tree(1) dep_remove_frame by (auto split: if_splits Option.bind_splits)
  have id: "stream_id (s_heap s1 s) = stream_id (s_heap ss s)" using t1(1) stream_meta_eqD(1) [of "s_heap s1 s" "s_heap ss s"] by (simp add: tidy_def)
  show "tidy ss ss'" "map_inv (s_streams ss')"
    "map_abs (s_streams ss') = (if rv = 0 then (map_abs (s_streams ss))(word_of_int (stream_id (s_heap ss s)) := None) else map_abs (s_streams ss))"
  proof (atomize (full), cases "v = 0")
    case False
    then show "tidy ss ss' \<and> map_inv (s_streams ss') \<and>
      map_abs (s_streams ss') = (if rv = 0 then (map_abs (s_streams ss))(word_of_int (stream_id (s_heap ss s)) := None) else map_abs (s_streams ss))"
      using s1(2) t1 ok by simp
  next
    case True
    let ?c = "if queued (s_heap s1 s) \<and> flags (s_heap s1 s) AND NGHTTP2_STREAM_FLAG_NO_RFC7540_PRIORITIES \<noteq> 0
       then session_ob_data_remove (s_core s1) s else Some (s_core s1)"
    obtain core where c1: "?c = Some core" using s1(2) True by (cases ?c) simp_all
    then have c2: "core = s_core s1 \<or> session_ob_data_remove (s_core s1) s = Some core" by (simp split: if_splits)
    have "do { (_, mp) \<leftarrow> nghttp2_map_remove (s_streams s1) (word_of_int (stream_id (streams core s))); Some (0, s1\<lparr>s_core := core, s_streams := mp\<rparr>) }
        = Some (rv, ss')"
      using s1(2) unfolding c1 Option.bind.bind_lunit by (simp only: True simp_thms if_False)
    then obtain x mp where c3: "nghttp2_map_remove (s_streams s1) (word_of_int (stream_id (streams core s))) = Some (x, mp)"
      "rv = 0" "ss' = s1\<lparr>s_core := core, s_streams := mp\<rparr>" by (auto split: Option.bind_splits)
    note c = c2 c3
    have m: "server core = s_server s1" "stream_meta (streams core a) = stream_meta (s_heap s1 a)" for a
      using c(1) ob_remove_meta [of "s_core s1" s core] by auto
    have "stream_id (streams core s) = stream_id (s_heap ss s)" using stream_meta_eqD(1) [OF m(2)] id by simp
    then have r: "map_inv mp" "map_abs mp = (map_abs (s_streams ss))(word_of_int (stream_id (s_heap ss s)) := None)"
      using map_remove_spec [OF ok, of "word_of_int (stream_id (s_heap ss s))"] c(2) t1(2) by (auto split: if_splits)
    have "tidy s1 ss'" using m c(4) by (simp add: tidy_def session_rest_def)
    then show "tidy ss ss' \<and> map_inv (s_streams ss') \<and>
      map_abs (s_streams ss') = (if rv = 0 then (map_abs (s_streams ss))(word_of_int (stream_id (s_heap ss s)) := None) else map_abs (s_streams ss))"
      using tidy_trans [OF t1(1)] r c(3,4) by simp
  qed
qed

text \<open>A callback that succeeds and leaves the session alone.\<close>

definition quiet_close :: "stream_close_callback \<Rightarrow> nghttp2_session \<Rightarrow> int \<Rightarrow> u32 \<Rightarrow> bool" where
  "quiet_close cb ss sid error_code \<longleftrightarrow> (case cb of None \<Rightarrow> True | Some f \<Rightarrow> f ss sid error_code = (0, ss))"

lemma keep_closed_tidy: "tidy ss (nghttp2_session_keep_closed_stream ss s)" "s_streams (nghttp2_session_keep_closed_stream ss s) = s_streams ss"
  by (auto simp: nghttp2_session_keep_closed_stream_def Let_def tidy_def stream_meta_def session_rest_def upd_stream_def set_heap_def
      untouched_def split: option.split)

lemma close_count_tidy:
  "tidy ss (close_count ss sid s)" "s_streams (close_count ss sid s) = s_streams ss" "s_heap (close_count ss sid s) = s_heap ss"
  by (simp_all add: close_count_def tidy_def session_rest_def)

lemma closed_not_findable: "\<not> findable (st\<lparr>flags := flags st OR NGHTTP2_STREAM_FLAG_CLOSED\<rparr>)"
proof -
  have "bit ((flags st OR NGHTTP2_STREAM_FLAG_CLOSED) AND NGHTTP2_STREAM_FLAG_CLOSED) 1"
    by (simp add: NGHTTP2_STREAM_FLAG_CLOSED_def bit_simps)
  then show ?thesis by (auto simp: findable_def)
qed

lemma close_spec:
  assumes ok: "streams_ok ss" and live: "live ss sid s" and sid: "valid_sid sid" and cb: "quiet_close cb ss sid error_code"
    and op: "nghttp2_session_close_stream cb ss sid error_code = Some (rv, ss')"
  shows "streams_ok ss'" "life_frame s ss ss'" "nghttp2_session_get_stream ss' sid = Some None"
    "k \<noteq> word_of_int sid \<Longrightarrow> map_abs (s_streams ss') k = map_abs (s_streams ss) k"
proof -
  have inv: "map_inv (s_streams ss)" using ok by (simp add: streams_ok_def)
  have tab: "map_abs (s_streams ss) (word_of_int sid) = Some s" using live ok by (simp add: live_iff)
  then have id: "stream_id (s_heap ss s) = sid" using ok valid_sid_sint [OF sid] by (simp add: streams_ok_def)
  obtain s1 where s1: "close_detach_item ss s = Some s1"
    using op live cb by (cases "close_detach_item ss s") (auto simp: nghttp2_session_close_stream_def quiet_close_def split: option.splits)
  let ?s2 = "upd_stream (close_count s1 sid s) s (\<lambda>st. st\<lparr>flags := flags st OR NGHTTP2_STREAM_FLAG_CLOSED\<rparr>)"
  note d = close_detach_frame [OF s1]
  have f2: "life_frame s ss ?s2" "s_streams ?s2 = s_streams ss" "stream_id (s_heap ?s2 s) = sid" "\<not> findable (s_heap ?s2 s)"
    using life_frame_trans [OF d(1) life_frame_trans [OF tidy_life [OF close_count_tidy(1)] life_upd]] d(2,3) close_count_tidy(2,3) id closed_not_findable
    by simp_all
  have "rv = 0 \<and> ss' = nghttp2_session_keep_closed_stream ?s2 s \<or> nghttp2_session_destroy_stream ?s2 s = Some (rv, ss')"
    using op live cb s1 by (auto simp: nghttp2_session_close_stream_def quiet_close_def Let_def split: option.splits if_splits)
  then have t: "tidy ?s2 ss'" "map_inv (s_streams ss')"
    "map_abs (s_streams ss') = map_abs (s_streams ss) \<or> map_abs (s_streams ss') = (map_abs (s_streams ss))(word_of_int sid := None)"
    using keep_closed_tidy [of ?s2 s] destroy_spec [of ?s2 s rv ss'] inv f2(2,3) by (auto split: if_splits)
  then show l: "life_frame s ss ss'" using life_frame_trans [OF f2(1) tidy_life] by blast
  show "k \<noteq> word_of_int sid \<Longrightarrow> map_abs (s_streams ss') k = map_abs (s_streams ss) k" using t(3) by auto
  have m: "stream_meta (s_heap ss' s) = stream_meta (s_heap ?s2 s)" using t(1) unfolding tidy_def by blast
  have ids: "stream_id (s_heap ss' a) = stream_id (s_heap ss a)" for a
    using l stream_meta_eqD(1) [of "s_heap ss' a" "s_heap ss a"] stream_meta_eqD(1) [OF m] f2(3) id
    by (cases "a = s") (simp_all add: life_frame_def)
  have "map_abs (s_streams ss) k = Some a" if "map_abs (s_streams ss') k = Some a" for k a
    using that t(3) by (auto split: if_splits)
  then show ok': "streams_ok ss'" using ok t(2) ids by (simp add: streams_ok_def)
  have "\<not> findable (s_heap ss' s)" using findable_meta [OF m] f2(4) by simp
  then show "nghttp2_session_get_stream ss' sid = Some None" using t(3) tab by (auto simp: get_stream_find [OF ok'])
qed

subsection \<open>The table as the application sees it\<close>

lemma word_sid_inj: "valid_sid t \<Longrightarrow> valid_sid sid \<Longrightarrow> (word_of_int t :: u32) = word_of_int sid \<longleftrightarrow> t = sid"
  by (metis valid_sid_sint)

lemma live_id: "streams_ok ss \<Longrightarrow> valid_sid t \<Longrightarrow> live ss t a \<Longrightarrow> stream_id (s_heap ss a) = t"
  using valid_sid_sint [of t] by (auto simp: live_iff streams_ok_def)

lemma life_frame_live:
  assumes "streams_ok ss" "streams_ok ss'" "life_frame s ss ss'"
    and "map_abs (s_streams ss') (word_of_int t) = map_abs (s_streams ss) (word_of_int t)" "map_abs (s_streams ss) (word_of_int t) \<noteq> Some s"
  shows "live ss' t a = live ss t a \<and> (live ss t a \<longrightarrow> stream_meta (s_heap ss' a) = stream_meta (s_heap ss a))"
  using assms findable_meta [of "s_heap ss' a" "s_heap ss a"] by (auto simp: live_iff life_frame_def)


subsection \<open>New sessions\<close>

lemma apply_if_keep:
  "(\<And>x. s_streams (f x) = s_streams x) \<Longrightarrow> s_streams (apply_if c f ss) = s_streams ss"
  "(\<And>x. s_core (f x) = s_core x) \<Longrightarrow> s_core (apply_if c f ss) = s_core ss"
  "(\<And>x. s_ob_reg (f x) = s_ob_reg x) \<Longrightarrow> s_ob_reg (apply_if c f ss) = s_ob_reg ss"
  "(\<And>x. s_local_window_size (f x) = s_local_window_size x) \<Longrightarrow> s_local_window_size (apply_if c f ss) = s_local_window_size ss"
  "(\<And>x. s_recv_window_size (f x) = s_recv_window_size x) \<Longrightarrow> s_recv_window_size (apply_if c f ss) = s_recv_window_size ss"
  "(\<And>x. s_recv_reduction (f x) = s_recv_reduction x) \<Longrightarrow> s_recv_reduction (apply_if c f ss) = s_recv_reduction ss"
  "(\<And>x. s_consumed_size (f x) = s_consumed_size x) \<Longrightarrow> s_consumed_size (apply_if c f ss) = s_consumed_size ss"
  "(\<And>x. s_window_update_queued (f x) = s_window_update_queued x) \<Longrightarrow> s_window_update_queued (apply_if c f ss) = s_window_update_queued ss"
  "(\<And>x. s_local_settings (f x) = s_local_settings x) \<Longrightarrow> s_local_settings (apply_if c f ss) = s_local_settings ss"
  by (simp_all add: apply_if_def)

lemma options_keep:
  "s_streams (session_options op ss) = s_streams ss" "s_core (session_options op ss) = s_core ss" "s_ob_reg (session_options op ss) = s_ob_reg ss"
  "s_local_window_size (session_options op ss) = s_local_window_size ss" "s_recv_window_size (session_options op ss) = s_recv_window_size ss"
  "s_recv_reduction (session_options op ss) = s_recv_reduction ss" "s_consumed_size (session_options op ss) = s_consumed_size ss"
  "s_window_update_queued (session_options op ss) = s_window_update_queued ss" "s_local_settings (session_options op ss) = s_local_settings ss"
  by (simp_all add: session_options_def Let_def apply_if_keep add_opt_flag_def)

lemma preface_keep:
  assumes "session_preface ss = Some ss'"
  shows "s_streams ss' = s_streams ss" "s_core ss' = s_core ss" "s_ob_reg ss' = s_ob_reg ss"
    "s_local_window_size ss' = s_local_window_size ss" "s_recv_window_size ss' = s_recv_window_size ss"
    "s_recv_reduction ss' = s_recv_reduction ss" "s_consumed_size ss' = s_consumed_size ss"
    "s_window_update_queued ss' = s_window_update_queued ss" "s_opt_flags ss' = s_opt_flags ss" "s_local_settings ss' = s_local_settings ss"
  using assms by (auto simp: session_preface_def Let_def split: if_splits Option.bind_splits)

lemma map_sum_Inr: "map_sum id f z = Inr y \<Longrightarrow> \<exists>x. z = Inr x \<and> y = f x"
  by (cases z) auto

text \<open>A session that was just created, by either constructor.\<close>

definition new_session :: "session_memory \<Rightarrow> nghttp2_option option \<Rightarrow> nghttp2_session \<Rightarrow> bool" where
  "new_session sm op ss \<longleftrightarrow> nghttp2_session_client_new3 sm op = Some (Inr ss) \<or> nghttp2_session_server_new3 sm op = Some (Inr ss)"

lemma new_session_facts:
  assumes "new_session sm op ss"
  shows "s_streams ss = nghttp2_map_init" "s_ob_reg ss = []" "s_local_window_size ss = 65535" "s_recv_window_size ss = 0"
    "s_recv_reduction ss = 0" "s_consumed_size ss = 0" "\<not> s_window_update_queued ss"
    "op = None \<longrightarrow> s_opt_flags ss = 0" "sint (st_initial_window_size (s_local_settings ss)) = 65535"
proof -
  obtain sv i s1 where s1: "session_new sm sv op = Some (Inr s1)" "ss = s1\<lparr>s_next_stream_id := i\<rparr>"
    using assms by (auto simp: new_session_def nghttp2_session_client_new3_def nghttp2_session_server_new3_def dest!: map_sum_Inr)
  obtain dfl ifl bufs where p: "session_preface (case op of None \<Rightarrow> session_block sm sv dfl ifl bufs
      | Some op \<Rightarrow> session_options op (session_block sm sv dfl ifl bufs)) = Some s1"
    using s1(1) by (auto simp: session_new_def Let_def split: if_splits sum.splits)
  show "s_streams ss = nghttp2_map_init" "s_ob_reg ss = []" "s_local_window_size ss = 65535" "s_recv_window_size ss = 0"
    "s_recv_reduction ss = 0" "s_consumed_size ss = 0" "\<not> s_window_update_queued ss"
    "op = None \<longrightarrow> s_opt_flags ss = 0" "sint (st_initial_window_size (s_local_settings ss)) = 65535"
    using preface_keep [OF p] s1(2)
    by (auto simp: options_keep session_block_def nghttp2_outbound_queue_init_def NGHTTP2_INITIAL_CONNECTION_WINDOW_SIZE_def
        init_settings_def NGHTTP2_INITIAL_WINDOW_SIZE_def push_bit_eq_mult split: option.splits)
qed

lemma new_session_streams: "new_session sm op ss \<Longrightarrow> map_inv (s_streams ss) \<and> map_abs (s_streams ss) = Map.empty \<and> map_room (s_streams ss) \<and> streams_ok ss"
  by (auto simp: streams_ok_def new_session_facts(1) map_inv_def nghttp2_map_init_def map_abs_def table_abs_def map_room_def fun_eq_iff)

text \<open>Memory that never fails: objects at the addresses from 1, the root at 0.\<close>

definition ample_memory :: session_memory where
  "ample_memory =
     (let al = \<lparr>mem_ok = \<lambda>_. True, mem_fill = \<lambda>_. 0\<rparr>
      in \<lparr>sm_session = True, sm_deflater = al, sm_inflater = al, sm_framebufs = al,
          sm_heap = (\<lambda>_. nghttp2_stream_init (\<lambda>_. 0) 0 0 NGHTTP2_STREAM_IDLE 0 0 0 0), sm_root = 0, sm_alloc = (\<lambda>n. Some (Suc n))\<rparr>)"

lemma ample_server:
  obtains ss where "nghttp2_session_server_new3 ample_memory None = Some (Inr ss)" "s_alloc ss = (\<lambda>n. Some (Suc n))" "s_nalloc ss = 0"
    "s_pending_no_rfc7540_priorities ss = 255" "st_no_rfc7540_priorities (s_remote_settings ss) \<noteq> 1" "s_root ss = 0"
    "s_opt_flags ss = 0"
proof -
  let ?al = "\<lparr>mem_ok = \<lambda>_. True, mem_fill = \<lambda>_. 0\<rparr>"
  obtain dfl where d: "nghttp2_hd_deflate_init2 ?al (option_deflate_size None) = Inr dfl" using deflate_init_ok [of ?al] by auto
  obtain ifl where i: "nghttp2_hd_inflate_init ?al = Inr ifl" using context_init_ok [of ?al] by (auto simp: nghttp2_hd_inflate_init_def)
  obtain bufs where b: "nghttp2_bufs_init3 ?al NGHTTP2_FRAMEBUF_CHUNKLEN (framebuf_count (option_header_block_length None)) 1 (NGHTTP2_FRAME_HDLEN + 1) = Inr bufs"
  proof -
    have "nghttp2_bufs_init3 ?al NGHTTP2_FRAMEBUF_CHUNKLEN n 1 (NGHTTP2_FRAME_HDLEN + 1) \<noteq> Inl rv" if "1 \<le> n" for n rv
      using that by (simp add: nghttp2_bufs_init3_def buf_chain_new_def nghttp2_buf_init2_def nghttp2_buf_reserve_def NGHTTP2_FRAMEBUF_CHUNKLEN_def NGHTTP2_FRAME_HDLEN_def Let_def)
    moreover have "1 \<le> framebuf_count m" for m by (simp add: framebuf_count_def Let_def)
    ultimately show ?thesis using that by (metis sumE)
  qed
  let ?ss = "(session_block ample_memory True dfl ifl bufs)\<lparr>s_iframe_state := NGHTTP2_IB_READ_CLIENT_MAGIC, s_payloadleft := NGHTTP2_CLIENT_MAGIC_LEN, s_next_stream_id := 2\<rparr>"
  have "nghttp2_session_server_new3 ample_memory None = Some (Inr ?ss)"
    using d i b by (simp add: nghttp2_session_server_new3_def session_new_def ample_memory_def session_preface_def session_block_def Let_def)
  then show ?thesis by (rule that) (simp_all add: session_block_def ample_memory_def init_settings_def UINT32_MAX_def Let_def)
qed

text \<open>With memory, a stream with the default priority is always opened.\<close>

lemma open_default_ok:
  assumes inv: "map_inv (s_streams ss)" "map_room (s_streams ss)" and new: "map_abs (s_streams ss) (word_of_int sid) = None"
    and mem: "\<And>n. s_alloc ss n \<noteq> None" and rfc: "\<not> session_no_rfc7540_pri_no_fallback ss" "st_no_rfc7540_priorities (s_remote_settings ss) \<noteq> 1"
    and s: "s_alloc ss (s_nalloc ss) = Some s" "s \<noteq> s_root ss"
  shows "\<exists>ss'. nghttp2_session_open_stream ss sid 0 nghttp2_priority_spec_default_init NGHTTP2_STREAM_OPENED ud = Some (Some s, ss')"
proof -
  let ?s0 = "ss\<lparr>s_nalloc := Suc (s_nalloc ss)\<rparr>" and ?pri = nghttp2_priority_spec_default_init
  have o: "open_stream_object ss sid = Some (Some (s, True), ?s0)"
    using inv new s by (simp add: open_stream_object_def raw_find session_malloc_def)
  have k: "session_no_rfc7540_pri_no_fallback ?s0 = session_no_rfc7540_pri_no_fallback ss" by (simp add: session_no_rfc7540_pri_no_fallback_def)
  have "\<exists>ss'. open_stream_finish ?s0 sid fl ?pri NGHTTP2_STREAM_OPENED ud s True None = Some (Some s, ss')" for fl
  proof -
    let ?s1 = "open_registered ?s0 sid fl ?pri NGHTTP2_STREAM_OPENED ud s"
    have m1: "session_mem ?s1 n" for n using mem
      by (simp add: session_mem_def open_registered_def Let_def upd_stream_def set_heap_def)
    then obtain mp where m: "nghttp2_map_insert (session_mem ?s1) (s_streams ss) (word_of_int sid) (Some s) = Some (0, mp)"
      using map_insert_spec [OF inv, of "session_mem ?s1" "word_of_int sid" s] new by auto
    let ?s2 = "open_counted (mem_used (?s1\<lparr>s_streams := mp\<rparr>)) sid NGHTTP2_STREAM_OPENED s"
    have sib: "sib_prev (s_heap ?s2 s) = None" "s_root ?s2 = s_root ss"
      by (simp_all add: open_counted_def open_registered_def Let_def upd_stream_def set_heap_def mem_used_def nghttp2_stream_init_def)
    have "\<exists>ss'. open_placed ?s2 ?pri s None = Some (Some s, ss')"
      using sib s(2) by (simp add: open_placed_def nghttp2_priority_spec_default_init_def nghttp2_stream_dep_add_def insert_link_dep_def Let_def)
    then show ?thesis
      using m open_registered_frame(2) [of ?s0 sid fl ?pri NGHTTP2_STREAM_OPENED ud s]
      by (simp add: open_finish_parts push_flag_def Let_def)
  qed
  then show ?thesis using o rfc k
    by (simp add: nghttp2_session_open_stream.simps Let_def nghttp2_priority_spec_default_init_def)
qed

lemma ample_open:
  obtains ss ss' where "new_session ample_memory None ss"
    "nghttp2_session_open_stream ss 1 0 nghttp2_priority_spec_default_init NGHTTP2_STREAM_OPENED 0 = Some (Some 1, ss')"
proof -
  obtain ss where n: "nghttp2_session_server_new3 ample_memory None = Some (Inr ss)" "s_alloc ss = (\<lambda>n. Some (Suc n))" "s_nalloc ss = 0"
    "s_pending_no_rfc7540_priorities ss = 255" "st_no_rfc7540_priorities (s_remote_settings ss) \<noteq> 1" "s_root ss = 0" "s_opt_flags ss = 0"
    by (rule ample_server)
  then have new: "new_session ample_memory None ss" by (simp add: new_session_def)
  from open_default_ok [where ss = ss and sid = 1 and s = 1 and ud = 0] new_session_streams [OF new] n
  show ?thesis using that [OF new] by (auto simp: session_no_rfc7540_pri_no_fallback_def)
qed


declare heap_upd [simp del] streams_simps [simp del]

end
