(* ===== verification/Session_Flow.thy ===== *)
theory Session_Flow
  imports Session_Streams
begin

text \<open>
  Flow control in \<open>nghttp2_session.c\<close> and \<open>nghttp2_submit.c\<close>: the accounting of received and consumed
  bytes for the connection and for each stream, the WINDOW_UPDATE frames it queues, the requests of
  the application to move a window, and the limits on what may be sent.
\<close>

subsection \<open>Received and consumed bytes\<close>

text \<open>The casts from \<open>size_t\<close> to \<open>int32_t\<close> keep the low 32 bits.\<close>

definition to_i32 :: "nat \<Rightarrow> int" where
  "to_i32 n = sint (word_of_nat n :: u32)"

definition adjust_recv_window_size :: "int \<Rightarrow> nat \<Rightarrow> int \<Rightarrow> (int \<times> int) option" where
  "adjust_recv_window_size recv d loc = do {
     lim \<leftarrow> i32 (loc - to_i32 d);
     if recv > lim then Some (-1, recv)
     else do {
       lim \<leftarrow> i32 (NGHTTP2_MAX_WINDOW_SIZE - to_i32 d);
       if recv > lim then Some (-1, recv)
       else do {
         r \<leftarrow> i32 (recv + to_i32 d);
         Some (0, r)
       }
     }
   }"

abbreviation auto_window_update :: "nghttp2_session \<Rightarrow> bool" where
  "auto_window_update ss \<equiv> s_opt_flags ss AND NGHTTP2_OPTMASK_NO_AUTO_WINDOW_UPDATE = 0"

definition nghttp2_session_update_recv_stream_window_size ::
  "nghttp2_session \<Rightarrow> nat \<Rightarrow> nat \<Rightarrow> bool \<Rightarrow> (rc \<times> nghttp2_session) option" where
  "nghttp2_session_update_recv_stream_window_size ss s delta_size send_window_update = do {
     (rv, r) \<leftarrow> adjust_recv_window_size (recv_window_size (s_heap ss s)) delta_size (local_window_size (s_heap ss s));
     if rv \<noteq> 0 then nghttp2_session_add_rst_stream ss (stream_id (s_heap ss s)) NGHTTP2_FLOW_CONTROL_ERROR
     else do {
       let ss = upd_stream ss s (\<lambda>st. st\<lparr>recv_window_size := r\<rparr>);
       if send_window_update \<and> auto_window_update ss \<and> \<not> window_update_queued (s_heap ss s) \<and>
          nghttp2_should_send_window_update (local_window_size (s_heap ss s)) (recv_window_size (s_heap ss s))
       then do {
         (rv, ss) \<leftarrow> nghttp2_session_add_window_update ss NGHTTP2_FLAG_NONE (stream_id (s_heap ss s))
                      (recv_window_size (s_heap ss s));
         if rv \<noteq> 0 then Some (rv, ss) else Some (0, upd_stream ss s (\<lambda>st. st\<lparr>recv_window_size := 0\<rparr>))
       }
       else Some (0, ss)
     }
   }"

definition nghttp2_session_update_recv_connection_window_size ::
  "nghttp2_session \<Rightarrow> nat \<Rightarrow> (rc \<times> nghttp2_session) option" where
  "nghttp2_session_update_recv_connection_window_size ss delta_size = do {
     (rv, r) \<leftarrow> adjust_recv_window_size (s_recv_window_size ss) delta_size (s_local_window_size ss);
     if rv \<noteq> 0 then nghttp2_session_terminate_session ss NGHTTP2_FLOW_CONTROL_ERROR
     else do {
       let ss = ss\<lparr>s_recv_window_size := r\<rparr>;
       if auto_window_update ss \<and> \<not> s_window_update_queued ss \<and>
          nghttp2_should_send_window_update (s_local_window_size ss) (s_recv_window_size ss)
       then do {
         (rv, ss) \<leftarrow> nghttp2_session_add_window_update ss NGHTTP2_FLAG_NONE 0 (s_recv_window_size ss);
         if rv \<noteq> 0 then Some (rv, ss) else Some (0, ss\<lparr>s_recv_window_size := 0\<rparr>)
       }
       else Some (0, ss)
     }
   }"

text \<open>
  \<open>session_update_consumed_size\<close> works through pointers to the two counters; here they are arguments,
  and their new values are part of the result for the caller to store.
\<close>

definition session_update_consumed_size ::
  "nghttp2_session \<Rightarrow> int \<Rightarrow> int \<Rightarrow> bool \<Rightarrow> int \<Rightarrow> nat \<Rightarrow> int \<Rightarrow> (rc \<times> int \<times> int \<times> nghttp2_session) option" where
  "session_update_consumed_size ss consumed recv wu_queued sid delta_size loc =
     (if (word_of_int consumed :: u64) > word_of_int NGHTTP2_MAX_WINDOW_SIZE - word_of_nat delta_size then do {
        (rv, ss) \<leftarrow> nghttp2_session_terminate_session ss NGHTTP2_FLOW_CONTROL_ERROR;
        Some (rv, consumed, recv, ss)
      }
      else do {
        consumed \<leftarrow> i32 (consumed + to_i32 delta_size);
        if wu_queued then Some (0, consumed, recv, ss)
        else do {
          let recv_size = min consumed recv;
          if nghttp2_should_send_window_update loc recv_size then do {
            (rv, ss) \<leftarrow> nghttp2_session_add_window_update ss NGHTTP2_FLAG_NONE sid recv_size;
            if rv \<noteq> 0 then Some (rv, consumed, recv, ss)
            else do {
              recv \<leftarrow> i32 (recv - recv_size);
              consumed \<leftarrow> i32 (consumed - recv_size);
              Some (0, consumed, recv, ss)
            }
          }
          else Some (0, consumed, recv, ss)
        }
      })"

definition session_update_stream_consumed_size ::
  "nghttp2_session \<Rightarrow> nat \<Rightarrow> nat \<Rightarrow> (rc \<times> nghttp2_session) option" where
  "session_update_stream_consumed_size ss s delta_size = do {
     let st = s_heap ss s;
     (rv, c, r, ss) \<leftarrow> session_update_consumed_size ss (consumed_size st) (recv_window_size st) (window_update_queued st)
                        (stream_id st) delta_size (local_window_size st);
     Some (rv, upd_stream ss s (\<lambda>st. st\<lparr>recv_window_size := r, consumed_size := c\<rparr>))
   }"

definition session_update_connection_consumed_size :: "nghttp2_session \<Rightarrow> nat \<Rightarrow> (rc \<times> nghttp2_session) option" where
  "session_update_connection_consumed_size ss delta_size = do {
     (rv, c, r, ss) \<leftarrow> session_update_consumed_size ss (s_consumed_size ss) (s_recv_window_size ss) (s_window_update_queued ss)
                        0 delta_size (s_local_window_size ss);
     Some (rv, ss\<lparr>s_consumed_size := c, s_recv_window_size := r\<rparr>)
   }"

definition nghttp2_session_consume :: "nghttp2_session \<Rightarrow> int \<Rightarrow> nat \<Rightarrow> (rc \<times> nghttp2_session) option" where
  "nghttp2_session_consume ss sid sz =
     (if sid = 0 then Some (NGHTTP2_ERR_INVALID_ARGUMENT, ss)
      else if auto_window_update ss then Some (NGHTTP2_ERR_INVALID_STATE, ss)
      else do {
        (rv, ss) \<leftarrow> session_update_connection_consumed_size ss sz;
        if nghttp2_is_fatal rv then Some (rv, ss)
        else do {
          stream \<leftarrow> nghttp2_session_get_stream ss sid;
          case stream of
            None \<Rightarrow> Some (0, ss)
          | Some s \<Rightarrow> do {
              (rv, ss) \<leftarrow> session_update_stream_consumed_size ss s sz;
              if nghttp2_is_fatal rv then Some (rv, ss) else Some (0, ss)
            }
        }
      })"

definition nghttp2_session_consume_connection :: "nghttp2_session \<Rightarrow> nat \<Rightarrow> (rc \<times> nghttp2_session) option" where
  "nghttp2_session_consume_connection ss sz =
     (if auto_window_update ss then Some (NGHTTP2_ERR_INVALID_STATE, ss)
      else do {
        (rv, ss) \<leftarrow> session_update_connection_consumed_size ss sz;
        if nghttp2_is_fatal rv then Some (rv, ss) else Some (0, ss)
      })"

definition nghttp2_session_consume_stream :: "nghttp2_session \<Rightarrow> int \<Rightarrow> nat \<Rightarrow> (rc \<times> nghttp2_session) option" where
  "nghttp2_session_consume_stream ss sid sz =
     (if sid = 0 then Some (NGHTTP2_ERR_INVALID_ARGUMENT, ss)
      else if auto_window_update ss then Some (NGHTTP2_ERR_INVALID_STATE, ss)
      else do {
        stream \<leftarrow> nghttp2_session_get_stream ss sid;
        case stream of
          None \<Rightarrow> Some (0, ss)
        | Some s \<Rightarrow> do {
            (rv, ss) \<leftarrow> session_update_stream_consumed_size ss s sz;
            if nghttp2_is_fatal rv then Some (rv, ss) else Some (0, ss)
          }
      })"

text \<open>
  What \<open>nghttp2_session_mem_recv2\<close> does to the windows for \<open>readlen\<close> bytes of a DATA frame in the
  state IB_READ_DATA, of which the last \<open>padlen\<close> are padding, up to the check of the content length;
  \<open>last_chunk\<close> says that the frame ends here and ends the stream.  The result is \<open>Inl\<close> when the
  function returns there, with the value it returns or with \<open>None\<close> for \<open>inlen\<close>.
\<close>

definition read_data_flow ::
  "nghttp2_session \<Rightarrow> int \<Rightarrow> nat \<Rightarrow> nat \<Rightarrow> nat \<Rightarrow> bool \<Rightarrow> ((rc option, unit) sum \<times> nghttp2_session) option" where
  "read_data_flow ss sid s readlen padlen last_chunk =
     (if readlen = 0 then Some (Inr (), ss)
      else do {
     (rv, ss) \<leftarrow> nghttp2_session_update_recv_connection_window_size ss readlen;
     if nghttp2_is_fatal rv then Some (Inl (Some rv), ss)
     else if s_iframe_state ss = NGHTTP2_IB_IGN_ALL then Some (Inl None, ss)
     else do {
       (rv, ss) \<leftarrow> nghttp2_session_update_recv_stream_window_size ss s readlen (\<not> last_chunk);
       if nghttp2_is_fatal rv then Some (Inl (Some rv), ss)
       else if padlen > 0 then do {
         (rv, ss) \<leftarrow> nghttp2_session_consume ss sid padlen;
         if nghttp2_is_fatal rv then Some (Inl (Some rv), ss)
         else if s_iframe_state ss = NGHTTP2_IB_IGN_ALL then Some (Inl None, ss)
         else Some (Inr (), ss)
       }
       else Some (Inr (), ss)
     }
   })"

text \<open>The same for a DATA frame that is ignored, in the state IB_IGN_DATA.\<close>

definition ignore_data_flow :: "nghttp2_session \<Rightarrow> nat \<Rightarrow> ((rc option, unit) sum \<times> nghttp2_session) option" where
  "ignore_data_flow ss readlen =
     (if readlen = 0 then Some (Inr (), ss)
      else do {
     (rv, ss) \<leftarrow> nghttp2_session_update_recv_connection_window_size ss readlen;
     if nghttp2_is_fatal rv then Some (Inl (Some rv), ss)
     else if s_iframe_state ss = NGHTTP2_IB_IGN_ALL then Some (Inl None, ss)
     else if \<not> auto_window_update ss then do {
       (rv, ss) \<leftarrow> session_update_connection_consumed_size ss readlen;
       if nghttp2_is_fatal rv then Some (Inl (Some rv), ss)
       else if s_iframe_state ss = NGHTTP2_IB_IGN_ALL then Some (Inl None, ss)
       else Some (Inr (), ss)
     }
     else Some (Inr (), ss)
   })"

subsection \<open>After a WINDOW_UPDATE was sent\<close>

text \<open>The case \<open>NGHTTP2_WINDOW_UPDATE\<close> of \<open>session_after_frame_sent1\<close>.\<close>

definition window_update_sent :: "nghttp2_session \<Rightarrow> int \<Rightarrow> (rc \<times> nghttp2_session) option" where
  "window_update_sent ss sid =
     (if sid = 0 then do {
        let ss = ss\<lparr>s_window_update_queued := False\<rparr>;
        (rv, ss) \<leftarrow> (if \<not> auto_window_update ss then session_update_connection_consumed_size ss 0
                     else nghttp2_session_update_recv_connection_window_size ss 0);
        if nghttp2_is_fatal rv then Some (rv, ss) else Some (0, ss)
      }
      else do {
        stream \<leftarrow> nghttp2_session_get_stream ss sid;
        case stream of
          None \<Rightarrow> Some (0, ss)
        | Some s \<Rightarrow> do {
            let ss = upd_stream ss s (\<lambda>st. st\<lparr>window_update_queued := False\<rparr>);
            if shut_flags (s_heap ss s) AND NGHTTP2_SHUT_RD \<noteq> 0 then Some (0, ss)
            else do {
              (rv, ss) \<leftarrow> (if \<not> auto_window_update ss then session_update_stream_consumed_size ss s 0
                           else nghttp2_session_update_recv_stream_window_size ss s 0 True);
              if nghttp2_is_fatal rv then Some (rv, ss) else Some (0, ss)
            }
          }
      })"

subsection \<open>Requests of the application\<close>

definition session_window :: "nghttp2_session \<Rightarrow> int \<Rightarrow> window" where
  "session_window ss d = \<lparr>window.local_window_size = s_local_window_size ss, recv_window_size = s_recv_window_size ss,
                          recv_reduction = s_recv_reduction ss, delta = d\<rparr>"

definition store_session_window :: "nghttp2_session \<Rightarrow> window \<Rightarrow> nghttp2_session" where
  "store_session_window ss w =
     ss\<lparr>s_local_window_size := window.local_window_size w, s_recv_window_size := window.recv_window_size w,
        s_recv_reduction := window.recv_reduction w\<rparr>"

definition stream_window :: "nghttp2_session \<Rightarrow> nat \<Rightarrow> int \<Rightarrow> window" where
  "stream_window ss s d = \<lparr>window.local_window_size = local_window_size (s_heap ss s),
                           recv_window_size = recv_window_size (s_heap ss s), recv_reduction = recv_reduction (s_heap ss s), delta = d\<rparr>"

definition store_stream_window :: "nghttp2_session \<Rightarrow> nat \<Rightarrow> window \<Rightarrow> nghttp2_session" where
  "store_stream_window ss s w =
     upd_stream ss s (\<lambda>st. st\<lparr>local_window_size := window.local_window_size w, recv_window_size := window.recv_window_size w,
                              recv_reduction := window.recv_reduction w\<rparr>)"

definition nghttp2_submit_window_update :: "nghttp2_session \<Rightarrow> int \<Rightarrow> int \<Rightarrow> (rc \<times> nghttp2_session) option" where
  "nghttp2_submit_window_update ss sid incr =
     (if incr = 0 then Some (0, ss)
      else if sid = 0 then do {
        (rv, w) \<leftarrow> nghttp2_adjust_local_window_size (session_window ss incr);
        let ss = store_session_window ss w;
        if rv \<noteq> 0 then Some (rv, ss)
        else if delta w > 0 then do {
          c \<leftarrow> i32 (s_consumed_size ss - delta w);
          nghttp2_session_add_window_update (ss\<lparr>s_consumed_size := max 0 c\<rparr>) 0 sid (delta w)
        }
        else Some (0, ss)
      }
      else do {
        stream \<leftarrow> nghttp2_session_get_stream ss sid;
        case stream of
          None \<Rightarrow> Some (0, ss)
        | Some s \<Rightarrow> do {
            (rv, w) \<leftarrow> nghttp2_adjust_local_window_size (stream_window ss s incr);
            let ss = store_stream_window ss s w;
            if rv \<noteq> 0 then Some (rv, ss)
            else if delta w > 0 then do {
              c \<leftarrow> i32 (consumed_size (s_heap ss s) - delta w);
              nghttp2_session_add_window_update (upd_stream ss s (\<lambda>st. st\<lparr>consumed_size := max 0 c\<rparr>)) 0 sid (delta w)
            }
            else Some (0, ss)
          }
      })"

definition nghttp2_session_set_local_window_size :: "nghttp2_session \<Rightarrow> int \<Rightarrow> int \<Rightarrow> (rc \<times> nghttp2_session) option" where
  "nghttp2_session_set_local_window_size ss sid window_size =
     (if window_size < 0 then Some (NGHTTP2_ERR_INVALID_ARGUMENT, ss)
      else if sid = 0 then do {
        incr \<leftarrow> i32 (window_size - s_local_window_size ss);
        if incr = 0 then Some (0, ss)
        else if incr < 0 then do {
          (rv, w) \<leftarrow> nghttp2_adjust_local_window_size (session_window ss incr);
          Some (rv, store_session_window ss w)
        }
        else do {
          (rv, w) \<leftarrow> nghttp2_increase_local_window_size (session_window ss incr);
          let ss = store_session_window ss w;
          if rv \<noteq> 0 then Some (rv, ss)
          else if delta w > 0 then nghttp2_session_add_window_update ss 0 sid (delta w)
          else nghttp2_session_update_recv_connection_window_size ss 0
        }
      }
      else do {
        stream \<leftarrow> nghttp2_session_get_stream ss sid;
        case stream of
          None \<Rightarrow> Some (0, ss)
        | Some s \<Rightarrow> do {
            incr \<leftarrow> i32 (window_size - local_window_size (s_heap ss s));
            if incr = 0 then Some (0, ss)
            else if incr < 0 then do {
              (rv, w) \<leftarrow> nghttp2_adjust_local_window_size (stream_window ss s incr);
              Some (rv, store_stream_window ss s w)
            }
            else do {
              (rv, w) \<leftarrow> nghttp2_increase_local_window_size (stream_window ss s incr);
              let ss = store_stream_window ss s w;
              if rv \<noteq> 0 then Some (rv, ss)
              else if delta w > 0 then nghttp2_session_add_window_update ss 0 sid (delta w)
              else nghttp2_session_update_recv_stream_window_size ss s 0 True
            }
          }
      })"

subsection \<open>Sizes reported to the application\<close>

definition nghttp2_session_get_stream_effective_recv_data_length :: "nghttp2_session \<Rightarrow> int \<Rightarrow> int option" where
  "nghttp2_session_get_stream_effective_recv_data_length ss sid = do {
     stream \<leftarrow> nghttp2_session_get_stream ss sid;
     case stream of
       None \<Rightarrow> Some (-1)
     | Some s \<Rightarrow> Some (if recv_window_size (s_heap ss s) < 0 then 0 else recv_window_size (s_heap ss s))
   }"

definition nghttp2_session_get_stream_effective_local_window_size :: "nghttp2_session \<Rightarrow> int \<Rightarrow> int option" where
  "nghttp2_session_get_stream_effective_local_window_size ss sid = do {
     stream \<leftarrow> nghttp2_session_get_stream ss sid;
     case stream of None \<Rightarrow> Some (-1) | Some s \<Rightarrow> Some (local_window_size (s_heap ss s))
   }"

definition nghttp2_session_get_stream_local_window_size :: "nghttp2_session \<Rightarrow> int \<Rightarrow> int option" where
  "nghttp2_session_get_stream_local_window_size ss sid = do {
     stream \<leftarrow> nghttp2_session_get_stream ss sid;
     case stream of
       None \<Rightarrow> Some (-1)
     | Some s \<Rightarrow> do {
         sz \<leftarrow> i32 (local_window_size (s_heap ss s) - recv_window_size (s_heap ss s));
         Some (if sz < 0 then 0 else sz)
       }
   }"

definition nghttp2_session_get_effective_recv_data_length :: "nghttp2_session \<Rightarrow> int" where
  "nghttp2_session_get_effective_recv_data_length ss = (if s_recv_window_size ss < 0 then 0 else s_recv_window_size ss)"

definition nghttp2_session_get_effective_local_window_size :: "nghttp2_session \<Rightarrow> int" where
  "nghttp2_session_get_effective_local_window_size ss = s_local_window_size ss"

definition nghttp2_session_get_local_window_size :: "nghttp2_session \<Rightarrow> int option" where
  "nghttp2_session_get_local_window_size ss = i32 (s_local_window_size ss - s_recv_window_size ss)"

definition nghttp2_session_get_stream_remote_window_size :: "nghttp2_session \<Rightarrow> int \<Rightarrow> int option" where
  "nghttp2_session_get_stream_remote_window_size ss sid = do {
     stream \<leftarrow> nghttp2_session_get_stream ss sid;
     case stream of None \<Rightarrow> Some (-1) | Some s \<Rightarrow> Some (max 0 (remote_window_size (s_heap ss s)))
   }"

definition nghttp2_session_get_remote_window_size :: "nghttp2_session \<Rightarrow> int" where
  "nghttp2_session_get_remote_window_size ss = s_remote_window_size ss"

subsection \<open>Sending within the windows of the peer\<close>

definition nghttp2_session_enforce_flow_control_limits :: "nghttp2_session \<Rightarrow> nat \<Rightarrow> int \<Rightarrow> int" where
  "nghttp2_session_enforce_flow_control_limits ss s requested_window_size =
     min (min (min requested_window_size (remote_window_size (s_heap ss s))) (s_remote_window_size ss))
       (sint (st_max_frame_size (s_remote_settings ss)))"

definition nghttp2_session_next_data_read :: "nghttp2_session \<Rightarrow> nat \<Rightarrow> nat" where
  "nghttp2_session_next_data_read ss s =
     (let window_size = nghttp2_session_enforce_flow_control_limits ss s NGHTTP2_DATA_PAYLOADLEN
      in if window_size > 0 then nat window_size else 0)"

text \<open>The update of the two windows when a DATA frame was sent, in \<open>session_after_frame_sent1\<close>.\<close>

definition data_frame_sent :: "nghttp2_session \<Rightarrow> nghttp2_frame_hd \<Rightarrow> nghttp2_session option" where
  "data_frame_sent ss fh = do {
     stream \<leftarrow> nghttp2_session_get_stream ss (fh_stream_id fh);
     w \<leftarrow> i32 (s_remote_window_size ss - to_i32 (fh_length fh));
     let ss = ss\<lparr>s_remote_window_size := w\<rparr>;
     case stream of
       None \<Rightarrow> Some ss
     | Some s \<Rightarrow> do {
         w \<leftarrow> i32 (remote_window_size (s_heap ss s) - to_i32 (fh_length fh));
         Some (upd_stream ss s (\<lambda>st. st\<lparr>remote_window_size := w\<rparr>))
       }
   }"

subsection \<open>Frames of the peer\<close>

text \<open>
  The callbacks of the application are parameters, \<open>None\<close> when not set; they may call back into the
  session, so they return it.
\<close>

type_synonym frame_recv_callback = "(nghttp2_session \<Rightarrow> nghttp2_frame \<Rightarrow> int \<times> nghttp2_session) option"
type_synonym invalid_frame_callback = "(nghttp2_session \<Rightarrow> nghttp2_frame \<Rightarrow> rc \<Rightarrow> int \<times> nghttp2_session) option"

definition session_call_on_frame_received ::
  "frame_recv_callback \<Rightarrow> nghttp2_session \<Rightarrow> nghttp2_frame \<Rightarrow> rc \<times> nghttp2_session" where
  "session_call_on_frame_received cb ss frame =
     (case cb of
        None \<Rightarrow> (0, ss)
      | Some f \<Rightarrow> (case f ss frame of (rv, ss) \<Rightarrow> (if rv \<noteq> 0 then NGHTTP2_ERR_CALLBACK_FAILURE else 0, ss)))"

definition get_error_code_from_lib_error_code :: "rc \<Rightarrow> u32" where
  "get_error_code_from_lib_error_code e =
     (if e = NGHTTP2_ERR_STREAM_CLOSED then NGHTTP2_STREAM_CLOSED
      else if e = NGHTTP2_ERR_HEADER_COMP then NGHTTP2_COMPRESSION_ERROR
      else if e = NGHTTP2_ERR_FRAME_SIZE_ERROR then word_of_int NGHTTP2_FRAME_SIZE_ERROR
      else if e = NGHTTP2_ERR_FLOW_CONTROL then NGHTTP2_FLOW_CONTROL_ERROR
      else if e = NGHTTP2_ERR_REFUSED_STREAM then NGHTTP2_REFUSED_STREAM
      else if e = NGHTTP2_ERR_PROTO \<or> e = NGHTTP2_ERR_HTTP_HEADER \<or> e = NGHTTP2_ERR_HTTP_MESSAGING
      then NGHTTP2_PROTOCOL_ERROR
      else NGHTTP2_INTERNAL_ERROR)"

definition call_invalid_frame ::
  "invalid_frame_callback \<Rightarrow> nghttp2_session \<Rightarrow> nghttp2_frame \<Rightarrow> rc \<Rightarrow> rc \<times> nghttp2_session" where
  "call_invalid_frame cb ss frame lib_error_code =
     (case cb of
        None \<Rightarrow> (0, ss)
      | Some f \<Rightarrow> (case f ss frame lib_error_code of (rv, ss) \<Rightarrow> (if rv \<noteq> 0 then NGHTTP2_ERR_CALLBACK_FAILURE else 0, ss)))"

definition session_handle_invalid_stream2 ::
  "invalid_frame_callback \<Rightarrow> nghttp2_session \<Rightarrow> int \<Rightarrow> nghttp2_frame \<Rightarrow> rc \<Rightarrow> (rc \<times> nghttp2_session) option" where
  "session_handle_invalid_stream2 cb ss sid frame lib_error_code = do {
     (rv, ss) \<leftarrow> nghttp2_session_add_rst_stream ss sid (get_error_code_from_lib_error_code lib_error_code);
     if rv \<noteq> 0 then Some (rv, ss) else Some (call_invalid_frame cb ss frame lib_error_code)
   }"

definition session_handle_invalid_stream ::
  "invalid_frame_callback \<Rightarrow> nghttp2_session \<Rightarrow> nghttp2_frame \<Rightarrow> rc \<Rightarrow> (rc \<times> nghttp2_session) option" where
  "session_handle_invalid_stream cb ss frame lib_error_code =
     session_handle_invalid_stream2 cb ss (frame_sid frame) frame lib_error_code"

definition session_handle_invalid_connection ::
  "invalid_frame_callback \<Rightarrow> nghttp2_session \<Rightarrow> nghttp2_frame \<Rightarrow> rc \<Rightarrow> bytes option \<Rightarrow> (rc \<times> nghttp2_session) option" where
  "session_handle_invalid_connection cb ss frame lib_error_code reason =
     (case call_invalid_frame cb ss frame lib_error_code of
        (rv, ss) \<Rightarrow>
          if rv \<noteq> 0 then Some (rv, ss)
          else nghttp2_session_terminate_session_with_reason ss (get_error_code_from_lib_error_code lib_error_code) reason)"

definition session_handle_frame_size_error :: "nghttp2_session \<Rightarrow> (rc \<times> nghttp2_session) option" where
  "session_handle_frame_size_error ss = nghttp2_session_terminate_session ss (word_of_int NGHTTP2_FRAME_SIZE_ERROR)"

definition session_on_connection_window_update_received ::
  "frame_recv_callback \<Rightarrow> invalid_frame_callback \<Rightarrow> nghttp2_session \<Rightarrow> nghttp2_window_update \<Rightarrow> (rc \<times> nghttp2_session) option" where
  "session_on_connection_window_update_received cb icb ss f =
     (if window_size_increment f = 0
      then session_handle_invalid_connection icb ss (Window_update_frame f) NGHTTP2_ERR_PROTO
             (Some (ascii ''WINDOW_UPDATE: window_size_increment == 0''))
      else do {
        lim \<leftarrow> i32 (NGHTTP2_MAX_WINDOW_SIZE - window_size_increment f);
        if lim < s_remote_window_size ss
        then session_handle_invalid_connection icb ss (Window_update_frame f) NGHTTP2_ERR_FLOW_CONTROL None
        else do {
          w \<leftarrow> i32 (s_remote_window_size ss + window_size_increment f);
          Some (session_call_on_frame_received cb (ss\<lparr>s_remote_window_size := w\<rparr>) (Window_update_frame f))
        }
      })"

definition session_on_stream_window_update_received ::
  "frame_recv_callback \<Rightarrow> invalid_frame_callback \<Rightarrow> nghttp2_session \<Rightarrow> nghttp2_window_update \<Rightarrow> (rc \<times> nghttp2_session) option" where
  "session_on_stream_window_update_received cb icb ss f =
     (if session_detect_idle_stream ss (fh_stream_id (wu_hd f))
      then session_handle_invalid_connection icb ss (Window_update_frame f) NGHTTP2_ERR_PROTO
             (Some (ascii ''WINDOW_UPDATE to idle stream''))
      else do {
        stream \<leftarrow> nghttp2_session_get_stream ss (fh_stream_id (wu_hd f));
        case stream of
          None \<Rightarrow> Some (0, ss)
        | Some s \<Rightarrow>
            if state_reserved_remote ss s
            then session_handle_invalid_connection icb ss (Window_update_frame f) NGHTTP2_ERR_PROTO
                   (Some (ascii ''WINDOW_UPADATE to reserved stream''))
            else if window_size_increment f = 0
            then session_handle_invalid_connection icb ss (Window_update_frame f) NGHTTP2_ERR_PROTO
                   (Some (ascii ''WINDOW_UPDATE: window_size_increment == 0''))
            else do {
              lim \<leftarrow> i32 (NGHTTP2_MAX_WINDOW_SIZE - window_size_increment f);
              if lim < remote_window_size (s_heap ss s)
              then session_handle_invalid_stream icb ss (Window_update_frame f) NGHTTP2_ERR_FLOW_CONTROL
              else do {
                w \<leftarrow> i32 (remote_window_size (s_heap ss s) + window_size_increment f);
                let ss = upd_stream ss s (\<lambda>st. st\<lparr>remote_window_size := w\<rparr>);
                if remote_window_size (s_heap ss s) > 0 \<and> nghttp2_stream_check_deferred_by_flow_control (s_heap ss s)
                then do {
                  (rv, core) \<leftarrow> session_resume_deferred_stream_item (session_mem ss) (s_core ss) s
                                 NGHTTP2_STREAM_FLAG_DEFERRED_FLOW_CONTROL;
                  let ss = mem_used (ss\<lparr>s_core := core\<rparr>);
                  if nghttp2_is_fatal rv then Some (rv, ss)
                  else Some (session_call_on_frame_received cb ss (Window_update_frame f))
                }
                else Some (session_call_on_frame_received cb ss (Window_update_frame f))
              }
            }
      })"

definition nghttp2_session_on_window_update_received ::
  "frame_recv_callback \<Rightarrow> invalid_frame_callback \<Rightarrow> nghttp2_session \<Rightarrow> nghttp2_window_update \<Rightarrow> (rc \<times> nghttp2_session) option" where
  "nghttp2_session_on_window_update_received cb icb ss f =
     (if fh_stream_id (wu_hd f) = 0 then session_on_connection_window_update_received cb icb ss f
      else session_on_stream_window_update_received cb icb ss f)"

definition nghttp2_session_on_ping_received ::
  "frame_recv_callback \<Rightarrow> invalid_frame_callback \<Rightarrow> nghttp2_session \<Rightarrow> nghttp2_ping \<Rightarrow> (rc \<times> nghttp2_session) option" where
  "nghttp2_session_on_ping_received cb icb ss f =
     (if fh_stream_id (ping_hd f) \<noteq> 0
      then session_handle_invalid_connection icb ss (Ping_frame f) NGHTTP2_ERR_PROTO (Some (ascii ''PING: stream_id != 0''))
      else if s_opt_flags ss AND NGHTTP2_OPTMASK_NO_AUTO_PING_ACK = 0 \<and> fh_flags (ping_hd f) AND NGHTTP2_FLAG_ACK = 0 \<and>
              \<not> session_is_closing ss
      then do {
        (rv, ss) \<leftarrow> nghttp2_session_add_ping ss NGHTTP2_FLAG_ACK (Some (ping_opaque_data f));
        if rv \<noteq> 0 then Some (rv, ss) else Some (session_call_on_frame_received cb ss (Ping_frame f))
      }
      else Some (session_call_on_frame_received cb ss (Ping_frame f)))"

text \<open>
  \<open>session_on_data_received_fail_fast\<close> for a DATA frame on \<open>sid\<close>; the result is the code, 0 when the
  frame is allowed.
\<close>

definition data_fail :: "nghttp2_session \<Rightarrow> u32 \<Rightarrow> string \<Rightarrow> (rc \<times> nghttp2_session) option" where
  "data_fail ss error_code reason = do {
     (rv, ss) \<leftarrow> nghttp2_session_terminate_session_with_reason ss error_code (Some (ascii reason));
     if nghttp2_is_fatal rv then Some (rv, ss) else Some (NGHTTP2_ERR_IGN_PAYLOAD, ss)
   }"

definition session_on_data_received_fail_fast :: "nghttp2_session \<Rightarrow> int \<Rightarrow> (rc \<times> nghttp2_session) option" where
  "session_on_data_received_fail_fast ss sid =
     (if sid = 0 then data_fail ss NGHTTP2_PROTOCOL_ERROR ''DATA: stream_id == 0''
      else if session_detect_idle_stream ss sid then data_fail ss NGHTTP2_PROTOCOL_ERROR ''DATA: stream in idle''
      else do {
        stream \<leftarrow> nghttp2_session_get_stream ss sid;
        case stream of
          None \<Rightarrow> do {
            raw \<leftarrow> nghttp2_session_get_stream_raw ss sid;
            case raw of
              Some s \<Rightarrow>
                if shut_flags (s_heap ss s) AND NGHTTP2_SHUT_RD \<noteq> 0
                then data_fail ss NGHTTP2_STREAM_CLOSED ''DATA: stream closed''
                else Some (NGHTTP2_ERR_IGN_PAYLOAD, ss)
            | None \<Rightarrow> Some (NGHTTP2_ERR_IGN_PAYLOAD, ss)
          }
        | Some s \<Rightarrow>
            if shut_flags (s_heap ss s) AND NGHTTP2_SHUT_RD \<noteq> 0
            then data_fail ss NGHTTP2_STREAM_CLOSED ''DATA: stream in half-closed(remote)''
            else if nghttp2_session_is_my_stream_id ss sid then
              if state (s_heap ss s) = NGHTTP2_STREAM_CLOSING then Some (NGHTTP2_ERR_IGN_PAYLOAD, ss)
              else if state (s_heap ss s) \<noteq> NGHTTP2_STREAM_OPENED
              then data_fail ss NGHTTP2_PROTOCOL_ERROR ''DATA: stream not opened''
              else Some (0, ss)
            else if state (s_heap ss s) = NGHTTP2_STREAM_RESERVED
            then data_fail ss NGHTTP2_PROTOCOL_ERROR ''DATA: stream in reserved''
            else if state (s_heap ss s) = NGHTTP2_STREAM_CLOSING then Some (NGHTTP2_ERR_IGN_PAYLOAD, ss)
            else Some (0, ss)
      })"

subsection \<open>Windows\<close>

text \<open>
  The connection and the streams keep the same five fields for the data they receive, and the code
  has each operation on them twice.  The operations are stated once here over a way to read and
  write these fields, and the two versions of the source are instances.
\<close>

record wnd =
  w_local :: int
  w_recv :: int
  w_red :: int
  w_cons :: int
  w_queued :: bool

definition conn_get :: "nghttp2_session \<Rightarrow> wnd" where
  "conn_get ss = \<lparr>w_local = s_local_window_size ss, w_recv = s_recv_window_size ss, w_red = s_recv_reduction ss,
                  w_cons = s_consumed_size ss, w_queued = s_window_update_queued ss\<rparr>"

definition conn_put :: "wnd \<Rightarrow> nghttp2_session \<Rightarrow> nghttp2_session" where
  "conn_put w ss = ss\<lparr>s_local_window_size := w_local w, s_recv_window_size := w_recv w, s_recv_reduction := w_red w,
                      s_consumed_size := w_cons w, s_window_update_queued := w_queued w\<rparr>"

definition strm_get :: "nat \<Rightarrow> nghttp2_session \<Rightarrow> wnd" where
  "strm_get s ss = \<lparr>w_local = local_window_size (s_heap ss s), w_recv = recv_window_size (s_heap ss s),
                    w_red = recv_reduction (s_heap ss s), w_cons = consumed_size (s_heap ss s),
                    w_queued = window_update_queued (s_heap ss s)\<rparr>"

definition strm_put :: "nat \<Rightarrow> wnd \<Rightarrow> nghttp2_session \<Rightarrow> nghttp2_session" where
  "strm_put s w ss = upd_stream ss s (\<lambda>st. st\<lparr>local_window_size := w_local w, recv_window_size := w_recv w,
                        recv_reduction := w_red w, consumed_size := w_cons w, window_update_queued := w_queued w\<rparr>)"

definition wnd_window :: "wnd \<Rightarrow> int \<Rightarrow> window" where
  "wnd_window w d = \<lparr>window.local_window_size = w_local w, recv_window_size = w_recv w, recv_reduction = w_red w, delta = d\<rparr>"

definition window_wnd :: "wnd \<Rightarrow> window \<Rightarrow> wnd" where
  "window_wnd w v = w\<lparr>w_local := window.local_window_size v, w_recv := window.recv_window_size v, w_red := window.recv_reduction v\<rparr>"

definition recv_op ::
  "(nghttp2_session \<Rightarrow> wnd) \<Rightarrow> (wnd \<Rightarrow> nghttp2_session \<Rightarrow> nghttp2_session) \<Rightarrow>
   (nghttp2_session \<Rightarrow> (rc \<times> nghttp2_session) option) \<Rightarrow> int \<Rightarrow> bool \<Rightarrow> nghttp2_session \<Rightarrow> nat \<Rightarrow> (rc \<times> nghttp2_session) option" where
  "recv_op get put fail sid send ss n = do {
     (rv, r) \<leftarrow> adjust_recv_window_size (w_recv (get ss)) n (w_local (get ss));
     if rv \<noteq> 0 then fail ss
     else do {
       let ss = put ((get ss)\<lparr>w_recv := r\<rparr>) ss;
       if send \<and> auto_window_update ss \<and> \<not> w_queued (get ss) \<and>
          nghttp2_should_send_window_update (w_local (get ss)) (w_recv (get ss))
       then do {
         (rv, ss) \<leftarrow> nghttp2_session_add_window_update ss NGHTTP2_FLAG_NONE sid (w_recv (get ss));
         if rv \<noteq> 0 then Some (rv, ss) else Some (0, put ((get ss)\<lparr>w_recv := 0\<rparr>) ss)
       }
       else Some (0, ss)
     }
   }"

definition consume_op ::
  "(nghttp2_session \<Rightarrow> wnd) \<Rightarrow> (wnd \<Rightarrow> nghttp2_session \<Rightarrow> nghttp2_session) \<Rightarrow> int \<Rightarrow> nghttp2_session \<Rightarrow> nat \<Rightarrow>
   (rc \<times> nghttp2_session) option" where
  "consume_op get put sid ss n = do {
     (rv, c, r, ss) \<leftarrow> session_update_consumed_size ss (w_cons (get ss)) (w_recv (get ss)) (w_queued (get ss)) sid n (w_local (get ss));
     Some (rv, put ((get ss)\<lparr>w_cons := c, w_recv := r\<rparr>) ss)
   }"

definition submit_op ::
  "(nghttp2_session \<Rightarrow> wnd) \<Rightarrow> (wnd \<Rightarrow> nghttp2_session \<Rightarrow> nghttp2_session) \<Rightarrow> int \<Rightarrow> nghttp2_session \<Rightarrow> int \<Rightarrow>
   (rc \<times> nghttp2_session) option" where
  "submit_op get put sid ss incr = do {
     (rv, v) \<leftarrow> nghttp2_adjust_local_window_size (wnd_window (get ss) incr);
     let ss = put (window_wnd (get ss) v) ss;
     if rv \<noteq> 0 then Some (rv, ss)
     else if delta v > 0 then do {
       c \<leftarrow> i32 (w_cons (get ss) - delta v);
       nghttp2_session_add_window_update (put ((get ss)\<lparr>w_cons := max 0 c\<rparr>) ss) 0 sid (delta v)
     }
     else Some (0, ss)
   }"

definition resize_op ::
  "(nghttp2_session \<Rightarrow> wnd) \<Rightarrow> (wnd \<Rightarrow> nghttp2_session \<Rightarrow> nghttp2_session) \<Rightarrow>
   (nghttp2_session \<Rightarrow> (rc \<times> nghttp2_session) option) \<Rightarrow> int \<Rightarrow> nghttp2_session \<Rightarrow> int \<Rightarrow> (rc \<times> nghttp2_session) option" where
  "resize_op get put fail sid ss window_size = do {
     incr \<leftarrow> i32 (window_size - w_local (get ss));
     if incr = 0 then Some (0, ss)
     else if incr < 0 then do {
       (rv, v) \<leftarrow> nghttp2_adjust_local_window_size (wnd_window (get ss) incr);
       Some (rv, put (window_wnd (get ss) v) ss)
     }
     else do {
       (rv, v) \<leftarrow> nghttp2_increase_local_window_size (wnd_window (get ss) incr);
       let ss = put (window_wnd (get ss) v) ss;
       if rv \<noteq> 0 then Some (rv, ss)
       else if delta v > 0 then nghttp2_session_add_window_update ss 0 sid (delta v)
       else recv_op get put fail sid True ss 0
     }
   }"

abbreviation conn_fail :: "nghttp2_session \<Rightarrow> (rc \<times> nghttp2_session) option" where
  "conn_fail ss \<equiv> nghttp2_session_terminate_session ss NGHTTP2_FLOW_CONTROL_ERROR"

abbreviation strm_fail :: "nat \<Rightarrow> nghttp2_session \<Rightarrow> (rc \<times> nghttp2_session) option" where
  "strm_fail s ss \<equiv> nghttp2_session_add_rst_stream ss (stream_id (s_heap ss s)) NGHTTP2_FLOW_CONTROL_ERROR"

lemmas conn_defs = conn_get_def conn_put_def
lemmas strm_defs = strm_get_def strm_put_def upd_stream_def set_heap_def

lemma conn_recv_op:
  "nghttp2_session_update_recv_connection_window_size ss n = recv_op conn_get conn_put conn_fail 0 True ss n"
  by (simp add: nghttp2_session_update_recv_connection_window_size_def recv_op_def conn_defs Let_def cong: if_cong)

lemma conn_consume_op: "session_update_connection_consumed_size ss n = consume_op conn_get conn_put 0 ss n"
  by (auto simp: session_update_connection_consumed_size_def consume_op_def conn_defs intro!: Option.bind_cong)

lemma conn_submit_op:
  "incr \<noteq> 0 \<Longrightarrow> nghttp2_submit_window_update ss 0 incr = submit_op conn_get conn_put 0 ss incr"
  by (simp add: nghttp2_submit_window_update_def submit_op_def conn_defs session_window_def store_session_window_def
      wnd_window_def window_wnd_def Let_def cong: if_cong)

lemma conn_resize_op:
  "0 \<le> window_size \<Longrightarrow> nghttp2_session_set_local_window_size ss 0 window_size = resize_op conn_get conn_put conn_fail 0 ss window_size"
  by (simp add: nghttp2_session_set_local_window_size_def resize_op_def conn_recv_op conn_defs session_window_def
      store_session_window_def wnd_window_def window_wnd_def Let_def cong: if_cong)

lemma strm_recv_op:
  assumes "stream_id (s_heap ss s) = sid"
  shows "nghttp2_session_update_recv_stream_window_size ss s n send = recv_op (strm_get s) (strm_put s) (strm_fail s) sid send ss n"
  using assms
  by (simp add: nghttp2_session_update_recv_stream_window_size_def recv_op_def strm_defs Let_def cong: if_cong)

lemma strm_consume_op:
  "stream_id (s_heap ss s) = sid \<Longrightarrow> session_update_stream_consumed_size ss s n = consume_op (strm_get s) (strm_put s) sid ss n"
  by (auto simp: session_update_stream_consumed_size_def consume_op_def strm_defs Let_def intro!: Option.bind_cong)

lemma strm_submit_op:
  assumes "nghttp2_session_get_stream ss sid = Some (Some s)" "sid \<noteq> 0" "incr \<noteq> 0"
  shows "nghttp2_submit_window_update ss sid incr = submit_op (strm_get s) (strm_put s) sid ss incr"
  using assms
  by (simp add: nghttp2_submit_window_update_def submit_op_def strm_defs stream_window_def store_stream_window_def
      wnd_window_def window_wnd_def Let_def cong: if_cong)

lemma strm_resize_op:
  assumes "nghttp2_session_get_stream ss sid = Some (Some s)" "stream_id (s_heap ss s) = sid" "sid \<noteq> 0" "0 \<le> window_size"
  shows "nghttp2_session_set_local_window_size ss sid window_size = resize_op (strm_get s) (strm_put s) (strm_fail s) sid ss window_size"
  using assms
  by (simp add: nghttp2_session_set_local_window_size_def resize_op_def strm_recv_op strm_defs stream_window_def
      store_stream_window_def wnd_window_def window_wnd_def Let_def cong: if_cong)

subsection \<open>The account of a window\<close>

text \<open>
  The peer may send \<open>credit\<close> bytes: the window granted, less the bytes not given back, less the
  increments that wait in the queue and that the peer does not know of yet.
\<close>

definition wu_inc :: "int \<Rightarrow> nghttp2_outbound_item \<Rightarrow> int" where
  "wu_inc sid it =
     (case oi_frame it of
        Window_update_frame f \<Rightarrow> if fh_stream_id (wu_hd f) = sid then window_size_increment f else 0
      | _ \<Rightarrow> 0)"

definition pending :: "nghttp2_session \<Rightarrow> int \<Rightarrow> int" where
  "pending ss sid = sum_list (map (wu_inc sid) (s_ob_reg ss))"

definition wu_waiting :: "nghttp2_session \<Rightarrow> int \<Rightarrow> bool" where
  "wu_waiting ss sid \<longleftrightarrow> list_ex (\<lambda>it. 0 < wu_inc sid it) (s_ob_reg ss)"

definition wu_item :: "nat \<Rightarrow> u8 \<Rightarrow> int \<Rightarrow> int \<Rightarrow> nghttp2_outbound_item" where
  "wu_item a fl sid k =
     (nghttp2_outbound_item_init a (Window_update_frame (nghttp2_frame_window_update_init fl sid k)))\<lparr>oi_queued := True\<rparr>"

definition enqueue_wu :: "nat \<Rightarrow> u8 \<Rightarrow> int \<Rightarrow> int \<Rightarrow> nghttp2_session \<Rightarrow> nghttp2_session" where
  "enqueue_wu a fl sid k ss = ss\<lparr>s_nalloc := Suc (s_nalloc ss), s_ob_reg := s_ob_reg ss @ [wu_item a fl sid k]\<rparr>"

definition credit :: "wnd \<Rightarrow> int \<Rightarrow> int" where
  "credit w p = w_local w - w_recv w - p"

definition wnd_ok :: "wnd \<Rightarrow> int \<Rightarrow> bool" where
  "wnd_ok w p \<longleftrightarrow> 0 \<le> w_local w \<and> w_local w \<le> NGHTTP2_MAX_WINDOW_SIZE \<and> 0 \<le> w_red w \<and> w_red w \<le> NGHTTP2_MAX_WINDOW_SIZE \<and>
     - w_red w \<le> w_recv w \<and> w_local w - w_recv w \<le> NGHTTP2_MAX_WINDOW_SIZE \<and>
     0 \<le> w_cons w \<and> w_cons w \<le> NGHTTP2_MAX_WINDOW_SIZE \<and> 0 \<le> p \<and> 0 \<le> credit w p"

text \<open>The window needs no WINDOW_UPDATE, or one is on its way.\<close>

definition replenished :: "wnd \<Rightarrow> bool" where
  "replenished w \<longleftrightarrow> w_queued w \<or> \<not> nghttp2_should_send_window_update (w_local w) (w_recv w)"

definition window_inv :: "(nghttp2_session \<Rightarrow> wnd) \<Rightarrow> int \<Rightarrow> nghttp2_session \<Rightarrow> bool" where
  "window_inv get sid ss \<longleftrightarrow> wnd_ok (get ss) (pending ss sid) \<and> list_all (\<lambda>it. 0 \<le> wu_inc sid it) (s_ob_reg ss) \<and>
     (w_queued (get ss) \<longrightarrow> wu_waiting ss sid)"

abbreviation credit_of :: "(nghttp2_session \<Rightarrow> wnd) \<Rightarrow> int \<Rightarrow> nghttp2_session \<Rightarrow> int" where
  "credit_of get sid ss \<equiv> credit (get ss) (pending ss sid)"

lemma wu_inc_item [simp]: "wu_inc t (wu_item a fl sid k) = (if t = sid then k else 0)"
  by (simp add: wu_inc_def wu_item_def nghttp2_outbound_item_init_def nghttp2_frame_window_update_init_def nghttp2_frame_hd_init_def)

lemma pending_enqueue [simp]: "pending (enqueue_wu a fl sid k ss) t = pending ss t + (if t = sid then k else 0)"
  by (simp add: pending_def enqueue_wu_def)

lemma enqueue_simps [simp]:
  "s_ob_reg (enqueue_wu a fl sid k ss) = s_ob_reg ss @ [wu_item a fl sid k]" "s_opt_flags (enqueue_wu a fl sid k ss) = s_opt_flags ss"
  by (simp_all add: enqueue_wu_def)

lemma pending_cong: "s_ob_reg ss' = s_ob_reg ss \<Longrightarrow> pending ss' = pending ss"
  by (simp add: pending_def fun_eq_iff)

lemma waiting_cong: "s_ob_reg ss' = s_ob_reg ss \<Longrightarrow> wu_waiting ss' = wu_waiting ss"
  by (simp add: wu_waiting_def fun_eq_iff)

lemma waiting_enqueue [simp]: "wu_waiting (enqueue_wu a fl sid k ss) t \<longleftrightarrow> wu_waiting ss t \<or> t = sid \<and> 0 < k"
  by (auto simp: wu_waiting_def)

lemma to_i32_small: "int n < 2 ^ 31 \<Longrightarrow> to_i32 n = int n"
  by (simp add: to_i32_def signed_of_nat signed_take_bit_int_eq_self)

text \<open>The increments of one window that are queued; the account depends on the queue through them only.\<close>

definition increments :: "nghttp2_session \<Rightarrow> int \<Rightarrow> int list" where
  "increments ss sid = filter (\<lambda>x. x \<noteq> 0) (map (wu_inc sid) (s_ob_reg ss))"

lemma pending_increments: "pending ss sid = sum_list (increments ss sid)"
proof -
  have "sum_list (filter (\<lambda>x. x \<noteq> 0) xs) = sum_list xs" for xs :: "int list" by (induction xs) auto
  then show ?thesis by (simp add: pending_def increments_def)
qed

lemma waiting_increments: "wu_waiting ss sid \<longleftrightarrow> list_ex (\<lambda>x. 0 < x) (increments ss sid)"
  by (force simp: wu_waiting_def increments_def list_ex_iff)

lemma nonneg_increments: "list_all (\<lambda>it. 0 \<le> wu_inc sid it) (s_ob_reg ss) \<longleftrightarrow> list_all (\<lambda>x. 0 \<le> x) (increments ss sid)"
  by (auto simp: increments_def list_all_iff)

lemma window_inv_cong:
  "get ss' = get ss \<Longrightarrow> increments ss' sid = increments ss sid \<Longrightarrow>
   window_inv get sid ss' = window_inv get sid ss \<and> credit_of get sid ss' = credit_of get sid ss"
  by (simp add: window_inv_def pending_increments waiting_increments nonneg_increments)

locale flow_window =
  fixes ok :: "nghttp2_session \<Rightarrow> bool"
    and get :: "nghttp2_session \<Rightarrow> wnd"
    and put :: "wnd \<Rightarrow> nghttp2_session \<Rightarrow> nghttp2_session"
    and sid :: int
    and frame :: "nghttp2_session \<Rightarrow> nghttp2_session \<Rightarrow> bool"
  assumes get_put: "ok ss \<Longrightarrow> get (put w ss) = w"
    and put_put: "put w (put w' ss) = put w ss"
    and ok_frame: "ok ss \<Longrightarrow> frame ss ss' \<Longrightarrow> ok ss'"
    and frame_refl: "frame ss ss"
    and frame_trans: "frame ss ss' \<Longrightarrow> frame ss' ss'' \<Longrightarrow> frame ss ss''"
    and frame_opt: "frame ss ss' \<Longrightarrow> s_opt_flags ss' = s_opt_flags ss"
    and frame_put: "frame ss (put w ss)"
    and put_queue: "s_ob_reg (put w ss) = s_ob_reg ss"
    and frame_alloc: "frame ss (ss\<lparr>s_nalloc := n\<rparr>)"
    and get_alloc: "get (ss\<lparr>s_nalloc := n\<rparr>) = get ss"
    and frame_enqueue: "frame ss (enqueue_wu a fl sid k ss)"
    and get_enqueue: "get (enqueue_wu a fl sid k ss) = get ss"
    and frame_pop: "s_ob_reg ss = it # q \<Longrightarrow> (\<And>t. t \<noteq> sid \<Longrightarrow> wu_inc t it = 0) \<Longrightarrow> frame ss (ss\<lparr>s_ob_reg := q\<rparr>)"
    and get_pop: "get (ss\<lparr>s_ob_reg := q\<rparr>) = get ss"
    and add_window_update: "ok ss \<Longrightarrow> nghttp2_session_add_window_update ss fl sid k =
      (case s_alloc ss (s_nalloc ss) of
         None \<Rightarrow> Some (NGHTTP2_ERR_NOMEM, ss\<lparr>s_nalloc := Suc (s_nalloc ss)\<rparr>)
       | Some a \<Rightarrow> Some (0, put ((get ss)\<lparr>w_queued := True\<rparr>) (enqueue_wu a fl sid k ss)))"
begin

lemma put_pending [simp]: "pending (put w ss) = pending ss" "wu_waiting (put w ss) = wu_waiting ss"
  by (rule pending_cong, rule put_queue) (rule waiting_cong, rule put_queue)

lemma alloc_pending [simp]: "pending (ss\<lparr>s_nalloc := n\<rparr>) = pending ss" "wu_waiting (ss\<lparr>s_nalloc := n\<rparr>) = wu_waiting ss"
  by (rule pending_cong, simp) (rule waiting_cong, simp)

text \<open>What an operation leaves: the frame, the invariant, and a credit that is \<open>d\<close> less.\<close>

definition post :: "int \<Rightarrow> nghttp2_session \<Rightarrow> nghttp2_session \<Rightarrow> bool" where
  "post d ss ss' \<longleftrightarrow> frame ss ss' \<and> ok ss' \<and> window_inv get sid ss' \<and> credit_of get sid ss' = credit_of get sid ss - d"

text \<open>Queueing an increment \<open>k\<close> and taking it off the bytes not given back.\<close>

lemma grant:
  assumes ok: "ok ss" and inv: "list_all (\<lambda>it. 0 \<le> wu_inc sid it) (s_ob_reg ss)" and k: "0 < k"
    and w: "\<And>w. w_queued w \<Longrightarrow> w_local w = w_local (get ss) \<Longrightarrow> w_red w = w_red (get ss) \<Longrightarrow> w_recv w = w_recv (get ss) \<Longrightarrow>
      w_cons w = w_cons (get ss) \<Longrightarrow> wnd_ok (f w) (pending ss sid + k) \<and> w_queued (f w) = w_queued w"
  shows "case nghttp2_session_add_window_update ss fl sid k of
      Some (rv, ss') \<Rightarrow> rv = NGHTTP2_ERR_NOMEM \<and> ss' = ss\<lparr>s_nalloc := Suc (s_nalloc ss)\<rparr> \<or>
        rv = 0 \<and> ok ss' \<and> frame ss (put (f (get ss')) ss') \<and> window_inv get sid (put (f (get ss')) ss') \<and>
        get ss' = (get ss)\<lparr>w_queued := True\<rparr> \<and> pending ss' sid = pending ss sid + k
    | None \<Rightarrow> False"
proof (cases "s_alloc ss (s_nalloc ss)")
  case None
  then show ?thesis by (simp add: add_window_update [OF ok])
next
  case (Some a)
  let ?e = "enqueue_wu a fl sid k ss" and ?w = "(get ss)\<lparr>w_queued := True\<rparr>"
  let ?s = "put ?w ?e"
  have fe: "frame ss ?e" "ok ?e" using frame_enqueue ok_frame [OF ok] by blast+
  then have fs: "frame ss ?s" "ok ?s" using frame_trans [OF fe(1) frame_put] ok_frame [OF fe(2) frame_put] by blast+
  have g: "get ?s = ?w" "pending ?s sid = pending ss sid + k" using get_put [OF fe(2)] by simp_all
  have "frame ss (put (f ?w) ?s)" by (rule frame_trans [OF fs(1) frame_put])
  moreover have "window_inv get sid (put (f ?w) ?s)"
    using w [of ?w] k inv by (simp add: window_inv_def get_put [OF fs(2)] put_queue)
  ultimately show ?thesis using Some fs g by (simp add: add_window_update [OF ok])
qed

lemma alloc_post: "ok ss \<Longrightarrow> frame s0 ss \<Longrightarrow> window_inv get sid ss \<Longrightarrow> credit_of get sid ss = credit_of get sid s0 - d \<Longrightarrow>
  post d s0 (ss\<lparr>s_nalloc := n\<rparr>)"
  using frame_trans [OF _ frame_alloc] ok_frame [OF _ frame_alloc] by (simp add: post_def window_inv_def get_alloc)

lemma put_post:
  assumes "ok ss" "window_inv get sid ss" "wnd_ok w (pending ss sid)" "w_queued w = w_queued (get ss)"
    "credit w (pending ss sid) = credit_of get sid ss - d"
  shows "post d ss (put w ss)"
  using assms frame_put ok_frame by (simp add: post_def window_inv_def get_put put_queue)

lemma grant_post:
  assumes ok: "ok ss" and s0: "frame s0 ss" and inv: "window_inv get sid ss" and k: "0 < k"
    and w: "\<And>w. w_local w = w_local (get ss) \<Longrightarrow> w_red w = w_red (get ss) \<Longrightarrow> w_recv w = w_recv (get ss) \<Longrightarrow> w_cons w = w_cons (get ss) \<Longrightarrow>
      wnd_ok (f w) (pending ss sid + k) \<and> w_queued (f w) = w_queued w \<and>
      credit (f w) (pending ss sid + k) = credit_of get sid s0 - d"
    and c: "credit_of get sid ss = credit_of get sid s0 - d"
  shows "\<exists>rv ss'. nghttp2_session_add_window_update ss fl sid k = Some (rv, ss') \<and>
    (rv = NGHTTP2_ERR_NOMEM \<and> post d s0 ss' \<and> get ss' = get ss \<or>
     rv = 0 \<and> ok ss' \<and> post d s0 (put (f (get ss')) ss') \<and> get ss' = (get ss)\<lparr>w_queued := True\<rparr>)"
proof -
  have "list_all (\<lambda>it. 0 \<le> wu_inc sid it) (s_ob_reg ss)" using inv by (simp add: window_inv_def)
  from grant [OF ok this k, of f fl] w
  obtain rv ss' where r: "nghttp2_session_add_window_update ss fl sid k = Some (rv, ss')"
    and "rv = NGHTTP2_ERR_NOMEM \<and> ss' = ss\<lparr>s_nalloc := Suc (s_nalloc ss)\<rparr> \<or>
      rv = 0 \<and> ok ss' \<and> frame ss (put (f (get ss')) ss') \<and> window_inv get sid (put (f (get ss')) ss') \<and>
      get ss' = (get ss)\<lparr>w_queued := True\<rparr> \<and> pending ss' sid = pending ss sid + k"
    by (auto split: option.splits)
  then show ?thesis
  proof (elim disjE conjE)
    assume "rv = NGHTTP2_ERR_NOMEM" "ss' = ss\<lparr>s_nalloc := Suc (s_nalloc ss)\<rparr>"
    then show ?thesis using r alloc_post [OF ok s0 inv c] get_alloc by auto
  next
    assume a: "rv = 0" "ok ss'" "frame ss (put (f (get ss')) ss')" "window_inv get sid (put (f (get ss')) ss')"
      "get ss' = (get ss)\<lparr>w_queued := True\<rparr>" "pending ss' sid = pending ss sid + k"
    have "post d s0 (put (f (get ss')) ss')"
      using a w [of "get ss'"] frame_trans [OF s0] ok_frame [OF a(2) frame_put] by (simp add: post_def get_put)
    with a r show ?thesis by auto
  qed
qed

lemma recv_op_post:
  assumes ok: "ok ss" and inv: "window_inv get sid ss" and n: "int n \<le> credit_of get sid ss"
  shows "\<exists>rv ss'. recv_op get put fail sid send ss n = Some (rv, ss') \<and> (rv = 0 \<or> rv = NGHTTP2_ERR_NOMEM) \<and> post (int n) ss ss' \<and>
    (rv = 0 \<longrightarrow> send \<longrightarrow> auto_window_update ss \<longrightarrow> replenished (get ss')) \<and> w_cons (get ss') = w_cons (get ss)"
proof -
  let ?w = "(get ss)\<lparr>w_recv := w_recv (get ss) + int n\<rparr>"
  let ?s = "put ?w ss"
  have b: "wnd_ok (get ss) (pending ss sid)" using inv by (simp add: window_inv_def)
  then have small: "int n < 2 ^ 31" using n by (simp add: wnd_ok_def credit_def NGHTTP2_MAX_WINDOW_SIZE_def)
  have adj: "adjust_recv_window_size (w_recv (get ss)) n (w_local (get ss)) = Some (0, w_recv (get ss) + int n)"
    using b n by (simp add: adjust_recv_window_size_def to_i32_small [OF small] wnd_ok_def credit_def i32_def is_i32_def
        INT32_MIN_def INT32_MAX_def NGHTTP2_MAX_WINDOW_SIZE_def)
  have p: "post (int n) ss ?s"
    using b n by (intro put_post ok inv) (simp_all add: wnd_ok_def credit_def NGHTTP2_MAX_WINDOW_SIZE_def)
  then have s: "ok ?s" "frame ss ?s" "window_inv get sid ?s" "credit_of get sid ?s = credit_of get sid ss - int n"
    by (simp_all add: post_def)
  have g: "get ?s = ?w" by (rule get_put [OF ok])
  have o: "s_opt_flags ?s = s_opt_flags ss" by (rule frame_opt [OF frame_put])
  show ?thesis
  proof (cases "send \<and> auto_window_update ss \<and> \<not> w_queued ?w \<and> nghttp2_should_send_window_update (w_local ?w) (w_recv ?w)")
    case False
    then show ?thesis using adj p g o
      by (intro exI [of _ 0] exI [of _ ?s]) (auto simp: recv_op_def Let_def replenished_def)
  next
    case True
    then have k: "0 < w_recv ?w" by (simp add: nghttp2_should_send_window_update_def)
    obtain rv ss' where a: "nghttp2_session_add_window_update ?s NGHTTP2_FLAG_NONE sid (w_recv ?w) = Some (rv, ss')"
      and r: "rv = NGHTTP2_ERR_NOMEM \<and> post (int n) ss ss' \<and> get ss' = get ?s \<or>
        rv = 0 \<and> ok ss' \<and> post (int n) ss (put ((get ss')\<lparr>w_recv := 0\<rparr>) ss') \<and> get ss' = (get ?s)\<lparr>w_queued := True\<rparr>"
      using grant_post [OF s(1,2,3) k, of "\<lambda>w. w\<lparr>w_recv := 0\<rparr>" "int n" NGHTTP2_FLAG_NONE] b s(3,4) k
      by (auto simp: g wnd_ok_def credit_def window_inv_def NGHTTP2_MAX_WINDOW_SIZE_def)
    show ?thesis
    proof (cases "rv = 0")
      case False
      then show ?thesis using True adj a r g o
        by (intro exI [of _ rv] exI [of _ ss']) (auto simp: recv_op_def Let_def)
    next
      case z: True
      then have r': "ok ss'" "post (int n) ss (put ((get ss')\<lparr>w_recv := 0\<rparr>) ss')" "get ss' = (get ?s)\<lparr>w_queued := True\<rparr>"
        using r by (auto simp: ng_defs)
      then show ?thesis using z True adj a g o
        by (intro exI [of _ 0] exI [of _ "put ((get ss')\<lparr>w_recv := 0\<rparr>) ss'"]) (auto simp: recv_op_def Let_def replenished_def get_put)
    qed
  qed
qed

end

subsection \<open>Arithmetic of one window\<close>

lemma c_div_2: "0 \<le> a \<Longrightarrow> c_div a 2 = a div 2"
  by (cases "a = 0") (simp_all add: c_div_def)

lemma should_send_iff: "0 \<le> l \<Longrightarrow> nghttp2_should_send_window_update l r \<longleftrightarrow> 0 < r \<and> l div 2 \<le> r"
  by (simp add: nghttp2_should_send_window_update_def c_div_2)

lemma consumed_fits:
  assumes "0 \<le> c" "c + int n \<le> NGHTTP2_MAX_WINDOW_SIZE"
  shows "\<not> (word_of_int c :: u64) > word_of_int NGHTTP2_MAX_WINDOW_SIZE - word_of_nat n"
proof -
  have d: "word_of_int NGHTTP2_MAX_WINDOW_SIZE - word_of_nat n = (word_of_int (NGHTTP2_MAX_WINDOW_SIZE - int n) :: u64)"
    by simp
  have u: "uint (word_of_int x :: u64) = x" if "0 \<le> x" "x \<le> NGHTTP2_MAX_WINDOW_SIZE" for x
    using that by (simp add: unsigned_of_int take_bit_int_eq_self NGHTTP2_MAX_WINDOW_SIZE_def)
  show ?thesis unfolding d word_less_def using assms u [of c] u [of "NGHTTP2_MAX_WINDOW_SIZE - int n"] by linarith
qed

lemmas wnd_arith = wnd_ok_def credit_def wnd_window_def window_wnd_def i32_def is_i32_def INT32_MIN_def INT32_MAX_def
  Helper.NGHTTP2_MAX_WINDOW_SIZE_def NGHTTP2_MAX_WINDOW_SIZE_def

text \<open>Moving the window grants the peer exactly the increment that is returned.\<close>

lemma adjust_wnd:
  assumes "wnd_ok w p" "is_i32 d"
  shows "\<exists>rv v. nghttp2_adjust_local_window_size (wnd_window w d) = Some (rv, v) \<and>
    (rv \<noteq> 0 \<longrightarrow> window_wnd w v = w) \<and>
    (rv = 0 \<longrightarrow> 0 \<le> delta v \<and> delta v \<le> NGHTTP2_MAX_WINDOW_SIZE \<and> wnd_ok (window_wnd w v) p \<and>
       credit (window_wnd w v) p = credit w p + delta v \<and>
       (d \<le> 0 \<longrightarrow> delta v = 0 \<and> w_local (window_wnd w v) = w_local w + d \<and> w_recv (window_wnd w v) = w_recv w + d) \<and>
       (0 < d \<longrightarrow> w_red w = 0 \<longrightarrow> 0 < delta v))"
  using assms
  by (cases "0 < d"; cases "w_recv w < 0")
    (auto simp: nghttp2_adjust_local_window_size_def wnd_arith Let_def min_def max_def NGHTTP2_ERR_FLOW_CONTROL_def split: if_splits)

lemma increase_wnd:
  assumes "wnd_ok w p" "0 < d" "is_i32 d"
  shows "\<exists>rv v. nghttp2_increase_local_window_size (wnd_window w d) = Some (rv, v) \<and>
    (rv \<noteq> 0 \<longrightarrow> window_wnd w v = w) \<and>
    (rv = 0 \<longrightarrow> 0 \<le> delta v \<and> delta v \<le> NGHTTP2_MAX_WINDOW_SIZE \<and> wnd_ok (window_wnd w v) p \<and>
       credit (window_wnd w v) p = credit w p + delta v \<and> w_local (window_wnd w v) = w_local w + d)"
  using assms
  by (auto simp: nghttp2_increase_local_window_size_def wnd_arith Let_def min_def NGHTTP2_ERR_FLOW_CONTROL_def split: if_splits)

lemma replenished_decrease:
  assumes "wnd_ok w p" "replenished w" "d \<le> 0" "w_local w' = w_local w + d" "w_recv w' = w_recv w + d" "0 \<le> w_local w'" "w_queued w' = w_queued w"
  shows "replenished w'"
  using assms by (auto simp: replenished_def should_send_iff wnd_ok_def)

context flow_window
begin

lemma post_trans: "post d ss s1 \<Longrightarrow> post e s1 s2 \<Longrightarrow> post (d + e) ss s2"
  using frame_trans by (simp add: post_def) blast

lemma consume_op_post:
  assumes ok: "ok ss" and inv: "window_inv get sid ss" and n: "w_cons (get ss) + int n \<le> NGHTTP2_MAX_WINDOW_SIZE"
  shows "\<exists>rv ss'. consume_op get put sid ss n = Some (rv, ss') \<and> (rv = 0 \<or> rv = NGHTTP2_ERR_NOMEM) \<and> post 0 ss ss'"
proof -
  let ?w = "get ss"
  let ?c = "w_cons ?w + int n"
  let ?m = "min ?c (w_recv ?w)"
  have b: "wnd_ok ?w (pending ss sid)" using inv by (simp add: window_inv_def)
  then have small: "int n < 2 ^ 31" and c: "i32 ?c = Some ?c" using n by (simp_all add: wnd_arith)
  have g: "\<not> (word_of_int (w_cons ?w) :: u64) > word_of_int NGHTTP2_MAX_WINDOW_SIZE - word_of_nat n"
    using b n by (intro consumed_fits) (simp_all add: wnd_ok_def)
  have put0: "post 0 ss (put (?w\<lparr>w_cons := ?c, w_recv := w_recv ?w\<rparr>) ss)"
    using b n by (intro put_post ok inv) (simp_all add: wnd_ok_def credit_def)
  show ?thesis
  proof (cases "\<not> w_queued ?w \<and> nghttp2_should_send_window_update (w_local ?w) ?m")
    case False
    then show ?thesis using put0 g c
      by (auto simp: consume_op_def session_update_consumed_size_def to_i32_small [OF small] Let_def)
  next
    case True
    then have m: "0 < ?m" by (simp add: nghttp2_should_send_window_update_def)
    let ?f = "\<lambda>w. w\<lparr>w_cons := ?c - ?m, w_recv := w_recv ?w - ?m\<rparr>"
    have i: "i32 (w_recv ?w - ?m) = Some (w_recv ?w - ?m)" "i32 (?c - ?m) = Some (?c - ?m)"
      using b n m by (auto simp: wnd_arith)
    have f: "wnd_ok (?f w) (pending ss sid + ?m) \<and> w_queued (?f w) = w_queued w \<and>
        credit (?f w) (pending ss sid + ?m) = credit_of get sid ss - 0"
      if "w_local w = w_local ?w" "w_red w = w_red ?w" "w_recv w = w_recv ?w" "w_cons w = w_cons ?w" for w
      using b n m that by (cases "?c \<le> w_recv ?w") (simp_all add: wnd_ok_def credit_def)
    obtain rv ss' where a: "nghttp2_session_add_window_update ss NGHTTP2_FLAG_NONE sid ?m = Some (rv, ss')"
      and r: "rv = NGHTTP2_ERR_NOMEM \<and> post 0 ss ss' \<or> rv = 0 \<and> post 0 ss (put (?f (get ss')) ss')"
      using grant_post [where f = ?f and d = 0 and fl = NGHTTP2_FLAG_NONE, OF ok frame_refl inv m f] by fastforce
    from r show ?thesis
    proof (elim disjE conjE)
      assume r: "rv = NGHTTP2_ERR_NOMEM" "post 0 ss ss'"
      let ?s = "put ((get ss')\<lparr>w_cons := ?c, w_recv := w_recv ?w\<rparr>) ss'"
      have "ss' = ss\<lparr>s_nalloc := Suc (s_nalloc ss)\<rparr>"
        using a r(1) by (auto simp: add_window_update [OF ok] NGHTTP2_ERR_NOMEM_def split: option.splits)
      then have "get ss' = ?w" "pending ss' = pending ss" by (simp_all add: get_alloc)
      then have "post 0 ss' ?s"
        using r(2) b n by (intro put_post) (simp_all add: post_def wnd_ok_def credit_def)
      from post_trans [OF r(2) this] show ?thesis using True a g c r(1)
        by (auto simp: consume_op_def session_update_consumed_size_def to_i32_small [OF small] Let_def NGHTTP2_ERR_NOMEM_def)
    next
      assume "rv = 0" "post 0 ss (put (?f (get ss')) ss')"
      then show ?thesis using True a g c i
        by (auto simp: consume_op_def session_update_consumed_size_def to_i32_small [OF small] Let_def)
    qed
  qed
qed

text \<open>Storing a moved window and queueing the increment it grants.\<close>

lemma move_grant:
  assumes ok: "ok ss" and inv: "window_inv get sid ss" and w: "wnd_ok w (pending ss sid)" "w_queued w = w_queued (get ss)"
    and d: "credit w (pending ss sid) = credit_of get sid ss + d" "0 < d"
  shows "\<exists>rv ss'. nghttp2_session_add_window_update (put w ss) fl sid d = Some (rv, ss') \<and>
    (rv = 0 \<longrightarrow> post 0 ss ss' \<and> w_queued (get ss')) \<and> (rv = 0 \<or> rv = NGHTTP2_ERR_NOMEM)"
proof -
  let ?s = "put w ss"
  have s: "post (- d) ss ?s" using w d by (intro put_post ok inv) simp_all
  then have s': "ok ?s" "frame ss ?s" "window_inv get sid ?s" by (simp_all add: post_def)
  have g: "get ?s = w" by (rule get_put [OF ok])
  show ?thesis
  proof (cases "s_alloc ?s (s_nalloc ?s)")
    case None
    then show ?thesis by (simp add: add_window_update [OF s'(1)] NGHTTP2_ERR_NOMEM_def)
  next
    case (Some a)
    let ?e = "enqueue_wu a fl sid d ?s"
    let ?t = "put ((get ?s)\<lparr>w_queued := True\<rparr>) ?e"
    have fe: "frame ?s ?e" "ok ?e" using frame_enqueue ok_frame [OF s'(1)] by blast+
    have f: "frame ss ?t" by (rule frame_trans [OF s'(2) frame_trans [OF fe(1) frame_put]])
    have gt: "get ?t = w\<lparr>w_queued := True\<rparr>" "pending ?t sid = pending ss sid + d" using get_put [OF fe(2)] g by simp_all
    have "window_inv get sid ?t" unfolding window_inv_def gt
      using w d s'(3) inv by (simp add: window_inv_def put_queue wnd_ok_def credit_def)
    then have "post 0 ss ?t" using f ok_frame [OF ok f] d gt by (simp add: post_def credit_def)
    then show ?thesis using Some gt by (simp add: add_window_update [OF s'(1)])
  qed
qed

lemma submit_op_post:
  assumes ok: "ok ss" and inv: "window_inv get sid ss" and d: "is_i32 d"
  shows "\<exists>rv ss'. submit_op get put sid ss d = Some (rv, ss') \<and>
    (rv = 0 \<longrightarrow> post 0 ss ss' \<and> (d \<le> 0 \<or> w_red (get ss) = 0 \<longrightarrow> replenished (get ss) \<longrightarrow> replenished (get ss')))"
proof -
  let ?w = "get ss" and ?p = "pending ss sid"
  have b: "wnd_ok ?w ?p" using inv by (simp add: window_inv_def)
  obtain rv v where a: "nghttp2_adjust_local_window_size (wnd_window ?w d) = Some (rv, v)"
    and z: "rv = 0 \<Longrightarrow> 0 \<le> delta v \<and> delta v \<le> NGHTTP2_MAX_WINDOW_SIZE \<and> wnd_ok (window_wnd ?w v) ?p \<and>
       credit (window_wnd ?w v) ?p = credit ?w ?p + delta v \<and>
       (d \<le> 0 \<longrightarrow> delta v = 0 \<and> w_local (window_wnd ?w v) = w_local ?w + d \<and> w_recv (window_wnd ?w v) = w_recv ?w + d) \<and>
       (0 < d \<longrightarrow> w_red ?w = 0 \<longrightarrow> 0 < delta v)"
    using adjust_wnd [OF b d] by blast
  let ?v = "window_wnd ?w v"
  let ?s = "put ?v ss"
  have q: "w_queued ?v = w_queued ?w" "w_cons ?v = w_cons ?w" by (simp_all add: window_wnd_def)
  have g: "get ?s = ?v" by (rule get_put [OF ok])
  consider "rv \<noteq> 0" | "rv = 0" "delta v \<le> 0" | "rv = 0" "0 < delta v" by linarith
  then show ?thesis
  proof cases
    case 1
    then show ?thesis using a by (simp add: submit_op_def Let_def)
  next
    case 2
    then have "post 0 ss ?s" using z q by (intro put_post ok inv) auto
    moreover have "replenished ?v" if "d \<le> 0 \<or> w_red ?w = 0" "replenished ?w"
      using 2 z q that by (cases "d \<le> 0") (auto intro!: replenished_decrease [OF b that(2), of d] simp: wnd_ok_def)
    ultimately show ?thesis using 2 a g by (auto simp: submit_op_def Let_def)
  next
    case 3
    let ?c = "w_cons ?w - delta v"
    let ?x = "?v\<lparr>w_cons := max 0 ?c\<rparr>"
    have c: "i32 ?c = Some ?c" using b z 3 by (simp add: wnd_arith)
    have x: "wnd_ok ?x ?p" "w_queued ?x = w_queued (get ?s)" using z 3 b q g by (auto simp: wnd_ok_def credit_def)
    have s: "post (- delta v) ss ?s" using z 3 q by (intro put_post ok inv) auto
    then have s': "ok ?s" "window_inv get sid ?s" by (simp_all add: post_def)
    have pp: "put ?x ?s = put ?x ss" by (rule put_put)
    have m: "\<exists>rv ss'. nghttp2_session_add_window_update (put ?x ss) 0 sid (delta v) = Some (rv, ss') \<and>
        (rv = 0 \<longrightarrow> post 0 ss ss' \<and> w_queued (get ss')) \<and> (rv = 0 \<or> rv = NGHTTP2_ERR_NOMEM)"
      using z 3 x(1) q by (intro move_grant ok inv) (auto simp: credit_def)
    have "submit_op get put sid ss d = nghttp2_session_add_window_update (put ?x ss) 0 sid (delta v)"
      using a 3 c pp by (simp add: submit_op_def Let_def g q)
    then show ?thesis using m by (auto simp: replenished_def)
  qed
qed

lemma resize_op_post:
  assumes ok: "ok ss" and inv: "window_inv get sid ss" and l: "0 \<le> l" "l \<le> NGHTTP2_MAX_WINDOW_SIZE"
  shows "\<exists>rv ss'. resize_op get put fail sid ss l = Some (rv, ss') \<and>
    (rv = 0 \<longrightarrow> post 0 ss ss' \<and> (auto_window_update ss \<longrightarrow> replenished (get ss) \<longrightarrow> replenished (get ss')))"
proof -
  let ?w = "get ss" and ?p = "pending ss sid"
  let ?d = "l - w_local ?w"
  have b: "wnd_ok ?w ?p" using inv by (simp add: window_inv_def)
  have d: "is_i32 ?d" "i32 ?d = Some ?d" using b l by (simp_all add: wnd_arith)
  have o: "post 0 ss ss" using ok inv frame_refl by (simp add: post_def)
  consider "?d = 0" | "?d < 0" | "0 < ?d" by linarith
  then show ?thesis
  proof cases
    case 1
    then show ?thesis using d o by (simp add: resize_op_def)
  next
    case 2
    obtain rv v where a: "nghttp2_adjust_local_window_size (wnd_window ?w ?d) = Some (rv, v)"
      and z: "rv = 0 \<Longrightarrow> wnd_ok (window_wnd ?w v) ?p \<and> credit (window_wnd ?w v) ?p = credit ?w ?p + delta v \<and> delta v = 0 \<and>
        w_local (window_wnd ?w v) = w_local ?w + ?d \<and> w_recv (window_wnd ?w v) = w_recv ?w + ?d"
      using adjust_wnd [OF b d(1)] 2 by auto
    have q: "w_queued (window_wnd ?w v) = w_queued ?w" by (simp add: window_wnd_def)
    have p: "post 0 ss (put (window_wnd ?w v) ss)" if "rv = 0" using z that q by (intro put_post ok inv) auto
    have "replenished (window_wnd ?w v)" if "rv = 0" "replenished ?w"
      using 2 z q that by (auto intro!: replenished_decrease [OF b that(2), of ?d] simp: wnd_ok_def)
    with p 2 a d show ?thesis by (auto simp: resize_op_def get_put [OF ok])
  next
    case 3
    obtain rv v where a: "nghttp2_increase_local_window_size (wnd_window ?w ?d) = Some (rv, v)"
      and z: "rv = 0 \<Longrightarrow> 0 \<le> delta v \<and> wnd_ok (window_wnd ?w v) ?p \<and> credit (window_wnd ?w v) ?p = credit ?w ?p + delta v"
      using increase_wnd [OF b 3 d(1)] by auto
    let ?s = "put (window_wnd ?w v) ss"
    have q: "w_queued (window_wnd ?w v) = w_queued ?w" by (simp add: window_wnd_def)
    consider "rv \<noteq> 0" | "rv = 0" "0 < delta v" | "rv = 0" "delta v = 0" using z by force
    then show ?thesis
    proof cases
      case 1
      then show ?thesis using 3 a d by (simp add: resize_op_def Let_def)
    next
      case 2
      have "\<exists>rv ss'. nghttp2_session_add_window_update ?s 0 sid (delta v) = Some (rv, ss') \<and>
          (rv = 0 \<longrightarrow> post 0 ss ss' \<and> w_queued (get ss')) \<and> (rv = 0 \<or> rv = NGHTTP2_ERR_NOMEM)"
        using z 2 q by (intro move_grant ok inv) auto
      then show ?thesis using 3 a d 2 by (auto simp: resize_op_def Let_def replenished_def)
    next
      case e: 3
      then have s: "post 0 ss ?s" using z q by (intro put_post ok inv) auto
      then have s': "ok ?s" "window_inv get sid ?s" "s_opt_flags ?s = s_opt_flags ss" using frame_opt by (auto simp: post_def)
      have "int 0 \<le> credit_of get sid ?s" using s'(2) by (simp add: window_inv_def wnd_ok_def)
      from recv_op_post [OF s'(1,2) this, of fail True] s'(3) post_trans [OF s, of 0]
      obtain rv ss' where "recv_op get put fail sid True ?s 0 = Some (rv, ss')" "post 0 ss ss'"
        "rv = 0 \<Longrightarrow> auto_window_update ss \<Longrightarrow> replenished (get ss')" by auto
      then show ?thesis using 3 a d e by (auto simp: resize_op_def Let_def)
    qed
  qed
qed

text \<open>When the WINDOW_UPDATE at the front of the queue is sent, the credit grows by its increment.\<close>

lemma sent_post:
  assumes ok: "ok ss" and inv: "window_inv get sid ss" and q: "s_ob_reg ss = it # q" "\<And>t. t \<noteq> sid \<Longrightarrow> wu_inc t it = 0"
    and w: "w = (get ss)\<lparr>w_queued := False\<rparr>"
  shows "post (- wu_inc sid it) ss (put w (ss\<lparr>s_ob_reg := q\<rparr>))"
proof -
  let ?s = "ss\<lparr>s_ob_reg := q\<rparr>"
  have f: "frame ss ?s" using q by (rule frame_pop)
  then have ok': "ok ?s" by (rule ok_frame [OF ok])
  have f': "frame ss (put w ?s)" by (rule frame_trans [OF f frame_put])
  have p: "pending ss sid = wu_inc sid it + pending ?s sid" using q by (simp add: pending_def)
  have nn: "0 \<le> wu_inc sid it" "list_all (\<lambda>it. 0 \<le> wu_inc sid it) q" using inv q by (simp_all add: window_inv_def)
  have "0 \<le> pending ?s sid" using nn(2) by (auto simp: pending_def list_all_iff intro!: sum_list_nonneg)
  then have "wnd_ok w (pending ?s sid)" using inv p nn w by (simp add: window_inv_def wnd_ok_def credit_def)
  then show ?thesis
    using f' ok_frame [OF ok f'] p nn w get_put [OF ok'] put_queue by (simp add: post_def window_inv_def credit_def)
qed

end

end
