(* ===== verification/Flow_Run.thy ===== *)
theory Flow_Run
  imports Session_Flow
begin

text \<open>
  Flow control over whole runs of a session.  The windows of the connection and of the streams are two
  instances of the account of \<open>Session_Flow\<close>; a run interleaves the operations on all of them with
  streams that are opened and closed and with frames that are sent, and keeps beside the session
  what the peer believes it may send.
\<close>

subsection \<open>The connection and the streams\<close>

text \<open>
  An operation on one window changes that window, the allocation counter and its own increments in the queue, and
  nothing else of what the accounts depend on.
\<close>

definition same_rest :: "nghttp2_session \<Rightarrow> nghttp2_session \<Rightarrow> bool" where
  "same_rest ss ss' \<longleftrightarrow> s_streams ss' = s_streams ss \<and> s_opt_flags ss' = s_opt_flags ss \<and>
     s_iframe_state ss' = s_iframe_state ss \<and> s_goaway_flags ss' = s_goaway_flags ss \<and> s_remote_window_size ss' = s_remote_window_size ss"

definition conn_frame :: "nghttp2_session \<Rightarrow> nghttp2_session \<Rightarrow> bool" where
  "conn_frame ss ss' \<longleftrightarrow> same_rest ss ss' \<and> s_core ss' = s_core ss \<and> (\<forall>t. t \<noteq> 0 \<longrightarrow> increments ss' t = increments ss t)"

definition strm_rest :: "nghttp2_stream \<Rightarrow> nghttp2_stream" where
  "strm_rest st = st\<lparr>local_window_size := 0, recv_window_size := 0, recv_reduction := 0, consumed_size := 0, window_update_queued := False\<rparr>"

definition strm_frame :: "int \<Rightarrow> nat \<Rightarrow> nghttp2_session \<Rightarrow> nghttp2_session \<Rightarrow> bool" where
  "strm_frame sid s ss ss' \<longleftrightarrow> same_rest ss ss' \<and> conn_get ss' = conn_get ss \<and> s_server ss' = s_server ss \<and> sched (s_core ss') = sched (s_core ss) \<and>
     (\<forall>a. a \<noteq> s \<longrightarrow> s_heap ss' a = s_heap ss a) \<and> strm_rest (s_heap ss' s) = strm_rest (s_heap ss s) \<and>
     (\<forall>t. t \<noteq> sid \<longrightarrow> increments ss' t = increments ss t)"

definition strm_ok :: "int \<Rightarrow> nat \<Rightarrow> nghttp2_session \<Rightarrow> bool" where
  "strm_ok sid s ss \<longleftrightarrow> streams_ok ss \<and> live ss sid s \<and> stream_id (s_heap ss s) = sid \<and> sid \<noteq> 0"

lemma strm_rest_eqD:
  "strm_rest st' = strm_rest st \<Longrightarrow> stream_id st' = stream_id st \<and> flags st' = flags st \<and> state st' = state st \<and> shut_flags st' = shut_flags st"
  by (cases st; cases st') (simp add: strm_rest_def)

lemma strm_rest_upd [simp]:
  "strm_rest (st\<lparr>local_window_size := a, recv_window_size := b, recv_reduction := c, consumed_size := d, window_update_queued := e\<rparr>) = strm_rest st"
  by (simp add: strm_rest_def)

lemma increments_simps [simp]:
  "increments (conn_put w ss) = increments ss" "increments (strm_put s w ss) = increments ss" "increments (ss\<lparr>s_nalloc := n\<rparr>) = increments ss"
  "increments (enqueue_wu a fl sid k ss) t = increments ss t @ (if t = sid \<and> k \<noteq> 0 then [k] else [])"
  by (auto simp: increments_def fun_eq_iff conn_put_def strm_put_def upd_stream_def set_heap_def)

lemma increments_pop: "s_ob_reg ss = it # q \<Longrightarrow> wu_inc t it = 0 \<Longrightarrow> increments (ss\<lparr>s_ob_reg := q\<rparr>) t = increments ss t"
  by (simp add: increments_def)

lemma strm_frame_meta:
  "strm_frame sid s ss ss' \<Longrightarrow> stream_id (s_heap ss' a) = stream_id (s_heap ss a) \<and> flags (s_heap ss' a) = flags (s_heap ss a) \<and>
     state (s_heap ss' a) = state (s_heap ss a) \<and> shut_flags (s_heap ss' a) = shut_flags (s_heap ss a)"
  by (cases "a = s") (auto simp: strm_frame_def dest: strm_rest_eqD)

lemma strm_frame_keeps:
  assumes "strm_frame sid s ss ss'"
  shows "streams_ok ss \<Longrightarrow> streams_ok ss'" "nghttp2_session_get_stream ss' t = nghttp2_session_get_stream ss t"
proof -
  have e: "s_streams ss' = s_streams ss" using assms by (simp add: strm_frame_def same_rest_def)
  show "streams_ok ss \<Longrightarrow> streams_ok ss'" using e strm_frame_meta [OF assms] streams_ok_cong by blast
  show "nghttp2_session_get_stream ss' t = nghttp2_session_get_stream ss t"
    by (rule get_stream_cong [OF e]) (use strm_frame_meta [OF assms] in blast)
qed

lemma conn_frame_keeps:
  assumes "conn_frame ss ss'"
  shows "streams_ok ss \<Longrightarrow> streams_ok ss'" "nghttp2_session_get_stream ss' t = nghttp2_session_get_stream ss t" "s_heap ss' = s_heap ss"
proof -
  have e: "s_streams ss' = s_streams ss" "s_heap ss' = s_heap ss" using assms by (simp_all add: conn_frame_def same_rest_def)
  then show "streams_ok ss \<Longrightarrow> streams_ok ss'" "s_heap ss' = s_heap ss" by (simp_all add: streams_ok_def)
  show "nghttp2_session_get_stream ss' t = nghttp2_session_get_stream ss t" using e by (intro get_stream_cong) simp_all
qed

interpretation conn: flow_window streams_ok conn_get conn_put 0 conn_frame
proof
  fix ss fl k
  assume t: "streams_ok ss"
  have "nghttp2_session_get_stream (ss\<lparr>s_nalloc := n\<rparr>) 0 = Some None" for n
    using t by (intro get_stream_0) (simp add: streams_ok_def)
  then show "nghttp2_session_add_window_update ss fl 0 k =
      (case s_alloc ss (s_nalloc ss) of
         None \<Rightarrow> Some (NGHTTP2_ERR_NOMEM, ss\<lparr>s_nalloc := Suc (s_nalloc ss)\<rparr>)
       | Some a \<Rightarrow> Some (0, conn_put ((conn_get ss)\<lparr>w_queued := True\<rparr>) (enqueue_wu a fl 0 k ss)))"
    by (simp add: nghttp2_session_add_window_update_def session_malloc_def nghttp2_session_add_item_def wu_item_def enqueue_wu_def
        nghttp2_outbound_item_init_def nghttp2_frame_window_update_init_def nghttp2_frame_hd_init_def push_reg_def
        nghttp2_outbound_queue_push_def conn_defs split: option.split)
qed (auto simp: conn_defs conn_frame_def same_rest_def enqueue_wu_def streams_ok_def increments_def)

interpretation strm: flow_window "strm_ok sid s" "strm_get s" "strm_put s" sid "strm_frame sid s" for sid s
proof
  fix ss fl k
  assume "strm_ok sid s ss"
  then have t: "nghttp2_session_get_stream ss sid = Some (Some s)" "sid \<noteq> 0" by (simp_all add: strm_ok_def)
  have "nghttp2_session_get_stream (ss\<lparr>s_nalloc := n\<rparr>) sid = Some (Some s)" for n
    using t by (subst get_stream_cong [of _ ss]) simp_all
  then show "nghttp2_session_add_window_update ss fl sid k =
      (case s_alloc ss (s_nalloc ss) of
         None \<Rightarrow> Some (NGHTTP2_ERR_NOMEM, ss\<lparr>s_nalloc := Suc (s_nalloc ss)\<rparr>)
       | Some a \<Rightarrow> Some (0, strm_put s ((strm_get s ss)\<lparr>w_queued := True\<rparr>) (enqueue_wu a fl sid k ss)))"
    by (simp add: nghttp2_session_add_window_update_def session_malloc_def nghttp2_session_add_item_def wu_item_def enqueue_wu_def
        nghttp2_outbound_item_init_def nghttp2_frame_window_update_init_def nghttp2_frame_hd_init_def push_reg_def
        nghttp2_outbound_queue_push_def strm_defs split: option.split)
next
  fix ss ss'
  assume "strm_ok sid s ss" "strm_frame sid s ss ss'"
  then show "strm_ok sid s ss'" using strm_frame_keeps strm_frame_meta by (simp add: strm_ok_def)
next
  show "strm_frame sid s ss (strm_put s w ss)" for ss w
    by (simp add: strm_frame_def same_rest_def) (simp add: strm_defs conn_get_def)
  show "strm_frame sid s ss (enqueue_wu a fl sid k ss)" for ss a fl k
    by (simp add: strm_frame_def same_rest_def) (simp add: enqueue_wu_def conn_get_def)
  show "strm_frame sid s ss (ss\<lparr>s_nalloc := n\<rparr>)" for ss n
    by (simp add: strm_frame_def same_rest_def conn_get_def)
  show "strm_frame sid s ss (ss\<lparr>s_ob_reg := q\<rparr>)" if "s_ob_reg ss = it # q" "\<And>t. t \<noteq> sid \<Longrightarrow> wu_inc t it = 0" for ss it q
    using that increments_pop [OF that(1)] by (simp add: strm_frame_def same_rest_def conn_get_def)
qed (auto simp: strm_frame_def same_rest_def strm_defs enqueue_wu_def)

subsection \<open>Both ends of the connection\<close>

text \<open>
  \<open>peer\<close> is what the other endpoint keeps: for the connection (id 0) and each stream the number of
  bytes it may still send, decreased by what it sends and increased by the WINDOW_UPDATE frames it
  gets.  The invariant says that it agrees with the account of this session.
\<close>

definition flow_inv :: "nghttp2_session \<Rightarrow> (int \<Rightarrow> int) \<Rightarrow> bool" where
  "flow_inv ss peer \<longleftrightarrow> streams_ok ss \<and> window_inv conn_get 0 ss \<and> credit_of conn_get 0 ss = peer 0 \<and>
     (\<forall>sid s. strm_ok sid s ss \<longrightarrow> window_inv (strm_get s) sid ss \<and> credit_of (strm_get s) sid ss = peer sid)"

text \<open>With automatic updates and nothing shut, every window is full enough or is about to be refilled.\<close>

definition flow_full :: "nghttp2_session \<Rightarrow> bool" where
  "flow_full ss \<longleftrightarrow> auto_window_update ss \<and> replenished (conn_get ss) \<and>
     (\<forall>sid s. strm_ok sid s ss \<longrightarrow> shut_flags (s_heap ss s) AND NGHTTP2_SHUT_RD = 0 \<and> replenished (strm_get s ss))"

lemma live_strm_ok: "streams_ok ss \<Longrightarrow> live ss sid s \<Longrightarrow> valid_sid sid \<Longrightarrow> strm_ok sid s ss"
  using live_id [of ss sid s] by (auto simp: strm_ok_def valid_sid_def)

lemma strm_ok_same:
  assumes "\<And>t. nghttp2_session_get_stream ss' t = nghttp2_session_get_stream ss t" "\<And>a. stream_id (s_heap ss' a) = stream_id (s_heap ss a)"
    and "streams_ok ss"
  shows "strm_ok sid s ss' \<Longrightarrow> strm_ok sid s ss"
  using assms by (simp add: strm_ok_def)

lemma conn_step:
  assumes inv: "flow_inv ss peer" and p: "conn.post d ss ss'"
  shows "flow_inv ss' (peer(0 := peer 0 - d))" "replenished (conn_get ss') \<Longrightarrow> flow_full ss \<Longrightarrow> flow_full ss'"
proof -
  have f: "conn_frame ss ss'" and c: "streams_ok ss'" "window_inv conn_get 0 ss'" "credit_of conn_get 0 ss' = credit_of conn_get 0 ss - d"
    using p by (simp_all add: conn.post_def)
  note k = conn_frame_keeps [OF f]
  have t: "streams_ok ss" using inv by (simp add: flow_inv_def)
  have s: "strm_ok sid s ss' \<Longrightarrow> strm_ok sid s ss" for sid s by (rule strm_ok_same [OF k(2) _ t]) (simp_all add: k(3))
  have g: "strm_get s ss' = strm_get s ss" for s by (simp add: strm_get_def k(3))
  have i: "increments ss' sid = increments ss sid" if "strm_ok sid s ss" for sid s
    using f that by (simp add: conn_frame_def strm_ok_def)
  have "window_inv (strm_get s) sid ss' \<and> credit_of (strm_get s) sid ss' = (peer(0 := peer 0 - d)) sid" if "strm_ok sid s ss'" for sid s
  proof -
    have "sid \<noteq> 0" using that by (simp add: strm_ok_def)
    then show ?thesis
      using inv s [OF that] window_inv_cong [where get = "strm_get s" and sid = sid, OF g i [OF s [OF that]]] by (simp add: flow_inv_def)
  qed
  then show "flow_inv ss' (peer(0 := peer 0 - d))" using c inv by (simp add: flow_inv_def)
  show "flow_full ss'" if "replenished (conn_get ss')" "flow_full ss"
    using that s f by (auto simp: flow_full_def g k(3) conn_frame_def same_rest_def)
qed

lemma strm_step:
  assumes inv: "flow_inv ss peer" and ok: "strm_ok sid s ss" and p: "strm.post sid s d ss ss'"
  shows "flow_inv ss' (peer(sid := peer sid - d))" "replenished (strm_get s ss') \<Longrightarrow> flow_full ss \<Longrightarrow> flow_full ss'"
proof -
  have f: "strm_frame sid s ss ss'" and c: "window_inv (strm_get s) sid ss'" "credit_of (strm_get s) sid ss' = credit_of (strm_get s) sid ss - d"
    using p by (simp_all add: strm.post_def)
  note k = strm_frame_keeps [OF f]
  note m = strm_frame_meta [OF f]
  have t: "streams_ok ss" using inv by (simp add: flow_inv_def)
  have bk: "strm_ok u a ss' \<Longrightarrow> strm_ok u a ss" for u a by (rule strm_ok_same [OF k(2) _ t]) (use m in auto)
  have other: "u \<noteq> sid \<and> strm_get a ss' = strm_get a ss \<and> increments ss' u = increments ss u" if "strm_ok u a ss'" "a \<noteq> s" for u a
  proof -
    have "u \<noteq> sid" using bk [OF that(1)] ok that(2) by (auto simp: strm_ok_def)
    then show ?thesis using f that(2) by (simp add: strm_frame_def strm_get_def)
  qed
  have self: "u = sid" if "strm_ok u s ss'" for u using bk [OF that] ok by (simp add: strm_ok_def)
  have "window_inv (strm_get a) u ss' \<and> credit_of (strm_get a) u ss' = (peer(sid := peer sid - d)) u" if "strm_ok u a ss'" for u a
  proof (cases "a = s")
    case True
    then show ?thesis using self that c inv ok by (auto simp: flow_inv_def)
  next
    case False
    then have "window_inv (strm_get a) u ss' = window_inv (strm_get a) u ss \<and> credit_of (strm_get a) u ss' = credit_of (strm_get a) u ss"
      using other [OF that False] by (intro window_inv_cong) simp_all
    then show ?thesis using other [OF that False] inv bk [OF that] by (simp add: flow_inv_def)
  qed
  moreover have "window_inv conn_get 0 ss' = window_inv conn_get 0 ss \<and> credit_of conn_get 0 ss' = credit_of conn_get 0 ss"
    using f ok by (intro window_inv_cong) (simp_all add: strm_frame_def strm_ok_def)
  ultimately show "flow_inv ss' (peer(sid := peer sid - d))" using inv ok k(1) by (simp add: flow_inv_def strm_ok_def)
  have r: "replenished (strm_get a ss')" if "replenished (strm_get s ss')" "flow_full ss" "strm_ok u a ss'" for u a
    using that other [OF that(3)] bk [OF that(3)] by (cases "a = s") (auto simp: flow_full_def)
  have sh: "shut_flags (s_heap ss' a) AND NGHTTP2_SHUT_RD = 0" if "flow_full ss" "strm_ok u a ss'" for u a
    using that(1) bk [OF that(2)] m [of a] unfolding flow_full_def by metis
  have au: "auto_window_update ss' \<and> replenished (conn_get ss')" if "flow_full ss"
    using that f by (simp add: flow_full_def strm_frame_def same_rest_def)
  show "flow_full ss'" if "replenished (strm_get s ss')" "flow_full ss"
    unfolding flow_full_def [of ss'] using that au r sh by blast
qed

lemma flow_inv_strm: "flow_inv ss peer \<Longrightarrow> strm_ok sid s ss \<Longrightarrow> window_inv (strm_get s) sid ss \<and> credit_of (strm_get s) sid ss = peer sid"
  by (simp add: flow_inv_def)

lemma flow_inv_conn: "flow_inv ss peer \<Longrightarrow> streams_ok ss \<and> window_inv conn_get 0 ss \<and> credit_of conn_get 0 ss = peer 0"
  by (simp add: flow_inv_def)

lemma post_0_eq [simp]: "(peer(t := peer t - 0)) = (peer :: int \<Rightarrow> int)"
  by simp

text \<open>The operations of the source on a session that satisfies the invariant.\<close>

lemma conn_recv_step:
  assumes "flow_inv ss peer" "int n \<le> peer 0"
  shows "\<exists>rv ss'. nghttp2_session_update_recv_connection_window_size ss n = Some (rv, ss') \<and> (rv = 0 \<or> rv = NGHTTP2_ERR_NOMEM) \<and>
    conn_frame ss ss' \<and> flow_inv ss' (peer(0 := peer 0 - int n)) \<and> (rv = 0 \<longrightarrow> flow_full ss \<longrightarrow> flow_full ss') \<and> w_cons (conn_get ss') = w_cons (conn_get ss)"
proof -
  obtain rv ss' where r: "recv_op conn_get conn_put conn_fail 0 True ss n = Some (rv, ss')" "rv = 0 \<or> rv = NGHTTP2_ERR_NOMEM"
    "conn.post (int n) ss ss'" "rv = 0 \<longrightarrow> auto_window_update ss \<longrightarrow> replenished (conn_get ss')" "w_cons (conn_get ss') = w_cons (conn_get ss)"
    using conn.recv_op_post [of ss n conn_fail True] flow_inv_conn [OF assms(1)] assms(2) by auto
  then show ?thesis using conn_step [OF assms(1) r(3)] by (auto simp: conn_recv_op flow_full_def conn.post_def)
qed

lemma strm_recv_step:
  assumes "flow_inv ss peer" "strm_ok sid s ss" "int n \<le> peer sid"
  shows "\<exists>rv ss'. nghttp2_session_update_recv_stream_window_size ss s n send = Some (rv, ss') \<and> (rv = 0 \<or> rv = NGHTTP2_ERR_NOMEM) \<and>
    strm_frame sid s ss ss' \<and> flow_inv ss' (peer(sid := peer sid - int n)) \<and> (rv = 0 \<longrightarrow> send \<longrightarrow> flow_full ss \<longrightarrow> flow_full ss') \<and> w_cons (strm_get s ss') = w_cons (strm_get s ss)"
proof -
  obtain rv ss' where r: "recv_op (strm_get s) (strm_put s) (strm_fail s) sid send ss n = Some (rv, ss')" "rv = 0 \<or> rv = NGHTTP2_ERR_NOMEM"
    "strm.post sid s (int n) ss ss'" "rv = 0 \<longrightarrow> send \<longrightarrow> auto_window_update ss \<longrightarrow> replenished (strm_get s ss')" "w_cons (strm_get s ss') = w_cons (strm_get s ss)"
    using strm.recv_op_post [OF assms(2), of n "strm_fail s" send] flow_inv_strm [OF assms(1,2)] assms(3) by auto
  moreover have "stream_id (s_heap ss s) = sid" using assms(2) by (simp add: strm_ok_def)
  ultimately show ?thesis using strm_step [OF assms(1,2) r(3)] by (auto simp: strm_recv_op flow_full_def strm.post_def)
qed

lemma conn_consume_step:
  assumes "flow_inv ss peer" "s_consumed_size ss + int n \<le> NGHTTP2_MAX_WINDOW_SIZE"
  shows "\<exists>rv ss'. session_update_connection_consumed_size ss n = Some (rv, ss') \<and> (rv = 0 \<or> rv = NGHTTP2_ERR_NOMEM) \<and>
    conn_frame ss ss' \<and> flow_inv ss' peer"
proof -
  obtain rv ss' where r: "consume_op conn_get conn_put 0 ss n = Some (rv, ss')" "rv = 0 \<or> rv = NGHTTP2_ERR_NOMEM" "conn.post 0 ss ss'"
    using conn.consume_op_post [of ss n] flow_inv_conn [OF assms(1)] assms(2) by (auto simp: conn_get_def)
  then show ?thesis using conn_step(1) [OF assms(1) r(3)] by (auto simp: conn_consume_op conn.post_def)
qed

lemma strm_consume_step:
  assumes "flow_inv ss peer" "strm_ok sid s ss" "consumed_size (s_heap ss s) + int n \<le> NGHTTP2_MAX_WINDOW_SIZE"
  shows "\<exists>rv ss'. session_update_stream_consumed_size ss s n = Some (rv, ss') \<and> (rv = 0 \<or> rv = NGHTTP2_ERR_NOMEM) \<and>
    strm_frame sid s ss ss' \<and> flow_inv ss' peer"
proof -
  obtain rv ss' where r: "consume_op (strm_get s) (strm_put s) sid ss n = Some (rv, ss')" "rv = 0 \<or> rv = NGHTTP2_ERR_NOMEM" "strm.post sid s 0 ss ss'"
    using strm.consume_op_post [OF assms(2), of n] flow_inv_strm [OF assms(1,2)] assms(3) by (auto simp: strm_get_def)
  moreover have "stream_id (s_heap ss s) = sid" using assms(2) by (simp add: strm_ok_def)
  ultimately show ?thesis using strm_step(1) [OF assms(1,2) r(3)] by (auto simp: strm_consume_op strm.post_def)
qed

lemma lookup_cases:
  assumes "flow_inv ss peer" "valid_sid sid"
  obtains "nghttp2_session_get_stream ss sid = Some None" | s where "live ss sid s" "strm_ok sid s ss"
  using assms live_strm_ok [of ss sid] get_stream_find [of ss sid] by (auto simp: flow_inv_def)

text \<open>An increase of a window that was reduced before may return less than was asked for, even nothing.\<close>

definition unreduced :: "nghttp2_session \<Rightarrow> int \<Rightarrow> bool" where
  "unreduced ss sid \<longleftrightarrow>
     (if sid = 0 then s_recv_reduction ss = 0
      else case nghttp2_session_get_stream ss sid of Some (Some s) \<Rightarrow> recv_reduction (s_heap ss s) = 0 | _ \<Rightarrow> True)"

lemma unreduced_red:
  "unreduced ss 0 \<Longrightarrow> w_red (conn_get ss) = 0" "sid \<noteq> 0 \<Longrightarrow> live ss sid s \<Longrightarrow> unreduced ss sid \<Longrightarrow> w_red (strm_get s ss) = 0"
  by (simp_all add: unreduced_def conn_get_def strm_get_def)

lemma flow_fullD:
  assumes "flow_full ss"
  shows "auto_window_update ss" "replenished (conn_get ss)" "strm_ok sid s ss \<Longrightarrow> replenished (strm_get s ss)"
    "strm_ok sid s ss \<Longrightarrow> shut_flags (s_heap ss s) AND NGHTTP2_SHUT_RD = 0"
  using assms by (simp_all add: flow_full_def)

lemma submit_step:
  assumes inv: "flow_inv ss peer" and sid: "sid = 0 \<or> valid_sid sid" and d: "is_i32 incr"
    and op: "nghttp2_submit_window_update ss sid incr = Some (0, ss')"
  shows "flow_inv ss' peer" "incr \<le> 0 \<or> unreduced ss sid \<Longrightarrow> flow_full ss \<Longrightarrow> flow_full ss'"
proof -
  have "flow_inv ss' peer \<and> (incr \<le> 0 \<or> unreduced ss sid \<longrightarrow> flow_full ss \<longrightarrow> flow_full ss')"
  proof (cases "incr = 0")
    case True
    then show ?thesis using op inv by (simp add: nghttp2_submit_window_update_def)
  next
    case nz: False
    show ?thesis
    proof (cases "sid = 0")
      case True
      from conn.submit_op_post [OF _ _ d] flow_inv_conn [OF inv] op nz True
      have r: "conn.post 0 ss ss'" "incr \<le> 0 \<or> w_red (conn_get ss) = 0 \<longrightarrow> replenished (conn_get ss) \<longrightarrow> replenished (conn_get ss')"
        by (fastforce simp: conn_submit_op)+
      then show ?thesis using conn_step [OF inv r(1)] True unreduced_red(1) flow_fullD(2) by auto
    next
      case False
      then have "valid_sid sid" using sid by simp
      with inv show ?thesis
      proof (cases rule: lookup_cases)
        case 1
        then show ?thesis using op inv False nz by (simp add: nghttp2_submit_window_update_def)
      next
        case (2 s)
        from strm.submit_op_post [OF 2(2) _ d] flow_inv_strm [OF inv 2(2)] op nz False 2
        have r: "strm.post sid s 0 ss ss'" "incr \<le> 0 \<or> w_red (strm_get s ss) = 0 \<longrightarrow> replenished (strm_get s ss) \<longrightarrow> replenished (strm_get s ss')"
          by (fastforce simp: strm_submit_op)+
        then show ?thesis using strm_step [OF inv 2(2) r(1)] unreduced_red(2) [OF False 2(1)] flow_fullD(3) [OF _ 2(2)] by auto
      qed
    qed
  qed
  then show "flow_inv ss' peer" "incr \<le> 0 \<or> unreduced ss sid \<Longrightarrow> flow_full ss \<Longrightarrow> flow_full ss'" by blast+
qed

lemma resize_step:
  assumes inv: "flow_inv ss peer" and sid: "sid = 0 \<or> valid_sid sid" and l: "l \<le> NGHTTP2_MAX_WINDOW_SIZE"
    and op: "nghttp2_session_set_local_window_size ss sid l = Some (0, ss')"
  shows "flow_inv ss' peer" "flow_full ss \<Longrightarrow> flow_full ss'"
proof -
  have l0: "0 \<le> l" using op by (auto simp: nghttp2_session_set_local_window_size_def NGHTTP2_ERR_INVALID_ARGUMENT_def split: if_splits)
  have "flow_inv ss' peer \<and> (flow_full ss \<longrightarrow> flow_full ss')"
  proof (cases "sid = 0")
    case True
    from conn.resize_op_post [OF _ _ l0 l, of ss conn_fail] flow_inv_conn [OF inv] op l0 True
    have r: "conn.post 0 ss ss'" "auto_window_update ss \<longrightarrow> replenished (conn_get ss) \<longrightarrow> replenished (conn_get ss')"
      by (fastforce simp: conn_resize_op)+
    then show ?thesis using conn_step [OF inv r(1)] flow_fullD(1,2) by auto
  next
    case False
    then have "valid_sid sid" using sid by simp
    with inv show ?thesis
    proof (cases rule: lookup_cases)
      case 1
      then show ?thesis using op inv False l0 by (simp add: nghttp2_session_set_local_window_size_def)
    next
      case (2 s)
      then have "stream_id (s_heap ss s) = sid" by (simp add: strm_ok_def)
      with strm.resize_op_post [OF 2(2) _ l0 l, of "strm_fail s"] flow_inv_strm [OF inv 2(2)] op l0 False 2
      have r: "strm.post sid s 0 ss ss'" "auto_window_update ss \<longrightarrow> replenished (strm_get s ss) \<longrightarrow> replenished (strm_get s ss')"
        by (fastforce simp: strm_resize_op)+
      then show ?thesis using strm_step [OF inv 2(2) r(1)] flow_fullD(1) flow_fullD(3) [OF _ 2(2)] by auto
    qed
  qed
  then show "flow_inv ss' peer" "flow_full ss \<Longrightarrow> flow_full ss'" by blast+
qed

lemma NOMEM_fatal [simp]: "nghttp2_is_fatal NGHTTP2_ERR_NOMEM" "\<not> nghttp2_is_fatal 0"
  by (simp_all add: nghttp2_is_fatal_def ng_defs)

lemma wu_inc_frame: "oi_frame it = Window_update_frame f \<Longrightarrow> wu_inc t it = (if fh_stream_id (wu_hd f) = t then window_size_increment f else 0)"
  by (simp add: wu_inc_def)

lemma conn_sent_step:
  assumes inv: "flow_inv ss peer" and q: "s_ob_reg ss = it # q" and f: "oi_frame it = Window_update_frame f" "fh_stream_id (wu_hd f) = 0"
    and op: "window_update_sent (ss\<lparr>s_ob_reg := q\<rparr>) 0 = Some (0, ss')"
  shows "flow_inv ss' (peer(0 := peer 0 + window_size_increment f)) \<and> (flow_full ss \<longrightarrow> flow_full ss')"
proof -
  let ?k = "window_size_increment f"
  let ?w = "(conn_get ss)\<lparr>w_queued := False\<rparr>"
  let ?s = "conn_put ?w (ss\<lparr>s_ob_reg := q\<rparr>)"
  have s: "conn.post (- ?k) ss ?s"
    using conn.sent_post [OF _ _ q _ refl] flow_inv_conn [OF inv] f by (simp add: wu_inc_frame)
  then have s': "streams_ok ?s" "window_inv conn_get 0 ?s" "s_opt_flags ?s = s_opt_flags ss"
    using conn.frame_opt by (auto simp: conn.post_def)
  have c: "int 0 \<le> credit_of conn_get 0 ?s" "w_cons (conn_get ?s) + int 0 \<le> NGHTTP2_MAX_WINDOW_SIZE"
    using s'(2) by (simp_all add: window_inv_def wnd_ok_def)
  have e: "ss\<lparr>s_ob_reg := q, s_window_update_queued := False\<rparr> = ?s" by (simp add: conn_defs)
  have "conn.post (- ?k) ss ss' \<and> (auto_window_update ss \<longrightarrow> replenished (conn_get ss'))"
  proof (cases "auto_window_update ss")
    case True
    from conn.recv_op_post [OF s'(1,2) c(1), of conn_fail True] op True e s'(3) conn.post_trans [OF s, of 0]
    show ?thesis by (auto simp: window_update_sent_def conn_recv_op split: if_splits)
  next
    case False
    from conn.consume_op_post [OF s'(1,2) c(2)] op False e s'(3) conn.post_trans [OF s, of 0]
    show ?thesis by (auto simp: window_update_sent_def conn_consume_op split: if_splits)
  qed
  then show ?thesis using conn_step [OF inv] flow_fullD(1) by fastforce
qed

lemma strm_sent_step:
  assumes inv: "flow_inv ss peer" and q: "s_ob_reg ss = it # q" and f: "oi_frame it = Window_update_frame f" "fh_stream_id (wu_hd f) = sid"
    and ok: "strm_ok sid s ss" and op: "window_update_sent (ss\<lparr>s_ob_reg := q\<rparr>) sid = Some (0, ss')"
  shows "flow_inv ss' (peer(sid := peer sid + window_size_increment f)) \<and> (flow_full ss \<longrightarrow> flow_full ss')"
proof -
  let ?k = "window_size_increment f"
  let ?w = "(strm_get s ss)\<lparr>w_queued := False\<rparr>"
  let ?s = "strm_put s ?w (ss\<lparr>s_ob_reg := q\<rparr>)"
  have s: "strm.post sid s (- ?k) ss ?s"
    using strm.sent_post [OF ok _ q _ refl] flow_inv_strm [OF inv ok] f by (simp add: wu_inc_frame)
  then have s': "strm_ok sid s ?s" "window_inv (strm_get s) sid ?s" "s_opt_flags ?s = s_opt_flags ss" "strm_frame sid s ss ?s"
    using strm.frame_opt by (auto simp: strm.post_def)
  have c: "int 0 \<le> credit_of (strm_get s) sid ?s" "w_cons (strm_get s ?s) + int 0 \<le> NGHTTP2_MAX_WINDOW_SIZE"
    using s'(2) by (simp_all add: window_inv_def wnd_ok_def)
  have e: "upd_stream (ss\<lparr>s_ob_reg := q\<rparr>) s (\<lambda>st. st\<lparr>window_update_queued := False\<rparr>) = ?s" by (simp add: strm_defs)
  have g: "nghttp2_session_get_stream (ss\<lparr>s_ob_reg := q\<rparr>) sid = Some (Some s)" "sid \<noteq> 0"
    using ok get_stream_cong [of "ss\<lparr>s_ob_reg := q\<rparr>" ss sid] by (simp_all add: strm_ok_def)
  have i: "stream_id (s_heap ?s s) = sid" using s'(1) by (simp add: strm_ok_def)
  let ?shut = "shut_flags (s_heap ?s s) AND NGHTTP2_SHUT_RD \<noteq> 0"
  have "strm.post sid s (- ?k) ss ss' \<and> (auto_window_update ss \<longrightarrow> \<not> ?shut \<longrightarrow> replenished (strm_get s ss'))"
  proof (cases ?shut)
    case True
    then show ?thesis using op s e g by (simp add: window_update_sent_def Let_def)
  next
    case nsh: False
    show ?thesis
    proof (cases "auto_window_update ss")
      case True
      from strm.recv_op_post [OF s'(1,2) c(1), of "strm_fail s" True] op True e s'(3) strm.post_trans [OF s, of 0] nsh g
      show ?thesis by (auto simp: window_update_sent_def strm_recv_op [OF i] split: if_splits)
    next
      case False
      from strm.consume_op_post [OF s'(1,2) c(2)] op False e s'(3) strm.post_trans [OF s, of 0] nsh g
      show ?thesis by (auto simp: window_update_sent_def strm_consume_op [OF i] split: if_splits)
    qed
  qed
  moreover have "\<not> ?shut" if "flow_full ss" using flow_fullD(4) [OF that ok] strm_frame_meta [OF s'(4)] by simp
  ultimately show ?thesis using strm_step [OF inv ok] flow_fullD(1) by fastforce
qed

text \<open>What no operation on a window touches.\<close>

definition keeps :: "nghttp2_session \<Rightarrow> nghttp2_session \<Rightarrow> bool" where
  "keeps ss ss' \<longleftrightarrow> same_rest ss ss' \<and> (\<forall>t. nghttp2_session_get_stream ss' t = nghttp2_session_get_stream ss t) \<and>
     (\<forall>a. strm_rest (s_heap ss' a) = strm_rest (s_heap ss a))"

lemma keeps_trans: "keeps ss s1 \<Longrightarrow> keeps s1 s2 \<Longrightarrow> keeps ss s2"
  by (simp add: keeps_def same_rest_def)

lemma frame_keeps:
  shows "conn_frame ss ss' \<Longrightarrow> keeps ss ss'" and "strm_frame sid s ss ss' \<Longrightarrow> keeps ss ss'"
proof -
  show "conn_frame ss ss' \<Longrightarrow> keeps ss ss'" using conn_frame_keeps [of ss ss'] by (simp add: keeps_def conn_frame_def)
  assume f: "strm_frame sid s ss ss'"
  then have "strm_rest (s_heap ss' a) = strm_rest (s_heap ss a)" for a by (cases "a = s") (simp_all add: strm_frame_def)
  then show "keeps ss ss'" using f strm_frame_keeps(2) [OF f] by (simp add: keeps_def strm_frame_def)
qed

lemma strm_ok_keeps:
  assumes "keeps ss ss'" "strm_ok sid s ss" "streams_ok ss'"
  shows "strm_ok sid s ss'"
proof -
  have "strm_rest (s_heap ss' s) = strm_rest (s_heap ss s)" using assms(1) by (simp add: keeps_def)
  then show ?thesis using assms strm_rest_eqD [of "s_heap ss' s" "s_heap ss s"] by (simp add: keeps_def strm_ok_def)
qed

lemma consume_step:
  assumes inv: "flow_inv ss peer" and ok: "strm_ok sid s ss" and n: "s_consumed_size ss + int n \<le> NGHTTP2_MAX_WINDOW_SIZE"
    "consumed_size (s_heap ss s) + int n \<le> NGHTTP2_MAX_WINDOW_SIZE"
  shows "\<exists>rv ss'. nghttp2_session_consume ss sid n = Some (rv, ss') \<and> (nghttp2_is_fatal rv \<longrightarrow> rv = NGHTTP2_ERR_NOMEM) \<and>
    keeps ss ss' \<and> flow_inv ss' peer \<and> (flow_full ss \<longrightarrow> flow_full ss')"
proof (cases "auto_window_update ss")
  case True
  have "keeps ss ss" by (simp add: keeps_def same_rest_def)
  then show ?thesis using True inv ok by (auto simp: nghttp2_session_consume_def nghttp2_is_fatal_def strm_ok_def ng_defs)
next
  case False
  then have nf: "\<not> flow_full ss" by (simp add: flow_full_def)
  have z: "sid \<noteq> 0" "live ss sid s" using ok by (simp_all add: strm_ok_def)
  obtain rv s1 where c: "session_update_connection_consumed_size ss n = Some (rv, s1)" "rv = 0 \<or> rv = NGHTTP2_ERR_NOMEM"
    "conn_frame ss s1" "flow_inv s1 peer" using conn_consume_step [OF inv n(1)] by blast
  have k: "keeps ss s1" using c(3) by (rule frame_keeps)
  show ?thesis
  proof (cases "rv = 0")
    case False
    then show ?thesis using c k nf \<open>\<not> auto_window_update ss\<close> z by (auto simp: nghttp2_session_consume_def)
  next
    case True
    have ok1: "strm_ok sid s s1" using strm_ok_keeps [OF k ok] c(4) by (simp add: flow_inv_def)
    have "consumed_size (s_heap s1 s) + int n \<le> NGHTTP2_MAX_WINDOW_SIZE" using n(2) conn_frame_keeps(3) [OF c(3)] by simp
    from strm_consume_step [OF c(4) ok1 this] obtain rv2 s2
      where s: "session_update_stream_consumed_size s1 s n = Some (rv2, s2)" "rv2 = 0 \<or> rv2 = NGHTTP2_ERR_NOMEM"
        "strm_frame sid s s1 s2" "flow_inv s2 peer" by blast
    have "keeps ss s2" by (rule keeps_trans [OF k frame_keeps(2) [OF s(3)]])
    moreover have "live s1 sid s" using ok1 by (simp add: strm_ok_def)
    ultimately show ?thesis using c s True z nf \<open>\<not> auto_window_update ss\<close> by (auto simp: nghttp2_session_consume_def)
  qed
qed

text \<open>The windows while the bytes of a DATA frame are read.\<close>

lemma read_data_step:
  assumes inv: "flow_inv ss peer" and ok: "strm_ok sid s ss" and n: "int n \<le> peer 0" "int n \<le> peer sid"
    and pad: "s_consumed_size ss + int pad \<le> NGHTTP2_MAX_WINDOW_SIZE" "consumed_size (s_heap ss s) + int pad \<le> NGHTTP2_MAX_WINDOW_SIZE"
    and st: "s_iframe_state ss \<noteq> NGHTTP2_IB_IGN_ALL"
  shows "\<exists>r ss'. read_data_flow ss sid s n pad last_chunk = Some (r, ss') \<and> (r = Inr () \<or> r = Inl (Some NGHTTP2_ERR_NOMEM)) \<and> keeps ss ss' \<and>
    (r = Inr () \<longrightarrow> flow_inv ss' (peer(0 := peer 0 - int n, sid := peer sid - int n)) \<and> (\<not> last_chunk \<longrightarrow> flow_full ss \<longrightarrow> flow_full ss'))"
proof (cases "n = 0")
  case True
  then show ?thesis using inv by (simp add: read_data_flow_def keeps_def same_rest_def fun_upd_idem)
next
  case nz: False
  obtain rv s1 where c: "nghttp2_session_update_recv_connection_window_size ss n = Some (rv, s1)" "rv = 0 \<or> rv = NGHTTP2_ERR_NOMEM"
    "conn_frame ss s1" "flow_inv s1 (peer(0 := peer 0 - int n))" "rv = 0 \<Longrightarrow> flow_full ss \<Longrightarrow> flow_full s1" "w_cons (conn_get s1) = w_cons (conn_get ss)"
    using conn_recv_step [OF inv n(1)] by blast
  have k: "keeps ss s1" using c(3) by (rule frame_keeps)
  have ok1: "strm_ok sid s s1" using strm_ok_keeps [OF k ok] c(4) by (simp add: flow_inv_def)
  have z: "sid \<noteq> 0" using ok by (simp add: strm_ok_def)
  then have pq: "(peer(0 := peer 0 - int n)) sid = peer sid" by simp
  obtain rv2 s2
    where s: "nghttp2_session_update_recv_stream_window_size s1 s n (\<not> last_chunk) = Some (rv2, s2)" "rv2 = 0 \<or> rv2 = NGHTTP2_ERR_NOMEM"
      "strm_frame sid s s1 s2" "flow_inv s2 (peer(0 := peer 0 - int n, sid := peer sid - int n))"
      "rv2 = 0 \<Longrightarrow> \<not> last_chunk \<Longrightarrow> flow_full s1 \<Longrightarrow> flow_full s2" "w_cons (strm_get s s2) = w_cons (strm_get s s1)"
    using strm_recv_step [OF c(4) ok1, of n "\<not> last_chunk"] n(2) unfolding pq by blast
  have k2: "keeps ss s2" by (rule keeps_trans [OF k frame_keeps(2) [OF s(3)]])
  have ok2: "strm_ok sid s s2" using strm_ok_keeps [OF k2 ok] s(4) by (simp add: flow_inv_def)
  have cc: "s_consumed_size s2 = s_consumed_size ss" "consumed_size (s_heap s2 s) = consumed_size (s_heap ss s)"
    using c(6) s(3,6) conn_frame_keeps(3) [OF c(3)] by (simp_all add: strm_frame_def conn_get_def strm_get_def)
  obtain rv3 s3 where p: "nghttp2_session_consume s2 sid pad = Some (rv3, s3)" "nghttp2_is_fatal rv3 \<longrightarrow> rv3 = NGHTTP2_ERR_NOMEM"
    "keeps s2 s3" "flow_inv s3 (peer(0 := peer 0 - int n, sid := peer sid - int n))" "flow_full s2 \<longrightarrow> flow_full s3"
    using consume_step [OF s(4) ok2, of pad] pad cc by auto
  have k3: "keeps ss s3" by (rule keeps_trans [OF k2 p(3)])
  have i: "s_iframe_state s1 \<noteq> NGHTTP2_IB_IGN_ALL" "s_iframe_state s3 \<noteq> NGHTTP2_IB_IGN_ALL" using k k3 st by (simp_all add: keeps_def same_rest_def)
  consider "rv \<noteq> 0" | "rv = 0" "rv2 \<noteq> 0" | "rv = 0" "rv2 = 0" "pad = 0" | "rv = 0" "rv2 = 0" "0 < pad" by blast
  then show ?thesis
  proof cases
    case 1
    then show ?thesis using c k by (auto simp: read_data_flow_def nz)
  next
    case 2
    then show ?thesis using c s k2 i by (auto simp: read_data_flow_def nz)
  next
    case 3
    then show ?thesis using c s k2 i by (auto simp: read_data_flow_def nz)
  next
    case 4
    then show ?thesis using c s p k3 i by (auto simp: read_data_flow_def nz)
  qed
qed

subsection \<open>Streams that come and go\<close>

definition fresh_wnd :: "wnd \<Rightarrow> bool" where
  "fresh_wnd w \<longleftrightarrow> 0 \<le> w_local w \<and> w_local w \<le> NGHTTP2_MAX_WINDOW_SIZE \<and> w_recv w = 0 \<and> w_red w = 0 \<and> w_cons w = 0 \<and> \<not> w_queued w"

lemma fresh_window_inv:
  "fresh_wnd (get ss) \<Longrightarrow> increments ss sid = [] \<Longrightarrow> window_inv get sid ss \<and> credit_of get sid ss = w_local (get ss)"
  by (simp add: window_inv_def pending_increments nonneg_increments fresh_wnd_def wnd_ok_def credit_def NGHTTP2_MAX_WINDOW_SIZE_def)

lemma fresh_replenished: "fresh_wnd w \<Longrightarrow> replenished w"
  by (simp add: fresh_wnd_def replenished_def nghttp2_should_send_window_update_def)

lemma strm_ok_valid:
  assumes "strm_ok sid s ss"
  shows "valid_sid sid"
proof -
  define k where "k = (word_of_int sid :: u32)"
  have "map_abs (s_streams ss) k = Some s" using assms live_iff [of ss sid s] by (auto simp: strm_ok_def k_def)
  then have "stream_id (s_heap ss s) = sint k" "0 < sint k" using assms unfolding strm_ok_def streams_ok_def by blast+
  moreover have "stream_id (s_heap ss s) = sid" using assms by (simp add: strm_ok_def)
  ultimately show ?thesis using sint_less [of k] by (simp add: valid_sid_def INT32_MAX_def)
qed

lemma life_step:
  assumes inv: "flow_inv ss peer" and ok: "streams_ok ss'" and rest: "session_rest ss' = session_rest ss"
    and old: "\<And>sid a. strm_ok sid a ss' \<Longrightarrow> sid \<noteq> n \<Longrightarrow> strm_ok sid a ss \<and> stream_meta (s_heap ss' a) = stream_meta (s_heap ss a)"
    and new: "\<And>a. strm_ok n a ss' \<Longrightarrow> fresh_wnd (strm_get a ss') \<and> peer' n = w_local (strm_get a ss') \<and> increments ss n = []"
    and peer: "n \<noteq> 0" "\<And>t. t \<noteq> n \<Longrightarrow> peer' t = peer t"
  shows "flow_inv ss' peer'"
    and "flow_full ss \<Longrightarrow> (\<And>a. strm_ok n a ss' \<Longrightarrow> shut_flags (s_heap ss' a) AND NGHTTP2_SHUT_RD = 0) \<Longrightarrow> flow_full ss'"
proof -
  note r = session_rest_eqD [OF rest]
  have c: "conn_get ss' = conn_get ss" using r by (simp add: conn_get_def)
  have i: "increments ss' t = increments ss t" for t using r(2) by (simp add: increments_def)
  have g: "strm_get a ss' = strm_get a ss" "shut_flags (s_heap ss' a) = shut_flags (s_heap ss a)" if "strm_ok sid a ss'" "sid \<noteq> n" for sid a
    using stream_meta_eqD [of "s_heap ss' a" "s_heap ss a"] old [OF that] by (simp_all add: strm_get_def)
  have "window_inv (strm_get a) sid ss' \<and> credit_of (strm_get a) sid ss' = peer' sid" if "strm_ok sid a ss'" for sid a
  proof (cases "sid = n")
    case True
    then show ?thesis using new that fresh_window_inv [of "strm_get a" ss' n] i by simp
  next
    case False
    then show ?thesis
      using window_inv_cong [where get = "strm_get a", OF g(1) [OF that False] i] inv old [OF that False] peer(2) [OF False] by (simp add: flow_inv_def)
  qed
  then show "flow_inv ss' peer'" using inv ok window_inv_cong [where get = conn_get, OF c i] peer by (simp add: flow_inv_def)
  assume f: "flow_full ss" and sh: "\<And>a. strm_ok n a ss' \<Longrightarrow> shut_flags (s_heap ss' a) AND NGHTTP2_SHUT_RD = 0"
  have "shut_flags (s_heap ss' a) AND NGHTTP2_SHUT_RD = 0 \<and> replenished (strm_get a ss')" if "strm_ok sid a ss'" for sid a
    using sh new fresh_replenished that g [OF that] old [OF that] f by (cases "sid = n") (auto simp: flow_full_def)
  then show "flow_full ss'" using f c r(1) by (simp add: flow_full_def)
qed

text \<open>The ids of the streams that are reset from the start: reserved by this endpoint, it only sends.\<close>

definition send_only :: "nghttp2_session \<Rightarrow> int \<Rightarrow> nghttp2_stream_state \<Rightarrow> bool" where
  "send_only ss sid st \<longleftrightarrow> st = NGHTTP2_STREAM_RESERVED \<and> nghttp2_session_is_my_stream_id ss sid"

lemma open_step:
  assumes inv: "flow_inv ss peer" and sid: "valid_sid sid" and raw: "nghttp2_session_get_stream_raw ss sid = Some None"
    and room: "map_room (s_streams ss)" and dep: "dep_known ss pri" and q: "increments ss sid = []"
    and w: "0 \<le> sint (st_initial_window_size (s_local_settings ss))"
    and op: "nghttp2_session_open_stream ss sid fl pri st ud = Some (Some s, ss')" and fresh: "s \<notin> ran (map_abs (s_streams ss))"
  shows "flow_inv ss' (peer(sid := sint (st_initial_window_size (s_local_settings ss))))" "\<not> send_only ss sid st \<Longrightarrow> flow_full ss \<Longrightarrow> flow_full ss'"
proof -
  have ok: "streams_ok ss" using inv by (simp add: flow_inv_def)
  then have new: "map_abs (s_streams ss) (word_of_int sid) = None" using raw raw_find [of ss sid] by (simp add: streams_ok_def)
  obtain fl' where o: "stream_meta (s_heap ss' s) = stream_meta (new_stream ss sid fl' st ud)" "streams_ok ss'" "life_frame s ss ss'"
    "map_abs (s_streams ss') = (map_abs (s_streams ss))(word_of_int sid \<mapsto> s)"
    using open_new_spec [OF ok sid new room dep op fresh] by metis
  note e = stream_meta_eqD [OF o(1)]
  have old: "strm_ok t a ss \<and> stream_meta (s_heap ss' a) = stream_meta (s_heap ss a)" if "strm_ok t a ss'" "t \<noteq> sid" for t a
  proof -
    have "(word_of_int t :: u32) \<noteq> word_of_int sid" using word_sid_inj [OF strm_ok_valid [OF that(1)] sid] that(2) by simp
    then have m: "map_abs (s_streams ss') (word_of_int t) = map_abs (s_streams ss) (word_of_int t)" using o(4) by simp
    have "live ss t a" "stream_meta (s_heap ss' a) = stream_meta (s_heap ss a)"
      using life_frame_live [OF ok o(2,3) m] fresh that(1) by (auto simp: ran_def strm_ok_def)
    then show ?thesis using live_strm_ok [OF ok _ strm_ok_valid [OF that(1)]] by blast
  qed
  have own: "fresh_wnd (strm_get a ss') \<and> w_local (strm_get a ss') = sint (st_initial_window_size (s_local_settings ss))" "a = s" if "strm_ok sid a ss'" for a
  proof -
    show "a = s" using that o(2,4) by (auto simp: strm_ok_def live_iff)
    then show "fresh_wnd (strm_get a ss') \<and> w_local (strm_get a ss') = sint (st_initial_window_size (s_local_settings ss))"
      using e w sint_less [of "st_initial_window_size (s_local_settings ss)"]
      by (simp add: fresh_wnd_def strm_get_def new_stream_def nghttp2_stream_shutdown_def nghttp2_stream_init_def Let_def NGHTTP2_MAX_WINDOW_SIZE_def)
  qed
  have l: "session_rest ss' = session_rest ss" "sid \<noteq> 0" using o(3) sid by (auto simp: life_frame_def valid_sid_def)
  note s = life_step [OF inv o(2) l(1) old _ l(2)]
  show "flow_inv ss' (peer(sid := sint (st_initial_window_size (s_local_settings ss))))" by (rule s) (use own q in auto)
  show "flow_full ss'" if "\<not> send_only ss sid st" "flow_full ss"
  proof (rule s(2) [where peer' = "peer(sid := sint (st_initial_window_size (s_local_settings ss)))"])
    show "shut_flags (s_heap ss' a) AND NGHTTP2_SHUT_RD = 0" if "strm_ok sid a ss'" for a
      using own(2) [OF that] e(4) \<open>\<not> send_only ss sid st\<close>
      by (auto simp: send_only_def new_stream_def nghttp2_stream_shutdown_def nghttp2_stream_init_def Let_def ng_defs split: if_splits)
  qed (use own q that in auto)
qed

lemma close_step:
  assumes inv: "flow_inv ss peer" and s: "live ss sid s" "valid_sid sid" and cb: "quiet_close cb ss sid ec"
    and op: "nghttp2_session_close_stream cb ss sid ec = Some (rv, ss')"
  shows "flow_inv ss' peer" "flow_full ss \<Longrightarrow> flow_full ss'"
proof -
  have ok: "streams_ok ss" using inv by (simp add: flow_inv_def)
  note c = close_spec [OF ok s cb op]
  have gone: "\<not> strm_ok sid a ss'" for a using c(3) by (simp add: strm_ok_def)
  have old: "strm_ok t a ss \<and> stream_meta (s_heap ss' a) = stream_meta (s_heap ss a)" if "strm_ok t a ss'" "t \<noteq> sid" for t a
  proof -
    have t: "valid_sid t" by (rule strm_ok_valid [OF that(1)])
    have "(word_of_int t :: u32) \<noteq> word_of_int sid" using word_sid_inj [OF t s(2)] that(2) by simp
    from c(4) [OF this] have m: "map_abs (s_streams ss') (word_of_int t) = map_abs (s_streams ss) (word_of_int t)" .
    have "map_abs (s_streams ss) (word_of_int t) \<noteq> Some s"
      using ok live_id [OF ok s(2,1)] valid_sid_sint [OF t] that(2) by (auto simp: streams_ok_def)
    then have "live ss t a" "stream_meta (s_heap ss' a) = stream_meta (s_heap ss a)"
      using life_frame_live [OF ok c(1,2) m] that(1) by (auto simp: strm_ok_def)
    then show ?thesis using live_strm_ok [OF ok _ t] by blast
  qed
  have l: "session_rest ss' = session_rest ss" "sid \<noteq> 0" using c(2) s(2) by (auto simp: life_frame_def valid_sid_def)
  note s = life_step [OF inv c(1) l(1) old _ l(2), where peer' = peer]
  show "flow_inv ss' peer" by (rule s) (use gone in auto)
  show "flow_full ss'" if "flow_full ss" by (rule s(2)) (use gone that in auto)
qed

subsection \<open>Runs\<close>

text \<open>
  The events that move the windows, with the peer's own account beside the session: the peer sends at
  most what it may, the application consumes data and moves windows, and the WINDOW_UPDATE at the
  front of the queue is sent, or dropped when its stream is gone.  Streams are opened under ids that
  were not used before, in a block of memory that is not in use, and closed; the receiver moves
  between its states.  Only events that succeed are steps; after an allocation failure the
  session is to be deleted.  A run is \<open>careful\<close> when it enlarges no window with
  \<open>nghttp2_submit_window_update\<close> that was reduced before, and every stream may still receive data.
\<close>

inductive flow_step :: "bool \<Rightarrow> nghttp2_session \<times> (int \<Rightarrow> int) \<Rightarrow> nghttp2_session \<times> (int \<Rightarrow> int) \<Rightarrow> bool" for careful where
  data: "live ss sid s \<Longrightarrow> valid_sid sid \<Longrightarrow> int n \<le> peer 0 \<Longrightarrow> int n \<le> peer sid \<Longrightarrow>
    s_consumed_size ss + int pad \<le> NGHTTP2_MAX_WINDOW_SIZE \<Longrightarrow> consumed_size (s_heap ss s) + int pad \<le> NGHTTP2_MAX_WINDOW_SIZE \<Longrightarrow>
    s_iframe_state ss \<noteq> NGHTTP2_IB_IGN_ALL \<Longrightarrow> (careful \<Longrightarrow> \<not> last_chunk) \<Longrightarrow>
    read_data_flow ss sid s n pad last_chunk = Some (Inr (), ss') \<Longrightarrow>
    flow_step careful (ss, peer) (ss', peer(0 := peer 0 - int n, sid := peer sid - int n))"
| ignored: "int n \<le> peer 0 \<Longrightarrow> s_consumed_size ss + int n \<le> NGHTTP2_MAX_WINDOW_SIZE \<Longrightarrow> s_iframe_state ss \<noteq> NGHTTP2_IB_IGN_ALL \<Longrightarrow>
    ignore_data_flow ss n = Some (Inr (), ss') \<Longrightarrow> flow_step careful (ss, peer) (ss', peer(0 := peer 0 - int n))"
| consume: "live ss sid s \<Longrightarrow> valid_sid sid \<Longrightarrow> s_consumed_size ss + int n \<le> NGHTTP2_MAX_WINDOW_SIZE \<Longrightarrow>
    consumed_size (s_heap ss s) + int n \<le> NGHTTP2_MAX_WINDOW_SIZE \<Longrightarrow> nghttp2_session_consume ss sid n = Some (0, ss') \<Longrightarrow>
    flow_step careful (ss, peer) (ss', peer)"
| consume_connection: "s_consumed_size ss + int n \<le> NGHTTP2_MAX_WINDOW_SIZE \<Longrightarrow> nghttp2_session_consume_connection ss n = Some (0, ss') \<Longrightarrow>
    flow_step careful (ss, peer) (ss', peer)"
| consume_stream: "live ss sid s \<Longrightarrow> valid_sid sid \<Longrightarrow> consumed_size (s_heap ss s) + int n \<le> NGHTTP2_MAX_WINDOW_SIZE \<Longrightarrow>
    nghttp2_session_consume_stream ss sid n = Some (0, ss') \<Longrightarrow> flow_step careful (ss, peer) (ss', peer)"
| submit: "sid = 0 \<or> valid_sid sid \<Longrightarrow> is_i32 incr \<Longrightarrow> (careful \<Longrightarrow> incr \<le> 0 \<or> unreduced ss sid) \<Longrightarrow>
    nghttp2_submit_window_update ss sid incr = Some (0, ss') \<Longrightarrow> flow_step careful (ss, peer) (ss', peer)"
| resize: "sid = 0 \<or> valid_sid sid \<Longrightarrow> l \<le> NGHTTP2_MAX_WINDOW_SIZE \<Longrightarrow> nghttp2_session_set_local_window_size ss sid l = Some (0, ss') \<Longrightarrow>
    flow_step careful (ss, peer) (ss', peer)"
| sent: "s_ob_urgent ss = [] \<Longrightarrow> nghttp2_session_pop_next_ob_item ss = Some (Some it, s1) \<Longrightarrow> s_ob_reg ss \<noteq> [] \<Longrightarrow>
    oi_frame it = Window_update_frame f \<Longrightarrow> sid = fh_stream_id (wu_hd f) \<Longrightarrow> sid = 0 \<or> valid_sid sid \<Longrightarrow>
    session_predicate_window_update_send s1 sid = Some 0 \<Longrightarrow> window_update_sent s1 sid = Some (0, ss') \<Longrightarrow>
    flow_step careful (ss, peer) (ss', peer(sid := peer sid + window_size_increment f))"
| other_sent: "nghttp2_session_pop_next_ob_item ss = Some (Some it, ss') \<Longrightarrow> s_ob_urgent ss \<noteq> [] \<or> s_ob_reg ss \<noteq> [] \<Longrightarrow>
    (\<And>f. oi_frame it \<noteq> Window_update_frame f) \<Longrightarrow> flow_step careful (ss, peer) (ss', peer)"
| dropped: "s_ob_urgent ss = [] \<Longrightarrow> nghttp2_session_pop_next_ob_item ss = Some (Some it, ss') \<Longrightarrow> s_ob_reg ss \<noteq> [] \<Longrightarrow>
    oi_frame it = Window_update_frame f \<Longrightarrow> sid = fh_stream_id (wu_hd f) \<Longrightarrow> sid \<noteq> 0 \<Longrightarrow>
    nghttp2_session_get_stream ss' sid = Some None \<Longrightarrow> flow_step careful (ss, peer) (ss', peer)"
| opened: "valid_sid sid \<Longrightarrow> nghttp2_session_get_stream_raw ss sid = Some None \<Longrightarrow> map_room (s_streams ss) \<Longrightarrow> dep_known ss pri \<Longrightarrow>
    increments ss sid = [] \<Longrightarrow> 0 \<le> sint (st_initial_window_size (s_local_settings ss)) \<Longrightarrow> (careful \<Longrightarrow> \<not> send_only ss sid st) \<Longrightarrow>
    nghttp2_session_open_stream ss sid fl pri st ud = Some (Some s, ss') \<Longrightarrow> s \<notin> ran (map_abs (s_streams ss)) \<Longrightarrow>
    flow_step careful (ss, peer) (ss', peer(sid := sint (st_initial_window_size (s_local_settings ss))))"
| closed: "live ss sid s \<Longrightarrow> valid_sid sid \<Longrightarrow> quiet_close cb ss sid ec \<Longrightarrow>
    nghttp2_session_close_stream cb ss sid ec = Some (rv, ss') \<Longrightarrow> flow_step careful (ss, peer) (ss', peer)"
| receiver: "flow_step careful (ss, peer) (ss\<lparr>s_iframe_state := st, s_payloadleft := n\<rparr>, peer)"

inductive_cases flow_stepE: "flow_step careful (ss, peer) (ss', peer')"

lemma ignore_data_step:
  assumes "flow_inv ss peer" "int n \<le> peer 0" "s_consumed_size ss + int n \<le> NGHTTP2_MAX_WINDOW_SIZE"
    and op: "ignore_data_flow ss n = Some (Inr (), ss')"
  shows "flow_inv ss' (peer(0 := peer 0 - int n)) \<and> (flow_full ss \<longrightarrow> flow_full ss')"
proof (cases "n = 0")
  case True
  then show ?thesis using assms(1) op by (simp add: ignore_data_flow_def fun_upd_idem)
next
  case nz: False
  obtain rv s1 where c: "nghttp2_session_update_recv_connection_window_size ss n = Some (rv, s1)" "rv = 0 \<or> rv = NGHTTP2_ERR_NOMEM"
    "conn_frame ss s1" "flow_inv s1 (peer(0 := peer 0 - int n))" "rv = 0 \<longrightarrow> flow_full ss \<longrightarrow> flow_full s1" "w_cons (conn_get s1) = w_cons (conn_get ss)"
    using conn_recv_step [OF assms(1,2)] by blast
  have "s_consumed_size s1 + int n \<le> NGHTTP2_MAX_WINDOW_SIZE" using c(6) assms(3) by (simp add: conn_get_def)
  from conn_consume_step [OF c(4) this] c op show ?thesis
    by (auto simp: ignore_data_flow_def nz flow_full_def conn_frame_def same_rest_def split: if_splits)
qed

lemma consume_connection_step:
  assumes "flow_inv ss peer" "s_consumed_size ss + int n \<le> NGHTTP2_MAX_WINDOW_SIZE" "nghttp2_session_consume_connection ss n = Some (0, ss')"
  shows "flow_inv ss' peer \<and> (flow_full ss \<longrightarrow> flow_full ss')"
  using conn_consume_step [OF assms(1,2)] assms(3)
  by (auto simp: nghttp2_session_consume_connection_def flow_full_def NGHTTP2_ERR_INVALID_STATE_def split: if_splits)

lemma consume_stream_step:
  assumes "flow_inv ss peer" "strm_ok sid s ss" "consumed_size (s_heap ss s) + int n \<le> NGHTTP2_MAX_WINDOW_SIZE"
    "nghttp2_session_consume_stream ss sid n = Some (0, ss')"
  shows "flow_inv ss' peer \<and> (flow_full ss \<longrightarrow> flow_full ss')"
  using strm_consume_step [OF assms(1-3)] assms(2,4)
  by (auto simp: nghttp2_session_consume_stream_def flow_full_def NGHTTP2_ERR_INVALID_STATE_def strm_ok_def split: if_splits)

lemma pop_reg:
  assumes "s_ob_urgent ss = []" "s_ob_reg ss = it # q"
  shows "nghttp2_session_pop_next_ob_item ss = Some (Some (it\<lparr>oi_queued := False\<rparr>), ss\<lparr>s_ob_reg := q\<rparr>)"
  using assms by (simp add: nghttp2_session_pop_next_ob_item_def nghttp2_outbound_queue_top_def nghttp2_outbound_queue_pop_def)

lemma other_sent_step:
  assumes inv: "flow_inv ss peer" and e: "conn_get ss' = conn_get ss" "s_core ss' = s_core ss" "s_streams ss' = s_streams ss" "s_opt_flags ss' = s_opt_flags ss"
    "\<And>t. increments ss' t = increments ss t"
  shows "flow_inv ss' peer \<and> (flow_full ss \<longrightarrow> flow_full ss')"
proof -
  have g: "nghttp2_session_get_stream ss' t = nghttp2_session_get_stream ss t" for t using e by (intro get_stream_cong) simp_all
  have o: "streams_ok ss' = streams_ok ss" using e by (simp add: streams_ok_def)
  have s: "strm_ok sid s ss' = strm_ok sid s ss" for sid s using g o e by (simp add: strm_ok_def)
  have w: "strm_get s ss' = strm_get s ss" for s using e by (simp add: strm_get_def)
  show ?thesis
    using inv window_inv_cong [OF e(1) e(5)] window_inv_cong [where get = "strm_get s" for s, OF w e(5)] s o e w
    by (simp add: flow_inv_def flow_full_def)
qed

lemma drop_step:
  assumes inv: "flow_inv ss peer" and q: "s_ob_reg ss = it # q" and f: "oi_frame it = Window_update_frame f" "fh_stream_id (wu_hd f) \<noteq> 0"
    and gone: "nghttp2_session_get_stream (ss\<lparr>s_ob_reg := q\<rparr>) (fh_stream_id (wu_hd f)) = Some None"
  shows "flow_inv (ss\<lparr>s_ob_reg := q\<rparr>) peer \<and> (flow_full ss \<longrightarrow> flow_full (ss\<lparr>s_ob_reg := q\<rparr>))"
proof -
  let ?s = "ss\<lparr>s_ob_reg := q\<rparr>" and ?t = "fh_stream_id (wu_hd f)"
  have g: "nghttp2_session_get_stream ?s t = nghttp2_session_get_stream ss t" for t by (intro get_stream_cong) simp_all
  have o: "strm_ok sid a ?s \<longleftrightarrow> strm_ok sid a ss" for sid a using g by (simp add: strm_ok_def streams_ok_def)
  have w: "conn_get ?s = conn_get ss" "strm_get a ?s = strm_get a ss" for a by (simp_all add: conn_get_def strm_get_def)
  have i: "increments ?s t = increments ss t" if "t \<noteq> ?t" for t using that increments_pop [OF q] wu_inc_frame [OF f(1), of t] by simp
  have "sid \<noteq> ?t" if "strm_ok sid a ss" for sid a using that gone g by (auto simp: strm_ok_def)
  then have "window_inv (strm_get a) sid ?s \<and> credit_of (strm_get a) sid ?s = peer sid" if "strm_ok sid a ss" for sid a
    using window_inv_cong [where get = "strm_get a", OF w(2) i] that flow_inv_strm [OF inv that] by metis
  moreover have "streams_ok ?s" using inv by (simp add: flow_inv_def streams_ok_def)
  ultimately have "flow_inv ?s peer"
    using window_inv_cong [where get = conn_get and sid = 0, OF w(1) i] f(2) flow_inv_conn [OF inv] o by (simp add: flow_inv_def)
  then show ?thesis using o w by (simp add: flow_full_def)
qed

lemma flow_step_inv:
  assumes "flow_step careful (ss, peer) (ss', peer')" "flow_inv ss peer"
  shows "flow_inv ss' peer' \<and> (careful \<longrightarrow> flow_full ss \<longrightarrow> flow_full ss')"
  using assms(1)
proof (rule flow_stepE, goal_cases data ignored consume consume_connection consume_stream submit resize sent other_sent dropped opened closed receiver)
  case c: (data sid s n pad last_chunk)
  then have "strm_ok sid s ss" using assms(2) live_strm_ok by (simp add: flow_inv_def valid_sid_def)
  then show ?thesis using read_data_step [OF assms(2) _ c(4-8), of last_chunk] c by auto
next
  case c: (ignored n)
  then show ?thesis using ignore_data_step [OF assms(2)] by blast
next
  case c: (consume sid s n)
  then have "strm_ok sid s ss" using assms(2) live_strm_ok by (simp add: flow_inv_def valid_sid_def)
  then show ?thesis using consume_step [OF assms(2)] c by fastforce
next
  case c: (consume_connection n)
  then show ?thesis using consume_connection_step [OF assms(2)] by blast
next
  case c: (consume_stream sid s n)
  then have "strm_ok sid s ss" using assms(2) live_strm_ok by (simp add: flow_inv_def valid_sid_def)
  then show ?thesis using consume_stream_step [OF assms(2)] c by blast
next
  case c: (submit sid incr)
  then show ?thesis using submit_step [OF assms(2)] by blast
next
  case c: (resize sid l)
  then show ?thesis using resize_step [OF assms(2)] by blast
next
  case c: (sent it s1 f)
  define sid where "sid = fh_stream_id (wu_hd f)"
  obtain it0 q where q: "s_ob_reg ss = it0 # q" using c(4) by (cases "s_ob_reg ss") auto
  then have it: "it = it0\<lparr>oi_queued := False\<rparr>" "s1 = ss\<lparr>s_ob_reg := q\<rparr>" using pop_reg [OF c(2)] c(3) by simp_all
  then have f: "oi_frame it0 = Window_update_frame f" using c(5) by simp
  show ?thesis
  proof (cases "sid = 0")
    case True
    then show ?thesis using conn_sent_step [OF assms(2) q f] c it by (auto simp: sid_def)
  next
    case False
    then have "session_is_closing s1 = False" "\<exists>s. live s1 sid s" using c(7)
      by (auto simp: sid_def session_predicate_window_update_send_def ng_defs split: if_splits option.splits Option.bind_splits)
    moreover have "nghttp2_session_get_stream s1 t = nghttp2_session_get_stream ss t" for t using it by (intro get_stream_cong) simp_all
    ultimately obtain s where "live ss sid s" by auto
    then have "strm_ok sid s ss" using False c(6) assms(2) live_strm_ok by (simp add: flow_inv_def valid_sid_def sid_def)
    then show ?thesis using strm_sent_step [OF assms(2) q f] c it by (auto simp: sid_def)
  qed
next
  case c: (other_sent it)
  show ?thesis
  proof (cases "s_ob_urgent ss")
    case Nil
    then obtain it0 q where q: "s_ob_reg ss = it0 # q" using c by (cases "s_ob_reg ss") auto
    then have it: "it = it0\<lparr>oi_queued := False\<rparr>" "ss' = ss\<lparr>s_ob_reg := q\<rparr>" using pop_reg [OF Nil] c(2) by simp_all
    have "wu_inc t it0 = 0" for t using c(4) it by (cases "oi_frame it0") (auto simp: wu_inc_def)
    then show ?thesis using other_sent_step [OF assms(2), of ss'] it increments_pop [OF q] c(1) by (simp add: conn_get_def)
  next
    case (Cons it0 q)
    then have "ss' = ss\<lparr>s_ob_urgent := q\<rparr>" using c(2)
      by (simp add: nghttp2_session_pop_next_ob_item_def nghttp2_outbound_queue_top_def nghttp2_outbound_queue_pop_def)
    then show ?thesis using other_sent_step [OF assms(2), of ss'] c(1) by (simp add: conn_get_def increments_def)
  qed
next
  case c: (dropped it f)
  obtain it0 q where q: "s_ob_reg ss = it0 # q" using c(4) by (cases "s_ob_reg ss") auto
  then have it: "it = it0\<lparr>oi_queued := False\<rparr>" "ss' = ss\<lparr>s_ob_reg := q\<rparr>" using pop_reg [OF c(2)] c(3) by simp_all
  show ?thesis using drop_step [OF assms(2) q] c it by simp
next
  case c: (opened sid pri st fl ud s)
  then show ?thesis using open_step [OF assms(2) c(2-7,9,10)] by blast
next
  case c: (closed sid s cb ec rv)
  then show ?thesis using close_step [OF assms(2) c(2-5)] by blast
next
  case c: (receiver st n)
  then show ?thesis using other_sent_step [OF assms(2), of ss'] by (simp add: conn_get_def increments_def)
qed

text \<open>The peer of a new session may send 65535 bytes.\<close>

lemma new_session_inv:
  assumes "new_session sm op ss" "peer 0 = 65535"
  shows "flow_inv ss peer" "auto_window_update ss \<Longrightarrow> flow_full ss"
proof -
  note f = new_session_facts [OF assms(1)] and t = new_session_streams [OF assms(1)]
  have none: "\<not> strm_ok sid s ss" for sid s using t by (simp add: strm_ok_def live_iff)
  have w: "fresh_wnd (conn_get ss)" "w_local (conn_get ss) = 65535" using f by (simp_all add: fresh_wnd_def conn_get_def NGHTTP2_MAX_WINDOW_SIZE_def)
  have "increments ss 0 = []" using f(2) by (simp add: increments_def)
  from fresh_window_inv [of conn_get, OF w(1) this] show "flow_inv ss peer" using t none w(2) assms(2) by (simp add: flow_inv_def)
  show "auto_window_update ss \<Longrightarrow> flow_full ss" using none fresh_replenished [OF w(1)] by (simp add: flow_full_def)
qed

lemma flow_run_inv:
  assumes "(flow_step careful)\<^sup>*\<^sup>* (ss0, peer0) (ss, peer)" "flow_inv ss0 peer0"
  shows "flow_inv ss peer \<and> (careful \<longrightarrow> flow_full ss0 \<longrightarrow> flow_full ss)"
  using assms by (induction "(ss, peer)" arbitrary: ss peer rule: rtranclp_induct) (auto dest: flow_step_inv)

lemma window_inv_bounds:
  "window_inv get sid ss \<Longrightarrow> 0 \<le> credit_of get sid ss \<and> credit_of get sid ss + pending ss sid \<le> NGHTTP2_MAX_WINDOW_SIZE"
  by (simp add: window_inv_def wnd_ok_def credit_def)

lemma window_not_stalled:
  assumes "window_inv get sid ss" "replenished (get ss)"
  shows "wu_waiting ss sid \<or> w_local (get ss) - w_local (get ss) div 2 \<le> credit_of get sid ss"
proof (cases "wu_waiting ss sid")
  case False
  then have z: "\<forall>it \<in> set (s_ob_reg ss). wu_inc sid it = 0"
    using assms(1) by (force simp: window_inv_def wu_waiting_def list_all_iff list_ex_iff)
  then have "pending ss sid = 0" by (simp add: pending_def sum_list_eq_0_iff map_idI cong: map_cong)
  moreover have "\<not> nghttp2_should_send_window_update (w_local (get ss)) (w_recv (get ss))"
    using assms False by (auto simp: replenished_def window_inv_def)
  ultimately show ?thesis using assms(1) by (auto simp: window_inv_def wnd_ok_def should_send_iff credit_def)
qed simp

lemma ample_run:
  obtains ss0 ss where "new_session ample_memory None ss0" "auto_window_update ss0" "live ss 1 1"
    "flow_step True (ss0, \<lambda>_. 65535) (ss, \<lambda>_. 65535)"
proof -
  obtain ss ss' where n: "new_session ample_memory None ss"
    "nghttp2_session_open_stream ss 1 0 nghttp2_priority_spec_default_init NGHTTP2_STREAM_OPENED 0 = Some (Some 1, ss')" by (rule ample_open)
  note t = new_session_streams [OF n(1)] and f = new_session_facts [OF n(1)]
  have v: "valid_sid 1" by (simp add: valid_sid_def INT32_MAX_def)
  have d: "dep_known ss nghttp2_priority_spec_default_init"
    by (simp add: dep_known_def nghttp2_priority_spec_default_init_def session_detect_idle_stream_def nghttp2_session_is_my_stream_id_def
        session_is_new_peer_stream_id_def)
  have step: "flow_step True (ss, \<lambda>_. 65535) (ss', (\<lambda>_. 65535)(1 := sint (st_initial_window_size (s_local_settings ss))))"
    by (rule flow_step.opened [OF v _ _ d _ _ _ n(2)]) (use t f in \<open>simp_all add: raw_find increments_def send_only_def\<close>)
  have eq: "(\<lambda>_. 65535)(1 := sint (st_initial_window_size (s_local_settings ss))) = (\<lambda>_. 65535)" using f(9) by (simp add: fun_eq_iff)
  have l: "live ss' 1 1"
  proof -
    obtain fl' where o: "clean_flags 0 \<Longrightarrow> clean_flags fl'" "stream_meta (s_heap ss' 1) = stream_meta (new_stream ss 1 fl' NGHTTP2_STREAM_OPENED 0)" "streams_ok ss'"
      "map_abs (s_streams ss') = (map_abs (s_streams ss))(word_of_int 1 \<mapsto> 1)"
      using open_new_spec [OF _ v _ _ d n(2)] t by (metis empty_iff ran_empty)
    have "clean_flags fl'" using o(1) by (simp add: clean_flags_def)
    then show ?thesis using o(3,4) findable_meta [OF o(2)] new_stream_findable by (simp add: live_iff)
  qed
  have a: "auto_window_update ss" using f(8) by simp
  show ?thesis by (rule that [OF n(1) a l step [unfolded eq]])
qed

text \<open>
  C8.  Flow control accounts exactly.  In every run of a new session, with streams opened and closed,
  data received and consumed and windows moved, in which the peer sends no more than it may, what
  the peer may still send is, for the connection and for every open stream, the window minus the
  bytes not given back minus the increments still queued; it is never negative, and with all queued
  increments added it never exceeds 2^31-1, so that no WINDOW_UPDATE of this session makes the peer
  report a flow-control error.
\<close>

theorem flow_control_exact:
  assumes "new_session sm op ss0" and "peer0 0 = 65535" and "(flow_step careful)\<^sup>*\<^sup>* (ss0, peer0) (ss, peer)"
  shows "(peer 0 = s_local_window_size ss - s_recv_window_size ss - pending ss 0 \<and>
      0 \<le> peer 0 \<and> peer 0 + pending ss 0 \<le> NGHTTP2_MAX_WINDOW_SIZE) \<and>
    (\<forall>sid s. live ss sid s \<longrightarrow> valid_sid sid \<longrightarrow>
      peer sid = local_window_size (s_heap ss s) - recv_window_size (s_heap ss s) - pending ss sid \<and>
      0 \<le> peer sid \<and> peer sid + pending ss sid \<le> NGHTTP2_MAX_WINDOW_SIZE)"
proof -
  have inv: "flow_inv ss peer" using flow_run_inv [OF assms(3)] new_session_inv(1) [where peer = peer0, OF assms(1,2)] by simp
  have c: "credit_of conn_get 0 ss = peer 0" "window_inv conn_get 0 ss" using flow_inv_conn [OF inv] by simp_all
  have "credit_of (strm_get s) sid ss = peer sid \<and> 0 \<le> peer sid \<and> peer sid + pending ss sid \<le> NGHTTP2_MAX_WINDOW_SIZE"
    if "live ss sid s" "valid_sid sid" for sid s
  proof -
    have "strm_ok sid s ss" using live_strm_ok [OF _ that] inv by (simp add: flow_inv_def)
    from flow_inv_strm [OF inv this] show ?thesis using window_inv_bounds [of "strm_get s" sid ss] by simp
  qed
  then show ?thesis using c window_inv_bounds [OF c(2)] by (simp add: credit_def conn_get_def strm_get_def)
qed

theorem flow_control_exact_witness:
  "\<exists>ss. live ss 1 1 \<and> pending ss 1 \<le> 2147418112 \<and> local_window_size (s_heap ss 1) - recv_window_size (s_heap ss 1) - pending ss 1 = 65535"
proof -
  obtain ss0 ss where r: "new_session ample_memory None ss0" "live ss 1 1" "flow_step True (ss0, \<lambda>_. 65535) (ss, \<lambda>_. 65535)"
    by (rule ample_run)
  have run: "(flow_step True)\<^sup>*\<^sup>* (ss0, \<lambda>_. 65535) (ss, \<lambda>_. 65535)" using r(3) by (rule r_into_rtranclp)
  have "valid_sid 1" by (simp add: valid_sid_def INT32_MAX_def)
  with flow_control_exact [OF r(1) _ run] r(2)
  have "65535 = local_window_size (s_heap ss 1) - recv_window_size (s_heap ss 1) - pending ss 1" "65535 + pending ss 1 \<le> NGHTTP2_MAX_WINDOW_SIZE" by auto
  then show ?thesis using r(2) by (intro exI [of _ ss]) (simp add: NGHTTP2_MAX_WINDOW_SIZE_def)
qed

text \<open>
  C9.  A peer that keeps to its windows is never refused.  In every state of such a run, \<open>n\<close> bytes of
  DATA within both windows of the peer are accepted: no RST_STREAM and no GOAWAY is caused, no signed
  arithmetic overflows, and the only failure is an allocation failure.
\<close>

theorem honest_peer_accepted:
  assumes "new_session sm op ss0" and "peer0 0 = 65535" and "(flow_step careful)\<^sup>*\<^sup>* (ss0, peer0) (ss, peer)"
    and "live ss sid s" and "valid_sid sid" and "int n \<le> peer 0" and "int n \<le> peer sid"
    and "s_consumed_size ss + int pad \<le> NGHTTP2_MAX_WINDOW_SIZE" and "consumed_size (s_heap ss s) + int pad \<le> NGHTTP2_MAX_WINDOW_SIZE"
    and "s_iframe_state ss = NGHTTP2_IB_READ_DATA"
  shows "\<exists>r ss'. read_data_flow ss sid s n pad last_chunk = Some (r, ss') \<and> (r = Inr () \<or> r = Inl (Some NGHTTP2_ERR_NOMEM)) \<and>
    s_goaway_flags ss' = s_goaway_flags ss \<and> s_iframe_state ss' = NGHTTP2_IB_READ_DATA \<and> live ss' sid s \<and>
    state (s_heap ss' s) = state (s_heap ss s)"
proof -
  have inv: "flow_inv ss peer" using flow_run_inv [OF assms(3)] new_session_inv(1) [where peer = peer0, OF assms(1,2)] by simp
  then have ok: "strm_ok sid s ss" using live_strm_ok [OF _ assms(4,5)] by (simp add: flow_inv_def)
  have "s_iframe_state ss \<noteq> NGHTTP2_IB_IGN_ALL" using assms(10) by simp
  from read_data_step [OF inv ok assms(6-9) this, of last_chunk] obtain r ss'
    where r: "read_data_flow ss sid s n pad last_chunk = Some (r, ss')" "r = Inr () \<or> r = Inl (Some NGHTTP2_ERR_NOMEM)" "keeps ss ss'" by blast
  then have "strm_rest (s_heap ss' s) = strm_rest (s_heap ss s)" by (simp add: keeps_def)
  from strm_rest_eqD [OF this] show ?thesis using r assms(4,10) by (auto simp: keeps_def same_rest_def)
qed

theorem honest_peer_accepted_witness:
  "\<exists>ss r ss'. live ss 1 1 \<and> s_iframe_state ss = NGHTTP2_IB_READ_DATA \<and> read_data_flow ss 1 1 1000 0 True = Some (r, ss') \<and>
     (r = Inr () \<or> r = Inl (Some NGHTTP2_ERR_NOMEM)) \<and> live ss' 1 1"
proof -
  obtain ss0 ss where r: "new_session ample_memory None ss0" "live ss 1 1" "flow_step True (ss0, \<lambda>_. 65535) (ss, \<lambda>_. 65535)"
    by (rule ample_run)
  let ?s = "ss\<lparr>s_iframe_state := NGHTTP2_IB_READ_DATA, s_payloadleft := 1000\<rparr>"
  have run: "(flow_step True)\<^sup>*\<^sup>* (ss0, \<lambda>_. 65535) (?s, \<lambda>_. 65535)"
    using r(3) flow_step.receiver [of True ss "\<lambda>_. 65535"] by (meson converse_rtranclp_into_rtranclp r_into_rtranclp)
  have l: "live ?s 1 1" using r(2) get_stream_cong [of ?s ss 1] by simp
  have v: "valid_sid 1" by (simp add: valid_sid_def INT32_MAX_def)
  have inv: "flow_inv ?s (\<lambda>_. 65535)" using flow_run_inv [OF run] new_session_inv(1) [where peer = "\<lambda>_. 65535", OF r(1)] by simp
  then have "strm_ok 1 1 ?s" using live_strm_ok [OF _ l v] by (simp add: flow_inv_def)
  then have c: "s_consumed_size ?s \<le> NGHTTP2_MAX_WINDOW_SIZE" "consumed_size (s_heap ?s 1) \<le> NGHTTP2_MAX_WINDOW_SIZE"
    using flow_inv_conn [OF inv] flow_inv_strm [OF inv, of 1 1] by (simp_all add: window_inv_def wnd_ok_def conn_get_def strm_get_def)
  from honest_peer_accepted [OF r(1) _ run l v, of 1000 0 True] c l show ?thesis by (intro exI [of _ ?s]) auto
qed



text \<open>
  C13.  The restriction to careful runs is needed.  A new session with automatic updates gets into this
  state: its window is 100 bytes, but the peer may send none and no WINDOW_UPDATE is queued, nor is
  one by any later event but a further request of the application.  The window is reduced to
  nothing, the peer uses its credit, and then \<open>nghttp2_submit_window_update\<close> asks for 100 bytes, which
  only takes the reduction back.
\<close>

theorem submit_window_update_stalls:
  "\<exists>ss0 ss peer. new_session ample_memory None ss0 \<and> auto_window_update ss0 \<and> (flow_step False)\<^sup>*\<^sup>* (ss0, \<lambda>_. 65535) (ss, peer) \<and>
     s_local_window_size ss = 100 \<and> peer 0 = 0 \<and> \<not> wu_waiting ss 0 \<and> \<not> s_window_update_queued ss"
proof -
  obtain s0 s0' where n: "new_session ample_memory None s0"
    "nghttp2_session_open_stream s0 1 0 nghttp2_priority_spec_default_init NGHTTP2_STREAM_OPENED 0 = Some (Some 1, s0')" by (rule ample_open)
  note f = new_session_facts [OF n(1)]
  let ?st = "s0\<lparr>s_iframe_state := NGHTTP2_IB_IGN_DATA, s_payloadleft := 65535\<rparr>"
  let ?s1 = "?st\<lparr>s_local_window_size := 0, s_recv_window_size := - 65535, s_recv_reduction := 65535\<rparr>"
  let ?s2 = "?s1\<lparr>s_recv_window_size := 0\<rparr>"
  let ?s3 = "?s2\<lparr>s_local_window_size := 100, s_recv_window_size := 100, s_recv_reduction := 65435\<rparr>"
  have 1: "nghttp2_session_set_local_window_size ?st 0 0 = Some (0, ?s1)" using f
    by (simp add: nghttp2_session_set_local_window_size_def session_window_def store_session_window_def window_simps)
  have 2: "ignore_data_flow ?s1 65535 = Some (Inr (), ?s2)" using f
    by (simp add: ignore_data_flow_def nghttp2_session_update_recv_connection_window_size_def adjust_recv_window_size_def to_i32_small
        nghttp2_should_send_window_update_def window_simps Stream.NGHTTP2_MAX_WINDOW_SIZE_def)
  have 3: "nghttp2_submit_window_update ?s2 0 100 = Some (0, ?s3)" using f
    by (simp add: nghttp2_submit_window_update_def session_window_def store_session_window_def window_simps)
  let ?p = "(\<lambda>_. 65535)(0 := 65535 - int 65535)"
  have "flow_step False (s0, \<lambda>_. 65535) (?st, \<lambda>_. 65535)" by (rule flow_step.receiver)
  moreover have "flow_step False (?st, \<lambda>_. 65535) (?s1, \<lambda>_. 65535)"
    by (rule flow_step.resize [OF _ _ 1]) (simp_all add: NGHTTP2_MAX_WINDOW_SIZE_def)
  moreover have "flow_step False (?s1, \<lambda>_. 65535) (?s2, ?p)"
    by (rule flow_step.ignored [OF _ _ _ 2]) (use f in \<open>simp_all add: NGHTTP2_MAX_WINDOW_SIZE_def\<close>)
  moreover have "flow_step False (?s2, ?p) (?s3, ?p)"
    by (rule flow_step.submit [OF _ _ _ 3]) (simp_all add: is_i32_def INT32_MIN_def INT32_MAX_def)
  ultimately have "(flow_step False)\<^sup>*\<^sup>* (s0, \<lambda>_. 65535) (?s3, ?p)"
    by (meson converse_rtranclp_into_rtranclp rtranclp.rtrancl_refl)
  moreover have "auto_window_update s0" using f(8) by simp
  ultimately show ?thesis using n(1) f by (intro exI [of _ s0] exI [of _ ?s3] exI [of _ ?p]) (simp add: wu_waiting_def)
qed

end
