(* ===== verification/Spec2Isabelle.thy ===== *)
theory Spec2Isabelle
  imports Ratelim Header_Chars Helper Queue Pq Stream Scheduler Map_Table Buf Hd_Huffman Hd_Integer Hd_Token Hd_Table Hd_Deflate Hd_Inflate Hpack Frame Frame_Headers Sfparse Http Alpn Rcbuf Options Dep_Tree Session Session_Streams Session_Flow Flow_Run
begin

text \<open>
  A verification of libnghttp2, the HTTP/2 engine of the system: the port in
  \<open>src/legacy-os/ports/libnghttp2\<close>, which its HTTP client links.  All file names below are relative to
  that directory.

  \<^bold>\<open>The program.\<close>  A session (\<open>nghttp2_session.c\<close>) is one end of an HTTP/2 connection.  It keeps its
  streams in a hash map from ids to objects (\<open>nghttp2_map.c\<close>).  A stream object (\<open>nghttp2_stream.c\<close>)
  carries the state of the exchange, the flow-control windows and the item to be sent next; streams
  wait for their turn in priority queues (\<open>nghttp2_pq.c\<close>), either one per urgency level (RFC 9218, in
  the session) or one per node of a dependency tree (RFC 7540).  Frames are written to and read from
  chains of buffers (\<open>nghttp2_frame.c\<close>, \<open>nghttp2_buf.c\<close>).  The fields of a message are compressed by
  HPACK (\<open>nghttp2_hd.c\<close>, \<open>nghttp2_hd_huffman.c\<close>) and checked against RFC 9113 (\<open>nghttp2_http.c\<close>), with
  the priority field read by a parser of structured fields (\<open>sfparse.c\<close>).

  \<^bold>\<open>Conventions.\<close>  A C function is a HOL function of the same name; loops and parts of long functions
  have names of their own.  Structures are records, enumerations datatypes or constants.  Unsigned
  integers that may wrap are words of their width.  Signed 32-bit values are integers, and an
  arithmetic step on them goes through \<open>i32\<close>, which is \<open>None\<close> on overflow.  Lengths, counters and
  addresses that cannot reach their limit are natural numbers.  \<open>None\<close> as the result of an operation
  stands for what must not happen: a failed \<open>assert\<close>, an access outside an array, a signed overflow
  or a loop that does not end; a theorem that a result is \<open>Some\<close> excludes all of these.  Error codes
  are values (\<open>rc\<close>), and every early return is a branch.  Memory comes from an allocator that is an
  argument (\<open>mem\<close>, \<open>allocator\<close>, \<open>s_alloc\<close>): each request may fail, and where contents matter, fresh
  blocks hold arbitrary bytes.  Linked objects live in heaps, functions from addresses to records, so
  that aliasing is explicit.  Callbacks of the application are arguments.

  \<^bold>\<open>Containers and small components.\<close>
  \<^item> \<open>Prelude\<close>: shared facts on lists, words and options, and the collection \<open>ng_defs\<close> of constants.
  \<^item> \<open>Map_Table\<close> (\<open>nghttp2_map.c\<close>): the Robin Hood table with its probe, insertion, growth and backward
    shift.  The invariant says where each key may lie; with it the unbounded loops end and find,
    insert and remove refine those of a partial map.  The locale \<open>kv_map\<close> states this contract.
  \<^item> \<open>Pq\<close> (\<open>nghttp2_pq.c\<close>) and \<open>Queue\<close> (\<open>nghttp2_queue.c\<close>): the binary heap with the position kept in
    the entries, an ordered set for every strict weak order; the linked queue, a list.
  \<^item> \<open>Buf\<close> (\<open>nghttp2_buf.c\<close>): chains of chunks.  Adding succeeds exactly when the bytes fit, never writes
    outside a chunk, and a reset chain can be read back.
  \<^item> \<open>Ratelim\<close>, \<open>Rcbuf\<close>, \<open>Alpn\<close>, \<open>Options\<close>, \<open>Helper\<close>, \<open>Header_Chars\<close>: the token bucket, which is exact in
    64 bits; reference counts; protocol selection; the option block; big-endian integers and the
    adjustment of a window; the six character tables and the checks over them.

  \<^bold>\<open>HPACK.\<close>
  \<^item> \<open>Hd_Huffman_Data\<close>, \<open>Huffman_Tables\<close>, \<open>Hd_Huffman\<close>: both tables entry by entry.  The encoder writes the
    packed codes, the table-driven decoder accepts exactly the codes of some octets with their
    padding, and decoding inverts encoding however the input is cut.
  \<^item> \<open>Hd_Integer\<close>, \<open>Hd_Token\<close>: prefixed integers and their resumable decoder; the token switch and the
    static table with its hashes.
  \<^item> \<open>Hd_Table\<close>: the dynamic table as ring buffer and hash map refines the list of RFC 7541.
  \<^item> \<open>Hd_Deflate\<close>, \<open>Hd_Inflate\<close>, \<open>Hpack\<close>: the deflater emits representations that mean its fields; the
    inflater, on any input cut anywhere, stays within its buffers and keeps its invariant; composed,
    they deliver the fields and stay in sync, also across changes of the table size.

  \<^bold>\<open>Frames and messages.\<close>
  \<^item> \<open>Frame\<close>, \<open>Frame_Headers\<close> (\<open>nghttp2_frame.c\<close>): every frame type packs to a header and a payload that
    unpack to it; field sections are split into HEADERS and CONTINUATION frames that the peer puts
    together again; padding; the two-pass reader of ORIGIN.
  \<^item> \<open>Sfparse\<close> (\<open>sfparse.c\<close>) and \<open>Http\<close> (\<open>nghttp2_http.c\<close>): the parser never leaves its input and reads
    serialised dictionaries back; a request is accepted exactly when it is well formed, and the body
    rules of responses are exact.

  \<^bold>\<open>Streams and sessions.\<close>
  \<^item> \<open>Stream\<close>, \<open>Dep_Tree\<close> (\<open>nghttp2_stream.c\<close>): the object, its weighted cycles and its queues; the surgery
    on the dependency tree, with the proof that no operation on the tree touches the windows, the
    state, the flags or the items of any stream.
  \<^item> \<open>Scheduler\<close> (\<open>nghttp2_session.c\<close>): the queues per urgency.  In every reachable state the next item is
    that of a most urgent stream that nothing precedes, and incremental streams take turns.
  \<^item> \<open>Session\<close>: the record of the session, its creation with options, the stream table, the outbound
    queues, the frames the library queues itself, opening, closing and reprioritising of streams.
  \<^item> \<open>Session_Streams\<close>: opening and closing go through the map, the tree, both schedulers and the lists of
    idle and closed streams; seen from outside, one id appears or disappears and nothing else moves.
  \<^item> \<open>Session_Flow\<close>: the operations on the receive windows of the connection and of the streams, which the
    code writes twice, and the limits on sending.  The locale \<open>flow_window\<close> states once what a window
    needs from the session (how its fields are read and written, what it leaves alone, how an
    increment is queued) and proves the account of each operation from it.
  \<^item> \<open>Flow_Run\<close>: both interpretations of that locale, and runs as a step relation over the session and
    the account of the peer, from a new session on.  The two accounts agree, a peer that keeps to its
    windows is never refused, and with automatic updates no window dries up without a WINDOW_UPDATE
    on its way.

  \<^bold>\<open>Loops and bounds.\<close>  Loops whose end is not structural are partial functions into \<open>option\<close>; no fuel is
  used.  That they return is part of the theorems on the map, the buffers, the Huffman code, the
  inflater, the parser and the priority queues.  The map theorems need room for the next entry below
  \<open>2^30\<close> slots, where the load test in 32 bits is exact.  The loops over the links of the dependency
  tree end when the links form a tree; this is not proved, and the theorems on opening and closing
  speak of calls that return.  Opening a stream with the default priority is shown to return.

  \<^bold>\<open>Not modelled.\<close>  The two state machines that dispatch bytes to the components
  (\<open>nghttp2_session_mem_recv2\<close>, \<open>nghttp2_session_mem_send2\<close> with \<open>session_prep_frame\<close>), except for the parts
  that move windows; the handlers of HEADERS, PUSH_PROMISE, SETTINGS, GOAWAY and extension frames and
  the changes of settings; the submit functions other than those of flow control: they sequence
  modelled operations with application callbacks between them.  Error strings, callback setters, the
  clock, the default allocator and debug output have no logic.  In runs, streams that a new stream
  depends on exist already, and changes of SETTINGS_INITIAL_WINDOW_SIZE do not occur.  All other
  programs under \<open>src/legacy-os/ports\<close> are third-party code, built as they are.
\<close>

end
